(* ===== verification/Prelude.thy ===== *)
theory Prelude
  imports Main "HOL-Library.AList"
begin

text \<open>
  Shared vocabulary of the development.  The orchestrator is a TypeScript program: its
  mutable containers are JavaScript \<^verbatim>\<open>Map\<close>s, whose iteration order is the order
  of first insertion.  They are modelled by association lists: \<^verbatim>\<open>map.get\<close> is
  \<^const>\<open>map_of\<close>, \<^verbatim>\<open>map.set\<close> is \<open>AList.update\<close> (an existing key keeps its
  position, a new one goes to the end) and \<^verbatim>\<open>map.delete\<close> is \<open>AList.delete\<close>.
  A value that is mutated in place through a reference obtained from the map is
  \<open>jmodify\<close>.  Values of type \<^verbatim>\<open>unknown\<close> are JSON trees; an optional property or a
  possibly \<^verbatim>\<open>undefined\<close> result is an \<open>option\<close>; a \<^verbatim>\<open>throw\<close> is the left injection of a
  sum.  Times are milliseconds since the epoch as integers, and \<^verbatim>\<open>Date.now()\<close> is an
  argument of the operation that reads it.
\<close>

section \<open>Values\<close>

datatype json =
    JNull
  | JBool bool
  | JNum int
  | JStr string
  | JArr "json list"
  | JObj "(string \<times> json) list"

type_synonym time = int

type_synonym ('k, 'v) jsmap = "('k \<times> 'v) list"

section \<open>Insertion-ordered maps\<close>

abbreviation jset :: "'k \<Rightarrow> 'v \<Rightarrow> ('k, 'v) jsmap \<Rightarrow> ('k, 'v) jsmap" where
  "jset \<equiv> AList.update"

abbreviation jdelete :: "'k \<Rightarrow> ('k, 'v) jsmap \<Rightarrow> ('k, 'v) jsmap" where
  "jdelete \<equiv> AList.delete"

abbreviation jhas :: "('k, 'v) jsmap \<Rightarrow> 'k \<Rightarrow> bool" where
  "jhas m k \<equiv> map_of m k \<noteq> None"

abbreviation jkeys :: "('k, 'v) jsmap \<Rightarrow> 'k list" where
  "jkeys m \<equiv> map fst m"

abbreviation jvalues :: "('k, 'v) jsmap \<Rightarrow> 'v list" where
  "jvalues m \<equiv> map snd m"

abbreviation jwf :: "('k, 'v) jsmap \<Rightarrow> bool" where
  "jwf m \<equiv> distinct (jkeys m)"

definition jmodify :: "'k \<Rightarrow> ('v \<Rightarrow> 'v) \<Rightarrow> ('k, 'v) jsmap \<Rightarrow> ('k, 'v) jsmap" where
  "jmodify k f m = (case map_of m k of None \<Rightarrow> m | Some v \<Rightarrow> jset k (f v) m)"

definition jget_or :: "'v \<Rightarrow> ('k, 'v) jsmap \<Rightarrow> 'k \<Rightarrow> 'v" where
  "jget_or d m k = (case map_of m k of None \<Rightarrow> d | Some v \<Rightarrow> v)"

named_theorems jmap_simps \<open>lookup after the operations on insertion-ordered maps\<close>

lemma map_of_jset [jmap_simps]: "map_of (jset k v m) = (map_of m)(k \<mapsto> v)"
  by (rule AList.update_conv')

lemma map_of_jdelete [jmap_simps]: "map_of (jdelete k m) = (map_of m)(k := None)"
  by (rule AList.delete_conv')

lemma map_of_jmodify [jmap_simps]:
  "map_of (jmodify k f m) = (map_of m)(k := map_option f (map_of m k))"
  by (auto simp: jmodify_def map_of_jset fun_eq_iff split: option.splits)

lemma jget_or_jset: "jget_or d (jset k v m) k' = (if k' = k then v else jget_or d m k')"
  by (simp add: jget_or_def map_of_jset)

lemma jwf_jset [simp]: "jwf m \<Longrightarrow> jwf (jset k v m)"
  by (rule AList.distinct_update)

lemma jwf_jdelete [simp]: "jwf m \<Longrightarrow> jwf (jdelete k m)"
  by (rule AList.distinct_delete)

lemma jwf_jmodify [simp]: "jwf m \<Longrightarrow> jwf (jmodify k f m)"
  by (simp add: jmodify_def split: option.splits)

lemma jkeys_jset: "jkeys (jset k v m) = (if k \<in> set (jkeys m) then jkeys m else jkeys m @ [k])"
  by (induction m) auto

lemma jkeys_jmodify [simp]: "jkeys (jmodify k f m) = jkeys m"
  by (auto simp: jmodify_def jkeys_jset map_of_eq_None_iff split: option.splits dest: map_of_SomeD
      intro: rev_image_eqI)

lemma jhas_iff_key: "jhas m k \<longleftrightarrow> k \<in> set (jkeys m)"
  by (simp add: map_of_eq_None_iff)

lemma in_jvalues_iff:
  "jwf m \<Longrightarrow> v \<in> set (jvalues m) \<longleftrightarrow> (\<exists>k. map_of m k = Some v)"
  by (auto simp: map_of_eq_Some_iff image_iff) force

lemma map_of_filter_values:
  "jwf m \<Longrightarrow> map_of (filter (\<lambda>(k, v). P k v) m) k =
     (case map_of m k of None \<Rightarrow> None | Some v \<Rightarrow> if P k v then Some v else None)"
  by (induction m) (auto simp: map_of_eq_None_iff split: option.splits)

lemma jwf_filter [simp]: "jwf m \<Longrightarrow> jwf (filter P m)"
  by (rule distinct_map_filter)

lemma jvaluesI: "map_of m k = Some v \<Longrightarrow> v \<in> set (jvalues m)"
  by (force dest: map_of_SomeD)

lemma jvalues_jset: "v' \<in> set (jvalues (jset k v m)) \<Longrightarrow> v' = v \<or> v' \<in> set (jvalues m)"
  by (induction m) (auto split: if_splits)

lemma set_jset: "x \<in> set (jset k v m) \<Longrightarrow> x = (k, v) \<or> x \<in> set m"
  by (induction m) (auto split: if_splits)

lemma set_jdelete: "x \<in> set (jdelete k m) \<Longrightarrow> x \<in> set m"
  by (simp add: AList.delete_eq)

lemma jset_new: "k \<notin> set (jkeys m) \<Longrightarrow> jset k v m = m @ [(k, v)]"
  by (induction m) auto

lemma jset_refresh: "jset k v (jdelete k m) = jdelete k m @ [(k, v)]"
  using AList.delete_notin_dom [of k m] by (intro jset_new) simp

lemma length_jdelete_key: "length (jdelete k m) \<le> length m"
  by (simp add: AList.delete_eq)

lemma length_jdelete_less: "jhas m k \<Longrightarrow> length (jdelete k m) < length m"
proof -
  assume "jhas m k"
  then obtain v where "(k, v) \<in> set m" by (auto dest: map_of_SomeD)
  then show ?thesis unfolding AList.delete_eq by (rule length_filter_less) simp
qed

text \<open>Inserting the values of a map under their own keys, in order, rebuilds the map.\<close>

lemma fold_jset_rebuild:
  "jwf (acc @ m) \<Longrightarrow> (\<And>k v. (k, v) \<in> set m \<Longrightarrow> k = key v) \<Longrightarrow>
     fold (\<lambda>v. jset (key v) (f v)) (jvalues m) acc = acc @ map (\<lambda>(k, v). (k, f v)) m"
proof (induction m arbitrary: acc)
  case (Cons x m)
  obtain k v where x: "x = (k, v)" by (cases x)
  then have k: "k = key v" using Cons.prems(2) by simp
  have "jset k (f v) acc = acc @ [(k, f v)]"
    using Cons.prems(1) x by (intro jset_new) auto
  then have "jset (key v) (f v) acc = acc @ [(k, f v)]" by (simp add: k)
  with Cons x show ?case by simp
qed simp

lemma map_of_fold_jset:
  "distinct (map fst items) \<Longrightarrow>
     map_of (fold (\<lambda>(i, b). jset i (f i b)) items m) k =
     (case map_of items k of None \<Rightarrow> map_of m k | Some b \<Rightarrow> Some (f k b))"
proof (induction items arbitrary: m)
  case (Cons x items)
  then have "map_of items (fst x) = None" by (simp add: map_of_eq_None_iff)
  with Cons show ?case
    by (cases "k = fst x") (simp_all add: case_prod_unfold jmap_simps split: option.split)
qed simp

lemma jwf_fold_jset [simp]: "jwf m \<Longrightarrow> jwf (fold (\<lambda>(i, b). jset i (f i b)) items m)"
  by (induction items arbitrary: m) auto

section \<open>Lists\<close>

lemma length_filter_mono:
  "(\<And>x. x \<in> set xs \<Longrightarrow> P x \<Longrightarrow> Q x) \<Longrightarrow> length (filter P xs) \<le> length (filter Q xs)"
  by (induction xs) (auto simp: le_SucI)

lemma filter_gt_gt: "(a::int) \<le> c \<Longrightarrow> filter (\<lambda>t. t > c) (filter (\<lambda>t. t > a) xs) = filter (\<lambda>t. t > c) xs"
  by (induction xs) auto

lemma find_distinct: "distinct (map f xs) \<Longrightarrow> v \<in> set xs \<Longrightarrow> List.find (\<lambda>x. f x = f v) xs = Some v"
  by (induction xs) (auto simp: image_iff)

text \<open>Splitting a text at its first colon.\<close>

lemma colon_split:
  "CHR '':'' \<notin> set p \<Longrightarrow> CHR '':'' \<notin> set p' \<Longrightarrow>
     p @ CHR '':'' # s = p' @ CHR '':'' # s' \<longleftrightarrow> p = p' \<and> s = s'"
proof (induction p arbitrary: p')
  case Nil
  then show ?case by (cases p') auto
next
  case (Cons c p)
  then show ?case by (cases p') auto
qed

section \<open>Numbers in messages\<close>

fun show_nat :: "nat \<Rightarrow> string" where
  "show_nat n = (if n < 10 then [char_of (48 + n)] else show_nat (n div 10) @ [char_of (48 + n mod 10)])"

declare show_nat.simps [simp del]

definition show_int :: "int \<Rightarrow> string" where
  "show_int i = (if i < 0 then ''-'' @ show_nat (nat (- i)) else show_nat (nat i))"

definition join_strings :: "string \<Rightarrow> string list \<Rightarrow> string" where
  "join_strings sep xs = concat (if xs = [] then [] else hd xs # map (\<lambda>x. sep @ x) (tl xs))"

section \<open>Strings\<close>

text \<open>\<^verbatim>\<open>trim\<close> and \<^verbatim>\<open>toLowerCase\<close> on the characters of the model.\<close>

definition is_space :: "char \<Rightarrow> bool" where
  "is_space c \<longleftrightarrow> (of_char c :: nat) \<in> {9, 10, 11, 12, 13, 32, 160}"

definition trim :: "string \<Rightarrow> string" where
  "trim s = rev (dropWhile is_space (rev (dropWhile is_space s)))"

definition lower_char :: "char \<Rightarrow> char" where
  "lower_char c =
     (let n = (of_char c :: nat) in if 65 \<le> n \<and> n \<le> 90 then char_of (n + 32) else c)"

abbreviation lower_case :: "string \<Rightarrow> string" where
  "lower_case s \<equiv> map lower_char s"

text \<open>\<^verbatim>\<open>split\<close> at a character.\<close>

fun split_on :: "char \<Rightarrow> string \<Rightarrow> string list" where
  "split_on c [] = [[]]"
| "split_on c (x # xs) =
     (if x = c then [] # split_on c xs
      else (case split_on c xs of [] \<Rightarrow> [[x]] | y # ys \<Rightarrow> (x # y) # ys))"

lemma split_on_ne [simp]: "split_on c s \<noteq> []"
  by (cases s) (auto split: list.splits)

lemma split_on_append: "split_on c (a @ c # b) = split_on c a @ split_on c b"
proof (induction a)
  case (Cons x a)
  obtain y ys where "split_on c a = y # ys" by (cases "split_on c a") auto
  with Cons show ?case by auto
qed simp

end
