(* ===== verification/Execution_Graph.thy ===== *)
theory Execution_Graph
  imports Prelude "HOL-Library.Multiset"
begin

text \<open>
  Definitions for the agent execution graph,
  \<^verbatim>\<open>services/orchestrator/src/agents/ExecutionGraph.ts\<close>: the node and graph
  definitions, the validation the constructor performs (schema, duplicate identifiers,
  missing dependencies, cycle detection, entry nodes), the reverse dependency map, and the
  scheduler.  The scheduler is asynchronous; between two \<^verbatim>\<open>await\<close>s JavaScript runs
  without interruption, so each such segment is one function on \<open>GraphState\<close>, and the
  suspended calls of \<^verbatim>\<open>scheduleNode\<close> and \<^verbatim>\<open>executeNode\<close> are recorded as frames.
\<close>

section \<open>Node types and schemas\<close>

datatype NodeType = TASK | CONDITION | PARALLEL | MERGE | LOOP

datatype NodeStatus = PENDING | RUNNING | COMPLETED | FAILED | SKIPPED | BLOCKED

record RetryPolicy =
  rp_maxRetries :: int
  rp_backoffMs :: int
  rp_exponential :: bool

record NodeDefinition =
  nd_id :: string
  nd_type :: NodeType
  nd_name :: string
  nd_description :: "string option"
  nd_dependencies :: "string list"
  nd_config :: "(string, json) jsmap"
  nd_retryPolicy :: "RetryPolicy option"
  nd_timeout :: "int option"
  nd_continueOnError :: "bool option"

record ErrorInfo =
  er_message :: string
  er_stack :: "string option"
  er_retryCount :: int

record NodeExecution =
  ne_nodeId :: string
  ne_status :: NodeStatus
  ne_startTime :: "time option"
  ne_endTime :: "time option"
  ne_duration :: "int option"
  ne_output :: "json option"
  ne_error :: "ErrorInfo option"
  ne_attempts :: int

record GraphDefinition =
  gd_id :: string
  gd_name :: string
  gd_description :: "string option"
  gd_nodes :: "NodeDefinition list"
  gd_entryNodes :: "string list"
  gd_variables :: "(string, json) jsmap option"

datatype GraphError =
    EmptyGraph
  | SchemaError string
  | DuplicateNodeId string
  | MissingDependency string string
  | CycleDetected string string
  | NoEntryNodes

text \<open>\<^verbatim>\<open>NodeDefinitionSchema.parse\<close>: the length and range constraints of the schema; its
  type constraints hold by typing.\<close>

definition retryPolicy_ok :: "RetryPolicy \<Rightarrow> bool" where
  "retryPolicy_ok p \<longleftrightarrow>
     0 \<le> rp_maxRetries p \<and> rp_maxRetries p \<le> 10 \<and> 0 \<le> rp_backoffMs p"

definition nodeDefinitionSchema :: "NodeDefinition \<Rightarrow> bool" where
  "nodeDefinitionSchema n \<longleftrightarrow>
     1 \<le> length (nd_id n) \<and> 1 \<le> length (nd_name n) \<and>
     (case nd_retryPolicy n of None \<Rightarrow> True | Some p \<Rightarrow> retryPolicy_ok p) \<and>
     (case nd_timeout n of None \<Rightarrow> True | Some t \<Rightarrow> 1000 \<le> t \<and> t \<le> 3600000)"

section \<open>Graph validation\<close>

definition find_node :: "NodeDefinition list \<Rightarrow> string \<Rightarrow> NodeDefinition option" where
  "find_node nodes i = find (\<lambda>n. nd_id n = i) nodes"

definition deps_of :: "NodeDefinition list \<Rightarrow> string \<Rightarrow> string list" where
  "deps_of nodes i = (case find_node nodes i of None \<Rightarrow> [] | Some n \<Rightarrow> nd_dependencies n)"

text \<open>The inner loop over the dependencies of one node: the first missing one is reported.\<close>

fun check_dependencies ::
  "NodeDefinition list \<Rightarrow> string list \<Rightarrow> string \<Rightarrow> string list \<Rightarrow> GraphError + unit" where
  "check_dependencies nodes nodeIds i [] = Inr ()"
| "check_dependencies nodes nodeIds i (d # ds) =
     (if d \<notin> set nodeIds \<and> \<not> list_ex (\<lambda>n. nd_id n = d) nodes
      then Inl (MissingDependency i d)
      else check_dependencies nodes nodeIds i ds)"

text \<open>The loop over the nodes; \<open>nodeIds\<close> is the set of identifiers met so far.\<close>

fun validate_nodes ::
  "NodeDefinition list \<Rightarrow> string list \<Rightarrow> NodeDefinition list \<Rightarrow> GraphError + unit" where
  "validate_nodes nodes nodeIds [] = Inr ()"
| "validate_nodes nodes nodeIds (n # ns) =
     (if \<not> nodeDefinitionSchema n then Inl (SchemaError (nd_id n))
      else if nd_id n \<in> set nodeIds then Inl (DuplicateNodeId (nd_id n))
      else case check_dependencies nodes (nd_id n # nodeIds) (nd_id n) (nd_dependencies n) of
             Inl e \<Rightarrow> Inl e
           | Inr _ \<Rightarrow> validate_nodes nodes (nd_id n # nodeIds) ns)"

text \<open>
  \<^verbatim>\<open>detectCycles\<close>: the closure \<^verbatim>\<open>dfs\<close> and its two sets \<^verbatim>\<open>visited\<close> and
  \<^verbatim>\<open>recursionStack\<close> (lists here).  \<open>dfs_deps nodes p ds V S\<close> is the \<^verbatim>\<open>for\<close> loop
  over the dependencies \<open>ds\<close> of \<open>p\<close>; the call \<^verbatim>\<open>dfs(depId)\<close> on an unvisited
  identifier adds it to both sets, runs the loop over its own dependencies, deletes it
  from the stack and returns \<^verbatim>\<open>false\<close>, after which the \<^verbatim>\<open>else if\<close> is evaluated.
\<close>

function dfs_deps ::
  "NodeDefinition list \<Rightarrow> string \<Rightarrow> string list \<Rightarrow> string list \<Rightarrow> string list
     \<Rightarrow> GraphError + (string list \<times> string list)" where
  "dfs_deps nodes p [] V S = Inr (V, S)"
| "dfs_deps nodes p (d # ds) V S =
     (if d \<notin> set V then
        (case dfs_deps nodes d (deps_of nodes d) (d # V) (d # S) of
           Inl e \<Rightarrow> Inl e
         | Inr (V', S') \<Rightarrow>
             (if d \<in> set (removeAll d S') then Inl (CycleDetected p d)
              else dfs_deps nodes p ds V' (removeAll d S')))
      else if d \<in> set S then Inl (CycleDetected p d)
      else dfs_deps nodes p ds V S)"
  by pat_completeness auto

lemma deps_of_unknown: "i \<notin> nd_id ` set nodes \<Longrightarrow> deps_of nodes i = []"
  by (auto simp: deps_of_def find_node_def find_None_iff split: option.splits)
     (metis (mono_tags, lifting) find_None_iff image_eqI option.distinct(1))

lemma dfs_deps_visited_grows:
  "dfs_deps_dom (nodes, p, ds, V, S) \<Longrightarrow> dfs_deps nodes p ds V S = Inr (V', S') \<Longrightarrow>
     set V \<subseteq> set V'"
proof (induction arbitrary: V' S' rule: dfs_deps.pinduct)
  case (2 nodes p d ds V S)
  then show ?case
    by (fastforce simp: dfs_deps.psimps split: if_splits sum.splits prod.splits)
qed (simp add: dfs_deps.psimps)

termination dfs_deps
proof (relation "inv_image (finite_psubset <*lex*> less_than)
    (\<lambda>(nodes, p, ds, V, S). (nd_id ` set nodes - set V, length ds))", goal_cases)
  case 1
  then show ?case by auto
next
  case (2 nodes p d ds V S)
  then show ?case
    by (cases "d \<in> nd_id ` set nodes") (auto simp: finite_psubset_def deps_of_unknown)
next
  case (3 nodes p d ds V S x V' S')
  then have "set (d # V) \<subseteq> set V'"
    by (metis dfs_deps_visited_grows)
  then show ?case by (auto simp: finite_psubset_def)
next
  case (4 nodes p d ds V S)
  then show ?case by (auto simp: finite_psubset_def)
qed

text \<open>The outer loop: every node not yet visited is a root; \<^verbatim>\<open>recursionStack\<close> and
  \<^verbatim>\<open>visited\<close> are shared by all roots.\<close>

fun detectCycles_loop ::
  "NodeDefinition list \<Rightarrow> string list \<Rightarrow> string list \<Rightarrow> string list \<Rightarrow> GraphError + unit" where
  "detectCycles_loop nodes [] V S = Inr ()"
| "detectCycles_loop nodes (r # rs) V S =
     (if r \<in> set V then detectCycles_loop nodes rs V S
      else case dfs_deps nodes r (deps_of nodes r) (r # V) (r # S) of
             Inl e \<Rightarrow> Inl e
           | Inr (V', S') \<Rightarrow> detectCycles_loop nodes rs V' (removeAll r S'))"

definition detectCycles :: "NodeDefinition list \<Rightarrow> GraphError + unit" where
  "detectCycles nodes = detectCycles_loop nodes (map nd_id nodes) [] []"

definition validateGraph :: "GraphDefinition \<Rightarrow> GraphError + GraphDefinition" where
  "validateGraph d =
     (if gd_nodes d = [] then Inl EmptyGraph
      else case validate_nodes (gd_nodes d) [] (gd_nodes d) of
        Inl e \<Rightarrow> Inl e
      | Inr _ \<Rightarrow>
          (case detectCycles (gd_nodes d) of
             Inl e \<Rightarrow> Inl e
           | Inr _ \<Rightarrow>
               (if gd_entryNodes d = []
                then let entries = map nd_id (filter (\<lambda>n. nd_dependencies n = []) (gd_nodes d))
                     in if entries = [] then Inl NoEntryNodes
                        else Inr (d\<lparr>gd_entryNodes := entries\<rparr>)
                else Inr d)))"

section \<open>Dependency map and initial executions\<close>

definition set_add :: "'a \<Rightarrow> 'a list \<Rightarrow> 'a list" where
  "set_add x xs = (if x \<in> set xs then xs else xs @ [x])"

fun add_dependents ::
  "string \<Rightarrow> string list \<Rightarrow> (string, string list) jsmap \<Rightarrow> (string, string list) jsmap" where
  "add_dependents i [] m = m"
| "add_dependents i (d # ds) m = add_dependents i ds (jset d (set_add i (jget_or [] m d)) m)"

fun buildDependencyMap ::
  "NodeDefinition list \<Rightarrow> (string, string list) jsmap \<Rightarrow> (string, string list) jsmap" where
  "buildDependencyMap [] m = m"
| "buildDependencyMap (n # ns) m =
     buildDependencyMap ns (add_dependents (nd_id n) (nd_dependencies n) m)"

definition initial_execution :: "string \<Rightarrow> NodeExecution" where
  "initial_execution i = \<lparr>ne_nodeId = i, ne_status = PENDING, ne_startTime = None, ne_endTime = None,
     ne_duration = None, ne_output = None, ne_error = None, ne_attempts = 0\<rparr>"

fun initializeExecutions ::
  "NodeDefinition list \<Rightarrow> (string, NodeExecution) jsmap \<Rightarrow> (string, NodeExecution) jsmap" where
  "initializeExecutions [] m = m"
| "initializeExecutions (n # ns) m =
     initializeExecutions ns (jset (nd_id n) (initial_execution (nd_id n)) m)"

section \<open>The graph object\<close>

record ExecutionContext =
  cx_graphId :: string
  cx_executionId :: string
  cx_variables :: "(string, json) jsmap"
  cx_outputs :: "(string, json) jsmap"
  cx_metadata :: "(string, json) jsmap"

text \<open>
  The suspended asynchronous calls.  \<open>Waiting i\<close>: \<^verbatim>\<open>scheduleNode(i)\<close> sleeping in its
  concurrency loop.  \<open>InFlight i\<close>: \<^verbatim>\<open>executeNode(i)\<close> awaiting the handler or its
  timeout.  \<open>Backoff i\<close>: \<^verbatim>\<open>executeNode(i)\<close> in the sleep before a retry.
  \<open>RetryWaiting i\<close>: \<^verbatim>\<open>executeNode(i)\<close> awaiting the \<^verbatim>\<open>scheduleNode(i)\<close> of its retry,
  itself sleeping in the concurrency loop.  \<open>Returning i\<close>: \<^verbatim>\<open>executeNode(i)\<close> has
  settled and its \<^verbatim>\<open>finally\<close> callback has not run yet.
\<close>

datatype frame =
    Waiting string
  | InFlight string
  | Backoff string
  | RetryWaiting string
  | Returning string

record GraphState =
  gs_definition :: GraphDefinition
  gs_context :: ExecutionContext
  gs_executions :: "(string, NodeExecution) jsmap"
  gs_handlers :: "NodeType list"
  gs_dependencyMap :: "(string, string list) jsmap"
  gs_running :: bool
  gs_concurrencyLimit :: int
  gs_activeExecutions :: int
  gs_frames :: "frame multiset"

abbreviation gs_nodes :: "GraphState \<Rightarrow> NodeDefinition list" where
  "gs_nodes st \<equiv> gd_nodes (gs_definition st)"

definition new_ExecutionGraph :: "GraphDefinition \<Rightarrow> int \<Rightarrow> string \<Rightarrow> GraphError + GraphState" where
  "new_ExecutionGraph d limit execId =
     (case validateGraph d of
        Inl e \<Rightarrow> Inl e
      | Inr d' \<Rightarrow> Inr
          \<lparr>gs_definition = d',
           gs_context = \<lparr>cx_graphId = gd_id d, cx_executionId = execId,
             cx_variables = (case gd_variables d of None \<Rightarrow> [] | Some v \<Rightarrow> v),
             cx_outputs = [], cx_metadata = []\<rparr>,
           gs_executions = initializeExecutions (gd_nodes d') [],
           gs_handlers = [],
           gs_dependencyMap = buildDependencyMap (gd_nodes d') [],
           gs_running = False,
           gs_concurrencyLimit = limit,
           gs_activeExecutions = 0,
           gs_frames = {#}\<rparr>)"

definition registerHandler :: "NodeType \<Rightarrow> GraphState \<Rightarrow> GraphState" where
  "registerHandler t st = st\<lparr>gs_handlers := set_add t (gs_handlers st)\<rparr>"

definition hasHandler :: "NodeType \<Rightarrow> GraphState \<Rightarrow> bool" where
  "hasHandler t st \<longleftrightarrow> t \<in> set (gs_handlers st)"

section \<open>Scheduling\<close>

definition continues :: "NodeDefinition list \<Rightarrow> string \<Rightarrow> bool" where
  "continues nodes i =
     (case find_node nodes i of None \<Rightarrow> False | Some n \<Rightarrow> nd_continueOnError n = Some True)"

definition dep_satisfied :: "GraphState \<Rightarrow> string \<Rightarrow> bool" where
  "dep_satisfied st d =
     (case map_of (gs_executions st) d of
        None \<Rightarrow> False
      | Some ex \<Rightarrow> ne_status ex = COMPLETED \<or> ne_status ex = FAILED \<and> continues (gs_nodes st) d)"

definition canExecute :: "GraphState \<Rightarrow> string \<Rightarrow> bool" where
  "canExecute st i =
     (case map_of (gs_executions st) i of
        None \<Rightarrow> False
      | Some ex \<Rightarrow> ne_status ex = PENDING \<and> list_all (dep_satisfied st) (deps_of (gs_nodes st) i))"

text \<open>Taking a slot and running \<^verbatim>\<open>executeNode\<close> up to its first suspension.\<close>

definition begin_execution :: "time \<Rightarrow> NodeExecution \<Rightarrow> NodeExecution" where
  "begin_execution now ex = ex\<lparr>ne_status := RUNNING, ne_startTime := Some now,
     ne_attempts := ne_attempts ex + 1\<rparr>"

definition start_node :: "time \<Rightarrow> string \<Rightarrow> GraphState \<Rightarrow> GraphState" where
  "start_node now i st = st\<lparr>gs_activeExecutions := gs_activeExecutions st + 1,
     gs_executions := jmodify i (begin_execution now) (gs_executions st),
     gs_frames := add_mset (InFlight i) (gs_frames st)\<rparr>"

definition scheduleNode :: "time \<Rightarrow> string \<Rightarrow> GraphState \<Rightarrow> GraphState" where
  "scheduleNode now i st =
     (if gs_activeExecutions st \<ge> gs_concurrencyLimit st
      then st\<lparr>gs_frames := add_mset (Waiting i) (gs_frames st)\<rparr>
      else start_node now i st)"

fun scheduleNodes :: "time \<Rightarrow> string list \<Rightarrow> GraphState \<Rightarrow> GraphState" where
  "scheduleNodes now [] st = st"
| "scheduleNodes now (i # is) st =
     scheduleNodes now is (if canExecute st i then scheduleNode now i st else st)"

definition dependents :: "GraphState \<Rightarrow> string \<Rightarrow> string list" where
  "dependents st i = jget_or [] (gs_dependencyMap st) i"

text \<open>\<^verbatim>\<open>markBlockedDependents\<close>: one pass over the dependents of the head of the queue,
  which returns the newly blocked ones, and the queue loop around it.\<close>

fun block_dependents ::
  "string list \<Rightarrow> (string, NodeExecution) jsmap \<Rightarrow> (string, NodeExecution) jsmap \<times> string list" where
  "block_dependents [] E = (E, [])"
| "block_dependents (d # ds) E =
     (case map_of E d of
        None \<Rightarrow> block_dependents ds E
      | Some ex \<Rightarrow>
          if ne_status ex = PENDING
          then let (E', pushed) = block_dependents ds (jset d (ex\<lparr>ne_status := BLOCKED\<rparr>) E)
               in (E', d # pushed)
          else block_dependents ds E)"

definition pending_count :: "(string, NodeExecution) jsmap \<Rightarrow> nat" where
  "pending_count E = length (filter (\<lambda>kv. ne_status (snd kv) = PENDING) E)"

lemma pending_count_block:
  "map_of E d = Some ex \<Longrightarrow> ne_status ex = PENDING \<Longrightarrow>
     Suc (pending_count (jset d (ex\<lparr>ne_status := BLOCKED\<rparr>) E)) = pending_count E"
  by (induction E) (auto simp: pending_count_def split: if_splits)

lemma block_dependents_count:
  "block_dependents ds E = (E', pushed) \<Longrightarrow> pending_count E' + length pushed = pending_count E"
  by (induction ds E arbitrary: E' pushed rule: block_dependents.induct)
     (auto split: option.splits if_splits prod.splits dest: pending_count_block)

function markBlocked_loop ::
  "(string, string list) jsmap \<Rightarrow> (string, NodeExecution) jsmap \<Rightarrow> string list \<Rightarrow> string list
     \<Rightarrow> (string, NodeExecution) jsmap" where
  "markBlocked_loop m E visited [] = E"
| "markBlocked_loop m E visited (c # queue) =
     (if c \<in> set visited then markBlocked_loop m E visited queue
      else let (E', pushed) = block_dependents (jget_or [] m c) E
           in markBlocked_loop m E' (c # visited) (queue @ pushed))"
  by pat_completeness auto
termination
proof (relation "measures [\<lambda>(m, E, v, q). pending_count E, \<lambda>(m, E, v, q). length q]", goal_cases)
  case (3 m E visited c queue EP E' pushed)
  then have "pending_count E' + length pushed = pending_count E"
    by (simp add: block_dependents_count)
  then show ?case by (cases pushed) auto
qed auto

definition markBlockedDependents :: "string \<Rightarrow> GraphState \<Rightarrow> GraphState" where
  "markBlockedDependents i st =
     st\<lparr>gs_executions := markBlocked_loop (gs_dependencyMap st) (gs_executions st) [] [i]\<rparr>"

section \<open>Node execution\<close>

definition end_execution :: "time \<Rightarrow> NodeExecution \<Rightarrow> NodeExecution" where
  "end_execution now ex = ex\<lparr>ne_endTime := Some now,
     ne_duration := Some (now - (case ne_startTime ex of None \<Rightarrow> 0 | Some t \<Rightarrow> t))\<rparr>"

definition settle_frame :: "frame \<Rightarrow> frame \<Rightarrow> GraphState \<Rightarrow> GraphState" where
  "settle_frame f g st = st\<lparr>gs_frames := add_mset g (gs_frames st - {#f#})\<rparr>"

text \<open>The continuation of \<^verbatim>\<open>executeNode\<close> when the handler fulfils.\<close>

definition complete_node :: "time \<Rightarrow> string \<Rightarrow> json \<Rightarrow> GraphState \<Rightarrow> GraphState" where
  "complete_node now i out st =
     (let st1 = st\<lparr>gs_executions := jmodify i
                (\<lambda>ex. (end_execution now ex)\<lparr>ne_status := COMPLETED, ne_output := Some out\<rparr>)
                (gs_executions st),
              gs_context := (gs_context st)\<lparr>cx_outputs := jset i out (cx_outputs (gs_context st))\<rparr>\<rparr>;
          st2 = settle_frame (InFlight i) (Returning i) st1
      in scheduleNodes now (dependents st2 i) st2)"

definition should_retry :: "GraphState \<Rightarrow> string \<Rightarrow> bool" where
  "should_retry st i =
     (case (find_node (gs_nodes st) i, map_of (gs_executions st) i) of
        (Some n, Some ex) \<Rightarrow>
          (case nd_retryPolicy n of
             None \<Rightarrow> False
           | Some p \<Rightarrow> ne_attempts ex < rp_maxRetries p + 1 \<and> gs_running st)
      | _ \<Rightarrow> False)"

definition retry_error :: "string \<Rightarrow> string option \<Rightarrow> NodeExecution \<Rightarrow> ErrorInfo" where
  "retry_error msg stack ex =
     (let e = (case ne_error ex of
                 None \<Rightarrow> \<lparr>er_message = msg, er_stack = stack, er_retryCount = 0\<rparr>
               | Some e \<Rightarrow> e)
      in e\<lparr>er_retryCount := er_retryCount e + 1\<rparr>)"

definition retry_backoff :: "RetryPolicy \<Rightarrow> int \<Rightarrow> int" where
  "retry_backoff p retryCount =
     (if rp_exponential p then rp_backoffMs p * 2 ^ nat (retryCount - 1) else rp_backoffMs p)"

text \<open>The \<^verbatim>\<open>catch\<close> branch of \<^verbatim>\<open>executeNode\<close>: the handler rejected, the timeout of
  \<^verbatim>\<open>executeWithTimeout\<close> fired, or no handler is registered.\<close>

definition fail_node :: "time \<Rightarrow> string \<Rightarrow> string \<Rightarrow> string option \<Rightarrow> GraphState \<Rightarrow> GraphState" where
  "fail_node now i msg stack st =
     (let st0 = st\<lparr>gs_executions := jmodify i (end_execution now) (gs_executions st)\<rparr>
      in if should_retry st0 i
         then settle_frame (InFlight i) (Backoff i)
                (st0\<lparr>gs_executions := jmodify i
                   (\<lambda>ex. ex\<lparr>ne_status := PENDING, ne_error := Some (retry_error msg stack ex)\<rparr>)
                   (gs_executions st0)\<rparr>)
         else
           let st1 = st0\<lparr>gs_executions := jmodify i
                 (\<lambda>ex. ex\<lparr>ne_status := FAILED, ne_error := Some \<lparr>er_message = msg, er_stack = stack,
                    er_retryCount = ne_attempts ex - 1\<rparr>\<rparr>) (gs_executions st0)\<rparr>;
               st2 = settle_frame (InFlight i) (Returning i) st1
           in if \<not> continues (gs_nodes st) i then markBlockedDependents i st2
              else scheduleNodes now (dependents st2 i) st2)"

text \<open>The retry sleep is over: \<^verbatim>\<open>await this.scheduleNode(nodeId)\<close>, after which the outer
  \<^verbatim>\<open>executeNode\<close> returns.\<close>

definition resume_backoff :: "time \<Rightarrow> string \<Rightarrow> GraphState \<Rightarrow> GraphState" where
  "resume_backoff now i st =
     (if gs_activeExecutions st \<ge> gs_concurrencyLimit st
      then settle_frame (Backoff i) (RetryWaiting i) st
      else settle_frame (Backoff i) (Returning i) (start_node now i st))"

text \<open>The concurrency loop of a suspended \<^verbatim>\<open>scheduleNode\<close> finds a free slot.\<close>

definition poll_waiting :: "time \<Rightarrow> string \<Rightarrow> GraphState \<Rightarrow> GraphState" where
  "poll_waiting now i st =
     start_node now i (st\<lparr>gs_frames := gs_frames st - {#Waiting i#}\<rparr>)"

definition poll_retry :: "time \<Rightarrow> string \<Rightarrow> GraphState \<Rightarrow> GraphState" where
  "poll_retry now i st = settle_frame (RetryWaiting i) (Returning i) (start_node now i st)"

text \<open>The \<^verbatim>\<open>finally\<close> callback of \<^verbatim>\<open>scheduleNode\<close>.\<close>

definition release_slot :: "string \<Rightarrow> GraphState \<Rightarrow> GraphState" where
  "release_slot i st = st\<lparr>gs_activeExecutions := gs_activeExecutions st - 1,
     gs_frames := gs_frames st - {#Returning i#}\<rparr>"

definition stop_graph :: "GraphState \<Rightarrow> GraphState" where
  "stop_graph st = st\<lparr>gs_running := False\<rparr>"

definition execute_start :: "time \<Rightarrow> GraphState \<Rightarrow> GraphState option" where
  "execute_start now st =
     (if gs_running st then None
      else Some (scheduleNodes now (gd_entryNodes (gs_definition st)) (st\<lparr>gs_running := True\<rparr>)))"

section \<open>Steps of an execution\<close>

inductive graph_step :: "GraphState \<Rightarrow> GraphState \<Rightarrow> bool" where
  handler_fulfils: "InFlight i \<in># gs_frames st \<Longrightarrow> find_node (gs_nodes st) i = Some n \<Longrightarrow>
     hasHandler (nd_type n) st \<Longrightarrow> graph_step st (complete_node now i out st)"
| handler_rejects: "InFlight i \<in># gs_frames st \<Longrightarrow> graph_step st (fail_node now i msg stack st)"
| backoff_over: "Backoff i \<in># gs_frames st \<Longrightarrow> graph_step st (resume_backoff now i st)"
| slot_for_waiting: "Waiting i \<in># gs_frames st \<Longrightarrow>
     gs_activeExecutions st < gs_concurrencyLimit st \<Longrightarrow> graph_step st (poll_waiting now i st)"
| slot_for_retry: "RetryWaiting i \<in># gs_frames st \<Longrightarrow>
     gs_activeExecutions st < gs_concurrencyLimit st \<Longrightarrow> graph_step st (poll_retry now i st)"
| slot_released: "Returning i \<in># gs_frames st \<Longrightarrow> graph_step st (release_slot i st)"

inductive graph_reach :: "GraphDefinition \<Rightarrow> int \<Rightarrow> NodeType list \<Rightarrow> GraphState \<Rightarrow> bool"
  for d limit handlers where
  started: "new_ExecutionGraph d limit execId = Inr st \<Longrightarrow>
     execute_start now (fold registerHandler handlers st) = Some st' \<Longrightarrow>
     graph_reach d limit handlers st'"
| continued: "graph_reach d limit handlers st \<Longrightarrow> graph_step st st' \<Longrightarrow>
     graph_reach d limit handlers st'"
| stop_called: "graph_reach d limit handlers st \<Longrightarrow> graph_reach d limit handlers (stop_graph st)"

section \<open>Completion and result\<close>

definition terminal_status :: "NodeStatus \<Rightarrow> bool" where
  "terminal_status s \<longleftrightarrow> s = COMPLETED \<or> s = FAILED \<or> s = SKIPPED \<or> s = BLOCKED"

definition allDone :: "GraphState \<Rightarrow> bool" where
  "allDone st = list_all (\<lambda>ex. terminal_status (ne_status ex)) (jvalues (gs_executions st))"

text \<open>\<^verbatim>\<open>waitForCompletion\<close> leaves its polling loop when this holds.\<close>

definition wait_over :: "GraphState \<Rightarrow> bool" where
  "wait_over st \<longleftrightarrow> \<not> gs_running st \<or> allDone st"

definition failedNodes :: "GraphState \<Rightarrow> (string \<times> ErrorInfo option) list" where
  "failedNodes st = map (\<lambda>(i, ex). (i, ne_error ex))
     (filter (\<lambda>(i, ex). ne_status ex = FAILED \<and> \<not> continues (gs_nodes st) i) (gs_executions st))"

datatype ExecuteError =
    NodeExecutionFailed string
  | NodesFailed nat

record ExecutionResult =
  xr_graphId :: string
  xr_executionId :: string
  xr_duration :: int
  xr_totalNodes :: nat
  xr_completed :: nat
  xr_failed :: nat
  xr_blocked :: nat
  xr_skipped :: nat
  xr_success :: bool
  xr_error :: "ExecuteError option"
  xr_nodeExecutions :: "NodeExecution list"
  xr_outputs :: "(string, json) jsmap"

definition count_status :: "NodeStatus \<Rightarrow> GraphState \<Rightarrow> nat" where
  "count_status s st = length (filter (\<lambda>ex. ne_status ex = s) (jvalues (gs_executions st)))"

definition buildExecutionResult :: "int \<Rightarrow> ExecuteError option \<Rightarrow> GraphState \<Rightarrow> ExecutionResult" where
  "buildExecutionResult duration err st =
     \<lparr>xr_graphId = gd_id (gs_definition st),
      xr_executionId = cx_executionId (gs_context st),
      xr_duration = duration,
      xr_totalNodes = length (gs_nodes st),
      xr_completed = count_status COMPLETED st,
      xr_failed = count_status FAILED st,
      xr_blocked = count_status BLOCKED st,
      xr_skipped = count_status SKIPPED st,
      xr_success = (err = None \<and>
        list_all (\<lambda>ex. ne_status ex = COMPLETED) (jvalues (gs_executions st))),
      xr_error = err,
      xr_nodeExecutions = jvalues (gs_executions st),
      xr_outputs = cx_outputs (gs_context st)\<rparr>"

text \<open>The end of \<^verbatim>\<open>execute\<close> once \<^verbatim>\<open>waitForCompletion\<close> has returned: the promise fulfils
  (\<open>Inr\<close>) or rejects (\<open>Inl\<close>), in both cases with the emitted result, and \<^verbatim>\<open>running\<close> is
  cleared.\<close>

definition failure_of :: "(string \<times> ErrorInfo option) list \<Rightarrow> ExecuteError option" where
  "failure_of fs =
     (case fs of
        [] \<Rightarrow> None
      | [(i, e)] \<Rightarrow> Some (NodeExecutionFailed
          (case e of
             None \<Rightarrow> ''Node execution failed''
           | Some err \<Rightarrow> if er_message err = [] then ''Node execution failed'' else er_message err))
      | _ \<Rightarrow> Some (NodesFailed (length fs)))"

definition execute_finish ::
  "int \<Rightarrow> GraphState \<Rightarrow> (ExecuteError \<times> ExecutionResult) + ExecutionResult" where
  "execute_finish duration st =
     (case failure_of (failedNodes st) of
        None \<Rightarrow> Inr (buildExecutionResult duration None st)
      | Some err \<Rightarrow> Inl (err, buildExecutionResult duration (Some err) st))"

end
