(* ===== verification/Graph_Cycles.thy ===== *)
theory Graph_Cycles
  imports Execution_Graph
begin

text \<open>
  Correctness of the cycle detection in \<^verbatim>\<open>ExecutionGraph.validateGraph\<close>: the
  depth-first search throws exactly on the cyclic dependency relations, and the edge it
  reports closes a cycle.
\<close>

definition dep_rel :: "NodeDefinition list \<Rightarrow> (string \<times> string) set" where
  "dep_rel nodes = {(n, d). d \<in> set (deps_of nodes n)}"

section \<open>A search that does not throw leaves an acyclic closed set\<close>

definition finished_ok :: "(string \<times> string) set \<Rightarrow> string set \<Rightarrow> bool" where
  "finished_ok r F \<longleftrightarrow> r `` F \<subseteq> F \<and> acyclic (r \<inter> F \<times> UNIV)"

lemma finished_ok_empty [simp]: "finished_ok r {}"
  by (simp add: finished_ok_def acyclic_def)

lemma trancl_from_closed:
  assumes "(x, y) \<in> s\<^sup>+" and "x \<in> F" and "s `` F \<subseteq> F"
  shows "(x, y) \<in> (s \<inter> F \<times> UNIV)\<^sup>+ \<and> y \<in> F"
  using assms(1)
proof (induction rule: trancl_induct)
  case (base y)
  with assms(2,3) show ?case by auto
next
  case (step y z)
  then have "(y, z) \<in> s \<inter> F \<times> UNIV" by auto
  with step assms(3) show ?case by (auto intro: trancl_into_trancl)
qed

lemma finished_ok_insert:
  assumes ok: "finished_ok r F" and "d \<notin> F" and deps: "r `` {d} \<subseteq> F"
  shows "finished_ok r (insert d F)"
proof -
  let ?s = "r \<inter> insert d F \<times> UNIV"
  have closed: "?s `` F \<subseteq> F" and eq: "?s \<inter> F \<times> UNIV = r \<inter> F \<times> UNIV"
    using ok by (auto simp: finished_ok_def)
  have "(x, x) \<notin> ?s\<^sup>+" for x
  proof
    assume cyc: "(x, x) \<in> ?s\<^sup>+"
    show False
    proof (cases "x \<in> F")
      case True
      with trancl_from_closed [OF cyc True closed] eq ok show False
        by (simp add: finished_ok_def acyclic_def)
    next
      case False
      from cyc obtain y where y: "(x, y) \<in> ?s" and rest: "(y, x) \<in> ?s\<^sup>*"
        by (meson tranclD)
      from y False deps have "y \<in> F" by auto
      with rest closed have "x \<in> F"
        by (metis Image_singleton_iff Int_iff rtranclD trancl_from_closed)
      with False show False by simp
    qed
  qed
  with ok deps show ?thesis by (auto simp: finished_ok_def acyclic_def)
qed

lemma dfs_deps_finished:
  assumes "dfs_deps nodes p ds V S = Inr (V', S')" and "set S \<subseteq> set V"
    and "finished_ok (dep_rel nodes) (set V - set S)"
  shows "set S' = set S \<and> set V \<subseteq> set V' \<and> finished_ok (dep_rel nodes) (set V' - set S')
    \<and> set ds \<subseteq> set V' - set S'"
  using assms
proof (induction nodes p ds V S arbitrary: V' S' rule: dfs_deps.induct)
  case (1 nodes p V S)
  then show ?case by simp
next
  case (2 nodes p d ds V S)
  show ?case
  proof (cases "d \<in> set V")
    case True
    with "2.prems"(1) have "d \<notin> set S" and "dfs_deps nodes p ds V S = Inr (V', S')"
      by (auto split: if_splits)
    with True "2.IH"(3) "2.prems" show ?thesis by auto
  next
    case new: False
    with "2.prems"(1) obtain V1 S1
      where inner: "dfs_deps nodes d (deps_of nodes d) (d # V) (d # S) = Inr (V1, S1)"
        and outer: "dfs_deps nodes p ds V1 (removeAll d S1) = Inr (V', S')"
        and clear: "d \<notin> set (removeAll d S1)"
      by (auto split: sum.splits prod.splits if_splits)
    have dS: "d \<notin> set S" using new "2.prems"(2) by auto
    have "set (d # V) - set (d # S) = set V - set S"
      using new dS by auto
    with "2.IH"(1) [OF new inner] "2.prems"(2,3)
    have i1: "set S1 = insert d (set S)" and i2: "insert d (set V) \<subseteq> set V1"
      and i3: "finished_ok (dep_rel nodes) (set V1 - set S1)"
      and i4: "set (deps_of nodes d) \<subseteq> set V1 - set S1"
      by auto
    have S1: "set (removeAll d S1) = set S" using i1 dS by auto
    have eq: "set V1 - set (removeAll d S1) = insert d (set V1 - set S1)"
      using i1 i2 dS by auto
    have fin: "finished_ok (dep_rel nodes) (set V1 - set (removeAll d S1))"
      unfolding eq
      by (rule finished_ok_insert [OF i3]) (use i1 i4 in \<open>auto simp: dep_rel_def\<close>)
    have "set (removeAll d S1) \<subseteq> set V1" using S1 i2 "2.prems"(2) by auto
    from "2.IH"(2) [OF new inner refl clear outer this fin]
    show ?thesis using S1 i2 eq by (auto simp del: set_removeAll)
  qed
qed

lemma detectCycles_loop_finished:
  assumes "detectCycles_loop nodes rs V [] = Inr ()"
    and "finished_ok (dep_rel nodes) (set V)"
  shows "\<exists>F. finished_ok (dep_rel nodes) F \<and> set rs \<union> set V \<subseteq> F"
  using assms
proof (induction rs arbitrary: V)
  case Nil
  then show ?case by auto
next
  case (Cons r rs)
  show ?case
  proof (cases "r \<in> set V")
    case True
    with Cons.prems Cons.IH [of V] show ?thesis by auto
  next
    case new: False
    with Cons.prems(1) obtain V1 S1
      where inner: "dfs_deps nodes r (deps_of nodes r) (r # V) [r] = Inr (V1, S1)"
        and rest: "detectCycles_loop nodes rs V1 (removeAll r S1) = Inr ()"
      by (auto split: sum.splits)
    from new have "set (r # V) - set [r] = set V" by auto
    with dfs_deps_finished [OF inner] Cons.prems(2)
    have i: "set S1 = {r}" "insert r (set V) \<subseteq> set V1"
        "finished_ok (dep_rel nodes) (set V1 - {r})"
        "set (deps_of nodes r) \<subseteq> set V1 - {r}"
      by auto
    then have "removeAll r S1 = []" by (metis Diff_cancel set_empty set_removeAll)
    moreover have "finished_ok (dep_rel nodes) (insert r (set V1 - {r}))"
      by (rule finished_ok_insert [OF i(3)]) (use i(4) in \<open>auto simp: dep_rel_def\<close>)
    ultimately obtain F where "finished_ok (dep_rel nodes) F" "set rs \<union> set V1 \<subseteq> F"
      using Cons.IH [of V1] rest i(2) by (auto simp: insert_absorb)
    with i(2) show ?thesis by (intro exI [of _ F]) auto
  qed
qed

lemma detectCycles_acyclic:
  assumes "detectCycles nodes = Inr ()"
  shows "acyclic (dep_rel nodes)"
proof -
  from assms detectCycles_loop_finished [of nodes "map nd_id nodes" "[]"]
  obtain F where ok: "finished_ok (dep_rel nodes) F" and sub: "nd_id ` set nodes \<subseteq> F"
    by (auto simp: detectCycles_def)
  have "dep_rel nodes \<inter> F \<times> UNIV = dep_rel nodes"
    using sub deps_of_unknown by (force simp: dep_rel_def)
  with ok show ?thesis by (simp add: finished_ok_def)
qed

section \<open>A search that throws has found a cycle\<close>

definition closes_cycle :: "(string \<times> string) set \<Rightarrow> GraphError \<Rightarrow> bool" where
  "closes_cycle r e \<longleftrightarrow> (\<exists>a b. e = CycleDetected a b \<and> (a, b) \<in> r \<and> (b, a) \<in> r\<^sup>*)"

lemma dfs_deps_error:
  assumes "dfs_deps nodes p ds V S = Inl e" and "set ds \<subseteq> set (deps_of nodes p)"
    and "\<forall>s\<in>set S. (s, p) \<in> (dep_rel nodes)\<^sup>*"
    and "set S \<subseteq> set V" and "finished_ok (dep_rel nodes) (set V - set S)"
  shows "closes_cycle (dep_rel nodes) e"
  using assms
proof (induction nodes p ds V S rule: dfs_deps.induct)
  case (1 nodes p V S)
  then show ?case by simp
next
  case (2 nodes p d ds V S)
  have edge: "(p, d) \<in> dep_rel nodes" using "2.prems"(2) by (simp add: dep_rel_def)
  show ?case
  proof (cases "d \<in> set V")
    case seen: True
    show ?thesis
    proof (cases "d \<in> set S")
      case True
      with seen "2.prems"(1,3) edge show ?thesis by (auto simp: closes_cycle_def)
    next
      case False
      with seen "2.IH"(3) "2.prems" show ?thesis by simp
    qed
  next
    case new: False
    have dS: "d \<notin> set S" using new "2.prems"(4) by auto
    have F: "set (d # V) - set (d # S) = set V - set S" using new dS by auto
    have path: "\<forall>s\<in>set (d # S). (s, d) \<in> (dep_rel nodes)\<^sup>*"
      using "2.prems"(3) edge by (auto intro: rtrancl_into_rtrancl)
    show ?thesis
    proof (cases "dfs_deps nodes d (deps_of nodes d) (d # V) (d # S)")
      case (Inl e')
      with new "2.prems"(1) have "e' = e" by simp
      with "2.IH"(1) [OF new _ subset_refl path] Inl F "2.prems"(4,5) show ?thesis by auto
    next
      case (Inr VS)
      obtain V1 S1 where VS: "VS = (V1, S1)" by (cases VS)
      note inner = Inr [unfolded VS]
      have clear: "d \<notin> set (removeAll d S1)" by simp
      from F "2.prems"(4,5) dfs_deps_finished [OF inner]
      have i1: "set S1 = insert d (set S)" and i2: "insert d (set V) \<subseteq> set V1"
        and i3: "finished_ok (dep_rel nodes) (set V1 - set S1)"
        and i4: "set (deps_of nodes d) \<subseteq> set V1 - set S1" by auto
      have S1: "set (removeAll d S1) = set S" using i1 dS by auto
      have "set V1 - set (removeAll d S1) = insert d (set V1 - set S1)"
        using i1 i2 dS by auto
      then have fin: "finished_ok (dep_rel nodes) (set V1 - set (removeAll d S1))"
        using finished_ok_insert [OF i3, of d] i1 i4 by (auto simp: dep_rel_def)
      have outer: "dfs_deps nodes p ds V1 (removeAll d S1) = Inl e"
        using inner new "2.prems"(1) by simp
      show ?thesis
        by (rule "2.IH"(2) [OF new inner refl clear outer _ _ _ fin])
           (use S1 i2 "2.prems"(2-4) in auto)
    qed
  qed
qed

lemma detectCycles_loop_error:
  assumes "detectCycles_loop nodes rs V [] = Inl e" and "finished_ok (dep_rel nodes) (set V)"
  shows "closes_cycle (dep_rel nodes) e"
  using assms
proof (induction rs arbitrary: V)
  case Nil
  then show ?case by simp
next
  case (Cons r rs)
  show ?case
  proof (cases "r \<in> set V")
    case True
    with Cons show ?thesis by simp
  next
    case new: False
    then have F: "set (r # V) - set [r] = set V" by auto
    show ?thesis
    proof (cases "dfs_deps nodes r (deps_of nodes r) (r # V) [r]")
      case (Inl e')
      with dfs_deps_error [OF Inl] F Cons.prems(2) have "closes_cycle (dep_rel nodes) e'"
        by auto
      with Inl new Cons.prems(1) show ?thesis by simp
    next
      case (Inr VS)
      obtain V1 S1 where VS: "VS = (V1, S1)" by (cases VS)
      from dfs_deps_finished [OF Inr [unfolded VS]] F Cons.prems(2)
      have i: "set S1 = {r}" "insert r (set V) \<subseteq> set V1"
          "finished_ok (dep_rel nodes) (set V1 - {r})"
          "set (deps_of nodes r) \<subseteq> set V1 - {r}"
        by auto
      then have "removeAll r S1 = []" by (metis Diff_cancel set_empty set_removeAll)
      moreover have "finished_ok (dep_rel nodes) (insert r (set V1 - {r}))"
        by (rule finished_ok_insert [OF i(3)]) (use i(4) in \<open>auto simp: dep_rel_def\<close>)
      ultimately show ?thesis
        using Cons.IH [of V1] Cons.prems(1) Inr VS new i(2) by (auto simp: insert_absorb)
    qed
  qed
qed

lemma closes_cycle_not_acyclic: "closes_cycle r e \<Longrightarrow> \<not> acyclic r"
  by (auto simp: closes_cycle_def acyclic_def) (meson rtrancl_into_trancl2)

lemma detectCycles_error: "detectCycles nodes = Inl e \<Longrightarrow> closes_cycle (dep_rel nodes) e"
  unfolding detectCycles_def by (rule detectCycles_loop_error) auto

text \<open>
  C12.  The cycle detection decides acyclicity: \<^verbatim>\<open>detectCycles\<close> returns without
  throwing exactly when the dependency relation of the nodes has no cycle, and when it
  throws, the edge \<^verbatim>\<open>nodeId -> depId\<close> named in the error is a dependency whose target
  leads back to its source.
\<close>

theorem detectCycles_correct:
  "case detectCycles nodes of
     Inr _ \<Rightarrow> acyclic (dep_rel nodes)
   | Inl e \<Rightarrow> \<not> acyclic (dep_rel nodes) \<and> closes_cycle (dep_rel nodes) e"
proof (cases "detectCycles nodes")
  case (Inl e)
  then have "closes_cycle (dep_rel nodes) e" by (rule detectCycles_error)
  with Inl closes_cycle_not_acyclic show ?thesis by simp
next
  case (Inr u)
  then show ?thesis by (simp add: detectCycles_acyclic)
qed

end
