(* ===== verification/Graph_Scheduling.thy ===== *)
theory Graph_Scheduling
  imports Graph_Cycles
begin

text \<open>
  Invariants of the asynchronous scheduler of \<^verbatim>\<open>ExecutionGraph.ts\<close>: the concurrency
  limit, the ordering of nodes by their dependencies, single scheduling of every node,
  the propagation of failures to dependents and the bound on attempts.
\<close>

section \<open>The abstract view: statuses and suspended calls\<close>

type_synonym statuses = "string \<Rightarrow> NodeStatus option"

definition stat_of :: "(string, NodeExecution) jsmap \<Rightarrow> statuses" where
  "stat_of E i = map_option ne_status (map_of E i)"

abbreviation stat :: "GraphState \<Rightarrow> statuses" where
  "stat st \<equiv> stat_of (gs_executions st)"

definition sat :: "NodeDefinition list \<Rightarrow> statuses \<Rightarrow> string \<Rightarrow> bool" where
  "sat nodes S d \<longleftrightarrow> S d = Some COMPLETED \<or> S d = Some FAILED \<and> continues nodes d"

definition bad :: "NodeDefinition list \<Rightarrow> statuses \<Rightarrow> string \<Rightarrow> bool" where
  "bad nodes S d \<longleftrightarrow> S d = Some FAILED \<and> \<not> continues nodes d \<or> S d = Some BLOCKED"

definition ready :: "NodeDefinition list \<Rightarrow> statuses \<Rightarrow> string \<Rightarrow> bool" where
  "ready nodes S i \<longleftrightarrow> (\<forall>d\<in>set (deps_of nodes i). sat nodes S d)"

definition live_count :: "frame multiset \<Rightarrow> string \<Rightarrow> nat" where
  "live_count fr i = count fr (Waiting i) + count fr (InFlight i) + count fr (Backoff i)
     + count fr (RetryWaiting i)"

definition holds_slot :: "frame \<Rightarrow> bool" where
  "holds_slot f \<longleftrightarrow> (case f of Waiting _ \<Rightarrow> False | _ \<Rightarrow> True)"

definition sched_inv :: "NodeDefinition list \<Rightarrow> statuses \<Rightarrow> frame multiset \<Rightarrow> bool" where
  "sched_inv nodes S fr \<longleftrightarrow>
     (\<forall>i. live_count fr i \<le> 1) \<and>
     (\<forall>i. S i = Some RUNNING \<longleftrightarrow> 0 < count fr (InFlight i)) \<and>
     (\<forall>i. 0 < count fr (Waiting i) + count fr (Backoff i) + count fr (RetryWaiting i)
        \<longrightarrow> S i = Some PENDING) \<and>
     (\<forall>i. 0 < live_count fr i \<or> S i = Some COMPLETED \<or> S i = Some FAILED \<longrightarrow> ready nodes S i) \<and>
     (\<forall>i. S i = Some BLOCKED \<longrightarrow> (\<exists>d\<in>set (deps_of nodes i). bad nodes S d)) \<and>
     (\<forall>i. S i \<noteq> Some SKIPPED)"

definition enabled_ok :: "NodeDefinition list \<Rightarrow> statuses \<Rightarrow> frame multiset \<Rightarrow> string set \<Rightarrow> bool" where
  "enabled_ok nodes S fr A \<longleftrightarrow>
     (\<forall>i. i \<notin> A \<longrightarrow> S i = Some PENDING \<longrightarrow> ready nodes S i \<longrightarrow> 0 < live_count fr i)"

definition block_ok :: "NodeDefinition list \<Rightarrow> statuses \<Rightarrow> string set \<Rightarrow> bool" where
  "block_ok nodes S A \<longleftrightarrow>
     (\<forall>i d. d \<notin> A \<longrightarrow> d \<in> set (deps_of nodes i) \<longrightarrow> bad nodes S d \<longrightarrow> S i \<noteq> Some PENDING)"

lemma sched_invD:
  assumes "sched_inv nodes S fr"
  shows "live_count fr i \<le> 1" "S i = Some RUNNING \<longleftrightarrow> 0 < count fr (InFlight i)"
    "0 < count fr (Waiting i) + count fr (Backoff i) + count fr (RetryWaiting i) \<Longrightarrow> S i = Some PENDING"
    "0 < live_count fr i \<or> S i = Some COMPLETED \<or> S i = Some FAILED \<Longrightarrow> ready nodes S i"
    "S i = Some BLOCKED \<Longrightarrow> \<exists>d\<in>set (deps_of nodes i). bad nodes S d"
    "S i \<noteq> Some SKIPPED"
  using assms by (simp_all add: sched_inv_def) blast+

section \<open>Abstract transitions\<close>

lemma sat_upd: "\<not> sat nodes S i \<Longrightarrow> sat nodes S d \<Longrightarrow> sat nodes (S(i \<mapsto> s)) d"
  by (auto simp: sat_def)

lemma ready_upd: "\<not> sat nodes S i \<Longrightarrow> ready nodes S j \<Longrightarrow> ready nodes (S(i \<mapsto> s)) j"
  by (auto simp: ready_def sat_upd)

lemma ready_upd_inactive:
  "\<not> sat nodes S i \<Longrightarrow> \<not> sat nodes (S(i \<mapsto> s)) i \<Longrightarrow>
     ready nodes (S(i \<mapsto> s)) j \<longleftrightarrow> ready nodes S j"
  by (auto simp: ready_def sat_def)

lemma ready_upd_other: "i \<notin> set (deps_of nodes j) \<Longrightarrow> ready nodes (S(i \<mapsto> s)) j = ready nodes S j"
  unfolding ready_def sat_def by (intro ball_cong) auto

lemma ready_not_bad: "ready nodes S i \<Longrightarrow> d \<in> set (deps_of nodes i) \<Longrightarrow> \<not> bad nodes S d"
  by (auto simp: ready_def sat_def bad_def dest!: bspec)

lemma bad_upd: "\<not> bad nodes S i \<Longrightarrow> bad nodes S d \<Longrightarrow> bad nodes (S(i \<mapsto> s)) d"
  by (auto simp: bad_def)

text \<open>One status moves from an unfinished one to \<open>s\<close> and the calls of that node change
  with it: what the new calls of node \<open>i\<close> have to satisfy.\<close>

lemma sched_inv_move:
  assumes inv: "sched_inv nodes S fr" and Si: "S i = Some PENDING \<or> S i = Some RUNNING"
    and others: "\<And>j. j \<noteq> i \<Longrightarrow> count fr' (Waiting j) = count fr (Waiting j) \<and>
      count fr' (InFlight j) = count fr (InFlight j) \<and> count fr' (Backoff j) = count fr (Backoff j) \<and>
      count fr' (RetryWaiting j) = count fr (RetryWaiting j)"
    and one: "live_count fr' i \<le> 1" and run: "s = RUNNING \<longleftrightarrow> 0 < count fr' (InFlight i)"
    and pend: "0 < count fr' (Waiting i) + count fr' (Backoff i) + count fr' (RetryWaiting i) \<Longrightarrow> s = PENDING"
    and rdy: "0 < live_count fr' i \<or> s = COMPLETED \<or> s = FAILED \<Longrightarrow> ready nodes S i"
    and blk: "s = BLOCKED \<Longrightarrow> \<exists>d\<in>set (deps_of nodes i). bad nodes S d"
    and skip: "s \<noteq> SKIPPED"
  shows "sched_inv nodes (S(i \<mapsto> s)) fr'"
proof -
  have ns: "\<not> sat nodes S i" and nb: "\<not> bad nodes S i"
    using Si by (auto simp: sat_def bad_def)
  have lc: "live_count fr' j = live_count fr j" if "j \<noteq> i" for j
    using others [OF that] by (simp add: live_count_def)
  show ?thesis
    unfolding sched_inv_def
  proof (intro conjI allI impI)
    fix j
    show "live_count fr' j \<le> 1"
      using one lc sched_invD(1) [OF inv] by (cases "j = i") auto
    show "((S(i \<mapsto> s)) j = Some RUNNING) = (0 < count fr' (InFlight j))"
      using run others [of j] sched_invD(2) [OF inv, of j] by (cases "j = i") auto
    show "(S(i \<mapsto> s)) j = Some PENDING"
      if "0 < count fr' (Waiting j) + count fr' (Backoff j) + count fr' (RetryWaiting j)"
      using that pend others [of j] sched_invD(3) [OF inv, of j] by (cases "j = i") auto
    show "ready nodes (S(i \<mapsto> s)) j"
      if "0 < live_count fr' j \<or> (S(i \<mapsto> s)) j = Some COMPLETED \<or> (S(i \<mapsto> s)) j = Some FAILED"
      using that rdy lc [of j] sched_invD(4) [OF inv, of j]
      by (intro ready_upd [OF ns]) (cases "j = i", auto)
    show "\<exists>d\<in>set (deps_of nodes j). bad nodes (S(i \<mapsto> s)) d" if "(S(i \<mapsto> s)) j = Some BLOCKED"
      using that blk sched_invD(5) [OF inv, of j] bad_upd [OF nb]
      by (cases "j = i") fastforce+
    show "(S(i \<mapsto> s)) j \<noteq> Some SKIPPED"
      using skip sched_invD(6) [OF inv, of j] by auto
  qed
qed

lemma sched_inv_frames:
  assumes "sched_inv nodes S fr" and "S i = Some PENDING"
    and "\<And>j. j \<noteq> i \<Longrightarrow> count fr' (Waiting j) = count fr (Waiting j) \<and>
      count fr' (InFlight j) = count fr (InFlight j) \<and> count fr' (Backoff j) = count fr (Backoff j) \<and>
      count fr' (RetryWaiting j) = count fr (RetryWaiting j)"
    and "live_count fr' i \<le> 1" and "count fr' (InFlight i) = 0"
    and "0 < live_count fr' i \<Longrightarrow> ready nodes S i"
  shows "sched_inv nodes S fr'"
  using sched_inv_move [OF assms(1) _ assms(3,4), where s = PENDING] assms(2,5,6)
  by (auto simp: fun_upd_idem)

lemma sched_inv_returning:
  "sched_inv nodes S fr \<Longrightarrow> (\<And>f. (\<forall>j. f \<noteq> Returning j) \<Longrightarrow> count fr' f = count fr f) \<Longrightarrow>
     sched_inv nodes S fr'"
  by (simp add: sched_inv_def live_count_def)

lemma enabled_ok_move:
  assumes "enabled_ok nodes S fr A" and "\<not> sat nodes S i"
    and "\<And>j. j \<noteq> i \<Longrightarrow> live_count fr' j = live_count fr j"
    and "\<not> sat nodes (S(i \<mapsto> s)) i" and "s = PENDING \<Longrightarrow> 0 < live_count fr' i"
  shows "enabled_ok nodes (S(i \<mapsto> s)) fr' (A - {i})"
  unfolding enabled_ok_def
proof (intro allI impI)
  fix j
  assume "j \<notin> A - {i}" and "(S(i \<mapsto> s)) j = Some PENDING" and "ready nodes (S(i \<mapsto> s)) j"
  with assms show "0 < live_count fr' j"
    by (cases "j = i") (auto simp: enabled_ok_def ready_upd_inactive)
qed

lemma enabled_ok_satisfies:
  assumes "enabled_ok nodes S fr A" and "S i = Some RUNNING" and "s \<noteq> PENDING"
    and "\<And>j. j \<noteq> i \<Longrightarrow> live_count fr' j = live_count fr j"
    and "\<And>j. i \<in> set (deps_of nodes j) \<Longrightarrow> j \<in> D"
  shows "enabled_ok nodes (S(i \<mapsto> s)) fr' (A \<union> D)"
  unfolding enabled_ok_def
proof (intro allI impI)
  fix j
  assume j: "j \<notin> A \<union> D" "(S(i \<mapsto> s)) j = Some PENDING" "ready nodes (S(i \<mapsto> s)) j"
  then have "j \<noteq> i" and "i \<notin> set (deps_of nodes j)" using assms(3,5) by auto
  with j have "ready nodes S j" by (simp add: ready_upd_other)
  with j \<open>j \<noteq> i\<close> assms(1,4) show "0 < live_count fr' j" by (auto simp: enabled_ok_def)
qed

lemma enabled_ok_mono: "enabled_ok nodes S fr A \<Longrightarrow> A \<subseteq> B \<Longrightarrow> enabled_ok nodes S fr B"
  by (auto simp: enabled_ok_def)

lemma block_ok_move:
  assumes "block_ok nodes S A" and "\<not> bad nodes S i"
    and "bad nodes (S(i \<mapsto> s)) i \<Longrightarrow> i \<in> A'" and "A \<subseteq> A'"
    and "s = PENDING \<Longrightarrow> ready nodes S i"
  shows "block_ok nodes (S(i \<mapsto> s)) A'"
  unfolding block_ok_def
proof (intro allI impI)
  fix j d
  assume d: "d \<notin> A'" "d \<in> set (deps_of nodes j)" "bad nodes (S(i \<mapsto> s)) d"
  then have "d \<noteq> i" using assms(3) by auto
  with d have bd: "bad nodes S d" by (simp add: bad_def)
  show "(S(i \<mapsto> s)) j \<noteq> Some PENDING"
  proof (cases "j = i")
    case True
    with assms(5) d(2) bd have "s \<noteq> PENDING" by (auto dest: ready_not_bad)
    with True show ?thesis by simp
  next
    case False
    with d bd assms(1,4) show ?thesis by (auto simp: block_ok_def)
  qed
qed

section \<open>The full invariant\<close>

definition dependents_ok :: "GraphState \<Rightarrow> bool" where
  "dependents_ok st \<longleftrightarrow> (\<forall>d. distinct (dependents st d)) \<and>
     (\<forall>d i. i \<in> set (dependents st d) \<longleftrightarrow> d \<in> set (deps_of (gs_nodes st) i))"

definition slot_inv :: "GraphState \<Rightarrow> bool" where
  "slot_inv st \<longleftrightarrow> gs_activeExecutions st = int (size (filter_mset holds_slot (gs_frames st))) \<and>
     gs_activeExecutions st \<le> max 0 (gs_concurrencyLimit st)"

definition max_attempts :: "NodeDefinition list \<Rightarrow> string \<Rightarrow> int" where
  "max_attempts nodes i =
     (case find_node nodes i of
        None \<Rightarrow> 1
      | Some n \<Rightarrow> (case nd_retryPolicy n of None \<Rightarrow> 1 | Some p \<Rightarrow> max 1 (rp_maxRetries p + 1)))"

definition attempts_ok :: "NodeDefinition list \<Rightarrow> (string, NodeExecution) jsmap \<Rightarrow> bool" where
  "attempts_ok nodes E \<longleftrightarrow> (\<forall>i ex. map_of E i = Some ex \<longrightarrow>
     0 \<le> ne_attempts ex \<and> ne_attempts ex \<le> max_attempts nodes i \<and>
     (ne_status ex = PENDING \<longrightarrow> ne_attempts ex < max_attempts nodes i))"

text \<open>\<open>A\<close> holds the nodes excused from being scheduled when ready, \<open>B\<close> the failed nodes
  whose dependents are still to be blocked.\<close>

definition graph_inv :: "string set \<Rightarrow> string set \<Rightarrow> GraphState \<Rightarrow> bool" where
  "graph_inv A B st \<longleftrightarrow> dependents_ok st \<and> slot_inv st \<and>
     sched_inv (gs_nodes st) (stat st) (gs_frames st) \<and>
     enabled_ok (gs_nodes st) (stat st) (gs_frames st) A \<and>
     block_ok (gs_nodes st) (stat st) B \<and>
     attempts_ok (gs_nodes st) (gs_executions st)"

lemma graph_invD:
  assumes "graph_inv A B st"
  shows "dependents_ok st" "slot_inv st" "sched_inv (gs_nodes st) (stat st) (gs_frames st)"
    "enabled_ok (gs_nodes st) (stat st) (gs_frames st) A"
    "block_ok (gs_nodes st) (stat st) B" "attempts_ok (gs_nodes st) (gs_executions st)"
  using assms by (simp_all add: graph_inv_def)

subsection \<open>What each operation does to the view\<close>

lemma stat_of_jmodify:
  "stat_of (jmodify i f E) = (stat_of E)(i := map_option (\<lambda>ex. ne_status (f ex)) (map_of E i))"
  by (auto simp: stat_of_def jmap_simps fun_eq_iff option.map_comp comp_def)

lemma stat_of_jmodify_status:
  "(\<And>ex. ne_status (f ex) = s) \<Longrightarrow> stat_of E i \<noteq> None \<Longrightarrow>
     stat_of (jmodify i f E) = (stat_of E)(i \<mapsto> s)"
  by (auto simp: stat_of_jmodify stat_of_def fun_eq_iff)

lemma stat_of_jmodify_same:
  "(\<And>ex. ne_status (f ex) = ne_status ex) \<Longrightarrow> stat_of (jmodify i f E) = stat_of E"
  by (auto simp: stat_of_jmodify stat_of_def fun_eq_iff)

lemma start_node_fields [simp]:
  "gs_definition (start_node now i st) = gs_definition st"
  "gs_dependencyMap (start_node now i st) = gs_dependencyMap st"
  "gs_concurrencyLimit (start_node now i st) = gs_concurrencyLimit st"
  "gs_activeExecutions (start_node now i st) = gs_activeExecutions st + 1"
  "gs_frames (start_node now i st) = add_mset (InFlight i) (gs_frames st)"
  "gs_handlers (start_node now i st) = gs_handlers st"
  "gs_running (start_node now i st) = gs_running st"
  by (simp_all add: start_node_def)

lemma stat_start_node:
  "stat st i \<noteq> None \<Longrightarrow> stat (start_node now i st) = (stat st)(i \<mapsto> RUNNING)"
  by (simp add: start_node_def stat_of_jmodify_status begin_execution_def)

lemma settle_frame_fields [simp]:
  "gs_definition (settle_frame f g st) = gs_definition st"
  "gs_dependencyMap (settle_frame f g st) = gs_dependencyMap st"
  "gs_concurrencyLimit (settle_frame f g st) = gs_concurrencyLimit st"
  "gs_activeExecutions (settle_frame f g st) = gs_activeExecutions st"
  "gs_executions (settle_frame f g st) = gs_executions st"
  "gs_frames (settle_frame f g st) = add_mset g (gs_frames st - {#f#})"
  "gs_handlers (settle_frame f g st) = gs_handlers st"
  "gs_running (settle_frame f g st) = gs_running st"
  by (simp_all add: settle_frame_def)

lemma scheduleNode_fields [simp]:
  "gs_definition (scheduleNode now i st) = gs_definition st"
  "gs_dependencyMap (scheduleNode now i st) = gs_dependencyMap st"
  "gs_concurrencyLimit (scheduleNode now i st) = gs_concurrencyLimit st"
  "gs_handlers (scheduleNode now i st) = gs_handlers st"
  "gs_running (scheduleNode now i st) = gs_running st"
  by (simp_all add: scheduleNode_def)

lemma dependents_cong:
  "gs_dependencyMap st' = gs_dependencyMap st \<Longrightarrow> dependents st' = dependents st"
  by (simp add: dependents_def fun_eq_iff)

lemma dependents_ok_cong:
  "gs_dependencyMap st' = gs_dependencyMap st \<Longrightarrow> gs_definition st' = gs_definition st \<Longrightarrow>
     dependents_ok st' = dependents_ok st"
  by (simp add: dependents_ok_def dependents_def)

lemma dependents_ok_update [simp]:
  "dependents_ok (gs_frames_update f st) = dependents_ok st"
  "dependents_ok (gs_executions_update g st) = dependents_ok st"
  "dependents_ok (gs_context_update h st) = dependents_ok st"
  "dependents_ok (gs_running_update b st) = dependents_ok st"
  "dependents_ok (gs_activeExecutions_update a st) = dependents_ok st"
  "dependents_ok (start_node now i st) = dependents_ok st"
  "dependents_ok (settle_frame x y st) = dependents_ok st"
  by (rule dependents_ok_cong; simp)+

lemma dep_satisfied_sat: "dep_satisfied st d = sat (gs_nodes st) (stat st) d"
  by (auto simp: dep_satisfied_def sat_def stat_of_def split: option.splits)

lemma canExecute_iff:
  "canExecute st i \<longleftrightarrow> stat st i = Some PENDING \<and> ready (gs_nodes st) (stat st) i"
  by (auto simp: canExecute_def ready_def dep_satisfied_sat stat_of_def list_all_iff
      split: option.splits)

lemma attempts_ok_modify:
  assumes "attempts_ok nodes E"
    and "\<And>ex. map_of E i = Some ex \<Longrightarrow> 0 \<le> ne_attempts (f ex) \<and>
      ne_attempts (f ex) \<le> max_attempts nodes i \<and>
      (ne_status (f ex) = PENDING \<longrightarrow> ne_attempts (f ex) < max_attempts nodes i)"
  shows "attempts_ok nodes (jmodify i f E)"
  using assms by (auto simp: attempts_ok_def jmap_simps)

lemma attempts_ok_start:
  "attempts_ok nodes E \<Longrightarrow> stat_of E i = Some PENDING \<Longrightarrow>
     attempts_ok nodes (jmodify i (begin_execution now) E)"
  by (rule attempts_ok_modify) (fastforce simp: attempts_ok_def stat_of_def begin_execution_def)+

end
