(* ===== verification/Graph_Steps.thy ===== *)
theory Graph_Steps
  imports Graph_Scheduling
begin

text \<open>
  Every operation of the graph scheduler keeps the invariant of \<open>Graph_Scheduling\<close>, so it
  holds in every reachable state; the properties of the scheduler are read off it.
\<close>

section \<open>Scheduling keeps the invariant\<close>

lemma slot_inv_start:
  "slot_inv st \<Longrightarrow> gs_activeExecutions st < gs_concurrencyLimit st \<Longrightarrow> slot_inv (start_node now i st)"
  by (auto simp: slot_inv_def holds_slot_def)

lemma start_node_inv:
  assumes inv: "graph_inv A B st" and pend: "stat st i = Some PENDING"
    and rdy: "ready (gs_nodes st) (stat st) i" and none: "live_count (gs_frames st) i = 0"
    and slot: "gs_activeExecutions st < gs_concurrencyLimit st"
  shows "graph_inv (A - {i}) B (start_node now i st)"
proof -
  note I = graph_invD [OF inv]
  have S: "stat (start_node now i st) = (stat st)(i \<mapsto> RUNNING)"
    by (rule stat_start_node) (simp add: pend)
  have c: "count (gs_frames st) (Waiting i) = 0" "count (gs_frames st) (InFlight i) = 0"
    "count (gs_frames st) (Backoff i) = 0" "count (gs_frames st) (RetryWaiting i) = 0"
    using none by (simp_all add: live_count_def)
  have "sched_inv (gs_nodes st) ((stat st)(i \<mapsto> RUNNING)) (add_mset (InFlight i) (gs_frames st))"
    by (rule sched_inv_move [OF I(3)]) (use pend rdy c in \<open>auto simp: live_count_def\<close>)
  moreover have "enabled_ok (gs_nodes st) ((stat st)(i \<mapsto> RUNNING))
      (add_mset (InFlight i) (gs_frames st)) (A - {i})"
    by (rule enabled_ok_move [OF I(4)]) (use pend in \<open>auto simp: live_count_def sat_def\<close>)
  moreover have "block_ok (gs_nodes st) ((stat st)(i \<mapsto> RUNNING)) B"
    by (rule block_ok_move [OF I(5)]) (use pend in \<open>auto simp: bad_def\<close>)
  moreover have "attempts_ok (gs_nodes st) (gs_executions (start_node now i st))"
    using attempts_ok_start [OF I(6) pend] by (simp add: start_node_def)
  ultimately show ?thesis
    using I(1,2) slot by (simp add: graph_inv_def S slot_inv_start)
qed

lemma add_waiting_inv:
  assumes inv: "graph_inv A B st" and pend: "stat st i = Some PENDING"
    and rdy: "ready (gs_nodes st) (stat st) i" and none: "live_count (gs_frames st) i = 0"
  shows "graph_inv (A - {i}) B (st\<lparr>gs_frames := add_mset (Waiting i) (gs_frames st)\<rparr>)"
proof -
  note I = graph_invD [OF inv]
  let ?fr = "add_mset (Waiting i) (gs_frames st)"
  have c: "count (gs_frames st) (InFlight i) = 0" "live_count ?fr i = 1"
    using none by (simp_all add: live_count_def)
  have "sched_inv (gs_nodes st) (stat st) ?fr"
    by (rule sched_inv_frames [OF I(3) pend]) (use rdy c in auto)
  moreover have "enabled_ok (gs_nodes st) (stat st) ?fr (A - {i})"
    using enabled_ok_move [OF I(4), of i ?fr PENDING] pend c
    by (auto simp: fun_upd_idem sat_def live_count_def)
  moreover have "slot_inv (st\<lparr>gs_frames := ?fr\<rparr>)"
    using I(2) by (simp add: slot_inv_def holds_slot_def)
  ultimately show ?thesis
    using I(1,5,6) by (simp add: graph_inv_def)
qed

lemma scheduleNode_inv:
  assumes "graph_inv A B st" and "canExecute st i" and "live_count (gs_frames st) i = 0"
  shows "graph_inv (A - {i}) B (scheduleNode now i st)"
  using assms start_node_inv add_waiting_inv by (auto simp: scheduleNode_def canExecute_iff)

lemma live_count_scheduleNode:
  "j \<noteq> i \<Longrightarrow> live_count (gs_frames (scheduleNode now i st)) j = live_count (gs_frames st) j"
  by (simp add: scheduleNode_def live_count_def)

lemma scheduleNodes_fields [simp]:
  "gs_definition (scheduleNodes now is st) = gs_definition st"
  "gs_dependencyMap (scheduleNodes now is st) = gs_dependencyMap st"
  "gs_concurrencyLimit (scheduleNodes now is st) = gs_concurrencyLimit st"
  "gs_handlers (scheduleNodes now is st) = gs_handlers st"
  "gs_running (scheduleNodes now is st) = gs_running st"
  by (induction "is" arbitrary: st) simp_all

lemma not_canExecute_excused:
  "graph_inv A B st \<Longrightarrow> \<not> canExecute st i \<Longrightarrow> graph_inv (A - {i}) B st"
  by (auto simp: graph_inv_def enabled_ok_def canExecute_iff)

lemma scheduleNodes_inv:
  assumes "graph_inv A B st" and "distinct is"
    and "\<And>i. i \<in> set is \<Longrightarrow> live_count (gs_frames st) i = 0"
  shows "graph_inv (A - set is) B (scheduleNodes now is st)"
  using assms
proof (induction "is" arbitrary: st A)
  case Nil
  then show ?case by simp
next
  case (Cons i "is")
  let ?st' = "if canExecute st i then scheduleNode now i st else st"
  have "graph_inv (A - {i}) B ?st'"
    using Cons.prems scheduleNode_inv not_canExecute_excused by auto
  moreover have "live_count (gs_frames ?st') j = 0" if "j \<in> set is" for j
    using that Cons.prems by (cases "j = i") (auto simp: live_count_scheduleNode)
  ultimately have "graph_inv (A - {i} - set is) B (scheduleNodes now is ?st')"
    using Cons.IH [of "A - {i}" ?st'] Cons.prems(2) by simp
  moreover have "A - {i} - set is = A - set (i # is)" by auto
  ultimately show ?case by simp
qed

section \<open>Blocking dependents keeps the invariant\<close>

lemma block_dependents_spec:
  "block_dependents ds E = (E', pushed) \<Longrightarrow>
     stat_of E' = (\<lambda>i. if i \<in> set pushed then Some BLOCKED else stat_of E i) \<and>
     set pushed = {i \<in> set ds. stat_of E i = Some PENDING}"
proof (induction ds E arbitrary: E' pushed rule: block_dependents.induct)
  case (1 E)
  then show ?case by auto
next
  case (2 d ds E)
  show ?case
  proof (cases "stat_of E d = Some PENDING")
    case False
    with 2 show ?thesis
      by (cases "map_of E d") (auto simp: stat_of_def)
  next
    case True
    then obtain ex where ex: "map_of E d = Some ex" "ne_status ex = PENDING"
      by (auto simp: stat_of_def)
    let ?E = "jset d (ex\<lparr>ne_status := BLOCKED\<rparr>) E"
    obtain q where q: "block_dependents ds ?E = (E', q)" "pushed = d # q"
      using "2.prems" ex by (auto split: prod.splits)
    have st: "stat_of ?E = (stat_of E)(d \<mapsto> BLOCKED)"
      by (auto simp: stat_of_def jmap_simps)
    from "2.IH"(2) [OF ex(1) ex(2) q(1)] q(2) st True show ?thesis by auto
  qed
qed

lemma block_dependents_attempts:
  "block_dependents ds E = (E', pushed) \<Longrightarrow> attempts_ok nodes E \<Longrightarrow> attempts_ok nodes E'"
proof (induction ds E arbitrary: E' pushed rule: block_dependents.induct)
  case (2 d ds E)
  have "attempts_ok nodes (jset d (ex\<lparr>ne_status := BLOCKED\<rparr>) E)" if "map_of E d = Some ex" for ex
    using that "2.prems"(2) by (auto simp: attempts_ok_def jmap_simps)
  with 2 show ?case
    by (auto split: option.splits if_splits prod.splits)
qed simp

definition block_all :: "string set \<Rightarrow> statuses \<Rightarrow> statuses" where
  "block_all P S i = (if i \<in> P then Some BLOCKED else S i)"

lemma block_all_PENDING: "block_all P S i = Some PENDING \<longleftrightarrow> i \<notin> P \<and> S i = Some PENDING"
  by (simp add: block_all_def)

lemma sat_block_all:
  "(\<And>i. i \<in> P \<Longrightarrow> S i = Some PENDING) \<Longrightarrow> sat nodes (block_all P S) d = sat nodes S d"
  by (auto simp: sat_def block_all_def)

lemma ready_block_all:
  "(\<And>i. i \<in> P \<Longrightarrow> S i = Some PENDING) \<Longrightarrow> ready nodes (block_all P S) i = ready nodes S i"
  by (simp add: ready_def sat_block_all)

lemma bad_block_all:
  "(\<And>i. i \<in> P \<Longrightarrow> S i = Some PENDING) \<Longrightarrow>
     bad nodes (block_all P S) d \<longleftrightarrow> bad nodes S d \<or> d \<in> P"
  by (auto simp: bad_def block_all_def)

lemma sched_inv_block_all:
  assumes inv: "sched_inv nodes S fr" and pend: "\<And>i. i \<in> P \<Longrightarrow> S i = Some PENDING"
    and dep: "\<And>i. i \<in> P \<Longrightarrow> \<exists>d\<in>set (deps_of nodes i). bad nodes S d"
  shows "sched_inv nodes (block_all P S) fr"
proof -
  have "live_count fr i = 0" if "i \<in> P" for i
    using dep [OF that] sched_invD(4) [OF inv, of i] ready_not_bad by (metis gr0I)
  then have c: "count fr (Waiting i) = 0 \<and> count fr (InFlight i) = 0 \<and> count fr (Backoff i) = 0 \<and>
      count fr (RetryWaiting i) = 0" if "i \<in> P" for i
    using that by (simp add: live_count_def)
  show ?thesis
    unfolding sched_inv_def
  proof (intro conjI allI impI)
    fix i
    show "live_count fr i \<le> 1" by (rule sched_invD(1) [OF inv])
    show "(block_all P S i = Some RUNNING) = (0 < count fr (InFlight i))"
      using c [of i] sched_invD(2) [OF inv, of i] by (cases "i \<in> P") (simp_all add: block_all_def)
    show "block_all P S i = Some PENDING"
      if "0 < count fr (Waiting i) + count fr (Backoff i) + count fr (RetryWaiting i)"
      using that c [of i] sched_invD(3) [OF inv, of i]
      by (auto simp: block_all_def count_eq_zero_iff)
    show "ready nodes (block_all P S) i"
      if "0 < live_count fr i \<or> block_all P S i = Some COMPLETED \<or> block_all P S i = Some FAILED"
      using that sched_invD(4) [OF inv, of i]
      by (auto simp: ready_block_all [OF pend] block_all_def split: if_splits)
    show "\<exists>d\<in>set (deps_of nodes i). bad nodes (block_all P S) d" if "block_all P S i = Some BLOCKED"
      using that dep [of i] sched_invD(5) [OF inv, of i]
      by (auto simp: bad_block_all [OF pend] block_all_def split: if_splits)
    show "block_all P S i \<noteq> Some SKIPPED"
      using sched_invD(6) [OF inv, of i] by (simp add: block_all_def)
  qed
qed

lemma enabled_ok_block_all:
  "enabled_ok nodes S fr A \<Longrightarrow> (\<And>i. i \<in> P \<Longrightarrow> S i = Some PENDING) \<Longrightarrow>
     enabled_ok nodes (block_all P S) fr A"
  by (simp add: enabled_ok_def ready_block_all block_all_PENDING)

lemma markBlocked_loop_inv:
  assumes "sched_inv nodes (stat_of E) fr" and "enabled_ok nodes (stat_of E) fr A"
    and "block_ok nodes (stat_of E) (set queue)"
    and "\<forall>c\<in>set queue. bad nodes (stat_of E) c"
    and "\<forall>v\<in>set visited. \<forall>i. v \<in> set (deps_of nodes i) \<longrightarrow> stat_of E i \<noteq> Some PENDING"
    and "\<And>d i. i \<in> set (jget_or [] m d) \<longleftrightarrow> d \<in> set (deps_of nodes i)"
    and "attempts_ok nodes E"
  shows "sched_inv nodes (stat_of (markBlocked_loop m E visited queue)) fr \<and>
    enabled_ok nodes (stat_of (markBlocked_loop m E visited queue)) fr A \<and>
    block_ok nodes (stat_of (markBlocked_loop m E visited queue)) {} \<and>
    attempts_ok nodes (markBlocked_loop m E visited queue)"
  using assms
proof (induction m E visited queue rule: markBlocked_loop.induct)
  case (1 m E visited)
  then show ?case by simp
next
  case (2 m E visited c queue)
  show ?case
  proof (cases "c \<in> set visited")
    case True
    then have "block_ok nodes (stat_of E) (set queue)"
      using "2.prems"(3,5) unfolding block_ok_def by (metis set_ConsD)
    with True "2.IH"(1) "2.prems" show ?thesis by simp
  next
    case new: False
    obtain E' pushed where pass: "block_dependents (jget_or [] m c) E = (E', pushed)"
      by (cases "block_dependents (jget_or [] m c) E")
    let ?S = "stat_of E"
    have S': "stat_of E' = block_all (set pushed) ?S"
      and pushed: "set pushed = {i. c \<in> set (deps_of nodes i) \<and> ?S i = Some PENDING}"
      using block_dependents_spec [OF pass] "2.prems"(6) by (auto simp: block_all_def fun_eq_iff)
    have pend: "\<And>i. i \<in> set pushed \<Longrightarrow> ?S i = Some PENDING" using pushed by simp
    have "bad nodes ?S c" using "2.prems"(4) by simp
    then have "sched_inv nodes (stat_of E') fr"
      unfolding S' by (intro sched_inv_block_all [OF "2.prems"(1) pend]) (use pushed in auto)
    moreover have bb: "bad nodes (block_all (set pushed) ?S) d \<longleftrightarrow> bad nodes ?S d \<or> d \<in> set pushed" for d
      by (rule bad_block_all [OF pend])
    moreover have "enabled_ok nodes (stat_of E') fr A"
      unfolding S' by (rule enabled_ok_block_all [OF "2.prems"(2) pend])
    moreover have "block_ok nodes (stat_of E') (set (queue @ pushed))"
      unfolding block_ok_def S' block_all_PENDING
    proof (intro allI impI notI, elim conjE)
      fix i d
      assume "d \<notin> set (queue @ pushed)" "d \<in> set (deps_of nodes i)"
        "bad nodes (block_all (set pushed) ?S) d" "i \<notin> set pushed" "?S i = Some PENDING"
      then show False
        using "2.prems"(3) pushed bb [of d] by (cases "d = c") (auto simp: block_ok_def)
    qed
    moreover have "\<forall>d\<in>set (queue @ pushed). bad nodes (stat_of E') d"
      using "2.prems"(4) by (auto simp: S' bb)
    moreover have "\<forall>v\<in>set (c # visited). \<forall>i. v \<in> set (deps_of nodes i) \<longrightarrow> stat_of E' i \<noteq> Some PENDING"
      using "2.prems"(5) pushed by (auto simp: S' block_all_def)
    moreover have "attempts_ok nodes E'"
      by (rule block_dependents_attempts [OF pass "2.prems"(7)])
    ultimately show ?thesis
      using new pass "2.IH"(2) [OF new pass [symmetric] refl] "2.prems"(6) by simp
  qed
qed

section \<open>Settling a call keeps the invariant\<close>

text \<open>What the presence of a live call of \<open>i\<close> says: it is the only one, its node has the
  matching status and is ready.\<close>

lemma live_frame_cases:
  assumes inv: "sched_inv nodes S fr" and f: "f \<in># fr"
    and fi: "f = Waiting i \<or> f = InFlight i \<or> f = Backoff i \<or> f = RetryWaiting i"
  obtains fr0 where "fr = add_mset f fr0" and "live_count fr0 i = 0" and "ready nodes S i"
    and "S i = Some (if f = InFlight i then RUNNING else PENDING)"
proof -
  from f obtain fr0 where fr0: "fr = add_mset f fr0" by (metis mset_add)
  have pos: "0 < live_count fr i" using fi fr0 by (auto simp: live_count_def)
  have zero: "live_count fr0 i = 0"
    using sched_invD(1) [OF inv, of i] fi fr0 by (auto simp: live_count_def)
  have "S i = Some (if f = InFlight i then RUNNING else PENDING)"
    using sched_invD(2,3) [OF inv, of i] fi fr0 by auto
  with that [OF fr0 zero] sched_invD(4) [OF inv, of i] pos show ?thesis by simp
qed

lemma slot_inv_swap:
  "slot_inv st \<Longrightarrow> gs_frames st = add_mset f fr0 \<Longrightarrow> holds_slot f = holds_slot g \<Longrightarrow>
     slot_inv (st\<lparr>gs_executions := E, gs_context := c, gs_frames := add_mset g fr0\<rparr>)"
  by (simp add: slot_inv_def)

definition settled_state :: "string \<Rightarrow> frame \<Rightarrow> (string, NodeExecution) jsmap \<Rightarrow> ExecutionContext \<Rightarrow>
    GraphState \<Rightarrow> GraphState" where
  "settled_state i g E c st =
     st\<lparr>gs_executions := E, gs_context := c, gs_frames := add_mset g (gs_frames st - {#InFlight i#})\<rparr>"

lemma settled_state_fields [simp]:
  "gs_definition (settled_state i g E c st) = gs_definition st"
  "gs_dependencyMap (settled_state i g E c st) = gs_dependencyMap st"
  "gs_executions (settled_state i g E c st) = E"
  "gs_concurrencyLimit (settled_state i g E c st) = gs_concurrencyLimit st"
  "gs_activeExecutions (settled_state i g E c st) = gs_activeExecutions st"
  "gs_handlers (settled_state i g E c st) = gs_handlers st"
  "gs_running (settled_state i g E c st) = gs_running st"
  "dependents (settled_state i g E c st) = dependents st"
  "dependents_ok (settled_state i g E c st) = dependents_ok st"
  by (simp_all add: settled_state_def dependents_def fun_eq_iff)

lemma settle_terminal:
  assumes inv: "graph_inv A {} st" and f: "InFlight i \<in># gs_frames st"
    and S: "stat_of E = (stat st)(i \<mapsto> s)" and s: "s = COMPLETED \<or> s = FAILED"
    and att: "attempts_ok (gs_nodes st) E"
  shows "graph_inv (A \<union> set (dependents st i)) {i} (settled_state i (Returning i) E c st) \<and>
    (s = COMPLETED \<or> continues (gs_nodes st) i \<longrightarrow>
       graph_inv (A \<union> set (dependents st i)) {} (settled_state i (Returning i) E c st)) \<and>
    (s = FAILED \<longrightarrow> \<not> continues (gs_nodes st) i \<longrightarrow>
       graph_inv A {i} (settled_state i (Returning i) E c st))"
proof -
  note I = graph_invD [OF inv]
  obtain fr0 where fr0: "gs_frames st = add_mset (InFlight i) fr0" and z: "live_count fr0 i = 0"
    and rdy: "ready (gs_nodes st) (stat st) i" and run: "stat st i = Some RUNNING"
    using live_frame_cases [OF I(3) f, of i] by auto
  let ?fr = "add_mset (Returning i) fr0"
  let ?st = "settled_state i (Returning i) E c st"
  have fr: "gs_frames ?st = ?fr" by (simp add: settled_state_def fr0)
  have c0: "count fr0 (Waiting i) = 0" "count fr0 (InFlight i) = 0" "count fr0 (Backoff i) = 0"
    "count fr0 (RetryWaiting i) = 0" using z by (simp_all add: live_count_def)
  have sched: "sched_inv (gs_nodes st) (stat_of E) ?fr"
    unfolding S by (rule sched_inv_move [OF I(3)]) (use run s rdy c0 fr0 in \<open>auto simp: live_count_def\<close>)
  have slot: "slot_inv ?st"
    using slot_inv_swap [OF I(2) fr0, of "Returning i"] by (simp add: settled_state_def fr0 holds_slot_def)
  have blkx: "block_ok (gs_nodes st) (stat_of E) {i}"
    unfolding S by (rule block_ok_move [OF I(5)]) (use run s in \<open>auto simp: bad_def\<close>)
  have blk: "block_ok (gs_nodes st) (stat_of E) {}" if "s = COMPLETED \<or> continues (gs_nodes st) i"
    unfolding S by (rule block_ok_move [OF I(5)]) (use run s that in \<open>auto simp: bad_def\<close>)
  have enx: "enabled_ok (gs_nodes st) (stat_of E) ?fr (A \<union> set (dependents st i))"
    unfolding S
    by (rule enabled_ok_satisfies [OF I(4) run])
       (use s fr0 I(1) in \<open>auto simp: live_count_def dependents_ok_def\<close>)
  have en: "enabled_ok (gs_nodes st) (stat_of E) ?fr A"
    if "s = FAILED" "\<not> continues (gs_nodes st) i"
    using enabled_ok_move [OF I(4), of i ?fr s] that run fr0 unfolding S
    by (auto intro: enabled_ok_mono simp: sat_def live_count_def)
  show ?thesis
    using I(1) slot sched blkx blk enx en att by (simp add: graph_inv_def fr)
qed

lemma dependents_not_live:
  assumes inv: "graph_inv A B st" and run: "stat st i = Some RUNNING" and j: "j \<in> set (dependents st i)"
  shows "live_count (gs_frames st) j = 0"
proof (rule ccontr)
  assume "live_count (gs_frames st) j \<noteq> 0"
  then have "ready (gs_nodes st) (stat st) j" using sched_invD(4) graph_invD(3) [OF inv] by blast
  moreover have "i \<in> set (deps_of (gs_nodes st) j)"
    using j graph_invD(1) [OF inv] by (simp add: dependents_ok_def)
  ultimately show False using run by (auto simp: ready_def sat_def)
qed

lemma schedule_dependents_inv:
  assumes inv: "graph_inv A {} st" and f: "InFlight i \<in># gs_frames st"
    and inv': "graph_inv (A \<union> set (dependents st i)) B (settled_state i (Returning i) E c st)"
  shows "graph_inv A B (scheduleNodes now (dependents st i) (settled_state i (Returning i) E c st))"
proof -
  note I = graph_invD [OF inv]
  have run: "stat st i = Some RUNNING" using live_frame_cases [OF I(3) f, of i] by auto
  have "live_count (gs_frames (settled_state i (Returning i) E c st)) j = 0"
    if "j \<in> set (dependents st i)" for j
    using dependents_not_live [OF inv run that] by (auto simp: live_count_def settled_state_def)
  moreover have "distinct (dependents st i)" using I(1) by (simp add: dependents_ok_def)
  ultimately have "graph_inv (A \<union> set (dependents st i) - set (dependents st i)) B
      (scheduleNodes now (dependents st i) (settled_state i (Returning i) E c st))"
    by (intro scheduleNodes_inv [OF inv'])
  then show ?thesis by (auto simp: graph_inv_def intro: enabled_ok_mono)
qed

section \<open>Every step keeps the invariant\<close>

lemma complete_node_eq:
  "complete_node now i out st = scheduleNodes now (dependents st i) (settled_state i (Returning i)
     (jmodify i (\<lambda>ex. (end_execution now ex)\<lparr>ne_status := COMPLETED, ne_output := Some out\<rparr>)
        (gs_executions st))
     ((gs_context st)\<lparr>cx_outputs := jset i out (cx_outputs (gs_context st))\<rparr>) st)"
  by (simp add: complete_node_def Let_def settle_frame_def settled_state_def dependents_def)

lemma end_execution_fields [simp]:
  "ne_status (end_execution now ex) = ne_status ex"
  "ne_attempts (end_execution now ex) = ne_attempts ex"
  "ne_error (end_execution now ex) = ne_error ex"
  by (simp_all add: end_execution_def)

lemma attempts_ok_status:
  assumes "attempts_ok nodes E" and "\<And>ex. ne_attempts (f ex) = ne_attempts ex"
    and "\<And>ex. map_of E i = Some ex \<Longrightarrow> ne_status (f ex) = PENDING \<Longrightarrow> ne_attempts ex < max_attempts nodes i"
  shows "attempts_ok nodes (jmodify i f E)"
  by (rule attempts_ok_modify [OF assms(1)]) (use assms in \<open>auto simp: attempts_ok_def\<close>)

lemma complete_node_inv:
  assumes inv: "graph_inv A {} st" and f: "InFlight i \<in># gs_frames st"
  shows "graph_inv A {} (complete_node now i out st)"
proof -
  note I = graph_invD [OF inv]
  have run: "stat st i = Some RUNNING" using live_frame_cases [OF I(3) f, of i] by auto
  let ?E = "jmodify i (\<lambda>ex. (end_execution now ex)\<lparr>ne_status := COMPLETED, ne_output := Some out\<rparr>)
    (gs_executions st)"
  have S: "stat_of ?E = (stat st)(i \<mapsto> COMPLETED)"
    by (rule stat_of_jmodify_status) (auto simp: run)
  have "attempts_ok (gs_nodes st) ?E" by (rule attempts_ok_status [OF I(6)]) auto
  with settle_terminal [OF inv f S] show ?thesis
    unfolding complete_node_eq by (intro schedule_dependents_inv [OF inv f]) auto
qed

lemma should_retry_attempts:
  assumes "should_retry st i" and "map_of (gs_executions st) i = Some ex"
  shows "ne_attempts ex < max_attempts (gs_nodes st) i"
  using assms by (auto simp: should_retry_def max_attempts_def split: option.splits)

lemma retry_node_inv:
  assumes inv: "graph_inv A {} st" and f: "InFlight i \<in># gs_frames st"
    and S: "stat_of E = (stat st)(i \<mapsto> PENDING)" and att: "attempts_ok (gs_nodes st) E"
  shows "graph_inv A {} (settled_state i (Backoff i) E c st)"
proof -
  note I = graph_invD [OF inv]
  obtain fr0 where fr0: "gs_frames st = add_mset (InFlight i) fr0" and z: "live_count fr0 i = 0"
    and rdy: "ready (gs_nodes st) (stat st) i" and run: "stat st i = Some RUNNING"
    using live_frame_cases [OF I(3) f, of i] by auto
  let ?fr = "add_mset (Backoff i) fr0"
  have c0: "count fr0 (Waiting i) = 0" "count fr0 (InFlight i) = 0" "count fr0 (Backoff i) = 0"
    "count fr0 (RetryWaiting i) = 0" using z by (simp_all add: live_count_def)
  have "sched_inv (gs_nodes st) (stat_of E) ?fr"
    unfolding S by (rule sched_inv_move [OF I(3)]) (use run rdy c0 fr0 in \<open>auto simp: live_count_def\<close>)
  moreover have "enabled_ok (gs_nodes st) (stat_of E) ?fr A"
    using enabled_ok_move [OF I(4), of i ?fr PENDING] run fr0 unfolding S
    by (auto intro: enabled_ok_mono simp: sat_def live_count_def)
  moreover have "block_ok (gs_nodes st) (stat_of E) {}"
    unfolding S by (rule block_ok_move [OF I(5)]) (use run rdy in \<open>auto simp: bad_def\<close>)
  moreover have "slot_inv (settled_state i (Backoff i) E c st)"
    using slot_inv_swap [OF I(2) fr0, of "Backoff i"]
    by (simp add: settled_state_def fr0 holds_slot_def)
  moreover have "gs_frames (settled_state i (Backoff i) E c st) = ?fr"
    by (simp add: settled_state_def fr0)
  ultimately show ?thesis using I(1) att by (simp add: graph_inv_def)
qed

definition failed_executions ::
  "time \<Rightarrow> string \<Rightarrow> string \<Rightarrow> string option \<Rightarrow> GraphState \<Rightarrow> (string, NodeExecution) jsmap" where
  "failed_executions now i msg stack st = jmodify i
     (\<lambda>ex. ex\<lparr>ne_status := FAILED, ne_error := Some \<lparr>er_message = msg, er_stack = stack,
        er_retryCount = ne_attempts ex - 1\<rparr>\<rparr>) (jmodify i (end_execution now) (gs_executions st))"

definition retried_executions ::
  "time \<Rightarrow> string \<Rightarrow> string \<Rightarrow> string option \<Rightarrow> GraphState \<Rightarrow> (string, NodeExecution) jsmap" where
  "retried_executions now i msg stack st = jmodify i
     (\<lambda>ex. ex\<lparr>ne_status := PENDING, ne_error := Some (retry_error msg stack ex)\<rparr>)
     (jmodify i (end_execution now) (gs_executions st))"

lemma should_retry_ended:
  "should_retry (st\<lparr>gs_executions := jmodify i (end_execution now) (gs_executions st)\<rparr>) i
     = should_retry st i"
  by (auto simp: should_retry_def jmap_simps split: option.splits)

lemma fail_node_eq:
  "fail_node now i msg stack st =
     (if should_retry st i
      then settled_state i (Backoff i) (retried_executions now i msg stack st) (gs_context st) st
      else let st2 = settled_state i (Returning i) (failed_executions now i msg stack st) (gs_context st) st
           in if continues (gs_nodes st) i then scheduleNodes now (dependents st i) st2
              else markBlockedDependents i st2)"
  by (simp add: fail_node_def Let_def should_retry_ended settle_frame_def settled_state_def
      dependents_def failed_executions_def retried_executions_def)

lemma markBlockedDependents_inv:
  assumes inv: "graph_inv A {i} st" and bad: "bad (gs_nodes st) (stat st) i"
  shows "graph_inv A {} (markBlockedDependents i st)"
proof -
  note I = graph_invD [OF inv]
  have dep: "\<And>d j. j \<in> set (jget_or [] (gs_dependencyMap st) d) \<longleftrightarrow> d \<in> set (deps_of (gs_nodes st) j)"
    using I(1) by (simp add: dependents_ok_def dependents_def)
  from markBlocked_loop_inv [OF I(3,4), of "[i]" "[]" "gs_dependencyMap st"] I bad dep
  show ?thesis by (simp add: graph_inv_def markBlockedDependents_def slot_inv_def)
qed

lemma fail_node_inv:
  assumes inv: "graph_inv A {} st" and f: "InFlight i \<in># gs_frames st"
  shows "graph_inv A {} (fail_node now i msg stack st)"
proof -
  note I = graph_invD [OF inv]
  have run: "stat st i = Some RUNNING" using live_frame_cases [OF I(3) f, of i] by auto
  have E0: "stat_of (jmodify i (end_execution now) (gs_executions st)) = stat st"
    by (rule stat_of_jmodify_same) simp
  have A0: "attempts_ok (gs_nodes st) (jmodify i (end_execution now) (gs_executions st))"
    by (rule attempts_ok_status [OF I(6)]) (use I(6) in \<open>auto simp: attempts_ok_def\<close>)
  have FS: "stat_of (failed_executions now i msg stack st) = (stat st)(i \<mapsto> FAILED)"
    using stat_of_jmodify_status [of _ FAILED "jmodify i (end_execution now) (gs_executions st)" i]
    by (simp add: failed_executions_def E0 run)
  have FA: "attempts_ok (gs_nodes st) (failed_executions now i msg stack st)"
    unfolding failed_executions_def by (rule attempts_ok_status [OF A0]) auto
  show ?thesis
  proof (cases "should_retry st i")
    case True
    have RS: "stat_of (retried_executions now i msg stack st) = (stat st)(i \<mapsto> PENDING)"
      using stat_of_jmodify_status [of _ PENDING "jmodify i (end_execution now) (gs_executions st)" i]
      by (simp add: retried_executions_def E0 run)
    have RA: "attempts_ok (gs_nodes st) (retried_executions now i msg stack st)"
      unfolding retried_executions_def
      by (rule attempts_ok_status [OF A0])
         (use should_retry_attempts [OF True] in \<open>auto simp: jmap_simps\<close>)
    show ?thesis
      using True retry_node_inv [OF inv f RS RA] by (simp add: fail_node_eq)
  next
    case no: False
    note T = settle_terminal [OF inv f FS _ FA, of "gs_context st"]
    show ?thesis
    proof (cases "continues (gs_nodes st) i")
      case True
      with T no show ?thesis
        by (simp add: fail_node_eq schedule_dependents_inv [OF inv f])
    next
      case False
      have "bad (gs_nodes st) (stat_of (failed_executions now i msg stack st)) i"
        using False by (simp add: FS bad_def)
      with T no False show ?thesis
        by (simp add: fail_node_eq Let_def markBlockedDependents_inv)
    qed
  qed
qed

lemma suspended_frame_inv:
  assumes inv: "graph_inv A B st" and f: "f \<in># gs_frames st"
    and fi: "f = Waiting i \<or> f = Backoff i \<or> f = RetryWaiting i"
    and fr': "fr' = gs_frames st - {#f#} \<and> f = Waiting i \<or>
      fr' = add_mset (Returning i) (gs_frames st - {#f#}) \<and> f \<noteq> Waiting i"
  shows "graph_inv (insert i A) B (st\<lparr>gs_frames := fr'\<rparr>) \<and> live_count fr' i = 0 \<and>
    stat st i = Some PENDING \<and> ready (gs_nodes st) (stat st) i"
proof -
  note I = graph_invD [OF inv]
  have fi': "f = Waiting i \<or> f = InFlight i \<or> f = Backoff i \<or> f = RetryWaiting i" using fi by blast
  obtain fr0 where fr0: "gs_frames st = add_mset f fr0" and z: "live_count fr0 i = 0"
    and rdy: "ready (gs_nodes st) (stat st) i"
    and st_i: "stat st i = Some (if f = InFlight i then RUNNING else PENDING)"
    by (rule live_frame_cases [OF I(3) f fi'])
  have pend: "stat st i = Some PENDING" using st_i fi by auto
  have other: "live_count fr' j = live_count (gs_frames st) j" if "j \<noteq> i" for j
    using that fi fr' fr0 by (auto simp: live_count_def)
  have live: "live_count fr' i = 0"
    using z fi fr' fr0 by (auto simp: live_count_def)
  have "sched_inv (gs_nodes st) (stat st) fr'"
    by (rule sched_inv_frames [OF I(3) pend])
       (use live rdy fi fr' fr0 in \<open>auto simp: live_count_def\<close>)
  moreover have "enabled_ok (gs_nodes st) (stat st) fr' (insert i A)"
    using I(4) other by (auto simp: enabled_ok_def)
  moreover have "slot_inv (st\<lparr>gs_frames := fr'\<rparr>)"
    using I(2) fi fr' fr0 by (auto simp: slot_inv_def holds_slot_def)
  ultimately show ?thesis using I live pend rdy by (simp add: graph_inv_def)
qed

lemma start_node_frames_update:
  "start_node now i (st\<lparr>gs_frames := fr\<rparr>) =
     (start_node now i st)\<lparr>gs_frames := add_mset (InFlight i) fr\<rparr>"
  by (simp add: start_node_def)

lemma restart_inv:
  assumes inv: "graph_inv A {} st" and f: "f \<in># gs_frames st"
    and fi: "f = Waiting i \<or> f = Backoff i \<or> f = RetryWaiting i"
    and fr': "fr' = gs_frames st - {#f#} \<and> f = Waiting i \<or>
      fr' = add_mset (Returning i) (gs_frames st - {#f#}) \<and> f \<noteq> Waiting i"
    and slot: "gs_activeExecutions st < gs_concurrencyLimit st"
  shows "graph_inv A {} (start_node now i (st\<lparr>gs_frames := fr'\<rparr>))"
proof -
  note F = suspended_frame_inv [OF inv f fi fr']
  then have "graph_inv (insert i A - {i}) {} (start_node now i (st\<lparr>gs_frames := fr'\<rparr>))"
    using slot by (intro start_node_inv) auto
  then show ?thesis by (auto simp: graph_inv_def intro: enabled_ok_mono)
qed

lemma poll_waiting_inv:
  "graph_inv A {} st \<Longrightarrow> Waiting i \<in># gs_frames st \<Longrightarrow>
     gs_activeExecutions st < gs_concurrencyLimit st \<Longrightarrow> graph_inv A {} (poll_waiting now i st)"
  unfolding poll_waiting_def by (rule restart_inv) auto

lemma settle_start_eq:
  assumes "f \<in># gs_frames st" and "f \<noteq> InFlight i"
  shows "settle_frame f g (start_node now i st) =
    start_node now i (st\<lparr>gs_frames := add_mset g (gs_frames st - {#f#})\<rparr>)"
  using assms by (simp add: settle_frame_def start_node_def add_mset_commute)

lemma poll_retry_inv:
  "graph_inv A {} st \<Longrightarrow> RetryWaiting i \<in># gs_frames st \<Longrightarrow>
     gs_activeExecutions st < gs_concurrencyLimit st \<Longrightarrow> graph_inv A {} (poll_retry now i st)"
  unfolding poll_retry_def by (simp add: settle_start_eq restart_inv)

lemma resume_backoff_inv:
  assumes inv: "graph_inv A {} st" and f: "Backoff i \<in># gs_frames st"
  shows "graph_inv A {} (resume_backoff now i st)"
proof (cases "gs_activeExecutions st \<ge> gs_concurrencyLimit st")
  case False
  then show ?thesis
    using inv f by (simp add: resume_backoff_def settle_start_eq restart_inv)
next
  case True
  note I = graph_invD [OF inv]
  obtain fr0 where fr0: "gs_frames st = add_mset (Backoff i) fr0" and z: "live_count fr0 i = 0"
    and rdy: "ready (gs_nodes st) (stat st) i" and pend: "stat st i = Some PENDING"
    using live_frame_cases [OF I(3) f, of i] by auto
  let ?fr = "add_mset (RetryWaiting i) fr0"
  have "sched_inv (gs_nodes st) (stat st) ?fr"
    by (rule sched_inv_frames [OF I(3) pend]) (use z rdy fr0 in \<open>auto simp: live_count_def\<close>)
  moreover have "enabled_ok (gs_nodes st) (stat st) ?fr A"
    using I(4) fr0 by (auto simp: enabled_ok_def live_count_def)
  moreover have "slot_inv (st\<lparr>gs_frames := ?fr\<rparr>)"
    using I(2) fr0 by (auto simp: slot_inv_def holds_slot_def)
  ultimately show ?thesis
    using True I fr0 by (simp add: resume_backoff_def settle_frame_def graph_inv_def)
qed

lemma release_slot_inv:
  assumes inv: "graph_inv A {} st" and f: "Returning i \<in># gs_frames st"
  shows "graph_inv A {} (release_slot i st)"
proof -
  note I = graph_invD [OF inv]
  obtain fr0 where fr0: "gs_frames st = add_mset (Returning i) fr0" using f by (metis mset_add)
  have "sched_inv (gs_nodes st) (stat st) fr0"
    by (rule sched_inv_returning [OF I(3)]) (auto simp: fr0)
  moreover have "enabled_ok (gs_nodes st) (stat st) fr0 A"
    using I(4) fr0 by (simp add: enabled_ok_def live_count_def)
  moreover have "slot_inv (release_slot i st)"
    using I(2) fr0 by (auto simp: slot_inv_def holds_slot_def release_slot_def)
  ultimately show ?thesis using I fr0 by (simp add: graph_inv_def release_slot_def)
qed

lemma graph_step_inv: "graph_step st st' \<Longrightarrow> graph_inv A {} st \<Longrightarrow> graph_inv A {} st'"
  by (induction rule: graph_step.induct)
     (simp_all add: complete_node_inv fail_node_inv resume_backoff_inv poll_waiting_inv poll_retry_inv
       release_slot_inv)

lemma stop_graph_inv: "graph_inv A {} st \<Longrightarrow> graph_inv A {} (stop_graph st)"
  by (simp add: graph_inv_def stop_graph_def slot_inv_def)

end
