(* ===== verification/Graph_Initial.thy ===== *)
theory Graph_Initial
  imports Graph_Steps
begin

text \<open>
  From the constructor of \<^verbatim>\<open>ExecutionGraph\<close> to the reachable states: what validation
  establishes, that the reverse dependency map and the initial executions are right, and
  that the scheduler invariant holds in every state an execution reaches.
\<close>

section \<open>Validation\<close>

lemma check_dependencies_ok:
  "check_dependencies nodes seen i ds = Inr u \<longleftrightarrow> set ds \<subseteq> set seen \<union> nd_id ` set nodes"
  by (induction nodes seen i ds rule: check_dependencies.induct) (auto simp: list_ex_iff)

lemma check_dependencies_error:
  "check_dependencies nodes seen i ds = Inl e \<Longrightarrow>
     \<exists>d\<in>set ds. e = MissingDependency i d \<and> d \<notin> nd_id ` set nodes"
  by (induction nodes seen i ds rule: check_dependencies.induct)
     (auto simp: list_ex_iff split: if_splits)

definition nodes_ok :: "NodeDefinition list \<Rightarrow> bool" where
  "nodes_ok nodes \<longleftrightarrow> distinct (map nd_id nodes) \<and> list_all nodeDefinitionSchema nodes \<and>
     (\<forall>n\<in>set nodes. set (nd_dependencies n) \<subseteq> nd_id ` set nodes)"

lemma validate_nodes_ok:
  "set ns \<subseteq> set nodes \<Longrightarrow> set seen \<subseteq> nd_id ` set nodes \<Longrightarrow>
     validate_nodes nodes seen ns = Inr u \<longleftrightarrow>
     distinct (map nd_id ns) \<and> set seen \<inter> nd_id ` set ns = {} \<and> list_all nodeDefinitionSchema ns \<and>
     (\<forall>n\<in>set ns. set (nd_dependencies n) \<subseteq> nd_id ` set nodes)"
proof (induction nodes seen ns rule: validate_nodes.induct)
  case (2 nodes seen n ns)
  have "check_dependencies nodes (nd_id n # seen) (nd_id n) (nd_dependencies n) = Inr () \<longleftrightarrow>
      set (nd_dependencies n) \<subseteq> nd_id ` set nodes"
    using "2.prems" by (auto simp: check_dependencies_ok)
  with 2 show ?case
    by (cases "check_dependencies nodes (nd_id n # seen) (nd_id n) (nd_dependencies n)") auto
qed simp

definition node_error :: "NodeDefinition list \<Rightarrow> GraphError \<Rightarrow> bool" where
  "node_error nodes e \<longleftrightarrow>
     (case e of
        SchemaError i \<Rightarrow> \<exists>n\<in>set nodes. nd_id n = i \<and> \<not> nodeDefinitionSchema n
      | DuplicateNodeId i \<Rightarrow> 2 \<le> count_list (map nd_id nodes) i
      | MissingDependency i d \<Rightarrow>
          (\<exists>n\<in>set nodes. nd_id n = i \<and> d \<in> set (nd_dependencies n)) \<and> d \<notin> nd_id ` set nodes
      | _ \<Rightarrow> False)"

lemma count_list_head: "nd_id n \<in> nd_id ` set pre \<Longrightarrow> 0 < count_list (map nd_id pre) (nd_id n)"
  by (metis count_list_0_iff gr0I list.set_map)

lemma validate_nodes_error:
  "nodes = pre @ ns \<Longrightarrow> set seen = nd_id ` set pre \<Longrightarrow>
     validate_nodes nodes seen ns = Inl e \<Longrightarrow> node_error nodes e"
proof (induction nodes seen ns arbitrary: pre rule: validate_nodes.induct)
  case (2 nodes seen n ns)
  show ?case
  proof (cases "check_dependencies nodes (nd_id n # seen) (nd_id n) (nd_dependencies n)")
    case (Inl e')
    then show ?thesis
      using "2.prems" check_dependencies_error [OF Inl] count_list_head [of n pre]
      by (auto simp: node_error_def split: if_splits)
  next
    case (Inr u)
    then show ?thesis
      using "2.prems" "2.IH" [of u "pre @ [n]"] count_list_head [of n pre]
      by (auto simp: node_error_def split: if_splits)
  qed
qed simp

lemma validate_nodes_cases:
  "(validate_nodes nodes [] nodes = Inr () \<and> nodes_ok nodes) \<or>
     (\<exists>e. validate_nodes nodes [] nodes = Inl e \<and> \<not> nodes_ok nodes \<and> node_error nodes e)"
proof (cases "validate_nodes nodes [] nodes")
  case (Inl e)
  then have "\<not> nodes_ok nodes"
    using validate_nodes_ok [of nodes nodes "[]" "()"] by (auto simp: nodes_ok_def)
  with Inl validate_nodes_error [of nodes "[]" nodes "[]" e] show ?thesis by simp
next
  case (Inr u)
  then show ?thesis
    using validate_nodes_ok [of nodes nodes "[]" "()"] by (auto simp: nodes_ok_def)
qed

lemma find_node_mem:
  "nodes_ok nodes \<Longrightarrow> n \<in> set nodes \<Longrightarrow> find_node nodes (nd_id n) = Some n"
  by (simp add: nodes_ok_def find_node_def find_distinct)

lemma deps_of_mem: "nodes_ok nodes \<Longrightarrow> n \<in> set nodes \<Longrightarrow> deps_of nodes (nd_id n) = nd_dependencies n"
  by (simp add: deps_of_def find_node_mem)

lemma deps_of_known:
  assumes "nodes_ok nodes"
  shows "set (deps_of nodes i) \<subseteq> nd_id ` set nodes"
proof (cases "i \<in> nd_id ` set nodes")
  case True
  then obtain n where "n \<in> set nodes" and "i = nd_id n" by auto
  with assms show ?thesis by (simp add: deps_of_mem) (simp add: nodes_ok_def)
qed (simp add: deps_of_unknown)

lemma wf_dep_rel:
  assumes "nodes_ok nodes" and "acyclic (dep_rel nodes)"
  shows "wf ((dep_rel nodes)\<inverse>)"
proof (rule finite_acyclic_wf_converse)
  have "dep_rel nodes \<subseteq> nd_id ` set nodes \<times> nd_id ` set nodes"
    using deps_of_known [OF assms(1)] deps_of_unknown by (force simp: dep_rel_def)
  then show "finite (dep_rel nodes)" by (rule finite_subset) simp
qed (rule assms(2))

lemma acyclic_has_root:
  assumes ok: "nodes_ok nodes" and "acyclic (dep_rel nodes)" and "nodes \<noteq> []"
  shows "filter (\<lambda>n. nd_dependencies n = []) nodes \<noteq> []"
proof -
  obtain z where z: "z \<in> nd_id ` set nodes"
    and min: "\<And>y. (y, z) \<in> (dep_rel nodes)\<inverse> \<Longrightarrow> y \<notin> nd_id ` set nodes"
    using wfE_min' [OF wf_dep_rel [OF assms(1,2)], of "nd_id ` set nodes"] assms(3) by auto
  have "y \<notin> set (deps_of nodes z)" for y
    using min [of y] deps_of_known [OF ok, of z] by (auto simp: dep_rel_def)
  then have "deps_of nodes z = []" by (metis list.set_intros(1) neq_Nil_conv)
  with z ok show ?thesis by (auto simp: deps_of_mem filter_empty_conv)
qed

lemma validateGraph_accepts:
  assumes v: "validateGraph d = Inr d'"
  shows "gd_nodes d \<noteq> [] \<and> nodes_ok (gd_nodes d) \<and> acyclic (dep_rel (gd_nodes d)) \<and>
    gd_entryNodes d' \<noteq> [] \<and>
    d' = d\<lparr>gd_entryNodes := if gd_entryNodes d = []
      then map nd_id (filter (\<lambda>n. nd_dependencies n = []) (gd_nodes d)) else gd_entryNodes d\<rparr>"
proof -
  have ne: "gd_nodes d \<noteq> []" and vn: "validate_nodes (gd_nodes d) [] (gd_nodes d) = Inr ()"
    and cyc: "detectCycles (gd_nodes d) = Inr ()"
    using v by (auto simp: validateGraph_def split: if_splits sum.splits)
  moreover have "acyclic (dep_rel (gd_nodes d))" using cyc by (rule detectCycles_acyclic)
  moreover have "nodes_ok (gd_nodes d)" using validate_nodes_cases [of "gd_nodes d"] vn by auto
  ultimately show ?thesis
    using v by (auto simp: validateGraph_def Let_def acyclic_has_root split: if_splits)
qed

lemma validateGraph_rejects:
  assumes v: "validateGraph d = Inl e"
  shows "e = EmptyGraph \<and> gd_nodes d = [] \<or> closes_cycle (dep_rel (gd_nodes d)) e \<or>
    node_error (gd_nodes d) e"
proof (cases "gd_nodes d = []")
  case False
  show ?thesis
    using validate_nodes_cases [of "gd_nodes d"]
  proof (elim disjE conjE exE)
    assume vn: "validate_nodes (gd_nodes d) [] (gd_nodes d) = Inr ()" and "nodes_ok (gd_nodes d)"
    then show ?thesis
      using v False detectCycles_error acyclic_has_root [of "gd_nodes d"]
        detectCycles_acyclic [of "gd_nodes d"]
      by (cases "detectCycles (gd_nodes d)") (auto simp: validateGraph_def Let_def split: if_splits)
  qed (use v False in \<open>simp add: validateGraph_def\<close>)
qed (use v in \<open>simp add: validateGraph_def\<close>)

text \<open>
  \<^verbatim>\<open>validateGraph\<close> accepts exactly the non-empty graphs with distinct identifiers,
  schema-conforming nodes, existing dependencies and no dependency cycle; it returns the
  definition unchanged except that missing entry nodes are filled in with the nodes that
  have no dependencies.  An error always names a real defect.  In particular the branch
  that reports a graph without entry nodes is never taken: an acyclic graph has one.
\<close>

theorem validateGraph_correct:
  "case validateGraph d of
     Inr d' \<Rightarrow> gd_nodes d \<noteq> [] \<and> nodes_ok (gd_nodes d) \<and> acyclic (dep_rel (gd_nodes d)) \<and>
       gd_entryNodes d' \<noteq> [] \<and>
       d' = d\<lparr>gd_entryNodes := if gd_entryNodes d = []
         then map nd_id (filter (\<lambda>n. nd_dependencies n = []) (gd_nodes d)) else gd_entryNodes d\<rparr>
   | Inl EmptyGraph \<Rightarrow> gd_nodes d = []
   | Inl (CycleDetected p c) \<Rightarrow> closes_cycle (dep_rel (gd_nodes d)) (CycleDetected p c)
   | Inl e \<Rightarrow> node_error (gd_nodes d) e"
  using validateGraph_accepts [of d] validateGraph_rejects [of d]
  by (auto simp: node_error_def closes_cycle_def split: sum.splits GraphError.splits)

section \<open>The initial state\<close>

lemma set_add_set [simp]: "set (set_add x xs) = insert x (set xs)"
  by (auto simp: set_add_def)

lemma set_add_distinct [simp]: "distinct xs \<Longrightarrow> distinct (set_add x xs)"
  by (simp add: set_add_def)

lemma jget_or_Nil [simp]: "jget_or d [] x = d"
  by (simp add: jget_or_def)

lemma add_dependents_spec:
  "set (jget_or [] (add_dependents i ds m) d) = set (jget_or [] m d) \<union> (if d \<in> set ds then {i} else {})"
  by (induction i ds m rule: add_dependents.induct) (auto simp: jget_or_jset)

lemma add_dependents_distinct:
  "\<forall>d. distinct (jget_or [] m d) \<Longrightarrow> distinct (jget_or [] (add_dependents i ds m) d)"
  by (induction i ds m rule: add_dependents.induct) (simp_all add: jget_or_jset)

lemma buildDependencyMap_spec:
  "set (jget_or [] (buildDependencyMap ns m) d) =
     set (jget_or [] m d) \<union> {nd_id n | n. n \<in> set ns \<and> d \<in> set (nd_dependencies n)}"
  by (induction ns m rule: buildDependencyMap.induct) (auto simp: add_dependents_spec split: if_splits)

lemma buildDependencyMap_distinct:
  "\<forall>d. distinct (jget_or [] m d) \<Longrightarrow> distinct (jget_or [] (buildDependencyMap ns m) d)"
  by (induction ns m rule: buildDependencyMap.induct) (simp_all add: add_dependents_distinct)

lemma dependents_initial:
  assumes "nodes_ok nodes"
  shows "i \<in> set (jget_or [] (buildDependencyMap nodes []) d) \<longleftrightarrow> d \<in> set (deps_of nodes i)"
proof (cases "i \<in> nd_id ` set nodes")
  case True
  then show ?thesis
    unfolding buildDependencyMap_spec using deps_of_mem [OF assms] by auto
next
  case False
  then show ?thesis by (auto simp: buildDependencyMap_spec deps_of_unknown)
qed

lemma map_of_initializeExecutions:
  "map_of (initializeExecutions ns m) i =
     (if i \<in> nd_id ` set ns then Some (initial_execution i) else map_of m i)"
  by (induction ns m rule: initializeExecutions.induct) (auto simp: jmap_simps)

lemma jkeys_initializeExecutions:
  "distinct (map nd_id ns) \<Longrightarrow> set (jkeys m) \<inter> nd_id ` set ns = {} \<Longrightarrow>
     jkeys (initializeExecutions ns m) = jkeys m @ map nd_id ns"
  by (induction ns m rule: initializeExecutions.induct) (auto simp: jkeys_jset)

definition roots :: "NodeDefinition list \<Rightarrow> string set" where
  "roots nodes = {i. i \<in> nd_id ` set nodes \<and> deps_of nodes i = []}"

lemma new_ExecutionGraph_inv:
  assumes new: "new_ExecutionGraph d limit execId = Inr st"
  shows "graph_inv (roots (gs_nodes st)) {} st \<and> gs_frames st = {#} \<and>
    gs_concurrencyLimit st = limit \<and> validateGraph d = Inr (gs_definition st) \<and>
    jkeys (gs_executions st) = map nd_id (gs_nodes st)"
proof -
  obtain d' where v: "validateGraph d = Inr d'" and d': "gs_definition st = d'"
    and E: "gs_executions st = initializeExecutions (gd_nodes d') []"
    and M: "gs_dependencyMap st = buildDependencyMap (gd_nodes d') []"
    and F: "gs_frames st = {#}" "gs_activeExecutions st = 0" "gs_concurrencyLimit st = limit"
    using new by (auto simp: new_ExecutionGraph_def split: sum.splits)
  have ok: "nodes_ok (gd_nodes d')"
    using validateGraph_accepts [OF v] by simp
  have S: "stat st i = (if i \<in> nd_id ` set (gd_nodes d') then Some PENDING else None)" for i
    by (simp add: E stat_of_def map_of_initializeExecutions initial_execution_def)
  have "dependents_ok st"
    using dependents_initial [OF ok] buildDependencyMap_distinct [of "[]"]
    by (simp add: dependents_ok_def dependents_def M d' jget_or_def)
  moreover have "slot_inv st" by (simp add: slot_inv_def F)
  moreover have "sched_inv (gs_nodes st) (stat st) (gs_frames st)"
    by (simp add: sched_inv_def F live_count_def S)
  moreover have "enabled_ok (gs_nodes st) (stat st) (gs_frames st) (roots (gs_nodes st))"
    by (auto simp: enabled_ok_def roots_def ready_def sat_def S d' split: if_splits)
  moreover have "block_ok (gs_nodes st) (stat st) {}"
    by (auto simp: block_ok_def bad_def S split: if_splits)
  moreover have "attempts_ok (gs_nodes st) (gs_executions st)"
    by (auto simp: attempts_ok_def E map_of_initializeExecutions initial_execution_def max_attempts_def
        split: if_splits option.splits)
  ultimately show ?thesis
    using v d' F E ok by (simp add: graph_inv_def jkeys_initializeExecutions nodes_ok_def)
qed

end
