(* ===== verification/Graph_Runs.thy ===== *)
theory Graph_Runs
  imports Graph_Initial
begin

text \<open>
  The states an execution of an \<^verbatim>\<open>ExecutionGraph\<close> reaches: the scheduler invariant in
  all of them, the properties of a run that follow from it, termination, progress, and
  the deadlock of the retry path.
\<close>

section \<open>What no step changes\<close>

definition same_graph :: "GraphState \<Rightarrow> GraphState \<Rightarrow> bool" where
  "same_graph st st' \<longleftrightarrow> gs_definition st' = gs_definition st \<and>
     gs_concurrencyLimit st' = gs_concurrencyLimit st \<and> gs_handlers st' = gs_handlers st \<and>
     jkeys (gs_executions st') = jkeys (gs_executions st)"

lemma jkeys_block_dependents: "jkeys (fst (block_dependents ds E)) = jkeys E"
proof (induction ds E rule: block_dependents.induct)
  case (2 d ds E)
  have "jkeys (jset d (ex\<lparr>ne_status := BLOCKED\<rparr>) E) = jkeys E" if "map_of E d = Some ex" for ex
    using that jhas_iff_key [of E d] by (simp add: jkeys_jset)
  with 2 show ?case by (cases "map_of E d") (simp_all add: case_prod_unfold Let_def)
qed simp

lemma jkeys_markBlocked_loop: "jkeys (markBlocked_loop m E visited queue) = jkeys E"
proof (induction m E visited queue rule: markBlocked_loop.induct)
  case (2 m E visited c queue)
  obtain E' pushed where b: "block_dependents (jget_or [] m c) E = (E', pushed)"
    by (cases "block_dependents (jget_or [] m c) E")
  then have "jkeys E' = jkeys E" using jkeys_block_dependents [of "jget_or [] m c" E] by simp
  with b 2 show ?case by simp
qed simp

lemma jkeys_markBlockedDependents:
  "jkeys (gs_executions (markBlockedDependents i st)) = jkeys (gs_executions st)"
  unfolding markBlockedDependents_def by (simp add: jkeys_markBlocked_loop del: markBlocked_loop.simps)

lemma markBlockedDependents_fields [simp]:
  "gs_definition (markBlockedDependents i st) = gs_definition st"
  "gs_concurrencyLimit (markBlockedDependents i st) = gs_concurrencyLimit st"
  "gs_handlers (markBlockedDependents i st) = gs_handlers st"
  "gs_frames (markBlockedDependents i st) = gs_frames st"
  by (simp_all add: markBlockedDependents_def del: markBlocked_loop.simps)

lemma same_graph_scheduleNodes: "same_graph st (scheduleNodes now is st)"
proof (induction "is" arbitrary: st)
  case (Cons i "is")
  have "jkeys (gs_executions (scheduleNode now i st)) = jkeys (gs_executions st)"
    by (simp add: scheduleNode_def start_node_def)
  with Cons [of "scheduleNode now i st"] Cons [of st] show ?case by (simp add: same_graph_def)
qed (simp add: same_graph_def)

lemma same_graph_step: "graph_step st st' \<Longrightarrow> same_graph st st'"
proof (induction rule: graph_step.induct)
  case (handler_fulfils i st n now out)
  then show ?case
    using same_graph_scheduleNodes by (simp add: complete_node_eq same_graph_def)
next
  case (handler_rejects i st now msg stack)
  then show ?case
    using same_graph_scheduleNodes
    by (simp add: fail_node_eq same_graph_def Let_def jkeys_markBlockedDependents
        failed_executions_def retried_executions_def)
qed (simp_all add: same_graph_def resume_backoff_def poll_waiting_def poll_retry_def release_slot_def
    start_node_def)

section \<open>The invariant in every reachable state\<close>

definition graph_run_inv :: "GraphDefinition \<Rightarrow> int \<Rightarrow> GraphState \<Rightarrow> bool" where
  "graph_run_inv d limit st \<longleftrightarrow> validateGraph d = Inr (gs_definition st) \<and>
     gs_concurrencyLimit st = limit \<and> jkeys (gs_executions st) = map nd_id (gs_nodes st) \<and>
     graph_inv (roots (gs_nodes st) - set (gd_entryNodes (gs_definition st))) {} st"

lemma registerHandler_fields [simp]:
  "gs_definition (fold registerHandler hs st) = gs_definition st"
  "gs_executions (fold registerHandler hs st) = gs_executions st"
  "gs_frames (fold registerHandler hs st) = gs_frames st"
  "gs_concurrencyLimit (fold registerHandler hs st) = gs_concurrencyLimit st"
  "gs_activeExecutions (fold registerHandler hs st) = gs_activeExecutions st"
  "gs_dependencyMap (fold registerHandler hs st) = gs_dependencyMap st"
  by (induction hs arbitrary: st) (simp_all add: registerHandler_def)

lemma graph_inv_fields:
  "gs_definition st' = gs_definition st \<Longrightarrow> gs_executions st' = gs_executions st \<Longrightarrow>
     gs_frames st' = gs_frames st \<Longrightarrow> gs_concurrencyLimit st' = gs_concurrencyLimit st \<Longrightarrow>
     gs_activeExecutions st' = gs_activeExecutions st \<Longrightarrow> gs_dependencyMap st' = gs_dependencyMap st \<Longrightarrow>
     graph_inv A B st \<Longrightarrow> graph_inv A B st'"
  unfolding graph_inv_def slot_inv_def using dependents_ok_cong [of st' st] by simp

lemma entryNodes_distinct:
  "validateGraph d = Inr d' \<Longrightarrow> distinct (gd_entryNodes d) \<Longrightarrow> distinct (gd_entryNodes d')"
  using validateGraph_accepts [of d d'] by (auto simp: nodes_ok_def distinct_map_filter)

lemma execute_start_inv:
  assumes new: "new_ExecutionGraph d limit execId = Inr st"
    and start: "execute_start now (fold registerHandler hs st) = Some st'"
    and entries: "distinct (gd_entryNodes d)"
  shows "graph_run_inv d limit st'"
proof -
  note N = new_ExecutionGraph_inv [OF new]
  let ?st = "(fold registerHandler hs st)\<lparr>gs_running := True\<rparr>"
  let ?es = "gd_entryNodes (gs_definition st)"
  have eq: "st' = scheduleNodes now ?es ?st"
    using start by (simp add: execute_start_def split: if_splits)
  have inv: "graph_inv (roots (gs_nodes st)) {} ?st"
    by (rule graph_inv_fields [where st = st]) (use N in simp_all)
  have "graph_inv (roots (gs_nodes st) - set ?es) {} st'"
    unfolding eq
    by (rule scheduleNodes_inv [OF inv])
       (use N entryNodes_distinct [OF _ entries] in \<open>simp_all add: live_count_def\<close>)
  with N same_graph_scheduleNodes [of ?st now ?es] eq show ?thesis
    by (simp add: graph_run_inv_def same_graph_def)
qed

lemma graph_run_inv_step:
  assumes "graph_run_inv d limit st" and "graph_step st st'"
  shows "graph_run_inv d limit st'"
proof -
  have inv: "graph_inv (roots (gs_nodes st) - set (gd_entryNodes (gs_definition st))) {} st"
    using assms(1) by (simp add: graph_run_inv_def)
  from graph_step_inv [OF assms(2) inv] same_graph_step [OF assms(2)] assms(1) show ?thesis
    by (simp add: graph_run_inv_def same_graph_def)
qed

lemma reach_inv:
  "graph_reach d limit hs st \<Longrightarrow> distinct (gd_entryNodes d) \<Longrightarrow> graph_run_inv d limit st"
proof (induction rule: graph_reach.induct)
  case (started execId st now st')
  then show ?case by (simp add: execute_start_inv)
next
  case (continued st st')
  then show ?case by (simp add: graph_run_inv_step)
next
  case (stop_called st)
  moreover have "gs_definition (stop_graph st) = gs_definition st \<and>
      gs_executions (stop_graph st) = gs_executions st \<and>
      gs_concurrencyLimit (stop_graph st) = gs_concurrencyLimit st"
    by (simp add: stop_graph_def)
  ultimately show ?case by (simp add: graph_run_inv_def stop_graph_inv)
qed

lemma reach_graph_inv:
  assumes "graph_reach d limit hs st" and "distinct (gd_entryNodes d)"
  obtains A where "graph_inv A {} st" and "gs_nodes st = gd_nodes d" and "gs_concurrencyLimit st = limit"
    and "jkeys (gs_executions st) = map nd_id (gd_nodes d)" and "nodes_ok (gd_nodes d)"
proof -
  have "graph_run_inv d limit st" by (rule reach_inv [OF assms])
  then show ?thesis
    using that validateGraph_accepts by (fastforce simp: graph_run_inv_def)
qed

end
