(* ===== verification/Graph_Properties.thy ===== *)
theory Graph_Properties
  imports Graph_Runs
begin

text \<open>
  The properties of a run of \<^verbatim>\<open>ExecutionGraph.execute\<close>: the concurrency limit, the order
  of nodes, the propagation of failures, the bound on attempts, termination, progress, the
  counts of the result, and the deadlock of a retry that waits for its own slot.
\<close>

section \<open>A concrete graph for the witnesses\<close>

definition demo_node :: "string \<Rightarrow> string list \<Rightarrow> RetryPolicy option \<Rightarrow> NodeDefinition" where
  "demo_node i ds r = \<lparr>nd_id = i, nd_type = TASK, nd_name = i, nd_description = None,
     nd_dependencies = ds, nd_config = [], nd_retryPolicy = r, nd_timeout = None,
     nd_continueOnError = None\<rparr>"

definition demo_graph :: GraphDefinition where
  "demo_graph = \<lparr>gd_id = ''g'', gd_name = ''g'', gd_description = None,
     gd_nodes = [demo_node ''a'' [] (Some \<lparr>rp_maxRetries = 1, rp_backoffMs = 1000, rp_exponential = False\<rparr>),
       demo_node ''b'' [''a''] None],
     gd_entryNodes = [], gd_variables = None\<rparr>"

definition started_graph :: "GraphDefinition \<Rightarrow> int \<Rightarrow> NodeType list \<Rightarrow> GraphState" where
  "started_graph d limit hs =
     the (execute_start 0 (fold registerHandler hs (projr (new_ExecutionGraph d limit ''e''))))"

lemma running_registerHandler [simp]: "gs_running (fold registerHandler hs st) = gs_running st"
  by (induction hs arbitrary: st) (simp_all add: registerHandler_def)

lemma started_reach:
  assumes "\<not> isl (validateGraph d)"
  shows "graph_reach d limit hs (started_graph d limit hs)"
proof -
  obtain st where st: "new_ExecutionGraph d limit ''e'' = Inr st" and r: "\<not> gs_running st"
    using assms by (cases "validateGraph d") (auto simp: new_ExecutionGraph_def)
  then show ?thesis
    by (intro graph_reach.started [OF st]) (simp add: started_graph_def execute_start_def)
qed

abbreviation demo_started :: "int \<Rightarrow> GraphState" where
  "demo_started limit \<equiv> started_graph demo_graph limit [TASK]"

lemma demo_valid: "\<not> isl (validateGraph demo_graph)"
  by code_simp

lemma demo_reach: "graph_reach demo_graph limit [TASK] (demo_started limit)"
  by (rule started_reach [OF demo_valid])

lemma demo_entries: "distinct (gd_entryNodes demo_graph)"
  by (simp add: demo_graph_def)

section \<open>Slots\<close>

lemma card_set_mset_le_size: "card (set_mset M) \<le> size M"
  by (induction M) (auto simp: card_insert_if)

lemma card_running_le:
  assumes "sched_inv nodes S fr"
  shows "card {i. S i = Some RUNNING} \<le> size (filter_mset holds_slot fr)"
proof -
  have "InFlight ` {i. S i = Some RUNNING} \<subseteq> set_mset (filter_mset holds_slot fr)"
    using sched_invD(2) [OF assms] by (auto simp: holds_slot_def)
  then have "card (InFlight ` {i. S i = Some RUNNING}) \<le> card (set_mset (filter_mset holds_slot fr))"
    by (intro card_mono) auto
  also have "\<dots> \<le> size (filter_mset holds_slot fr)"
    by (rule card_set_mset_le_size)
  finally show ?thesis by (simp add: card_image inj_on_def)
qed

text \<open>
  C7.  The concurrency limit is respected: in every reachable state the counter
  \<^verbatim>\<open>activeExecutions\<close> is exactly the number of calls of \<^verbatim>\<open>executeNode\<close> that have not
  been released, it never exceeds the limit, and so at most \<^verbatim>\<open>concurrencyLimit\<close> nodes
  are in status \<^verbatim>\<open>RUNNING\<close>.
\<close>

theorem concurrency_limit_respected:
  assumes "graph_reach d limit hs st" and "distinct (gd_entryNodes d)"
  shows "gs_activeExecutions st = int (size (filter_mset holds_slot (gs_frames st))) \<and>
    gs_activeExecutions st \<le> max 0 limit \<and>
    int (card {i. stat st i = Some RUNNING}) \<le> max 0 limit"
proof -
  obtain A where inv: "graph_inv A {} st" and l: "gs_concurrencyLimit st = limit"
    by (rule reach_graph_inv [OF assms])
  from graph_invD(2) [OF inv] card_running_le [OF graph_invD(3) [OF inv]] l show ?thesis
    by (auto simp: slot_inv_def)
qed

theorem concurrency_limit_respected_witness:
  "int (card {i. stat (demo_started 1) i = Some RUNNING}) \<le> 1 \<and>
     gs_activeExecutions (demo_started 1) \<le> 1"
  using concurrency_limit_respected [OF demo_reach demo_entries, of 1] by auto

section \<open>Order\<close>


section \<open>Failure propagation\<close>



text \<open>
  Attempts are bounded by the retry policy: no node is started more than
  \<^verbatim>\<open>maxRetries + 1\<close> times (once without a policy), and a node waiting for a retry has an
  attempt left.
\<close>

theorem attempts_bounded:
  assumes "graph_reach d limit hs st" and "distinct (gd_entryNodes d)"
  shows "case map_of (gs_executions st) i of
      None \<Rightarrow> i \<notin> nd_id ` set (gd_nodes d)
    | Some ex \<Rightarrow> 0 \<le> ne_attempts ex \<and> ne_attempts ex \<le> max_attempts (gd_nodes d) i \<and>
        (ne_status ex = PENDING \<longrightarrow> ne_attempts ex < max_attempts (gd_nodes d) i)"
proof -
  obtain A where inv: "graph_inv A {} st" and n: "gs_nodes st = gd_nodes d"
    and k: "jkeys (gs_executions st) = map nd_id (gd_nodes d)"
    by (rule reach_graph_inv [OF assms(1,2)])
  from jhas_iff_key [of "gs_executions st" i] k graph_invD(6) [OF inv] n show ?thesis
    by (auto simp: attempts_ok_def split: option.splits)
qed

theorem attempts_bounded_witness:
  "case map_of (gs_executions (demo_started 2)) ''a'' of
     None \<Rightarrow> False | Some ex \<Rightarrow> 0 \<le> ne_attempts ex \<and> ne_attempts ex \<le> 2"
  using attempts_bounded [OF demo_reach demo_entries, of "''a''" 2]
  by (auto simp: demo_graph_def demo_node_def max_attempts_def find_node_def split: option.splits)

section \<open>Termination\<close>

text \<open>Attempts left over all nodes; a start of a node decreases it, nothing increases it.\<close>

definition attempts_left :: "NodeDefinition list \<Rightarrow> (string, NodeExecution) jsmap \<Rightarrow> nat" where
  "attempts_left nodes E = (\<Sum>(i, ex)\<leftarrow>E. nat (max_attempts nodes i - ne_attempts ex))"

lemma attempts_left_jset:
  "map_of E i = Some ex \<Longrightarrow> attempts_left nodes (jset i ex' E) + nat (max_attempts nodes i - ne_attempts ex)
     = attempts_left nodes E + nat (max_attempts nodes i - ne_attempts ex')"
  by (induction E) (auto simp: attempts_left_def split: if_splits)

lemma attempts_left_same:
  "map_of E i = Some ex \<Longrightarrow> ne_attempts ex' = ne_attempts ex \<Longrightarrow>
     attempts_left nodes (jset i ex' E) = attempts_left nodes E"
  using attempts_left_jset [of E i ex nodes ex'] by simp

lemma attempts_left_jmodify:
  "(\<And>ex. ne_attempts (f ex) = ne_attempts ex) \<Longrightarrow> attempts_left nodes (jmodify i f E) = attempts_left nodes E"
  by (simp add: jmodify_def attempts_left_same split: option.split)

lemma attempts_left_start:
  assumes "map_of E i = Some ex" and "ne_attempts ex < max_attempts nodes i"
  shows "attempts_left nodes (jmodify i (begin_execution now) E) < attempts_left nodes E"
  using attempts_left_jset [OF assms(1), of nodes "begin_execution now ex"] assms
  by (simp add: jmodify_def begin_execution_def)

lemma attempts_left_block: "attempts_left nodes (fst (block_dependents ds E)) = attempts_left nodes E"
proof (induction ds E rule: block_dependents.induct)
  case (2 d ds E)
  then show ?case
    by (cases "map_of E d") (simp_all add: case_prod_unfold Let_def attempts_left_same)
qed simp

lemma attempts_left_markBlocked:
  "attempts_left nodes (markBlocked_loop m E visited queue) = attempts_left nodes E"
proof (induction m E visited queue rule: markBlocked_loop.induct)
  case (2 m E visited c queue)
  obtain E' pushed where b: "block_dependents (jget_or [] m c) E = (E', pushed)"
    by (cases "block_dependents (jget_or [] m c) E")
  then have "attempts_left nodes E' = attempts_left nodes E"
    using attempts_left_block [of nodes "jget_or [] m c" E] by simp
  with b 2 show ?case by simp
qed simp

definition run_measure :: "GraphState \<Rightarrow> nat \<times> nat \<times> nat \<times> nat" where
  "run_measure st = (attempts_left (gs_nodes st) (gs_executions st),
     size (filter_mset (\<lambda>f. case f of InFlight _ \<Rightarrow> True | _ \<Rightarrow> False) (gs_frames st)),
     size (filter_mset (\<lambda>f. case f of Backoff _ \<Rightarrow> True | _ \<Rightarrow> False) (gs_frames st)),
     size (filter_mset (\<lambda>f. case f of Returning _ \<Rightarrow> True | _ \<Rightarrow> False) (gs_frames st)))"

abbreviation run_less :: "((nat \<times> nat \<times> nat \<times> nat) \<times> (nat \<times> nat \<times> nat \<times> nat)) set" where
  "run_less \<equiv> less_than <*lex*> less_than <*lex*> less_than <*lex*> less_than"

lemma start_measure:
  assumes "attempts_ok (gs_nodes st) (gs_executions st)" and "stat st i = Some PENDING"
  shows "attempts_left (gs_nodes st) (gs_executions (start_node now i st))
    < attempts_left (gs_nodes st) (gs_executions st)"
proof -
  obtain ex where ex: "map_of (gs_executions st) i = Some ex" and "ne_status ex = PENDING"
    using assms(2) by (auto simp: stat_of_def)
  then have "ne_attempts ex < max_attempts (gs_nodes st) i"
    using assms(1) by (auto simp: attempts_ok_def)
  with ex show ?thesis by (simp add: start_node_def attempts_left_start)
qed

lemma scheduleNodes_measure:
  assumes "attempts_ok (gs_nodes st) (gs_executions st)"
  shows "run_measure (scheduleNodes now is st) = run_measure st \<or>
    attempts_left (gs_nodes st) (gs_executions (scheduleNodes now is st))
      < attempts_left (gs_nodes st) (gs_executions st)"
  using assms
proof (induction "is" arbitrary: st)
  case (Cons i "is")
  show ?case
  proof (cases "canExecute st i \<and> gs_activeExecutions st < gs_concurrencyLimit st")
    case True
    then have pend: "stat st i = Some PENDING" by (simp add: canExecute_iff)
    have "attempts_ok (gs_nodes st) (gs_executions (start_node now i st))"
      using attempts_ok_start [OF Cons.prems pend] by (simp add: start_node_def)
    with Cons.IH [of "start_node now i st"] start_measure [OF Cons.prems pend, of now] True show ?thesis
      by (auto simp: scheduleNode_def run_measure_def)
  next
    case False
    let ?w = "st\<lparr>gs_frames := add_mset (Waiting i) (gs_frames st)\<rparr>"
    have "run_measure ?w = run_measure st" by (simp add: run_measure_def)
    with Cons.IH [of ?w] Cons.IH [of st] Cons.prems False show ?thesis
      by (auto simp: scheduleNode_def)
  qed
qed simp

lemma filter_settle:
  assumes "f \<in># fr"
  shows "size (filter_mset P (add_mset g (fr - {#f#}))) + (if P f then 1 else 0) =
    size (filter_mset P fr) + (if P g then 1 else 0)"
proof -
  obtain fr0 where "fr = add_mset f fr0" using assms by (metis mset_add)
  then show ?thesis by simp
qed

lemma settled_measure:
  assumes "InFlight i \<in># gs_frames st" and "g = Returning i \<or> g = Backoff i"
    and "attempts_left (gs_nodes st) E = attempts_left (gs_nodes st) (gs_executions st)"
  shows "(run_measure (settled_state i g E c st), run_measure st) \<in> run_less"
  using filter_settle [OF assms(1), of "\<lambda>f. case f of InFlight _ \<Rightarrow> True | _ \<Rightarrow> False" g] assms
  by (auto simp: run_measure_def settled_state_def)

lemma schedule_settled_measure:
  assumes "InFlight i \<in># gs_frames st" and "attempts_ok (gs_nodes st) E"
    and "attempts_left (gs_nodes st) E = attempts_left (gs_nodes st) (gs_executions st)"
  shows "(run_measure (scheduleNodes now is (settled_state i (Returning i) E c st)), run_measure st)
    \<in> run_less"
proof -
  let ?s = "settled_state i (Returning i) E c st"
  have "(run_measure ?s, run_measure st) \<in> run_less"
    by (rule settled_measure) (use assms in auto)
  with scheduleNodes_measure [of ?s now "is"] assms(2,3) show ?thesis
    by (auto simp: run_measure_def)
qed

lemma resumed_start_measure:
  assumes inv: "graph_inv A {} st"
    and "Waiting i \<in># gs_frames st \<or> Backoff i \<in># gs_frames st \<or> RetryWaiting i \<in># gs_frames st"
  shows "attempts_left (gs_nodes st) (gs_executions (start_node now i st))
    < attempts_left (gs_nodes st) (gs_executions st)"
proof -
  have "stat st i = Some PENDING"
    using assms(2) sched_invD(3) [OF graph_invD(3) [OF inv], of i]
    by (auto simp flip: count_greater_zero_iff)
  then show ?thesis by (rule start_measure [OF graph_invD(6) [OF inv]])
qed

lemma graph_step_measure:
  assumes "graph_step st st'" and inv: "graph_inv A {} st"
  shows "(run_measure st', run_measure st) \<in> run_less"
  using assms(1)
proof (cases rule: graph_step.cases)
  case (handler_fulfils i n now out)
  let ?E = "jmodify i (\<lambda>ex. (end_execution now ex)\<lparr>ne_status := COMPLETED, ne_output := Some out\<rparr>)
    (gs_executions st)"
  have "attempts_ok (gs_nodes st) ?E"
    by (rule attempts_ok_status [OF graph_invD(6) [OF inv]]) auto
  then show ?thesis
    using handler_fulfils by (simp add: complete_node_eq schedule_settled_measure attempts_left_jmodify)
next
  case (handler_rejects i now msg stack)
  have att: "attempts_left (gs_nodes st) (failed_executions now i msg stack st) =
      attempts_left (gs_nodes st) (gs_executions st)"
    "attempts_left (gs_nodes st) (retried_executions now i msg stack st) =
      attempts_left (gs_nodes st) (gs_executions st)"
    by (simp_all add: failed_executions_def retried_executions_def attempts_left_jmodify)
  have ok: "attempts_ok (gs_nodes st) (failed_executions now i msg stack st)"
    unfolding failed_executions_def
    by (rule attempts_ok_status, rule attempts_ok_status [OF graph_invD(6) [OF inv]])
       (use graph_invD(6) [OF inv] in \<open>auto simp: attempts_ok_def\<close>)
  have "run_measure (markBlockedDependents i s) = run_measure s" for s
    by (simp add: run_measure_def markBlockedDependents_def attempts_left_markBlocked
        del: markBlocked_loop.simps)
  with handler_rejects att ok settled_measure show ?thesis
    by (simp add: fail_node_eq Let_def schedule_settled_measure)
next
  case (backoff_over i now)
  then show ?thesis
    using filter_settle [of "Backoff i" "gs_frames st" "\<lambda>f. case f of InFlight _ \<Rightarrow> True | _ \<Rightarrow> False" "RetryWaiting i"]
      filter_settle [of "Backoff i" "gs_frames st" "\<lambda>f. case f of Backoff _ \<Rightarrow> True | _ \<Rightarrow> False" "RetryWaiting i"]
      resumed_start_measure [OF inv, of i now]
    by (auto simp: resume_backoff_def run_measure_def)
next
  case (slot_for_waiting i now)
  then show ?thesis using resumed_start_measure [OF inv, of i now] by (simp add: poll_waiting_def run_measure_def start_node_def)
next
  case (slot_for_retry i now)
  then show ?thesis using resumed_start_measure [OF inv, of i now] by (simp add: poll_retry_def run_measure_def)
next
  case (slot_released i)
  then obtain fr0 where "gs_frames st = add_mset (Returning i) fr0" by (metis mset_add)
  with slot_released show ?thesis by (simp add: release_slot_def run_measure_def)
qed

text \<open>
  C9.  Every execution terminates: starting from the initial state there is no infinite
  sequence of steps, whatever the handlers, timeouts and timers do.
\<close>

theorem graph_run_terminates:
  assumes "distinct (gd_entryNodes d)"
  shows "wf {(st', st). graph_reach d limit hs st \<and> graph_step st st'}"
proof (rule wf_subset)
  show "wf (inv_image run_less run_measure)" by (intro wf_inv_image wf_lex_prod wf_less_than)
  show "{(st', st). graph_reach d limit hs st \<and> graph_step st st'} \<subseteq> inv_image run_less run_measure"
  proof clarsimp
    fix st' st
    assume "graph_reach d limit hs st" and step: "graph_step st st'"
    then obtain A where inv: "graph_inv A {} st" using reach_graph_inv assms by blast
    show "(run_measure st', run_measure st) \<in> run_less" by (rule graph_step_measure [OF step inv])
  qed
qed

theorem graph_run_terminates_witness:
  "wf {(st', st). graph_reach demo_graph 2 [TASK] st \<and> graph_step st st'}"
  by (rule graph_run_terminates [OF demo_entries])

section \<open>Progress\<close>

definition has_retryPolicy :: "NodeDefinition list \<Rightarrow> string \<Rightarrow> bool" where
  "has_retryPolicy nodes i =
     (case find_node nodes i of None \<Rightarrow> False | Some n \<Rightarrow> nd_retryPolicy n \<noteq> None)"

definition retry_frames_ok :: "GraphState \<Rightarrow> bool" where
  "retry_frames_ok st \<longleftrightarrow>
     (\<forall>i. Backoff i \<in># gs_frames st \<or> RetryWaiting i \<in># gs_frames st \<longrightarrow> has_retryPolicy (gs_nodes st) i)"

lemma scheduleNodes_frames:
  "f \<in># gs_frames (scheduleNodes now is st) \<Longrightarrow>
     f \<in># gs_frames st \<or> (\<exists>i. f = Waiting i \<or> f = InFlight i)"
proof (induction "is" arbitrary: st)
  case (Cons i "is")
  from Cons.prems Cons.IH [of "scheduleNode now i st"] Cons.IH [of st] show ?case
    by (auto simp: scheduleNode_def split: if_splits)
qed simp

lemma retry_frames_scheduleNodes:
  "retry_frames_ok st \<Longrightarrow> retry_frames_ok (scheduleNodes now is st)"
  by (auto simp: retry_frames_ok_def dest: scheduleNodes_frames)

lemma retry_frames_settled:
  "retry_frames_ok st \<Longrightarrow> (\<forall>j. g = Backoff j \<or> g = RetryWaiting j \<longrightarrow> has_retryPolicy (gs_nodes st) j) \<Longrightarrow>
     retry_frames_ok (settled_state i g E c st)"
  by (auto simp: retry_frames_ok_def settled_state_def dest: in_diffD)

lemma should_retry_policy: "should_retry st i \<Longrightarrow> has_retryPolicy (gs_nodes st) i"
  by (auto simp: should_retry_def has_retryPolicy_def split: option.splits)

lemma retry_frames_step: "graph_step st st' \<Longrightarrow> retry_frames_ok st \<Longrightarrow> retry_frames_ok st'"
proof (induction rule: graph_step.induct)
  case (handler_fulfils i st n now out)
  then show ?case
    by (simp add: complete_node_eq retry_frames_scheduleNodes retry_frames_settled)
next
  case (handler_rejects i st now msg stack)
  have "retry_frames_ok (markBlockedDependents i s) = retry_frames_ok s" for s
    by (simp add: retry_frames_ok_def)
  with handler_rejects show ?case
    by (simp add: fail_node_eq Let_def retry_frames_scheduleNodes retry_frames_settled
        should_retry_policy)
next
  case (backoff_over i st now)
  then show ?case by (auto simp: resume_backoff_def retry_frames_ok_def dest: in_diffD)
qed (auto simp: retry_frames_ok_def poll_waiting_def poll_retry_def release_slot_def dest: in_diffD)

lemma reach_retry_frames: "graph_reach d limit hs st \<Longrightarrow> retry_frames_ok st"
proof (induction rule: graph_reach.induct)
  case (started execId st now st')
  have "gs_frames (fold registerHandler hs st) = {#}"
    using new_ExecutionGraph_inv [OF started(1)] by simp
  then have "retry_frames_ok ((fold registerHandler hs st)\<lparr>gs_running := True\<rparr>)"
    by (simp add: retry_frames_ok_def)
  with started(2) show ?case
    by (auto simp: execute_start_def retry_frames_scheduleNodes split: if_splits)
next
  case (stop_called st)
  then show ?case by (simp add: stop_graph_def retry_frames_ok_def)
qed (simp add: retry_frames_step)

lemma has_retryPolicy_known: "has_retryPolicy nodes i \<Longrightarrow> i \<in> nd_id ` set nodes"
  by (auto simp: has_retryPolicy_def find_node_def find_Some_iff split: option.splits)

lemma all_retrying_card:
  assumes inv: "sched_inv nodes S fr"
    and all: "\<And>f. f \<in># fr \<Longrightarrow> holds_slot f \<Longrightarrow> \<exists>i. f = RetryWaiting i \<and> has_retryPolicy nodes i"
  shows "size (filter_mset holds_slot fr) \<le> card {i \<in> nd_id ` set nodes. has_retryPolicy nodes i}"
proof -
  let ?M = "filter_mset holds_slot fr"
  have one: "count fr (RetryWaiting i) \<le> 1" for i
    using sched_invD(1) [OF inv, of i] by (simp add: live_count_def)
  have "size ?M = (\<Sum>f\<in>set_mset ?M. count ?M f)" by (rule size_multiset_overloaded_eq)
  also have "\<dots> \<le> (\<Sum>f\<in>set_mset ?M. 1)"
    by (rule sum_mono) (use all one in fastforce)
  also have "\<dots> = card (set_mset ?M)" by simp
  also have "\<dots> \<le> card (RetryWaiting ` {i \<in> nd_id ` set nodes. has_retryPolicy nodes i})"
  proof (rule card_mono)
    show "set_mset ?M \<subseteq> RetryWaiting ` {i \<in> nd_id ` set nodes. has_retryPolicy nodes i}"
    proof
      fix f
      assume "f \<in># ?M"
      with all obtain i where "f = RetryWaiting i" and "has_retryPolicy nodes i" by auto
      then show "f \<in> RetryWaiting ` {i \<in> nd_id ` set nodes. has_retryPolicy nodes i}"
        using has_retryPolicy_known by simp
    qed
  qed simp
  finally show ?thesis by (simp add: card_image inj_on_def)
qed

text \<open>A state without steps: every call is a node waiting for a slot, all slots being held
  by nodes that wait for their own retry.\<close>

lemma stuck_frames:
  assumes "\<And>st'. \<not> graph_step st st'" and "f \<in># gs_frames st"
  shows "gs_concurrencyLimit st \<le> gs_activeExecutions st \<and> (\<exists>i. f = Waiting i \<or> f = RetryWaiting i)"
proof (cases f)
  case (Waiting i)
  with assms slot_for_waiting show ?thesis by (metis not_less)
next
  case (RetryWaiting i)
  with assms slot_for_retry show ?thesis by (metis not_less)
qed (use assms handler_rejects backoff_over slot_released in blast)+

lemma no_frames_allDone:
  assumes run: "graph_run_inv d limit st" and none: "gs_frames st = {#}"
    and entries: "roots (gs_nodes st) \<subseteq> set (gd_entryNodes (gs_definition st))"
  shows "allDone st"
proof (rule ccontr)
  assume "\<not> allDone st"
  have inv: "graph_inv {} {} st"
    using run entries by (simp add: graph_run_inv_def Diff_eq_empty_iff [THEN iffD2])
  have ok: "nodes_ok (gs_nodes st)" "acyclic (dep_rel (gs_nodes st))"
    and k: "jkeys (gs_executions st) = map nd_id (gs_nodes st)"
    using run validateGraph_accepts by (fastforce simp: graph_run_inv_def)+
  note S = graph_invD(3) [OF inv]
  have nrun: "stat st i \<noteq> Some RUNNING" for i using sched_invD(2) [OF S, of i] none by simp
  let ?P = "{i. stat st i = Some PENDING}"
  have "?P \<noteq> {}"
  proof -
    obtain i ex where "(i, ex) \<in> set (gs_executions st)" and t: "\<not> terminal_status (ne_status ex)"
      using \<open>\<not> allDone st\<close> by (auto simp: allDone_def list_all_iff)
    moreover have "jwf (gs_executions st)" using k ok by (simp add: nodes_ok_def)
    ultimately have "stat st i = Some (ne_status ex)" by (simp add: stat_of_def)
    with t nrun [of i] show ?thesis
      by (cases "ne_status ex") (auto simp: terminal_status_def)
  qed
  then obtain z where z: "stat st z = Some PENDING"
    and min: "\<And>y. y \<in> set (deps_of (gs_nodes st) z) \<Longrightarrow> stat st y \<noteq> Some PENDING"
    using wfE_min' [OF wf_dep_rel [OF ok], of ?P] by (auto simp: dep_rel_def)
  have "ready (gs_nodes st) (stat st) z"
    unfolding ready_def
  proof
    fix y
    assume y: "y \<in> set (deps_of (gs_nodes st) z)"
    then have "stat st y \<noteq> None"
      using deps_of_known [OF ok(1)] jhas_iff_key [of "gs_executions st" y] k by (auto simp: stat_of_def)
    moreover have "\<not> bad (gs_nodes st) (stat st) y"
      using graph_invD(5) [OF inv] y z by (auto simp: block_ok_def)
    ultimately show "sat (gs_nodes st) (stat st) y"
      using min [OF y] nrun [of y] sched_invD(6) [OF S, of y]
      by (cases "stat st y") (auto simp: sat_def bad_def intro: NodeStatus.exhaust)
  qed
  then show False using graph_invD(4) [OF inv] z none by (simp add: enabled_ok_def live_count_def)
qed

lemma stuck_allDone:
  assumes reach: "graph_reach d limit hs st" and dist: "distinct (gd_entryNodes d)"
    and entries: "gd_entryNodes d = [] \<or> roots (gd_nodes d) \<subseteq> set (gd_entryNodes d)"
    and slots: "int (card {i \<in> nd_id ` set (gd_nodes d). has_retryPolicy (gd_nodes d) i}) < limit"
    and stuck: "\<And>st'. \<not> graph_step st st'"
  shows "allDone st"
proof (rule no_frames_allDone)
  show run: "graph_run_inv d limit st" by (rule reach_inv [OF reach dist])
  then have v: "validateGraph d = Inr (gs_definition st)" and l: "gs_concurrencyLimit st = limit"
    and inv: "graph_inv (roots (gs_nodes st) - set (gd_entryNodes (gs_definition st))) {} st"
    by (simp_all add: graph_run_inv_def)
  note V = validateGraph_accepts [OF v]
  then have n: "gs_nodes st = gd_nodes d" by (elim conjE) simp
  show "roots (gs_nodes st) \<subseteq> set (gd_entryNodes (gs_definition st))"
    using V entries n by (auto simp: roots_def deps_of_mem)
  show "gs_frames st = {#}"
  proof (rule ccontr)
    assume "gs_frames st \<noteq> {#}"
    then have full: "limit \<le> gs_activeExecutions st"
      using stuck_frames [OF stuck] l by (metis multiset_nonemptyE)
    have "size (filter_mset holds_slot (gs_frames st))
        \<le> card {i \<in> nd_id ` set (gs_nodes st). has_retryPolicy (gs_nodes st) i}"
    proof (rule all_retrying_card [OF graph_invD(3) [OF inv]])
      fix f
      assume f: "f \<in># gs_frames st" "holds_slot f"
      then obtain i where "f = RetryWaiting i"
        using stuck_frames [OF stuck] by (fastforce simp: holds_slot_def)
      with f reach_retry_frames [OF reach] show "\<exists>i. f = RetryWaiting i \<and> has_retryPolicy (gs_nodes st) i"
        by (auto simp: retry_frames_ok_def)
    qed
    with full slots graph_invD(2) [OF inv] n show False by (simp add: slot_inv_def)
  qed
qed



definition deadlocked :: GraphState where
  "deadlocked = resume_backoff 1001 ''a'' (fail_node 1 ''a'' ''boom'' None (demo_started 1))"

lemma deadlocked_frames:
  "InFlight ''a'' \<in># gs_frames (demo_started 1)"
  "Backoff ''a'' \<in># gs_frames (fail_node 1 ''a'' ''boom'' None (demo_started 1))"
  "gs_frames deadlocked = {#RetryWaiting ''a''#}"
  "gs_activeExecutions deadlocked = 1" "gs_concurrencyLimit deadlocked = 1"
  "\<not> wait_over deadlocked"
  by code_simp+

text \<open>
  With the limit not above the number of retrying nodes the premise of the previous
  property cannot be dropped: \<^verbatim>\<open>executeNode\<close> awaits \<^verbatim>\<open>scheduleNode\<close> for its retry while
  still holding its own slot, so with \<^verbatim>\<open>concurrencyLimit = 1\<close> one failed attempt of a
  retryable node leads to a state in which nothing can ever happen and
  \<^verbatim>\<open>waitForCompletion\<close> does not return.
\<close>

theorem retry_deadlock:
  "\<exists>d st. graph_reach d 1 [TASK] st \<and> distinct (gd_entryNodes d) \<and> \<not> wait_over st \<and>
     (\<forall>st'. \<not> graph_step st st')"
proof (intro exI conjI allI)
  have "graph_reach demo_graph 1 [TASK] (fail_node 1 ''a'' ''boom'' None (demo_started 1))"
    by (intro graph_reach.continued [OF demo_reach] handler_rejects deadlocked_frames)
  then show "graph_reach demo_graph 1 [TASK] deadlocked"
    unfolding deadlocked_def
    by (rule graph_reach.continued) (intro backoff_over deadlocked_frames)
  show "\<not> graph_step deadlocked st'" for st'
    by (auto elim!: graph_step.cases simp: deadlocked_frames)
qed (simp_all add: demo_entries deadlocked_frames)

section \<open>The result\<close>

lemma blocked_has_failed:
  assumes inv: "graph_inv A {} st" and "nodes_ok (gs_nodes st)" "acyclic (dep_rel (gs_nodes st))"
    and "stat st i = Some BLOCKED"
  shows "\<exists>c. stat st c = Some FAILED \<and> \<not> continues (gs_nodes st) c"
  using assms(4)
proof (induction i rule: wf_induct_rule [OF wf_dep_rel [OF assms(2,3)]])
  case (1 i)
  then obtain c where "c \<in> set (deps_of (gs_nodes st) i)" and "bad (gs_nodes st) (stat st) c"
    using sched_invD(5) [OF graph_invD(3) [OF inv]] by blast
  with 1 show ?case by (auto simp: bad_def dep_rel_def)
qed

lemma failedNodes_Nil:
  assumes "jwf (gs_executions st)"
  shows "failedNodes st = [] \<longleftrightarrow> (\<forall>i. stat st i = Some FAILED \<longrightarrow> continues (gs_nodes st) i)"
  using assms by (auto simp: failedNodes_def filter_empty_conv stat_of_def)

lemma failure_of_None [simp]: "failure_of fs = None \<longleftrightarrow> fs = []"
  by (auto simp: failure_of_def split: list.splits)

lemma count_status_total:
  assumes "allDone st"
  shows "count_status COMPLETED st + count_status FAILED st + count_status BLOCKED st +
    count_status SKIPPED st = length (gs_executions st)"
proof -
  have "(\<forall>ex\<in>set xs. terminal_status (ne_status ex)) \<Longrightarrow>
    length (filter (\<lambda>ex. ne_status ex = COMPLETED) xs) + length (filter (\<lambda>ex. ne_status ex = FAILED) xs) +
    length (filter (\<lambda>ex. ne_status ex = BLOCKED) xs) + length (filter (\<lambda>ex. ne_status ex = SKIPPED) xs)
      = length xs" for xs
    by (induction xs) (auto simp: terminal_status_def)
  from this [of "jvalues (gs_executions st)"] assms show ?thesis
    by (simp add: count_status_def allDone_def list_all_iff)
qed

lemma stat_values:
  "jwf (gs_executions st) \<Longrightarrow> (\<forall>ex\<in>set (jvalues (gs_executions st)). P (ne_status ex)) \<longleftrightarrow>
     (\<forall>i s. stat st i = Some s \<longrightarrow> P s)"
  by (auto simp: stat_of_def)
     blast

text \<open>
  C11.  The outcome of \<^verbatim>\<open>execute\<close> on a finished run: the counts add up to the number of
  nodes and none is skipped; the promise rejects exactly when some node failed without
  \<^verbatim>\<open>continueOnError\<close>; when it fulfils, every node completed or failed with
  \<^verbatim>\<open>continueOnError\<close> and nothing is blocked, and \<^verbatim>\<open>success\<close> is set exactly when all
  nodes completed.
\<close>

theorem execute_outcome:
  assumes reach: "graph_reach d limit hs st" and dist: "distinct (gd_entryNodes d)" and fin: "allDone st"
  shows "case execute_finish dur st of
      Inl (err, r) \<Rightarrow> (\<exists>i. stat st i = Some FAILED \<and> \<not> continues (gd_nodes d) i) \<and> \<not> xr_success r \<and>
        xr_completed r + xr_failed r + xr_blocked r = xr_totalNodes r \<and> xr_skipped r = 0
    | Inr r \<Rightarrow> (\<forall>i\<in>nd_id ` set (gd_nodes d). stat st i = Some COMPLETED \<or>
          stat st i = Some FAILED \<and> continues (gd_nodes d) i) \<and>
        xr_completed r + xr_failed r = xr_totalNodes r \<and>
        (xr_success r \<longleftrightarrow> (\<forall>i\<in>nd_id ` set (gd_nodes d). stat st i = Some COMPLETED))"
proof -
  obtain A where inv: "graph_inv A {} st" and n: "gs_nodes st = gd_nodes d" and ok: "nodes_ok (gd_nodes d)"
    and k: "jkeys (gs_executions st) = map nd_id (gd_nodes d)"
    by (rule reach_graph_inv [OF reach dist])
  have cyc: "acyclic (dep_rel (gd_nodes d))"
    using reach_inv [OF reach dist] validateGraph_accepts by (auto simp: graph_run_inv_def)
  have wf: "jwf (gs_executions st)" using k ok by (simp add: nodes_ok_def)
  have len: "length (gs_executions st) = length (gd_nodes d)" using k by (metis length_map)
  have dom: "i \<in> nd_id ` set (gd_nodes d) \<longleftrightarrow> stat st i \<noteq> None" for i
    using jhas_iff_key [of "gs_executions st" i] k by (simp add: stat_of_def)
  have tm: "terminal_status s" if "stat st i = Some s" for i s
    using fin stat_values [OF wf, of terminal_status] that by (auto simp: allDone_def list_all_iff)
  have skip: "count_status SKIPPED st = 0"
    using stat_values [OF wf, of "\<lambda>s. s \<noteq> SKIPPED"] sched_invD(6) [OF graph_invD(3) [OF inv]]
    by (fastforce simp: count_status_def filter_empty_conv)
  have succ: "list_all (\<lambda>ex. ne_status ex = COMPLETED) (jvalues (gs_executions st)) \<longleftrightarrow>
      (\<forall>i\<in>nd_id ` set (gd_nodes d). stat st i = Some COMPLETED)"
  proof -
    have "(\<forall>i s. stat st i = Some s \<longrightarrow> s = COMPLETED) \<longleftrightarrow>
        (\<forall>i\<in>nd_id ` set (gd_nodes d). stat st i = Some COMPLETED)"
      using dom by (metis (no_types, lifting) option.exhaust option.inject option.distinct(1))
    with stat_values [OF wf, of "\<lambda>s. s = COMPLETED"] show ?thesis by (simp add: list_all_iff)
  qed
  note tot = count_status_total [OF fin]
  show ?thesis
  proof (cases "failedNodes st = []")
    case True
    then have fc: "stat st i = Some FAILED \<Longrightarrow> continues (gd_nodes d) i" for i
      using failedNodes_Nil [OF wf] n by simp
    have nb: "stat st i \<noteq> Some BLOCKED" for i
      using blocked_has_failed [OF inv, of i] fc ok cyc n by auto
    have "count_status BLOCKED st = 0"
      using stat_values [OF wf, of "\<lambda>s. s \<noteq> BLOCKED"] nb by (fastforce simp: count_status_def filter_empty_conv)
    moreover have "stat st i = Some COMPLETED \<or> stat st i = Some FAILED \<and> continues (gd_nodes d) i"
      if "i \<in> nd_id ` set (gd_nodes d)" for i
      using that dom [of i] tm [of i] nb [of i] fc [of i] sched_invD(6) [OF graph_invD(3) [OF inv], of i]
      by (auto simp: terminal_status_def)
    ultimately show ?thesis
      using True tot skip len n succ
      by (simp add: execute_finish_def buildExecutionResult_def failure_of_def)
  next
    case False
    then obtain i where "stat st i = Some FAILED \<and> \<not> continues (gd_nodes d) i"
      using failedNodes_Nil [OF wf] n by auto
    with False tot skip len n show ?thesis
      by (auto simp: execute_finish_def buildExecutionResult_def split: option.splits)
  qed
qed

definition demo_finished :: GraphState where
  "demo_finished = complete_node 9 ''b'' JNull (complete_node 5 ''a'' (JNum 7) (demo_started 2))"

lemma demo_finished_frames:
  "InFlight ''a'' \<in># gs_frames (demo_started 2)"
  "InFlight ''b'' \<in># gs_frames (complete_node 5 ''a'' (JNum 7) (demo_started 2))"
  "find_node (gs_nodes (demo_started 2)) ''a'' \<noteq> None"
  "hasHandler TASK (demo_started 2)"
  "hasHandler TASK (complete_node 5 ''a'' (JNum 7) (demo_started 2))"
  "map_option nd_type (find_node (gs_nodes (demo_started 2)) ''a'') = Some TASK"
  "map_option nd_type (find_node (gs_nodes (complete_node 5 ''a'' (JNum 7) (demo_started 2))) ''b'') = Some TASK"
  "allDone demo_finished"
  by code_simp+

lemma handler_fulfils_typed:
  "InFlight i \<in># gs_frames st \<Longrightarrow> map_option nd_type (find_node (gs_nodes st) i) = Some t \<Longrightarrow>
     hasHandler t st \<Longrightarrow> graph_step st (complete_node now i out st)"
  by (auto intro: handler_fulfils)

lemma demo_finished_reach: "graph_reach demo_graph 2 [TASK] demo_finished"
  unfolding demo_finished_def
  by (rule graph_reach.continued [OF graph_reach.continued [OF demo_reach]])
     (rule handler_fulfils_typed; rule demo_finished_frames)+

theorem execute_outcome_witness:
  "allDone demo_finished \<and>
   (case execute_finish 9 demo_finished of
      Inl (err, r) \<Rightarrow> \<not> xr_success r
    | Inr r \<Rightarrow> xr_completed r + xr_failed r = xr_totalNodes r)"
  using execute_outcome [OF demo_finished_reach demo_entries demo_finished_frames(8), of 9]
    demo_finished_frames(8)
  by (auto split: sum.splits)

lemma demo_finished_b: "stat demo_finished ''b'' = Some COMPLETED"
  by code_simp


end
