(* ===== verification/Approvals.thy ===== *)
theory Approvals
  imports Prelude
begin

text \<open>
  The approval manager, \<^verbatim>\<open>services/orchestrator/src/approvals/ApprovalManager.ts\<close>.  The
  state holds the two maps of the class and, for every call of \<^verbatim>\<open>requestApproval\<close>, the
  promise it returned; the listeners that call installs are the entries that are still
  \<open>Waiting\<close>, and its timer is armed as long as they are.  The objects of a batch are
  the very objects of the request map, so a batch keeps their identifiers.  Fresh
  identifiers (\<^verbatim>\<open>uuidv4()\<close>) and the clock are arguments.
\<close>

section \<open>Data\<close>

datatype ApprovalStatus = APending | AApproved | ADenied | AExpired | ACancelled

type_synonym ApprovalData = "(string, json) jsmap"

record ApprovalRequest =
  ar_id :: string
  ar_operation :: string
  ar_reason :: string
  ar_details :: ApprovalData
  ar_requesterId :: "string option"
  ar_tenantId :: "string option"
  ar_status :: ApprovalStatus
  ar_createdAt :: time
  ar_expiresAt :: "time option"
  ar_resolvedAt :: "time option"
  ar_resolvedBy :: "string option"
  ar_resolutionComment :: "string option"
  ar_metadata :: "ApprovalData option"

record BatchApprovalRequest =
  ab_batchId :: string
  ab_requests :: "string list"
  ab_description :: string
  ab_createdAt :: time

record ApprovalConfig =
  ac_defaultTimeout :: int
  ac_maxPendingPerTenant :: int
  ac_autoDenyOnTimeout :: bool
  ac_enableBatchApprovals :: bool
  ac_auditEnabled :: bool

text \<open>The promise of a \<^verbatim>\<open>requestApproval\<close> call.\<close>

datatype approval_promise = AwaitingDecision | Fulfilled bool | TimedOut

datatype ApprovalError = TooManyPending | BatchesDisabled

record ApprovalManager =
  am_requests :: "(string, ApprovalRequest) jsmap"
  am_batches :: "(string, BatchApprovalRequest) jsmap"
  am_config :: ApprovalConfig
  am_promises :: "(string, approval_promise) jsmap"

definition default_ApprovalConfig :: ApprovalConfig where
  "default_ApprovalConfig = \<lparr>ac_defaultTimeout = 300000, ac_maxPendingPerTenant = 100,
     ac_autoDenyOnTimeout = True, ac_enableBatchApprovals = True, ac_auditEnabled = True\<rparr>"

definition new_ApprovalManager :: "ApprovalConfig \<Rightarrow> ApprovalManager" where
  "new_ApprovalManager c = \<lparr>am_requests = [], am_batches = [], am_config = c, am_promises = []\<rparr>"

section \<open>Queries\<close>

text \<open>A falsy \<^verbatim>\<open>tenantId\<close> (absent or empty) selects every tenant.\<close>

definition tenant_matches :: "string option \<Rightarrow> ApprovalRequest \<Rightarrow> bool" where
  "tenant_matches t r \<longleftrightarrow> (case t of None \<Rightarrow> True | Some x \<Rightarrow> x = [] \<or> ar_tenantId r = Some x)"

definition getPendingRequests :: "string option \<Rightarrow> ApprovalManager \<Rightarrow> ApprovalRequest list" where
  "getPendingRequests t am =
     filter (\<lambda>r. ar_status r = APending \<and> tenant_matches t r) (jvalues (am_requests am))"

definition getRequest :: "string \<Rightarrow> ApprovalManager \<Rightarrow> ApprovalRequest option" where
  "getRequest i am = map_of (am_requests am) i"

definition getBatch :: "string \<Rightarrow> ApprovalManager \<Rightarrow> BatchApprovalRequest option" where
  "getBatch b am = map_of (am_batches am) b"

record ApprovalStats =
  as_pending :: nat
  as_approved :: nat
  as_denied :: nat
  as_expired :: nat
  as_cancelled :: nat

definition count_request :: "ApprovalRequest \<Rightarrow> ApprovalStats \<Rightarrow> ApprovalStats" where
  "count_request r s =
     (case ar_status r of
        APending \<Rightarrow> s\<lparr>as_pending := as_pending s + 1\<rparr>
      | AApproved \<Rightarrow> s\<lparr>as_approved := as_approved s + 1\<rparr>
      | ADenied \<Rightarrow> s\<lparr>as_denied := as_denied s + 1\<rparr>
      | AExpired \<Rightarrow> s\<lparr>as_expired := as_expired s + 1\<rparr>
      | ACancelled \<Rightarrow> s\<lparr>as_cancelled := as_cancelled s + 1\<rparr>)"

definition getStats :: "string option \<Rightarrow> ApprovalManager \<Rightarrow> ApprovalStats" where
  "getStats t am =
     fold (\<lambda>r s. if tenant_matches t r then count_request r s else s) (jvalues (am_requests am))
       \<lparr>as_pending = 0, as_approved = 0, as_denied = 0, as_expired = 0, as_cancelled = 0\<rparr>"

text \<open>\<^verbatim>\<open>maxPendingPerTenant || 100\<close>.\<close>

definition pending_limit :: "ApprovalConfig \<Rightarrow> int" where
  "pending_limit c = (if ac_maxPendingPerTenant c = 0 then 100 else ac_maxPendingPerTenant c)"

definition checkTenantLimit :: "string \<Rightarrow> ApprovalManager \<Rightarrow> bool" where
  "checkTenantLimit t am \<longleftrightarrow>
     int (length (getPendingRequests (Some t) am)) < pending_limit (am_config am)"

section \<open>Operations\<close>

definition new_request ::
  "time \<Rightarrow> string \<Rightarrow> string \<Rightarrow> string \<Rightarrow> ApprovalData \<Rightarrow> string option \<Rightarrow> string option \<Rightarrow> int
     \<Rightarrow> ApprovalData option \<Rightarrow> ApprovalRequest" where
  "new_request now requestId operation reason details requesterId tenantId timeout metadata =
     \<lparr>ar_id = requestId, ar_operation = operation, ar_reason = reason, ar_details = details,
      ar_requesterId = requesterId, ar_tenantId = tenantId, ar_status = APending,
      ar_createdAt = now, ar_expiresAt = Some (now + timeout), ar_resolvedAt = None,
      ar_resolvedBy = None, ar_resolutionComment = None, ar_metadata = metadata\<rparr>"

definition requestApproval ::
  "time \<Rightarrow> string \<Rightarrow> string \<Rightarrow> string \<Rightarrow> ApprovalData \<Rightarrow> string option \<Rightarrow> string option \<Rightarrow> int option
     \<Rightarrow> ApprovalData option \<Rightarrow> ApprovalManager \<Rightarrow> ApprovalError + ApprovalManager" where
  "requestApproval now requestId operation reason details requesterId tenantId timeout metadata am =
     (let t = (case timeout of None \<Rightarrow> ac_defaultTimeout (am_config am) | Some t \<Rightarrow> t)
      in if (case tenantId of None \<Rightarrow> False | Some x \<Rightarrow> x \<noteq> [] \<and> \<not> checkTenantLimit x am)
         then Inl TooManyPending
         else Inr (am\<lparr>am_requests := jset requestId
                (new_request now requestId operation reason details requesterId tenantId t metadata)
                (am_requests am),
              am_promises := jset requestId AwaitingDecision (am_promises am)\<rparr>))"

text \<open>The listener of request \<open>i\<close> receives a decision: it clears the timer, removes the
  listeners and resolves, which has no effect on a settled promise.\<close>

definition notify_decision :: "string \<Rightarrow> bool \<Rightarrow> ApprovalManager \<Rightarrow> ApprovalManager" where
  "notify_decision i b am =
     am\<lparr>am_promises := jmodify i (\<lambda>p. if p = AwaitingDecision then Fulfilled b else p) (am_promises am)\<rparr>"

definition resolve_request ::
  "ApprovalStatus \<Rightarrow> time \<Rightarrow> string option \<Rightarrow> string option \<Rightarrow> ApprovalRequest \<Rightarrow> ApprovalRequest" where
  "resolve_request s now who comment r = r\<lparr>ar_status := s, ar_resolvedAt := Some now,
     ar_resolvedBy := who, ar_resolutionComment := comment\<rparr>"

definition approve ::
  "time \<Rightarrow> string \<Rightarrow> string option \<Rightarrow> string option \<Rightarrow> ApprovalManager \<Rightarrow> ApprovalManager \<times> bool" where
  "approve now i approvedBy comment am =
     (case map_of (am_requests am) i of
        None \<Rightarrow> (am, False)
      | Some r \<Rightarrow>
          if ar_status r \<noteq> APending then (am, False)
          else (notify_decision (ar_id r) True (am\<lparr>am_requests :=
                  jset i (resolve_request AApproved now approvedBy comment r) (am_requests am)\<rparr>), True))"

definition deny ::
  "time \<Rightarrow> string \<Rightarrow> string option \<Rightarrow> string option \<Rightarrow> ApprovalManager \<Rightarrow> ApprovalManager \<times> bool" where
  "deny now i deniedBy comment am =
     (case map_of (am_requests am) i of
        None \<Rightarrow> (am, False)
      | Some r \<Rightarrow>
          if ar_status r \<noteq> APending then (am, False)
          else (notify_decision (ar_id r) False (am\<lparr>am_requests :=
                  jset i (resolve_request ADenied now deniedBy comment r) (am_requests am)\<rparr>), True))"

definition cancel :: "time \<Rightarrow> string \<Rightarrow> ApprovalManager \<Rightarrow> ApprovalManager \<times> bool" where
  "cancel now i am =
     (case map_of (am_requests am) i of
        None \<Rightarrow> (am, False)
      | Some r \<Rightarrow>
          if ar_status r \<noteq> APending then (am, False)
          else (notify_decision (ar_id r) False (am\<lparr>am_requests :=
                  jset i (r\<lparr>ar_status := ACancelled, ar_resolvedAt := Some now\<rparr>) (am_requests am)\<rparr>), True))"

text \<open>The timer of \<^verbatim>\<open>requestApproval\<close> fires; it is armed only while the promise waits.\<close>

definition approval_timeout :: "time \<Rightarrow> string \<Rightarrow> ApprovalManager \<Rightarrow> ApprovalManager" where
  "approval_timeout now i am =
     (if map_of (am_promises am) i \<noteq> Some AwaitingDecision then am
      else case map_of (am_requests am) i of
             None \<Rightarrow> am
           | Some r \<Rightarrow>
               if ar_status r \<noteq> APending then am
               else if ac_autoDenyOnTimeout (am_config am)
               then notify_decision (ar_id r) False (am\<lparr>am_requests := jset i
                      (r\<lparr>ar_status := AExpired, ar_resolvedAt := Some now,
                         ar_resolutionComment := Some ''Approval request timed out''\<rparr>) (am_requests am)\<rparr>)
               else am\<lparr>am_promises := jset i TimedOut (am_promises am)\<rparr>)"

record BatchItem =
  bi_operation :: string
  bi_reason :: string
  bi_details :: ApprovalData

definition batch_request ::
  "time \<Rightarrow> string option \<Rightarrow> string option \<Rightarrow> string \<Rightarrow> BatchItem \<Rightarrow> ApprovalRequest" where
  "batch_request now requesterId tenantId i b =
     \<lparr>ar_id = i, ar_operation = bi_operation b, ar_reason = bi_reason b, ar_details = bi_details b,
      ar_requesterId = requesterId, ar_tenantId = tenantId, ar_status = APending, ar_createdAt = now,
      ar_expiresAt = None, ar_resolvedAt = None, ar_resolvedBy = None, ar_resolutionComment = None,
      ar_metadata = None\<rparr>"

definition createBatch ::
  "time \<Rightarrow> string \<Rightarrow> (string \<times> BatchItem) list \<Rightarrow> string \<Rightarrow> string option \<Rightarrow> string option \<Rightarrow>
     ApprovalManager \<Rightarrow> ApprovalError + ApprovalManager" where
  "createBatch now batchId items description requesterId tenantId am =
     (if \<not> ac_enableBatchApprovals (am_config am) then Inl BatchesDisabled
      else Inr (am\<lparr>am_requests :=
             fold (\<lambda>(i, b). jset i (batch_request now requesterId tenantId i b)) items (am_requests am),
           am_batches := jset batchId \<lparr>ab_batchId = batchId, ab_requests = map fst items,
             ab_description = description, ab_createdAt = now\<rparr> (am_batches am)\<rparr>))"

fun approve_all ::
  "time \<Rightarrow> string option \<Rightarrow> string option \<Rightarrow> string list \<Rightarrow> ApprovalManager \<Rightarrow> ApprovalManager \<times> nat" where
  "approve_all now who comment [] am = (am, 0)"
| "approve_all now who comment (i # is) am =
     (let (am1, ok) = approve now i who comment am;
          (am2, n) = approve_all now who comment is am1
      in (am2, if ok then n + 1 else n))"

definition approveBatch ::
  "time \<Rightarrow> string \<Rightarrow> string option \<Rightarrow> string option \<Rightarrow> ApprovalManager \<Rightarrow> ApprovalManager \<times> nat" where
  "approveBatch now b who comment am =
     (case map_of (am_batches am) b of
        None \<Rightarrow> (am, 0)
      | Some batch \<Rightarrow> approve_all now who comment (ab_requests batch) am)"

fun deny_all ::
  "time \<Rightarrow> string option \<Rightarrow> string option \<Rightarrow> string list \<Rightarrow> ApprovalManager \<Rightarrow> ApprovalManager \<times> nat" where
  "deny_all now who comment [] am = (am, 0)"
| "deny_all now who comment (i # is) am =
     (let (am1, ok) = deny now i who comment am;
          (am2, n) = deny_all now who comment is am1
      in (am2, if ok then n + 1 else n))"

definition denyBatch ::
  "time \<Rightarrow> string \<Rightarrow> string option \<Rightarrow> string option \<Rightarrow> ApprovalManager \<Rightarrow> ApprovalManager \<times> nat" where
  "denyBatch now b who comment am =
     (case map_of (am_batches am) b of
        None \<Rightarrow> (am, 0)
      | Some batch \<Rightarrow> deny_all now who comment (ab_requests batch) am)"

text \<open>One iteration of the loop of \<^verbatim>\<open>cleanupExpired\<close> over the entry of \<open>i\<close>, and the loop.\<close>

definition cleanup_request :: "time \<Rightarrow> string \<Rightarrow> ApprovalManager \<Rightarrow> ApprovalManager" where
  "cleanup_request now i am =
     (case map_of (am_requests am) i of
        None \<Rightarrow> am
      | Some r \<Rightarrow>
          let overdue = (ar_status r = APending \<and>
                (case ar_expiresAt r of None \<Rightarrow> False | Some e \<Rightarrow> e < now));
              expire = (overdue \<and> ac_autoDenyOnTimeout (am_config am));
              r1 = (if expire then r\<lparr>ar_status := AExpired, ar_resolvedAt := Some now\<rparr> else r);
              am1 = (if expire
                     then notify_decision (ar_id r) False (am\<lparr>am_requests := jset i r1 (am_requests am)\<rparr>)
                     else am)
          in if (case ar_resolvedAt r1 of None \<Rightarrow> False | Some t \<Rightarrow> now - t > 3600000)
             then am1\<lparr>am_requests := jdelete i (am_requests am1)\<rparr>
             else am1)"

definition cleanupExpired :: "time \<Rightarrow> ApprovalManager \<Rightarrow> ApprovalManager" where
  "cleanupExpired now am = fold (cleanup_request now) (jkeys (am_requests am)) am"

definition shutdown_approvals :: "ApprovalManager \<Rightarrow> ApprovalManager" where
  "shutdown_approvals am = am\<lparr>am_requests := [], am_batches := []\<rparr>"

section \<open>Runs of the manager\<close>

datatype approval_op =
    RequestApproval time string string string ApprovalData "string option" "string option" "int option"
      "ApprovalData option"
  | Approve time string "string option" "string option"
  | Deny time string "string option" "string option"
  | Cancel time string
  | Timeout time string
  | CreateBatch time string "(string \<times> BatchItem) list" string "string option" "string option"
  | ApproveBatch time string "string option" "string option"
  | DenyBatch time string "string option" "string option"
  | Cleanup time

text \<open>An operation that throws leaves the manager unchanged.\<close>

fun approval_step :: "approval_op \<Rightarrow> ApprovalManager \<Rightarrow> ApprovalManager" where
  "approval_step (RequestApproval now i o' r d q t tmo m) am =
     (case requestApproval now i o' r d q t tmo m am of Inl _ \<Rightarrow> am | Inr am' \<Rightarrow> am')"
| "approval_step (Approve now i who c) am = fst (approve now i who c am)"
| "approval_step (Deny now i who c) am = fst (deny now i who c am)"
| "approval_step (Cancel now i) am = fst (cancel now i am)"
| "approval_step (Timeout now i) am = approval_timeout now i am"
| "approval_step (CreateBatch now b items d q t) am =
     (case createBatch now b items d q t am of Inl _ \<Rightarrow> am | Inr am' \<Rightarrow> am')"
| "approval_step (ApproveBatch now b who c) am = fst (approveBatch now b who c am)"
| "approval_step (DenyBatch now b who c) am = fst (denyBatch now b who c am)"
| "approval_step (Cleanup now) am = cleanupExpired now am"

text \<open>The identifiers an operation creates are new, as \<^verbatim>\<open>uuidv4\<close> promises.\<close>

fun fresh_op :: "approval_op \<Rightarrow> ApprovalManager \<Rightarrow> bool" where
  "fresh_op (RequestApproval now i o' r d q t tmo m) am \<longleftrightarrow>
     \<not> jhas (am_requests am) i \<and> \<not> jhas (am_promises am) i \<and>
     list_all (\<lambda>b. i \<notin> set (ab_requests b)) (jvalues (am_batches am))"
| "fresh_op (CreateBatch now b items d q t) am \<longleftrightarrow>
     distinct (map fst items) \<and>
     (\<forall>i\<in>fst ` set items. \<not> jhas (am_requests am) i \<and> \<not> jhas (am_promises am) i)"
| "fresh_op _ am \<longleftrightarrow> True"

inductive approval_run :: "ApprovalConfig \<Rightarrow> approval_op list \<Rightarrow> ApprovalManager \<Rightarrow> bool" for c where
  created: "approval_run c [] (new_ApprovalManager c)"
| stepped: "approval_run c ops am \<Longrightarrow> fresh_op op am \<Longrightarrow> approval_run c (ops @ [op]) (approval_step op am)"

end
