(* ===== verification/Approval_Properties.thy ===== *)
theory Approval_Properties
  imports Approvals
begin

text \<open>
  Properties of the approval manager.  Every operation but the creation of requests is a
  sequence of primitive changes (a pending request is resolved, a resolved one is
  forgotten, a promise times out); the properties are proved for the primitive changes
  and lifted to the operations and to runs.
\<close>

section \<open>Primitive changes\<close>

text \<open>\<open>D\<close> holds the requests the operation may approve.\<close>

inductive approval_prim :: "string set \<Rightarrow> ApprovalManager \<Rightarrow> ApprovalManager \<Rightarrow> bool" for D where
  resolves: "map_of (am_requests am) i = Some r \<Longrightarrow> ar_status r = APending \<Longrightarrow>
     r' = r\<lparr>ar_status := s, ar_resolvedAt := Some now, ar_resolvedBy := who, ar_resolutionComment := c\<rparr> \<Longrightarrow>
     s \<noteq> APending \<Longrightarrow> (b \<longleftrightarrow> s = AApproved) \<Longrightarrow> (b \<longrightarrow> i \<in> D) \<Longrightarrow>
     approval_prim D am
       (notify_decision (ar_id r) b (am\<lparr>am_requests := jset i r' (am_requests am)\<rparr>))"
| forgets: "map_of (am_requests am) i = Some r \<Longrightarrow> ar_resolvedAt r \<noteq> None \<Longrightarrow>
     approval_prim D am (am\<lparr>am_requests := jdelete i (am_requests am)\<rparr>)"
| times_out: "\<not> ac_autoDenyOnTimeout (am_config am) \<Longrightarrow> map_of (am_promises am) i = Some AwaitingDecision \<Longrightarrow>
     jhas (am_requests am) i \<Longrightarrow>
     approval_prim D am (am\<lparr>am_promises := jset i TimedOut (am_promises am)\<rparr>)"

abbreviation approval_prims :: "string set \<Rightarrow> ApprovalManager \<Rightarrow> ApprovalManager \<Rightarrow> bool" where
  "approval_prims D \<equiv> (approval_prim D)\<^sup>*\<^sup>*"

lemma approval_prim_mono: "approval_prim D am am' \<Longrightarrow> D \<subseteq> D' \<Longrightarrow> approval_prim D' am am'"
  by (erule approval_prim.cases) (auto intro: approval_prim.intros)

lemma approval_prims_mono: "approval_prims D am am' \<Longrightarrow> D \<subseteq> D' \<Longrightarrow> approval_prims D' am am'"
  by (meson approval_prim_mono mono_rtranclp)

lemma approve_prims: "i \<in> D \<Longrightarrow> approval_prims D am (fst (approve now i who c am))"
  unfolding approve_def resolve_request_def
  by (auto split: option.splits intro!: r_into_rtranclp approval_prim.resolves)

lemma deny_prims: "approval_prims D am (fst (deny now i who c am))"
  unfolding deny_def resolve_request_def
  by (auto split: option.splits intro!: r_into_rtranclp approval_prim.resolves)

lemma resolves_keep:
  assumes "map_of (am_requests am) i = Some r" and "ar_status r = APending"
    and "s \<noteq> APending" and "s \<noteq> AApproved"
  shows "approval_prim D am (notify_decision (ar_id r) False (am\<lparr>am_requests :=
    jset i (r\<lparr>ar_status := s, ar_resolvedAt := Some now\<rparr>) (am_requests am)\<rparr>))"
  by (rule approval_prim.resolves [OF assms(1,2), where s = s and now = now and who = "ar_resolvedBy r"
      and c = "ar_resolutionComment r"])
     (use assms in simp_all)

lemma cancel_prims: "approval_prims D am (fst (cancel now i am))"
  unfolding cancel_def by (auto split: option.splits intro!: r_into_rtranclp resolves_keep)

lemma timeout_prims: "approval_prims D am (approval_timeout now i am)"
proof -
  have "approval_prim D am (notify_decision (ar_id r) False (am\<lparr>am_requests := jset i
      (r\<lparr>ar_status := AExpired, ar_resolvedAt := Some now, ar_resolutionComment := c\<rparr>) (am_requests am)\<rparr>))"
    if "map_of (am_requests am) i = Some r" "ar_status r = APending" for r c
    by (rule approval_prim.resolves [OF that, where s = AExpired and now = now and who = "ar_resolvedBy r" and c = c]) simp_all
  then show ?thesis
    unfolding approval_timeout_def by (auto split: option.splits intro: approval_prim.times_out)
qed

lemma cleanup_request_prims: "approval_prims D am (cleanup_request now i am)"
proof (cases "map_of (am_requests am) i")
  case (Some r)
  show ?thesis
  proof (cases "ar_status r = APending \<and> (case ar_expiresAt r of None \<Rightarrow> False | Some e \<Rightarrow> e < now) \<and>
      ac_autoDenyOnTimeout (am_config am)")
    case True
    with Some show ?thesis
      by (auto simp: cleanup_request_def Let_def intro!: r_into_rtranclp resolves_keep split: option.splits)
  next
    case False
    with Some show ?thesis
      by (auto simp: cleanup_request_def Let_def intro!: r_into_rtranclp approval_prim.forgets
          split: option.splits)
  qed
qed (simp add: cleanup_request_def)

lemma cleanup_prims: "approval_prims D am (cleanupExpired now am)"
proof -
  have "approval_prims D am (fold (cleanup_request now) is am)" for "is"
    by (induction "is" arbitrary: am) (auto intro: rtranclp_trans cleanup_request_prims)
  then show ?thesis by (simp add: cleanupExpired_def)
qed

lemma approve_all_prims: "set is \<subseteq> D \<Longrightarrow> approval_prims D am (fst (approve_all now who c is am))"
proof (induction "is" arbitrary: am)
  case (Cons i "is")
  then show ?case
    using approve_prims [of i D am now who c]
    by (auto simp: case_prod_unfold Let_def intro: rtranclp_trans)
qed simp

lemma deny_all_prims: "approval_prims D am (fst (deny_all now who c is am))"
proof (induction "is" arbitrary: am)
  case (Cons i "is")
  then show ?case
    using deny_prims [of D am now i who c]
    by (auto simp: case_prod_unfold Let_def intro: rtranclp_trans)
qed simp

text \<open>The requests an operation may approve.\<close>

fun approvable :: "approval_op \<Rightarrow> ApprovalManager \<Rightarrow> string set" where
  "approvable (Approve now i who c) am = {i}"
| "approvable (ApproveBatch now b who c) am =
     (case map_of (am_batches am) b of None \<Rightarrow> {} | Some x \<Rightarrow> set (ab_requests x))"
| "approvable _ am = {}"

fun creates :: "approval_op \<Rightarrow> bool" where
  "creates (RequestApproval now i o' r d q t tmo m) \<longleftrightarrow> True"
| "creates (CreateBatch now b items d q t) \<longleftrightarrow> True"
| "creates _ \<longleftrightarrow> False"

lemma approval_step_prims:
  "\<not> creates op \<Longrightarrow> approval_prims (approvable op am) am (approval_step op am)"
  by (cases op)
     (auto simp: approve_prims deny_prims cancel_prims timeout_prims cleanup_prims approveBatch_def
        denyBatch_def deny_all_prims intro!: approve_all_prims split: option.split)

section \<open>The invariant\<close>

definition promise_matches :: "ApprovalConfig \<Rightarrow> approval_promise \<Rightarrow> ApprovalStatus \<Rightarrow> bool" where
  "promise_matches c p s \<longleftrightarrow>
     (case p of
        AwaitingDecision \<Rightarrow> s = APending
      | Fulfilled b \<Rightarrow> s \<noteq> APending \<and> (b \<longleftrightarrow> s = AApproved)
      | TimedOut \<Rightarrow> \<not> ac_autoDenyOnTimeout c)"

definition approvals_inv :: "ApprovalManager \<Rightarrow> bool" where
  "approvals_inv am \<longleftrightarrow> jwf (am_requests am) \<and>
     (\<forall>i r. map_of (am_requests am) i = Some r \<longrightarrow>
        ar_id r = i \<and> (ar_status r = APending \<longleftrightarrow> ar_resolvedAt r = None)) \<and>
     (\<forall>i p r. map_of (am_promises am) i = Some p \<longrightarrow> map_of (am_requests am) i = Some r \<longrightarrow>
        promise_matches (am_config am) p (ar_status r)) \<and>
     (\<forall>i. map_of (am_promises am) i = Some AwaitingDecision \<longrightarrow> jhas (am_requests am) i) \<and>
     (\<forall>i b. jhas (am_promises am) i \<longrightarrow> b \<in> set (jvalues (am_batches am)) \<longrightarrow> i \<notin> set (ab_requests b))"

lemma approvals_invD:
  assumes "approvals_inv am"
  shows "jwf (am_requests am)" "map_of (am_requests am) i = Some r \<Longrightarrow> ar_id r = i"
    "map_of (am_requests am) i = Some r \<Longrightarrow> ar_status r = APending \<longleftrightarrow> ar_resolvedAt r = None"
    "map_of (am_promises am) i = Some p \<Longrightarrow> map_of (am_requests am) i = Some r \<Longrightarrow>
      promise_matches (am_config am) p (ar_status r)"
    "map_of (am_promises am) i = Some AwaitingDecision \<Longrightarrow> jhas (am_requests am) i"
    "jhas (am_promises am) i \<Longrightarrow> b \<in> set (jvalues (am_batches am)) \<Longrightarrow> i \<notin> set (ab_requests b)"
  using assms by (simp_all only: approvals_inv_def) blast+

lemma notify_decision_fields [simp]:
  "am_requests (notify_decision i b am) = am_requests am"
  "am_batches (notify_decision i b am) = am_batches am"
  "am_config (notify_decision i b am) = am_config am"
  "map_of (am_promises (notify_decision i b am)) = (map_of (am_promises am))(i :=
     map_option (\<lambda>p. if p = AwaitingDecision then Fulfilled b else p) (map_of (am_promises am) i))"
  by (simp_all add: notify_decision_def jmap_simps)

lemma prim_fixes:
  "approval_prim D am am' \<Longrightarrow> am_batches am' = am_batches am \<and> am_config am' = am_config am \<and>
     (\<forall>i. jhas (am_promises am') i \<longleftrightarrow> jhas (am_promises am) i)"
  by (erule approval_prim.cases) (auto simp: jmap_simps)

lemma prims_fixes:
  "approval_prims D am am' \<Longrightarrow> am_batches am' = am_batches am \<and> am_config am' = am_config am \<and>
     (\<forall>i. jhas (am_promises am') i \<longleftrightarrow> jhas (am_promises am) i)"
proof (induction rule: rtranclp_induct)
  case (step am1 am2)
  with prim_fixes [OF step(2)] show ?case by simp
qed simp

lemma prim_inv:
  assumes "approval_prim D am am'" and inv: "approvals_inv am"
  shows "approvals_inv am'"
  using assms(1)
proof (cases rule: approval_prim.cases)
  case (resolves i r r' c who now s b)
  note I = approvals_invD [OF inv]
  have id: "ar_id r = i" by (rule I(2) [OF resolves(2)])
  have "promise_matches (am_config am) p APending" if "map_of (am_promises am) i = Some p" for p
    using I(4) [OF that resolves(2)] resolves(3) by simp
  then have "promise_matches (am_config am) (if p = AwaitingDecision then Fulfilled b else p) s"
    if "map_of (am_promises am) i = Some p" for p
    using that resolves(5,6) by (cases p) (auto simp: promise_matches_def)
  with resolves id I show ?thesis
    unfolding approvals_inv_def by (simp add: jmap_simps) (metis option.distinct(1))
next
  case (forgets i r)
  note I = approvals_invD [OF inv]
  have "map_of (am_promises am) i \<noteq> Some AwaitingDecision"
    using I(3) [OF forgets(2)] I(4) [OF _ forgets(2)] forgets(3) by (force simp: promise_matches_def)
  with forgets I show ?thesis unfolding approvals_inv_def by (simp add: jmap_simps)
next
  case (times_out i)
  note I = approvals_invD [OF inv]
  from times_out I show ?thesis
    unfolding approvals_inv_def by (simp add: jmap_simps promise_matches_def)
qed

lemma prims_inv: "approval_prims D am am' \<Longrightarrow> approvals_inv am \<Longrightarrow> approvals_inv am'"
  by (induction rule: rtranclp_induct) (auto intro: prim_inv)

lemma requestApproval_result:
  obtains "requestApproval now i o' r d q t tmo m am = Inl TooManyPending"
  | x where "requestApproval now i o' r d q t tmo m am =
      Inr (am\<lparr>am_requests := jset i x (am_requests am), am_promises := jset i AwaitingDecision (am_promises am)\<rparr>)"
      "ar_id x = i" "ar_status x = APending" "ar_resolvedAt x = None" "ar_tenantId x = t"
      "case t of None \<Rightarrow> True | Some y \<Rightarrow> y = [] \<or> checkTenantLimit y am"
proof (cases "case t of None \<Rightarrow> True | Some y \<Rightarrow> y = [] \<or> checkTenantLimit y am")
  case True
  let ?x = "new_request now i o' r d q t
    (case tmo of None \<Rightarrow> ac_defaultTimeout (am_config am) | Some t \<Rightarrow> t) m"
  have "requestApproval now i o' r d q t tmo m am = Inr (am\<lparr>am_requests := jset i ?x (am_requests am),
      am_promises := jset i AwaitingDecision (am_promises am)\<rparr>)"
    using True by (auto simp: requestApproval_def Let_def split: option.splits)
  then show ?thesis by (rule that(2)) (use True in \<open>simp_all add: new_request_def\<close>)
next
  case False
  then show ?thesis
    by (intro that(1)) (auto simp: requestApproval_def split: option.splits)
qed

lemma add_request_inv:
  assumes inv: "approvals_inv am" and "\<not> jhas (am_promises am) i"
    and "list_all (\<lambda>b. i \<notin> set (ab_requests b)) (jvalues (am_batches am))"
    and "ar_id x = i" "ar_status x = APending" "ar_resolvedAt x = None"
  shows "approvals_inv (am\<lparr>am_requests := jset i x (am_requests am),
    am_promises := jset i AwaitingDecision (am_promises am)\<rparr>)"
  using approvals_invD [OF inv] assms
  unfolding approvals_inv_def
  by (simp add: jmap_simps promise_matches_def list_all_iff del: map_of_eq_Some_iff) blast

lemma creation_inv:
  assumes "creates op" and fresh: "fresh_op op am" and inv: "approvals_inv am"
  shows "approvals_inv (approval_step op am)"
  using assms(1)
proof (cases op)
  case (RequestApproval now i o' r d q t tmo m)
  then show ?thesis
    using inv fresh
    by (cases rule: requestApproval_result [of now i o' r d q t tmo m am]) (simp_all add: add_request_inv)
next
  case (CreateBatch now b items d q t)
  note I = approvals_invD [OF inv]
  have dist: "distinct (map fst items)"
    and f: "map_of items i = Some x \<Longrightarrow> \<not> jhas (am_requests am) i \<and> \<not> jhas (am_promises am) i" for i x
    using fresh CreateBatch by (auto dest!: map_of_SomeD)
  show ?thesis
  proof (cases "ac_enableBatchApprovals (am_config am)")
    case True
    let ?rs = "fold (\<lambda>(i, x). jset i (batch_request now q t i x)) items (am_requests am)"
    let ?am = "approval_step op am"
    have am: "am_requests ?am = ?rs" "am_promises ?am = am_promises am" "am_config ?am = am_config am"
      "am_batches ?am = jset b \<lparr>ab_batchId = b, ab_requests = map fst items, ab_description = d,
        ab_createdAt = now\<rparr> (am_batches am)"
      using CreateBatch True by (simp_all add: createBatch_def)
    have look: "map_of ?rs i = (case map_of items i of None \<Rightarrow> map_of (am_requests am) i
        | Some x \<Rightarrow> Some (batch_request now q t i x))" for i
      by (rule map_of_fold_jset [OF dist])
    have nb: "i \<notin> set (ab_requests x)"
      if "jhas (am_promises am) i" "x \<in> set (jvalues (am_batches ?am))" for i x
      using jvalues_jset [OF that(2) [unfolded am]] I(6) [OF that(1)] that(1) fresh CreateBatch
      by fastforce
    show ?thesis
      unfolding approvals_inv_def am(1-3) look using I nb f
      by (simp add: batch_request_def del: map_of_eq_Some_iff split: option.split) blast?
  qed (use CreateBatch inv in \<open>simp add: createBatch_def\<close>)
qed simp_all

lemma approval_step_inv:
  "fresh_op op am \<Longrightarrow> approvals_inv am \<Longrightarrow> approvals_inv (approval_step op am)"
  using creation_inv prims_inv [OF approval_step_prims] by (cases "creates op") auto

lemma approval_run_inv: "approval_run c ops am \<Longrightarrow> approvals_inv am \<and> am_config am = c"
proof (induction rule: approval_run.induct)
  case created
  then show ?case by (simp add: approvals_inv_def new_ApprovalManager_def)
next
  case (stepped ops am op)
  have "am_config (approval_step op am) = am_config am"
  proof (cases "creates op")
    case True
    then show ?thesis
      by (cases op) (auto simp: requestApproval_def createBatch_def Let_def)
  next
    case False
    from prims_fixes [OF approval_step_prims [OF this]] show ?thesis by simp
  qed
  with stepped show ?case by (simp add: approval_step_inv)
qed

section \<open>Who can approve\<close>

lemma prims_approved:
  "approval_prims D am am' \<Longrightarrow> approvals_inv am \<Longrightarrow>
     map_of (am_promises am') i = Some (Fulfilled True) \<Longrightarrow>
     map_of (am_promises am) i = Some (Fulfilled True) \<or> i \<in> D \<and> jhas (am_promises am) i"
proof (induction rule: rtranclp_induct)
  case (step am1 am2)
  have inv: "approvals_inv am1" using prims_inv step by blast
  have dom: "jhas (am_promises am1) i \<Longrightarrow> jhas (am_promises am) i"
    using prims_fixes [OF step(1)] by simp
  from step(2) show ?case
  proof (cases rule: approval_prim.cases)
    case (resolves j r r' c who now s b)
    have "ar_id r = j" by (rule approvals_invD(2) [OF inv resolves(2)])
    with resolves step dom show ?thesis by (auto split: if_splits)
  qed (use step in \<open>auto simp: jmap_simps split: if_splits\<close>)
qed simp

text \<open>
  C13.  An operation goes ahead only on an explicit approval: if the promise returned by
  \<^verbatim>\<open>requestApproval\<close> fulfils with \<^verbatim>\<open>true\<close>, then \<^verbatim>\<open>approve\<close> was called with the
  identifier of that very request.  Timeouts, clean-ups, denials, cancellations and batch
  decisions never let it through.
\<close>

theorem fulfilled_only_by_approve:
  assumes "approval_run c ops am" and "map_of (am_promises am) i = Some (Fulfilled True)"
  shows "\<exists>now who comment. Approve now i who comment \<in> set ops"
  using assms
proof (induction rule: approval_run.induct)
  case created
  then show ?case by (simp add: new_ApprovalManager_def)
next
  case (stepped ops am op)
  have inv: "approvals_inv am" using approval_run_inv [OF stepped(1)] by simp
  have "map_of (am_promises am) i = Some (Fulfilled True) \<or> (\<exists>now who comment. op = Approve now i who comment)"
  proof (cases "creates op")
    case True
    with stepped.prems show ?thesis
      by (cases op) (auto simp: requestApproval_def createBatch_def Let_def jmap_simps split: if_splits)
  next
    case False
    from prims_approved [OF approval_step_prims [OF False] inv stepped.prems] show ?thesis
      using approvals_invD(6) [OF inv, of i]
      by (cases op) (auto split: option.splits dest: jvaluesI simp del: set_map)
  qed
  with stepped.IH show ?case by auto
qed

definition demo_config :: ApprovalConfig where
  "demo_config = default_ApprovalConfig\<lparr>ac_maxPendingPerTenant := 1\<rparr>"

definition demo_ops :: "approval_op list" where
  "demo_ops = [RequestApproval 0 ''r'' ''rm'' ''why'' [] None (Some ''t'') None None,
     Approve 5 ''r'' (Some ''bob'') None]"

definition demo_manager :: ApprovalManager where
  "demo_manager = fold approval_step demo_ops (new_ApprovalManager demo_config)"

lemma demo_run: "approval_run demo_config demo_ops demo_manager"
proof -
  have "approval_run demo_config ([] @ [demo_ops ! 0]) (approval_step (demo_ops ! 0) (new_ApprovalManager demo_config))"
    by (rule approval_run.stepped [OF approval_run.created]) (simp add: demo_ops_def new_ApprovalManager_def)
  then have "approval_run demo_config (([] @ [demo_ops ! 0]) @ [demo_ops ! 1])
      (approval_step (demo_ops ! 1) (approval_step (demo_ops ! 0) (new_ApprovalManager demo_config)))"
    by (rule approval_run.stepped) (simp add: demo_ops_def)
  then show ?thesis by (simp add: demo_manager_def demo_ops_def)
qed

lemma demo_promise: "map_of (am_promises demo_manager) ''r'' = Some (Fulfilled True)"
  by code_simp

theorem fulfilled_only_by_approve_witness:
  "map_of (am_promises demo_manager) ''r'' = Some (Fulfilled True) \<and>
     (\<exists>now who comment. Approve now ''r'' who comment \<in> set demo_ops)"
  using fulfilled_only_by_approve [OF demo_run demo_promise] demo_promise by simp

section \<open>Promises and statuses\<close>

text \<open>
  Promises and requests stay consistent in every run: a stored request carries its
  own identifier and a resolution time exactly when it is resolved; a waiting promise has
  a stored pending request; a settled one has the value of its request's status
  (\<^verbatim>\<open>true\<close> exactly for \<^verbatim>\<open>APPROVED\<close>); a promise rejects by timeout only when
  \<^verbatim>\<open>autoDenyOnTimeout\<close> is off.
\<close>

theorem approvals_consistent:
  assumes "approval_run c ops am"
  shows "(case map_of (am_requests am) i of
       None \<Rightarrow> map_of (am_promises am) i \<noteq> Some AwaitingDecision
     | Some r \<Rightarrow> ar_id r = i \<and> (ar_status r = APending \<longleftrightarrow> ar_resolvedAt r = None) \<and>
         (case map_of (am_promises am) i of
            None \<Rightarrow> True
          | Some AwaitingDecision \<Rightarrow> ar_status r = APending
          | Some (Fulfilled b) \<Rightarrow> ar_status r \<noteq> APending \<and> (b \<longleftrightarrow> ar_status r = AApproved)
          | Some TimedOut \<Rightarrow> \<not> ac_autoDenyOnTimeout c))"
proof -
  have inv: "approvals_inv am" and c: "am_config am = c" using approval_run_inv [OF assms] by auto
  show ?thesis
    using approvals_invD(2-5) [OF inv, of i] c
    by (auto simp: promise_matches_def split: option.splits approval_promise.splits)
qed

theorem approvals_consistent_witness:
  "case map_of (am_requests demo_manager) ''r'' of
     None \<Rightarrow> False | Some r \<Rightarrow> ar_id r = ''r'' \<and> ar_status r = AApproved"
proof -
  have "jhas (am_requests demo_manager) ''r''" by code_simp
  then show ?thesis
    using approvals_consistent [OF demo_run, of "''r''"] demo_promise by (auto split: option.splits)
qed

section \<open>Resolutions are final\<close>

lemma prim_final:
  "approval_prim D am am' \<Longrightarrow> map_of (am_requests am) i = Some r \<Longrightarrow> ar_status r \<noteq> APending \<Longrightarrow>
     map_of (am_requests am') i = Some r \<or> map_of (am_requests am') i = None"
  by (erule approval_prim.cases) (auto simp: jmap_simps)

lemma prim_absent:
  "approval_prim D am am' \<Longrightarrow> map_of (am_requests am) i = None \<Longrightarrow> map_of (am_requests am') i = None"
  by (erule approval_prim.cases) (auto simp: jmap_simps)

lemma prims_final:
  "approval_prims D am am' \<Longrightarrow> map_of (am_requests am) i = Some r \<Longrightarrow> ar_status r \<noteq> APending \<Longrightarrow>
     map_of (am_requests am') i = Some r \<or> map_of (am_requests am') i = None"
  by (induction rule: rtranclp_induct) (auto dest: prim_final prim_absent)

text \<open>
  Resolutions are final: once a request is approved, denied, expired or cancelled,
  no operation changes any field of its record; the only thing that can still happen to
  it is removal.
\<close>

theorem resolution_final:
  assumes "map_of (am_requests am) i = Some r" and "ar_status r \<noteq> APending" and "fresh_op op am"
  shows "map_of (am_requests (approval_step op am)) i \<in> {Some r, None}"
proof (cases "creates op")
  case True
  with assms show ?thesis
  proof (cases op)
    case (CreateBatch now b items d q t)
    have "map_of items i = None"
    proof (rule ccontr)
      assume "map_of items i \<noteq> None"
      then obtain x where "(i, x) \<in> set items" by (auto dest: map_of_SomeD)
      with assms(1,3) CreateBatch show False by fastforce
    qed
    then show ?thesis
      using assms CreateBatch by (simp add: createBatch_def map_of_fold_jset)
  qed (auto simp: requestApproval_def Let_def jmap_simps)
next
  case False
  from prims_final [OF approval_step_prims [OF False] assms(1,2)] show ?thesis by simp
qed

theorem resolution_final_witness:
  "map_of (am_requests (approval_step (Deny 9 ''r'' None None) demo_manager)) ''r''
     \<in> {map_of (am_requests demo_manager) ''r'', None}"
proof -
  have "case map_of (am_requests demo_manager) ''r'' of None \<Rightarrow> False | Some r \<Rightarrow> ar_status r \<noteq> APending"
    by code_simp
  then obtain r where "map_of (am_requests demo_manager) ''r'' = Some r" and "ar_status r \<noteq> APending"
    by (auto split: option.splits)
  then show ?thesis using resolution_final [of demo_manager "''r''" r "Deny 9 ''r'' None None"] by simp
qed

section \<open>The limit on pending requests\<close>

definition pending_of :: "string \<Rightarrow> (string, ApprovalRequest) jsmap \<Rightarrow> nat" where
  "pending_of t m = length (filter (\<lambda>r. ar_status r = APending \<and> ar_tenantId r = Some t) (jvalues m))"

lemma pending_of_getPendingRequests:
  "t \<noteq> [] \<Longrightarrow> length (getPendingRequests (Some t) am) = pending_of t (am_requests am)"
  by (simp add: getPendingRequests_def pending_of_def tenant_matches_def)

lemma pending_of_add:
  "\<not> jhas m i \<Longrightarrow> pending_of t (jset i x m) =
     pending_of t m + (if ar_status x = APending \<and> ar_tenantId x = Some t then 1 else 0)"
  by (induction m) (auto simp: pending_of_def split: if_splits)

lemma pending_of_resolved:
  "ar_status x \<noteq> APending \<Longrightarrow> pending_of t (jset i x m) \<le> pending_of t m"
  by (induction m) (auto simp: pending_of_def le_SucI)

lemma pending_of_delete: "pending_of t (jdelete i m) \<le> pending_of t m"
  by (induction m) (auto simp: pending_of_def le_SucI)

lemma prims_pending: "approval_prims D am am' \<Longrightarrow> pending_of t (am_requests am') \<le> pending_of t (am_requests am)"
proof (induction rule: rtranclp_induct)
  case (step am1 am2)
  from step(2) have "pending_of t (am_requests am2) \<le> pending_of t (am_requests am1)"
    by (cases rule: approval_prim.cases) (auto intro: pending_of_resolved pending_of_delete)
  with step show ?case by simp
qed simp

fun is_batch_creation :: "approval_op \<Rightarrow> bool" where
  "is_batch_creation (CreateBatch now b items d q t) \<longleftrightarrow> True"
| "is_batch_creation _ \<longleftrightarrow> False"

text \<open>
  The limit on pending requests holds in every run that creates no batches: no
  tenant ever has more pending requests than \<^verbatim>\<open>maxPendingPerTenant\<close>.
\<close>

theorem pending_limit_respected:
  assumes "approval_run c ops am" and "list_all (\<lambda>op. \<not> is_batch_creation op) ops" and "t \<noteq> []"
  shows "int (length (getPendingRequests (Some t) am)) \<le> max 0 (pending_limit c)"
proof -
  have "int (pending_of t (am_requests am)) \<le> max 0 (pending_limit c)"
    using assms(1,2)
  proof (induction rule: approval_run.induct)
    case created
    then show ?case by (simp add: pending_of_def new_ApprovalManager_def)
  next
    case (stepped ops am op)
    then have IH: "int (pending_of t (am_requests am)) \<le> max 0 (pending_limit c)"
      and nb: "\<not> is_batch_creation op" by simp_all
    show ?case
    proof (cases "creates op")
      case False
      with prims_pending [OF approval_step_prims [OF False], of t am] IH show ?thesis by simp
    next
      case True
      with nb obtain now i o' r d q tn tmo m where op: "op = RequestApproval now i o' r d q tn tmo m"
        by (cases op) auto
      have cfg: "am_config am = c" using approval_run_inv [OF stepped(1)] by simp
      show ?thesis
        using op stepped(2) IH assms(3) cfg
        by (cases rule: requestApproval_result [of now i o' r d q tn tmo m am])
           (auto simp: pending_of_add checkTenantLimit_def pending_of_getPendingRequests)
    qed
  qed
  then show ?thesis by (simp add: pending_of_getPendingRequests [OF assms(3)])
qed

theorem pending_limit_respected_witness:
  "int (length (getPendingRequests (Some ''t'') demo_manager)) \<le> 1"
  using pending_limit_respected [OF demo_run, of "''t''"]
  by (simp add: demo_ops_def demo_config_def pending_limit_def)

definition demo_batch :: "approval_op list" where
  "demo_batch = [CreateBatch 0 ''b'' [(''p'', \<lparr>bi_operation = ''x'', bi_reason = ''y'', bi_details = []\<rparr>),
     (''q'', \<lparr>bi_operation = ''x'', bi_reason = ''y'', bi_details = []\<rparr>)] ''d'' None (Some ''t'')]"

text \<open>
  Batches are not subject to that limit: a single \<^verbatim>\<open>createBatch\<close> takes a tenant
  beyond \<^verbatim>\<open>maxPendingPerTenant\<close>.
\<close>

theorem createBatch_bypasses_limit:
  "\<exists>c ops am t. approval_run c ops am \<and> t \<noteq> [] \<and>
     int (length (getPendingRequests (Some t) am)) > max 0 (pending_limit c)"
proof (intro exI conjI)
  have "approval_run demo_config ([] @ [hd demo_batch])
      (approval_step (hd demo_batch) (new_ApprovalManager demo_config))"
    by (rule approval_run.stepped [OF approval_run.created]) (simp add: demo_batch_def new_ApprovalManager_def)
  then show "approval_run demo_config demo_batch (approval_step (hd demo_batch) (new_ApprovalManager demo_config))"
    by (simp add: demo_batch_def)
  show "max 0 (pending_limit demo_config) < int (length (getPendingRequests (Some ''t'')
      (approval_step (hd demo_batch) (new_ApprovalManager demo_config))))"
    by code_simp
qed simp

section \<open>Batch decisions\<close>

definition pending_in :: "ApprovalManager \<Rightarrow> string \<Rightarrow> bool" where
  "pending_in am i = (case map_of (am_requests am) i of None \<Rightarrow> False | Some r \<Rightarrow> ar_status r = APending)"

lemma approve_spec:
  "map_of (am_requests (fst (approve now i who c am))) j =
     (case map_of (am_requests am) j of
        None \<Rightarrow> None
      | Some r \<Rightarrow> Some (if j = i \<and> ar_status r = APending then resolve_request AApproved now who c r else r))"
  "snd (approve now i who c am) = pending_in am i"
  by (auto simp: approve_def pending_in_def jmap_simps split: option.splits)

lemma approve_all_spec:
  "map_of (am_requests (fst (approve_all now who c is am))) j =
     (case map_of (am_requests am) j of
        None \<Rightarrow> None
      | Some r \<Rightarrow> Some (if j \<in> set is \<and> ar_status r = APending then resolve_request AApproved now who c r else r)) \<and>
   snd (approve_all now who c is am) = card {i \<in> set is. pending_in am i}"
proof (induction "is" arbitrary: am)
  case Nil
  then show ?case by (simp split: option.split)
next
  case (Cons i "is")
  let ?am = "fst (approve now i who c am)"
  have "pending_in ?am j \<longleftrightarrow> j \<noteq> i \<and> pending_in am j" for j
    by (auto simp: pending_in_def approve_spec(1) resolve_request_def split: option.split)
  then have "{j \<in> set is. pending_in ?am j} = {j \<in> set (i # is). pending_in am j} - {i}" by auto
  moreover have "i \<in> {j \<in> set (i # is). pending_in am j} \<longleftrightarrow> pending_in am i" by simp
  ultimately have "(if pending_in am i then card {j \<in> set is. pending_in ?am j} + 1
      else card {j \<in> set is. pending_in ?am j}) = card {j \<in> set (i # is). pending_in am j}"
    using card_Suc_Diff1 [of "{j \<in> set (i # is). pending_in am j}" i] by (simp del: set_simps)
  with Cons [of ?am] show ?case
    by (auto simp: case_prod_unfold Let_def approve_spec resolve_request_def split: option.split)
qed

text \<open>
  \<^verbatim>\<open>approveBatch\<close> approves exactly the requests of the batch that are still
  pending, records the approver on each, touches no other request, and returns their
  number; an unknown batch changes nothing.
\<close>

theorem approveBatch_correct:
  "case map_of (am_batches am) b of
     None \<Rightarrow> approveBatch now b who c am = (am, 0)
   | Some batch \<Rightarrow>
       snd (approveBatch now b who c am) = card {i \<in> set (ab_requests batch). pending_in am i} \<and>
       map_of (am_requests (fst (approveBatch now b who c am))) j =
         (case map_of (am_requests am) j of
            None \<Rightarrow> None
          | Some r \<Rightarrow> Some (if j \<in> set (ab_requests batch) \<and> ar_status r = APending
              then r\<lparr>ar_status := AApproved, ar_resolvedAt := Some now, ar_resolvedBy := who,
                ar_resolutionComment := c\<rparr>
              else r))"
  by (auto simp: approveBatch_def approve_all_spec resolve_request_def split: option.split)

section \<open>Shutdown\<close>

definition stranded :: "string \<Rightarrow> ApprovalManager \<Rightarrow> bool" where
  "stranded i am \<longleftrightarrow> map_of (am_requests am) i = None \<and>
     map_of (am_promises am) i = Some AwaitingDecision \<and>
     (\<forall>k r. map_of (am_requests am) k = Some r \<longrightarrow> ar_id r = k)"

fun created_ids :: "approval_op \<Rightarrow> string set" where
  "created_ids (RequestApproval now i o' r d q t tmo m) = {i}"
| "created_ids (CreateBatch now b items d q t) = fst ` set items"
| "created_ids _ = {}"

lemma prim_stranded: "approval_prim D am am' \<Longrightarrow> stranded i am \<Longrightarrow> stranded i am'"
  by (erule approval_prim.cases) (auto simp: stranded_def jmap_simps split: if_splits)

lemma prims_stranded: "approval_prims D am am' \<Longrightarrow> stranded i am \<Longrightarrow> stranded i am'"
  by (induction rule: rtranclp_induct) (auto dest: prim_stranded)

lemma batch_stranded:
  "i \<notin> fst ` set items \<Longrightarrow> stranded i am \<Longrightarrow>
     stranded i (am\<lparr>am_requests :=
       fold (\<lambda>(j, b). jset j (batch_request now q t j b)) items (am_requests am), am_batches := bs\<rparr>)"
proof (induction items arbitrary: am)
  case (Cons x items)
  let ?am = "am\<lparr>am_requests := jset (fst x) (batch_request now q t (fst x) (snd x)) (am_requests am)\<rparr>"
  have "stranded i ?am"
    using Cons.prems by (auto simp: stranded_def jmap_simps batch_request_def)
  with Cons.IH [of ?am] Cons.prems show ?case by (simp add: case_prod_unfold)
qed (simp add: stranded_def)

lemma step_stranded: "i \<notin> created_ids op \<Longrightarrow> stranded i am \<Longrightarrow> stranded i (approval_step op am)"
proof (cases "creates op")
  case True
  assume *: "i \<notin> created_ids op" "stranded i am"
  from True show ?thesis
  proof (cases op)
    case (RequestApproval now k o' r d q t tmo m)
    with * show ?thesis
      by (cases rule: requestApproval_result [of now k o' r d q t tmo m am])
         (auto simp: stranded_def jmap_simps)
  next
    case (CreateBatch now b items d q t)
    with * show ?thesis by (simp add: createBatch_def batch_stranded)
  qed simp_all
qed (auto intro: prims_stranded approval_step_prims)

text \<open>
  \<^verbatim>\<open>shutdown\<close> strands its waiting callers: it empties the request map without
  settling the promises, so a promise that was waiting then is never settled by any later
  sequence of operations, its own timeout included.
\<close>

theorem shutdown_strands_promises:
  assumes "map_of (am_promises am) i = Some AwaitingDecision"
    and "list_all (\<lambda>op. i \<notin> created_ids op) ops"
  shows "map_of (am_promises (fold approval_step ops (shutdown_approvals am))) i = Some AwaitingDecision"
proof -
  have "stranded i (shutdown_approvals am)"
    using assms(1) by (simp add: stranded_def shutdown_approvals_def)
  then have "stranded i (fold approval_step ops (shutdown_approvals am))"
    using assms(2) by (induction ops arbitrary: am rule: rev_induct) (auto intro: step_stranded)
  then show ?thesis by (simp add: stranded_def)
qed

theorem shutdown_strands_promises_witness:
  "map_of (am_promises (fold approval_step [Timeout 300000 ''r'', Approve 300001 ''r'' None None]
     (shutdown_approvals (approval_step (hd demo_ops) (new_ApprovalManager demo_config))))) ''r''
   = Some AwaitingDecision"
  by (rule shutdown_strands_promises) code_simp+

end
