(* ===== verification/Message_Bus.thy ===== *)
theory Message_Bus
  imports Prelude
begin

text \<open>
  The in-memory message bus of \<^verbatim>\<open>services/orchestrator/src/agents/AgentCommunication.ts\<close>:
  agent registration, sending to one, several or all agents, the priority queues, the
  asynchronous delivery loop with its per-agent lock and retries, and the
  request/response pattern.  Envelopes are objects that the code finds again by identity
  (\<^verbatim>\<open>queue.indexOf(envelope)\<close>); \<open>ev_key\<close> is that identity.  A delivery loop that is
  awaiting a handler is an entry of \<open>mb_deliveries\<close>, which plays the role of
  \<^verbatim>\<open>deliveryLocks\<close> and carries the captured list \<^verbatim>\<open>toDeliver\<close> and handler table.  A
  promise of \<^verbatim>\<open>request\<close> is an entry of \<open>mb_requests\<close>; \<^verbatim>\<open>pendingRequests\<close> has exactly its
  pending entries.  The average latency is not modelled.
\<close>

section \<open>Messages\<close>

datatype MessageType = REQUEST | RESPONSE | NOTIFICATION | BROADCAST | ERROR

datatype MessagePriority = LOW | NORMAL | HIGH | URGENT

fun priority_value :: "MessagePriority \<Rightarrow> nat" where
  "priority_value LOW = 0"
| "priority_value NORMAL = 1"
| "priority_value HIGH = 2"
| "priority_value URGENT = 3"

text \<open>The numeric enumeration orders priorities.\<close>

instantiation MessagePriority :: linorder
begin

definition less_eq_MessagePriority :: "MessagePriority \<Rightarrow> MessagePriority \<Rightarrow> bool" where
  "less_eq_MessagePriority x y \<longleftrightarrow> priority_value x \<le> priority_value y"

definition less_MessagePriority :: "MessagePriority \<Rightarrow> MessagePriority \<Rightarrow> bool" where
  "less_MessagePriority x y \<longleftrightarrow> priority_value x < priority_value y"

instance
proof
  fix x y z :: MessagePriority
  show "x < y \<longleftrightarrow> x \<le> y \<and> \<not> y \<le> x" by (auto simp: less_eq_MessagePriority_def less_MessagePriority_def)
  show "x \<le> x" by (simp add: less_eq_MessagePriority_def)
  show "x \<le> y \<Longrightarrow> y \<le> z \<Longrightarrow> x \<le> z" by (simp add: less_eq_MessagePriority_def)
  show "x \<le> y \<Longrightarrow> y \<le> x \<Longrightarrow> x = y" by (cases x; cases y) (simp_all add: less_eq_MessagePriority_def)
  show "x \<le> y \<or> y \<le> x" by (auto simp: less_eq_MessagePriority_def)
qed

end

datatype Recipient = ToOne string | ToMany "string list"

record Message =
  ms_id :: string
  ms_type :: MessageType
  ms_from :: string
  ms_to :: "Recipient option"
  ms_payload :: json
  ms_priority :: MessagePriority
  ms_correlationId :: "string option"
  ms_timestamp :: time
  ms_ttl :: "int option"
  ms_metadata :: "(string, json) jsmap option"

record MessageEnvelope =
  ev_key :: nat
  ev_message :: Message
  ev_deliveredAt :: "time option"
  ev_expiresAt :: "time option"
  ev_retries :: nat

record MessageBusConfig =
  bc_maxQueueSize :: int
  bc_defaultTtl :: int
  bc_cleanupInterval :: int
  bc_maxRetries :: nat
  bc_enableMetrics :: bool

definition DEFAULT_MESSAGE_BUS_CONFIG :: MessageBusConfig where
  "DEFAULT_MESSAGE_BUS_CONFIG = \<lparr>bc_maxQueueSize = 10000, bc_defaultTtl = 5 * 60 * 1000,
     bc_cleanupInterval = 60 * 1000, bc_maxRetries = 3, bc_enableMetrics = True\<rparr>"

record MessageBusMetrics =
  mm_messagesSent :: nat
  mm_messagesDelivered :: nat
  mm_messagesFailed :: nat
  mm_messagesExpired :: nat
  mm_queueSizes :: "(string, nat) jsmap"

datatype request_state = RPending | RResolved json | RRejected string

record Delivery =
  dl_remaining :: "MessageEnvelope list"
  dl_handlers :: "MessageType list"

record MessageBus =
  mb_config :: MessageBusConfig
  mb_queues :: "(string, MessageEnvelope list) jsmap"
  mb_handlers :: "(string, MessageType list) jsmap"
  mb_requests :: "(string, request_state) jsmap"
  mb_metrics :: MessageBusMetrics
  mb_deliveries :: "(string, Delivery) jsmap"
  mb_nextKey :: nat

datatype SendError = NotRegistered string | QueueFull string | NoRecipient

definition new_MessageBus :: "MessageBusConfig \<Rightarrow> MessageBus" where
  "new_MessageBus c = \<lparr>mb_config = c, mb_queues = [], mb_handlers = [], mb_requests = [],
     mb_metrics = \<lparr>mm_messagesSent = 0, mm_messagesDelivered = 0, mm_messagesFailed = 0,
       mm_messagesExpired = 0, mm_queueSizes = []\<rparr>,
     mb_deliveries = [], mb_nextKey = 0\<rparr>"

section \<open>Registration\<close>

definition registerAgent :: "string \<Rightarrow> MessageBus \<Rightarrow> MessageBus" where
  "registerAgent a mb =
     (if jhas (mb_queues mb) a then mb
      else mb\<lparr>mb_queues := jset a [] (mb_queues mb), mb_handlers := jset a [] (mb_handlers mb)\<rparr>)"

definition unregisterAgent :: "string \<Rightarrow> MessageBus \<Rightarrow> MessageBus" where
  "unregisterAgent a mb =
     mb\<lparr>mb_queues := jdelete a (mb_queues mb), mb_handlers := jdelete a (mb_handlers mb)\<rparr>"

definition bus_registerHandler :: "string \<Rightarrow> MessageType \<Rightarrow> MessageBus \<Rightarrow> MessageBus" where
  "bus_registerHandler a t mb =
     (let mb1 = (if jhas (mb_handlers mb) a then mb else registerAgent a mb)
      in mb1\<lparr>mb_handlers := jmodify a (List.insert t) (mb_handlers mb1)\<rparr>)"

section \<open>Sending\<close>

fun insertByPriority :: "MessageEnvelope list \<Rightarrow> MessageEnvelope \<Rightarrow> MessageEnvelope list" where
  "insertByPriority [] e = [e]"
| "insertByPriority (q # qs) e =
     (if ms_priority (ev_message e) > ms_priority (ev_message q)
      then e # q # qs
      else q # insertByPriority qs e)"

definition fail_metric :: "MessageBus \<Rightarrow> MessageBus" where
  "fail_metric mb = mb\<lparr>mb_metrics := (mb_metrics mb)
     \<lparr>mm_messagesFailed := mm_messagesFailed (mb_metrics mb) + 1\<rparr>\<rparr>"

text \<open>\<^verbatim>\<open>message.ttl ? ... : defaultTtl\<close>: a time-to-live of zero counts as absent.\<close>

definition effective_ttl :: "Message \<Rightarrow> MessageBus \<Rightarrow> int" where
  "effective_ttl m mb =
     (case ms_ttl m of None \<Rightarrow> bc_defaultTtl (mb_config mb)
      | Some t \<Rightarrow> if t = 0 then bc_defaultTtl (mb_config mb) else t)"

definition sendToOne :: "time \<Rightarrow> Message \<Rightarrow> string \<Rightarrow> MessageBus \<Rightarrow> MessageBus \<times> (SendError + string)" where
  "sendToOne now m r mb =
     (case map_of (mb_queues mb) r of
        None \<Rightarrow> (fail_metric mb, Inl (NotRegistered r))
      | Some queue \<Rightarrow>
          if int (length queue) \<ge> bc_maxQueueSize (mb_config mb)
          then (fail_metric mb, Inl (QueueFull r))
          else (mb\<lparr>mb_queues := jset r (insertByPriority queue
                    \<lparr>ev_key = mb_nextKey mb, ev_message = m, ev_deliveredAt = None,
                     ev_expiresAt = Some (now + effective_ttl m mb), ev_retries = 0\<rparr>) (mb_queues mb),
                  mb_nextKey := mb_nextKey mb + 1\<rparr>,
                Inr (ms_id m)))"

text \<open>Every recipient is attempted; the first failure rejects the whole send.\<close>

fun sendToMultiple ::
  "time \<Rightarrow> Message \<Rightarrow> string list \<Rightarrow> MessageBus \<Rightarrow> MessageBus \<times> (SendError + string)" where
  "sendToMultiple now m [] mb = (mb, Inr (ms_id m))"
| "sendToMultiple now m (r # rs) mb =
     (let (mb1, res1) = sendToOne now (m\<lparr>ms_to := Some (ToOne r)\<rparr>) r mb;
          (mb2, res2) = sendToMultiple now m rs mb1
      in (mb2, case res1 of Inl e \<Rightarrow> Inl e | Inr _ \<Rightarrow> res2))"

text \<open>The loop of \<^verbatim>\<open>broadcast\<close> stops at the first failure.\<close>

fun broadcast_loop ::
  "time \<Rightarrow> Message \<Rightarrow> string list \<Rightarrow> MessageBus \<Rightarrow> MessageBus \<times> (SendError + string)" where
  "broadcast_loop now m [] mb = (mb, Inr (ms_id m))"
| "broadcast_loop now m (r # rs) mb =
     (case sendToOne now (m\<lparr>ms_to := Some (ToOne r)\<rparr>) r mb of
        (mb1, Inl e) \<Rightarrow> (mb1, Inl e)
      | (mb1, Inr _) \<Rightarrow> broadcast_loop now m rs mb1)"

definition broadcast :: "time \<Rightarrow> Message \<Rightarrow> MessageBus \<Rightarrow> MessageBus \<times> (SendError + string)" where
  "broadcast now m mb =
     broadcast_loop now m (filter (\<lambda>a. a \<noteq> ms_from m) (jkeys (mb_queues mb))) mb"

text \<open>\<^verbatim>\<open>send\<close>; the caller's message comes with its generated identifier and timestamp.\<close>

definition bus_send :: "time \<Rightarrow> Message \<Rightarrow> MessageBus \<Rightarrow> MessageBus \<times> (SendError + string)" where
  "bus_send now m mb =
     (let mb1 = mb\<lparr>mb_metrics := (mb_metrics mb)
                 \<lparr>mm_messagesSent := mm_messagesSent (mb_metrics mb) + 1\<rparr>\<rparr>
      in if ms_type m = BROADCAST then broadcast now m mb1
         else case ms_to m of
                Some (ToMany rs) \<Rightarrow> sendToMultiple now m rs mb1
              | Some (ToOne r) \<Rightarrow> if r = [] then (mb1, Inl NoRecipient) else sendToOne now m r mb1
              | None \<Rightarrow> (mb1, Inl NoRecipient))"

section \<open>Requests and responses\<close>

definition settle_request :: "string \<Rightarrow> request_state \<Rightarrow> MessageBus \<Rightarrow> MessageBus" where
  "settle_request c s mb =
     mb\<lparr>mb_requests := jmodify c (\<lambda>p. if p = RPending then s else p) (mb_requests mb)\<rparr>"

definition bus_request ::
  "time \<Rightarrow> string \<Rightarrow> string \<Rightarrow> string \<Rightarrow> string \<Rightarrow> json \<Rightarrow> MessageBus \<Rightarrow> MessageBus \<times> (SendError + string)" where
  "bus_request now c mid from to payload mb =
     bus_send now \<lparr>ms_id = mid, ms_type = REQUEST, ms_from = from, ms_to = Some (ToOne to),
       ms_payload = payload, ms_priority = NORMAL, ms_correlationId = Some c, ms_timestamp = now,
       ms_ttl = None, ms_metadata = None\<rparr>
       (mb\<lparr>mb_requests := jset c RPending (mb_requests mb)\<rparr>)"

definition request_timeout :: "string \<Rightarrow> MessageBus \<Rightarrow> MessageBus" where
  "request_timeout c mb = settle_request c (RRejected ''Request timeout'') mb"

definition sendResponse ::
  "time \<Rightarrow> string \<Rightarrow> Message \<Rightarrow> json \<Rightarrow> MessageBus \<Rightarrow> MessageBus \<times> (SendError + unit)" where
  "sendResponse now mid req result mb =
     (case ms_correlationId req of
        None \<Rightarrow> (mb, Inr ())
      | Some c \<Rightarrow>
          if c = [] then (mb, Inr ()) else
          (case bus_send now \<lparr>ms_id = mid, ms_type = RESPONSE,
                  ms_from = (case ms_to req of Some (ToOne r) \<Rightarrow> r | _ \<Rightarrow> []),
                  ms_to = Some (ToOne (ms_from req)),
                  ms_payload = JObj [(''type'', JStr ''result''), (''result'', result), (''success'', JBool True)],
                  ms_priority = ms_priority req, ms_correlationId = Some c, ms_timestamp = now,
                  ms_ttl = None, ms_metadata = None\<rparr> mb of
             (mb1, Inl e) \<Rightarrow> (mb1, Inl e)
           | (mb1, Inr _) \<Rightarrow> (settle_request c (RResolved result) mb1, Inr ())))"

definition sendErrorResponse ::
  "time \<Rightarrow> string \<Rightarrow> Message \<Rightarrow> string \<Rightarrow> MessageBus \<Rightarrow> MessageBus \<times> (SendError + unit)" where
  "sendErrorResponse now mid req err mb =
     (case ms_correlationId req of
        None \<Rightarrow> (mb, Inr ())
      | Some c \<Rightarrow>
          if c = [] then (mb, Inr ()) else
          (case bus_send now \<lparr>ms_id = mid, ms_type = ERROR,
                  ms_from = (case ms_to req of Some (ToOne r) \<Rightarrow> r | _ \<Rightarrow> []),
                  ms_to = Some (ToOne (ms_from req)),
                  ms_payload = JObj [(''type'', JStr ''error''), (''error'', JStr err)],
                  ms_priority = HIGH, ms_correlationId = Some c, ms_timestamp = now,
                  ms_ttl = None, ms_metadata = None\<rparr> mb of
             (mb1, Inl e) \<Rightarrow> (mb1, Inl e)
           | (mb1, Inr _) \<Rightarrow> (settle_request c (RRejected err) mb1, Inr ())))"

section \<open>Delivery\<close>

definition unexpired :: "time \<Rightarrow> MessageEnvelope \<Rightarrow> bool" where
  "unexpired now e \<longleftrightarrow> (case ev_expiresAt e of None \<Rightarrow> True | Some t \<Rightarrow> now < t)"

definition remove_envelope :: "string \<Rightarrow> nat \<Rightarrow> MessageBus \<Rightarrow> MessageBus" where
  "remove_envelope a k mb =
     mb\<lparr>mb_queues := jmodify a (filter (\<lambda>e. ev_key e \<noteq> k)) (mb_queues mb)\<rparr>"

definition update_envelope :: "string \<Rightarrow> nat \<Rightarrow> (MessageEnvelope \<Rightarrow> MessageEnvelope) \<Rightarrow> MessageBus \<Rightarrow> MessageBus" where
  "update_envelope a k f mb =
     mb\<lparr>mb_queues := jmodify a (map (\<lambda>e. if ev_key e = k then f e else e)) (mb_queues mb)\<rparr>"

text \<open>The end of \<^verbatim>\<open>performDelivery\<close> and the release of the lock.\<close>

definition finish_delivery :: "string \<Rightarrow> MessageBus \<Rightarrow> MessageBus" where
  "finish_delivery a mb =
     (let mb1 = mb\<lparr>mb_deliveries := jdelete a (mb_deliveries mb)\<rparr>
      in if bc_enableMetrics (mb_config mb)
         then mb1\<lparr>mb_metrics := (mb_metrics mb)\<lparr>mm_queueSizes :=
                jset a (length (jget_or [] (mb_queues mb) a)) (mm_queueSizes (mb_metrics mb))\<rparr>\<rparr>
         else mb1)"

text \<open>The \<^verbatim>\<open>for\<close> loop up to the next handler call: envelopes without a handler are skipped.\<close>

definition next_delivery :: "time \<Rightarrow> string \<Rightarrow> Delivery \<Rightarrow> MessageBus \<Rightarrow> MessageBus" where
  "next_delivery now a d mb =
     (case dropWhile (\<lambda>e. ms_type (ev_message e) \<notin> set (dl_handlers d)) (dl_remaining d) of
        [] \<Rightarrow> finish_delivery a mb
      | e # es \<Rightarrow>
          update_envelope a (ev_key e) (\<lambda>x. x\<lparr>ev_deliveredAt := Some now\<rparr>)
            (mb\<lparr>mb_deliveries := jset a (d\<lparr>dl_remaining := e\<lparr>ev_deliveredAt := Some now\<rparr> # es\<rparr>)
                (mb_deliveries mb)\<rparr>))"

text \<open>\<^verbatim>\<open>deliverMessages\<close>; a call that finds a lock waits for it and starts again.\<close>

definition deliverMessages :: "time \<Rightarrow> string \<Rightarrow> MessageBus \<Rightarrow> MessageBus" where
  "deliverMessages now a mb =
     (if jhas (mb_deliveries mb) a then mb
      else case (map_of (mb_queues mb) a, map_of (mb_handlers mb) a) of
             (Some queue, Some hs) \<Rightarrow>
               if queue = [] then mb
               else next_delivery now a \<lparr>dl_remaining = filter (unexpired now) queue, dl_handlers = hs\<rparr> mb
           | _ \<Rightarrow> mb)"

text \<open>The \<^verbatim>\<open>catch\<close> branch for envelope \<open>e\<close>: \<open>Inl\<close> when the error response itself throws,
  which ends \<^verbatim>\<open>performDelivery\<close>.\<close>

definition delivery_failed ::
  "time \<Rightarrow> string \<Rightarrow> string \<Rightarrow> MessageEnvelope \<Rightarrow> string \<Rightarrow> MessageBus \<Rightarrow> MessageBus \<times> (SendError + unit)" where
  "delivery_failed now mid a e err mb =
     (if ev_retries e + 1 > bc_maxRetries (mb_config mb)
      then let mb1 = remove_envelope a (ev_key e) (fail_metric mb)
           in if ms_type (ev_message e) = REQUEST
              then sendErrorResponse now mid (ev_message e) err mb1
              else (mb1, Inr ())
      else (update_envelope a (ev_key e) (\<lambda>x. x\<lparr>ev_retries := ev_retries e + 1\<rparr>) mb, Inr ()))"

text \<open>The handler call for the head of a delivery settles.\<close>

definition continue_delivery ::
  "time \<Rightarrow> string \<Rightarrow> Delivery \<Rightarrow> MessageEnvelope list \<Rightarrow> MessageBus \<times> (SendError + unit) \<Rightarrow> MessageBus" where
  "continue_delivery now a d es res =
     (case res of
        (mb, Inl _) \<Rightarrow> mb\<lparr>mb_deliveries := jdelete a (mb_deliveries mb)\<rparr>
      | (mb, Inr _) \<Rightarrow> next_delivery now a (d\<lparr>dl_remaining := es\<rparr>) mb)"

definition handler_rejected :: "time \<Rightarrow> string \<Rightarrow> string \<Rightarrow> string \<Rightarrow> MessageBus \<Rightarrow> MessageBus" where
  "handler_rejected now mid a err mb =
     (case map_of (mb_deliveries mb) a of
        Some d \<Rightarrow>
          (case dl_remaining d of
             [] \<Rightarrow> mb
           | e # es \<Rightarrow> continue_delivery now a d es (delivery_failed now mid a e err mb))
      | None \<Rightarrow> mb)"

definition send_error_text :: "SendError \<Rightarrow> string" where
  "send_error_text e =
     (case e of
        NotRegistered a \<Rightarrow> ''Agent '' @ a @ '' not registered''
      | QueueFull a \<Rightarrow> ''Queue full for agent '' @ a
      | NoRecipient \<Rightarrow> ''Message must have a recipient or be a broadcast'')"

definition handler_fulfilled :: "time \<Rightarrow> string \<Rightarrow> string \<Rightarrow> json option \<Rightarrow> MessageBus \<Rightarrow> MessageBus" where
  "handler_fulfilled now mid a result mb =
     (case map_of (mb_deliveries mb) a of
        Some d \<Rightarrow>
          (case dl_remaining d of
             [] \<Rightarrow> mb
           | e # es \<Rightarrow>
               let mb1 = remove_envelope a (ev_key e) (mb\<lparr>mb_metrics := (mb_metrics mb)
                     \<lparr>mm_messagesDelivered := mm_messagesDelivered (mb_metrics mb) + 1\<rparr>\<rparr>)
               in case (ms_type (ev_message e), result) of
                    (REQUEST, Some r) \<Rightarrow>
                      (case sendResponse now mid (ev_message e) r mb1 of
                         (mb2, Inr _) \<Rightarrow> continue_delivery now a d es (mb2, Inr ())
                       | (mb2, Inl x) \<Rightarrow> continue_delivery now a d es
                           (delivery_failed now mid a e (send_error_text x) mb2))
                  | _ \<Rightarrow> continue_delivery now a d es (mb1, Inr ()))
      | None \<Rightarrow> mb)"

section \<open>Clean-up and shutdown\<close>

definition cleanupExpiredMessages :: "time \<Rightarrow> MessageBus \<Rightarrow> MessageBus" where
  "cleanupExpiredMessages now mb =
     mb\<lparr>mb_queues := map (\<lambda>(a, q). (a, filter (unexpired now) q)) (mb_queues mb),
        mb_metrics := (mb_metrics mb)\<lparr>mm_messagesExpired := mm_messagesExpired (mb_metrics mb) +
          (\<Sum>(a, q)\<leftarrow>mb_queues mb. length (filter (\<lambda>e. \<not> unexpired now e) q))\<rparr>\<rparr>"

definition shutdown_bus :: "MessageBus \<Rightarrow> MessageBus" where
  "shutdown_bus mb = mb\<lparr>mb_requests :=
     map (\<lambda>(c, s). (c, if s = RPending then RRejected ''Message bus shutting down'' else s)) (mb_requests mb)\<rparr>"

definition getQueueSize :: "string \<Rightarrow> MessageBus \<Rightarrow> nat" where
  "getQueueSize a mb = length (jget_or [] (mb_queues mb) a)"

definition getRegisteredAgents :: "MessageBus \<Rightarrow> string list" where
  "getRegisteredAgents mb = jkeys (mb_queues mb)"

section \<open>Steps\<close>

inductive bus_step :: "MessageBus \<Rightarrow> MessageBus \<Rightarrow> bool" where
  "bus_step mb (registerAgent a mb)"
| "bus_step mb (unregisterAgent a mb)"
| "bus_step mb (bus_registerHandler a t mb)"
| "bus_step mb (fst (bus_send now m mb))"
| "\<not> jhas (mb_requests mb) c \<Longrightarrow> bus_step mb (fst (bus_request now c mid from to payload mb))"
| "bus_step mb (request_timeout c mb)"
| "bus_step mb (deliverMessages now a mb)"
| "bus_step mb (handler_fulfilled now mid a result mb)"
| "bus_step mb (handler_rejected now mid a err mb)"
| "bus_step mb (cleanupExpiredMessages now mb)"
| "bus_step mb (shutdown_bus mb)"

inductive bus_reach :: "MessageBusConfig \<Rightarrow> MessageBus \<Rightarrow> bool" for c where
  bus_created: "bus_reach c (new_MessageBus c)"
| bus_stepped: "bus_reach c mb \<Longrightarrow> bus_step mb mb' \<Longrightarrow> bus_reach c mb'"

end
