(* ===== verification/Bus_Properties.thy ===== *)
theory Bus_Properties
  imports Message_Bus
begin

text \<open>
  Properties of the message bus: the order and the bound of the queues in every reachable
  state, the bound on redeliveries, the recipients of a broadcast, the finality of a
  request's outcome, and the loss of the response to a requester that is not registered.
\<close>

section \<open>Queues\<close>

abbreviation prio :: "MessageEnvelope \<Rightarrow> MessagePriority" where
  "prio e \<equiv> ms_priority (ev_message e)"

text \<open>Higher priority first, and arrival order within a priority.\<close>

definition served_before :: "MessageEnvelope \<Rightarrow> MessageEnvelope \<Rightarrow> bool" where
  "served_before x y \<longleftrightarrow> prio x > prio y \<or> prio x = prio y \<and> ev_key x < ev_key y"

definition queue_ok :: "MessageBusConfig \<Rightarrow> nat \<Rightarrow> MessageEnvelope list \<Rightarrow> bool" where
  "queue_ok c n q \<longleftrightarrow> sorted_wrt served_before q \<and> int (length q) \<le> max 0 (bc_maxQueueSize c) \<and>
     (\<forall>e\<in>set q. ev_key e < n \<and> ev_retries e \<le> bc_maxRetries c)"

lemma set_insertByPriority [simp]: "set (insertByPriority q e) = insert e (set q)"
  by (induction q) auto

lemma length_insertByPriority [simp]: "length (insertByPriority q e) = Suc (length q)"
  by (induction q) auto

lemma sorted_insertByPriority:
  "sorted_wrt served_before q \<Longrightarrow> \<forall>x\<in>set q. ev_key x < ev_key e \<Longrightarrow>
     sorted_wrt served_before (insertByPriority q e)"
  by (induction q) (auto simp: served_before_def)

lemma queue_ok_insert:
  "queue_ok c n q \<Longrightarrow> int (length q) < bc_maxQueueSize c \<Longrightarrow> ev_key e = n \<Longrightarrow> ev_retries e = 0 \<Longrightarrow>
     queue_ok c (Suc n) (insertByPriority q e)"
  by (auto simp: queue_ok_def sorted_insertByPriority less_SucI)

lemma queue_ok_filter: "queue_ok c n q \<Longrightarrow> queue_ok c n (filter P q)"
  using length_filter_le [of P q] by (auto simp: queue_ok_def sorted_wrt_filter simp del: length_filter_le)

lemma queue_ok_map:
  assumes "queue_ok c n q"
    and "\<And>e. ev_key (f e) = ev_key e \<and> ms_priority (ev_message (f e)) = ms_priority (ev_message e)"
    and "\<And>e. e \<in> set q \<Longrightarrow> ev_retries (f e) \<le> bc_maxRetries c"
  shows "queue_ok c n (map f q)"
proof -
  have "(\<lambda>x y. served_before (f x) (f y)) = served_before"
    using assms(2) by (simp add: served_before_def fun_eq_iff)
  with assms show ?thesis by (auto simp: queue_ok_def sorted_wrt_map)
qed

lemma queue_ok_mono: "queue_ok c n q \<Longrightarrow> n \<le> n' \<Longrightarrow> queue_ok c n' q"
  by (auto simp: queue_ok_def)

definition bus_inv :: "MessageBusConfig \<Rightarrow> MessageBus \<Rightarrow> bool" where
  "bus_inv c mb \<longleftrightarrow> mb_config mb = c \<and>
     (\<forall>a q. map_of (mb_queues mb) a = Some q \<longrightarrow> queue_ok c (mb_nextKey mb) q)"

lemma bus_inv_update [simp]:
  "bus_inv c (mb_requests_update f1 mb) = bus_inv c mb"
  "bus_inv c (mb_metrics_update f2 mb) = bus_inv c mb"
  "bus_inv c (mb_handlers_update f3 mb) = bus_inv c mb"
  "bus_inv c (mb_deliveries_update f4 mb) = bus_inv c mb"
  by (simp_all add: bus_inv_def)

lemma bus_inv_modify:
  "bus_inv c mb \<Longrightarrow> (\<And>q. queue_ok c (mb_nextKey mb) q \<Longrightarrow> queue_ok c (mb_nextKey mb) (f q)) \<Longrightarrow>
     bus_inv c (mb\<lparr>mb_queues := jmodify a f (mb_queues mb)\<rparr>)"
  by (auto simp: bus_inv_def jmap_simps)

lemma sendToOne_inv: "bus_inv c mb \<Longrightarrow> bus_inv c (fst (sendToOne now m r mb))"
proof (cases "map_of (mb_queues mb) r")
  case None
  then show "bus_inv c mb \<Longrightarrow> bus_inv c (fst (sendToOne now m r mb))"
    by (simp add: sendToOne_def fail_metric_def)
next
  case (Some q)
  assume inv: "bus_inv c mb"
  show "bus_inv c (fst (sendToOne now m r mb))"
  proof (cases "int (length q) \<ge> bc_maxQueueSize (mb_config mb)")
    case True
    with Some inv show ?thesis by (simp add: sendToOne_def fail_metric_def)
  next
    case False
    with Some inv queue_ok_mono [of c "mb_nextKey mb" _ "Suc (mb_nextKey mb)"] show ?thesis
      by (auto simp: sendToOne_def bus_inv_def jmap_simps intro: queue_ok_insert)
  qed
qed

lemma sendToMultiple_inv: "bus_inv c mb \<Longrightarrow> bus_inv c (fst (sendToMultiple now m rs mb))"
proof (induction rs arbitrary: mb)
  case (Cons r rs)
  then show ?case by (simp add: case_prod_unfold Let_def sendToOne_inv)
qed simp

lemma broadcast_loop_inv: "bus_inv c mb \<Longrightarrow> bus_inv c (fst (broadcast_loop now m rs mb))"
proof (induction rs arbitrary: mb)
  case (Cons r rs)
  then show ?case
    using sendToOne_inv [OF Cons.prems, of now "m\<lparr>ms_to := Some (ToOne r)\<rparr>" r]
    by (auto split: prod.split sum.split)
qed simp

lemma bus_send_inv: "bus_inv c mb \<Longrightarrow> bus_inv c (fst (bus_send now m mb))"
  unfolding bus_send_def broadcast_def Let_def
  by (simp add: sendToOne_inv sendToMultiple_inv broadcast_loop_inv split: option.split Recipient.split)

lemma bus_send_result_inv: "bus_send now m mb = (mb', res) \<Longrightarrow> bus_inv c mb \<Longrightarrow> bus_inv c mb'"
  by (metis bus_send_inv fst_conv)

lemma sendResponse_inv: "sendResponse now mid req r mb = (mb', res) \<Longrightarrow> bus_inv c mb \<Longrightarrow> bus_inv c mb'"
  unfolding sendResponse_def settle_request_def
  by (auto split: option.splits prod.splits sum.splits if_splits dest: bus_send_result_inv)

lemma sendErrorResponse_inv:
  "sendErrorResponse now mid req err mb = (mb', res) \<Longrightarrow> bus_inv c mb \<Longrightarrow> bus_inv c mb'"
  unfolding sendErrorResponse_def settle_request_def
  by (auto split: option.splits prod.splits sum.splits if_splits dest: bus_send_result_inv)

lemma remove_envelope_inv: "bus_inv c mb \<Longrightarrow> bus_inv c (remove_envelope a k mb)"
  unfolding remove_envelope_def by (rule bus_inv_modify) (auto intro: queue_ok_filter)

lemma update_envelope_inv:
  assumes "bus_inv c mb"
    and "\<And>e. ev_key (f e) = ev_key e \<and> ms_priority (ev_message (f e)) = ms_priority (ev_message e)"
    and "\<And>e. ev_retries e \<le> bc_maxRetries c \<Longrightarrow> ev_retries (f e) \<le> bc_maxRetries c"
  shows "bus_inv c (update_envelope a k f mb)"
  unfolding update_envelope_def
  by (rule bus_inv_modify [OF assms(1)], rule queue_ok_map)
     (use assms in \<open>auto simp: queue_ok_def\<close>)

lemma next_delivery_inv: "bus_inv c mb \<Longrightarrow> bus_inv c (next_delivery now a d mb)"
  unfolding next_delivery_def finish_delivery_def Let_def
  by (auto split: list.split intro!: update_envelope_inv)

lemma deliverMessages_inv: "bus_inv c mb \<Longrightarrow> bus_inv c (deliverMessages now a mb)"
  by (auto simp: deliverMessages_def next_delivery_inv split: option.split)

lemma bus_inv_config: "bus_inv c mb \<Longrightarrow> mb_config mb = c"
  by (simp add: bus_inv_def)

lemma delivery_failed_inv:
  "delivery_failed now mid a e err mb = (mb', res) \<Longrightarrow> bus_inv c mb \<Longrightarrow> bus_inv c mb'"
  using sendErrorResponse_inv [of now mid "ev_message e" err "remove_envelope a (ev_key e) (fail_metric mb)" mb' res c]
    bus_inv_config [of c mb]
  by (auto simp: delivery_failed_def Let_def fail_metric_def remove_envelope_inv
      intro!: update_envelope_inv split: if_splits)

lemma continue_delivery_inv: "bus_inv c (fst res) \<Longrightarrow> bus_inv c (continue_delivery now a d es res)"
  by (auto simp: continue_delivery_def next_delivery_inv split: prod.split sum.split)

lemma handler_rejected_inv: "bus_inv c mb \<Longrightarrow> bus_inv c (handler_rejected now mid a err mb)"
  unfolding handler_rejected_def
  by (auto split: option.split list.split intro!: continue_delivery_inv)
     (metis delivery_failed_inv surjective_pairing)

lemma handler_fulfilled_inv:
  assumes "bus_inv c mb"
  shows "bus_inv c (handler_fulfilled now mid a result mb)"
proof -
  have rem: "bus_inv c (remove_envelope a k (mb\<lparr>mb_metrics := m\<rparr>))" for k m
    using assms by (simp add: remove_envelope_inv)
  have resp: "bus_inv c (case sendResponse now mid x r mb1 of
        (mb2, Inl y) \<Rightarrow> continue_delivery now a d es (delivery_failed now mid a e (send_error_text y) mb2)
      | (mb2, Inr _) \<Rightarrow> continue_delivery now a d es (mb2, Inr ()))"
    if "bus_inv c mb1" for x r mb1 d es e
  proof (cases "sendResponse now mid x r mb1")
    case (Pair mb2 res)
    have "bus_inv c mb2" by (rule sendResponse_inv [OF Pair that])
    then show ?thesis
      using Pair delivery_failed_inv [OF surjective_pairing]
      by (auto split: sum.split intro!: continue_delivery_inv)
  qed
  show ?thesis
    unfolding handler_fulfilled_def Let_def
    by (auto simp: assms rem resp split: option.split list.split MessageType.split intro!: continue_delivery_inv)
qed

lemma bus_step_inv: "bus_step mb mb' \<Longrightarrow> bus_inv c mb \<Longrightarrow> bus_inv c mb'"
proof (induction rule: bus_step.induct)
  case (1 mb a)
  then show ?case by (auto simp: registerAgent_def bus_inv_def jmap_simps queue_ok_def)
next
  case (2 mb a)
  then show ?case by (auto simp: unregisterAgent_def bus_inv_def jmap_simps)
next
  case (3 mb a t)
  then have "bus_inv c (registerAgent a mb)"
    by (auto simp: registerAgent_def bus_inv_def jmap_simps queue_ok_def)
  with 3 show ?case by (simp add: bus_registerHandler_def Let_def)
next
  case (10 mb now)
  have "map_of (map (\<lambda>(a, q). (a, filter (unexpired now) q)) m) a = map_option (filter (unexpired now)) (map_of m a)"
    for m :: "(string, MessageEnvelope list) jsmap" and a
    by (simp add: map_of_map)
  with 10 show ?case
    by (auto simp: cleanupExpiredMessages_def bus_inv_def intro: queue_ok_filter)
qed (simp_all add: bus_send_inv bus_request_def request_timeout_def settle_request_def deliverMessages_inv
    handler_fulfilled_inv handler_rejected_inv shutdown_bus_def)

lemma bus_reach_inv: "bus_reach c mb \<Longrightarrow> bus_inv c mb"
proof (induction rule: bus_reach.induct)
  case bus_created
  then show ?case by (simp add: bus_inv_def new_MessageBus_def)
qed (auto intro: bus_step_inv)

text \<open>
  C21.  In every reachable state every queue of the bus is ordered by descending priority,
  and within one priority by arrival; it never exceeds \<^verbatim>\<open>maxQueueSize\<close>; and no queued
  message has failed more than \<^verbatim>\<open>maxRetries\<close> times.
\<close>

theorem queues_ordered_and_bounded:
  assumes "bus_reach c mb"
  shows "case map_of (mb_queues mb) a of
      None \<Rightarrow> True
    | Some q \<Rightarrow> sorted_wrt (\<lambda>x y. prio x > prio y \<or> prio x = prio y \<and> ev_key x < ev_key y) q \<and>
        int (length q) \<le> max 0 (bc_maxQueueSize c) \<and>
        list_all (\<lambda>e. ev_retries e \<le> bc_maxRetries c) q"
proof -
  have "served_before = (\<lambda>x y. prio x > prio y \<or> prio x = prio y \<and> ev_key x < ev_key y)"
    by (simp add: fun_eq_iff served_before_def)
  with bus_reach_inv [OF assms] show ?thesis
    by (auto simp: bus_inv_def queue_ok_def list_all_iff split: option.split)
qed

definition demo_bus_config :: MessageBusConfig where
  "demo_bus_config = DEFAULT_MESSAGE_BUS_CONFIG\<lparr>bc_maxQueueSize := 2\<rparr>"

definition demo_message :: "string \<Rightarrow> MessageType \<Rightarrow> string \<Rightarrow> Recipient option \<Rightarrow> MessagePriority \<Rightarrow> Message" where
  "demo_message i t from to p = \<lparr>ms_id = i, ms_type = t, ms_from = from, ms_to = to, ms_payload = JNull,
     ms_priority = p, ms_correlationId = None, ms_timestamp = 0, ms_ttl = None, ms_metadata = None\<rparr>"

definition demo_bus :: MessageBus where
  "demo_bus = fst (bus_send 0 (demo_message ''m2'' NOTIFICATION ''a'' (Some (ToOne ''b'')) HIGH)
     (fst (bus_send 0 (demo_message ''m1'' NOTIFICATION ''a'' (Some (ToOne ''b'')) LOW)
       (registerAgent ''b'' (registerAgent ''a'' (new_MessageBus demo_bus_config))))))"

lemma demo_bus_reach: "bus_reach demo_bus_config demo_bus"
  unfolding demo_bus_def by (intro bus_stepped [OF _ bus_step.intros(4)] bus_stepped [OF _ bus_step.intros(1)] bus_created)

theorem queues_ordered_and_bounded_witness:
  "case map_of (mb_queues demo_bus) ''b'' of
     None \<Rightarrow> False
   | Some q \<Rightarrow> length q \<le> 2 \<and> list_all (\<lambda>e. ev_retries e \<le> 3) q"
proof -
  have "jhas (mb_queues demo_bus) ''b''" by code_simp
  then show ?thesis
    using queues_ordered_and_bounded [OF demo_bus_reach, of "''b''"]
    by (auto simp: demo_bus_config_def DEFAULT_MESSAGE_BUS_CONFIG_def split: option.splits)
qed

section \<open>Broadcast\<close>

text \<open>The queue of an agent after one more message, whatever identity the envelope gets.\<close>

definition enqueued :: "time \<Rightarrow> Message \<Rightarrow> MessageBus \<Rightarrow> string \<Rightarrow> MessageEnvelope list \<Rightarrow> MessageEnvelope list \<Rightarrow> bool" where
  "enqueued now m mb r q q' \<longleftrightarrow>
     (\<exists>k. q' = insertByPriority q \<lparr>ev_key = k, ev_message = m\<lparr>ms_to := Some (ToOne r)\<rparr>, ev_deliveredAt = None,
        ev_expiresAt = Some (now + effective_ttl m mb), ev_retries = 0\<rparr>)"

lemma effective_ttl_cong: "mb_config mb' = mb_config mb \<Longrightarrow> effective_ttl (m\<lparr>ms_to := t\<rparr>) mb' = effective_ttl m mb"
  by (simp add: effective_ttl_def split: option.split)

definition broadcast_to :: "time \<Rightarrow> Message \<Rightarrow> MessageBus \<Rightarrow> string list \<Rightarrow> MessageBus \<Rightarrow> string \<Rightarrow> bool" where
  "broadcast_to now m mb rs mb' a =
     (case map_of (mb_queues mb) a of
        None \<Rightarrow> map_of (mb_queues mb') a = None
      | Some q \<Rightarrow> \<exists>q'. map_of (mb_queues mb') a = Some q' \<and>
          (if a \<in> set rs then enqueued now m mb a q q' else q' = q))"

lemma broadcast_loop_spec:
  assumes "distinct rs" and "\<And>r. r \<in> set rs \<Longrightarrow> jhas (mb_queues mb) r"
  shows "case broadcast_loop now m rs mb of
      (mb', Inr i) \<Rightarrow> i = ms_id m \<and> (\<forall>a. broadcast_to now m mb rs mb' a)
    | (mb', Inl e) \<Rightarrow> \<exists>a\<in>set rs. e = QueueFull a \<and>
        (\<exists>q. map_of (mb_queues mb) a = Some q \<and> int (length q) \<ge> bc_maxQueueSize (mb_config mb))"
  using assms
proof (induction rs arbitrary: mb)
  case Nil
  then show ?case by (auto simp: broadcast_to_def split: option.split)
next
  case (Cons r rs)
  obtain q where q: "map_of (mb_queues mb) r = Some q" using Cons.prems(2) [of r] by auto
  show ?case
  proof (cases "int (length q) \<ge> bc_maxQueueSize (mb_config mb)")
    case True
    with q show ?thesis by (simp add: sendToOne_def)
  next
    case False
    let ?e = "\<lparr>ev_key = mb_nextKey mb, ev_message = m\<lparr>ms_to := Some (ToOne r)\<rparr>, ev_deliveredAt = None,
      ev_expiresAt = Some (now + effective_ttl m mb), ev_retries = 0\<rparr>"
    define mb1 where "mb1 = mb\<lparr>mb_queues := jset r (insertByPriority q ?e) (mb_queues mb),
      mb_nextKey := mb_nextKey mb + 1\<rparr>"
    have step: "broadcast_loop now m (r # rs) mb = broadcast_loop now m rs mb1"
      using q False effective_ttl_cong [of mb mb "Some (ToOne r)" m] by (simp add: sendToOne_def mb1_def)
    have Q: "map_of (mb_queues mb1) a = (if a = r then Some (insertByPriority q ?e) else map_of (mb_queues mb) a)"
      and cfg: "mb_config mb1 = mb_config mb" for a
      by (simp_all add: mb1_def jmap_simps)
    have enq: "enqueued now m mb1 = enqueued now m mb"
      by (simp add: enqueued_def effective_ttl_def cfg fun_eq_iff split: option.split)
    have new: "enqueued now m mb r q (insertByPriority q ?e)" by (auto simp: enqueued_def)
    have r: "r \<notin> set rs" using Cons.prems by simp
    have lift: "broadcast_to now m mb (r # rs) mb' a" if "broadcast_to now m mb1 rs mb' a" for mb' a
      using that q new r by (cases "a = r"; cases "a \<in> set rs") (auto simp: broadcast_to_def Q enq split: option.splits)
    have "case broadcast_loop now m rs mb1 of
        (mb', Inr i) \<Rightarrow> i = ms_id m \<and> (\<forall>a. broadcast_to now m mb1 rs mb' a)
      | (mb', Inl e) \<Rightarrow> \<exists>a\<in>set rs. e = QueueFull a \<and>
          (\<exists>q. map_of (mb_queues mb1) a = Some q \<and> int (length q) \<ge> bc_maxQueueSize (mb_config mb1))"
      by (rule Cons.IH) (use Cons.prems in \<open>simp_all add: Q\<close>)
    then show ?thesis
      unfolding step using lift r by (auto simp: Q cfg split: prod.splits sum.splits if_splits)
  qed
qed

text \<open>
  \<^verbatim>\<open>broadcast\<close> succeeds exactly by adding the message, addressed to each of them, to
  the queue of every registered agent other than the sender, leaving the sender's queue
  alone; it fails only on an agent whose queue is full.
\<close>

theorem broadcast_correct:
  assumes "jwf (mb_queues mb)"
  shows "case broadcast now m mb of
      (mb', Inr i) \<Rightarrow> i = ms_id m \<and>
        (\<forall>a. case map_of (mb_queues mb) a of
           None \<Rightarrow> map_of (mb_queues mb') a = None
         | Some q \<Rightarrow> \<exists>q'. map_of (mb_queues mb') a = Some q' \<and>
             (if a = ms_from m then q' = q else enqueued now m mb a q q'))
    | (mb', Inl e) \<Rightarrow> \<exists>a q. e = QueueFull a \<and> a \<noteq> ms_from m \<and> map_of (mb_queues mb) a = Some q \<and>
        int (length q) \<ge> bc_maxQueueSize (mb_config mb)"
proof -
  let ?rs = "filter (\<lambda>a. a \<noteq> ms_from m) (jkeys (mb_queues mb))"
  have mem: "a \<in> set ?rs \<longleftrightarrow> a \<noteq> ms_from m \<and> jhas (mb_queues mb) a" for a
    using jhas_iff_key [of "mb_queues mb" a] by auto
  have to: "broadcast_to now m mb ?rs mb' a \<longleftrightarrow>
      (case map_of (mb_queues mb) a of
         None \<Rightarrow> map_of (mb_queues mb') a = None
       | Some q \<Rightarrow> \<exists>q'. map_of (mb_queues mb') a = Some q' \<and>
           (if a = ms_from m then q' = q else enqueued now m mb a q q'))" for mb' a
    unfolding broadcast_to_def mem by (auto split: option.split)
  have spec: "case broadcast now m mb of
      (mb', Inr i) \<Rightarrow> i = ms_id m \<and> (\<forall>a. broadcast_to now m mb ?rs mb' a)
    | (mb', Inl e) \<Rightarrow> \<exists>a\<in>set ?rs. e = QueueFull a \<and>
        (\<exists>q. map_of (mb_queues mb) a = Some q \<and> int (length q) \<ge> bc_maxQueueSize (mb_config mb))"
    unfolding broadcast_def by (rule broadcast_loop_spec) (use assms mem in auto)
  obtain mb' res where R: "broadcast now m mb = (mb', res)" by (cases "broadcast now m mb")
  show ?thesis
  proof (cases res)
    case (Inl e)
    with spec R show ?thesis by (simp only: prod.case sum.case) (auto simp: mem)
  next
    case (Inr i)
    with spec R show ?thesis by (simp only: prod.case sum.case to) simp
  qed
qed

theorem broadcast_correct_witness:
  "case broadcast 0 (demo_message ''m3'' BROADCAST ''b'' None LOW) demo_bus of
     (mb', Inr i) \<Rightarrow> i = ''m3'' | (mb', Inl e) \<Rightarrow> False"
proof -
  have ok: "jwf (mb_queues demo_bus)" by code_simp
  have "\<not> isl (snd (broadcast 0 (demo_message ''m3'' BROADCAST ''b'' None LOW) demo_bus))" by code_simp
  with broadcast_correct [OF ok, of "demo_message ''m3'' BROADCAST ''b'' None LOW" 0] show ?thesis
    by (auto simp: demo_message_def split: prod.splits sum.splits)
qed

section \<open>Requests\<close>

text \<open>Requests already settled keep their outcome.\<close>

definition keeps_settled :: "MessageBus \<Rightarrow> MessageBus \<Rightarrow> bool" where
  "keeps_settled mb mb' \<longleftrightarrow> (\<forall>c s. map_of (mb_requests mb) c = Some s \<longrightarrow> s \<noteq> RPending \<longrightarrow>
     map_of (mb_requests mb') c = Some s)"

lemma keeps_settled_refl [simp]: "keeps_settled mb mb"
  by (simp add: keeps_settled_def)

lemma keeps_settled_trans: "keeps_settled mb1 mb2 \<Longrightarrow> keeps_settled mb2 mb3 \<Longrightarrow> keeps_settled mb1 mb3"
  by (simp add: keeps_settled_def)

lemma keeps_settled_same: "mb_requests mb' = mb_requests mb \<Longrightarrow> keeps_settled mb mb'"
  by (simp add: keeps_settled_def)

lemma keeps_settle_request: "keeps_settled mb (settle_request c s mb)"
  by (simp add: keeps_settled_def settle_request_def jmap_simps)

lemma requests_sendToOne [simp]: "mb_requests (fst (sendToOne now m r mb)) = mb_requests mb"
  by (simp add: sendToOne_def fail_metric_def split: option.split)

lemma requests_sendToMultiple [simp]: "mb_requests (fst (sendToMultiple now m rs mb)) = mb_requests mb"
  by (induction rs arbitrary: mb) (simp_all add: case_prod_unfold Let_def)

lemma requests_broadcast_loop [simp]: "mb_requests (fst (broadcast_loop now m rs mb)) = mb_requests mb"
proof (induction rs arbitrary: mb)
  case (Cons r rs)
  then show ?case
    using requests_sendToOne [of now "m\<lparr>ms_to := Some (ToOne r)\<rparr>" r mb]
    by (auto simp del: requests_sendToOne split: prod.split sum.split)
qed simp

lemma requests_bus_send [simp]: "mb_requests (fst (bus_send now m mb)) = mb_requests mb"
  by (simp add: bus_send_def broadcast_def Let_def split: option.split Recipient.split)

lemma requests_bus_send_result: "bus_send now m mb = (mb', res) \<Longrightarrow> mb_requests mb' = mb_requests mb"
  by (metis requests_bus_send fst_conv)

lemma keeps_sendResponse: "sendResponse now mid req r mb = (mb', res) \<Longrightarrow> keeps_settled mb mb'"
  unfolding sendResponse_def
  by (auto split: option.splits prod.splits sum.splits if_splits dest!: requests_bus_send_result
      intro: keeps_settled_same keeps_settled_trans keeps_settle_request)

lemma keeps_sendErrorResponse: "sendErrorResponse now mid req err mb = (mb', res) \<Longrightarrow> keeps_settled mb mb'"
  unfolding sendErrorResponse_def
  by (auto split: option.splits prod.splits sum.splits if_splits dest!: requests_bus_send_result
      intro: keeps_settled_same keeps_settled_trans keeps_settle_request)

lemma requests_envelopes [simp]:
  "mb_requests (remove_envelope a k mb) = mb_requests mb"
  "mb_requests (update_envelope a k f mb) = mb_requests mb"
  "mb_requests (next_delivery now a d mb) = mb_requests mb"
  "mb_requests (fail_metric mb) = mb_requests mb"
  by (simp_all add: remove_envelope_def update_envelope_def next_delivery_def finish_delivery_def Let_def
      fail_metric_def split: list.split)

lemma requests_continue [simp]: "mb_requests (continue_delivery now a d es res) = mb_requests (fst res)"
  by (simp add: continue_delivery_def split: prod.split sum.split)

lemma keeps_delivery_failed: "keeps_settled mb (fst (delivery_failed now mid a e err mb))"
proof -
  let ?mb = "remove_envelope a (ev_key e) (fail_metric mb)"
  have "keeps_settled ?mb (fst (sendErrorResponse now mid (ev_message e) err ?mb))"
    by (metis keeps_sendErrorResponse surjective_pairing)
  then show ?thesis by (auto simp: delivery_failed_def Let_def keeps_settled_def)
qed

lemma keeps_handler_rejected: "keeps_settled mb (handler_rejected now mid a err mb)"
  using keeps_delivery_failed
  by (simp add: handler_rejected_def keeps_settled_def split: option.split list.split)

lemma keeps_handler_fulfilled: "keeps_settled mb (handler_fulfilled now mid a result mb)"
proof -
  have resp: "keeps_settled mb1 (case sendResponse now mid x r mb1 of
        (mb2, Inl y) \<Rightarrow> continue_delivery now a d es (delivery_failed now mid a e (send_error_text y) mb2)
      | (mb2, Inr _) \<Rightarrow> continue_delivery now a d es (mb2, Inr ()))" for x r mb1 d es e
  proof (cases "sendResponse now mid x r mb1")
    case (Pair mb2 res)
    have "keeps_settled mb1 mb2" by (rule keeps_sendResponse [OF Pair])
    moreover have "keeps_settled mb2 (fst (delivery_failed now mid a e (send_error_text y) mb2))" for y
      by (rule keeps_delivery_failed)
    ultimately show ?thesis
      using Pair by (auto simp: keeps_settled_def split: sum.split)
  qed
  have "keeps_settled mb (handler_fulfilled now mid a result mb)"
    if "map_of (mb_deliveries mb) a = Some d" and "dl_remaining d = e # es" for d e es
  proof -
    let ?mb = "remove_envelope a (ev_key e) (mb\<lparr>mb_metrics := (mb_metrics mb)
      \<lparr>mm_messagesDelivered := mm_messagesDelivered (mb_metrics mb) + 1\<rparr>\<rparr>)"
    have "keeps_settled ?mb (handler_fulfilled now mid a result mb)"
      using that resp by (auto simp: handler_fulfilled_def Let_def keeps_settled_same
          split: MessageType.split option.split)
    then show ?thesis by (simp add: keeps_settled_def)
  qed
  then show ?thesis
    by (cases "map_of (mb_deliveries mb) a"; cases "dl_remaining (the (map_of (mb_deliveries mb) a))")
       (auto simp: handler_fulfilled_def)
qed

text \<open>
  The outcome of a request is final: once its promise is resolved or rejected, by a
  response, an error, a timeout or a shutdown, no step of the bus changes it.
\<close>

theorem request_outcome_final:
  assumes "bus_step mb mb'" and "map_of (mb_requests mb) c = Some s" and "s \<noteq> RPending"
  shows "map_of (mb_requests mb') c = Some s"
proof -
  have "keeps_settled mb mb'"
    using assms(1)
  proof (induction rule: bus_step.induct)
    case (3 mb a t)
    then show ?case by (simp add: bus_registerHandler_def registerAgent_def Let_def keeps_settled_same)
  next
    case (5 mb c now mid sender rcpt payload)
    then show ?case by (auto simp: bus_request_def keeps_settled_def jmap_simps)
  next
    case (11 mb)
    have "map_of (map (\<lambda>(c, s). (c, if s = RPending then x else s)) m) k =
        map_option (\<lambda>s. if s = RPending then x else s) (map_of m k)" for m :: "(string, request_state) jsmap" and x k
      by (simp add: map_of_map)
    then show ?case by (simp add: shutdown_bus_def keeps_settled_def)
  next
    case (7 mb now a)
    then show ?case by (auto simp: deliverMessages_def split: option.split intro: keeps_settled_same)
  qed (simp_all add: keeps_handler_fulfilled keeps_handler_rejected registerAgent_def unregisterAgent_def
      request_timeout_def keeps_settle_request cleanupExpiredMessages_def keeps_settled_same)
  with assms(2,3) show ?thesis by (simp add: keeps_settled_def)
qed

section \<open>Responses to unregistered requesters\<close>

definition orphan_request :: MessageBus where
  "orphan_request = fst (bus_request 0 ''c'' ''m'' ''caller'' ''w'' JNull
     (bus_registerHandler ''w'' REQUEST (new_MessageBus DEFAULT_MESSAGE_BUS_CONFIG)))"

theorem request_outcome_final_witness:
  "map_of (mb_requests (shutdown_bus (request_timeout ''c'' orphan_request))) ''c''
     = Some (RRejected ''Request timeout'')"
  by (rule request_outcome_final [OF bus_step.intros(11)]) code_simp+

definition orphan_handled :: MessageBus where
  "orphan_handled = handler_fulfilled 2 ''m2'' ''w'' (Some (JNum 42)) (deliverMessages 1 ''w'' orphan_request)"

lemma orphan_reach: "bus_reach DEFAULT_MESSAGE_BUS_CONFIG orphan_handled"
proof -
  have "bus_reach DEFAULT_MESSAGE_BUS_CONFIG
      (bus_registerHandler ''w'' REQUEST (new_MessageBus DEFAULT_MESSAGE_BUS_CONFIG))"
    by (rule bus_stepped [OF bus_created bus_step.intros(3)])
  then have "bus_reach DEFAULT_MESSAGE_BUS_CONFIG orphan_request"
    unfolding orphan_request_def by (rule bus_stepped) (rule bus_step.intros(5), code_simp)
  then show ?thesis
    unfolding orphan_handled_def
    by (intro bus_stepped [OF bus_stepped [OF _ bus_step.intros(7)] bus_step.intros(8)])
qed

text \<open>
  A response to a requester that is not itself a registered agent is lost: the
  handler has returned its result, the request is counted as delivered and has left the
  queue, no delivery is in progress, and the caller's promise is still pending; only its
  timeout can settle it.
\<close>

theorem response_to_unregistered_lost:
  "\<exists>mb. bus_reach DEFAULT_MESSAGE_BUS_CONFIG mb \<and> map_of (mb_requests mb) ''c'' = Some RPending \<and>
     mm_messagesDelivered (mb_metrics mb) = 1 \<and> mb_deliveries mb = [] \<and> map_of (mb_queues mb) ''w'' = Some []"
proof (intro exI conjI)
  show "bus_reach DEFAULT_MESSAGE_BUS_CONFIG orphan_handled" by (rule orphan_reach)
qed (code_simp+)

end
