(* ===== verification/Shared_Context.thy ===== *)
theory Shared_Context
  imports Prelude "HOL-Library.Sublist"
begin

text \<open>
  The shared context of \<^verbatim>\<open>services/orchestrator/src/agents/AgentCommunication.ts\<close>
  (\<^verbatim>\<open>SharedContextManager\<close>): scoped entries with an owner, a version and a time-to-live,
  access lists for shared entries, and the filtered, paginated query.  The regular
  expression of a query is a predicate on keys.
\<close>

section \<open>Definitions\<close>

datatype ContextScope = GLOBAL | PIPELINE | PRIVATE | SHARED

record ContextEntry =
  ce_key :: string
  ce_value :: json
  ce_scope :: ContextScope
  ce_ownerId :: string
  ce_createdAt :: time
  ce_updatedAt :: time
  ce_version :: nat
  ce_ttl :: "int option"
  ce_metadata :: "(string, json) jsmap option"

record SharedContextConfig =
  sg_maxEntries :: int
  sg_defaultTtl :: int
  sg_cleanupInterval :: int
  sg_enableVersioning :: bool

definition DEFAULT_CONTEXT_CONFIG :: SharedContextConfig where
  "DEFAULT_CONTEXT_CONFIG = \<lparr>sg_maxEntries = 10000, sg_defaultTtl = 60 * 60 * 1000,
     sg_cleanupInterval = 5 * 60 * 1000, sg_enableVersioning = True\<rparr>"

record SharedContext =
  sc_config :: SharedContextConfig
  sc_entries :: "(string, ContextEntry) jsmap"
  sc_access :: "(string, string list) jsmap"

datatype ContextError = ContextFull | AccessDenied string | NotOwner string | KeyNotFound string

definition new_SharedContext :: "SharedContextConfig \<Rightarrow> SharedContext" where
  "new_SharedContext c = \<lparr>sc_config = c, sc_entries = [], sc_access = []\<rparr>"

definition ctx_set ::
  "time \<Rightarrow> string \<Rightarrow> json \<Rightarrow> string \<Rightarrow> ContextScope \<Rightarrow> int option \<Rightarrow> SharedContext \<Rightarrow> ContextError + SharedContext" where
  "ctx_set now key v owner scope ttl sc =
     (if int (length (sc_entries sc)) \<ge> sg_maxEntries (sc_config sc) then Inl ContextFull
      else let existing = map_of (sc_entries sc) key;
               entry = \<lparr>ce_key = key, ce_value = v, ce_scope = scope, ce_ownerId = owner,
                 ce_createdAt = (case existing of None \<Rightarrow> now | Some e \<Rightarrow> ce_createdAt e),
                 ce_updatedAt = now,
                 ce_version = (if sg_enableVersioning (sc_config sc)
                   then (case existing of None \<Rightarrow> 0 | Some e \<Rightarrow> ce_version e) + 1 else 1),
                 ce_ttl = ttl, ce_metadata = None\<rparr>
           in Inr (sc\<lparr>sc_entries := jset key entry (sc_entries sc)\<rparr>))"

definition hasAccess :: "SharedContext \<Rightarrow> ContextEntry \<Rightarrow> string \<Rightarrow> bool" where
  "hasAccess sc e r \<longleftrightarrow>
     ce_ownerId e = r \<or>
     (case ce_scope e of
        GLOBAL \<Rightarrow> True
      | PRIVATE \<Rightarrow> False
      | SHARED \<Rightarrow> r \<in> set (jget_or [] (sc_access sc) (ce_key e))
      | PIPELINE \<Rightarrow>
          (case ce_metadata e of
             None \<Rightarrow> False
           | Some m \<Rightarrow> (case map_of m ''pipelineId'' of Some (JStr p) \<Rightarrow> p \<noteq> [] \<and> p = r | _ \<Rightarrow> False)))"

definition isExpired :: "time \<Rightarrow> ContextEntry \<Rightarrow> bool" where
  "isExpired now e =
     (case ce_ttl e of None \<Rightarrow> False | Some t \<Rightarrow> t \<noteq> 0 \<and> now > ce_updatedAt e + t)"

definition drop_key :: "string \<Rightarrow> SharedContext \<Rightarrow> SharedContext" where
  "drop_key key sc = sc\<lparr>sc_entries := jdelete key (sc_entries sc), sc_access := jdelete key (sc_access sc)\<rparr>"

definition ctx_get :: "time \<Rightarrow> string \<Rightarrow> string \<Rightarrow> SharedContext \<Rightarrow> ContextError + (SharedContext \<times> json option)" where
  "ctx_get now key r sc =
     (case map_of (sc_entries sc) key of
        None \<Rightarrow> Inr (sc, None)
      | Some e \<Rightarrow>
          if \<not> hasAccess sc e r then Inl (AccessDenied key)
          else if isExpired now e then Inr (drop_key key sc, None)
          else Inr (sc, Some (ce_value e)))"

definition ctx_delete :: "string \<Rightarrow> string \<Rightarrow> SharedContext \<Rightarrow> ContextError + (SharedContext \<times> bool)" where
  "ctx_delete key r sc =
     (case map_of (sc_entries sc) key of
        None \<Rightarrow> Inr (sc, False)
      | Some e \<Rightarrow> if ce_ownerId e \<noteq> r then Inl (NotOwner key) else Inr (drop_key key sc, True))"

definition ctx_share :: "time \<Rightarrow> string \<Rightarrow> string \<Rightarrow> string list \<Rightarrow> SharedContext \<Rightarrow> ContextError + SharedContext" where
  "ctx_share now key owner agents sc =
     (case map_of (sc_entries sc) key of
        None \<Rightarrow> Inl (KeyNotFound key)
      | Some e \<Rightarrow>
          if ce_ownerId e \<noteq> owner then Inl (NotOwner key)
          else let e' = (if ce_scope e \<noteq> SHARED then e\<lparr>ce_scope := SHARED, ce_updatedAt := now\<rparr> else e)
               in Inr (sc\<lparr>sc_entries := jset key e' (sc_entries sc),
                    sc_access := jset key (fold List.insert agents (jget_or [] (sc_access sc) key)) (sc_access sc)\<rparr>))"

record ContextQueryOptions =
  qo_scope :: "ContextScope list option"
  qo_ownerId :: "string option"
  qo_prefix :: "string option"
  qo_pattern :: "(string \<Rightarrow> bool) option"
  qo_limit :: "int option"
  qo_offset :: "int option"

text \<open>The filters of \<^verbatim>\<open>query\<close>, in the order of the code; empty strings are falsy.\<close>

definition query_selects :: "time \<Rightarrow> ContextQueryOptions \<Rightarrow> string \<Rightarrow> SharedContext \<Rightarrow> ContextEntry \<Rightarrow> bool" where
  "query_selects now o' r sc e \<longleftrightarrow>
     hasAccess sc e r \<and> \<not> isExpired now e \<and>
     (case qo_scope o' of None \<Rightarrow> True | Some ss \<Rightarrow> ce_scope e \<in> set ss) \<and>
     (case qo_ownerId o' of None \<Rightarrow> True | Some i \<Rightarrow> i = [] \<or> ce_ownerId e = i) \<and>
     (case qo_prefix o' of None \<Rightarrow> True | Some p \<Rightarrow> p = [] \<or> prefix p (ce_key e)) \<and>
     (case qo_pattern o' of None \<Rightarrow> True | Some f \<Rightarrow> f (ce_key e))"

fun query_loop ::
  "(ContextEntry \<Rightarrow> bool) \<Rightarrow> int option \<Rightarrow> int \<Rightarrow> int \<Rightarrow> ContextEntry list \<Rightarrow> ContextEntry list \<Rightarrow> ContextEntry list" where
  "query_loop P limit offset skipped results [] = results"
| "query_loop P limit offset skipped results (e # es) =
     (if (case limit of None \<Rightarrow> False | Some l \<Rightarrow> int (length results) \<ge> l) then results
      else if \<not> P e then query_loop P limit offset skipped results es
      else if skipped < offset then query_loop P limit offset (skipped + 1) results es
      else query_loop P limit offset skipped (results @ [e]) es)"

definition ctx_query :: "time \<Rightarrow> ContextQueryOptions \<Rightarrow> string \<Rightarrow> SharedContext \<Rightarrow> ContextEntry list" where
  "ctx_query now o' r sc =
     query_loop (query_selects now o' r sc) (qo_limit o')
       (case qo_offset o' of None \<Rightarrow> 0 | Some n \<Rightarrow> n) 0 [] (jvalues (sc_entries sc))"

definition ctx_cleanupExpired :: "time \<Rightarrow> SharedContext \<Rightarrow> SharedContext" where
  "ctx_cleanupExpired now sc =
     fold drop_key (map fst (filter (\<lambda>(k, e). isExpired now e) (sc_entries sc))) sc"

definition ctx_shutdown :: "SharedContext \<Rightarrow> SharedContext" where
  "ctx_shutdown sc = sc\<lparr>sc_entries := [], sc_access := []\<rparr>"

definition getEntryCount :: "SharedContext \<Rightarrow> nat" where
  "getEntryCount sc = length (sc_entries sc)"

definition getKeys :: "ContextScope option \<Rightarrow> SharedContext \<Rightarrow> string list" where
  "getKeys scope sc =
     (case scope of
        None \<Rightarrow> jkeys (sc_entries sc)
      | Some s \<Rightarrow> map ce_key (filter (\<lambda>e. ce_scope e = s) (jvalues (sc_entries sc))))"

section \<open>Runs\<close>

datatype context_op =
    CtxSet time string json string ContextScope "int option"
  | CtxGet time string string
  | CtxDelete string string
  | CtxShare time string string "string list"
  | CtxCleanup time

fun context_step :: "context_op \<Rightarrow> SharedContext \<Rightarrow> SharedContext" where
  "context_step (CtxSet now k v w s t) sc = (case ctx_set now k v w s t sc of Inl _ \<Rightarrow> sc | Inr sc' \<Rightarrow> sc')"
| "context_step (CtxGet now k r) sc = (case ctx_get now k r sc of Inl _ \<Rightarrow> sc | Inr (sc', _) \<Rightarrow> sc')"
| "context_step (CtxDelete k r) sc = (case ctx_delete k r sc of Inl _ \<Rightarrow> sc | Inr (sc', _) \<Rightarrow> sc')"
| "context_step (CtxShare now k w as) sc = (case ctx_share now k w as sc of Inl _ \<Rightarrow> sc | Inr sc' \<Rightarrow> sc')"
| "context_step (CtxCleanup now) sc = ctx_cleanupExpired now sc"

definition context_run :: "SharedContextConfig \<Rightarrow> context_op list \<Rightarrow> SharedContext" where
  "context_run c ops = fold context_step ops (new_SharedContext c)"

section \<open>Pagination\<close>

lemma query_loop_eq:
  "0 \<le> skipped \<Longrightarrow>
   query_loop P limit offset skipped results es = results @
     (case limit of
        None \<Rightarrow> drop (nat (offset - skipped)) (filter P es)
      | Some l \<Rightarrow> take (nat (l - int (length results))) (drop (nat (offset - skipped)) (filter P es)))"
proof (induction P limit offset skipped results es rule: query_loop.induct)
  case (2 P limit offset skipped results e es)
  have "nat (offset - skipped) = Suc (nat (offset - (skipped + 1)))" if "skipped < offset"
    using that by simp
  moreover have "nat (l - int (length results)) = Suc (nat (l - int (Suc (length results))))"
    if "\<not> l \<le> int (length results)" for l
    using that by linarith
  ultimately show ?case using 2 by (auto split: option.splits if_splits)
qed (auto split: option.split)

text \<open>
  The paginated query equals its specification: the entries in insertion order that
  the requester may see, that are not expired and that match the filters, without the
  first \<^verbatim>\<open>offset\<close> of them and cut to \<^verbatim>\<open>limit\<close>.
\<close>

theorem ctx_query_spec:
  "ctx_query now o' r sc =
     (case qo_limit o' of None \<Rightarrow> (\<lambda>xs. xs) | Some l \<Rightarrow> take (nat l))
       (drop (case qo_offset o' of None \<Rightarrow> 0 | Some n \<Rightarrow> nat n)
         (filter (query_selects now o' r sc) (jvalues (sc_entries sc))))"
  by (simp add: ctx_query_def query_loop_eq split: option.split)

section \<open>Access control\<close>

definition access_inv :: "context_op list \<Rightarrow> SharedContext \<Rightarrow> bool" where
  "access_inv ops sc \<longleftrightarrow>
     (\<forall>k e. map_of (sc_entries sc) k = Some e \<longrightarrow> ce_key e = k \<and> ce_metadata e = None) \<and>
     (\<forall>k a. a \<in> set (jget_or [] (sc_access sc) k) \<longrightarrow>
        (\<exists>now w as. CtxShare now k w as \<in> set ops \<and> a \<in> set as))"

lemma set_fold_insert [simp]: "set (fold List.insert as xs) = set as \<union> set xs"
  by (induction "as" arbitrary: xs) auto

lemma access_inv_drop: "access_inv ops sc \<Longrightarrow> access_inv ops (drop_key k sc)"
  by (auto simp: access_inv_def drop_key_def jget_or_def jmap_simps split: option.splits if_splits)

lemma access_inv_mono: "access_inv ops sc \<Longrightarrow> set ops \<subseteq> set ops' \<Longrightarrow> access_inv ops' sc"
  unfolding access_inv_def by blast

lemma access_inv_cleanup: "access_inv ops sc \<Longrightarrow> access_inv ops (ctx_cleanupExpired now sc)"
proof -
  have "access_inv ops sc \<Longrightarrow> access_inv ops (fold drop_key ks sc)" for ks
    by (induction ks arbitrary: sc) (auto intro: access_inv_drop)
  then show "access_inv ops sc \<Longrightarrow> ?thesis" by (simp add: ctx_cleanupExpired_def)
qed

lemma access_inv_share:
  assumes "access_inv ops sc" and "map_of (sc_entries sc) k = Some e" and "CtxShare now k w as \<in> set ops"
    and "ce_key e' = ce_key e" and "ce_metadata e' = ce_metadata e"
  shows "access_inv ops (sc\<lparr>sc_entries := jset k e' (sc_entries sc),
    sc_access := jset k (fold List.insert as (jget_or [] (sc_access sc) k)) (sc_access sc)\<rparr>)"
  using assms by (auto simp: access_inv_def jmap_simps jget_or_def split: if_splits)

lemma access_inv_step:
  assumes "access_inv ops sc"
  shows "access_inv (ops @ [op]) (context_step op sc)"
proof -
  have inv: "access_inv (ops @ [op]) sc" by (rule access_inv_mono [OF assms]) auto
  show ?thesis
  proof (cases op)
    case (CtxSet now k v w s t)
    with inv show ?thesis
      by (auto simp: ctx_set_def Let_def access_inv_def jmap_simps)
  next
    case (CtxGet now k r)
    with inv show ?thesis
      by (auto simp: ctx_get_def intro: access_inv_drop split: option.split)
  next
    case (CtxDelete k r)
    with inv show ?thesis
      by (auto simp: ctx_delete_def intro: access_inv_drop split: option.split)
  next
    case (CtxShare now k w as)
    with inv show ?thesis
      by (auto simp: ctx_share_def Let_def intro!: access_inv_share split: option.split)
  next
    case (CtxCleanup now)
    with inv show ?thesis by (simp add: access_inv_cleanup)
  qed
qed

lemma context_run_inv: "access_inv ops (context_run c ops)"
proof (induction ops rule: rev_induct)
  case Nil
  then show ?case by (simp add: context_run_def access_inv_def new_SharedContext_def jget_or_def)
next
  case (snoc op ops)
  then show ?case using access_inv_step [OF snoc] by (simp add: context_run_def)
qed


text \<open>
  What is written is read back: after a successful \<^verbatim>\<open>set\<close>, the owner reads exactly
  that value until its time-to-live has passed, the version has grown by one and the
  creation time is that of the first write; a full store rejects every \<^verbatim>\<open>set\<close>, even of an
  existing key, and changes nothing.
\<close>

theorem context_set_get:
  "case ctx_set t1 k v w scope ttl sc of
     Inl e \<Rightarrow> e = ContextFull \<and> int (getEntryCount sc) \<ge> sg_maxEntries (sc_config sc)
   | Inr sc' \<Rightarrow>
       ctx_get t2 k w sc' =
         (if (case ttl of None \<Rightarrow> False | Some d \<Rightarrow> d \<noteq> 0 \<and> t2 > t1 + d)
          then Inr (drop_key k sc', None) else Inr (sc', Some v)) \<and>
       (\<exists>e. map_of (sc_entries sc') k = Some e \<and> ce_updatedAt e = t1 \<and>
          (case map_of (sc_entries sc) k of
             None \<Rightarrow> ce_version e = 1 \<and> ce_createdAt e = t1
           | Some old \<Rightarrow> ce_createdAt e = ce_createdAt old \<and>
               ce_version e = (if sg_enableVersioning (sc_config sc) then ce_version old + 1 else 1))) \<and>
       map_of (sc_entries sc') = (map_of (sc_entries sc))(k := map_of (sc_entries sc') k)"
  by (auto simp: ctx_set_def ctx_get_def Let_def jmap_simps hasAccess_def isExpired_def getEntryCount_def
      split: option.split)

definition stale_ops :: "context_op list" where
  "stale_ops = [CtxSet 0 ''k'' (JStr ''old'') ''alice'' PRIVATE None, CtxShare 1 ''k'' ''alice'' [''mallory''],
     CtxSet 2 ''k'' (JStr ''secret'') ''bob'' PRIVATE None, CtxShare 3 ''k'' ''bob'' [''carol'']]"

text \<open>
  Access lists outlive the entry they were granted for: overwriting a key with
  \<^verbatim>\<open>set\<close> needs no ownership and keeps the old access list, so an agent the previous
  owner had admitted reads the new owner's value although the new owner shared it with
  someone else only.
\<close>

theorem stale_access_after_overwrite:
  "ctx_get 4 ''k'' ''mallory'' (context_run DEFAULT_CONTEXT_CONFIG stale_ops)
     = Inr (context_run DEFAULT_CONTEXT_CONFIG stale_ops, Some (JStr ''secret''))
   \<and> filter (\<lambda>op. case op of CtxShare t k w as \<Rightarrow> w = ''bob'' | _ \<Rightarrow> False) stale_ops
     = [CtxShare 3 ''k'' ''bob'' [''carol'']]"
  by (simp add: stale_ops_def context_run_def new_SharedContext_def ctx_set_def ctx_share_def ctx_get_def
      hasAccess_def isExpired_def jget_or_def DEFAULT_CONTEXT_CONFIG_def Let_def)

end
