(* ===== verification/Rate_Limit.thy ===== *)
theory Rate_Limit
  imports Prelude
begin

text \<open>
  Rate limiting: the in-memory sliding-window store of
  \<^verbatim>\<open>services/orchestrator/src/rateLimit/store.ts\<close> and its client, the per-session limiter
  of \<^verbatim>\<open>services/orchestrator/src/services/RateLimiter.ts\<close>.  The interface between them,
  \<^verbatim>\<open>RateLimitStore\<close>, is the locale \<open>rate_limit_store\<close>: what a client may rely on is proved
  inside it, and the memory store interprets it.
\<close>

section \<open>The memory store\<close>

record RateLimitDecision =
  rd_allowed :: bool
  rd_retryAfterMs :: "int option"
  rd_remaining :: "int option"
  rd_limit :: "int option"
  rd_windowMs :: "int option"

type_synonym rate_store = "(string, time list) jsmap"

definition namespacedKey :: "string \<Rightarrow> string \<Rightarrow> string" where
  "namespacedKey pre key = pre @ '':'' @ key"

text \<open>\<^verbatim>\<open>Math.min(...recent)\<close> of an empty list is infinite: there \<^verbatim>\<open>retryAfter\<close> is infinite
  too, which JSON and the callers turn into \<^verbatim>\<open>null\<close>; it is \<open>None\<close> here.\<close>

definition allow :: "string \<Rightarrow> time \<Rightarrow> string \<Rightarrow> int \<Rightarrow> int \<Rightarrow> rate_store \<Rightarrow> rate_store \<times> RateLimitDecision" where
  "allow pre now key windowMs maxRequests hits =
     (let k = namespacedKey pre key;
          cutoff = now - windowMs;
          recent = filter (\<lambda>t. t > cutoff) (jget_or [] hits k)
      in if int (length recent) \<ge> maxRequests
         then (jset k recent hits,
               \<lparr>rd_allowed = False,
                rd_retryAfterMs = (if recent = [] then None
                  else Some (max 0 (windowMs - (now - Min (set recent))))),
                rd_remaining = Some 0, rd_limit = Some maxRequests, rd_windowMs = Some windowMs\<rparr>)
         else let recent' = recent @ [now]
              in (jset k recent' hits,
                  \<lparr>rd_allowed = True, rd_retryAfterMs = None,
                   rd_remaining = Some (max 0 (maxRequests - int (length recent'))),
                   rd_limit = Some maxRequests, rd_windowMs = Some windowMs\<rparr>))"

definition reset_store :: "string \<Rightarrow> string option \<Rightarrow> rate_store \<Rightarrow> rate_store" where
  "reset_store pre key hits =
     (case key of
        None \<Rightarrow> []
      | Some k \<Rightarrow> if k = [] then [] else jdelete (namespacedKey pre k) hits)"

section \<open>The per-session limiter\<close>

record RateLimitResult =
  rr_allowed :: bool
  rr_remaining :: int
  rr_limit :: int
  rr_windowMs :: int
  rr_retryAfterMs :: "int option"

record PerSessionRateLimiter =
  pl_limit :: int
  pl_windowMs :: int
  pl_prefix :: string

definition toResult :: "PerSessionRateLimiter \<Rightarrow> RateLimitDecision \<Rightarrow> RateLimitResult" where
  "toResult pl d =
     \<lparr>rr_allowed = rd_allowed d,
      rr_remaining = max 0 (case rd_remaining d of Some r \<Rightarrow> r
        | None \<Rightarrow> if rd_allowed d then pl_limit pl - 1 else 0),
      rr_limit = (case rd_limit d of Some l \<Rightarrow> l | None \<Rightarrow> pl_limit pl),
      rr_windowMs = (case rd_windowMs d of Some w \<Rightarrow> w | None \<Rightarrow> pl_windowMs pl),
      rr_retryAfterMs = rd_retryAfterMs d\<rparr>"

definition session_check ::
  "PerSessionRateLimiter \<Rightarrow> time \<Rightarrow> string \<Rightarrow> rate_store \<Rightarrow> rate_store \<times> RateLimitResult" where
  "session_check pl now sid hits =
     (let (hits', d) = allow (pl_prefix pl) now sid (pl_windowMs pl) (pl_limit pl) hits
      in (hits', toResult pl d))"

definition session_reset :: "PerSessionRateLimiter \<Rightarrow> string option \<Rightarrow> rate_store \<Rightarrow> rate_store" where
  "session_reset pl sid hits = reset_store (pl_prefix pl) sid hits"

fun session_checks ::
  "PerSessionRateLimiter \<Rightarrow> (time \<times> string) list \<Rightarrow> rate_store \<Rightarrow> RateLimitResult list" where
  "session_checks pl [] hits = []"
| "session_checks pl ((now, sid) # calls) hits =
     (let (hits', r) = session_check pl now sid hits in r # session_checks pl calls hits')"

text \<open>\<^verbatim>\<open>resolveBackendFromEnv\<close>; the arguments are the environment variables it reads.\<close>

datatype RateLimitBackend = MemoryBackend | RedisBackend string

definition resolveBackendFromEnv :: "string option \<Rightarrow> string option \<Rightarrow> string option \<Rightarrow> RateLimitBackend" where
  "resolveBackendFromEnv backendEnv orchestratorUrl sharedUrl =
     (let providerEnv = map_option (map lower_char) backendEnv;
          redisUrl = (case orchestratorUrl of Some u \<Rightarrow> Some u | None \<Rightarrow> sharedUrl);
          hasUrl = (case redisUrl of None \<Rightarrow> False | Some u \<Rightarrow> u \<noteq> []);
          wantsRedis = (providerEnv = Some ''redis'' \<or> hasUrl \<and> providerEnv \<noteq> Some ''memory'')
      in if wantsRedis \<and> \<not> hasUrl then MemoryBackend
         else if wantsRedis \<and> hasUrl then RedisBackend (the redisUrl) else MemoryBackend)"

section \<open>The interface\<close>

text \<open>Decisions of a sequence of calls with one window and one maximum.\<close>

fun rate_run ::
  "(time \<Rightarrow> string \<Rightarrow> int \<Rightarrow> int \<Rightarrow> 's \<Rightarrow> 's \<times> RateLimitDecision) \<Rightarrow> int \<Rightarrow> int \<Rightarrow> (time \<times> string) list \<Rightarrow> 's
     \<Rightarrow> RateLimitDecision list" where
  "rate_run f w m [] s = []"
| "rate_run f w m ((now, k) # calls) s =
     (let (s', d) = f now k w m s in d # rate_run f w m calls s')"

text \<open>The granted calls for a key in the window of length \<open>w\<close> that ends at \<open>t\<close>.\<close>

definition granted_in ::
  "int \<Rightarrow> string \<Rightarrow> time \<Rightarrow> ((time \<times> string) \<times> RateLimitDecision) list \<Rightarrow> nat" where
  "granted_in w k t log =
     length (filter (\<lambda>((now, k'), d). k' = k \<and> rd_allowed d \<and> t - w < now \<and> now \<le> t) log)"

text \<open>\<open>granted s k\<close>: the grants for \<open>k\<close> the store remembers.  The laws: a call is allowed
  exactly when fewer than \<open>m\<close> remembered grants lie in the window that ends at the call;
  the remembered grants are afterwards those of that window and the new one; other keys
  are not affected; a refusal tells when the oldest of them leaves the window.\<close>

locale rate_limit_store =
  fixes store_allow :: "time \<Rightarrow> string \<Rightarrow> int \<Rightarrow> int \<Rightarrow> 's \<Rightarrow> 's \<times> RateLimitDecision"
    and granted :: "'s \<Rightarrow> string \<Rightarrow> time list"
  assumes allowed_iff: "rd_allowed (snd (store_allow now k w m s)) \<longleftrightarrow>
      int (length (filter (\<lambda>t. t > now - w) (granted s k))) < m"
    and granted_after: "granted (fst (store_allow now k w m s)) k' =
      (if k' = k then filter (\<lambda>t. t > now - w) (granted s k) @
         (if rd_allowed (snd (store_allow now k w m s)) then [now] else [])
       else granted s k')"
    and retry_after: "\<not> rd_allowed (snd (store_allow now k w m s)) \<Longrightarrow> 0 < m \<Longrightarrow>
      rd_retryAfterMs (snd (store_allow now k w m s)) =
        Some (max 0 (w - (now - Min (set (filter (\<lambda>t. t > now - w) (granted s k))))))"
begin

text \<open>\<open>H\<close> is the full list of grants for \<open>k\<close> up to time \<open>b\<close>; the store agrees with it on
  every window that ends at \<open>b\<close> or later.\<close>

definition agrees :: "int \<Rightarrow> string \<Rightarrow> time \<Rightarrow> time list \<Rightarrow> 's \<Rightarrow> bool" where
  "agrees w k b H s \<longleftrightarrow> (\<forall>t\<in>set H. t \<le> b) \<and>
     (\<forall>c\<ge>b - w. filter (\<lambda>t. t > c) (granted s k) = filter (\<lambda>t. t > c) H)"

definition window_bound :: "int \<Rightarrow> int \<Rightarrow> time list \<Rightarrow> bool" where
  "window_bound w m H \<longleftrightarrow> (\<forall>t. int (length (filter (\<lambda>x. t - w < x \<and> x \<le> t) H)) \<le> max 0 m)"

lemma agrees_step:
  assumes A: "agrees w k b H s" and "b \<le> now"
  shows "agrees w k now (H @ (if k' = k \<and> rd_allowed (snd (store_allow now k' w m s)) then [now] else []))
    (fst (store_allow now k' w m s))"
proof -
  have "\<forall>t\<in>set H. t \<le> now" using A \<open>b \<le> now\<close> by (auto simp: agrees_def)
  moreover have "filter (\<lambda>t. t > c) (granted s k) = filter (\<lambda>t. t > c) H" if "now - w \<le> c" for c
    using that A \<open>b \<le> now\<close> by (simp add: agrees_def)
  ultimately show ?thesis
    unfolding agrees_def granted_after by (auto simp: filter_gt_gt simp del: filter_filter)
qed

lemma window_bound_step:
  assumes A: "agrees w k b H s" and W: "window_bound w m H" and "b \<le> now"
  shows "window_bound w m (H @ (if rd_allowed (snd (store_allow now k w m s)) then [now] else []))"
proof (cases "rd_allowed (snd (store_allow now k w m s))")
  case True
  have recent: "filter (\<lambda>t. t > now - w) (granted s k) = filter (\<lambda>t. t > now - w) H"
    using A \<open>b \<le> now\<close> by (simp add: agrees_def)
  with True have few: "int (length (filter (\<lambda>t. t > now - w) H)) < m" by (simp add: allowed_iff)
  have "int (length (filter (\<lambda>x. t - w < x \<and> x \<le> t) (H @ [now]))) \<le> max 0 m" for t
  proof (cases "t < now")
    case True
    then show ?thesis using W by (simp add: window_bound_def)
  next
    case False
    have "length (filter (\<lambda>x. t - w < x \<and> x \<le> t) H) \<le> length (filter (\<lambda>x. x > now - w) H)"
      using False by (intro length_filter_mono) auto
    with few show ?thesis by simp
  qed
  with True show ?thesis by (simp add: window_bound_def)
qed (use W in simp)

lemma granted_in_Cons:
  "granted_in w k t (((now, k'), d) # log) =
     (if k' = k \<and> rd_allowed d \<and> t - w < now \<and> now \<le> t then 1 else 0) + granted_in w k t log"
  by (simp add: granted_in_def)

lemma rate_run_bound:
  assumes "agrees w k b H s" and "window_bound w m H" and "sorted (b # map fst calls)"
  shows "int (length (filter (\<lambda>x. t - w < x \<and> x \<le> t) H) + granted_in w k t (zip calls (rate_run store_allow w m calls s)))
    \<le> max 0 m"
  using assms
proof (induction calls arbitrary: b H s)
  case Nil
  then show ?case by (simp add: granted_in_def window_bound_def)
next
  case (Cons call calls)
  obtain now k' where call: "call = (now, k')" by (cases call)
  let ?d = "snd (store_allow now k' w m s)" and ?s = "fst (store_allow now k' w m s)"
  let ?H = "H @ (if k' = k \<and> rd_allowed ?d then [now] else [])"
  have b: "b \<le> now" using Cons.prems(3) call by simp
  have A: "agrees w k now ?H ?s" by (rule agrees_step [OF Cons.prems(1) b])
  have W: "window_bound w m ?H"
    using window_bound_step [OF Cons.prems(1,2) b] Cons.prems(2) by (cases "k' = k") auto
  have "sorted (now # map fst calls)" using Cons.prems(3) call by simp
  from Cons.IH [OF A W this] show ?case
    by (auto simp: call case_prod_unfold Let_def granted_in_Cons split: if_splits)
qed

text \<open>Starting from a store that remembers no grant of \<open>k\<close>, calls in time order are
  granted at most \<open>m\<close> times in any window of length \<open>w\<close>.\<close>

lemma sliding_window:
  assumes "granted s k = []" and "sorted (map fst calls)"
  shows "int (granted_in w k t (zip calls (rate_run store_allow w m calls s))) \<le> max 0 m"
proof (cases calls)
  case Nil
  then show ?thesis by (simp add: granted_in_def)
next
  case (Cons call cs)
  have "agrees w k (fst call) [] s" using assms(1) by (simp add: agrees_def)
  moreover have "window_bound w m []" by (simp add: window_bound_def)
  moreover have "sorted (fst call # map fst calls)" using assms(2) Cons by auto
  ultimately show ?thesis using rate_run_bound [of w k "fst call" "[]" s m calls t] by simp
qed

text \<open>A refused caller that comes back after \<^verbatim>\<open>retryAfterMs\<close> is admitted, and one that comes
  back earlier is refused again.\<close>

lemma retry_after_exact:
  assumes "\<not> rd_allowed (snd (store_allow now k w m s))" and "0 < m" and "int (length (granted s k)) \<le> m"
    and "rd_retryAfterMs (snd (store_allow now k w m s)) = Some d"
  shows "rd_allowed (snd (store_allow (now + d) k w m (fst (store_allow now k w m s))))"
    and "0 \<le> e \<Longrightarrow> e < d \<Longrightarrow>
      \<not> rd_allowed (snd (store_allow (now + e) k w m (fst (store_allow now k w m s))))"
proof -
  let ?r = "filter (\<lambda>t. t > now - w) (granted s k)"
  have len: "int (length ?r) = m"
    using assms(1,3) length_filter_le [of "\<lambda>t. t > now - w" "granted s k"]
    by (simp add: allowed_iff del: length_filter_le)
  then have ne: "?r \<noteq> []" using assms(2) by auto
  define o' where "o' = Min (set ?r)"
  have "set ?r \<noteq> {}" using ne by (metis set_empty)
  then have mem: "o' \<in> set ?r" unfolding o'_def by (intro Min_in finite_set)
  have le: "o' \<le> t" if "t \<in> set ?r" for t using that unfolding o'_def by (intro Min_le) auto
  have d: "d = w - (now - o')"
    using retry_after [OF assms(1,2)] assms(4) mem by (auto simp: o'_def)
  have g: "granted (fst (store_allow now k w m s)) k = ?r"
    using assms(1) by (simp add: granted_after)
  have "length (filter (\<lambda>t. t > o') ?r) < length ?r"
    using mem by (intro length_filter_less [of o']) auto
  then show "rd_allowed (snd (store_allow (now + d) k w m (fst (store_allow now k w m s))))"
    using len by (simp add: allowed_iff g d del: filter_filter)
  show "\<not> rd_allowed (snd (store_allow (now + e) k w m (fst (store_allow now k w m s))))"
    if "0 \<le> e" "e < d"
  proof -
    have "filter (\<lambda>t. t > now + e - w) ?r = ?r"
      using le that(2) unfolding d by (intro filter_True) fastforce
    then show ?thesis using len by (simp add: allowed_iff g del: filter_filter)
  qed
qed

end

section \<open>The memory store implements the interface\<close>

lemma namespacedKey_inj [simp]: "namespacedKey pre k = namespacedKey pre k' \<longleftrightarrow> k = k'"
  by (simp add: namespacedKey_def)

definition memory_granted :: "string \<Rightarrow> rate_store \<Rightarrow> string \<Rightarrow> time list" where
  "memory_granted pre hits k = jget_or [] hits (namespacedKey pre k)"

interpretation memory_store: rate_limit_store "allow pre" "memory_granted pre" for pre
proof
  fix now k w m s k'
  show "rd_allowed (snd (allow pre now k w m s)) \<longleftrightarrow>
      int (length (filter (\<lambda>t. t > now - w) (memory_granted pre s k))) < m"
    by (simp add: allow_def Let_def memory_granted_def)
  show "memory_granted pre (fst (allow pre now k w m s)) k' =
      (if k' = k then filter (\<lambda>t. t > now - w) (memory_granted pre s k) @
         (if rd_allowed (snd (allow pre now k w m s)) then [now] else [])
       else memory_granted pre s k')"
    by (simp add: allow_def Let_def memory_granted_def jget_or_def jmap_simps)
  show "rd_retryAfterMs (snd (allow pre now k w m s)) =
      Some (max 0 (w - (now - Min (set (filter (\<lambda>t. t > now - w) (memory_granted pre s k))))))"
    if "\<not> rd_allowed (snd (allow pre now k w m s))" and "0 < m"
    using that by (auto simp: allow_def Let_def memory_granted_def split: if_splits)
qed

lemma session_checks_run:
  "map rr_allowed (session_checks pl calls hits) =
     map rd_allowed (rate_run (allow (pl_prefix pl)) (pl_windowMs pl) (pl_limit pl) calls hits)"
  by (induction pl calls hits rule: session_checks.induct)
     (simp_all add: session_check_def toResult_def case_prod_unfold Let_def)

lemma filter_zip_map:
  "map f xs = map g ys \<Longrightarrow>
     length (filter (\<lambda>(c, x). P c (f x)) (zip cs xs)) = length (filter (\<lambda>(c, y). P c (g y)) (zip cs ys))"
  by (induction cs arbitrary: xs ys) (auto simp: zip_Cons1 Cons_eq_map_conv map_eq_Cons_conv split: list.splits)

text \<open>
  The per-session limiter enforces its limit over every window: whatever sessions
  call \<^verbatim>\<open>check\<close> and at whatever times, no session is allowed more than \<^verbatim>\<open>limit\<close> requests
  in any interval of length \<^verbatim>\<open>windowMs\<close>.
\<close>

theorem session_limit_enforced:
  assumes "sorted (map fst calls)"
  shows "int (length (filter (\<lambda>((now, s), r). s = sid \<and> rr_allowed r \<and> t - pl_windowMs pl < now \<and> now \<le> t)
      (zip calls (session_checks pl calls [])))) \<le> max 0 (pl_limit pl)"
proof -
  let ?P = "\<lambda>(now, s) a. s = sid \<and> a \<and> t - pl_windowMs pl < now \<and> now \<le> t"
  let ?ds = "rate_run (allow (pl_prefix pl)) (pl_windowMs pl) (pl_limit pl) calls []"
  have "length (filter (\<lambda>(c, r). ?P c (rr_allowed r)) (zip calls (session_checks pl calls []))) =
      length (filter (\<lambda>(c, d). ?P c (rd_allowed d)) (zip calls ?ds))"
    by (rule filter_zip_map [OF session_checks_run])
  moreover have "int (granted_in (pl_windowMs pl) sid t (zip calls ?ds)) \<le> max 0 (pl_limit pl)"
    by (rule memory_store.sliding_window [OF _ assms]) (simp add: memory_granted_def jget_or_def)
  ultimately show ?thesis by (simp add: granted_in_def case_prod_unfold)
qed

definition demo_limiter :: PerSessionRateLimiter where
  "demo_limiter = \<lparr>pl_limit = 2, pl_windowMs = 100, pl_prefix = ''p''\<rparr>"

definition demo_calls :: "(time \<times> string) list" where
  "demo_calls = [(0, ''a''), (10, ''a''), (20, ''b''), (30, ''a''), (105, ''a'')]"

theorem session_limit_enforced_witness:
  "length (filter (\<lambda>((now, s), r). s = ''a'' \<and> rr_allowed r \<and> -60 < now \<and> now \<le> 40)
     (zip demo_calls (session_checks demo_limiter demo_calls []))) \<le> 2"
  using session_limit_enforced [of demo_calls "''a''" 40 demo_limiter]
  by (simp add: demo_calls_def demo_limiter_def)

text \<open>
  The advertised \<^verbatim>\<open>retryAfterMs\<close> is exact: a caller refused by the memory store that
  comes back after that delay is admitted, and one that comes back any earlier is refused
  again.
\<close>

theorem retryAfter_exact:
  assumes "\<not> rd_allowed (snd (allow pre now k w m hits))" and "0 < m"
    and "int (length (memory_granted pre hits k)) \<le> m"
    and "rd_retryAfterMs (snd (allow pre now k w m hits)) = Some d" and "0 \<le> e" and "e < d"
  shows "rd_allowed (snd (allow pre (now + d) k w m (fst (allow pre now k w m hits)))) \<and>
    \<not> rd_allowed (snd (allow pre (now + e) k w m (fst (allow pre now k w m hits))))"
  using memory_store.retry_after_exact [OF assms(1-4)] assms(5,6) by blast

theorem retryAfter_exact_witness:
  "rd_allowed (snd (allow ''p'' 101 ''a'' 100 1 (fst (allow ''p'' 60 ''a'' 100 1 [(''p:a'', [1])])))) \<and>
   \<not> rd_allowed (snd (allow ''p'' 100 ''a'' 100 1 (fst (allow ''p'' 60 ''a'' 100 1 [(''p:a'', [1])]))))"
  using retryAfter_exact [of "''p''" 60 "''a''" 100 1 "[(''p:a'', [1])]" 41 40]
  by (simp add: allow_def namespacedKey_def jget_or_def memory_granted_def)

end
