(* ===== verification/Circuit_Breaker.thy ===== *)
theory Circuit_Breaker
  imports Prelude
begin

text \<open>
  The circuit breaker of \<^verbatim>\<open>services/orchestrator/src/providers/resilience.ts\<close>.  A call of
  \<^verbatim>\<open>execute\<close> keeps a reference to the state object of its key while its action runs, and
  other calls and \<^verbatim>\<open>reset\<close> may come in between: the map holds references and the objects
  live in a store.  \<open>breaker_begin\<close> is \<^verbatim>\<open>execute\<close> up to the call of the action,
  \<open>breaker_success\<close> and \<open>breaker_failure\<close> are its two continuations; both use the time at
  which the call began.
\<close>

section \<open>Definitions\<close>

datatype breaker_status = Closed | Open | HalfOpen

record BreakerState =
  bs_state :: breaker_status
  bs_consecutiveFailures :: int
  bs_openedAt :: "time option"
  bs_lastError :: "string option"

record CircuitBreakerOptions =
  co_failureThreshold :: int
  co_resetTimeoutMs :: int

record CircuitBreaker =
  cb_options :: CircuitBreakerOptions
  cb_states :: "(string, nat) jsmap"
  cb_objects :: "(nat, BreakerState) jsmap"
  cb_next :: nat

definition new_CircuitBreaker :: "CircuitBreakerOptions \<Rightarrow> CircuitBreaker" where
  "new_CircuitBreaker o' = \<lparr>cb_options = o', cb_states = [], cb_objects = [], cb_next = 0\<rparr>"

definition initial_breaker :: BreakerState where
  "initial_breaker = \<lparr>bs_state = Closed, bs_consecutiveFailures = 0, bs_openedAt = None, bs_lastError = None\<rparr>"

definition cb_threshold :: "CircuitBreaker \<Rightarrow> int" where
  "cb_threshold cb = max 1 (co_failureThreshold (cb_options cb))"

definition getState :: "string \<Rightarrow> CircuitBreaker \<Rightarrow> CircuitBreaker \<times> nat" where
  "getState key cb =
     (case map_of (cb_states cb) key of
        Some ref \<Rightarrow> (cb, ref)
      | None \<Rightarrow> (cb\<lparr>cb_states := jset key (cb_next cb) (cb_states cb),
                  cb_objects := jset (cb_next cb) initial_breaker (cb_objects cb),
                  cb_next := cb_next cb + 1\<rparr>, cb_next cb))"

definition must_reject :: "time \<Rightarrow> CircuitBreakerOptions \<Rightarrow> BreakerState \<Rightarrow> bool" where
  "must_reject now o' s \<longleftrightarrow> bs_state s = Open \<and>
     (case bs_openedAt s of None \<Rightarrow> False | Some t \<Rightarrow> now - t < co_resetTimeoutMs o')"

text \<open>\<open>None\<close>: the call is rejected with \<^verbatim>\<open>createOpenError\<close>; \<open>Some ref\<close>: the action runs.\<close>

definition breaker_begin :: "time \<Rightarrow> string \<Rightarrow> CircuitBreaker \<Rightarrow> CircuitBreaker \<times> nat option" where
  "breaker_begin now key cb =
     (let (cb1, ref) = getState key cb
      in case map_of (cb_objects cb1) ref of
           None \<Rightarrow> (cb1, None)
         | Some s \<Rightarrow>
             if must_reject now (cb_options cb1) s then (cb1, None)
             else (cb1\<lparr>cb_objects := jset ref
                     (if bs_state s = Open then s\<lparr>bs_state := HalfOpen\<rparr> else s) (cb_objects cb1)\<rparr>, Some ref))"

definition succeed :: "BreakerState \<Rightarrow> BreakerState" where
  "succeed s = s\<lparr>bs_consecutiveFailures := 0, bs_openedAt := None, bs_state := Closed, bs_lastError := None\<rparr>"

definition fail_once :: "int \<Rightarrow> time \<Rightarrow> string \<Rightarrow> BreakerState \<Rightarrow> BreakerState" where
  "fail_once threshold now err s =
     (let s1 = s\<lparr>bs_lastError := Some err\<rparr>
      in if bs_state s1 = HalfOpen
         then s1\<lparr>bs_state := Open, bs_openedAt := Some now, bs_consecutiveFailures := threshold\<rparr>
         else let s2 = s1\<lparr>bs_consecutiveFailures := bs_consecutiveFailures s1 + 1\<rparr>
              in if bs_consecutiveFailures s2 \<ge> threshold
                 then s2\<lparr>bs_state := Open, bs_openedAt := Some now\<rparr> else s2)"

definition breaker_success :: "string \<Rightarrow> nat \<Rightarrow> CircuitBreaker \<Rightarrow> CircuitBreaker" where
  "breaker_success key ref cb =
     cb\<lparr>cb_objects := jmodify ref succeed (cb_objects cb), cb_states := jset key ref (cb_states cb)\<rparr>"

definition breaker_failure :: "string \<Rightarrow> nat \<Rightarrow> time \<Rightarrow> string \<Rightarrow> CircuitBreaker \<Rightarrow> CircuitBreaker" where
  "breaker_failure key ref now err cb =
     cb\<lparr>cb_objects := jmodify ref (fail_once (cb_threshold cb) now err) (cb_objects cb),
        cb_states := jset key ref (cb_states cb)\<rparr>"

definition reset_breaker :: "string option \<Rightarrow> CircuitBreaker \<Rightarrow> CircuitBreaker" where
  "reset_breaker key cb =
     (case key of None \<Rightarrow> cb\<lparr>cb_states := []\<rparr> | Some k \<Rightarrow> cb\<lparr>cb_states := jdelete k (cb_states cb)\<rparr>)"

inductive breaker_step :: "CircuitBreaker \<Rightarrow> CircuitBreaker \<Rightarrow> bool" where
  begun: "breaker_step cb (fst (breaker_begin now key cb))"
| succeeded: "jhas (cb_objects cb) ref \<Longrightarrow> breaker_step cb (breaker_success key ref cb)"
| failed: "jhas (cb_objects cb) ref \<Longrightarrow> breaker_step cb (breaker_failure key ref now err cb)"
| was_reset: "breaker_step cb (reset_breaker key cb)"

inductive breaker_reach :: "CircuitBreakerOptions \<Rightarrow> CircuitBreaker \<Rightarrow> bool" for o' where
  "breaker_reach o' (new_CircuitBreaker o')"
| "breaker_reach o' cb \<Longrightarrow> breaker_step cb cb' \<Longrightarrow> breaker_reach o' cb'"

section \<open>The state invariant under any interleaving\<close>

definition breaker_ok :: "int \<Rightarrow> BreakerState \<Rightarrow> bool" where
  "breaker_ok threshold s \<longleftrightarrow> 0 \<le> bs_consecutiveFailures s \<and>
     (if bs_state s = Closed then bs_consecutiveFailures s < threshold \<and> bs_openedAt s = None
      else bs_consecutiveFailures s \<ge> threshold \<and> bs_openedAt s \<noteq> None)"

definition cb_inv :: "CircuitBreaker \<Rightarrow> bool" where
  "cb_inv cb \<longleftrightarrow> (\<forall>ref s. map_of (cb_objects cb) ref = Some s \<longrightarrow> breaker_ok (cb_threshold cb) s) \<and>
     (\<forall>key ref. map_of (cb_states cb) key = Some ref \<longrightarrow> jhas (cb_objects cb) ref) \<and>
     (\<forall>ref\<ge>cb_next cb. \<not> jhas (cb_objects cb) ref)"

lemma succeed_eq: "succeed s = initial_breaker"
  by (rule BreakerState.equality) (simp_all add: succeed_def initial_breaker_def)

lemma breaker_ok_initial: "breaker_ok (cb_threshold cb) initial_breaker"
  by (simp add: breaker_ok_def initial_breaker_def cb_threshold_def)

lemma breaker_ok_succeed: "breaker_ok (cb_threshold cb) s \<Longrightarrow> breaker_ok (cb_threshold cb) (succeed s)"
  by (simp add: breaker_ok_def succeed_def cb_threshold_def)

lemma breaker_ok_fail: "breaker_ok (cb_threshold cb) s \<Longrightarrow> breaker_ok (cb_threshold cb) (fail_once (cb_threshold cb) now err s)"
  by (cases "bs_state s") (auto simp: breaker_ok_def fail_once_def Let_def cb_threshold_def)

lemma breaker_ok_half: "breaker_ok th s \<Longrightarrow> bs_state s = Open \<Longrightarrow> breaker_ok th (s\<lparr>bs_state := HalfOpen\<rparr>)"
  by (simp add: breaker_ok_def)

lemma cb_threshold_update [simp]:
  "cb_threshold (cb_states_update f cb) = cb_threshold cb"
  "cb_threshold (cb_objects_update g cb) = cb_threshold cb"
  "cb_threshold (cb_next_update h cb) = cb_threshold cb"
  by (simp_all add: cb_threshold_def)

lemma getState_inv:
  assumes "cb_inv cb" and "getState key cb = (cb', ref)"
  shows "cb_inv cb' \<and> jhas (cb_objects cb') ref \<and> map_of (cb_states cb') key = Some ref"
  using assms breaker_ok_initial
  by (auto simp: getState_def cb_inv_def jmap_simps split: option.splits if_splits)

lemma cb_inv_modify:
  assumes "cb_inv cb" and "jhas (cb_objects cb) ref"
    and "\<And>s. breaker_ok (cb_threshold cb) s \<Longrightarrow> breaker_ok (cb_threshold cb) (f s)"
  shows "cb_inv (cb\<lparr>cb_objects := jmodify ref f (cb_objects cb), cb_states := jset key ref (cb_states cb)\<rparr>)"
  using assms by (auto simp: cb_inv_def jmap_simps)

lemma breaker_begin_inv: "cb_inv cb \<Longrightarrow> cb_inv (fst (breaker_begin now key cb))"
proof -
  assume inv: "cb_inv cb"
  obtain cb1 ref where g: "getState key cb = (cb1, ref)" by (cases "getState key cb")
  have I: "cb_inv cb1" "jhas (cb_objects cb1) ref" using getState_inv [OF inv g] by auto
  then obtain s where s: "map_of (cb_objects cb1) ref = Some s" by auto
  have "breaker_ok (cb_threshold cb1) s" using I(1) s by (auto simp: cb_inv_def)
  then have "breaker_ok (cb_threshold cb1) (if bs_state s = Open then s\<lparr>bs_state := HalfOpen\<rparr> else s)"
    by (auto intro: breaker_ok_half)
  then show ?thesis using I s g by (auto simp: breaker_begin_def cb_inv_def jmap_simps)
qed

lemma breaker_step_inv: "breaker_step cb cb' \<Longrightarrow> cb_inv cb \<Longrightarrow> cb_inv cb' \<and> cb_options cb' = cb_options cb"
proof (induction rule: breaker_step.induct)
  case (begun cb now key)
  moreover have "cb_options (fst (breaker_begin now key cb)) = cb_options cb"
    by (simp add: breaker_begin_def getState_def Let_def split: option.split prod.split)
  ultimately show ?case by (simp add: breaker_begin_inv)
next
  case (succeeded cb ref key)
  then show ?case by (simp add: breaker_success_def cb_inv_modify breaker_ok_succeed)
next
  case (failed cb ref key now err)
  then show ?case by (simp add: breaker_failure_def cb_inv_modify breaker_ok_fail)
next
  case (was_reset cb key)
  then show ?case by (auto simp: reset_breaker_def cb_inv_def jmap_simps split: option.split)
qed

lemma breaker_reach_inv: "breaker_reach o' cb \<Longrightarrow> cb_inv cb \<and> cb_options cb = o'"
proof (induction rule: breaker_reach.induct)
  case 1
  then show ?case by (simp add: cb_inv_def new_CircuitBreaker_def)
next
  case (2 cb cb')
  then show ?case using breaker_step_inv by auto
qed

text \<open>
  Whatever calls overlap and whenever the breaker is reset, a key in the closed state
  has seen fewer than \<^verbatim>\<open>failureThreshold\<close> consecutive failures and carries no opening
  time, and a key that is open or half open has reached the threshold and carries one, so
  an open breaker always has the time from which its reset timeout counts.
\<close>

theorem breaker_state_invariant:
  assumes "breaker_reach o' cb" and "map_of (cb_states cb) key = Some ref"
  shows "case map_of (cb_objects cb) ref of
      None \<Rightarrow> False
    | Some s \<Rightarrow> 0 \<le> bs_consecutiveFailures s \<and>
        (if bs_state s = Closed
         then bs_consecutiveFailures s < max 1 (co_failureThreshold o') \<and> bs_openedAt s = None
         else bs_consecutiveFailures s \<ge> max 1 (co_failureThreshold o') \<and> bs_openedAt s \<noteq> None)"
proof -
  have inv: "cb_inv cb" and o': "cb_options cb = o'" using breaker_reach_inv [OF assms(1)] by auto
  then obtain s where "map_of (cb_objects cb) ref = Some s" and "breaker_ok (cb_threshold cb) s"
    using assms(2) by (fastforce simp: cb_inv_def)
  then show ?thesis by (simp add: breaker_ok_def cb_threshold_def o' split: if_splits)
qed

definition demo_breaker :: CircuitBreaker where
  "demo_breaker = fst (breaker_begin 5 ''p'' (new_CircuitBreaker \<lparr>co_failureThreshold = 2, co_resetTimeoutMs = 100\<rparr>))"

theorem breaker_state_invariant_witness:
  "case map_of (cb_objects demo_breaker) 0 of
     None \<Rightarrow> False | Some s \<Rightarrow> 0 \<le> bs_consecutiveFailures s"
proof -
  have r: "breaker_reach \<lparr>co_failureThreshold = 2, co_resetTimeoutMs = 100\<rparr> demo_breaker"
    unfolding demo_breaker_def by (rule breaker_reach.intros(2) [OF breaker_reach.intros(1) begun])
  have m: "map_of (cb_states demo_breaker) ''p'' = Some 0" by code_simp
  obtain s where "map_of (cb_objects demo_breaker) 0 = Some s"
    using breaker_state_invariant [OF r m] by (cases "map_of (cb_objects demo_breaker) 0") auto
  with breaker_state_invariant [OF r m] show ?thesis by simp
qed

section \<open>Calls one after the other\<close>

definition breaker_view :: "string \<Rightarrow> CircuitBreaker \<Rightarrow> BreakerState" where
  "breaker_view key cb =
     (case map_of (cb_states cb) key of
        None \<Rightarrow> initial_breaker
      | Some ref \<Rightarrow> (case map_of (cb_objects cb) ref of None \<Rightarrow> initial_breaker | Some s \<Rightarrow> s))"

text \<open>A whole call of \<^verbatim>\<open>execute\<close> whose action succeeds (\<open>None\<close>) or throws; the result tells
  whether the action was run.\<close>

definition breaker_execute ::
  "time \<Rightarrow> string \<Rightarrow> string option \<Rightarrow> CircuitBreaker \<Rightarrow> CircuitBreaker \<times> bool" where
  "breaker_execute now key err cb =
     (case breaker_begin now key cb of
        (cb1, None) \<Rightarrow> (cb1, False)
      | (cb1, Some ref) \<Rightarrow>
          ((case err of None \<Rightarrow> breaker_success key ref cb1
            | Some e \<Rightarrow> breaker_failure key ref now e cb1), True))"

fun failing_calls :: "string \<Rightarrow> (time \<times> string) list \<Rightarrow> CircuitBreaker \<Rightarrow> CircuitBreaker \<times> bool list" where
  "failing_calls key [] cb = (cb, [])"
| "failing_calls key ((now, e) # calls) cb =
     (let (cb1, ran) = breaker_execute now key (Some e) cb;
          (cb2, rans) = failing_calls key calls cb1
      in (cb2, ran # rans))"

lemma getState_view:
  assumes "cb_inv cb" and "getState key cb = (cb', ref)"
  shows "map_of (cb_objects cb') ref = Some (breaker_view key cb) \<and> cb_options cb' = cb_options cb \<and>
    map_of (cb_states cb') key = Some ref"
proof (cases "map_of (cb_states cb) key")
  case None
  with assms show ?thesis by (auto simp: getState_def breaker_view_def jmap_simps)
next
  case (Some r)
  then obtain s where "map_of (cb_objects cb) r = Some s" using assms(1) unfolding cb_inv_def by (metis not_None_eq)
  with Some assms(2) show ?thesis by (simp add: getState_def breaker_view_def)
qed

lemma breaker_execute_spec:
  assumes inv: "cb_inv cb"
  shows "cb_inv (fst (breaker_execute now key err cb)) \<and>
    cb_options (fst (breaker_execute now key err cb)) = cb_options cb \<and>
    snd (breaker_execute now key err cb) = (\<not> must_reject now (cb_options cb) (breaker_view key cb)) \<and>
    breaker_view key (fst (breaker_execute now key err cb)) =
      (let s = breaker_view key cb;
           s1 = (if bs_state s = Open then s\<lparr>bs_state := HalfOpen\<rparr> else s)
       in if must_reject now (cb_options cb) s then s
          else case err of None \<Rightarrow> succeed s1 | Some e \<Rightarrow> fail_once (cb_threshold cb) now e s1)"
proof -
  obtain cb1 ref where g: "getState key cb = (cb1, ref)" by (cases "getState key cb")
  note V = getState_view [OF inv g]
  have I1: "cb_inv cb1" using getState_inv [OF inv g] by simp
  have th: "cb_threshold cb1 = cb_threshold cb" using V by (simp add: cb_threshold_def)
  show ?thesis
  proof (cases "must_reject now (cb_options cb) (breaker_view key cb)")
    case True
    then show ?thesis
      using V g I1 by (simp add: breaker_execute_def breaker_begin_def breaker_view_def)
  next
    case False
    let ?s = "if bs_state (breaker_view key cb) = Open then (breaker_view key cb)\<lparr>bs_state := HalfOpen\<rparr>
      else breaker_view key cb"
    let ?cb = "cb1\<lparr>cb_objects := jset ref ?s (cb_objects cb1)\<rparr>"
    have b: "breaker_begin now key cb = (?cb, Some ref)"
      using V g False by (simp add: breaker_begin_def)
    have "cb_inv ?cb" using breaker_begin_inv [OF inv, of now key] b by simp
    then have "cb_inv (breaker_success key ref ?cb)" and "cb_inv (breaker_failure key ref now e ?cb)" for e
      using breaker_step_inv [OF succeeded, of ?cb ref key] breaker_step_inv [OF failed, of ?cb ref key now e]
      by (simp_all add: jmap_simps)
    then show ?thesis
      using False b V th
      by (auto simp: breaker_execute_def breaker_success_def breaker_failure_def breaker_view_def jmap_simps
          Let_def split: option.split)
  qed
qed

lemma failing_calls_append:
  "failing_calls key (calls @ [(t, e)]) cb =
     (fst (breaker_execute t key (Some e) (fst (failing_calls key calls cb))),
      snd (failing_calls key calls cb) @ [snd (breaker_execute t key (Some e) (fst (failing_calls key calls cb)))])"
  by (induction calls arbitrary: cb) (auto simp: case_prod_unfold Let_def)

lemma failing_calls_below:
  assumes "cb_inv cb" and "bs_state (breaker_view key cb) = Closed"
    and "bs_consecutiveFailures (breaker_view key cb) + int (length calls) < cb_threshold cb"
  shows "cb_inv (fst (failing_calls key calls cb)) \<and>
    cb_options (fst (failing_calls key calls cb)) = cb_options cb \<and>
    bs_state (breaker_view key (fst (failing_calls key calls cb))) = Closed \<and>
    bs_consecutiveFailures (breaker_view key (fst (failing_calls key calls cb))) =
      bs_consecutiveFailures (breaker_view key cb) + int (length calls) \<and>
    snd (failing_calls key calls cb) = replicate (length calls) True"
  using assms
proof (induction calls arbitrary: cb)
  case (Cons call calls)
  obtain now e where call: "call = (now, e)" by (cases call)
  let ?cb = "fst (breaker_execute now key (Some e) cb)"
  have B: "cb_inv ?cb" "cb_options ?cb = cb_options cb" "snd (breaker_execute now key (Some e) cb)"
    "breaker_view key ?cb = fail_once (cb_threshold cb) now e (breaker_view key cb)"
    using breaker_execute_spec [OF Cons.prems(1), of now key "Some e"] Cons.prems(2)
    by (auto simp: must_reject_def Let_def)
  have th: "cb_threshold ?cb = cb_threshold cb" using B(2) by (simp add: cb_threshold_def)
  have "bs_state (breaker_view key ?cb) = Closed \<and>
      bs_consecutiveFailures (breaker_view key ?cb) = bs_consecutiveFailures (breaker_view key cb) + 1"
    using Cons.prems(2,3) B(4) by (simp add: fail_once_def Let_def)
  with Cons.IH [OF B(1)] Cons.prems(3) th B(2,3) show ?case
    by (simp add: call case_prod_unfold Let_def)
qed simp

text \<open>
  Calls one after the other on a fresh breaker: the first \<^verbatim>\<open>failureThreshold\<close> failing
  actions are all run; from then on, until \<^verbatim>\<open>resetTimeoutMs\<close> after the start of the last
  of them, calls are rejected without running their action; after that a call is let
  through, and its success closes the breaker and clears the failure count.
\<close>

theorem breaker_opens_and_recovers:
  assumes "int (length calls) = max 1 (co_failureThreshold o') - 1"
  shows "case failing_calls key (calls @ [(t, e)]) (new_CircuitBreaker o') of
    (cb, rans) \<Rightarrow> rans = replicate (length calls + 1) True \<and>
      snd (breaker_execute now key err cb) = (now - t \<ge> co_resetTimeoutMs o') \<and>
      (if now - t \<ge> co_resetTimeoutMs o'
       then breaker_view key (fst (breaker_execute now key None cb)) = initial_breaker
       else breaker_view key (fst (breaker_execute now key None cb)) = breaker_view key cb)"
proof -
  let ?cb0 = "new_CircuitBreaker o'" let ?cb1 = "fst (failing_calls key calls ?cb0)"
  let ?cb2 = "fst (breaker_execute t key (Some e) ?cb1)"
  have inv0: "cb_inv ?cb0" by (simp add: cb_inv_def new_CircuitBreaker_def)
  have v0: "breaker_view key ?cb0 = initial_breaker" by (simp add: breaker_view_def new_CircuitBreaker_def)
  have th0: "cb_threshold ?cb0 = max 1 (co_failureThreshold o')" "cb_options ?cb0 = o'"
    by (simp_all add: cb_threshold_def new_CircuitBreaker_def)
  note S1 = failing_calls_below [OF inv0, of key calls]
  have S: "cb_inv ?cb1" "cb_options ?cb1 = o'" "bs_state (breaker_view key ?cb1) = Closed"
    "bs_consecutiveFailures (breaker_view key ?cb1) + 1 = max 1 (co_failureThreshold o')"
    "snd (failing_calls key calls ?cb0) = replicate (length calls) True"
    using S1 v0 th0 assms by (auto simp: initial_breaker_def)
  have th1: "cb_threshold ?cb1 = max 1 (co_failureThreshold o')" using S(2) by (simp add: cb_threshold_def)
  have E: "cb_inv ?cb2" "cb_options ?cb2 = o'" "snd (breaker_execute t key (Some e) ?cb1)"
    "breaker_view key ?cb2 = fail_once (cb_threshold ?cb1) t e (breaker_view key ?cb1)"
    using breaker_execute_spec [OF S(1), of t key "Some e"] S(2,3) by (auto simp: must_reject_def Let_def)
  have V: "bs_state (breaker_view key ?cb2) = Open" "bs_openedAt (breaker_view key ?cb2) = Some t"
    using E(4) S(3,4) th1 by (simp_all add: fail_once_def Let_def)
  have "failing_calls key (calls @ [(t, e)]) ?cb0 =
      (?cb2, snd (failing_calls key calls ?cb0) @ [snd (breaker_execute t key (Some e) ?cb1)])"
    by (rule failing_calls_append)
  then show ?thesis
    using S(5) E breaker_execute_spec [OF E(1), of now key err] breaker_execute_spec [OF E(1), of now key None] V
    by (auto simp: must_reject_def succeed_eq Let_def replicate_append_same)
qed

theorem breaker_opens_and_recovers_witness:
  "case failing_calls ''p'' ([(0, ''x'')] @ [(7, ''y'')])
      (new_CircuitBreaker \<lparr>co_failureThreshold = 2, co_resetTimeoutMs = 100\<rparr>) of
    (cb, rans) \<Rightarrow> rans = [True, True] \<and> \<not> snd (breaker_execute 50 ''p'' None cb)"
  using breaker_opens_and_recovers [where calls = "[(0, ''x'')]" and o' = "\<lparr>co_failureThreshold = 2, co_resetTimeoutMs = 100\<rparr>"
      and key = "''p''" and t = 7 and e = "''y''" and now = 50 and err = None]
  by (simp add: case_prod_unfold)

end
