(* ===== verification/Sse_Quota.thy ===== *)
theory Sse_Quota
  imports Prelude
begin

text \<open>
  The quota on open event streams, \<^verbatim>\<open>services/orchestrator/src/server/SseQuotaManager.ts\<close>:
  counters per address and per subject, and the release closures handed out by \<^verbatim>\<open>acquire\<close>,
  each with its own \<^verbatim>\<open>released\<close> flag.
\<close>

section \<open>Definitions\<close>

record SseQuotaIdentity =
  qi_ip :: "string option"
  qi_subjectId :: "string option"

record SseQuotaManager =
  sq_perIpLimit :: int
  sq_perSubjectLimit :: int
  sq_ipCounts :: "(string, int) jsmap"
  sq_subjectCounts :: "(string, int) jsmap"

record SseRelease =
  sr_ip :: "string option"
  sr_subject :: "string option"
  sr_released :: bool

definition new_SseQuotaManager :: "int \<Rightarrow> int \<Rightarrow> SseQuotaManager" where
  "new_SseQuotaManager perIp perSubject =
     \<lparr>sq_perIpLimit = max 0 perIp, sq_perSubjectLimit = max 0 perSubject, sq_ipCounts = [], sq_subjectCounts = []\<rparr>"

definition normalizeKey :: "string option \<Rightarrow> string option" where
  "normalizeKey v = (case v of None \<Rightarrow> None | Some s \<Rightarrow> if trim s = '''' then None else Some (trim s))"

text \<open>One counter of the manager, as \<^verbatim>\<open>acquire\<close> checks, raises and lowers it; a limit of
  zero, or a missing key, switches it off.\<close>

definition at_limit :: "int \<Rightarrow> string option \<Rightarrow> (string, int) jsmap \<Rightarrow> bool" where
  "at_limit limit key m = (case key of None \<Rightarrow> False | Some k \<Rightarrow> limit > 0 \<and> jget_or 0 m k \<ge> limit)"

definition incrementCounter :: "int \<Rightarrow> string option \<Rightarrow> (string, int) jsmap \<Rightarrow> (string, int) jsmap" where
  "incrementCounter limit key m = (case key of None \<Rightarrow> m
     | Some k \<Rightarrow> if limit > 0 then jset k (jget_or 0 m k + 1) m else m)"

definition decrementCounter :: "string \<Rightarrow> (string, int) jsmap \<Rightarrow> (string, int) jsmap" where
  "decrementCounter k m = (case map_of m k of None \<Rightarrow> m
     | Some c \<Rightarrow> if c \<le> 1 then jdelete k m else jset k (c - 1) m)"

definition release_counter :: "int \<Rightarrow> string option \<Rightarrow> (string, int) jsmap \<Rightarrow> (string, int) jsmap" where
  "release_counter limit key m = (case key of None \<Rightarrow> m | Some k \<Rightarrow> if limit > 0 then decrementCounter k m else m)"

definition acquire :: "SseQuotaIdentity \<Rightarrow> SseQuotaManager \<Rightarrow> SseQuotaManager \<times> SseRelease option" where
  "acquire identity m =
     (let ipKey = normalizeKey (qi_ip identity); subjectKey = normalizeKey (qi_subjectId identity)
      in if at_limit (sq_perSubjectLimit m) subjectKey (sq_subjectCounts m) then (m, None)
         else if at_limit (sq_perIpLimit m) ipKey (sq_ipCounts m) then (m, None)
         else (m\<lparr>sq_subjectCounts := incrementCounter (sq_perSubjectLimit m) subjectKey (sq_subjectCounts m),
                 sq_ipCounts := incrementCounter (sq_perIpLimit m) ipKey (sq_ipCounts m)\<rparr>,
               Some \<lparr>sr_ip = ipKey, sr_subject = subjectKey, sr_released = False\<rparr>))"

definition release :: "SseRelease \<Rightarrow> SseQuotaManager \<Rightarrow> SseQuotaManager \<times> SseRelease" where
  "release h m =
     (if sr_released h then (m, h)
      else (m\<lparr>sq_subjectCounts := release_counter (sq_perSubjectLimit m) (sr_subject h) (sq_subjectCounts m),
              sq_ipCounts := release_counter (sq_perIpLimit m) (sr_ip h) (sq_ipCounts m)\<rparr>, h\<lparr>sr_released := True\<rparr>))"

text \<open>A life of the manager: streams are opened and closed in any order, a closure possibly
  called more than once.\<close>

datatype SseOp = Open SseQuotaIdentity | Close nat

fun sse_op :: "SseOp \<Rightarrow> SseQuotaManager \<times> SseRelease list \<Rightarrow> SseQuotaManager \<times> SseRelease list" where
  "sse_op (Open identity) (m, hs) =
     (case acquire identity m of (m', None) \<Rightarrow> (m', hs) | (m', Some h) \<Rightarrow> (m', hs @ [h]))"
| "sse_op (Close n) (m, hs) =
     (if n < length hs then (let (m', h) = release (hs ! n) m in (m', hs[n := h])) else (m, hs))"

definition sse_run :: "int \<Rightarrow> int \<Rightarrow> SseOp list \<Rightarrow> SseQuotaManager \<times> SseRelease list" where
  "sse_run perIp perSubject ops = fold sse_op ops (new_SseQuotaManager perIp perSubject, [])"

section \<open>The counters count the open streams\<close>

definition open_streams :: "(SseRelease \<Rightarrow> string option) \<Rightarrow> string \<Rightarrow> SseRelease list \<Rightarrow> int" where
  "open_streams key k hs = int (length (filter (\<lambda>h. \<not> sr_released h \<and> key h = Some k) hs))"

definition counts :: "int \<Rightarrow> (SseRelease \<Rightarrow> string option) \<Rightarrow> (string, int) jsmap \<Rightarrow> SseRelease list \<Rightarrow> bool" where
  "counts limit key m hs \<longleftrightarrow> (\<forall>k. jget_or 0 m k = (if limit > 0 then open_streams key k hs else 0)) \<and>
     (\<forall>k c. map_of m k = Some c \<longrightarrow> 0 < c) \<and> (limit > 0 \<longrightarrow> (\<forall>k. open_streams key k hs \<le> limit))"

lemma open_streams_nonneg [simp]: "0 \<le> open_streams key k hs"
  by (simp add: open_streams_def)

lemma open_streams_snoc:
  "open_streams key k (hs @ [h]) = open_streams key k hs + (if \<not> sr_released h \<and> key h = Some k then 1 else 0)"
  by (simp add: open_streams_def)

lemma open_streams_update:
  assumes "n < length hs" and "\<not> sr_released (hs ! n)" and "key h' = key (hs ! n)" and "sr_released h'"
  shows "open_streams key k (hs[n := h']) = open_streams key k hs - (if key (hs ! n) = Some k then 1 else 0)"
proof -
  have hs: "hs = take n hs @ hs ! n # drop (Suc n) hs" using assms(1) by (rule id_take_nth_drop)
  have upd: "hs[n := h'] = take n hs @ h' # drop (Suc n) hs" using assms(1) by (simp add: upd_conv_take_nth_drop)
  show ?thesis unfolding open_streams_def upd by (subst (3) hs) (use assms in simp)
qed

lemma counts_open:
  assumes "counts limit key m hs" and "\<not> at_limit limit (key h) m" and "\<not> sr_released h"
  shows "counts limit key (incrementCounter limit (key h) m) (hs @ [h])"
proof (cases "key h")
  case None
  then show ?thesis using assms by (simp add: counts_def incrementCounter_def open_streams_snoc)
next
  case (Some k)
  have "jget_or 0 (jset k (jget_or 0 m k + 1) m) k' = jget_or 0 m k' + (if k' = k then 1 else 0)" for k'
    by (simp add: jget_or_def jmap_simps)
  moreover have "0 \<le> jget_or 0 m k" using assms(1) by (simp add: counts_def)
  ultimately show ?thesis using assms Some
    by (auto simp: counts_def incrementCounter_def at_limit_def open_streams_snoc jmap_simps split: if_splits)
qed

lemma counts_close:
  assumes "counts limit key m hs" and "n < length hs" and "\<not> sr_released (hs ! n)" and "key h' = key (hs ! n)" and "sr_released h'"
  shows "counts limit key (release_counter limit (key (hs ! n)) m) (hs[n := h'])"
proof (cases "key (hs ! n)")
  case None
  then show ?thesis using assms by (simp add: counts_def release_counter_def open_streams_update)
next
  case (Some k)
  have upd: "open_streams key k' (hs[n := h']) = open_streams key k' hs - (if k' = k then 1 else 0)" for k'
    using open_streams_update [where key = key and k = k', OF assms(2-5)] Some by simp
  have pos: "0 < open_streams key k hs"
    using open_streams_nonneg [of key k "hs[n := h']"] upd [of k] by simp
  have val: "jget_or 0 (decrementCounter k m) k' = jget_or 0 m k' - (if k' = k then 1 else 0)" if "limit > 0" for k'
  proof -
    have "jget_or 0 m k = open_streams key k hs" using assms(1) that by (simp add: counts_def)
    then obtain c where c: "map_of m k = Some c" "0 < c"
      using pos by (cases "map_of m k") (simp_all add: jget_or_def)
    then show ?thesis by (auto simp: decrementCounter_def jget_or_def jmap_simps)
  qed
  have low: "\<forall>k' c. map_of (decrementCounter k m) k' = Some c \<longrightarrow> 0 < c"
    using assms(1) by (auto simp: counts_def decrementCounter_def jmap_simps split: option.split)
  have bound: "open_streams key k' hs \<le> limit" if "limit > 0" for k' using assms(1) that by (simp add: counts_def)
  have sum: "jget_or 0 m k' = (if limit > 0 then open_streams key k' hs else 0)" for k'
    using assms(1) by (simp add: counts_def)
  show ?thesis
  proof (cases "limit > 0")
    case True
    have "open_streams key k' hs - (if k' = k then 1 else 0) \<le> limit" for k'
      using bound [OF True, of k'] by (cases "k' = k") simp_all
    then show ?thesis using Some True low val [OF True] sum by (simp add: counts_def release_counter_def upd)
  next
    case False
    then show ?thesis using Some assms(1) by (simp add: counts_def release_counter_def)
  qed
qed

text \<open>The invariant of a life.\<close>

definition sse_inv :: "int \<Rightarrow> int \<Rightarrow> SseQuotaManager \<times> SseRelease list \<Rightarrow> bool" where
  "sse_inv perIp perSubject s \<longleftrightarrow> sq_perIpLimit (fst s) = max 0 perIp \<and> sq_perSubjectLimit (fst s) = max 0 perSubject \<and>
     counts (max 0 perIp) sr_ip (sq_ipCounts (fst s)) (snd s) \<and>
     counts (max 0 perSubject) sr_subject (sq_subjectCounts (fst s)) (snd s)"

lemma sse_op_inv:
  assumes "sse_inv perIp perSubject s"
  shows "sse_inv perIp perSubject (sse_op op s)"
proof -
  obtain m hs where s: "s = (m, hs)" by (cases s)
  note inv = assms [unfolded s sse_inv_def fst_conv snd_conv]
  show ?thesis
  proof (cases op)
    case (Open identity)
    let ?h = "\<lparr>sr_ip = normalizeKey (qi_ip identity), sr_subject = normalizeKey (qi_subjectId identity), sr_released = False\<rparr>"
    show ?thesis using inv s Open counts_open [where h = ?h and key = sr_ip and limit = "max 0 perIp"]
        counts_open [where h = ?h and key = sr_subject and limit = "max 0 perSubject"]
      by (simp add: acquire_def Let_def sse_inv_def)
  next
    case (Close n)
    let ?h = "(hs ! n)\<lparr>sr_released := True\<rparr>"
    show ?thesis using inv s Close counts_close [where h' = ?h and key = sr_ip and limit = "max 0 perIp"]
        counts_close [where h' = ?h and key = sr_subject and limit = "max 0 perSubject"]
      by (simp add: release_def Let_def sse_inv_def)
  qed
qed

lemma sse_run_inv: "sse_inv perIp perSubject (sse_run perIp perSubject ops)"
proof -
  have "sse_inv perIp perSubject s \<Longrightarrow> sse_inv perIp perSubject (fold sse_op ops s)" for s
    by (induction ops arbitrary: s) (simp_all add: sse_op_inv)
  moreover have "sse_inv perIp perSubject (new_SseQuotaManager perIp perSubject, [])"
    by (auto simp: sse_inv_def new_SseQuotaManager_def counts_def open_streams_def jget_or_def)
  ultimately show ?thesis unfolding sse_run_def by blast
qed

text \<open>
  C24.  Whatever streams are opened and closed, closures called twice included, the counter
  of a subject is the number of its open streams and never exceeds the limit; and with
  limits on, \<^verbatim>\<open>acquire\<close> refuses a stream exactly when its subject or its address has as
  many open streams as the limit allows.
\<close>

theorem sse_quota_exact:
  assumes "0 < perSubject" and "0 < perIp" and "sse_run perIp perSubject ops = (m, hs)"
    and "normalizeKey (qi_subjectId identity) = Some k" and "normalizeKey (qi_ip identity) = Some a"
  shows "jget_or 0 (sq_subjectCounts m) k = open_streams sr_subject k hs \<and> open_streams sr_subject k hs \<le> perSubject \<and>
    open_streams sr_ip a hs \<le> perIp \<and>
    (snd (acquire identity m) = None \<longleftrightarrow> open_streams sr_subject k hs = perSubject \<or> open_streams sr_ip a hs = perIp)"
proof -
  have inv: "sq_perIpLimit m = perIp" "sq_perSubjectLimit m = perSubject" "counts perIp sr_ip (sq_ipCounts m) hs"
    "counts perSubject sr_subject (sq_subjectCounts m) hs"
    using sse_run_inv [of perIp perSubject ops] assms(1-3) by (simp_all add: sse_inv_def)
  then have "open_streams sr_subject k hs \<le> perSubject" "open_streams sr_ip a hs \<le> perIp"
    "jget_or 0 (sq_subjectCounts m) k = open_streams sr_subject k hs" "jget_or 0 (sq_ipCounts m) a = open_streams sr_ip a hs"
    using assms(1,2) by (simp_all add: counts_def)
  then show ?thesis using inv(1,2) assms by (auto simp: acquire_def at_limit_def Let_def)
qed

theorem sse_quota_exact_witness:
  "\<exists>m hs. sse_run 2 1 [Open \<lparr>qi_ip = Some ''a'', qi_subjectId = Some '' s ''\<rparr>] = (m, hs) \<and>
     snd (acquire \<lparr>qi_ip = Some ''b'', qi_subjectId = Some ''s''\<rparr> m) = None"
proof -
  let ?ops = "[Open \<lparr>qi_ip = Some ''a'', qi_subjectId = Some '' s ''\<rparr>]" and ?i = "\<lparr>qi_ip = Some ''b'', qi_subjectId = Some ''s''\<rparr>"
  obtain m hs where run: "sse_run 2 1 ?ops = (m, hs)" by (cases "sse_run 2 1 ?ops")
  have keys: "normalizeKey (qi_subjectId ?i) = Some ''s''" "normalizeKey (qi_ip ?i) = Some ''b''"
    by (simp_all add: normalizeKey_def trim_def is_space_def)
  have "open_streams sr_subject ''s'' (snd (sse_run 2 1 ?ops)) = 1" by code_simp
  then show ?thesis using run sse_quota_exact [OF _ _ run keys] by auto
qed

end
