(* ===== verification/Plan_State.thy ===== *)
theory Plan_State
  imports Prelude
begin

text \<open>
  Plan steps and their persistence: the data of
  \<^verbatim>\<open>services/orchestrator/src/plan/validation.ts\<close>, the file-backed store of
  \<^verbatim>\<open>queue/PlanStateStore.ts\<close> (\<^verbatim>\<open>FilePlanStateStore\<close>) and the in-memory registries of
  \<^verbatim>\<open>services/PlanStateService.ts\<close>.  Time stamps are integers; the copies the code makes
  of subjects, labels and steps are values here.  The document on disk is part of the
  store's state: \<open>persist\<close> replaces it, \<open>load\<close> reads it.
\<close>

section \<open>Plans\<close>

datatype PlanStepState =
    StQueued | StRunning | StRetrying | StWaitingApproval | StApproved | StRejected | StCompleted
  | StFailed | StDeadLettered

record PlanStep =
  ps_id :: string
  ps_action :: string
  ps_capability :: string
  ps_capabilityLabel :: string
  ps_labels :: "string list"
  ps_tool :: string
  ps_timeoutSeconds :: int
  ps_approvalRequired :: bool
  ps_input :: "(string, json) jsmap"
  ps_summary :: "string option"
  ps_metadata :: "(string, json) jsmap"

record PlanSubject =
  su_sessionId :: "string option"
  su_tenantId :: "string option"
  su_userId :: "string option"
  su_email :: "string option"
  su_name :: "string option"
  su_roles :: "string list"
  su_scopes :: "string list"

record PlanJob =
  jb_planId :: string
  jb_step :: PlanStep
  jb_attempt :: int
  jb_createdAt :: time
  jb_traceId :: string
  jb_requestId :: "string option"
  jb_subject :: "PlanSubject option"

type_synonym approvals = "(string, bool) jsmap"

definition TERMINAL_STATES :: "PlanStepState list" where
  "TERMINAL_STATES = [StCompleted, StFailed, StRejected, StDeadLettered]"

section \<open>The file store\<close>

record PersistedStep =
  pe_id :: string
  pe_planId :: string
  pe_stepId :: string
  pe_traceId :: string
  pe_requestId :: "string option"
  pe_step :: PlanStep
  pe_state :: PlanStepState
  pe_summary :: "string option"
  pe_output :: "json option"
  pe_updatedAt :: time
  pe_attempt :: int
  pe_idempotencyKey :: string
  pe_createdAt :: time
  pe_approvals :: "approvals option"
  pe_subject :: "PlanSubject option"

record PlanStepMetadata =
  md_step :: PlanStep
  md_createdAt :: time
  md_attempt :: int
  md_requestId :: "string option"
  md_subject :: "PlanSubject option"

record PersistedPlanMetadata =
  pm_planId :: string
  pm_traceId :: string
  pm_requestId :: "string option"
  pm_steps :: "PlanStepMetadata list"
  pm_nextStepIndex :: int
  pm_lastCompletedIndex :: int

record PersistedDocument =
  dc_steps :: "PersistedStep list"
  dc_plans :: "PersistedPlanMetadata list"

record FilePlanStateStore =
  fs_retentionMs :: "int option"
  fs_closed :: bool
  fs_records :: "(string, PersistedStep) jsmap"
  fs_planRecords :: "(string, PersistedPlanMetadata \<times> time) jsmap"
  fs_disk :: "PersistedDocument option"

definition toKey :: "string \<Rightarrow> string \<Rightarrow> string" where
  "toKey planId stepId = planId @ '':'' @ stepId"

definition purgeExpired :: "time \<Rightarrow> FilePlanStateStore \<Rightarrow> FilePlanStateStore" where
  "purgeExpired now fs =
     (case fs_retentionMs fs of
        None \<Rightarrow> fs
      | Some r \<Rightarrow> fs\<lparr>fs_records := filter (\<lambda>(k, e). \<not> pe_updatedAt e < now - r) (fs_records fs),
                   fs_planRecords := filter (\<lambda>(k, (m, u)). \<not> u < now - r) (fs_planRecords fs)\<rparr>)"

definition document_of :: "FilePlanStateStore \<Rightarrow> PersistedDocument" where
  "document_of fs = \<lparr>dc_steps = jvalues (fs_records fs), dc_plans = map fst (jvalues (fs_planRecords fs))\<rparr>"

text \<open>\<^verbatim>\<open>enqueuePersist\<close>: the writes are chained, so each one leaves the document of its
  moment; after \<^verbatim>\<open>close\<close> nothing is written.\<close>

definition persist :: "FilePlanStateStore \<Rightarrow> FilePlanStateStore" where
  "persist fs = (if fs_closed fs then fs else fs\<lparr>fs_disk := Some (document_of fs)\<rparr>)"

definition persist_if :: "bool \<Rightarrow> FilePlanStateStore \<Rightarrow> FilePlanStateStore" where
  "persist_if b fs = (if b then persist fs else fs)"

definition purged :: "time \<Rightarrow> FilePlanStateStore \<Rightarrow> bool" where
  "purged now fs \<longleftrightarrow> length (fs_records (purgeExpired now fs)) < length (fs_records fs) \<or>
     length (fs_planRecords (purgeExpired now fs)) < length (fs_planRecords fs)"

text \<open>\<^verbatim>\<open>load\<close> of an existing document into the maps; a missing file loads nothing.\<close>

definition load :: "time \<Rightarrow> FilePlanStateStore \<Rightarrow> FilePlanStateStore" where
  "load now fs =
     (case fs_disk fs of
        None \<Rightarrow> fs
      | Some d \<Rightarrow> fs\<lparr>
          fs_records := fold (\<lambda>e. jset (toKey (pe_planId e) (pe_stepId e)) e) (dc_steps d) (fs_records fs),
          fs_planRecords := fold (\<lambda>m. jset (pm_planId m) (m, now)) (dc_plans d) (fs_planRecords fs)\<rparr>)"

definition new_FilePlanStateStore :: "int option \<Rightarrow> PersistedDocument option \<Rightarrow> FilePlanStateStore" where
  "new_FilePlanStateStore retention disk =
     \<lparr>fs_retentionMs = (case retention of None \<Rightarrow> None | Some r \<Rightarrow> if r > 0 then Some r else None),
      fs_closed = False, fs_records = [], fs_planRecords = [], fs_disk = disk\<rparr>"

record RememberOptions =
  ro_initialState :: PlanStepState
  ro_idempotencyKey :: string
  ro_attempt :: int
  ro_createdAt :: time
  ro_requestId :: "string option"
  ro_approvals :: "approvals option"
  ro_subject :: "PlanSubject option"

definition rememberStep ::
  "time \<Rightarrow> string \<Rightarrow> string \<Rightarrow> PlanStep \<Rightarrow> string \<Rightarrow> RememberOptions \<Rightarrow> FilePlanStateStore \<Rightarrow> FilePlanStateStore" where
  "rememberStep now uuid planId step traceId o' fs =
     (let fs1 = purgeExpired now fs
      in persist (fs1\<lparr>fs_records := jset (toKey planId (ps_id step))
           \<lparr>pe_id = uuid, pe_planId = planId, pe_stepId = ps_id step, pe_traceId = traceId,
            pe_requestId = ro_requestId o', pe_step = step, pe_state = ro_initialState o',
            pe_summary = None, pe_output = None, pe_updatedAt = now, pe_attempt = ro_attempt o',
            pe_idempotencyKey = ro_idempotencyKey o', pe_createdAt = ro_createdAt o',
            pe_approvals = ro_approvals o', pe_subject = ro_subject o'\<rparr> (fs_records fs1)\<rparr>))"

definition setState ::
  "time \<Rightarrow> string \<Rightarrow> string \<Rightarrow> PlanStepState \<Rightarrow> string option \<Rightarrow> json option \<Rightarrow> int option \<Rightarrow>
     FilePlanStateStore \<Rightarrow> FilePlanStateStore" where
  "setState now planId stepId state summary output attempt fs =
     (let fs1 = purgeExpired now fs; key = toKey planId stepId
      in case map_of (fs_records fs1) key of
           None \<Rightarrow> persist_if (purged now fs) fs1
         | Some e \<Rightarrow>
             persist (if state \<in> set TERMINAL_STATES
               then fs1\<lparr>fs_records := jdelete key (fs_records fs1)\<rparr>
               else fs1\<lparr>fs_records := jset key
                 (e\<lparr>pe_state := state, pe_summary := summary, pe_output := output, pe_updatedAt := now,
                    pe_attempt := (case attempt of None \<Rightarrow> pe_attempt e | Some a \<Rightarrow> a)\<rparr>) (fs_records fs1)\<rparr>))"

definition recordApproval ::
  "time \<Rightarrow> string \<Rightarrow> string \<Rightarrow> string \<Rightarrow> bool \<Rightarrow> FilePlanStateStore \<Rightarrow> FilePlanStateStore" where
  "recordApproval now planId stepId capability granted fs =
     (let fs1 = purgeExpired now fs; key = toKey planId stepId
      in case map_of (fs_records fs1) key of
           None \<Rightarrow> persist_if (purged now fs) fs1
         | Some e \<Rightarrow>
             let old = (case pe_approvals e of None \<Rightarrow> [] | Some a \<Rightarrow> a);
                 new = (if granted then jset capability True old else jdelete capability old)
             in persist (fs1\<lparr>fs_records := jset key (e\<lparr>pe_approvals := Some new, pe_updatedAt := now\<rparr>)
                  (fs_records fs1)\<rparr>))"

definition forgetStep :: "time \<Rightarrow> string \<Rightarrow> string \<Rightarrow> FilePlanStateStore \<Rightarrow> FilePlanStateStore" where
  "forgetStep now planId stepId fs =
     (let fs1 = purgeExpired now fs; key = toKey planId stepId
      in persist_if (purged now fs \<or> jhas (fs_records fs1) key)
           (fs1\<lparr>fs_records := jdelete key (fs_records fs1)\<rparr>))"

definition listActiveSteps :: "time \<Rightarrow> FilePlanStateStore \<Rightarrow> FilePlanStateStore \<times> PersistedStep list" where
  "listActiveSteps now fs =
     (let fs1 = purgeExpired now fs in (persist_if (purged now fs) fs1, jvalues (fs_records fs1)))"

definition getEntry :: "time \<Rightarrow> string \<Rightarrow> string \<Rightarrow> FilePlanStateStore \<Rightarrow> FilePlanStateStore \<times> PersistedStep option" where
  "getEntry now planId stepId fs =
     (let fs1 = purgeExpired now fs
      in (persist_if (purged now fs) fs1, map_of (fs_records fs1) (toKey planId stepId)))"

definition getStep :: "time \<Rightarrow> string \<Rightarrow> string \<Rightarrow> FilePlanStateStore \<Rightarrow> FilePlanStateStore \<times> (PlanStep \<times> string) option" where
  "getStep now planId stepId fs =
     (let (fs1, e) = getEntry now planId stepId fs
      in (fs1, map_option (\<lambda>r. (pe_step r, pe_traceId r)) e))"

definition rememberPlanMetadata ::
  "time \<Rightarrow> string \<Rightarrow> PersistedPlanMetadata \<Rightarrow> FilePlanStateStore \<Rightarrow> FilePlanStateStore" where
  "rememberPlanMetadata now planId m fs =
     (let fs1 = purgeExpired now fs
      in persist (fs1\<lparr>fs_planRecords := jset planId (m, now) (fs_planRecords fs1)\<rparr>))"

definition getPlanMetadata ::
  "time \<Rightarrow> string \<Rightarrow> FilePlanStateStore \<Rightarrow> FilePlanStateStore \<times> PersistedPlanMetadata option" where
  "getPlanMetadata now planId fs =
     (let fs1 = purgeExpired now fs
      in (persist_if (purged now fs) fs1, map_option fst (map_of (fs_planRecords fs1) planId)))"

definition listPlanMetadata :: "time \<Rightarrow> FilePlanStateStore \<Rightarrow> FilePlanStateStore \<times> PersistedPlanMetadata list" where
  "listPlanMetadata now fs =
     (let fs1 = purgeExpired now fs
      in (persist_if (purged now fs) fs1, map fst (jvalues (fs_planRecords fs1))))"

definition forgetPlanMetadata :: "time \<Rightarrow> string \<Rightarrow> FilePlanStateStore \<Rightarrow> FilePlanStateStore" where
  "forgetPlanMetadata now planId fs =
     (let fs1 = purgeExpired now fs
      in persist_if (purged now fs \<or> jhas (fs_planRecords fs1) planId)
           (fs1\<lparr>fs_planRecords := jdelete planId (fs_planRecords fs1)\<rparr>))"

definition clear_store :: "FilePlanStateStore \<Rightarrow> FilePlanStateStore" where
  "clear_store fs = persist (fs\<lparr>fs_records := [], fs_planRecords := []\<rparr>)"

definition close_store :: "FilePlanStateStore \<Rightarrow> FilePlanStateStore" where
  "close_store fs = fs\<lparr>fs_closed := True\<rparr>"

end
