(* ===== verification/Plan_Store.thy ===== *)
theory Plan_Store
  imports Plan_State
begin

text \<open>
  What the plan state store promises.  The interface \<^verbatim>\<open>PlanStatePersistence\<close> is the locale
  \<open>plan_state_persistence\<close>, stated over the entries a read at a given time would show; the
  file store interprets it.  Beyond the interface: the key of a step determines plan and
  step as long as plan identifiers contain no colon, and a restart recovers exactly the
  state before it.
\<close>

section \<open>Keys\<close>

text \<open>The composite key \<^verbatim>\<open>planId:stepId\<close> identifies the step, as plan identifiers have no colon.\<close>

lemma toKey_eq_iff:
  "CHR '':'' \<notin> set p \<Longrightarrow> CHR '':'' \<notin> set p' \<Longrightarrow> toKey p s = toKey p' s' \<longleftrightarrow> p = p' \<and> s = s'"
  using colon_split by (simp add: toKey_def)

section \<open>The interface\<close>

text \<open>\<open>view now s\<close> is what reads at time \<open>now\<close> show; \<open>valid\<close> are the plan identifiers the
  store tells apart.\<close>

locale plan_state_persistence =
  fixes inv :: "'s \<Rightarrow> bool" and valid :: "string \<Rightarrow> bool"
    and view :: "time \<Rightarrow> 's \<Rightarrow> string \<Rightarrow> string \<Rightarrow> PersistedStep option"
    and remember :: "time \<Rightarrow> string \<Rightarrow> string \<Rightarrow> PlanStep \<Rightarrow> string \<Rightarrow> RememberOptions \<Rightarrow> 's \<Rightarrow> 's"
    and set_state :: "time \<Rightarrow> string \<Rightarrow> string \<Rightarrow> PlanStepState \<Rightarrow> string option \<Rightarrow> json option \<Rightarrow> int option \<Rightarrow> 's \<Rightarrow> 's"
    and record_approval :: "time \<Rightarrow> string \<Rightarrow> string \<Rightarrow> string \<Rightarrow> bool \<Rightarrow> 's \<Rightarrow> 's"
    and forget :: "time \<Rightarrow> string \<Rightarrow> string \<Rightarrow> 's \<Rightarrow> 's"
    and get :: "time \<Rightarrow> string \<Rightarrow> string \<Rightarrow> 's \<Rightarrow> 's \<times> PersistedStep option"
  assumes remember_inv: "inv s \<Longrightarrow> inv (remember now u p st tr o' s)"
    and set_state_inv: "inv s \<Longrightarrow> inv (set_state now p i x y z a s)"
    and record_approval_inv: "inv s \<Longrightarrow> inv (record_approval now p i c g s)"
    and forget_inv: "inv s \<Longrightarrow> inv (forget now p i s)"
    and get_inv: "inv s \<Longrightarrow> inv (fst (get now p i s))"
    and get_view: "inv s \<Longrightarrow> snd (get now p i s) = view now s p i"
    and get_keeps: "inv s \<Longrightarrow> view now (fst (get now p i s)) = view now s"
    and remember_view: "inv s \<Longrightarrow> valid p \<Longrightarrow> valid p' \<Longrightarrow> (p', i') \<noteq> (p, ps_id st) \<Longrightarrow>
      view now (remember now u p st tr o' s) p' i' = view now s p' i'"
    and remember_same: "inv s \<Longrightarrow> \<exists>e. view now (remember now u p st tr o' s) p (ps_id st) = Some e \<and>
      pe_state e = ro_initialState o' \<and> pe_attempt e = ro_attempt o' \<and> pe_approvals e = ro_approvals o' \<and>
      pe_idempotencyKey e = ro_idempotencyKey o' \<and> pe_traceId e = tr \<and> pe_step e = st"
    and set_state_other: "inv s \<Longrightarrow> valid p \<Longrightarrow> valid p' \<Longrightarrow> (p', i') \<noteq> (p, i) \<Longrightarrow>
      view now (set_state now p i x y z a s) p' i' = view now s p' i'"
    and set_state_same: "inv s \<Longrightarrow> view now (set_state now p i x y z a s) p i =
      (case view now s p i of
         None \<Rightarrow> None
       | Some e \<Rightarrow> if x \<in> set TERMINAL_STATES then None
           else Some (e\<lparr>pe_state := x, pe_summary := y, pe_output := z, pe_updatedAt := now,
             pe_attempt := (case a of None \<Rightarrow> pe_attempt e | Some b \<Rightarrow> b)\<rparr>))"
    and record_approval_other: "inv s \<Longrightarrow> valid p \<Longrightarrow> valid p' \<Longrightarrow> (p', i') \<noteq> (p, i) \<Longrightarrow>
      view now (record_approval now p i c g s) p' i' = view now s p' i'"
    and record_approval_same: "inv s \<Longrightarrow> view now (record_approval now p i c g s) p i =
      map_option (\<lambda>e. let old = (case pe_approvals e of None \<Rightarrow> [] | Some m \<Rightarrow> m) in
        e\<lparr>pe_approvals := Some (if g then jset c True old else jdelete c old), pe_updatedAt := now\<rparr>)
        (view now s p i)"
    and forget_same: "inv s \<Longrightarrow> view now (forget now p i s) p i = None"
    and forget_other: "inv s \<Longrightarrow> valid p \<Longrightarrow> valid p' \<Longrightarrow> (p', i') \<noteq> (p, i) \<Longrightarrow>
      view now (forget now p i s) p' i' = view now s p' i'"
begin

text \<open>A terminal state takes the step out of the store and leaves the other steps alone.\<close>

lemma terminal_removes:
  assumes "inv s" and "x \<in> set TERMINAL_STATES"
  shows "snd (get now p i (set_state now p i x y z a s)) = None"
  using assms by (simp add: get_view set_state_inv set_state_same split: option.split)

lemma others_untouched:
  assumes "inv s" and "valid p" and "valid p'" and "(p', i') \<noteq> (p, i)"
  shows "snd (get now p' i' (set_state now p i x y z a s)) = snd (get now p' i' s)"
    and "snd (get now p' i' (record_approval now p i c g s)) = snd (get now p' i' s)"
    and "snd (get now p' i' (forget now p i s)) = snd (get now p' i' s)"
  using assms by (simp_all add: get_view set_state_inv set_state_other record_approval_inv
      record_approval_other forget_inv forget_other)

text \<open>An approval survives the state changes of the step that are not terminal, and a
  later revocation takes it back.\<close>

lemma approval_visible:
  assumes "inv s" and "snd (get now p i s) \<noteq> None" and "x \<notin> set TERMINAL_STATES"
  shows "\<exists>e m. snd (get now p i (set_state now p i x y z a (record_approval now p i c g s))) = Some e \<and>
    pe_state e = x \<and> pe_approvals e = Some m \<and> map_of m c = (if g then Some True else None)"
  using assms
  by (cases "view now s p i")
     (auto simp: get_view set_state_inv record_approval_inv set_state_same record_approval_same Let_def jmap_simps)

end

section \<open>The file store implements it\<close>

definition store_inv :: "FilePlanStateStore \<Rightarrow> bool" where
  "store_inv fs \<longleftrightarrow> jwf (fs_records fs) \<and> jwf (fs_planRecords fs) \<and>
     (\<forall>r. fs_retentionMs fs = Some r \<longrightarrow> 0 < r)"

definition store_view :: "time \<Rightarrow> FilePlanStateStore \<Rightarrow> string \<Rightarrow> string \<Rightarrow> PersistedStep option" where
  "store_view now fs p i = map_of (fs_records (purgeExpired now fs)) (toKey p i)"

lemma persist_fields [simp]:
  "fs_records (persist fs) = fs_records fs" "fs_planRecords (persist fs) = fs_planRecords fs"
  "fs_retentionMs (persist fs) = fs_retentionMs fs" "fs_closed (persist fs) = fs_closed fs"
  "fs_records (persist_if b fs) = fs_records fs" "fs_planRecords (persist_if b fs) = fs_planRecords fs"
  "fs_retentionMs (persist_if b fs) = fs_retentionMs fs" "fs_closed (persist_if b fs) = fs_closed fs"
  by (simp_all add: persist_def persist_if_def)

lemma purge_fields [simp]:
  "fs_retentionMs (purgeExpired now fs) = fs_retentionMs fs"
  "fs_closed (purgeExpired now fs) = fs_closed fs" "fs_disk (purgeExpired now fs) = fs_disk fs"
  by (simp_all add: purgeExpired_def split: option.split)

text \<open>Purging looks at the records only, entry by entry.\<close>

definition alive :: "time \<Rightarrow> FilePlanStateStore \<Rightarrow> PersistedStep \<Rightarrow> bool" where
  "alive now fs e \<longleftrightarrow> (case fs_retentionMs fs of None \<Rightarrow> True | Some r \<Rightarrow> \<not> pe_updatedAt e < now - r)"

lemma records_purge: "fs_records (purgeExpired now fs) = filter (\<lambda>(k, e). alive now fs e) (fs_records fs)"
  by (simp add: purgeExpired_def alive_def split: option.split)

lemma jwf_purge [simp]:
  "jwf (fs_records fs) \<Longrightarrow> jwf (fs_records (purgeExpired now fs))"
  "jwf (fs_planRecords fs) \<Longrightarrow> jwf (fs_planRecords (purgeExpired now fs))"
  by (simp_all add: purgeExpired_def split: option.split)

lemma map_of_purge:
  "jwf (fs_records fs) \<Longrightarrow> map_of (fs_records (purgeExpired now fs)) k =
     (case map_of (fs_records fs) k of None \<Rightarrow> None | Some e \<Rightarrow> if alive now fs e then Some e else None)"
  unfolding records_purge by (rule map_of_filter_values)

lemma store_view_alt:
  "jwf (fs_records fs) \<Longrightarrow> store_view now fs p i =
     (case map_of (fs_records fs) (toKey p i) of None \<Rightarrow> None | Some e \<Rightarrow> if alive now fs e then Some e else None)"
  by (simp add: store_view_def map_of_purge)

lemma alive_cong: "fs_retentionMs fs' = fs_retentionMs fs \<Longrightarrow> alive now fs' = alive now fs"
  by (simp add: alive_def fun_eq_iff)

lemma alive_now: "store_inv fs \<Longrightarrow> pe_updatedAt e = now \<Longrightarrow> alive now fs e"
  by (auto simp: alive_def store_inv_def split: option.split)

lemma store_invI:
  "store_inv fs \<Longrightarrow> fs_retentionMs fs' = fs_retentionMs fs \<Longrightarrow> jwf (fs_records fs') \<Longrightarrow>
     jwf (fs_planRecords fs') \<Longrightarrow> store_inv fs'"
  by (simp add: store_inv_def)

lemma store_inv_purge: "store_inv fs \<Longrightarrow> store_inv (purgeExpired now fs)"
  by (simp add: store_inv_def)

lemma store_inv_wf: "store_inv fs \<Longrightarrow> jwf (fs_records fs)" "store_inv fs \<Longrightarrow> jwf (fs_planRecords fs)"
  by (simp_all add: store_inv_def)

lemma retention_ops [simp]:
  "fs_retentionMs (rememberStep now u p st tr o' fs) = fs_retentionMs fs"
  "fs_retentionMs (setState now p i x y z a fs) = fs_retentionMs fs"
  "fs_retentionMs (recordApproval now p i c g fs) = fs_retentionMs fs"
  "fs_retentionMs (forgetStep now p i fs) = fs_retentionMs fs"
  "fs_retentionMs (fst (getEntry now p i fs)) = fs_retentionMs fs"
  by (simp_all add: rememberStep_def setState_def recordApproval_def forgetStep_def getEntry_def Let_def
      split: option.split)

lemma store_inv_ops:
  assumes "store_inv fs"
  shows "store_inv (rememberStep now u p st tr o' fs)"
    and "store_inv (setState now p i x y z a fs)"
    and "store_inv (recordApproval now p i c g fs)"
    and "store_inv (forgetStep now p i fs)"
    and "store_inv (fst (getEntry now p i fs))"
  using assms
  by (simp_all add: store_inv_def rememberStep_def setState_def recordApproval_def forgetStep_def getEntry_def
      Let_def jmap_simps split: option.split)

text \<open>A read shows the entries that are alive, and an entry of a purged store is alive.\<close>

lemma store_view_purged:
  assumes "store_inv fs" and "fs_retentionMs fs' = fs_retentionMs fs" and "jwf (fs_records fs')"
  shows "store_view now fs' p i = (case map_of (fs_records fs') (toKey p i) of
    None \<Rightarrow> None | Some e \<Rightarrow> if alive now fs e then Some e else None)"
  using store_view_alt [OF assms(3)] alive_cong [OF assms(2)] by (simp split: option.split)

lemma map_of_purge_alive:
  "store_inv fs \<Longrightarrow> map_of (fs_records (purgeExpired now fs)) k = Some e \<Longrightarrow> alive now fs e"
  by (auto simp: map_of_purge store_inv_wf split: option.splits if_splits)

interpretation file_store: plan_state_persistence store_inv "\<lambda>p. CHR '':'' \<notin> set p" store_view
  rememberStep setState recordApproval forgetStep getEntry
proof
  fix fs :: FilePlanStateStore and now u p st tr o' i x y z a c g p' i'
  assume inv: "store_inv fs"
  let ?r = "fs_records (purgeExpired now fs)"
  have look: "store_view now fs q j = map_of ?r (toKey q j)" for q j
    by (simp add: store_view_def)
  have live: "map_of ?r k = Some e \<Longrightarrow> alive now fs e" for k e
    using map_of_purge_alive [OF inv] .
  have view: "store_view now fs' q j = map_of (fs_records fs') (toKey q j)"
    if "fs_retentionMs fs' = fs_retentionMs fs" and "jwf (fs_records fs')"
      and "\<And>e. map_of (fs_records fs') (toKey q j) = Some e \<Longrightarrow> alive now fs e" for fs' q j
    using store_view_purged [OF inv that(1,2)] that(3) by (auto split: option.split)
  show "snd (getEntry now p i fs) = store_view now fs p i"
    by (simp add: getEntry_def look Let_def)
  show "store_view now (fst (getEntry now p i fs)) = store_view now fs"
    by (intro ext, subst view) (use inv live in \<open>auto simp: getEntry_def look Let_def store_inv_wf simp del: map_of_eq_Some_iff\<close>)
  show "\<exists>e. store_view now (rememberStep now u p st tr o' fs) p (ps_id st) = Some e \<and>
      pe_state e = ro_initialState o' \<and> pe_attempt e = ro_attempt o' \<and> pe_approvals e = ro_approvals o' \<and>
      pe_idempotencyKey e = ro_idempotencyKey o' \<and> pe_traceId e = tr \<and> pe_step e = st"
    by (subst view) (use inv in \<open>auto simp: rememberStep_def Let_def store_inv_wf jmap_simps alive_now simp del: map_of_eq_Some_iff\<close>)
  show "store_view now (setState now p i x y z a fs) p i =
      (case store_view now fs p i of
         None \<Rightarrow> None
       | Some e \<Rightarrow> if x \<in> set TERMINAL_STATES then None
           else Some (e\<lparr>pe_state := x, pe_summary := y, pe_output := z, pe_updatedAt := now,
             pe_attempt := (case a of None \<Rightarrow> pe_attempt e | Some b \<Rightarrow> b)\<rparr>))"
    by (subst view) (use inv in \<open>auto simp: setState_def Let_def look store_inv_wf jmap_simps
      simp del: map_of_eq_Some_iff intro: alive_now split: option.splits if_splits\<close>)
  show "store_view now (recordApproval now p i c g fs) p i =
      map_option (\<lambda>e. let old = (case pe_approvals e of None \<Rightarrow> [] | Some m \<Rightarrow> m) in
        e\<lparr>pe_approvals := Some (if g then jset c True old else jdelete c old), pe_updatedAt := now\<rparr>)
        (store_view now fs p i)"
    by (subst view) (use inv in \<open>auto simp: recordApproval_def Let_def look store_inv_wf jmap_simps
      simp del: map_of_eq_Some_iff intro: alive_now split: option.splits if_splits\<close>)
  show "store_view now (forgetStep now p i fs) p i = None"
    by (subst view) (use inv in \<open>auto simp: forgetStep_def Let_def store_inv_wf jmap_simps simp del: map_of_eq_Some_iff\<close>)
  assume ok: "CHR '':'' \<notin> set p" "CHR '':'' \<notin> set p'"
  {
    assume ne: "(p', i') \<noteq> (p, ps_id st)"
    then have "toKey p' i' \<noteq> toKey p (ps_id st)" using ok by (simp add: toKey_eq_iff)
    then show "store_view now (rememberStep now u p st tr o' fs) p' i' = store_view now fs p' i'"
      by (subst view) (use inv live in \<open>auto simp: rememberStep_def Let_def look store_inv_wf jmap_simps simp del: map_of_eq_Some_iff\<close>)
  }
  assume "(p', i') \<noteq> (p, i)"
  then have ne: "toKey p' i' \<noteq> toKey p i" using ok by (simp add: toKey_eq_iff)
  show "store_view now (setState now p i x y z a fs) p' i' = store_view now fs p' i'"
    by (subst view) (use inv live ne in \<open>auto simp: setState_def Let_def look store_inv_wf jmap_simps
      simp del: map_of_eq_Some_iff split: option.splits if_splits\<close>)
  show "store_view now (recordApproval now p i c g fs) p' i' = store_view now fs p' i'"
    by (subst view) (use inv live ne in \<open>auto simp: recordApproval_def Let_def look store_inv_wf jmap_simps
      simp del: map_of_eq_Some_iff split: option.splits if_splits\<close>)
  show "store_view now (forgetStep now p i fs) p' i' = store_view now fs p' i'"
    by (subst view) (use inv live ne in \<open>auto simp: forgetStep_def Let_def look store_inv_wf jmap_simps simp del: map_of_eq_Some_iff\<close>)
qed (simp_all add: store_inv_ops)

text \<open>
  An approval recorded for a remembered step is read back, also after the step changes
  to a non-terminal state, and a revocation takes it back; a terminal state removes the step;
  and neither operation, nor forgetting the step, changes what is read for any other step.
\<close>

theorem file_store_contract:
  assumes "store_inv fs" and "snd (getEntry now p i fs) \<noteq> None" and "x \<notin> set TERMINAL_STATES"
    and "CHR '':'' \<notin> set p" and "CHR '':'' \<notin> set p'" and "(p', i') \<noteq> (p, i)"
  shows "(\<exists>e m. snd (getEntry now p i (setState now p i x y z a (recordApproval now p i c g fs))) = Some e \<and>
      pe_state e = x \<and> pe_approvals e = Some m \<and> map_of m c = (if g then Some True else None)) \<and>
    snd (getEntry now p i (setState now p i StCompleted y z a fs)) = None \<and>
    snd (getEntry now p' i' (setState now p i x y z a fs)) = snd (getEntry now p' i' fs) \<and>
    snd (getEntry now p' i' (recordApproval now p i c g fs)) = snd (getEntry now p' i' fs) \<and>
    snd (getEntry now p' i' (forgetStep now p i fs)) = snd (getEntry now p' i' fs)"
  using file_store.approval_visible [OF assms(1-3)] file_store.others_untouched [OF assms(1,4-6)]
    file_store.terminal_removes [OF assms(1), of StCompleted]
  by (simp add: TERMINAL_STATES_def del: if_split)

section \<open>Restarts\<close>

text \<open>The life of a store: its operations at given times, and restarts of the process, which
  build a new store on the document the old one left on disk.\<close>

datatype StoreOp =
    OpRememberStep string string PlanStep string RememberOptions
  | OpSetState string string PlanStepState "string option" "json option" "int option"
  | OpRecordApproval string string string bool
  | OpForgetStep string string
  | OpListActiveSteps
  | OpGetEntry string string
  | OpRememberPlan PersistedPlanMetadata
  | OpGetPlan string
  | OpListPlans
  | OpForgetPlan string
  | OpClear
  | OpClose
  | OpRestart "int option"

fun store_op :: "time \<Rightarrow> StoreOp \<Rightarrow> FilePlanStateStore \<Rightarrow> FilePlanStateStore" where
  "store_op now (OpRememberStep u p st tr o') fs = rememberStep now u p st tr o' fs"
| "store_op now (OpSetState p i x y z a) fs = setState now p i x y z a fs"
| "store_op now (OpRecordApproval p i c g) fs = recordApproval now p i c g fs"
| "store_op now (OpForgetStep p i) fs = forgetStep now p i fs"
| "store_op now OpListActiveSteps fs = fst (listActiveSteps now fs)"
| "store_op now (OpGetEntry p i) fs = fst (getEntry now p i fs)"
| "store_op now (OpRememberPlan m) fs = rememberPlanMetadata now (pm_planId m) m fs"
| "store_op now (OpGetPlan p) fs = fst (getPlanMetadata now p fs)"
| "store_op now OpListPlans fs = fst (listPlanMetadata now fs)"
| "store_op now (OpForgetPlan p) fs = forgetPlanMetadata now p fs"
| "store_op now OpClear fs = clear_store fs"
| "store_op now OpClose fs = close_store fs"
| "store_op now (OpRestart r) fs = load now (new_FilePlanStateStore r (fs_disk fs))"

definition store_run :: "int option \<Rightarrow> (time \<times> StoreOp) list \<Rightarrow> FilePlanStateStore" where
  "store_run r ops = fold (\<lambda>(now, op). store_op now op) ops (new_FilePlanStateStore r None)"

text \<open>Entries are filed under the key of their own plan and step.\<close>

definition keyed :: "FilePlanStateStore \<Rightarrow> bool" where
  "keyed fs \<longleftrightarrow> jwf (fs_records fs) \<and> jwf (fs_planRecords fs) \<and>
     (\<forall>(k, e) \<in> set (fs_records fs). k = toKey (pe_planId e) (pe_stepId e)) \<and>
     (\<forall>(k, m, u) \<in> set (fs_planRecords fs). k = pm_planId m)"

definition synced :: "FilePlanStateStore \<Rightarrow> bool" where
  "synced fs \<longleftrightarrow> (case fs_disk fs of None \<Rightarrow> fs_records fs = [] \<and> fs_planRecords fs = []
     | Some d \<Rightarrow> d = document_of fs)"

lemma keyed_update:
  assumes "keyed fs"
  shows "k = toKey (pe_planId e) (pe_stepId e) \<Longrightarrow> keyed (fs\<lparr>fs_records := jset k e (fs_records fs)\<rparr>)"
    and "k' = pm_planId m \<Longrightarrow> keyed (fs\<lparr>fs_planRecords := jset k' (m, u) (fs_planRecords fs)\<rparr>)"
    and "keyed (fs\<lparr>fs_records := jdelete k (fs_records fs)\<rparr>)"
    and "keyed (fs\<lparr>fs_planRecords := jdelete k' (fs_planRecords fs)\<rparr>)"
  using assms by (fastforce simp: keyed_def dest!: set_jset set_jdelete)+

lemma keyed_purge [simp]: "keyed fs \<Longrightarrow> keyed (purgeExpired now fs)"
  by (auto simp: keyed_def purgeExpired_def split: option.split)

lemma keyed_persist [simp]: "keyed (persist fs) = keyed fs" "keyed (persist_if b fs) = keyed fs"
  by (simp_all add: keyed_def)

lemma keyed_lookup: "keyed fs \<Longrightarrow> map_of (fs_records fs) k = Some e \<Longrightarrow> k = toKey (pe_planId e) (pe_stepId e)"
  by (auto simp: keyed_def dest!: map_of_SomeD)

lemma keyed_lookup_purge:
  "keyed fs \<Longrightarrow> map_of (fs_records (purgeExpired now fs)) k = Some e \<Longrightarrow> k = toKey (pe_planId e) (pe_stepId e)"
  using keyed_lookup keyed_purge by blast

text \<open>Writing brings the document up to date; not writing is fine when nothing was purged.\<close>

lemma synced_persist [simp]: "\<not> fs_closed fs \<Longrightarrow> synced (persist fs)"
  by (simp add: synced_def persist_def document_of_def)

lemma filter_same_length: "\<not> length (filter P xs) < length xs \<Longrightarrow> filter P xs = xs"
  by (metis filter_id_conv length_filter_less not_less_iff_gr_or_eq)

lemma not_purged: "\<not> purged now fs \<Longrightarrow> purgeExpired now fs = fs"
  by (auto simp: purged_def purgeExpired_def dest!: filter_same_length split: option.splits)

lemma synced_persist_if:
  "synced fs \<Longrightarrow> \<not> fs_closed fs \<Longrightarrow> synced (persist_if (purged now fs) (purgeExpired now fs))"
  by (cases "purged now fs") (simp_all add: persist_if_def not_purged)

lemma jdelete_absent: "map_of m k = None \<Longrightarrow> jdelete k m = m"
  by (simp add: delete_idem map_of_eq_None_iff)

definition disk_wf :: "FilePlanStateStore \<Rightarrow> bool" where
  "disk_wf fs \<longleftrightarrow> (case fs_disk fs of None \<Rightarrow> True
     | Some d \<Rightarrow> \<exists>g. keyed g \<and> d = document_of g)"

text \<open>Reading a document back rebuilds the maps it was written from.\<close>

lemma load_document:
  assumes "keyed g"
  shows "fs_records (load now (new_FilePlanStateStore r (Some (document_of g)))) = fs_records g"
    and "fs_planRecords (load now (new_FilePlanStateStore r (Some (document_of g)))) =
      map (\<lambda>(k, m, u). (k, m, now)) (fs_planRecords g)"
proof -
  have "fold (\<lambda>e. jset (toKey (pe_planId e) (pe_stepId e)) e) (jvalues (fs_records g)) [] = fs_records g"
    using assms fold_jset_rebuild [of "[]" "fs_records g" "\<lambda>e. toKey (pe_planId e) (pe_stepId e)" "\<lambda>e. e"]
    by (auto simp: keyed_def)
  then show "fs_records (load now (new_FilePlanStateStore r (Some (document_of g)))) = fs_records g"
    by (simp add: load_def new_FilePlanStateStore_def document_of_def)
  have "fold (\<lambda>v. jset (pm_planId (fst v)) (fst v, now)) (jvalues (fs_planRecords g)) [] =
      [] @ map (\<lambda>(k, v). (k, fst v, now)) (fs_planRecords g)"
    using assms by (intro fold_jset_rebuild) (auto simp: keyed_def)
  then show "fs_planRecords (load now (new_FilePlanStateStore r (Some (document_of g)))) =
      map (\<lambda>(k, m, u). (k, m, now)) (fs_planRecords g)"
    by (simp add: load_def new_FilePlanStateStore_def document_of_def fold_map comp_def case_prod_unfold)
qed

text \<open>The invariant of a life: entries keyed, the document on disk well formed, and up to
  date as long as the store is open.\<close>

definition life_inv :: "FilePlanStateStore \<Rightarrow> bool" where
  "life_inv fs \<longleftrightarrow> keyed fs \<and> disk_wf fs \<and> (fs_closed fs \<or> synced fs)"

lemma disk_wf_persist: "keyed fs \<Longrightarrow> disk_wf fs \<Longrightarrow> disk_wf (persist fs)"
  by (auto simp: disk_wf_def persist_def document_of_def keyed_def)

lemma life_inv_persist: "keyed fs \<Longrightarrow> disk_wf fs \<Longrightarrow> life_inv (persist fs)"
  by (cases "fs_closed fs") (simp_all add: life_inv_def disk_wf_persist)

lemma disk_wf_same: "fs_disk fs' = fs_disk fs \<Longrightarrow> disk_wf fs' = disk_wf fs"
  by (simp add: disk_wf_def)

lemma life_inv_persist_if:
  assumes "life_inv fs"
  shows "life_inv (persist_if (purged now fs) (purgeExpired now fs))"
proof (cases "purged now fs")
  case True
  then show ?thesis
    using assms life_inv_persist [of "purgeExpired now fs"] disk_wf_same [of "purgeExpired now fs" fs]
    by (simp add: persist_if_def life_inv_def)
next
  case False
  then show ?thesis using assms by (simp add: persist_if_def not_purged)
qed

lemma life_inv_purge:
  assumes "life_inv fs"
  shows "keyed (purgeExpired now fs)" and "disk_wf (purgeExpired now fs)"
  using assms disk_wf_same [of "purgeExpired now fs" fs] by (simp_all add: life_inv_def)

lemma life_inv_update:
  assumes "life_inv fs"
  shows "k = toKey (pe_planId e) (pe_stepId e) \<Longrightarrow>
      life_inv (persist ((purgeExpired now fs)\<lparr>fs_records := jset k e (fs_records (purgeExpired now fs))\<rparr>))"
    and "k' = pm_planId m \<Longrightarrow>
      life_inv (persist ((purgeExpired now fs)\<lparr>fs_planRecords := jset k' (m, u) (fs_planRecords (purgeExpired now fs))\<rparr>))"
    and "life_inv (persist ((purgeExpired now fs)\<lparr>fs_records := jdelete k (fs_records (purgeExpired now fs))\<rparr>))"
    and "life_inv (persist ((purgeExpired now fs)\<lparr>fs_planRecords := jdelete k' (fs_planRecords (purgeExpired now fs))\<rparr>))"
  using keyed_update [OF life_inv_purge(1) [OF assms]] life_inv_purge(2) [OF assms]
  by (auto intro!: life_inv_persist simp: disk_wf_def)

lemma life_inv_delete:
  assumes "life_inv fs"
  shows "life_inv (forgetStep now p i fs)" and "life_inv (forgetPlanMetadata now p fs)"
proof -
  show "life_inv (forgetStep now p i fs)"
  proof (cases "jhas (fs_records (purgeExpired now fs)) (toKey p i)")
    case True
    then show ?thesis using life_inv_update(3) [OF assms] by (simp add: forgetStep_def Let_def persist_if_def)
  next
    case False
    then show ?thesis using life_inv_persist_if [OF assms] by (simp add: forgetStep_def Let_def jdelete_absent)
  qed
  show "life_inv (forgetPlanMetadata now p fs)"
  proof (cases "jhas (fs_planRecords (purgeExpired now fs)) p")
    case True
    then show ?thesis
      using life_inv_update(4) [OF assms] by (simp add: forgetPlanMetadata_def Let_def persist_if_def)
  next
    case False
    then have "map_of (fs_planRecords (purgeExpired now fs)) p = None" by blast
    from jdelete_absent [OF this] show ?thesis
      using False life_inv_persist_if [OF assms] by (simp add: forgetPlanMetadata_def Let_def)
  qed
qed

lemma life_inv_restart:
  assumes "disk_wf fs"
  shows "life_inv (load now (new_FilePlanStateStore r (fs_disk fs)))"
proof (cases "fs_disk fs")
  case None
  then show ?thesis
    by (simp add: life_inv_def load_def new_FilePlanStateStore_def keyed_def disk_wf_def synced_def)
next
  case (Some d)
  then obtain g where g: "keyed g" "d = document_of g" using assms by (auto simp: disk_wf_def)
  let ?l = "load now (new_FilePlanStateStore r (Some (document_of g)))"
  have disk: "fs_disk ?l = Some (document_of g)" by (simp add: load_def new_FilePlanStateStore_def)
  note maps = load_document [OF g(1), of now r]
  have "keyed ?l" using g(1) unfolding keyed_def maps by (auto simp: comp_def case_prod_unfold)
  moreover have "document_of ?l = document_of g"
    using maps by (simp add: document_of_def [of ?l]) (simp add: document_of_def case_prod_unfold comp_def)
  ultimately show ?thesis using Some g disk by (auto simp: life_inv_def disk_wf_def synced_def)
qed

lemma store_op_life: "life_inv fs \<Longrightarrow> life_inv (store_op now op fs)"
proof (cases op)
  case (OpSetState p i x y z a)
  assume inv: "life_inv fs"
  then show ?thesis using OpSetState keyed_lookup_purge [of fs]
    by (auto simp: setState_def Let_def life_inv_persist_if life_inv_update life_inv_def [of fs]
        simp del: map_of_eq_Some_iff split: option.split)
next
  case (OpRecordApproval p i c g)
  assume inv: "life_inv fs"
  then show ?thesis using OpRecordApproval keyed_lookup_purge [of fs]
    by (auto simp: recordApproval_def Let_def life_inv_persist_if life_inv_update life_inv_def [of fs]
        simp del: map_of_eq_Some_iff split: option.split)
next
  case OpClear
  assume "life_inv fs"
  then show ?thesis using OpClear
    by (simp add: clear_store_def) (rule life_inv_persist, simp_all add: life_inv_def keyed_def disk_wf_def)
next
  case OpClose
  assume "life_inv fs"
  then show ?thesis using OpClose by (simp add: close_store_def life_inv_def keyed_def disk_wf_def)
next
  case (OpRestart r)
  assume "life_inv fs"
  then show ?thesis using OpRestart life_inv_restart by (simp add: life_inv_def [of fs])
qed (simp_all add: rememberStep_def listActiveSteps_def getEntry_def rememberPlanMetadata_def getPlanMetadata_def
    listPlanMetadata_def Let_def life_inv_persist_if life_inv_update life_inv_delete)

lemma store_run_life: "life_inv (store_run r ops)"
proof -
  have "life_inv fs \<Longrightarrow> life_inv (fold (\<lambda>(now, op). store_op now op) ops fs)" for fs
    by (induction ops arbitrary: fs) (auto simp: store_op_life)
  moreover have "life_inv (new_FilePlanStateStore r None)"
    by (simp add: life_inv_def new_FilePlanStateStore_def keyed_def disk_wf_def synced_def)
  ultimately show ?thesis unfolding store_run_def by blast
qed


definition sample_step :: PlanStep where
  "sample_step = \<lparr>ps_id = ''s1'', ps_action = ''apply'', ps_capability = ''repo.write'', ps_capabilityLabel = ''Apply'',
     ps_labels = [], ps_tool = ''code_writer'', ps_timeoutSeconds = 60, ps_approvalRequired = True, ps_input = [],
     ps_summary = None, ps_metadata = []\<rparr>"

definition sample_options :: RememberOptions where
  "sample_options = \<lparr>ro_initialState = StWaitingApproval, ro_idempotencyKey = ''p:s1'', ro_attempt = 0, ro_createdAt = 5,
     ro_requestId = None, ro_approvals = None, ro_subject = None\<rparr>"

definition sample_ops :: "(time \<times> StoreOp) list" where
  "sample_ops = [(5, OpRememberStep ''u1'' ''p'' sample_step ''t'' sample_options),
     (6, OpRecordApproval ''p'' ''s1'' ''repo.write'' True), (7, OpRestart None),
     (8, OpSetState ''p'' ''s1'' StQueued None None None)]"

lemmas store_eval = store_run_def sample_ops_def sample_step_def sample_options_def rememberStep_def recordApproval_def
  setState_def getEntry_def persist_def persist_if_def purgeExpired_def purged_def load_def document_of_def
  new_FilePlanStateStore_def toKey_def TERMINAL_STATES_def Let_def


theorem file_store_contract_witness:
  "snd (getEntry 8 ''q'' ''s1'' (forgetStep 8 ''p'' ''s1'' (store_run None sample_ops))) =
   snd (getEntry 8 ''q'' ''s1'' (store_run None sample_ops)) \<and>
   snd (getEntry 8 ''p'' ''s1'' (store_run None sample_ops)) \<noteq> None"
proof -
  have 1: "store_inv (store_run None sample_ops)" by (simp add: store_eval store_inv_def)
  have 2: "snd (getEntry 8 ''p'' ''s1'' (store_run None sample_ops)) \<noteq> None" by (simp add: store_eval)
  have 3: "StRunning \<notin> set TERMINAL_STATES" by (simp add: TERMINAL_STATES_def)
  from 2 show ?thesis
    using file_store_contract [OF 1 2 3, of "''q''" "''s1''" None None None "''repo.write''" False] by simp
qed

end
