(* ===== verification/Plan_Events.thy ===== *)
theory Plan_Events
  imports Plan_State "HOL-Library.Sublist"
begin

text \<open>
  The event history of plans, \<^verbatim>\<open>services/orchestrator/src/plan/events.ts\<close>: publication,
  the bounded history per plan, its idle clean-up timer, and subscriptions.  A subscription
  is a number and the plan it listens to; \<open>es_delivered\<close> records what the emitter handed to
  the listeners.  Validation of an event by its schema is taken to succeed, as it does for the
  events the orchestrator builds.
\<close>

section \<open>Definitions\<close>

record EventStep =
  ev_stepId :: string
  ev_action :: string
  ev_tool :: string
  ev_state :: PlanStepState
  ev_capability :: string
  ev_capabilityLabel :: string
  ev_labels :: "string list"
  ev_timeoutSeconds :: int
  ev_approvalRequired :: bool
  ev_attempt :: "int option"
  ev_summary :: "string option"
  ev_output :: "json option"
  ev_approvals :: "approvals option"

record PlanStepEvent =
  ev_traceId :: string
  ev_requestId :: "string option"
  ev_planId :: string
  ev_occurredAt :: time
  ev_step :: EventStep

record PlanHistoryEntry =
  he_events :: "PlanStepEvent list"
  he_cleanupTimer :: "time option"
  he_lastActivity :: time

record PlanEvents =
  es_history :: "(string, PlanHistoryEntry) jsmap"
  es_listeners :: "(nat \<times> string) list"
  es_delivered :: "(nat \<times> PlanStepEvent) list"

definition MAX_EVENTS_PER_PLAN :: nat where
  "MAX_EVENTS_PER_PLAN = 200"

definition HISTORY_RETENTION_MS :: int where
  "HISTORY_RETENTION_MS = 5 * 60 * 1000"

definition ACTIVE_STEP_STATES :: "PlanStepState list" where
  "ACTIVE_STEP_STATES = [StQueued, StRunning, StRetrying, StWaitingApproval, StApproved]"

definition empty_events :: PlanEvents where
  "empty_events = \<lparr>es_history = [], es_listeners = [], es_delivered = []\<rparr>"

definition latestStates :: "PlanStepEvent list \<Rightarrow> (string, PlanStepState) jsmap" where
  "latestStates evs = fold (\<lambda>e. jset (ev_stepId (ev_step e)) (ev_state (ev_step e))) evs []"

definition hasActiveSteps :: "PlanHistoryEntry \<Rightarrow> bool" where
  "hasActiveSteps h \<longleftrightarrow> (\<exists>s \<in> set (jvalues (latestStates (he_events h))). s \<in> set ACTIVE_STEP_STATES)"

definition scheduleCleanup :: "time \<Rightarrow> string \<Rightarrow> PlanEvents \<Rightarrow> PlanEvents" where
  "scheduleCleanup now planId es = es\<lparr>es_history :=
     jmodify planId (\<lambda>h. h\<lparr>he_cleanupTimer := Some (now + HISTORY_RETENTION_MS)\<rparr>) (es_history es)\<rparr>"

text \<open>The callback of the clean-up timer of a plan.\<close>

definition cleanup_fires :: "time \<Rightarrow> string \<Rightarrow> PlanEvents \<Rightarrow> PlanEvents" where
  "cleanup_fires now planId es =
     (case map_of (es_history es) planId of
        None \<Rightarrow> es
      | Some h \<Rightarrow>
          if now - he_lastActivity h \<ge> HISTORY_RETENTION_MS
          then if hasActiveSteps h then scheduleCleanup now planId es
               else es\<lparr>es_history := jdelete planId (es_history es)\<rparr>
          else scheduleCleanup now planId es)"

definition keep_last :: "nat \<Rightarrow> 'a list \<Rightarrow> 'a list" where
  "keep_last n xs = drop (length xs - n) xs"

definition publishPlanStepEvent :: "time \<Rightarrow> PlanStepEvent \<Rightarrow> PlanEvents \<Rightarrow> PlanEvents" where
  "publishPlanStepEvent now e es =
     (let planId = ev_planId e;
          entry = (case map_of (es_history es) planId of
            None \<Rightarrow> \<lparr>he_events = [], he_cleanupTimer = None, he_lastActivity = now\<rparr> | Some h \<Rightarrow> h);
          entry' = entry\<lparr>he_cleanupTimer := None, he_lastActivity := now,
            he_events := keep_last MAX_EVENTS_PER_PLAN (he_events entry @ [e])\<rparr>
      in scheduleCleanup now planId
           (es\<lparr>es_history := jset planId entry' (es_history es),
              es_delivered := es_delivered es @
                map (\<lambda>(l, p). (l, e)) (filter (\<lambda>(l, p). p = planId) (es_listeners es))\<rparr>))"

definition getPlanHistory :: "PlanEvents \<Rightarrow> string \<Rightarrow> PlanStepEvent list" where
  "getPlanHistory es planId = (case map_of (es_history es) planId of None \<Rightarrow> [] | Some h \<Rightarrow> he_events h)"

definition getLatestPlanStepEvent :: "PlanEvents \<Rightarrow> string \<Rightarrow> string \<Rightarrow> PlanStepEvent option" where
  "getLatestPlanStepEvent es planId stepId =
     (case map_of (es_history es) planId of
        None \<Rightarrow> None
      | Some h \<Rightarrow> List.find (\<lambda>e. ev_stepId (ev_step e) = stepId) (rev (he_events h)))"

definition subscribeToPlanSteps :: "nat \<Rightarrow> string \<Rightarrow> PlanEvents \<Rightarrow> PlanEvents" where
  "subscribeToPlanSteps l planId es = es\<lparr>es_listeners := es_listeners es @ [(l, planId)]\<rparr>"

definition unsubscribe :: "nat \<Rightarrow> PlanEvents \<Rightarrow> PlanEvents" where
  "unsubscribe l es = es\<lparr>es_listeners := filter (\<lambda>(l', p). l' \<noteq> l) (es_listeners es)\<rparr>"

definition clearPlanHistory :: "PlanEvents \<Rightarrow> PlanEvents" where
  "clearPlanHistory es = es\<lparr>es_history := [], es_listeners := []\<rparr>"

section \<open>Histories\<close>

lemma history_schedule:
  "map_of (es_history (scheduleCleanup now p es)) q =
     (if q = p then map_option (\<lambda>h. h\<lparr>he_cleanupTimer := Some (now + HISTORY_RETENTION_MS)\<rparr>) (map_of (es_history es) p)
      else map_of (es_history es) q)"
  by (simp add: scheduleCleanup_def jmap_simps)

lemma events_schedule [simp]: "getPlanHistory (scheduleCleanup now p es) = getPlanHistory es"
  by (auto simp: getPlanHistory_def fun_eq_iff history_schedule split: option.split)

lemma suffix_keep_last: "suffix (keep_last n xs) xs"
  by (simp add: keep_last_def suffix_drop)

lemma length_keep_last: "length (keep_last n xs) \<le> n"
  by (simp add: keep_last_def)

lemma keep_last_snoc: "0 < n \<Longrightarrow> \<exists>ys. keep_last n (xs @ [x]) = ys @ [x]"
  by (simp add: keep_last_def)

lemma events_publish:
  "getPlanHistory (publishPlanStepEvent now e es) =
     (getPlanHistory es)(ev_planId e := keep_last MAX_EVENTS_PER_PLAN (getPlanHistory es (ev_planId e) @ [e]))"
  by (auto simp: publishPlanStepEvent_def Let_def) (auto simp: getPlanHistory_def fun_eq_iff jmap_simps split: option.split)

lemma latest_in_history:
  "getLatestPlanStepEvent es p i = List.find (\<lambda>e. ev_stepId (ev_step e) = i) (rev (getPlanHistory es p))"
  by (simp add: getLatestPlanStepEvent_def getPlanHistory_def split: option.split)

text \<open>A sequence of publications, clean-up callbacks and subscriptions.\<close>

datatype EventOp = Publish PlanStepEvent | CleanupFires string | Subscribe nat string | Unsubscribe nat

fun event_op :: "time \<Rightarrow> EventOp \<Rightarrow> PlanEvents \<Rightarrow> PlanEvents" where
  "event_op now (Publish e) es = publishPlanStepEvent now e es"
| "event_op now (CleanupFires p) es = cleanup_fires now p es"
| "event_op now (Subscribe l p) es = subscribeToPlanSteps l p es"
| "event_op now (Unsubscribe l) es = unsubscribe l es"

definition event_run :: "(time \<times> EventOp) list \<Rightarrow> PlanEvents" where
  "event_run ops = fold (\<lambda>(now, op). event_op now op) ops empty_events"

lemma history_subscribe [simp]:
  "getPlanHistory (subscribeToPlanSteps l p es) = getPlanHistory es"
  "getPlanHistory (unsubscribe l es) = getPlanHistory es"
  by (simp_all add: getPlanHistory_def subscribeToPlanSteps_def unsubscribe_def fun_eq_iff)

lemma history_cleanup:
  "getPlanHistory (cleanup_fires now p es) = (case map_of (es_history es) p of
     None \<Rightarrow> getPlanHistory es
   | Some h \<Rightarrow> (getPlanHistory es)(p := if hasActiveSteps h \<or> now - he_lastActivity h < HISTORY_RETENTION_MS
       then he_events h else []))"
  by (auto simp: cleanup_fires_def getPlanHistory_def fun_eq_iff jmap_simps history_schedule split: option.split)

text \<open>The events published for a plan.\<close>

definition published :: "string \<Rightarrow> (time \<times> EventOp) list \<Rightarrow> PlanStepEvent list" where
  "published p ops = concat (map (\<lambda>(t, op). case op of Publish e \<Rightarrow> if ev_planId e = p then [e] else [] | _ \<Rightarrow> []) ops)"

lemma published_snoc:
  "published p (ops @ [(t, op)]) = published p ops @ (case op of Publish e \<Rightarrow> if ev_planId e = p then [e] else [] | _ \<Rightarrow> [])"
  by (simp add: published_def)

lemma event_run_snoc: "event_run (ops @ [(t, op)]) = event_op t op (event_run ops)"
  by (simp add: event_run_def)

lemma suffix_keep_last_snoc: "suffix xs ys \<Longrightarrow> suffix (keep_last n (xs @ [x])) (ys @ [x])"
  by (meson suffix_keep_last suffix_order.trans snoc_suffix_snoc)

lemma history_run:
  "suffix (getPlanHistory (event_run ops) p) (published p ops) \<and>
     length (getPlanHistory (event_run ops) p) \<le> MAX_EVENTS_PER_PLAN"
proof (induction ops rule: rev_induct)
  case Nil
  then show ?case by (simp add: event_run_def empty_events_def getPlanHistory_def)
next
  case (snoc x ops)
  obtain t op where x: "x = (t, op)" by (cases x)
  show ?case
  proof (cases op)
    case (CleanupFires q)
    show ?thesis
    proof (cases "map_of (es_history (event_run ops)) q")
      case (Some h)
      then have "getPlanHistory (event_run ops) q = he_events h" by (simp add: getPlanHistory_def)
      then show ?thesis
        using snoc CleanupFires Some x by (auto simp: event_run_snoc published_snoc history_cleanup)
    qed (use snoc CleanupFires x in \<open>simp add: event_run_snoc published_snoc history_cleanup\<close>)
  next
    case (Publish e)
    then show ?thesis
      using snoc x by (cases "p = ev_planId e")
        (simp_all add: event_run_snoc published_snoc events_publish length_keep_last suffix_keep_last_snoc
          del: suffix_snoc)
  qed (use snoc x in \<open>simp_all add: event_run_snoc published_snoc\<close>)
qed

lemma latestStates_lookup:
  "map_of (latestStates evs) i =
     map_option (\<lambda>e. ev_state (ev_step e)) (List.find (\<lambda>e. ev_stepId (ev_step e) = i) (rev evs))"
proof (induction evs rule: rev_induct)
  case Nil
  then show ?case by (simp add: latestStates_def)
next
  case (snoc e evs)
  then show ?case by (simp add: latestStates_def jmap_simps)
qed

lemma jwf_latestStates: "jwf (latestStates evs)"
  by (induction evs rule: rev_induct) (simp_all add: latestStates_def)

lemma hasActiveSteps_iff:
  "hasActiveSteps h \<longleftrightarrow> (\<exists>i e. List.find (\<lambda>e. ev_stepId (ev_step e) = i) (rev (he_events h)) = Some e \<and>
     ev_state (ev_step e) \<in> set ACTIVE_STEP_STATES)"
proof -
  have "hasActiveSteps h \<longleftrightarrow> (\<exists>i s. map_of (latestStates (he_events h)) i = Some s \<and> s \<in> set ACTIVE_STEP_STATES)"
    using in_jvalues_iff [OF jwf_latestStates] unfolding hasActiveSteps_def by blast
  then show ?thesis by (auto simp: latestStates_lookup)
qed

text \<open>
  The history of a plan is the end of the sequence of its published events, at most
  200 of them; a published event is at once the latest of its step; and the clean-up timer
  drops a history only when it has been idle for the retention period and no step of the
  plan was last seen in an active state.
\<close>

theorem plan_history_faithful:
  "suffix (getPlanHistory (event_run ops) p) (published p ops) \<and>
   length (getPlanHistory (event_run ops) p) \<le> 200 \<and>
   getLatestPlanStepEvent (publishPlanStepEvent now e (event_run ops)) (ev_planId e) (ev_stepId (ev_step e)) = Some e \<and>
   (case map_of (es_history (event_run ops)) p of
      None \<Rightarrow> True
    | Some h \<Rightarrow> getPlanHistory (cleanup_fires now p (event_run ops)) p =
        (if now - he_lastActivity h \<ge> HISTORY_RETENTION_MS \<and>
            \<not> (\<exists>i e. getLatestPlanStepEvent (event_run ops) p i = Some e \<and> ev_state (ev_step e) \<in> set ACTIVE_STEP_STATES)
         then [] else getPlanHistory (event_run ops) p))"
proof -
  let ?es = "event_run ops"
  obtain ys where "getPlanHistory (publishPlanStepEvent now e ?es) (ev_planId e) = ys @ [e]"
    using keep_last_snoc [of MAX_EVENTS_PER_PLAN "getPlanHistory ?es (ev_planId e)" e]
    by (auto simp: events_publish MAX_EVENTS_PER_PLAN_def)
  then have latest: "getLatestPlanStepEvent (publishPlanStepEvent now e ?es) (ev_planId e) (ev_stepId (ev_step e)) = Some e"
    by (simp add: latest_in_history)
  have "getPlanHistory (cleanup_fires now p ?es) p =
      (if now - he_lastActivity h \<ge> HISTORY_RETENTION_MS \<and>
          \<not> (\<exists>i e. getLatestPlanStepEvent ?es p i = Some e \<and> ev_state (ev_step e) \<in> set ACTIVE_STEP_STATES)
       then [] else getPlanHistory ?es p)" if "map_of (es_history ?es) p = Some h" for h
    using that by (auto simp: history_cleanup hasActiveSteps_iff getLatestPlanStepEvent_def getPlanHistory_def)
  with latest show ?thesis
    using history_run [of ops p]
    by (simp add: MAX_EVENTS_PER_PLAN_def del: not_ex split: option.split)
qed

end
