(* ===== verification/Plan_Queue.thy ===== *)
theory Plan_Queue
  imports Plan_Store Plan_Events
begin

text \<open>
  The plan queue: the in-memory registries of \<^verbatim>\<open>services/PlanStateService.ts\<close> and the
  operations of \<^verbatim>\<open>queue/PlanQueueManager.ts\<close>, all under
  \<^verbatim>\<open>services/orchestrator/src\<close>.  The state is one record, the store and the event history
  included.  Each operation runs at one time stamp of its environment \<open>QueueEnv\<close>, which also
  supplies what is outside the queue: the policy enforcer's answer to a step, whether the
  broker accepts a message, a fresh identifier, and the content-capture setting.  An
  operation that throws returns \<open>Inl\<close> with the state it leaves behind.  \<open>qs_log\<close> records, newest
  first, what the operations do to the outside: approvals taken, messages sent,
  dispositions of messages, tool calls, session locks.
\<close>

section \<open>State\<close>

record RegistryEntry =
  re_step :: PlanStep
  re_traceId :: string
  re_requestId :: "string option"
  re_job :: PlanJob
  re_inFlight :: bool

record DenyReason =
  dr_reason :: string
  dr_capability :: "string option"

record PolicySubject =
  po_tenant :: "string option"
  po_sessionId :: "string option"
  po_roles :: "string list"
  po_scopes :: "string list"
  po_user :: "string option \<times> string option \<times> string option"

text \<open>What \<^verbatim>\<open>enforcePlanStep\<close> does: return a decision, or throw a policy violation or
  another error.\<close>

datatype PolicyOutcome =
    Decision (po_allow: bool) (po_deny: "DenyReason list")
  | Violation string "DenyReason list"
  | PolicyFault string

type_synonym policy =
  "PlanStep \<Rightarrow> string \<Rightarrow> string \<Rightarrow> approvals \<Rightarrow> PolicySubject option \<Rightarrow> PolicyOutcome"

datatype Disposition = Acked | Retried "int option" | DeadLettered string

datatype QueueLog =
    LApproved string string string
  | LReleased PlanJob
  | LRequeued PlanJob
  | LTool string PlanStep approvals
  | LMessage string Disposition
  | LRestoreLocks string
  | LReleaseLocks string

datatype QueueError =
    StepNotAvailable string string
  | PolicyViolationError string "DenyReason list"
  | PolicyError string
  | EnqueueError

record QueueEnv =
  en_now :: time
  en_uuid :: string
  en_policy :: policy
  en_enqueue :: "PlanJob \<Rightarrow> bool"
  en_capture :: bool

record QueueState =
  qs_store :: FilePlanStateStore
  qs_registry :: "(string, RegistryEntry) jsmap"
  qs_approvalCache :: "(string, approvals) jsmap"
  qs_planSubjects :: "(string, PlanSubject) jsmap"
  qs_retained :: "(string, PlanSubject) jsmap"
  qs_events :: PlanEvents
  qs_planSessions :: "(string, string) jsmap"
  qs_sessionRefCounts :: "(string, int) jsmap"
  qs_log :: "QueueLog list"

definition log :: "QueueLog \<Rightarrow> QueueState \<Rightarrow> QueueState" where
  "log x q = q\<lparr>qs_log := x # qs_log q\<rparr>"

section \<open>PlanStateService\<close>

definition getRegistryEntry :: "QueueState \<Rightarrow> string \<Rightarrow> string \<Rightarrow> RegistryEntry option" where
  "getRegistryEntry q planId stepId = map_of (qs_registry q) (toKey planId stepId)"

definition setRegistryEntry :: "string \<Rightarrow> string \<Rightarrow> RegistryEntry \<Rightarrow> QueueState \<Rightarrow> QueueState" where
  "setRegistryEntry planId stepId e q = q\<lparr>qs_registry := jset (toKey planId stepId) e (qs_registry q)\<rparr>"

definition deleteRegistryEntry :: "string \<Rightarrow> string \<Rightarrow> QueueState \<Rightarrow> QueueState" where
  "deleteRegistryEntry planId stepId q = q\<lparr>qs_registry := jdelete (toKey planId stepId) (qs_registry q)\<rparr>"

definition on_store :: "(FilePlanStateStore \<Rightarrow> FilePlanStateStore) \<Rightarrow> QueueState \<Rightarrow> QueueState" where
  "on_store f q = q\<lparr>qs_store := f (qs_store q)\<rparr>"

definition read_entry :: "QueueEnv \<Rightarrow> string \<Rightarrow> string \<Rightarrow> QueueState \<Rightarrow> QueueState \<times> PersistedStep option" where
  "read_entry env planId stepId q =
     (let (fs, e) = getEntry (en_now env) planId stepId (qs_store q) in (q\<lparr>qs_store := fs\<rparr>, e))"

definition read_plan :: "QueueEnv \<Rightarrow> string \<Rightarrow> QueueState \<Rightarrow> QueueState \<times> PersistedPlanMetadata option" where
  "read_plan env planId q =
     (let (fs, m) = getPlanMetadata (en_now env) planId (qs_store q) in (q\<lparr>qs_store := fs\<rparr>, m))"

definition cacheApprovals :: "string \<Rightarrow> string \<Rightarrow> approvals \<Rightarrow> QueueState \<Rightarrow> QueueState" where
  "cacheApprovals planId stepId a q = q\<lparr>qs_approvalCache := jset (toKey planId stepId) a (qs_approvalCache q)\<rparr>"

definition clearApprovals :: "string \<Rightarrow> string \<Rightarrow> QueueState \<Rightarrow> QueueState" where
  "clearApprovals planId stepId q = q\<lparr>qs_approvalCache := jdelete (toKey planId stepId) (qs_approvalCache q)\<rparr>"

definition ensureApprovals :: "QueueEnv \<Rightarrow> string \<Rightarrow> string \<Rightarrow> QueueState \<Rightarrow> QueueState \<times> approvals" where
  "ensureApprovals env planId stepId q =
     (case map_of (qs_approvalCache q) (toKey planId stepId) of
        Some a \<Rightarrow> (q, a)
      | None \<Rightarrow>
          let (q1, e) = read_entry env planId stepId q;
              a = (case e of None \<Rightarrow> [] | Some r \<Rightarrow> (case pe_approvals r of None \<Rightarrow> [] | Some m \<Rightarrow> m))
          in (cacheApprovals planId stepId a q1, a))"

definition getPlanSubject :: "QueueState \<Rightarrow> string \<Rightarrow> PlanSubject option" where
  "getPlanSubject q planId = map_of (qs_planSubjects q) planId"

definition setPlanSubject :: "string \<Rightarrow> PlanSubject \<Rightarrow> QueueState \<Rightarrow> QueueState" where
  "setPlanSubject planId s q = q\<lparr>qs_planSubjects := jset planId s (qs_planSubjects q)\<rparr>"

definition deletePlanSubject :: "string \<Rightarrow> QueueState \<Rightarrow> QueueState" where
  "deletePlanSubject planId q = q\<lparr>qs_planSubjects := jdelete planId (qs_planSubjects q)\<rparr>"

definition retainCompletedPlanSubject :: "string \<Rightarrow> PlanSubject \<Rightarrow> QueueState \<Rightarrow> QueueState" where
  "retainCompletedPlanSubject planId s q = q\<lparr>qs_retained := jset planId s (jdelete planId (qs_retained q))\<rparr>"

text \<open>Also the effect of the retention timer of a completed plan's subject.\<close>

definition clearRetainedPlanSubject :: "string \<Rightarrow> QueueState \<Rightarrow> QueueState" where
  "clearRetainedPlanSubject planId q = q\<lparr>qs_retained := jdelete planId (qs_retained q)\<rparr>"

definition visiblePlanSubject :: "QueueState \<Rightarrow> string \<Rightarrow> PlanSubject option" where
  "visiblePlanSubject q planId =
     (case getPlanSubject q planId of Some s \<Rightarrow> Some s | None \<Rightarrow> map_of (qs_retained q) planId)"

section \<open>Events, subjects and sessions\<close>

definition toPolicySubject :: "PlanSubject option \<Rightarrow> PolicySubject option" where
  "toPolicySubject s = map_option (\<lambda>u. \<lparr>po_tenant = su_tenantId u, po_sessionId = su_sessionId u, po_roles = su_roles u,
     po_scopes = su_scopes u, po_user = (su_userId u, su_email u, su_name u)\<rparr>) s"

record EventUpdate =
  up_state :: PlanStepState
  up_summary :: "string option"
  up_output :: "json option"
  up_occurredAt :: "time option"
  up_attempt :: "int option"

definition update_of :: "PlanStepState \<Rightarrow> string \<Rightarrow> int \<Rightarrow> EventUpdate" where
  "update_of st summary attempt = \<lparr>up_state = st, up_summary = Some summary, up_output = None, up_occurredAt = None,
     up_attempt = Some attempt\<rparr>"

definition sanitized :: "QueueEnv \<Rightarrow> EventUpdate \<Rightarrow> json option" where
  "sanitized env u = (if en_capture env then up_output u else None)"

definition event_of ::
  "QueueEnv \<Rightarrow> string \<Rightarrow> PlanStep \<Rightarrow> string \<Rightarrow> string option \<Rightarrow> EventUpdate \<Rightarrow> approvals option \<Rightarrow> PlanStepEvent" where
  "event_of env planId step traceId requestId u a =
     \<lparr>ev_traceId = traceId, ev_requestId = requestId, ev_planId = planId,
      ev_occurredAt = (case up_occurredAt u of None \<Rightarrow> en_now env | Some t \<Rightarrow> t),
      ev_step = \<lparr>ev_stepId = ps_id step, ev_action = ps_action step, ev_tool = ps_tool step, ev_state = up_state u,
        ev_capability = ps_capability step, ev_capabilityLabel = ps_capabilityLabel step, ev_labels = ps_labels step,
        ev_timeoutSeconds = ps_timeoutSeconds step, ev_approvalRequired = ps_approvalRequired step,
        ev_attempt = up_attempt u, ev_summary = up_summary u, ev_output = sanitized env u, ev_approvals = a\<rparr>\<rparr>"

definition set_state_of :: "QueueEnv \<Rightarrow> string \<Rightarrow> string \<Rightarrow> EventUpdate \<Rightarrow> QueueState \<Rightarrow> QueueState" where
  "set_state_of env planId stepId u =
     on_store (setState (en_now env) planId stepId (up_state u) (up_summary u) (sanitized env u) (up_attempt u))"

definition publish :: "QueueEnv \<Rightarrow> PlanStepEvent \<Rightarrow> QueueState \<Rightarrow> QueueState" where
  "publish env e q = q\<lparr>qs_events := publishPlanStepEvent (en_now env) e (qs_events q)\<rparr>"

definition emitPlanEvent ::
  "QueueEnv \<Rightarrow> string \<Rightarrow> PlanStep \<Rightarrow> string \<Rightarrow> string option \<Rightarrow> EventUpdate \<Rightarrow> approvals option \<Rightarrow> QueueState \<Rightarrow> QueueState" where
  "emitPlanEvent env planId step traceId requestId u a q =
     publish env (event_of env planId step traceId requestId u a) (set_state_of env planId (ps_id step) u q)"

definition startsWith :: "string \<Rightarrow> string \<Rightarrow> bool" where
  "startsWith s p \<longleftrightarrow> take (length p) s = p"

definition prunePlanSubject :: "string \<Rightarrow> QueueState \<Rightarrow> QueueState" where
  "prunePlanSubject planId q =
     (case getPlanSubject q planId of
        None \<Rightarrow> q
      | Some s \<Rightarrow>
          if \<exists>k \<in> set (jkeys (qs_registry q)). startsWith k (planId @ '':'') then q
          else retainCompletedPlanSubject planId s (deletePlanSubject planId q))"

definition cleanupPlanSession :: "string \<Rightarrow> QueueState \<Rightarrow> QueueState" where
  "cleanupPlanSession planId q =
     (case map_of (qs_planSessions q) planId of
        None \<Rightarrow> q
      | Some sessionId \<Rightarrow>
          let remaining = jget_or 1 (qs_sessionRefCounts q) sessionId - 1;
              q1 = (if remaining \<le> 0
                then (log (LReleaseLocks sessionId) q)\<lparr>qs_sessionRefCounts := jdelete sessionId (qs_sessionRefCounts q)\<rparr>
                else q\<lparr>qs_sessionRefCounts := jset sessionId remaining (qs_sessionRefCounts q)\<rparr>)
          in q1\<lparr>qs_planSessions := jdelete planId (qs_planSessions q1)\<rparr>)"

text \<open>\<^verbatim>\<open>deleteRegistryEntry\<close>, \<^verbatim>\<open>clearApprovals\<close>, \<^verbatim>\<open>forgetStep\<close> and \<^verbatim>\<open>prunePlanSubject\<close>, the
  sequence with which every handler ends a step.\<close>

definition drop_step :: "QueueEnv \<Rightarrow> string \<Rightarrow> string \<Rightarrow> QueueState \<Rightarrow> QueueState" where
  "drop_step env planId stepId q =
     prunePlanSubject planId
       (on_store (forgetStep (en_now env) planId stepId)
         (clearApprovals planId stepId (deleteRegistryEntry planId stepId q)))"

section \<open>PlanQueueManager\<close>

text \<open>The check applied to the enforcer's answer: a denial only for a missing approval does
  not stop a step that asks for approval.\<close>

definition policy_check :: "PlanStep \<Rightarrow> PolicyOutcome \<Rightarrow> QueueError option" where
  "policy_check step out =
     (case out of
        Decision allow deny \<Rightarrow>
          let blocking = filter (\<lambda>r. dr_reason r \<noteq> ''approval_required'') deny
          in if \<not> allow \<and> (blocking \<noteq> [] \<or> \<not> ps_approvalRequired step)
             then Some (PolicyViolationError (''Plan step '' @ ps_id step @ '' for capability '' @ ps_capability step @
               '' is not permitted'') deny)
             else None
      | Violation msg details \<Rightarrow> Some (PolicyViolationError msg details)
      | PolicyFault msg \<Rightarrow> Some (PolicyError msg))"

definition canReleaseNextStep :: "PersistedPlanMetadata \<Rightarrow> bool" where
  "canReleaseNextStep m \<longleftrightarrow> pm_nextStepIndex m < int (length (pm_steps m)) \<and>
     pm_nextStepIndex m \<le> pm_lastCompletedIndex m + 1"

datatype release_result =
    RBreak QueueState PersistedPlanMetadata
  | RNext QueueState PersistedPlanMetadata
  | RThrow QueueState QueueError

definition or_else :: "'a option \<Rightarrow> 'a option \<Rightarrow> 'a option" where
  "or_else x y = (case x of None \<Rightarrow> y | Some v \<Rightarrow> Some v)"

definition release_job ::
  "QueueEnv \<Rightarrow> string \<Rightarrow> PersistedPlanMetadata \<Rightarrow> PlanStepMetadata \<Rightarrow> PersistedStep option \<Rightarrow> QueueState \<Rightarrow> PlanJob" where
  "release_job env planId m se existing q =
     \<lparr>jb_planId = planId, jb_step = md_step se,
      jb_attempt = (case existing of None \<Rightarrow> md_attempt se | Some e \<Rightarrow> pe_attempt e),
      jb_createdAt = (case existing of None \<Rightarrow> md_createdAt se | Some e \<Rightarrow> pe_createdAt e),
      jb_traceId = pm_traceId m,
      jb_requestId = or_else (or_else (pm_requestId m) (md_requestId se)) (Some (en_uuid env)),
      jb_subject = or_else (or_else (md_subject se) (case existing of None \<Rightarrow> None | Some e \<Rightarrow> pe_subject e))
        (getPlanSubject q planId)\<rparr>"

definition release_metadata :: "PersistedPlanMetadata \<Rightarrow> PlanStepMetadata \<Rightarrow> PlanJob \<Rightarrow> PersistedPlanMetadata" where
  "release_metadata m se job = m\<lparr>pm_requestId := jb_requestId job,
     pm_steps := (pm_steps m)[nat (pm_nextStepIndex m) := se\<lparr>md_attempt := jb_attempt job, md_createdAt := jb_createdAt job,
       md_requestId := jb_requestId job, md_subject := jb_subject job\<rparr>]\<rparr>"

definition remember_job ::
  "QueueEnv \<Rightarrow> PlanStepState \<Rightarrow> PlanJob \<Rightarrow> approvals option \<Rightarrow> QueueState \<Rightarrow> QueueState" where
  "remember_job env st job a =
     on_store (rememberStep (en_now env) (en_uuid env) (jb_planId job) (jb_step job) (jb_traceId job)
       \<lparr>ro_initialState = st, ro_idempotencyKey = toKey (jb_planId job) (ps_id (jb_step job)), ro_attempt = jb_attempt job,
        ro_createdAt = jb_createdAt job, ro_requestId = jb_requestId job, ro_approvals = a, ro_subject = jb_subject job\<rparr>)"

text \<open>The part of the loop body after the policy check: park the step until it is approved,
  or send it to the queue.\<close>

definition release_step ::
  "QueueEnv \<Rightarrow> PersistedPlanMetadata \<Rightarrow> PersistedStep option \<Rightarrow> PlanJob \<Rightarrow> approvals \<Rightarrow> QueueState \<Rightarrow> release_result" where
  "release_step env m existing job a q =
     (let planId = jb_planId job; step = jb_step job;
          q1 = setRegistryEntry planId (ps_id step) \<lparr>re_step = step, re_traceId = pm_traceId m,
            re_requestId = jb_requestId job, re_job = job, re_inFlight = False\<rparr> q;
          emit = (\<lambda>st text. emitPlanEvent env planId step (pm_traceId m) (jb_requestId job)
            (update_of st text (jb_attempt job)) None)
      in if ps_approvalRequired step \<and> map_of a (ps_capability step) \<noteq> Some True
         then RBreak (if existing = None
                then emit StWaitingApproval ''Awaiting approval'' (remember_job env StWaitingApproval job (Some a) q1)
                else q1) m
         else let q2 = cacheApprovals planId (ps_id step) a q1;
                  q3 = (if existing = None then remember_job env StQueued job (Some a) q2 else q2)
              in if en_enqueue env job
                 then RNext (emit StQueued ''Queued for execution'' (log (LReleased job) q3))
                   (m\<lparr>pm_nextStepIndex := pm_nextStepIndex m + 1\<rparr>)
                 else RThrow (drop_step env planId (ps_id step) q3) EnqueueError)"

definition release_one :: "QueueEnv \<Rightarrow> string \<Rightarrow> PersistedPlanMetadata \<Rightarrow> QueueState \<Rightarrow> release_result" where
  "release_one env planId m q =
     (let se = pm_steps m ! nat (pm_nextStepIndex m);
          (q1, existing) = read_entry env planId (ps_id (md_step se)) q
      in if (case existing of None \<Rightarrow> False | Some e \<Rightarrow> pe_state e \<in> {StQueued, StRunning, StRetrying})
         then RBreak q1 m
         else let job = release_job env planId m se existing q1;
                  m1 = release_metadata m se job;
                  (q2, a) = ensureApprovals env planId (ps_id (md_step se)) q1
              in case policy_check (md_step se)
                        (en_policy env (md_step se) planId (pm_traceId m) a (toPolicySubject (jb_subject job))) of
                   Some err \<Rightarrow> RThrow q2 err
                 | None \<Rightarrow> release_step env m1 existing job a q2)"

lemma release_one_next:
  assumes "release_one env planId m q = RNext q' m'"
  shows "length (pm_steps m') = length (pm_steps m) \<and> pm_nextStepIndex m' = pm_nextStepIndex m + 1 \<and>
    pm_lastCompletedIndex m' = pm_lastCompletedIndex m"
  using assms by (auto simp: release_one_def release_step_def release_metadata_def Let_def
      split: prod.splits if_splits option.splits)

function release_loop ::
  "QueueEnv \<Rightarrow> string \<Rightarrow> PersistedPlanMetadata \<Rightarrow> QueueState \<Rightarrow> QueueState \<times> (QueueError + PersistedPlanMetadata)" where
  "release_loop env planId m q =
     (if canReleaseNextStep m
      then (case release_one env planId m q of
              RBreak q' m' \<Rightarrow> (q', Inr m')
            | RThrow q' err \<Rightarrow> (q', Inl err)
            | RNext q' m' \<Rightarrow> release_loop env planId m' q')
      else (q, Inr m))"
  by pat_completeness auto
termination
  by (relation "measure (\<lambda>(env, p, m, q). nat (int (length (pm_steps m)) - pm_nextStepIndex m))")
     (auto simp: canReleaseNextStep_def dest!: release_one_next)

declare release_loop.simps [simp del]

definition releaseNextPlanSteps :: "QueueEnv \<Rightarrow> string \<Rightarrow> QueueState \<Rightarrow> QueueState \<times> QueueError option" where
  "releaseNextPlanSteps env planId q =
     (case read_plan env planId q of
        (q1, None) \<Rightarrow> (q1, None)
      | (q1, Some m) \<Rightarrow>
          (case release_loop env planId m q1 of
             (q2, Inl err) \<Rightarrow> (q2, Some err)
           | (q2, Inr m') \<Rightarrow>
               if pm_nextStepIndex m' \<ge> int (length (pm_steps m')) \<and>
                  pm_lastCompletedIndex m' \<ge> int (length (pm_steps m')) - 1
               then (cleanupPlanSession planId (on_store (forgetPlanMetadata (en_now env) planId) q2), None)
               else (on_store (rememberPlanMetadata (en_now env) planId m') q2, None)))"

definition track_session :: "string \<Rightarrow> string option \<Rightarrow> QueueState \<Rightarrow> QueueState" where
  "track_session planId sessionId q =
     (case sessionId of
        None \<Rightarrow> q\<lparr>qs_planSessions := jdelete planId (qs_planSessions q)\<rparr>
      | Some s \<Rightarrow> log (LRestoreLocks s) (q\<lparr>qs_planSessions := jset planId s (qs_planSessions q),
          qs_sessionRefCounts := jset s (jget_or 0 (qs_sessionRefCounts q) s + 1) (qs_sessionRefCounts q)\<rparr>))"

definition untrack_session :: "string \<Rightarrow> string option \<Rightarrow> QueueState \<Rightarrow> QueueState" where
  "untrack_session planId sessionId q =
     (case sessionId of
        None \<Rightarrow> q
      | Some s \<Rightarrow>
          let remaining = jget_or 1 (qs_sessionRefCounts q) s - 1;
              q1 = (if remaining \<le> 0
                then log (LReleaseLocks s) (q\<lparr>qs_sessionRefCounts := jdelete s (qs_sessionRefCounts q)\<rparr>)
                else q\<lparr>qs_sessionRefCounts := jset s remaining (qs_sessionRefCounts q)\<rparr>)
          in q1\<lparr>qs_planSessions := jdelete planId (qs_planSessions q1)\<rparr>)"

definition session_of :: "PlanSubject option \<Rightarrow> string option" where
  "session_of subject = (case subject of None \<Rightarrow> None
     | Some s \<Rightarrow> (case su_sessionId s of Some (c # cs) \<Rightarrow> Some (c # cs) | _ \<Rightarrow> None))"

definition submitPlanSteps ::
  "QueueEnv \<Rightarrow> string \<Rightarrow> PlanStep list \<Rightarrow> string \<Rightarrow> string option \<Rightarrow> PlanSubject option \<Rightarrow> QueueState \<Rightarrow>
     QueueState \<times> QueueError option" where
  "submitPlanSteps env planId steps traceId requestId subject q =
     (let q1 = track_session planId (session_of subject) q;
          q2 = clearRetainedPlanSubject planId
            (case subject of Some s \<Rightarrow> setPlanSubject planId s q1 | None \<Rightarrow> deletePlanSubject planId q1);
          active = or_else subject (getPlanSubject q2 planId);
          rid = or_else requestId (Some (en_uuid env));
          entries = map (\<lambda>st. \<lparr>md_step = st, md_createdAt = en_now env, md_attempt = 0, md_requestId = rid,
            md_subject = active\<rparr>) steps;
          q3 = on_store (rememberPlanMetadata (en_now env) planId \<lparr>pm_planId = planId, pm_traceId = traceId,
            pm_requestId = rid, pm_steps = entries, pm_nextStepIndex = 0, pm_lastCompletedIndex = -1\<rparr>) q2
      in case releaseNextPlanSteps env planId q3 of
           (q4, None) \<Rightarrow> (q4, None)
         | (q4, Some err) \<Rightarrow> (untrack_session planId (session_of subject) q4, Some err))"

definition deny_reasons :: "DenyReason list \<Rightarrow> string" where
  "deny_reasons ds = join_strings ''; '' (map dr_reason ds)"

definition job_of_entry :: "PersistedStep \<Rightarrow> PlanJob" where
  "job_of_entry e = \<lparr>jb_planId = pe_planId e, jb_step = pe_step e, jb_attempt = pe_attempt e,
     jb_createdAt = pe_createdAt e, jb_traceId = pe_traceId e, jb_requestId = pe_requestId e, jb_subject = None\<rparr>"

definition registry_of_entry :: "PersistedStep \<Rightarrow> RegistryEntry" where
  "registry_of_entry e = \<lparr>re_step = pe_step e, re_traceId = pe_traceId e, re_requestId = pe_requestId e,
     re_job = job_of_entry e, re_inFlight = False\<rparr>"

text \<open>The registry entry of a step, rebuilt from the store if the process has none.\<close>

definition find_step :: "QueueEnv \<Rightarrow> string \<Rightarrow> string \<Rightarrow> QueueState \<Rightarrow> QueueState \<times> RegistryEntry option" where
  "find_step env planId stepId q =
     (case getRegistryEntry q planId stepId of
        Some r \<Rightarrow> (q, Some r)
      | None \<Rightarrow>
          (case read_entry env planId stepId q of
             (q1, None) \<Rightarrow> (q1, None)
           | (q1, Some e) \<Rightarrow> (setRegistryEntry planId stepId (registry_of_entry e) q1, Some (registry_of_entry e))))"

definition reject_step ::
  "QueueEnv \<Rightarrow> string \<Rightarrow> string \<Rightarrow> RegistryEntry \<Rightarrow> string option \<Rightarrow> string \<Rightarrow> QueueState \<Rightarrow> QueueState" where
  "reject_step env planId stepId r requestId summary q =
     drop_step env planId stepId
       (emitPlanEvent env planId (re_step r) (re_traceId r) requestId
          (update_of StRejected summary (jb_attempt (re_job r))) None q)"

definition approve_step ::
  "QueueEnv \<Rightarrow> string \<Rightarrow> string \<Rightarrow> RegistryEntry \<Rightarrow> string option \<Rightarrow> string \<Rightarrow> QueueState \<Rightarrow> QueueState \<times> QueueError option" where
  "approve_step env planId stepId r requestId summary q =
     (let step = re_step r;
          (q1, a) = ensureApprovals env planId stepId q;
          a' = jset (ps_capability step) True a;
          subject = or_else (jb_subject (re_job r)) (getPlanSubject q1 planId)
      in case policy_check step (en_policy env step planId (re_traceId r) a' (toPolicySubject subject)) of
           Some (PolicyViolationError msg details) \<Rightarrow>
             (reject_step env planId stepId r requestId (deny_reasons details) q1, Some (PolicyViolationError msg details))
         | Some err \<Rightarrow> (q1, Some err)
         | None \<Rightarrow>
             let q2 = log (LApproved planId stepId (ps_capability step)) (cacheApprovals planId stepId a' q1);
                 q3 = on_store (recordApproval (en_now env) planId stepId (ps_capability step) True) q2;
                 q4 = emitPlanEvent env planId step (re_traceId r) requestId
                   (update_of StApproved summary (jb_attempt (re_job r))) None q3;
                 q5 = setRegistryEntry planId stepId \<lparr>re_step = step, re_traceId = re_traceId r, re_requestId = requestId,
                   re_job = (re_job r)\<lparr>jb_createdAt := en_now env\<rparr>, re_inFlight = False\<rparr> q4
             in releaseNextPlanSteps env planId q5)"

definition resolvePlanStepApproval ::
  "QueueEnv \<Rightarrow> string \<Rightarrow> string \<Rightarrow> bool \<Rightarrow> string option \<Rightarrow> QueueState \<Rightarrow> QueueState \<times> QueueError option" where
  "resolvePlanStepApproval env planId stepId approved summary q =
     (case find_step env planId stepId q of
        (q1, None) \<Rightarrow> (q1, Some (StepNotAvailable planId stepId))
      | (q1, Some r) \<Rightarrow>
          let requestId = or_else (re_requestId r) (jb_requestId (re_job r));
              text = (case summary of Some s \<Rightarrow> s
                | None \<Rightarrow> if approved then ''Approved for execution'' else ''Step rejected'')
          in if approved then approve_step env planId stepId r requestId text q1
             else (cleanupPlanSession planId (reject_step env planId stepId r requestId text q1), None))"

definition rehydrate_session :: "PersistedStep \<Rightarrow> string list \<Rightarrow> QueueState \<Rightarrow> QueueState \<times> string list" where
  "rehydrate_session e restored q =
     (case session_of (pe_subject e) of
        None \<Rightarrow> (q, restored)
      | Some s \<Rightarrow>
          let q1 = q\<lparr>qs_planSessions := jset (pe_planId e) s (qs_planSessions q),
                qs_sessionRefCounts := jset s (jget_or 0 (qs_sessionRefCounts q) s + 1) (qs_sessionRefCounts q)\<rparr>
          in if s \<in> set restored then (q1, restored) else (log (LRestoreLocks s) q1, s # restored))"

definition rehydrate_step :: "QueueEnv \<Rightarrow> PersistedStep \<Rightarrow> QueueState \<Rightarrow> QueueState \<times> QueueError option" where
  "rehydrate_step env e q =
     (let q1 = setRegistryEntry (pe_planId e) (ps_id (pe_step e)) (registry_of_entry e) q;
          emit = (\<lambda>st text. emitPlanEvent env (pe_planId e) (pe_step e) (pe_traceId e) (pe_requestId e)
            (update_of st text (pe_attempt e)) None)
      in if pe_state e = StWaitingApproval
         then (emit StWaitingApproval ''Awaiting approval (rehydrated)'' q1, None)
         else if pe_state e = StRunning \<or> pe_state e = StQueued
         then if en_enqueue env (job_of_entry e)
              then let q2 = log (LRequeued (job_of_entry e)) q1
                   in (if pe_state e = StRunning
                       then emit StQueued (''Retry enqueued (attempt '' @ show_int (pe_attempt e) @ '')'') q2
                       else q2, None)
              else (q1, Some EnqueueError)
         else (q1, None))"

fun rehydrate_loop ::
  "QueueEnv \<Rightarrow> PersistedStep list \<Rightarrow> string list \<Rightarrow> QueueState \<Rightarrow> QueueState \<times> QueueError option" where
  "rehydrate_loop env [] restored q = (q, None)"
| "rehydrate_loop env (e # es) restored q =
     (case getRegistryEntry q (pe_planId e) (ps_id (pe_step e)) of
        Some r \<Rightarrow> rehydrate_loop env es restored q
      | None \<Rightarrow>
          let (q1, restored') = rehydrate_session e restored q
          in case rehydrate_step env e q1 of
               (q2, Some err) \<Rightarrow> (q2, Some err)
             | (q2, None) \<Rightarrow> rehydrate_loop env es restored' q2)"

definition rehydratePendingSteps :: "QueueEnv \<Rightarrow> QueueState \<Rightarrow> QueueState \<times> QueueError option" where
  "rehydratePendingSteps env q =
     (let (fs, pending) = listActiveSteps (en_now env) (qs_store q)
      in rehydrate_loop env pending [] (q\<lparr>qs_store := fs\<rparr>))"

text \<open>\<^verbatim>\<open>stop\<close> releases the locks of the tracked sessions and closes the store; the registries
  are gone with the state service.\<close>

definition tracked_sessions :: "QueueState \<Rightarrow> string list" where
  "tracked_sessions q = rev (remdups (rev (jkeys (qs_sessionRefCounts q) @ jvalues (qs_planSessions q))))"

definition releaseTrackedSessionLocks :: "QueueState \<Rightarrow> QueueState" where
  "releaseTrackedSessionLocks q = fold (\<lambda>s. log (LReleaseLocks s)) (tracked_sessions q) q"

definition stop_manager :: "QueueState \<Rightarrow> QueueState" where
  "stop_manager q = (releaseTrackedSessionLocks q)\<lparr>qs_store := close_store (qs_store q), qs_registry := [],
     qs_approvalCache := [], qs_planSubjects := [], qs_retained := [], qs_planSessions := [], qs_sessionRefCounts := []\<rparr>"

text \<open>A new process: the store is reloaded from disk, everything in memory starts empty.\<close>

definition restart_manager :: "QueueEnv \<Rightarrow> int option \<Rightarrow> QueueState \<Rightarrow> QueueState" where
  "restart_manager env retention q = \<lparr>qs_store = load (en_now env) (new_FilePlanStateStore retention (fs_disk (qs_store q))),
     qs_registry = [], qs_approvalCache = [], qs_planSubjects = [], qs_retained = [], qs_events = empty_events,
     qs_planSessions = [], qs_sessionRefCounts = [], qs_log = qs_log q\<rparr>"

definition new_manager :: "int option \<Rightarrow> QueueState" where
  "new_manager retention = \<lparr>qs_store = new_FilePlanStateStore retention None,
     qs_registry = [], qs_approvalCache = [], qs_planSubjects = [], qs_retained = [], qs_events = empty_events,
     qs_planSessions = [], qs_sessionRefCounts = [], qs_log = []\<rparr>"

end
