(* ===== verification/Queue_Consumers.thy ===== *)
theory Queue_Consumers
  imports Plan_Queue
begin

text \<open>
  The consumers of the plan queues, \<^verbatim>\<open>queue/StepConsumer.ts\<close> and
  \<^verbatim>\<open>queue/CompletionConsumer.ts\<close> under \<^verbatim>\<open>services/orchestrator/src\<close>.  Handling a step
  message is split at the tool call: \<open>handle_step\<close> runs up to it and returns the pending call,
  \<open>tool_finished\<close> continues with the tool's answer, which is an argument.  What the broker is
  told about a message is written to the log.
\<close>

section \<open>Messages\<close>

record StepMessage =
  sm_id :: string
  sm_headers :: "(string, string) jsmap"
  sm_attempts :: int
  sm_payload :: PlanJob

record CompletionMessage =
  cm_id :: string
  cm_headers :: "(string, string) jsmap"
  cp_planId :: string
  cp_stepId :: string
  cp_state :: PlanStepState
  cp_summary :: "string option"
  cp_output :: "json option"
  cp_attempt :: "int option"
  cp_requestId :: "string option"
  cp_traceId :: "string option"
  cp_occurredAt :: "time option"
  cp_approvals :: "approvals option"

record ToolEvent =
  te_state :: PlanStepState
  te_summary :: "string option"
  te_output :: "json option"
  te_occurredAt :: "time option"

datatype ToolOutcome = ToolReturns "ToolEvent list" | ToolFails bool string

record StepConsumerConfig =
  sc_maxRetries :: int
  sc_retryBackoffBaseMs :: "int option"

text \<open>What a pending tool call remembers until its answer arrives.\<close>

record ToolCall =
  tc_message :: string
  tc_job :: PlanJob
  tc_traceId :: string
  tc_approvals :: approvals

text \<open>The first non-empty string of an \<^verbatim>\<open>a || b || ...\<close> chain, or the empty string.\<close>

fun first_nonempty :: "string option list \<Rightarrow> string" where
  "first_nonempty [] = ''''"
| "first_nonempty (None # xs) = first_nonempty xs"
| "first_nonempty (Some s # xs) = (if s = '''' then first_nonempty xs else s)"

section \<open>StepConsumer\<close>

definition received_job :: "StepMessage \<Rightarrow> PlanJob" where
  "received_job msg = (sm_payload msg)\<lparr>jb_attempt := max (jb_attempt (sm_payload msg)) (sm_attempts msg)\<rparr>"

definition trace_of :: "StepMessage \<Rightarrow> string" where
  "trace_of msg = first_nonempty [Some (jb_traceId (sm_payload msg)), map_of (sm_headers msg) ''trace-id'', Some (sm_id msg)]"

text \<open>The registry part of \<^verbatim>\<open>processJob\<close>: \<open>None\<close> when the job is already in flight.\<close>

definition claim_job :: "string \<Rightarrow> PlanJob \<Rightarrow> QueueState \<Rightarrow> QueueState option" where
  "claim_job traceId job q =
     (let planId = jb_planId job; step = jb_step job
      in case getRegistryEntry q planId (ps_id step) of
           Some r \<Rightarrow>
             if \<not> re_inFlight r \<or> jb_attempt (re_job r) < jb_attempt job
             then Some (setRegistryEntry planId (ps_id step) (r\<lparr>re_traceId := traceId, re_job := job,
               re_requestId := (case jb_requestId job of None \<Rightarrow> re_requestId r | Some i \<Rightarrow> Some i), re_inFlight := True\<rparr>) q)
             else None
         | None \<Rightarrow> Some (setRegistryEntry planId (ps_id step) \<lparr>re_step = step, re_traceId = traceId,
             re_requestId = jb_requestId job, re_job = job, re_inFlight = True\<rparr> q))"

definition findIndex_step :: "string \<Rightarrow> PersistedPlanMetadata \<Rightarrow> nat option" where
  "findIndex_step stepId m =
     (let i = length (takeWhile (\<lambda>s. ps_id (md_step s) \<noteq> stepId) (pm_steps m))
      in if i < length (pm_steps m) then Some i else None)"

definition already_completed :: "string \<Rightarrow> PersistedPlanMetadata option \<Rightarrow> bool" where
  "already_completed stepId mo =
     (case mo of None \<Rightarrow> False
      | Some m \<Rightarrow> (case findIndex_step stepId m of None \<Rightarrow> False | Some i \<Rightarrow> pm_lastCompletedIndex m \<ge> int i))"

definition already_running :: "PlanJob \<Rightarrow> QueueState \<Rightarrow> PersistedStep option \<Rightarrow> bool" where
  "already_running job q eo =
     (case (eo, getRegistryEntry q (jb_planId job) (ps_id (jb_step job))) of
        (Some e, Some r) \<Rightarrow> re_inFlight r \<and> pe_state e = StRunning \<and> pe_attempt e \<ge> jb_attempt job
      | _ \<Rightarrow> False)"

definition handleRejection :: "QueueEnv \<Rightarrow> ToolCall \<Rightarrow> string \<Rightarrow> QueueState \<Rightarrow> QueueState" where
  "handleRejection env c summary q =
     (let job = tc_job c; planId = jb_planId job; step = jb_step job
      in log (LMessage (tc_message c) Acked)
           (drop_step env planId (ps_id step)
             (emitPlanEvent env planId step (tc_traceId c) (jb_requestId job)
               (update_of StRejected summary (jb_attempt job)) (Some (tc_approvals c)) q)))"

text \<open>The state written before the policy is asked: the step is running, remembered if the
  store did not have it.\<close>

definition mark_running :: "QueueEnv \<Rightarrow> string \<Rightarrow> PlanJob \<Rightarrow> bool \<Rightarrow> QueueState \<Rightarrow> QueueState" where
  "mark_running env traceId job persisted q =
     (let planId = jb_planId job; step = jb_step job;
          q1 = (if persisted
            then on_store (setState (en_now env) planId (ps_id step) StRunning None None (Some (jb_attempt job))) q else q);
          subject = or_else (jb_subject job) (getPlanSubject q1 planId);
          q2 = (case jb_subject job of
            None \<Rightarrow> q1 | Some s \<Rightarrow> clearRetainedPlanSubject planId (setPlanSubject planId s q1))
      in if persisted then q2
         else remember_job env StRunning (job\<lparr>jb_traceId := traceId, jb_subject := subject\<rparr>) None q2)"

text \<open>\<^verbatim>\<open>executeStep\<close> up to the tool call.\<close>

definition executeStep :: "QueueEnv \<Rightarrow> string \<Rightarrow> string \<Rightarrow> PlanJob \<Rightarrow> QueueState \<Rightarrow> QueueState \<times> ToolCall option" where
  "executeStep env msg traceId job q =
     (let planId = jb_planId job; step = jb_step job;
          (q1, mo) = read_plan env planId q;
          (q2, eo) = read_entry env planId (ps_id step) q1
      in if already_completed (ps_id step) mo then (log (LMessage msg Acked) q1, None)
         else if already_running job q2 eo then (log (LMessage msg Acked) q2, None)
         else let subject = or_else (jb_subject job) (getPlanSubject q2 planId);
                  (q3, a) = ensureApprovals env planId (ps_id step) (mark_running env traceId job (eo \<noteq> None) q2);
                  c = \<lparr>tc_message = msg, tc_job = job, tc_traceId = traceId, tc_approvals = a\<rparr>;
                  q4 = emitPlanEvent env planId step traceId (jb_requestId job)
                    (update_of StRunning ''Dispatching tool agent'' (jb_attempt job)) (Some a) q3
              in case en_policy env step planId traceId a (toPolicySubject subject) of
                   Violation text details \<Rightarrow> (handleRejection env c text q4, None)
                 | PolicyFault text \<Rightarrow> (log (LMessage msg (Retried None)) q4, None)
                 | Decision allow deny \<Rightarrow>
                     if \<not> allow
                     then (handleRejection env c
                       (if deny \<noteq> [] then deny_reasons deny else ''Capability policy denied execution'') q4, None)
                     else (log (LTool planId step a) q4, Some c))"

definition handle_step :: "QueueEnv \<Rightarrow> bool \<Rightarrow> StepMessage \<Rightarrow> QueueState \<Rightarrow> QueueState \<times> ToolCall option" where
  "handle_step env stopped msg q =
     (if stopped then (q, None)
      else case claim_job (trace_of msg) (received_job msg) q of
             None \<Rightarrow> (log (LMessage (sm_id msg) Acked) q, None)
           | Some q1 \<Rightarrow> executeStep env (sm_id msg) (trace_of msg) (received_job msg) q1)"

definition computeRetryDelayMs :: "StepConsumerConfig \<Rightarrow> int \<Rightarrow> int option" where
  "computeRetryDelayMs cfg attempt =
     (case sc_retryBackoffBaseMs cfg of
        None \<Rightarrow> None
      | Some b \<Rightarrow> if b = 0 then None else Some (min (b * 2 ^ nat (max 0 attempt)) (2 ^ 53 - 1)))"

text \<open>The advance of the plan when a step completes, the same in both consumers.\<close>

definition advance_metadata :: "nat \<Rightarrow> PersistedPlanMetadata \<Rightarrow> PersistedPlanMetadata" where
  "advance_metadata i m = m\<lparr>pm_lastCompletedIndex := max (pm_lastCompletedIndex m) (int i),
     pm_nextStepIndex := (if pm_nextStepIndex m \<le> int i then int i + 1 else pm_nextStepIndex m)\<rparr>"

definition record_completion :: "QueueEnv \<Rightarrow> string \<Rightarrow> string \<Rightarrow> QueueState \<Rightarrow> QueueState" where
  "record_completion env planId stepId q =
     (case read_plan env planId q of
        (q1, None) \<Rightarrow> q1
      | (q1, Some m) \<Rightarrow>
          (case findIndex_step stepId m of
             None \<Rightarrow> q1
           | Some i \<Rightarrow> on_store (rememberPlanMetadata (en_now env) planId (advance_metadata i m)) q1))"

definition step_completed :: "QueueEnv \<Rightarrow> string \<Rightarrow> string \<Rightarrow> QueueState \<Rightarrow> QueueState" where
  "step_completed env planId stepId q = fst (releaseNextPlanSteps env planId (record_completion env planId stepId q))"

definition emit_tool_event :: "QueueEnv \<Rightarrow> ToolCall \<Rightarrow> ToolEvent \<Rightarrow> QueueState \<Rightarrow> QueueState" where
  "emit_tool_event env c e =
     emitPlanEvent env (jb_planId (tc_job c)) (jb_step (tc_job c)) (tc_traceId c) (jb_requestId (tc_job c))
       \<lparr>up_state = te_state e, up_summary = te_summary e, up_output = te_output e, up_occurredAt = te_occurredAt e,
        up_attempt = Some (jb_attempt (tc_job c))\<rparr> (Some (tc_approvals c))"

definition terminal_state :: "ToolEvent list \<Rightarrow> PlanStepState" where
  "terminal_state es =
     (case List.find (\<lambda>e. te_state e \<in> set TERMINAL_STATES) (rev es) of None \<Rightarrow> StCompleted | Some e \<Rightarrow> te_state e)"

definition tool_returned :: "QueueEnv \<Rightarrow> ToolCall \<Rightarrow> ToolEvent list \<Rightarrow> QueueState \<Rightarrow> QueueState" where
  "tool_returned env c es q =
     (let job = tc_job c; planId = jb_planId job; step = jb_step job;
          q1 = (if es \<noteq> [] then fold (emit_tool_event env c) es q
            else emitPlanEvent env planId step (tc_traceId c) (jb_requestId job)
              (update_of StCompleted ''Tool completed'' (jb_attempt job)) (Some (tc_approvals c)) q);
          q2 = log (LMessage (tc_message c) Acked) (drop_step env planId (ps_id step) q1)
      in if terminal_state es = StCompleted then step_completed env planId (ps_id step) q2 else q2)"

definition retry_step :: "QueueEnv \<Rightarrow> StepConsumerConfig \<Rightarrow> ToolCall \<Rightarrow> string \<Rightarrow> QueueState \<Rightarrow> QueueState" where
  "retry_step env cfg c text q =
     (let job = tc_job c; planId = jb_planId job; step = jb_step job; n = jb_attempt job + 1;
          of_max = (\<lambda>k. show_int k @ ''/'' @ show_int (sc_maxRetries cfg) @ '')'');
          emit = (\<lambda>u. emitPlanEvent env planId step (tc_traceId c) (jb_requestId job) u (Some (tc_approvals c)));
          q1 = log (LMessage (tc_message c) (Retried (computeRetryDelayMs cfg (jb_attempt job))))
            (emit (update_of StRetrying (''Retry scheduled (attempt '' @ of_max n @ '': '' @ text) (jb_attempt job)) q);
          job' = job\<lparr>jb_attempt := n\<rparr>;
          q2 = setRegistryEntry planId (ps_id step)
            (case getRegistryEntry q1 planId (ps_id step) of
               Some r \<Rightarrow> r\<lparr>re_inFlight := False, re_job := job', re_traceId := tc_traceId c\<rparr>
             | None \<Rightarrow> \<lparr>re_step = step, re_traceId = tc_traceId c, re_requestId = jb_requestId job, re_job = job',
                 re_inFlight = False\<rparr>) q1;
          q3 = on_store (setState (en_now env) planId (ps_id step) StQueued None None (Some n)) q2
      in emit (update_of StQueued (''Retry enqueued (attempt '' @ of_max n) n) q3)"

definition handleToolError ::
  "QueueEnv \<Rightarrow> StepConsumerConfig \<Rightarrow> ToolCall \<Rightarrow> bool \<Rightarrow> string \<Rightarrow> QueueState \<Rightarrow> QueueState" where
  "handleToolError env cfg c retryable text q =
     (let job = tc_job c; planId = jb_planId job; step = jb_step job;
          emit = (\<lambda>u. emitPlanEvent env planId step (tc_traceId c) (jb_requestId job) u (Some (tc_approvals c)))
      in if retryable \<and> jb_attempt job < sc_maxRetries cfg then retry_step env cfg c text q
         else if retryable
         then let reason = ''Retries exhausted after '' @ show_int (jb_attempt job) @ '' attempts: '' @ text
              in drop_step env planId (ps_id step)
                   (log (LMessage (tc_message c) (DeadLettered reason))
                     (emit (update_of StDeadLettered reason (jb_attempt job)) q))
         else log (LMessage (tc_message c) Acked)
                (drop_step env planId (ps_id step) (emit (update_of StFailed text (jb_attempt job)) q)))"

definition tool_finished :: "QueueEnv \<Rightarrow> StepConsumerConfig \<Rightarrow> ToolCall \<Rightarrow> ToolOutcome \<Rightarrow> QueueState \<Rightarrow> QueueState" where
  "tool_finished env cfg c out q =
     (case out of ToolReturns es \<Rightarrow> tool_returned env c es q
      | ToolFails retryable text \<Rightarrow> handleToolError env cfg c retryable text q)"

section \<open>CompletionConsumer\<close>

text \<open>What the orchestrator knows of the step a completion names.\<close>

record StepKnowledge =
  kn_metadata :: "RegistryEntry option"
  kn_persisted :: "PersistedStep option"

definition known_step :: "QueueEnv \<Rightarrow> CompletionMessage \<Rightarrow> QueueState \<Rightarrow> QueueState \<times> StepKnowledge" where
  "known_step env msg q =
     (case getRegistryEntry q (cp_planId msg) (cp_stepId msg) of
        Some r \<Rightarrow> (q, \<lparr>kn_metadata = Some r, kn_persisted = None\<rparr>)
      | None \<Rightarrow> (let (q1, e) = read_entry env (cp_planId msg) (cp_stepId msg) q
                in (q1, \<lparr>kn_metadata = None, kn_persisted = e\<rparr>)))"

definition expectedTraceId :: "StepKnowledge \<Rightarrow> string" where
  "expectedTraceId k = (case kn_metadata k of Some r \<Rightarrow> re_traceId r
     | None \<Rightarrow> (case kn_persisted k of Some e \<Rightarrow> pe_traceId e | None \<Rightarrow> ''''))"

definition expectedIdempotencyKey :: "CompletionMessage \<Rightarrow> StepKnowledge \<Rightarrow> string" where
  "expectedIdempotencyKey msg k = (case kn_metadata k of Some r \<Rightarrow> toKey (cp_planId msg) (cp_stepId msg)
     | None \<Rightarrow> (case kn_persisted k of Some e \<Rightarrow> pe_idempotencyKey e | None \<Rightarrow> ''''))"

definition header :: "CompletionMessage \<Rightarrow> string \<Rightarrow> string option" where
  "header msg h = map_of (cm_headers msg) h"

definition receivedTraceId :: "CompletionMessage \<Rightarrow> string" where
  "receivedTraceId msg = first_nonempty [cp_traceId msg, header msg ''trace-id'', header msg ''traceId'', header msg ''Trace-Id'']"

definition receivedIdempotencyKey :: "CompletionMessage \<Rightarrow> string" where
  "receivedIdempotencyKey msg = first_nonempty [header msg ''x-idempotency-key'', header msg ''idempotency-key'',
     header msg ''Idempotency-Key'']"

definition expectedRequestId :: "CompletionMessage \<Rightarrow> StepKnowledge \<Rightarrow> string option" where
  "expectedRequestId msg k =
     (let h = first_nonempty [cp_requestId msg, header msg ''request-id'', header msg ''requestId'', header msg ''Request-Id''];
          headerRequest = (if h = '''' then None else Some h)
      in or_else (or_else (case kn_metadata k of None \<Rightarrow> None | Some r \<Rightarrow> or_else (re_requestId r) (jb_requestId (re_job r)))
           (case kn_persisted k of None \<Rightarrow> None | Some e \<Rightarrow> pe_requestId e)) headerRequest)"

text \<open>\<^verbatim>\<open>enforceMetadata && !metadataMatches\<close>.\<close>

definition metadata_mismatch :: "CompletionMessage \<Rightarrow> StepKnowledge \<Rightarrow> bool" where
  "metadata_mismatch msg k =
     (let et = expectedTraceId k; ek = expectedIdempotencyKey msg k; rt = receivedTraceId msg; rk = receivedIdempotencyKey msg
      in if et \<noteq> '''' \<and> ek \<noteq> '''' then \<not> (rt \<noteq> '''' \<and> rk \<noteq> '''' \<and> et = rt \<and> ek = rk)
         else (et \<noteq> '''' \<or> ek \<noteq> '''') \<and>
           \<not> ((et \<noteq> '''' \<longrightarrow> rt \<noteq> '''' \<and> et = rt) \<and> (ek \<noteq> '''' \<longrightarrow> rk \<noteq> '''' \<and> ek = rk)))"

definition duplicate_event :: "QueueEnv \<Rightarrow> EventUpdate \<Rightarrow> PlanStepEvent option \<Rightarrow> bool" where
  "duplicate_event env u latest =
     (case latest of
        None \<Rightarrow> False
      | Some e \<Rightarrow> ev_state (ev_step e) = up_state u \<and> ev_summary (ev_step e) = up_summary u \<and>
          (if en_capture env then ev_output (ev_step e) = up_output u else ev_output (ev_step e) = None) \<and>
          \<not> (up_occurredAt u \<noteq> None \<and> up_occurredAt u \<noteq> Some (ev_occurredAt e)))"

definition emitCompletionEvent ::
  "QueueEnv \<Rightarrow> string \<Rightarrow> string \<Rightarrow> string \<Rightarrow> string option \<Rightarrow> EventUpdate \<Rightarrow> PlanStep option \<Rightarrow> approvals option \<Rightarrow>
     QueueState \<Rightarrow> QueueState" where
  "emitCompletionEvent env planId stepId traceId requestId u baseStep a q =
     (let q1 = set_state_of env planId stepId u q
      in if duplicate_event env u (getLatestPlanStepEvent (qs_events q1) planId stepId) then q1
         else case baseStep of
                None \<Rightarrow> q1
              | Some step \<Rightarrow> publish env (event_of env planId step traceId requestId u a) q1)"

text \<open>The accepted completion: event, advance of the plan, end of the step.\<close>

definition accept_completion :: "QueueEnv \<Rightarrow> CompletionMessage \<Rightarrow> StepKnowledge \<Rightarrow> QueueState \<Rightarrow> QueueState" where
  "accept_completion env msg k q =
     (let planId = cp_planId msg; stepId = cp_stepId msg;
          persistedApprovals = (case (kn_metadata k, kn_persisted k) of (None, Some e) \<Rightarrow> pe_approvals e | _ \<Rightarrow> None);
          q1 = (case persistedApprovals of None \<Rightarrow> q | Some a \<Rightarrow> cacheApprovals planId stepId a q);
          attempt = (case cp_attempt msg of Some n \<Rightarrow> n
            | None \<Rightarrow> (case kn_metadata k of Some r \<Rightarrow> jb_attempt (re_job r)
                | None \<Rightarrow> (case kn_persisted k of Some e \<Rightarrow> pe_attempt e | None \<Rightarrow> 0)));
          traceId = first_nonempty [Some (expectedTraceId k), Some (receivedTraceId msg), Some (cm_id msg)];
          q2 = emitCompletionEvent env planId stepId traceId (expectedRequestId msg k)
            \<lparr>up_state = cp_state msg, up_summary = cp_summary msg, up_output = cp_output msg,
             up_occurredAt = cp_occurredAt msg, up_attempt = Some attempt\<rparr>
            (or_else (map_option re_step (kn_metadata k)) (map_option pe_step (kn_persisted k)))
            (or_else (cp_approvals msg) persistedApprovals) q1;
          q3 = (if cp_state msg = StCompleted then step_completed env planId stepId q2 else q2);
          q4 = (if cp_state msg \<in> set TERMINAL_STATES then drop_step env planId stepId q3 else q3)
      in log (LMessage (cm_id msg) Acked) q4)"

definition processMessage :: "QueueEnv \<Rightarrow> bool \<Rightarrow> CompletionMessage \<Rightarrow> QueueState \<Rightarrow> QueueState" where
  "processMessage env stopped msg q =
     (if stopped then q
      else let (q1, k) = known_step env msg q
           in if kn_metadata k = None \<and> kn_persisted k = None
              then log (LMessage (cm_id msg) (DeadLettered ''unknown_step'')) q1
              else if metadata_mismatch msg k
              then log (LMessage (cm_id msg) (DeadLettered ''metadata_mismatch'')) q1
              else accept_completion env msg k q1)"

end
