(* ===== verification/Queue_Invariants.thy ===== *)
theory Queue_Invariants
  imports Queue_Consumers
begin

text \<open>
  The invariant of the plan queue and its preservation by every operation of the manager and
  the consumers: approvals kept in the cache, in the store and on disk stem from approvals
  taken by \<open>resolvePlanStepApproval\<close>, the indices of every plan fit together, and each entry
  of the log was justified by the entries before it.
\<close>

section \<open>The invariant\<close>

definition approved_key :: "QueueLog list \<Rightarrow> string \<Rightarrow> string \<Rightarrow> bool" where
  "approved_key l k c \<longleftrightarrow> (\<exists>p i. CHR '':'' \<notin> set p \<and> toKey p i = k \<and> LApproved p i c \<in> set l)"

definition approvals_ok :: "QueueLog list \<Rightarrow> string \<Rightarrow> approvals \<Rightarrow> bool" where
  "approvals_ok l k a \<longleftrightarrow> (\<forall>c. map_of a c = Some True \<longrightarrow> approved_key l k c)"

definition entry_ok :: "QueueLog list \<Rightarrow> PersistedStep \<Rightarrow> bool" where
  "entry_ok l e \<longleftrightarrow> (\<forall>a. pe_approvals e = Some a \<longrightarrow> approvals_ok l (toKey (pe_planId e) (pe_stepId e)) a)"

text \<open>At most one step of a plan is released beyond the last completed one.\<close>

definition meta_ok :: "PersistedPlanMetadata \<Rightarrow> bool" where
  "meta_ok m \<longleftrightarrow> - 1 \<le> pm_lastCompletedIndex m \<and> pm_lastCompletedIndex m < pm_nextStepIndex m \<and>
     pm_nextStepIndex m \<le> pm_lastCompletedIndex m + 2 \<and> pm_nextStepIndex m \<le> int (length (pm_steps m))"

definition store_ok :: "QueueLog list \<Rightarrow> FilePlanStateStore \<Rightarrow> bool" where
  "store_ok l fs \<longleftrightarrow>
     (\<forall>x \<in> set (fs_records fs). fst x = toKey (pe_planId (snd x)) (pe_stepId (snd x)) \<and> entry_ok l (snd x)) \<and>
     (\<forall>x \<in> set (fs_planRecords fs). meta_ok (fst (snd x))) \<and>
     (\<forall>d. fs_disk fs = Some d \<longrightarrow> (\<forall>e \<in> set (dc_steps d). entry_ok l e) \<and> (\<forall>m \<in> set (dc_plans d). meta_ok m))"

fun item_ok :: "policy \<Rightarrow> QueueLog \<Rightarrow> QueueLog list \<Rightarrow> bool" where
  "item_ok pol (LReleased job) l \<longleftrightarrow> (ps_approvalRequired (jb_step job) \<longrightarrow>
     approved_key l (toKey (jb_planId job) (ps_id (jb_step job))) (ps_capability (jb_step job)))"
| "item_ok pol (LTool p st a) l \<longleftrightarrow> approvals_ok l (toKey p (ps_id st)) a \<and>
     (\<exists>tr su d. pol st p tr a su = Decision True d)"
| "item_ok pol x l \<longleftrightarrow> True"

fun log_ok :: "policy \<Rightarrow> QueueLog list \<Rightarrow> bool" where
  "log_ok pol [] \<longleftrightarrow> True"
| "log_ok pol (x # l) \<longleftrightarrow> item_ok pol x l \<and> log_ok pol l"

definition queue_inv :: "policy \<Rightarrow> QueueState \<Rightarrow> bool" where
  "queue_inv pol q \<longleftrightarrow> store_ok (qs_log q) (qs_store q) \<and>
     (\<forall>k a. map_of (qs_approvalCache q) k = Some a \<longrightarrow> approvals_ok (qs_log q) k a) \<and> log_ok pol (qs_log q)"

section \<open>The store\<close>

lemma approved_key_mono: "approved_key l k c \<Longrightarrow> approved_key (x # l) k c"
  by (auto simp: approved_key_def)

lemma approvals_ok_mono: "approvals_ok l k a \<Longrightarrow> approvals_ok (x # l) k a"
  by (simp add: approvals_ok_def approved_key_mono)

lemma approvals_ok_Nil [simp]: "approvals_ok l k []"
  by (simp add: approvals_ok_def)

lemma approvals_ok_jset: "approvals_ok l k a \<Longrightarrow> approved_key l k c \<Longrightarrow> approvals_ok l k (jset c True a)"
  by (simp add: approvals_ok_def jmap_simps)

lemma store_ok_mono: "store_ok l fs \<Longrightarrow> store_ok (x # l) fs"
  unfolding store_ok_def entry_ok_def using approvals_ok_mono by blast

lemma store_ok_purge [simp]: "store_ok l fs \<Longrightarrow> store_ok l (purgeExpired now fs)"
  by (auto simp: store_ok_def purgeExpired_def split: option.split)

lemma store_ok_persist [simp]: "store_ok l fs \<Longrightarrow> store_ok l (persist fs)"
  by (force simp: store_ok_def persist_def document_of_def)

lemma store_ok_persist_if [simp]: "store_ok l fs \<Longrightarrow> store_ok l (persist_if b fs)"
  by (simp add: persist_if_def)

lemma store_ok_jset:
  "store_ok l fs \<Longrightarrow> k = toKey (pe_planId e) (pe_stepId e) \<Longrightarrow> entry_ok l e \<Longrightarrow>
     store_ok l (fs\<lparr>fs_records := jset k e (fs_records fs)\<rparr>)"
  "store_ok l fs \<Longrightarrow> meta_ok m \<Longrightarrow> store_ok l (fs\<lparr>fs_planRecords := jset k (m, u) (fs_planRecords fs)\<rparr>)"
  by (auto simp: store_ok_def dest!: set_jset)

lemma store_ok_jdelete:
  "store_ok l fs \<Longrightarrow> store_ok l (fs\<lparr>fs_records := jdelete k (fs_records fs)\<rparr>)"
  "store_ok l fs \<Longrightarrow> store_ok l (fs\<lparr>fs_planRecords := jdelete k (fs_planRecords fs)\<rparr>)"
  by (auto simp: store_ok_def dest!: set_jdelete)

lemma store_ok_lookup:
  assumes "store_ok l fs"
  shows "map_of (fs_records (purgeExpired now fs)) k = Some e \<Longrightarrow> k = toKey (pe_planId e) (pe_stepId e) \<and> entry_ok l e"
    and "map_of (fs_planRecords (purgeExpired now fs)) p = Some (m, u) \<Longrightarrow> meta_ok m"
  using store_ok_purge [OF assms, of now] unfolding store_ok_def by (force dest: map_of_SomeD)+

lemma store_ok_rememberStep:
  assumes "store_ok l fs" and "\<And>a. ro_approvals o' = Some a \<Longrightarrow> approvals_ok l (toKey p (ps_id st)) a"
  shows "store_ok l (rememberStep now u p st tr o' fs)"
  using assms by (simp add: rememberStep_def Let_def store_ok_jset entry_ok_def)

lemma store_ok_setState:
  assumes "store_ok l fs"
  shows "store_ok l (setState now p i x y z a fs)"
proof (cases "map_of (fs_records (purgeExpired now fs)) (toKey p i)")
  case None
  then show ?thesis using assms by (simp add: setState_def Let_def)
next
  case (Some e)
  from store_ok_lookup(1) [OF assms Some]
  have "toKey (pe_planId e) (pe_stepId e) = toKey p i" and "entry_ok l e" by simp_all
  then show ?thesis using Some assms
    by (simp add: setState_def Let_def store_ok_jdelete entry_ok_def store_ok_jset del: update.simps)
qed

lemma store_ok_recordApproval:
  assumes "store_ok l fs" and "approved_key l (toKey p i) c"
  shows "store_ok l (recordApproval now p i c True fs)"
proof (cases "map_of (fs_records (purgeExpired now fs)) (toKey p i)")
  case None
  then show ?thesis using assms(1) by (simp add: recordApproval_def Let_def)
next
  case (Some e)
  let ?old = "case pe_approvals e of None \<Rightarrow> [] | Some a \<Rightarrow> a"
  from store_ok_lookup(1) [OF assms(1) Some]
  have k: "toKey (pe_planId e) (pe_stepId e) = toKey p i" and "entry_ok l e" by simp_all
  then have "approvals_ok l (toKey p i) ?old" by (simp add: entry_ok_def split: option.split)
  then have "entry_ok l (e\<lparr>pe_approvals := Some (jset c True ?old), pe_updatedAt := now\<rparr>)"
    using k assms(2) by (simp add: entry_ok_def approvals_ok_jset)
  then show ?thesis
    using Some k assms(1) by (simp add: recordApproval_def Let_def store_ok_jset del: update.simps)
qed

lemma store_ok_others:
  assumes "store_ok l fs"
  shows "store_ok l (forgetStep now p i fs)" and "store_ok l (forgetPlanMetadata now p fs)"
    and "store_ok l (fst (getEntry now p i fs))" and "store_ok l (fst (getPlanMetadata now p fs))"
    and "store_ok l (fst (listActiveSteps now fs))" and "store_ok l (close_store fs)"
  using assms by (simp_all add: forgetStep_def forgetPlanMetadata_def getEntry_def getPlanMetadata_def
      listActiveSteps_def close_store_def Let_def store_ok_jdelete) (simp add: store_ok_def)

lemma store_ok_rememberPlanMetadata:
  "store_ok l fs \<Longrightarrow> meta_ok m \<Longrightarrow> store_ok l (rememberPlanMetadata now p m fs)"
  by (simp add: rememberPlanMetadata_def Let_def store_ok_jset)

lemma fold_jset_elems:
  "x \<in> set (fold (\<lambda>v. jset (key v) (f v)) vs m) \<Longrightarrow> x \<in> set m \<or> (\<exists>v \<in> set vs. x = (key v, f v))"
proof (induction vs arbitrary: m)
  case (Cons v vs)
  then have "x \<in> set (jset (key v) (f v) m) \<or> (\<exists>v \<in> set vs. x = (key v, f v))" by simp
  then show ?case by (auto dest: set_jset)
qed simp

lemma store_ok_load:
  assumes "store_ok l fs"
  shows "store_ok l (load now (new_FilePlanStateStore r (fs_disk fs)))"
proof (cases "fs_disk fs")
  case None
  then show ?thesis by (simp add: load_def new_FilePlanStateStore_def store_ok_def)
next
  case (Some d)
  then show ?thesis using assms unfolding store_ok_def load_def new_FilePlanStateStore_def
    by (auto dest!: fold_jset_elems)
qed

section \<open>The operations of the queue\<close>

text \<open>Operations on the registry, the events and the subjects do not touch what the
  invariant speaks about.\<close>

definition same_core :: "QueueState \<Rightarrow> QueueState \<Rightarrow> bool" where
  "same_core q' q \<longleftrightarrow> qs_store q' = qs_store q \<and> qs_approvalCache q' = qs_approvalCache q \<and> qs_log q' = qs_log q"

lemma queue_inv_same: "same_core q' q \<Longrightarrow> queue_inv pol q' = queue_inv pol q"
  by (simp add: same_core_def queue_inv_def)

lemma same_core_ops [simp]:
  "same_core (setRegistryEntry p i r q) q" "same_core (deleteRegistryEntry p i q) q"
  "same_core (setPlanSubject p s q) q" "same_core (deletePlanSubject p q) q"
  "same_core (retainCompletedPlanSubject p s q) q" "same_core (clearRetainedPlanSubject p q) q"
  "same_core (publish env e q) q" "same_core (prunePlanSubject p q) q"
  by (auto simp: same_core_def setRegistryEntry_def deleteRegistryEntry_def setPlanSubject_def deletePlanSubject_def
      retainCompletedPlanSubject_def clearRetainedPlanSubject_def publish_def prunePlanSubject_def split: option.split)

lemmas queue_inv_core [simp] = same_core_ops [THEN queue_inv_same]

lemma queue_inv_log:
  assumes "queue_inv pol q" and "item_ok pol x (qs_log q)"
  shows "queue_inv pol (log x q)"
proof -
  have "store_ok (x # qs_log q) (qs_store q)" using assms by (simp add: queue_inv_def store_ok_mono)
  moreover have "\<forall>k a. map_of (qs_approvalCache q) k = Some a \<longrightarrow> approvals_ok (x # qs_log q) k a"
    using assms by (simp add: queue_inv_def approvals_ok_mono)
  ultimately show ?thesis using assms by (simp add: queue_inv_def log_def)
qed

lemma queue_inv_on_store:
  "queue_inv pol q \<Longrightarrow> store_ok (qs_log q) (f (qs_store q)) \<Longrightarrow> queue_inv pol (on_store f q)"
  by (simp add: queue_inv_def on_store_def)

lemma queue_inv_store: "queue_inv pol q \<Longrightarrow> store_ok (qs_log q) (qs_store q)"
  by (simp add: queue_inv_def)

lemma queue_inv_clearApprovals: "queue_inv pol q \<Longrightarrow> queue_inv pol (clearApprovals p i q)"
  by (simp add: queue_inv_def clearApprovals_def jmap_simps)

lemma queue_inv_cacheApprovals:
  "queue_inv pol q \<Longrightarrow> approvals_ok (qs_log q) (toKey p i) a \<Longrightarrow> queue_inv pol (cacheApprovals p i a q)"
  by (simp add: queue_inv_def cacheApprovals_def jmap_simps)

lemma log_frame [simp]:
  "qs_log (on_store f q) = qs_log q" "qs_log (cacheApprovals p i a q) = qs_log q"
  "qs_log (clearApprovals p i q) = qs_log q" "qs_log (setRegistryEntry p i r q) = qs_log q"
  "qs_log (publish env e q) = qs_log q" "qs_log (set_state_of env p i u q) = qs_log q"
  "qs_log (emitPlanEvent env p st tr rid u ao q) = qs_log q" "qs_log (remember_job env st' job ao q) = qs_log q"
  "qs_log (log x q) = x # qs_log q"
  by (simp_all add: on_store_def cacheApprovals_def clearApprovals_def setRegistryEntry_def publish_def set_state_of_def
      emitPlanEvent_def remember_job_def log_def)

lemma queue_inv_set_state_of: "queue_inv pol q \<Longrightarrow> queue_inv pol (set_state_of env p i u q)"
  unfolding set_state_of_def by (rule queue_inv_on_store) (simp_all add: store_ok_setState queue_inv_store)

lemma queue_inv_emit: "queue_inv pol q \<Longrightarrow> queue_inv pol (emitPlanEvent env p st tr rid u a q)"
  by (simp add: emitPlanEvent_def queue_inv_set_state_of)

lemma queue_inv_forget:
  "queue_inv pol q \<Longrightarrow> queue_inv pol (on_store (forgetStep now p i) q)"
  "queue_inv pol q \<Longrightarrow> queue_inv pol (on_store (forgetPlanMetadata now p) q)"
  by (auto intro!: queue_inv_on_store store_ok_others dest: queue_inv_store)

lemma queue_inv_rememberPlan:
  "queue_inv pol q \<Longrightarrow> meta_ok m \<Longrightarrow> queue_inv pol (on_store (rememberPlanMetadata now p m) q)"
  by (auto intro!: queue_inv_on_store store_ok_rememberPlanMetadata dest: queue_inv_store)

lemma queue_inv_setState: "queue_inv pol q \<Longrightarrow> queue_inv pol (on_store (setState now p i x y z a) q)"
  by (auto intro!: queue_inv_on_store store_ok_setState dest: queue_inv_store)

lemma queue_inv_recordApproval:
  "queue_inv pol q \<Longrightarrow> approved_key (qs_log q) (toKey p i) c \<Longrightarrow>
     queue_inv pol (on_store (recordApproval now p i c True) q)"
  by (auto intro!: queue_inv_on_store store_ok_recordApproval dest: queue_inv_store)

lemma queue_inv_drop_step: "queue_inv pol q \<Longrightarrow> queue_inv pol (drop_step env p i q)"
  by (simp add: drop_step_def queue_inv_forget queue_inv_clearApprovals)

lemma queue_inv_sessions:
  "queue_inv pol q \<Longrightarrow> queue_inv pol (q\<lparr>qs_sessionRefCounts := r\<rparr>)"
  "queue_inv pol q \<Longrightarrow> queue_inv pol (q\<lparr>qs_planSessions := s\<rparr>)"
  by (simp_all add: queue_inv_def)

lemmas session_defs = cleanupPlanSession_def track_session_def untrack_session_def

lemma queue_inv_session_ops:
  assumes "queue_inv pol q"
  shows "queue_inv pol (cleanupPlanSession p q)" and "queue_inv pol (track_session p s q)"
    and "queue_inv pol (untrack_session p s q)"
  using assms by (auto simp: session_defs Let_def intro!: queue_inv_sessions queue_inv_log split: option.split)

lemma read_entry_inv:
  assumes "queue_inv pol q" and "read_entry env p i q = (q1, eo)"
  shows "queue_inv pol q1" and "qs_log q1 = qs_log q"
    and "eo = Some e \<Longrightarrow> toKey (pe_planId e) (pe_stepId e) = toKey p i \<and> entry_ok (qs_log q) e"
    and "qs_approvalCache q1 = qs_approvalCache q"
proof -
  have q1: "q1 = q\<lparr>qs_store := fst (getEntry (en_now env) p i (qs_store q))\<rparr>" "eo = snd (getEntry (en_now env) p i (qs_store q))"
    using assms(2) by (auto simp: read_entry_def split: prod.splits)
  show "queue_inv pol q1" using assms(1) unfolding q1 by (simp add: queue_inv_def store_ok_others)
  show "qs_log q1 = qs_log q" "qs_approvalCache q1 = qs_approvalCache q" by (simp_all add: q1)
  show "eo = Some e \<Longrightarrow> toKey (pe_planId e) (pe_stepId e) = toKey p i \<and> entry_ok (qs_log q) e"
    using store_ok_lookup(1) [OF queue_inv_store [OF assms(1)]] by (fastforce simp: q1(2) getEntry_def Let_def)
qed

lemma read_plan_inv:
  assumes "queue_inv pol q" and "read_plan env p q = (q1, mo)"
  shows "queue_inv pol q1" and "qs_log q1 = qs_log q" and "mo = Some m \<Longrightarrow> meta_ok m"
proof -
  have q1: "q1 = q\<lparr>qs_store := fst (getPlanMetadata (en_now env) p (qs_store q))\<rparr>"
      "mo = snd (getPlanMetadata (en_now env) p (qs_store q))"
    using assms(2) by (auto simp: read_plan_def split: prod.splits)
  show "queue_inv pol q1" using assms(1) unfolding q1 by (simp add: queue_inv_def store_ok_others)
  show "qs_log q1 = qs_log q" by (simp add: q1)
  show "mo = Some m \<Longrightarrow> meta_ok m"
    using store_ok_lookup(2) [OF queue_inv_store [OF assms(1)]] by (auto simp: q1(2) getPlanMetadata_def Let_def)
qed

lemma ensureApprovals_inv:
  assumes "queue_inv pol q" and "ensureApprovals env p i q = (q1, a)"
  shows "queue_inv pol q1 \<and> qs_log q1 = qs_log q \<and> approvals_ok (qs_log q) (toKey p i) a"
proof (cases "map_of (qs_approvalCache q) (toKey p i)")
  case (Some b)
  then show ?thesis using assms by (auto simp: ensureApprovals_def queue_inv_def)
next
  case None
  obtain q2 eo where r: "read_entry env p i q = (q2, eo)" by (cases "read_entry env p i q")
  have a: "q1 = cacheApprovals p i a q2"
    "a = (case eo of None \<Rightarrow> [] | Some e \<Rightarrow> (case pe_approvals e of None \<Rightarrow> [] | Some m \<Rightarrow> m))"
    using None assms(2) r by (auto simp: ensureApprovals_def Let_def)
  have "approvals_ok (qs_log q) (toKey p i) a"
    using read_entry_inv(3) [OF assms(1) r] by (auto simp: a(2) entry_ok_def split: option.split)
  then show ?thesis using read_entry_inv(1,2) [OF assms(1) r] by (simp add: a(1) queue_inv_cacheApprovals)
qed

lemma remember_job_inv:
  assumes "queue_inv pol q"
    and "\<And>a. ao = Some a \<Longrightarrow> approvals_ok (qs_log q) (toKey (jb_planId job) (ps_id (jb_step job))) a"
  shows "queue_inv pol (remember_job env st job ao q)"
  unfolding remember_job_def using assms queue_inv_store [OF assms(1)]
  by (auto intro!: queue_inv_on_store store_ok_rememberStep)

lemmas queue_intros = queue_inv_emit queue_inv_drop_step queue_inv_session_ops queue_inv_cacheApprovals
  queue_inv_clearApprovals queue_inv_log queue_inv_set_state_of remember_job_inv queue_inv_forget queue_inv_setState

section \<open>The manager\<close>

lemma release_step_inv:
  assumes "queue_inv pol q" and "approvals_ok (qs_log q) (toKey (jb_planId job) (ps_id (jb_step job))) a"
  shows "case release_step env m existing job a q of
      RBreak q' m' \<Rightarrow> queue_inv pol q' \<and> m' = m
    | RNext q' m' \<Rightarrow> queue_inv pol q' \<and> m' = m\<lparr>pm_nextStepIndex := pm_nextStepIndex m + 1\<rparr>
    | RThrow q' err \<Rightarrow> queue_inv pol q'"
  using assms by (auto simp: release_step_def Let_def approvals_ok_def intro!: queue_intros)

lemma release_one_inv:
  assumes "queue_inv pol q" and "meta_ok m" and "canReleaseNextStep m"
  shows "case release_one env p m q of
      RBreak q' m' \<Rightarrow> queue_inv pol q' \<and> meta_ok m'
    | RNext q' m' \<Rightarrow> queue_inv pol q' \<and> meta_ok m'
    | RThrow q' err \<Rightarrow> queue_inv pol q'"
proof -
  let ?se = "pm_steps m ! nat (pm_nextStepIndex m)"
  obtain q1 eo where r: "read_entry env p (ps_id (md_step ?se)) q = (q1, eo)"
    by (cases "read_entry env p (ps_id (md_step ?se)) q")
  let ?job = "release_job env p m ?se eo q1"
  obtain q2 a where e: "ensureApprovals env p (ps_id (md_step ?se)) q1 = (q2, a)"
    by (cases "ensureApprovals env p (ps_id (md_step ?se)) q1")
  note inv1 = read_entry_inv(1,2) [OF assms(1) r]
  note inv2 = ensureApprovals_inv [OF inv1(1) e]
  have job: "jb_planId ?job = p" "jb_step ?job = md_step ?se" by (simp_all add: release_job_def)
  have meta: "meta_ok (release_metadata m ?se ?job)"
      "meta_ok ((release_metadata m ?se ?job)\<lparr>pm_nextStepIndex := pm_nextStepIndex (release_metadata m ?se ?job) + 1\<rparr>)"
    using assms(2,3) by (auto simp: meta_ok_def canReleaseNextStep_def release_metadata_def)
  have step: "approvals_ok (qs_log q2) (toKey (jb_planId ?job) (ps_id (jb_step ?job))) a"
    using inv2 by (simp add: job)
  show ?thesis
    using release_step_inv [OF _ step, of pol "release_metadata m ?se ?job" env eo] inv1 inv2 assms(2) meta
    by (auto simp: release_one_def r e Let_def split: release_result.splits option.splits)
qed

lemma release_loop_inv:
  assumes "queue_inv pol q" and "meta_ok m"
  shows "queue_inv pol (fst (release_loop env p m q)) \<and>
    (\<forall>m'. snd (release_loop env p m q) = Inr m' \<longrightarrow> meta_ok m')"
  using assms
proof (induction env p m q rule: release_loop.induct)
  case (1 env p m q)
  show ?case
  proof (cases "canReleaseNextStep m")
    case True
    then show ?thesis
      using release_one_inv [OF "1.prems" True, of env p] "1.IH" [OF True]
      by (subst (1 2) release_loop.simps) (auto split: release_result.splits)
  next
    case False
    then show ?thesis using "1.prems" by (subst (1 2) release_loop.simps) simp
  qed
qed

lemma releaseNextPlanSteps_inv:
  assumes "queue_inv pol q"
  shows "queue_inv pol (fst (releaseNextPlanSteps env p q))"
proof -
  obtain q1 mo where r: "read_plan env p q = (q1, mo)" by (cases "read_plan env p q")
  note inv = read_plan_inv [OF assms r]
  show ?thesis
  proof (cases mo)
    case None
    then show ?thesis using inv r by (simp add: releaseNextPlanSteps_def)
  next
    case (Some m)
    then show ?thesis using release_loop_inv [OF inv(1) inv(3) [OF Some], of env p] r
      by (auto simp: releaseNextPlanSteps_def intro!: queue_intros queue_inv_rememberPlan split: prod.splits sum.splits)
  qed
qed

lemma submitPlanSteps_inv:
  assumes "queue_inv pol q"
  shows "queue_inv pol (fst (submitPlanSteps env p steps tr rid su q))"
proof -
  define q2 where "q2 = clearRetainedPlanSubject p
    (case su of Some s \<Rightarrow> setPlanSubject p s (track_session p (session_of su) q)
     | None \<Rightarrow> deletePlanSubject p (track_session p (session_of su) q))"
  have "queue_inv pol q2" using assms by (auto simp: q2_def queue_inv_session_ops split: option.split)
  then have rel: "queue_inv pol q'"
    if "releaseNextPlanSteps env p (on_store (rememberPlanMetadata (en_now env) p m) q2) = (q', eo)" and "meta_ok m" for m q' eo
    using releaseNextPlanSteps_inv [OF queue_inv_rememberPlan, of pol q2 m env p "en_now env" p] that by simp
  have "meta_ok \<lparr>pm_planId = p, pm_traceId = tr, pm_requestId = x, pm_steps = y, pm_nextStepIndex = 0,
      pm_lastCompletedIndex = - 1\<rparr>" for x y by (simp add: meta_ok_def)
  with rel show ?thesis unfolding submitPlanSteps_def Let_def q2_def [symmetric]
    by (fastforce intro!: queue_inv_session_ops split: prod.splits option.splits)
qed

lemma reject_step_inv: "queue_inv pol q \<Longrightarrow> queue_inv pol (reject_step env p i r rid text q)"
  by (simp add: reject_step_def queue_intros)

lemma approve_step_inv:
  assumes "queue_inv pol q" and "CHR '':'' \<notin> set p"
  shows "queue_inv pol (fst (approve_step env p i r rid text q))"
proof -
  let ?st = "re_step r"
  obtain q1 a where e: "ensureApprovals env p i q = (q1, a)" by (cases "ensureApprovals env p i q")
  note inv = ensureApprovals_inv [OF assms(1) e]
  define q2 where "q2 = log (LApproved p i (ps_capability ?st)) (cacheApprovals p i (jset (ps_capability ?st) True a) q1)"
  have key: "approved_key (qs_log q2) (toKey p i) (ps_capability ?st)"
    using assms(2) by (auto simp: approved_key_def q2_def)
  have "approvals_ok (LApproved p i (ps_capability ?st) # qs_log q1) (toKey p i) (jset (ps_capability ?st) True a)"
    using inv key by (simp add: q2_def approvals_ok_jset approvals_ok_mono)
  then have "queue_inv pol (cacheApprovals p i (jset (ps_capability ?st) True a) (log (LApproved p i (ps_capability ?st)) q1))"
    using inv by (auto intro!: queue_intros)
  then have "queue_inv pol q2" by (simp add: q2_def cacheApprovals_def log_def queue_inv_def)
  then have "queue_inv pol (on_store (recordApproval (en_now env) p i (ps_capability ?st) True) q2)"
    using key by (rule queue_inv_recordApproval)
  then show ?thesis
    using inv by (auto simp: approve_step_def e Let_def q2_def [symmetric] reject_step_inv releaseNextPlanSteps_inv queue_inv_emit
        split: option.splits QueueError.splits)
qed

lemma find_step_inv: "queue_inv pol q \<Longrightarrow> find_step env p i q = (q1, ro) \<Longrightarrow> queue_inv pol q1"
  using read_entry_inv(1) [of pol q env p i]
  by (cases "read_entry env p i q") (auto simp: find_step_def split: option.splits)

lemma resolvePlanStepApproval_inv:
  assumes "queue_inv pol q" and "CHR '':'' \<notin> set p"
  shows "queue_inv pol (fst (resolvePlanStepApproval env p i approved summary q))"
proof -
  obtain q1 ro where f: "find_step env p i q = (q1, ro)" by (cases "find_step env p i q")
  from find_step_inv [OF assms(1) f] show ?thesis
    using assms(2) by (cases ro) (simp_all add: resolvePlanStepApproval_def f Let_def approve_step_inv reject_step_inv
        queue_inv_session_ops)
qed

lemma rehydrate_step_inv: "queue_inv pol q \<Longrightarrow> queue_inv pol (fst (rehydrate_step env e q))"
  by (simp add: rehydrate_step_def Let_def queue_intros)

lemma rehydrate_loop_inv: "queue_inv pol q \<Longrightarrow> queue_inv pol (fst (rehydrate_loop env es restored q))"
proof (induction env es restored q rule: rehydrate_loop.induct)
  case (2 env e es restored q)
  have "queue_inv pol (fst (rehydrate_session e restored q))"
    using "2.prems" by (auto simp: rehydrate_session_def Let_def intro!: queue_inv_sessions queue_inv_log split: option.split)
  from rehydrate_step_inv [OF this, of env e] show ?case
    using 2 by (auto split: option.split prod.split)
qed simp

lemma rehydratePendingSteps_inv: "queue_inv pol q \<Longrightarrow> queue_inv pol (fst (rehydratePendingSteps env q))"
  using store_ok_others(5) [OF queue_inv_store, of pol q "en_now env"]
  by (auto simp: rehydratePendingSteps_def queue_inv_def intro!: rehydrate_loop_inv [unfolded queue_inv_def] split: prod.split)

lemma restart_manager_inv: "queue_inv pol q \<Longrightarrow> queue_inv pol (restart_manager env r q)"
  by (simp add: queue_inv_def restart_manager_def store_ok_load)

lemma fold_log_inv: "queue_inv pol q \<Longrightarrow> queue_inv pol (fold (\<lambda>s. log (LReleaseLocks s)) ss q)"
  by (induction ss arbitrary: q) (simp_all add: queue_inv_log)

lemma fold_log_store: "qs_store (fold (\<lambda>s. log (LReleaseLocks s)) ss q) = qs_store q"
  by (induction ss arbitrary: q) (simp_all add: log_def)

lemma stop_inv: "queue_inv pol q \<Longrightarrow> queue_inv pol (stop_manager q)"
  using fold_log_inv [of pol q "tracked_sessions q"] fold_log_store [of "tracked_sessions q" q]
  by (simp add: queue_inv_def stop_manager_def releaseTrackedSessionLocks_def store_ok_others)

section \<open>The consumers\<close>

lemma claim_job_inv: "queue_inv pol q \<Longrightarrow> claim_job tr job q = Some q1 \<Longrightarrow> queue_inv pol q1"
  by (auto simp: claim_job_def Let_def split: option.splits if_splits)

lemma handleRejection_inv: "queue_inv pol q \<Longrightarrow> queue_inv pol (handleRejection env c text q)"
  by (simp add: handleRejection_def Let_def queue_intros)

lemma mark_running_inv: "queue_inv pol q \<Longrightarrow> queue_inv pol (mark_running env tr job b q)"
  by (auto simp: mark_running_def Let_def intro!: queue_intros split: option.split)

lemma mark_running_log [simp]: "qs_log (mark_running env tr job b q) = qs_log q"
  by (simp add: mark_running_def Let_def clearRetainedPlanSubject_def setPlanSubject_def split: option.split)

lemma executeStep_inv:
  assumes "queue_inv pol q" and "en_policy env = pol"
  shows "queue_inv pol (fst (executeStep env msg tr job q))"
proof -
  let ?p = "jb_planId job" and ?i = "ps_id (jb_step job)"
  obtain q1 mo where r: "read_plan env ?p q = (q1, mo)" by (cases "read_plan env ?p q")
  obtain q2 eo where e: "read_entry env ?p ?i q1 = (q2, eo)" by (cases "read_entry env ?p ?i q1")
  obtain q3 a where a: "ensureApprovals env ?p ?i (mark_running env tr job (eo \<noteq> None) q2) = (q3, a)"
    by (cases "ensureApprovals env ?p ?i (mark_running env tr job (eo \<noteq> None) q2)")
  note inv1 = read_plan_inv(1) [OF assms(1) r]
  note inv2 = read_entry_inv(1) [OF inv1 e]
  have inv3: "queue_inv pol q3" "approvals_ok (qs_log q3) (toKey ?p ?i) a"
    using ensureApprovals_inv [OF mark_running_inv [OF inv2] a] by simp_all
  define q4 where "q4 = emitPlanEvent env ?p (jb_step job) tr (jb_requestId job)
    (update_of StRunning ''Dispatching tool agent'' (jb_attempt job)) (Some a) q3"
  have inv4: "queue_inv pol q4" "approvals_ok (qs_log q4) (toKey ?p ?i) a"
    using inv3 by (simp_all add: q4_def queue_inv_emit)
  have tool: "queue_inv pol (log (LTool ?p (jb_step job) a) q4)"
    if "pol (jb_step job) ?p tr a su = Decision True d" for su d
    using inv4 that by (intro queue_inv_log) (simp, simp only: item_ok.simps, blast)
  have "queue_inv pol (log (LMessage msg x) q')" if "queue_inv pol q'" for x q'
    using that by (simp add: queue_inv_log)
  then show ?thesis using inv1 inv2 inv4(1) tool assms(2) a
    by (cases eo) (auto simp: executeStep_def Let_def r e q4_def [symmetric] handleRejection_inv
        split: PolicyOutcome.splits)
qed

lemma handle_step_inv:
  assumes "queue_inv pol q" and "en_policy env = pol"
  shows "queue_inv pol (fst (handle_step env stopped msg q))"
  using assms claim_job_inv [OF assms(1)]
  by (auto simp: handle_step_def intro!: executeStep_inv queue_inv_log split: option.split)

lemma meta_ok_advance: "meta_ok m \<Longrightarrow> i < length (pm_steps m) \<Longrightarrow> meta_ok (advance_metadata i m)"
  by (auto simp: meta_ok_def advance_metadata_def)

lemma findIndex_step_bound: "findIndex_step stepId m = Some i \<Longrightarrow> i < length (pm_steps m)"
  by (auto simp: findIndex_step_def Let_def split: if_splits)

lemma step_completed_inv:
  assumes "queue_inv pol q"
  shows "queue_inv pol (step_completed env p i q)"
proof -
  obtain q1 mo where r: "read_plan env p q = (q1, mo)" by (cases "read_plan env p q")
  note inv = read_plan_inv [OF assms r]
  have "queue_inv pol (record_completion env p i q)"
  proof (cases mo)
    case None
    then show ?thesis using r inv by (simp add: record_completion_def)
  next
    case (Some m)
    from inv(3) [OF this] have "meta_ok m" .
    then show ?thesis using Some r inv(1)
      by (auto simp: record_completion_def intro!: queue_inv_rememberPlan meta_ok_advance dest: findIndex_step_bound
          split: option.split)
  qed
  then show ?thesis by (simp add: step_completed_def releaseNextPlanSteps_inv)
qed

lemma tool_returned_inv:
  assumes "queue_inv pol q"
  shows "queue_inv pol (tool_returned env c es q)"
proof -
  have "queue_inv pol (fold (emit_tool_event env c) es q)"
    using assms by (induction es arbitrary: q) (simp_all add: emit_tool_event_def queue_inv_emit)
  then show ?thesis using assms
    by (auto simp: tool_returned_def Let_def intro!: step_completed_inv queue_intros)
qed

lemma tool_finished_inv: "queue_inv pol q \<Longrightarrow> queue_inv pol (tool_finished env cfg c out q)"
  by (auto simp: tool_finished_def handleToolError_def retry_step_def Let_def
      intro!: tool_returned_inv queue_intros split: ToolOutcome.split)

lemma known_step_inv:
  assumes "queue_inv pol q" and "known_step env msg q = (q1, k)"
  shows "queue_inv pol q1"
    and "\<And>e a. kn_persisted k = Some e \<Longrightarrow> pe_approvals e = Some a \<Longrightarrow>
      approvals_ok (qs_log q1) (toKey (cp_planId msg) (cp_stepId msg)) a"
  using assms read_entry_inv [OF assms(1), of env "cp_planId msg" "cp_stepId msg"]
  by (cases "read_entry env (cp_planId msg) (cp_stepId msg) q";
      auto simp: known_step_def entry_ok_def split: option.splits)+

lemma emitCompletionEvent_inv:
  "queue_inv pol q \<Longrightarrow> queue_inv pol (emitCompletionEvent env p i tr rid u st a q)"
  by (auto simp: emitCompletionEvent_def Let_def queue_inv_set_state_of split: option.split)

lemma accept_completion_inv:
  assumes "queue_inv pol q" and "\<And>e a. kn_persisted k = Some e \<Longrightarrow> pe_approvals e = Some a \<Longrightarrow>
    approvals_ok (qs_log q) (toKey (cp_planId msg) (cp_stepId msg)) a"
  shows "queue_inv pol (accept_completion env msg k q)"
proof -
  let ?pa = "case (kn_metadata k, kn_persisted k) of (None, Some e) \<Rightarrow> pe_approvals e | _ \<Rightarrow> None"
  have "queue_inv pol (case ?pa of None \<Rightarrow> q | Some a \<Rightarrow> cacheApprovals (cp_planId msg) (cp_stepId msg) a q)"
    using assms by (auto intro!: queue_inv_cacheApprovals split: option.split)
  then show ?thesis unfolding accept_completion_def Let_def
    by (intro queue_inv_log) (simp_all add: emitCompletionEvent_inv step_completed_inv queue_inv_drop_step)
qed

lemma processMessage_inv:
  assumes "queue_inv pol q"
  shows "queue_inv pol (processMessage env stopped msg q)"
proof -
  obtain q1 k where k: "known_step env msg q = (q1, k)" by (cases "known_step env msg q")
  show ?thesis using assms known_step_inv [OF assms k]
    by (auto simp: processMessage_def k intro!: queue_inv_log accept_completion_inv)
qed

end
