(* ===== verification/Queue_Properties.thy ===== *)
theory Queue_Properties
  imports Queue_Invariants
begin

text \<open>
  Runs of the plan queue and its properties: the operations of the manager and the handlers of
  the two consumers in any order, any number of times and on any messages, with restarts of
  the process in between.
\<close>

section \<open>Runs\<close>

text \<open>The state of a run is that of the queue and the tool calls under way.  All
  operations of a run ask the same policy; approvals are given for plan identifiers that
  pass the check of the API, which have no colon.\<close>

inductive queue_run :: "policy \<Rightarrow> QueueState \<Rightarrow> ToolCall list \<Rightarrow> bool" for pol where
  start: "queue_run pol (new_manager r) []"
| submit: "queue_run pol q cs \<Longrightarrow> en_policy env = pol \<Longrightarrow>
    queue_run pol (fst (submitPlanSteps env p steps tr rid su q)) cs"
| resolve: "queue_run pol q cs \<Longrightarrow> en_policy env = pol \<Longrightarrow> CHR '':'' \<notin> set p \<Longrightarrow>
    queue_run pol (fst (resolvePlanStepApproval env p i approved summary q)) cs"
| message: "queue_run pol q cs \<Longrightarrow> en_policy env = pol \<Longrightarrow> handle_step env stopped msg q = (q', co) \<Longrightarrow>
    queue_run pol q' (case co of None \<Rightarrow> cs | Some c \<Rightarrow> c # cs)"
| tool: "queue_run pol q cs \<Longrightarrow> en_policy env = pol \<Longrightarrow> c \<in> set cs \<Longrightarrow>
    queue_run pol (tool_finished env cfg c out q) (remove1 c cs)"
| completion: "queue_run pol q cs \<Longrightarrow> en_policy env = pol \<Longrightarrow>
    queue_run pol (processMessage env stopped msg' q) cs"
| rehydrate: "queue_run pol q cs \<Longrightarrow> en_policy env = pol \<Longrightarrow>
    queue_run pol (fst (rehydratePendingSteps env q)) cs"
| expire: "queue_run pol q cs \<Longrightarrow> queue_run pol (clearRetainedPlanSubject p q) cs"
| stop: "queue_run pol q cs \<Longrightarrow> queue_run pol (stop_manager q) cs"
| restart: "queue_run pol q cs \<Longrightarrow> queue_run pol (restart_manager env r q) []"

lemma queue_inv_new: "queue_inv pol (new_manager r)"
  by (simp add: queue_inv_def new_manager_def store_ok_def new_FilePlanStateStore_def)

lemma queue_run_inv: "queue_run pol q cs \<Longrightarrow> queue_inv pol q"
proof (induction rule: queue_run.induct)
  case (message q cs env stopped msg q' co)
  then show ?case using handle_step_inv [of pol q env stopped msg] by simp
qed (simp_all add: queue_inv_new submitPlanSteps_inv resolvePlanStepApproval_inv tool_finished_inv processMessage_inv
    rehydratePendingSteps_inv stop_inv restart_manager_inv)

lemma log_ok_split: "log_ok pol (later @ x # earlier) \<Longrightarrow> item_ok pol x earlier"
  by (induction later) auto

lemma approved_key_step:
  assumes "approved_key l (toKey p i) c" and "CHR '':'' \<notin> set p"
  shows "LApproved p i c \<in> set l"
  using assms by (auto simp: approved_key_def toKey_eq_iff)

text \<open>
  C3.  In every run, the indices of every stored plan fit together: at most one step is
  released beyond the last completed one, none is skipped, and no index leaves the plan.
\<close>

theorem plan_indices_consistent:
  assumes "queue_run pol q cs" and "map_of (fs_planRecords (qs_store q)) p = Some (m, u)"
  shows "- 1 \<le> pm_lastCompletedIndex m \<and> pm_lastCompletedIndex m < pm_nextStepIndex m \<and>
    pm_nextStepIndex m \<le> pm_lastCompletedIndex m + 2 \<and> pm_nextStepIndex m \<le> int (length (pm_steps m))"
proof -
  have "store_ok (qs_log q) (qs_store q)" using queue_run_inv [OF assms(1)] by (rule queue_inv_store)
  then have "meta_ok m" using map_of_SomeD [OF assms(2)] by (fastforce simp: store_ok_def)
  then show ?thesis by (simp add: meta_ok_def)
qed

text \<open>
  C1.  A step that requires approval is sent to the queue by the release of a plan's steps
  only after an operator approved this very step for its capability, also across restarts.
\<close>

theorem release_needs_approval:
  assumes "queue_run pol q cs" and "qs_log q = later @ LReleased job # earlier"
    and "ps_approvalRequired (jb_step job)" and "CHR '':'' \<notin> set (jb_planId job)"
  shows "LApproved (jb_planId job) (ps_id (jb_step job)) (ps_capability (jb_step job)) \<in> set earlier"
proof -
  have "log_ok pol (qs_log q)" using queue_run_inv [OF assms(1)] by (simp add: queue_inv_def)
  from log_ok_split [OF this [unfolded assms(2)]] show ?thesis
    using assms(3,4) by (simp add: approved_key_step)
qed


text \<open>
  A completion message for a step in the registry is accepted exactly when it
  carries the trace of the step and its idempotency key; any other is dead-lettered and
  changes nothing else.
\<close>

theorem completion_authenticated:
  assumes "getRegistryEntry q (cp_planId msg) (cp_stepId msg) = Some r" and "re_traceId r \<noteq> ''''"
  shows "processMessage env False msg q =
    (if receivedTraceId msg = re_traceId r \<and> receivedIdempotencyKey msg = toKey (cp_planId msg) (cp_stepId msg)
     then accept_completion env msg \<lparr>kn_metadata = Some r, kn_persisted = None\<rparr> q
     else log (LMessage (cm_id msg) (DeadLettered ''metadata_mismatch'')) q)"
  using assms by (auto simp: processMessage_def known_step_def metadata_mismatch_def expectedTraceId_def
      expectedIdempotencyKey_def Let_def toKey_def)

section \<open>What the operations change\<close>

lemma prune_fields [simp]:
  "qs_store (prunePlanSubject p q) = qs_store q" "qs_registry (prunePlanSubject p q) = qs_registry q"
  "qs_approvalCache (prunePlanSubject p q) = qs_approvalCache q" "qs_log (prunePlanSubject p q) = qs_log q"
  by (simp_all add: prunePlanSubject_def retainCompletedPlanSubject_def deletePlanSubject_def split: option.split)

lemma drop_step_fields [simp]:
  "qs_log (drop_step env p i q) = qs_log q"
  "qs_registry (drop_step env p i q) = jdelete (toKey p i) (qs_registry q)"
  "qs_approvalCache (drop_step env p i q) = jdelete (toKey p i) (qs_approvalCache q)"
  "qs_store (drop_step env p i q) = forgetStep (en_now env) p i (qs_store q)"
  by (simp_all add: drop_step_def on_store_def clearApprovals_def deleteRegistryEntry_def)

lemma emit_fields [simp]:
  "qs_registry (emitPlanEvent env p st tr rid u ao q) = qs_registry q"
  "qs_approvalCache (emitPlanEvent env p st tr rid u ao q) = qs_approvalCache q"
  "qs_planSubjects (emitPlanEvent env p st tr rid u ao q) = qs_planSubjects q"
  "qs_store (emitPlanEvent env p st tr rid u ao q) =
     setState (en_now env) p (ps_id st) (up_state u) (up_summary u) (sanitized env u) (up_attempt u) (qs_store q)"
  by (simp_all add: emitPlanEvent_def publish_def set_state_of_def on_store_def)

lemma log_fields [simp]:
  "qs_registry (log x q) = qs_registry q" "qs_approvalCache (log x q) = qs_approvalCache q"
  "qs_store (log x q) = qs_store q" "qs_planSubjects (log x q) = qs_planSubjects q"
  by (simp_all add: log_def)

lemma on_store_fields [simp]:
  "qs_registry (on_store f q) = qs_registry q" "qs_approvalCache (on_store f q) = qs_approvalCache q"
  "qs_store (on_store f q) = f (qs_store q)" "qs_planSubjects (on_store f q) = qs_planSubjects q"
  by (simp_all add: on_store_def)

lemma registry_set [simp]:
  "qs_registry (setRegistryEntry p i r q) = jset (toKey p i) r (qs_registry q)"
  "qs_approvalCache (setRegistryEntry p i r q) = qs_approvalCache q"
  "qs_store (setRegistryEntry p i r q) = qs_store q" "qs_planSubjects (setRegistryEntry p i r q) = qs_planSubjects q"
  by (simp_all add: setRegistryEntry_def)

lemma cache_set [simp]:
  "qs_approvalCache (cacheApprovals p i a q) = jset (toKey p i) a (qs_approvalCache q)"
  "qs_registry (cacheApprovals p i a q) = qs_registry q"
  "qs_store (cacheApprovals p i a q) = qs_store q" "qs_planSubjects (cacheApprovals p i a q) = qs_planSubjects q"
  by (simp_all add: cacheApprovals_def)

lemma getEntry_forget:
  "store_inv fs \<Longrightarrow> snd (getEntry now p i (forgetStep now p i fs)) = None"
  using file_store.get_view file_store.forget_same store_inv_ops(4) by metis

text \<open>
  C5.  A failed tool call is retried exactly when the error is retryable and attempts are
  left, with the attempt counted and the step free to be taken up again; when they are used
  up the message is dead-lettered, otherwise acknowledged, and in both cases the step leaves
  registry, approval cache and store.
\<close>

theorem tool_error_outcome:
  assumes "store_inv (qs_store q)"
  shows "if retryable \<and> jb_attempt (tc_job c) < sc_maxRetries cfg
    then qs_log (handleToolError env cfg c retryable text q) =
        LMessage (tc_message c) (Retried (computeRetryDelayMs cfg (jb_attempt (tc_job c)))) # qs_log q \<and>
      (\<exists>r. getRegistryEntry (handleToolError env cfg c retryable text q) (jb_planId (tc_job c)) (ps_id (jb_step (tc_job c))) = Some r \<and>
        \<not> re_inFlight r \<and> jb_attempt (re_job r) = jb_attempt (tc_job c) + 1 \<and> jb_attempt (re_job r) \<le> sc_maxRetries cfg)
    else (\<exists>reason. qs_log (handleToolError env cfg c retryable text q) =
        LMessage (tc_message c) (if retryable then DeadLettered reason else Acked) # qs_log q) \<and>
      getRegistryEntry (handleToolError env cfg c retryable text q) (jb_planId (tc_job c)) (ps_id (jb_step (tc_job c))) = None \<and>
      map_of (qs_approvalCache (handleToolError env cfg c retryable text q))
        (toKey (jb_planId (tc_job c)) (ps_id (jb_step (tc_job c)))) = None \<and>
      snd (getEntry (en_now env) (jb_planId (tc_job c)) (ps_id (jb_step (tc_job c)))
        (qs_store (handleToolError env cfg c retryable text q))) = None"
proof (cases "retryable \<and> jb_attempt (tc_job c) < sc_maxRetries cfg")
  case True
  then show ?thesis
    by (auto simp: handleToolError_def retry_step_def Let_def getRegistryEntry_def jmap_simps split: option.split)
next
  case False
  then show ?thesis using assms
    by (auto simp: handleToolError_def Let_def getRegistryEntry_def jmap_simps getEntry_forget store_inv_ops)
qed

section \<open>Reading the store back\<close>

definition entry_at :: "time \<Rightarrow> FilePlanStateStore \<Rightarrow> string \<Rightarrow> string \<Rightarrow> PersistedStep option" where
  "entry_at now fs p i = snd (getEntry now p i fs)"

definition plan_at :: "time \<Rightarrow> FilePlanStateStore \<Rightarrow> string \<Rightarrow> PersistedPlanMetadata option" where
  "plan_at now fs p = snd (getPlanMetadata now p fs)"

lemma entry_at_view: "entry_at now fs p i = store_view now fs p i"
  by (simp add: entry_at_def getEntry_def store_view_def Let_def)

lemma purge_twice [simp]:
  "purgeExpired now (purgeExpired now fs) = purgeExpired now fs"
  "fs_records (purgeExpired now (persist_if b fs)) = fs_records (purgeExpired now fs)"
  "fs_planRecords (purgeExpired now (persist_if b fs)) = fs_planRecords (purgeExpired now fs)"
  "fs_records (purgeExpired now (persist fs)) = fs_records (purgeExpired now fs)"
  "fs_planRecords (purgeExpired now (persist fs)) = fs_planRecords (purgeExpired now fs)"
  by (auto simp: purgeExpired_def case_prod_unfold split: option.split)

lemma purge_update [simp]:
  "fs_records (purgeExpired now (fs\<lparr>fs_planRecords := x\<rparr>)) = fs_records (purgeExpired now fs)"
  "fs_planRecords (purgeExpired now (fs\<lparr>fs_records := y\<rparr>)) = fs_planRecords (purgeExpired now fs)"
  by (simp_all add: purgeExpired_def split: option.split)

lemma entry_at_frame [simp]:
  "entry_at now (fst (getPlanMetadata now p fs)) = entry_at now fs"
  "entry_at now (fst (getEntry now p i fs)) = entry_at now fs"
  "entry_at now (rememberPlanMetadata now p m fs) = entry_at now fs"
  by (simp_all add: fun_eq_iff entry_at_def getEntry_def getPlanMetadata_def rememberPlanMetadata_def Let_def)

lemma plan_at_frame [simp]:
  "plan_at now (fst (getPlanMetadata now p fs)) = plan_at now fs"
  "plan_at now (fst (getEntry now p i fs)) = plan_at now fs"
  "plan_at now (rememberStep now u p st tr o' fs) = plan_at now fs"
  "plan_at now (setState now p i x y z a fs) = plan_at now fs"
  by (simp_all add: fun_eq_iff plan_at_def getEntry_def getPlanMetadata_def rememberStep_def setState_def Let_def
      split: option.split)

lemma plan_at_remember: "store_inv fs \<Longrightarrow> plan_at now (rememberPlanMetadata now p m fs) p = Some m"
proof -
  assume inv: "store_inv fs"
  let ?r = "jset p (m, now) (fs_planRecords (purgeExpired now fs))"
  have "map_of (filter (\<lambda>(k, (m, u)). \<not> u < now - r) ?r) p = Some (m, now)" if "fs_retentionMs fs = Some r" for r
    using that inv map_of_filter_values [of ?r "\<lambda>k (m, u). \<not> u < now - r" p]
    by (auto simp: store_inv_def jmap_simps case_prod_unfold)
  then show ?thesis
    by (auto simp: plan_at_def getPlanMetadata_def rememberPlanMetadata_def Let_def purgeExpired_def jmap_simps
        split: option.splits)
qed

lemma store_inv_plan_ops:
  "store_inv fs \<Longrightarrow> store_inv (rememberPlanMetadata now p m fs)"
  "store_inv fs \<Longrightarrow> store_inv (fst (getPlanMetadata now p fs))"
  by (simp_all add: store_inv_def rememberPlanMetadata_def getPlanMetadata_def Let_def)

lemma read_plan_eq:
  "read_plan env p q = (on_store (\<lambda>fs. fst (getPlanMetadata (en_now env) p fs)) q, plan_at (en_now env) (qs_store q) p)"
  by (simp add: read_plan_def on_store_def plan_at_def split: prod.split)

lemma read_entry_eq:
  "read_entry env p i q = (on_store (\<lambda>fs. fst (getEntry (en_now env) p i fs)) q, entry_at (en_now env) (qs_store q) p i)"
  by (simp add: read_entry_def on_store_def entry_at_def split: prod.split)

lemma getPlanSubject_frame [simp]:
  "getPlanSubject (on_store f q) p = getPlanSubject q p" "getPlanSubject (cacheApprovals p' i a q) p = getPlanSubject q p"
  by (simp_all add: getPlanSubject_def)

lemma ensureApprovals_fresh:
  assumes "map_of (qs_approvalCache q) (toKey p i) = None" and "entry_at (en_now env) (qs_store q) p i = None"
  shows "ensureApprovals env p i q =
    (cacheApprovals p i [] (on_store (\<lambda>fs. fst (getEntry (en_now env) p i fs)) q), [])"
  using assms by (simp add: ensureApprovals_def read_entry_eq Let_def)

text \<open>Releasing a step that the store does not know, needs no approval and is permitted.\<close>

lemma release_one_fresh:
  fixes m :: PersistedPlanMetadata
  defines "se \<equiv> pm_steps m ! nat (pm_nextStepIndex m)"
  assumes inv: "store_inv (qs_store q)"
    and new: "entry_at (en_now env) (qs_store q) p (ps_id (md_step se)) = None"
      "map_of (qs_approvalCache q) (toKey p (ps_id (md_step se))) = None"
    and free: "\<not> ps_approvalRequired (md_step se)"
    and pol: "\<And>su. policy_check (md_step se) (en_policy env (md_step se) p (pm_traceId m) [] su) = None"
    and enq: "\<And>job. en_enqueue env job"
  shows "\<exists>q' m' job e. release_one env p m q = RNext q' m' \<and> qs_log q' = LReleased job # qs_log q \<and>
    jb_planId job = p \<and> jb_step job = md_step se \<and>
    entry_at (en_now env) (qs_store q') p (ps_id (md_step se)) = Some e \<and> pe_state e = StQueued \<and>
    store_inv (qs_store q') \<and> m' = (release_metadata m se job)\<lparr>pm_nextStepIndex := pm_nextStepIndex m + 1\<rparr>"
proof -
  let ?now = "en_now env" and ?i = "ps_id (md_step se)"
  define q1 where "q1 = on_store (\<lambda>fs. fst (getEntry ?now p ?i fs)) q"
  define job where "job = release_job env p m se None q1"
  have job: "jb_planId job = p" "jb_step job = md_step se" by (simp_all add: job_def release_job_def)
  define q2 where "q2 = cacheApprovals p ?i [] (on_store (\<lambda>fs. fst (getEntry ?now p ?i fs)) q1)"
  define q3 where "q3 = remember_job env StQueued job (Some [])
    (cacheApprovals p ?i [] (setRegistryEntry p ?i \<lparr>re_step = md_step se, re_traceId = pm_traceId m,
      re_requestId = jb_requestId job, re_job = job, re_inFlight = False\<rparr> q2))"
  define q4 where "q4 = emitPlanEvent env p (md_step se) (pm_traceId m) (jb_requestId job)
    (update_of StQueued ''Queued for execution'' (jb_attempt job)) None (log (LReleased job) q3)"
  have "ensureApprovals env p ?i q1 = (q2, [])"
    unfolding q2_def by (rule ensureApprovals_fresh) (use new in \<open>simp_all add: q1_def\<close>)
  then have "release_one env p m q = release_step env (release_metadata m se job) None job [] q2"
    using new(1) pol by (simp add: release_one_def Let_def read_entry_eq se_def [symmetric] q1_def [symmetric] job_def [symmetric])
  also have "\<dots> = RNext q4 ((release_metadata m se job)\<lparr>pm_nextStepIndex := pm_nextStepIndex m + 1\<rparr>)"
    using free enq by (simp add: release_step_def Let_def job q4_def q3_def release_metadata_def)
  finally have "release_one env p m q = RNext q4 ((release_metadata m se job)\<lparr>pm_nextStepIndex := pm_nextStepIndex m + 1\<rparr>)" .
  moreover have "qs_log q4 = LReleased job # qs_log q"
    by (simp add: q4_def q3_def q2_def q1_def setRegistryEntry_def)
  moreover have inv2: "store_inv (qs_store q2)" using inv by (simp add: q2_def q1_def store_inv_ops)
  have store: "\<exists>o'. ro_initialState o' = StQueued \<and> qs_store q3 = rememberStep ?now (en_uuid env) p (md_step se) (jb_traceId job) o' (qs_store q2)"
    by (auto simp: q3_def remember_job_def job intro!: exI)
  then obtain o' where o': "ro_initialState o' = StQueued"
    "qs_store q3 = rememberStep ?now (en_uuid env) p (md_step se) (jb_traceId job) o' (qs_store q2)" by blast
  obtain e0 where "store_view ?now (qs_store q3) p ?i = Some e0"
    using file_store.remember_same [OF inv2, of ?now "en_uuid env" p "md_step se" "jb_traceId job" o'] o'(2) by auto
  then have "\<exists>e. entry_at ?now (qs_store q4) p ?i = Some e \<and> pe_state e = StQueued"
    using inv2 o'(2) by (simp add: entry_at_view q4_def file_store.set_state_same store_inv_ops update_of_def TERMINAL_STATES_def)
  moreover have "store_inv (qs_store q4)" using inv2 o'(2) by (simp add: q4_def store_inv_ops)
  ultimately show ?thesis using job by blast
qed

text \<open>
  C4.  When a step completes and the following one needs no approval and is permitted, the
  following step is sent to the queue at once, exactly once, and recorded as queued, and the
  plan is advanced by one: completion of the steps drives the plan to its end.
\<close>

theorem completion_releases_next:
  fixes m :: PersistedPlanMetadata
  assumes "store_inv (qs_store q)" and "plan_at (en_now env) (qs_store q) p = Some m"
    and "findIndex_step i m = Some j" and "pm_lastCompletedIndex m = int j - 1" and "pm_nextStepIndex m = int j + 1"
    and "Suc j < length (pm_steps m)" and "st = md_step (pm_steps m ! Suc j)"
    and "entry_at (en_now env) (qs_store q) p (ps_id st) = None"
    and "map_of (qs_approvalCache q) (toKey p (ps_id st)) = None" and "\<not> ps_approvalRequired st"
    and "\<And>su. policy_check st (en_policy env st p (pm_traceId m) [] su) = None" and "\<And>job. en_enqueue env job"
  shows "\<exists>job m' e. qs_log (step_completed env p i q) = LReleased job # qs_log q \<and> jb_planId job = p \<and> jb_step job = st \<and>
    entry_at (en_now env) (qs_store (step_completed env p i q)) p (ps_id st) = Some e \<and> pe_state e = StQueued \<and>
    plan_at (en_now env) (qs_store (step_completed env p i q)) p = Some m' \<and>
    pm_lastCompletedIndex m' = int j \<and> pm_nextStepIndex m' = int j + 2"
proof -
  let ?now = "en_now env"
  define n where "n = advance_metadata j m"
  define q1 where "q1 = record_completion env p i q"
  define q2 where "q2 = on_store (\<lambda>fs. fst (getPlanMetadata ?now p fs)) q1"
  have n: "pm_lastCompletedIndex n = int j" "pm_nextStepIndex n = int j + 1" "pm_steps n = pm_steps m" "pm_traceId n = pm_traceId m"
    using assms(4,5) by (simp_all add: n_def advance_metadata_def)
  have idx: "nat (int j + 1) = Suc j" by simp
  have q1: "q1 = on_store (rememberPlanMetadata ?now p n) (on_store (\<lambda>fs. fst (getPlanMetadata ?now p fs)) q)"
    using assms(2,3) by (simp add: q1_def record_completion_def read_plan_eq n_def)
  have inv2: "store_inv (qs_store q2)" using assms(1) by (simp add: q2_def q1 store_inv_plan_ops)
  have read: "read_plan env p q1 = (q2, Some n)"
    using assms(1) by (simp add: read_plan_eq q2_def q1 plan_at_remember store_inv_plan_ops)
  have "\<exists>q' m' job e. release_one env p n q2 = RNext q' m' \<and> qs_log q' = LReleased job # qs_log q2 \<and>
    jb_planId job = p \<and> jb_step job = md_step (pm_steps n ! nat (pm_nextStepIndex n)) \<and>
    entry_at ?now (qs_store q') p (ps_id (md_step (pm_steps n ! nat (pm_nextStepIndex n)))) = Some e \<and> pe_state e = StQueued \<and>
    store_inv (qs_store q') \<and>
    m' = (release_metadata n (pm_steps n ! nat (pm_nextStepIndex n)) job)\<lparr>pm_nextStepIndex := pm_nextStepIndex n + 1\<rparr>"
    by (rule release_one_fresh) (use assms inv2 in \<open>simp_all add: n idx q2_def q1\<close>)
  then obtain q' m' job e where r: "release_one env p n q2 = RNext q' m'" "qs_log q' = LReleased job # qs_log q2"
    "jb_planId job = p" "jb_step job = st" "entry_at ?now (qs_store q') p (ps_id st) = Some e" "pe_state e = StQueued"
    "store_inv (qs_store q')" "pm_lastCompletedIndex m' = int j" "pm_nextStepIndex m' = int j + 2"
    "length (pm_steps m') = length (pm_steps m)"
    using assms(7) by (auto simp: n idx release_metadata_def)
  have "release_loop env p m' q' = (q', Inr m')"
    using r by (subst release_loop.simps) (simp add: canReleaseNextStep_def)
  moreover have "canReleaseNextStep n" using assms(6) by (simp add: canReleaseNextStep_def n)
  ultimately have "release_loop env p n q2 = (q', Inr m')" using r by (subst release_loop.simps) simp
  then have fin: "step_completed env p i q = on_store (rememberPlanMetadata ?now p m') q'"
    using assms(6) r read by (simp add: step_completed_def releaseNextPlanSteps_def q1_def [symmetric])
  have "qs_log q2 = qs_log q" by (simp add: q2_def q1)
  then show ?thesis using r by (auto simp: fin plan_at_remember)
qed

text \<open>
  When the process has restarted while a step was running and the broker redelivers
  the message of that step before the pending steps are restored, the message is
  acknowledged without calling the tool, and restoring the pending steps afterwards skips
  the step: it stays recorded as running and is never executed.
\<close>

theorem redelivered_step_dropped:
  fixes msg :: StepMessage and e :: PersistedStep
  assumes "getRegistryEntry q (pe_planId e) (ps_id (pe_step e)) = None"
    and "entry_at (en_now env) (qs_store q) (pe_planId e) (ps_id (pe_step e)) = Some e"
    and "pe_state e = StRunning" and "jb_attempt (received_job msg) \<le> pe_attempt e"
    and "jb_planId (sm_payload msg) = pe_planId e" and "jb_step (sm_payload msg) = pe_step e"
    and "\<not> already_completed (ps_id (pe_step e)) (plan_at (en_now env) (qs_store q) (pe_planId e))"
  shows "snd (handle_step env False msg q) = None \<and>
    qs_log (fst (handle_step env False msg q)) = LMessage (sm_id msg) Acked # qs_log q \<and>
    entry_at (en_now env) (qs_store (fst (handle_step env False msg q))) (pe_planId e) (ps_id (pe_step e)) = Some e \<and>
    rehydrate_loop env' (e # es) rs (fst (handle_step env False msg q)) =
    rehydrate_loop env' es rs (fst (handle_step env False msg q))"
  using assms
  by (simp add: handle_step_def claim_job_def getRegistryEntry_def received_job_def executeStep_def Let_def read_plan_eq
      read_entry_eq already_running_def jmap_simps)

section \<open>A sample run\<close>

text \<open>A policy that guards every capability by its approval; a plan of one step that needs
  approval, submitted, approved, and executed; a plan of two free steps.\<close>

definition sample_policy :: policy where
  "sample_policy st p tr a su = (if map_of a (ps_capability st) = Some True then Decision True []
     else Decision False [\<lparr>dr_reason = ''approval_required'', dr_capability = Some (ps_capability st)\<rparr>])"

definition sample_env :: "policy \<Rightarrow> time \<Rightarrow> QueueEnv" where
  "sample_env pol now = \<lparr>en_now = now, en_uuid = ''u'', en_policy = pol, en_enqueue = (\<lambda>_. True), en_capture = True\<rparr>"

definition sample_waiting :: QueueState where
  "sample_waiting = fst (submitPlanSteps (sample_env sample_policy 1) ''plan-1'' [sample_step] ''t'' None None (new_manager None))"

definition sample_released :: QueueState where
  "sample_released = fst (resolvePlanStepApproval (sample_env sample_policy 2) ''plan-1'' ''s1'' True None sample_waiting)"

definition sample_job :: PlanJob where
  "sample_job = \<lparr>jb_planId = ''plan-1'', jb_step = sample_step, jb_attempt = 0, jb_createdAt = 1, jb_traceId = ''t'',
     jb_requestId = Some ''u'', jb_subject = None\<rparr>"

definition sample_message :: StepMessage where
  "sample_message = \<lparr>sm_id = ''m1'', sm_headers = [], sm_attempts = 0, sm_payload = sample_job\<rparr>"

definition sample_executing :: QueueState where
  "sample_executing = fst (handle_step (sample_env sample_policy 3) False sample_message sample_released)"

definition sample_call :: ToolCall where
  "sample_call = \<lparr>tc_message = ''m1'', tc_job = sample_job, tc_traceId = ''t'', tc_approvals = [(''repo.write'', True)]\<rparr>"

definition sample_completion :: CompletionMessage where
  "sample_completion = \<lparr>cm_id = ''m2'', cm_headers = [(''trace-id'', ''forged'')], cp_planId = ''plan-1'', cp_stepId = ''s1'',
     cp_state = StCompleted, cp_summary = None, cp_output = None, cp_attempt = None, cp_requestId = None, cp_traceId = None,
     cp_occurredAt = None, cp_approvals = None\<rparr>"

definition allow_all :: policy where
  "allow_all st p tr a su = Decision True []"

definition free_step :: "string \<Rightarrow> PlanStep" where
  "free_step i = sample_step\<lparr>ps_id := i, ps_approvalRequired := False\<rparr>"

definition sample_two :: QueueState where
  "sample_two = fst (submitPlanSteps (sample_env allow_all 1) ''plan-2'' [free_step ''s1'', free_step ''s2''] ''t'' None None
     (new_manager None))"

definition sample_meta :: PersistedPlanMetadata where
  "sample_meta = the (plan_at 2 (qs_store sample_two) ''plan-2'')"

definition sample_crashed :: QueueState where
  "sample_crashed = restart_manager (sample_env sample_policy 4) None sample_executing"

definition sample_entry :: PersistedStep where
  "sample_entry = the (entry_at 5 (qs_store sample_crashed) ''plan-1'' ''s1'')"

lemma sample_env_policy: "en_policy (sample_env pol now) = pol"
  by (simp add: sample_env_def)

lemma sample_runs:
  "queue_run sample_policy sample_waiting []" "queue_run sample_policy sample_released []"
  "queue_run sample_policy sample_executing [sample_call]"
proof -
  show w: "queue_run sample_policy sample_waiting []"
    unfolding sample_waiting_def by (intro queue_run.submit queue_run.start sample_env_policy)
  show r: "queue_run sample_policy sample_released []"
    unfolding sample_released_def by (intro queue_run.resolve [OF w] sample_env_policy) simp
  have "handle_step (sample_env sample_policy 3) False sample_message sample_released = (sample_executing, Some sample_call)"
    by (rule prod_eqI) (simp add: sample_executing_def, code_simp)
  from queue_run.message [OF r sample_env_policy this] show "queue_run sample_policy sample_executing [sample_call]" by simp
qed

lemma sample_logs:
  "qs_log sample_released = [LReleased sample_job, LApproved ''plan-1'' ''s1'' ''repo.write'']"
  "qs_log sample_executing = [LTool ''plan-1'' sample_step [(''repo.write'', True)], LReleased sample_job,
     LApproved ''plan-1'' ''s1'' ''repo.write'']"
  by code_simp+

theorem plan_indices_consistent_witness:
  "\<exists>m u. map_of (fs_planRecords (qs_store sample_released)) ''plan-1'' = Some (m, u) \<and>
     pm_nextStepIndex m \<le> pm_lastCompletedIndex m + 2 \<and> pm_nextStepIndex m = 1"
proof -
  have "map_option (pm_nextStepIndex \<circ> fst) (map_of (fs_planRecords (qs_store sample_released)) ''plan-1'') = Some 1"
    by code_simp
  then obtain m u where m: "map_of (fs_planRecords (qs_store sample_released)) ''plan-1'' = Some (m, u)" "pm_nextStepIndex m = 1"
    by auto
  then show ?thesis using plan_indices_consistent [OF sample_runs(2) m(1)] by blast
qed

theorem release_needs_approval_witness:
  "qs_log sample_released = [] @ LReleased sample_job # [LApproved ''plan-1'' ''s1'' ''repo.write''] \<and>
   LApproved (jb_planId sample_job) (ps_id (jb_step sample_job)) (ps_capability (jb_step sample_job)) \<in>
     set [LApproved ''plan-1'' ''s1'' ''repo.write'']"
  using release_needs_approval [OF sample_runs(2), of "[]" sample_job] sample_logs(1)
  by (simp add: sample_job_def sample_step_def)


theorem completion_authenticated_witness:
  "processMessage (sample_env sample_policy 3) False sample_completion sample_released =
   log (LMessage ''m2'' (DeadLettered ''metadata_mismatch'')) sample_released"
proof -
  have "map_option re_traceId (getRegistryEntry sample_released ''plan-1'' ''s1'') = Some ''t''" by code_simp
  then obtain r where "getRegistryEntry sample_released (cp_planId sample_completion) (cp_stepId sample_completion) = Some r"
    "re_traceId r = ''t''" by (auto simp: sample_completion_def)
  from completion_authenticated [OF this(1), of "sample_env sample_policy 3"] this(2) show ?thesis
    by (simp add: sample_completion_def receivedTraceId_def header_def)
qed

lemma sample_store_inv: "store_inv (qs_store sample_executing)" "store_inv (qs_store sample_two)"
proof -
  have "jwf (fs_records (qs_store sample_executing))" "jwf (fs_planRecords (qs_store sample_executing))"
    "fs_retentionMs (qs_store sample_executing) = None" by code_simp+
  then show "store_inv (qs_store sample_executing)" by (simp add: store_inv_def)
  have "jwf (fs_records (qs_store sample_two))" "jwf (fs_planRecords (qs_store sample_two))"
    "fs_retentionMs (qs_store sample_two) = None" by code_simp+
  then show "store_inv (qs_store sample_two)" by (simp add: store_inv_def)
qed

theorem tool_error_outcome_witness:
  "\<exists>reason. qs_log (handleToolError (sample_env sample_policy 4) \<lparr>sc_maxRetries = 0, sc_retryBackoffBaseMs = None\<rparr> sample_call
     True ''down'' sample_executing) = LMessage ''m1'' (DeadLettered reason) # qs_log sample_executing"
  using tool_error_outcome [OF sample_store_inv(1), of True sample_call "\<lparr>sc_maxRetries = 0, sc_retryBackoffBaseMs = None\<rparr>"]
  by (simp add: sample_call_def sample_job_def)

theorem completion_releases_next_witness:
  "\<exists>job. qs_log (step_completed (sample_env allow_all 2) ''plan-2'' ''s1'' sample_two) = LReleased job # qs_log sample_two \<and>
     jb_step job = free_step ''s2''"
proof -
  have facts: "plan_at (en_now (sample_env allow_all 2)) (qs_store sample_two) ''plan-2'' = Some sample_meta"
    "findIndex_step ''s1'' sample_meta = Some 0" "pm_lastCompletedIndex sample_meta = int 0 - 1"
    "pm_nextStepIndex sample_meta = int 0 + 1" "Suc 0 < length (pm_steps sample_meta)"
    "free_step ''s2'' = md_step (pm_steps sample_meta ! Suc 0)"
    "entry_at (en_now (sample_env allow_all 2)) (qs_store sample_two) ''plan-2'' (ps_id (free_step ''s2'')) = None"
    "map_of (qs_approvalCache sample_two) (toKey ''plan-2'' (ps_id (free_step ''s2''))) = None"
    "\<not> ps_approvalRequired (free_step ''s2'')"
    by code_simp+
  have "policy_check st (en_policy (sample_env allow_all 2) st p tr a su) = None" for st p tr a su
    by (simp add: sample_env_def allow_all_def policy_check_def Let_def)
  then show ?thesis
    using completion_releases_next [OF sample_store_inv(2) facts] by (fastforce simp: sample_env_def)
qed

theorem redelivered_step_dropped_witness:
  "pe_state sample_entry = StRunning \<and>
   qs_log (fst (handle_step (sample_env sample_policy 5) False sample_message sample_crashed)) =
     LMessage ''m1'' Acked # qs_log sample_crashed"
proof -
  have facts: "getRegistryEntry sample_crashed (pe_planId sample_entry) (ps_id (pe_step sample_entry)) = None"
    "entry_at (en_now (sample_env sample_policy 5)) (qs_store sample_crashed) (pe_planId sample_entry) (ps_id (pe_step sample_entry)) =
      Some sample_entry"
    "pe_state sample_entry = StRunning" "jb_attempt (received_job sample_message) \<le> pe_attempt sample_entry"
    "jb_planId (sm_payload sample_message) = pe_planId sample_entry" "jb_step (sm_payload sample_message) = pe_step sample_entry"
    "\<not> already_completed (ps_id (pe_step sample_entry))
      (plan_at (en_now (sample_env sample_policy 5)) (qs_store sample_crashed) (pe_planId sample_entry))"
    by code_simp+
  then show ?thesis using redelivered_step_dropped [OF facts] by (simp add: sample_message_def)
qed

end
