(* ===== verification/Json_Text.thy ===== *)
theory Json_Text
  imports Complex_Main Prelude
begin

text \<open>
  \<^verbatim>\<open>JSON.stringify\<close> and \<^verbatim>\<open>JSON.parse\<close>, as the components use them to persist their state
  and to build keys: a printer without white space, a parser of the whole grammar on the
  values of type \<^typ>\<open>json\<close>, and the round trip between them.  Numbers are integers (a
  fraction or an exponent has no value in the model) and characters have codes below 256.
  The parser is a recursive descent on the text with fuel; every two nested calls consume a
  character, so that twice the length of the text is enough (\<open>parse_fuel\<close>).
\<close>

section \<open>Numbers\<close>

text \<open>A JavaScript number: a finite one, an infinity or \<^verbatim>\<open>NaN\<close>.\<close>

datatype js_number = Finite rat | Infinite bool | NaN

section \<open>Printing\<close>

definition hex_char :: "nat \<Rightarrow> char" where
  "hex_char d = char_of (if d < 10 then 48 + d else 87 + d)"

definition escape_char :: "char \<Rightarrow> string" where
  "escape_char c =
     (let n = (of_char c :: nat) in
      if c = CHR 0x22 \<or> c = CHR 0x5C then [CHR 0x5C, c]
      else if n = 8 then [CHR 0x5C, CHR ''b'']
      else if n = 12 then [CHR 0x5C, CHR ''f'']
      else if n = 10 then [CHR 0x5C, CHR ''n'']
      else if n = 13 then [CHR 0x5C, CHR ''r'']
      else if n = 9 then [CHR 0x5C, CHR ''t'']
      else if n < 32 then [CHR 0x5C, CHR ''u'', CHR ''0'', CHR ''0'', hex_char (n div 16), hex_char (n mod 16)]
      else [c])"

definition quote_str :: "string \<Rightarrow> string" where
  "quote_str s = CHR 0x22 # concat (map escape_char s) @ [CHR 0x22]"

fun commas :: "string list \<Rightarrow> string" where
  "commas [] = []"
| "commas [x] = x"
| "commas (x # y # ys) = x @ CHR '','' # commas (y # ys)"

fun JSON_stringify :: "json \<Rightarrow> string" where
  "JSON_stringify JNull = ''null''"
| "JSON_stringify (JBool b) = (if b then ''true'' else ''false'')"
| "JSON_stringify (JNum i) = show_int i"
| "JSON_stringify (JStr s) = quote_str s"
| "JSON_stringify (JArr xs) = CHR ''['' # commas (map JSON_stringify xs) @ '']''"
| "JSON_stringify (JObj ms) =
     CHR 0x7B # commas (map (\<lambda>(k, v). quote_str k @ CHR '':'' # JSON_stringify v) ms) @ [CHR 0x7D]"

section \<open>Parsing\<close>

definition is_digit :: "char \<Rightarrow> bool" where
  "is_digit c \<longleftrightarrow> 48 \<le> (of_char c :: nat) \<and> (of_char c :: nat) \<le> 57"

definition digit_val :: "char \<Rightarrow> nat" where
  "digit_val c = of_char c - 48"

definition read_nat :: "string \<Rightarrow> nat" where
  "read_nat ds = foldl (\<lambda>a d. 10 * a + digit_val d) 0 ds"

definition is_ws :: "char \<Rightarrow> bool" where
  "is_ws c \<longleftrightarrow> of_char c \<in> {9, 10, 13, 32 :: nat}"

definition skip_ws :: "string \<Rightarrow> string" where
  "skip_ws s = dropWhile is_ws s"

text \<open>The digits of a number without leading zeros, and the rest of the text.\<close>

definition parse_digits :: "string \<Rightarrow> (nat \<times> string) option" where
  "parse_digits s =
     (case s of
        [] \<Rightarrow> None
      | c # cs \<Rightarrow> if \<not> is_digit c then None
                else if c = CHR ''0'' then Some (0, cs)
                else Some (read_nat (takeWhile is_digit s), dropWhile is_digit s))"

definition unhex :: "char \<Rightarrow> nat option" where
  "unhex c =
     (let n = (of_char c :: nat) in
      if 48 \<le> n \<and> n \<le> 57 then Some (n - 48)
      else if 97 \<le> n \<and> n \<le> 102 then Some (n - 87)
      else if 65 \<le> n \<and> n \<le> 70 then Some (n - 55)
      else None)"

definition unescape_char :: "char \<Rightarrow> char option" where
  "unescape_char c =
     (if c = CHR 0x22 \<or> c = CHR 0x5C \<or> c = CHR ''/'' then Some c
      else if c = CHR ''b'' then Some (char_of (8::nat))
      else if c = CHR ''f'' then Some (char_of (12::nat))
      else if c = CHR ''n'' then Some (char_of (10::nat))
      else if c = CHR ''r'' then Some (char_of (13::nat))
      else if c = CHR ''t'' then Some (char_of (9::nat))
      else None)"

definition unhex4 :: "char \<Rightarrow> char \<Rightarrow> char \<Rightarrow> char \<Rightarrow> char option" where
  "unhex4 a b c d =
     (case (unhex a, unhex b, unhex c, unhex d) of
        (Some 0, Some 0, Some h, Some l) \<Rightarrow> Some (char_of (16 * h + l))
      | _ \<Rightarrow> None)"

text \<open>The characters of a string literal after its opening quote.\<close>

fun parse_chars :: "string \<Rightarrow> (string \<times> string) option" where
  "parse_chars [] = None"
| "parse_chars (c # cs) =
     (if c = CHR 0x22 then Some ([], cs)
      else if c = CHR 0x5C then
        (case cs of
           [] \<Rightarrow> None
         | e # es \<Rightarrow>
             if e = CHR ''u'' then
               (case es of
                  h1 # h2 # h3 # h4 # r \<Rightarrow>
                    (case unhex4 h1 h2 h3 h4 of
                       None \<Rightarrow> None
                     | Some x \<Rightarrow> map_option (apfst (Cons x)) (parse_chars r))
                | _ \<Rightarrow> None)
             else (case unescape_char e of
                     None \<Rightarrow> None
                   | Some x \<Rightarrow> map_option (apfst (Cons x)) (parse_chars es)))
      else if (of_char c :: nat) < 32 then None
      else map_option (apfst (Cons c)) (parse_chars cs))"

definition parse_lit :: "string \<Rightarrow> json \<Rightarrow> string \<Rightarrow> (json \<times> string) option" where
  "parse_lit w j s = (if take (length w) s = w then Some (j, drop (length w) s) else None)"

definition parse_scalar :: "string \<Rightarrow> (json \<times> string) option" where
  "parse_scalar s =
     (case s of
        [] \<Rightarrow> None
      | c # cs \<Rightarrow>
          if c = CHR 0x22 then map_option (apfst JStr) (parse_chars cs)
          else if c = CHR ''n'' then parse_lit ''null'' JNull s
          else if c = CHR ''t'' then parse_lit ''true'' (JBool True) s
          else if c = CHR ''f'' then parse_lit ''false'' (JBool False) s
          else if c = CHR ''-'' then map_option (apfst (\<lambda>n. JNum (- int n))) (parse_digits cs)
          else map_option (apfst (\<lambda>n. JNum (int n))) (parse_digits s))"

fun parse_value :: "nat \<Rightarrow> string \<Rightarrow> (json \<times> string) option"
  and parse_elems :: "nat \<Rightarrow> string \<Rightarrow> (json list \<times> string) option"
  and parse_members :: "nat \<Rightarrow> (string \<times> json) list \<Rightarrow> string \<Rightarrow> ((string \<times> json) list \<times> string) option" where
  "parse_value 0 s = None"
| "parse_value (Suc n) s =
     (case skip_ws s of
        [] \<Rightarrow> None
      | c # cs \<Rightarrow>
          if c = CHR ''['' then
            (case skip_ws cs of
               [] \<Rightarrow> None
             | d # ds \<Rightarrow> if d = CHR '']'' then Some (JArr [], ds)
                       else map_option (apfst JArr) (parse_elems n (d # ds)))
          else if c = CHR 0x7B then
            (case skip_ws cs of
               [] \<Rightarrow> None
             | d # ds \<Rightarrow> if d = CHR 0x7D then Some (JObj [], ds)
                       else map_option (apfst JObj) (parse_members n [] (d # ds)))
          else parse_scalar (c # cs))"
| "parse_elems 0 s = None"
| "parse_elems (Suc n) s =
     (case parse_value n s of
        None \<Rightarrow> None
      | Some (v, r) \<Rightarrow>
          (case skip_ws r of
             [] \<Rightarrow> None
           | c # cs \<Rightarrow> if c = CHR '','' then map_option (apfst (Cons v)) (parse_elems n cs)
                     else if c = CHR '']'' then Some ([v], cs)
                     else None))"
| "parse_members 0 acc s = None"
| "parse_members (Suc n) acc s =
     (case skip_ws s of
        [] \<Rightarrow> None
      | q # qs \<Rightarrow>
          if q \<noteq> CHR 0x22 then None
          else (case parse_chars qs of
                  None \<Rightarrow> None
                | Some (k, r) \<Rightarrow>
                    (case skip_ws r of
                       [] \<Rightarrow> None
                     | p # ps \<Rightarrow>
                         if p \<noteq> CHR '':'' then None
                         else (case parse_value n ps of
                                 None \<Rightarrow> None
                               | Some (v, r') \<Rightarrow>
                                   (case skip_ws r' of
                                      [] \<Rightarrow> None
                                    | c # cs \<Rightarrow>
                                        if c = CHR '','' then parse_members n (jset k v acc) cs
                                        else if c = CHR 0x7D then Some (jset k v acc, cs)
                                        else None)))))"

text \<open>\<open>None\<close> stands for the thrown \<^verbatim>\<open>SyntaxError\<close>.\<close>

definition JSON_parse :: "string \<Rightarrow> json option" where
  "JSON_parse s =
     (case parse_value (2 * length s + 1) s of
        None \<Rightarrow> None
      | Some (j, r) \<Rightarrow> if skip_ws r = [] then Some j else None)"

section \<open>Access\<close>

text \<open>Property access \<^verbatim>\<open>x.f\<close> on a value that is not \<^verbatim>\<open>null\<close>, and \<^verbatim>\<open>x?.f\<close> on any value.\<close>

definition jfield :: "json \<Rightarrow> string \<Rightarrow> json option" where
  "jfield j f = (case j of JObj ms \<Rightarrow> map_of ms f | _ \<Rightarrow> None)"

text \<open>\<^verbatim>\<open>Boolean(x)\<close>.\<close>

definition truthy :: "json \<Rightarrow> bool" where
  "truthy j = (case j of JNull \<Rightarrow> False | JBool b \<Rightarrow> b | JNum i \<Rightarrow> i \<noteq> 0 | JStr s \<Rightarrow> s \<noteq> [] | _ \<Rightarrow> True)"

text \<open>An optional property of an object literal: \<^verbatim>\<open>undefined\<close> properties are not serialised.\<close>

definition opt_field :: "string \<Rightarrow> json option \<Rightarrow> (string \<times> json) list" where
  "opt_field f v = (case v of None \<Rightarrow> [] | Some j \<Rightarrow> [(f, j)])"

section \<open>Round trip\<close>

text \<open>JavaScript objects have no duplicate keys.\<close>

fun json_wf :: "json \<Rightarrow> bool" where
  "json_wf (JArr xs) = (\<forall>x\<in>set xs. json_wf x)"
| "json_wf (JObj ms) = (jwf ms \<and> (\<forall>(k, v)\<in>set ms. json_wf v))"
| "json_wf _ = True"

lemma is_digit_char: "(d::nat) < 10 \<Longrightarrow> is_digit (char_of (48 + d))"
  by (simp add: is_digit_def)

lemma digit_val_char: "(d::nat) < 10 \<Longrightarrow> digit_val (char_of (48 + d)) = d"
  by (simp add: digit_val_def)

lemma read_nat_snoc: "read_nat (ds @ [d]) = 10 * read_nat ds + digit_val d"
  by (simp add: read_nat_def)

lemma show_nat_digits: "\<forall>c\<in>set (show_nat n). is_digit c"
proof (induction n rule: show_nat.induct)
  case (1 n)
  then show ?case by (subst show_nat.simps) (auto simp: is_digit_char)
qed

lemma read_show_nat: "read_nat (show_nat n) = n"
proof (induction n rule: show_nat.induct)
  case (1 n)
  then show ?case
    by (subst show_nat.simps) (auto simp: read_nat_snoc digit_val_char, simp add: read_nat_def digit_val_char)
qed

lemma show_nat_ne [simp]: "show_nat n \<noteq> []"
  by (subst show_nat.simps) simp

lemma show_nat_hd_zero: "hd (show_nat n) = CHR ''0'' \<Longrightarrow> n = 0"
proof (induction n rule: show_nat.induct)
  case (1 n)
  show ?case
  proof (cases "n < 10")
    case True
    with 1(2) have "char_of (48 + n) = CHR ''0''" by (simp add: show_nat.simps [of n])
    then have "(of_char (char_of (48 + n) :: char) :: nat) = of_char CHR ''0''" by (rule arg_cong)
    with True show ?thesis by simp
  next
    case False
    then have "hd (show_nat (n div 10)) = CHR ''0''" using 1(2) by (simp add: show_nat.simps [of n])
    with 1(1) False show ?thesis by simp
  qed
qed

definition stops :: "string \<Rightarrow> bool" where
  "stops r \<longleftrightarrow> (case r of [] \<Rightarrow> True | c # _ \<Rightarrow> \<not> is_digit c)"

lemma parse_digits_show:
  assumes "stops r"
  shows "parse_digits (show_nat n @ r) = Some (n, r)"
proof -
  obtain c cs where s: "show_nat n = c # cs" by (cases "show_nat n") auto
  have d: "is_digit c" using show_nat_digits [of n] s by simp
  show ?thesis
  proof (cases "c = CHR ''0''")
    case True
    then have "n = 0" using show_nat_hd_zero [of n] s by simp
    then show ?thesis using s True d by (auto simp: parse_digits_def show_nat.simps [of 0])
  next
    case False
    have "takeWhile is_digit (show_nat n @ r) = show_nat n" "dropWhile is_digit (show_nat n @ r) = r"
      using assms show_nat_digits [of n]
      by (auto simp: stops_def takeWhile_append dropWhile_append split: list.splits)
    with s d False show ?thesis using read_show_nat [of n] by (simp add: parse_digits_def)
  qed
qed

lemma unhex_char: "d < 16 \<Longrightarrow> unhex (hex_char d) = Some d"
  by (auto simp: unhex_def hex_char_def Let_def)

lemma unhex4_control: "n < 32 \<Longrightarrow> unhex4 CHR ''0'' CHR ''0'' (hex_char (n div 16)) (hex_char (n mod 16)) = Some (char_of n)"
proof -
  assume "n < 32"
  then have "unhex (hex_char (n div 16)) = Some (n div 16)" "unhex (hex_char (n mod 16)) = Some (n mod 16)"
    by (simp_all add: unhex_char)
  moreover have "unhex CHR ''0'' = Some 0" by (simp add: unhex_def)
  ultimately show ?thesis by (simp add: unhex4_def)
qed

lemma of_char_eq: "(of_char c :: nat) = n \<Longrightarrow> c = char_of n"
  by (metis char_of_char)

lemma parse_escaped:
  "parse_chars (escape_char c @ r) = map_option (apfst (Cons c)) (parse_chars r)"
proof -
  consider (special) "c = CHR 0x22 \<or> c = CHR 0x5C"
    | (named) "c \<noteq> CHR 0x22" "c \<noteq> CHR 0x5C" "of_char c \<in> {8, 9, 10, 12, 13 :: nat}"
    | (control) "c \<noteq> CHR 0x22" "c \<noteq> CHR 0x5C" "of_char c \<notin> {8, 9, 10, 12, 13 :: nat}" "(of_char c :: nat) < 32"
    | (plain) "c \<noteq> CHR 0x22" "c \<noteq> CHR 0x5C" "\<not> (of_char c :: nat) < 32"
    by blast
  then show ?thesis
  proof cases
    case special
    then show ?thesis by (auto simp: escape_char_def unescape_char_def Let_def)
  next
    case named
    then consider "c = char_of (8::nat)" | "c = char_of (9::nat)" | "c = char_of (10::nat)"
      | "c = char_of (12::nat)" | "c = char_of (13::nat)"
      by (auto dest: of_char_eq)
    then show ?thesis by cases (simp_all add: escape_char_def unescape_char_def Let_def)
  next
    case control
    then show ?thesis using unhex4_control [of "of_char c"] by (simp add: escape_char_def Let_def)
  next
    case plain
    then show ?thesis by (simp add: escape_char_def Let_def)
  qed
qed

lemma parse_quoted: "parse_chars (concat (map escape_char s) @ CHR 0x22 # r) = Some (s, r)"
  by (induction s) (simp_all add: parse_escaped)

lemma skip_ws_cons [simp]: "\<not> is_ws c \<Longrightarrow> skip_ws (c # cs) = c # cs"
  by (simp add: skip_ws_def)

lemma not_ws [simp]:
  "\<not> is_ws CHR 0x22" "\<not> is_ws CHR '',''" "\<not> is_ws CHR '']''" "\<not> is_ws CHR 0x7D" "\<not> is_ws CHR '':''"
  "\<not> is_ws CHR ''[''" "\<not> is_ws CHR 0x7B" "\<not> is_ws CHR ''-''" "\<not> is_ws CHR ''n''" "\<not> is_ws CHR ''t''"
  "\<not> is_ws CHR ''f''"
  by (simp_all add: is_ws_def)

lemma stops_cons [simp]: "stops (CHR '','' # r)" "stops (CHR '']'' # r)" "stops (CHR 0x7D # r)" "stops []"
  by (simp_all add: stops_def is_digit_def)

definition starts_scalar :: "char \<Rightarrow> bool" where
  "starts_scalar c \<longleftrightarrow> \<not> is_ws c \<and> c \<notin> {CHR ''['', CHR '']'', CHR 0x7B, CHR 0x7D}"

lemma starts_digit: "is_digit c \<Longrightarrow>
    starts_scalar c \<and> c \<notin> {CHR 0x22, CHR ''n'', CHR ''t'', CHR ''f'', CHR ''-''}"
  by (auto simp: is_digit_def starts_scalar_def is_ws_def)

lemma show_nat_cons: "\<exists>c cs. show_nat n = c # cs \<and> is_digit c"
  using show_nat_digits [of n] by (cases "show_nat n") auto

lemma parse_value_scalar:
  "starts_scalar c \<Longrightarrow> parse_value (Suc n) (c # cs) = parse_scalar (c # cs)"
  by (simp add: starts_scalar_def)

lemma parse_value_num:
  assumes "stops r"
  shows "parse_value (Suc n) (show_int i @ r) = Some (JNum i, r)"
proof (cases "i < 0")
  case True
  have "starts_scalar CHR ''-''" by (simp add: starts_scalar_def)
  with True show ?thesis using parse_digits_show [OF assms, of "nat (- i)"]
    by (simp add: show_int_def parse_value_scalar parse_scalar_def del: parse_value.simps)
next
  case False
  obtain c cs where c: "show_nat (nat i) = c # cs" "is_digit c" using show_nat_cons by blast
  with False show ?thesis
    using parse_digits_show [OF assms, of "nat i"] starts_digit [OF c(2)]
    by (simp add: show_int_def parse_value_scalar parse_scalar_def del: parse_value.simps)
qed

lemma JSON_stringify_head: "\<exists>c cs. JSON_stringify j = c # cs \<and> \<not> is_ws c \<and> c \<noteq> CHR '']''"
proof (cases j)
  case (JNum i)
  obtain c cs where "show_nat (nat i) = c # cs" "is_digit c" using show_nat_cons by blast
  then show ?thesis using JNum starts_digit [of c] by (auto simp: show_int_def starts_scalar_def)
qed (auto simp: quote_str_def)

lemma parse_value_head:
  assumes "xs \<noteq> []"
  shows "\<exists>c cs. commas (map JSON_stringify xs) = c # cs \<and> \<not> is_ws c \<and> c \<noteq> CHR '']''"
proof -
  obtain x ys where xs: "xs = x # ys" using assms by (cases xs) auto
  obtain c cs where c: "JSON_stringify x = c # cs" "\<not> is_ws c" "c \<noteq> CHR '']''"
    using JSON_stringify_head by blast
  show ?thesis using c by (cases ys) (auto simp: xs)
qed

text \<open>What the parser does on the text of one value, whatever follows.\<close>

definition parses_back :: "json \<Rightarrow> bool" where
  "parses_back j \<longleftrightarrow> (\<forall>n r. 2 * length (JSON_stringify j) \<le> n \<longrightarrow> stops r \<longrightarrow>
     parse_value (Suc n) (JSON_stringify j @ r) = Some (j, r))"

lemma parses_backD:
  "parses_back j \<Longrightarrow> 2 * length (JSON_stringify j) < n \<Longrightarrow> stops r \<Longrightarrow>
     parse_value n (JSON_stringify j @ r) = Some (j, r)"
  by (cases n) (auto simp: parses_back_def simp del: parse_value.simps)

lemma parse_elems_back:
  "xs \<noteq> [] \<Longrightarrow> (\<And>x. x \<in> set xs \<Longrightarrow> parses_back x) \<Longrightarrow>
     2 * length (commas (map JSON_stringify xs)) + 1 < n \<Longrightarrow>
     parse_elems n (commas (map JSON_stringify xs) @ CHR '']'' # r) = Some (xs, r)"
proof (induction xs arbitrary: n rule: induct_list012)
  case (2 x)
  then obtain m where "n = Suc m" by (cases n) auto
  with 2 show ?case by (simp add: parses_backD)
next
  case (3 x y zs)
  then obtain m where m: "n = Suc m" by (cases n) auto
  have "parse_elems m (commas (map JSON_stringify (y # zs)) @ CHR '']'' # r) = Some (y # zs, r)"
    using 3 m by (intro "3.IH"(2)) auto
  moreover have "parse_value m (JSON_stringify x @ CHR '','' # commas (map JSON_stringify (y # zs)) @ CHR '']'' # r) =
      Some (x, CHR '','' # commas (map JSON_stringify (y # zs)) @ CHR '']'' # r)"
    using 3 m by (intro parses_backD) auto
  ultimately show ?case by (simp add: m)
qed simp

definition member_text :: "string \<times> json \<Rightarrow> string" where
  "member_text = (\<lambda>(k, v). quote_str k @ CHR '':'' # JSON_stringify v)"

lemma parse_member:
  assumes "parses_back v" and "2 * length (member_text (k, v)) \<le> Suc n" and "stops (c # cs)" and "\<not> is_ws c"
  shows "parse_members (Suc n) acc (member_text (k, v) @ c # cs) =
    (if c = CHR '','' then parse_members n (jset k v acc) cs
     else if c = CHR 0x7D then Some (jset k v acc, cs) else None)"
proof -
  have "parse_value n (JSON_stringify v @ c # cs) = Some (v, c # cs)"
    using assms by (intro parses_backD) (auto simp: member_text_def quote_str_def)
  moreover have "parse_chars (concat (map escape_char k) @ CHR 0x22 # CHR '':'' # JSON_stringify v @ c # cs) =
      Some (k, CHR '':'' # JSON_stringify v @ c # cs)"
    by (rule parse_quoted)
  ultimately show ?thesis using assms(4) by (simp add: member_text_def quote_str_def)
qed

lemma parse_members_back:
  "ms \<noteq> [] \<Longrightarrow> \<forall>m\<in>set ms. parses_back (snd m) \<Longrightarrow> jwf (acc @ ms) \<Longrightarrow>
     2 * length (commas (map member_text ms)) + 1 < n \<Longrightarrow>
     parse_members n acc (commas (map member_text ms) @ CHR 0x7D # r) = Some (acc @ ms, r)"
proof (induction ms arbitrary: n acc rule: induct_list012)
  case (2 m)
  obtain k v where "m = (k, v)" by (cases m)
  moreover obtain n' where "n = Suc n'" using 2 by (cases n) auto
  ultimately show ?case using 2 by (simp add: parse_member jset_new del: parse_members.simps)
next
  case (3 m m' ms)
  obtain k v where m: "m = (k, v)" by (cases m)
  obtain n' where n: "n = Suc n'" using 3 by (cases n) auto
  have "parse_members n' (acc @ [m]) (commas (map member_text (m' # ms)) @ CHR 0x7D # r) =
      Some ((acc @ [m]) @ m' # ms, r)"
    using 3 n by (intro "3.IH"(2)) auto
  moreover have "jset k v acc = acc @ [(k, v)]" using 3 m by (intro jset_new) auto
  ultimately show ?case using 3 by (simp add: m n parse_member del: parse_members.simps)
qed simp

lemma member_texts_head: "ms \<noteq> [] \<Longrightarrow> \<exists>cs. commas (map member_text ms) = CHR 0x22 # cs"
  by (induction ms rule: induct_list012) (auto simp: member_text_def quote_str_def)

lemma JSON_stringify_obj:
  "JSON_stringify (JObj ms) = CHR 0x7B # commas (map member_text ms) @ [CHR 0x7D]"
  by (simp add: member_text_def)

lemma parses_back: "json_wf j \<Longrightarrow> parses_back j"
proof (induction j rule: json_wf.induct)
  case (1 xs)
  show ?case
  proof (cases "xs = []")
    case True
    then show ?thesis by (simp add: parses_back_def)
  next
    case False
    then obtain c cs where c: "commas (map JSON_stringify xs) = c # cs" "\<not> is_ws c" "c \<noteq> CHR '']''"
      using parse_value_head by blast
    have "parse_elems n (commas (map JSON_stringify xs) @ CHR '']'' # r) = Some (xs, r)"
      if "2 * length (JSON_stringify (JArr xs)) \<le> n" for n r
      using False 1 that by (intro parse_elems_back) auto
    with c show ?thesis by (simp add: parses_back_def)
  qed
next
  case (2 ms)
  show ?case
  proof (cases "ms = []")
    case True
    then show ?thesis by (simp add: parses_back_def)
  next
    case False
    then obtain cs where c: "commas (map member_text ms) = CHR 0x22 # cs"
      using member_texts_head by blast
    have "parse_members n [] (commas (map member_text ms) @ CHR 0x7D # r) = Some ([] @ ms, r)"
      if "2 * length (JSON_stringify (JObj ms)) \<le> n" for n r
      using False 2 that by (intro parse_members_back) (auto simp: JSON_stringify_obj simp del: JSON_stringify.simps)
    with c show ?thesis
      by (simp add: parses_back_def JSON_stringify_obj del: JSON_stringify.simps)
  qed
next
  case "3_1"
  then show ?case by (simp add: parses_back_def parse_scalar_def parse_lit_def)
next
  case "3_2"
  then show ?case by (simp add: parses_back_def parse_scalar_def parse_lit_def)
next
  case "3_3"
  then show ?case by (simp add: parses_back_def parse_value_num del: parse_value.simps)
next
  case "3_4"
  then show ?case by (simp add: parses_back_def quote_str_def parse_scalar_def parse_quoted)
qed

text \<open>Reading back what was written yields the value.\<close>

lemma JSON_roundtrip: "json_wf j \<Longrightarrow> JSON_parse (JSON_stringify j) = Some j"
proof -
  assume "json_wf j"
  then have "parse_value (2 * length (JSON_stringify j) + 1) (JSON_stringify j @ []) = Some (j, [])"
    by (intro parses_backD parses_back) simp_all
  then show ?thesis by (simp only: JSON_parse_def append_Nil2) (simp add: skip_ws_def)
qed

lemma JSON_stringify_inject:
  "json_wf i \<Longrightarrow> json_wf j \<Longrightarrow> JSON_stringify i = JSON_stringify j \<longleftrightarrow> i = j"
  by (metis JSON_roundtrip option.inject)

section \<open>The fuel is enough\<close>

lemma skip_ws_length: "skip_ws s = c # cs \<Longrightarrow> length cs < length s"
  using length_dropWhile_le [of is_ws s] by (simp add: skip_ws_def)

lemma parse_chars_shorter: "parse_chars s = Some (x, r) \<Longrightarrow> length r < length s"
  by (induction s arbitrary: x r rule: parse_chars.induct)
     (fastforce split: if_splits list.splits option.splits)+

lemma parse_digits_shorter: "parse_digits s = Some (x, r) \<Longrightarrow> length r < length s"
  using length_dropWhile_le [of is_digit "tl s"]
  by (auto simp: parse_digits_def split: list.splits if_splits)

lemma parse_scalar_shorter: "parse_scalar s = Some (x, r) \<Longrightarrow> length r < length s"
  by (auto simp: parse_scalar_def parse_lit_def dest!: parse_chars_shorter parse_digits_shorter
      split: list.splits if_splits)

lemmas parse_induct = parse_value_parse_elems_parse_members.induct

lemma parse_shorter:
  "parse_value n s = Some (j, r) \<Longrightarrow> length r < length s"
  "parse_elems n s = Some (js, r) \<Longrightarrow> length r < length s"
  "parse_members n acc s = Some (ms, r) \<Longrightarrow> length r < length s"
proof (induction n s and n s and n acc s arbitrary: j r and js r and ms r rule: parse_induct)
  case (2 n s)
  then show ?case
    by (fastforce dest: skip_ws_length parse_scalar_shorter split: list.splits if_splits)
next
  case (4 n s)
  then show ?case by (fastforce dest: skip_ws_length split: list.splits if_splits option.splits)
next
  case (6 n acc s)
  then show ?case
    by (fastforce dest: skip_ws_length parse_chars_shorter split: list.splits if_splits option.splits)
qed simp_all

lemma parse_more_fuel:
  "2 * length s < n \<Longrightarrow> parse_value (Suc n) s = parse_value n s"
  "2 * length s + 1 < n \<Longrightarrow> parse_elems (Suc n) s = parse_elems n s"
  "2 * length s + 1 < n \<Longrightarrow> parse_members (Suc n) acc s = parse_members n acc s"
proof (induction n s and n s and n acc s rule: parse_induct)
  case (2 n s)
  show ?case
  proof (cases "skip_ws s")
    case Nil
    then show ?thesis by simp
  next
    case (Cons c cs)
    have "parse_elems (Suc n) (d # ds) = parse_elems n (d # ds)" if "skip_ws cs = d # ds" "c = CHR ''[''" "d \<noteq> CHR '']''" for d ds
      using 2 Cons that skip_ws_length [of s c cs] skip_ws_length [of cs d ds] by simp
    moreover have "parse_members (Suc n) [] (d # ds) = parse_members n [] (d # ds)"
      if "skip_ws cs = d # ds" "c = CHR 0x7B" "d \<noteq> CHR 0x7D" for d ds
      using 2 Cons that skip_ws_length [of s c cs] skip_ws_length [of cs d ds] by simp
    ultimately show ?thesis using Cons
      by (simp del: parse_elems.simps parse_members.simps split: list.split)
  qed
next
  case (4 n s)
  have v: "parse_value (Suc n) s = parse_value n s" using 4 by simp
  have "parse_elems (Suc n) cs = parse_elems n cs"
    if "parse_value n s = Some (x, r)" "skip_ws r = c # cs" "c = CHR '',''" for x r c cs
    using 4 that skip_ws_length [of r c cs] parse_shorter(1) [of n s x r] by simp
  with v show ?case
    by (simp del: parse_value.simps parse_elems.simps add: parse_elems.simps(2) split: option.split list.split prod.split)
next
  case (6 n acc s)
  have m: "parse_value (Suc n) ps = parse_value n ps \<and>
      (\<forall>v r' cs. parse_value n ps = Some (v, r') \<longrightarrow> skip_ws r' = CHR '','' # cs \<longrightarrow>
        parse_members (Suc n) (jset k v acc) cs = parse_members n (jset k v acc) cs)"
    if "skip_ws s = CHR 0x22 # qs" "parse_chars qs = Some (k, r)" "skip_ws r = CHR '':'' # ps" for qs k r ps
  proof -
    have l: "length qs < length s" "length r < length qs" "length ps < length r"
      using that skip_ws_length parse_chars_shorter by blast+
    have "parse_members (Suc n) (jset k v acc) cs = parse_members n (jset k v acc) cs"
      if "parse_value n ps = Some (v, r')" "skip_ws r' = CHR '','' # cs" for v r' cs
      using 6 \<open>skip_ws s = _\<close> \<open>parse_chars qs = _\<close> \<open>skip_ws r = _\<close> that l
        skip_ws_length [of r' "CHR '',''" cs] parse_shorter(1) [of n ps v r'] by simp
    then show ?thesis using 6 that l by simp
  qed
  show ?case
    using m
    by (simp del: parse_value.simps parse_members.simps add: parse_members.simps(2) split: option.split list.split prod.split)
qed simp_all

text \<open>More fuel than \<^verbatim>\<open>JSON_parse\<close> provides never changes its result: \<open>None\<close> is a syntax error.\<close>

lemma parse_fuel: "parse_value (2 * length s + 1 + k) s = parse_value (2 * length s + 1) s"
  by (induction k) (simp_all add: parse_more_fuel(1) del: parse_value.simps)

end
