(* ===== verification/Policy_Cache.thy ===== *)
theory Policy_Cache
  imports Json_Text "HOL-Library.List_Lexorder" "HOL-Library.Char_ord"
begin

text \<open>
  The cache of policy decisions, \<^verbatim>\<open>services/orchestrator/src/policy/PolicyCache.ts\<close>: the
  in-memory cache with time-to-live and least-recently-used eviction, the cache with Redis as
  second level, and the canonical serialisation that makes the cache key.  The Redis server is
  outside: its replies are arguments, and what is sent to it is a list of commands.  The order
  of property names, \<^verbatim>\<open>localeCompare\<close>, depends on the host's locale and is an argument \<open>le\<close>.
\<close>

section \<open>The memory cache\<close>

record 'd MemoryCacheEntry =
  ce_expiresAt :: time
  ce_decision :: 'd

record 'd MemoryPolicyDecisionCache =
  mc_ttlMs :: int
  mc_maxEntries :: int
  mc_entries :: "(string, 'd MemoryCacheEntry) jsmap"

definition MIN_TTL_SECONDS :: int where
  "MIN_TTL_SECONDS = 1"

definition MIN_MAX_ENTRIES :: int where
  "MIN_MAX_ENTRIES = 1"

definition new_memory_cache :: "int \<Rightarrow> int \<Rightarrow> 'd MemoryPolicyDecisionCache" where
  "new_memory_cache ttlSeconds maxEntries =
     \<lparr>mc_ttlMs = max MIN_TTL_SECONDS ttlSeconds * 1000,
      mc_maxEntries = max MIN_MAX_ENTRIES maxEntries, mc_entries = []\<rparr>"

definition pruneExpired :: "time \<Rightarrow> 'd MemoryPolicyDecisionCache \<Rightarrow> 'd MemoryPolicyDecisionCache" where
  "pruneExpired now c = c\<lparr>mc_entries := filter (\<lambda>(k, e). \<not> ce_expiresAt e \<le> now) (mc_entries c)\<rparr>"

text \<open>The loop of \<^verbatim>\<open>ensureCapacity\<close> over the keys, oldest first.\<close>

fun evict_keys :: "int \<Rightarrow> string list \<Rightarrow> (string, 'v) jsmap \<Rightarrow> (string, 'v) jsmap" where
  "evict_keys remaining [] m = m"
| "evict_keys remaining (k # ks) m =
     (let m' = jdelete k m; remaining' = remaining - 1
      in if remaining' \<le> 0 then m' else evict_keys remaining' ks m')"

definition ensureCapacity :: "'d MemoryPolicyDecisionCache \<Rightarrow> 'd MemoryPolicyDecisionCache" where
  "ensureCapacity c =
     (if int (length (mc_entries c)) \<le> mc_maxEntries c then c
      else let excess = int (length (mc_entries c)) - mc_maxEntries c
           in c\<lparr>mc_entries := evict_keys excess (jkeys (mc_entries c)) (mc_entries c)\<rparr>)"

definition cache_get ::
  "time \<Rightarrow> string \<Rightarrow> 'd MemoryPolicyDecisionCache \<Rightarrow> 'd MemoryPolicyDecisionCache \<times> 'd option" where
  "cache_get now key c =
     (let c1 = pruneExpired now c in
      case map_of (mc_entries c1) key of
        None \<Rightarrow> (c1, None)
      | Some e \<Rightarrow>
          if ce_expiresAt e \<le> now then (c1\<lparr>mc_entries := jdelete key (mc_entries c1)\<rparr>, None)
          else (c1\<lparr>mc_entries := jset key e (jdelete key (mc_entries c1))\<rparr>, Some (ce_decision e)))"

definition cache_set ::
  "time \<Rightarrow> string \<Rightarrow> 'd \<Rightarrow> 'd MemoryPolicyDecisionCache \<Rightarrow> 'd MemoryPolicyDecisionCache" where
  "cache_set now key d c =
     (let c1 = pruneExpired now c;
          es = (if jhas (mc_entries c1) key then jdelete key (mc_entries c1) else mc_entries c1)
      in ensureCapacity (c1\<lparr>mc_entries := jset key \<lparr>ce_expiresAt = now + mc_ttlMs c, ce_decision = d\<rparr> es\<rparr>))"

definition cache_invalidate :: "string \<Rightarrow> 'd MemoryPolicyDecisionCache \<Rightarrow> 'd MemoryPolicyDecisionCache" where
  "cache_invalidate key c = c\<lparr>mc_entries := jdelete key (mc_entries c)\<rparr>"

definition cache_close :: "'d MemoryPolicyDecisionCache \<Rightarrow> 'd MemoryPolicyDecisionCache" where
  "cache_close c = c\<lparr>mc_entries := []\<rparr>"

section \<open>The cache with Redis as second level\<close>

record RedisPolicyDecisionCache =
  rc_keyPrefix :: string
  rc_ttlSeconds :: int
  rc_enableInvalidation :: bool
  rc_invalidationChannel :: string
  rc_instanceId :: string
  rc_memory :: "json MemoryPolicyDecisionCache"
  rc_closed :: bool

datatype redis_command =
    RedisSet string string int
  | RedisPublish string string

text \<open>What \<^verbatim>\<open>getClient\<close> and the command yield: no connection, an error, or a reply.\<close>

datatype 'r redis_outcome = NoClient | RedisError | RedisReply 'r

definition DEFAULT_INVALIDATION_CHANNEL :: string where
  "DEFAULT_INVALIDATION_CHANNEL = ''policy:cache:invalidate''"

definition new_redis_cache :: "string \<Rightarrow> int \<Rightarrow> int \<Rightarrow> bool \<Rightarrow> string \<Rightarrow> RedisPolicyDecisionCache" where
  "new_redis_cache keyPrefix ttlSeconds maxEntries enableInvalidation instanceId =
     \<lparr>rc_keyPrefix = keyPrefix, rc_ttlSeconds = max MIN_TTL_SECONDS ttlSeconds,
      rc_enableInvalidation = enableInvalidation,
      rc_invalidationChannel = (if keyPrefix \<noteq> [] then keyPrefix @ '':invalidate'' else DEFAULT_INVALIDATION_CHANNEL),
      rc_instanceId = instanceId,
      rc_memory = new_memory_cache (max MIN_TTL_SECONDS ttlSeconds) maxEntries, rc_closed = False\<rparr>"

definition formatKey :: "RedisPolicyDecisionCache \<Rightarrow> string \<Rightarrow> string" where
  "formatKey c key = (if rc_keyPrefix c = [] then key else rc_keyPrefix c @ '':'' @ key)"

definition invalidation_json :: "string \<Rightarrow> string \<Rightarrow> json" where
  "invalidation_json key source = JObj [(''key'', JStr key), (''sourceInstanceId'', JStr source)]"

text \<open>The commands of \<^verbatim>\<open>publishInvalidation\<close> when a client is available.\<close>

definition publishInvalidation :: "RedisPolicyDecisionCache \<Rightarrow> string \<Rightarrow> redis_command list" where
  "publishInvalidation c key =
     (if \<not> rc_enableInvalidation c \<or> rc_closed c then []
      else [RedisPublish (rc_invalidationChannel c) (JSON_stringify (invalidation_json key (rc_instanceId c)))])"

definition redis_get ::
  "time \<Rightarrow> string \<Rightarrow> string option redis_outcome \<Rightarrow> RedisPolicyDecisionCache \<Rightarrow> RedisPolicyDecisionCache \<times> json option" where
  "redis_get now key reply c =
     (let (m, hit) = cache_get now key (rc_memory c); c1 = c\<lparr>rc_memory := m\<rparr>
      in if (case hit of None \<Rightarrow> False | Some d \<Rightarrow> truthy d) then (c1, hit)
         else if rc_closed c then (c1, None)
         else (case reply of
                 RedisReply (Some raw) \<Rightarrow>
                   if raw = [] then (c1, None)
                   else (case JSON_parse raw of
                           None \<Rightarrow> (c1, None)
                         | Some d \<Rightarrow> (c1\<lparr>rc_memory := cache_set now key d m\<rparr>, Some d))
               | _ \<Rightarrow> (c1, None)))"

definition redis_set ::
  "time \<Rightarrow> string \<Rightarrow> json \<Rightarrow> unit redis_outcome \<Rightarrow> RedisPolicyDecisionCache
     \<Rightarrow> RedisPolicyDecisionCache \<times> redis_command list" where
  "redis_set now key d outcome c =
     (let c1 = c\<lparr>rc_memory := cache_set now key d (rc_memory c)\<rparr>
      in if rc_closed c then (c1, [])
         else (case outcome of
                 NoClient \<Rightarrow> (c1, [])
               | RedisError \<Rightarrow> (c1, [RedisSet (formatKey c key) (JSON_stringify d) (rc_ttlSeconds c)])
               | RedisReply _ \<Rightarrow>
                   (c1, RedisSet (formatKey c key) (JSON_stringify d) (rc_ttlSeconds c) # publishInvalidation c key)))"

text \<open>The subscriber's callback; a message that is not a JSON object with the two strings is
  dropped.\<close>

definition on_invalidation :: "string \<Rightarrow> RedisPolicyDecisionCache \<Rightarrow> RedisPolicyDecisionCache" where
  "on_invalidation rawMessage c =
     (case JSON_parse rawMessage of
        None \<Rightarrow> c
      | Some j \<Rightarrow>
          (case (jfield j ''key'', jfield j ''sourceInstanceId'') of
             (Some (JStr key), Some (JStr source)) \<Rightarrow>
               if source = rc_instanceId c then c
               else c\<lparr>rc_memory := cache_invalidate key (rc_memory c)\<rparr>
           | _ \<Rightarrow> c))"

definition redis_close :: "RedisPolicyDecisionCache \<Rightarrow> RedisPolicyDecisionCache" where
  "redis_close c = c\<lparr>rc_closed := True, rc_memory := cache_close (rc_memory c)\<rparr>"

section \<open>Construction from the configuration\<close>

definition sanitizePositiveInteger :: "js_number \<Rightarrow> int \<Rightarrow> int" where
  "sanitizePositiveInteger value minimum =
     (case value of Finite r \<Rightarrow> (let normalized = \<lfloor>r\<rfloor> in if normalized < minimum then minimum else normalized)
      | _ \<Rightarrow> minimum)"

record PolicyCacheConfig =
  pc_enabled :: bool
  pc_ttlSeconds :: js_number
  pc_maxEntries :: js_number
  pc_provider :: "string option"
  pc_redisUrl :: "string option"
  pc_redisPrefix :: "string option"

datatype PolicyDecisionCache =
    NoCache
  | MemoryCache "json MemoryPolicyDecisionCache"
  | RedisCache RedisPolicyDecisionCache

definition DEFAULT_REDIS_KEY_PREFIX :: string where
  "DEFAULT_REDIS_KEY_PREFIX = ''policy:decision''"

definition createPolicyDecisionCache ::
  "string \<Rightarrow> PolicyCacheConfig option \<Rightarrow> string + PolicyDecisionCache" where
  "createPolicyDecisionCache instanceId config =
     (case config of
        None \<Rightarrow> Inr NoCache
      | Some cfg \<Rightarrow>
          if \<not> pc_enabled cfg then Inr NoCache
          else let ttlSeconds = sanitizePositiveInteger (pc_ttlSeconds cfg) MIN_TTL_SECONDS;
                   maxEntries = sanitizePositiveInteger (pc_maxEntries cfg) MIN_MAX_ENTRIES;
                   provider = (case pc_provider cfg of Some p \<Rightarrow> p | None \<Rightarrow> ''memory'')
               in if provider = ''redis''
                  then (case pc_redisUrl cfg of
                          None \<Rightarrow> Inl ''Redis policy cache provider requires redis.url to be configured''
                        | Some url \<Rightarrow>
                            if url = [] then Inl ''Redis policy cache provider requires redis.url to be configured''
                            else Inr (RedisCache (new_redis_cache
                              (case pc_redisPrefix cfg of Some p \<Rightarrow> p | None \<Rightarrow> DEFAULT_REDIS_KEY_PREFIX)
                              ttlSeconds maxEntries True instanceId)))
                  else Inr (MemoryCache (new_memory_cache ttlSeconds maxEntries)))"

section \<open>The cache key\<close>

text \<open>\<^verbatim>\<open>Array.prototype.sort\<close> is stable: an insertion sort.\<close>

fun insert_entry :: "(string \<Rightarrow> string \<Rightarrow> bool) \<Rightarrow> string \<times> 'v \<Rightarrow> (string \<times> 'v) list \<Rightarrow> (string \<times> 'v) list" where
  "insert_entry le x [] = [x]"
| "insert_entry le x (y # ys) = (if le (fst x) (fst y) then x # y # ys else y # insert_entry le x ys)"

definition sort_entries :: "(string \<Rightarrow> string \<Rightarrow> bool) \<Rightarrow> (string \<times> 'v) list \<Rightarrow> (string \<times> 'v) list" where
  "sort_entries le xs = foldr (insert_entry le) xs []"

fun stableSerialize :: "(string \<Rightarrow> string \<Rightarrow> bool) \<Rightarrow> json \<Rightarrow> string" where
  "stableSerialize le (JArr xs) = ''['' @ commas (map (stableSerialize le) xs) @ '']''"
| "stableSerialize le (JObj ms) =
     [CHR 0x7B] @
     commas (map (\<lambda>(k, t). JSON_stringify (JStr k) @ '':'' @ t)
       (sort_entries le (map (\<lambda>(k, v). (k, stableSerialize le v)) ms))) @ [CHR 0x7D]"
| "stableSerialize le v = JSON_stringify v"

definition buildPolicyCacheKey :: "(string \<Rightarrow> string \<Rightarrow> bool) \<Rightarrow> json \<Rightarrow> string" where
  "buildPolicyCacheKey le input = stableSerialize le input"

section \<open>Properties of the memory cache\<close>

lemma evict_keys_drop: "jwf m \<Longrightarrow> 0 < n \<Longrightarrow> evict_keys n (jkeys m) m = drop (nat n) m"
proof (induction m arbitrary: n)
  case (Cons x m)
  have del: "jdelete (fst x) (x # m) = m"
    using Cons.prems(1) by (cases x) simp
  show ?case
  proof (cases "n = 1")
    case True
    then show ?thesis using del by simp
  next
    case False
    then have "nat n = Suc (nat (n - 1))" using Cons.prems(2) by simp
    with False del Cons show ?thesis by (simp del: AList.delete_simps)
  qed
qed simp

definition cache_inv :: "'d MemoryPolicyDecisionCache \<Rightarrow> bool" where
  "cache_inv c \<longleftrightarrow> jwf (mc_entries c) \<and> int (length (mc_entries c)) \<le> mc_maxEntries c \<and> 1 \<le> mc_maxEntries c"

lemma new_memory_cache_inv: "cache_inv (new_memory_cache ttl n)"
  by (simp add: cache_inv_def new_memory_cache_def MIN_MAX_ENTRIES_def)

lemma prune_expired_fields [simp]:
  "mc_ttlMs (pruneExpired now c) = mc_ttlMs c" "mc_maxEntries (pruneExpired now c) = mc_maxEntries c"
  "mc_entries (pruneExpired now c) = filter (\<lambda>(k, e). \<not> ce_expiresAt e \<le> now) (mc_entries c)"
  by (simp_all add: pruneExpired_def)

lemma ensureCapacity_drop:
  "jwf (mc_entries c) \<Longrightarrow>
     mc_entries (ensureCapacity c) = drop (nat (int (length (mc_entries c)) - mc_maxEntries c)) (mc_entries c) \<and>
     mc_maxEntries (ensureCapacity c) = mc_maxEntries c \<and> mc_ttlMs (ensureCapacity c) = mc_ttlMs c"
  by (simp add: ensureCapacity_def evict_keys_drop Let_def)

definition others_live :: "time \<Rightarrow> string \<Rightarrow> 'd MemoryPolicyDecisionCache \<Rightarrow> (string, 'd MemoryCacheEntry) jsmap" where
  "others_live now k c = filter (\<lambda>(k', e). \<not> ce_expiresAt e \<le> now \<and> k' \<noteq> k) (mc_entries c)"

lemma others_live_wf: "jwf (mc_entries c) \<Longrightarrow> jwf (others_live now k c)" "k \<notin> fst ` set (others_live now k c)"
  "length (others_live now k c) \<le> length (mc_entries c)"
  by (auto simp: others_live_def intro: length_filter_le)

text \<open>A write keeps the most recently used of the live entries.\<close>

lemma cache_set_entries:
  fixes c :: "'d MemoryPolicyDecisionCache" and d :: 'd and now :: time and k :: string
  assumes "jwf (mc_entries c)"
  defines "es \<equiv> others_live now k c @ [(k, \<lparr>ce_expiresAt = now + mc_ttlMs c, ce_decision = d\<rparr>)]"
  shows "mc_entries (cache_set now k d c) = drop (nat (int (length es) - mc_maxEntries c)) es"
    and "mc_maxEntries (cache_set now k d c) = mc_maxEntries c" and "mc_ttlMs (cache_set now k d c) = mc_ttlMs c"
proof -
  let ?live = "filter (\<lambda>(k', e). \<not> ce_expiresAt e \<le> now) (mc_entries c)"
  have "(if jhas ?live k then jdelete k ?live else ?live) = jdelete k ?live"
    by (simp add: map_of_eq_None_iff del: filter_filter set_filter)
  also have "\<dots> = others_live now k c"
    unfolding others_live_def AList.delete_eq filter_filter by (rule filter_cong) auto
  finally have live: "(if jhas ?live k then jdelete k ?live else ?live) = others_live now k c" .
  have "cache_set now k d c = ensureCapacity ((pruneExpired now c)\<lparr>mc_entries := es\<rparr>)"
    using others_live_wf(2) [of k now c] unfolding cache_set_def Let_def prune_expired_fields live es_def
    by (simp add: jset_new)
  moreover have "jwf es" using others_live_wf(1) [OF assms(1)] others_live_wf(2) by (simp add: es_def)
  ultimately show "mc_entries (cache_set now k d c) = drop (nat (int (length es) - mc_maxEntries c)) es"
    and "mc_maxEntries (cache_set now k d c) = mc_maxEntries c" and "mc_ttlMs (cache_set now k d c) = mc_ttlMs c"
    by (simp_all add: ensureCapacity_drop)
qed

text \<open>What the cache holds: for each key the decision a read could return.\<close>

definition cache_holds :: "'d MemoryPolicyDecisionCache \<Rightarrow> (string \<times> 'd) set" where
  "cache_holds c = (\<lambda>(k, e). (k, ce_decision e)) ` set (mc_entries c)"

lemma cache_get_inv:
  assumes "cache_inv c"
  shows "cache_inv (fst (cache_get now k c))"
proof -
  let ?live = "filter (\<lambda>(k', e). \<not> ce_expiresAt e \<le> now) (mc_entries c)"
  have le: "int (length ?live) \<le> mc_maxEntries c"
    using assms length_filter_le [of "\<lambda>(k', e). \<not> ce_expiresAt e \<le> now" "mc_entries c"]
    unfolding cache_inv_def by linarith
  have wf: "jwf ?live" using assms by (simp add: cache_inv_def)
  show ?thesis
  proof (cases "map_of ?live k")
    case None
    then show ?thesis using assms le wf by (simp add: cache_get_def cache_inv_def Let_def)
  next
    case (Some e)
    then have "length (jdelete k ?live) < length ?live" by (intro length_jdelete_less) simp
    then have "int (length (jdelete k ?live @ [(k, e)])) \<le> mc_maxEntries c" using le by simp
    moreover have "jwf (jdelete k ?live @ [(k, e)])"
      using wf jwf_jset [of "jdelete k ?live" k e] by (simp add: jset_refresh)
    ultimately show ?thesis
      using Some assms le wf length_jdelete_key [of k ?live]
      by (auto simp: cache_get_def cache_inv_def Let_def jset_refresh simp del: filter_filter)
  qed
qed

lemma cache_set_inv: "cache_inv c \<Longrightarrow> cache_inv (cache_set now k d c)"
proof -
  assume inv: "cache_inv c"
  let ?es = "others_live now k c @ [(k, \<lparr>ce_expiresAt = now + mc_ttlMs c, ce_decision = d\<rparr>)]"
  have wf: "jwf (mc_entries c)" using inv by (simp add: cache_inv_def)
  then have "jwf ?es" using others_live_wf(1) [OF wf] others_live_wf(2) by simp
  then have "jwf (drop n ?es)" for n unfolding drop_map [symmetric] by (rule distinct_drop)
  then show ?thesis
    using inv unfolding cache_inv_def cache_set_entries [OF wf] length_drop
    by (intro conjI) (blast, linarith, blast)
qed

lemma cache_invalidate_inv: "cache_inv c \<Longrightarrow> cache_inv (cache_invalidate k c)"
  using length_jdelete_key [of k "mc_entries c"] by (simp add: cache_inv_def cache_invalidate_def)

lemma cache_get_holds:
  "cache_holds (fst (cache_get now k c)) \<subseteq> cache_holds c"
  "snd (cache_get now k c) = Some d \<Longrightarrow> (k, d) \<in> cache_holds c"
  by (auto simp: cache_get_def cache_holds_def Let_def jset_refresh dest!: map_of_SomeD set_jdelete
      split: option.splits if_splits intro: rev_image_eqI)

lemma cache_set_holds:
  assumes "cache_inv c"
  shows "cache_holds (cache_set now k d c) \<subseteq> insert (k, d) (cache_holds c)"
proof -
  have "jwf (mc_entries c)" using assms by (simp add: cache_inv_def)
  then show ?thesis
    by (auto simp: cache_holds_def cache_set_entries others_live_def dest!: in_set_dropD)
qed

section \<open>The key is canonical and exact\<close>

definition name_order :: "(string \<Rightarrow> string \<Rightarrow> bool) \<Rightarrow> bool" where
  "name_order le \<longleftrightarrow> (\<forall>a b. le a b \<or> le b a) \<and> (\<forall>a b c. le a b \<longrightarrow> le b c \<longrightarrow> le a c) \<and>
     (\<forall>a b. le a b \<longrightarrow> le b a \<longrightarrow> a = b)"

text \<open>Two values are the same up to the order of the properties of objects.\<close>

inductive same_json :: "json \<Rightarrow> json \<Rightarrow> bool" where
  same_null: "same_json JNull JNull"
| same_bool: "same_json (JBool b) (JBool b)"
| same_num: "same_json (JNum i) (JNum i)"
| same_str: "same_json (JStr s) (JStr s)"
| same_arr: "list_all2 same_json xs ys \<Longrightarrow> same_json (JArr xs) (JArr ys)"
| same_obj: "set (jkeys ms) = set (jkeys ns) \<Longrightarrow>
    (\<forall>k v w. map_of ms k = Some v \<longrightarrow> map_of ns k = Some w \<longrightarrow> same_json v w) \<Longrightarrow>
    same_json (JObj ms) (JObj ns)"

text \<open>The reference: sort the properties everywhere, then print.\<close>

fun canon :: "(string \<Rightarrow> string \<Rightarrow> bool) \<Rightarrow> json \<Rightarrow> json" where
  "canon le (JArr xs) = JArr (map (canon le) xs)"
| "canon le (JObj ms) = JObj (sort_entries le (map (\<lambda>(k, v). (k, canon le v)) ms))"
| "canon le v = v"

lemma insert_entry_map: "insert_entry le (apsnd f x) (map (apsnd f) xs) = map (apsnd f) (insert_entry le x xs)"
  by (induction xs) auto

lemma sort_entries_map: "sort_entries le (map (apsnd f) xs) = map (apsnd f) (sort_entries le xs)"
  by (induction xs) (simp_all add: sort_entries_def insert_entry_map)

lemma set_insert_entry [simp]: "set (insert_entry le x xs) = insert x (set xs)"
  by (induction xs) auto

lemma set_sort_entries [simp]: "set (sort_entries le xs) = set xs"
  by (induction xs) (auto simp: sort_entries_def)

lemma jwf_insert_entry: "jwf (insert_entry le x xs) \<longleftrightarrow> jwf (x # xs)"
  by (induction xs) (auto simp: image_iff)

lemma jwf_sort_entries [simp]: "jwf (sort_entries le xs) \<longleftrightarrow> jwf xs"
proof (induction xs)
  case (Cons x xs)
  then show ?case
    using jwf_insert_entry [of le x "sort_entries le xs"] by (simp add: sort_entries_def)
      (metis set_sort_entries sort_entries_def)
qed (simp add: sort_entries_def)

lemma stableSerialize_canon: "stableSerialize le j = JSON_stringify (canon le j)"
proof (induction le j rule: stableSerialize.induct)
  case (1 le xs)
  then show ?case by (simp cong: map_cong)
next
  case (2 le ms)
  then have "map (\<lambda>(k, v). (k, stableSerialize le v)) ms = map (apsnd JSON_stringify) (map (\<lambda>(k, v). (k, canon le v)) ms)"
    by (auto simp: case_prod_unfold)
  then show ?case
    by (simp add: sort_entries_map case_prod_unfold del: map_map) (simp add: comp_def)
qed simp_all

lemma sorted_insert_entry:
  assumes "name_order le" and "sorted_wrt (\<lambda>x y. le (fst x) (fst y)) xs"
  shows "sorted_wrt (\<lambda>x y. le (fst x) (fst y)) (insert_entry le x xs)"
  using assms(2) assms(1) by (induction xs) (auto simp: name_order_def)

lemma sorted_sort_entries: "name_order le \<Longrightarrow> sorted_wrt (\<lambda>x y. le (fst x) (fst y)) (sort_entries le xs)"
  by (induction xs) (auto simp: sort_entries_def sorted_insert_entry)

lemma sorted_entries_unique:
  assumes "name_order le" and "sorted_wrt (\<lambda>x y. le (fst x) (fst y)) xs" and "sorted_wrt (\<lambda>x y. le (fst x) (fst y)) ys"
    and "jwf xs" and "jwf ys" and "set xs = set ys"
  shows "xs = ys"
  using assms(2-)
proof (induction xs arbitrary: ys)
  case (Cons x xs)
  then obtain y zs where ys: "ys = y # zs" by (cases ys) auto
  have "fst x = fst y"
  proof (rule ccontr)
    assume ne: "fst x \<noteq> fst y"
    then have "y \<in> set xs" "x \<in> set zs" using Cons.prems(5) ys by auto
    then have "le (fst x) (fst y)" "le (fst y) (fst x)" using Cons.prems(1,2) ys by auto
    then show False using ne assms(1) by (simp add: name_order_def)
  qed
  have "x = y"
  proof (rule ccontr)
    assume "x \<noteq> y"
    then have "fst x \<in> fst ` set zs" using Cons.prems(5) ys by auto
    then show False using Cons.prems(4) ys \<open>fst x = fst y\<close> by simp
  qed
  moreover have "x \<notin> set xs" "y \<notin> set zs" using Cons.prems(3,4) ys by (auto simp: image_iff)
  then have "set xs = set zs" using Cons.prems(5) ys \<open>x = y\<close> by (simp add: insert_ident)
  ultimately show ?case using Cons.IH [of zs] Cons.prems ys by auto
qed simp

lemma sort_entries_cong:
  "name_order le \<Longrightarrow> jwf xs \<Longrightarrow> jwf ys \<Longrightarrow> set xs = set ys \<Longrightarrow> sort_entries le xs = sort_entries le ys"
  by (rule sorted_entries_unique [of le]) (auto intro: sorted_sort_entries)

lemma canon_entries:
  "set (sort_entries le (map (\<lambda>(k, v). (k, f v)) ms)) = (\<lambda>(k, v). (k, f v)) ` set ms"
  "map_of (map (\<lambda>(k, v). (k, f v)) ms) = (\<lambda>k. map_option f (map_of ms k))"
  "jkeys (map (\<lambda>(k, v). (k, f v)) ms) = jkeys ms"
  by (simp_all add: case_prod_unfold comp_def map_of_map [of f, unfolded case_prod_unfold] fun_eq_iff)

lemma json_wf_canon: "json_wf j \<Longrightarrow> json_wf (canon le j)"
  by (induction le j rule: canon.induct) (auto simp: canon_entries simp del: map_map)

lemma same_canon:
  assumes "name_order le"
  shows "same_json i j \<Longrightarrow> json_wf i \<Longrightarrow> json_wf j \<Longrightarrow> canon le i = canon le j"
proof (induction rule: same_json.induct)
  case (same_arr xs ys)
  then have "list_all2 (\<lambda>x y. canon le x = canon le y) xs ys" by (auto simp: list_all2_conv_all_nth)
  then show ?case by (simp add: list_all2_conv_all_nth list_eq_iff_nth_eq)
next
  case (same_obj ms ns)
  let ?f = "map (\<lambda>(k, v). (k, canon le v))"
  have "map_of (?f ms) k = map_of (?f ns) k" for k
  proof (cases "map_of ms k")
    case None
    then have "map_of ns k = None" using same_obj(1) by (simp add: map_of_eq_None_iff)
    with None show ?thesis by (simp add: canon_entries)
  next
    case (Some v)
    then obtain w where "map_of ns k = Some w"
      using same_obj(1) by (metis jhas_iff_key not_None_eq)
    with Some same_obj show ?thesis by (force simp: canon_entries dest: map_of_SomeD)
  qed
  moreover have "jwf (?f ms)" "jwf (?f ns)" using same_obj by (simp_all add: canon_entries del: map_map)
  ultimately have "set (?f ms) = set (?f ns)"
    using map_of_inject_set [of "?f ms" "?f ns"] by (simp add: fun_eq_iff del: set_map map_map)
  with \<open>jwf (?f ms)\<close> \<open>jwf (?f ns)\<close> assms show ?case by (simp add: sort_entries_cong)
qed simp_all

lemma canon_same: "canon le i = canon le j \<Longrightarrow> json_wf i \<Longrightarrow> json_wf j \<Longrightarrow> same_json i j"
proof (induction le i arbitrary: j rule: canon.induct)
  case (1 le xs)
  obtain ys where j: "j = JArr ys" using "1.prems"(1) by (cases j) auto
  with 1 have "list_all2 same_json xs ys"
    by (auto simp: list_all2_conv_all_nth list_eq_iff_nth_eq)
  with j show ?case by (simp add: same_arr)
next
  case (2 le ms)
  obtain ns where j: "j = JObj ns" using "2.prems"(1) by (cases j) auto
  let ?f = "map (\<lambda>(k, v). (k, canon le v))"
  have "sort_entries le (?f ms) = sort_entries le (?f ns)" using 2 j by simp
  then have sets: "set (?f ms) = set (?f ns)" by (metis set_sort_entries)
  have wf: "jwf (?f ms)" "jwf (?f ns)" using 2 j by (simp_all add: canon_entries del: map_map)
  have keys: "set (jkeys ms) = set (jkeys ns)"
    using arg_cong [OF sets, of "image fst"] by (simp add: image_image case_prod_unfold)
  have "same_json v w" if v: "map_of ms k = Some v" and w: "map_of ns k = Some w" for k v w
  proof -
    have "map_of (?f ms) k = map_of (?f ns) k" using map_of_inject_set [OF wf] sets by simp
    then have "canon le v = canon le w" using v w by (simp add: canon_entries)
    with 2 j v w show ?thesis by (fastforce dest: map_of_SomeD)
  qed
  with keys j show ?case by (simp add: same_obj)
next
  case "3_1"
  then show ?case by (cases j) (auto intro: same_null)
next
  case "3_2"
  then show ?case by (cases j) (auto intro: same_bool)
next
  case "3_3"
  then show ?case by (cases j) (auto intro: same_num)
next
  case "3_4"
  then show ?case by (cases j) (auto intro: same_str)
qed

lemma key_same:
  assumes "name_order le" and "json_wf i" and "json_wf j"
  shows "buildPolicyCacheKey le i = buildPolicyCacheKey le j \<longleftrightarrow> same_json i j"
  using assms same_canon canon_same
  by (metis JSON_stringify_inject buildPolicyCacheKey_def json_wf_canon stableSerialize_canon)

text \<open>
  The key of the policy cache identifies the input: two policy inputs get the same key
  exactly when they are the same value up to the order of object properties.
\<close>

theorem policy_key_exact:
  assumes "name_order le" and "json_wf i" and "json_wf j"
  shows "buildPolicyCacheKey le i = buildPolicyCacheKey le j \<longleftrightarrow> same_json i j"
  by (rule key_same [OF assms])

lemma name_order_le: "name_order (\<le>)"
  by (auto simp: name_order_def)

theorem policy_key_exact_witness:
  "same_json (JObj [(''b'', JArr [JObj [(''x'', JNum 1), (''a'', JNull)]]), (''a'', JBool True)])
     (JObj [(''a'', JBool True), (''b'', JArr [JObj [(''a'', JNull), (''x'', JNum 1)]])])"
  (is "same_json ?i ?j")
proof -
  have "buildPolicyCacheKey (\<le>) ?i = buildPolicyCacheKey (\<le>) ?j" by code_simp
  moreover have "json_wf ?i" "json_wf ?j" by simp_all
  ultimately show ?thesis using policy_key_exact [OF name_order_le] by blast
qed

end
