(* ===== verification/Policy_Enforcer.thy ===== *)
theory Policy_Enforcer
  imports Plan_Queue Policy_Cache
begin

text \<open>
  The policy enforcer, \<^verbatim>\<open>services/orchestrator/src/policy/PolicyEnforcer.ts\<close>: it builds the
  input document of a decision, evaluates the compiled policy on it and caches the decision.
  The policy bundle, an OPA WebAssembly module, and the files it and the agent profiles are
  read from are outside: \<open>pv_opa\<close> is the evaluation of the bundle on its data and an input,
  \<open>pv_loadPolicy\<close> the result of loading it, \<open>pv_loadProfile\<close> the result of reading a profile.
  The cache is any implementation of \<^verbatim>\<open>PolicyDecisionCache\<close>: a record of its operations.
\<close>

section \<open>State and environment\<close>

record AgentProfile =
  ap_name :: string
  ap_capabilities :: "string list"

record PolicyDecision =
  pd_allow :: bool
  pd_deny :: "DenyReason list"

type_synonym role_mappings = "(string, string list) jsmap"

record PolicyRuntimeData =
  prt_roleBindings :: "role_mappings option"
  prt_tenantBindings :: "(string, role_mappings) jsmap option"

record policy_env =
  pv_loadProfile :: "string \<Rightarrow> string + AgentProfile"
  pv_loadPolicy :: "string + json option"
  pv_opa :: "json option \<Rightarrow> json \<Rightarrow> json"

record ('c, 'd) cache_ops =
  co_get :: "time \<Rightarrow> string \<Rightarrow> 'c \<Rightarrow> 'c \<times> 'd option"
  co_set :: "time \<Rightarrow> string \<Rightarrow> 'd \<Rightarrow> 'c \<Rightarrow> 'c"
  co_close :: "'c \<Rightarrow> 'c"

text \<open>\<open>pe_loaded\<close> is the data the loaded bundle was last given; \<open>pe_loading\<close> the error of a
  load that failed, whose rejected promise stays in the field.\<close>

record 'c PolicyEnforcer =
  pe_runMode :: string
  pe_runtimePolicyData :: PolicyRuntimeData
  pe_cache :: "'c option"
  pe_loading :: "string option"
  pe_loaded :: "json option option"
  pe_policyDataApplied :: bool
  pe_cachedProfiles :: "(string, AgentProfile) jsmap"

section \<open>Runtime data\<close>

definition cloneRoleMappings :: "role_mappings \<Rightarrow> role_mappings" where
  "cloneRoleMappings m = fold (\<lambda>(role, caps). jset role caps) m []"

definition cloneTenantRoleMappings :: "(string, role_mappings) jsmap \<Rightarrow> (string, role_mappings) jsmap" where
  "cloneTenantRoleMappings m = fold (\<lambda>(tenant, roles). jset tenant (cloneRoleMappings roles)) m []"

definition buildRuntimePolicyData :: "role_mappings \<Rightarrow> (string, role_mappings) jsmap \<Rightarrow> PolicyRuntimeData" where
  "buildRuntimePolicyData mappings tenantMappings =
     \<lparr>prt_roleBindings = (if mappings \<noteq> [] then Some (cloneRoleMappings mappings) else None),
      prt_tenantBindings = (if tenantMappings \<noteq> [] then Some (cloneTenantRoleMappings tenantMappings) else None)\<rparr>"

definition role_json :: "role_mappings \<Rightarrow> json" where
  "role_json m = JObj (map (\<lambda>(role, caps). (role, JArr (map JStr caps))) m)"

definition tenant_json :: "(string, role_mappings) jsmap \<Rightarrow> json" where
  "tenant_json m = JObj (map (\<lambda>(tenant, roles). (tenant, role_json roles)) m)"

definition capabilities_json :: "PolicyRuntimeData \<Rightarrow> json" where
  "capabilities_json rt =
     JObj (opt_field ''role_bindings'' (map_option role_json (prt_roleBindings rt)) @
           opt_field ''tenant_role_bindings'' (map_option tenant_json (prt_tenantBindings rt)))"

definition has_capabilities :: "PolicyRuntimeData \<Rightarrow> bool" where
  "has_capabilities rt \<longleftrightarrow> prt_roleBindings rt \<noteq> None \<or> prt_tenantBindings rt \<noteq> None"

definition hasRuntimePolicyData :: "PolicyRuntimeData \<Rightarrow> bool" where
  "hasRuntimePolicyData rt \<longleftrightarrow> has_capabilities rt \<and>
     ((case prt_roleBindings rt of None \<Rightarrow> [] | Some m \<Rightarrow> map fst m) \<noteq> [] \<or>
      (case prt_tenantBindings rt of None \<Rightarrow> [] | Some m \<Rightarrow> map fst m) \<noteq> [])"

text \<open>The clones of mappings read from the data file: a list of capabilities is spread, a
  text is spread into its characters, and any other value is not iterable.\<close>

definition spread_json :: "json \<Rightarrow> json option" where
  "spread_json j = (case j of JArr xs \<Rightarrow> Some (JArr xs) | JStr s \<Rightarrow> Some (JArr (map (\<lambda>c. JStr [c]) s)) | _ \<Rightarrow> None)"

fun clone_entries :: "(json \<Rightarrow> json option) \<Rightarrow> (string \<times> json) list \<Rightarrow> (string \<times> json) list option" where
  "clone_entries f [] = Some []"
| "clone_entries f ((k, v) # ms) =
     (case f v of
        None \<Rightarrow> None
      | Some w \<Rightarrow> map_option (Cons (k, w)) (clone_entries f ms))"

definition entries_of :: "json option \<Rightarrow> (string \<times> json) list" where
  "entries_of j = (case j of Some (JObj ms) \<Rightarrow> ms | _ \<Rightarrow> [])"

definition clone_roles_json :: "json option \<Rightarrow> (string \<times> json) list option" where
  "clone_roles_json j = clone_entries spread_json (entries_of j)"

text \<open>The tenants of the data file are copied with \<^verbatim>\<open>Object.entries\<close>, which has no entries for
  a value that is neither an object nor an array and throws on \<^verbatim>\<open>null\<close>.\<close>

definition clone_tenant_json :: "json \<Rightarrow> json option" where
  "clone_tenant_json j =
     (case j of
        JNull \<Rightarrow> None
      | JObj ms \<Rightarrow> map_option JObj (clone_entries spread_json ms)
      | JArr xs \<Rightarrow> map_option JObj (clone_entries spread_json (zip (map show_nat [0..<length xs]) xs))
      | JStr s \<Rightarrow> map_option JObj (clone_entries spread_json (zip (map show_nat [0..<length s]) (map (\<lambda>c. JStr [c]) s)))
      | _ \<Rightarrow> Some (JObj []))"

definition merge_roles :: "PolicyRuntimeData \<Rightarrow> (string \<times> json) list \<Rightarrow> (string \<times> json) list option" where
  "merge_roles rt caps =
     (case prt_roleBindings rt of
        None \<Rightarrow> Some caps
      | Some m \<Rightarrow>
          (case clone_roles_json (map_of caps ''role_bindings'') of
             None \<Rightarrow> None
           | Some existing \<Rightarrow>
               Some (jset ''role_bindings''
                 (JObj (fold (\<lambda>(role, cs). jset role (JArr (map JStr cs))) (cloneRoleMappings m) existing)) caps)))"

definition merge_tenants :: "PolicyRuntimeData \<Rightarrow> (string \<times> json) list \<Rightarrow> (string \<times> json) list option" where
  "merge_tenants rt caps =
     (case prt_tenantBindings rt of
        None \<Rightarrow> Some caps
      | Some m \<Rightarrow>
          (case clone_entries clone_tenant_json (entries_of (map_of caps ''tenant_role_bindings'')) of
             None \<Rightarrow> None
           | Some existing \<Rightarrow>
               Some (jset ''tenant_role_bindings''
                 (JObj (fold (\<lambda>(tenant, mapping). jset tenant (role_json (cloneRoleMappings mapping))) m existing)) caps)))"

text \<open>\<open>None\<close> is the thrown \<^verbatim>\<open>TypeError\<close>.\<close>

definition mergePolicyData :: "json option \<Rightarrow> PolicyRuntimeData \<Rightarrow> json option" where
  "mergePolicyData base rt =
     (let baseRecord = entries_of base
      in if \<not> has_capabilities rt then Some (JObj baseRecord)
         else (case merge_roles rt (entries_of (map_of baseRecord ''capabilities'')) of
                 None \<Rightarrow> None
               | Some caps1 \<Rightarrow>
                   (case merge_tenants rt caps1 of
                      None \<Rightarrow> None
                    | Some caps2 \<Rightarrow> Some (JObj (jset ''capabilities'' (JObj caps2) baseRecord)))))"

section \<open>The decision\<close>

definition normalizeDeny :: "json option \<Rightarrow> DenyReason list" where
  "normalizeDeny deny =
     (case deny of
        Some (JArr items) \<Rightarrow>
          map (\<lambda>item. case item of
              JStr s \<Rightarrow> \<lparr>dr_reason = s, dr_capability = None\<rparr>
            | _ \<Rightarrow>
                \<lparr>dr_reason = (case jfield item ''reason'' of Some (JStr r) \<Rightarrow> r | _ \<Rightarrow> ''unknown''),
                 dr_capability = (case jfield item ''capability'' of Some (JStr c) \<Rightarrow> Some c | _ \<Rightarrow> None)\<rparr>) items
      | _ \<Rightarrow> [])"

text \<open>What the enforcer makes of the answer of the bundle.\<close>

definition read_decision :: "json \<Rightarrow> PolicyDecision option" where
  "read_decision answer =
     (case answer of
        JArr (first # _) \<Rightarrow>
          let output = jfield first ''result'';
              field = (\<lambda>f. case output of None \<Rightarrow> None | Some j \<Rightarrow> jfield j f)
          in Some \<lparr>pd_allow = (case field ''allow'' of None \<Rightarrow> False | Some j \<Rightarrow> truthy j),
                   pd_deny = normalizeDeny (field ''deny'')\<rparr>
      | _ \<Rightarrow> None)"

definition getPolicy :: "policy_env \<Rightarrow> 'c PolicyEnforcer \<Rightarrow> 'c PolicyEnforcer \<times> (string + json option)" where
  "getPolicy env pe =
     (case pe_loaded pe of
        Some data \<Rightarrow> (pe, Inr data)
      | None \<Rightarrow>
          (case pe_loading pe of
             Some e \<Rightarrow> (pe, Inl e)
           | None \<Rightarrow>
               (case pv_loadPolicy env of
                  Inl e \<Rightarrow> (pe\<lparr>pe_loading := Some e\<rparr>, Inl e)
                | Inr data \<Rightarrow> (pe\<lparr>pe_loaded := Some data\<rparr>, Inr data))))"

definition applyRuntimePolicyData ::
  "json option \<Rightarrow> 'c PolicyEnforcer \<Rightarrow> 'c PolicyEnforcer \<times> (string + json option)" where
  "applyRuntimePolicyData data pe =
     (if pe_policyDataApplied pe then (pe, Inr data)
      else if \<not> hasRuntimePolicyData (pe_runtimePolicyData pe)
      then (pe\<lparr>pe_policyDataApplied := True\<rparr>, Inr data)
      else (case mergePolicyData data (pe_runtimePolicyData pe) of
              None \<Rightarrow> (pe, Inl ''object is not iterable'')
            | Some merged \<Rightarrow>
                (pe\<lparr>pe_loaded := Some (Some merged), pe_policyDataApplied := True\<rparr>, Inr (Some merged))))"

definition outcome_of :: "PolicyDecision \<Rightarrow> PolicyOutcome" where
  "outcome_of d = Decision (pd_allow d) (pd_deny d)"

text \<open>The part of \<^verbatim>\<open>evaluate\<close> after the cache was consulted.\<close>

definition evaluate_fresh ::
  "('c, PolicyDecision) cache_ops \<Rightarrow> policy_env \<Rightarrow> time \<Rightarrow> string \<Rightarrow> json \<Rightarrow> 'c PolicyEnforcer
     \<Rightarrow> 'c PolicyEnforcer \<times> PolicyOutcome" where
  "evaluate_fresh ops env now cacheKey input pe =
     (case getPolicy env pe of
        (pe1, Inl e) \<Rightarrow> (pe1, PolicyFault e)
      | (pe1, Inr data) \<Rightarrow>
          (case applyRuntimePolicyData data pe1 of
             (pe2, Inl e) \<Rightarrow> (pe2, PolicyFault e)
           | (pe2, Inr data') \<Rightarrow>
               (case read_decision (pv_opa env data' input) of
                  None \<Rightarrow> (pe2, PolicyFault ''OPA policy returned no decision'')
                | Some d \<Rightarrow>
                    (pe2\<lparr>pe_cache := map_option (co_set ops now cacheKey d) (pe_cache pe2)\<rparr>, outcome_of d))))"

definition evaluate ::
  "('c, PolicyDecision) cache_ops \<Rightarrow> policy_env \<Rightarrow> (string \<Rightarrow> string \<Rightarrow> bool) \<Rightarrow> time \<Rightarrow> json \<Rightarrow> 'c PolicyEnforcer
     \<Rightarrow> 'c PolicyEnforcer \<times> PolicyOutcome" where
  "evaluate ops env le now input pe =
     (let cacheKey = buildPolicyCacheKey le input
      in case pe_cache pe of
           None \<Rightarrow> evaluate_fresh ops env now cacheKey input pe
         | Some c \<Rightarrow>
             (let (c', cached) = co_get ops now cacheKey c; pe1 = pe\<lparr>pe_cache := Some c'\<rparr>
              in case cached of
                   Some d \<Rightarrow> (pe1, outcome_of d)
                 | None \<Rightarrow> evaluate_fresh ops env now cacheKey input pe1))"

section \<open>The requests\<close>

definition toolToAgentDirectory :: "string \<Rightarrow> string" where
  "toolToAgentDirectory tool = map (\<lambda>c. if c = CHR ''_'' then CHR ''-'' else c) tool"

definition normalizeAgentName :: "string option \<Rightarrow> string" where
  "normalizeAgentName agent =
     (case agent of
        None \<Rightarrow> ''planner''
      | Some a \<Rightarrow> if trim a = [] then ''planner'' else toolToAgentDirectory (lower_case (trim a)))"

definition profile_missing :: "string list \<Rightarrow> DenyReason list" where
  "profile_missing caps =
     (if caps = [] then [\<lparr>dr_reason = ''agent_profile_missing'', dr_capability = None\<rparr>]
      else map (\<lambda>c. \<lparr>dr_reason = ''agent_profile_missing'', dr_capability = Some c\<rparr>) caps)"

definition resolveProfile ::
  "policy_env \<Rightarrow> string \<Rightarrow> string list \<Rightarrow> 'c PolicyEnforcer \<Rightarrow> 'c PolicyEnforcer \<times> (PolicyOutcome + AgentProfile)" where
  "resolveProfile env name fallbackCapabilities pe =
     (case map_of (pe_cachedProfiles pe) name of
        Some profile \<Rightarrow> (pe, Inr profile)
      | None \<Rightarrow>
          (case pv_loadProfile env name of
             Inl e \<Rightarrow> (pe, Inl (Violation (''Unable to load agent profile for '' @ name) (profile_missing fallbackCapabilities)))
           | Inr profile \<Rightarrow> (pe\<lparr>pe_cachedProfiles := jset name profile (pe_cachedProfiles pe)\<rparr>, Inr profile)))"

definition strings_json :: "string list \<Rightarrow> json" where
  "strings_json xs = JArr (map JStr xs)"

definition approvals_json :: "approvals \<Rightarrow> json" where
  "approvals_json a = JObj (map (apsnd JBool) a)"

definition user_json :: "string option \<times> string option \<times> string option \<Rightarrow> json" where
  "user_json u =
     (case u of (i, email, name) \<Rightarrow>
        JObj (opt_field ''id'' (map_option JStr i) @ opt_field ''email'' (map_option JStr email) @
              opt_field ''name'' (map_option JStr name)))"

definition subject_roles :: "PolicySubject option \<Rightarrow> string list" where
  "subject_roles s = (case s of None \<Rightarrow> [] | Some x \<Rightarrow> po_roles x)"

definition subject_scopes :: "PolicySubject option \<Rightarrow> string list" where
  "subject_scopes s = (case s of None \<Rightarrow> [] | Some x \<Rightarrow> po_scopes x)"

definition subject_text :: "(PolicySubject \<Rightarrow> string option) \<Rightarrow> PolicySubject option \<Rightarrow> json option" where
  "subject_text f s = (case s of None \<Rightarrow> None | Some x \<Rightarrow> map_option JStr (f x))"

definition subject_input ::
  "'c PolicyEnforcer \<Rightarrow> AgentProfile \<Rightarrow> string \<Rightarrow> approvals \<Rightarrow> PolicySubject option \<Rightarrow> json" where
  "subject_input pe profile tool approvals subject =
     JObj ([(''agent'', JStr (ap_name profile)), (''tool'', JStr tool),
            (''capabilities'', strings_json (ap_capabilities profile)),
            (''approvals'', approvals_json approvals), (''run_mode'', JStr (pe_runMode pe))] @
           opt_field ''tenant_id'' (subject_text po_tenant subject) @
           opt_field ''user'' (map_option (\<lambda>x. user_json (po_user x)) subject) @
           [(''roles'', strings_json (subject_roles subject)), (''scopes'', strings_json (subject_scopes subject))] @
           opt_field ''session_id'' (subject_text po_sessionId subject))"

definition context_input ::
  "'c PolicyEnforcer \<Rightarrow> string option \<Rightarrow> approvals option \<Rightarrow> PolicySubject option \<Rightarrow> json" where
  "context_input pe traceId approvals subject =
     JObj (opt_field ''trace_id'' (map_option JStr traceId) @
           opt_field ''approvals'' (map_option approvals_json approvals) @
           opt_field ''tenant_id'' (subject_text po_tenant subject) @
           [(''roles'', strings_json (subject_roles subject)), (''scopes'', strings_json (subject_scopes subject))] @
           opt_field ''session_id'' (subject_text po_sessionId subject) @
           [(''capabilities'', capabilities_json (pe_runtimePolicyData pe))])"

definition plan_step_input ::
  "'c PolicyEnforcer \<Rightarrow> AgentProfile \<Rightarrow> PlanStep \<Rightarrow> string \<Rightarrow> string option \<Rightarrow> approvals \<Rightarrow> PolicySubject option \<Rightarrow> json" where
  "plan_step_input pe profile step planId traceId approvals subject =
     JObj [(''subject'', subject_input pe profile (ps_tool step) approvals subject),
           (''action'', JObj [(''type'', JStr ''plan.step''), (''plan_id'', JStr planId), (''step_id'', JStr (ps_id step)),
              (''capabilities'', strings_json [ps_capability step]),
              (''run_mode'', JStr (case map_of (ps_metadata step) ''requiredRunMode'' of Some (JStr m) \<Rightarrow> m | _ \<Rightarrow> ''any''))]),
           (''context'', context_input pe traceId (Some approvals) subject)]"

definition enforcePlanStep ::
  "('c, PolicyDecision) cache_ops \<Rightarrow> policy_env \<Rightarrow> (string \<Rightarrow> string \<Rightarrow> bool) \<Rightarrow> time
     \<Rightarrow> PlanStep \<Rightarrow> string \<Rightarrow> string option \<Rightarrow> approvals option \<Rightarrow> PolicySubject option \<Rightarrow> 'c PolicyEnforcer
     \<Rightarrow> 'c PolicyEnforcer \<times> PolicyOutcome" where
  "enforcePlanStep ops env le now step planId traceId approvals subject pe =
     (case resolveProfile env (toolToAgentDirectory (ps_tool step)) [ps_capability step] pe of
        (pe1, Inl violation) \<Rightarrow> (pe1, violation)
      | (pe1, Inr profile) \<Rightarrow>
          evaluate ops env le now
            (plan_step_input pe1 profile step planId traceId (case approvals of Some a \<Rightarrow> a | None \<Rightarrow> []) subject) pe1)"

record HttpAction =
  ha_action :: string
  ha_requiredCapabilities :: "string list"
  ha_agent :: "string option"
  ha_traceId :: "string option"
  ha_runMode :: "string option"
  ha_subject :: "PolicySubject option"

definition http_action_input :: "'c PolicyEnforcer \<Rightarrow> AgentProfile \<Rightarrow> HttpAction \<Rightarrow> json" where
  "http_action_input pe profile h =
     JObj [(''subject'', subject_input pe profile (normalizeAgentName (ha_agent h)) [] (ha_subject h)),
           (''action'', JObj [(''type'', JStr (ha_action h)),
              (''capabilities'', strings_json (ha_requiredCapabilities h)),
              (''run_mode'', JStr (case ha_runMode h of Some m \<Rightarrow> m | None \<Rightarrow> ''any''))]),
           (''context'', context_input pe (ha_traceId h) None (ha_subject h))]"

definition enforceHttpAction ::
  "('c, PolicyDecision) cache_ops \<Rightarrow> policy_env \<Rightarrow> (string \<Rightarrow> string \<Rightarrow> bool) \<Rightarrow> time \<Rightarrow> HttpAction
     \<Rightarrow> 'c PolicyEnforcer \<Rightarrow> 'c PolicyEnforcer \<times> PolicyOutcome" where
  "enforceHttpAction ops env le now h pe =
     (case resolveProfile env (normalizeAgentName (ha_agent h)) (ha_requiredCapabilities h) pe of
        (pe1, Inl violation) \<Rightarrow> (pe1, violation)
      | (pe1, Inr profile) \<Rightarrow> evaluate ops env le now (http_action_input pe1 profile h) pe1)"

definition close_enforcer :: "('c, PolicyDecision) cache_ops \<Rightarrow> 'c PolicyEnforcer \<Rightarrow> 'c PolicyEnforcer" where
  "close_enforcer ops pe =
     pe\<lparr>pe_cache := map_option (co_close ops) (pe_cache pe), pe_loading := None, pe_loaded := None,
        pe_policyDataApplied := False\<rparr>"

definition new_enforcer :: "string \<Rightarrow> PolicyRuntimeData \<Rightarrow> 'c option \<Rightarrow> 'c PolicyEnforcer" where
  "new_enforcer runMode rt cache =
     \<lparr>pe_runMode = runMode, pe_runtimePolicyData = rt, pe_cache = cache, pe_loading = None, pe_loaded = None,
      pe_policyDataApplied = False, pe_cachedProfiles = []\<rparr>"

text \<open>The memory cache as an implementation of the interface.\<close>

definition memory_cache_ops :: "('d MemoryPolicyDecisionCache, 'd) cache_ops" where
  "memory_cache_ops = \<lparr>co_get = cache_get, co_set = cache_set, co_close = cache_close\<rparr>"

datatype policy_request =
    PlanStepRequest PlanStep string "string option" "approvals option" "PolicySubject option"
  | HttpRequest HttpAction

fun enforce ::
  "('c, PolicyDecision) cache_ops \<Rightarrow> policy_env \<Rightarrow> (string \<Rightarrow> string \<Rightarrow> bool) \<Rightarrow> time \<Rightarrow> policy_request
     \<Rightarrow> 'c PolicyEnforcer \<Rightarrow> 'c PolicyEnforcer \<times> PolicyOutcome" where
  "enforce ops env le now (PlanStepRequest step planId traceId approvals subject) pe =
     enforcePlanStep ops env le now step planId traceId approvals subject pe"
| "enforce ops env le now (HttpRequest h) pe = enforceHttpAction ops env le now h pe"

fun enforce_all ::
  "('c, PolicyDecision) cache_ops \<Rightarrow> policy_env \<Rightarrow> (string \<Rightarrow> string \<Rightarrow> bool) \<Rightarrow> (time \<times> policy_request) list
     \<Rightarrow> 'c PolicyEnforcer \<Rightarrow> PolicyOutcome list" where
  "enforce_all ops env le [] pe = []"
| "enforce_all ops env le ((now, r) # rs) pe =
     (let (pe', out) = enforce ops env le now r pe in out # enforce_all ops env le rs pe')"

end
