(* ===== verification/Policy_Properties.thy ===== *)
theory Policy_Properties
  imports Policy_Enforcer
begin

text \<open>
  What the policy enforcer promises: whatever was cached, loaded or failed before, a request
  is answered as a new enforcer without a cache would answer it.  The contract of a decision
  cache is the locale \<open>decision_cache\<close>: it may forget entries, but what it returns was stored
  under the key.  The memory cache interprets it.  Together with the canonical key this is
  what justifies the queue model's view of the enforcer as a function of the request.
\<close>

section \<open>The reference\<close>

text \<open>Rego values are unordered objects: the bundle cannot tell inputs apart that differ only
  in the order of properties.\<close>

definition opa_unordered :: "policy_env \<Rightarrow> bool" where
  "opa_unordered env \<longleftrightarrow> (\<forall>data i j. same_json i j \<longrightarrow> pv_opa env data i = pv_opa env data j)"

definition settle :: "PolicyRuntimeData \<Rightarrow> json option \<Rightarrow> string + json option" where
  "settle rt data =
     (if \<not> hasRuntimePolicyData rt then Inr data
      else (case mergePolicyData data rt of None \<Rightarrow> Inl ''object is not iterable'' | Some m \<Rightarrow> Inr (Some m)))"

definition decide :: "policy_env \<Rightarrow> PolicyRuntimeData \<Rightarrow> json \<Rightarrow> PolicyOutcome" where
  "decide env rt input =
     (case pv_loadPolicy env of
        Inl e \<Rightarrow> PolicyFault e
      | Inr data \<Rightarrow>
          (case settle rt data of
             Inl e \<Rightarrow> PolicyFault e
           | Inr data' \<Rightarrow>
               (case read_decision (pv_opa env data' input) of
                  None \<Rightarrow> PolicyFault ''OPA policy returned no decision''
                | Some d \<Rightarrow> outcome_of d)))"

text \<open>The state of the enforcer agrees with its environment.\<close>

definition policy_state_ok :: "policy_env \<Rightarrow> 'c PolicyEnforcer \<Rightarrow> bool" where
  "policy_state_ok env pe \<longleftrightarrow>
     (case pe_loading pe of None \<Rightarrow> True | Some e \<Rightarrow> pv_loadPolicy env = Inl e) \<and>
     (case pe_loaded pe of
        None \<Rightarrow> \<not> pe_policyDataApplied pe
      | Some data \<Rightarrow> if pe_policyDataApplied pe
          then \<exists>d. pv_loadPolicy env = Inr d \<and> settle (pe_runtimePolicyData pe) d = Inr data
          else pv_loadPolicy env = Inr data) \<and>
     (\<forall>n p. map_of (pe_cachedProfiles pe) n = Some p \<longrightarrow> pv_loadProfile env n = Inr p)"

text \<open>The settings a request does not change.\<close>

definition same_settings :: "'c PolicyEnforcer \<Rightarrow> 'c PolicyEnforcer \<Rightarrow> bool" where
  "same_settings pe pe' \<longleftrightarrow> pe_runMode pe' = pe_runMode pe \<and> pe_runtimePolicyData pe' = pe_runtimePolicyData pe"

lemma policy_state_ok_cache [simp]: "policy_state_ok env (pe\<lparr>pe_cache := c\<rparr>) = policy_state_ok env pe"
  by (simp add: policy_state_ok_def split: option.split)

text \<open>Loading the bundle and giving it the runtime data.\<close>

definition prepare :: "policy_env \<Rightarrow> 'c PolicyEnforcer \<Rightarrow> 'c PolicyEnforcer \<times> (string + json option)" where
  "prepare env pe =
     (case getPolicy env pe of
        (pe1, Inl e) \<Rightarrow> (pe1, Inl e)
      | (pe1, Inr data) \<Rightarrow> applyRuntimePolicyData data pe1)"

lemma evaluate_fresh_prepare:
  "evaluate_fresh ops env now k i pe =
     (case prepare env pe of
        (pe2, Inl e) \<Rightarrow> (pe2, PolicyFault e)
      | (pe2, Inr data) \<Rightarrow>
          (case read_decision (pv_opa env data i) of
             None \<Rightarrow> (pe2, PolicyFault ''OPA policy returned no decision'')
           | Some d \<Rightarrow> (pe2\<lparr>pe_cache := map_option (co_set ops now k d) (pe_cache pe2)\<rparr>, outcome_of d)))"
  by (simp add: evaluate_fresh_def prepare_def split: prod.split sum.split)

definition prepared :: "policy_env \<Rightarrow> PolicyRuntimeData \<Rightarrow> string + json option" where
  "prepared env rt = (case pv_loadPolicy env of Inl e \<Rightarrow> Inl e | Inr data \<Rightarrow> settle rt data)"

lemma decide_prepared:
  "decide env rt i =
     (case prepared env rt of
        Inl e \<Rightarrow> PolicyFault e
      | Inr data \<Rightarrow>
          (case read_decision (pv_opa env data i) of
             None \<Rightarrow> PolicyFault ''OPA policy returned no decision''
           | Some d \<Rightarrow> outcome_of d))"
  by (simp add: decide_def prepared_def split: sum.split)

lemma getPolicy_ok:
  assumes "policy_state_ok env pe" and "getPolicy env pe = (pe1, r)"
  shows "policy_state_ok env pe1 \<and> same_settings pe pe1 \<and> pe_cache pe1 = pe_cache pe \<and>
    (case r of Inl e \<Rightarrow> pv_loadPolicy env = Inl e | Inr data \<Rightarrow> pe_loaded pe1 = Some data)"
  using assms by (auto simp: getPolicy_def policy_state_ok_def same_settings_def split: option.splits sum.splits if_splits)

lemma apply_ok:
  assumes "policy_state_ok env pe" and "pe_loaded pe = Some data" and "applyRuntimePolicyData data pe = (pe1, r)"
  shows "policy_state_ok env pe1 \<and> same_settings pe pe1 \<and> pe_cache pe1 = pe_cache pe \<and>
    prepared env (pe_runtimePolicyData pe) = r"
  using assms by (auto simp: applyRuntimePolicyData_def policy_state_ok_def same_settings_def settle_def prepared_def
      split: option.splits if_splits)

lemma prepare_ok:
  assumes "policy_state_ok env pe" and "prepare env pe = (pe1, r)"
  shows "policy_state_ok env pe1 \<and> same_settings pe pe1 \<and> pe_cache pe1 = pe_cache pe \<and>
    prepared env (pe_runtimePolicyData pe) = r"
proof -
  obtain pe0 r0 where g: "getPolicy env pe = (pe0, r0)" by (cases "getPolicy env pe")
  note g0 = getPolicy_ok [OF assms(1) g]
  show ?thesis
  proof (cases r0)
    case (Inl e)
    then show ?thesis using g0 g assms(2) by (auto simp: prepare_def prepared_def)
  next
    case (Inr data)
    then have "applyRuntimePolicyData data pe0 = (pe1, r)" using g assms(2) by (simp add: prepare_def)
    then show ?thesis using g0 Inr apply_ok [of env pe0 data pe1 r] by (simp add: same_settings_def)
  qed
qed

section \<open>Requests\<close>

fun request_wf :: "policy_request \<Rightarrow> bool" where
  "request_wf (PlanStepRequest step planId traceId approvals subject) =
     (case approvals of None \<Rightarrow> True | Some a \<Rightarrow> jwf a)"
| "request_wf (HttpRequest h) = True"

fun request_agent :: "policy_request \<Rightarrow> string \<times> string list" where
  "request_agent (PlanStepRequest step planId traceId approvals subject) =
     (toolToAgentDirectory (ps_tool step), [ps_capability step])"
| "request_agent (HttpRequest h) = (normalizeAgentName (ha_agent h), ha_requiredCapabilities h)"

fun request_input :: "'c PolicyEnforcer \<Rightarrow> AgentProfile \<Rightarrow> policy_request \<Rightarrow> json" where
  "request_input pe profile (PlanStepRequest step planId traceId approvals subject) =
     plan_step_input pe profile step planId traceId (case approvals of Some a \<Rightarrow> a | None \<Rightarrow> []) subject"
| "request_input pe profile (HttpRequest h) = http_action_input pe profile h"

lemma enforce_request:
  "enforce ops env le now r pe =
     (case resolveProfile env (fst (request_agent r)) (snd (request_agent r)) pe of
        (pe1, Inl violation) \<Rightarrow> (pe1, violation)
      | (pe1, Inr profile) \<Rightarrow> evaluate ops env le now (request_input pe1 profile r) pe1)"
  by (cases r) (simp_all add: enforcePlanStep_def enforceHttpAction_def split: prod.split sum.split)

lemma request_input_settings: "same_settings pe pe' \<Longrightarrow> request_input pe' p r = request_input pe p r"
  by (cases r) (simp_all add: same_settings_def plan_step_input_def http_action_input_def subject_input_def context_input_def)

definition runtime_wf :: "PolicyRuntimeData \<Rightarrow> bool" where
  "runtime_wf rt \<longleftrightarrow> json_wf (capabilities_json rt)"

lemma jwf_clone: "jwf (cloneRoleMappings m)"
  using jwf_fold_jset [of "[]" "\<lambda>_ c. c" m] by (simp add: cloneRoleMappings_def)

lemma jwf_clone_tenants: "jwf (cloneTenantRoleMappings m)"
  using jwf_fold_jset [of "[]" "\<lambda>_ r. cloneRoleMappings r" m] by (simp add: cloneTenantRoleMappings_def)

lemma fold_jset_values:
  "x \<in> set (fold (\<lambda>(k, v). jset k (f v)) m acc) \<Longrightarrow> x \<in> set acc \<or> (\<exists>v. snd x = f v)"
  by (induction m arbitrary: acc) (fastforce split: prod.splits dest: set_jset)+

lemma clone_tenant_values: "x \<in> set (cloneTenantRoleMappings m) \<Longrightarrow> jwf (snd x)"
  unfolding cloneTenantRoleMappings_def using jwf_clone by (auto dest!: fold_jset_values)

lemma json_wf_role: "jwf m \<Longrightarrow> json_wf (role_json m)"
  by (auto simp: role_json_def case_prod_unfold comp_def)

lemma runtime_wf_build: "runtime_wf (buildRuntimePolicyData m t)"
proof -
  have "json_wf (tenant_json (cloneTenantRoleMappings t))"
    using jwf_clone_tenants [of t]
    by (auto simp: tenant_json_def case_prod_unfold comp_def intro!: json_wf_role dest: clone_tenant_values)
  then show ?thesis
    using json_wf_role [OF jwf_clone, of m]
    by (auto simp: runtime_wf_def buildRuntimePolicyData_def capabilities_json_def opt_field_def)
qed

lemma json_wf_parts:
  "json_wf (strings_json xs)" "json_wf (user_json u)"
  by (auto simp: strings_json_def user_json_def opt_field_def split: prod.split option.split)

lemma json_wf_approvals: "jwf a \<Longrightarrow> json_wf (approvals_json a)"
  by (auto simp: approvals_json_def comp_def)

lemma json_wf_subject: "jwf a \<Longrightarrow> json_wf (subject_input pe p tool a subject)"
  using json_wf_approvals [of a] json_wf_parts
  by (auto simp: subject_input_def opt_field_def subject_text_def split: option.split)

lemma json_wf_context:
  "(case a of None \<Rightarrow> True | Some x \<Rightarrow> jwf x) \<Longrightarrow> runtime_wf (pe_runtimePolicyData pe) \<Longrightarrow>
     json_wf (context_input pe tr a subject)"
  using json_wf_approvals json_wf_parts
  by (auto simp: context_input_def opt_field_def subject_text_def runtime_wf_def split: option.split)

lemma json_wf_request:
  "request_wf r \<Longrightarrow> runtime_wf (pe_runtimePolicyData pe) \<Longrightarrow> json_wf (request_input pe p r)"
  by (cases r) (auto simp: plan_step_input_def http_action_input_def json_wf_parts intro!: json_wf_subject json_wf_context
      split: option.split)

lemma resolve_ok:
  assumes "policy_state_ok env pe" and "resolveProfile env n caps pe = (pe1, r)"
  shows "policy_state_ok env pe1 \<and> same_settings pe pe1 \<and> pe_cache pe1 = pe_cache pe \<and>
    r = (case pv_loadProfile env n of
        Inl e \<Rightarrow> Inl (Violation (''Unable to load agent profile for '' @ n) (profile_missing caps))
      | Inr p \<Rightarrow> Inr p)"
  using assms by (auto simp: resolveProfile_def policy_state_ok_def same_settings_def jmap_simps
      split: option.splits sum.splits if_splits)

text \<open>What a request is answered, from the environment alone.\<close>

definition answer :: "policy_env \<Rightarrow> 'c PolicyEnforcer \<Rightarrow> policy_request \<Rightarrow> PolicyOutcome" where
  "answer env pe r =
     (case pv_loadProfile env (fst (request_agent r)) of
        Inl e \<Rightarrow> Violation (''Unable to load agent profile for '' @ fst (request_agent r)) (profile_missing (snd (request_agent r)))
      | Inr p \<Rightarrow> decide env (pe_runtimePolicyData pe) (request_input pe p r))"

lemma answer_settings: "same_settings pe pe' \<Longrightarrow> answer env pe' r = answer env pe r"
  using request_input_settings [of pe pe' _ r] by (simp add: answer_def same_settings_def split: sum.split)

section \<open>The contract of a decision cache\<close>

locale decision_cache =
  fixes ops :: "('c, PolicyDecision) cache_ops" and inv :: "'c \<Rightarrow> bool"
    and holds :: "'c \<Rightarrow> (string \<times> PolicyDecision) set"
  assumes get_inv: "inv c \<Longrightarrow> inv (fst (co_get ops now k c))"
    and set_inv: "inv c \<Longrightarrow> inv (co_set ops now k d c)"
    and get_holds: "inv c \<Longrightarrow> holds (fst (co_get ops now k c)) \<subseteq> holds c"
    and get_sound: "inv c \<Longrightarrow> snd (co_get ops now k c) = Some d \<Longrightarrow> (k, d) \<in> holds c"
    and set_holds: "inv c \<Longrightarrow> holds (co_set ops now k d c) \<subseteq> insert (k, d) (holds c)"
begin

definition cache_ok :: "policy_env \<Rightarrow> (string \<Rightarrow> string \<Rightarrow> bool) \<Rightarrow> PolicyRuntimeData \<Rightarrow> 'c option \<Rightarrow> bool" where
  "cache_ok env le rt cache \<longleftrightarrow>
     (case cache of
        None \<Rightarrow> True
      | Some c \<Rightarrow> inv c \<and> (\<forall>k d i. (k, d) \<in> holds c \<longrightarrow> json_wf i \<longrightarrow> buildPolicyCacheKey le i = k \<longrightarrow>
          decide env rt i = outcome_of d))"

lemma cache_ok_get:
  "cache_ok env le rt (Some c) \<Longrightarrow> cache_ok env le rt (Some (fst (co_get ops now k c)))"
  using get_holds [of c now k] get_inv [of c now k] by (auto simp: cache_ok_def)

lemma cache_ok_hit:
  "cache_ok env le rt (Some c) \<Longrightarrow> snd (co_get ops now (buildPolicyCacheKey le i) c) = Some d \<Longrightarrow> json_wf i \<Longrightarrow>
     outcome_of d = decide env rt i"
  using get_sound [of c now "buildPolicyCacheKey le i" d] by (auto simp: cache_ok_def)

lemma decide_same_key:
  assumes "name_order le" and "opa_unordered env" and "json_wf i" and "json_wf j"
    and "buildPolicyCacheKey le i = buildPolicyCacheKey le j"
  shows "decide env rt i = decide env rt j"
proof -
  have "same_json i j" using key_same assms by blast
  then have "pv_opa env data i = pv_opa env data j" for data using assms(2) by (simp add: opa_unordered_def)
  then show ?thesis by (simp add: decide_def split: sum.split)
qed

lemma cache_ok_set:
  assumes "name_order le" and "opa_unordered env" and "json_wf i" and "cache_ok env le rt cache"
    and "decide env rt i = outcome_of d"
  shows "cache_ok env le rt (map_option (co_set ops now (buildPolicyCacheKey le i) d) cache)"
proof (cases cache)
  case (Some c)
  let ?k = "buildPolicyCacheKey le i"
  have c: "inv c" "\<And>k d i. (k, d) \<in> holds c \<Longrightarrow> json_wf i \<Longrightarrow> buildPolicyCacheKey le i = k \<Longrightarrow> decide env rt i = outcome_of d"
    using assms(4) Some by (auto simp: cache_ok_def)
  have "decide env rt j = outcome_of d'"
    if "(k, d') \<in> holds (co_set ops now ?k d c)" "json_wf j" "buildPolicyCacheKey le j = k" for k d' j
  proof (cases "(k, d') \<in> holds c")
    case True
    then show ?thesis using c(2) that by blast
  next
    case False
    then have "k = ?k" "d' = d" using set_holds [OF c(1), of now ?k d] that(1) by auto
    then show ?thesis using decide_same_key [OF assms(1-3) that(2)] that(3) assms(5) by simp
  qed
  then show ?thesis using Some set_inv [OF c(1)] by (simp add: cache_ok_def)
qed (simp add: cache_ok_def)

definition enforcer_ok :: "policy_env \<Rightarrow> (string \<Rightarrow> string \<Rightarrow> bool) \<Rightarrow> 'c PolicyEnforcer \<Rightarrow> bool" where
  "enforcer_ok env le pe \<longleftrightarrow> policy_state_ok env pe \<and> cache_ok env le (pe_runtimePolicyData pe) (pe_cache pe)"

lemma evaluate_fresh_decide:
  assumes "name_order le" and "opa_unordered env" and "json_wf i" and ok: "enforcer_ok env le pe"
    and e: "evaluate_fresh ops env now (buildPolicyCacheKey le i) i pe = (pe', out)"
  shows "out = decide env (pe_runtimePolicyData pe) i \<and> enforcer_ok env le pe' \<and> same_settings pe pe'"
proof -
  let ?rt = "pe_runtimePolicyData pe"
  have st: "policy_state_ok env pe" using ok by (simp add: enforcer_ok_def)
  obtain pe2 r where p: "prepare env pe = (pe2, r)" by (cases "prepare env pe")
  note p2 = prepare_ok [OF st p]
  have c2: "cache_ok env le ?rt (pe_cache pe2)" using ok p2 by (simp add: enforcer_ok_def)
  then have ok2: "enforcer_ok env le pe2" using p2 by (simp add: enforcer_ok_def same_settings_def)
  show ?thesis
  proof (cases "case r of Inl _ \<Rightarrow> None | Inr data \<Rightarrow> read_decision (pv_opa env data i)")
    case None
    then show ?thesis using e p p2 ok2 by (auto simp: evaluate_fresh_prepare decide_prepared split: sum.splits)
  next
    case (Some d)
    then have "pe' = pe2\<lparr>pe_cache := map_option (co_set ops now (buildPolicyCacheKey le i) d) (pe_cache pe2)\<rparr>"
      "out = outcome_of d" "decide env ?rt i = outcome_of d"
      using e p p2 by (auto simp: evaluate_fresh_prepare decide_prepared split: sum.splits)
    then show ?thesis
      using ok2 p2 cache_ok_set [OF assms(1-3) c2] by (simp add: enforcer_ok_def same_settings_def)
  qed
qed

text \<open>A cached answer or a fresh one, it is the reference's.\<close>

lemma evaluate_decide:
  assumes "name_order le" and "opa_unordered env" and "json_wf i" and ok: "enforcer_ok env le pe"
    and e: "evaluate ops env le now i pe = (pe', out)"
  shows "out = decide env (pe_runtimePolicyData pe) i \<and> enforcer_ok env le pe' \<and> same_settings pe pe'"
proof (cases "pe_cache pe")
  case None
  then show ?thesis using evaluate_fresh_decide [OF assms(1-4)] e by (simp add: evaluate_def)
next
  case (Some c)
  let ?k = "buildPolicyCacheKey le i"
  obtain c' hit where g: "co_get ops now ?k c = (c', hit)" by (cases "co_get ops now ?k c")
  let ?pe = "pe\<lparr>pe_cache := Some c'\<rparr>"
  have c: "cache_ok env le (pe_runtimePolicyData pe) (Some c)" using ok Some by (simp add: enforcer_ok_def)
  have ok1: "enforcer_ok env le ?pe" using ok cache_ok_get [OF c, of now ?k] g by (simp add: enforcer_ok_def)
  show ?thesis
  proof (cases hit)
    case None
    then have "evaluate_fresh ops env now ?k i ?pe = (pe', out)" using e Some g by (simp add: evaluate_def)
    from evaluate_fresh_decide [OF assms(1-3) ok1 this] show ?thesis by (simp add: same_settings_def)
  next
    case (Some d)
    then show ?thesis
      using e \<open>pe_cache pe = _\<close> g ok1 cache_ok_hit [OF c, of now i d] assms(3)
      by (auto simp: evaluate_def same_settings_def)
  qed
qed

lemma enforce_answer:
  assumes "name_order le" and "opa_unordered env" and "request_wf r" and "runtime_wf (pe_runtimePolicyData pe)"
    and ok: "enforcer_ok env le pe" and e: "enforce ops env le now r pe = (pe', out)"
  shows "out = answer env pe r \<and> enforcer_ok env le pe' \<and> same_settings pe pe'"
proof -
  let ?n = "fst (request_agent r)" and ?caps = "snd (request_agent r)"
  have st: "policy_state_ok env pe" using ok by (simp add: enforcer_ok_def)
  obtain pe1 p where p: "resolveProfile env ?n ?caps pe = (pe1, p)" by (cases "resolveProfile env ?n ?caps pe")
  note p1 = resolve_ok [OF st p]
  have ok1: "enforcer_ok env le pe1" using ok p1 by (simp add: enforcer_ok_def same_settings_def)
  show ?thesis
  proof (cases "pv_loadProfile env ?n")
    case (Inl x)
    then show ?thesis using p p1 e ok1 by (auto simp: enforce_request answer_def)
  next
    case (Inr profile)
    then have e1: "evaluate ops env le now (request_input pe1 profile r) pe1 = (pe', out)"
      using p p1 e by (simp add: enforce_request)
    have "json_wf (request_input pe1 profile r)"
      using assms(3,4) p1 by (intro json_wf_request) (simp_all add: same_settings_def)
    from evaluate_decide [OF assms(1,2) this ok1 e1] show ?thesis
      using Inr p1 request_input_settings [of pe pe1 profile r] by (simp add: answer_def same_settings_def)
  qed
qed

lemma enforce_all_answers:
  assumes "name_order le" and "opa_unordered env"
  shows "enforcer_ok env le pe \<Longrightarrow> runtime_wf (pe_runtimePolicyData pe) \<Longrightarrow> \<forall>x\<in>set rs. request_wf (snd x) \<Longrightarrow>
    enforce_all ops env le rs pe = map (\<lambda>x. answer env pe (snd x)) rs"
proof (induction rs arbitrary: pe)
  case (Cons x rs)
  obtain now r where x: "x = (now, r)" by (cases x)
  obtain pe' out where e: "enforce ops env le now r pe = (pe', out)" by (cases "enforce ops env le now r pe")
  note s = enforce_answer [OF assms _ Cons.prems(2,1) e]
  have s: "out = answer env pe r" "enforcer_ok env le pe'" "same_settings pe pe'"
    using s Cons.prems(3) x by auto
  have "answer env pe' q = answer env pe q" for q by (rule answer_settings [OF s(3)])
  then show ?case using Cons s x e by (simp add: same_settings_def)
qed simp

end

section \<open>The memory cache\<close>

interpretation memory_cache: decision_cache memory_cache_ops cache_inv cache_holds
  by unfold_locales
    (simp_all add: memory_cache_ops_def cache_get_inv cache_set_inv cache_get_holds cache_set_holds)

lemma new_enforcer_ok: "memory_cache.enforcer_ok env le (new_enforcer mode rt (Some (new_memory_cache ttl n)))"
  "memory_cache.enforcer_ok env le (new_enforcer mode rt None)"
  using new_memory_cache_inv [of ttl n]
  by (simp_all add: memory_cache.enforcer_ok_def memory_cache.cache_ok_def policy_state_ok_def new_enforcer_def
      cache_holds_def new_memory_cache_def)


section \<open>A failed load\<close>

text \<open>\<^verbatim>\<open>this.loading\<close> keeps the rejected promise of a failed load, so that the enforcer does not
  try again: also when the bundle could be loaded by now, a request that is not in the
  cache fails with the first error.\<close>

theorem failed_load_is_final:
  assumes "pe_loaded pe = None" and "pe_loading pe = None" and "pe_cache pe = None"
    and "pv_loadPolicy env = Inl e" and "evaluate ops env le now i pe = (pe1, out)"
  shows "snd (evaluate ops env' le later j pe1) = PolicyFault e"
  using assms by (auto simp: evaluate_def evaluate_fresh_def getPolicy_def)

section \<open>Concrete runs\<close>

definition demo_policy :: policy_env where
  "demo_policy =
     \<lparr>pv_loadProfile = (\<lambda>n. if n = ''coder'' then Inr \<lparr>ap_name = ''coder'', ap_capabilities = [''repo.write'']\<rparr>
        else Inl ''not found''),
      pv_loadPolicy = Inr None,
      pv_opa = (\<lambda>data input. JArr [JObj [(''result'', JObj [(''allow'', JBool (data \<noteq> None))])]])\<rparr>"

definition demo_action :: "string \<Rightarrow> policy_request" where
  "demo_action agent = HttpRequest \<lparr>ha_action = ''plan.create'', ha_requiredCapabilities = [''plan.create''],
     ha_agent = Some agent, ha_traceId = None, ha_runMode = None, ha_subject = None\<rparr>"


end
