(* ===== verification/Versioned_Secrets.thy ===== *)
theory Versioned_Secrets
  imports Json_Text
begin

text \<open>
  Versioned secrets: the store of \<^verbatim>\<open>services/orchestrator/src/auth/SecretsStore.ts\<close> and the
  manager of \<^verbatim>\<open>services/orchestrator/src/auth/VersionedSecretsManager.ts\<close> that keeps, for each
  secret, its current value, a bounded list of versions with their values, and the metadata
  that ties them together as a JSON text in the same store.  Every write of a store may fail;
  an operation takes the store's state and returns the new state with either the thrown error
  or the result.  The manager is defined over any store of the interface (a record of its
  operations, as in the source); \<^verbatim>\<open>LocalFileStore\<close> is one.  The ISO text of a date and
  \<^verbatim>\<open>Date.parse\<close> are fields of the configuration.
\<close>

section \<open>Errors\<close>

datatype SecretError =
    StoreError string
  | MetadataParseError string
  | VersionNotFound string string
  | ValueMissing string

section \<open>The store interface\<close>

record 's SecretsStore =
  ss_get :: "string \<Rightarrow> 's \<Rightarrow> 's \<times> (SecretError + string option)"
  ss_set :: "string \<Rightarrow> string \<Rightarrow> 's \<Rightarrow> 's \<times> (SecretError + unit)"
  ss_delete :: "string \<Rightarrow> 's \<Rightarrow> 's \<times> (SecretError + unit)"

section \<open>The local file store\<close>

text \<open>\<open>lf_file\<close> is what the keystore file holds; \<open>lf_writes\<close> are the outcomes of the coming
  \<^verbatim>\<open>keystore.write\<close> calls, which succeed once the list is used up.\<close>

record LocalFileStore =
  lf_cache :: "(string, string) jsmap"
  lf_file :: "(string, string) jsmap"
  lf_writes :: "bool list"

definition lf_initialize ::
  "string \<Rightarrow> (string, string) jsmap \<Rightarrow> bool list \<Rightarrow> SecretError + LocalFileStore" where
  "lf_initialize passphrase existing outcomes =
     (if passphrase = [] then Inl (StoreError ''LocalFileStore requires LOCAL_SECRETS_PASSPHRASE to be set'')
      else Inr \<lparr>lf_cache = existing, lf_file = existing, lf_writes = outcomes\<rparr>)"

definition lf_persist :: "LocalFileStore \<Rightarrow> LocalFileStore \<times> (SecretError + unit)" where
  "lf_persist s =
     (case lf_writes s of
        [] \<Rightarrow> (s\<lparr>lf_file := lf_cache s\<rparr>, Inr ())
      | ok # outcomes \<Rightarrow>
          if ok then (s\<lparr>lf_file := lf_cache s, lf_writes := outcomes\<rparr>, Inr ())
          else (s\<lparr>lf_writes := outcomes\<rparr>, Inl (StoreError ''keystore write failed'')))"

definition lf_get :: "string \<Rightarrow> LocalFileStore \<Rightarrow> LocalFileStore \<times> (SecretError + string option)" where
  "lf_get key s = (s, Inr (map_of (lf_cache s) key))"

definition lf_set :: "string \<Rightarrow> string \<Rightarrow> LocalFileStore \<Rightarrow> LocalFileStore \<times> (SecretError + unit)" where
  "lf_set key v s = lf_persist (s\<lparr>lf_cache := jset key v (lf_cache s)\<rparr>)"

definition lf_delete :: "string \<Rightarrow> LocalFileStore \<Rightarrow> LocalFileStore \<times> (SecretError + unit)" where
  "lf_delete key s = lf_persist (s\<lparr>lf_cache := jdelete key (lf_cache s)\<rparr>)"

definition localFileStore :: "LocalFileStore SecretsStore" where
  "localFileStore = \<lparr>ss_get = lf_get, ss_set = lf_set, ss_delete = lf_delete\<rparr>"

section \<open>Metadata\<close>

record StoredVersion =
  sv_id :: string
  sv_createdAt :: string
  sv_labels :: "(string, string) jsmap option"

record VersionInfo = StoredVersion +
  vi_isCurrent :: bool

record StoredMetadata =
  md_currentVersion :: "string option"
  md_versions :: "StoredVersion list"
  md_retain :: int

record CurrentSecret =
  cs_value :: string
  cs_version :: string
  cs_createdAt :: "string option"
  cs_labels :: "(string, string) jsmap option"

record RotateOptions =
  rt_labels :: "(string, string) jsmap option"
  rt_retain :: "js_number option"

record VersionedSecretsManager =
  vm_defaultRetain :: int
  vm_retentionWindowMs :: "int option"
  vm_toISOString :: "time \<Rightarrow> string"
  vm_dateParse :: "string \<Rightarrow> time option"

definition DEFAULT_RETAIN_COUNT :: int where
  "DEFAULT_RETAIN_COUNT = 5"

definition clampRetain :: "js_number option \<Rightarrow> js_number \<Rightarrow> int" where
  "clampRetain value fallback =
     (let normalizedFallback = (case fallback of Finite r \<Rightarrow> if r \<ge> 1 then \<lfloor>r\<rfloor> else DEFAULT_RETAIN_COUNT
                                 | _ \<Rightarrow> DEFAULT_RETAIN_COUNT)
      in case value of
           Some (Finite r) \<Rightarrow> if r < 1 then normalizedFallback else \<lfloor>r\<rfloor>
         | _ \<Rightarrow> normalizedFallback)"

definition new_secrets_manager ::
  "(time \<Rightarrow> string) \<Rightarrow> (string \<Rightarrow> time option) \<Rightarrow> js_number option \<Rightarrow> int option \<Rightarrow> VersionedSecretsManager" where
  "new_secrets_manager isoText dateParse retain window =
     \<lparr>vm_defaultRetain = clampRetain retain (Finite (of_int DEFAULT_RETAIN_COUNT)),
      vm_retentionWindowMs = (case window of Some w \<Rightarrow> if w > 0 then Some w else None | None \<Rightarrow> None),
      vm_toISOString = isoText, vm_dateParse = dateParse\<rparr>"

definition metadataKey :: "string \<Rightarrow> string" where
  "metadataKey key = ''secretmeta:'' @ key"

definition versionKey :: "string \<Rightarrow> string \<Rightarrow> string" where
  "versionKey key versionId = ''secretver:'' @ key @ '':'' @ versionId"

definition toVersionInfo :: "StoredVersion \<Rightarrow> string option \<Rightarrow> VersionInfo" where
  "toVersionInfo version currentVersionId =
     \<lparr>sv_id = sv_id version, sv_createdAt = sv_createdAt version, sv_labels = sv_labels version,
      vi_isCurrent = (currentVersionId = Some (sv_id version))\<rparr>"

definition clone_version :: "StoredVersion \<Rightarrow> StoredVersion" where
  "clone_version v =
     \<lparr>sv_id = sv_id v, sv_createdAt = sv_createdAt v,
      sv_labels = (case sv_labels v of None \<Rightarrow> None | Some ls \<Rightarrow> Some ls)\<rparr>"

definition cloneMetadata :: "StoredMetadata \<Rightarrow> StoredMetadata" where
  "cloneMetadata m =
     \<lparr>md_currentVersion = md_currentVersion m, md_versions = map clone_version (md_versions m),
      md_retain = md_retain m\<rparr>"

text \<open>The object that is serialised: a property whose value is \<^verbatim>\<open>undefined\<close> is left out.\<close>

definition version_json :: "StoredVersion \<Rightarrow> json" where
  "version_json v =
     JObj ([(''id'', JStr (sv_id v)), (''createdAt'', JStr (sv_createdAt v))] @
       (case sv_labels v of None \<Rightarrow> [] | Some ls \<Rightarrow> [(''labels'', JObj (map (apsnd JStr) ls))]))"

definition metadata_json :: "StoredMetadata \<Rightarrow> json" where
  "metadata_json m =
     JObj ((case md_currentVersion m of None \<Rightarrow> [] | Some c \<Rightarrow> [(''currentVersion'', JStr c)]) @
       [(''versions'', JArr (map version_json (md_versions m))), (''retain'', JNum (md_retain m))])"

definition string_entries :: "json \<Rightarrow> (string, string) jsmap" where
  "string_entries j =
     List.map_filter (\<lambda>(k, v). case v of JStr s \<Rightarrow> Some (k, s) | _ \<Rightarrow> None)
       (case j of JObj ms \<Rightarrow> ms | JArr xs \<Rightarrow> zip (map show_nat [0..<length xs]) xs | _ \<Rightarrow> [])"

definition parse_version :: "json \<Rightarrow> StoredVersion option" where
  "parse_version item =
     (case (jfield item ''id'', jfield item ''createdAt'') of
        (Some (JStr i), Some (JStr c)) \<Rightarrow>
          Some \<lparr>sv_id = i, sv_createdAt = c,
            sv_labels = (case jfield item ''labels'' of
                Some (JObj ms) \<Rightarrow> Some (string_entries (JObj ms))
              | Some (JArr xs) \<Rightarrow> Some (string_entries (JArr xs))
              | _ \<Rightarrow> None)\<rparr>
      | _ \<Rightarrow> None)"

text \<open>The body of the \<^verbatim>\<open>try\<close> of \<^verbatim>\<open>readMetadata\<close>; \<^verbatim>\<open>null\<close> has no properties and throws.  A
  \<^verbatim>\<open>currentVersion\<close> that is not a string, which no code writes, is read as absent.\<close>

definition parse_metadata :: "VersionedSecretsManager \<Rightarrow> string \<Rightarrow> StoredMetadata option" where
  "parse_metadata vm raw =
     (case JSON_parse raw of
        None \<Rightarrow> None
      | Some JNull \<Rightarrow> None
      | Some parsed \<Rightarrow>
          Some \<lparr>md_currentVersion = (case jfield parsed ''currentVersion'' of Some (JStr c) \<Rightarrow> Some c | _ \<Rightarrow> None),
                md_versions = (case jfield parsed ''versions'' of
                    Some (JArr items) \<Rightarrow> List.map_filter parse_version items
                  | _ \<Rightarrow> []),
                md_retain = clampRetain
                  (case jfield parsed ''retain'' of Some (JNum i) \<Rightarrow> Some (Finite (of_int i)) | _ \<Rightarrow> None)
                  (Finite (of_int (vm_defaultRetain vm)))\<rparr>)"

definition empty_metadata :: "VersionedSecretsManager \<Rightarrow> StoredMetadata" where
  "empty_metadata vm = \<lparr>md_currentVersion = None, md_versions = [], md_retain = vm_defaultRetain vm\<rparr>"

definition readMetadata ::
  "'s SecretsStore \<Rightarrow> VersionedSecretsManager \<Rightarrow> string \<Rightarrow> 's \<Rightarrow> 's \<times> (SecretError + StoredMetadata)" where
  "readMetadata st vm key s =
     (case ss_get st (metadataKey key) s of
        (s', Inl e) \<Rightarrow> (s', Inl e)
      | (s', Inr None) \<Rightarrow> (s', Inr (empty_metadata vm))
      | (s', Inr (Some raw)) \<Rightarrow>
          if raw = [] then (s', Inr (empty_metadata vm))
          else (case parse_metadata vm raw of
                  None \<Rightarrow> (s', Inl (MetadataParseError key))
                | Some m \<Rightarrow> (s', Inr m)))"

definition writeMetadata ::
  "'s SecretsStore \<Rightarrow> string \<Rightarrow> StoredMetadata \<Rightarrow> 's \<Rightarrow> 's \<times> (SecretError + unit)" where
  "writeMetadata st key m s = ss_set st (metadataKey key) (JSON_stringify (metadata_json m)) s"

section \<open>Expiry\<close>

definition version_expired :: "VersionedSecretsManager \<Rightarrow> time \<Rightarrow> StoredMetadata \<Rightarrow> StoredVersion \<Rightarrow> bool" where
  "version_expired vm cutoff m v \<longleftrightarrow>
     md_currentVersion m \<noteq> Some (sv_id v) \<and>
     (case vm_dateParse vm (sv_createdAt v) of None \<Rightarrow> True | Some t \<Rightarrow> t < cutoff)"

text \<open>\<^verbatim>\<open>Promise.all\<close> over deletions, each of which reports whether it succeeded.\<close>

fun delete_versions :: "'s SecretsStore \<Rightarrow> string \<Rightarrow> string list \<Rightarrow> 's \<Rightarrow> 's \<times> (string \<times> bool) list" where
  "delete_versions st key [] s = (s, [])"
| "delete_versions st key (i # ids) s =
     (let (s1, r) = ss_delete st (versionKey key i) s;
          (s2, rs) = delete_versions st key ids s1
      in (s2, (i, case r of Inl _ \<Rightarrow> False | Inr _ \<Rightarrow> True) # rs))"

definition pruneExpiredVersions ::
  "'s SecretsStore \<Rightarrow> VersionedSecretsManager \<Rightarrow> time \<Rightarrow> string \<Rightarrow> StoredMetadata \<Rightarrow> 's
     \<Rightarrow> 's \<times> (SecretError + StoredMetadata)" where
  "pruneExpiredVersions st vm now key m s =
     (case vm_retentionWindowMs vm of
        None \<Rightarrow> (s, Inr m)
      | Some window \<Rightarrow>
          let cutoff = now - window;
              expired = rev (remdups (rev (map sv_id (filter (version_expired vm cutoff m) (md_versions m)))))
          in if expired = [] then (s, Inr m)
             else let (s1, results) = delete_versions st key expired s;
                      removed = map fst (filter snd results)
                  in if removed = [] then (s1, Inr m)
                     else let updated = m\<lparr>md_versions := filter (\<lambda>v. sv_id v \<notin> set removed) (md_versions m)\<rparr>
                          in case writeMetadata st key updated s1 of
                               (s2, Inl e) \<Rightarrow> (s2, Inl e)
                             | (s2, Inr _) \<Rightarrow> (s2, Inr updated))"

text \<open>Every operation starts by reading the metadata and pruning it.\<close>

definition load_metadata ::
  "'s SecretsStore \<Rightarrow> VersionedSecretsManager \<Rightarrow> time \<Rightarrow> string \<Rightarrow> 's \<Rightarrow> 's \<times> (SecretError + StoredMetadata)" where
  "load_metadata st vm now key s =
     (case readMetadata st vm key s of
        (s1, Inl e) \<Rightarrow> (s1, Inl e)
      | (s1, Inr m) \<Rightarrow> pruneExpiredVersions st vm now key m s1)"

section \<open>Operations\<close>

text \<open>The nested \<^verbatim>\<open>try\<close> of \<^verbatim>\<open>rotate\<close>: the error carries \<^verbatim>\<open>versionKeyCreated\<close>.\<close>

definition rotate_commit ::
  "'s SecretsStore \<Rightarrow> string \<Rightarrow> string \<Rightarrow> string \<Rightarrow> StoredMetadata \<Rightarrow> StoredMetadata \<Rightarrow> 's
     \<Rightarrow> 's \<times> ((SecretError \<times> bool) + unit)" where
  "rotate_commit st key v vkey updated previous s =
     (case writeMetadata st key updated s of
        (s1, Inl e) \<Rightarrow> (s1, Inl (e, True))
      | (s1, Inr _) \<Rightarrow>
          (case ss_set st key v s1 of
             (s2, Inr _) \<Rightarrow> (s2, Inr ())
           | (s2, Inl e) \<Rightarrow>
               let (s3, _) = writeMetadata st key previous s2;
                   (s4, r) = ss_delete st vkey s3
               in (s4, Inl (e, case r of Inl _ \<Rightarrow> True | Inr _ \<Rightarrow> False))))"

definition rotate_new :: "VersionedSecretsManager \<Rightarrow> time \<Rightarrow> string \<Rightarrow> RotateOptions \<Rightarrow> StoredVersion" where
  "rotate_new vm now newId opts =
     \<lparr>sv_id = newId, sv_createdAt = vm_toISOString vm now, sv_labels = rt_labels opts\<rparr>"

definition rotate_retain :: "VersionedSecretsManager \<Rightarrow> RotateOptions \<Rightarrow> StoredMetadata \<Rightarrow> int" where
  "rotate_retain vm opts existing =
     clampRetain (Some (case rt_retain opts of Some r \<Rightarrow> r | None \<Rightarrow> Finite (of_int (md_retain existing))))
       (Finite (of_int (vm_defaultRetain vm)))"

definition rotate_merged :: "StoredVersion \<Rightarrow> StoredMetadata \<Rightarrow> StoredVersion list" where
  "rotate_merged newVersion existing =
     newVersion # filter (\<lambda>v. sv_id v \<noteq> sv_id newVersion) (md_versions existing)"

definition rotate_secret ::
  "'s SecretsStore \<Rightarrow> VersionedSecretsManager \<Rightarrow> time \<Rightarrow> string \<Rightarrow> string \<Rightarrow> string \<Rightarrow> RotateOptions \<Rightarrow> 's
     \<Rightarrow> 's \<times> (SecretError + VersionInfo)" where
  "rotate_secret st vm now newId key v opts s =
     (case load_metadata st vm now key s of
        (s1, Inl e) \<Rightarrow> (s1, Inl e)
      | (s1, Inr existing) \<Rightarrow>
          let previous = cloneMetadata existing;
              retain = rotate_retain vm opts existing;
              newVersion = rotate_new vm now newId opts;
              vkey = versionKey key newId
          in case ss_set st vkey v s1 of
               (s2, Inl e) \<Rightarrow> (s2, Inl e)
             | (s2, Inr _) \<Rightarrow>
                 let merged = rotate_merged newVersion existing;
                     updated = \<lparr>md_currentVersion = Some newId, md_versions = take (nat retain) merged,
                                md_retain = retain\<rparr>
                 in case rotate_commit st key v vkey updated previous s2 of
                      (s3, Inl (e, created)) \<Rightarrow>
                        (if created then fst (ss_delete st vkey s3) else s3, Inl e)
                    | (s3, Inr _) \<Rightarrow>
                        (fst (delete_versions st key (map sv_id (drop (nat retain) merged)) s3),
                         Inr (toVersionInfo newVersion (md_currentVersion updated))))"

definition find_version :: "string \<Rightarrow> StoredMetadata \<Rightarrow> StoredVersion option" where
  "find_version versionId m = List.find (\<lambda>v. sv_id v = versionId) (md_versions m)"

definition promote ::
  "'s SecretsStore \<Rightarrow> VersionedSecretsManager \<Rightarrow> time \<Rightarrow> string \<Rightarrow> string \<Rightarrow> 's
     \<Rightarrow> 's \<times> (SecretError + VersionInfo)" where
  "promote st vm now key versionId s =
     (case load_metadata st vm now key s of
        (s1, Inl e) \<Rightarrow> (s1, Inl e)
      | (s1, Inr m) \<Rightarrow>
          (case find_version versionId m of
             None \<Rightarrow> (s1, Inl (VersionNotFound versionId key))
           | Some target \<Rightarrow>
               (case ss_get st (versionKey key versionId) s1 of
                  (s2, Inl e) \<Rightarrow> (s2, Inl e)
                | (s2, Inr None) \<Rightarrow> (s2, Inl (ValueMissing versionId))
                | (s2, Inr (Some storedValue)) \<Rightarrow>
                    let previous = cloneMetadata m;
                        promoted = clone_version target;
                        updated = \<lparr>md_currentVersion = Some versionId,
                          md_versions = promoted # map clone_version (filter (\<lambda>v. sv_id v \<noteq> versionId) (md_versions m)),
                          md_retain = md_retain m\<rparr>
                    in case writeMetadata st key updated s2 of
                         (s3, Inl e) \<Rightarrow> (s3, Inl e)
                       | (s3, Inr _) \<Rightarrow>
                           (case ss_set st key storedValue s3 of
                              (s4, Inl e) \<Rightarrow> (fst (writeMetadata st key previous s4), Inl e)
                            | (s4, Inr _) \<Rightarrow> (s4, Inr (toVersionInfo promoted (md_currentVersion updated)))))))"

definition listVersions ::
  "'s SecretsStore \<Rightarrow> VersionedSecretsManager \<Rightarrow> time \<Rightarrow> string \<Rightarrow> 's
     \<Rightarrow> 's \<times> (SecretError + string option \<times> int \<times> VersionInfo list)" where
  "listVersions st vm now key s =
     (case load_metadata st vm now key s of
        (s1, Inl e) \<Rightarrow> (s1, Inl e)
      | (s1, Inr m) \<Rightarrow>
          (s1, Inr (md_currentVersion m, md_retain m,
             map (\<lambda>v. toVersionInfo v (md_currentVersion m)) (md_versions m))))"

definition getCurrentValue ::
  "'s SecretsStore \<Rightarrow> VersionedSecretsManager \<Rightarrow> time \<Rightarrow> string \<Rightarrow> 's
     \<Rightarrow> 's \<times> (SecretError + CurrentSecret option)" where
  "getCurrentValue st vm now key s =
     (case load_metadata st vm now key s of
        (s1, Inl e) \<Rightarrow> (s1, Inl e)
      | (s1, Inr m) \<Rightarrow>
          (case md_currentVersion m of
             None \<Rightarrow> (s1, Inr None)
           | Some c \<Rightarrow>
               if c = [] then (s1, Inr None)
               else (case ss_get st key s1 of
                       (s2, Inl e) \<Rightarrow> (s2, Inl e)
                     | (s2, Inr None) \<Rightarrow> (s2, Inr None)
                     | (s2, Inr (Some v)) \<Rightarrow>
                         (s2, Inr (Some \<lparr>cs_value = v, cs_version = c,
                            cs_createdAt = map_option sv_createdAt (find_version c m),
                            cs_labels = Option.bind (find_version c m) sv_labels\<rparr>)))))"

definition getValue ::
  "'s SecretsStore \<Rightarrow> VersionedSecretsManager \<Rightarrow> time \<Rightarrow> string \<Rightarrow> string \<Rightarrow> 's
     \<Rightarrow> 's \<times> (SecretError + CurrentSecret option)" where
  "getValue st vm now key versionId s =
     (case load_metadata st vm now key s of
        (s1, Inl e) \<Rightarrow> (s1, Inl e)
      | (s1, Inr m) \<Rightarrow>
          (case find_version versionId m of
             None \<Rightarrow> (s1, Inr None)
           | Some version \<Rightarrow>
               (case ss_get st (versionKey key versionId) s1 of
                  (s2, Inl e) \<Rightarrow> (s2, Inl e)
                | (s2, Inr None) \<Rightarrow> (s2, Inr None)
                | (s2, Inr (Some v)) \<Rightarrow>
                    (s2, Inr (Some \<lparr>cs_value = v, cs_version = versionId,
                       cs_createdAt = Some (sv_createdAt version), cs_labels = sv_labels version\<rparr>)))))"

definition clear_secret ::
  "'s SecretsStore \<Rightarrow> VersionedSecretsManager \<Rightarrow> time \<Rightarrow> string \<Rightarrow> 's \<Rightarrow> 's \<times> (SecretError + unit)" where
  "clear_secret st vm now key s =
     (case load_metadata st vm now key s of
        (s1, Inl e) \<Rightarrow> (s1, Inl e)
      | (s1, Inr m) \<Rightarrow>
          (fst (delete_versions st key (map sv_id (md_versions m))
             (fst (ss_delete st (metadataKey key) (fst (ss_delete st key s1))))), Inr ()))"

text \<open>A client's sequence of operations; the results are dropped.\<close>

datatype secret_op =
    Rotate string string string RotateOptions
  | Promote string string
  | ListVersions string
  | GetCurrentValue string
  | GetValue string string
  | Clear string

fun secret_step ::
  "'s SecretsStore \<Rightarrow> VersionedSecretsManager \<Rightarrow> time \<times> secret_op \<Rightarrow> 's \<Rightarrow> 's" where
  "secret_step st vm (now, Rotate newId key v opts) s = fst (rotate_secret st vm now newId key v opts s)"
| "secret_step st vm (now, Promote key i) s = fst (promote st vm now key i s)"
| "secret_step st vm (now, ListVersions key) s = fst (listVersions st vm now key s)"
| "secret_step st vm (now, GetCurrentValue key) s = fst (getCurrentValue st vm now key s)"
| "secret_step st vm (now, GetValue key i) s = fst (getValue st vm now key i s)"
| "secret_step st vm (now, Clear key) s = fst (clear_secret st vm now key s)"

definition secret_run ::
  "'s SecretsStore \<Rightarrow> VersionedSecretsManager \<Rightarrow> (time \<times> secret_op) list \<Rightarrow> 's \<Rightarrow> 's" where
  "secret_run st vm ops s = fold (secret_step st vm) ops s"

end
