(* ===== verification/Secret_Properties.thy ===== *)
theory Secret_Properties
  imports Versioned_Secrets
begin

text \<open>
  What the versioned secrets manager promises.  The store's contract is the locale
  \<open>secrets_store\<close>: a write that succeeds has its effect, one that fails may or may not have
  had it.  The locale \<open>reliable_store\<close> adds that writes succeed.  \<^verbatim>\<open>LocalFileStore\<close> interprets
  both.  Under the first, a version's value is always one that was stored under that version,
  whatever fails; under the second, the metadata, the current value and the values of the
  versions stay consistent.
\<close>

text \<open>Keys of secrets that cannot be mistaken for the manager's own, and version identifiers
  without a colon (the default ones are UUIDs).\<close>

definition plain_key :: "string \<Rightarrow> bool" where
  "plain_key k \<longleftrightarrow> take 10 k \<noteq> ''secretver:'' \<and> take 11 k \<noteq> ''secretmeta:''"

definition plain_id :: "string \<Rightarrow> bool" where
  "plain_id i \<longleftrightarrow> i \<noteq> [] \<and> CHR '':'' \<notin> set i"

fun op_key_ok :: "secret_op \<Rightarrow> bool" where
  "op_key_ok (Rotate i k v opts) =
     (plain_key k \<and> plain_id i \<and> (case rt_labels opts of None \<Rightarrow> True | Some ls \<Rightarrow> jwf ls))"
| "op_key_ok (Promote k i) = plain_key k"
| "op_key_ok (ListVersions k) = plain_key k"
| "op_key_ok (GetCurrentValue k) = plain_key k"
| "op_key_ok (GetValue k i) = plain_key k"
| "op_key_ok (Clear k) = plain_key k"

fun rotated :: "secret_op \<Rightarrow> (string \<times> string) set" where
  "rotated (Rotate i k v opts) = {(k @ CHR '':'' # i, v)}"
| "rotated _ = {}"

section \<open>The contract of a store\<close>

locale secrets_store =
  fixes st :: "'s SecretsStore" and contents :: "'s \<Rightarrow> string \<Rightarrow> string option"
  assumes get_value: "ss_get st k s = (s', Inr r) \<Longrightarrow> r = contents s k"
    and get_keeps: "ss_get st k s = (s', r') \<Longrightarrow> contents s' = contents s"
    and set_ok: "ss_set st k v s = (s', Inr u) \<Longrightarrow> contents s' = (contents s)(k \<mapsto> v)"
    and set_effect: "ss_set st k v s = (s', w) \<Longrightarrow> contents s' \<in> {contents s, (contents s)(k \<mapsto> v)}"
    and delete_ok: "ss_delete st k s = (s', Inr u) \<Longrightarrow> contents s' = (contents s)(k := None)"
    and delete_effect: "ss_delete st k s = (s', w) \<Longrightarrow> contents s' \<in> {contents s, (contents s)(k := None)}"
begin

text \<open>The values stored under version keys are all from \<open>R\<close>.\<close>

definition stored_in :: "(string \<times> string) set \<Rightarrow> 's \<Rightarrow> bool" where
  "stored_in R s \<longleftrightarrow> (\<forall>k v. contents s (''secretver:'' @ k) = Some v \<longrightarrow> (k, v) \<in> R)"

lemma stored_in_get: "ss_get st k s = (s', r) \<Longrightarrow> stored_in R s \<Longrightarrow> stored_in R s'"
  by (simp add: stored_in_def get_keeps)

lemma stored_in_delete: "ss_delete st k s = (s', r) \<Longrightarrow> stored_in R s \<Longrightarrow> stored_in R s'"
  using delete_effect [of k s s' r] by (auto simp: stored_in_def split: if_splits)

lemma stored_in_set:
  "ss_set st k v s = (s', r) \<Longrightarrow> stored_in R s \<Longrightarrow> (\<And>k'. k = ''secretver:'' @ k' \<Longrightarrow> (k', v) \<in> R) \<Longrightarrow>
     stored_in R s'"
  using set_effect [of k v s s' r] by (auto simp: stored_in_def split: if_splits)

lemma stored_in_meta: "writeMetadata st k m s = (s', r) \<Longrightarrow> stored_in R s \<Longrightarrow> stored_in R s'"
  unfolding writeMetadata_def by (erule stored_in_set) (auto simp: metadataKey_def)

lemma stored_in_delete_versions:
  "delete_versions st k ids s = (s', r) \<Longrightarrow> stored_in R s \<Longrightarrow> stored_in R s'"
  by (induction ids arbitrary: s s' r) (auto simp: Let_def split: prod.splits dest: stored_in_delete)

lemma stored_in_read: "readMetadata st vm k s = (s', r) \<Longrightarrow> stored_in R s \<Longrightarrow> stored_in R s'"
  by (auto simp: readMetadata_def dest: stored_in_get split: prod.splits sum.splits option.splits if_splits)

lemma stored_in_prune: "pruneExpiredVersions st vm now k m s = (s', r) \<Longrightarrow> stored_in R s \<Longrightarrow> stored_in R s'"
  unfolding pruneExpiredVersions_def
  by (auto simp: Let_def dest!: stored_in_delete_versions stored_in_meta
      split: prod.splits sum.splits option.splits if_splits)

lemma stored_in_load: "load_metadata st vm now k s = (s', r) \<Longrightarrow> stored_in R s \<Longrightarrow> stored_in R s'"
  unfolding load_metadata_def
  by (auto dest!: stored_in_read stored_in_prune split: prod.splits sum.splits)

text \<open>A key that does not look like one of the manager's own.\<close>

lemma stored_in_key:
  "ss_set st k v s = (s', r) \<Longrightarrow> stored_in R s \<Longrightarrow> plain_key k \<Longrightarrow> stored_in R s'"
  by (rule stored_in_set) (auto simp: plain_key_def)

lemma stored_in_commit:
  "rotate_commit st k v vk m m' s = (s', r) \<Longrightarrow> stored_in R s \<Longrightarrow> plain_key k \<Longrightarrow> stored_in R s'"
  unfolding rotate_commit_def
  by (auto simp: Let_def dest!: stored_in_key stored_in_meta stored_in_delete split: prod.splits sum.splits)

lemma stored_in_rotate:
  assumes "rotate_secret st vm now i k v opts s = (s', r)" and "stored_in R s" and "plain_key k"
  shows "stored_in (insert (k @ CHR '':'' # i, v) R) s'"
proof -
  let ?R = "insert (k @ CHR '':'' # i, v) R"
  have R: "stored_in ?R s" using assms(2) by (auto simp: stored_in_def)
  have vk: "stored_in ?R s2" if "ss_set st (versionKey k i) v s1 = (s2, u)" "stored_in ?R s1" for s1 s2 u
    using that by (rule stored_in_set) (simp add: versionKey_def)
  show ?thesis
    using assms(1,3) R unfolding rotate_secret_def
    by (auto simp: Let_def dest!: stored_in_load vk stored_in_commit
        dest: stored_in_delete stored_in_delete_versions
        split: prod.splits sum.splits if_splits intro: stored_in_delete [OF prod.collapse [symmetric]]
          stored_in_delete_versions [OF prod.collapse [symmetric]])
qed

lemma stored_in_promote:
  "promote st vm now k i s = (s', r) \<Longrightarrow> stored_in R s \<Longrightarrow> plain_key k \<Longrightarrow> stored_in R s'"
  unfolding promote_def
  by (auto simp: Let_def dest!: stored_in_load stored_in_get stored_in_meta stored_in_key
      split: prod.splits sum.splits option.splits intro: stored_in_meta [OF prod.collapse [symmetric]])

lemma stored_in_reads:
  "listVersions st vm now k s = (s', r1) \<Longrightarrow> stored_in R s \<Longrightarrow> stored_in R s'"
  "getCurrentValue st vm now k s = (s', r2) \<Longrightarrow> stored_in R s \<Longrightarrow> stored_in R s'"
  "getValue st vm now k i s = (s', r3) \<Longrightarrow> stored_in R s \<Longrightarrow> stored_in R s'"
  unfolding listVersions_def getCurrentValue_def getValue_def
  by (auto dest!: stored_in_load dest: stored_in_get split: prod.splits sum.splits option.splits if_splits)

lemma stored_in_clear: "clear_secret st vm now k s = (s', r) \<Longrightarrow> stored_in R s \<Longrightarrow> stored_in R s'"
  unfolding clear_secret_def
  by (auto dest!: stored_in_load split: prod.splits sum.splits
      intro: stored_in_delete [OF prod.collapse [symmetric]] stored_in_delete_versions [OF prod.collapse [symmetric]])

lemma stored_in_step:
  assumes "stored_in R s" and "op_key_ok op"
  shows "stored_in (R \<union> rotated op) (secret_step st vm (now, op) s)"
proof -
  have mono: "stored_in R' s' \<Longrightarrow> stored_in (R' \<union> Q) s'" for R' Q s' by (auto simp: stored_in_def)
  show ?thesis
    using assms
  proof (cases op)
    case (Rotate i k v opts)
    with assms show ?thesis by (auto intro!: stored_in_rotate [OF prod.collapse [symmetric]])
  next
    case (Promote k i)
    with assms show ?thesis by (auto intro!: stored_in_promote [OF prod.collapse [symmetric]])
  qed (use stored_in_reads [OF prod.collapse [symmetric]] stored_in_clear [OF prod.collapse [symmetric]] mono in auto)
qed

lemma stored_in_run:
  "stored_in R s \<Longrightarrow> \<forall>x\<in>set ops. op_key_ok (snd x) \<Longrightarrow>
     stored_in (R \<union> (\<Union>x\<in>set ops. rotated (snd x))) (secret_run st vm ops s)"
proof (induction ops arbitrary: R s)
  case (Cons x ops)
  obtain now op where x: "x = (now, op)" by (cases x)
  have "stored_in (R \<union> rotated op) (secret_step st vm x s)"
    unfolding x using Cons.prems x by (intro stored_in_step) auto
  from Cons.IH [OF this] Cons.prems(2) show ?case by (simp add: secret_run_def x Un_assoc)
qed (simp add: secret_run_def)

lemma getValue_contents:
  assumes "getValue st vm now k i s = (s', Inr (Some c))"
  obtains s1 m where "load_metadata st vm now k s = (s1, Inr m)"
    and "contents s1 (versionKey k i) = Some (cs_value c)" and "cs_version c = i"
  using assms by (auto simp: getValue_def dest: get_value split: prod.splits sum.splits option.splits)

text \<open>A value is only ever returned for the version it was stored under.\<close>

lemma getValue_rotated:
  assumes "stored_in R s" and "getValue st vm now k i s = (s', Inr (Some c))"
  shows "(k @ CHR '':'' # i, cs_value c) \<in> R"
  using assms(2)
proof (rule getValue_contents)
  fix s1 m
  assume l: "load_metadata st vm now k s = (s1, Inr m)" and c: "contents s1 (versionKey k i) = Some (cs_value c)"
  have "stored_in R s1" using l assms(1) by (rule stored_in_load)
  with c show ?thesis by (simp add: stored_in_def versionKey_def)
qed

end

section \<open>Reading back the metadata\<close>

definition labels_wf :: "StoredVersion \<Rightarrow> bool" where
  "labels_wf v \<longleftrightarrow> (case sv_labels v of None \<Rightarrow> True | Some ls \<Rightarrow> jwf ls)"

lemma clampRetain_ge1: "1 \<le> clampRetain value fallback"
  by (auto simp: clampRetain_def Let_def DEFAULT_RETAIN_COUNT_def le_floor_iff split: option.splits js_number.splits)

lemma clampRetain_id: "1 \<le> i \<Longrightarrow> clampRetain (Some (Finite (of_int i))) fallback = i"
  by (simp add: clampRetain_def Let_def)

lemma json_wf_version: "labels_wf v \<Longrightarrow> json_wf (version_json v)"
  by (auto simp: version_json_def labels_wf_def comp_def split: option.splits)

lemma json_wf_metadata: "\<forall>v\<in>set (md_versions m). labels_wf v \<Longrightarrow> json_wf (metadata_json m)"
  by (auto simp: metadata_json_def json_wf_version split: option.splits)

lemma string_entries_labels: "string_entries (JObj (map (apsnd JStr) ls)) = ls"
  by (induction ls) (auto simp: string_entries_def List.map_filter_simps)

lemma parse_version_json: "parse_version (version_json v) = Some v"
  by (simp add: parse_version_def version_json_def jfield_def string_entries_labels split: option.split)

lemma map_filter_all: "(\<And>x. x \<in> set xs \<Longrightarrow> f (g x) = Some x) \<Longrightarrow> List.map_filter f (map g xs) = xs"
  by (induction xs) (auto simp: List.map_filter_simps)

lemma parse_metadata_back:
  assumes "1 \<le> md_retain m" and "\<forall>v\<in>set (md_versions m). labels_wf v"
  shows "parse_metadata vm (JSON_stringify (metadata_json m)) = Some m"
proof -
  have "JSON_parse (JSON_stringify (metadata_json m)) = Some (metadata_json m)"
    using json_wf_metadata [OF assms(2)] by (rule JSON_roundtrip)
  moreover have "List.map_filter parse_version (map version_json (md_versions m)) = md_versions m"
    by (rule map_filter_all) (rule parse_version_json)
  ultimately show ?thesis
    using assms(1) by (simp add: parse_metadata_def metadata_json_def jfield_def clampRetain_id split: option.split)
qed

lemma stringify_metadata_ne [simp]: "JSON_stringify (metadata_json m) \<noteq> []"
  by (simp add: metadata_json_def)

section \<open>Consistency\<close>

type_synonym contents = "string \<Rightarrow> string option"

text \<open>\<open>m\<close> describes what is stored for the secret \<open>k\<close>: every listed version has a value, the
  current one is listed and its value is the secret's, and no more versions are kept than
  the secret retains.\<close>

definition meta_wf :: "contents \<Rightarrow> string \<Rightarrow> StoredMetadata \<Rightarrow> bool" where
  "meta_wf a k m \<longleftrightarrow>
     1 \<le> md_retain m \<and> int (length (md_versions m)) \<le> md_retain m \<and> distinct (map sv_id (md_versions m)) \<and>
     (\<forall>v\<in>set (md_versions m). labels_wf v \<and> plain_id (sv_id v) \<and> a (versionKey k (sv_id v)) \<noteq> None) \<and>
     (case md_currentVersion m of
        None \<Rightarrow> md_versions m = []
      | Some c \<Rightarrow> c \<in> sv_id ` set (md_versions m) \<and> a k = a (versionKey k c))"

definition describes :: "VersionedSecretsManager \<Rightarrow> contents \<Rightarrow> string \<Rightarrow> StoredMetadata \<Rightarrow> bool" where
  "describes vm a k m \<longleftrightarrow> meta_wf a k m \<and>
     (a (metadataKey k) = Some (JSON_stringify (metadata_json m)) \<or> a (metadataKey k) = None \<and> m = empty_metadata vm)"

text \<open>Only the keys of the secret \<open>k\<close> differ.\<close>

definition only_secret :: "string \<Rightarrow> contents \<Rightarrow> contents \<Rightarrow> bool" where
  "only_secret k a b \<longleftrightarrow>
     (\<forall>x. x \<noteq> k \<longrightarrow> x \<noteq> metadataKey k \<longrightarrow> (\<forall>i. plain_id i \<longrightarrow> x \<noteq> versionKey k i) \<longrightarrow> b x = a x)"

lemma keys_differ [simp]:
  "metadataKey k = metadataKey k' \<longleftrightarrow> k = k'" "versionKey k i = versionKey k i' \<longleftrightarrow> i = i'"
  "metadataKey k \<noteq> versionKey k' i" "versionKey k' i \<noteq> metadataKey k"
  "k \<noteq> metadataKey k" "metadataKey k \<noteq> k" "k \<noteq> versionKey k i" "versionKey k i \<noteq> k"
  by (auto simp: metadataKey_def versionKey_def dest: arg_cong [of _ _ length])

lemma plain_keys_differ [simp]:
  "plain_key k \<Longrightarrow> metadataKey k' \<noteq> k" "plain_key k \<Longrightarrow> versionKey k' i \<noteq> k"
  by (auto simp: plain_key_def metadataKey_def versionKey_def)

lemma versionKey_eq:
  assumes "versionKey k i = versionKey k' i'" and "plain_id i" and "plain_id i'"
  shows "k = k' \<and> i = i'"
proof -
  have "rev i @ CHR '':'' # rev k = rev i' @ CHR '':'' # rev k'"
    using arg_cong [OF assms(1), of rev] by (simp add: versionKey_def)
  then have "rev i = rev i' \<and> rev k = rev k'"
    using assms(2,3) by (subst (asm) colon_split) (auto simp: plain_id_def)
  then show ?thesis by simp
qed

lemma only_secret_other:
  assumes "only_secret k a b" and "k' \<noteq> k" and "plain_key k" and "plain_key k'"
  shows "b k' = a k'" and "b (metadataKey k') = a (metadataKey k')"
    and "plain_id i \<Longrightarrow> b (versionKey k' i) = a (versionKey k' i)"
  using assms versionKey_eq unfolding only_secret_def by (metis keys_differ plain_keys_differ)+

lemma describes_other:
  assumes "only_secret k a b" and "k' \<noteq> k" and "plain_key k" and "plain_key k'" and "describes vm a k' m"
  shows "describes vm b k' m"
proof -
  have "b (versionKey k' c) = a (versionKey k' c)" if "md_currentVersion m = Some c" for c
    using only_secret_other(3) [OF assms(1-4)] that assms(5) by (auto simp: describes_def meta_wf_def)
  then show ?thesis
    using only_secret_other [OF assms(1-4)] assms(5)
    by (auto simp: describes_def meta_wf_def split: option.splits)
qed

text \<open>The effect of a rotation on what is stored for the secret.\<close>

lemma meta_wf_rotated:
  assumes "meta_wf a k m" and "plain_id (sv_id new)" and "labels_wf new" and "1 \<le> r"
  shows "meta_wf (\<lambda>x. if x \<in> versionKey k ` set (map sv_id (drop (nat r) (rotate_merged new m))) then None
      else (a(versionKey k (sv_id new) \<mapsto> v, metadataKey k \<mapsto> text, k \<mapsto> v)) x) k
    \<lparr>md_currentVersion = Some (sv_id new), md_versions = take (nat r) (rotate_merged new m), md_retain = r\<rparr>"
    (is "meta_wf ?b k ?m")
proof -
  let ?merged = "rotate_merged new m"
  have dist: "distinct (map sv_id ?merged)"
    using assms(1) by (auto simp: rotate_merged_def meta_wf_def distinct_map_filter)
  have disj: "sv_id ` set (take (nat r) ?merged) \<inter> sv_id ` set (drop (nat r) ?merged) = {}"
    using dist by (metis append_take_drop_id distinct_append list.set_map map_append)
  have new_in: "new \<in> set (take (nat r) ?merged)"
    using assms(4) by (cases "nat r") (simp_all add: rotate_merged_def)
  have kept: "?b (versionKey k (sv_id x)) = (if sv_id x = sv_id new then Some v else a (versionKey k (sv_id x)))"
    if "x \<in> set (take (nat r) ?merged)" for x
    using that disj by (auto simp: image_iff)
  have elems: "labels_wf x \<and> plain_id (sv_id x) \<and> (sv_id x = sv_id new \<or> a (versionKey k (sv_id x)) \<noteq> None)"
    if "x \<in> set ?merged" for x
    using that assms(1-3) by (auto simp: rotate_merged_def meta_wf_def)
  have "labels_wf x \<and> plain_id (sv_id x) \<and> ?b (versionKey k (sv_id x)) \<noteq> None"
    if "x \<in> set (take (nat r) ?merged)" for x
    using elems [OF in_set_takeD [OF that]] kept [OF that] by auto
  moreover have "?b k = ?b (versionKey k (sv_id new))" using kept [OF new_in] by (auto simp: image_iff)
  moreover have "distinct (map sv_id (take (nat r) ?merged))" using dist by (simp add: take_map [symmetric])
  ultimately show ?thesis using assms(4) new_in unfolding meta_wf_def by simp
qed

lemma clone_version_id [simp]: "clone_version v = v"
  by (cases v) (simp add: clone_version_def split: option.split)

lemma clone_versions_id [simp]: "map clone_version vs = vs"
  by (simp add: map_idI)

lemma meta_wf_promoted:
  assumes "meta_wf a k m" and "t \<in> set (md_versions m)" and "sv_id t = i" and "a (versionKey k i) = Some v"
  shows "meta_wf (a(metadataKey k \<mapsto> text, k \<mapsto> v)) k
    \<lparr>md_currentVersion = Some i, md_versions = t # filter (\<lambda>v. sv_id v \<noteq> i) (md_versions m), md_retain = md_retain m\<rparr>"
proof -
  have "length (filter (\<lambda>v. sv_id v \<noteq> i) (md_versions m)) < length (md_versions m)"
    using assms(2,3) by (intro length_filter_less) auto
  then show ?thesis using assms by (auto simp: meta_wf_def distinct_map_filter)
qed

text \<open>A store whose writes succeed.\<close>

locale reliable_store = secrets_store +
  fixes reliable :: "'a \<Rightarrow> bool"
  assumes get_reliable: "reliable s \<Longrightarrow> \<exists>s' r. ss_get st k s = (s', Inr r) \<and> reliable s'"
    and set_reliable: "reliable s \<Longrightarrow> \<exists>s'. ss_set st k v s = (s', Inr ()) \<and> reliable s'"
    and delete_reliable: "reliable s \<Longrightarrow> \<exists>s'. ss_delete st k s = (s', Inr ()) \<and> reliable s'"
begin

lemma getE:
  assumes "reliable s"
  obtains s' where "ss_get st k s = (s', Inr (contents s k))" and "reliable s'" and "contents s' = contents s"
  using get_reliable [OF assms, of k] get_value get_keeps by blast

lemma setE:
  assumes "reliable s"
  obtains s' where "ss_set st k v s = (s', Inr ())" and "reliable s'" and "contents s' = (contents s)(k \<mapsto> v)"
  using set_reliable [OF assms, of k v] set_ok by blast

lemma deleteE:
  assumes "reliable s"
  obtains s' where "ss_delete st k s = (s', Inr ())" and "reliable s'" and "contents s' = (contents s)(k := None)"
  using delete_reliable [OF assms, of k] delete_ok by blast

lemma writeE:
  assumes "reliable s"
  obtains s' where "writeMetadata st k m s = (s', Inr ())" and "reliable s'"
    and "contents s' = (contents s)(metadataKey k \<mapsto> JSON_stringify (metadata_json m))"
  unfolding writeMetadata_def by (rule setE [OF assms])

lemma delete_versions_all:
  "reliable s \<Longrightarrow> \<exists>s'. delete_versions st k ids s = (s', map (\<lambda>i. (i, True)) ids) \<and> reliable s' \<and>
     contents s' = (\<lambda>x. if x \<in> versionKey k ` set ids then None else contents s x)"
proof (induction ids arbitrary: s)
  case (Cons i ids)
  obtain s1 where s1: "ss_delete st (versionKey k i) s = (s1, Inr ())" "reliable s1"
      "contents s1 = (contents s)(versionKey k i := None)"
    using deleteE [OF Cons.prems] by blast
  from Cons.IH [OF s1(2)] s1 show ?case by (auto simp: fun_eq_iff)
qed auto

lemma readMetadata_describes:
  assumes "reliable s" and "describes vm (contents s) k m"
  obtains s' where "readMetadata st vm k s = (s', Inr m)" and "reliable s'" and "contents s' = contents s"
proof -
  obtain s' where s': "ss_get st (metadataKey k) s = (s', Inr (contents s (metadataKey k)))" "reliable s'"
      "contents s' = contents s"
    using getE [OF assms(1)] by blast
  have "parse_metadata vm (JSON_stringify (metadata_json m)) = Some m"
    using assms(2) by (intro parse_metadata_back) (auto simp: describes_def meta_wf_def)
  then have "readMetadata st vm k s = (s', Inr m)"
    using s'(1) assms(2) by (auto simp: readMetadata_def describes_def)
  then show thesis using s'(2,3) by (rule that)
qed

text \<open>Pruning keeps the current version and what the other versions hold.\<close>

lemma load_describes:
  assumes "reliable s" and "describes vm (contents s) k m"
  obtains s' P where "load_metadata st vm now k s = (s', Inr (m\<lparr>md_versions := filter P (md_versions m)\<rparr>))"
    and "reliable s'" and "describes vm (contents s') k (m\<lparr>md_versions := filter P (md_versions m)\<rparr>)"
    and "only_secret k (contents s) (contents s')" and "contents s' k = contents s k"
    and "\<And>v. v \<in> set (md_versions m) \<Longrightarrow> P v \<Longrightarrow> contents s' (versionKey k (sv_id v)) = contents s (versionKey k (sv_id v))"
    and "\<And>v. v \<in> set (md_versions m) \<Longrightarrow> md_currentVersion m = Some (sv_id v) \<Longrightarrow> P v"
proof -
  obtain s1 where s1: "readMetadata st vm k s = (s1, Inr m)" "reliable s1" "contents s1 = contents s"
    using readMetadata_describes [OF assms] .
  show thesis
  proof (cases "vm_retentionWindowMs vm")
    case None
    then show thesis using s1 assms
      by (intro that [of s1 "\<lambda>_. True"]) (simp_all add: load_metadata_def pruneExpiredVersions_def only_secret_def)
  next
    case (Some w)
    define E where "E = version_expired vm (now - w) m"
    define ids where "ids = rev (remdups (rev (map sv_id (filter E (md_versions m)))))"
    show thesis
    proof (cases "ids = []")
      case True
      then show thesis using s1 assms Some
        by (intro that [of s1 "\<lambda>_. True"])
          (simp_all add: load_metadata_def pruneExpiredVersions_def only_secret_def E_def [symmetric] ids_def [symmetric] Let_def)
    next
      case False
      have ne: "filter E (md_versions m) \<noteq> []" using False by (auto simp: ids_def)
      have ids: "set ids = sv_id ` {v \<in> set (md_versions m). E v}" by (auto simp: ids_def)
      let ?P = "\<lambda>v. sv_id v \<notin> set ids"
      let ?m = "m\<lparr>md_versions := filter ?P (md_versions m)\<rparr>"
      obtain s2 where s2: "delete_versions st k ids s1 = (s2, map (\<lambda>i. (i, True)) ids)" "reliable s2"
          "contents s2 = (\<lambda>x. if x \<in> versionKey k ` set ids then None else contents s1 x)"
        using delete_versions_all [OF s1(2)] by blast
      obtain s3 where s3: "writeMetadata st k ?m s2 = (s3, Inr ())" "reliable s3"
          "contents s3 = (contents s2)(metadataKey k \<mapsto> JSON_stringify (metadata_json ?m))"
        using writeE [OF s2(2)] by blast
      have kept: "contents s3 (versionKey k i) = contents s (versionKey k i)" if "i \<notin> set ids" for i
        using that s2(3) s3(3) s1(3) by (auto simp: image_iff)
      have k: "contents s3 k = contents s k" using s2(3) s3(3) s1(3) by (auto simp: image_iff)
      have cur: "c \<notin> set ids" if "md_currentVersion m = Some c" for c
        using that by (auto simp: ids E_def version_expired_def)
      have wf: "meta_wf (contents s) k m" using assms(2) by (simp add: describes_def)
      then have "meta_wf (contents s3) k ?m"
        using kept k cur distinct_map_filter [of sv_id "md_versions m" ?P] length_filter_le [of ?P "md_versions m"]
        by (auto simp: meta_wf_def split: option.splits simp del: length_filter_le)
      then have "describes vm (contents s3) k ?m" by (simp add: describes_def s3(3))
      moreover have "only_secret k (contents s) (contents s3)"
        using wf s2(3) s3(3) s1(3) by (auto simp: only_secret_def ids meta_wf_def)
      moreover have "load_metadata st vm now k s = (s3, Inr ?m)"
        using s1(1) s2(1) s3(1) Some False ne
        by (simp add: load_metadata_def pruneExpiredVersions_def E_def [symmetric] ids_def [symmetric] Let_def comp_def)
      ultimately show thesis using s3(2) k kept cur by (intro that [of s3 ?P]) auto
    qed
  qed
qed

lemma rotate_describes:
  assumes "reliable s" and "describes vm (contents s) k m" and "plain_id i"
    and "case rt_labels opts of None \<Rightarrow> True | Some ls \<Rightarrow> jwf ls"
  obtains s' m' where "rotate_secret st vm now i k v opts s = (s', Inr (toVersionInfo (rotate_new vm now i opts) (Some i)))"
    and "reliable s'" and "describes vm (contents s') k m'" and "md_currentVersion m' = Some i"
    and "contents s' k = Some v" and "only_secret k (contents s) (contents s')"
proof -
  obtain s1 P where s1: "load_metadata st vm now k s = (s1, Inr (m\<lparr>md_versions := filter P (md_versions m)\<rparr>))"
      "reliable s1" "describes vm (contents s1) k (m\<lparr>md_versions := filter P (md_versions m)\<rparr>)"
      "only_secret k (contents s) (contents s1)"
    using load_describes [OF assms(1,2)] by metis
  define m1 where "m1 = m\<lparr>md_versions := filter P (md_versions m)\<rparr>"
  define new where "new = rotate_new vm now i opts"
  define merged where "merged = rotate_merged new m1"
  define r where "r = rotate_retain vm opts m1"
  define m2 where "m2 = \<lparr>md_currentVersion = Some i, md_versions = take (nat r) merged, md_retain = r\<rparr>"
  have r1: "1 \<le> r" by (simp add: r_def rotate_retain_def clampRetain_ge1)
  have wf1: "meta_wf (contents s1) k m1" using s1(3) by (simp add: describes_def m1_def)
  have new: "sv_id new = i" "labels_wf new" using assms(4) by (simp_all add: new_def rotate_new_def labels_wf_def)
  obtain s2 where s2: "ss_set st (versionKey k i) v s1 = (s2, Inr ())" "reliable s2"
      "contents s2 = (contents s1)(versionKey k i \<mapsto> v)"
    using setE [OF s1(2)] by blast
  obtain s3 where s3: "writeMetadata st k m2 s2 = (s3, Inr ())" "reliable s3"
      "contents s3 = (contents s2)(metadataKey k \<mapsto> JSON_stringify (metadata_json m2))"
    using writeE [OF s2(2)] by blast
  obtain s4 where s4: "ss_set st k v s3 = (s4, Inr ())" "reliable s4" "contents s4 = (contents s3)(k \<mapsto> v)"
    using setE [OF s3(2)] by blast
  let ?gone = "map sv_id (drop (nat r) merged)"
  obtain s5 where s5: "delete_versions st k ?gone s4 = (s5, map (\<lambda>i. (i, True)) ?gone)" "reliable s5"
      "contents s5 = (\<lambda>x. if x \<in> versionKey k ` set ?gone then None else contents s4 x)"
    using delete_versions_all [OF s4(2)] by blast
  have run: "rotate_secret st vm now i k v opts s = (s5, Inr (toVersionInfo new (Some i)))"
    using s1(1) s2(1) s3(1) s4(1) s5(1)
    by (simp add: rotate_secret_def rotate_commit_def Let_def m1_def [symmetric] new_def [symmetric]
        r_def [symmetric] merged_def [symmetric] m2_def [symmetric])
  have "meta_wf (contents s5) k m2"
    using meta_wf_rotated [OF wf1 _ new(2) r1] assms(3)
    unfolding s5(3) s4(3) s3(3) s2(3) m2_def merged_def new(1) by simp
  moreover have "contents s5 (metadataKey k) = Some (JSON_stringify (metadata_json m2))" "contents s5 k = Some v"
    using s5(3) s4(3) s3(3) by (auto simp: image_iff)
  moreover have "\<forall>x\<in>set merged. plain_id (sv_id x)"
    using wf1 assms(3) new(1) by (auto simp: merged_def rotate_merged_def meta_wf_def)
  then have "only_secret k (contents s) (contents s5)"
    using s1(4) assms(3) s5(3) s4(3) s3(3) s2(3) by (auto simp: only_secret_def dest: in_set_dropD)
  ultimately show thesis
    using run s5(2) by (intro that [of s5 m2]) (simp_all add: new_def describes_def m2_def)
qed

lemma promote_describes:
  assumes "reliable s" and "describes vm (contents s) k m"
  obtains (promoted) s' m' info where "promote st vm now k i s = (s', Inr info)"
      and "reliable s'" and "describes vm (contents s') k m'" and "md_currentVersion m' = Some i"
      and "contents s' k = contents s (versionKey k i)" and "i \<in> sv_id ` set (md_versions m)"
      and "only_secret k (contents s) (contents s')"
  | (missing) s' m' where "promote st vm now k i s = (s', Inl (VersionNotFound i k))"
      and "reliable s'" and "describes vm (contents s') k m'" and "only_secret k (contents s) (contents s')"
      and "load_metadata st vm now k s = (s', Inr m')" and "find_version i m' = None"
proof -
  obtain s1 P where s1: "load_metadata st vm now k s = (s1, Inr (m\<lparr>md_versions := filter P (md_versions m)\<rparr>))"
      "reliable s1" "describes vm (contents s1) k (m\<lparr>md_versions := filter P (md_versions m)\<rparr>)"
      "only_secret k (contents s) (contents s1)"
      "\<And>v. v \<in> set (md_versions m) \<Longrightarrow> P v \<Longrightarrow> contents s1 (versionKey k (sv_id v)) = contents s (versionKey k (sv_id v))"
    using load_describes [OF assms(1,2)] by metis
  define m1 where "m1 = m\<lparr>md_versions := filter P (md_versions m)\<rparr>"
  have wf1: "meta_wf (contents s1) k m1" using s1(3) by (simp add: describes_def m1_def)
  show thesis
  proof (cases "find_version i m1")
    case None
    then show thesis using s1 by (intro missing [of s1 m1]) (simp_all add: promote_def m1_def)
  next
    case (Some t)
    then have t: "t \<in> set (md_versions m1)" "sv_id t = i"
      by (auto simp: find_version_def find_Some_iff)
    then obtain v where v: "contents s1 (versionKey k i) = Some v" using wf1 by (auto simp: meta_wf_def)
    have old: "contents s1 (versionKey k i) = contents s (versionKey k i)" "i \<in> sv_id ` set (md_versions m)"
      using s1(5) t by (auto simp: m1_def)
    define m2 where "m2 = \<lparr>md_currentVersion = Some i,
      md_versions = t # filter (\<lambda>v. sv_id v \<noteq> i) (md_versions m1), md_retain = md_retain m1\<rparr>"
    obtain s2 where s2: "ss_get st (versionKey k i) s1 = (s2, Inr (Some v))" "reliable s2" "contents s2 = contents s1"
      using getE [OF s1(2), of "versionKey k i"] v by auto
    obtain s3 where s3: "writeMetadata st k m2 s2 = (s3, Inr ())" "reliable s3"
        "contents s3 = (contents s2)(metadataKey k \<mapsto> JSON_stringify (metadata_json m2))"
      using writeE [OF s2(2)] by blast
    obtain s4 where s4: "ss_set st k v s3 = (s4, Inr ())" "reliable s4" "contents s4 = (contents s3)(k \<mapsto> v)"
      using setE [OF s3(2)] by blast
    have "promote st vm now k i s = (s4, Inr (toVersionInfo t (Some i)))"
      using s1(1) s2(1) s3(1) s4(1) Some
      by (simp add: promote_def Let_def m1_def [symmetric] m2_def [symmetric])
    moreover have "meta_wf (contents s4) k m2"
      using meta_wf_promoted [OF wf1 t v] unfolding s4(3) s3(3) s2(3) m2_def by simp
    then have "describes vm (contents s4) k m2" by (simp add: describes_def s4(3) s3(3))
    moreover have "only_secret k (contents s) (contents s4)"
      using s1(4) s4(3) s3(3) s2(3) by (simp add: only_secret_def)
    ultimately show thesis
      using s4 old v by (intro promoted [of s4 _ m2]) (simp_all add: m2_def)
  qed
qed

lemma clear_describes:
  assumes "reliable s" and "describes vm (contents s) k m" and "1 \<le> vm_defaultRetain vm"
  obtains s' where "clear_secret st vm now k s = (s', Inr ())" and "reliable s'"
    and "describes vm (contents s') k (empty_metadata vm)" and "only_secret k (contents s) (contents s')"
proof -
  obtain s1 m1 where s1: "load_metadata st vm now k s = (s1, Inr m1)" "reliable s1"
      "describes vm (contents s1) k m1" "only_secret k (contents s) (contents s1)"
    using load_describes [OF assms(1,2)] by metis
  obtain s2 where s2: "ss_delete st k s1 = (s2, Inr ())" "reliable s2" "contents s2 = (contents s1)(k := None)"
    using deleteE [OF s1(2)] by blast
  obtain s3 where s3: "ss_delete st (metadataKey k) s2 = (s3, Inr ())" "reliable s3"
      "contents s3 = (contents s2)(metadataKey k := None)"
    using deleteE [OF s2(2)] by blast
  let ?ids = "map sv_id (md_versions m1)"
  obtain s4 where s4: "delete_versions st k ?ids s3 = (s4, map (\<lambda>i. (i, True)) ?ids)" "reliable s4"
      "contents s4 = (\<lambda>x. if x \<in> versionKey k ` set ?ids then None else contents s3 x)"
    using delete_versions_all [OF s3(2)] by blast
  have "only_secret k (contents s) (contents s4)"
    using s1(3,4) s4(3) s3(3) s2(3) by (auto simp: only_secret_def describes_def meta_wf_def)
  then show thesis
    using s1(1) s2(1) s3(1,3) s4 assms(3)
    by (intro that [of s4]) (auto simp: clear_secret_def describes_def meta_wf_def empty_metadata_def)
qed

lemma find_version_in:
  assumes "meta_wf a k m" and "v \<in> set (md_versions m)"
  shows "find_version (sv_id v) m = Some v"
  using assms find_distinct [of sv_id "md_versions m" v] by (simp add: meta_wf_def find_version_def)

text \<open>What the readers return, from the metadata that remain after pruning.\<close>

lemma readers_describe:
  assumes "reliable s" and "describes vm (contents s) k m"
  obtains m1 :: StoredMetadata where "snd (listVersions st vm now k s) =
        Inr (md_currentVersion m1, md_retain m1, map (\<lambda>v. toVersionInfo v (md_currentVersion m1)) (md_versions m1))"
    and "int (length (md_versions m1)) \<le> md_retain m1"
    and "\<And>v. v \<in> set (md_versions m1) \<Longrightarrow> \<exists>x. snd (getValue st vm now k (sv_id v) s) =
        Inr (Some \<lparr>cs_value = x, cs_version = sv_id v, cs_createdAt = Some (sv_createdAt v), cs_labels = sv_labels v\<rparr>)"
    and "md_currentVersion m1 = None \<Longrightarrow> md_versions m1 = [] \<and> snd (getCurrentValue st vm now k s) = Inr None"
    and "\<And>i. md_currentVersion m1 = Some i \<Longrightarrow> i \<in> sv_id ` set (md_versions m1) \<and>
        snd (getCurrentValue st vm now k s) = snd (getValue st vm now k i s)"
proof -
  obtain s1 m1 where s1: "load_metadata st vm now k s = (s1, Inr m1)" "reliable s1"
      "describes vm (contents s1) k m1"
    using load_describes [OF assms(1,2)] by metis
  have wf: "meta_wf (contents s1) k m1" using s1(3) by (simp add: describes_def)
  have gv: "snd (getValue st vm now k (sv_id v) s) =
      Inr (Some \<lparr>cs_value = x, cs_version = sv_id v, cs_createdAt = Some (sv_createdAt v), cs_labels = sv_labels v\<rparr>)"
    if v: "v \<in> set (md_versions m1)" and x: "contents s1 (versionKey k (sv_id v)) = Some x" for v x
  proof -
    obtain s2 where "ss_get st (versionKey k (sv_id v)) s1 = (s2, Inr (Some x))"
      using getE [OF s1(2), of "versionKey k (sv_id v)"] x by auto
    then show ?thesis using s1(1) find_version_in [OF wf v] by (simp add: getValue_def)
  qed
  have current: "snd (getCurrentValue st vm now k s) = snd (getValue st vm now k i s) \<and> i \<in> sv_id ` set (md_versions m1)"
    if i: "md_currentVersion m1 = Some i" for i
  proof -
    obtain v where v: "v \<in> set (md_versions m1)" "sv_id v = i" using wf i by (auto simp: meta_wf_def)
    obtain x where x: "contents s1 (versionKey k i) = Some x" "contents s1 k = Some x" "i \<noteq> []"
      using wf i v by (auto simp: meta_wf_def plain_id_def)
    obtain s2 where "ss_get st k s1 = (s2, Inr (Some x))" using getE [OF s1(2), of k] x(2) by auto
    then show ?thesis
      using s1(1) i x(3) v gv [OF v(1)] x(1) find_version_in [OF wf v(1)] by (auto simp: getCurrentValue_def)
  qed
  show thesis
    using s1(1) wf gv current
    by (intro that [of m1]) (auto simp: listVersions_def getCurrentValue_def meta_wf_def)
qed

lemma current_value:
  assumes "reliable s" and "describes vm (contents s) k m" and "md_currentVersion m = Some i" and "contents s k = Some v"
  shows "\<exists>c. snd (getCurrentValue st vm now k s) = Inr (Some c) \<and> cs_value c = v \<and> cs_version c = i"
proof -
  obtain s1 P where s1: "load_metadata st vm now k s = (s1, Inr (m\<lparr>md_versions := filter P (md_versions m)\<rparr>))"
      "reliable s1" "contents s1 k = contents s k"
    using load_describes [OF assms(1,2)] by metis
  obtain s2 where "ss_get st k s1 = (s2, Inr (Some v))" using getE [OF s1(2), of k] s1(3) assms(4) by auto
  moreover have "i \<noteq> []" using assms(2,3) by (auto simp: describes_def meta_wf_def plain_id_def)
  ultimately show ?thesis using s1(1) assms(3) by (simp add: getCurrentValue_def)
qed

text \<open>Promoting a readable version makes its value the current one.\<close>

lemma promote_current:
  assumes "reliable s" and "describes vm (contents s) k m" and "getValue st vm now k i s = (s0, Inr (Some c))"
  shows "\<exists>s' info c'. promote st vm now k i s = (s', Inr info) \<and>
    snd (getCurrentValue st vm later k s') = Inr (Some c') \<and> cs_value c' = cs_value c \<and> cs_version c' = i"
proof (cases rule: promote_describes [OF assms(1,2), of now i])
  case (1 s' m' info)
  obtain s1 m1 where s1: "load_metadata st vm now k s = (s1, Inr m1)" "contents s1 (versionKey k i) = Some (cs_value c)"
    using assms(3) by (rule getValue_contents)
  obtain P where P: "m1 = m\<lparr>md_versions := filter P (md_versions m)\<rparr>"
      "\<And>v. v \<in> set (md_versions m) \<Longrightarrow> P v \<Longrightarrow> contents s1 (versionKey k (sv_id v)) = contents s (versionKey k (sv_id v))"
    using load_describes [OF assms(1,2), of now] s1(1) by (metis Inr_inject Pair_inject)
  have "i \<in> sv_id ` set (md_versions m1)"
    using assms(3) s1(1) by (auto simp: getValue_def find_version_def find_Some_iff split: option.splits)
  then have "contents s (versionKey k i) = Some (cs_value c)" using P s1(2) by auto
  then show ?thesis using current_value [OF 1(2-4)] 1(1,5) by auto
next
  case (2 s' m')
  then show ?thesis
    using assms(3) by (simp add: getValue_def)
qed

definition all_described :: "VersionedSecretsManager \<Rightarrow> 'a \<Rightarrow> bool" where
  "all_described vm s \<longleftrightarrow> reliable s \<and> (\<forall>k. plain_key k \<longrightarrow> (\<exists>m. describes vm (contents s) k m))"

lemma all_described_only:
  assumes "all_described vm s" and "plain_key k" and "reliable s'" and "describes vm (contents s') k m"
    and "only_secret k (contents s) (contents s')"
  shows "all_described vm s'"
  using assms describes_other unfolding all_described_def by metis

lemma load_keeps:
  assumes "all_described vm s" and "plain_key k"
  obtains s' m where "load_metadata st vm now k s = (s', Inr m)" and "all_described vm s'"
proof -
  obtain m where "reliable s" "describes vm (contents s) k m"
    using assms by (auto simp: all_described_def)
  then show thesis using load_describes that all_described_only [OF assms] by metis
qed

lemma step_keeps:
  assumes "all_described vm s" and "op_key_ok op" and "1 \<le> vm_defaultRetain vm"
  shows "all_described vm (secret_step st vm (now, op) s)"
proof -
  have rel: "reliable s" and desc: "plain_key k \<Longrightarrow> \<exists>m. describes vm (contents s) k m" for k
    using assms(1) by (auto simp: all_described_def)
  have got: "all_described vm s'" if "ss_get st k s1 = (s', r)" "all_described vm s1" for k s1 s' r
    using get_reliable [of s1 k] get_keeps [OF that(1)] that by (auto simp: all_described_def)
  note keep = all_described_only [OF assms(1)]
  show ?thesis
  proof (cases op)
    case (Rotate i k v opts)
    then obtain m where m: "describes vm (contents s) k m" using desc assms(2) by auto
    show ?thesis
      by (rule rotate_describes [OF rel m, of i opts now v]) (use Rotate assms(2) in \<open>auto intro: keep\<close>)
  next
    case (Promote k i)
    then obtain m where m: "describes vm (contents s) k m" using desc assms(2) by auto
    show ?thesis
      by (rule promote_describes [OF rel m, of now i]) (use Promote assms(2) in \<open>auto intro: keep\<close>)
  next
    case (Clear k)
    then obtain m where m: "describes vm (contents s) k m" using desc assms(2) by auto
    show ?thesis
      by (rule clear_describes [OF rel m assms(3), of now]) (use Clear assms(2) in \<open>auto intro: keep\<close>)
  next
    case (ListVersions k)
    then have "plain_key k" using assms(2) by simp
    then obtain s1 m where "load_metadata st vm now k s = (s1, Inr m)" "all_described vm s1"
      using load_keeps [OF assms(1)] by blast
    then show ?thesis
      by (auto simp: \<open>op = ListVersions k\<close> listVersions_def dest: got split: prod.split sum.split option.split)
  next
    case (GetCurrentValue k)
    then have "plain_key k" using assms(2) by simp
    then obtain s1 m where "load_metadata st vm now k s = (s1, Inr m)" "all_described vm s1"
      using load_keeps [OF assms(1)] by blast
    then show ?thesis
      by (auto simp: \<open>op = GetCurrentValue k\<close> getCurrentValue_def dest: got split: prod.split sum.split option.split)
  next
    case (GetValue k i)
    then have "plain_key k" using assms(2) by simp
    then obtain s1 m where "load_metadata st vm now k s = (s1, Inr m)" "all_described vm s1"
      using load_keeps [OF assms(1)] by blast
    then show ?thesis
      by (auto simp: \<open>op = GetValue k i\<close> getValue_def dest: got split: prod.split sum.split option.split)
  qed
qed

lemma run_keeps:
  "all_described vm s \<Longrightarrow> \<forall>x\<in>set ops. op_key_ok (snd x) \<Longrightarrow> 1 \<le> vm_defaultRetain vm \<Longrightarrow>
     all_described vm (secret_run st vm ops s)"
proof (induction ops arbitrary: s)
  case (Cons x ops)
  then have "all_described vm (secret_step st vm x s)" using step_keeps [of vm s "snd x" "fst x"] by simp
  with Cons show ?case by (simp add: secret_run_def)
qed (simp add: secret_run_def)

end

section \<open>The local file store implements the contracts\<close>

interpretation local_store: secrets_store localFileStore "\<lambda>s. map_of (lf_cache s)"
  by unfold_locales
    (auto simp: localFileStore_def lf_get_def lf_set_def lf_delete_def lf_persist_def jmap_simps
      split: list.splits if_splits)

interpretation reliable_local_store: reliable_store localFileStore "\<lambda>s. map_of (lf_cache s)" "\<lambda>s. lf_writes s = []"
  by unfold_locales (auto simp: localFileStore_def lf_get_def lf_set_def lf_delete_def lf_persist_def)

definition empty_file_store :: "bool list \<Rightarrow> LocalFileStore" where
  "empty_file_store outcomes = \<lparr>lf_cache = [], lf_file = [], lf_writes = outcomes\<rparr>"

text \<open>
  C17.  A secret's version never shows another value than the one it was created with: after
  any sequence of operations on an initially empty \<^verbatim>\<open>LocalFileStore\<close>, whichever of its file
  writes fail, a value that \<^verbatim>\<open>getValue\<close> returns for a version was passed to \<^verbatim>\<open>rotate\<close> for
  that secret and that version.
\<close>

theorem version_values_immutable:
  assumes "\<forall>x\<in>set ops. op_key_ok (snd x)" and "plain_id i"
    and "snd (getValue localFileStore vm now k i
      (secret_run localFileStore vm ops (empty_file_store outcomes))) = Inr (Some c)"
  shows "\<exists>t opts. (t, Rotate i k (cs_value c) opts) \<in> set ops"
proof -
  have "local_store.stored_in {} (empty_file_store outcomes)"
    by (simp add: local_store.stored_in_def empty_file_store_def)
  from local_store.stored_in_run [OF this assms(1), of vm]
  have R: "local_store.stored_in (\<Union>x\<in>set ops. rotated (snd x))
      (secret_run localFileStore vm ops (empty_file_store outcomes))" by simp
  obtain s' where "getValue localFileStore vm now k i
      (secret_run localFileStore vm ops (empty_file_store outcomes)) = (s', Inr (Some c))"
    using assms(3) by (metis prod.collapse)
  then have "(k @ CHR '':'' # i, cs_value c) \<in> (\<Union>x\<in>set ops. rotated (snd x))"
    by (rule local_store.getValue_rotated [OF R])
  then obtain t op where op: "(t, op) \<in> set ops" "(k @ CHR '':'' # i, cs_value c) \<in> rotated op" by auto
  then obtain j k' v opts where j: "op = Rotate j k' v opts" "k @ CHR '':'' # i = k' @ CHR '':'' # j" "v = cs_value c"
    by (cases op) auto
  have "plain_id j" using assms(1) op(1) j(1) by auto
  then have "k = k' \<and> i = j"
    using versionKey_eq [of k i k' j] j(2) assms(2) by (simp add: versionKey_def)
  with op(1) j show ?thesis by blast
qed

lemma run_described:
  assumes "\<forall>x\<in>set ops. op_key_ok (snd x)" and "plain_key k" and "vm = new_secrets_manager isoText dateParse retain window"
    and "s = secret_run localFileStore vm ops (empty_file_store [])"
  obtains m where "lf_writes s = []" and "describes vm (map_of (lf_cache s)) k m"
proof -
  have r: "1 \<le> vm_defaultRetain vm" by (simp add: assms(3) new_secrets_manager_def clampRetain_ge1)
  then have "reliable_local_store.all_described vm (empty_file_store [])"
    by (auto simp: reliable_local_store.all_described_def empty_file_store_def describes_def meta_wf_def
        empty_metadata_def)
  from reliable_local_store.run_keeps [OF this assms(1) r] show thesis
    using that assms(2,4) by (auto simp: reliable_local_store.all_described_def)
qed

text \<open>
  Metadata, current value and version values of a secret agree as long as writes
  succeed: after any sequence of operations, no more versions are listed than the secret
  retains, every listed version has a value, exactly when a current version is named there
  are versions at all, and then the current value is the value of that version.
\<close>

theorem secrets_consistent:
  assumes "\<forall>x\<in>set ops. op_key_ok (snd x)" and "plain_key k" and "vm = new_secrets_manager isoText dateParse retain window"
    and "s = secret_run localFileStore vm ops (empty_file_store [])"
  shows "\<exists>current r vs. snd (listVersions localFileStore vm now k s) = Inr (current, r, vs) \<and>
    int (length vs) \<le> r \<and>
    (\<forall>v\<in>set vs. \<exists>c. snd (getValue localFileStore vm now k (sv_id v) s) = Inr (Some c)) \<and>
    (case current of
       None \<Rightarrow> vs = [] \<and> snd (getCurrentValue localFileStore vm now k s) = Inr None
     | Some i \<Rightarrow> i \<in> sv_id ` set vs \<and>
         snd (getCurrentValue localFileStore vm now k s) = snd (getValue localFileStore vm now k i s))"
proof -
  obtain m where m: "lf_writes s = []" "describes vm (map_of (lf_cache s)) k m"
    using run_described [OF assms] by blast
  show ?thesis
    by (rule reliable_local_store.readers_describe [OF m, of now])
       (auto simp: toVersionInfo_def image_image split: option.split)
qed

text \<open>
  A rollback restores the earlier value: after any sequence of operations whose writes
  succeed, promoting a version that \<^verbatim>\<open>getValue\<close> can read succeeds, and from then on the
  current version is that one and the current value the value it was read with.
\<close>

theorem promote_restores:
  assumes "\<forall>x\<in>set ops. op_key_ok (snd x)" and "plain_key k" and "vm = new_secrets_manager isoText dateParse retain window"
    and "s = secret_run localFileStore vm ops (empty_file_store [])"
    and "snd (getValue localFileStore vm now k i s) = Inr (Some c)"
  shows "\<exists>s' info c'. promote localFileStore vm now k i s = (s', Inr info) \<and>
    snd (getCurrentValue localFileStore vm later k s') = Inr (Some c') \<and>
    cs_value c' = cs_value c \<and> cs_version c' = i"
proof -
  obtain m where m: "lf_writes s = []" "describes vm (map_of (lf_cache s)) k m"
    using run_described [OF assms(1-4)] by blast
  obtain s0 where "getValue localFileStore vm now k i s = (s0, Inr (Some c))"
    using assms(5) by (metis prod.collapse)
  then show ?thesis by (rule reliable_local_store.promote_current [OF m])
qed

section \<open>A failed file write\<close>

text \<open>\<^verbatim>\<open>LocalFileStore.set\<close> changes its cache before it persists and does not undo that when
  the write fails, whereas \<^verbatim>\<open>rotate\<close> takes a failed write of the metadata to have had no
  effect and only removes the value of the new version.\<close>

definition demo_secrets :: VersionedSecretsManager where
  "demo_secrets = new_secrets_manager show_int (\<lambda>_. None) None None"

definition plain_options :: RotateOptions where
  "plain_options = \<lparr>rt_labels = None, rt_retain = None\<rparr>"

definition demo_secret_ops :: "(time \<times> secret_op) list" where
  "demo_secret_ops = [(1, Rotate ''a'' ''key'' ''one'' plain_options), (2, Rotate ''b'' ''key'' ''two'' plain_options)]"

theorem failed_rotation_inconsistent:
  "let s = secret_run localFileStore demo_secrets demo_secret_ops (empty_file_store [True, True, True, True, False]) in
     map_option cs_version (projr (snd (getCurrentValue localFileStore demo_secrets 3 ''key'' s))) = Some ''b'' \<and>
     map_option cs_value (projr (snd (getCurrentValue localFileStore demo_secrets 3 ''key'' s))) = Some ''one'' \<and>
     snd (getValue localFileStore demo_secrets 3 ''key'' ''b'' s) = Inr None"
  by code_simp

section \<open>Concrete runs\<close>

theorem version_values_immutable_witness:
  "\<exists>t opts. (t, Rotate ''a'' ''key'' ''one'' opts) \<in> set demo_secret_ops"
proof -
  have "snd (getValue localFileStore demo_secrets 3 ''key'' ''a''
      (secret_run localFileStore demo_secrets demo_secret_ops (empty_file_store [True, True, True, True, False]))) =
    Inr (Some \<lparr>cs_value = ''one'', cs_version = ''a'', cs_createdAt = Some ''1'', cs_labels = None\<rparr>)"
    by code_simp
  moreover have "\<forall>x\<in>set demo_secret_ops. op_key_ok (snd x)" "plain_id ''a''" by code_simp+
  ultimately show ?thesis using version_values_immutable [of demo_secret_ops "''a''"] by force
qed

theorem secrets_consistent_witness:
  "\<exists>current r vs. snd (listVersions localFileStore demo_secrets 3 ''key''
      (secret_run localFileStore demo_secrets demo_secret_ops (empty_file_store []))) = Inr (current, r, vs) \<and>
    int (length vs) \<le> r"
proof -
  have "\<forall>x\<in>set demo_secret_ops. op_key_ok (snd x)" "plain_key ''key''" by code_simp+
  from secrets_consistent [OF this demo_secrets_def refl, of 3] show ?thesis by blast
qed

theorem promote_restores_witness:
  "\<exists>s' info c'. promote localFileStore demo_secrets 3 ''key'' ''a''
      (secret_run localFileStore demo_secrets demo_secret_ops (empty_file_store [])) = (s', Inr info) \<and>
    snd (getCurrentValue localFileStore demo_secrets 4 ''key'' s') = Inr (Some c') \<and>
    cs_value c' = ''one'' \<and> cs_version c' = ''a''"
proof -
  have "snd (getValue localFileStore demo_secrets 3 ''key'' ''a''
      (secret_run localFileStore demo_secrets demo_secret_ops (empty_file_store []))) =
    Inr (Some \<lparr>cs_value = ''one'', cs_version = ''a'', cs_createdAt = Some ''1'', cs_labels = None\<rparr>)"
    by code_simp
  moreover have "\<forall>x\<in>set demo_secret_ops. op_key_ok (snd x)" "plain_key ''key''" by code_simp+
  ultimately show ?thesis using promote_restores [OF _ _ demo_secrets_def refl, of demo_secret_ops "''key''"] by force
qed

end
