(* ===== verification/Provider_Limiter.thy ===== *)
theory Provider_Limiter
  imports Rate_Limit
begin

text \<open>
  The queueing rate limiter in front of the model providers, class \<^verbatim>\<open>RateLimiter\<close> of
  \<^verbatim>\<open>services/orchestrator/src/providers/resilience.ts\<close>.  Tasks of one key wait in an array that
  an asynchronous loop, \<^verbatim>\<open>runQueue\<close>, works off.  A loop holds a reference to the array across
  its \<^verbatim>\<open>await\<close>s, so that arrays live in a heap and \<^verbatim>\<open>queues\<close> maps keys to their addresses.
  An operation runs up to the next \<^verbatim>\<open>await\<close>; the place where a loop waits is its phase.
\<close>

section \<open>State\<close>

text \<open>A loop waits for the answer of \<^verbatim>\<open>store.allow\<close> (already computed by the memory store, at
  the time of the call), for its timer, or for the task it runs.  The log records when a task
  was started, with the time its start was granted, when it settled, and loops that ended
  with an exception.\<close>

datatype loop_phase =
    Asked string nat time RateLimitDecision
  | Sleeping string time
  | Busy string nat

datatype limiter_event =
    Started string nat time
  | Settled nat bool
  | Crashed string

record RateLimiter =
  lm_windowMs :: int
  lm_maxRequests :: int
  lm_prefix :: string
  lm_store :: rate_store
  lm_heap :: "(nat, nat list) jsmap"
  lm_queues :: "(string, nat) jsmap"
  lm_processing :: "string list"
  lm_loops :: "(nat, loop_phase) jsmap"
  lm_fresh :: nat
  lm_log :: "limiter_event list"

definition new_RateLimiter :: "int \<Rightarrow> int \<Rightarrow> string \<Rightarrow> string + RateLimiter" where
  "new_RateLimiter windowMs maxRequests pre =
     (if windowMs \<le> 0 then Inl ''RateLimiter windowMs must be a positive number''
      else if maxRequests \<le> 0 then Inl ''RateLimiter maxRequests must be a positive number''
      else Inr \<lparr>lm_windowMs = windowMs, lm_maxRequests = maxRequests, lm_prefix = pre, lm_store = [], lm_heap = [],
                lm_queues = [], lm_processing = [], lm_loops = [], lm_fresh = 0, lm_log = []\<rparr>)"

section \<open>The loop\<close>

abbreviation queue_at :: "RateLimiter \<Rightarrow> nat \<Rightarrow> nat list" where
  "queue_at l q \<equiv> jget_or [] (lm_heap l) q"

text \<open>The top of the \<^verbatim>\<open>while\<close> loop up to the \<^verbatim>\<open>await\<close> of \<^verbatim>\<open>store.allow\<close>; when the queue is empty the
  loop returns, and its \<^verbatim>\<open>finally\<close> block finds no queue for the key any more.\<close>

definition loop_top :: "time \<Rightarrow> nat \<Rightarrow> string \<Rightarrow> RateLimiter \<Rightarrow> RateLimiter" where
  "loop_top now i key l =
     (case map_of (lm_queues l) key of
        None \<Rightarrow> l\<lparr>lm_queues := jdelete key (lm_queues l), lm_loops := jdelete i (lm_loops l),
                  lm_processing := removeAll key (lm_processing l)\<rparr>
      | Some q \<Rightarrow>
          if queue_at l q = []
          then l\<lparr>lm_queues := jdelete key (lm_queues l), lm_loops := jdelete i (lm_loops l),
                 lm_processing := removeAll key (lm_processing l)\<rparr>
          else let (store, d) = allow (lm_prefix l) now key (lm_windowMs l) (lm_maxRequests l) (lm_store l)
               in l\<lparr>lm_store := store, lm_loops := jset i (Asked key q now d) (lm_loops l)\<rparr>)"

definition runQueue :: "time \<Rightarrow> string \<Rightarrow> RateLimiter \<Rightarrow> RateLimiter" where
  "runQueue now key l =
     (if key \<in> set (lm_processing l) then l
      else loop_top now (lm_fresh l) key
        (l\<lparr>lm_processing := lm_processing l @ [key], lm_fresh := lm_fresh l + 1\<rparr>))"

text \<open>The \<^verbatim>\<open>finally\<close> block after an exception in the loop.\<close>

definition loop_finally :: "time \<Rightarrow> nat \<Rightarrow> string \<Rightarrow> RateLimiter \<Rightarrow> RateLimiter" where
  "loop_finally now i key l =
     (let l1 = l\<lparr>lm_loops := jdelete i (lm_loops l), lm_processing := removeAll key (lm_processing l)\<rparr>
      in case map_of (lm_queues l1) key of
           None \<Rightarrow> l1
         | Some q \<Rightarrow> if queue_at l1 q \<noteq> [] then runQueue now key l1 else l1)"

definition schedule :: "time \<Rightarrow> string \<Rightarrow> nat \<Rightarrow> RateLimiter \<Rightarrow> RateLimiter" where
  "schedule now key task l =
     runQueue now key
       (case map_of (lm_queues l) key of
          Some q \<Rightarrow> l\<lparr>lm_heap := jset q (queue_at l q @ [task]) (lm_heap l)\<rparr>
        | None \<Rightarrow> l\<lparr>lm_heap := jset (lm_fresh l) [task] (lm_heap l), lm_queues := jset key (lm_fresh l) (lm_queues l),
                    lm_fresh := lm_fresh l + 1\<rparr>)"

text \<open>After \<^verbatim>\<open>store.allow\<close>: sleep, or take the next task and run it.  When another loop has emptied
  the array, \<^verbatim>\<open>queue.shift()\<close> is \<^verbatim>\<open>undefined\<close>, and the handler of the resulting \<^verbatim>\<open>TypeError\<close> throws
  another one, which nobody handles.\<close>

definition resume_asked :: "time \<Rightarrow> nat \<Rightarrow> RateLimiter \<Rightarrow> RateLimiter" where
  "resume_asked now i l =
     (case map_of (lm_loops l) i of
        Some (Asked key q granted d) \<Rightarrow>
          if \<not> rd_allowed d
          then l\<lparr>lm_loops := jset i (Sleeping key
                 (now + max 50 (case rd_retryAfterMs d of Some r \<Rightarrow> r | None \<Rightarrow> 0))) (lm_loops l)\<rparr>
          else (case queue_at l q of
                  [] \<Rightarrow> let l1 = l\<lparr>lm_queues := jdelete key (lm_queues l), lm_log := lm_log l @ [Crashed key]\<rparr>
                        in loop_finally now i key l1
                | t # ts \<Rightarrow>
                    l\<lparr>lm_heap := jset q ts (lm_heap l),
                      lm_queues := (if ts = [] then jdelete key (lm_queues l) else lm_queues l),
                      lm_loops := jset i (Busy key t) (lm_loops l), lm_log := lm_log l @ [Started key t granted]\<rparr>)
      | _ \<Rightarrow> l)"

definition wake :: "time \<Rightarrow> nat \<Rightarrow> RateLimiter \<Rightarrow> RateLimiter" where
  "wake now i l =
     (case map_of (lm_loops l) i of
        Some (Sleeping key t) \<Rightarrow> if t \<le> now then loop_top now i key l else l
      | _ \<Rightarrow> l)"

definition task_done :: "time \<Rightarrow> nat \<Rightarrow> bool \<Rightarrow> RateLimiter \<Rightarrow> RateLimiter" where
  "task_done now i ok l =
     (case map_of (lm_loops l) i of
        Some (Busy key t) \<Rightarrow> loop_top now i key (l\<lparr>lm_log := lm_log l @ [Settled t ok]\<rparr>)
      | _ \<Rightarrow> l)"

definition reset_limiter :: "string option \<Rightarrow> RateLimiter \<Rightarrow> RateLimiter" where
  "reset_limiter key l =
     (case key of
        Some k \<Rightarrow> l\<lparr>lm_queues := jdelete k (lm_queues l), lm_processing := removeAll k (lm_processing l)\<rparr>
      | None \<Rightarrow> l\<lparr>lm_queues := [], lm_processing := []\<rparr>)"

section \<open>Runs\<close>

datatype limiter_op =
    Schedule string nat
  | ResumeAsked nat
  | Wake nat
  | TaskDone nat bool
  | ResetLimiter "string option"

fun limiter_step :: "time \<times> limiter_op \<Rightarrow> RateLimiter \<Rightarrow> RateLimiter" where
  "limiter_step (now, Schedule key t) l = schedule now key t l"
| "limiter_step (now, ResumeAsked i) l = resume_asked now i l"
| "limiter_step (now, Wake i) l = wake now i l"
| "limiter_step (now, TaskDone i ok) l = task_done now i ok l"
| "limiter_step (now, ResetLimiter k) l = reset_limiter k l"

definition limiter_run :: "(time \<times> limiter_op) list \<Rightarrow> RateLimiter \<Rightarrow> RateLimiter" where
  "limiter_run ops l = fold limiter_step ops l"

fun scheduled :: "string \<Rightarrow> (time \<times> limiter_op) list \<Rightarrow> nat list" where
  "scheduled key [] = []"
| "scheduled key ((now, op) # ops) =
     (case op of Schedule k t \<Rightarrow> if k = key then [t] else [] | _ \<Rightarrow> []) @ scheduled key ops"

fun started :: "string \<Rightarrow> limiter_event list \<Rightarrow> nat list" where
  "started key [] = []"
| "started key (e # es) = (case e of Started k t _ \<Rightarrow> if k = key then [t] else [] | _ \<Rightarrow> []) @ started key es"

definition waiting :: "string \<Rightarrow> RateLimiter \<Rightarrow> nat list" where
  "waiting key l = (case map_of (lm_queues l) key of None \<Rightarrow> [] | Some q \<Rightarrow> queue_at l q)"

lemma started_append: "started k (xs @ ys) = started k xs @ started k ys"
  by (induction xs) simp_all

section \<open>The invariant\<close>

fun phase_key :: "loop_phase \<Rightarrow> string" where
  "phase_key (Asked key q t d) = key"
| "phase_key (Sleeping key t) = key"
| "phase_key (Busy key t) = key"

text \<open>Every queue has tasks and exactly one loop; a loop that asked for a grant holds the
  current queue of its key.  Stated over the loops \<open>L\<close>, the queues \<open>Q\<close>, the keys in
  \<^verbatim>\<open>processing\<close> and the next identifier.\<close>

definition loops_inv ::
  "(nat \<Rightarrow> loop_phase option) \<Rightarrow> (string \<Rightarrow> nat option) \<Rightarrow> string set \<Rightarrow> nat \<Rightarrow> bool" where
  "loops_inv L Q P n \<longleftrightarrow>
     (\<forall>i p. L i = Some p \<longrightarrow> i < n \<and> phase_key p \<in> P) \<and>
     (\<forall>i j p p'. L i = Some p \<longrightarrow> L j = Some p' \<longrightarrow> phase_key p = phase_key p' \<longrightarrow> i = j) \<and>
     (\<forall>i k q t d. L i = Some (Asked k q t d) \<longrightarrow> Q k = Some q) \<and>
     (\<forall>k\<in>P. \<exists>i p. L i = Some p \<and> phase_key p = k)"

lemma loops_invI:
  assumes "\<And>i p. L i = Some p \<Longrightarrow> i < n \<and> phase_key p \<in> P"
    and "\<And>i j p p'. L i = Some p \<Longrightarrow> L j = Some p' \<Longrightarrow> phase_key p = phase_key p' \<Longrightarrow> i = j"
    and "\<And>i k q t d. L i = Some (Asked k q t d) \<Longrightarrow> Q k = Some q"
    and "\<And>k. k \<in> P \<Longrightarrow> \<exists>i p. L i = Some p \<and> phase_key p = k"
  shows "loops_inv L Q P n"
  using assms unfolding loops_inv_def by blast

lemma loops_invD:
  assumes "loops_inv L Q P n"
  shows "L i = Some p \<Longrightarrow> i < n" and "L i = Some p \<Longrightarrow> phase_key p \<in> P"
    and "L i = Some p \<Longrightarrow> L j = Some p' \<Longrightarrow> phase_key p = phase_key p' \<Longrightarrow> i = j"
    and "L i = Some (Asked k q t d) \<Longrightarrow> Q k = Some q"
    and "k \<in> P \<Longrightarrow> \<exists>i p. L i = Some p \<and> phase_key p = k"
  using assms unfolding loops_inv_def by blast+

lemma loops_inv_phase:
  assumes inv: "loops_inv L Q P n" and i: "L i = Some p" and key: "phase_key p' = phase_key p"
    and asked: "\<And>k q t d. p' = Asked k q t d \<Longrightarrow> Q k = Some q"
  shows "loops_inv (L(i \<mapsto> p')) Q P n"
proof (rule loops_invI)
  fix k assume "k \<in> P"
  then obtain j r where r: "L j = Some r" "phase_key r = k" using loops_invD(5) [OF inv] by blast
  show "\<exists>j r. (L(i \<mapsto> p')) j = Some r \<and> phase_key r = k"
    using r i key by (cases "j = i") auto
qed (use loops_invD [OF inv] i key asked in \<open>auto split: if_splits\<close>)

lemma loops_inv_leave:
  assumes inv: "loops_inv L Q P n" and i: "L i = Some p" and key: "phase_key p = k"
  shows "loops_inv (L(i := None)) (Q(k := None)) (P - {k}) n"
proof (rule loops_invI)
  have other: "phase_key r \<noteq> k" if "L j = Some r" "j \<noteq> i" for j r
    using loops_invD(3) [OF inv] i key that by blast
  then show "(Q(k := None)) k' = Some q" if "(L(i := None)) j = Some (Asked k' q t d)" for j k' q t d
    using that loops_invD(4) [OF inv] by (fastforce split: if_splits)
  show "j < n \<and> phase_key r \<in> P - {k}" if "(L(i := None)) j = Some r" for j r
    using that other loops_invD(1,2) [OF inv] by (auto split: if_splits)
  fix k' assume k': "k' \<in> P - {k}"
  then obtain j r where r: "L j = Some r" "phase_key r = k'" using loops_invD(5) [OF inv] by blast
  then show "\<exists>j r. (L(i := None)) j = Some r \<and> phase_key r = k'"
    using k' i key by (cases "j = i") auto
qed (use loops_invD(3) [OF inv] in \<open>auto split: if_splits\<close>)

lemma loops_inv_enter:
  assumes inv: "loops_inv L Q P n" and k: "k \<notin> P" and key: "phase_key p = k" and i: "i \<ge> n" "i < m"
    and asked: "\<And>k q t d. p = Asked k q t d \<Longrightarrow> Q k = Some q"
  shows "loops_inv (L(i \<mapsto> p)) Q (insert k P) m"
proof (rule loops_invI)
  have other: "phase_key r \<noteq> k" if "L j = Some r" for j r
    using loops_invD(2) [OF inv] k that by blast
  then show "j = j'" if "(L(i \<mapsto> p)) j = Some r" "(L(i \<mapsto> p)) j' = Some r'" "phase_key r = phase_key r'" for j j' r r'
    using that key loops_invD(3) [OF inv] by (auto split: if_splits)
  show "j < m \<and> phase_key r \<in> insert k P" if "(L(i \<mapsto> p)) j = Some r" for j r
    using that key i loops_invD(1,2) [OF inv] by (fastforce split: if_splits)
  fix k' assume k': "k' \<in> insert k P"
  show "\<exists>j r. (L(i \<mapsto> p)) j = Some r \<and> phase_key r = k'"
  proof (cases "k' = k")
    case True
    then show ?thesis using key by auto
  next
    case False
    then obtain j r where r: "L j = Some r" "phase_key r = k'" using loops_invD(5) [OF inv] k' by blast
    moreover have "j \<noteq> i" using loops_invD(1) [OF inv r(1)] i by simp
    ultimately show ?thesis by auto
  qed
qed (use loops_invD(4) [OF inv] asked in \<open>auto split: if_splits\<close>)

lemma loops_inv_queue:
  assumes inv: "loops_inv L Q P n" and "\<And>i q t d. L i \<noteq> Some (Asked k q t d)" and "n \<le> m"
  shows "loops_inv L (Q(k := x)) P m"
proof (rule loops_invI)
  show "(Q(k := x)) k' = Some q" if "L i = Some (Asked k' q t d)" for i k' q t d
    using loops_invD(4) [OF inv that] assms(2) that by (cases "k' = k") auto
  show "i < m \<and> phase_key p \<in> P" if "L i = Some p" for i p
    using loops_invD(1,2) [OF inv that] assms(3) by simp
qed (use loops_invD(3,5) [OF inv] in blast)+

definition queues_inv :: "RateLimiter \<Rightarrow> bool" where
  "queues_inv l \<longleftrightarrow>
     (\<forall>k q. map_of (lm_queues l) k = Some q \<longrightarrow> q < lm_fresh l \<and> queue_at l q \<noteq> [] \<and> k \<in> set (lm_processing l)) \<and>
     (\<forall>k k' q. map_of (lm_queues l) k = Some q \<longrightarrow> map_of (lm_queues l) k' = Some q \<longrightarrow> k = k')"

definition limiter_inv :: "RateLimiter \<Rightarrow> bool" where
  "limiter_inv l \<longleftrightarrow> queues_inv l \<and>
     loops_inv (map_of (lm_loops l)) (map_of (lm_queues l)) (set (lm_processing l)) (lm_fresh l)"

text \<open>The top of the loop keeps the invariant and neither starts nor loses a task.\<close>

lemma loop_top_queue:
  assumes "queues_inv l" and "map_of (lm_queues l) key = Some q"
  shows "loop_top now i key l =
    l\<lparr>lm_store := fst (allow (lm_prefix l) now key (lm_windowMs l) (lm_maxRequests l) (lm_store l)),
      lm_loops := jset i (Asked key q now
        (snd (allow (lm_prefix l) now key (lm_windowMs l) (lm_maxRequests l) (lm_store l)))) (lm_loops l)\<rparr>"
proof -
  have "queue_at l q \<noteq> []" using assms by (simp add: queues_inv_def)
  then show ?thesis using assms(2) by (simp add: loop_top_def Let_def case_prod_unfold)
qed

lemma queues_inv_cong:
  "lm_queues l' = lm_queues l \<Longrightarrow> lm_heap l' = lm_heap l \<Longrightarrow> set (lm_processing l) \<subseteq> set (lm_processing l') \<Longrightarrow>
     lm_fresh l \<le> lm_fresh l' \<Longrightarrow> queues_inv l \<Longrightarrow> queues_inv l'"
  unfolding queues_inv_def by (metis less_le_trans subsetD)

lemma loop_top_inv:
  assumes inv: "limiter_inv l" and i: "map_of (lm_loops l) i = Some p" and key: "phase_key p = key"
  shows "limiter_inv (loop_top now i key l)" and "waiting k (loop_top now i key l) = waiting k l"
    and "lm_log (loop_top now i key l) = lm_log l"
proof -
  have Q: "queues_inv l" and L: "loops_inv (map_of (lm_loops l)) (map_of (lm_queues l)) (set (lm_processing l)) (lm_fresh l)"
    using inv by (simp_all add: limiter_inv_def)
  have "limiter_inv (loop_top now i key l) \<and> waiting k (loop_top now i key l) = waiting k l \<and>
      lm_log (loop_top now i key l) = lm_log l"
  proof (cases "map_of (lm_queues l) key")
    case None
    then have t: "loop_top now i key l = l\<lparr>lm_queues := jdelete key (lm_queues l), lm_loops := jdelete i (lm_loops l),
        lm_processing := removeAll key (lm_processing l)\<rparr>"
      by (simp add: loop_top_def)
    have "queues_inv (loop_top now i key l)"
      using Q None by (auto simp: t queues_inv_def jmap_simps)
    then show ?thesis
      using loops_inv_leave [OF L i key] None
      by (auto simp: limiter_inv_def t jmap_simps waiting_def split: option.split)
  next
    case (Some q)
    have "loops_inv ((map_of (lm_loops l))(i \<mapsto> Asked key q now d)) (map_of (lm_queues l)) (set (lm_processing l)) (lm_fresh l)" for d
      by (rule loops_inv_phase [OF L i]) (use key Some in auto)
    moreover have "queues_inv (loop_top now i key l)"
      unfolding loop_top_queue [OF Q Some] by (rule queues_inv_cong [OF _ _ _ _ Q]) simp_all
    ultimately show ?thesis
      unfolding limiter_inv_def loop_top_queue [OF Q Some] by (simp add: jmap_simps waiting_def split: option.split)
  qed
  then show "limiter_inv (loop_top now i key l)" "waiting k (loop_top now i key l) = waiting k l"
    "lm_log (loop_top now i key l) = lm_log l" by simp_all
qed

text \<open>Scheduling appends to the queue of the key.\<close>

lemma schedule_inv:
  assumes inv: "limiter_inv l"
  shows "limiter_inv (schedule now key t l)" and "lm_log (schedule now key t l) = lm_log l"
    and "waiting k (schedule now key t l) = waiting k l @ (if k = key then [t] else [])"
proof -
  have Q: "queues_inv l" and L: "loops_inv (map_of (lm_loops l)) (map_of (lm_queues l)) (set (lm_processing l)) (lm_fresh l)"
    using inv by (simp_all add: limiter_inv_def)
  have "limiter_inv (schedule now key t l) \<and> lm_log (schedule now key t l) = lm_log l \<and>
      waiting k (schedule now key t l) = waiting k l @ (if k = key then [t] else [])"
  proof (cases "map_of (lm_queues l) key")
    case (Some q)
    let ?l = "l\<lparr>lm_heap := jset q (queue_at l q @ [t]) (lm_heap l)\<rparr>"
    have "key \<in> set (lm_processing l)" using Q Some by (simp add: queues_inv_def)
    then have s: "schedule now key t l = ?l" using Some by (simp add: schedule_def runQueue_def)
    have h: "queue_at ?l q' = (if q' = q then queue_at l q @ [t] else queue_at l q')" for q'
      by (simp add: jget_or_def jmap_simps)
    have "queues_inv ?l" using Q unfolding queues_inv_def h by auto
    moreover have "waiting k ?l = waiting k l @ (if k = key then [t] else [])"
      using Q Some unfolding waiting_def queues_inv_def by (auto simp: jget_or_jset split: option.split)
    ultimately show ?thesis using L by (simp add: s limiter_inv_def)
  next
    case None
    let ?l = "l\<lparr>lm_heap := jset (lm_fresh l) [t] (lm_heap l), lm_queues := jset key (lm_fresh l) (lm_queues l),
        lm_fresh := lm_fresh l + 1\<rparr>"
    let ?l2 = "?l\<lparr>lm_processing := lm_processing l @ [key], lm_fresh := lm_fresh l + 2\<rparr>"
    have old: "q < lm_fresh l" if "map_of (lm_queues l) k' = Some q" for k' q
      using Q that by (simp add: queues_inv_def)
    have asked: "map_of (lm_loops l) j \<noteq> Some (Asked key q a d)" for j q a d
      using loops_invD(4) [OF L] None by (metis option.distinct(1))
    have L1: "loops_inv (map_of (lm_loops l)) ((map_of (lm_queues l))(key \<mapsto> lm_fresh l)) (set (lm_processing l)) (lm_fresh l + 1)"
      by (rule loops_inv_queue [OF L asked]) simp
    have w: "waiting k ?l = waiting k l @ (if k = key then [t] else [])"
      using None by (auto simp: waiting_def jget_or_jset jmap_simps split: option.split dest: old)
    have Q2: "queues_inv ?l2" using Q old
      by (auto simp: queues_inv_def jget_or_def jmap_simps less_SucI split: if_splits)
    have s: "schedule now key t l = (if key \<in> set (lm_processing l) then ?l else loop_top now (lm_fresh l + 1) key ?l2)"
      using None by (simp add: schedule_def runQueue_def)
    show ?thesis
    proof (cases "key \<in> set (lm_processing l)")
      case True
      moreover have "queues_inv ?l" using Q old True
        by (auto simp: queues_inv_def jget_or_def jmap_simps less_SucI split: if_splits)
      ultimately show ?thesis using L1 w by (simp add: s limiter_inv_def jmap_simps)
    next
      case False
      have q: "map_of (lm_queues ?l2) key = Some (lm_fresh l)" by (simp add: jmap_simps)
      let ?d = "snd (allow (lm_prefix l) now key (lm_windowMs l) (lm_maxRequests l) (lm_store l))"
      have "loops_inv ((map_of (lm_loops l))(lm_fresh l + 1 \<mapsto> Asked key (lm_fresh l) now ?d))
          ((map_of (lm_queues l))(key \<mapsto> lm_fresh l)) (insert key (set (lm_processing l))) (lm_fresh l + 2)"
        by (rule loops_inv_enter [OF L1 False]) simp_all
      moreover have "queues_inv (loop_top now (lm_fresh l + 1) key ?l2)"
        unfolding loop_top_queue [OF Q2 q] by (rule queues_inv_cong [OF _ _ _ _ Q2]) simp_all
      ultimately have "limiter_inv (loop_top now (lm_fresh l + 1) key ?l2)"
        unfolding limiter_inv_def loop_top_queue [OF Q2 q] by (simp add: jmap_simps)
      moreover have "waiting k (loop_top now (lm_fresh l + 1) key ?l2) = waiting k ?l"
        "lm_log (loop_top now (lm_fresh l + 1) key ?l2) = lm_log l"
        unfolding loop_top_queue [OF Q2 q] by (simp_all add: waiting_def split: option.split)
      ultimately show ?thesis using False w by (simp add: s)
    qed
  qed
  then show "limiter_inv (schedule now key t l)" "lm_log (schedule now key t l) = lm_log l"
    "waiting k (schedule now key t l) = waiting k l @ (if k = key then [t] else [])" by simp_all
qed

text \<open>A granted loop takes the first task of its queue.\<close>

lemma resume_asked_inv:
  assumes inv: "limiter_inv l"
  shows "limiter_inv (resume_asked now i l) \<and>
    started k (lm_log (resume_asked now i l)) @ waiting k (resume_asked now i l) = started k (lm_log l) @ waiting k l"
proof (cases "\<exists>key q g d. map_of (lm_loops l) i = Some (Asked key q g d)")
  case True
  then obtain key q g d where i: "map_of (lm_loops l) i = Some (Asked key q g d)" by blast
  have Q: "queues_inv l" and L: "loops_inv (map_of (lm_loops l)) (map_of (lm_queues l)) (set (lm_processing l)) (lm_fresh l)"
    using inv by (simp_all add: limiter_inv_def)
  have q: "map_of (lm_queues l) key = Some q" by (rule loops_invD(4) [OF L i])
  show ?thesis
  proof (cases "rd_allowed d")
    case False
    have "loops_inv ((map_of (lm_loops l))(i \<mapsto> Sleeping key x)) (map_of (lm_queues l)) (set (lm_processing l)) (lm_fresh l)" for x
      by (rule loops_inv_phase [OF L i]) simp_all
    with False i Q show ?thesis
      by (auto simp: resume_asked_def limiter_inv_def jmap_simps waiting_def queues_inv_def split: option.split)
  next
    case True
    obtain t ts where ts: "queue_at l q = t # ts" using Q q by (cases "queue_at l q") (auto simp: queues_inv_def)
    let ?l = "resume_asked now i l"
    have l': "?l = l\<lparr>lm_heap := jset q ts (lm_heap l),
        lm_queues := (if ts = [] then jdelete key (lm_queues l) else lm_queues l),
        lm_loops := jset i (Busy key t) (lm_loops l), lm_log := lm_log l @ [Started key t g]\<rparr>"
      using i True ts by (simp add: resume_asked_def)
    have uniq: "k' = key" if "map_of (lm_queues l) k' = Some q" for k' using Q q that by (simp add: queues_inv_def)
    have "queues_inv ?l" using Q uniq unfolding l' queues_inv_def by (auto simp: jget_or_jset jmap_simps)
    moreover have L1: "loops_inv ((map_of (lm_loops l))(i \<mapsto> Busy key t)) (map_of (lm_queues l)) (set (lm_processing l)) (lm_fresh l)"
      by (rule loops_inv_phase [OF L i]) simp_all
    have "((map_of (lm_loops l))(i \<mapsto> Busy key t)) j \<noteq> Some (Asked key q' g' d')" for j q' g' d'
      using loops_invD(3) [OF L i, of j "Asked key q' g' d'"] by auto
    then have "loops_inv ((map_of (lm_loops l))(i \<mapsto> Busy key t)) ((map_of (lm_queues l))(key := x)) (set (lm_processing l)) (lm_fresh l)" for x
      by (intro loops_inv_queue [OF L1]) auto
    then have "loops_inv (map_of (lm_loops ?l)) (map_of (lm_queues ?l)) (set (lm_processing ?l)) (lm_fresh ?l)"
      using L1 by (simp add: l' jmap_simps)
    moreover have "started k (lm_log ?l) @ waiting k ?l = started k (lm_log l) @ waiting k l"
    proof (cases "k = key")
      case True
      then show ?thesis using q ts by (simp add: l' started_append waiting_def jget_or_jset jmap_simps)
    next
      case False
      then have "map_of (lm_queues l) k \<noteq> Some q" using uniq by blast
      with False show ?thesis
        by (auto simp: l' started_append waiting_def jget_or_jset jmap_simps split: option.split)
    qed
    ultimately show ?thesis by (simp add: limiter_inv_def)
  qed
qed (use inv in \<open>auto simp: resume_asked_def split: option.split loop_phase.split\<close>)

lemma wake_inv:
  assumes "limiter_inv l"
  shows "limiter_inv (wake now i l) \<and>
    started k (lm_log (wake now i l)) @ waiting k (wake now i l) = started k (lm_log l) @ waiting k l"
  using assms loop_top_inv [OF assms, of i] by (auto simp: wake_def split: option.split loop_phase.split)

lemma task_done_inv:
  assumes "limiter_inv l"
  shows "limiter_inv (task_done now i ok l) \<and>
    started k (lm_log (task_done now i ok l)) @ waiting k (task_done now i ok l) = started k (lm_log l) @ waiting k l"
proof (cases "\<exists>key t. map_of (lm_loops l) i = Some (Busy key t)")
  case True
  then obtain key t where i: "map_of (lm_loops l) i = Some (Busy key t)" by blast
  let ?l = "l\<lparr>lm_log := lm_log l @ [Settled t ok]\<rparr>"
  have inv: "limiter_inv ?l" "map_of (lm_loops ?l) i = Some (Busy key t)"
    using assms i by (simp_all add: limiter_inv_def queues_inv_def)
  have w: "waiting k ?l = waiting k l" by (simp add: waiting_def split: option.split)
  show ?thesis
    using loop_top_inv [OF inv] i w by (simp add: task_done_def started_append)
qed (use assms in \<open>auto simp: task_done_def split: option.split loop_phase.split\<close>)

definition no_reset :: "(time \<times> limiter_op) list \<Rightarrow> bool" where
  "no_reset ops \<longleftrightarrow> (\<forall>x\<in>set ops. case snd x of ResetLimiter k \<Rightarrow> False | _ \<Rightarrow> True)"

lemma limiter_step_inv:
  assumes "limiter_inv l" and "no_reset [x]"
  shows "limiter_inv (limiter_step x l) \<and>
    started k (lm_log (limiter_step x l)) @ waiting k (limiter_step x l) =
      started k (lm_log l) @ waiting k l @ scheduled k [x]"
proof -
  obtain now op where x: "x = (now, op)" by (cases x)
  show ?thesis
    using assms schedule_inv [OF assms(1)] resume_asked_inv [OF assms(1)] wake_inv [OF assms(1)] task_done_inv [OF assms(1)]
    by (cases op) (simp_all add: x no_reset_def)
qed

lemma scheduled_Cons: "scheduled k (x # ops) = scheduled k [x] @ scheduled k ops"
  by (cases x) simp

lemma limiter_run_inv:
  "limiter_inv l \<Longrightarrow> no_reset ops \<Longrightarrow> limiter_inv (limiter_run ops l) \<and>
     started k (lm_log (limiter_run ops l)) @ waiting k (limiter_run ops l) =
       started k (lm_log l) @ waiting k l @ scheduled k ops"
proof (induction ops arbitrary: l)
  case (Cons x ops)
  have "no_reset [x]" "no_reset ops" using Cons.prems(2) by (simp_all add: no_reset_def)
  with limiter_step_inv [OF Cons.prems(1), of x k] Cons.IH [of "limiter_step x l"] show ?case
    by (simp add: limiter_run_def scheduled_Cons [of k x ops] del: scheduled.simps)
qed (simp add: limiter_run_def)

lemma new_limiter_inv: "new_RateLimiter w m pre = Inr l \<Longrightarrow> limiter_inv l \<and> lm_log l = [] \<and> waiting k l = []"
  by (auto simp: new_RateLimiter_def limiter_inv_def queues_inv_def loops_inv_def waiting_def split: if_splits)

section \<open>The rate\<close>

fun start_times :: "string \<Rightarrow> limiter_event list \<Rightarrow> time list" where
  "start_times key [] = []"
| "start_times key (e # es) = (case e of Started k t g \<Rightarrow> if k = key then [g] else [] | _ \<Rightarrow> []) @ start_times key es"

lemma start_times_append: "start_times k (xs @ ys) = start_times k xs @ start_times k ys"
  by (induction xs) simp_all

text \<open>A grant that was given but whose task has not been started yet.\<close>

definition grant_at :: "RateLimiter \<Rightarrow> string \<Rightarrow> nat \<Rightarrow> time \<Rightarrow> bool" where
  "grant_at l k i g \<longleftrightarrow> (\<exists>q d. map_of (lm_loops l) i = Some (Asked k q g d) \<and> rd_allowed d)"

definition pending_grant :: "RateLimiter \<Rightarrow> string \<Rightarrow> time list \<Rightarrow> bool" where
  "pending_grant l k P \<longleftrightarrow> (P = [] \<and> (\<forall>i g. \<not> grant_at l k i g)) \<or> (\<exists>i g. grant_at l k i g \<and> P = [g])"

lemma pending_grant_cong: "(\<And>i g. grant_at l' k i g = grant_at l k i g) \<Longrightarrow> pending_grant l' k P = pending_grant l k P"
  by (simp add: pending_grant_def)

definition rate_inv :: "time \<Rightarrow> RateLimiter \<Rightarrow> bool" where
  "rate_inv b l \<longleftrightarrow> (\<forall>k. \<exists>P. pending_grant l k P \<and>
     memory_store.agrees (lm_prefix l) (lm_windowMs l) k b (start_times k (lm_log l) @ P) (lm_store l) \<and>
     memory_store.window_bound (lm_windowMs l) (lm_maxRequests l) (start_times k (lm_log l) @ P))"

lemma rate_inv_later: "rate_inv b l \<Longrightarrow> b \<le> b' \<Longrightarrow> rate_inv b' l"
proof -
  assume "rate_inv b l" and "b \<le> b'"
  moreover have "memory_store.agrees pre w k b H s \<Longrightarrow> memory_store.agrees pre w k b' H s" for pre w k H s
    using \<open>b \<le> b'\<close> unfolding memory_store.agrees_def by fastforce
  ultimately show ?thesis unfolding rate_inv_def by blast
qed

text \<open>Only \<^verbatim>\<open>store.allow\<close> and the start of a task matter for the rate.\<close>

lemma rate_inv_same:
  assumes "rate_inv b l" and "lm_prefix l' = lm_prefix l" and "lm_windowMs l' = lm_windowMs l"
    and "lm_maxRequests l' = lm_maxRequests l" and "lm_store l' = lm_store l"
    and "\<And>k. start_times k (lm_log l') = start_times k (lm_log l)" and "\<And>k i g. grant_at l' k i g = grant_at l k i g"
  shows "rate_inv b l'"
  using assms pending_grant_cong [of l' _ l] unfolding rate_inv_def by simp

lemma rate_inv_ask:
  assumes "rate_inv b l" and "b \<le> now"
    and quiet: "\<And>j q g d. map_of (lm_loops l) j \<noteq> Some (Asked key q g d)"
    and i: "\<And>k q g d. map_of (lm_loops l) i \<noteq> Some (Asked k q g d)"
    and d: "allow (lm_prefix l) now key (lm_windowMs l) (lm_maxRequests l) (lm_store l) = (s', d)"
  shows "rate_inv now (l\<lparr>lm_store := s', lm_loops := jset i (Asked key q now d) (lm_loops l)\<rparr>)"
    (is "rate_inv now ?l")
  unfolding rate_inv_def
proof
  fix k
  let ?w = "lm_windowMs l" and ?m = "lm_maxRequests l" and ?T = "start_times k (lm_log l)"
  obtain P where P: "pending_grant l k P" "memory_store.agrees (lm_prefix l) ?w k b (?T @ P) (lm_store l)"
      "memory_store.window_bound ?w ?m (?T @ P)"
    using assms(1) unfolding rate_inv_def by blast
  let ?P = "if key = k \<and> rd_allowed d then P @ [now] else P"
  have "memory_store.agrees (lm_prefix l) ?w k now (?T @ ?P) s'"
    using memory_store.agrees_step [OF P(2) assms(2), of key ?m] d by (auto split: if_splits)
  moreover have "memory_store.window_bound ?w ?m (?T @ ?P)"
    using memory_store.window_bound_step [OF P(2,3) assms(2)] P(3) d by (auto split: if_splits)
  moreover have "pending_grant ?l k ?P"
  proof (cases "key = k")
    case True
    then have "P = []" using P(1) quiet by (auto simp: pending_grant_def grant_at_def)
    moreover have "grant_at ?l k j g \<longleftrightarrow> j = i \<and> g = now \<and> rd_allowed d" for j g
      using True quiet by (auto simp: grant_at_def jmap_simps)
    ultimately show ?thesis using True by (simp add: pending_grant_def)
  next
    case False
    then have "grant_at ?l k j g \<longleftrightarrow> grant_at l k j g" for j g
      using i by (auto simp: grant_at_def jmap_simps)
    with False P(1) show ?thesis by (simp add: pending_grant_def)
  qed
  ultimately show "\<exists>P. pending_grant ?l k P \<and>
      memory_store.agrees (lm_prefix ?l) (lm_windowMs ?l) k now (start_times k (lm_log ?l) @ P) (lm_store ?l) \<and>
      memory_store.window_bound (lm_windowMs ?l) (lm_maxRequests ?l) (start_times k (lm_log ?l) @ P)"
    by auto
qed

lemma limiter_invD:
  assumes "limiter_inv l"
  shows "queues_inv l"
    and "loops_inv (map_of (lm_loops l)) (map_of (lm_queues l)) (set (lm_processing l)) (lm_fresh l)"
  using assms by (simp_all add: limiter_inv_def)

lemma rate_loop_top:
  assumes inv: "limiter_inv l" and R: "rate_inv b l" "b \<le> now" and i: "map_of (lm_loops l) i = Some p"
    and key: "phase_key p = key" and idle: "\<And>k q g d. p \<noteq> Asked k q g d"
  shows "rate_inv now (loop_top now i key l)"
proof (cases "map_of (lm_queues l) key")
  case None
  have "rate_inv now l" using R by (rule rate_inv_later)
  then show ?thesis
    by (rule rate_inv_same) (use None i idle in \<open>auto simp: loop_top_def jmap_simps grant_at_def\<close>)
next
  case (Some q)
  have "map_of (lm_loops l) j \<noteq> Some (Asked key q' g d)" for j q' g d
    using loops_invD(3) [OF limiter_invD(2) [OF inv] i, of j "Asked key q' g d"] key idle [of key q' g d] i by auto
  then show ?thesis
    unfolding loop_top_queue [OF limiter_invD(1) [OF inv] Some]
    by (intro rate_inv_ask [OF R]) (use i idle in auto)
qed

lemma rate_schedule:
  assumes inv: "limiter_inv l" and R: "rate_inv b l" "b \<le> now"
  shows "rate_inv now (schedule now key t l)"
proof -
  let ?l = "case map_of (lm_queues l) key of
      Some q \<Rightarrow> l\<lparr>lm_heap := jset q (queue_at l q @ [t]) (lm_heap l)\<rparr>
    | None \<Rightarrow> l\<lparr>lm_heap := jset (lm_fresh l) [t] (lm_heap l), lm_queues := jset key (lm_fresh l) (lm_queues l),
                lm_fresh := lm_fresh l + 1\<rparr>"
  have L: "loops_inv (map_of (lm_loops l)) (map_of (lm_queues l)) (set (lm_processing l)) (lm_fresh l)"
    by (rule limiter_invD(2) [OF inv])
  have fields: "lm_loops ?l = lm_loops l" "lm_store ?l = lm_store l" "lm_log ?l = lm_log l" "lm_prefix ?l = lm_prefix l"
      "lm_windowMs ?l = lm_windowMs l" "lm_maxRequests ?l = lm_maxRequests l" "lm_processing ?l = lm_processing l"
      "lm_fresh l \<le> lm_fresh ?l"
    by (simp_all split: option.split)
  have R1: "rate_inv now ?l" using rate_inv_later [OF R] by (rule rate_inv_same) (simp_all add: fields grant_at_def)
  show ?thesis
  proof (cases "key \<in> set (lm_processing l)")
    case True
    then have "schedule now key t l = ?l" by (simp add: schedule_def runQueue_def split: option.split)
    then show ?thesis using R1 by simp
  next
    case False
    define l2 where "l2 = ?l\<lparr>lm_processing := lm_processing ?l @ [key], lm_fresh := lm_fresh ?l + 1\<rparr>"
    have s: "schedule now key t l = loop_top now (lm_fresh ?l) key l2"
      using False fields(7) unfolding schedule_def runQueue_def l2_def by simp
    have R2: "rate_inv now l2" using R1 by (rule rate_inv_same) (simp_all add: l2_def grant_at_def)
    have "phase_key p \<noteq> key" if "map_of (lm_loops l) j = Some p" for j p
      using loops_invD(2) [OF L that] False by auto
    then have quiet: "map_of (lm_loops l2) j \<noteq> Some (Asked key q g d)" for j q g d
      using fields(1) by (force simp: l2_def)
    have new: "map_of (lm_loops l2) (lm_fresh ?l) \<noteq> Some p" for p
      using loops_invD(1) [OF L, of "lm_fresh ?l" p] fields(1,8) by (auto simp: l2_def)
    obtain q where q: "map_of (lm_queues l2) key = Some q" "queue_at l2 q \<noteq> []"
      by (cases "map_of (lm_queues l) key") (simp_all add: l2_def jmap_simps jget_or_jset)
    show ?thesis
      unfolding s loop_top_def using q rate_inv_ask [OF R2 order_refl quiet, of "lm_fresh ?l"] new
      by (simp add: Let_def case_prod_unfold)
  qed
qed

lemma rate_resume:
  assumes inv: "limiter_inv l" and R: "rate_inv b l" "b \<le> now"
  shows "rate_inv now (resume_asked now i l)"
proof (cases "\<exists>key q g d. map_of (lm_loops l) i = Some (Asked key q g d)")
  case True
  then obtain key q g d where i: "map_of (lm_loops l) i = Some (Asked key q g d)" by blast
  note L = limiter_invD(2) [OF inv]
  have uniq: "j = i" if "map_of (lm_loops l) j = Some (Asked key q' g' d')" for j q' g' d'
    using loops_invD(3) [OF L that i] by simp
  have R1: "rate_inv now l" using R by (rule rate_inv_later)
  show ?thesis
  proof (cases "rd_allowed d")
    case False
    from R1 show ?thesis
      by (rule rate_inv_same) (use False i in \<open>auto simp: resume_asked_def jmap_simps grant_at_def\<close>)
  next
    case True
    obtain t ts where ts: "queue_at l q = t # ts"
      using limiter_invD(1) [OF inv] loops_invD(4) [OF L i] by (cases "queue_at l q") (auto simp: queues_inv_def)
    let ?l = "resume_asked now i l"
    have f: "lm_log ?l = lm_log l @ [Started key t g]" "lm_store ?l = lm_store l" "lm_prefix ?l = lm_prefix l"
        "lm_windowMs ?l = lm_windowMs l" "lm_maxRequests ?l = lm_maxRequests l"
        "map_of (lm_loops ?l) = (map_of (lm_loops l))(i \<mapsto> Busy key t)"
      using i True ts by (simp_all add: resume_asked_def jmap_simps)
    have "\<exists>P'. pending_grant ?l k P' \<and> start_times k (lm_log ?l) @ P' = start_times k (lm_log l) @ P"
      if P: "pending_grant l k P" for k P
    proof (cases "k = key")
      case True
      have "grant_at l k j g' \<longleftrightarrow> j = i \<and> g' = g" for j g'
        using i uniq [of j] True \<open>rd_allowed d\<close> by (auto simp: grant_at_def)
      then have "P = [g]" using P by (simp add: pending_grant_def)
      moreover have "\<not> grant_at ?l k j g'" for j g' using True uniq [of j] by (auto simp: grant_at_def f(6))
      then have "pending_grant ?l k []" by (simp add: pending_grant_def)
      ultimately show ?thesis using True by (intro exI [of _ "[]"]) (simp add: f(1) start_times_append)
    next
      case False
      then have "grant_at ?l k j g' \<longleftrightarrow> grant_at l k j g'" for j g' using i by (auto simp: grant_at_def f(6))
      then have "pending_grant ?l k P" using P by (simp add: pending_grant_def)
      then show ?thesis using False by (intro exI [of _ P]) (simp add: f(1) start_times_append)
    qed
    then show ?thesis using R1 unfolding rate_inv_def f(2-5) by metis
  qed
qed (use rate_inv_later [OF R] in \<open>auto simp: resume_asked_def split: option.split loop_phase.split\<close>)

lemma rate_step:
  assumes inv: "limiter_inv l" and R: "rate_inv b l" "b \<le> fst x" and "no_reset [x]"
  shows "rate_inv (fst x) (limiter_step x l)"
proof -
  obtain now op where x: "x = (now, op)" by (cases x)
  have now: "rate_inv now l" using rate_inv_later [OF R] x by simp
  show ?thesis
  proof (cases op)
    case (Schedule k t)
    then show ?thesis using rate_schedule [OF inv R] x by simp
  next
    case (ResumeAsked i)
    then show ?thesis using rate_resume [OF inv R] x by simp
  next
    case (Wake i)
    then show ?thesis
      using rate_loop_top [OF inv R, of i] now x by (auto simp: wake_def split: option.split loop_phase.split)
  next
    case (TaskDone i ok)
    have "rate_inv now (loop_top now i key (l\<lparr>lm_log := lm_log l @ [Settled t ok]\<rparr>))"
      if i: "map_of (lm_loops l) i = Some (Busy key t)" for key t
    proof (rule rate_loop_top [where p = "Busy key t", OF _ _ order_refl])
      show "limiter_inv (l\<lparr>lm_log := lm_log l @ [Settled t ok]\<rparr>)" using inv by (simp add: limiter_inv_def queues_inv_def)
      show "rate_inv now (l\<lparr>lm_log := lm_log l @ [Settled t ok]\<rparr>)"
        using now by (rule rate_inv_same) (simp_all add: start_times_append grant_at_def)
    qed (use i in simp_all)
    with TaskDone now x show ?thesis by (auto simp: task_done_def split: option.split loop_phase.split)
  qed (use assms(4) x in \<open>simp add: no_reset_def\<close>)
qed

lemma rate_run_inv:
  "limiter_inv l \<Longrightarrow> rate_inv b l \<Longrightarrow> no_reset ops \<Longrightarrow> sorted (b # map fst ops) \<Longrightarrow> \<exists>b'. rate_inv b' (limiter_run ops l)"
proof (induction ops arbitrary: l b)
  case (Cons x ops)
  have ops: "no_reset [x]" "no_reset ops" using Cons.prems(3) by (simp_all add: no_reset_def)
  have "b \<le> fst x" "sorted (fst x # map fst ops)" using Cons.prems(4) by simp_all
  with Cons.IH [OF _ rate_step [OF Cons.prems(1,2) _ ops(1)] ops(2)] limiter_step_inv [OF Cons.prems(1) ops(1)]
  show ?case by (simp add: limiter_run_def)
qed (auto simp: limiter_run_def)

lemma step_settings:
  "lm_windowMs (limiter_step x l) = lm_windowMs l \<and> lm_maxRequests (limiter_step x l) = lm_maxRequests l"
proof -
  have t: "lm_windowMs (loop_top now i k l) = lm_windowMs l \<and> lm_maxRequests (loop_top now i k l) = lm_maxRequests l" for now i k l
    by (simp add: loop_top_def Let_def case_prod_unfold split: option.split)
  have r: "lm_windowMs (runQueue now k l) = lm_windowMs l \<and> lm_maxRequests (runQueue now k l) = lm_maxRequests l" for now k l
    by (simp add: runQueue_def t)
  show ?thesis
    by (cases "(x, l)" rule: limiter_step.cases)
      (auto simp: schedule_def resume_asked_def loop_finally_def wake_def task_done_def reset_limiter_def t r Let_def
        split: option.split loop_phase.split list.split)
qed

lemma run_settings:
  "lm_windowMs (limiter_run ops l) = lm_windowMs l \<and> lm_maxRequests (limiter_run ops l) = lm_maxRequests l"
  by (induction ops arbitrary: l) (simp_all add: limiter_run_def step_settings)

section \<open>Properties\<close>

text \<open>
  Tasks of one provider are started in the order in which they were scheduled, each
  once, and none is lost: at any time, what was started and what still waits for a key is,
  in this order, what was scheduled for it; and whenever tasks wait for a key, a loop
  works for that key.
\<close>

theorem provider_queue_fifo:
  assumes "new_RateLimiter w m pre = Inr l" and "no_reset ops"
  shows "started k (lm_log (limiter_run ops l)) @ waiting k (limiter_run ops l) = scheduled k ops \<and>
    (waiting k (limiter_run ops l) = [] \<or>
     (\<exists>i p. map_of (lm_loops (limiter_run ops l)) i = Some p \<and> phase_key p = k))"
proof -
  have l: "limiter_inv l" "lm_log l = []" "waiting k l = []" using new_limiter_inv [OF assms(1)] by auto
  note r = limiter_run_inv [OF l(1) assms(2), of k]
  have "k \<in> set (lm_processing (limiter_run ops l))" if "waiting k (limiter_run ops l) \<noteq> []"
    using r that by (auto simp: limiter_inv_def queues_inv_def waiting_def split: option.splits)
  then show ?thesis using r l(2,3) loops_invD(5) [OF limiter_invD(2)] by fastforce
qed

text \<open>
  The provider's rate is respected: with calls in time order, the starts for a key that
  were granted within any interval of length \<^verbatim>\<open>windowMs\<close> are at most \<^verbatim>\<open>maxRequests\<close>.
\<close>

theorem provider_rate_respected:
  assumes "new_RateLimiter w m pre = Inr l" and "no_reset ops" and "sorted (map fst ops)"
  shows "int (length (filter (\<lambda>g. t - w < g \<and> g \<le> t) (start_times k (lm_log (limiter_run ops l))))) \<le> m"
proof (cases ops)
  case Nil
  then show ?thesis using assms(1) by (auto simp: limiter_run_def new_RateLimiter_def split: if_splits)
next
  case (Cons x xs)
  have l: "limiter_inv l" "lm_windowMs l = w" "lm_maxRequests l = m" "0 < m"
    using new_limiter_inv [OF assms(1)] assms(1) by (auto simp: new_RateLimiter_def split: if_splits)
  have "rate_inv (fst x) l"
    using assms(1) by (auto simp: new_RateLimiter_def rate_inv_def pending_grant_def grant_at_def
        memory_store.agrees_def memory_store.window_bound_def memory_granted_def jget_or_def split: if_splits)
  from rate_run_inv [OF l(1) this assms(2)] obtain b where "rate_inv b (limiter_run ops l)"
    using assms(3) Cons by auto
  then obtain P where "memory_store.window_bound w m (start_times k (lm_log (limiter_run ops l)) @ P)"
    unfolding rate_inv_def using run_settings [of ops l] l(2,3) by fastforce
  then have "int (length (filter (\<lambda>g. t - w < g \<and> g \<le> t) (start_times k (lm_log (limiter_run ops l)) @ P))) \<le> max 0 m"
    unfolding memory_store.window_bound_def by blast
  then show ?thesis using l(4) by simp
qed

section \<open>Reset\<close>

text \<open>\<^verbatim>\<open>reset\<close> forgets the queues but not the loops: the tasks that waited are never started and
  their promises never settle, and with a loop still waiting for its grant the key is
  worked on twice, until a loop finds the queue of the other empty and ends with an
  unhandled exception.\<close>

theorem reset_strands_and_crashes:
  "let l = limiter_run [(0, Schedule ''k'' 1), (0, Schedule ''k'' 2), (0, ResetLimiter None), (0, Schedule ''k'' 3),
        (0, ResumeAsked 1), (0, TaskDone 1 True)]
        (projr (new_RateLimiter 1000 10 ''p'')) in
     started ''k'' (lm_log l) = [1] \<and> waiting ''k'' l = [3] \<and>
     map fst (lm_loops l) = [1, 3] \<and>
     Crashed ''k'' \<in> set (lm_log (limiter_run [(0, ResumeAsked 3), (0, ResumeAsked 1)] l))"
  by code_simp

section \<open>Concrete runs\<close>

definition demo_limiter_ops :: "(time \<times> limiter_op) list" where
  "demo_limiter_ops = [(0, Schedule ''k'' 1), (1, Schedule ''k'' 2), (2, ResumeAsked 1), (3, TaskDone 1 True), (3, ResumeAsked 1)]"

theorem provider_queue_fifo_witness:
  "started ''k'' (lm_log (limiter_run demo_limiter_ops (projr (new_RateLimiter 1000 1 ''p'')))) = [1] \<and>
   started ''k'' (lm_log (limiter_run demo_limiter_ops (projr (new_RateLimiter 1000 1 ''p'')))) @
     waiting ''k'' (limiter_run demo_limiter_ops (projr (new_RateLimiter 1000 1 ''p''))) = [1, 2]"
proof -
  have "scheduled ''k'' demo_limiter_ops = [1, 2]" by code_simp
  moreover have "no_reset demo_limiter_ops" by code_simp
  moreover have "started ''k'' (lm_log (limiter_run demo_limiter_ops (projr (new_RateLimiter 1000 1 ''p'')))) = [1]"
    by code_simp
  ultimately show ?thesis
    using provider_queue_fifo [of 1000 1 "''p''" "projr (new_RateLimiter 1000 1 ''p'')" demo_limiter_ops "''k''"]
    by (simp add: new_RateLimiter_def)
qed

theorem provider_rate_respected_witness:
  "length (filter (\<lambda>g. -1000 < g \<and> g \<le> 0)
     (start_times ''k'' (lm_log (limiter_run demo_limiter_ops (projr (new_RateLimiter 1000 1 ''p'')))))) \<le> 1"
proof -
  have "no_reset demo_limiter_ops" "sorted (map fst demo_limiter_ops)" by code_simp+
  then show ?thesis
    using provider_rate_respected [of 1000 1 "''p''" "projr (new_RateLimiter 1000 1 ''p'')" demo_limiter_ops 0 "''k''"]
    by (simp add: new_RateLimiter_def)
qed

end
