(* ===== verification/Provider_Routing.thy ===== *)
theory Provider_Routing
  imports Json_Text
begin

text \<open>
  Routing of chat requests to model providers: the failover loop of
  \<^verbatim>\<open>services/orchestrator/src/providers/ProviderRegistry.ts\<close>, the capabilities of
  \<^verbatim>\<open>providers/capabilities.ts\<close> and the retry loop of \<^verbatim>\<open>providers/utils.ts\<close>.  The providers
  themselves, with the rate limiter and circuit breaker around them (theories
  \<open>Provider_Limiter\<close> and \<open>Circuit_Breaker\<close>), are the argument \<open>invoke\<close>: a call changes a state and
  yields a response or throws.  Tracing and logging are left out, as is the
  offending number at the end of the message about a temperature.
\<close>

section \<open>Data\<close>

record ProviderError =
  er_message :: string
  er_status :: int
  er_code :: "string option"
  er_provider :: "string option"
  er_retryable :: bool
  er_details :: "(string \<times> string \<times> int) list"

text \<open>What a \<^verbatim>\<open>catch\<close> sees: a \<^verbatim>\<open>ProviderError\<close>, another \<^verbatim>\<open>Error\<close> with its message, or any other
  value; with the numeric \<^verbatim>\<open>status\<close> property if it has one.\<close>

datatype thrown =
    ThrownProvider ProviderError
  | ThrownError string "int option"
  | ThrownValue "int option"

record ChatRequest =
  cr_model :: "string option"
  cr_provider :: "string option"
  cr_routing :: "string option"
  cr_temperature :: "js_number option"
  cr_messages :: "(string \<times> string) list"

record TokenUsage =
  tu_promptTokens :: "int option"
  tu_completionTokens :: "int option"
  tu_totalTokens :: "int option"

record ChatResponse =
  cp_output :: string
  cp_provider :: "string option"
  cp_usage :: "TokenUsage option"
  cp_warnings :: "string list option"

record ProviderCapabilities =
  pc_supportsTemperature :: bool
  pc_defaultTemperature :: "rat option"
  pc_defaultTimeoutMs :: "int option"

record RoutingConfig =
  rg_enabled :: "string list"
  rg_defaultRoute :: "string option"
  rg_routingPriority :: "(string, string list) jsmap"
  rg_settings :: "(string, rat option) jsmap"

section \<open>Capabilities\<close>

definition DEFAULT_CAPABILITIES :: "(string, ProviderCapabilities) jsmap" where
  "DEFAULT_CAPABILITIES =
     map (\<lambda>p. (p, \<lparr>pc_supportsTemperature = True, pc_defaultTemperature = Some (1/5), pc_defaultTimeoutMs = Some 60000\<rparr>))
       [''openai'', ''azureopenai'', ''mistral'', ''openrouter''] @
     map (\<lambda>p. (p, \<lparr>pc_supportsTemperature = False, pc_defaultTemperature = None, pc_defaultTimeoutMs = None\<rparr>))
       [''anthropic'', ''bedrock'', ''google'', ''local_ollama'']"

definition getProviderCapabilities :: "string \<Rightarrow> ProviderCapabilities" where
  "getProviderCapabilities provider =
     (case map_of DEFAULT_CAPABILITIES (lower_case (trim provider)) of
        Some c \<Rightarrow> c
      | None \<Rightarrow> \<lparr>pc_supportsTemperature = True, pc_defaultTemperature = None, pc_defaultTimeoutMs = None\<rparr>)"

definition getProviderSettings :: "RoutingConfig \<Rightarrow> string \<Rightarrow> rat option option" where
  "getProviderSettings cfg provider = map_of (rg_settings cfg) (lower_case (trim provider))"

section \<open>Retrying\<close>

definition request_failed :: "thrown \<Rightarrow> ProviderError" where
  "request_failed e =
     (case e of
        ThrownProvider pe \<Rightarrow> pe
      | _ \<Rightarrow> \<lparr>er_message = ''Provider request failed'', er_status = 502, er_code = None, er_provider = None,
             er_retryable = False, er_details = []\<rparr>)"

text \<open>The loop with \<open>left\<close> attempts to go; the third component collects the delays.\<close>

fun retry_loop ::
  "(nat \<Rightarrow> 's \<Rightarrow> 's \<times> (thrown + 'a)) \<Rightarrow> int \<Rightarrow> nat \<Rightarrow> nat \<Rightarrow> 's \<Rightarrow> 's \<times> (ProviderError + 'a) \<times> int list" where
  "retry_loop operation baseDelay attempt 0 s =
     (s, Inl \<lparr>er_message = ''Provider request failed'', er_status = 500, er_code = None, er_provider = None,
              er_retryable = False, er_details = []\<rparr>, [])"
| "retry_loop operation baseDelay attempt (Suc left) s =
     (case operation attempt s of
        (s', Inr v) \<Rightarrow> (s', Inr v, [])
      | (s', Inl e) \<Rightarrow>
          let providerError = request_failed e
          in if \<not> er_retryable providerError \<or> left = 0 then (s', Inl providerError, [])
             else (case retry_loop operation baseDelay (attempt + 1) left s' of
                     (s'', r, delays) \<Rightarrow> (s'', r, baseDelay * (int attempt + 1) # delays)))"

definition callWithRetry ::
  "(nat \<Rightarrow> 's \<Rightarrow> 's \<times> (thrown + 'a)) \<Rightarrow> int option \<Rightarrow> int option \<Rightarrow> 's \<Rightarrow> 's \<times> (ProviderError + 'a) \<times> int list" where
  "callWithRetry operation attempts delayMs s =
     (let n = max 1 (case attempts of Some a \<Rightarrow> a | None \<Rightarrow> 2);
          baseDelay = (case delayMs of Some d \<Rightarrow> d | None \<Rightarrow> 200)
      in retry_loop operation baseDelay 0 (nat n) s)"

section \<open>The request\<close>

definition router_error :: "string \<Rightarrow> int \<Rightarrow> ProviderError" where
  "router_error message status =
     \<lparr>er_message = message, er_status = status, er_code = None, er_provider = Some ''router'', er_retryable = False,
      er_details = []\<rparr>"

text \<open>The text of the error ends with the received number in the code; it is left out here.\<close>

definition assertRequestTemperature :: "js_number \<Rightarrow> string \<Rightarrow> ProviderError + js_number" where
  "assertRequestTemperature value providerName =
     (case value of
        Finite r \<Rightarrow> if r < 0 \<or> r > 2
          then Inl (router_error (''Temperature override for provider '' @ providerName @ '' must be a finite number between 0 and 2'') 400)
          else Inr value
      | _ \<Rightarrow> Inl (router_error (''Temperature override for provider '' @ providerName @ '' must be a finite number between 0 and 2'') 400))"

definition buildProviderRequest ::
  "ChatRequest \<Rightarrow> string \<Rightarrow> RoutingConfig \<Rightarrow> ProviderError + ChatRequest \<times> string list" where
  "buildProviderRequest req providerName cfg =
     (let capability = getProviderCapabilities providerName
      in if \<not> pc_supportsTemperature capability
         then Inr (req\<lparr>cr_temperature := None\<rparr>,
           if cr_temperature req \<noteq> None then [providerName @ '': temperature is not supported and was ignored''] else [])
         else (case cr_temperature req of
                 Some t \<Rightarrow> (case assertRequestTemperature t providerName of
                     Inl e \<Rightarrow> Inl e | Inr t' \<Rightarrow> Inr (req\<lparr>cr_temperature := Some t'\<rparr>, []))
               | None \<Rightarrow>
                   Inr (req\<lparr>cr_temperature := map_option Finite
                     (case getProviderSettings cfg providerName of
                        Some (Some d) \<Rightarrow> Some d
                      | _ \<Rightarrow> pc_defaultTemperature capability)\<rparr>, [])))"

section \<open>The order of providers\<close>

definition provider_char :: "char \<Rightarrow> bool" where
  "provider_char c \<longleftrightarrow> (let n = (of_char c :: nat) in
     (48 \<le> n \<and> n \<le> 57) \<or> (65 \<le> n \<and> n \<le> 90) \<or> (97 \<le> n \<and> n \<le> 122) \<or> c \<in> {CHR ''.'', CHR ''_'', CHR ''-''})"

definition normalizeProviderId :: "string option \<Rightarrow> string option" where
  "normalizeProviderId value =
     (case value of
        None \<Rightarrow> None
      | Some v \<Rightarrow>
          let trimmed = trim v
          in if trimmed = [] then None
             else let normalized = lower_case trimmed
                  in if list_all provider_char normalized then Some normalized else None)"

fun normalize_enabled :: "string list \<Rightarrow> ProviderError + string list" where
  "normalize_enabled [] = Inr []"
| "normalize_enabled (p # ps) =
     (case normalizeProviderId (Some p) of
        None \<Rightarrow> Inl (router_error (''Configured provider name '' @ [CHR 0x22] @ p @ [CHR 0x22] @ '' is invalid'') 500)
      | Some n \<Rightarrow> (case normalize_enabled ps of Inl e \<Rightarrow> Inl e | Inr ns \<Rightarrow> Inr (n # ns)))"

definition selected_route :: "ChatRequest \<Rightarrow> RoutingConfig \<Rightarrow> string" where
  "selected_route req cfg =
     (case cr_routing req of Some r \<Rightarrow> r | None \<Rightarrow> (case rg_defaultRoute cfg of Some r \<Rightarrow> r | None \<Rightarrow> ''balanced''))"

definition has_provider_hint :: "ChatRequest \<Rightarrow> bool" where
  "has_provider_hint req = (case cr_provider req of None \<Rightarrow> False | Some p \<Rightarrow> p \<noteq> [])"

definition determineProviderOrder ::
  "ChatRequest \<Rightarrow> RoutingConfig \<Rightarrow> ProviderError + string list \<times> string" where
  "determineProviderOrder req cfg =
     (case normalize_enabled (rg_enabled cfg) of
        Inl e \<Rightarrow> Inl e
      | Inr enabled \<Rightarrow>
          if enabled = [] then Inl (router_error ''No providers are enabled for chat'' 503)
          else (case normalizeProviderId (cr_provider req) of
                  None \<Rightarrow>
                    if has_provider_hint req then Inl (router_error ''Requested provider is invalid'' 400)
                    else let route = selected_route req cfg;
                             prioritizedList = jget_or [] (rg_routingPriority cfg) route
                         in if prioritizedList = [] then Inr (enabled, route)
                            else let prioritized = filter (\<lambda>p. p \<in> set enabled) prioritizedList;
                                     remaining = filter (\<lambda>p. p \<notin> set prioritized) enabled;
                                     ordered = prioritized @ remaining
                                 in if ordered = []
                                    then Inl (router_error (''No providers are available for the '' @ route @ '' route'') 503)
                                    else Inr (ordered, route)
                | Some requested \<Rightarrow>
                    if requested \<notin> set enabled
                    then Inl (router_error (''Provider '' @ the (cr_provider req) @ '' is not enabled'') 404)
                    else Inr ([requested], selected_route req cfg)))"

section \<open>Failover\<close>

definition attempt_error :: "string \<Rightarrow> thrown \<Rightarrow> ProviderError" where
  "attempt_error name e =
     (case e of
        ThrownProvider pe \<Rightarrow> pe
      | ThrownError msg st \<Rightarrow>
          \<lparr>er_message = msg, er_status = (case st of Some n \<Rightarrow> n | None \<Rightarrow> 502), er_code = None,
           er_provider = Some name, er_retryable = False, er_details = []\<rparr>
      | ThrownValue st \<Rightarrow>
          \<lparr>er_message = ''Provider request failed'', er_status = (case st of Some n \<Rightarrow> n | None \<Rightarrow> 502), er_code = None,
           er_provider = Some name, er_retryable = False, er_details = []\<rparr>)"

definition not_registered :: "string \<Rightarrow> ProviderError" where
  "not_registered name =
     \<lparr>er_message = ''Provider '' @ name @ '' is not registered'', er_status = 503, er_code = None,
      er_provider = Some name, er_retryable = False, er_details = []\<rparr>"

definition merged_response :: "string \<Rightarrow> string list \<Rightarrow> ChatResponse \<Rightarrow> ChatResponse" where
  "merged_response name warnings response =
     (let merged = (if warnings \<noteq> [] then Some (warnings @ (case cp_warnings response of Some w \<Rightarrow> w | None \<Rightarrow> []))
                    else cp_warnings response)
      in response\<lparr>cp_provider := Some (case cp_provider response of Some p \<Rightarrow> p | None \<Rightarrow> name),
                  cp_warnings := (case merged of Some [] \<Rightarrow> None | m \<Rightarrow> m)\<rparr>)"

definition error_provider :: "ProviderError \<Rightarrow> string" where
  "error_provider e = (case er_provider e of Some p \<Rightarrow> p | None \<Rightarrow> ''unknown'')"

definition aggregate_status :: "ProviderError list \<Rightarrow> int" where
  "aggregate_status errors =
     (case List.find (\<lambda>e. er_status e \<ge> 400 \<and> er_status e < 500) errors of
        Some e \<Rightarrow> er_status e
      | None \<Rightarrow> if errors = [] then 502 else er_status (last errors))"

definition aggregated_error :: "ProviderError list \<Rightarrow> ProviderError" where
  "aggregated_error errors =
     \<lparr>er_message = (if errors = [] then ''All providers failed''
        else join_strings ''; '' (map (\<lambda>e. ''['' @ error_provider e @ ''] '' @ er_message e) errors)),
      er_status = aggregate_status errors, er_code = None, er_provider = Some ''router'',
      er_retryable = list_ex er_retryable errors,
      er_details = map (\<lambda>e. (error_provider e, er_message e, er_status e)) errors\<rparr>"

text \<open>\<open>getProvider\<close> gives the name of the registered provider object; building the request is
  outside the \<^verbatim>\<open>try\<close>, so that its error ends the whole loop.\<close>

fun route_loop ::
  "(string \<Rightarrow> ChatRequest \<Rightarrow> 's \<Rightarrow> 's \<times> (thrown + ChatResponse)) \<Rightarrow> (string \<Rightarrow> string option) \<Rightarrow> ChatRequest \<Rightarrow> RoutingConfig
     \<Rightarrow> string list \<Rightarrow> string list \<Rightarrow> ProviderError list \<Rightarrow> 's \<Rightarrow> 's \<times> (ProviderError + ChatResponse)" where
  "route_loop invoke getProvider req cfg [] warnings errors s = (s, Inl (aggregated_error errors))"
| "route_loop invoke getProvider req cfg (p # ps) warnings errors s =
     (case getProvider p of
        None \<Rightarrow> route_loop invoke getProvider req cfg ps (warnings @ [p @ '': provider not registered''])
          (errors @ [not_registered p]) s
      | Some name \<Rightarrow>
          (case buildProviderRequest req name cfg of
             Inl e \<Rightarrow> (s, Inl e)
           | Inr (providerRequest, capabilityWarnings) \<Rightarrow>
               let warnings1 = warnings @ capabilityWarnings
               in (case invoke name providerRequest s of
                     (s', Inr response) \<Rightarrow> (s', Inr (merged_response name warnings1 response))
                   | (s', Inl e) \<Rightarrow>
                       let pe = attempt_error name e
                       in route_loop invoke getProvider req cfg ps (warnings1 @ [name @ '': '' @ er_message pe])
                            (errors @ [pe]) s')))"

definition routeChat ::
  "(string \<Rightarrow> ChatRequest \<Rightarrow> 's \<Rightarrow> 's \<times> (thrown + ChatResponse)) \<Rightarrow> (string \<Rightarrow> string option) \<Rightarrow> ChatRequest \<Rightarrow> RoutingConfig
     \<Rightarrow> 's \<Rightarrow> 's \<times> (ProviderError + ChatResponse)" where
  "routeChat invoke getProvider req cfg s =
     (case determineProviderOrder req cfg of
        Inl e \<Rightarrow> (s, Inl e)
      | Inr (providers, route) \<Rightarrow> route_loop invoke getProvider req cfg providers [] [] s)"

section \<open>Retries\<close>

definition recording :: "('k \<Rightarrow> thrown + 'a) \<Rightarrow> 'k \<Rightarrow> 'k list \<Rightarrow> 'k list \<times> (thrown + 'a)" where
  "recording f k calls = (calls @ [k], f k)"

lemma recording_eq: "recording f k calls = (calls @ [k], f k)"
  by (rule recording_def)

lemma retry_loop_calls:
  assumes "retry_loop (recording f) base a (Suc left) calls = (calls', r, delays)"
  shows "\<exists>n\<ge>1. n \<le> Suc left \<and> calls' = calls @ [a..<a + n] \<and>
    (\<forall>k\<in>{a..<a + n - 1}. \<exists>e. f k = Inl e \<and> er_retryable (request_failed e)) \<and>
    r = (case f (a + n - 1) of Inr v \<Rightarrow> Inr v | Inl e \<Rightarrow> Inl (request_failed e)) \<and>
    (case f (a + n - 1) of Inr v \<Rightarrow> True | Inl e \<Rightarrow> n = Suc left \<or> \<not> er_retryable (request_failed e)) \<and>
    delays = map (\<lambda>k. base * (int k + 1)) [a..<a + n - 1]"
  using assms
proof (induction left arbitrary: a calls delays)
  case 0
  then show ?case
    by (intro exI [of _ 1]) (auto simp: recording_def Let_def split: sum.splits)
next
  case (Suc left)
  show ?case
  proof (cases "\<exists>e. f a = Inl e \<and> er_retryable (request_failed e)")
    case True
    then obtain e where e: "f a = Inl e" "er_retryable (request_failed e)" by blast
    obtain ds where "retry_loop (recording f) base (a + 1) (Suc left) (calls @ [a]) = (calls', r, ds)" and ds: "delays = base * (int a + 1) # ds"
      using Suc.prems e unfolding retry_loop.simps(2) [of _ _ a "Suc left"]
      by (auto simp: recording_eq Let_def simp del: retry_loop.simps split: prod.splits)
    from Suc.IH [OF this(1)] obtain n where n: "1 \<le> n" "n \<le> Suc left" "calls' = calls @ [a] @ [a + 1..<a + 1 + n]"
        "\<forall>k\<in>{a + 1..<a + 1 + n - 1}. \<exists>e. f k = Inl e \<and> er_retryable (request_failed e)"
        "r = (case f (a + 1 + n - 1) of Inr v \<Rightarrow> Inr v | Inl e \<Rightarrow> Inl (request_failed e))"
        "case f (a + 1 + n - 1) of Inr v \<Rightarrow> True | Inl e \<Rightarrow> n = Suc left \<or> \<not> er_retryable (request_failed e)"
        "ds = map (\<lambda>k. base * (int k + 1)) [a + 1..<a + 1 + n - 1]"
      by auto
    have "{a..<a + Suc n - 1} = insert a {a + 1..<a + 1 + n - 1}" using n(1) by auto
    moreover have "[a..<a + Suc n] = a # [a + 1..<a + 1 + n]" by (simp add: upt_conv_Cons)
    moreover have "[a..<a + Suc n - 1] = a # [a + 1..<a + 1 + n - 1]" using n(1) by (simp add: upt_conv_Cons)
    ultimately show ?thesis
      using n e ds by (intro exI [of _ "Suc n"]) (auto split: sum.splits)
  next
    case False
    then show ?thesis
      using Suc.prems by (intro exI [of _ 1]) (auto simp: recording_def Let_def split: sum.splits)
  qed
qed

text \<open>
  \<^verbatim>\<open>callWithRetry\<close> calls the operation with the attempts 0, 1, 2, \ldots in turn, at
  least once and at most \<^verbatim>\<open>attempts\<close> times; it goes on only after a retryable error, waits in
  proportion to the attempt, and its outcome is that of the last call.
\<close>

theorem callWithRetry_discipline:
  assumes "callWithRetry (recording f) attempts delayMs [] = (calls, r, delays)"
    and "limit = max 1 (case attempts of Some a \<Rightarrow> a | None \<Rightarrow> 2)"
  shows "\<exists>n\<ge>1. int n \<le> limit \<and> calls = [0..<n] \<and>
    (\<forall>k<n - 1. \<exists>e. f k = Inl e \<and> er_retryable (request_failed e)) \<and>
    r = (case f (n - 1) of Inr v \<Rightarrow> Inr v | Inl e \<Rightarrow> Inl (request_failed e)) \<and>
    (case f (n - 1) of Inr v \<Rightarrow> True | Inl e \<Rightarrow> int n = limit \<or> \<not> er_retryable (request_failed e)) \<and>
    delays = map (\<lambda>k. (case delayMs of Some d \<Rightarrow> d | None \<Rightarrow> 200) * (int k + 1)) [0..<n - 1]"
proof -
  obtain left where l: "nat limit = Suc left" using assms(2) by (cases "nat limit") auto
  then have "limit = int left + 1" by linarith
  have "retry_loop (recording f) (case delayMs of Some d \<Rightarrow> d | None \<Rightarrow> 200) 0 (Suc left) [] = (calls, r, delays)"
    using assms l by (simp add: callWithRetry_def Let_def del: retry_loop.simps)
  from retry_loop_calls [OF this] obtain n where "1 \<le> n" "n \<le> Suc left" "calls = [0..<n]"
      "\<forall>k\<in>{0..<n - 1}. \<exists>e. f k = Inl e \<and> er_retryable (request_failed e)"
      "r = (case f (n - 1) of Inr v \<Rightarrow> Inr v | Inl e \<Rightarrow> Inl (request_failed e))"
      "case f (n - 1) of Inr v \<Rightarrow> True | Inl e \<Rightarrow> n = Suc left \<or> \<not> er_retryable (request_failed e)"
      "delays = map (\<lambda>k. (case delayMs of Some d \<Rightarrow> d | None \<Rightarrow> 200) * (int k + 1)) [0..<n - 1]"
    by auto
  with \<open>limit = int left + 1\<close> show ?thesis by (intro exI [of _ n]) (auto split: sum.splits)
qed

section \<open>Order and failover\<close>

lemma order_spec:
  assumes "determineProviderOrder req cfg = Inr (ps, route)"
  shows "\<exists>enabled. normalize_enabled (rg_enabled cfg) = Inr enabled \<and> ps \<noteq> [] \<and>
    (case normalizeProviderId (cr_provider req) of
       Some p \<Rightarrow> ps = [p] \<and> p \<in> set enabled
     | None \<Rightarrow> set ps = set enabled \<and>
         (\<exists>rest. ps = filter (\<lambda>p. p \<in> set enabled) (jget_or [] (rg_routingPriority cfg) route) @ rest))"
  using assms by (auto simp: determineProviderOrder_def Let_def split: sum.splits option.splits if_splits)

definition attempt_failed :: "(string \<Rightarrow> ChatRequest \<Rightarrow> thrown + ChatResponse) \<Rightarrow> ChatRequest \<Rightarrow> RoutingConfig \<Rightarrow> string \<Rightarrow> bool" where
  "attempt_failed f req cfg name \<longleftrightarrow>
     (\<exists>q w e. buildProviderRequest req name cfg = Inr (q, w) \<and> f name q = Inl e)"

definition recorded :: "(string \<Rightarrow> ChatRequest \<Rightarrow> thrown + ChatResponse) \<Rightarrow> string \<Rightarrow> ChatRequest \<Rightarrow> string list
    \<Rightarrow> string list \<times> (thrown + ChatResponse)" where
  "recorded f name q calls = (calls @ [name], f name q)"

lemma recorded_eq: "recorded f name q calls = (calls @ [name], f name q)"
  by (simp add: recorded_def)

lemma merged_output [simp]: "cp_output (merged_response n w r) = cp_output r"
  by (simp add: merged_response_def Let_def)

text \<open>The outcome after the providers \<open>tried\<close>, with \<open>rest\<close> not asked.\<close>

definition route_outcome where
  "route_outcome f req cfg tried rest res \<longleftrightarrow>
     (case res of
        Inr resp \<Rightarrow> \<exists>before name q w r. tried = before @ [name] \<and> (\<forall>n\<in>set before. attempt_failed f req cfg n) \<and>
          buildProviderRequest req name cfg = Inr (q, w) \<and> f name q = Inr r \<and> cp_output resp = cp_output r
      | Inl err \<Rightarrow> (\<forall>n\<in>set tried. attempt_failed f req cfg n) \<and>
          (case rest of [] \<Rightarrow> True | n # _ \<Rightarrow> buildProviderRequest req n cfg = Inl err))"

lemma route_outcome_failed:
  "attempt_failed f req cfg name \<Longrightarrow> route_outcome f req cfg tried rest res \<Longrightarrow>
     route_outcome f req cfg (name # tried) rest res"
  unfolding route_outcome_def by (auto split: sum.splits)

lemma route_loop_spec:
  assumes "route_loop (recorded f) getProvider req cfg ps warnings errors calls0 = (calls', res)"
  shows "\<exists>tried rest. calls' = calls0 @ tried \<and> List.map_filter getProvider ps = tried @ rest \<and>
    route_outcome f req cfg tried rest res"
  using assms
proof (induction ps arbitrary: warnings errors calls0)
  case Nil
  then show ?case by (auto simp: List.map_filter_simps route_outcome_def)
next
  case (Cons p ps)
  show ?case
  proof (cases "getProvider p")
    case None
    then show ?thesis using Cons.IH Cons.prems by (simp add: List.map_filter_simps)
  next
    case (Some name)
    then have names: "List.map_filter getProvider (p # ps) = name # List.map_filter getProvider ps"
      by (simp add: List.map_filter_simps)
    show ?thesis
    proof (cases "buildProviderRequest req name cfg")
      case (Inl e)
      then have "calls' = calls0 @ []" "route_outcome f req cfg [] (name # List.map_filter getProvider ps) res"
        using Cons.prems Some by (auto simp: route_outcome_def)
      then show ?thesis unfolding names by (metis append_Nil)
    next
      case (Inr qw)
      obtain q w where qw: "buildProviderRequest req name cfg = Inr (q, w)" using Inr by (cases qw) auto
      show ?thesis
      proof (cases "f name q")
        case (Inr r)
        then have "calls' = calls0 @ [name]" "route_outcome f req cfg [name] (List.map_filter getProvider ps) res"
          using Cons.prems Some qw by (auto simp: recorded_eq Let_def route_outcome_def)
        then show ?thesis unfolding names by (metis append_Cons append_Nil)
      next
        case (Inl e)
        then have "route_loop (recorded f) getProvider req cfg ps
            ((warnings @ w) @ [name @ '': '' @ er_message (attempt_error name e)]) (errors @ [attempt_error name e]) (calls0 @ [name]) = (calls', res)"
          using Cons.prems Some qw by (simp add: recorded_def [abs_def] Let_def)
        from Cons.IH [OF this] obtain tried rest where t: "calls' = calls0 @ name # tried"
            "List.map_filter getProvider ps = tried @ rest" "route_outcome f req cfg tried rest res"
          by auto
        have "attempt_failed f req cfg name" using qw Inl by (auto simp: attempt_failed_def)
        then have "route_outcome f req cfg (name # tried) rest res" using t(3) by (rule route_outcome_failed)
        then show ?thesis using t(1,2) unfolding names by (metis append_Cons)
      qed
    qed
  qed
qed

text \<open>
  Failover: a chat request is offered to the registered providers in the order that was
  determined, each at most once; the response is that of the first one that answers, all
  before it failed and none after it is asked; without a response every provider failed, or
  the next one's request could not be built and its error is reported.
\<close>

theorem route_failover:
  assumes "determineProviderOrder req cfg = Inr (ps, route)"
    and "routeChat (recorded f) getProvider req cfg [] = (tried, res)"
  shows "\<exists>rest. List.map_filter getProvider ps = tried @ rest \<and>
    (case res of
       Inr resp \<Rightarrow> \<exists>before name q w r. tried = before @ [name] \<and> (\<forall>n\<in>set before. attempt_failed f req cfg n) \<and>
         buildProviderRequest req name cfg = Inr (q, w) \<and> f name q = Inr r \<and> cp_output resp = cp_output r
     | Inl err \<Rightarrow> (\<forall>n\<in>set tried. attempt_failed f req cfg n) \<and>
         (case rest of [] \<Rightarrow> True | n # _ \<Rightarrow> buildProviderRequest req n cfg = Inl err))"
proof -
  have "route_loop (recorded f) getProvider req cfg ps [] [] [] = (tried, res)"
    using assms by (simp add: routeChat_def)
  from route_loop_spec [OF this] show ?thesis unfolding route_outcome_def by simp
qed

text \<open>
  The order of providers: only enabled providers are used, at least one; a request for
  one provider gets exactly that one; otherwise every enabled provider is tried, those of
  the route's priority list first and in its order.
\<close>

theorem provider_order:
  assumes "determineProviderOrder req cfg = Inr (ps, route)"
  shows "\<exists>enabled. normalize_enabled (rg_enabled cfg) = Inr enabled \<and> ps \<noteq> [] \<and>
    (case normalizeProviderId (cr_provider req) of
       Some p \<Rightarrow> ps = [p] \<and> p \<in> set enabled
     | None \<Rightarrow> set ps = set enabled \<and>
         (\<exists>rest. ps = filter (\<lambda>p. p \<in> set enabled) (jget_or [] (rg_routingPriority cfg) route) @ rest))"
  by (rule order_spec [OF assms])

section \<open>Concrete runs\<close>

definition demo_routing :: RoutingConfig where
  "demo_routing = \<lparr>rg_enabled = [''OpenAI'', ''anthropic'', ''google''], rg_defaultRoute = Some ''low_cost'',
     rg_routingPriority = [(''low_cost'', [''google'', ''mistral'', ''openai''])], rg_settings = []\<rparr>"

definition demo_chat :: ChatRequest where
  "demo_chat = \<lparr>cr_model = None, cr_provider = None, cr_routing = None, cr_temperature = None,
     cr_messages = [(''user'', ''hello'')]\<rparr>"

definition demo_answer :: "string \<Rightarrow> ChatRequest \<Rightarrow> thrown + ChatResponse" where
  "demo_answer name q = (if name = ''google'' then Inl (ThrownError ''down'' None)
     else Inr \<lparr>cp_output = name, cp_provider = None, cp_usage = None, cp_warnings = None\<rparr>)"

lemma demo_order: "determineProviderOrder demo_chat demo_routing = Inr ([''google'', ''openai'', ''anthropic''], ''low_cost'')"
  by code_simp

theorem route_failover_witness:
  "\<exists>rest. List.map_filter Some [''google'', ''openai'', ''anthropic''] =
     fst (routeChat (recorded demo_answer) Some demo_chat demo_routing []) @ rest"
proof -
  obtain tried res where c: "routeChat (recorded demo_answer) Some demo_chat demo_routing [] = (tried, res)"
    by (rule prod.exhaust)
  from route_failover [OF demo_order c] show ?thesis using c by auto
qed

theorem provider_order_witness:
  "\<exists>enabled. normalize_enabled (rg_enabled demo_routing) = Inr enabled \<and> set [''google'', ''openai'', ''anthropic''] = set enabled"
proof -
  have "normalizeProviderId (cr_provider demo_chat) = None" by code_simp
  with provider_order [OF demo_order] show ?thesis by auto
qed

definition flaky :: "nat \<Rightarrow> thrown + nat" where
  "flaky k = (if k < 2 then Inl (ThrownProvider \<lparr>er_message = ''busy'', er_status = 429, er_code = None, er_provider = None,
     er_retryable = True, er_details = []\<rparr>) else Inr k)"

theorem callWithRetry_discipline_witness:
  "\<exists>n\<ge>1. int n \<le> 5 \<and> fst (callWithRetry (recording flaky) (Some 5) None []) = [0..<n]"
proof -
  obtain calls r delays where c: "callWithRetry (recording flaky) (Some 5) None [] = (calls, r, delays)"
    by (metis prod_cases3)
  from callWithRetry_discipline [OF c refl] show ?thesis using c by auto
qed

end
