(* ===== verification/Client_Ip.thy ===== *)
theory Client_Ip
  imports Prelude
begin

text \<open>
  The client address behind trusted proxies, \<^verbatim>\<open>services/orchestrator/src/http/clientIp.ts\<close>, on
  which rate limits and quotas are keyed.  Addresses are parsed, printed and matched against
  networks by the package \<^verbatim>\<open>ipaddr.js\<close>, which is outside: its functions are the fields of
  \<open>ip_lib\<close>, over an arbitrary type of addresses.
\<close>

section \<open>The address library\<close>

text \<open>\<^verbatim>\<open>parse\<close> and \<^verbatim>\<open>parseCIDR\<close> throw on a text they do not accept; \<open>ip_mapped\<close> is the IPv4
  address of an IPv4-mapped IPv6 address; \<open>ip_match\<close> is \<^verbatim>\<open>remote.match([network, prefixLength])\<close>.\<close>

record 'ip ip_lib =
  ip_parse :: "string \<Rightarrow> 'ip option"
  ip_parseCIDR :: "string \<Rightarrow> ('ip \<times> int) option"
  ip_isV6 :: "'ip \<Rightarrow> bool"
  ip_mapped :: "'ip \<Rightarrow> 'ip option"
  ip_match :: "'ip \<Rightarrow> 'ip \<Rightarrow> int \<Rightarrow> bool"
  ip_toString :: "'ip \<Rightarrow> string"

section \<open>Parsing\<close>

text \<open>\<^verbatim>\<open>split("%", 1)[0]\<close>: the part before the zone of a scoped address.\<close>

definition strip_zone :: "string \<Rightarrow> string" where
  "strip_zone s = (if CHR ''%'' \<in> set s then takeWhile (\<lambda>c. c \<noteq> CHR ''%'') s else s)"

definition unmap :: "'ip ip_lib \<Rightarrow> 'ip \<Rightarrow> 'ip" where
  "unmap lib a = (if ip_isV6 lib a then (case ip_mapped lib a of Some v4 \<Rightarrow> v4 | None \<Rightarrow> a) else a)"

definition parseIpAddress :: "'ip ip_lib \<Rightarrow> string option \<Rightarrow> 'ip option" where
  "parseIpAddress lib raw =
     (case raw of
        None \<Rightarrow> None
      | Some r \<Rightarrow>
          let trimmed = trim r
          in if trimmed = [] then None
             else map_option (unmap lib) (ip_parse lib (strip_zone trimmed)))"

definition formatIpAddress :: "'ip ip_lib \<Rightarrow> 'ip \<Rightarrow> string" where
  "formatIpAddress lib a = ip_toString lib a"

definition parseTrustedEntry :: "'ip ip_lib \<Rightarrow> string \<Rightarrow> ('ip \<times> int) option" where
  "parseTrustedEntry lib entry =
     (let trimmed = trim entry
      in if trimmed = [] then None
         else let sanitized = strip_zone trimmed
              in if CHR ''/'' \<notin> set sanitized
                 then (case parseIpAddress lib (Some sanitized) of
                         None \<Rightarrow> None
                       | Some a \<Rightarrow> Some (a, if ip_isV6 lib a then 128 else 32))
                 else (case ip_parseCIDR lib sanitized of
                         None \<Rightarrow> None
                       | Some (network, prefixLength) \<Rightarrow>
                           let normalized = unmap lib network;
                               maxPrefix = (if ip_isV6 lib normalized then 128 else 32)
                           in Some (normalized, max 0 (min prefixLength maxPrefix))))"

section \<open>Trust\<close>

fun isTrustedProxy :: "'ip ip_lib \<Rightarrow> 'ip \<Rightarrow> string list \<Rightarrow> bool" where
  "isTrustedProxy lib remote [] = False"
| "isTrustedProxy lib remote (entry # entries) =
     (case parseTrustedEntry lib entry of
        None \<Rightarrow> isTrustedProxy lib remote entries
      | Some (network, prefixLength) \<Rightarrow>
          if ip_isV6 lib remote \<noteq> ip_isV6 lib network then isTrustedProxy lib remote entries
          else if ip_match lib remote network prefixLength then True
          else isTrustedProxy lib remote entries)"

text \<open>What is read of a request: the address of the socket, \<^verbatim>\<open>req.ip\<close> and the forwarding
  header, as \<^verbatim>\<open>req.header\<close> and as the raw header in either spelling.\<close>

record request =
  rq_remoteAddress :: "string option"
  rq_ip :: "string option"
  rq_header :: "string option"
  rq_raw_lower :: "string option"
  rq_raw_upper :: "string option"

definition resolveRemoteAddress :: "'ip ip_lib \<Rightarrow> request \<Rightarrow> 'ip option" where
  "resolveRemoteAddress lib req =
     (case parseIpAddress lib (rq_remoteAddress req) of
        Some a \<Rightarrow> Some a
      | None \<Rightarrow> parseIpAddress lib (rq_ip req))"

definition readForwardedHeader :: "request \<Rightarrow> string option" where
  "readForwardedHeader req =
     (case rq_header req of
        Some v \<Rightarrow> Some v
      | None \<Rightarrow> (case rq_raw_lower req of Some v \<Rightarrow> Some v | None \<Rightarrow> rq_raw_upper req))"

definition forwarded_entries :: "string \<Rightarrow> string list" where
  "forwarded_entries forwarded = filter (\<lambda>e. e \<noteq> []) (map trim (split_on CHR '','' forwarded))"

text \<open>The loop from the last entry to the first, on the reversed list.\<close>

fun last_untrusted :: "'ip ip_lib \<Rightarrow> string list \<Rightarrow> string list \<Rightarrow> 'ip option" where
  "last_untrusted lib cidrs [] = None"
| "last_untrusted lib cidrs (e # es) =
     (case parseIpAddress lib (Some e) of
        None \<Rightarrow> last_untrusted lib cidrs es
      | Some a \<Rightarrow> if isTrustedProxy lib a cidrs then last_untrusted lib cidrs es else Some a)"

definition resolveClientIp :: "'ip ip_lib \<Rightarrow> request \<Rightarrow> string list \<Rightarrow> string" where
  "resolveClientIp lib req cidrs =
     (case resolveRemoteAddress lib req of
        None \<Rightarrow> ''unknown''
      | Some remote \<Rightarrow>
          if \<not> isTrustedProxy lib remote cidrs then formatIpAddress lib remote
          else (case readForwardedHeader req of
                  None \<Rightarrow> formatIpAddress lib remote
                | Some forwarded \<Rightarrow>
                    if forwarded = [] then formatIpAddress lib remote
                    else (case last_untrusted lib cidrs (rev (forwarded_entries forwarded)) of
                            Some a \<Rightarrow> formatIpAddress lib a
                          | None \<Rightarrow> formatIpAddress lib remote)))"

definition isTrustedProxyAddress :: "'ip ip_lib \<Rightarrow> string option \<Rightarrow> string list \<Rightarrow> bool" where
  "isTrustedProxyAddress lib address cidrs =
     (case parseIpAddress lib address of None \<Rightarrow> False | Some a \<Rightarrow> isTrustedProxy lib a cidrs)"

section \<open>Properties\<close>

lemma forwarded_append: "forwarded_entries (a @ CHR '','' # b) = forwarded_entries a @ forwarded_entries b"
  by (simp add: forwarded_entries_def split_on_append)

lemma last_untrusted_append:
  "last_untrusted lib cidrs (xs @ ys) =
     (case last_untrusted lib cidrs xs of Some a \<Rightarrow> Some a | None \<Rightarrow> last_untrusted lib cidrs ys)"
  by (induction xs) (auto split: option.split)

lemma last_untrusted_Some:
  "last_untrusted lib cidrs es = Some a \<Longrightarrow>
     \<not> isTrustedProxy lib a cidrs \<and> (\<exists>e\<in>set es. parseIpAddress lib (Some e) = Some a)"
  by (induction es) (auto split: option.splits if_splits)

lemma remote_header [simp]: "resolveRemoteAddress lib (req\<lparr>rq_header := h\<rparr>) = resolveRemoteAddress lib req"
  by (simp add: resolveRemoteAddress_def split: option.split)


text \<open>The result is the address of the socket, or an address of the header that is no trusted
  proxy.\<close>

lemma client_ip_source:
  assumes "resolveRemoteAddress lib req = Some remote"
  shows "resolveClientIp lib req cidrs = formatIpAddress lib remote \<or>
    (\<exists>h e a. readForwardedHeader req = Some h \<and> e \<in> set (forwarded_entries h) \<and> parseIpAddress lib (Some e) = Some a \<and>
      \<not> isTrustedProxy lib a cidrs \<and> resolveClientIp lib req cidrs = formatIpAddress lib a)"
  using assms last_untrusted_Some [of lib cidrs]
  by (fastforce simp: resolveClientIp_def split: option.split)

section \<open>Entries that do not parse\<close>

text \<open>An entry that \<^verbatim>\<open>ipaddr.js\<close> does not accept, such as an address with a port, is skipped
  rather than ending the search, so that what the client wrote to its left is returned.\<close>

theorem unparsable_entry_skipped:
  assumes "resolveRemoteAddress lib req = Some remote" and "isTrustedProxy lib remote cidrs"
    and "\<forall>e\<in>set (forwarded_entries appended). parseIpAddress lib (Some e) = None"
    and "forwarded_entries forged = [f]" and "parseIpAddress lib (Some f) = Some a" and "\<not> isTrustedProxy lib a cidrs"
  shows "resolveClientIp lib (req\<lparr>rq_header := Some (forged @ CHR '','' # appended)\<rparr>) cidrs = formatIpAddress lib a"
proof -
  have "last_untrusted lib cidrs es = None" if "\<forall>e\<in>set es. parseIpAddress lib (Some e) = None" for es
    using that by (induction es) auto
  then have "last_untrusted lib cidrs (rev (forwarded_entries appended)) = None" using assms(3) by simp
  then show ?thesis
    using assms by (simp add: resolveClientIp_def readForwardedHeader_def forwarded_append last_untrusted_append)
qed

section \<open>Concrete runs\<close>

text \<open>Dotted IPv4 addresses as texts, with networks given by exact addresses.\<close>

definition text_lib :: "string ip_lib" where
  "text_lib = \<lparr>ip_parse = (\<lambda>s. if \<forall>c\<in>set s. c = CHR ''.'' \<or> CHR ''0'' = c \<or> CHR ''1'' = c \<or> CHR ''9'' = c then Some s else None),
     ip_parseCIDR = (\<lambda>_. None), ip_isV6 = (\<lambda>_. False), ip_mapped = (\<lambda>_. None),
     ip_match = (\<lambda>a n p. a = n), ip_toString = (\<lambda>a. a)\<rparr>"

definition proxied :: request where
  "proxied = \<lparr>rq_remoteAddress = Some ''10.0.0.1'', rq_ip = None, rq_header = None, rq_raw_lower = None, rq_raw_upper = None\<rparr>"


end
