(* ===== verification/Distributed_Lock.thy ===== *)
theory Distributed_Lock
  imports Json_Text
begin

text \<open>
  The distributed lock, \<^verbatim>\<open>services/orchestrator/src/services/DistributedLockService.ts\<close>.  Any
  number of processes call \<^verbatim>\<open>acquireLock\<close> on one Redis server; a call is a sequence of attempts
  with a timer between them, and each attempt is one atomic \<^verbatim>\<open>SET NX PX\<close> command.  The server is
  outside the repository: its commands are the record \<open>redis_ops\<close>, and what its documentation
  promises is the locale \<open>redis_server\<close>.  The network may lose a request or a reply.
\<close>

section \<open>The server and the network\<close>

record 'r redis_ops =
  ro_setNX :: "time \<Rightarrow> string \<Rightarrow> string \<Rightarrow> int \<Rightarrow> 'r \<Rightarrow> 'r \<times> bool"
  ro_set :: "time \<Rightarrow> string \<Rightarrow> string \<Rightarrow> int option \<Rightarrow> 'r \<Rightarrow> 'r"
  ro_get :: "time \<Rightarrow> string \<Rightarrow> 'r \<Rightarrow> string option"
  ro_del :: "time \<Rightarrow> string \<Rightarrow> 'r \<Rightarrow> 'r"

datatype delivery = Delivered | RequestLost | ReplyLost

text \<open>A command as its client sees it: without a reply the call rejects.\<close>

definition send :: "delivery \<Rightarrow> ('r \<Rightarrow> 'r \<times> 'a) \<Rightarrow> 'r \<Rightarrow> 'r \<times> 'a option" where
  "send net cmd r =
     (case net of
        Delivered \<Rightarrow> (case cmd r of (r', a) \<Rightarrow> (r', Some a))
      | RequestLost \<Rightarrow> (r, None)
      | ReplyLost \<Rightarrow> (fst (cmd r), None))"

section \<open>The service\<close>

definition MAX_RETRY_COUNT :: int where
  "MAX_RETRY_COUNT = 10"

text \<open>\<^verbatim>\<open>Math.trunc\<close>, and the value that replaces a falsy one.\<close>

definition js_trunc_or :: "int \<Rightarrow> js_number \<Rightarrow> js_number" where
  "js_trunc_or d x =
     (case x of
        NaN \<Rightarrow> Finite (of_int d)
      | Infinite p \<Rightarrow> Infinite p
      | Finite q \<Rightarrow> let n = (if q < 0 then \<lceil>q\<rceil> else \<lfloor>q\<rfloor>) in Finite (of_int (if n = 0 then d else n)))"

definition safeRetryCount :: "js_number \<Rightarrow> int" where
  "safeRetryCount retryCount =
     (case js_trunc_or 1 retryCount of
        Finite q \<Rightarrow> min (max \<lfloor>q\<rfloor> 1) MAX_RETRY_COUNT
      | Infinite positive \<Rightarrow> if positive then MAX_RETRY_COUNT else 1
      | NaN \<Rightarrow> 1)"

text \<open>A timer with an infinite delay fires after one millisecond.\<close>

definition safeRetryDelayMs :: "js_number \<Rightarrow> int" where
  "safeRetryDelayMs retryDelayMs =
     (case js_trunc_or 0 retryDelayMs of
        Finite q \<Rightarrow> max \<lfloor>q\<rfloor> 0
      | Infinite positive \<Rightarrow> if positive then 1 else 0
      | NaN \<Rightarrow> 0)"

text \<open>A call waits for its next attempt, with the number of attempts left, holds the lock since
  a time, has called its release function, or has rejected: with \<^verbatim>\<open>LockAcquisitionError\<close> or
  with the error of the client.\<close>

datatype call_phase =
    Retrying nat time
  | Holding time
  | LockReleased
  | LockBusy
  | ClientFailed

record LockCall =
  lc_key :: string
  lc_token :: string
  lc_ttlMs :: int
  lc_retryDelayMs :: int
  lc_phase :: call_phase

record 'r lock_world =
  lw_redis :: 'r
  lw_calls :: "(nat, LockCall) jsmap"

definition lock_key :: "string \<Rightarrow> string" where
  "lock_key resource = ''lock:'' @ resource"

definition set_phase :: "nat \<Rightarrow> LockCall \<Rightarrow> call_phase \<Rightarrow> 'r lock_world \<Rightarrow> 'r lock_world" where
  "set_phase i c p w = w\<lparr>lw_calls := jset i (c\<lparr>lc_phase := p\<rparr>) (lw_calls w)\<rparr>"

text \<open>One turn of the loop: the attempt, and the timer that is started also after the last one.\<close>

definition lock_attempt :: "'r redis_ops \<Rightarrow> time \<Rightarrow> delivery \<Rightarrow> nat \<Rightarrow> 'r lock_world \<Rightarrow> 'r lock_world" where
  "lock_attempt ops now net i w =
     (case map_of (lw_calls w) i of
        None \<Rightarrow> w
      | Some c \<Rightarrow>
          (case lc_phase c of
             Retrying left next \<Rightarrow>
               if now < next then w
               else (case left of
                       0 \<Rightarrow> set_phase i c LockBusy w
                     | Suc n \<Rightarrow>
                         let (r', reply) = send net (ro_setNX ops now (lc_key c) (lc_token c) (lc_ttlMs c)) (lw_redis w);
                             w' = w\<lparr>lw_redis := r'\<rparr>
                         in (case reply of
                               None \<Rightarrow> set_phase i c ClientFailed w'
                             | Some True \<Rightarrow> set_phase i c (Holding now) w'
                             | Some False \<Rightarrow> set_phase i c (Retrying n (now + lc_retryDelayMs c)) w'))
           | _ \<Rightarrow> w))"

definition acquireLock ::
  "'r redis_ops \<Rightarrow> time \<Rightarrow> delivery \<Rightarrow> nat \<Rightarrow> string \<Rightarrow> int \<Rightarrow> js_number \<Rightarrow> js_number \<Rightarrow> string
     \<Rightarrow> 'r lock_world \<Rightarrow> 'r lock_world" where
  "acquireLock ops now net i resource ttlMs retryCount retryDelayMs token w =
     (let c = \<lparr>lc_key = lock_key resource, lc_token = token, lc_ttlMs = ttlMs,
               lc_retryDelayMs = safeRetryDelayMs retryDelayMs,
               lc_phase = Retrying (nat (safeRetryCount retryCount)) now\<rparr>
      in lock_attempt ops now net i (w\<lparr>lw_calls := jset i c (lw_calls w)\<rparr>))"

text \<open>The script of the release function, which the server runs as one command.\<close>

definition release_script :: "'r redis_ops \<Rightarrow> time \<Rightarrow> string \<Rightarrow> string \<Rightarrow> 'r \<Rightarrow> 'r \<times> bool" where
  "release_script ops now key token r =
     (if ro_get ops now key r = Some token then (ro_del ops now key r, True) else (r, False))"

text \<open>The release function exists once the lock was acquired and may be called again; its
  errors are only logged.\<close>

definition releaseLock :: "'r redis_ops \<Rightarrow> time \<Rightarrow> delivery \<Rightarrow> nat \<Rightarrow> 'r lock_world \<Rightarrow> 'r lock_world" where
  "releaseLock ops now net i w =
     (case map_of (lw_calls w) i of
        None \<Rightarrow> w
      | Some c \<Rightarrow>
          if (case lc_phase c of Holding _ \<Rightarrow> True | LockReleased \<Rightarrow> True | _ \<Rightarrow> False)
          then set_phase i c LockReleased
            (w\<lparr>lw_redis := fst (send net (release_script ops now (lc_key c) (lc_token c)) (lw_redis w))\<rparr>)
          else w)"

datatype lock_op =
    AcquireLock nat string int js_number js_number string
  | LockAttempt nat
  | ReleaseLock nat

text \<open>Identifiers name the calls of all processes; a call is made once.\<close>

fun lock_step :: "'r redis_ops \<Rightarrow> time \<times> delivery \<times> lock_op \<Rightarrow> 'r lock_world \<Rightarrow> 'r lock_world" where
  "lock_step ops (now, net, AcquireLock i resource ttl count delay token) w =
     (if jhas (lw_calls w) i then w else acquireLock ops now net i resource ttl count delay token w)"
| "lock_step ops (now, net, LockAttempt i) w = lock_attempt ops now net i w"
| "lock_step ops (now, net, ReleaseLock i) w = releaseLock ops now net i w"

fun lock_run :: "'r redis_ops \<Rightarrow> (time \<times> delivery \<times> lock_op) list \<Rightarrow> 'r lock_world \<Rightarrow> 'r lock_world" where
  "lock_run ops [] w = w"
| "lock_run ops (e # es) w = lock_run ops es (lock_step ops e w)"

definition new_world :: "'r \<Rightarrow> 'r lock_world" where
  "new_world r = \<lparr>lw_redis = r, lw_calls = []\<rparr>"

text \<open>A call has the lock on its key at a time: it acquired it, has not released it, and the
  time to live has not passed.\<close>

definition has_lock :: "'r lock_world \<Rightarrow> time \<Rightarrow> nat \<Rightarrow> string \<Rightarrow> bool" where
  "has_lock w now i key \<longleftrightarrow>
     (case map_of (lw_calls w) i of
        None \<Rightarrow> False
      | Some c \<Rightarrow> lc_key c = key \<and>
          (case lc_phase c of Holding since \<Rightarrow> now < since + lc_ttlMs c | _ \<Rightarrow> False))"

fun op_ttl :: "lock_op \<Rightarrow> int option" where
  "op_ttl (AcquireLock i resource ttl count delay token) = Some ttl"
| "op_ttl _ = None"

fun op_token :: "lock_op \<Rightarrow> string option" where
  "op_token (AcquireLock i resource ttl count delay token) = Some token"
| "op_token _ = None"

text \<open>A schedule: the server's clock does not run backwards, times to live are positive and at
  most \<open>m\<close>, and the random tokens are all different.\<close>

fun timed :: "time \<Rightarrow> (time \<times> 'a) list \<Rightarrow> bool" where
  "timed now [] = True"
| "timed now ((t, x) # es) = (now \<le> t \<and> timed t es)"

definition ttls_within :: "int \<Rightarrow> (time \<times> delivery \<times> lock_op) list \<Rightarrow> bool" where
  "ttls_within m es \<longleftrightarrow> list_all (\<lambda>(t, net, op). case op_ttl op of None \<Rightarrow> True | Some ttl \<Rightarrow> 0 < ttl \<and> ttl \<le> m) es"

definition tokens_of :: "(time \<times> delivery \<times> lock_op) list \<Rightarrow> string list" where
  "tokens_of es = List.map_filter (\<lambda>(t, net, op). op_token op) es"

definition last_time :: "time \<Rightarrow> (time \<times> 'a) list \<Rightarrow> time" where
  "last_time now es = (if es = [] then now else fst (last es))"

text \<open>An attempt does nothing, gives up, or sends the command.\<close>

lemma attempt_cases:
  obtains "lock_attempt ops now net i w = w"
  | c due where "map_of (lw_calls w) i = Some c" "lc_phase c = Retrying 0 due"
      "lock_attempt ops now net i w = set_phase i c LockBusy w"
  | c n due where "map_of (lw_calls w) i = Some c" "lc_phase c = Retrying (Suc n) due" "due \<le> now"
proof (cases "map_of (lw_calls w) i")
  case None
  then show ?thesis using that(1) by (simp add: lock_attempt_def)
next
  case (Some c)
  show ?thesis
  proof (cases "lc_phase c")
    case (Retrying left due)
    with Some that show ?thesis by (cases "now < due"; cases left) (simp_all add: lock_attempt_def)
  qed (use Some that(1) in \<open>simp_all add: lock_attempt_def\<close>)
qed

section \<open>What the service relies on\<close>

locale redis_server =
  fixes ops :: "'r redis_ops"
    and live :: "'r \<Rightarrow> time \<Rightarrow> string \<Rightarrow> string option"
  assumes get_live: "ro_get ops now k r = live r now k"
    and setNX_free: "live r now k = None \<Longrightarrow> 0 < ttl \<Longrightarrow> ro_setNX ops now k v ttl r = (r', b) \<Longrightarrow>
      b \<and> (\<forall>t k'. now \<le> t \<longrightarrow> live r' t k' = (if k' = k then if t < now + ttl then Some v else None else live r t k'))"
    and setNX_taken: "live r now k = Some v' \<Longrightarrow> ro_setNX ops now k v ttl r = (r', b) \<Longrightarrow>
      \<not> b \<and> (\<forall>t k'. now \<le> t \<longrightarrow> live r' t k' = live r t k')"
    and set_live: "now \<le> t \<Longrightarrow> live (ro_set ops now k v ex r) t k' =
      (if k' = k then (case ex of None \<Rightarrow> Some v | Some s \<Rightarrow> if t < now + s * 1000 then Some v else None)
       else live r t k')"
    and del_live: "now \<le> t \<Longrightarrow> live (ro_del ops now k r) t k' = (if k' = k then None else live r t k')"
begin

text \<open>The invariant: a call that has the lock owns the key until the lock expires, and the keys of
  locks are free \<open>m\<close> milliseconds from now on.\<close>

definition lock_inv :: "int \<Rightarrow> time \<Rightarrow> string list \<Rightarrow> 'r lock_world \<Rightarrow> bool" where
  "lock_inv m now tokens w \<longleftrightarrow>
     (\<forall>i c. map_of (lw_calls w) i = Some c \<longrightarrow>
        0 < lc_ttlMs c \<and> lc_ttlMs c \<le> m \<and> lc_token c \<in> set tokens \<and> (\<exists>resource. lc_key c = lock_key resource) \<and>
        (\<forall>since t. lc_phase c = Holding since \<and> now \<le> t \<and> t < since + lc_ttlMs c \<longrightarrow>
           live (lw_redis w) t (lc_key c) = Some (lc_token c))) \<and>
     (\<forall>i j c d. map_of (lw_calls w) i = Some c \<and> map_of (lw_calls w) j = Some d \<and> lc_token c = lc_token d \<longrightarrow> i = j) \<and>
     (\<forall>t resource. now + m \<le> t \<longrightarrow> live (lw_redis w) t (lock_key resource) = None)"

lemma lock_invI:
  assumes "\<And>i c. map_of (lw_calls w) i = Some c \<Longrightarrow>
      0 < lc_ttlMs c \<and> lc_ttlMs c \<le> m \<and> lc_token c \<in> set tokens \<and> (\<exists>resource. lc_key c = lock_key resource)"
    and "\<And>i c since t. map_of (lw_calls w) i = Some c \<Longrightarrow> lc_phase c = Holding since \<Longrightarrow> now \<le> t \<Longrightarrow>
      t < since + lc_ttlMs c \<Longrightarrow> live (lw_redis w) t (lc_key c) = Some (lc_token c)"
    and "\<And>i j c d. map_of (lw_calls w) i = Some c \<Longrightarrow> map_of (lw_calls w) j = Some d \<Longrightarrow> lc_token c = lc_token d \<Longrightarrow> i = j"
    and "\<And>t resource. now + m \<le> t \<Longrightarrow> live (lw_redis w) t (lock_key resource) = None"
  shows "lock_inv m now tokens w"
  unfolding lock_inv_def using assms by blast

lemma lock_invD:
  assumes "lock_inv m now tokens w"
  shows "map_of (lw_calls w) i = Some c \<Longrightarrow>
      0 < lc_ttlMs c \<and> lc_ttlMs c \<le> m \<and> lc_token c \<in> set tokens \<and> (\<exists>resource. lc_key c = lock_key resource)"
    and "map_of (lw_calls w) i = Some c \<Longrightarrow> lc_phase c = Holding since \<Longrightarrow> now \<le> t \<Longrightarrow>
      t < since + lc_ttlMs c \<Longrightarrow> live (lw_redis w) t (lc_key c) = Some (lc_token c)"
    and "map_of (lw_calls w) i = Some c \<Longrightarrow> map_of (lw_calls w) j = Some d \<Longrightarrow> lc_token c = lc_token d \<Longrightarrow> i = j"
    and "now + m \<le> t \<Longrightarrow> live (lw_redis w) t (lock_key resource) = None"
  using assms unfolding lock_inv_def by blast+

lemma lock_inv_later:
  assumes "lock_inv m now tokens w" "now \<le> now'" "set tokens \<subseteq> set tokens'"
  shows "lock_inv m now' tokens' w"
  using lock_invD [OF assms(1)] assms(2,3)
  by (intro lock_invI) (blast, meson order_trans, blast, meson add_mono order_refl order_trans)

text \<open>A command that leaves the locks of others alone keeps the invariant.\<close>

lemma lock_inv_redis:
  assumes inv: "lock_inv m now tokens w"
    and own: "\<And>j d since t. map_of (lw_calls w) j = Some d \<Longrightarrow> j \<noteq> i \<Longrightarrow> lc_phase d = Holding since \<Longrightarrow> now \<le> t \<Longrightarrow>
      t < since + lc_ttlMs d \<Longrightarrow> live r' t (lc_key d) = live (lw_redis w) t (lc_key d)"
    and free: "\<And>t resource. now + m \<le> t \<Longrightarrow> live r' t (lock_key resource) = None"
    and c: "map_of (lw_calls w) i = Some c"
    and mine: "\<And>since t. p = Holding since \<Longrightarrow> now \<le> t \<Longrightarrow> t < since + lc_ttlMs c \<Longrightarrow>
      live r' t (lc_key c) = Some (lc_token c)"
  shows "lock_inv m now tokens (set_phase i c p (w\<lparr>lw_redis := r'\<rparr>))"
  using lock_invD [OF inv] own free c mine
  by (intro lock_invI) (auto simp: set_phase_def jmap_simps split: if_splits; metis)+

text \<open>The server's state after a \<^verbatim>\<open>SET NX PX\<close>, and what the client learns.\<close>

lemma setNX_cases:
  assumes "0 < ttl" "ro_setNX ops now k v ttl r = (r', b)"
  obtains (free) "live r now k = None" b
      "\<And>t k'. now \<le> t \<Longrightarrow> live r' t k' = (if k' = k then if t < now + ttl then Some v else None else live r t k')"
  | (taken) v' where "live r now k = Some v'" "\<not> b" "\<And>t k'. now \<le> t \<Longrightarrow> live r' t k' = live r t k'"
proof (cases "live r now k")
  case None
  with setNX_free [OF None assms] show ?thesis by (intro free) auto
next
  case (Some v')
  with setNX_taken [OF Some assms(2)] show ?thesis by (intro taken) auto
qed

lemma setNX_inv:
  assumes inv: "lock_inv m now tokens w" and c: "map_of (lw_calls w) i = Some c"
    and p: "lc_phase c = Retrying n next"
    and cmd: "ro_setNX ops now (lc_key c) (lc_token c) (lc_ttlMs c) (lw_redis w) = (r', b)"
    and q: "q = Holding now \<and> b \<or> (\<forall>since. q \<noteq> Holding since)"
  shows "lock_inv m now tokens (set_phase i c q (w\<lparr>lw_redis := r'\<rparr>))"
proof -
  note D = lock_invD [OF inv]
  from D(1) [OF c] obtain resource where ttl: "0 < lc_ttlMs c" "lc_ttlMs c \<le> m" "lc_key c = lock_key resource" by blast
  from ttl(1) cmd show ?thesis
  proof (cases rule: setNX_cases)
    case free
    have other: "lc_key d \<noteq> lc_key c"
      if "map_of (lw_calls w) j = Some d" "lc_phase d = Holding since" "now \<le> t" "t < since + lc_ttlMs d" for j d since t
      using D(2) [OF that(1,2), of now] that(3,4) free(1) by auto
    show ?thesis
      by (rule lock_inv_redis [OF inv _ _ c]) (use other free D(4) ttl q in \<open>auto simp: lock_key_def\<close>)
  next
    case taken
    show ?thesis
      by (rule lock_inv_redis [OF inv _ _ c]) (use taken D(4) ttl q in auto)
  qed
qed

lemma attempt_inv:
  assumes inv: "lock_inv m now tokens w"
  shows "lock_inv m now tokens (lock_attempt ops now net i w)"
proof -
  note D = lock_invD [OF inv]
  show ?thesis
  proof (cases rule: attempt_cases [of ops now net i w])
    case 1
    with inv show ?thesis by simp
  next
    case (2 c due)
    have "lock_inv m now tokens (set_phase i c LockBusy (w\<lparr>lw_redis := lw_redis w\<rparr>))"
      by (rule lock_inv_redis [OF inv _ _ 2(1)]) (use D(4) in auto)
    with 2 show ?thesis by simp
  next
    case (3 c n due)
    obtain r' b where cmd: "ro_setNX ops now (lc_key c) (lc_token c) (lc_ttlMs c) (lw_redis w) = (r', b)" by fastforce
    have set: "lock_inv m now tokens (set_phase i c q (w\<lparr>lw_redis := r'\<rparr>))"
      if "q = Holding now \<and> b \<or> (\<forall>since. q \<noteq> Holding since)" for q
      using setNX_inv [OF inv 3(1,2) cmd that] .
    have lost: "lock_inv m now tokens (set_phase i c ClientFailed (w\<lparr>lw_redis := lw_redis w\<rparr>))"
      by (rule lock_inv_redis [OF inv _ _ 3(1)]) (use D(4) in auto)
    show ?thesis
      using 3 set lost
      by (cases net; cases b) (simp_all add: lock_attempt_def send_def cmd)
  qed
qed

lemma acquire_inv:
  assumes inv: "lock_inv m now tokens w" and fresh: "\<not> jhas (lw_calls w) i"
    and ttl: "0 < ttl" "ttl \<le> m" and token: "token \<notin> set tokens"
  shows "lock_inv m now (token # tokens) (acquireLock ops now net i resource ttl count delay token w)"
proof -
  note D = lock_invD [OF inv]
  have "lock_inv m now (token # tokens) (w\<lparr>lw_calls := jset i \<lparr>lc_key = lock_key resource, lc_token = token,
      lc_ttlMs = ttl, lc_retryDelayMs = safeRetryDelayMs delay, lc_phase = Retrying (nat (safeRetryCount count)) now\<rparr>
      (lw_calls w)\<rparr>)"
    using D token ttl by (intro lock_invI) (auto simp: jmap_simps split: if_splits; fastforce)+
  then show ?thesis unfolding acquireLock_def Let_def by (rule attempt_inv)
qed

lemma release_inv:
  assumes inv: "lock_inv m now tokens w"
  shows "lock_inv m now tokens (releaseLock ops now net i w)"
proof (cases "map_of (lw_calls w) i")
  case None
  with inv show ?thesis by (simp add: releaseLock_def)
next
  case (Some c)
  note D = lock_invD [OF inv]
  define r' where "r' = fst (send net (release_script ops now (lc_key c) (lc_token c)) (lw_redis w))"
  have r': "live r' t k = live (lw_redis w) t k \<or>
      k = lc_key c \<and> live r' t k = None \<and> live (lw_redis w) now k = Some (lc_token c)" if "now \<le> t" for t k
    using that by (auto simp: r'_def send_def release_script_def get_live del_live split: delivery.splits)
  have other: "live r' t (lc_key d) = live (lw_redis w) t (lc_key d)"
    if "map_of (lw_calls w) j = Some d" "j \<noteq> i" "lc_phase d = Holding since" "now \<le> t" "t < since + lc_ttlMs d" for j d since t
    using r' [OF that(4), of "lc_key d"] D(2) [OF that(1,3), of now] D(3) [OF that(1) Some] that by auto
  have free: "live r' t (lock_key resource) = None" if "now + m \<le> t" for t resource
    using D(1) [OF Some] D(4) [OF that] r' [of t "lock_key resource"] that by force
  have "lock_inv m now tokens (set_phase i c LockReleased (w\<lparr>lw_redis := r'\<rparr>))"
    by (rule lock_inv_redis [OF inv _ _ Some]) (use other free in auto)
  with inv Some show ?thesis by (simp add: releaseLock_def r'_def)
qed

lemma step_inv:
  assumes "lock_inv m now tokens w" "ttls_within m [(now, net, op)]"
    and "case op_token op of None \<Rightarrow> tokens' = tokens | Some token \<Rightarrow> token \<notin> set tokens \<and> tokens' = token # tokens"
  shows "lock_inv m now tokens' (lock_step ops (now, net, op) w)"
proof (cases op)
  case (AcquireLock i resource ttl count delay token)
  with assms show ?thesis
    using acquire_inv [OF assms(1)] lock_inv_later [OF assms(1) order_refl, of tokens']
    by (auto simp: ttls_within_def)
qed (use assms attempt_inv release_inv in auto)

lemma run_inv:
  "lock_inv m now tokens w \<Longrightarrow> timed now es \<Longrightarrow> ttls_within m es \<Longrightarrow> distinct (tokens_of es) \<Longrightarrow>
     set (tokens_of es) \<inter> set tokens = {} \<Longrightarrow>
     \<exists>tokens'. lock_inv m (last_time now es) tokens' (lock_run ops es w)"
proof (induction es arbitrary: now tokens w)
  case Nil
  then show ?case by (auto simp: last_time_def)
next
  case (Cons e es)
  obtain t net op where e: "e = (t, net, op)" by (cases e)
  let ?tokens = "case op_token op of None \<Rightarrow> tokens | Some token \<Rightarrow> token # tokens"
  have "lock_inv m t tokens w" using lock_inv_later [OF Cons.prems(1)] Cons.prems(2) e by auto
  then have "lock_inv m t ?tokens (lock_step ops e w)"
    unfolding e by (rule step_inv) (use Cons.prems e in \<open>auto simp: ttls_within_def tokens_of_def map_filter_simps
        split: option.splits\<close>)
  then have "\<exists>tokens'. lock_inv m (last_time t es) tokens' (lock_run ops es (lock_step ops e w))"
    by (rule Cons.IH) (use Cons.prems e in \<open>auto simp: ttls_within_def tokens_of_def map_filter_simps split: option.splits\<close>)
  then show ?case by (cases "es = []") (simp_all add: e last_time_def)
qed

lemma world_inv:
  assumes "\<And>t k. live r t k = None" "timed now es" "ttls_within m es" "distinct (tokens_of es)" "0 < m"
  obtains tokens where "lock_inv m (last_time now es) tokens (lock_run ops es (new_world r))"
proof -
  have "lock_inv m now [] (new_world r)" using assms(1) by (intro lock_invI) (auto simp: new_world_def)
  then show ?thesis using run_inv [of m now "[]" "new_world r" es] assms that by auto
qed

lemma exclusive:
  assumes "lock_inv m now tokens w" "now \<le> t" "has_lock w t i key" "has_lock w t j key"
  shows "i = j"
proof -
  from assms(3) obtain c since where c: "map_of (lw_calls w) i = Some c" "lc_key c = key" "lc_phase c = Holding since"
    "t < since + lc_ttlMs c"
    by (auto simp: has_lock_def split: option.splits call_phase.splits)
  from assms(4) obtain d since' where d: "map_of (lw_calls w) j = Some d" "lc_key d = key" "lc_phase d = Holding since'"
    "t < since' + lc_ttlMs d"
    by (auto simp: has_lock_def split: option.splits call_phase.splits)
  from lock_invD(2) [OF assms(1) c(1,3) assms(2) c(4)] lock_invD(2) [OF assms(1) d(1,3) assms(2) d(4)]
  have "lc_token c = lc_token d" using c d by simp
  with lock_invD(3) [OF assms(1) c(1) d(1)] show ?thesis by simp
qed

lemma acquires_free:
  assumes "lock_inv m now tokens w" "now + m \<le> t" "0 < ttl"
  shows "has_lock (acquireLock ops t Delivered i resource ttl count delay token w) t i (lock_key resource)"
proof -
  have "0 < nat (safeRetryCount count)"
    by (auto simp: safeRetryCount_def MAX_RETRY_COUNT_def split: js_number.splits)
  then obtain n where n: "nat (safeRetryCount count) = Suc n" using gr0_implies_Suc by blast
  obtain r' b where cmd: "ro_setNX ops t (lock_key resource) token ttl (lw_redis w) = (r', b)" by fastforce
  have "b" using setNX_free [OF lock_invD(4) [OF assms(1,2)] assms(3) cmd] by simp
  with n cmd assms(3) show ?thesis
    by (simp add: acquireLock_def lock_attempt_def send_def set_phase_def has_lock_def jmap_simps)
qed

text \<open>A command on a key that belongs to no lock.\<close>

lemma lock_inv_set:
  assumes inv: "lock_inv m now tokens w" and k: "\<And>resource. k \<noteq> lock_key resource" and m: "0 \<le> m"
  shows "lock_inv m now tokens (w\<lparr>lw_redis := ro_set ops now k v ex (lw_redis w)\<rparr>)"
proof -
  note D = lock_invD [OF inv]
  have key: "lc_key c \<noteq> k" if "map_of (lw_calls w) i = Some c" for i c using D(1) [OF that] k by metis
  show ?thesis
  proof (rule lock_invI)
    show "live (lw_redis (w\<lparr>lw_redis := ro_set ops now k v ex (lw_redis w)\<rparr>)) t (lock_key resource) = None"
      if "now + m \<le> t" for t resource
      using D(4) [OF that] k set_live [of now t k v ex "lw_redis w" "lock_key resource"] that m by auto
  qed (use D key set_live in \<open>auto; metis\<close>)+
qed

end

section \<open>A server that keeps the promise\<close>

type_synonym redis_store = "(string, string \<times> time option) jsmap"

definition live_value :: "redis_store \<Rightarrow> time \<Rightarrow> string \<Rightarrow> string option" where
  "live_value r now k =
     (case map_of r k of
        None \<Rightarrow> None
      | Some (v, ex) \<Rightarrow> (case ex of None \<Rightarrow> Some v | Some e \<Rightarrow> if now < e then Some v else None))"

definition redis_model :: "redis_store redis_ops" where
  "redis_model =
     \<lparr>ro_setNX = (\<lambda>now k v ttl r. if live_value r now k = None then (jset k (v, Some (now + ttl)) r, True) else (r, False)),
      ro_set = (\<lambda>now k v ex r. jset k (v, map_option (\<lambda>s. now + s * 1000) ex) r),
      ro_get = (\<lambda>now k r. live_value r now k),
      ro_del = (\<lambda>now k r. jdelete k r)\<rparr>"

interpretation redis: redis_server redis_model live_value
  by unfold_locales
    (auto simp: redis_model_def live_value_def jmap_simps split: option.splits if_splits)

section \<open>Properties\<close>

text \<open>
  C14.  Mutual exclusion: whatever processes call \<^verbatim>\<open>acquireLock\<close> and their release functions, in
  whatever order the server executes their commands and whatever requests and replies are
  lost, two different calls never have the lock on the same resource at the same time.  A
  release function called late, when the lock has expired and belongs to another call, does
  not take it away.
\<close>

theorem lock_mutual_exclusion:
  assumes "redis_server ops live" "\<And>t k. live r t k = None"
    and "timed now es" "ttls_within m es" "distinct (tokens_of es)" "0 < m"
    and "last_time now es \<le> t"
    and "has_lock (lock_run ops es (new_world r)) t i (lock_key resource)"
    and "has_lock (lock_run ops es (new_world r)) t j (lock_key resource)"
  shows "i = j"
proof -
  obtain tokens where "redis_server.lock_inv live m (last_time now es) tokens (lock_run ops es (new_world r))"
    using redis_server.world_inv [OF assms(1-6)] by blast
  then show ?thesis using redis_server.exclusive [OF assms(1)] assms(7-9) by blast
qed

text \<open>
  No lock is held for ever: whatever happened before, crashed holders and lost replies
  included, once the largest time to live has passed without a new command, a call acquires the
  lock at its first attempt.
\<close>

theorem lock_available_after_ttl:
  assumes "redis_server ops live" "\<And>t k. live r t k = None"
    and "timed now es" "ttls_within m es" "distinct (tokens_of es)" "0 < m"
    and "last_time now es + m \<le> t" "0 < ttl"
  shows "has_lock (acquireLock ops t Delivered i resource ttl count delay token (lock_run ops es (new_world r)))
           t i (lock_key resource)"
proof -
  obtain tokens where "redis_server.lock_inv live m (last_time now es) tokens (lock_run ops es (new_world r))"
    using redis_server.world_inv [OF assms(1-6)] by blast
  then show ?thesis using redis_server.acquires_free [OF assms(1)] assms(7,8) by blast
qed

section \<open>Witnesses\<close>

text \<open>Two calls for one resource: the second gets the lock when the first one expires, and the
  late release of the first leaves it alone.\<close>

definition demo_locks :: "(time \<times> delivery \<times> lock_op) list" where
  "demo_locks =
     [(0, Delivered, AcquireLock 0 ''plan'' 100 (Finite 3) (Finite 60) ''a''),
      (10, Delivered, AcquireLock 1 ''plan'' 100 (Finite 3) (Finite 60) ''b''),
      (70, Delivered, LockAttempt 1), (130, Delivered, LockAttempt 1), (140, Delivered, ReleaseLock 0)]"

lemma demo_locks_ok:
  "timed 0 demo_locks" "ttls_within 100 demo_locks" "distinct (tokens_of demo_locks)" "last_time 0 demo_locks = 140"
  by (simp_all add: demo_locks_def ttls_within_def tokens_of_def map_filter_simps last_time_def)

theorem lock_mutual_exclusion_witness:
  "has_lock (lock_run redis_model demo_locks (new_world [])) 150 1 (lock_key ''plan'') \<and>
   \<not> has_lock (lock_run redis_model demo_locks (new_world [])) 150 0 (lock_key ''plan'')"
proof -
  have "has_lock (lock_run redis_model demo_locks (new_world [])) 150 1 (lock_key ''plan'')" by code_simp
  then show ?thesis
    using lock_mutual_exclusion [OF redis.redis_server_axioms _ demo_locks_ok(1-3), of "[]" 150 0 "''plan''" 1]
    by (auto simp: demo_locks_ok(4) live_value_def)
qed

theorem lock_available_after_ttl_witness:
  "has_lock (acquireLock redis_model 240 Delivered 2 ''plan'' 50 (Finite 1) (Finite 0) ''c''
     (lock_run redis_model demo_locks (new_world []))) 240 2 (lock_key ''plan'')"
  using lock_available_after_ttl [OF redis.redis_server_axioms _ demo_locks_ok(1-3), of "[]" 240 50]
  by (simp add: demo_locks_ok(4) live_value_def)

end
