(* ===== verification/Posix_Paths.thy ===== *)
theory Posix_Paths
  imports Prelude "HOL-Library.Sublist"
begin

text \<open>
  The functions of Node's \<^verbatim>\<open>path\<close> module that the orchestrator uses, on POSIX systems:
  \<^verbatim>\<open>normalize\<close>, \<^verbatim>\<open>resolve\<close>, \<^verbatim>\<open>relative\<close>, \<^verbatim>\<open>basename\<close> and \<^verbatim>\<open>join\<close>.  A path is read as its
  segments between slashes.
\<close>

text \<open>\<^verbatim>\<open>path.posix.normalize\<close>: the segments with \<^verbatim>\<open>.\<close> and \<^verbatim>\<open>..\<close> resolved, most recent first.\<close>

fun resolve_segments :: "bool \<Rightarrow> string list \<Rightarrow> string list \<Rightarrow> string list" where
  "resolve_segments up acc [] = rev acc"
| "resolve_segments up acc (s # ss) =
     (if s = [] \<or> s = ''.'' then resolve_segments up acc ss
      else if s = ''..'' then
        (case acc of
           [] \<Rightarrow> resolve_segments up (if up then [s] else []) ss
         | x # xs \<Rightarrow> resolve_segments up (if x \<noteq> ''..'' then xs else if up then s # acc else acc) ss)
      else resolve_segments up (s # acc) ss)"

definition posix_normalize :: "string \<Rightarrow> string" where
  "posix_normalize p =
     (if p = [] then ''.''
      else let absolute = (hd p = CHR ''/''); trailing = (last p = CHR ''/'');
               q = join_strings ''/'' (resolve_segments (\<not> absolute) [] (split_on CHR ''/'' p))
           in if q = [] then (if absolute then ''/'' else if trailing then ''./'' else ''.'')
              else (if absolute then ''/'' else []) @ q @ (if trailing then ''/'' else []))"

definition posix_join :: "string \<Rightarrow> string \<Rightarrow> string" where
  "posix_join a b = posix_normalize (a @ ''/'' @ b)"

text \<open>The segments of the absolute path that \<^verbatim>\<open>resolve\<close> makes of a path.\<close>

definition path_segments :: "string \<Rightarrow> string \<Rightarrow> string list" where
  "path_segments cwd p =
     resolve_segments False [] (split_on CHR ''/'' (if p \<noteq> [] \<and> hd p = CHR ''/'' then p else cwd @ ''/'' @ p))"

definition posix_relative :: "string \<Rightarrow> string \<Rightarrow> string \<Rightarrow> string" where
  "posix_relative cwd from to =
     (let a = path_segments cwd from; b = path_segments cwd to; n = length (longest_common_prefix a b)
      in join_strings ''/'' (replicate (length a - n) ''..'' @ drop n b))"

definition posix_basename :: "string \<Rightarrow> string" where
  "posix_basename p = (case filter (\<lambda>s. s \<noteq> []) (split_on CHR ''/'' p) of [] \<Rightarrow> [] | ss \<Rightarrow> last ss)"

section \<open>Segments\<close>

lemma split_on_no_sep: "c \<notin> set s \<Longrightarrow> split_on c s = [s]"
  by (induction s) auto

lemma split_on_elem: "x \<in> set (split_on c s) \<Longrightarrow> c \<notin> set x"
proof (induction s arbitrary: x)
  case (Cons y s)
  obtain z zs where z: "split_on c s = z # zs" by (cases "split_on c s") auto
  with Cons show ?case by (auto split: if_splits)
qed simp

lemma join_strings_simps [simp]:
  "join_strings sep [] = []" "join_strings sep [x] = x" "join_strings sep (x # y # ys) = x @ sep @ join_strings sep (y # ys)"
  by (simp_all add: join_strings_def)

lemma split_join:
  "xs \<noteq> [] \<Longrightarrow> (\<And>x. x \<in> set xs \<Longrightarrow> c \<notin> set x) \<Longrightarrow> split_on c (join_strings [c] xs) = xs"
proof (induction xs rule: induct_list012)
  case (3 x y zs)
  then show ?case by (simp add: split_on_append split_on_no_sep)
qed (simp_all add: split_on_no_sep)

text \<open>A segment of an absolute path is a name: not empty, no dots, no slash.\<close>

definition is_name :: "string \<Rightarrow> bool" where
  "is_name s \<longleftrightarrow> s \<noteq> [] \<and> s \<noteq> ''.'' \<and> s \<noteq> ''..'' \<and> CHR ''/'' \<notin> set s"

lemma resolve_names:
  "(\<And>s. s \<in> set ss \<Longrightarrow> CHR ''/'' \<notin> set s) \<Longrightarrow> (\<And>s. s \<in> set acc \<Longrightarrow> is_name s) \<Longrightarrow> s \<in> set (resolve_segments False acc ss) \<Longrightarrow> is_name s"
proof (induction ss arbitrary: acc)
  case (Cons x ss)
  note IH = Cons.IH [OF Cons.prems(1)] and prems = Cons.prems
  consider "x = [] \<or> x = ''.''" | "x = ''..''" | "is_name x" "x \<noteq> []" "x \<noteq> ''.''" "x \<noteq> ''..''"
    using Cons.prems(1) [of x] by (auto simp: is_name_def)
  then show ?case
  proof cases
    case 1
    show ?thesis by (rule IH [of acc]) (use 1 Cons.prems in auto)
  next
    case 2
    show ?thesis
    proof (cases acc)
      case Nil
      show ?thesis by (rule IH [of "[]"]) (use 2 Nil prems in simp_all)
    next
      case (Cons y ys)
      show ?thesis by (rule IH [of ys]) (use 2 Cons prems in \<open>auto simp: is_name_def split: if_splits\<close>)
    qed
  next
    case 3
    show ?thesis by (rule IH [of "x # acc"]) (use 3 Cons.prems in auto)
  qed
qed simp

lemma path_segment_names: "s \<in> set (path_segments cwd p) \<Longrightarrow> is_name s"
  unfolding path_segments_def by (rule resolve_names) (auto dest: split_on_elem)

lemma join_names_ne: "xs \<noteq> [] \<Longrightarrow> (\<And>x. x \<in> set xs \<Longrightarrow> x \<noteq> []) \<Longrightarrow> join_strings sep xs \<noteq> [] \<and> hd (join_strings sep xs) = hd (hd xs)"
  by (cases xs rule: remdups_adj.cases) (auto simp: hd_append)

lemma posix_relative_cases:
  fixes cwd a b
  defines "sa \<equiv> path_segments cwd a" and "sb \<equiv> path_segments cwd b"
  obtains (same) "sa = sb" "posix_relative cwd a b = []"
  | (segments) R where "R \<noteq> []" "posix_relative cwd a b \<noteq> []" "hd (posix_relative cwd a b) \<noteq> CHR ''/''"
      "split_on CHR ''/'' (posix_relative cwd a b) = R" "''..'' \<notin> set R \<longleftrightarrow> strict_prefix sa sb"
proof -
  define n where "n = length (longest_common_prefix sa sb)"
  define R where "R = replicate (length sa - n) ''..'' @ drop n sb"
  have rel: "posix_relative cwd a b = join_strings ''/'' R"
    unfolding posix_relative_def Let_def R_def n_def sa_def sb_def ..
  have pre: "prefix (take n sa) sb" "n \<le> length sa" "take n sa = take n sb"
    unfolding n_def using longest_common_prefix_prefix1 [of sa sb] longest_common_prefix_prefix2 [of sa sb]
    by (metis prefix_def append_eq_conv_conj, metis prefix_length_le, metis prefix_def append_eq_conv_conj)
  have names: "s \<in> set R \<Longrightarrow> s = ''..'' \<or> is_name s" for s
    unfolding R_def sb_def using path_segment_names [of s cwd b] by (auto dest: in_set_dropD split: if_splits)
  have elems: "s \<noteq> [] \<and> CHR ''/'' \<notin> set s" if "s \<in> set R" for s
    using names [OF that] by (auto simp: is_name_def)
  show ?thesis
  proof (cases "R = []")
    case True
    then have "length sa \<le> n" "length sb \<le> n" by (auto simp: R_def)
    then have "sa = sb" using pre by simp
    then show ?thesis using same True rel by simp
  next
    case False
    have dots: "''..'' \<notin> set R \<longleftrightarrow> length sa \<le> n"
      using pre(2) path_segment_names [of "''..''" cwd b]
      by (auto simp: R_def sb_def is_name_def dest: in_set_dropD)
    have "length sa \<le> n \<longleftrightarrow> strict_prefix sa sb"
    proof
      assume n: "length sa \<le> n"
      with False have "drop n sb \<noteq> []" by (simp add: R_def)
      then have "n < length sb" by simp
      with n pre show "strict_prefix sa sb" by (auto simp: strict_prefix_def)
    next
      assume "strict_prefix sa sb"
      then have "longest_common_prefix sa sb = sa"
        by (metis longest_common_prefix_max_prefix longest_common_prefix_prefix1 prefix_order.eq_iff prefix_order.order_refl
            strict_prefix_def)
      then show "length sa \<le> n" by (simp add: n_def)
    qed
    with dots have "''..'' \<notin> set R \<longleftrightarrow> strict_prefix sa sb" by simp
    moreover have "join_strings ''/'' R \<noteq> [] \<and> hd (join_strings ''/'' R) = hd (hd R)"
      using False elems by (intro join_names_ne) auto
    moreover have "hd (hd R) \<noteq> CHR ''/''" using elems [of "hd R"] False by (metis hd_in_set)
    moreover have "split_on CHR ''/'' (join_strings ''/'' R) = R"
      using elems False by (intro split_join) auto
    ultimately show ?thesis using segments [of R] False rel by simp
  qed
qed

end
