(* ===== verification/File_Locks.thy ===== *)
theory File_Locks
  imports Distributed_Lock Rate_Limit Posix_Paths
begin

text \<open>
  The file locks of agent sessions, \<^verbatim>\<open>services/orchestrator/src/services/FileLockManager.ts\<close>, over the
  distributed lock and the per-session limiter.  An acquisition waits for the lock service; the
  code between two such waits runs as one step.  Every command to Redis has its own delivery,
  numbered within a step.  \<^verbatim>\<open>isRoomBusy\<close> of the collaboration server and the hash function are
  parameters.  Settings are numbers or not finite (\<open>None\<close>); fractions are not considered.
\<close>

section \<open>Paths\<close>

definition normalizePath :: "string \<Rightarrow> string" where
  "normalizePath target =
     (let normalized = posix_normalize (map (\<lambda>c. if c = CHR 0x5C then CHR ''/'' else c) target)
      in if normalized \<noteq> [] \<and> hd normalized = CHR ''/'' then normalized else ''/'' @ normalized)"

section \<open>Data\<close>

datatype FileLockErrorCode = FileBusy | FileUnavailable | FileRateLimited

record FileLockError =
  fe_message :: string
  fe_code :: FileLockErrorCode
  fe_details :: "(string \<times> json) list"

text \<open>The release function of a lock is the call of the lock service it belongs to.\<close>

record FileLock =
  fk_path :: string
  fk_lockKey :: string
  fk_release :: nat
  fk_agentId :: "string option"

record FileLockManager =
  fm_lockTtlMs :: int
  fm_sessionHistoryTtlSeconds :: "int option"
  fm_lockRateLimiter :: PerSessionRateLimiter
  fm_hits :: rate_store
  fm_activeLocks :: "(string, (string, FileLock) jsmap) jsmap"
  fm_lockHistory :: "(string, string list) jsmap"

definition MAX_LOCK_TTL_MS :: int where
  "MAX_LOCK_TTL_MS = 300000"

definition positive_or :: "int \<Rightarrow> int option \<Rightarrow> int" where
  "positive_or d x = (case x of Some n \<Rightarrow> if n > 0 then n else d | None \<Rightarrow> d)"

definition new_FileLockManager :: "int option \<Rightarrow> int option \<Rightarrow> int option \<Rightarrow> int option \<Rightarrow> FileLockManager" where
  "new_FileLockManager lockTtlMs sessionHistoryTtlSeconds lockRateLimit lockRateWindowMs =
     \<lparr>fm_lockTtlMs = min (positive_or 30000 lockTtlMs) MAX_LOCK_TTL_MS,
      fm_sessionHistoryTtlSeconds =
        (case sessionHistoryTtlSeconds of Some n \<Rightarrow> if n > 0 then Some n else None | None \<Rightarrow> None),
      fm_lockRateLimiter = \<lparr>pl_limit = positive_or 60 lockRateLimit, pl_windowMs = positive_or 60000 lockRateWindowMs,
        pl_prefix = ''orchestrator:file-locks''\<rparr>,
      fm_hits = [], fm_activeLocks = [], fm_lockHistory = []\<rparr>"

text \<open>An acquisition that waits for the lock service, and a restoration between two of its paths.\<close>

record LockRequest =
  lq_session :: string
  lq_path :: string
  lq_agent :: "string option"
  lq_restore :: bool

datatype restore_phase =
    RestoreIdle
  | RestoreWaiting nat time
  | RestoreBackoff time

record Restoration =
  rs_session :: string
  rs_paths :: "string list"
  rs_phase :: restore_phase

datatype file_event =
    LockGranted nat FileLock
  | LockRefused nat FileLockError

record 'r file_world =
  fw_locks :: "'r lock_world"
  fw_manager :: FileLockManager
  fw_requests :: "(nat, LockRequest) jsmap"
  fw_closures :: "(nat, string \<times> string) jsmap"
  fw_restores :: "(nat, Restoration) jsmap"
  fw_log :: "file_event list"

record file_env =
  fv_hash :: "string \<Rightarrow> string"
  fv_isRoomBusy :: "time \<Rightarrow> string \<Rightarrow> bool"

definition new_file_world :: "'r \<Rightarrow> FileLockManager \<Rightarrow> 'r file_world" where
  "new_file_world r m =
     \<lparr>fw_locks = new_world r, fw_manager = m, fw_requests = [], fw_closures = [], fw_restores = [], fw_log = []\<rparr>"

section \<open>Sessions and their history\<close>

definition session_char :: "char \<Rightarrow> bool" where
  "session_char c \<longleftrightarrow> (let n = (of_char c :: nat) in
     (48 \<le> n \<and> n \<le> 57) \<or> (65 \<le> n \<and> n \<le> 90) \<or> (97 \<le> n \<and> n \<le> 122) \<or> c = CHR ''_'' \<or> c = CHR ''-'')"

definition sanitizeSessionId :: "string \<Rightarrow> FileLockError + string" where
  "sanitizeSessionId sessionId =
     (if sessionId = [] \<or> \<not> list_all session_char sessionId \<or> length sessionId > 128
      then Inl \<lparr>fe_message = ''Invalid session id'', fe_code = FileBusy,
                fe_details = [(''reason'', JStr ''invalid_session_id'')]\<rparr>
      else Inr sessionId)"

definition sessionHistoryKey :: "string \<Rightarrow> string" where
  "sessionHistoryKey sessionId = ''session:locks:'' @ sessionId"

text \<open>\<open>sanitizeSessionId\<close> succeeds here, as every caller of \<^verbatim>\<open>persistHistory\<close> has checked the session.\<close>

definition persistHistory ::
  "'r redis_ops \<Rightarrow> time \<Rightarrow> delivery \<Rightarrow> string \<Rightarrow> 'r file_world \<Rightarrow> 'r file_world \<times> bool" where
  "persistHistory ops now net sessionId w =
     (let m = fw_manager w;
          history = jget_or [] (fm_lockHistory m) sessionId;
          (r', reply) = send net (\<lambda>r. (ro_set ops now (sessionHistoryKey sessionId) (JSON_stringify (JArr (map JStr history)))
             (fm_sessionHistoryTtlSeconds m) r, ())) (lw_redis (fw_locks w))
      in (w\<lparr>fw_locks := fw_locks w\<lparr>lw_redis := r'\<rparr>\<rparr>, reply \<noteq> None))"

text \<open>A \<^verbatim>\<open>Set\<close> keeps the order of insertion.\<close>

definition add_new :: "'a \<Rightarrow> 'a list \<Rightarrow> 'a list" where
  "add_new x xs = (if x \<in> set xs then xs else xs @ [x])"

definition rememberLock :: "string \<Rightarrow> string \<Rightarrow> FileLock \<Rightarrow> FileLockManager \<Rightarrow> FileLockManager" where
  "rememberLock sessionId normalizedPath lock m =
     m\<lparr>fm_activeLocks := jset sessionId (jset normalizedPath lock (jget_or [] (fm_activeLocks m) sessionId)) (fm_activeLocks m),
       fm_lockHistory := jset sessionId (add_new normalizedPath (jget_or [] (fm_lockHistory m) sessionId)) (fm_lockHistory m)\<rparr>"

text \<open>The bookkeeping in the \<^verbatim>\<open>finally\<close> block of a release function.\<close>

definition forget_lock :: "string \<Rightarrow> string \<Rightarrow> FileLockManager \<Rightarrow> FileLockManager" where
  "forget_lock sessionId normalizedPath m =
     m\<lparr>fm_activeLocks :=
         (case map_of (fm_activeLocks m) sessionId of
            None \<Rightarrow> fm_activeLocks m
          | Some locks \<Rightarrow>
              let locks' = jdelete normalizedPath locks
              in if locks' = [] then jdelete sessionId (fm_activeLocks m) else jset sessionId locks' (fm_activeLocks m)),
       fm_lockHistory :=
         (case map_of (fm_lockHistory m) sessionId of
            None \<Rightarrow> fm_lockHistory m
          | Some history \<Rightarrow>
              let history' = removeAll normalizedPath history
              in if history' = [] then jdelete sessionId (fm_lockHistory m) else jset sessionId history' (fm_lockHistory m))\<rparr>"

text \<open>The release function made by \<^verbatim>\<open>wrapRelease\<close>; the service's release function does not throw.\<close>

definition trackedRelease ::
  "'r redis_ops \<Rightarrow> time \<Rightarrow> delivery \<Rightarrow> delivery \<Rightarrow> nat \<Rightarrow> string \<Rightarrow> string \<Rightarrow> 'r file_world \<Rightarrow> 'r file_world" where
  "trackedRelease ops now net1 net2 i sessionId normalizedPath w =
     (let w1 = w\<lparr>fw_locks := releaseLock ops now net1 i (fw_locks w)\<rparr>;
          w2 = w1\<lparr>fw_manager := forget_lock sessionId normalizedPath (fw_manager w1)\<rparr>
      in fst (persistHistory ops now net2 sessionId w2))"

section \<open>Acquisition\<close>

definition refuse :: "nat \<Rightarrow> FileLockError \<Rightarrow> 'r file_world \<Rightarrow> 'r file_world" where
  "refuse i e w = w\<lparr>fw_requests := jdelete i (fw_requests w), fw_log := fw_log w @ [LockRefused i e]\<rparr>"

definition grant :: "nat \<Rightarrow> FileLock \<Rightarrow> 'r file_world \<Rightarrow> 'r file_world" where
  "grant i lock w = w\<lparr>fw_requests := jdelete i (fw_requests w), fw_log := fw_log w @ [LockGranted i lock]\<rparr>"

definition path_error :: "string \<Rightarrow> FileLockErrorCode \<Rightarrow> string \<Rightarrow> string \<Rightarrow> FileLockError" where
  "path_error message code path reason =
     \<lparr>fe_message = message @ path, fe_code = code, fe_details = [(''path'', JStr path), (''reason'', JStr reason)]\<rparr>"

definition file_lock_key :: "string \<Rightarrow> string" where
  "file_lock_key normalizedPath = ''file:'' @ normalizedPath"

definition made_lock :: "nat \<Rightarrow> LockRequest \<Rightarrow> FileLock" where
  "made_lock i q =
     \<lparr>fk_path = lq_path q, fk_lockKey = file_lock_key (lq_path q), fk_release = i, fk_agentId = lq_agent q\<rparr>"

text \<open>The continuation of an acquisition once the lock service has answered: the lock is recorded
  and, unless it is being restored, the history is written; when that fails the lock is given
  back.\<close>

definition record_lock :: "nat \<Rightarrow> LockRequest \<Rightarrow> 'r file_world \<Rightarrow> 'r file_world" where
  "record_lock i q w =
     w\<lparr>fw_manager := rememberLock (lq_session q) (lq_path q) (made_lock i q) (fw_manager w),
       fw_closures := jset i (lq_session q, lq_path q) (fw_closures w)\<rparr>"

definition lock_acquired ::
  "'r redis_ops \<Rightarrow> time \<Rightarrow> (nat \<Rightarrow> delivery) \<Rightarrow> nat \<Rightarrow> LockRequest \<Rightarrow> 'r file_world \<Rightarrow> 'r file_world" where
  "lock_acquired ops now net i q w =
     (let lock = made_lock i q; w1 = record_lock i q w
      in if lq_restore q then grant i lock w1
         else (case persistHistory ops now (net 1) (lq_session q) w1 of
                 (w2, True) \<Rightarrow> grant i lock w2
               | (w2, False) \<Rightarrow>
                   refuse i \<lparr>fe_message = ''Failed to persist lock history'', fe_code = FileUnavailable,
                             fe_details = [(''sessionId'', JStr (lq_session q))]\<rparr>
                     (trackedRelease ops now (net 2) (net 3) i (lq_session q) (lq_path q) w2)))"

definition settle_file_request :: "'r redis_ops \<Rightarrow> time \<Rightarrow> (nat \<Rightarrow> delivery) \<Rightarrow> nat \<Rightarrow> 'r file_world \<Rightarrow> 'r file_world" where
  "settle_file_request ops now net i w =
     (case (map_of (fw_requests w) i, map_of (lw_calls (fw_locks w)) i) of
        (Some q, Some c) \<Rightarrow>
          (case lc_phase c of
             Holding since \<Rightarrow> lock_acquired ops now net i q w
           | LockBusy \<Rightarrow> refuse i (path_error ''File is busy: '' FileBusy (lq_path q) ''lock_contended'') w
           | ClientFailed \<Rightarrow>
               refuse i (path_error ''Failed to acquire lock for '' FileUnavailable (lq_path q) ''lock_acquisition_failed'') w
           | _ \<Rightarrow> w)
      | _ \<Rightarrow> w)"

definition rate_limit_error :: "string \<Rightarrow> bool \<Rightarrow> RateLimitResult \<Rightarrow> FileLockError" where
  "rate_limit_error sessionId restore res =
     \<lparr>fe_message = ''Session lock rate limit exceeded'', fe_code = FileRateLimited,
      fe_details = [(''sessionId'', JStr sessionId), (''windowMs'', JNum (rr_windowMs res)), (''limit'', JNum (rr_limit res))] @
        opt_field ''retryAfterMs'' (map_option JNum (rr_retryAfterMs res)) @
        [(''operation'', JStr (if restore then ''restore'' else ''acquire''))]\<rparr>"

text \<open>\<^verbatim>\<open>acquireLock\<close> and \<^verbatim>\<open>acquireLockWithoutPersist\<close> up to the first answer of the lock service; the
  argument \<open>up\<close> is the outcome of \<^verbatim>\<open>connect\<close>.\<close>

definition file_acquire ::
  "'r redis_ops \<Rightarrow> file_env \<Rightarrow> time \<Rightarrow> bool \<Rightarrow> (nat \<Rightarrow> delivery) \<Rightarrow> bool \<Rightarrow> nat \<Rightarrow> string \<Rightarrow> string \<Rightarrow> string option \<Rightarrow> string
     \<Rightarrow> 'r file_world \<Rightarrow> 'r file_world" where
  "file_acquire ops env now up net restore i sessionId filePath agentId token w =
     (case sanitizeSessionId sessionId of
        Inl e \<Rightarrow> refuse i e w
      | Inr _ \<Rightarrow>
          let m = fw_manager w;
              (hits, res) = session_check (fm_lockRateLimiter m) now sessionId (fm_hits m);
              w1 = w\<lparr>fw_manager := m\<lparr>fm_hits := hits\<rparr>\<rparr>;
              path = normalizePath filePath
          in if \<not> rr_allowed res then refuse i (rate_limit_error sessionId restore res) w1
             else if fv_isRoomBusy env now (fv_hash env path)
             then refuse i (path_error ''File is busy: '' FileBusy path ''room_busy'') w1
             else if \<not> up
             then refuse i \<lparr>fe_message = ''Lock service unavailable'', fe_code = FileUnavailable, fe_details = []\<rparr> w1
             else settle_file_request ops now net i
               (w1\<lparr>fw_requests := jset i \<lparr>lq_session = sessionId, lq_path = path, lq_agent = agentId, lq_restore = restore\<rparr>
                      (fw_requests w1),
                   fw_locks := acquireLock ops now (net 0) i (file_lock_key path) (fm_lockTtlMs m) (Finite 3) (Finite 100) token
                      (fw_locks w1)\<rparr>))"

definition file_attempt :: "'r redis_ops \<Rightarrow> time \<Rightarrow> (nat \<Rightarrow> delivery) \<Rightarrow> nat \<Rightarrow> 'r file_world \<Rightarrow> 'r file_world" where
  "file_attempt ops now net i w =
     settle_file_request ops now net i (w\<lparr>fw_locks := lock_attempt ops now (net 0) i (fw_locks w)\<rparr>)"

section \<open>Release and restoration\<close>

text \<open>The caller of an acquisition calls the release function of its lock.\<close>

definition release_file :: "'r redis_ops \<Rightarrow> time \<Rightarrow> (nat \<Rightarrow> delivery) \<Rightarrow> nat \<Rightarrow> 'r file_world \<Rightarrow> 'r file_world" where
  "release_file ops now net i w =
     (case map_of (fw_closures w) i of
        None \<Rightarrow> w
      | Some (sessionId, path) \<Rightarrow> trackedRelease ops now (net 0) (net 1) i sessionId path w)"

fun release_each ::
  "'r redis_ops \<Rightarrow> time \<Rightarrow> (nat \<Rightarrow> delivery) \<Rightarrow> nat \<Rightarrow> string \<Rightarrow> (string \<times> FileLock) list \<Rightarrow> 'r file_world \<Rightarrow> 'r file_world" where
  "release_each ops now net n sessionId [] w = w"
| "release_each ops now net n sessionId ((path, lock) # locks) w =
     release_each ops now net (n + 2) sessionId locks
       (trackedRelease ops now (net n) (net (n + 1)) (fk_release lock) sessionId path w)"

definition releaseSessionLocks ::
  "'r redis_ops \<Rightarrow> time \<Rightarrow> (nat \<Rightarrow> delivery) \<Rightarrow> string \<Rightarrow> 'r file_world \<Rightarrow> 'r file_world" where
  "releaseSessionLocks ops now net sessionId w =
     (case sanitizeSessionId sessionId of
        Inl e \<Rightarrow> w
      | Inr _ \<Rightarrow>
          (case map_of (fm_activeLocks (fw_manager w)) sessionId of
             None \<Rightarrow> w
           | Some locks \<Rightarrow>
               let w1 = release_each ops now net 1 sessionId locks w;
                   m1 = fw_manager w1;
                   w2 = w1\<lparr>fw_manager := m1\<lparr>fm_activeLocks := jdelete sessionId (fm_activeLocks m1),
                                             fm_lockHistory := jdelete sessionId (fm_lockHistory m1)\<rparr>\<rparr>;
                   w3 = fst (persistHistory ops now (net 0) sessionId w2);
                   m3 = fw_manager w3
               in w3\<lparr>fw_manager := m3\<lparr>fm_hits := session_reset (fm_lockRateLimiter m3) (Some sessionId) (fm_hits m3)\<rparr>\<rparr>))"

definition RESTORE_LOCK_TIMEOUT_MS :: int where
  "RESTORE_LOCK_TIMEOUT_MS = 5000"

definition RESTORE_BACKOFF_MS :: int where
  "RESTORE_BACKOFF_MS = 100"

definition parse_history :: "string \<Rightarrow> string list option" where
  "parse_history raw =
     (case JSON_parse raw of
        Some (JArr xs) \<Rightarrow> if list_all (\<lambda>x. case x of JStr s \<Rightarrow> True | _ \<Rightarrow> False) xs
          then Some (map (\<lambda>x. case x of JStr s \<Rightarrow> s | _ \<Rightarrow> []) xs) else None
      | _ \<Rightarrow> None)"

text \<open>The paths that \<^verbatim>\<open>restoreSessionLocks\<close> will try; every error before the loop ends it.\<close>

definition stored_paths :: "'r redis_ops \<Rightarrow> time \<Rightarrow> delivery \<Rightarrow> string \<Rightarrow> 'r \<Rightarrow> string list" where
  "stored_paths ops now net sessionId r =
     (case snd (send net (\<lambda>r. (r, ro_get ops now (sessionHistoryKey sessionId) r)) r) of
        Some (Some raw) \<Rightarrow> if raw = [] then [] else (case parse_history raw of Some paths \<Rightarrow> paths | None \<Rightarrow> [])
      | _ \<Rightarrow> [])"

definition restoreSessionLocks ::
  "'r redis_ops \<Rightarrow> time \<Rightarrow> bool \<Rightarrow> delivery \<Rightarrow> nat \<Rightarrow> string \<Rightarrow> 'r file_world \<Rightarrow> 'r file_world" where
  "restoreSessionLocks ops now up net k sessionId w =
     (case sanitizeSessionId sessionId of
        Inl e \<Rightarrow> w
      | Inr _ \<Rightarrow>
          if \<not> up then w
          else w\<lparr>fw_restores := jset k \<lparr>rs_session = sessionId,
                  rs_paths = stored_paths ops now net sessionId (lw_redis (fw_locks w)), rs_phase = RestoreIdle\<rparr> (fw_restores w)\<rparr>)"

fun request_outcome :: "nat \<Rightarrow> file_event list \<Rightarrow> bool option" where
  "request_outcome i [] = None"
| "request_outcome i (LockGranted j lock # es) = (if i = j then Some True else request_outcome i es)"
| "request_outcome i (LockRefused j e # es) = (if i = j then Some False else request_outcome i es)"

text \<open>A turn of the loop of \<^verbatim>\<open>restoreSessionLocks\<close>: the next path is tried once the previous one
  has succeeded, or failed or timed out and the pause is over.\<close>

definition restore_step ::
  "'r redis_ops \<Rightarrow> file_env \<Rightarrow> time \<Rightarrow> bool \<Rightarrow> (nat \<Rightarrow> delivery) \<Rightarrow> nat \<Rightarrow> nat \<Rightarrow> string \<Rightarrow> 'r file_world \<Rightarrow> 'r file_world" where
  "restore_step ops env now up net k i token w =
     (case map_of (fw_restores w) k of
        None \<Rightarrow> w
      | Some x \<Rightarrow>
          (let goto = (\<lambda>p. w\<lparr>fw_restores := jset k (x\<lparr>rs_phase := p\<rparr>) (fw_restores w)\<rparr>)
           in case rs_phase x of
                RestoreBackoff t \<Rightarrow> if now < t then w else goto RestoreIdle
              | RestoreWaiting j deadline \<Rightarrow>
                  (case request_outcome j (fw_log w) of
                     Some True \<Rightarrow> goto RestoreIdle
                   | Some False \<Rightarrow> goto (RestoreBackoff (now + RESTORE_BACKOFF_MS))
                   | None \<Rightarrow> if now < deadline then w else goto (RestoreBackoff (now + RESTORE_BACKOFF_MS)))
              | RestoreIdle \<Rightarrow>
                  (case rs_paths x of
                     [] \<Rightarrow> w\<lparr>fw_restores := jdelete k (fw_restores w)\<rparr>
                   | path # paths \<Rightarrow>
                       file_acquire ops env now up net True i (rs_session x) path None token
                         (w\<lparr>fw_restores := jset k (x\<lparr>rs_paths := paths,
                              rs_phase := RestoreWaiting i (now + RESTORE_LOCK_TIMEOUT_MS)\<rparr>) (fw_restores w)\<rparr>))))"

section \<open>Runs\<close>

text \<open>Besides the manager's own steps, other processes use the lock service, and the process may
  be replaced by a new one: what it held in memory is gone, its calls are abandoned.\<close>

datatype file_op =
    AcquireFile nat string string "string option" string bool
  | FileAttempt nat
  | ReleaseFile nat
  | ReleaseSession string
  | RestoreSession nat string bool
  | RestoreStep nat nat string bool
  | OtherProcess lock_op
  | RestartProcess

fun own_call :: "'r file_world \<Rightarrow> lock_op \<Rightarrow> bool" where
  "own_call w (LockAttempt i) = jhas (fw_requests w) i"
| "own_call w (ReleaseLock i) = jhas (fw_closures w) i"
| "own_call w _ = False"

definition restart_process :: "'r file_world \<Rightarrow> 'r file_world" where
  "restart_process w =
     w\<lparr>fw_manager := (fw_manager w)\<lparr>fm_hits := [], fm_activeLocks := [], fm_lockHistory := []\<rparr>,
       fw_requests := [], fw_closures := [], fw_restores := []\<rparr>"

fun file_step ::
  "'r redis_ops \<Rightarrow> file_env \<Rightarrow> time \<times> (nat \<Rightarrow> delivery) \<times> file_op \<Rightarrow> 'r file_world \<Rightarrow> 'r file_world" where
  "file_step ops env (now, net, AcquireFile i sessionId filePath agentId token up) w =
     (if jhas (lw_calls (fw_locks w)) i then w else file_acquire ops env now up net False i sessionId filePath agentId token w)"
| "file_step ops env (now, net, FileAttempt i) w = file_attempt ops now net i w"
| "file_step ops env (now, net, ReleaseFile i) w = release_file ops now net i w"
| "file_step ops env (now, net, ReleaseSession sessionId) w = releaseSessionLocks ops now net sessionId w"
| "file_step ops env (now, net, RestoreSession k sessionId up) w = restoreSessionLocks ops now up (net 0) k sessionId w"
| "file_step ops env (now, net, RestoreStep k i token up) w =
     (if jhas (lw_calls (fw_locks w)) i then w else restore_step ops env now up net k i token w)"
| "file_step ops env (now, net, OtherProcess op) w =
     (if own_call w op then w else w\<lparr>fw_locks := lock_step ops (now, net 0, op) (fw_locks w)\<rparr>)"
| "file_step ops env (now, net, RestartProcess) w = restart_process w"

fun file_run ::
  "'r redis_ops \<Rightarrow> file_env \<Rightarrow> (time \<times> (nat \<Rightarrow> delivery) \<times> file_op) list \<Rightarrow> 'r file_world \<Rightarrow> 'r file_world" where
  "file_run ops env [] w = w"
| "file_run ops env (e # es) w = file_run ops env es (file_step ops env e w)"

end
