(* ===== verification/File_Lock_Properties.thy ===== *)
theory File_Lock_Properties
  imports File_Locks
begin

text \<open>
  Properties of the file locks: a file is locked by one session at a time, and the history kept
  in Redis for the next process lists the locks the session has.  They rest on the mutual
  exclusion of the lock service, proved for every server that keeps the promises of
  \<open>redis_server\<close>.
\<close>

section \<open>The manager's tables\<close>

definition active_lock :: "FileLockManager \<Rightarrow> string \<Rightarrow> string \<Rightarrow> FileLock option" where
  "active_lock m sessionId path = map_of (jget_or [] (fm_activeLocks m) sessionId) path"

definition active_paths :: "FileLockManager \<Rightarrow> string \<Rightarrow> string list" where
  "active_paths m sessionId = jkeys (jget_or [] (fm_activeLocks m) sessionId)"

definition history_of :: "FileLockManager \<Rightarrow> string \<Rightarrow> string list" where
  "history_of m sessionId = jget_or [] (fm_lockHistory m) sessionId"

named_theorems table_simps \<open>the tables after the operations of the manager\<close>

lemma jkeys_jdelete: "jkeys (jdelete k m) = removeAll k (jkeys m)"
  by (induction m) auto

lemma active_remember [table_simps]:
  "active_lock (rememberLock s p l m) s' p' = (if s' = s \<and> p' = p then Some l else active_lock m s' p')"
  by (simp add: active_lock_def rememberLock_def jget_or_jset jmap_simps)

lemma paths_remember [table_simps]:
  "active_paths (rememberLock s p l m) s' = (if s' = s then add_new p (active_paths m s) else active_paths m s')"
  by (simp add: active_paths_def rememberLock_def jget_or_jset jkeys_jset add_new_def)

lemma history_remember [table_simps]:
  "history_of (rememberLock s p l m) s' = (if s' = s then add_new p (history_of m s) else history_of m s')"
  by (simp add: history_of_def rememberLock_def jget_or_jset)

lemma jget_or_jdelete: "jget_or d (jdelete k m) k' = (if k' = k then d else jget_or d m k')"
  by (simp add: jget_or_def jmap_simps)

lemma locks_forget:
  "jget_or [] (fm_activeLocks (forget_lock s p m)) s' =
     (if s' = s then jdelete p (jget_or [] (fm_activeLocks m) s) else jget_or [] (fm_activeLocks m) s')"
  by (cases "map_of (fm_activeLocks m) s") (simp_all add: forget_lock_def Let_def jget_or_def jmap_simps)

lemma history_forget [table_simps]:
  "history_of (forget_lock s p m) s' = (if s' = s then removeAll p (history_of m s) else history_of m s')"
  by (cases "map_of (fm_lockHistory m) s") (simp_all add: history_of_def forget_lock_def Let_def jget_or_def jmap_simps)

lemma active_forget [table_simps]:
  "active_lock (forget_lock s p m) s' p' = (if s' = s \<and> p' = p then None else active_lock m s' p')"
  by (simp add: active_lock_def locks_forget jmap_simps)

lemma paths_forget [table_simps]:
  "active_paths (forget_lock s p m) s' = (if s' = s then removeAll p (active_paths m s) else active_paths m s')"
  by (simp add: active_paths_def locks_forget jkeys_jdelete)

lemma manager_settings [simp]:
  "fm_lockTtlMs (rememberLock s p l m) = fm_lockTtlMs m" "fm_lockTtlMs (forget_lock s p m) = fm_lockTtlMs m"
  "fm_sessionHistoryTtlSeconds (rememberLock s p l m) = fm_sessionHistoryTtlSeconds m"
  "fm_sessionHistoryTtlSeconds (forget_lock s p m) = fm_sessionHistoryTtlSeconds m"
  by (simp_all add: rememberLock_def forget_lock_def)

lemma table_hits [table_simps]:
  "active_lock (m\<lparr>fm_hits := h\<rparr>) = active_lock m" "active_paths (m\<lparr>fm_hits := h\<rparr>) = active_paths m"
  "history_of (m\<lparr>fm_hits := h\<rparr>) = history_of m"
  by (simp_all add: fun_eq_iff active_lock_def active_paths_def history_of_def)

text \<open>What the steps leave alone.\<close>

lemma persist_frame [simp]:
  "fw_manager (fst (persistHistory ops now net s w)) = fw_manager w"
  "fw_requests (fst (persistHistory ops now net s w)) = fw_requests w"
  "fw_closures (fst (persistHistory ops now net s w)) = fw_closures w"
  "fw_restores (fst (persistHistory ops now net s w)) = fw_restores w"
  "lw_calls (fw_locks (fst (persistHistory ops now net s w))) = lw_calls (fw_locks w)"
  by (simp_all add: persistHistory_def Let_def split: prod.splits)

lemma calls_grow:
  "jhas (lw_calls w) j \<Longrightarrow> jhas (lw_calls (lock_attempt ops now net i w)) j"
  "jhas (lw_calls w) j \<Longrightarrow> jhas (lw_calls (releaseLock ops now net i w)) j"
  "jhas (lw_calls w) j \<or> j = i \<Longrightarrow> jhas (lw_calls (acquireLock ops now net i r ttl c d tk w)) j"
  by (auto simp: lock_attempt_def releaseLock_def acquireLock_def set_phase_def Let_def jmap_simps
      split: option.splits call_phase.splits nat.splits prod.splits bool.splits)

section \<open>The tables stay consistent\<close>

text \<open>Requests and release functions belong to calls of the lock service, each to one; an active
  lock is recorded under the session and path of its release function; the history of a session
  lists the paths of its active locks in their order.\<close>

definition tables ::
  "(nat, LockRequest) jsmap \<Rightarrow> (nat, string \<times> string) jsmap \<Rightarrow> (nat, LockCall) jsmap \<Rightarrow> FileLockManager \<Rightarrow> bool" where
  "tables req clo calls m \<longleftrightarrow>
     (\<forall>i. jhas req i \<longrightarrow> jhas calls i) \<and> (\<forall>i. jhas clo i \<longrightarrow> jhas calls i \<and> \<not> jhas req i) \<and>
     (\<forall>s p l. active_lock m s p = Some l \<longrightarrow> fk_lockKey l = file_lock_key p \<and> map_of clo (fk_release l) = Some (s, p)) \<and>
     (\<forall>s. active_paths m s = history_of m s)"

abbreviation tables_ok :: "'r file_world \<Rightarrow> bool" where
  "tables_ok w \<equiv> tables (fw_requests w) (fw_closures w) (lw_calls (fw_locks w)) (fw_manager w)"

lemma tables_calls: "tables req clo calls m \<Longrightarrow> (\<And>i. jhas calls i \<Longrightarrow> jhas calls' i) \<Longrightarrow> tables req clo calls' m"
  unfolding tables_def by blast

lemma tables_unrequest: "tables req clo calls m \<Longrightarrow> tables (jdelete i req) clo calls m"
  by (auto simp: tables_def jmap_simps)

lemma tables_request:
  "tables req clo calls m \<Longrightarrow> \<not> jhas calls i \<Longrightarrow> jhas calls' i \<Longrightarrow> (\<And>j. jhas calls j \<Longrightarrow> jhas calls' j) \<Longrightarrow>
     tables (jset i q req) clo calls' m"
  unfolding tables_def map_of_jset by (metis fun_upd_apply option.distinct(1))

lemma tables_hits: "tables req clo calls m \<Longrightarrow> tables req clo calls (m\<lparr>fm_hits := h\<rparr>)"
  by (simp add: tables_def table_simps)

lemma tables_forget: "tables req clo calls m \<Longrightarrow> tables req clo calls (forget_lock s p m)"
  by (simp add: tables_def table_simps)

lemma tables_remember:
  assumes "tables req clo calls m" "jhas req i" "fk_lockKey l = file_lock_key p" "fk_release l = i"
  shows "tables (jdelete i req) (jset i (s, p) clo) calls (rememberLock s p l m)"
proof -
  have "\<not> jhas clo i" using assms(1,2) by (auto simp: tables_def)
  then have fresh: "fk_release l' \<noteq> i" if "active_lock m s' p' = Some l'" for s' p' l'
    using assms(1) that by (auto simp: tables_def)
  have "active_lock (rememberLock s p l m) s' p' = Some l' \<longrightarrow>
      fk_lockKey l' = file_lock_key p' \<and> map_of (jset i (s, p) clo) (fk_release l') = Some (s', p')" for s' p' l'
    using assms fresh [of s' p' l'] by (auto simp: tables_def table_simps map_of_jset)
  with assms(1,2) show ?thesis by (simp add: tables_def table_simps jmap_simps)
qed

lemma tables_drop:
  "tables req clo calls m \<Longrightarrow>
     tables req clo calls (m\<lparr>fm_activeLocks := jdelete s (fm_activeLocks m), fm_lockHistory := jdelete s (fm_lockHistory m)\<rparr>)"
  by (auto simp: tables_def active_lock_def active_paths_def history_of_def jget_or_jdelete)

lemma tracked_frame [simp]:
  "fw_manager (trackedRelease ops now n1 n2 i s p w) = forget_lock s p (fw_manager w)"
  "fw_requests (trackedRelease ops now n1 n2 i s p w) = fw_requests w"
  "fw_closures (trackedRelease ops now n1 n2 i s p w) = fw_closures w"
  "fw_restores (trackedRelease ops now n1 n2 i s p w) = fw_restores w"
  "lw_calls (fw_locks (trackedRelease ops now n1 n2 i s p w)) = lw_calls (releaseLock ops now n1 i (fw_locks w))"
  by (simp_all add: trackedRelease_def Let_def)

lemma tracked_tables: "tables_ok w \<Longrightarrow> tables_ok (trackedRelease ops now n1 n2 i s p w)"
  by (simp, rule tables_calls [OF tables_forget], assumption, rule calls_grow(2))

lemma settle_cases:
  obtains "settle_file_request ops now net i w = w"
  | e where "settle_file_request ops now net i w = refuse i e w"
  | q where "map_of (fw_requests w) i = Some q" "settle_file_request ops now net i w = lock_acquired ops now net i q w"
proof (cases "map_of (fw_requests w) i")
  case None
  then show ?thesis using that(1) by (simp add: settle_file_request_def)
next
  case q: (Some q)
  show ?thesis
  proof (cases "map_of (lw_calls (fw_locks w)) i")
    case None
    then show ?thesis using q that(1) by (simp add: settle_file_request_def)
  next
    case c: (Some c)
    show ?thesis by (cases "lc_phase c") (use q c that in \<open>simp_all add: settle_file_request_def\<close>)
  qed
qed

lemma settle_world [simp]:
  "fw_manager (refuse i e w) = fw_manager w" "fw_manager (grant i l w) = fw_manager w"
  "fw_requests (refuse i e w) = jdelete i (fw_requests w)" "fw_requests (grant i l w) = jdelete i (fw_requests w)"
  "fw_closures (refuse i e w) = fw_closures w" "fw_closures (grant i l w) = fw_closures w"
  "fw_locks (refuse i e w) = fw_locks w" "fw_locks (grant i l w) = fw_locks w"
  by (simp_all add: refuse_def grant_def)

lemma made_lock_fields [simp]:
  "fk_lockKey (made_lock i q) = file_lock_key (lq_path q)" "fk_release (made_lock i q) = i"
  by (simp_all add: made_lock_def)

lemma record_frame [simp]:
  "fw_manager (record_lock i q w) = rememberLock (lq_session q) (lq_path q) (made_lock i q) (fw_manager w)"
  "fw_requests (record_lock i q w) = fw_requests w" "fw_locks (record_lock i q w) = fw_locks w"
  "fw_closures (record_lock i q w) = jset i (lq_session q, lq_path q) (fw_closures w)"
  by (simp_all add: record_lock_def)

lemma acquired_cases:
  obtains "lq_restore q" "lock_acquired ops now net i q w = grant i (made_lock i q) (record_lock i q w)"
  | "\<not> lq_restore q" "snd (persistHistory ops now (net 1) (lq_session q) (record_lock i q w))"
      "lock_acquired ops now net i q w =
       grant i (made_lock i q) (fst (persistHistory ops now (net 1) (lq_session q) (record_lock i q w)))"
  | e where "\<not> lq_restore q" "\<not> snd (persistHistory ops now (net 1) (lq_session q) (record_lock i q w))"
      "lock_acquired ops now net i q w = refuse i e (trackedRelease ops now (net 2) (net 3) i (lq_session q) (lq_path q)
         (fst (persistHistory ops now (net 1) (lq_session q) (record_lock i q w))))"
proof -
  obtain w2 b where p: "persistHistory ops now (net 1) (lq_session q) (record_lock i q w) = (w2, b)" by fastforce
  show ?thesis
    by (cases "lq_restore q"; cases b) (use that p in \<open>simp_all add: lock_acquired_def Let_def del: One_nat_def\<close>)
qed

lemma acquired_tables:
  assumes "tables_ok w" "jhas (fw_requests w) i"
  shows "tables_ok (lock_acquired ops now net i q w)"
proof -
  have t: "tables (jdelete i (fw_requests w)) (jset i (lq_session q, lq_path q) (fw_closures w)) (lw_calls (fw_locks w))
      (rememberLock (lq_session q) (lq_path q) (made_lock i q) (fw_manager w))"
    using assms by (intro tables_remember) simp_all
  have f: "tables (jdelete i (fw_requests w)) (jset i (lq_session q, lq_path q) (fw_closures w))
      (lw_calls (releaseLock ops now (net 2) i (fw_locks (fst (persistHistory ops now (net 1) (lq_session q) (record_lock i q w))))))
      (forget_lock (lq_session q) (lq_path q) (rememberLock (lq_session q) (lq_path q) (made_lock i q) (fw_manager w)))"
    by (rule tables_calls [OF tables_forget [OF t]], rule calls_grow(2)) simp
  show ?thesis by (cases rule: acquired_cases [of q ops now net i w]) (use t f in simp_all)
qed

lemma settle_tables: "tables_ok w \<Longrightarrow> tables_ok (settle_file_request ops now net i w)"
  by (cases rule: settle_cases [of ops now net i w]) (simp_all add: tables_unrequest acquired_tables)

lemma file_acquire_tables:
  assumes "tables_ok w" "\<not> jhas (lw_calls (fw_locks w)) i"
  shows "tables_ok (file_acquire ops env now up net restore i s path agent token w)"
proof (cases "sanitizeSessionId s")
  case (Inl e)
  with assms show ?thesis by (simp add: file_acquire_def tables_unrequest)
next
  case (Inr x)
  obtain hits res where c: "session_check (fm_lockRateLimiter (fw_manager w)) now s (fm_hits (fw_manager w)) = (hits, res)"
    by fastforce
  have "tables_ok (w\<lparr>fw_manager := (fw_manager w)\<lparr>fm_hits := hits\<rparr>,
      fw_requests := jset i q (fw_requests w), fw_locks := acquireLock ops now (net 0) i r ttl n d token (fw_locks w)\<rparr>)" for q r ttl n d
    by simp (rule tables_request [OF tables_hits [OF assms(1)] assms(2)]; rule calls_grow(3); blast)
  then show ?thesis
    using assms Inr by (simp add: file_acquire_def Let_def c tables_unrequest tables_hits settle_tables)
qed

lemma release_each_tables: "tables_ok w \<Longrightarrow> tables_ok (release_each ops now net n s locks w)"
  by (induction ops now net n s locks w rule: release_each.induct) (simp_all del: tracked_frame add: tracked_tables)

lemma releaseSession_tables: "tables_ok w \<Longrightarrow> tables_ok (releaseSessionLocks ops now net s w)"
  using release_each_tables [of w ops now net 1 s]
  by (simp add: releaseSessionLocks_def Let_def tables_hits tables_drop split: sum.split option.split)

lemma restore_step_tables:
  assumes "tables_ok w" "\<not> jhas (lw_calls (fw_locks w)) i"
  shows "tables_ok (restore_step ops env now up net k i token w)"
  unfolding restore_step_def Let_def
  using assms file_acquire_tables [where w = "w\<lparr>fw_restores := _\<rparr>"]
  by (simp split: option.split restore_phase.split list.split bool.split)

lemma file_step_tables: "tables_ok w \<Longrightarrow> tables_ok (file_step ops env e w)"
proof (induction ops env e w rule: file_step.induct)
  case (2 ops env now net i w)
  then have "tables_ok (w\<lparr>fw_locks := lock_attempt ops now (net 0) i (fw_locks w)\<rparr>)"
    by simp (rule tables_calls, assumption, rule calls_grow(1))
  then show ?case by (simp add: file_attempt_def settle_tables)
next
  case (3 ops env now net i w)
  then show ?case by (simp add: release_file_def tracked_tables del: tracked_frame split: option.split)
next
  case (5 ops env now net k s up w)
  then show ?case by (simp add: restoreSessionLocks_def split: sum.split)
next
  case (7 ops env now net op w)
  have "jhas (lw_calls (fw_locks w)) j \<Longrightarrow> jhas (lw_calls (lock_step ops (now, net 0, op) (fw_locks w))) j" for j
    by (cases op) (simp_all add: calls_grow del: not_None_eq)
  with 7 show ?case using tables_calls by fastforce
next
  case (8 ops env now net w)
  then show ?case by (simp add: restart_process_def tables_def active_lock_def active_paths_def history_of_def jget_or_def)
qed (simp_all add: file_acquire_tables releaseSession_tables restore_step_tables)

lemma file_run_tables: "tables_ok w \<Longrightarrow> tables_ok (file_run ops env es w)"
  by (induction es arbitrary: w) (simp_all add: file_step_tables)

lemma new_tables: "tables_ok (new_file_world r (new_FileLockManager a b c d))"
  by (simp add: new_file_world_def new_world_def new_FileLockManager_def tables_def active_lock_def active_paths_def
      history_of_def jget_or_def)

section \<open>The lock service under the manager\<close>

fun file_token :: "file_op \<Rightarrow> string list" where
  "file_token (AcquireFile i s p a token up) = [token]"
| "file_token (RestoreStep k i token up) = [token]"
| "file_token (OtherProcess op) = (case op_token op of None \<Rightarrow> [] | Some token \<Rightarrow> [token])"
| "file_token _ = []"

fun other_ttl_ok :: "int \<Rightarrow> file_op \<Rightarrow> bool" where
  "other_ttl_ok m (OtherProcess op) = (case op_ttl op of None \<Rightarrow> True | Some ttl \<Rightarrow> 0 < ttl \<and> ttl \<le> m)"
| "other_ttl_ok m _ = True"

definition file_tokens :: "(time \<times> (nat \<Rightarrow> delivery) \<times> file_op) list \<Rightarrow> string list" where
  "file_tokens es = concat (map (\<lambda>(t, net, op). file_token op) es)"

definition other_ttls_ok :: "int \<Rightarrow> (time \<times> (nat \<Rightarrow> delivery) \<times> file_op) list \<Rightarrow> bool" where
  "other_ttls_ok m es = list_all (\<lambda>(t, net, op). other_ttl_ok m op) es"

lemma run_conditions [simp]:
  "file_tokens ((t, net, op) # es) = file_token op @ file_tokens es" "file_tokens [] = []"
  "other_ttls_ok m ((t, net, op) # es) = (other_ttl_ok m op \<and> other_ttls_ok m es)" "other_ttls_ok m []"
  by (simp_all add: file_tokens_def other_ttls_ok_def)

abbreviation ttl_of :: "'r file_world \<Rightarrow> int" where
  "ttl_of w \<equiv> fm_lockTtlMs (fw_manager w)"

lemma acquired_ttl [simp]: "ttl_of (lock_acquired ops now net i q w) = ttl_of w"
  by (cases rule: acquired_cases [of q ops now net i w]) simp_all

lemma settle_ttl [simp]: "ttl_of (settle_file_request ops now net i w) = ttl_of w"
  by (cases rule: settle_cases [of ops now net i w]) simp_all

lemma file_acquire_ttl [simp]: "ttl_of (file_acquire ops env now up net restore i s path agent token w) = ttl_of w"
  by (simp add: file_acquire_def Let_def split: sum.split prod.split)

lemma release_each_ttl [simp]: "ttl_of (release_each ops now net n s locks w) = ttl_of w"
  by (induction ops now net n s locks w rule: release_each.induct) simp_all

lemma file_step_ttl [simp]: "ttl_of (file_step ops env e w) = ttl_of w"
  by (induction ops env e w rule: file_step.induct)
    (simp_all add: file_attempt_def release_file_def releaseSessionLocks_def restoreSessionLocks_def restore_step_def Let_def
      restart_process_def split: option.split sum.split restore_phase.split list.split bool.split)

context redis_server
begin

lemma persist_locks:
  assumes "lock_inv m now tokens (fw_locks w)" "0 \<le> m"
  shows "lock_inv m now tokens (fw_locks (fst (persistHistory ops now net s w)))"
proof -
  have "sessionHistoryKey s \<noteq> lock_key resource" for resource by (simp add: sessionHistoryKey_def lock_key_def)
  with assms lock_inv_set [OF assms(1) _ assms(2)] show ?thesis
    by (cases net) (simp_all add: persistHistory_def send_def Let_def)
qed

lemma tracked_locks:
  "lock_inv m now tokens (fw_locks w) \<Longrightarrow> 0 \<le> m \<Longrightarrow> lock_inv m now tokens (fw_locks (trackedRelease ops now n1 n2 i s p w))"
  by (simp add: trackedRelease_def Let_def persist_locks release_inv)

lemma acquired_locks:
  assumes "lock_inv m now tokens (fw_locks w)" "0 \<le> m"
  shows "lock_inv m now tokens (fw_locks (lock_acquired ops now net i q w))"
  by (cases rule: acquired_cases [of q ops now net i w]) (simp_all add: assms persist_locks tracked_locks)

lemma settle_locks:
  "lock_inv m now tokens (fw_locks w) \<Longrightarrow> 0 \<le> m \<Longrightarrow> lock_inv m now tokens (fw_locks (settle_file_request ops now net i w))"
  by (cases rule: settle_cases [of ops now net i w]) (simp_all add: acquired_locks)

lemma release_each_locks:
  "lock_inv m now tokens (fw_locks w) \<Longrightarrow> 0 \<le> m \<Longrightarrow> lock_inv m now tokens (fw_locks (release_each ops now net n s locks w))"
  by (induction locks arbitrary: n w) (auto simp: tracked_locks)

lemma releaseSession_locks:
  assumes "lock_inv m now tokens (fw_locks w)" "0 \<le> m"
  shows "lock_inv m now tokens (fw_locks (releaseSessionLocks ops now net s w))"
  using release_each_locks [OF assms, of net 1 s] assms
  by (simp add: releaseSessionLocks_def Let_def persist_locks split: sum.split option.split)

lemma file_acquire_locks:
  assumes "lock_inv m now tokens (fw_locks w)" "0 < ttl_of w" "ttl_of w \<le> m" "\<not> jhas (lw_calls (fw_locks w)) i" "token \<notin> set tokens"
  shows "lock_inv m now (token # tokens) (fw_locks (file_acquire ops env now up net restore i s path agent token w))"
proof -
  have "lock_inv m now (token # tokens) (fw_locks w)" using lock_inv_later [OF assms(1) order_refl, of "token # tokens"] by auto
  moreover have "lock_inv m now (token # tokens) (acquireLock ops now (net 0) i r (ttl_of w) n d token (fw_locks w))" for r n d
    using acquire_inv [OF assms(1,4,2,3,5)] .
  ultimately show ?thesis
    using assms(2,3) by (simp add: file_acquire_def Let_def settle_locks split: sum.split prod.split)
qed

lemma restore_step_locks:
  assumes "lock_inv m now tokens (fw_locks w)" "0 < ttl_of w" "ttl_of w \<le> m" "\<not> jhas (lw_calls (fw_locks w)) i" "token \<notin> set tokens"
  shows "lock_inv m now (token # tokens) (fw_locks (restore_step ops env now up net k i token w))"
proof -
  have "lock_inv m now (token # tokens) (fw_locks w)" using lock_inv_later [OF assms(1) order_refl, of "token # tokens"] by auto
  then show ?thesis
    unfolding restore_step_def Let_def
    using assms file_acquire_locks [where w = "w\<lparr>fw_restores := _\<rparr>"]
    by (simp split: option.split restore_phase.split list.split bool.split)
qed

lemma file_step_locks:
  assumes inv: "lock_inv m now tokens (fw_locks w)" and ttl: "0 < ttl_of w" "ttl_of w \<le> m" "other_ttl_ok m op"
    and new: "set (file_token op) \<inter> set tokens = {}"
  shows "lock_inv m now (file_token op @ tokens) (fw_locks (file_step ops env (now, net, op) w))"
proof -
  have later: "lock_inv m now (xs @ tokens) (fw_locks w)" for xs using lock_inv_later [OF inv order_refl] by auto
  have m: "0 \<le> m" using ttl by linarith
  show ?thesis
  proof (cases op)
    case (OtherProcess o')
    have "lock_inv m now (file_token op @ tokens) (lock_step ops (now, net 0, o') (fw_locks w))"
      by (rule step_inv [OF inv]) (use OtherProcess ttl new in \<open>auto simp: ttls_within_def split: option.splits\<close>)
    with OtherProcess later show ?thesis by simp
  next
    case (AcquireFile i s p a token up)
    with file_acquire_locks [OF inv ttl(1,2)] new later [of "[token]"] show ?thesis by simp
  next
    case (RestoreStep k i token up)
    with restore_step_locks [OF inv ttl(1,2)] new later [of "[token]"] show ?thesis by simp
  next
    case (FileAttempt i)
    then show ?thesis using settle_locks [OF _ m] attempt_inv [OF inv] by (simp add: file_attempt_def)
  next
    case (ReleaseFile i)
    then show ?thesis using inv tracked_locks [OF inv m] by (simp add: release_file_def split: option.split)
  next
    case (RestoreSession k s up)
    then show ?thesis using inv by (simp add: restoreSessionLocks_def split: sum.split)
  qed (use inv releaseSession_locks [OF inv m] in \<open>simp_all add: restart_process_def\<close>)
qed

lemma file_run_locks:
  "lock_inv m now tokens (fw_locks w) \<Longrightarrow> 0 < ttl_of w \<Longrightarrow> ttl_of w \<le> m \<Longrightarrow> timed now es \<Longrightarrow> other_ttls_ok m es \<Longrightarrow>
     distinct (file_tokens es) \<Longrightarrow> set (file_tokens es) \<inter> set tokens = {} \<Longrightarrow>
     \<exists>tokens'. lock_inv m (last_time now es) tokens' (fw_locks (file_run ops env es w))"
proof (induction es arbitrary: now tokens w)
  case Nil
  then show ?case by (auto simp: last_time_def)
next
  case (Cons e es)
  obtain t net op where e: "e = (t, net, op)" by (cases e)
  have "lock_inv m t tokens (fw_locks w)" using lock_inv_later [OF Cons.prems(1)] Cons.prems(4) e by auto
  then have "lock_inv m t (file_token op @ tokens) (fw_locks (file_step ops env e w))"
    unfolding e by (rule file_step_locks) (use Cons.prems e in auto)
  then have "\<exists>tokens'. lock_inv m (last_time t es) tokens' (fw_locks (file_run ops env es (file_step ops env e w)))"
    by (rule Cons.IH) (use Cons.prems e in auto)
  then show ?case by (cases "es = []") (simp_all add: e last_time_def)
qed

text \<open>Lock commands leave every other key alone.\<close>

definition lock_keys :: "'r lock_world \<Rightarrow> bool" where
  "lock_keys w \<longleftrightarrow> (\<forall>i c. map_of (lw_calls w) i = Some c \<longrightarrow> 0 < lc_ttlMs c \<and> (\<exists>resource. lc_key c = lock_key resource))"

lemma lock_keys_inv: "lock_inv m now tokens w \<Longrightarrow> lock_keys w"
  using lock_invD(1) unfolding lock_keys_def by blast

lemma attempt_other_key:
  assumes w: "lock_keys w" and t: "now \<le> t" and k: "\<And>resource. k \<noteq> lock_key resource"
  shows "live (lw_redis (lock_attempt ops now net i w)) t k = live (lw_redis w) t k"
proof (cases rule: attempt_cases [of ops now net i w])
  case (3 c n due)
  from w 3(1) k have c: "0 < lc_ttlMs c" "lc_key c \<noteq> k" unfolding lock_keys_def by metis+
  obtain r' b where cmd: "ro_setNX ops now (lc_key c) (lc_token c) (lc_ttlMs c) (lw_redis w) = (r', b)" by fastforce
  from c(1) cmd have "live r' t k = live (lw_redis w) t k" by (cases rule: setNX_cases) (use t c(2) in auto)
  with 3 show ?thesis by (cases net; cases b) (simp_all add: lock_attempt_def send_def cmd set_phase_def)
qed (simp_all add: set_phase_def)

lemma acquire_other_key:
  assumes w: "lock_keys w" and t: "now \<le> t" and k: "\<And>resource. k \<noteq> lock_key resource" and ttl: "0 < ttl"
  shows "live (lw_redis (acquireLock ops now net i resource ttl n d token w)) t k = live (lw_redis w) t k"
  unfolding acquireLock_def Let_def
  by (subst attempt_other_key) (use w t k ttl in \<open>auto simp: lock_keys_def jmap_simps\<close>)

lemma release_other_key:
  assumes w: "lock_keys w" and t: "now \<le> t" and k: "\<And>resource. k \<noteq> lock_key resource"
  shows "live (lw_redis (releaseLock ops now net i w)) t k = live (lw_redis w) t k"
proof (cases "map_of (lw_calls w) i")
  case (Some c)
  with w k have "lc_key c \<noteq> k" unfolding lock_keys_def by metis
  with t have "live (fst (send net (release_script ops now (lc_key c) (lc_token c)) (lw_redis w))) t k = live (lw_redis w) t k"
    by (auto simp: send_def release_script_def del_live split: delivery.splits)
  with Some show ?thesis by (simp add: releaseLock_def set_phase_def)
qed (simp add: releaseLock_def)

text \<open>The history of every session but possibly one is what Redis has stored for it.\<close>

definition stored_except :: "string set \<Rightarrow> time \<Rightarrow> 'r file_world \<Rightarrow> bool" where
  "stored_except S now w \<longleftrightarrow>
     fm_sessionHistoryTtlSeconds (fw_manager w) = None \<and>
     (\<forall>s t. s \<notin> S \<longrightarrow> now \<le> t \<longrightarrow>
        (let v = live (lw_redis (fw_locks w)) t (sessionHistoryKey s); h = history_of (fw_manager w) s
         in v = Some (JSON_stringify (JArr (map JStr h))) \<or> v = None \<and> h = []))"

lemma stored_exceptD:
  assumes "stored_except S now w"
  shows "fm_sessionHistoryTtlSeconds (fw_manager w) = None"
    and "s \<notin> S \<Longrightarrow> now \<le> t \<Longrightarrow>
      live (lw_redis (fw_locks w)) t (sessionHistoryKey s) = Some (JSON_stringify (JArr (map JStr (history_of (fw_manager w) s)))) \<or>
      live (lw_redis (fw_locks w)) t (sessionHistoryKey s) = None \<and> history_of (fw_manager w) s = []"
  using assms unfolding stored_except_def Let_def by blast+

lemma stored_other:
  assumes "stored_except S now w"
    and "\<And>t s. now \<le> t \<Longrightarrow> live (lw_redis (fw_locks w')) t (sessionHistoryKey s) = live (lw_redis (fw_locks w)) t (sessionHistoryKey s)"
    and "\<And>s. s \<notin> S' \<Longrightarrow> history_of (fw_manager w') s = history_of (fw_manager w) s" "S \<subseteq> S'"
    and "fm_sessionHistoryTtlSeconds (fw_manager w') = fm_sessionHistoryTtlSeconds (fw_manager w)"
  shows "stored_except S' now w'"
  using stored_exceptD [OF assms(1)] assms(2-5) unfolding stored_except_def Let_def by (metis subsetD)

lemma stored_later: "stored_except S now w \<Longrightarrow> now \<le> now' \<Longrightarrow> stored_except S now' w"
  unfolding stored_except_def Let_def by (meson order_trans)

lemma session_key [simp]: "sessionHistoryKey s \<noteq> lock_key resource" "sessionHistoryKey s = sessionHistoryKey s' \<longleftrightarrow> s = s'"
  by (simp_all add: sessionHistoryKey_def lock_key_def)

lemma persist_stored:
  assumes "stored_except {s} now w"
  shows "stored_except {} now (fst (persistHistory ops now Delivered s w))"
  using stored_exceptD [OF assms]
  by (auto simp: stored_except_def Let_def persistHistory_def send_def set_live history_of_def)

lemma tracked_stored:
  assumes "stored_except {} now w" "lock_keys (fw_locks w)"
  shows "stored_except {} now (trackedRelease ops now net Delivered i s p w)"
  unfolding trackedRelease_def Let_def
  by (rule persist_stored, rule stored_other [OF assms(1)])
    (use assms(2) in \<open>simp_all add: release_other_key table_simps\<close>)

lemma persist_delivered: "snd (persistHistory ops now Delivered s w)"
  by (simp add: persistHistory_def send_def Let_def)

lemma settle_stored:
  assumes "stored_except {} now w" "net 1 = Delivered" "\<And>q. map_of (fw_requests w) i = Some q \<Longrightarrow> \<not> lq_restore q"
  shows "stored_except {} now (settle_file_request ops now net i w)"
proof (cases rule: settle_cases [of ops now net i w])
  case (2 e)
  then show ?thesis using stored_other [OF assms(1)] by simp
next
  case (3 q)
  have "stored_except {lq_session q} now (record_lock i q w)"
    by (rule stored_other [OF assms(1)]) (simp_all add: table_simps)
  then have "stored_except {} now (fst (persistHistory ops now (net 1) (lq_session q) (record_lock i q w)))"
    unfolding assms(2) by (rule persist_stored)
  then have g: "stored_except {} now (grant i l (fst (persistHistory ops now (net 1) (lq_session q) (record_lock i q w))))" for l
    by (rule stored_other) simp_all
  show ?thesis
    by (cases rule: acquired_cases [of q ops now net i w])
      (use 3 g assms(3) persist_delivered assms(2) in \<open>simp_all del: One_nat_def\<close>)
qed (use assms(1) in simp)

lemma file_acquire_stored:
  assumes "stored_except {} now w" "net 1 = Delivered" "lock_keys (fw_locks w)" "0 < ttl_of w"
  shows "stored_except {} now (file_acquire ops env now up net False i s path agent token w)"
proof -
  have refused: "stored_except {} now (refuse i e (w\<lparr>fw_manager := (fw_manager w)\<lparr>fm_hits := h\<rparr>\<rparr>))"
      "stored_except {} now (refuse i e w)" for e h
    by (rule stored_other [OF assms(1)]; simp add: table_simps)+
  have sent: "stored_except {} now (w\<lparr>fw_manager := (fw_manager w)\<lparr>fm_hits := h\<rparr>, fw_requests := req,
      fw_locks := acquireLock ops now (net 0) i r (ttl_of w) n d token (fw_locks w)\<rparr>)" for h r n d req
    by (rule stored_other [OF assms(1)]) (use assms(3,4) in \<open>simp_all add: acquire_other_key table_simps\<close>)
  have "stored_except {} now (settle_file_request ops now net i (w\<lparr>fw_manager := (fw_manager w)\<lparr>fm_hits := h\<rparr>,
      fw_requests := jset i \<lparr>lq_session = s, lq_path = p, lq_agent = agent, lq_restore = False\<rparr> (fw_requests w),
      fw_locks := acquireLock ops now (net 0) i r (ttl_of w) n d token (fw_locks w)\<rparr>))" for h r n d p
    by (rule settle_stored, rule sent, rule assms(2)) (simp add: jmap_simps)
  with refused show ?thesis
    by (simp add: file_acquire_def Let_def split: sum.split prod.split)
qed

lemma release_each_stored:
  "stored_except {} now w \<Longrightarrow> (\<And>n. net n = Delivered) \<Longrightarrow> lock_inv m now tokens (fw_locks w) \<Longrightarrow> 0 \<le> m \<Longrightarrow>
     stored_except {} now (release_each ops now net n s locks w)"
proof (induction locks arbitrary: n w)
  case (Cons x locks)
  obtain p l where x: "x = (p, l)" by (cases x)
  show ?case unfolding x release_each.simps
    by (rule Cons.IH) (use Cons.prems in \<open>simp_all add: tracked_stored tracked_locks lock_keys_inv\<close>)
qed simp

lemma releaseSession_stored:
  assumes "stored_except {} now w" "\<And>n. net n = Delivered" "lock_inv m now tokens (fw_locks w)" "0 \<le> m"
  shows "stored_except {} now (releaseSessionLocks ops now net s w)"
proof (cases "sanitizeSessionId s")
  case (Inr x)
  show ?thesis
  proof (cases "map_of (fm_activeLocks (fw_manager w)) s")
    case None
    with Inr assms(1) show ?thesis by (simp add: releaseSessionLocks_def)
  next
    case (Some locks)
    let ?w1 = "release_each ops now net 1 s locks w"
    let ?w2 = "?w1\<lparr>fw_manager := (fw_manager ?w1)\<lparr>fm_activeLocks := jdelete s (fm_activeLocks (fw_manager ?w1)),
        fm_lockHistory := jdelete s (fm_lockHistory (fw_manager ?w1))\<rparr>\<rparr>"
    have "stored_except {s} now ?w2"
      by (rule stored_other [OF release_each_stored [OF assms]]) (simp_all add: history_of_def jget_or_jdelete)
    then have "stored_except {} now (fst (persistHistory ops now (net 0) s ?w2))" unfolding assms(2) by (rule persist_stored)
    then have "stored_except {} now ((fst (persistHistory ops now (net 0) s ?w2))\<lparr>fw_manager :=
        (fw_manager (fst (persistHistory ops now (net 0) s ?w2)))\<lparr>fm_hits := h\<rparr>\<rparr>)" for h
      by (rule stored_other) (simp_all add: table_simps)
    then show ?thesis using Inr Some by (simp add: releaseSessionLocks_def Let_def)
  qed
qed (use assms(1) in \<open>simp add: releaseSessionLocks_def\<close>)

end

text \<open>Steps of a process that restores nothing.\<close>

fun keeps_history :: "file_op \<Rightarrow> bool" where
  "keeps_history (RestoreSession k s up) = False"
| "keeps_history (RestoreStep k i token up) = False"
| "keeps_history RestartProcess = False"
| "keeps_history _ = True"

definition no_restores :: "'r file_world \<Rightarrow> bool" where
  "no_restores w \<longleftrightarrow> (\<forall>q\<in>set (jvalues (fw_requests w)). \<not> lq_restore q)"

lemma no_restoresD: "no_restores w \<Longrightarrow> map_of (fw_requests w) i = Some q \<Longrightarrow> \<not> lq_restore q"
  unfolding no_restores_def by (meson jvaluesI)

lemma jvalues_jdelete: "v \<in> set (jvalues (jdelete k m)) \<Longrightarrow> v \<in> set (jvalues m)"
  by (auto simp: AList.delete_eq)

lemma no_restores_delete: "no_restores w \<Longrightarrow> fw_requests w' = jdelete i (fw_requests w) \<Longrightarrow> no_restores w'"
  unfolding no_restores_def using jvalues_jdelete by metis

lemma settle_no_restores: "no_restores w \<Longrightarrow> no_restores (settle_file_request ops now net i w)"
proof (cases rule: settle_cases [of ops now net i w])
  case (3 q)
  assume "no_restores w"
  then show ?thesis using 3 by (cases rule: acquired_cases [of q ops now net i w]) (auto intro: no_restores_delete)
qed (auto intro: no_restores_delete)

lemma release_each_requests [simp]: "fw_requests (release_each ops now net n s locks w) = fw_requests w"
  by (induction locks arbitrary: n w) auto

lemma file_acquire_no_restores:
  assumes "no_restores w"
  shows "no_restores (file_acquire ops env now up net False i s path agent token w)"
proof -
  have "no_restores (w\<lparr>fw_manager := mm, fw_requests := jset i \<lparr>lq_session = s, lq_path = p, lq_agent = agent, lq_restore = False\<rparr>
      (fw_requests w), fw_locks := l\<rparr>)" for mm p l
    using assms jvalues_jset unfolding no_restores_def by fastforce
  with assms show ?thesis
    by (auto simp: file_acquire_def Let_def settle_no_restores intro: no_restores_delete split: sum.split prod.split)
qed

lemma file_step_no_restores: "no_restores w \<Longrightarrow> keeps_history op \<Longrightarrow> no_restores (file_step ops env (now, net, op) w)"
proof (cases op)
  case (FileAttempt i)
  assume "no_restores w"
  then have "no_restores (w\<lparr>fw_locks := l\<rparr>)" for l by (simp add: no_restores_def)
  then show ?thesis using FileAttempt by (simp add: file_attempt_def settle_no_restores)
next
  case (AcquireFile i s p a token up)
  assume "no_restores w"
  with AcquireFile show ?thesis by (simp add: file_acquire_no_restores)
qed (auto simp: release_file_def releaseSessionLocks_def Let_def no_restores_def
      split: option.split sum.split)

context redis_server
begin

lemma file_step_stored:
  assumes st: "stored_except {} now w" and d: "\<And>n. net n = Delivered" and inv: "lock_inv m now tokens (fw_locks w)"
    and ttl: "0 < ttl_of w" "ttl_of w \<le> m" "other_ttl_ok m op" and r: "no_restores w" "keeps_history op"
  shows "stored_except {} now (file_step ops env (now, net, op) w)"
proof -
  note keys = lock_keys_inv [OF inv]
  show ?thesis
  proof (cases op)
    case (AcquireFile i s p a token up)
    then show ?thesis using st file_acquire_stored [OF st d keys ttl(1)] by simp
  next
    case (FileAttempt i)
    have "stored_except {} now (w\<lparr>fw_locks := lock_attempt ops now (net 0) i (fw_locks w)\<rparr>)"
      by (rule stored_other [OF st]) (simp_all add: attempt_other_key keys)
    then have "stored_except {} now (settle_file_request ops now net i (w\<lparr>fw_locks := lock_attempt ops now (net 0) i (fw_locks w)\<rparr>))"
      by (rule settle_stored) (use d no_restoresD [OF r(1)] in auto)
    with FileAttempt show ?thesis by (simp add: file_attempt_def)
  next
    case (ReleaseFile i)
    then show ?thesis using st tracked_stored [OF st keys] d by (simp add: release_file_def split: option.split)
  next
    case (ReleaseSession s)
    then show ?thesis using releaseSession_stored [OF st d inv] ttl by simp
  next
    case (OtherProcess o')
    have "live (lw_redis (lock_step ops (now, net 0, o') (fw_locks w))) t (sessionHistoryKey s) =
        live (lw_redis (fw_locks w)) t (sessionHistoryKey s)" if "now \<le> t" for t s
      using that keys ttl(3) OtherProcess
      by (cases o') (simp_all add: acquire_other_key attempt_other_key release_other_key)
    then have "stored_except {} now (w\<lparr>fw_locks := lock_step ops (now, net 0, o') (fw_locks w)\<rparr>)"
      by (intro stored_other [OF st]) simp_all
    with OtherProcess st show ?thesis by simp
  qed (use r(2) in simp_all)
qed

lemma file_run_stored:
  "stored_except {} now w \<Longrightarrow> lock_inv m now tokens (fw_locks w) \<Longrightarrow> 0 < ttl_of w \<Longrightarrow> ttl_of w \<le> m \<Longrightarrow> no_restores w \<Longrightarrow>
     timed now es \<Longrightarrow> other_ttls_ok m es \<Longrightarrow> distinct (file_tokens es) \<Longrightarrow> set (file_tokens es) \<inter> set tokens = {} \<Longrightarrow>
     list_all (\<lambda>(t, net, op). (\<forall>n. net n = Delivered) \<and> keeps_history op) es \<Longrightarrow>
     stored_except {} (last_time now es) (file_run ops env es w)"
proof (induction es arbitrary: now tokens w)
  case Nil
  then show ?case by (simp add: last_time_def)
next
  case (Cons e es)
  obtain t net op where e: "e = (t, net, op)" by (cases e)
  have t: "now \<le> t" using Cons.prems(6) e by simp
  have inv: "lock_inv m t tokens (fw_locks w)" using lock_inv_later [OF Cons.prems(2) t] by auto
  have st: "stored_except {} t (file_step ops env e w)"
    unfolding e by (rule file_step_stored [OF stored_later [OF Cons.prems(1) t] _ inv]) (use Cons.prems e in auto)
  have inv': "lock_inv m t (file_token op @ tokens) (fw_locks (file_step ops env e w))"
    unfolding e by (rule file_step_locks [OF inv]) (use Cons.prems e in auto)
  have "stored_except {} (last_time t es) (file_run ops env es (file_step ops env e w))"
    by (rule Cons.IH [OF st inv']) (use Cons.prems e file_step_no_restores in auto)
  then show ?case by (cases "es = []") (simp_all add: e last_time_def)
qed

lemma stored_paths_eq:
  assumes "stored_except {} now w" "now \<le> t"
  shows "stored_paths ops t Delivered s (lw_redis (fw_locks w)) = history_of (fw_manager w) s"
proof -
  let ?h = "history_of (fw_manager w) s"
  have "JSON_parse (JSON_stringify (JArr (map JStr ?h))) = Some (JArr (map JStr ?h))" by (rule JSON_roundtrip) simp
  then have "parse_history (JSON_stringify (JArr (map JStr ?h))) = Some ?h"
    unfolding parse_history_def by (simp add: list_all_iff comp_def del: JSON_stringify.simps)
  moreover have "JSON_stringify (JArr (map JStr ?h)) \<noteq> []" by simp
  ultimately show ?thesis
    using stored_exceptD(2) [OF assms(1), of s t] assms(2)
    by (auto simp: stored_paths_def send_def get_live simp del: JSON_stringify.simps)
qed

lemma new_file_inv:
  assumes "\<And>t k. live r t k = None"
  shows "lock_inv m now [] (fw_locks (new_file_world r mgr))"
  using assms by (intro lock_invI) (auto simp: new_file_world_def new_world_def)

end

section \<open>Properties\<close>

lemma new_manager_ttl: "0 < fm_lockTtlMs (new_FileLockManager a b c d)" "fm_lockTtlMs (new_FileLockManager a b c d) \<le> MAX_LOCK_TTL_MS"
  by (auto simp: new_FileLockManager_def positive_or_def MAX_LOCK_TTL_MS_def split: option.splits)

text \<open>
  C15.  A file is locked by one session at a time: in every run of the manager, with other
  processes using the lock service, lost requests and replies, retries, restorations and
  restarts, two sessions never both have an unexpired lock on the same normalised path, and a
  session has only one.
\<close>

theorem file_lock_exclusive:
  assumes "redis_server ops live" "\<And>t k. live r t k = None"
    and "timed now es" "other_ttls_ok MAX_LOCK_TTL_MS es" "distinct (file_tokens es)"
    and "w = file_run ops env es (new_file_world r (new_FileLockManager ttl hist limit window))" "last_time now es \<le> t"
    and "active_lock (fw_manager w) s path = Some l" "active_lock (fw_manager w) s' path = Some l'"
    and "has_lock (fw_locks w) t (fk_release l) (lock_key (fk_lockKey l))"
    and "has_lock (fw_locks w) t (fk_release l') (lock_key (fk_lockKey l'))"
  shows "s = s' \<and> l = l'"
proof -
  have T: "tables_ok w" unfolding assms(6) by (rule file_run_tables [OF new_tables])
  have "\<exists>tokens. redis_server.lock_inv live MAX_LOCK_TTL_MS (last_time now es) tokens (fw_locks w)"
    unfolding assms(6)
    by (rule redis_server.file_run_locks [OF assms(1) redis_server.new_file_inv [OF assms(1,2)] _ _ assms(3-5)])
      (simp_all add: new_file_world_def new_manager_ttl)
  then obtain tokens where inv: "redis_server.lock_inv live MAX_LOCK_TTL_MS (last_time now es) tokens (fw_locks w)" ..
  from T assms(8,9) have k: "fk_lockKey l = file_lock_key path" "fk_lockKey l' = file_lock_key path"
      "map_of (fw_closures w) (fk_release l) = Some (s, path)" "map_of (fw_closures w) (fk_release l') = Some (s', path)"
    unfolding tables_def by blast+
  have "fk_release l = fk_release l'"
    using redis_server.exclusive [OF assms(1) inv assms(7)] assms(10,11) k(1,2) by simp
  with k(3,4) assms(8,9) show ?thesis by simp
qed

text \<open>
  The history survives the process: as long as the history writes of the manager are
  delivered and it restores nothing itself, what the next process reads from Redis for a session
  is the list of the paths on which the session has locks, in the order they were acquired.
\<close>

theorem lock_history_roundtrip:
  assumes "redis_server ops live" "\<And>t k. live r t k = None"
    and "timed now es" "other_ttls_ok MAX_LOCK_TTL_MS es" "distinct (file_tokens es)"
    and "list_all (\<lambda>(t, net, op). (\<forall>n. net n = Delivered) \<and> keeps_history op) es"
    and "w = file_run ops env es (new_file_world r (new_FileLockManager ttl None limit window))" "last_time now es \<le> t"
  shows "stored_paths ops t Delivered s (lw_redis (fw_locks w)) = active_paths (fw_manager w) s"
proof -
  let ?w0 = "new_file_world r (new_FileLockManager ttl None limit window)"
  have w0: "ttl_of ?w0 = fm_lockTtlMs (new_FileLockManager ttl None limit window)" by (simp add: new_file_world_def)
  have "redis_server.stored_except live {} now ?w0"
    unfolding redis_server.stored_except_def [OF assms(1)]
    by (simp add: new_file_world_def new_world_def new_FileLockManager_def history_of_def jget_or_def assms(2))
  then have "redis_server.stored_except live {} (last_time now es) w"
    unfolding assms(7)
    by (rule redis_server.file_run_stored [OF assms(1) _ redis_server.new_file_inv [OF assms(1,2)]])
      (use assms(3-6) new_manager_ttl w0 in \<open>simp_all add: no_restores_def new_file_world_def\<close>)
  then have "stored_paths ops t Delivered s (lw_redis (fw_locks w)) = history_of (fw_manager w) s"
    using redis_server.stored_paths_eq [OF assms(1)] assms(8) by blast
  moreover have "tables_ok w" unfolding assms(7) by (rule file_run_tables [OF new_tables])
  ultimately show ?thesis by (simp add: tables_def)
qed

section \<open>Two defects\<close>

definition quiet_env :: file_env where
  "quiet_env = \<lparr>fv_hash = (\<lambda>p. p), fv_isRoomBusy = (\<lambda>t r. False)\<rparr>"

definition demo_world :: "redis_store file_world" where
  "demo_world = new_file_world [] (new_FileLockManager (Some 30000) None None None)"

text \<open>The release function of an expired lock removes the entry of the path, also when the same
  session has acquired the file again: the new lock is no longer listed, so that releasing the
  locks of the session leaves it held.\<close>

definition stale_release :: "(time \<times> (nat \<Rightarrow> delivery) \<times> file_op) list" where
  "stale_release =
     [(0, \<lambda>_. Delivered, AcquireFile 0 ''s1'' ''a.txt'' None ''t0'' True),
      (30000, \<lambda>_. Delivered, AcquireFile 1 ''s1'' ''a.txt'' None ''t1'' True),
      (30010, \<lambda>_. Delivered, ReleaseFile 0), (30020, \<lambda>_. Delivered, ReleaseSession ''s1'')]"

theorem stale_release_keeps_lock:
  "let w = file_run redis_model quiet_env stale_release demo_world
   in active_lock (fw_manager w) ''s1'' ''/a.txt'' = None \<and> has_lock (fw_locks w) 30030 1 (lock_key (file_lock_key ''/a.txt''))"
  by code_simp

text \<open>A relative path above the working directory is recorded in a form that a restoration
  normalises again, to the path of another file.\<close>

theorem restored_path_differs:
  "let w = file_run redis_model quiet_env [(0, \<lambda>_. Delivered, AcquireFile 0 ''s1'' ''../a'' None ''t0'' True)] demo_world;
       w' = file_run redis_model quiet_env [(1, \<lambda>_. Delivered, RestartProcess), (2, \<lambda>_. Delivered, RestoreSession 0 ''s1'' True),
              (3, \<lambda>_. Delivered, RestoreStep 0 1 ''t1'' True)] w
   in active_paths (fw_manager w) ''s1'' = [''/../a''] \<and> active_paths (fw_manager w') ''s1'' = [''/a'']"
  by code_simp

section \<open>Witnesses\<close>

definition demo_files :: "(time \<times> (nat \<Rightarrow> delivery) \<times> file_op) list" where
  "demo_files =
     [(0, \<lambda>_. Delivered, AcquireFile 0 ''s1'' ''a.txt'' None ''t0'' True),
      (5, \<lambda>_. Delivered, AcquireFile 2 ''s1'' ''b.txt'' None ''t2'' True),
      (29950, \<lambda>_. Delivered, AcquireFile 1 ''s2'' ''./a.txt'' None ''t1'' True),
      (30050, \<lambda>_. Delivered, FileAttempt 1)]"

lemma demo_files_ok:
  "timed 0 demo_files" "other_ttls_ok MAX_LOCK_TTL_MS demo_files" "distinct (file_tokens demo_files)"
  "last_time 0 demo_files = 30050" "list_all (\<lambda>(t, net, op). (\<forall>n. net n = Delivered) \<and> keeps_history op) demo_files"
  by (simp_all add: demo_files_def last_time_def)

theorem file_lock_exclusive_witness:
  "let w = file_run redis_model quiet_env demo_files (new_file_world [] (new_FileLockManager (Some 30000) None None None))
   in has_lock (fw_locks w) 30060 1 (lock_key (file_lock_key ''/a.txt'')) \<and>
      \<not> has_lock (fw_locks w) 30060 0 (lock_key (file_lock_key ''/a.txt''))"
proof -
  let ?w = "file_run redis_model quiet_env demo_files (new_file_world [] (new_FileLockManager (Some 30000) None None None))"
  let ?l = "\<lambda>i. \<lparr>fk_path = ''/a.txt'', fk_lockKey = file_lock_key ''/a.txt'', fk_release = i, fk_agentId = None\<rparr>"
  have "active_lock (fw_manager ?w) ''s1'' ''/a.txt'' = Some (?l 0)" "active_lock (fw_manager ?w) ''s2'' ''/a.txt'' = Some (?l 1)"
    "has_lock (fw_locks ?w) 30060 1 (lock_key (file_lock_key ''/a.txt''))"
    by code_simp+
  with file_lock_exclusive [OF redis.redis_server_axioms _ demo_files_ok(1-3) refl, of "[]" 30060 quiet_env "Some 30000" None None None
      "''s1''" "''/a.txt''" "?l 0" "''s2''" "?l 1"]
  show ?thesis by (auto simp: live_value_def demo_files_ok(4) Let_def)
qed

theorem lock_history_roundtrip_witness:
  "let w = file_run redis_model quiet_env demo_files (new_file_world [] (new_FileLockManager (Some 30000) None None None))
   in active_paths (fw_manager w) ''s1'' = [''/a.txt'', ''/b.txt''] \<and>
      stored_paths redis_model 30060 Delivered ''s1'' (lw_redis (fw_locks w)) = [''/a.txt'', ''/b.txt'']"
proof -
  have "active_paths (fw_manager (file_run redis_model quiet_env demo_files
      (new_file_world [] (new_FileLockManager (Some 30000) None None None)))) ''s1'' = [''/a.txt'', ''/b.txt'']"
    by code_simp
  with lock_history_roundtrip [where r = "[]" and env = quiet_env and ttl = "Some 30000" and limit = None and window = None
      and t = 30060 and s = "''s1''", OF redis.redis_server_axioms _ demo_files_ok(1-3,5) refl]
  show ?thesis by (simp add: live_value_def demo_files_ok(4) Let_def)
qed

end
