(* ===== verification/Plan_Schema.thy ===== *)
theory Plan_Schema
  imports Plan_State Json_Text "HOL-Library.Monad_Syntax"
begin

text \<open>
  The validation of plans, \<^verbatim>\<open>services/orchestrator/src/plan/validation.ts\<close>: the schemas of plans and
  plan steps as functions from JSON values, with the defaults they fill in.  A rejected value is
  \<open>None\<close>.  Numbers of the model are integers.
\<close>

record Plan =
  pl_id :: string
  pl_goal :: string
  pl_steps :: "PlanStep list"
  pl_successCriteria :: "string list"

section \<open>Schemas\<close>

text \<open>The building blocks: \<^verbatim>\<open>z.string().min(1)\<close>, and optional or defaulted properties.\<close>

definition string_min1 :: "json \<Rightarrow> string option" where
  "string_min1 j = (case j of JStr s \<Rightarrow> if s = [] then None else Some s | _ \<Rightarrow> None)"

definition any_string :: "json \<Rightarrow> string option" where
  "any_string j = (case j of JStr s \<Rightarrow> Some s | _ \<Rightarrow> None)"

definition nonneg_int :: "json \<Rightarrow> int option" where
  "nonneg_int j = (case j of JNum n \<Rightarrow> if n < 0 then None else Some n | _ \<Rightarrow> None)"

definition any_bool :: "json \<Rightarrow> bool option" where
  "any_bool j = (case j of JBool b \<Rightarrow> Some b | _ \<Rightarrow> None)"

definition any_record :: "json \<Rightarrow> (string, json) jsmap option" where
  "any_record j = (case j of JObj ms \<Rightarrow> Some ms | _ \<Rightarrow> None)"

fun parse_all :: "('a \<Rightarrow> 'b option) \<Rightarrow> 'a list \<Rightarrow> 'b list option" where
  "parse_all f [] = Some []"
| "parse_all f (x # xs) = do { y \<leftarrow> f x; ys \<leftarrow> parse_all f xs; Some (y # ys) }"

definition array_of :: "(json \<Rightarrow> 'a option) \<Rightarrow> json \<Rightarrow> 'a list option" where
  "array_of f j = (case j of JArr xs \<Rightarrow> parse_all f xs | _ \<Rightarrow> None)"

definition array_min1 :: "(json \<Rightarrow> 'a option) \<Rightarrow> json \<Rightarrow> 'a list option" where
  "array_min1 f j = do { xs \<leftarrow> array_of f j; if xs = [] then None else Some xs }"

definition required :: "(json \<Rightarrow> 'a option) \<Rightarrow> json option \<Rightarrow> 'a option" where
  "required f v = Option.bind v f"

definition with_default :: "'a \<Rightarrow> (json \<Rightarrow> 'a option) \<Rightarrow> json option \<Rightarrow> 'a option" where
  "with_default d f v = (case v of None \<Rightarrow> Some d | Some j \<Rightarrow> f j)"

definition optional :: "(json \<Rightarrow> 'a option) \<Rightarrow> json option \<Rightarrow> 'a option option" where
  "optional f v = (case v of None \<Rightarrow> Some None | Some j \<Rightarrow> map_option Some (f j))"

definition PlanStepSchema :: "json \<Rightarrow> PlanStep option" where
  "PlanStepSchema j = do {
     ms \<leftarrow> any_record j;
     i \<leftarrow> required string_min1 (map_of ms ''id'');
     action \<leftarrow> required string_min1 (map_of ms ''action'');
     capability \<leftarrow> required string_min1 (map_of ms ''capability'');
     capabilityLabel \<leftarrow> required string_min1 (map_of ms ''capabilityLabel'');
     labels \<leftarrow> with_default [] (array_of string_min1) (map_of ms ''labels'');
     tool \<leftarrow> required string_min1 (map_of ms ''tool'');
     timeoutSeconds \<leftarrow> with_default 0 nonneg_int (map_of ms ''timeoutSeconds'');
     approvalRequired \<leftarrow> with_default False any_bool (map_of ms ''approvalRequired'');
     input \<leftarrow> with_default [] any_record (map_of ms ''input'');
     summary \<leftarrow> optional any_string (map_of ms ''summary'');
     metadata \<leftarrow> with_default [] any_record (map_of ms ''metadata'');
     Some \<lparr>ps_id = i, ps_action = action, ps_capability = capability, ps_capabilityLabel = capabilityLabel, ps_labels = labels,
           ps_tool = tool, ps_timeoutSeconds = timeoutSeconds, ps_approvalRequired = approvalRequired, ps_input = input,
           ps_summary = summary, ps_metadata = metadata\<rparr>
   }"

definition parsePlan :: "json \<Rightarrow> Plan option" where
  "parsePlan j = do {
     ms \<leftarrow> any_record j;
     i \<leftarrow> required string_min1 (map_of ms ''id'');
     goal \<leftarrow> required string_min1 (map_of ms ''goal'');
     steps \<leftarrow> required (array_min1 PlanStepSchema) (map_of ms ''steps'');
     successCriteria \<leftarrow> required (array_min1 string_min1) (map_of ms ''successCriteria'');
     Some \<lparr>pl_id = i, pl_goal = goal, pl_steps = steps, pl_successCriteria = successCriteria\<rparr>
   }"

section \<open>Plans as JSON\<close>

definition step_json :: "PlanStep \<Rightarrow> json" where
  "step_json s =
     JObj ([(''id'', JStr (ps_id s)), (''action'', JStr (ps_action s)), (''capability'', JStr (ps_capability s)),
            (''capabilityLabel'', JStr (ps_capabilityLabel s)), (''labels'', JArr (map JStr (ps_labels s))),
            (''tool'', JStr (ps_tool s)), (''timeoutSeconds'', JNum (ps_timeoutSeconds s)),
            (''approvalRequired'', JBool (ps_approvalRequired s)), (''input'', JObj (ps_input s))] @
           opt_field ''summary'' (map_option JStr (ps_summary s)) @ [(''metadata'', JObj (ps_metadata s))])"

definition plan_json :: "Plan \<Rightarrow> json" where
  "plan_json p =
     JObj [(''id'', JStr (pl_id p)), (''goal'', JStr (pl_goal p)), (''steps'', JArr (map step_json (pl_steps p))),
           (''successCriteria'', JArr (map JStr (pl_successCriteria p)))]"

section \<open>Well-formed plans\<close>

definition step_wf :: "PlanStep \<Rightarrow> bool" where
  "step_wf s \<longleftrightarrow> ps_id s \<noteq> [] \<and> ps_action s \<noteq> [] \<and> ps_capability s \<noteq> [] \<and> ps_capabilityLabel s \<noteq> [] \<and> ps_tool s \<noteq> [] \<and>
     0 \<le> ps_timeoutSeconds s \<and> list_all (\<lambda>l. l \<noteq> []) (ps_labels s)"

definition plan_wf :: "Plan \<Rightarrow> bool" where
  "plan_wf p \<longleftrightarrow> pl_id p \<noteq> [] \<and> pl_goal p \<noteq> [] \<and> pl_steps p \<noteq> [] \<and> list_all step_wf (pl_steps p) \<and>
     pl_successCriteria p \<noteq> [] \<and> list_all (\<lambda>c. c \<noteq> []) (pl_successCriteria p)"

lemma parse_all_all: "parse_all f xs = Some ys \<Longrightarrow> (\<And>x y. f x = Some y \<Longrightarrow> P y) \<Longrightarrow> list_all P ys"
  by (induction xs arbitrary: ys) (auto simp: bind_eq_Some_conv)

lemma parse_all_map: "(\<And>y. y \<in> set ys \<Longrightarrow> f (g y) = Some y) \<Longrightarrow> parse_all f (map g ys) = Some ys"
  by (induction ys) auto

lemma array_ofD: "array_of f j = Some ys \<Longrightarrow> (\<And>x y. f x = Some y \<Longrightarrow> P y) \<Longrightarrow> list_all P ys"
  by (cases j) (auto simp: array_of_def intro: parse_all_all)

lemma string_min1D: "string_min1 j = Some s \<Longrightarrow> s \<noteq> []"
  by (auto simp: string_min1_def split: json.splits if_splits)

lemma required_min1D: "required string_min1 v = Some s \<Longrightarrow> s \<noteq> []"
  by (auto simp: required_def string_min1D split: Option.bind_splits)

lemma default_labelsD: "with_default [] (array_of string_min1) v = Some ls \<Longrightarrow> list_all (\<lambda>l. l \<noteq> []) ls"
  by (cases v) (simp_all add: with_default_def array_ofD [OF _ string_min1D])

lemma default_intD: "with_default 0 nonneg_int v = Some n \<Longrightarrow> 0 \<le> n"
  by (auto simp: with_default_def nonneg_int_def split: option.splits json.splits if_splits)

lemma step_schema_wf: "PlanStepSchema j = Some s \<Longrightarrow> step_wf s"
  by (clarsimp simp: PlanStepSchema_def step_wf_def bind_eq_Some_conv dest!: required_min1D default_labelsD default_intD)

lemma array_min1D:
  "required (array_min1 f) v = Some ys \<Longrightarrow> (\<And>x y. f x = Some y \<Longrightarrow> P y) \<Longrightarrow> ys \<noteq> [] \<and> list_all P ys"
  by (cases v) (auto simp: required_def array_min1_def bind_eq_Some_conv split: if_splits intro: array_ofD)

lemma parsePlan_wf:
  assumes "parsePlan j = Some p"
  shows "plan_wf p"
proof -
  from assms obtain ms where "required string_min1 (map_of ms ''id'') = Some (pl_id p)"
    "required string_min1 (map_of ms ''goal'') = Some (pl_goal p)"
    and steps: "required (array_min1 PlanStepSchema) (map_of ms ''steps'') = Some (pl_steps p)"
    and criteria: "required (array_min1 string_min1) (map_of ms ''successCriteria'') = Some (pl_successCriteria p)"
    by (auto simp: parsePlan_def bind_eq_Some_conv)
  then show ?thesis
    using array_min1D [OF steps step_schema_wf] array_min1D [OF criteria string_min1D] required_min1D
    by (auto simp: plan_wf_def)
qed

lemma parse_labels: "list_all (\<lambda>l. l \<noteq> []) ls \<Longrightarrow> parse_all string_min1 (map JStr ls) = Some ls"
  by (intro parse_all_map) (auto simp: string_min1_def list_all_iff)

lemma step_schema_json: "step_wf s \<Longrightarrow> PlanStepSchema (step_json s) = Some s"
  by (cases "ps_summary s")
    (simp_all add: PlanStepSchema_def step_json_def step_wf_def any_record_def required_def string_min1_def with_default_def
      array_of_def parse_labels nonneg_int_def any_bool_def optional_def any_string_def opt_field_def)

lemma parsePlan_json: "plan_wf p \<Longrightarrow> parsePlan (plan_json p) = Some p"
  by (simp add: parsePlan_def plan_json_def plan_wf_def any_record_def required_def string_min1_def array_min1_def array_of_def
      parse_labels parse_all_map step_schema_json list_all_iff)

end
