(* ===== verification/Planner.thy ===== *)
theory Planner
  imports Plan_Schema Plan_Events Posix_Paths
begin

text \<open>
  The planner, \<^verbatim>\<open>services/orchestrator/src/plan/planner.ts\<close>: the steps of a plan, the artifacts it
  writes, the events it publishes and the removal of old artifacts.  The file system is outside: \<open>fs_ops\<close>
  are the calls the clean-up makes, and \<open>io\<close> tells which writes of \<^verbatim>\<open>createPlan\<close> succeed.  The
  encryption of artifacts is not modelled; an artifact is its plain content and the tenant it is
  encrypted for.
\<close>

section \<open>Steps\<close>

definition DEFAULT_CAPABILITY_LABELS :: "(string, string) jsmap" where
  "DEFAULT_CAPABILITY_LABELS =
     [(''repo.read'', ''Read repository''), (''repo.write'', ''Apply repository changes''), (''test.run'', ''Execute tests''),
      (''github.write'', ''Open pull request''), (''network.egress'', ''Call external service'')]"

definition DEFAULT_STEP_TIMEOUTS :: "(string, int) jsmap" where
  "DEFAULT_STEP_TIMEOUTS = [(''index_repo'', 300), (''apply_changes'', 900), (''run_tests'', 900), (''open_pr'', 300)]"

definition raw_step :: "string \<Rightarrow> string \<Rightarrow> string \<Rightarrow> string \<Rightarrow> string list \<Rightarrow> bool \<Rightarrow> string \<Rightarrow> (string \<times> json) list \<Rightarrow> json" where
  "raw_step i action tool capability labels approvalRequired goal rest =
     JObj ([(''id'', JStr i), (''action'', JStr action), (''tool'', JStr tool), (''capability'', JStr capability)] @
       opt_field ''capabilityLabel'' (map_option JStr (map_of DEFAULT_CAPABILITY_LABELS capability)) @
       [(''labels'', JArr (map JStr labels))] @
       opt_field ''timeoutSeconds'' (map_option JNum (map_of DEFAULT_STEP_TIMEOUTS action)) @
       [(''approvalRequired'', JBool approvalRequired), (''input'', JObj [(''goal'', JStr goal)])] @ rest)"

definition buildSteps :: "string \<Rightarrow> PlanStep list option" where
  "buildSteps goal =
     (let labels = [''repo'', ''automation'']
      in parse_all PlanStepSchema
        [raw_step ''s1'' ''index_repo'' ''repo_indexer'' ''repo.read'' labels False goal [],
         raw_step ''s2'' ''apply_changes'' ''code_writer'' ''repo.write'' (labels @ [''approval'']) True goal
           [(''metadata'', JObj [(''approvalType'', JStr ''human'')])],
         raw_step ''s3'' ''run_tests'' ''test_runner'' ''test.run'' labels False goal [],
         raw_step ''s4'' ''open_pr'' ''github_client'' ''github.write'' (labels @ [''approval'']) True goal []])"

section \<open>Removal of old artifacts\<close>

definition isChildPath :: "string \<Rightarrow> string \<Rightarrow> string \<Rightarrow> bool" where
  "isChildPath cwd base candidate =
     (let relative = posix_relative cwd base candidate
      in if relative = [] \<or> hd relative = CHR ''/'' then False
         else \<not> list_ex (\<lambda>s. s = ''..'') (split_on CHR ''/'' relative))"

fun has_dots :: "string \<Rightarrow> bool" where
  "has_dots (a # b # cs) = (a = CHR ''.'' \<and> b = CHR ''.'' \<or> has_dots (b # cs))"
| "has_dots _ = False"

definition isSafeDirentName :: "string \<Rightarrow> bool" where
  "isSafeDirentName name \<longleftrightarrow> name \<noteq> [] \<and> \<not> has_dots name \<and> CHR ''/'' \<notin> set name \<and> posix_basename name = name"

record DirEntry =
  de_name :: string
  de_isSymbolicLink :: bool
  de_isDirectory :: bool

text \<open>\<^verbatim>\<open>realpath\<close> and \<^verbatim>\<open>opendir\<close> fail with an error code; \<^verbatim>\<open>stat\<close> gives the modification time; the
  outcome of \<^verbatim>\<open>rm\<close> is ignored.\<close>

record 'f fs_ops =
  fo_realpath :: "string \<Rightarrow> 'f \<Rightarrow> string + string"
  fo_opendir :: "string \<Rightarrow> 'f \<Rightarrow> string + DirEntry list"
  fo_stat :: "string \<Rightarrow> 'f \<Rightarrow> time option"
  fo_rm :: "string \<Rightarrow> 'f \<Rightarrow> 'f"

definition MILLIS_PER_DAY :: int where
  "MILLIS_PER_DAY = 24 * 60 * 60 * 1000"

definition target_candidate :: "string \<Rightarrow> string \<Rightarrow> string" where
  "target_candidate base name = (if base \<noteq> [] \<and> last base = CHR ''/'' then base @ name else base @ ''/'' @ name)"

text \<open>What the loop does with an entry: the directory to remove, if it is to be removed.\<close>

definition cleanup_target :: "'f fs_ops \<Rightarrow> string \<Rightarrow> string \<Rightarrow> time \<Rightarrow> DirEntry \<Rightarrow> 'f \<Rightarrow> string option" where
  "cleanup_target ops cwd base cutoff entry f =
     (if de_isSymbolicLink entry \<or> \<not> de_isDirectory entry \<or> \<not> isSafeDirentName (de_name entry) then None
      else (case fo_realpath ops (target_candidate base (de_name entry)) f of
              Inl e \<Rightarrow> None
            | Inr target \<Rightarrow>
                if \<not> isChildPath cwd base target then None
                else (case fo_stat ops target f of
                        None \<Rightarrow> None
                      | Some lastModified \<Rightarrow> if lastModified \<le> cutoff then Some target else None)))"

fun cleanup_entries ::
  "'f fs_ops \<Rightarrow> string \<Rightarrow> string \<Rightarrow> time \<Rightarrow> DirEntry list \<Rightarrow> 'f \<Rightarrow> 'f \<times> (DirEntry \<times> string) list" where
  "cleanup_entries ops cwd base cutoff [] f = (f, [])"
| "cleanup_entries ops cwd base cutoff (entry # entries) f =
     (case cleanup_target ops cwd base cutoff entry f of
        None \<Rightarrow> cleanup_entries ops cwd base cutoff entries f
      | Some target \<Rightarrow>
          (case cleanup_entries ops cwd base cutoff entries (fo_rm ops target f) of
             (f', removed) \<Rightarrow> (f', (entry, target) # removed)))"

text \<open>The result lists the removals; \<open>Inl\<close> is the error thrown.\<close>

definition cleanupPlanArtifacts ::
  "'f fs_ops \<Rightarrow> string \<Rightarrow> time \<Rightarrow> string \<Rightarrow> int \<Rightarrow> 'f \<Rightarrow> 'f \<times> (string + (DirEntry \<times> string) list)" where
  "cleanupPlanArtifacts ops cwd now baseDir retentionDays f =
     (if retentionDays \<le> 0 then (f, Inr [])
      else (case fo_realpath ops baseDir f of
              Inl e \<Rightarrow> (f, if e = ''ENOENT'' then Inr [] else Inl e)
            | Inr base \<Rightarrow>
                (case fo_opendir ops base f of
                   Inl e \<Rightarrow> (f, if e = ''ENOENT'' then Inr [] else Inl e)
                 | Inr entries \<Rightarrow>
                     apsnd Inr (cleanup_entries ops cwd base (now - retentionDays * MILLIS_PER_DAY) entries f))))"

section \<open>The clean-up schedule\<close>

record CleanupState =
  cs_baseDir :: "string option"
  cs_retentionDays :: "int option"
  cs_interval :: bool
  cs_immediateTimer :: bool
  cs_pending :: bool

definition cancelCleanupTimers :: "CleanupState \<Rightarrow> CleanupState" where
  "cancelCleanupTimers cs = cs\<lparr>cs_interval := False, cs_immediateTimer := False\<rparr>"

definition ensureCleanupInterval :: "CleanupState \<Rightarrow> CleanupState" where
  "ensureCleanupInterval cs = cs\<lparr>cs_interval := True\<rparr>"

definition queueImmediateCleanup :: "CleanupState \<Rightarrow> CleanupState" where
  "queueImmediateCleanup cs = cs\<lparr>cs_immediateTimer := True\<rparr>"

definition schedulePlanArtifactCleanup :: "string \<Rightarrow> int \<Rightarrow> CleanupState \<Rightarrow> CleanupState" where
  "schedulePlanArtifactCleanup baseDir retentionDays cs =
     (let cs1 = cs\<lparr>cs_baseDir := Some baseDir, cs_retentionDays := Some retentionDays\<rparr>
      in if retentionDays \<le> 0 then cancelCleanupTimers cs1 else queueImmediateCleanup (ensureCleanupInterval cs1))"

text \<open>Whether \<^verbatim>\<open>runScheduledCleanup\<close> starts a clean-up, and with which arguments; at most one runs.\<close>

definition runScheduledCleanup :: "CleanupState \<Rightarrow> CleanupState \<times> (string \<times> int) option" where
  "runScheduledCleanup cs =
     (case (cs_baseDir cs, cs_retentionDays cs) of
        (Some base, Some days) \<Rightarrow>
          if base = [] \<or> days \<le> 0 then (cs, None)
          else if cs_pending cs then (cs, None)
          else (cs\<lparr>cs_pending := True\<rparr>, Some (base, days))
      | _ \<Rightarrow> (cs, None))"

definition cleanup_settled :: "CleanupState \<Rightarrow> CleanupState" where
  "cleanup_settled cs = cs\<lparr>cs_pending := False\<rparr>"

definition immediate_timer_fires :: "CleanupState \<Rightarrow> CleanupState \<times> (string \<times> int) option" where
  "immediate_timer_fires cs = runScheduledCleanup (cs\<lparr>cs_immediateTimer := False\<rparr>)"

definition flushPlanArtifactCleanup :: "CleanupState \<Rightarrow> CleanupState \<times> (string \<times> int) option" where
  "flushPlanArtifactCleanup cs = runScheduledCleanup (cs\<lparr>cs_immediateTimer := False\<rparr>)"

section \<open>Creating a plan\<close>

datatype artifact = PlanDocument json | PlanText string

record PlannerState =
  pn_events :: PlanEvents
  pn_cleanup :: CleanupState
  pn_artifacts :: "(string \<times> artifact \<times> string option) list"

definition DEFAULT_PLAN_ARTIFACT_RETENTION_DAYS :: int where
  "DEFAULT_PLAN_ARTIFACT_RETENTION_DAYS = 30"

text \<open>The dash of the text is the UTF-8 encoding of the character U+2014.\<close>

definition step_line :: "PlanStep \<Rightarrow> string" where
  "step_line s =
     ''- **'' @ ps_action s @ ''** ('' @ ps_capabilityLabel s @ '') '' @ [CHR 0xE2, CHR 0x80, CHR 0x94] @ '' tool: '' @ ps_tool s @
     '', timeout: '' @ show_int (ps_timeoutSeconds s) @ ''s, approval: '' @ (if ps_approvalRequired s then ''required'' else ''auto'')"

definition plan_text :: "Plan \<Rightarrow> string" where
  "plan_text p =
     ''# Plan '' @ pl_id p @ [CHR 10, CHR 10] @ ''Goal: '' @ pl_goal p @ [CHR 10, CHR 10] @ ''Steps:'' @ [CHR 10] @
     join_strings [CHR 10] (map step_line (pl_steps p))"

definition step_created_event :: "time \<Rightarrow> string \<Rightarrow> string \<Rightarrow> PlanStep \<Rightarrow> PlanStepEvent" where
  "step_created_event now traceId planId s =
     \<lparr>ev_traceId = traceId, ev_requestId = None, ev_planId = planId, ev_occurredAt = now,
      ev_step = \<lparr>ev_stepId = ps_id s, ev_action = ps_action s, ev_tool = ps_tool s,
        ev_state = (if ps_approvalRequired s then StWaitingApproval else StQueued), ev_capability = ps_capability s,
        ev_capabilityLabel = ps_capabilityLabel s, ev_labels = ps_labels s, ev_timeoutSeconds = ps_timeoutSeconds s,
        ev_approvalRequired = ps_approvalRequired s, ev_attempt = None,
        ev_summary = Some (if ps_approvalRequired s then ''Awaiting approval'' else ''Queued for execution''),
        ev_output = None, ev_approvals = None\<rparr>\<rparr>"

text \<open>\<open>io 0\<close> is the outcome of \<^verbatim>\<open>mkdir\<close>, \<open>io 1\<close> and \<open>io 2\<close> those of the two writes, which are both started.\<close>

definition createPlan ::
  "string \<Rightarrow> (nat \<Rightarrow> bool) \<Rightarrow> time \<Rightarrow> string \<Rightarrow> string \<Rightarrow> string \<Rightarrow> int option \<Rightarrow> PlanSubject option \<Rightarrow> PlannerState
     \<Rightarrow> PlannerState \<times> (string + Plan)" where
  "createPlan cwd io now uuid traceId goal retentionDays subject st =
     (let i = ''plan-'' @ uuid
      in case buildSteps goal of
           None \<Rightarrow> (st, Inl ''Invalid plan step'')
         | Some steps \<Rightarrow>
             (case parsePlan (JObj [(''id'', JStr i), (''goal'', JStr goal), (''steps'', JArr (map step_json steps)),
                     (''successCriteria'', JArr (map JStr [''All tests pass'', ''CI green'', ''Docs updated'']))]) of
                None \<Rightarrow> (st, Inl ''Invalid plan'')
              | Some plan \<Rightarrow>
                  let plansRoot = posix_join cwd ''.plans''; dir = posix_join plansRoot i;
                      tenant = (case subject of None \<Rightarrow> None | Some s \<Rightarrow> su_tenantId s)
                  in if \<not> io 0 then (st, Inl ''mkdir failed'')
                     else let st1 = st\<lparr>pn_artifacts := pn_artifacts st @
                                (if io 1 then [(posix_join dir ''plan.json'', PlanDocument (plan_json plan), tenant)] else []) @
                                (if io 2 then [(posix_join dir ''plan.md'', PlanText (plan_text plan), tenant)] else [])\<rparr>
                          in if \<not> io 1 \<or> \<not> io 2 then (st1, Inl ''Failed to write encrypted plan artifact'')
                             else (st1\<lparr>pn_cleanup := schedulePlanArtifactCleanup plansRoot
                                         (case retentionDays of Some d \<Rightarrow> d | None \<Rightarrow> DEFAULT_PLAN_ARTIFACT_RETENTION_DAYS) (pn_cleanup st1),
                                       pn_events := fold (\<lambda>s. publishPlanStepEvent now (step_created_event now traceId i s)) steps
                                         (pn_events st1)\<rparr>, Inr plan)))"

section \<open>Properties\<close>

text \<open>\<^verbatim>\<open>isChildPath\<close> accepts a path exactly when its segments extend those of the base: neither the
  base itself, nor a parent, nor a sibling whose name starts with the name of the base.\<close>

lemma isChildPath_iff:
  "isChildPath cwd base candidate \<longleftrightarrow> strict_prefix (path_segments cwd base) (path_segments cwd candidate)"
  by (cases rule: posix_relative_cases [of cwd base candidate])
    (auto simp: isChildPath_def Let_def list_ex_iff strict_prefix_def)

definition removable :: "'f fs_ops \<Rightarrow> string \<Rightarrow> string \<Rightarrow> time \<Rightarrow> DirEntry \<Rightarrow> string \<Rightarrow> 'f \<Rightarrow> bool" where
  "removable ops cwd base cutoff entry target f \<longleftrightarrow>
     de_isDirectory entry \<and> \<not> de_isSymbolicLink entry \<and> isSafeDirentName (de_name entry) \<and>
     fo_realpath ops (target_candidate base (de_name entry)) f = Inr target \<and>
     strict_prefix (path_segments cwd base) (path_segments cwd target) \<and>
     (\<exists>m. fo_stat ops target f = Some m \<and> m \<le> cutoff)"

lemma cleanup_target_iff:
  "cleanup_target ops cwd base cutoff entry f = Some target \<longleftrightarrow> removable ops cwd base cutoff entry target f"
  by (auto simp: cleanup_target_def removable_def isChildPath_iff split: sum.splits option.splits if_splits)

text \<open>The file system after some removals.\<close>

definition after_removals :: "'f fs_ops \<Rightarrow> (DirEntry \<times> string) list \<Rightarrow> 'f \<Rightarrow> 'f" where
  "after_removals ops removed f = fold (\<lambda>(e, t). fo_rm ops t) removed f"

lemma cleanup_entries_removed:
  "cleanup_entries ops cwd base cutoff entries f = (f', removed) \<Longrightarrow>
     f' = after_removals ops removed f \<and> subseq (map fst removed) entries \<and>
     (\<forall>pre entry target post. removed = pre @ (entry, target) # post \<longrightarrow>
        removable ops cwd base cutoff entry target (after_removals ops pre f))"
proof (induction entries arbitrary: f f' removed)
  case Nil
  then show ?case by (auto simp: after_removals_def)
next
  case (Cons entry entries)
  show ?case
  proof (cases "cleanup_target ops cwd base cutoff entry f")
    case None
    with Cons show ?thesis by auto
  next
    case (Some target)
    obtain g rest where g: "cleanup_entries ops cwd base cutoff entries (fo_rm ops target f) = (g, rest)" by fastforce
    with Some Cons.prems have r: "removed = (entry, target) # rest" "f' = g" by auto
    have "removable ops cwd base cutoff e t (after_removals ops pre f)" if "removed = pre @ (e, t) # post" for pre e t post
      using that Some Cons.IH [OF g] unfolding r(1)
      by (cases pre) (auto simp: cleanup_target_iff after_removals_def)
    with Cons.IH [OF g] r show ?thesis by (simp add: after_removals_def)
  qed
qed

text \<open>
  C20.  The clean-up stays inside its directory: it removes only directories, not symbolic
  links, whose real path lies strictly below the real path of the base, and which at that moment
  were not modified within the retention period; nothing else of the file system is touched, and
  with a retention of zero days or without the directory nothing is.
\<close>

theorem cleanup_confined:
  assumes "cleanupPlanArtifacts ops cwd now baseDir retentionDays f = (f', result)"
  shows "(case result of
            Inl e \<Rightarrow> f' = f
          | Inr removed \<Rightarrow> f' = after_removals ops removed f \<and>
              (\<forall>pre entry target post. removed = pre @ (entry, target) # post \<longrightarrow>
                 0 < retentionDays \<and>
                 (\<exists>base. fo_realpath ops baseDir f = Inr base \<and>
                    removable ops cwd base (now - retentionDays * MILLIS_PER_DAY) entry target (after_removals ops pre f))))"
proof -
  note none = after_removals_def fold_Nil id_apply
  show ?thesis
  proof (cases "0 < retentionDays")
    case False
    with assms show ?thesis by (auto simp: cleanupPlanArtifacts_def none)
  next
    case True
    show ?thesis
    proof (cases "fo_realpath ops baseDir f")
      case (Inl e)
      with True assms show ?thesis by (auto simp: cleanupPlanArtifacts_def none split: sum.split if_splits)
    next
      case base: (Inr base)
      show ?thesis
      proof (cases "fo_opendir ops base f")
        case (Inl e)
        with True base assms show ?thesis by (auto simp: cleanupPlanArtifacts_def none split: sum.split if_splits)
      next
        case (Inr entries)
        obtain removed where r: "cleanup_entries ops cwd base (now - retentionDays * MILLIS_PER_DAY) entries f = (f', removed)"
          "result = Inr removed"
          using True base Inr assms by (auto simp: cleanupPlanArtifacts_def apsnd_def map_prod_def split: prod.splits)
        show ?thesis using cleanup_entries_removed [OF r(1)] r(2) True base by auto
      qed
    qed
  qed
qed

section \<open>The plan\<close>

definition plan_steps :: "string \<Rightarrow> PlanStep list" where
  "plan_steps goal =
     (let step = (\<lambda>i action tool cap label labels timeout approval meta.
        \<lparr>ps_id = i, ps_action = action, ps_capability = cap, ps_capabilityLabel = label, ps_labels = labels, ps_tool = tool,
         ps_timeoutSeconds = timeout, ps_approvalRequired = approval, ps_input = [(''goal'', JStr goal)], ps_summary = None,
         ps_metadata = meta\<rparr>)
      in [step ''s1'' ''index_repo'' ''repo_indexer'' ''repo.read'' ''Read repository'' [''repo'', ''automation''] 300 False [],
          step ''s2'' ''apply_changes'' ''code_writer'' ''repo.write'' ''Apply repository changes'' [''repo'', ''automation'', ''approval'']
            900 True [(''approvalType'', JStr ''human'')],
          step ''s3'' ''run_tests'' ''test_runner'' ''test.run'' ''Execute tests'' [''repo'', ''automation''] 900 False [],
          step ''s4'' ''open_pr'' ''github_client'' ''github.write'' ''Open pull request'' [''repo'', ''automation'', ''approval''] 300 True []])"

lemma buildSteps_eq: "buildSteps goal = Some (plan_steps goal)"
  by (simp add: Let_def buildSteps_def plan_steps_def raw_step_def DEFAULT_CAPABILITY_LABELS_def DEFAULT_STEP_TIMEOUTS_def PlanStepSchema_def
      any_record_def required_def with_default_def optional_def string_min1_def array_of_def nonneg_int_def any_bool_def opt_field_def)

lemma plan_steps_wf: "list_all step_wf (plan_steps goal)"
  by (simp add: plan_steps_def step_wf_def)

text \<open>The latest events of a plan after a few publications are the events published.\<close>

lemma published_last:
  assumes "\<And>e. e \<in> set es \<Longrightarrow> ev_planId e = p" "length es \<le> MAX_EVENTS_PER_PLAN"
  shows "\<exists>ys. getPlanHistory (fold (publishPlanStepEvent now) es st) p = ys @ es"
  using assms
proof (induction es rule: rev_induct)
  case (snoc e es)
  then obtain ys where ys: "getPlanHistory (fold (publishPlanStepEvent now) es st) p = ys @ es" by auto
  have "ev_planId e = p" using snoc.prems(1) by simp
  then have "getPlanHistory (fold (publishPlanStepEvent now) (es @ [e]) st) p = keep_last MAX_EVENTS_PER_PLAN (ys @ es @ [e])"
    by (simp add: events_publish ys)
  also have "\<dots> = drop (length ys + length es + 1 - MAX_EVENTS_PER_PLAN) ys @ es @ [e]"
    using snoc.prems(2) by (simp add: keep_last_def)
  finally show ?case by blast
qed simp

lemma find_rev_distinct:
  "distinct (map f xs) \<Longrightarrow> x \<in> set xs \<Longrightarrow> List.find (\<lambda>y. f y = f x) (rev xs @ zs) = Some x"
proof (induction xs rule: rev_induct)
  case (snoc y xs)
  then show ?case by (cases "x = y") (auto simp: image_iff)
qed simp

lemma latest_created:
  assumes "s \<in> set (plan_steps goal)"
  shows "getLatestPlanStepEvent (fold (\<lambda>s. publishPlanStepEvent now (step_created_event now t p s)) (plan_steps goal) es) p (ps_id s) =
    Some (step_created_event now t p s)"
proof -
  let ?es = "map (step_created_event now t p) (plan_steps goal)"
  have "\<exists>ys. getPlanHistory (fold (publishPlanStepEvent now) ?es es) p = ys @ ?es"
    by (rule published_last) (auto simp: step_created_event_def MAX_EVENTS_PER_PLAN_def plan_steps_def)
  then obtain ys where h: "getPlanHistory (fold (publishPlanStepEvent now) ?es es) p = ys @ ?es" ..
  have d: "distinct (map (\<lambda>e. ev_stepId (ev_step e)) ?es)" by (simp add: step_created_event_def plan_steps_def)
  have m: "step_created_event now t p s \<in> set ?es" using assms by simp
  have "List.find (\<lambda>e. ev_stepId (ev_step e) = ev_stepId (ev_step (step_created_event now t p s))) (rev ?es @ rev ys) =
      Some (step_created_event now t p s)"
    by (rule find_rev_distinct [where f = "\<lambda>e. ev_stepId (ev_step e)", OF d m])
  then show ?thesis using h by (simp add: latest_in_history fold_map comp_def step_created_event_def)
qed

definition needs_approval :: "string \<Rightarrow> bool" where
  "needs_approval capability \<longleftrightarrow> suffix ''.write'' capability"

text \<open>
  C19.  What the planner makes is a plan: for a non-empty goal, when the artifacts can be written,
  \<^verbatim>\<open>createPlan\<close> returns a plan of the declared type, with different step identifiers, in which
  every step whose capability writes requires approval; the document it stores is read back as
  that plan, and the latest event of every step says whether it waits for approval.  An empty
  goal or a failed write is an error, and then no event is published.
\<close>

theorem created_plan_typed:
  "case createPlan cwd io now uuid traceId goal retentionDays subject st of
     (st', Inl e) \<Rightarrow> \<not> (goal \<noteq> [] \<and> io 0 \<and> io 1 \<and> io 2) \<and> pn_events st' = pn_events st \<and> pn_cleanup st' = pn_cleanup st
   | (st', Inr plan) \<Rightarrow>
       goal \<noteq> [] \<and> io 0 \<and> io 1 \<and> io 2 \<and> plan_wf plan \<and> pl_goal plan = goal \<and> distinct (map ps_id (pl_steps plan)) \<and>
       list_all (\<lambda>s. needs_approval (ps_capability s) = ps_approvalRequired s) (pl_steps plan) \<and>
       (\<exists>path tenant. (path, PlanDocument (plan_json plan), tenant) \<in> set (pn_artifacts st')) \<and>
       parsePlan (plan_json plan) = Some plan \<and>
       list_all (\<lambda>s. map_option (\<lambda>e. ev_state (ev_step e)) (getLatestPlanStepEvent (pn_events st') (pl_id plan) (ps_id s)) =
         Some (if ps_approvalRequired s then StWaitingApproval else StQueued)) (pl_steps plan)"
proof (cases "goal = [] \<or> \<not> io 0 \<or> \<not> io 1 \<or> \<not> io 2")
  case True
  show ?thesis
  proof (cases "goal = []")
    case True
    then show ?thesis
      by (simp add: createPlan_def buildSteps_eq parsePlan_def any_record_def required_def string_min1_def)
  next
    case False
    define plan where "plan = \<lparr>pl_id = ''plan-'' @ uuid, pl_goal = goal, pl_steps = plan_steps goal,
      pl_successCriteria = [''All tests pass'', ''CI green'', ''Docs updated'']\<rparr>"
    have "parsePlan (plan_json plan) = Some plan"
      using False plan_steps_wf by (intro parsePlan_json) (simp add: plan_wf_def plan_def plan_steps_def)
    with True False show ?thesis by (auto simp: createPlan_def buildSteps_eq plan_json_def plan_def Let_def)
  qed
next
  case False
  define plan where "plan = \<lparr>pl_id = ''plan-'' @ uuid, pl_goal = goal, pl_steps = plan_steps goal,
    pl_successCriteria = [''All tests pass'', ''CI green'', ''Docs updated'']\<rparr>"
  have wf: "plan_wf plan" using False plan_steps_wf by (simp add: plan_wf_def plan_def plan_steps_def)
  have parsed: "parsePlan (plan_json plan) = Some plan" using wf by (rule parsePlan_json)
  obtain st' where c: "createPlan cwd io now uuid traceId goal retentionDays subject st = (st', Inr plan)"
      "pn_events st' = fold (\<lambda>s. publishPlanStepEvent now (step_created_event now traceId (pl_id plan) s)) (plan_steps goal) (pn_events st)"
      "\<exists>path tenant. (path, PlanDocument (plan_json plan), tenant) \<in> set (pn_artifacts st')"
    using False parsed by (auto simp: createPlan_def buildSteps_eq plan_json_def plan_def Let_def)
  have "distinct (map ps_id (pl_steps plan))"
    "list_all (\<lambda>s. needs_approval (ps_capability s) = ps_approvalRequired s) (pl_steps plan)"
    by (simp_all add: plan_def plan_steps_def needs_approval_def suffix_def)
  moreover have "pl_steps plan = plan_steps goal" by (simp add: plan_def)
  ultimately show ?thesis
    using c wf parsed False latest_created [of _ goal now traceId "pl_id plan" "pn_events st"]
    by (auto simp: list_all_iff step_created_event_def plan_def)
qed

section \<open>Witness\<close>

text \<open>A base directory with an old and a recent plan, a link and a file.\<close>

definition demo_fs :: "(string list) fs_ops" where
  "demo_fs =
     \<lparr>fo_realpath = (\<lambda>p f. Inr p),
      fo_opendir = (\<lambda>p f. Inr [\<lparr>de_name = ''old'', de_isSymbolicLink = False, de_isDirectory = True\<rparr>,
        \<lparr>de_name = ''new'', de_isSymbolicLink = False, de_isDirectory = True\<rparr>,
        \<lparr>de_name = ''link'', de_isSymbolicLink = True, de_isDirectory = False\<rparr>]),
      fo_stat = (\<lambda>p f. if p = ''/plans/old'' then Some 0 else Some 10000000000),
      fo_rm = (\<lambda>p f. removeAll p f)\<rparr>"

theorem cleanup_confined_witness:
  "cleanupPlanArtifacts demo_fs ''/'' 10000000000 ''/plans'' 30 [''/plans/old'', ''/plans/new''] =
     ([''/plans/new''], Inr [(\<lparr>de_name = ''old'', de_isSymbolicLink = False, de_isDirectory = True\<rparr>, ''/plans/old'')]) \<and>
   removable demo_fs ''/'' ''/plans'' (10000000000 - 30 * MILLIS_PER_DAY)
     \<lparr>de_name = ''old'', de_isSymbolicLink = False, de_isDirectory = True\<rparr> ''/plans/old'' [''/plans/old'', ''/plans/new'']"
proof -
  have r: "cleanupPlanArtifacts demo_fs ''/'' 10000000000 ''/plans'' 30 [''/plans/old'', ''/plans/new''] =
     ([''/plans/new''], Inr [(\<lparr>de_name = ''old'', de_isSymbolicLink = False, de_isDirectory = True\<rparr>, ''/plans/old'')])"
    by code_simp
  from cleanup_confined [OF r] have "\<exists>base. fo_realpath demo_fs ''/plans'' [''/plans/old'', ''/plans/new''] = Inr base \<and>
      removable demo_fs ''/'' base (10000000000 - 30 * MILLIS_PER_DAY)
        \<lparr>de_name = ''old'', de_isSymbolicLink = False, de_isDirectory = True\<rparr> ''/plans/old''
        (after_removals demo_fs [] [''/plans/old'', ''/plans/new''])"
    by (simp only: sum.case) blast
  with r show ?thesis by (simp add: demo_fs_def after_removals_def)
qed

end
