(* ===== verification/Workflows.thy ===== *)
theory Workflows
  imports Plan_Schema
begin

text \<open>
  The workflow engine, \<^verbatim>\<open>services/orchestrator/src/workflow/WorkflowEngine.ts\<close>: workflows made from plans,
  kept in memory in the order of their creation.
\<close>

datatype WorkflowNodeType = AgentStep | CodeStep | ApprovalStep | TriggerStep

record WorkflowNode =
  wn_id :: string
  wn_type :: WorkflowNodeType
  wn_name :: string
  wn_next :: "string list option"
  wn_approvalRequired :: "bool option"
  wn_inputs :: "(string, json) jsmap"

datatype WorkflowStatus = WfPending | WfRunning | WfCompleted | WfFailed

record WorkflowOptions =
  wo_tenantId :: "string option"
  wo_projectId :: "string option"
  wo_caseId :: "string option"
  wo_traceId :: "string option"
  wo_requestId :: "string option"
  wo_subject :: "PlanSubject option"

record Workflow =
  wf_id :: string
  wf_planId :: "string option"
  wf_options :: WorkflowOptions
  wf_nodes :: "WorkflowNode list"
  wf_status :: WorkflowStatus
  wf_createdAt :: time
  wf_updatedAt :: time

type_synonym workflows = "(string, Workflow) jsmap"

definition workflow_node :: "PlanStep list \<Rightarrow> nat \<Rightarrow> WorkflowNode" where
  "workflow_node steps index =
     (let step = steps ! index
      in \<lparr>wn_id = ps_id step, wn_type = (if ps_approvalRequired step then ApprovalStep else CodeStep), wn_name = ps_action step,
          wn_next = (if int index < int (length steps) - 1 then Some [ps_id (steps ! (index + 1))] else None),
          wn_approvalRequired = Some (ps_approvalRequired step),
          wn_inputs = [(''tool'', JStr (ps_tool step)), (''capability'', JStr (ps_capability step)),
            (''labels'', JArr (map JStr (ps_labels step))), (''timeoutSeconds'', JNum (ps_timeoutSeconds step))]\<rparr>)"

definition createWorkflowFromPlan ::
  "time \<Rightarrow> string \<Rightarrow> Plan \<Rightarrow> WorkflowOptions \<Rightarrow> workflows \<Rightarrow> workflows \<times> Workflow" where
  "createWorkflowFromPlan now uuid plan options ws =
     (let workflow = \<lparr>wf_id = ''wf-'' @ uuid, wf_planId = Some (pl_id plan), wf_options = options,
            wf_nodes = map (workflow_node (pl_steps plan)) [0..<length (pl_steps plan)], wf_status = WfPending,
            wf_createdAt = now, wf_updatedAt = now\<rparr>
      in (jset (wf_id workflow) workflow ws, workflow))"

definition setStatus :: "time \<Rightarrow> string \<Rightarrow> WorkflowStatus \<Rightarrow> workflows \<Rightarrow> workflows" where
  "setStatus now workflowId status ws =
     (case map_of ws workflowId of
        None \<Rightarrow> ws
      | Some r \<Rightarrow> jset workflowId (r\<lparr>wf_status := status, wf_updatedAt := now\<rparr>) ws)"

definition getWorkflow :: "workflows \<Rightarrow> string \<Rightarrow> Workflow option" where
  "getWorkflow ws i = map_of ws i"

text \<open>An empty text in the query is falsy and selects everything.\<close>

definition query_matches :: "string option \<Rightarrow> string option \<Rightarrow> bool" where
  "query_matches q v \<longleftrightarrow> (case q of None \<Rightarrow> True | Some x \<Rightarrow> x = [] \<or> v = Some x)"

definition listWorkflows :: "string option \<Rightarrow> string option \<Rightarrow> workflows \<Rightarrow> Workflow list" where
  "listWorkflows tenantId projectId ws =
     filter (\<lambda>w. query_matches tenantId (wo_tenantId (wf_options w)) \<and> query_matches projectId (wo_projectId (wf_options w)))
       (jvalues ws)"

section \<open>Properties\<close>

text \<open>Following \<^verbatim>\<open>next\<close> through the nodes of a workflow.\<close>

fun follow :: "nat \<Rightarrow> WorkflowNode list \<Rightarrow> string \<Rightarrow> string list" where
  "follow 0 nodes i = []"
| "follow (Suc n) nodes i =
     i # (case List.find (\<lambda>x. wn_id x = i) nodes of
            None \<Rightarrow> []
          | Some x \<Rightarrow> (case wn_next x of Some (j # _) \<Rightarrow> follow n nodes j | _ \<Rightarrow> []))"

definition nodes_of :: "PlanStep list \<Rightarrow> WorkflowNode list" where
  "nodes_of steps = map (workflow_node steps) [0..<length steps]"

lemma node_id: "k < length steps \<Longrightarrow> wn_id (nodes_of steps ! k) = ps_id (steps ! k)"
  by (simp add: nodes_of_def workflow_node_def Let_def)

lemma find_node:
  assumes "distinct (map ps_id steps)" "k < length steps"
  shows "List.find (\<lambda>x. wn_id x = ps_id (steps ! k)) (nodes_of steps) = Some (workflow_node steps k)"
proof -
  have "wn_id (nodes_of steps ! j) \<noteq> ps_id (steps ! k)" if "j < k" for j
    using assms that node_id [of j steps] by (auto simp: distinct_conv_nth)
  then show ?thesis
    unfolding find_Some_iff using assms(2) node_id [OF assms(2)]
    by (intro exI [of _ k]) (simp add: nodes_of_def)
qed

lemma follow_nodes:
  "distinct (map ps_id steps) \<Longrightarrow> k < length steps \<Longrightarrow> n = length steps - k \<Longrightarrow>
     follow n (nodes_of steps) (ps_id (steps ! k)) = map ps_id (drop k steps)"
proof (induction n arbitrary: k)
  case (Suc n)
  have d: "map ps_id (drop k steps) = ps_id (steps ! k) # map ps_id (drop (k + 1) steps)"
    using Suc.prems(2) by (metis Cons_nth_drop_Suc Suc_eq_plus1 list.simps(9))
  show ?case
  proof (cases "k + 1 < length steps")
    case True
    then have "follow n (nodes_of steps) (ps_id (steps ! (k + 1))) = map ps_id (drop (k + 1) steps)"
      using Suc.prems by (intro Suc.IH) auto
    with True show ?thesis using find_node [OF Suc.prems(1,2)] d by (simp add: workflow_node_def Let_def)
  next
    case False
    then show ?thesis using find_node [OF Suc.prems(1,2)] d by (simp add: workflow_node_def Let_def)
  qed
qed simp

text \<open>
  A workflow executes its plan: after creation it is stored as pending under its own
  identifier, and following the \<^verbatim>\<open>next\<close> links from the first node visits the steps of the plan
  exactly once and in order, with a node of type \<^verbatim>\<open>ApprovalStep\<close> exactly where the step
  requires approval.  A query for a tenant lists only workflows of that tenant.
\<close>

theorem workflow_follows_plan:
  assumes "distinct (map ps_id (pl_steps plan))" "pl_steps plan \<noteq> []" "tenant \<noteq> []"
    and "createWorkflowFromPlan now uuid plan options ws = (ws', w)"
  shows "getWorkflow ws' (wf_id w) = Some w \<and> wf_status w = WfPending \<and>
     follow (length (wf_nodes w)) (wf_nodes w) (wn_id (hd (wf_nodes w))) = map ps_id (pl_steps plan) \<and>
     map wn_type (wf_nodes w) = map (\<lambda>s. if ps_approvalRequired s then ApprovalStep else CodeStep) (pl_steps plan) \<and>
     list_all (\<lambda>x. wo_tenantId (wf_options x) = Some tenant) (listWorkflows (Some tenant) project ws') \<and>
     (w \<in> set (listWorkflows (Some tenant) None ws') \<longleftrightarrow> wo_tenantId options = Some tenant)"
proof -
  from assms(4) have w: "w = \<lparr>wf_id = ''wf-'' @ uuid, wf_planId = Some (pl_id plan), wf_options = options,
      wf_nodes = nodes_of (pl_steps plan), wf_status = WfPending, wf_createdAt = now, wf_updatedAt = now\<rparr>"
    and ws': "ws' = jset (wf_id w) w ws"
    by (auto simp: createWorkflowFromPlan_def nodes_of_def Let_def)
  have nodes: "length (nodes_of (pl_steps plan)) = length (pl_steps plan)" by (simp add: nodes_of_def)
  have "hd (nodes_of (pl_steps plan)) = nodes_of (pl_steps plan) ! 0" using assms(2) nodes by (intro hd_conv_nth) auto
  then have "wn_id (hd (nodes_of (pl_steps plan))) = ps_id (pl_steps plan ! 0)"
    using node_id [of 0 "pl_steps plan"] assms(2) by simp
  then have "follow (length (wf_nodes w)) (wf_nodes w) (wn_id (hd (wf_nodes w))) = map ps_id (pl_steps plan)"
    using follow_nodes [OF assms(1), of 0] assms(2) nodes w by simp
  moreover have "map wn_type (wf_nodes w) = map (\<lambda>s. if ps_approvalRequired s then ApprovalStep else CodeStep) (pl_steps plan)"
    by (rule nth_equalityI) (simp_all add: w nodes_of_def workflow_node_def Let_def)
  moreover have "w \<in> set (jvalues ws')" unfolding ws' by (rule jvaluesI [of _ "wf_id w"]) (simp add: jmap_simps)
  ultimately show ?thesis
    using assms(3) by (auto simp: getWorkflow_def ws' jmap_simps w listWorkflows_def query_matches_def list_all_iff)
qed

theorem workflow_follows_plan_witness:
  "follow 2 (wf_nodes (snd (createWorkflowFromPlan 0 ''u'' \<lparr>pl_id = ''p'', pl_goal = ''g'', pl_steps =
      [\<lparr>ps_id = ''a'', ps_action = ''x'', ps_capability = ''c'', ps_capabilityLabel = ''l'', ps_labels = [], ps_tool = ''t'',
        ps_timeoutSeconds = 0, ps_approvalRequired = False, ps_input = [], ps_summary = None, ps_metadata = []\<rparr>,
       \<lparr>ps_id = ''b'', ps_action = ''y'', ps_capability = ''c'', ps_capabilityLabel = ''l'', ps_labels = [], ps_tool = ''t'',
        ps_timeoutSeconds = 0, ps_approvalRequired = True, ps_input = [], ps_summary = None, ps_metadata = []\<rparr>],
      pl_successCriteria = [''ok'']\<rparr>
      \<lparr>wo_tenantId = Some ''t'', wo_projectId = None, wo_caseId = None, wo_traceId = None, wo_requestId = None, wo_subject = None\<rparr> [])))
     ''a'' = [''a'', ''b'']"
  using workflow_follows_plan [of "\<lparr>pl_id = ''p'', pl_goal = ''g'', pl_steps =
      [\<lparr>ps_id = ''a'', ps_action = ''x'', ps_capability = ''c'', ps_capabilityLabel = ''l'', ps_labels = [], ps_tool = ''t'',
        ps_timeoutSeconds = 0, ps_approvalRequired = False, ps_input = [], ps_summary = None, ps_metadata = []\<rparr>,
       \<lparr>ps_id = ''b'', ps_action = ''y'', ps_capability = ''c'', ps_capabilityLabel = ''l'', ps_labels = [], ps_tool = ''t'',
        ps_timeoutSeconds = 0, ps_approvalRequired = True, ps_input = [], ps_summary = None, ps_metadata = []\<rparr>],
      pl_successCriteria = [''ok'']\<rparr>" "''t''" 0 "''u''"
      "\<lparr>wo_tenantId = Some ''t'', wo_projectId = None, wo_caseId = None, wo_traceId = None, wo_requestId = None, wo_subject = None\<rparr>" "[]"]
  by (simp add: createWorkflowFromPlan_def workflow_node_def Let_def numeral_2_eq_2)

end
