(* ===== verification/Dedupe.thy ===== *)
theory Dedupe
  imports Distributed_Lock
begin

text \<open>
  Claims on idempotency keys: \<^verbatim>\<open>queue/IDedupeService.ts\<close>, its two implementations
  \<^verbatim>\<open>queue/MemoryDedupeService.ts\<close> and \<^verbatim>\<open>queue/RedisDedupeService.ts\<close>, and the factory
  \<^verbatim>\<open>queue/createDedupeService.ts\<close>.  The interface of the repository is the record
  \<open>dedupe_ops\<close>; what its comments promise is the locale \<open>dedupe_service\<close>, whose instances
  are the two implementations.
\<close>

section \<open>The interface\<close>

record 'd dedupe_ops =
  do_claim :: "time \<Rightarrow> string \<Rightarrow> rat \<Rightarrow> 'd \<Rightarrow> 'd \<times> bool"
  do_release :: "time \<Rightarrow> string \<Rightarrow> 'd \<Rightarrow> 'd"
  do_isClaimed :: "time \<Rightarrow> string \<Rightarrow> 'd \<Rightarrow> 'd \<times> bool"

definition safeTtlMs :: "rat \<Rightarrow> int" where
  "safeTtlMs ttlMs = max 1 \<lfloor>ttlMs\<rfloor>"

lemma safeTtlMs_pos [simp]: "0 < safeTtlMs ttl"
  by (simp add: safeTtlMs_def)

section \<open>The service in memory\<close>

record ClaimEntry =
  ce_expiresAt :: time

type_synonym memory_claims = "(string, ClaimEntry) jsmap"

definition mem_cleanupExpired :: "time \<Rightarrow> memory_claims \<Rightarrow> memory_claims" where
  "mem_cleanupExpired now claims = filter (\<lambda>(key, entry). \<not> ce_expiresAt entry \<le> now) claims"

definition mem_claim :: "time \<Rightarrow> string \<Rightarrow> rat \<Rightarrow> memory_claims \<Rightarrow> memory_claims \<times> bool" where
  "mem_claim now key ttlMs claims =
     (if (case map_of claims key of None \<Rightarrow> False | Some existing \<Rightarrow> ce_expiresAt existing > now)
      then (claims, False)
      else (jset key \<lparr>ce_expiresAt = now + safeTtlMs ttlMs\<rparr> claims, True))"

definition mem_release :: "time \<Rightarrow> string \<Rightarrow> memory_claims \<Rightarrow> memory_claims" where
  "mem_release now key claims = jdelete key claims"

definition mem_isClaimed :: "time \<Rightarrow> string \<Rightarrow> memory_claims \<Rightarrow> memory_claims \<times> bool" where
  "mem_isClaimed now key claims =
     (case map_of claims key of
        None \<Rightarrow> (claims, False)
      | Some entry \<Rightarrow> if ce_expiresAt entry \<le> now then (jdelete key claims, False) else (claims, True))"

definition mem_close :: "memory_claims \<Rightarrow> memory_claims" where
  "mem_close claims = []"

definition memory_dedupe :: "memory_claims dedupe_ops" where
  "memory_dedupe = \<lparr>do_claim = mem_claim, do_release = mem_release, do_isClaimed = mem_isClaimed\<rparr>"

section \<open>The service on Redis\<close>

text \<open>One orchestrator instance: its prefix, whether it holds a connected client, and whether
  it was closed.  Each call says how an attempt to connect would end and whether its command and
  the reply arrive.\<close>

record RedisDedupeService =
  rd_keyPrefix :: string
  rd_client :: bool
  rd_closed :: bool

definition DEFAULT_KEY_PREFIX :: string where
  "DEFAULT_KEY_PREFIX = ''dedupe''"

definition new_redis_dedupe :: "string option \<Rightarrow> RedisDedupeService" where
  "new_redis_dedupe keyPrefix =
     \<lparr>rd_keyPrefix = (case keyPrefix of None \<Rightarrow> DEFAULT_KEY_PREFIX | Some p \<Rightarrow> p), rd_client = False, rd_closed = False\<rparr>"

definition dedupe_formatKey :: "RedisDedupeService \<Rightarrow> string \<Rightarrow> string" where
  "dedupe_formatKey s key = rd_keyPrefix s @ '':'' @ key"

record redis_faults =
  rf_connects :: bool
  rf_net :: delivery

definition getClient :: "redis_faults \<Rightarrow> RedisDedupeService \<Rightarrow> RedisDedupeService \<times> bool" where
  "getClient f s =
     (if rd_closed s then (s, False)
      else if rd_client s then (s, True)
      else if rf_connects f then (s\<lparr>rd_client := True\<rparr>, True)
      else (s, False))"

definition redis_claim ::
  "'r redis_ops \<Rightarrow> redis_faults \<Rightarrow> time \<Rightarrow> string \<Rightarrow> rat \<Rightarrow> RedisDedupeService \<times> 'r \<Rightarrow> (RedisDedupeService \<times> 'r) \<times> bool" where
  "redis_claim ops f now key ttlMs = (\<lambda>(s, r).
     let (s, connected) = getClient f s in
     if \<not> connected then ((s, r), True)
     else
       let (r', result) = send (rf_net f) (ro_setNX ops now (dedupe_formatKey s key) ''1'' (safeTtlMs ttlMs)) r
       in ((s, r'), (case result of None \<Rightarrow> True | Some claimed \<Rightarrow> claimed)))"

definition redis_release ::
  "'r redis_ops \<Rightarrow> redis_faults \<Rightarrow> time \<Rightarrow> string \<Rightarrow> RedisDedupeService \<times> 'r \<Rightarrow> RedisDedupeService \<times> 'r" where
  "redis_release ops f now key = (\<lambda>(s, r).
     let (s, connected) = getClient f s in
     if \<not> connected then (s, r)
     else (s, fst (send (rf_net f) (\<lambda>r. (ro_del ops now (dedupe_formatKey s key) r, ())) r)))"

text \<open>\<^verbatim>\<open>EXISTS\<close> on a key that only ever holds a string says whether \<^verbatim>\<open>GET\<close> finds a value.\<close>

definition redis_isClaimed ::
  "'r redis_ops \<Rightarrow> redis_faults \<Rightarrow> time \<Rightarrow> string \<Rightarrow> RedisDedupeService \<times> 'r \<Rightarrow> (RedisDedupeService \<times> 'r) \<times> bool" where
  "redis_isClaimed ops f now key = (\<lambda>(s, r).
     let (s, connected) = getClient f s in
     if \<not> connected then ((s, r), False)
     else
       let (r', result) = send (rf_net f) (\<lambda>r. (r, ro_get ops now (dedupe_formatKey s key) r \<noteq> None)) r
       in ((s, r'), (case result of None \<Rightarrow> False | Some found \<Rightarrow> found)))"

definition dedupe_close :: "RedisDedupeService \<Rightarrow> RedisDedupeService" where
  "dedupe_close s = s\<lparr>rd_closed := True, rd_client := False\<rparr>"

text \<open>The service while the server can be reached.\<close>

definition reachable_redis :: redis_faults where
  "reachable_redis = \<lparr>rf_connects = True, rf_net = Delivered\<rparr>"

definition redis_dedupe :: "'r redis_ops \<Rightarrow> (RedisDedupeService \<times> 'r) dedupe_ops" where
  "redis_dedupe ops =
     \<lparr>do_claim = redis_claim ops reachable_redis,
      do_release = redis_release ops reachable_redis,
      do_isClaimed = redis_isClaimed ops reachable_redis\<rparr>"

section \<open>The factory\<close>

datatype DedupeServiceProvider = ProviderMemory | ProviderRedis

record DedupeServiceRedisConfig =
  dr_url :: "string option"
  dr_keyPrefix :: "string option"

record DedupeServiceConfig =
  dc_provider :: "DedupeServiceProvider option"
  dc_redis :: "DedupeServiceRedisConfig option"
  dc_cleanupIntervalMs :: "int option"

datatype dedupe_choice = MemoryChosen int | RedisChosen string RedisDedupeService

definition new_memory_dedupe :: "int option \<Rightarrow> dedupe_choice" where
  "new_memory_dedupe cleanupIntervalMs = MemoryChosen (case cleanupIntervalMs of None \<Rightarrow> 60000 | Some i \<Rightarrow> i)"

definition createDedupeService :: "DedupeServiceConfig \<Rightarrow> dedupe_choice" where
  "createDedupeService config =
     (case (case dc_provider config of None \<Rightarrow> ProviderMemory | Some p \<Rightarrow> p) of
        ProviderRedis \<Rightarrow>
          (case Option.bind (dc_redis config) dr_url of
             None \<Rightarrow> new_memory_dedupe (dc_cleanupIntervalMs config)
           | Some url \<Rightarrow>
               if url = '''' then new_memory_dedupe (dc_cleanupIntervalMs config)
               else RedisChosen url (new_redis_dedupe (Option.bind (dc_redis config) dr_keyPrefix)))
      | ProviderMemory \<Rightarrow> new_memory_dedupe (dc_cleanupIntervalMs config))"

text \<open>The environment names a provider by any text; only \<^verbatim>\<open>redis\<close> selects the second branch.\<close>

definition createDedupeServiceFromEnv :: "(string \<Rightarrow> string option) \<Rightarrow> dedupe_choice" where
  "createDedupeServiceFromEnv env =
     (let provider = (if env ''DEDUPE_SERVICE_PROVIDER'' = Some ''redis'' then ProviderRedis else ProviderMemory);
          keyPrefix = env ''DEDUPE_SERVICE_REDIS_KEY_PREFIX''
      in createDedupeService
           \<lparr>dc_provider = Some provider,
            dc_redis = (case env ''DEDUPE_SERVICE_REDIS_URL'' of
                          None \<Rightarrow> None
                        | Some url \<Rightarrow> if url = '''' then None else Some \<lparr>dr_url = Some url, dr_keyPrefix = keyPrefix\<rparr>),
            dc_cleanupIntervalMs = None\<rparr>)"

section \<open>Runs\<close>

datatype dedupe_op = Claim string rat | Release string | IsClaimed string

fun dedupe_step :: "'d dedupe_ops \<Rightarrow> time \<times> dedupe_op \<Rightarrow> 'd \<Rightarrow> 'd \<times> bool" where
  "dedupe_step ops (now, Claim key ttl) s = do_claim ops now key ttl s"
| "dedupe_step ops (now, Release key) s = (do_release ops now key s, True)"
| "dedupe_step ops (now, IsClaimed key) s = do_isClaimed ops now key s"

fun dedupe_run :: "'d dedupe_ops \<Rightarrow> (time \<times> dedupe_op) list \<Rightarrow> 'd \<Rightarrow> 'd \<times> bool list" where
  "dedupe_run ops [] s = (s, [])"
| "dedupe_run ops (e # es) s =
     (let (s', b) = dedupe_step ops e s; (s'', bs) = dedupe_run ops es s' in (s'', b # bs))"

text \<open>The table of claims the interface describes: a key is claimed until a time.\<close>

type_synonym claim_table = "string \<Rightarrow> time option"

definition claimed_at :: "claim_table \<Rightarrow> time \<Rightarrow> string \<Rightarrow> bool" where
  "claimed_at tbl now key \<longleftrightarrow> (case tbl key of None \<Rightarrow> False | Some expiry \<Rightarrow> now < expiry)"

definition table_dedupe :: "claim_table dedupe_ops" where
  "table_dedupe =
     \<lparr>do_claim = (\<lambda>now key ttl tbl.
        if claimed_at tbl now key then (tbl, False) else (tbl(key \<mapsto> now + safeTtlMs ttl), True)),
      do_release = (\<lambda>now key tbl. tbl(key := None)),
      do_isClaimed = (\<lambda>now key tbl. (tbl, claimed_at tbl now key))\<rparr>"

lemma table_simps:
  "do_claim table_dedupe now key ttl tbl =
     (if claimed_at tbl now key then (tbl, False) else (tbl(key \<mapsto> now + safeTtlMs ttl), True))"
  "do_release table_dedupe now key tbl = tbl(key := None)"
  "do_isClaimed table_dedupe now key tbl = (tbl, claimed_at tbl now key)"
  by (simp_all add: table_dedupe_def)

lemma claimed_at_upd [simp]:
  "claimed_at (tbl(key \<mapsto> expiry)) t k \<longleftrightarrow> (if k = key then t < expiry else claimed_at tbl t k)"
  "claimed_at (tbl(key := None)) t k \<longleftrightarrow> k \<noteq> key \<and> claimed_at tbl t k"
  by (simp_all add: claimed_at_def)

lemma claimed_at_earlier: "claimed_at tbl t k \<Longrightarrow> t' \<le> t \<Longrightarrow> claimed_at tbl t' k"
  by (auto simp: claimed_at_def split: option.splits)

lemma dedupe_run_append:
  "dedupe_run ops (es @ es') s =
     (case dedupe_run ops es s of (s', bs) \<Rightarrow> case dedupe_run ops es' s' of (s'', bs') \<Rightarrow> (s'', bs @ bs'))"
  by (induction es arbitrary: s) (simp_all add: case_prod_unfold Let_def)

lemma length_dedupe_run [simp]: "length (snd (dedupe_run ops es s)) = length es"
  by (induction es arbitrary: s) (simp_all add: case_prod_unfold Let_def)

lemma timed_append: "timed now (es @ es') \<longleftrightarrow> timed now es \<and> timed (last_time now es) es'"
proof (induction es arbitrary: now)
  case (Cons e es)
  then show ?case by (cases e; cases "es = []") (auto simp: last_time_def)
qed (simp add: last_time_def)

lemma timed_bound: "timed now es \<Longrightarrow> list_all (\<lambda>(t, e). now \<le> t) es"
proof (induction es arbitrary: now)
  case (Cons e es)
  then show ?case by (cases e) (fastforce simp: list_all_iff)
qed simp

lemma timed_last: "timed now (es @ [(t, x)]) \<Longrightarrow> now \<le> t"
proof (induction es arbitrary: now)
  case (Cons e es)
  then show ?case by (cases e) fastforce
qed simp

text \<open>While a claim lives, its key stays claimed unless it is released.\<close>

lemma table_claim_persists:
  "claimed_at tbl t key \<Longrightarrow> timed now (es @ [(t, x)]) \<Longrightarrow> \<forall>e \<in> set es. snd e \<noteq> Release key \<Longrightarrow>
     claimed_at (fst (dedupe_run table_dedupe es tbl)) t key"
proof (induction es arbitrary: now tbl)
  case (Cons e es)
  obtain t' op where e: "e = (t', op)" by (cases e)
  then have "t' \<le> t" using Cons.prems(2) timed_last [of t' es t x] by simp
  then have "claimed_at (fst (dedupe_step table_dedupe e tbl)) t key"
    using Cons.prems(1,3) claimed_at_earlier [OF Cons.prems(1)] e by (cases op) (auto simp: table_simps)
  moreover have "timed t' (es @ [(t, x)])" using Cons.prems(2) e by simp
  ultimately show ?case
    using Cons.IH Cons.prems(3) by (simp add: case_prod_unfold Let_def)
qed simp

lemma table_exclusive:
  assumes "timed now (es @ (t1, Claim key ttl1) # mid @ [(t2, Claim key ttl2)])"
    and "snd (dedupe_run table_dedupe (es @ (t1, Claim key ttl1) # mid @ [(t2, Claim key ttl2)]) tbl) = bs"
    and "bs ! length es" "last bs" "\<forall>e \<in> set mid. snd e \<noteq> Release key"
  shows "t1 + safeTtlMs ttl1 \<le> t2"
proof (rule ccontr)
  assume early: "\<not> t1 + safeTtlMs ttl1 \<le> t2"
  define tbl1 where "tbl1 = fst (dedupe_run table_dedupe es tbl)"
  define tbl2 where "tbl2 = fst (dedupe_step table_dedupe (t1, Claim key ttl1) tbl1)"
  have bs: "bs ! length es = snd (dedupe_step table_dedupe (t1, Claim key ttl1) tbl1)"
    "last bs = snd (do_claim table_dedupe t2 key ttl2 (fst (dedupe_run table_dedupe mid tbl2)))"
    using assms(2) unfolding tbl1_def tbl2_def
    by (auto simp: dedupe_run_append case_prod_unfold Let_def nth_append)
  then have "claimed_at tbl2 t2 key"
    using assms(3) early by (simp add: tbl2_def table_simps split: if_splits)
  moreover have "timed t1 (mid @ [(t2, Claim key ttl2)])" using assms(1) by (simp add: timed_append)
  ultimately have "claimed_at (fst (dedupe_run table_dedupe mid tbl2)) t2 key"
    using table_claim_persists assms(5) by blast
  with bs assms(4) show False by (simp add: table_simps)
qed

section \<open>The contract\<close>

locale dedupe_service =
  fixes ops :: "'d dedupe_ops"
    and claimed :: "'d \<Rightarrow> time \<Rightarrow> string \<Rightarrow> bool"
    and ok :: "'d \<Rightarrow> bool"
  assumes claim_result: "ok s \<Longrightarrow> do_claim ops now key ttl s = (s', b) \<Longrightarrow> ok s' \<and> b = (\<not> claimed s now key)"
    and claim_effect: "ok s \<Longrightarrow> do_claim ops now key ttl s = (s', b) \<Longrightarrow> now \<le> t \<Longrightarrow>
      claimed s' t k = (if k = key \<and> b then t < now + safeTtlMs ttl else claimed s t k)"
    and release_effect: "ok s \<Longrightarrow> do_release ops now key s = s' \<Longrightarrow> now \<le> t \<Longrightarrow>
      ok s' \<and> claimed s' t k = (k \<noteq> key \<and> claimed s t k)"
    and isClaimed_effect: "ok s \<Longrightarrow> do_isClaimed ops now key s = (s', b) \<Longrightarrow> now \<le> t \<Longrightarrow>
      ok s' \<and> b = claimed s now key \<and> claimed s' t k = claimed s t k"
begin

text \<open>The table simulates every service: the relation is agreement from now on.\<close>

definition agrees :: "time \<Rightarrow> 'd \<Rightarrow> claim_table \<Rightarrow> bool" where
  "agrees now s tbl \<longleftrightarrow> ok s \<and> (\<forall>t k. now \<le> t \<longrightarrow> claimed s t k = claimed_at tbl t k)"

lemma agreesD: "agrees now s tbl \<Longrightarrow> now \<le> t \<Longrightarrow> claimed s t k = claimed_at tbl t k"
  by (simp add: agrees_def)

lemma agrees_later: "agrees now s tbl \<Longrightarrow> now \<le> t \<Longrightarrow> agrees t s tbl"
  by (auto simp: agrees_def)

lemma agrees_step:
  assumes agr: "agrees now s tbl" and s': "dedupe_step ops (now, op) s = (s', b)"
    and tbl': "dedupe_step table_dedupe (now, op) tbl = (tbl', b')"
  shows "b = b' \<and> agrees now s' tbl'"
proof -
  have ok: "ok s" and now: "claimed s now k = claimed_at tbl now k" for k
    using agr by (auto simp: agrees_def)
  show ?thesis
  proof (cases op)
    case (Claim key ttl)
    then have "do_claim ops now key ttl s = (s', b)" using s' by simp
    note eff = claim_result [OF ok this] claim_effect [OF ok this]
    show ?thesis
      using tbl' Claim now [of key] eff(1) agreesD [OF agr]
      unfolding agrees_def by (simp add: table_simps eff(2) split: if_splits) auto
  next
    case (Release key)
    then have "do_release ops now key s = s'" "b" using s' by simp_all
    with release_effect [OF ok this(1)] tbl' Release agreesD [OF agr] show ?thesis
      unfolding agrees_def by (auto simp: table_simps)
  next
    case (IsClaimed key)
    then have "do_isClaimed ops now key s = (s', b)" using s' by simp
    with isClaimed_effect [OF ok this] tbl' IsClaimed agreesD [OF agr] now show ?thesis
      unfolding agrees_def by (auto simp: table_simps)
  qed
qed

lemma run_agrees:
  "agrees now s tbl \<Longrightarrow> timed now es \<Longrightarrow> snd (dedupe_run ops es s) = snd (dedupe_run table_dedupe es tbl)"
proof (induction es arbitrary: now s tbl)
  case (Cons e es)
  obtain t op where e: "e = (t, op)" by (cases e)
  obtain s' b where s': "dedupe_step ops (t, op) s = (s', b)" by fastforce
  obtain tbl' b' where t': "dedupe_step table_dedupe (t, op) tbl = (tbl', b')" by fastforce
  have "b = b'" "agrees t s' tbl'"
    using agrees_step [OF agrees_later s' t'] Cons.prems e by auto
  with Cons.IH Cons.prems e s' t' show ?case by (simp add: case_prod_unfold Let_def)
qed simp

lemma refines_table:
  assumes "ok s" "\<And>t k. \<not> claimed s t k" "timed now es"
  shows "snd (dedupe_run ops es s) = snd (dedupe_run table_dedupe es Map.empty)"
  using assms by (intro run_agrees [of now]) (simp_all add: agrees_def claimed_at_def)

end

text \<open>The memory service fulfils the contract: its periodic clean-up, too, is invisible.\<close>

definition mem_claimed :: "memory_claims \<Rightarrow> time \<Rightarrow> string \<Rightarrow> bool" where
  "mem_claimed claims now key \<longleftrightarrow> (case map_of claims key of None \<Rightarrow> False | Some e \<Rightarrow> now < ce_expiresAt e)"

interpretation memory: dedupe_service memory_dedupe mem_claimed "\<lambda>_. True"
  by unfold_locales
    (auto simp: memory_dedupe_def mem_claim_def mem_release_def mem_isClaimed_def mem_claimed_def jmap_simps
      split: option.splits if_splits)

lemma cleanup_invisible:
  assumes "jwf claims" "now \<le> t"
  shows "mem_claimed (mem_cleanupExpired now claims) t key = mem_claimed claims t key"
  using assms(2) map_of_filter_values [OF assms(1), of "\<lambda>key entry. \<not> ce_expiresAt entry \<le> now" key]
  by (auto simp: mem_claimed_def mem_cleanupExpired_def split: option.splits)

text \<open>So does the Redis service while the server can be reached.\<close>

lemma getClient_reachable:
  "\<not> rd_closed s \<Longrightarrow> getClient reachable_redis s = (s\<lparr>rd_client := True\<rparr>, True)"
  by (simp add: getClient_def reachable_redis_def)

lemma dedupe_formatKey_inject [simp]: "dedupe_formatKey s k = dedupe_formatKey s k' \<longleftrightarrow> k = k'"
  by (simp add: dedupe_formatKey_def)

lemma dedupe_formatKey_client [simp]: "dedupe_formatKey (s\<lparr>rd_client := c\<rparr>) k = dedupe_formatKey s k"
  by (simp add: dedupe_formatKey_def)

lemma reachable_redis_simps:
  assumes "\<not> rd_closed s"
  shows "do_claim (redis_dedupe ops) now key ttl (s, r) =
      (case ro_setNX ops now (dedupe_formatKey s key) ''1'' (safeTtlMs ttl) r of (r', b) \<Rightarrow> ((s\<lparr>rd_client := True\<rparr>, r'), b))"
    and "do_release (redis_dedupe ops) now key (s, r) = (s\<lparr>rd_client := True\<rparr>, ro_del ops now (dedupe_formatKey s key) r)"
    and "do_isClaimed (redis_dedupe ops) now key (s, r) =
      ((s\<lparr>rd_client := True\<rparr>, r), ro_get ops now (dedupe_formatKey s key) r \<noteq> None)"
  using getClient_reachable [OF assms]
  by (simp_all add: redis_dedupe_def redis_claim_def redis_release_def redis_isClaimed_def send_def
      reachable_redis_def Let_def case_prod_unfold)

definition redis_claimed ::
  "('r \<Rightarrow> time \<Rightarrow> string \<Rightarrow> string option) \<Rightarrow> RedisDedupeService \<times> 'r \<Rightarrow> time \<Rightarrow> string \<Rightarrow> bool" where
  "redis_claimed live = (\<lambda>(s, r) now key. live r now (dedupe_formatKey s key) \<noteq> None)"

context redis_server
begin

lemma redis_dedupe_service: "dedupe_service (redis_dedupe ops) (redis_claimed live) (\<lambda>(s, r). \<not> rd_closed s)"
proof unfold_locales
  fix s :: "RedisDedupeService \<times> 'r" and now key ttl s' b
  assume s: "case s of (s, r) \<Rightarrow> \<not> rd_closed s" and c: "do_claim (redis_dedupe ops) now key ttl s = (s', b)"
  obtain u r where su: "s = (u, r)" by (cases s)
  obtain r' where cmd: "ro_setNX ops now (dedupe_formatKey u key) ''1'' (safeTtlMs ttl) r = (r', b)"
    and s': "s' = (u\<lparr>rd_client := True\<rparr>, r')"
    using c s su by (auto simp: reachable_redis_simps split: prod.splits)
  note * = setNX_cases [OF safeTtlMs_pos cmd]
  show "(case s' of (s, r) \<Rightarrow> \<not> rd_closed s) \<and> b = (\<not> redis_claimed live s now key)"
    by (rule *) (use s su s' in \<open>auto simp: redis_claimed_def\<close>)
  show "redis_claimed live s' t k = (if k = key \<and> b then t < now + safeTtlMs ttl else redis_claimed live s t k)"
    if "now \<le> t" for t k
    by (rule *) (use s su s' that in \<open>auto simp: redis_claimed_def\<close>)
next
  fix s :: "RedisDedupeService \<times> 'r" and now key s' and t :: time and k
  assume "case s of (s, r) \<Rightarrow> \<not> rd_closed s" "do_release (redis_dedupe ops) now key s = s'" "now \<le> t"
  then show "(case s' of (s, r) \<Rightarrow> \<not> rd_closed s) \<and> redis_claimed live s' t k = (k \<noteq> key \<and> redis_claimed live s t k)"
    by (cases s) (auto simp: reachable_redis_simps redis_claimed_def del_live split: if_splits)
next
  fix s :: "RedisDedupeService \<times> 'r" and now key s' b and t :: time and k
  assume "case s of (s, r) \<Rightarrow> \<not> rd_closed s" "do_isClaimed (redis_dedupe ops) now key s = (s', b)" "now \<le> t"
  then show "(case s' of (s, r) \<Rightarrow> \<not> rd_closed s) \<and> b = redis_claimed live s now key \<and>
      redis_claimed live s' t k = redis_claimed live s t k"
    by (cases s) (auto simp: reachable_redis_simps redis_claimed_def get_live)
qed

end

interpretation redis_on_model: dedupe_service "redis_dedupe redis_model" "redis_claimed live_value" "\<lambda>(s, r). \<not> rd_closed s"
  by (rule redis.redis_dedupe_service)

section \<open>Several instances on one server\<close>

fun cluster_run ::
  "'r redis_ops \<Rightarrow> (nat \<times> time \<times> dedupe_op) list \<Rightarrow> (nat, RedisDedupeService) jsmap \<times> 'r \<Rightarrow>
     ((nat, RedisDedupeService) jsmap \<times> 'r) \<times> bool list" where
  "cluster_run ops [] w = (w, [])"
| "cluster_run ops ((i, e) # es) (services, r) =
     (case map_of services i of
        None \<Rightarrow> cluster_run ops es (services, r)
      | Some s \<Rightarrow>
          let ((s', r'), b) = dedupe_step (redis_dedupe ops) e (s, r);
              (w, bs) = cluster_run ops es (jset i s' services, r')
          in (w, b # bs))"

definition same_prefix :: "string \<Rightarrow> (nat, RedisDedupeService) jsmap \<Rightarrow> bool" where
  "same_prefix p services \<longleftrightarrow> list_all (\<lambda>(i, s). rd_keyPrefix s = p \<and> \<not> rd_closed s) services"

lemma same_prefixD: "same_prefix p services \<Longrightarrow> map_of services i = Some s \<Longrightarrow> rd_keyPrefix s = p \<and> \<not> rd_closed s"
  by (auto simp: same_prefix_def list_all_iff dest: map_of_SomeD)

lemma same_prefix_jset:
  "same_prefix p services \<Longrightarrow> rd_keyPrefix s = p \<Longrightarrow> \<not> rd_closed s \<Longrightarrow> same_prefix p (jset i s services)"
  by (auto simp: same_prefix_def list_all_iff dest: set_jset)

text \<open>Which instance runs a step does not matter.\<close>

lemma step_instance:
  assumes "rd_keyPrefix s = rd_keyPrefix s0" "\<not> rd_closed s" "\<not> rd_closed s0"
  obtains r' b where "dedupe_step (redis_dedupe ops) e (s, r) = ((s\<lparr>rd_client := True\<rparr>, r'), b)"
    "dedupe_step (redis_dedupe ops) e (s0, r) = ((s0\<lparr>rd_client := True\<rparr>, r'), b)"
proof -
  obtain t op where e: "e = (t, op)" by (cases e)
  have "dedupe_formatKey s = dedupe_formatKey s0" using assms(1) by (simp add: dedupe_formatKey_def fun_eq_iff)
  with assms(2,3) show ?thesis
    by (cases op) (rule that; simp add: e reachable_redis_simps case_prod_unfold)+
qed

lemma cluster_single:
  "same_prefix (rd_keyPrefix s0) services \<Longrightarrow> \<not> rd_closed s0 \<Longrightarrow> list_all (\<lambda>(i, e). jhas services i) es \<Longrightarrow>
     snd (cluster_run ops es (services, r)) = snd (dedupe_run (redis_dedupe ops) (map snd es) (s0, r))"
proof (induction es arbitrary: services r s0)
  case (Cons ie es)
  obtain i e where ie: "ie = (i, e)" by (cases ie)
  with Cons.prems(3) obtain s where s: "map_of services i = Some s" by auto
  note p = same_prefixD [OF Cons.prems(1) s]
  obtain r' b where "dedupe_step (redis_dedupe ops) e (s, r) = ((s\<lparr>rd_client := True\<rparr>, r'), b)"
    "dedupe_step (redis_dedupe ops) e (s0, r) = ((s0\<lparr>rd_client := True\<rparr>, r'), b)"
    using step_instance p Cons.prems(2) by metis
  moreover have "list_all (\<lambda>(j, e). jhas (jset i (s\<lparr>rd_client := True\<rparr>) services) j) es"
    using Cons.prems(3) by (auto simp: list_all_iff jmap_simps)
  ultimately show ?case
    using Cons.IH [of "s0\<lparr>rd_client := True\<rparr>"] Cons.prems p same_prefix_jset ie s
    by (simp add: case_prod_unfold Let_def)
qed simp

lemma cluster_refines_table:
  assumes "redis_server ops live" "\<And>t key. live r t (p @ '':'' @ key) = None"
    and "same_prefix p services" "list_all (\<lambda>(i, e). jhas services i) es" "timed now (map snd es)"
  shows "snd (cluster_run ops es (services, r)) = snd (dedupe_run table_dedupe (map snd es) Map.empty)"
proof -
  let ?s = "\<lparr>rd_keyPrefix = p, rd_client = False, rd_closed = False\<rparr>"
  have "snd (cluster_run ops es (services, r)) = snd (dedupe_run (redis_dedupe ops) (map snd es) (?s, r))"
    using assms(3,4) by (intro cluster_single) simp_all
  also have "\<dots> = snd (dedupe_run table_dedupe (map snd es) Map.empty)"
    using assms(2,5)
    by (intro dedupe_service.refines_table [OF redis_server.redis_dedupe_service [OF assms(1)]])
      (simp_all add: redis_claimed_def dedupe_formatKey_def)
  finally show ?thesis .
qed


definition demo_services :: "(nat, RedisDedupeService) jsmap" where
  "demo_services = [(0, new_redis_dedupe None), (1, new_redis_dedupe None)]"

definition demo_claims :: "(nat \<times> time \<times> dedupe_op) list" where
  "demo_claims =
     [(0, 10, Claim ''job'' 100), (1, 20, Claim ''job'' 100), (1, 30, IsClaimed ''job''), (1, 110, Claim ''job'' 50),
      (0, 120, Release ''job''), (0, 130, Claim ''job'' (1/2))]"

lemma demo_claims_ok:
  "same_prefix DEFAULT_KEY_PREFIX demo_services" "list_all (\<lambda>(i, e). jhas demo_services i) demo_claims"
  "timed 0 (map snd demo_claims)"
  by (simp_all add: demo_services_def demo_claims_def same_prefix_def new_redis_dedupe_def)


text \<open>
  A key is granted again only when its claim was released or has run out: of two granted
  claims on one key, by any instances and with no release in between, the second comes at least the
  time to live of the first later.
\<close>

theorem dedupe_exclusive:
  assumes "redis_server ops live" "\<And>t key. live r t (p @ '':'' @ key) = None"
    and "same_prefix p services" "list_all (\<lambda>(i, e). jhas services i) es" "timed now (map snd es)"
    and "map snd es = earlier @ (t1, Claim key ttl1) # between @ [(t2, Claim key ttl2)]"
    and "snd (cluster_run ops es (services, r)) ! length earlier" "last (snd (cluster_run ops es (services, r)))"
    and "\<forall>e \<in> set between. snd e \<noteq> Release key"
  shows "t1 + safeTtlMs ttl1 \<le> t2"
  using table_exclusive [OF assms(5) [unfolded assms(6)] refl _ _ assms(9)] assms(7,8)
    cluster_refines_table [OF assms(1-5)] unfolding assms(6) by metis

lemma dedupe_exclusive_witness:
  "(10 :: int) + safeTtlMs 100 \<le> 110"
proof (rule dedupe_exclusive [OF redis.redis_server_axioms _ demo_claims_ok(1) _ _ _ _ _, of "[]" "take 4 demo_claims" 0 "[]"])
  show "map snd (take 4 demo_claims) =
      [] @ (10, Claim ''job'' 100) # [(20, Claim ''job'' 100), (30, IsClaimed ''job'')] @ [(110, Claim ''job'' 50)]"
    by (simp add: demo_claims_def)
  show "list_all (\<lambda>(i, e). jhas demo_services i) (take 4 demo_claims)"
    by (simp add: demo_claims_def demo_services_def)
qed (simp add: live_value_def, code_simp+)

end
