(* ===== verification/Js_Numbers.thy ===== *)
theory Js_Numbers
  imports Json_Text
begin

text \<open>
  \<^verbatim>\<open>Number(text)\<close> and the conversions around it: settings and message headers hold numbers as
  texts.  The value of a decimal literal is the exact rational; rounding to a double and overflow
  to an infinity are left out.
\<close>

definition read_mantissa :: "string \<Rightarrow> (rat \<times> string) option" where
  "read_mantissa s =
     (let whole = takeWhile is_digit s; rest = dropWhile is_digit s;
          (frac, rest) = (if rest \<noteq> [] \<and> hd rest = CHR ''.'' then (takeWhile is_digit (tl rest), dropWhile is_digit (tl rest))
                          else ([], rest))
      in if whole = [] \<and> frac = [] then None
         else Some (of_nat (read_nat (whole @ frac)) / 10 ^ length frac, rest))"

definition read_sign :: "string \<Rightarrow> bool \<times> string" where
  "read_sign s =
     (case s of
        [] \<Rightarrow> (False, [])
      | c # cs \<Rightarrow> if c = CHR ''-'' then (True, cs) else if c = CHR ''+'' then (False, cs) else (False, s))"

definition read_decimal :: "string \<Rightarrow> rat option" where
  "read_decimal s =
     (case read_mantissa s of
        None \<Rightarrow> None
      | Some (m, []) \<Rightarrow> Some m
      | Some (m, e # rest) \<Rightarrow>
          let (neg, ds) = read_sign rest in
          if (e = CHR ''e'' \<or> e = CHR ''E'') \<and> ds \<noteq> [] \<and> list_all is_digit ds
          then Some (if neg then m / 10 ^ read_nat ds else m * 10 ^ read_nat ds)
          else None)"

definition read_radix :: "nat \<Rightarrow> string \<Rightarrow> rat option" where
  "read_radix base ds =
     (if ds \<noteq> [] \<and> list_all (\<lambda>c. case unhex c of None \<Rightarrow> False | Some d \<Rightarrow> d < base) ds
      then Some (of_nat (foldl (\<lambda>a c. base * a + (case unhex c of None \<Rightarrow> 0 | Some d \<Rightarrow> d)) 0 ds))
      else None)"

definition radix_of :: "string \<Rightarrow> nat option" where
  "radix_of s =
     (case s of
        z # c # _ \<Rightarrow>
          if z \<noteq> CHR ''0'' then None
          else if c = CHR ''x'' \<or> c = CHR ''X'' then Some 16
          else if c = CHR ''o'' \<or> c = CHR ''O'' then Some 8
          else if c = CHR ''b'' \<or> c = CHR ''B'' then Some 2
          else None
      | _ \<Rightarrow> None)"

definition js_Number :: "string \<Rightarrow> js_number" where
  "js_Number text =
     (let s = trim text in
      if s = [] then Finite 0
      else case radix_of s of
             Some base \<Rightarrow> (case read_radix base (drop 2 s) of None \<Rightarrow> NaN | Some q \<Rightarrow> Finite q)
           | None \<Rightarrow>
               let (neg, body) = read_sign s in
               if body = ''Infinity'' then Infinite (\<not> neg)
               else (case read_decimal body of None \<Rightarrow> NaN | Some q \<Rightarrow> Finite (if neg then - q else q)))"

text \<open>\<^verbatim>\<open>String(value)\<close> of a value.\<close>

fun js_text :: "json \<Rightarrow> string" where
  "js_text JNull = ''null''"
| "js_text (JBool b) = (if b then ''true'' else ''false'')"
| "js_text (JNum i) = show_int i"
| "js_text (JStr s) = s"
| "js_text (JArr xs) = commas (map (\<lambda>x. if x = JNull then [] else js_text x) xs)"
| "js_text (JObj ms) = ''[object Object]''"

text \<open>\<^verbatim>\<open>Number(value)\<close>.\<close>

definition js_Number_of :: "json \<Rightarrow> js_number" where
  "js_Number_of v =
     (case v of
        JNull \<Rightarrow> Finite 0
      | JBool b \<Rightarrow> Finite (if b then 1 else 0)
      | JNum i \<Rightarrow> Finite (of_int i)
      | _ \<Rightarrow> js_Number (js_text v))"

text \<open>The environment variables, \<^verbatim>\<open>x ?? d\<close>, and \<^verbatim>\<open>x || undefined\<close>.\<close>

type_synonym environment = "string \<Rightarrow> string option"

definition default_to :: "'a option \<Rightarrow> 'a \<Rightarrow> 'a" where
  "default_to x d = (case x of None \<Rightarrow> d | Some y \<Rightarrow> y)"

definition non_empty :: "string option \<Rightarrow> string option" where
  "non_empty x = (if x = Some [] then None else x)"

text \<open>\<^verbatim>\<open>Number(value)\<close> of a setting that may be missing.\<close>

definition js_Number_opt :: "string option \<Rightarrow> js_number" where
  "js_Number_opt v = (case v of None \<Rightarrow> NaN | Some s \<Rightarrow> js_Number s)"

lemma show_nat_inject: "show_nat m = show_nat n \<longleftrightarrow> m = n"
  using read_show_nat by metis

lemma is_digit_not_space: "is_digit c \<Longrightarrow> \<not> is_space c"
  by (auto simp: is_digit_def is_space_def)

lemma trim_id: "s \<noteq> [] \<Longrightarrow> \<not> is_space (hd s) \<Longrightarrow> \<not> is_space (last s) \<Longrightarrow> trim s = s"
proof -
  assume s: "s \<noteq> []" "\<not> is_space (hd s)" "\<not> is_space (last s)"
  have keep: "dropWhile is_space xs = xs" if "xs \<noteq> []" "\<not> is_space (hd xs)" for xs
    using that by (cases xs) auto
  from s show ?thesis by (simp add: trim_def keep hd_rev)
qed

lemma is_digit_simps:
  "\<not> is_digit CHR ''x''" "\<not> is_digit CHR ''X''" "\<not> is_digit CHR ''o''" "\<not> is_digit CHR ''O''"
  "\<not> is_digit CHR ''b''" "\<not> is_digit CHR ''B''" "\<not> is_digit CHR ''-''" "\<not> is_digit CHR ''+''" "\<not> is_digit CHR ''I''"
  by (simp_all add: is_digit_def)

lemma radix_of_digits: "list_all is_digit ds \<Longrightarrow> radix_of ds = None"
  by (auto simp: radix_of_def is_digit_simps split: list.splits)

lemma read_decimal_digits: "ds \<noteq> [] \<Longrightarrow> list_all is_digit ds \<Longrightarrow> read_decimal ds = Some (of_nat (read_nat ds))"
proof -
  assume ds: "ds \<noteq> []" "list_all is_digit ds"
  then have * : "takeWhile is_digit ds = ds" "dropWhile is_digit ds = []" by (auto simp: list_all_iff)
  show ?thesis by (simp add: read_decimal_def read_mantissa_def Let_def * ds)
qed

lemma js_Number_digits:
  assumes "ds \<noteq> []" "list_all is_digit ds"
  shows "js_Number ds = Finite (of_nat (read_nat ds))"
proof -
  have "is_digit (hd ds)" "is_digit (last ds)" using assms by (auto simp: list_all_iff)
  moreover from this have "read_sign ds = (False, ds)" "ds \<noteq> ''Infinity''"
    using assms by (auto simp: read_sign_def is_digit_simps split: list.splits)
  ultimately show ?thesis
    using assms
    by (simp add: js_Number_def trim_id is_digit_not_space radix_of_digits read_decimal_digits)
qed

lemma js_Number_show_nat [simp]: "js_Number (show_nat n) = Finite (of_nat n)"
  using js_Number_digits [of "show_nat n"] show_nat_digits [of n] by (simp add: list_all_iff read_show_nat)

lemma js_Number_show_int: "0 \<le> i \<Longrightarrow> js_Number (show_int i) = Finite (of_int i)"
  by (simp add: show_int_def)

lemma js_Number_samples:
  "js_Number ''  12.5e1 '' = Finite 125" "js_Number ''0x1F'' = Finite 31" "js_Number '''' = Finite 0"
  "js_Number ''3 retries'' = NaN" "js_Number ''-Infinity'' = Infinite False"
  by code_simp+

end
