(* ===== verification/Queue_Messages.thy ===== *)
theory Queue_Messages
  imports Dedupe Js_Numbers "HOL-Library.Multiset"
begin

text \<open>
  What the two broker adapters of \<^verbatim>\<open>services/orchestrator/src/queue\<close> share: the options of
  \<^verbatim>\<open>QueueAdapter.ts\<close>, messages on the wire, headers, the attempt counter and its copy in the
  payload, and the limit on attempts.
\<close>

section \<open>Attempts\<close>

text \<open>The adapters write integers, or \<^verbatim>\<open>NaN\<close> when the header they read is no number.  A fraction
  or an infinity, which only a foreign publisher could write, counts as \<^verbatim>\<open>NaN\<close>.\<close>

datatype attempt_count = Attempt int | NotANumber

definition String_attempt :: "attempt_count \<Rightarrow> string" where
  "String_attempt a = (case a of Attempt i \<Rightarrow> show_int i | NotANumber \<Rightarrow> ''NaN'')"

definition next_attempt :: "attempt_count \<Rightarrow> attempt_count" where
  "next_attempt a = (case a of Attempt i \<Rightarrow> Attempt (i + 1) | NotANumber \<Rightarrow> NotANumber)"

definition attempt_json :: "attempt_count \<Rightarrow> json" where
  "attempt_json a = (case a of Attempt i \<Rightarrow> JNum i | NotANumber \<Rightarrow> JNull)"

definition header_attempts :: "(string, string) jsmap \<Rightarrow> attempt_count" where
  "header_attempts headers =
     (case map_of headers ''x-attempts'' of
        None \<Rightarrow> Attempt 0
      | Some s \<Rightarrow> (case js_Number s of Finite q \<Rightarrow> if q = of_int \<lfloor>q\<rfloor> then Attempt \<lfloor>q\<rfloor> else NotANumber | _ \<Rightarrow> NotANumber))"

lemma header_attempts_shown:
  "map_of headers ''x-attempts'' = Some (String_attempt (Attempt i)) \<Longrightarrow> 0 \<le> i \<Longrightarrow> header_attempts headers = Attempt i"
  by (simp add: header_attempts_def String_attempt_def js_Number_show_int)

text \<open>\<^verbatim>\<open>QUEUE_MAX_ATTEMPTS\<close>, and the test that ends the retries.\<close>

definition maxAttempts :: "string option \<Rightarrow> rat" where
  "maxAttempts env = (case js_Number_opt env of Finite q \<Rightarrow> q | _ \<Rightarrow> 3)"

definition attempts_exhausted :: "string option \<Rightarrow> attempt_count \<Rightarrow> bool" where
  "attempts_exhausted env a = (case a of Attempt i \<Rightarrow> of_int (i + 1) \<ge> maxAttempts env | NotANumber \<Rightarrow> False)"

section \<open>Payloads\<close>

definition spread_object :: "json \<Rightarrow> (string, json) jsmap" where
  "spread_object v =
     (case v of
        JObj ms \<Rightarrow> ms
      | JArr xs \<Rightarrow> map (\<lambda>(i, x). (show_nat i, x)) (enumerate 0 xs)
      | _ \<Rightarrow> [])"

definition is_object :: "json \<Rightarrow> bool" where
  "is_object v = (case v of JObj _ \<Rightarrow> True | JArr _ \<Rightarrow> True | _ \<Rightarrow> False)"

definition preparePayloadForAttempt :: "json \<Rightarrow> attempt_count \<Rightarrow> json" where
  "preparePayloadForAttempt payload attempt =
     (case payload of
        JObj ms \<Rightarrow>
          (case map_of ms ''job'' of
             Some job \<Rightarrow>
               if is_object job
               then JObj (jset ''job'' (JObj (jset ''attempt'' (attempt_json attempt) (spread_object job))) ms)
               else payload
           | None \<Rightarrow> payload)
      | _ \<Rightarrow> payload)"

lemma prepare_again [simp]:
  "preparePayloadForAttempt (preparePayloadForAttempt p a) b = preparePayloadForAttempt p b"
proof (cases p)
  case (JObj ms)
  show ?thesis
  proof (cases "map_of ms ''job''")
    case None
    then show ?thesis by (simp add: preparePayloadForAttempt_def JObj)
  next
    case (Some job)
    show ?thesis
      by (cases "is_object job")
        (simp_all add: preparePayloadForAttempt_def JObj Some jmap_simps is_object_def spread_object_def)
  qed
qed (simp_all add: preparePayloadForAttempt_def)

section \<open>Messages\<close>

definition normaliseHeaders :: "(string, json) jsmap option \<Rightarrow> (string, string) jsmap" where
  "normaliseHeaders headers =
     (case headers of
        None \<Rightarrow> []
      | Some hs \<Rightarrow> fold (\<lambda>(k, v) acc. if v = JNull then acc else jset k (js_text v) acc) hs [])"

record wire_message =
  wm_id :: "string option"
  wm_headers :: "(string, json) jsmap option"
  wm_content :: string

definition text_headers :: "(string, string) jsmap \<Rightarrow> (string, json) jsmap" where
  "text_headers hs = map (\<lambda>(k, v). (k, JStr v)) hs"

lemma normalise_text_headers:
  assumes "jwf hs"
  shows "normaliseHeaders (Some (text_headers hs)) = hs"
proof -
  have "jwf (acc @ hs) \<Longrightarrow>
      fold (\<lambda>(k, v) acc. if v = JNull then acc else jset k (js_text v) acc) (text_headers hs) acc = acc @ hs" for acc
  proof (induction hs arbitrary: acc)
    case (Cons h hs)
    then show ?case by (cases h) (auto simp: text_headers_def jset_new)
  qed (simp add: text_headers_def)
  with assms show ?thesis by (simp add: normaliseHeaders_def)
qed

record EnqueueOptions =
  eo_idempotencyKey :: "string option"
  eo_headers :: "(string, string) jsmap"
  eo_skipDedupe :: bool

definition no_options :: EnqueueOptions where
  "no_options = \<lparr>eo_idempotencyKey = None, eo_headers = [], eo_skipDedupe = False\<rparr>"

text \<open>An idempotency key is used when it is not empty.\<close>

definition usable :: "string option \<Rightarrow> string option" where
  "usable k = (if k = Some [] then None else k)"

definition wire_key :: "wire_message \<Rightarrow> string option" where
  "wire_key m = usable (map_of (normaliseHeaders (wm_headers m)) ''x-idempotency-key'')"

text \<open>The headers that \<^verbatim>\<open>publish\<close> builds.\<close>

definition publish_headers :: "(string, string) jsmap \<Rightarrow> attempt_count \<Rightarrow> string option \<Rightarrow> (string, string) jsmap" where
  "publish_headers overrides attempt key =
     (let hs = jset ''x-attempts'' (String_attempt attempt) overrides
      in case usable key of None \<Rightarrow> hs | Some k \<Rightarrow> jset ''x-idempotency-key'' k hs)"

lemma publish_headers_lookup:
  "map_of (publish_headers hs a key) ''x-attempts'' = Some (String_attempt a)"
  "map_of (publish_headers hs a key) ''x-idempotency-key'' =
     (case usable key of None \<Rightarrow> map_of hs ''x-idempotency-key'' | Some k \<Rightarrow> Some k)"
  by (simp_all add: publish_headers_def Let_def jmap_simps split: option.splits)

lemma publish_headers_wf: "jwf hs \<Longrightarrow> jwf (publish_headers hs a key)"
  by (simp add: publish_headers_def Let_def split: option.splits)

lemma usable_Some: "usable k = Some x \<longleftrightarrow> k = Some x \<and> x \<noteq> []"
  by (auto simp: usable_def)

end
