(* ===== verification/Rabbit_Adapter.thy ===== *)
theory Rabbit_Adapter
  imports Queue_Messages
begin

text \<open>
  \<^verbatim>\<open>queue/RabbitMQAdapter.ts\<close>: connection with exponential back-off, publication with a claim
  on the idempotency key, and the handling of a delivered message up to its acknowledgement, retry
  or dead letter.  The broker is outside the repository: its commands are the record \<open>amqp_ops\<close>
  and what its documentation promises is the locale \<open>amqp_broker\<close> of the properties.  A delayed
  publication takes effect when its timer has fired; the argument of an operation says whether
  \<^verbatim>\<open>ensureChannel\<close> returned a channel.  A handler settles a message once.
\<close>

section \<open>Settings\<close>

record RabbitMQAdapterOptions =
  rx_prefetch :: "js_number option"
  rx_retryDelayMs :: "js_number option"
  rx_reconnectBaseDelayMs :: "int option"
  rx_dedupeService :: bool
  rx_dedupeTtlMs :: "rat option"

record RabbitMQSettings =
  rs_prefetch :: js_number
  rs_retryDelayMs :: js_number
  rs_reconnectBaseDelayMs :: int
  rs_ownsDedupe :: bool
  rs_dedupeTtlMs :: rat

definition rabbit_settings :: "environment \<Rightarrow> RabbitMQAdapterOptions \<Rightarrow> RabbitMQSettings" where
  "rabbit_settings env options =
     \<lparr>rs_prefetch = default_to (rx_prefetch options)
        (case env ''RABBITMQ_PREFETCH'' of None \<Rightarrow> Finite 8 | Some v \<Rightarrow> js_Number v),
      rs_retryDelayMs = default_to (rx_retryDelayMs options)
        (case env ''RABBITMQ_RETRY_DELAY_MS'' of None \<Rightarrow> Finite 1000 | Some v \<Rightarrow> js_Number v),
      rs_reconnectBaseDelayMs = default_to (rx_reconnectBaseDelayMs options) 1000,
      rs_ownsDedupe = (\<not> rx_dedupeService options),
      rs_dedupeTtlMs = default_to (rx_dedupeTtlMs options) 300000\<rparr>"

section \<open>Connection\<close>

definition DEFAULT_RECONNECT_BASE_MS :: int where
  "DEFAULT_RECONNECT_BASE_MS = 1000"

definition MAX_RECONNECT_MS :: int where
  "MAX_RECONNECT_MS = 30000"

text \<open>\<open>cn_consumers\<close> are the registered queues, \<open>cn_active\<close> those that consume on the current
  channel.\<close>

record rabbit_connection =
  cn_connection :: bool
  cn_channel :: bool
  cn_consumers :: "string list"
  cn_active :: "string list"
  cn_reconnectTimer :: bool
  cn_shouldReconnect :: bool

definition new_connection :: rabbit_connection where
  "new_connection =
     \<lparr>cn_connection = False, cn_channel = False, cn_consumers = [], cn_active = [], cn_reconnectTimer = False,
      cn_shouldReconnect = True\<rparr>"

text \<open>How one attempt to connect ends.\<close>

datatype connect_answer =
    Refused
  | NoChannel
  | NoPrefetch
  | ConsumersFailAt nat
  | AllUp

definition reconnect_delay :: "int \<Rightarrow> nat \<Rightarrow> int" where
  "reconnect_delay base attempt = min (base * 2 ^ (attempt - 1)) MAX_RECONNECT_MS"

text \<open>The loop, given the answers of the broker: the delays it sleeps, and whether it returned.\<close>

fun establishConnection ::
  "int \<Rightarrow> nat \<Rightarrow> connect_answer list \<Rightarrow> rabbit_connection \<Rightarrow> rabbit_connection \<times> int list \<times> bool" where
  "establishConnection base attempt [] cn = (cn, [], \<not> (cn_shouldReconnect cn \<and> \<not> cn_connection cn))"
| "establishConnection base attempt (a # as) cn =
     (if \<not> (cn_shouldReconnect cn \<and> \<not> cn_connection cn) then (cn, [], True)
      else
        let again = (\<lambda>cn. case establishConnection base (Suc attempt) as cn of
                            (cn', ds, r) \<Rightarrow> (cn', reconnect_delay base (Suc attempt) # ds, r))
        in case a of
             Refused \<Rightarrow> again cn
           | NoChannel \<Rightarrow> again (cn\<lparr>cn_connection := True\<rparr>)
           | NoPrefetch \<Rightarrow> again (cn\<lparr>cn_connection := True, cn_channel := True\<rparr>)
           | ConsumersFailAt n \<Rightarrow>
               again (cn\<lparr>cn_connection := True, cn_channel := True, cn_active := take n (cn_consumers cn)\<rparr>)
           | AllUp \<Rightarrow>
               (cn\<lparr>cn_connection := True, cn_channel := True, cn_active := cn_consumers cn\<rparr>, [], True))"

definition connect :: "int \<Rightarrow> connect_answer list \<Rightarrow> rabbit_connection \<Rightarrow> rabbit_connection \<times> int list \<times> bool" where
  "connect base answers cn =
     (let cn = cn\<lparr>cn_shouldReconnect := True\<rparr> in
      if cn_connection cn then (cn, [], True) else establishConnection base 0 answers cn)"

definition ensureChannel :: "int \<Rightarrow> connect_answer list \<Rightarrow> rabbit_connection \<Rightarrow> rabbit_connection \<times> bool" where
  "ensureChannel base answers cn =
     (if \<not> cn_channel cn \<or> \<not> cn_connection cn
      then (case connect base answers cn of (cn', ds, returned) \<Rightarrow> (cn', returned \<and> cn_channel cn'))
      else (cn, True))"

definition handleDisconnect :: "rabbit_connection \<Rightarrow> rabbit_connection" where
  "handleDisconnect cn =
     (if \<not> cn_shouldReconnect cn then cn
      else cn\<lparr>cn_connection := False, cn_channel := False, cn_active := [], cn_reconnectTimer := True\<rparr>)"

definition reconnect_fires :: "int \<Rightarrow> connect_answer list \<Rightarrow> rabbit_connection \<Rightarrow> rabbit_connection" where
  "reconnect_fires base answers cn =
     (if cn_reconnectTimer cn then fst (connect base answers (cn\<lparr>cn_reconnectTimer := False\<rparr>)) else cn)"

definition close_connection :: "rabbit_connection \<Rightarrow> rabbit_connection" where
  "close_connection cn =
     cn\<lparr>cn_shouldReconnect := False, cn_reconnectTimer := False, cn_channel := False, cn_connection := False, cn_active := []\<rparr>"

definition consume :: "int \<Rightarrow> connect_answer list \<Rightarrow> string \<Rightarrow> bool \<Rightarrow> rabbit_connection \<Rightarrow> rabbit_connection" where
  "consume base answers queue asserted cn =
     (let cn = cn\<lparr>cn_consumers := (if queue \<in> set (cn_consumers cn) then cn_consumers cn else cn_consumers cn @ [queue])\<rparr>;
          (cn, up) = ensureChannel base answers cn
      in if up \<and> asserted then cn\<lparr>cn_active := cn_active cn @ [queue]\<rparr> else cn)"

section \<open>Publication\<close>

record 'b amqp_ops =
  aq_assertQueue :: "string \<Rightarrow> 'b \<Rightarrow> 'b option"
  aq_sendToQueue :: "string \<Rightarrow> wire_message \<Rightarrow> 'b \<Rightarrow> 'b option"
  aq_deliver :: "string \<Rightarrow> 'b \<Rightarrow> ('b \<times> nat \<times> wire_message) option"
  aq_ack :: "nat \<Rightarrow> 'b \<Rightarrow> 'b"
  aq_nack :: "nat \<Rightarrow> 'b \<Rightarrow> 'b"

record PublishOptions = EnqueueOptions +
  po_attempt :: "attempt_count option"

datatype publish_error = ChannelUnavailable | AssertRejected | SendThrew

record call_env =
  ce_now :: time
  ce_uuid :: string
  ce_up :: bool

definition rabbit_message :: "string \<Rightarrow> json \<Rightarrow> PublishOptions \<Rightarrow> wire_message" where
  "rabbit_message uuid payload options =
     (let attempt = (case po_attempt options of None \<Rightarrow> Attempt 0 | Some a \<Rightarrow> a)
      in \<lparr>wm_id = Some (case eo_idempotencyKey options of None \<Rightarrow> uuid | Some k \<Rightarrow> k),
          wm_headers = Some (text_headers (publish_headers (eo_headers options) attempt (eo_idempotencyKey options))),
          wm_content = JSON_stringify (preparePayloadForAttempt payload attempt)\<rparr>)"

definition rabbit_publish ::
  "'b amqp_ops \<Rightarrow> 'd dedupe_ops \<Rightarrow> rat \<Rightarrow> call_env \<Rightarrow> string \<Rightarrow> json \<Rightarrow> PublishOptions \<Rightarrow> 'b \<times> 'd \<Rightarrow>
     ('b \<times> 'd) \<times> (publish_error + unit)" where
  "rabbit_publish ops dops ttl env queue payload options = (\<lambda>(b, d).
     if \<not> ce_up env then ((b, d), Inl ChannelUnavailable)
     else case aq_assertQueue ops queue b of
       None \<Rightarrow> ((b, d), Inl AssertRejected)
     | Some b \<Rightarrow>
         let key = usable (eo_idempotencyKey options);
             claims = key \<noteq> None \<and> \<not> eo_skipDedupe options;
             (d, claimed) = (if claims then do_claim dops (ce_now env) (the key) ttl d else (d, True))
         in if \<not> claimed then ((b, d), Inr ())
            else case aq_sendToQueue ops queue (rabbit_message (ce_uuid env) payload options) b of
                   None \<Rightarrow> ((b, if claims then do_release dops (ce_now env) (the key) d else d), Inl SendThrew)
                 | Some b \<Rightarrow> ((b, d), Inr ()))"

section \<open>Consumption\<close>

record QueueMessage =
  qm_id :: string
  qm_queue :: string
  qm_payload :: json
  qm_headers :: "(string, string) jsmap"
  qm_attempts :: attempt_count

text \<open>The broker, the deduplication service, and the messages the handlers have in hand.\<close>

record ('b, 'd) rabbit =
  rb_broker :: 'b
  rb_dedupe :: 'd
  rb_hand :: "(nat, QueueMessage) jsmap"

definition enqueue ::
  "'b amqp_ops \<Rightarrow> 'd dedupe_ops \<Rightarrow> rat \<Rightarrow> call_env \<Rightarrow> string \<Rightarrow> json \<Rightarrow> EnqueueOptions \<Rightarrow> ('b, 'd) rabbit \<Rightarrow>
     ('b, 'd) rabbit \<times> (publish_error + unit)" where
  "enqueue ops dops ttl env queue payload options w =
     (case rabbit_publish ops dops ttl env queue payload (EnqueueOptions.extend options (PublishOptions.fields (Some (Attempt 0))))
             (rb_broker w, rb_dedupe w) of
        ((b, d), r) \<Rightarrow> (w\<lparr>rb_broker := b, rb_dedupe := d\<rparr>, r))"

definition qm_key :: "QueueMessage \<Rightarrow> string option" where
  "qm_key m = map_of (qm_headers m) ''x-idempotency-key''"

definition releaseKey :: "'d dedupe_ops \<Rightarrow> time \<Rightarrow> string option \<Rightarrow> 'd \<Rightarrow> 'd" where
  "releaseKey dops now key d = (case usable key of None \<Rightarrow> d | Some k \<Rightarrow> do_release dops now k d)"

definition rabbit_ack ::
  "'b amqp_ops \<Rightarrow> 'd dedupe_ops \<Rightarrow> time \<Rightarrow> nat \<Rightarrow> string option \<Rightarrow> ('b, 'd) rabbit \<Rightarrow> ('b, 'd) rabbit" where
  "rabbit_ack ops dops now tag key w =
     w\<lparr>rb_broker := aq_ack ops tag (rb_broker w), rb_dedupe := releaseKey dops now key (rb_dedupe w),
       rb_hand := jdelete tag (rb_hand w)\<rparr>"

definition rabbit_nack :: "'b amqp_ops \<Rightarrow> nat \<Rightarrow> ('b, 'd) rabbit \<Rightarrow> ('b, 'd) rabbit" where
  "rabbit_nack ops tag w = w\<lparr>rb_broker := aq_nack ops tag (rb_broker w), rb_hand := jdelete tag (rb_hand w)\<rparr>"

definition rabbit_retry ::
  "'b amqp_ops \<Rightarrow> 'd dedupe_ops \<Rightarrow> rat \<Rightarrow> call_env \<Rightarrow> nat \<Rightarrow> QueueMessage \<Rightarrow> ('b, 'd) rabbit \<Rightarrow> ('b, 'd) rabbit" where
  "rabbit_retry ops dops ttl env tag m w =
     (let nextAttempt = next_attempt (qm_attempts m);
          options = \<lparr>eo_idempotencyKey = qm_key m, eo_headers = qm_headers m, eo_skipDedupe = True, po_attempt = Some nextAttempt\<rparr>
      in case rabbit_publish ops dops ttl env (qm_queue m) (preparePayloadForAttempt (qm_payload m) nextAttempt) options
                (rb_broker w, rb_dedupe w) of
           ((b, d), Inr _) \<Rightarrow>
             w\<lparr>rb_broker := aq_ack ops tag b, rb_dedupe := d, rb_hand := jdelete tag (rb_hand w)\<rparr>
         | ((b, d), Inl _) \<Rightarrow> rabbit_nack ops tag (w\<lparr>rb_broker := b, rb_dedupe := d\<rparr>))"

definition dead_queue :: "string option \<Rightarrow> string \<Rightarrow> string" where
  "dead_queue target queue = (case target of None \<Rightarrow> queue @ ''.dead'' | Some t \<Rightarrow> t)"

definition rabbit_deadLetter ::
  "'b amqp_ops \<Rightarrow> 'd dedupe_ops \<Rightarrow> rat \<Rightarrow> call_env \<Rightarrow> nat \<Rightarrow> QueueMessage \<Rightarrow> string option \<Rightarrow> string option \<Rightarrow>
     ('b, 'd) rabbit \<Rightarrow> ('b, 'd) rabbit" where
  "rabbit_deadLetter ops dops ttl env tag m reason target w =
     (let reason = (case reason of None \<Rightarrow> ''unspecified'' | Some r \<Rightarrow> r);
          options = \<lparr>eo_idempotencyKey = None, eo_headers = jset ''x-dead-letter-reason'' reason (qm_headers m),
                     eo_skipDedupe = True, po_attempt = None\<rparr>
      in case rabbit_publish ops dops ttl env (dead_queue target (qm_queue m))
                (preparePayloadForAttempt (qm_payload m) (qm_attempts m)) options (rb_broker w, rb_dedupe w) of
           ((b, d), Inr _) \<Rightarrow> rabbit_ack ops dops (ce_now env) tag (qm_key m) (w\<lparr>rb_broker := b, rb_dedupe := d\<rparr>)
         | ((b, d), Inl _) \<Rightarrow> rabbit_nack ops tag (w\<lparr>rb_broker := b, rb_dedupe := d\<rparr>))"

text \<open>What happens when the handler throws.\<close>

definition handler_failed ::
  "'b amqp_ops \<Rightarrow> 'd dedupe_ops \<Rightarrow> rat \<Rightarrow> string option \<Rightarrow> call_env \<Rightarrow> nat \<Rightarrow> QueueMessage \<Rightarrow> ('b, 'd) rabbit \<Rightarrow>
     ('b, 'd) rabbit" where
  "handler_failed ops dops ttl limit env tag m w =
     (if attempts_exhausted limit (qm_attempts m)
      then rabbit_deadLetter ops dops ttl env tag m (Some ''max_attempts_exceeded'') None w
      else rabbit_retry ops dops ttl env tag m w)"

definition first_usable :: "string option \<Rightarrow> string option \<Rightarrow> string \<Rightarrow> string" where
  "first_usable a b c = (case usable a of Some x \<Rightarrow> x | None \<Rightarrow> (case usable b of Some x \<Rightarrow> x | None \<Rightarrow> c))"

text \<open>The handling of a delivery up to the call of the handler.\<close>

definition handleMessage ::
  "'b amqp_ops \<Rightarrow> 'd dedupe_ops \<Rightarrow> call_env \<Rightarrow> string \<Rightarrow> nat \<Rightarrow> wire_message \<Rightarrow> ('b, 'd) rabbit \<Rightarrow> ('b, 'd) rabbit" where
  "handleMessage ops dops env queue tag msg w =
     (if \<not> ce_up env then w
      else
        let headers = normaliseHeaders (wm_headers msg);
            key = map_of headers ''x-idempotency-key''
        in case JSON_parse (wm_content msg) of
             None \<Rightarrow> rabbit_ack ops dops (ce_now env) tag key w
           | Some payload \<Rightarrow>
               let attempts = header_attempts headers
               in w\<lparr>rb_hand := jset tag
                     \<lparr>qm_id = first_usable (wm_id msg) key (ce_uuid env), qm_queue = queue,
                      qm_payload = preparePayloadForAttempt payload attempts, qm_headers = headers, qm_attempts = attempts\<rparr>
                     (rb_hand w)\<rparr>)"

section \<open>Runs\<close>

datatype rabbit_event =
    REnqueue string json EnqueueOptions
  | RDeliver string
  | RAck nat
  | RRetry nat
  | RDeadLetter nat "string option" "string option"
  | RHandlerFails nat

definition in_hand :: "nat \<Rightarrow> (QueueMessage \<Rightarrow> ('b, 'd) rabbit \<Rightarrow> ('b, 'd) rabbit) \<Rightarrow> ('b, 'd) rabbit \<Rightarrow> ('b, 'd) rabbit" where
  "in_hand tag f w = (case map_of (rb_hand w) tag of None \<Rightarrow> w | Some m \<Rightarrow> f m w)"

record rabbit_config =
  rc_dedupeTtlMs :: rat
  rc_maxAttempts :: "string option"

fun rabbit_step ::
  "'b amqp_ops \<Rightarrow> 'd dedupe_ops \<Rightarrow> rabbit_config \<Rightarrow> call_env \<Rightarrow> rabbit_event \<Rightarrow> ('b, 'd) rabbit \<Rightarrow> ('b, 'd) rabbit" where
  "rabbit_step ops dops cfg env (REnqueue queue payload options) w =
     fst (enqueue ops dops (rc_dedupeTtlMs cfg) env queue payload options w)"
| "rabbit_step ops dops cfg env (RDeliver queue) w =
     (case aq_deliver ops queue (rb_broker w) of
        None \<Rightarrow> w
      | Some (b, tag, msg) \<Rightarrow> handleMessage ops dops env queue tag msg (w\<lparr>rb_broker := b\<rparr>))"
| "rabbit_step ops dops cfg env (RAck tag) w =
     in_hand tag (\<lambda>m. rabbit_ack ops dops (ce_now env) tag (qm_key m)) w"
| "rabbit_step ops dops cfg env (RRetry tag) w =
     in_hand tag (rabbit_retry ops dops (rc_dedupeTtlMs cfg) env tag) w"
| "rabbit_step ops dops cfg env (RDeadLetter tag reason target) w =
     in_hand tag (\<lambda>m. rabbit_deadLetter ops dops (rc_dedupeTtlMs cfg) env tag m reason target) w"
| "rabbit_step ops dops cfg env (RHandlerFails tag) w =
     in_hand tag (handler_failed ops dops (rc_dedupeTtlMs cfg) (rc_maxAttempts cfg) env tag) w"

fun rabbit_run ::
  "'b amqp_ops \<Rightarrow> 'd dedupe_ops \<Rightarrow> rabbit_config \<Rightarrow> (call_env \<times> rabbit_event) list \<Rightarrow> ('b, 'd) rabbit \<Rightarrow> ('b, 'd) rabbit" where
  "rabbit_run ops dops cfg [] w = w"
| "rabbit_run ops dops cfg ((env, e) # es) w = rabbit_run ops dops cfg es (rabbit_step ops dops cfg env e w)"

definition new_rabbit :: "'b \<Rightarrow> 'd \<Rightarrow> ('b, 'd) rabbit" where
  "new_rabbit b d = \<lparr>rb_broker = b, rb_dedupe = d, rb_hand = []\<rparr>"

end
