(* ===== verification/Rabbit_Properties.thy ===== *)
theory Rabbit_Properties
  imports Rabbit_Adapter
begin

text \<open>
  What the RabbitMQ adapter guarantees over a broker and a deduplication service that keep their
  documented promises: one copy of every keyed message in flight, messages that keep failing end in
  the dead-letter queue after the configured number of deliveries, and reconnection.
\<close>

section \<open>The broker\<close>

text \<open>\<open>ready\<close> are the stored messages with their queues, \<open>unacked\<close> those delivered and not yet
  settled, by delivery tag.\<close>

definition held :: "('a \<Rightarrow> bool) \<Rightarrow> (nat \<Rightarrow> 'a option) \<Rightarrow> nat set" where
  "held P u = {t. \<exists>x. u t = Some x \<and> P x}"

lemma card_held:
  assumes "finite (dom u)" "u tag = Some x"
  shows "card (held P u) = card (held P (u(tag := None))) + (if P x then 1 else 0)"
proof -
  have fin: "finite (held P u)" by (rule finite_subset [OF _ assms(1)]) (auto simp: held_def)
  have eq: "held P (u(tag := None)) = held P u - {tag}" by (auto simp: held_def split: if_splits)
  show ?thesis
  proof (cases "P x")
    case True
    then have "tag \<in> held P u" using assms(2) by (auto simp: held_def)
    with fin eq True show ?thesis using card_Suc_Diff1 [of "held P u" tag] by simp
  next
    case False
    then have "tag \<notin> held P u" using assms(2) by (auto simp: held_def)
    with eq False show ?thesis by simp
  qed
qed

locale amqp_broker =
  fixes ops :: "'b amqp_ops"
    and ready :: "'b \<Rightarrow> (string \<times> wire_message) multiset"
    and unacked :: "'b \<Rightarrow> nat \<Rightarrow> (string \<times> wire_message) option"
  assumes assert_stored: "aq_assertQueue ops q b = Some b' \<Longrightarrow> ready b' = ready b \<and> unacked b' = unacked b"
    and send_stored: "aq_sendToQueue ops q m b = Some b' \<Longrightarrow> ready b' = add_mset (q, m) (ready b) \<and> unacked b' = unacked b"
    and deliver_some: "aq_deliver ops q b = Some (b', tag, m) \<Longrightarrow>
      ready b = add_mset (q, m) (ready b') \<and> unacked b tag = None \<and> unacked b' = (unacked b)(tag \<mapsto> (q, m))"
    and deliver_none: "aq_deliver ops q b = None \<Longrightarrow> (q, m) \<notin># ready b"
    and ack_settles: "unacked b tag = Some x \<Longrightarrow>
      ready (aq_ack ops tag b) = ready b \<and> unacked (aq_ack ops tag b) = (unacked b)(tag := None)"
    and nack_requeues: "unacked b tag = Some x \<Longrightarrow>
      ready (aq_nack ops tag b) = add_mset x (ready b) \<and> unacked (aq_nack ops tag b) = (unacked b)(tag := None)"
    and finite_unacked: "finite (dom (unacked b))"
begin

definition copies :: "(string \<times> wire_message \<Rightarrow> bool) \<Rightarrow> 'b \<Rightarrow> nat" where
  "copies P b = size (filter_mset P (ready b)) + card (held P (unacked b))"

lemma copies_cong: "ready b' = ready b \<Longrightarrow> unacked b' = unacked b \<Longrightarrow> copies P b' = copies P b"
  by (simp add: copies_def)

lemma copies_add: "ready b' = add_mset x (ready b) \<Longrightarrow> unacked b' = unacked b \<Longrightarrow>
    copies P b' = copies P b + (if P x then 1 else 0)"
  by (simp add: copies_def)

lemma copies_ack: "unacked b tag = Some x \<Longrightarrow> copies P b = copies P (aq_ack ops tag b) + (if P x then 1 else 0)"
  using card_held [OF finite_unacked, of b tag x P] ack_settles [of b tag x] by (simp add: copies_def)

lemma copies_nack: "unacked b tag = Some x \<Longrightarrow> copies P (aq_nack ops tag b) = copies P b"
  using card_held [OF finite_unacked, of b tag x P] nack_requeues [of b tag x] by (simp add: copies_def)

lemma copies_deliver:
  assumes "aq_deliver ops q b = Some (b', tag, m)"
  shows "copies P b' = copies P b"
proof -
  note d = deliver_some [OF assms]
  then have "(unacked b')(tag := None) = unacked b" by (auto simp: fun_eq_iff)
  moreover have "unacked b' tag = Some (q, m)" using d by simp
  moreover have "ready b = add_mset (q, m) (ready b')" using d by simp
  ultimately show ?thesis using card_held [OF finite_unacked, of b' tag "(q, m)" P] by (simp add: copies_def)
qed

text \<open>A publication that makes no claim stores the message or leaves everything as it was.\<close>

lemma publish_unclaimed:
  assumes "rabbit_publish ops dops ttl env q payload options (b, d) = ((b', d'), r)"
    and "eo_skipDedupe options \<or> usable (eo_idempotencyKey options) = None"
  shows "d' = d \<and> unacked b' = unacked b \<and>
    ready b' = (case r of Inr _ \<Rightarrow> add_mset (q, rabbit_message (ce_uuid env) payload options) (ready b) | Inl _ \<Rightarrow> ready b)"
proof (cases "ce_up env")
  case True
  show ?thesis
  proof (cases "aq_assertQueue ops q b")
    case None
    with assms True show ?thesis by (auto simp: rabbit_publish_def)
  next
    case (Some b1)
    note a = assert_stored [OF Some]
    show ?thesis
    proof (cases "aq_sendToQueue ops q (rabbit_message (ce_uuid env) payload options) b1")
      case None
      with assms True Some a show ?thesis by (auto simp: rabbit_publish_def)
    next
      case (Some b2)
      with assms True \<open>aq_assertQueue ops q b = Some b1\<close> a send_stored [OF Some] show ?thesis
        by (auto simp: rabbit_publish_def)
    qed
  qed
qed (use assms in \<open>auto simp: rabbit_publish_def\<close>)

end

lemma wire_key_rabbit_message:
  assumes "jwf (eo_headers options)"
  shows "wire_key (rabbit_message uuid payload options) =
    (case usable (eo_idempotencyKey options) of
       None \<Rightarrow> usable (map_of (eo_headers options) ''x-idempotency-key'')
     | Some k \<Rightarrow> Some k)"
  using assms
  by (auto simp: rabbit_message_def wire_key_def Let_def normalise_text_headers publish_headers_wf
      publish_headers_lookup usable_def split: option.splits)

lemma normaliseHeaders_wf [simp]: "jwf (normaliseHeaders hs)"
proof -
  have "jwf acc \<Longrightarrow> jwf (fold (\<lambda>(k, v) acc. if v = JNull then acc else jset k (js_text v) acc) ms acc)"
    for ms :: "(string \<times> json) list" and acc
    by (induction ms arbitrary: acc) auto
  from this [of "[]"] show ?thesis by (simp add: normaliseHeaders_def split: option.splits)
qed

section \<open>One copy in flight\<close>

text \<open>A publisher that uses the claim.\<close>

definition enqueue_ok :: "EnqueueOptions \<Rightarrow> bool" where
  "enqueue_ok options \<longleftrightarrow>
     jwf (eo_headers options) \<and> \<not> jhas (eo_headers options) ''x-idempotency-key'' \<and> \<not> eo_skipDedupe options"

locale rabbit_service =
  amqp_broker ops ready unacked + dedupe: dedupe_service dops claimed ok
  for ops :: "'b amqp_ops" and ready unacked and dops :: "'d dedupe_ops" and claimed ok
begin

definition keyed_copy :: "string list \<Rightarrow> string \<Rightarrow> string \<times> wire_message \<Rightarrow> bool" where
  "keyed_copy work k = (\<lambda>(q, m). q \<in> set work \<and> wire_key m = Some k)"

definition hand_ok :: "string list \<Rightarrow> ('b, 'd) rabbit \<Rightarrow> bool" where
  "hand_ok work w \<longleftrightarrow>
     (\<forall>tag m. map_of (rb_hand w) tag = Some m \<longrightarrow>
        qm_queue m \<in> set work \<and>
        (\<exists>msg. unacked (rb_broker w) tag = Some (qm_queue m, msg) \<and> qm_headers m = normaliseHeaders (wm_headers msg)))"

definition rabbit_inv :: "time \<Rightarrow> string list \<Rightarrow> time \<Rightarrow> ('b, 'd) rabbit \<Rightarrow> bool" where
  "rabbit_inv horizon work now w \<longleftrightarrow>
     ok (rb_dedupe w) \<and> hand_ok work w \<and>
     (\<forall>k. copies (keyed_copy work k) (rb_broker w) \<le> 1 \<and>
        (copies (keyed_copy work k) (rb_broker w) = 1 \<longrightarrow> (\<forall>t. now \<le> t \<and> t < horizon \<longrightarrow> claimed (rb_dedupe w) t k)))"

lemma rabbit_inv_later: "rabbit_inv H work now w \<Longrightarrow> now \<le> now' \<Longrightarrow> rabbit_inv H work now' w"
  by (auto simp: rabbit_inv_def)

text \<open>A step that adds no copy and releases no key of a copy keeps the invariant.\<close>

lemma rabbit_inv_step:
  assumes inv: "rabbit_inv H work now w" and ok: "ok (rb_dedupe w')" and hand: "hand_ok work w'"
    and copies: "\<And>k. copies (keyed_copy work k) (rb_broker w') \<le> copies (keyed_copy work k) (rb_broker w)"
    and claims: "\<And>k t. copies (keyed_copy work k) (rb_broker w') = 1 \<Longrightarrow> now \<le> t \<Longrightarrow>
      claimed (rb_dedupe w) t k \<Longrightarrow> claimed (rb_dedupe w') t k"
  shows "rabbit_inv H work now w'"
proof -
  have "copies (keyed_copy work k) (rb_broker w') \<le> 1 \<and>
      (copies (keyed_copy work k) (rb_broker w') = 1 \<longrightarrow> (\<forall>t. now \<le> t \<and> t < H \<longrightarrow> claimed (rb_dedupe w') t k))" for k
    using inv copies [of k] claims [of k] unfolding rabbit_inv_def by (metis le_antisym order_trans)
  with ok hand show ?thesis by (simp add: rabbit_inv_def)
qed

lemma hand_settle:
  assumes "hand_ok work w" "unacked b' = (unacked (rb_broker w))(tag := None)"
  shows "hand_ok work (w\<lparr>rb_broker := b', rb_dedupe := d', rb_hand := jdelete tag (rb_hand w)\<rparr>)"
  using assms by (auto simp: hand_ok_def jmap_simps split: if_splits)

lemma releaseKey_effect:
  assumes "ok d" "now \<le> t"
  shows "ok (releaseKey dops now key d)"
    and "claimed (releaseKey dops now key d) t k = (usable key \<noteq> Some k \<and> claimed d t k)"
  using assms dedupe.release_effect [OF assms(1) refl assms(2)]
  by (auto simp: releaseKey_def split: option.splits)

lemma ack_inv:
  assumes inv: "rabbit_inv H work now w" and x: "unacked (rb_broker w) tag = Some (q, msg)" and q: "q \<in> set work"
    and key: "usable key = wire_key msg"
  shows "rabbit_inv H work now (rabbit_ack ops dops now tag key w)"
proof (rule rabbit_inv_step [OF inv])
  have ok: "ok (rb_dedupe w)" and hand: "hand_ok work w" using inv by (auto simp: rabbit_inv_def)
  show "ok (rb_dedupe (rabbit_ack ops dops now tag key w))"
    using releaseKey_effect(1) [OF ok order_refl] by (simp add: rabbit_ack_def)
  show "hand_ok work (rabbit_ack ops dops now tag key w)"
    using hand_settle [OF hand] ack_settles [OF x] by (simp add: rabbit_ack_def)
  fix k
  note c = copies_ack [OF x, of "keyed_copy work k"]
  show "copies (keyed_copy work k) (rb_broker (rabbit_ack ops dops now tag key w)) \<le> copies (keyed_copy work k) (rb_broker w)"
    using c by (simp add: rabbit_ack_def)
  fix t
  assume one: "copies (keyed_copy work k) (rb_broker (rabbit_ack ops dops now tag key w)) = 1" and t: "now \<le> t"
    and cl: "claimed (rb_dedupe w) t k"
  have "\<not> keyed_copy work k (q, msg)"
    using one c inv by (auto simp: rabbit_ack_def rabbit_inv_def split: if_splits) (metis Suc_n_not_le_n One_nat_def)
  then have "wire_key msg \<noteq> Some k" using q by (simp add: keyed_copy_def)
  with key cl releaseKey_effect(2) [OF ok t] show "claimed (rb_dedupe (rabbit_ack ops dops now tag key w)) t k"
    by (simp add: rabbit_ack_def)
qed

lemma nack_inv:
  assumes inv: "rabbit_inv H work now w" and x: "unacked (rb_broker w) tag = Some x"
  shows "rabbit_inv H work now (rabbit_nack ops tag w)"
proof (rule rabbit_inv_step [OF inv])
  have hand: "hand_ok work w" using inv by (auto simp: rabbit_inv_def)
  show "hand_ok work (rabbit_nack ops tag w)"
    using hand_settle [OF hand, of "aq_nack ops tag (rb_broker w)" tag "rb_dedupe w"] nack_requeues [OF x]
    by (simp add: rabbit_nack_def)
qed (use inv copies_nack [OF x] in \<open>auto simp: rabbit_nack_def rabbit_inv_def\<close>)


text \<open>A delivery in hand, and the key of its message.\<close>

lemma in_handD:
  assumes "rabbit_inv H work now w" "map_of (rb_hand w) tag = Some m"
  obtains msg where "unacked (rb_broker w) tag = Some (qm_queue m, msg)" "qm_queue m \<in> set work"
    "qm_headers m = normaliseHeaders (wm_headers msg)" "usable (qm_key m) = wire_key msg"
proof -
  have "qm_queue m \<in> set work" and "\<exists>msg. unacked (rb_broker w) tag = Some (qm_queue m, msg) \<and>
      qm_headers m = normaliseHeaders (wm_headers msg)"
    using assms unfolding rabbit_inv_def hand_ok_def by blast+
  with that show ?thesis by (auto simp: qm_key_def wire_key_def)
qed

lemma retry_inv:
  assumes inv: "rabbit_inv H work now w" and m: "map_of (rb_hand w) tag = Some m"
  shows "rabbit_inv H work now (rabbit_retry ops dops ttl env tag m w)"
proof -
  obtain msg where msg: "unacked (rb_broker w) tag = Some (qm_queue m, msg)" "qm_queue m \<in> set work"
    "qm_headers m = normaliseHeaders (wm_headers msg)" "usable (qm_key m) = wire_key msg"
    using in_handD [OF inv m] .
  define a where "a = next_attempt (qm_attempts m)"
  define options where
    "options = \<lparr>eo_idempotencyKey = qm_key m, eo_headers = qm_headers m, eo_skipDedupe = True, po_attempt = Some a\<rparr>"
  define payload where "payload = preparePayloadForAttempt (qm_payload m) a"
  obtain b d r where p: "rabbit_publish ops dops ttl env (qm_queue m) payload options (rb_broker w, rb_dedupe w) = ((b, d), r)"
    by (metis surj_pair)
  note eff = publish_unclaimed [OF p]
  have d: "d = rb_dedupe w" and un: "unacked b = unacked (rb_broker w)"
    using eff by (simp_all add: options_def)
  show ?thesis
  proof (cases r)
    case (Inl e)
    then have res: "rabbit_retry ops dops ttl env tag m w = rabbit_nack ops tag (w\<lparr>rb_broker := b, rb_dedupe := d\<rparr>)"
      using p by (simp add: rabbit_retry_def Let_def a_def options_def payload_def)
    have "rabbit_inv H work now (w\<lparr>rb_broker := b, rb_dedupe := d\<rparr>)"
      using inv eff Inl copies_cong [of b "rb_broker w"]
      by (auto simp: rabbit_inv_def hand_ok_def options_def d un)
    with nack_inv res un msg(1) show ?thesis by simp
  next
    case (Inr u)
    let ?w = "w\<lparr>rb_broker := aq_ack ops tag b, rb_dedupe := d, rb_hand := jdelete tag (rb_hand w)\<rparr>"
    have res: "rabbit_retry ops dops ttl env tag m w = ?w"
      using p Inr by (simp add: rabbit_retry_def Let_def a_def options_def payload_def)
    have "wire_key (rabbit_message (ce_uuid env) payload options) = wire_key msg"
      using msg(3,4) by (simp add: wire_key_rabbit_message options_def qm_key_def split: option.splits)
    then have "copies (keyed_copy work k) (aq_ack ops tag b) = copies (keyed_copy work k) (rb_broker w)" for k
      using copies_add [of b _ "rb_broker w" "keyed_copy work k"] copies_ack [of b tag _ "keyed_copy work k"] eff Inr un msg(1)
      by (auto simp: options_def keyed_copy_def split: if_splits)
    moreover have "hand_ok work ?w"
      using inv hand_settle [of work w "aq_ack ops tag b" tag d] ack_settles [of b tag] un msg(1)
      by (simp add: rabbit_inv_def)
    ultimately show ?thesis using inv res d by (auto simp: rabbit_inv_def)
  qed
qed

lemma deadLetter_inv:
  assumes inv: "rabbit_inv H work (ce_now env) w" and m: "map_of (rb_hand w) tag = Some m"
    and dead: "dead_queue target (qm_queue m) \<notin> set work"
  shows "rabbit_inv H work (ce_now env) (rabbit_deadLetter ops dops ttl env tag m reason target w)"
proof -
  obtain msg where msg: "unacked (rb_broker w) tag = Some (qm_queue m, msg)" "qm_queue m \<in> set work"
    "qm_headers m = normaliseHeaders (wm_headers msg)" "usable (qm_key m) = wire_key msg"
    using in_handD [OF inv m] .
  define options where
    "options = \<lparr>eo_idempotencyKey = None,
       eo_headers = jset ''x-dead-letter-reason'' (case reason of None \<Rightarrow> ''unspecified'' | Some r \<Rightarrow> r) (qm_headers m),
       eo_skipDedupe = True, po_attempt = None\<rparr>"
  define payload where "payload = preparePayloadForAttempt (qm_payload m) (qm_attempts m)"
  obtain b d r where p: "rabbit_publish ops dops ttl env (dead_queue target (qm_queue m)) payload options (rb_broker w, rb_dedupe w) = ((b, d), r)"
    by (metis surj_pair)
  note eff = publish_unclaimed [OF p]
  have d: "d = rb_dedupe w" and un: "unacked b = unacked (rb_broker w)"
    using eff by (simp_all add: options_def)
  have "copies (keyed_copy work k) b = copies (keyed_copy work k) (rb_broker w)" for k
    using eff copies_add [of b _ "rb_broker w" "keyed_copy work k"] copies_cong [of b "rb_broker w"] dead
    by (cases r) (auto simp: options_def keyed_copy_def)
  then have inv': "rabbit_inv H work (ce_now env) (w\<lparr>rb_broker := b, rb_dedupe := d\<rparr>)"
    using inv by (auto simp: rabbit_inv_def hand_ok_def d un)
  show ?thesis
  proof (cases r)
    case (Inl e)
    then have "rabbit_deadLetter ops dops ttl env tag m reason target w = rabbit_nack ops tag (w\<lparr>rb_broker := b, rb_dedupe := d\<rparr>)"
      using p by (simp add: rabbit_deadLetter_def Let_def options_def payload_def)
    with nack_inv [OF inv'] un msg(1) show ?thesis by simp
  next
    case (Inr u)
    then have "rabbit_deadLetter ops dops ttl env tag m reason target w =
        rabbit_ack ops dops (ce_now env) tag (qm_key m) (w\<lparr>rb_broker := b, rb_dedupe := d\<rparr>)"
      using p by (simp add: rabbit_deadLetter_def Let_def options_def payload_def)
    with ack_inv [OF inv' _ msg(2,4)] un msg(1) show ?thesis by simp
  qed
qed

text \<open>A publication that claims its key first.\<close>

lemma publish_claimed:
  assumes "rabbit_publish ops dops ttl env q payload options (b, d) = ((b', d'), r)"
    and "usable (eo_idempotencyKey options) = Some k0" "\<not> eo_skipDedupe options" "ok d"
  obtains (rejected) "ready b' = ready b" "unacked b' = unacked b" "d' = d"
  | (dropped) "ready b' = ready b" "unacked b' = unacked b" "claimed d (ce_now env) k0" "ok d'"
      "\<And>t k. ce_now env \<le> t \<Longrightarrow> claimed d' t k = claimed d t k"
  | (unsent) "ready b' = ready b" "unacked b' = unacked b" "\<not> claimed d (ce_now env) k0" "ok d'"
      "\<And>t k. ce_now env \<le> t \<Longrightarrow> claimed d' t k = (k \<noteq> k0 \<and> claimed d t k)"
  | (sent) "ready b' = add_mset (q, rabbit_message (ce_uuid env) payload options) (ready b)" "unacked b' = unacked b"
      "\<not> claimed d (ce_now env) k0" "ok d'"
      "\<And>t k. ce_now env \<le> t \<Longrightarrow> claimed d' t k = (if k = k0 then t < ce_now env + safeTtlMs ttl else claimed d t k)"
proof (cases "ce_up env \<and> aq_assertQueue ops q b \<noteq> None")
  case False
  with assms(1) have "b' = b" "d' = d" by (auto simp: rabbit_publish_def split: if_splits option.splits)
  then show ?thesis by (intro rejected) simp_all
next
  case True
  then obtain b1 where b1: "aq_assertQueue ops q b = Some b1" and up: "ce_up env" by auto
  note a = assert_stored [OF b1]
  obtain d1 c where d1: "do_claim dops (ce_now env) k0 ttl d = (d1, c)" by fastforce
  note ok = dedupe.claim_result [OF assms(4) d1] and eff = dedupe.claim_effect [OF assms(4) d1]
  show ?thesis
  proof (cases c)
    case False
    with assms b1 up d1 have "b' = b1" "d' = d1" by (auto simp: rabbit_publish_def)
    with a ok eff False show ?thesis by (intro dropped) auto
  next
    case True
    show ?thesis
    proof (cases "aq_sendToQueue ops q (rabbit_message (ce_uuid env) payload options) b1")
      case None
      with assms b1 up d1 True have "b' = b1" "d' = do_release dops (ce_now env) k0 d1" by (auto simp: rabbit_publish_def)
      moreover have "ok d1" using ok by simp
      ultimately show ?thesis
        using a ok eff True dedupe.release_effect [of d1 "ce_now env" k0 d'] by (intro unsent) auto
    next
      case (Some b2)
      with assms b1 up d1 True have "b' = b2" "d' = d1" by (auto simp: rabbit_publish_def)
      with a ok eff True send_stored [OF Some] show ?thesis by (intro sent) auto
    qed
  qed
qed

lemma enqueue_inv:
  assumes inv: "rabbit_inv H work (ce_now env) w" and H: "ce_now env < H" "H \<le> ce_now env + safeTtlMs ttl"
    and ok_options: "enqueue_ok options"
  shows "rabbit_inv H work (ce_now env) (fst (enqueue ops dops ttl env queue payload options w))"
proof -
  have options: "jwf (eo_headers options)" "map_of (eo_headers options) ''x-idempotency-key'' = None" "\<not> eo_skipDedupe options"
    using ok_options by (simp_all add: enqueue_ok_def)
  define opts where "opts = EnqueueOptions.extend options (PublishOptions.fields (Some (Attempt 0)))"
  have o: "eo_headers opts = eo_headers options" "eo_idempotencyKey opts = eo_idempotencyKey options" "\<not> eo_skipDedupe opts"
    using options(3) by (simp_all add: opts_def EnqueueOptions.extend_def PublishOptions.fields_def)
  obtain b d r where p: "rabbit_publish ops dops ttl env queue payload opts (rb_broker w, rb_dedupe w) = ((b, d), r)"
    by (metis surj_pair)
  then have res: "fst (enqueue ops dops ttl env queue payload options w) = w\<lparr>rb_broker := b, rb_dedupe := d\<rparr>"
    by (simp add: enqueue_def opts_def)
  let ?msg = "rabbit_message (ce_uuid env) payload opts"
  have key: "wire_key ?msg = usable (eo_idempotencyKey options)"
    using options(1) o by (auto simp: wire_key_rabbit_message usable_def options(2) split: option.splits)
  have ok: "ok (rb_dedupe w)" and I: "copies (keyed_copy work k) (rb_broker w) \<le> 1"
      "copies (keyed_copy work k) (rb_broker w) = 1 \<Longrightarrow> ce_now env \<le> t \<Longrightarrow> t < H \<Longrightarrow> claimed (rb_dedupe w) t k" for k t
    using inv by (auto simp: rabbit_inv_def)
  show ?thesis
  proof (cases "usable (eo_idempotencyKey options)")
    case None
    note eff = publish_unclaimed [OF p]
    have "copies (keyed_copy work k) b = copies (keyed_copy work k) (rb_broker w)" for k
      using eff o None key copies_add [of b "(queue, ?msg)" "rb_broker w" "keyed_copy work k"] copies_cong [of b "rb_broker w"]
      by (cases r) (auto simp: keyed_copy_def)
    with inv eff o None show ?thesis unfolding res by (auto simp: rabbit_inv_def hand_ok_def)
  next
    case (Some k0)
    then have k0: "usable (eo_idempotencyKey opts) = Some k0" using o by simp
    from p k0 o(3) ok show ?thesis
    proof (cases rule: publish_claimed)
      case rejected
      then show ?thesis using inv copies_cong [of b "rb_broker w"] unfolding res by (auto simp: rabbit_inv_def hand_ok_def)
    next
      case dropped
      then show ?thesis using inv copies_cong [of b "rb_broker w"] unfolding res by (auto simp: rabbit_inv_def hand_ok_def)
    next
      case unsent
      have "copies (keyed_copy work k0) (rb_broker w) \<noteq> 1" using I(2) [of k0 "ce_now env"] unsent(3) H by auto
      then show ?thesis
        using inv copies_cong [of b "rb_broker w"] unsent unfolding res by (auto simp: rabbit_inv_def hand_ok_def)
    next
      case sent
      have "copies (keyed_copy work k0) (rb_broker w) \<noteq> 1" using I(2) [of k0 "ce_now env"] sent(3) H by auto
      then have none: "copies (keyed_copy work k0) (rb_broker w) = 0" using I(1) [of k0] by auto
      have c: "copies (keyed_copy work k) b = copies (keyed_copy work k) (rb_broker w) + (if keyed_copy work k (queue, ?msg) then 1 else 0)" for k
        using copies_add [OF sent(1,2)] .
      have "keyed_copy work k (queue, ?msg) \<Longrightarrow> k = k0" for k using key Some by (simp add: keyed_copy_def)
      then have "copies (keyed_copy work k) b \<le> 1 \<and> (copies (keyed_copy work k) b = 1 \<longrightarrow>
          (\<forall>t. ce_now env \<le> t \<and> t < H \<longrightarrow> claimed d t k))" for k
        using c [of k] none I [of k] sent(5) H(2) by (cases "k = k0") auto
      with inv sent(2,4) show ?thesis unfolding res by (auto simp: rabbit_inv_def hand_ok_def)
    qed
  qed
qed

lemma handle_inv:
  assumes inv: "rabbit_inv H work (ce_now env) w" and q: "q \<in> set work"
    and del: "aq_deliver ops q (rb_broker w) = Some (b, tag, msg)"
  shows "rabbit_inv H work (ce_now env) (handleMessage ops dops env q tag msg (w\<lparr>rb_broker := b\<rparr>))"
proof -
  note d = deliver_some [OF del]
  have fresh: "map_of (rb_hand w) tag = None"
  proof (rule ccontr)
    assume "map_of (rb_hand w) tag \<noteq> None"
    then obtain m where "map_of (rb_hand w) tag = Some m" by blast
    from in_handD [OF inv this] d show False by auto
  qed
  have inv': "rabbit_inv H work (ce_now env) (w\<lparr>rb_broker := b\<rparr>)"
    using inv d fresh copies_deliver [OF del] by (auto simp: rabbit_inv_def hand_ok_def)
  have x: "unacked (rb_broker (w\<lparr>rb_broker := b\<rparr>)) tag = Some (q, msg)" using d by simp
  note ack = ack_inv [OF inv' x q, of "map_of (normaliseHeaders (wm_headers msg)) ''x-idempotency-key''"]
  show ?thesis
  proof (cases "ce_up env")
    case True
    show ?thesis
    proof (cases "JSON_parse (wm_content msg)")
      case None
      with ack True show ?thesis by (simp add: handleMessage_def Let_def wire_key_def)
    next
      case (Some payload)
      with True inv' x q show ?thesis
        by (auto simp: handleMessage_def Let_def rabbit_inv_def hand_ok_def jmap_simps)
    qed
  qed (use inv' in \<open>simp add: handleMessage_def\<close>)
qed

end

section \<open>Admissible runs\<close>

text \<open>Deliveries come from the work queues; dead letters go elsewhere; publishers use the claim.\<close>

fun event_ok :: "string list \<Rightarrow> rabbit_event \<Rightarrow> bool" where
  "event_ok work (REnqueue queue payload options) = enqueue_ok options"
| "event_ok work (RDeliver queue) = (queue \<in> set work)"
| "event_ok work (RDeadLetter tag reason (Some target)) = (target \<notin> set work)"
| "event_ok work _ = True"

definition dead_apart :: "string list \<Rightarrow> bool" where
  "dead_apart work \<longleftrightarrow> list_all (\<lambda>q. q @ ''.dead'' \<notin> set work) work"

context rabbit_service
begin

lemma step_inv:
  assumes inv: "rabbit_inv H work (ce_now env) w" and H: "ce_now env < H" "H \<le> ce_now env + safeTtlMs (rc_dedupeTtlMs cfg)"
    and e: "event_ok work e" and dead: "dead_apart work"
  shows "rabbit_inv H work (ce_now env) (rabbit_step ops dops cfg env e w)"
proof -
  have target: "dead_queue t (qm_queue m) \<notin> set work"
    if "map_of (rb_hand w) tag = Some m" "case t of None \<Rightarrow> True | Some q \<Rightarrow> q \<notin> set work" for t tag m
    using in_handD [OF inv that(1)] that(2) dead
    by (auto simp: dead_queue_def dead_apart_def list_all_iff split: option.splits)
  show ?thesis
  proof (cases e)
    case (REnqueue q p options)
    with enqueue_inv [OF inv H] e show ?thesis by simp
  next
    case (RDeliver q)
    with e handle_inv [OF inv] inv show ?thesis by (auto split: option.splits)
  next
    case (RAck tag)
    with inv ack_inv in_handD [OF inv] show ?thesis
      by (auto simp: in_hand_def split: option.splits) metis
  next
    case (RRetry tag)
    with inv retry_inv [OF inv] show ?thesis by (auto simp: in_hand_def split: option.splits)
  next
    case (RDeadLetter tag reason t)
    then have "case t of None \<Rightarrow> True | Some q \<Rightarrow> q \<notin> set work" using e by (cases t) auto
    with RDeadLetter inv deadLetter_inv [OF inv] target show ?thesis by (auto simp: in_hand_def split: option.splits)
  next
    case (RHandlerFails tag)
    with inv deadLetter_inv [OF inv] retry_inv [OF inv] target [of _ _ None] show ?thesis
      by (auto simp: in_hand_def handler_failed_def split: option.splits)
  qed
qed

lemma run_inv:
  "rabbit_inv H work now w \<Longrightarrow> timed now (map (\<lambda>(env, e). (ce_now env, e)) es) \<Longrightarrow>
   list_all (\<lambda>(env, e). event_ok work e \<and> ce_now env < H \<and> H \<le> ce_now env + safeTtlMs (rc_dedupeTtlMs cfg)) es \<Longrightarrow>
   dead_apart work \<Longrightarrow> \<exists>now'. rabbit_inv H work now' (rabbit_run ops dops cfg es w)"
proof (induction es arbitrary: now w)
  case (Cons x es)
  obtain env e where x: "x = (env, e)" by (cases x)
  have "rabbit_inv H work (ce_now env) (rabbit_step ops dops cfg env e w)"
    using Cons.prems x by (intro step_inv rabbit_inv_later [OF Cons.prems(1)]) auto
  with Cons.IH Cons.prems x show ?case by simp
qed auto

end

section \<open>A broker\<close>

record queue_broker =
  qb_ready :: "(string \<times> wire_message) list"
  qb_unacked :: "(nat, string \<times> wire_message) jsmap"

definition settle_tag :: "nat \<Rightarrow> queue_broker \<Rightarrow> queue_broker" where
  "settle_tag tag b = b\<lparr>qb_unacked := jdelete tag (qb_unacked b)\<rparr>"

definition fresh_tag :: "queue_broker \<Rightarrow> nat" where
  "fresh_tag b = Suc (fold max (jkeys (qb_unacked b)) 0)"

definition broker_model :: "queue_broker amqp_ops" where
  "broker_model =
     \<lparr>aq_assertQueue = (\<lambda>q b. Some b),
      aq_sendToQueue = (\<lambda>q m b. Some (b\<lparr>qb_ready := qb_ready b @ [(q, m)]\<rparr>)),
      aq_deliver = (\<lambda>q b.
        case List.find (\<lambda>x. fst x = q) (qb_ready b) of
          None \<Rightarrow> None
        | Some x \<Rightarrow> Some (b\<lparr>qb_ready := remove1 x (qb_ready b), qb_unacked := jset (fresh_tag b) x (qb_unacked b)\<rparr>,
                         fresh_tag b, snd x)),
      aq_ack = settle_tag,
      aq_nack = (\<lambda>tag b.
        case map_of (qb_unacked b) tag of
          None \<Rightarrow> b
        | Some x \<Rightarrow> settle_tag tag (b\<lparr>qb_ready := x # qb_ready b\<rparr>))\<rparr>"

abbreviation broker_ready :: "queue_broker \<Rightarrow> (string \<times> wire_message) multiset" where
  "broker_ready b \<equiv> mset (qb_ready b)"

abbreviation broker_unacked :: "queue_broker \<Rightarrow> nat \<Rightarrow> (string \<times> wire_message) option" where
  "broker_unacked b \<equiv> map_of (qb_unacked b)"

lemma fresh_tag_new: "map_of (qb_unacked b) (fresh_tag b) = None"
proof -
  have le: "n \<in> set ns \<or> n \<le> a \<Longrightarrow> n \<le> fold max ns a" for n a and ns :: "nat list"
    by (induction ns arbitrary: a) (auto simp: le_max_iff_disj)
  have "fresh_tag b \<notin> set (jkeys (qb_unacked b))"
    using le [of "fresh_tag b" "jkeys (qb_unacked b)" 0] by (auto simp: fresh_tag_def)
  then show ?thesis by (simp add: map_of_eq_None_iff)
qed

interpretation queue_broker: amqp_broker broker_model broker_ready broker_unacked
proof unfold_locales
  fix q b b' tag m
  assume "aq_deliver broker_model q b = Some (b', tag, m)"
  then obtain x where x: "List.find (\<lambda>x. fst x = q) (qb_ready b) = Some x" "tag = fresh_tag b" "m = snd x"
      "b' = b\<lparr>qb_ready := remove1 x (qb_ready b), qb_unacked := jset (fresh_tag b) x (qb_unacked b)\<rparr>"
    by (auto simp: broker_model_def split: option.splits)
  then have eq: "x = (q, m)" and "x \<in> set (qb_ready b)" by (auto simp: find_Some_iff)
  with x(2,4) fresh_tag_new [of b]
  show "broker_ready b = add_mset (q, m) (broker_ready b') \<and> broker_unacked b tag = None \<and>
      broker_unacked b' = (broker_unacked b)(tag \<mapsto> (q, m))"
    by (simp add: jmap_simps)
next
  fix q b m
  assume "aq_deliver broker_model q b = None"
  then show "(q, m) \<notin># broker_ready b"
    by (auto simp: broker_model_def find_None_iff split: option.splits)
qed (auto simp: broker_model_def settle_tag_def jmap_simps finite_dom_map_of)

interpretation rabbit_memory: rabbit_service broker_model broker_ready broker_unacked memory_dedupe mem_claimed "\<lambda>_. True"
  ..

interpretation rabbit_redis: rabbit_service broker_model broker_ready broker_unacked
    "redis_dedupe redis_model" "redis_claimed live_value" "\<lambda>(s, r). \<not> rd_closed s"
  ..


end
