(* ===== verification/Rabbit_Delivery.thy ===== *)
theory Rabbit_Delivery
  imports Rabbit_Properties
begin

text \<open>
  Runs of the RabbitMQ adapter: a message whose handler keeps failing, and the connection loop.
\<close>

section \<open>A message that keeps failing\<close>

text \<open>One round: the broker delivers from the queue and every handler with a message in hand throws.\<close>

definition fail_round ::
  "'b amqp_ops \<Rightarrow> 'd dedupe_ops \<Rightarrow> rabbit_config \<Rightarrow> string \<Rightarrow> call_env \<Rightarrow> ('b, 'd) rabbit \<Rightarrow> ('b, 'd) rabbit" where
  "fail_round ops dops cfg q env w =
     (let w' = rabbit_step ops dops cfg env (RDeliver q) w
      in fold (\<lambda>tag. rabbit_step ops dops cfg env (RHandlerFails tag)) (jkeys (rb_hand w')) w')"

definition fail_rounds ::
  "'b amqp_ops \<Rightarrow> 'd dedupe_ops \<Rightarrow> rabbit_config \<Rightarrow> string \<Rightarrow> call_env list \<Rightarrow> ('b, 'd) rabbit \<Rightarrow> ('b, 'd) rabbit" where
  "fail_rounds ops dops cfg q envs w = fold (fail_round ops dops cfg q) envs w"

lemma json_wf_jset:
  assumes "json_wf (JObj ms)" "json_wf v"
  shows "json_wf (JObj (jset k v ms))"
  using assms by (auto dest: set_jset)

lemma json_wf_spread: "json_wf v \<Longrightarrow> json_wf (JObj (spread_object v))"
proof (cases v)
  case (JArr xs)
  assume "json_wf v"
  moreover have "distinct (map show_nat [0..<length xs])"
    by (simp add: distinct_map inj_on_def show_nat_inject)
  moreover have "jkeys (spread_object v) = map show_nat [0..<length xs]"
    by (rule nth_equalityI) (simp_all add: JArr spread_object_def case_prod_unfold nth_enumerate_eq)
  ultimately show ?thesis
    by (auto simp: JArr spread_object_def in_set_enumerate_eq)
qed (simp_all add: spread_object_def)

lemma json_wf_prepare:
  assumes "json_wf p"
  shows "json_wf (preparePayloadForAttempt p a)"
proof (cases p)
  case (JObj ms)
  show ?thesis
  proof (cases "map_of ms ''job''")
    case (Some job)
    then have "json_wf job" using assms JObj by (auto dest!: map_of_SomeD)
    then have "json_wf (JObj (jset ''attempt'' (attempt_json a) (spread_object job)))"
      by (intro json_wf_jset json_wf_spread) (simp_all add: attempt_json_def split: attempt_count.splits)
    then show ?thesis
      using Some JObj assms json_wf_jset by (auto simp: preparePayloadForAttempt_def simp del: json_wf.simps(2))
  qed (use assms JObj in \<open>simp add: preparePayloadForAttempt_def\<close>)
qed (use assms in \<open>simp_all add: preparePayloadForAttempt_def\<close>)

lemma rabbit_message_read:
  assumes "json_wf payload" "jwf (eo_headers options)" "po_attempt options = Some a"
  shows "JSON_parse (wm_content (rabbit_message uuid payload options)) = Some (preparePayloadForAttempt payload a)"
    and "normaliseHeaders (wm_headers (rabbit_message uuid payload options)) =
      publish_headers (eo_headers options) a (eo_idempotencyKey options)"
  using assms
  by (simp_all add: rabbit_message_def Let_def JSON_roundtrip json_wf_prepare normalise_text_headers publish_headers_wf)

text \<open>A broker that accepts what is published.\<close>

definition accepting :: "'b amqp_ops \<Rightarrow> bool" where
  "accepting ops \<longleftrightarrow> (\<forall>q m b. aq_assertQueue ops q b \<noteq> None \<and> aq_sendToQueue ops q m b \<noteq> None)"

lemma publish_accepted:
  assumes "accepting ops" "ce_up env" "rabbit_publish ops dops ttl env q payload options (b, d) = ((b', d'), r)"
  shows "r = Inr ()"
proof -
  obtain b1 where b1: "aq_assertQueue ops q b = Some b1" using assms(1) unfolding accepting_def by blast
  obtain b2 where "aq_sendToQueue ops q (rabbit_message (ce_uuid env) payload options) b1 = Some b2"
    using assms(1) unfolding accepting_def by blast
  with b1 assms(2,3) show ?thesis
    by (auto simp: rabbit_publish_def Let_def split: if_splits prod.splits)
qed

text \<open>The options of the two republications.\<close>

definition retry_options :: "QueueMessage \<Rightarrow> PublishOptions" where
  "retry_options m = \<lparr>eo_idempotencyKey = qm_key m, eo_headers = qm_headers m, eo_skipDedupe = True,
     po_attempt = Some (next_attempt (qm_attempts m))\<rparr>"

definition dead_options :: "string \<Rightarrow> QueueMessage \<Rightarrow> PublishOptions" where
  "dead_options reason m = \<lparr>eo_idempotencyKey = None, eo_headers = jset ''x-dead-letter-reason'' reason (qm_headers m),
     eo_skipDedupe = True, po_attempt = None\<rparr>"

context amqp_broker
begin

definition only :: "string \<Rightarrow> wire_message \<Rightarrow> ('b, 'd) rabbit \<Rightarrow> bool" where
  "only q m w \<longleftrightarrow> ready (rb_broker w) = {#(q, m)#} \<and> unacked (rb_broker w) = Map.empty \<and> rb_hand w = []"

text \<open>The delivery of the only message.\<close>

lemma only_deliver:
  assumes w: "only q m w" and p: "JSON_parse (wm_content m) = Some p" and up: "ce_up env"
  obtains tag qm w' where "rabbit_step ops dops cfg env (RDeliver q) w = w'" "rb_hand w' = [(tag, qm)]"
    "ready (rb_broker w') = {#}" "unacked (rb_broker w') = [tag \<mapsto> (q, m)]" "rb_dedupe w' = rb_dedupe w"
    "qm_queue qm = q" "qm_headers qm = normaliseHeaders (wm_headers m)"
    "qm_attempts qm = header_attempts (normaliseHeaders (wm_headers m))"
    "qm_payload qm = preparePayloadForAttempt p (qm_attempts qm)"
proof -
  have r: "ready (rb_broker w) = {#(q, m)#}" "unacked (rb_broker w) = Map.empty" "rb_hand w = []"
    using w by (simp_all add: only_def)
  then obtain b tag m' where d: "aq_deliver ops q (rb_broker w) = Some (b, tag, m')"
    using deliver_none [of q "rb_broker w" m] by (cases "aq_deliver ops q (rb_broker w)") auto
  have b: "m' = m" "ready b = {#}" "unacked b = [tag \<mapsto> (q, m)]"
    using deliver_some [OF d] r by (auto simp: add_mset_eq_single)
  define hs where "hs = normaliseHeaders (wm_headers m)"
  define qm where "qm = \<lparr>qm_id = first_usable (wm_id m) (map_of hs ''x-idempotency-key'') (ce_uuid env), qm_queue = q,
    qm_payload = preparePayloadForAttempt p (header_attempts hs), qm_headers = hs, qm_attempts = header_attempts hs\<rparr>"
  have "rabbit_step ops dops cfg env (RDeliver q) w = w\<lparr>rb_broker := b, rb_hand := [(tag, qm)]\<rparr>"
    using d b r p up by (simp add: handleMessage_def Let_def qm_def hs_def)
  from that [OF this, of tag qm] b show ?thesis by (simp add: qm_def hs_def)
qed

lemma only_settled:
  assumes "ready b = {#x#}" "unacked b = [tag \<mapsto> y]"
  shows "ready (aq_ack ops tag b) = {#x#}" "unacked (aq_ack ops tag b) = Map.empty"
  using assms ack_settles [of b tag y] by auto

lemma fail_round_retries:
  assumes acc: "accepting ops" and w: "only q m w" and p: "JSON_parse (wm_content m) = Some p" and up: "ce_up env"
    and left: "\<not> attempts_exhausted (rc_maxAttempts cfg) (header_attempts (normaliseHeaders (wm_headers m)))"
  obtains qm where "only q (rabbit_message (ce_uuid env) p (retry_options qm)) (fail_round ops dops cfg q env w)"
    "qm_headers qm = normaliseHeaders (wm_headers m)" "qm_attempts qm = header_attempts (normaliseHeaders (wm_headers m))"
    "rb_dedupe (fail_round ops dops cfg q env w) = rb_dedupe w"
proof -
  obtain tag qm w' where d: "rabbit_step ops dops cfg env (RDeliver q) w = w'" "rb_hand w' = [(tag, qm)]"
    "ready (rb_broker w') = {#}" "unacked (rb_broker w') = [tag \<mapsto> (q, m)]" "rb_dedupe w' = rb_dedupe w"
    "qm_queue qm = q" "qm_headers qm = normaliseHeaders (wm_headers m)"
    "qm_attempts qm = header_attempts (normaliseHeaders (wm_headers m))"
    "qm_payload qm = preparePayloadForAttempt p (qm_attempts qm)"
    using only_deliver [OF w p up] .
  let ?payload = "preparePayloadForAttempt (qm_payload qm) (next_attempt (qm_attempts qm))"
  obtain b d' r where pub: "rabbit_publish ops dops (rc_dedupeTtlMs cfg) env q ?payload (retry_options qm) (rb_broker w', rb_dedupe w') = ((b, d'), r)"
    by (metis surj_pair)
  have r: "r = Inr ()" using publish_accepted [OF acc up pub] .
  have eff: "d' = rb_dedupe w" "unacked b = [tag \<mapsto> (q, m)]" "ready b = {#(q, rabbit_message (ce_uuid env) ?payload (retry_options qm))#}"
    using publish_unclaimed [OF pub] r d by (simp_all add: retry_options_def)
  have msg: "rabbit_message (ce_uuid env) ?payload (retry_options qm) = rabbit_message (ce_uuid env) p (retry_options qm)"
    using d(9) by (simp add: rabbit_message_def retry_options_def)
  have "fail_round ops dops cfg q env w =
      w'\<lparr>rb_broker := aq_ack ops tag b, rb_dedupe := d', rb_hand := jdelete tag (rb_hand w')\<rparr>"
    using d(1,2) left d(8) pub r d(6)
    by (simp add: fail_round_def in_hand_def handler_failed_def rabbit_retry_def retry_options_def Let_def)
  with only_settled [OF eff(3,2)] eff(1) d(2,7,8) msg show ?thesis
    by (intro that) (simp_all add: only_def)
qed

lemma fail_round_dead:
  assumes acc: "accepting ops" and w: "only q m w" and p: "JSON_parse (wm_content m) = Some p" and up: "ce_up env"
    and left: "attempts_exhausted (rc_maxAttempts cfg) (header_attempts (normaliseHeaders (wm_headers m)))"
  obtains qm where
    "only (q @ ''.dead'') (rabbit_message (ce_uuid env) p (dead_options ''max_attempts_exceeded'' qm)) (fail_round ops dops cfg q env w)"
    "qm_headers qm = normaliseHeaders (wm_headers m)"
    "rb_dedupe (fail_round ops dops cfg q env w) = releaseKey dops (ce_now env) (wire_key m) (rb_dedupe w)"
proof -
  obtain tag qm w' where d: "rabbit_step ops dops cfg env (RDeliver q) w = w'" "rb_hand w' = [(tag, qm)]"
    "ready (rb_broker w') = {#}" "unacked (rb_broker w') = [tag \<mapsto> (q, m)]" "rb_dedupe w' = rb_dedupe w"
    "qm_queue qm = q" "qm_headers qm = normaliseHeaders (wm_headers m)"
    "qm_attempts qm = header_attempts (normaliseHeaders (wm_headers m))"
    "qm_payload qm = preparePayloadForAttempt p (qm_attempts qm)"
    using only_deliver [OF w p up] .
  let ?payload = "preparePayloadForAttempt (qm_payload qm) (qm_attempts qm)"
  let ?options = "dead_options ''max_attempts_exceeded'' qm"
  obtain b d' r where pub: "rabbit_publish ops dops (rc_dedupeTtlMs cfg) env (q @ ''.dead'') ?payload ?options (rb_broker w', rb_dedupe w') = ((b, d'), r)"
    by (metis surj_pair)
  have r: "r = Inr ()" using publish_accepted [OF acc up pub] .
  have eff: "d' = rb_dedupe w" "unacked b = [tag \<mapsto> (q, m)]" "ready b = {#(q @ ''.dead'', rabbit_message (ce_uuid env) ?payload ?options)#}"
    using publish_unclaimed [OF pub] r d by (simp_all add: dead_options_def)
  have msg: "rabbit_message (ce_uuid env) ?payload ?options = rabbit_message (ce_uuid env) p ?options"
    using d(9) by (simp add: rabbit_message_def)
  have res: "fail_round ops dops cfg q env w =
      rabbit_ack ops dops (ce_now env) tag (qm_key qm) (w'\<lparr>rb_broker := b, rb_dedupe := d'\<rparr>)"
    using d(1,2) left d(8) pub r d(6)
    by (simp add: fail_round_def in_hand_def handler_failed_def rabbit_deadLetter_def dead_options_def dead_queue_def Let_def)
  have "releaseKey dops now (qm_key qm) e = releaseKey dops now (wire_key m) e" for now e
    using d(7) by (simp add: releaseKey_def wire_key_def qm_key_def usable_def)
  with only_settled [OF eff(3,2)] eff(1) d(2,7) msg show ?thesis
    by (intro that) (simp_all add: res only_def rabbit_ack_def)
qed

end

text \<open>The message after some failures.\<close>

definition failed_times :: "json \<Rightarrow> string option \<Rightarrow> nat \<Rightarrow> wire_message \<Rightarrow> bool" where
  "failed_times payload key j m \<longleftrightarrow>
     (\<exists>a. JSON_parse (wm_content m) = Some (preparePayloadForAttempt payload a)) \<and> wire_key m = key \<and>
     header_attempts (normaliseHeaders (wm_headers m)) = Attempt (int j)"

lemma failed_again:
  assumes m: "failed_times payload key j m" and payload: "json_wf payload" and p: "JSON_parse (wm_content m) = Some p"
    and qm: "qm_headers qm = normaliseHeaders (wm_headers m)" "qm_attempts qm = header_attempts (normaliseHeaders (wm_headers m))"
  shows "failed_times payload key (Suc j) (rabbit_message uuid p (retry_options qm))"
proof -
  obtain a where a: "p = preparePayloadForAttempt payload a" using m p by (auto simp: failed_times_def)
  have wf: "json_wf p" using payload a by (simp add: json_wf_prepare)
  have att: "qm_attempts qm = Attempt (int j)" using m qm by (simp add: failed_times_def)
  have key: "usable (qm_key qm) = key" using m qm by (simp add: failed_times_def wire_key_def qm_key_def)
  have hs: "jwf (eo_headers (retry_options qm))" by (simp add: retry_options_def qm)
  have po: "po_attempt (retry_options qm) = Some (Attempt (int (Suc j)))"
    by (simp add: retry_options_def att next_attempt_def add.commute)
  note read = rabbit_message_read [OF wf hs po]
  have "wire_key (rabbit_message uuid p (retry_options qm)) = key"
    using wire_key_rabbit_message [OF hs] key by (simp add: retry_options_def qm_key_def split: option.splits)
  with read a show ?thesis
    by (auto simp: failed_times_def header_attempts_shown publish_headers_lookup)
qed

definition limit_is :: "rabbit_config \<Rightarrow> nat \<Rightarrow> bool" where
  "limit_is cfg n \<longleftrightarrow> maxAttempts (rc_maxAttempts cfg) = of_nat n"

lemma exhausted_iff: "limit_is cfg n \<Longrightarrow> attempts_exhausted (rc_maxAttempts cfg) (Attempt (int j)) \<longleftrightarrow> n \<le> Suc j"
proof -
  assume "limit_is cfg n"
  then have "attempts_exhausted (rc_maxAttempts cfg) (Attempt (int j)) \<longleftrightarrow> (of_nat n :: rat) \<le> of_nat (Suc j)"
    by (simp add: attempts_exhausted_def limit_is_def add.commute)
  then show ?thesis by (simp only: of_nat_le_iff)
qed

context amqp_broker
begin

lemma fail_rounds_retry:
  assumes acc: "accepting ops" and payload: "json_wf payload" and limit: "limit_is cfg n"
  shows "only q m w \<Longrightarrow> failed_times payload key j m \<Longrightarrow> list_all ce_up envs \<Longrightarrow> j + length envs < n \<Longrightarrow>
    \<exists>m'. only q m' (fail_rounds ops dops cfg q envs w) \<and> failed_times payload key (j + length envs) m' \<and>
      rb_dedupe (fail_rounds ops dops cfg q envs w) = rb_dedupe w"
proof (induction envs arbitrary: w m j)
  case Nil
  then show ?case by (auto simp: fail_rounds_def)
next
  case (Cons env envs)
  obtain p where p: "JSON_parse (wm_content m) = Some p" using Cons.prems(2) by (auto simp: failed_times_def)
  have "\<not> attempts_exhausted (rc_maxAttempts cfg) (header_attempts (normaliseHeaders (wm_headers m)))"
    using Cons.prems(2,4) exhausted_iff [OF limit, of j] by (simp add: failed_times_def)
  moreover have up: "ce_up env" using Cons.prems(3) by simp
  ultimately obtain qm where qm: "only q (rabbit_message (ce_uuid env) p (retry_options qm)) (fail_round ops dops cfg q env w)"
    "qm_headers qm = normaliseHeaders (wm_headers m)" "qm_attempts qm = header_attempts (normaliseHeaders (wm_headers m))"
    "rb_dedupe (fail_round ops dops cfg q env w) = rb_dedupe w"
    using fail_round_retries [OF acc Cons.prems(1) p _ _, of env cfg dops] up by metis
  have "failed_times payload key (Suc j) (rabbit_message (ce_uuid env) p (retry_options qm))"
    using failed_again [OF Cons.prems(2) payload p qm(2,3)] .
  from Cons.IH [OF qm(1) this] Cons.prems(3,4) qm(4) show ?case by (simp add: fail_rounds_def)
qed

lemma fail_rounds_dead:
  assumes acc: "accepting ops" and payload: "json_wf payload" and limit: "limit_is cfg n" "0 < n"
    and w: "only q m w" "failed_times payload key 0 m" and up: "list_all ce_up envs" "ce_up env" and len: "length envs = n - 1"
  obtains m' where "only (q @ ''.dead'') m' (fail_rounds ops dops cfg q (envs @ [env]) w)" "wire_key m' = key"
    "rb_dedupe (fail_rounds ops dops cfg q (envs @ [env]) w) = releaseKey dops (ce_now env) key (rb_dedupe w)"
proof -
  let ?w = "fail_rounds ops dops cfg q envs w"
  obtain m1 where m1: "only q m1 ?w" "failed_times payload key (n - 1) m1" "rb_dedupe ?w = rb_dedupe w"
    using fail_rounds_retry [OF acc payload limit(1) w up(1)] limit(2) len by auto
  obtain p where p: "JSON_parse (wm_content m1) = Some p" using m1(2) by (auto simp: failed_times_def)
  have "attempts_exhausted (rc_maxAttempts cfg) (header_attempts (normaliseHeaders (wm_headers m1)))"
    using m1(2) exhausted_iff [OF limit(1), of "n - 1"] limit(2) by (simp add: failed_times_def)
  then obtain qm where qm:
    "only (q @ ''.dead'') (rabbit_message (ce_uuid env) p (dead_options ''max_attempts_exceeded'' qm)) (fail_round ops dops cfg q env ?w)"
    "qm_headers qm = normaliseHeaders (wm_headers m1)"
    "rb_dedupe (fail_round ops dops cfg q env ?w) = releaseKey dops (ce_now env) (wire_key m1) (rb_dedupe ?w)"
    using fail_round_dead [OF acc m1(1) p up(2)] by blast
  have "jwf (eo_headers (dead_options ''max_attempts_exceeded'' qm))" by (simp add: dead_options_def qm(2))
  from wire_key_rabbit_message [OF this]
  have "wire_key (rabbit_message (ce_uuid env) p (dead_options ''max_attempts_exceeded'' qm)) = wire_key m1"
    by (simp add: dead_options_def qm(2) wire_key_def jmap_simps usable_def)
  with that qm m1 show ?thesis by (simp add: fail_rounds_def failed_times_def)
qed

end

lemma enqueued_message:
  assumes "json_wf payload" "enqueue_ok options"
  shows "failed_times payload (usable (eo_idempotencyKey options)) 0
    (rabbit_message uuid payload (EnqueueOptions.extend options (PublishOptions.fields (Some (Attempt 0)))))"
proof -
  let ?o = "EnqueueOptions.extend options (PublishOptions.fields (Some (Attempt 0)))"
  have o: "jwf (eo_headers ?o)" "map_of (eo_headers ?o) ''x-idempotency-key'' = None" "po_attempt ?o = Some (Attempt 0)"
      "eo_idempotencyKey ?o = eo_idempotencyKey options"
    using assms(2) by (simp_all add: enqueue_ok_def EnqueueOptions.extend_def PublishOptions.fields_def)
  have "map_of (publish_headers (eo_headers ?o) (Attempt 0) (eo_idempotencyKey ?o)) ''x-attempts'' = Some (String_attempt (Attempt 0))"
    by (rule publish_headers_lookup)
  then show ?thesis
    using rabbit_message_read [OF assms(1) o(1,3)] header_attempts_shown [of _ 0] wire_key_rabbit_message [OF o(1)] o(2,4)
    by (auto simp: failed_times_def usable_def split: option.splits)
qed

text \<open>
  C26.  A message whose handler fails on every delivery is delivered exactly as often as
  \<^verbatim>\<open>QUEUE_MAX_ATTEMPTS\<close> allows: until then the queue holds exactly one copy, whose header counts the
  failures and whose key stays claimed; after the last failure the queue is empty, the dead-letter
  queue holds one copy and the key is free again.
\<close>

theorem poison_message_dead_lettered:
  assumes broker: "amqp_broker ops ready unacked" "accepting ops"
    and limit: "maxAttempts (rc_maxAttempts cfg) = of_nat n" "0 < n"
    and payload: "json_wf payload" "enqueue_ok options"
    and start: "ready (rb_broker w) = {#(q, rabbit_message uuid payload (EnqueueOptions.extend options (PublishOptions.fields (Some (Attempt 0)))))#}"
      "unacked (rb_broker w) = Map.empty" "rb_hand w = []"
    and up: "list_all ce_up (envs @ [env])" "length (envs @ [env]) \<le> n"
    and final: "w' = fail_rounds ops dops cfg q (envs @ [env]) w"
  shows "\<exists>m. unacked (rb_broker w') = Map.empty \<and> rb_hand w' = [] \<and> wire_key m = usable (eo_idempotencyKey options) \<and>
    (if length (envs @ [env]) < n
     then ready (rb_broker w') = {#(q, m)#} \<and> rb_dedupe w' = rb_dedupe w \<and>
          header_attempts (normaliseHeaders (wm_headers m)) = Attempt (int (length (envs @ [env])))
     else ready (rb_broker w') = {#(q @ ''.dead'', m)#} \<and>
          rb_dedupe w' = releaseKey dops (ce_now env) (eo_idempotencyKey options) (rb_dedupe w))"
proof -
  let ?m = "rabbit_message uuid payload (EnqueueOptions.extend options (PublishOptions.fields (Some (Attempt 0))))"
  let ?key = "usable (eo_idempotencyKey options)"
  have lim: "limit_is cfg n" using limit(1) by (simp add: limit_is_def)
  have only: "amqp_broker.only ready unacked q ?m w" using start by (simp add: amqp_broker.only_def [OF broker(1)])
  note m = enqueued_message [OF payload, of uuid]
  have idem: "releaseKey dops now ?key d = releaseKey dops now (eo_idempotencyKey options) d" for now d
    by (simp add: releaseKey_def usable_def)
  show ?thesis
  proof (cases "length (envs @ [env]) < n")
    case True
    then show ?thesis
      using amqp_broker.fail_rounds_retry [OF broker payload(1) lim only m up(1)] final
      by (auto simp: amqp_broker.only_def [OF broker(1)] failed_times_def)
  next
    case False
    then have len: "length envs = n - 1" using up(2) by simp
    obtain m' where "amqp_broker.only ready unacked (q @ ''.dead'') m' w'" "wire_key m' = ?key"
      "rb_dedupe w' = releaseKey dops (ce_now env) ?key (rb_dedupe w)"
      using amqp_broker.fail_rounds_dead [OF broker payload(1) lim limit(2) only m _ _ len] up(1) final by auto
    with False show ?thesis by (auto simp: amqp_broker.only_def [OF broker(1)] idem)
  qed
qed

definition demo_env :: "time \<Rightarrow> call_env" where
  "demo_env now = \<lparr>ce_now = now, ce_uuid = ''uuid'', ce_up = True\<rparr>"

definition demo_options :: EnqueueOptions where
  "demo_options = \<lparr>eo_idempotencyKey = Some ''plan:s1'', eo_headers = [(''trace'', ''t'')], eo_skipDedupe = False\<rparr>"

definition demo_payload :: json where
  "demo_payload = JObj [(''job'', JObj [(''id'', JStr ''job'')])]"

definition rabbit_demo_config :: rabbit_config where
  "rabbit_demo_config = \<lparr>rc_dedupeTtlMs = 300000, rc_maxAttempts = Some ''2''\<rparr>"

definition demo_rabbit :: "(queue_broker, memory_claims) rabbit" where
  "demo_rabbit = fst (enqueue broker_model memory_dedupe 300000 (demo_env 0) ''plan.steps'' demo_payload demo_options
     (new_rabbit \<lparr>qb_ready = [], qb_unacked = []\<rparr> []))"

lemma demo_limit: "maxAttempts (rc_maxAttempts rabbit_demo_config) = of_nat 2"
  by code_simp

lemma demo_ok: "json_wf demo_payload" "enqueue_ok demo_options" "accepting broker_model"
  by (simp_all add: demo_payload_def demo_options_def enqueue_ok_def accepting_def broker_model_def)

lemma demo_rabbit_simps:
  "broker_ready (rb_broker demo_rabbit) =
     {#(''plan.steps'', rabbit_message ''uuid'' demo_payload (EnqueueOptions.extend demo_options (PublishOptions.fields (Some (Attempt 0)))))#}"
  "broker_unacked (rb_broker demo_rabbit) = Map.empty" "rb_hand demo_rabbit = []"
  "rb_dedupe demo_rabbit = [(''plan:s1'', \<lparr>ce_expiresAt = 300000\<rparr>)]"
  by (simp_all add: demo_rabbit_def enqueue_def rabbit_publish_def broker_model_def new_rabbit_def demo_env_def
      demo_options_def EnqueueOptions.extend_def PublishOptions.fields_def usable_def memory_dedupe_def mem_claim_def
      safeTtlMs_def)

lemma poison_message_dead_lettered_witness:
  "\<exists>m. broker_ready (rb_broker (fail_rounds broker_model memory_dedupe rabbit_demo_config ''plan.steps'' [demo_env 1, demo_env 2] demo_rabbit)) =
     {#(''plan.steps.dead'', m)#} \<and> wire_key m = Some ''plan:s1'' \<and>
   rb_dedupe (fail_rounds broker_model memory_dedupe rabbit_demo_config ''plan.steps'' [demo_env 1, demo_env 2] demo_rabbit) = []"
  using poison_message_dead_lettered [OF queue_broker.amqp_broker_axioms demo_ok(3) demo_limit _ demo_ok(1,2)
      demo_rabbit_simps(1-3), of "[demo_env 1]" "demo_env 2" _ memory_dedupe]
  by (auto simp: demo_env_def demo_options_def usable_def demo_rabbit_simps releaseKey_def memory_dedupe_def mem_release_def)

text \<open>The dead letter has lost the count of attempts, in its header and in its job.\<close>

lemma dead_letter_forgets_attempts:
  assumes "json_wf p" "jwf (qm_headers qm)"
  shows "header_attempts (normaliseHeaders (wm_headers (rabbit_message uuid p (dead_options reason qm)))) = Attempt 0 \<and>
    wm_content (rabbit_message uuid p (dead_options reason qm)) = JSON_stringify (preparePayloadForAttempt p (Attempt 0))"
proof -
  have "map_of (publish_headers (eo_headers (dead_options reason qm)) (Attempt 0) None) ''x-attempts'' =
      Some (String_attempt (Attempt 0))" by (rule publish_headers_lookup)
  moreover have "normaliseHeaders (wm_headers (rabbit_message uuid p (dead_options reason qm))) =
      publish_headers (eo_headers (dead_options reason qm)) (Attempt 0) None"
    using assms(2) by (simp add: rabbit_message_def dead_options_def Let_def normalise_text_headers publish_headers_wf)
  ultimately show ?thesis
    using header_attempts_shown [of _ 0] by (simp add: rabbit_message_def dead_options_def Let_def)
qed

section \<open>Witness of the single copy\<close>

definition demo_run :: "(call_env \<times> rabbit_event) list" where
  "demo_run =
     [(demo_env 0, REnqueue ''plan.steps'' demo_payload demo_options),
      (demo_env 1, REnqueue ''plan.steps'' demo_payload demo_options),
      (demo_env 2, RDeliver ''plan.steps''), (demo_env 3, RHandlerFails 1),
      (demo_env 4, REnqueue ''plan.steps'' demo_payload demo_options)]"


section \<open>Reconnection\<close>

lemma establish_refused:
  assumes "cn_shouldReconnect cn" "\<not> cn_connection cn"
  shows "establishConnection base n (replicate k Refused @ AllUp # rest) cn =
    (cn\<lparr>cn_connection := True, cn_channel := True, cn_active := cn_consumers cn\<rparr>,
     map (\<lambda>i. reconnect_delay base (Suc (n + i))) [0..<k], True)"
proof (induction k arbitrary: n)
  case (Suc k)
  have "map (\<lambda>i. reconnect_delay base (Suc (n + i))) [0..<Suc k] =
      reconnect_delay base (Suc n) # map (\<lambda>i. reconnect_delay base (Suc (Suc n + i))) [0..<k]"
    by (simp add: upt_conv_Cons map_Suc_upt [symmetric] comp_def del: upt_Suc)
  with Suc assms show ?case by simp
qed (use assms in simp)

text \<open>
  However often the broker refuses, the adapter keeps trying and comes back completely: after
  \<open>k\<close> refusals and one success it has a channel on which every registered queue consumes.  The
  waits double from the base delay and none exceeds thirty seconds.
\<close>

theorem reconnect_restores_consumers:
  assumes "cn_reconnectTimer cn" "\<not> cn_connection cn"
  shows "cn_channel (reconnect_fires base (replicate k Refused @ AllUp # rest) cn) \<and>
    cn_active (reconnect_fires base (replicate k Refused @ AllUp # rest) cn) = cn_consumers cn \<and>
    (\<exists>delays. fst (snd (connect base (replicate k Refused @ AllUp # rest) cn)) = delays \<and> length delays = k \<and>
       (\<forall>i < k. delays ! i = min (base * 2 ^ i) 30000))"
  using assms
  by (simp add: reconnect_fires_def connect_def Let_def establish_refused reconnect_delay_def MAX_RECONNECT_MS_def)

lemma reconnect_restores_consumers_witness:
  "cn_active (reconnect_fires 1000 (replicate 3 Refused @ [AllUp])
     (handleDisconnect (new_connection\<lparr>cn_connection := True, cn_consumers := [''plan.steps'']\<rparr>))) = [''plan.steps'']"
  using reconnect_restores_consumers
    [of "handleDisconnect (new_connection\<lparr>cn_connection := True, cn_consumers := [''plan.steps'']\<rparr>)" 1000 3 "[]"]
  by (simp add: handleDisconnect_def new_connection_def)

text \<open>A connection without a channel is never repaired: the loop ends because the connection exists,
  and from then on every request for a channel fails, whatever the broker would answer.\<close>

lemma failed_channel_is_final:
  assumes "\<not> cn_connection cn" "\<not> cn_channel cn"
  shows "ensureChannel base (NoChannel # answers) cn =
      (cn\<lparr>cn_shouldReconnect := True, cn_connection := True\<rparr>, False) \<and>
    ensureChannel base answers' (cn\<lparr>cn_shouldReconnect := True, cn_connection := True\<rparr>) =
      (cn\<lparr>cn_shouldReconnect := True, cn_connection := True\<rparr>, False)"
proof -
  have "establishConnection base (Suc 0) answers (cn\<lparr>cn_shouldReconnect := True, cn_connection := True\<rparr>) =
      (cn\<lparr>cn_shouldReconnect := True, cn_connection := True\<rparr>, [], True)"
    by (cases answers) simp_all
  with assms show ?thesis by (simp add: ensureChannel_def connect_def Let_def)
qed

text \<open>The first consumer of an adapter that is not yet connected is set up twice.\<close>

lemma consume_before_connect_twice:
  "cn_active (consume base [AllUp] queue True new_connection) = [queue, queue]"
  by (simp add: consume_def ensureChannel_def connect_def new_connection_def)

end
