(* ===== verification/Kafka_Topics.thy ===== *)
theory Kafka_Topics
  imports Js_Numbers "HOL-Library.Sublist"
begin

text \<open>
  The settings of \<^verbatim>\<open>queue/KafkaAdapter.ts\<close>: parsers of environment variables, the compiled
  patterns of compacted topics, and the configuration entries of a new topic.
\<close>

section \<open>Parsers\<close>

definition split_list :: "string \<Rightarrow> string list" where
  "split_list value = filter (\<lambda>item. item \<noteq> []) (map trim (split_on CHR '','' value))"

definition parseList :: "string option \<Rightarrow> string list option" where
  "parseList value =
     (case value of
        None \<Rightarrow> None
      | Some v \<Rightarrow> if v = [] then None else let items = split_list v in if items = [] then None else Some items)"

definition parseBrokerList :: "string option \<Rightarrow> string list option" where
  "parseBrokerList value =
     (case value of
        None \<Rightarrow> None
      | Some v \<Rightarrow> if v = [] then None else let brokers = split_list v in if brokers = [] then None else Some brokers)"

definition parseBoolean :: "string option \<Rightarrow> bool option" where
  "parseBoolean value =
     (case value of
        None \<Rightarrow> None
      | Some v \<Rightarrow>
          let normalized = lower_case (trim v) in
          if normalized \<in> {''true'', ''1'', ''yes'', ''on''} then Some True
          else if normalized \<in> {''false'', ''0'', ''no'', ''off''} then Some False
          else None)"

definition parsePositiveInteger :: "string option \<Rightarrow> int option" where
  "parsePositiveInteger value =
     (case value of
        None \<Rightarrow> None
      | Some v \<Rightarrow> (case js_Number v of Finite q \<Rightarrow> if \<lfloor>q\<rfloor> > 0 then Some \<lfloor>q\<rfloor> else None | _ \<Rightarrow> None))"

definition split_on_any :: "char list \<Rightarrow> string \<Rightarrow> string list" where
  "split_on_any cs s = split_on (hd cs) (map (\<lambda>c. if c \<in> set cs then hd cs else c) s)"

definition parse_topic_entry :: "string \<Rightarrow> (string \<times> string) option" where
  "parse_topic_entry fragment =
     (let entry = trim fragment;
          parts = split_on CHR ''='' entry;
          key = trim (hd parts);
          val = trim (join_strings ''='' (tl parts))
      in if entry = [] \<or> key = [] \<or> val = [] then None else Some (key, val))"

definition parseTopicConfig :: "string option \<Rightarrow> (string, string) jsmap option" where
  "parseTopicConfig value =
     (case value of
        None \<Rightarrow> None
      | Some v \<Rightarrow>
          if v = [] then None
          else
            let config = fold (\<lambda>fragment config. case parse_topic_entry fragment of
                                 None \<Rightarrow> config | Some (k, x) \<Rightarrow> jset k x config) (split_on_any '';,'' v) []
            in if config = [] then None else Some config)"

datatype KafkaSaslMechanism = SaslPlain | SaslScram256 | SaslScram512 | SaslAws | SaslOauth

definition parseSaslMechanism :: "string option \<Rightarrow> KafkaSaslMechanism option" where
  "parseSaslMechanism value =
     (case value of
        None \<Rightarrow> None
      | Some v \<Rightarrow>
          let normalized = lower_case (trim v) in
          if normalized = ''plain'' then Some SaslPlain
          else if normalized = ''scram-sha-256'' then Some SaslScram256
          else if normalized = ''scram-sha-512'' then Some SaslScram512
          else if normalized = ''aws'' then Some SaslAws
          else if normalized = ''oauthbearer'' \<or> normalized = ''oauthbearertoken'' then Some SaslOauth
          else None)"

record KafkaTlsConfig =
  tls_enabled :: bool
  tls_caPaths :: "string list"
  tls_certPath :: "string option"
  tls_keyPath :: "string option"
  tls_rejectUnauthorized :: bool

definition parseTlsConfigFromEnv :: "environment \<Rightarrow> KafkaTlsConfig option" where
  "parseTlsConfigFromEnv env =
     (let enabled = parseBoolean (env ''KAFKA_TLS_ENABLED'');
          caPaths = parseList (env ''KAFKA_TLS_CA_PATHS'');
          certPath = non_empty (map_option trim (env ''KAFKA_TLS_CERT_PATH''));
          keyPath = non_empty (map_option trim (env ''KAFKA_TLS_KEY_PATH''));
          rejectUnauthorized = parseBoolean (env ''KAFKA_TLS_REJECT_UNAUTHORIZED'')
      in if enabled \<noteq> None \<or> caPaths \<noteq> None \<or> certPath \<noteq> None \<or> keyPath \<noteq> None \<or> rejectUnauthorized \<noteq> None
         then Some \<lparr>tls_enabled = default_to enabled True, tls_caPaths = default_to caPaths [], tls_certPath = certPath,
                    tls_keyPath = keyPath, tls_rejectUnauthorized = default_to rejectUnauthorized True\<rparr>
         else None)"

record KafkaSaslConfig =
  sasl_mechanism :: KafkaSaslMechanism
  sasl_username :: "string option"
  sasl_password :: "string option"
  sasl_authorizationIdentity :: "string option"

definition parseSaslConfigFromEnv :: "environment \<Rightarrow> KafkaSaslConfig option" where
  "parseSaslConfigFromEnv env =
     (case parseSaslMechanism (env ''KAFKA_SASL_MECHANISM'') of
        None \<Rightarrow> None
      | Some mechanism \<Rightarrow>
          Some \<lparr>sasl_mechanism = mechanism,
                sasl_username = non_empty (map_option trim (env ''KAFKA_SASL_USERNAME'')),
                sasl_password = non_empty (map_option trim (env ''KAFKA_SASL_PASSWORD'')),
                sasl_authorizationIdentity = non_empty (map_option trim (env ''KAFKA_SASL_AUTHORIZATION_IDENTITY''))\<rparr>)"

datatype SASLOptions =
    SaslUser KafkaSaslMechanism string string
  | SaslKeys string string string

datatype kafka_config_error = MissingCredentials KafkaSaslMechanism | UnreadableFile string | BadPattern string

definition resolveKafkaSaslOptions :: "KafkaSaslConfig option \<Rightarrow> kafka_config_error + SASLOptions option" where
  "resolveKafkaSaslOptions config =
     (case config of
        None \<Rightarrow> Inr None
      | Some c \<Rightarrow>
          (case (non_empty (sasl_username c), non_empty (sasl_password c)) of
             (Some u, Some p) \<Rightarrow>
               (case sasl_mechanism c of
                  SaslAws \<Rightarrow> Inr (Some (SaslKeys u p (default_to (sasl_authorizationIdentity c) u)))
                | SaslOauth \<Rightarrow> Inr None
                | m \<Rightarrow> Inr (Some (SaslUser m u p)))
           | _ \<Rightarrow> if sasl_mechanism c = SaslOauth then Inr None else Inl (MissingCredentials (sasl_mechanism c))))"

record ssl_options =
  ssl_rejectUnauthorized :: bool
  ssl_ca :: "string list option"
  ssl_cert :: "string option"
  ssl_key :: "string option"

text \<open>Files are read through an argument; a missing file is an error.\<close>

definition readFileBuffer :: "(string \<Rightarrow> string option) \<Rightarrow> string \<Rightarrow> kafka_config_error + string" where
  "readFileBuffer files p = (case files p of None \<Rightarrow> Inl (UnreadableFile p) | Some content \<Rightarrow> Inr content)"

fun read_files :: "(string \<Rightarrow> string option) \<Rightarrow> string list \<Rightarrow> kafka_config_error + string list" where
  "read_files files [] = Inr []"
| "read_files files (p # ps) =
     (case readFileBuffer files p of
        Inl e \<Rightarrow> Inl e
      | Inr c \<Rightarrow> (case read_files files ps of Inl e \<Rightarrow> Inl e | Inr cs \<Rightarrow> Inr (c # cs)))"

definition read_optional :: "(string \<Rightarrow> string option) \<Rightarrow> string option \<Rightarrow> kafka_config_error + string option" where
  "read_optional files p =
     (case non_empty p of
        None \<Rightarrow> Inr None
      | Some f \<Rightarrow> (case readFileBuffer files f of Inl e \<Rightarrow> Inl e | Inr c \<Rightarrow> Inr (Some c)))"

definition resolveKafkaSslOptions ::
  "(string \<Rightarrow> string option) \<Rightarrow> KafkaTlsConfig option \<Rightarrow> kafka_config_error + ssl_options option" where
  "resolveKafkaSslOptions files tls =
     (case tls of
        None \<Rightarrow> Inr None
      | Some t \<Rightarrow>
          if \<not> tls_enabled t then Inr None
          else case read_files files (tls_caPaths t) of
                 Inl e \<Rightarrow> Inl e
               | Inr ca \<Rightarrow>
                   (case read_optional files (tls_certPath t) of
                      Inl e \<Rightarrow> Inl e
                    | Inr cert \<Rightarrow>
                        (case read_optional files (tls_keyPath t) of
                           Inl e \<Rightarrow> Inl e
                         | Inr key \<Rightarrow>
                             let ca = filter (\<lambda>c. c \<noteq> []) ca
                             in Inr (Some \<lparr>ssl_rejectUnauthorized = tls_rejectUnauthorized t,
                                           ssl_ca = (if ca = [] then None else Some ca), ssl_cert = cert, ssl_key = key\<rparr>))))"

section \<open>Topic patterns\<close>

definition topic_char :: "char \<Rightarrow> bool" where
  "topic_char c \<longleftrightarrow>
     (let n = (of_char c :: nat) in
      65 \<le> n \<and> n \<le> 90 \<or> 97 \<le> n \<and> n \<le> 122 \<or> 48 \<le> n \<and> n \<le> 57 \<or> c \<in> {CHR ''.'', CHR ''_'', CHR ''-''})"

text \<open>\<^verbatim>\<open>value.indexOf(segment, cursor)\<close>.\<close>

definition indexOf :: "string \<Rightarrow> string \<Rightarrow> nat \<Rightarrow> nat option" where
  "indexOf value segment cursor =
     List.find (\<lambda>i. prefix segment (drop i value)) [cursor..<Suc (length value)]"

fun find_segments :: "string \<Rightarrow> nat \<Rightarrow> string list \<Rightarrow> nat option" where
  "find_segments value cursor [] = Some cursor"
| "find_segments value cursor (segment # rest) =
     (if segment = [] then find_segments value cursor rest
      else case indexOf value segment cursor of
             None \<Rightarrow> None
           | Some foundAt \<Rightarrow> find_segments value (foundAt + length segment) rest)"

definition topic_matcher :: "string \<Rightarrow> string \<Rightarrow> bool" where
  "topic_matcher pattern value =
     (if pattern = [] then value = []
      else if pattern = ''*'' then True
      else
        let segments = split_on CHR ''*'' pattern;
            startsWithWildcard = (hd pattern = CHR ''*'');
            endsWithWildcard = (last pattern = CHR ''*'')
        in if \<not> startsWithWildcard \<and> \<not> prefix (hd segments) value then False
           else case find_segments value (if startsWithWildcard then 0 else length (hd segments))
                       (if startsWithWildcard then segments else tl segments) of
                  None \<Rightarrow> False
                | Some _ \<Rightarrow> if endsWithWildcard then True else suffix (last segments) value)"

definition compileTopicPattern :: "string \<Rightarrow> kafka_config_error + (string \<Rightarrow> bool)" where
  "compileTopicPattern pattern =
     (if \<not> list_all (\<lambda>c. topic_char c \<or> c = CHR ''*'') pattern then Inl (BadPattern pattern)
      else Inr (topic_matcher pattern))"

definition matchesAny :: "(string \<Rightarrow> bool) list \<Rightarrow> string \<Rightarrow> bool" where
  "matchesAny matchers value = list_ex (\<lambda>m. m value) matchers"

definition BUILTIN_COMPACT_MATCHERS :: "(string \<Rightarrow> bool) list" where
  "BUILTIN_COMPACT_MATCHERS =
     [\<lambda>value. suffix ''.state'' value, \<lambda>value. suffix ''.state-store'' value, \<lambda>value. suffix ''.job-state'' value]"

definition shouldCompactTopic :: "(string \<Rightarrow> bool) list \<Rightarrow> string \<Rightarrow> bool" where
  "shouldCompactTopic compiled topic = matchesAny (BUILTIN_COMPACT_MATCHERS @ compiled) topic"

definition set_default :: "string \<Rightarrow> string \<Rightarrow> (string, string) jsmap \<Rightarrow> (string, string) jsmap" where
  "set_default k v m = (case map_of m k of None \<Rightarrow> jset k v m | Some x \<Rightarrow> jset k x m)"

definition buildTopicConfigEntries ::
  "(string \<Rightarrow> bool) list \<Rightarrow> (string, string) jsmap \<Rightarrow> string \<Rightarrow> (string, string) jsmap" where
  "buildTopicConfigEntries compiled topicConfig topic =
     (if shouldCompactTopic compiled topic
      then set_default ''delete.retention.ms'' ''86400000''
             (set_default ''retention.ms'' ''-1'' (set_default ''cleanup.policy'' ''compact'' topicConfig))
      else topicConfig)"

section \<open>Settings\<close>

record KafkaAdapterOptions =
  kx_brokers :: "string list option"
  kx_clientId :: "string option"
  kx_groupId :: "string option"
  kx_fromBeginning :: "bool option"
  kx_retryDelayMs :: "js_number option"
  kx_ensureTopics :: "bool option"
  kx_topicConfig :: "(string, string) jsmap option"
  kx_compactTopicPatterns :: "string list option"
  kx_numPartitions :: "int option"
  kx_replicationFactor :: "int option"
  kx_tls :: "KafkaTlsConfig option"
  kx_sasl :: "KafkaSaslConfig option"
  kx_deadLetterSuffix :: "string option"

record KafkaSettings =
  kt_brokers :: "string list"
  kt_clientId :: string
  kt_groupId :: string
  kt_fromBeginning :: bool
  kt_retryDelayMs :: js_number
  kt_ensureTopics :: bool
  kt_numPartitions :: int
  kt_replicationFactor :: int
  kt_topicConfig :: "(string, string) jsmap"
  kt_compiled :: "(string \<Rightarrow> bool) list"
  kt_deadLetterSuffix :: string
  kt_ssl :: "ssl_options option"
  kt_sasl :: "SASLOptions option"

fun compile_all :: "string list \<Rightarrow> kafka_config_error + (string \<Rightarrow> bool) list" where
  "compile_all [] = Inr []"
| "compile_all (p # ps) =
     (case compileTopicPattern p of
        Inl e \<Rightarrow> Inl e
      | Inr m \<Rightarrow> (case compile_all ps of Inl e \<Rightarrow> Inl e | Inr ms \<Rightarrow> Inr (m # ms)))"

definition first_of :: "'a option \<Rightarrow> 'a option \<Rightarrow> 'a option" where
  "first_of x y = (case x of None \<Rightarrow> y | Some _ \<Rightarrow> x)"

text \<open>The constructor: options first, then the environment, then the defaults.\<close>

definition kafka_settings ::
  "(string \<Rightarrow> string option) \<Rightarrow> environment \<Rightarrow> KafkaAdapterOptions \<Rightarrow> kafka_config_error + KafkaSettings" where
  "kafka_settings files env options =
     (case compile_all (default_to (first_of (kx_compactTopicPatterns options) (parseList (env ''KAFKA_TOPIC_COMPACT_PATTERNS''))) []) of
        Inl e \<Rightarrow> Inl e
      | Inr compiled \<Rightarrow>
          (case resolveKafkaSslOptions files (first_of (kx_tls options) (parseTlsConfigFromEnv env)) of
             Inl e \<Rightarrow> Inl e
           | Inr ssl \<Rightarrow>
               (case resolveKafkaSaslOptions (first_of (kx_sasl options) (parseSaslConfigFromEnv env)) of
                  Inl e \<Rightarrow> Inl e
                | Inr sasl \<Rightarrow>
                    Inr \<lparr>kt_brokers = default_to (first_of (kx_brokers options) (parseBrokerList (env ''KAFKA_BROKERS''))) [''localhost:9092''],
                         kt_clientId = default_to (first_of (kx_clientId options) (env ''KAFKA_CLIENT_ID'')) ''oss-orchestrator'',
                         kt_groupId = default_to (first_of (kx_groupId options) (env ''KAFKA_GROUP_ID'')) ''oss-orchestrator-plan-executor'',
                         kt_fromBeginning = default_to (first_of (kx_fromBeginning options) (parseBoolean (env ''KAFKA_CONSUME_FROM_BEGINNING''))) False,
                         kt_retryDelayMs = default_to (kx_retryDelayMs options)
                           (case env ''KAFKA_RETRY_DELAY_MS'' of None \<Rightarrow> Finite 1000 | Some v \<Rightarrow> js_Number v),
                         kt_ensureTopics = default_to (first_of (kx_ensureTopics options) (parseBoolean (env ''KAFKA_ENSURE_TOPICS''))) True,
                         kt_numPartitions = default_to (first_of (kx_numPartitions options) (parsePositiveInteger (env ''KAFKA_TOPIC_PARTITIONS''))) 1,
                         kt_replicationFactor =
                           default_to (first_of (kx_replicationFactor options) (parsePositiveInteger (env ''KAFKA_TOPIC_REPLICATION_FACTOR''))) 1,
                         kt_topicConfig = default_to (first_of (kx_topicConfig options) (parseTopicConfig (env ''KAFKA_TOPIC_DEFAULT_CONFIG''))) [],
                         kt_compiled = compiled,
                         kt_deadLetterSuffix = default_to (first_of (kx_deadLetterSuffix options) (env ''KAFKA_DEAD_LETTER_SUFFIX'')) ''.dead'',
                         kt_ssl = ssl, kt_sasl = sasl\<rparr>)))"

section \<open>Patterns are globs\<close>

text \<open>The meaning of a pattern: a star stands for any text.\<close>

fun glob :: "string \<Rightarrow> string \<Rightarrow> bool" where
  "glob [] v = (v = [])"
| "glob (p # ps) v =
     (if p = CHR ''*'' then list_ex (\<lambda>k. glob ps (drop k v)) [0..<Suc (length v)]
      else (case v of [] \<Rightarrow> False | c # cs \<Rightarrow> c = p \<and> glob ps cs))"

text \<open>Segments in order, the last one at the end.\<close>

fun floats :: "string list \<Rightarrow> string \<Rightarrow> bool" where
  "floats [] v = True"
| "floats [s] v = suffix s v"
| "floats (s # t # r) v = (\<exists>k. prefix s (drop k v) \<and> floats (t # r) (drop (k + length s) v))"

lemma floats_more: "floats segs v \<Longrightarrow> floats segs (u @ v)"
proof (induction segs v arbitrary: u rule: floats.induct)
  case (3 s t r v)
  then obtain k where k: "prefix s (drop k v)" "floats (t # r) (drop (k + length s) v)" by auto
  then have "prefix s (drop (length u + k) (u @ v))" "floats (t # r) (drop (length u + k + length s) (u @ v))" by simp_all
  then show ?case unfolding floats.simps by blast
qed (auto simp: suffix_def)

lemma floats_drop: "floats segs (drop j v) \<Longrightarrow> i \<le> j \<Longrightarrow> floats segs (drop i v)"
proof -
  assume f: "floats segs (drop j v)" and "i \<le> j"
  then have "take (j - i) (drop i v) @ drop j v = drop i v"
    using append_take_drop_id [of "j - i" "drop i v"] by simp
  then show ?thesis using floats_more [OF f, of "take (j - i) (drop i v)"] by simp
qed

lemma split_on_none: "c \<notin> set s \<Longrightarrow> split_on c s = [s]"
  by (induction s) auto

lemma split_on_last: "last (split_on c (s @ [c])) = []"
  using split_on_append [of c s "[]"] by simp

lemma glob_text: "CHR ''*'' \<notin> set s \<Longrightarrow> glob s v \<longleftrightarrow> v = s"
  by (induction s arbitrary: v) (auto split: list.splits)

lemma glob_star: "glob (CHR ''*'' # ps) v \<longleftrightarrow> (\<exists>k. glob ps (drop k v))"
proof -
  have "glob ps (drop k v) \<Longrightarrow> \<exists>j \<in> {0..<Suc (length v)}. glob ps (drop j v)" for k
    by (rule bexI [of _ "min k (length v)"]) (auto simp: min_def)
  then show ?thesis by (auto simp: list_ex_iff simp del: upt_Suc)
qed

lemma glob_segment:
  "CHR ''*'' \<notin> set s \<Longrightarrow> glob (s @ ps) v \<longleftrightarrow> prefix s v \<and> glob ps (drop (length s) v)"
  by (induction s arbitrary: v) (auto split: list.splits)

lemma glob_floats: "(\<exists>k. glob ps (drop k v)) \<longleftrightarrow> floats (split_on CHR ''*'' ps) v"
proof (induction "length ps" arbitrary: ps v rule: less_induct)
  case less
  show ?case
  proof (cases "CHR ''*'' \<in> set ps")
    case False
    have "(\<exists>k. drop k v = ps) \<longleftrightarrow> suffix ps v"
      by (metis suffix_drop suffix_def append_eq_conv_conj)
    with False show ?thesis by (simp add: glob_text split_on_none)
  next
    case True
    then obtain s rest where ps: "ps = s @ CHR ''*'' # rest" and s: "CHR ''*'' \<notin> set s" by (meson split_list_first)
    obtain t r where t: "split_on CHR ''*'' rest = t # r" by (cases "split_on CHR ''*'' rest") auto
    have "(\<exists>k. glob ps (drop k v)) \<longleftrightarrow> (\<exists>k. prefix s (drop k v) \<and> (\<exists>j. glob rest (drop j (drop (k + length s) v))))"
      by (simp only: ps glob_segment [OF s] glob_star drop_drop add.commute)
    also have "\<dots> \<longleftrightarrow> (\<exists>k. prefix s (drop k v) \<and> floats (t # r) (drop (k + length s) v))"
      using less [of rest] ps t by (simp del: drop_drop)
    finally show ?thesis by (simp add: ps split_on_append split_on_none [OF s] t)
  qed
qed

lemma indexOf_Some:
  assumes "indexOf v s c = Some i"
  shows "c \<le> i" "prefix s (drop i v)" "i \<le> length v" "\<And>j. c \<le> j \<Longrightarrow> j < i \<Longrightarrow> \<not> prefix s (drop j v)"
proof -
  obtain n where n: "n < Suc (length v) - c" "i = c + n" "prefix s (drop i v)" "\<forall>j<n. \<not> prefix s (drop (c + j) v)"
    using assms by (auto simp: indexOf_def find_Some_iff nth_append simp del: upt_Suc)
  then show "c \<le> i" "prefix s (drop i v)" "i \<le> length v" by auto
  show "\<not> prefix s (drop j v)" if "c \<le> j" "j < i" for j
    using n that by (metis add_diff_inverse_nat less_diff_conv2 add.commute not_less add_less_cancel_left)
qed

lemma indexOf_None: "indexOf v s c = None \<Longrightarrow> s \<noteq> [] \<Longrightarrow> c \<le> i \<Longrightarrow> \<not> prefix s (drop i v)"
  by (cases "i < Suc (length v)") (auto simp: indexOf_def find_None_iff simp del: upt_Suc)

lemma find_segments_greedy:
  "c \<le> length v \<Longrightarrow> segs \<noteq> [] \<Longrightarrow>
     floats segs (drop c v) \<longleftrightarrow> find_segments v c segs \<noteq> None \<and> suffix (last segs) v"
proof (induction segs arbitrary: c)
  case (Cons s segs)
  show ?case
  proof (cases "s = []")
    case True
    show ?thesis
    proof (cases segs)
      case Nil
      with True show ?thesis by simp
    next
      case (Cons t r)
      have "floats (s # segs) (drop c v) \<longleftrightarrow> floats segs (drop c v)"
        using floats_drop [of segs _ v c] by (auto simp: Cons True intro: exI [of _ 0])
      with Cons.IH [of c] Cons.prems Cons True show ?thesis by simp
    qed
  next
    case ne: False
    show ?thesis
    proof (cases "indexOf v s c")
      case None
      from indexOf_None [OF this ne] have no: "\<not> prefix s (drop i v)" if "c \<le> i" for i using that by blast
      have "\<not> floats (s # segs) (drop c v)"
      proof (cases segs)
        case Nil
        have "\<not> suffix s (drop c v)"
        proof
          assume "suffix s (drop c v)"
          then obtain u where "drop c v = u @ s" by (auto simp: suffix_def)
          then have "drop (c + length u) v = s" by (metis add.commute drop_drop append_eq_conv_conj)
          with no [of "c + length u"] show False by simp
        qed
        with Nil show ?thesis by simp
      next
        case (Cons t r)
        then show ?thesis using no by (auto simp: add.commute)
      qed
      with None ne show ?thesis by simp
    next
      case (Some i)
      note i = indexOf_Some [OF Some]
      then have len: "i + length s \<le> length v" using prefix_length_le [OF i(2)] by simp
      show ?thesis
      proof (cases segs)
        case Nil
        have "suffix s (drop c v) \<longleftrightarrow> suffix s v"
        proof
          assume "suffix s (drop c v)"
          then show "suffix s v" using suffix_drop [of c v] by (rule suffix_order.trans)
        next
          assume "suffix s v"
          moreover have "length s \<le> length (drop c v)" using len i(1) by simp
          ultimately show "suffix s (drop c v)" by (intro suffix_length_suffix [OF _ suffix_drop])
        qed
        with Nil ne Some show ?thesis by simp
      next
        case (Cons t r)
        have "floats (s # segs) (drop c v) \<longleftrightarrow> floats segs (drop (i + length s) v)"
        proof
          assume "floats (s # segs) (drop c v)"
          then obtain k where k: "prefix s (drop (c + k) v)" "floats segs (drop (c + k + length s) v)"
            using Cons by (auto simp: ac_simps)
          then have "i \<le> c + k" using i(4) [of "c + k"] by (meson le_add1 not_less)
          then show "floats segs (drop (i + length s) v)" by (intro floats_drop [OF k(2)]) simp
        next
          assume "floats segs (drop (i + length s) v)"
          with i(1,2) show "floats (s # segs) (drop c v)" unfolding Cons
            by (auto intro!: exI [of _ "i - c"] simp: ac_simps)
        qed
        with Cons.IH [OF len] Cons ne Some show ?thesis by simp
      qed
    qed
  qed
qed simp

text \<open>
  C28.  A pattern with a wildcard matches a topic exactly when the topic can be obtained from it by
  replacing every star by some text; a pattern with other characters than those of topic names is
  rejected when it is compiled.
\<close>

theorem topic_pattern_is_glob:
  assumes "CHR ''*'' \<in> set pattern"
  shows "compileTopicPattern pattern =
    (if list_all (\<lambda>c. topic_char c \<or> c = CHR ''*'') pattern then Inr (glob pattern) else Inl (BadPattern pattern))"
proof -
  obtain s rest where p: "pattern = s @ CHR ''*'' # rest" and s: "CHR ''*'' \<notin> set s"
    using assms by (meson split_list_first)
  define segs where "segs = split_on CHR ''*'' rest"
  have split: "split_on CHR ''*'' pattern = s # segs" "segs \<noteq> []"
    by (simp_all add: p segs_def split_on_append split_on_none [OF s])
  have "topic_matcher pattern v = glob pattern v" for v
  proof -
    have G: "glob pattern v \<longleftrightarrow> prefix s v \<and> floats segs (drop (length s) v)"
      using glob_floats [of rest] by (simp add: p glob_segment [OF s] glob_star segs_def del: glob.simps drop_drop)
    have F: "floats segs (drop (length s) v) \<longleftrightarrow> find_segments v (length s) segs \<noteq> None \<and> suffix (last segs) v" if "prefix s v"
      using find_segments_greedy [OF prefix_length_le [OF that] split(2)] .
    have last: "suffix (last segs) v" if "last pattern = CHR ''*''"
    proof (cases "rest = []")
      case False
      then have "last rest = CHR ''*''" using that p by simp
      then have "rest = butlast rest @ [CHR ''*'']" using append_butlast_last_id [OF False] by simp
      then show ?thesis unfolding segs_def using split_on_last [of "CHR ''*''" "butlast rest"] by simp
    qed (simp add: segs_def)
    have start: "hd pattern = CHR ''*'' \<longleftrightarrow> s = []" using p s by (cases s) auto
    have wild: "find_segments v 0 (s # segs) = find_segments v (length s) segs" if "s = []" using that by simp
    show ?thesis
    proof (cases "pattern = ''*''")
      case True
      then show ?thesis by (simp add: topic_matcher_def list_ex_iff Bex_def) (metis drop_all lessI order_refl)
    next
      case False
      have "pattern \<noteq> []" using p by simp
      with False G F last start wild split show ?thesis
        by (auto simp: topic_matcher_def Let_def split: option.splits)
    qed
  qed
  then show ?thesis by (auto simp: compileTopicPattern_def fun_eq_iff)
qed

lemma topic_pattern_is_glob_witness:
  "compileTopicPattern ''plan.*.state'' = Inr (glob ''plan.*.state'') \<and> glob ''plan.*.state'' ''plan.a.state''"
  using topic_pattern_is_glob [of "''plan.*.state''"] by (simp add: topic_char_def)

text \<open>A pattern without a wildcard also matches longer names that begin and end with it.\<close>

lemma plain_pattern_matches_more:
  "compileTopicPattern ''plan.steps'' = Inr m \<Longrightarrow> m ''plan.steps.retry.plan.steps'' \<and> \<not> glob ''plan.steps'' ''plan.steps.retry.plan.steps''"
proof -
  assume "compileTopicPattern ''plan.steps'' = Inr m"
  then have "m = topic_matcher ''plan.steps''" by (simp add: compileTopicPattern_def topic_char_def)
  moreover have "topic_matcher ''plan.steps'' ''plan.steps.retry.plan.steps''" by code_simp
  moreover have "\<not> glob ''plan.steps'' ''plan.steps.retry.plan.steps''" by code_simp
  ultimately show ?thesis by simp
qed

end
