(* ===== verification/Kafka_Adapter.thy ===== *)
theory Kafka_Adapter
  imports Queue_Messages Kafka_Topics
begin

text \<open>
  \<^verbatim>\<open>queue/KafkaAdapter.ts\<close>: connection and subscriptions, publication with a claim on the
  idempotency key, and the handling of the messages of a partition with explicit offset commits.
  The cluster is outside the repository: its commands are the record \<open>kafka_ops\<close>.  The client
  library hands over the messages of a partition one after the other and goes on to the next when
  the callback has returned; a delayed publication takes effect when its timer has fired.
\<close>

section \<open>Connection and subscriptions\<close>

text \<open>\<open>kc_chain\<close>: the promise \<^verbatim>\<open>consumePromise\<close>, to which every call of \<^verbatim>\<open>consume\<close> appends, has not
  been rejected.\<close>

record kafka_connection =
  kc_connected :: bool
  kc_consumerRunning :: bool
  kc_consumers :: "string list"
  kc_subscribed :: "string list"
  kc_knownTopics :: "string list"
  kc_chain :: bool

definition new_kafka_connection :: kafka_connection where
  "new_kafka_connection =
     \<lparr>kc_connected = False, kc_consumerRunning = False, kc_consumers = [], kc_subscribed = [], kc_knownTopics = [],
      kc_chain = True\<rparr>"

datatype topic_answer = TopicCreated | TopicExists | TopicFailed

text \<open>What the cluster answers during one call.\<close>

record kafka_answers =
  an_connects :: bool
  an_topic :: topic_answer
  an_subscribes :: bool

definition ensureConnected :: "kafka_answers \<Rightarrow> kafka_connection \<Rightarrow> kafka_connection \<times> bool" where
  "ensureConnected an c =
     (if kc_connected c then (c, True)
      else if an_connects an then (c\<lparr>kc_connected := True\<rparr>, True)
      else (c, False))"

definition add_topic :: "string \<Rightarrow> string list \<Rightarrow> string list" where
  "add_topic t ts = (if t \<in> set ts then ts else ts @ [t])"

definition ensureTopicExists :: "bool \<Rightarrow> kafka_answers \<Rightarrow> string \<Rightarrow> kafka_connection \<Rightarrow> kafka_connection \<times> bool" where
  "ensureTopicExists ensureTopics an topic c =
     (if \<not> ensureTopics \<or> topic \<in> set (kc_knownTopics c) then (c, True)
      else if \<not> kc_connected c then (c, False)
      else if an_topic an = TopicFailed then (c, False)
      else (c\<lparr>kc_knownTopics := add_topic topic (kc_knownTopics c)\<rparr>, True))"

definition ensureConsumerRunning :: "kafka_connection \<Rightarrow> kafka_connection" where
  "ensureConsumerRunning c = (if kc_connected c then c\<lparr>kc_consumerRunning := True\<rparr> else c)"

definition kafka_consume :: "bool \<Rightarrow> kafka_answers \<Rightarrow> string \<Rightarrow> kafka_connection \<Rightarrow> kafka_connection \<times> bool" where
  "kafka_consume ensureTopics an queue c =
     (let c = c\<lparr>kc_consumers := add_topic queue (kc_consumers c)\<rparr> in
      if \<not> kc_chain c then (c, False)
      else
        let (c, connected) = ensureConnected an c in
        if \<not> connected then (c\<lparr>kc_chain := False\<rparr>, False)
        else
          let (c, exists) = ensureTopicExists ensureTopics an queue c in
          if \<not> exists then (c\<lparr>kc_chain := False\<rparr>, False)
          else
            let c = c\<lparr>kc_consumerRunning := False\<rparr> in
            if \<not> an_subscribes an then (c\<lparr>kc_chain := False\<rparr>, False)
            else (ensureConsumerRunning (c\<lparr>kc_subscribed := add_topic queue (kc_subscribed c)\<rparr>), True))"

definition kafka_close :: "kafka_connection \<Rightarrow> kafka_connection" where
  "kafka_close c =
     c\<lparr>kc_connected := False, kc_consumerRunning := False, kc_consumers := [], kc_subscribed := [], kc_knownTopics := []\<rparr>"

section \<open>Depth of a topic\<close>

text \<open>The last offset of each partition, and the offsets the group has committed, \<open>-1\<close> where it
  has not.\<close>

definition getQueueDepth :: "string \<Rightarrow> (nat \<times> int) list \<Rightarrow> (string \<times> (nat \<times> int) list) list \<Rightarrow> int" where
  "getQueueDepth queue topicOffsets groupOffsets =
     (let committed = fold (\<lambda>(topic, partitions) m. if topic = queue then fold (\<lambda>(p, offset). jset p offset) partitions m else m)
                        groupOffsets []
      in sum_list (map (\<lambda>(p, latest).
           let c = (case map_of committed p of None \<Rightarrow> latest | Some raw \<Rightarrow> if raw = -1 then latest else raw)
           in if latest > c then latest - c else 0) topicOffsets))"

section \<open>Publication\<close>

record kafka_message =
  km_key :: "string option"
  km_headers :: "(string, json) jsmap option"
  km_value :: "string option"

type_synonym topic_partition = "string \<times> nat"

record 'b kafka_ops =
  ka_send :: "string \<Rightarrow> kafka_message \<Rightarrow> 'b \<Rightarrow> 'b option"
  ka_fetch :: "topic_partition \<Rightarrow> nat \<Rightarrow> 'b \<Rightarrow> kafka_message option"
  ka_commitOffsets :: "topic_partition \<Rightarrow> nat \<Rightarrow> 'b \<Rightarrow> 'b option"

definition decodeHeaders :: "(string, json) jsmap option \<Rightarrow> (string, string) jsmap" where
  "decodeHeaders headers =
     (case headers of
        None \<Rightarrow> []
      | Some hs \<Rightarrow> fold (\<lambda>(k, v) acc. if v = JNull then acc else jset k (js_text v) acc) hs [])"

definition sanitizeHeaders :: "(string, string) jsmap \<Rightarrow> (string, string) jsmap" where
  "sanitizeHeaders headers = fold (\<lambda>(k, v) acc. jset k v acc) headers []"

record kafka_publish_options = EnqueueOptions +
  kp_attempt :: "attempt_count option"

definition resolvedAttempt :: "attempt_count option \<Rightarrow> attempt_count" where
  "resolvedAttempt a = (case a of Some (Attempt i) \<Rightarrow> Attempt i | _ \<Rightarrow> Attempt 0)"

definition toKafkaMessage :: "json \<Rightarrow> (string, string) jsmap \<Rightarrow> string option \<Rightarrow> kafka_message" where
  "toKafkaMessage payload headers key =
     \<lparr>km_key = key, km_headers = Some (text_headers headers), km_value = Some (JSON_stringify payload)\<rparr>"

definition published_message :: "json \<Rightarrow> kafka_publish_options \<Rightarrow> kafka_message" where
  "published_message payload options =
     (let attempt = resolvedAttempt (kp_attempt options)
      in toKafkaMessage (preparePayloadForAttempt payload attempt)
           (publish_headers (sanitizeHeaders (eo_headers options)) attempt (eo_idempotencyKey options))
           (eo_idempotencyKey options))"

text \<open>The time, whether \<^verbatim>\<open>ensureConnected\<close> and \<^verbatim>\<open>ensureTopicExists\<close> succeed.\<close>

record kafka_env =
  ke_now :: time
  ke_connected :: bool
  ke_topic :: bool

definition kafka_publish ::
  "'b kafka_ops \<Rightarrow> 'd dedupe_ops \<Rightarrow> rat \<Rightarrow> kafka_env \<Rightarrow> string \<Rightarrow> json \<Rightarrow> kafka_publish_options \<Rightarrow> 'b \<times> 'd \<Rightarrow> ('b \<times> 'd) \<times> bool" where
  "kafka_publish ops dops ttl env topic payload options = (\<lambda>(b, d).
     if \<not> ke_connected env \<or> \<not> ke_topic env then ((b, d), False)
     else
       let key = usable (eo_idempotencyKey options);
           claims = key \<noteq> None \<and> \<not> eo_skipDedupe options;
           (d, claimed) = (if claims then do_claim dops (ke_now env) (the key) ttl d else (d, True))
       in if \<not> claimed then ((b, d), True)
          else case ka_send ops topic (published_message payload options) b of
                 None \<Rightarrow> ((b, if claims then do_release dops (ke_now env) (the key) d else d), False)
               | Some b \<Rightarrow> ((b, d), True))"

section \<open>Consumption\<close>

record KafkaMessage =
  kh_offset :: nat
  kh_payload :: json
  kh_headers :: "(string, string) jsmap"
  kh_attempts :: attempt_count
  kh_acknowledged :: bool

text \<open>\<open>kf_position\<close> is the next offset of each partition that the client library hands over,
  \<open>kf_hand\<close> the message of a partition whose callback has not returned.\<close>

record ('b, 'd) kafka =
  kf_broker :: 'b
  kf_dedupe :: 'd
  kf_position :: "(topic_partition, nat) jsmap"
  kf_hand :: "(topic_partition, KafkaMessage) jsmap"

definition position :: "('b, 'd) kafka \<Rightarrow> topic_partition \<Rightarrow> nat" where
  "position w tp = jget_or 0 (kf_position w) tp"

definition kafka_releaseKey :: "'d dedupe_ops \<Rightarrow> time \<Rightarrow> (string, string) jsmap \<Rightarrow> 'd \<Rightarrow> 'd" where
  "kafka_releaseKey dops now headers d =
     (case usable (map_of headers ''x-idempotency-key'') of None \<Rightarrow> d | Some k \<Rightarrow> do_release dops now k d)"

text \<open>The callback returns: the client library goes on to the next offset.\<close>

definition advance :: "topic_partition \<Rightarrow> ('b, 'd) kafka \<Rightarrow> ('b, 'd) kafka" where
  "advance tp w = w\<lparr>kf_position := jset tp (Suc (position w tp)) (kf_position w), kf_hand := jdelete tp (kf_hand w)\<rparr>"

definition kafka_commit ::
  "'b kafka_ops \<Rightarrow> 'd dedupe_ops \<Rightarrow> time \<Rightarrow> topic_partition \<Rightarrow> KafkaMessage \<Rightarrow> ('b, 'd) kafka \<Rightarrow> ('b, 'd) kafka \<times> bool" where
  "kafka_commit ops dops now tp m w =
     (if kh_acknowledged m then (w, True)
      else
        let w = w\<lparr>kf_hand := jset tp (m\<lparr>kh_acknowledged := True\<rparr>) (kf_hand w)\<rparr>
        in case ka_commitOffsets ops tp (Suc (kh_offset m)) (kf_broker w) of
             None \<Rightarrow> (w, False)
           | Some b \<Rightarrow> (w\<lparr>kf_broker := b, kf_dedupe := kafka_releaseKey dops now (kh_headers m) (kf_dedupe w)\<rparr>, True))"

text \<open>A message without a handler, one that is no JSON, and one for the handler.\<close>

definition kafka_handleMessage ::
  "'b kafka_ops \<Rightarrow> 'd dedupe_ops \<Rightarrow> string list \<Rightarrow> time \<Rightarrow> topic_partition \<Rightarrow> kafka_message \<Rightarrow> ('b, 'd) kafka \<Rightarrow> ('b, 'd) kafka" where
  "kafka_handleMessage ops dops handlers now tp msg w =
     (let offset = position w tp in
      if fst tp \<notin> set handlers
      then advance tp (case ka_commitOffsets ops tp (Suc offset) (kf_broker w) of None \<Rightarrow> w | Some b \<Rightarrow> w\<lparr>kf_broker := b\<rparr>)
      else
        let headers = decodeHeaders (km_headers msg);
            attempts = header_attempts headers
        in case (case km_value msg of None \<Rightarrow> Some JNull | Some text \<Rightarrow> JSON_parse text) of
             None \<Rightarrow>
               advance tp
                 (case ka_commitOffsets ops tp (Suc offset) (kf_broker w) of
                    None \<Rightarrow> w
                  | Some b \<Rightarrow> w\<lparr>kf_broker := b, kf_dedupe := kafka_releaseKey dops now headers (kf_dedupe w)\<rparr>)
           | Some payload \<Rightarrow>
               w\<lparr>kf_hand := jset tp \<lparr>kh_offset = offset, kh_payload = payload, kh_headers = headers, kh_attempts = attempts,
                                    kh_acknowledged = False\<rparr> (kf_hand w)\<rparr>)"

definition kafka_retry ::
  "'b kafka_ops \<Rightarrow> 'd dedupe_ops \<Rightarrow> rat \<Rightarrow> kafka_env \<Rightarrow> topic_partition \<Rightarrow> KafkaMessage \<Rightarrow> ('b, 'd) kafka \<Rightarrow> ('b, 'd) kafka \<times> bool" where
  "kafka_retry ops dops ttl env tp m w =
     (let nextAttempt = next_attempt (kh_attempts m);
          options = \<lparr>eo_idempotencyKey = map_of (kh_headers m) ''x-idempotency-key'', eo_headers = kh_headers m,
                     eo_skipDedupe = True, kp_attempt = Some nextAttempt\<rparr>
      in case kafka_publish ops dops ttl env (fst tp) (preparePayloadForAttempt (kh_payload m) nextAttempt) options
                (kf_broker w, kf_dedupe w) of
           ((b, d), True) \<Rightarrow> kafka_commit ops dops (ke_now env) tp m (w\<lparr>kf_broker := b, kf_dedupe := d\<rparr>)
         | ((b, d), False) \<Rightarrow> (w\<lparr>kf_broker := b, kf_dedupe := d\<rparr>, False))"

definition kafka_deadLetter ::
  "'b kafka_ops \<Rightarrow> 'd dedupe_ops \<Rightarrow> rat \<Rightarrow> string \<Rightarrow> kafka_env \<Rightarrow> topic_partition \<Rightarrow> KafkaMessage \<Rightarrow> string option \<Rightarrow> string option \<Rightarrow>
     ('b, 'd) kafka \<Rightarrow> ('b, 'd) kafka \<times> bool" where
  "kafka_deadLetter ops dops ttl dsuffix env tp m reason target w =
     (let reason = (case reason of None \<Rightarrow> ''unspecified'' | Some r \<Rightarrow> r);
          targetTopic = (case target of None \<Rightarrow> fst tp @ dsuffix | Some t \<Rightarrow> t);
          options = \<lparr>eo_idempotencyKey = None, eo_headers = jset ''x-dead-letter-reason'' reason (kh_headers m),
                     eo_skipDedupe = True, kp_attempt = None\<rparr>
      in case kafka_publish ops dops ttl env targetTopic (kh_payload m) options (kf_broker w, kf_dedupe w) of
           ((b, d), True) \<Rightarrow> kafka_commit ops dops (ke_now env) tp m (w\<lparr>kf_broker := b, kf_dedupe := d\<rparr>)
         | ((b, d), False) \<Rightarrow> (w\<lparr>kf_broker := b, kf_dedupe := d\<rparr>, False))"

record kafka_config =
  kg_dedupeTtlMs :: rat
  kg_maxAttempts :: "string option"
  kg_deadLetterSuffix :: string
  kg_handlers :: "string list"

text \<open>The handler throws; errors of the retry or the dead letter are logged by the callback.\<close>

definition kafka_handler_failed ::
  "'b kafka_ops \<Rightarrow> 'd dedupe_ops \<Rightarrow> kafka_config \<Rightarrow> kafka_env \<Rightarrow> topic_partition \<Rightarrow> KafkaMessage \<Rightarrow> ('b, 'd) kafka \<Rightarrow> ('b, 'd) kafka" where
  "kafka_handler_failed ops dops cfg env tp m w =
     advance tp (fst
       (if attempts_exhausted (kg_maxAttempts cfg) (kh_attempts m)
        then kafka_deadLetter ops dops (kg_dedupeTtlMs cfg) (kg_deadLetterSuffix cfg) env tp m (Some ''max_attempts_exceeded'') None w
        else kafka_retry ops dops (kg_dedupeTtlMs cfg) env tp m w))"

definition kafka_enqueue ::
  "'b kafka_ops \<Rightarrow> 'd dedupe_ops \<Rightarrow> rat \<Rightarrow> kafka_env \<Rightarrow> string \<Rightarrow> json \<Rightarrow> EnqueueOptions \<Rightarrow> ('b, 'd) kafka \<Rightarrow> ('b, 'd) kafka \<times> bool" where
  "kafka_enqueue ops dops ttl env queue payload options w =
     (case kafka_publish ops dops ttl env queue payload
             (EnqueueOptions.extend options (kafka_publish_options.fields (Some (Attempt 0)))) (kf_broker w, kf_dedupe w) of
        ((b, d), r) \<Rightarrow> (w\<lparr>kf_broker := b, kf_dedupe := d\<rparr>, r))"

section \<open>Runs\<close>

datatype kafka_event =
    KEnqueue string json EnqueueOptions
  | KDeliver topic_partition
  | KAck topic_partition
  | KRetry topic_partition
  | KDeadLetter topic_partition "string option" "string option"
  | KReturns topic_partition
  | KHandlerFails topic_partition

definition kafka_in_hand ::
  "topic_partition \<Rightarrow> (KafkaMessage \<Rightarrow> ('b, 'd) kafka \<Rightarrow> ('b, 'd) kafka) \<Rightarrow> ('b, 'd) kafka \<Rightarrow> ('b, 'd) kafka" where
  "kafka_in_hand tp f w = (case map_of (kf_hand w) tp of None \<Rightarrow> w | Some m \<Rightarrow> f m w)"

fun kafka_step ::
  "'b kafka_ops \<Rightarrow> 'd dedupe_ops \<Rightarrow> kafka_config \<Rightarrow> kafka_env \<Rightarrow> kafka_event \<Rightarrow> ('b, 'd) kafka \<Rightarrow> ('b, 'd) kafka" where
  "kafka_step ops dops cfg env (KEnqueue queue payload options) w =
     fst (kafka_enqueue ops dops (kg_dedupeTtlMs cfg) env queue payload options w)"
| "kafka_step ops dops cfg env (KDeliver tp) w =
     (case map_of (kf_hand w) tp of
        Some _ \<Rightarrow> w
      | None \<Rightarrow>
          (case ka_fetch ops tp (position w tp) (kf_broker w) of
             None \<Rightarrow> w
           | Some msg \<Rightarrow> kafka_handleMessage ops dops (kg_handlers cfg) (ke_now env) tp msg w))"
| "kafka_step ops dops cfg env (KAck tp) w =
     kafka_in_hand tp (\<lambda>m w. fst (kafka_commit ops dops (ke_now env) tp m w)) w"
| "kafka_step ops dops cfg env (KRetry tp) w =
     kafka_in_hand tp (\<lambda>m w. fst (kafka_retry ops dops (kg_dedupeTtlMs cfg) env tp m w)) w"
| "kafka_step ops dops cfg env (KDeadLetter tp reason target) w =
     kafka_in_hand tp (\<lambda>m w. fst (kafka_deadLetter ops dops (kg_dedupeTtlMs cfg) (kg_deadLetterSuffix cfg) env tp m reason target w)) w"
| "kafka_step ops dops cfg env (KReturns tp) w = kafka_in_hand tp (\<lambda>m. advance tp) w"
| "kafka_step ops dops cfg env (KHandlerFails tp) w = kafka_in_hand tp (kafka_handler_failed ops dops cfg env tp) w"

fun kafka_run ::
  "'b kafka_ops \<Rightarrow> 'd dedupe_ops \<Rightarrow> kafka_config \<Rightarrow> (kafka_env \<times> kafka_event) list \<Rightarrow> ('b, 'd) kafka \<Rightarrow> ('b, 'd) kafka" where
  "kafka_run ops dops cfg [] w = w"
| "kafka_run ops dops cfg ((env, e) # es) w = kafka_run ops dops cfg es (kafka_step ops dops cfg env e w)"

definition new_kafka :: "'b \<Rightarrow> 'd \<Rightarrow> ('b, 'd) kafka" where
  "new_kafka b d = \<lparr>kf_broker = b, kf_dedupe = d, kf_position = [], kf_hand = []\<rparr>"

end
