(* ===== verification/Kafka_Properties.thy ===== *)
theory Kafka_Properties
  imports Kafka_Adapter Rabbit_Delivery
begin

text \<open>
  What the Kafka adapter guarantees over a cluster that keeps its documented promises, and where it
  differs from the RabbitMQ adapter.
\<close>

section \<open>The cluster\<close>

locale kafka_cluster =
  fixes ops :: "'b kafka_ops"
    and messages :: "'b \<Rightarrow> topic_partition \<Rightarrow> kafka_message list"
    and committed :: "'b \<Rightarrow> topic_partition \<Rightarrow> nat"
  assumes send_appends: "ka_send ops topic m b = Some b' \<Longrightarrow>
      committed b' = committed b \<and> (\<exists>p. messages b' = (messages b)((topic, p) := messages b (topic, p) @ [m]))"
    and fetch_log: "ka_fetch ops tp n b = (if n < length (messages b tp) then Some (messages b tp ! n) else None)"
    and commit_sets: "ka_commitOffsets ops tp n b = Some b' \<Longrightarrow> messages b' = messages b \<and> committed b' = (committed b)(tp := n)"
begin

lemma send_grows: "ka_send ops topic m b = Some b' \<Longrightarrow> length (messages b tp) \<le> length (messages b' tp)"
  using send_appends [of topic m b b'] by auto

lemma publish_grows:
  assumes "kafka_publish ops dops ttl env topic payload options (b, d) = ((b', d'), r)"
  shows "committed b' = committed b" "length (messages b tp) \<le> length (messages b' tp)"
  using assms send_appends [of topic _ b b'] send_grows [of topic _ b b' tp]
  by (auto simp: kafka_publish_def Let_def split: if_splits prod.splits option.splits)

end

text \<open>A partition: its length, its committed offset, the position, and the message in hand.\<close>

definition partition_ok :: "nat \<Rightarrow> nat \<Rightarrow> nat \<Rightarrow> KafkaMessage option \<Rightarrow> bool" where
  "partition_ok len com pos h \<longleftrightarrow>
     pos \<le> len \<and>
     (case h of
        None \<Rightarrow> com \<le> pos
      | Some m \<Rightarrow> kh_offset m = pos \<and> pos < len \<and> com \<le> pos + (if kh_acknowledged m then 1 else 0))"

lemma partition_ok_grows: "partition_ok len com pos h \<Longrightarrow> len \<le> len' \<Longrightarrow> partition_ok len' com pos h"
  by (auto simp: partition_ok_def split: option.splits)

lemma position_simps [simp]:
  "position (w\<lparr>kf_broker := b\<rparr>) = position w" "position (w\<lparr>kf_dedupe := d\<rparr>) = position w"
  "position (w\<lparr>kf_hand := h\<rparr>) = position w"
  by (simp_all add: position_def fun_eq_iff)

lemma position_advance [simp]: "position (advance tp w) tp' = (if tp' = tp then Suc (position w tp) else position w tp')"
  by (simp add: position_def advance_def jget_or_jset)

lemma advance_simps [simp]:
  "kf_broker (advance tp w) = kf_broker w" "kf_dedupe (advance tp w) = kf_dedupe w"
  "map_of (kf_hand (advance tp w)) = (map_of (kf_hand w))(tp := None)"
  by (simp_all add: advance_def jmap_simps)

context kafka_cluster
begin

definition offsets_ok :: "('b, 'd) kafka \<Rightarrow> bool" where
  "offsets_ok w \<longleftrightarrow>
     (\<forall>tp. partition_ok (length (messages (kf_broker w) tp)) (committed (kf_broker w) tp) (position w tp) (map_of (kf_hand w) tp))"

lemma offsets_okD:
  assumes "offsets_ok w"
  shows "partition_ok (length (messages (kf_broker w) tp)) (committed (kf_broker w) tp) (position w tp) (map_of (kf_hand w) tp)"
  using assms unfolding offsets_ok_def by blast

text \<open>A step on one partition.\<close>

lemma offsets_change:
  assumes ok: "offsets_ok w"
    and rest: "\<And>t. t \<noteq> tp \<Longrightarrow> length (messages (kf_broker w) t) \<le> length (messages (kf_broker w') t) \<and>
      committed (kf_broker w') t = committed (kf_broker w) t \<and> position w' t = position w t \<and>
      map_of (kf_hand w') t = map_of (kf_hand w) t"
    and here: "partition_ok (length (messages (kf_broker w') tp)) (committed (kf_broker w') tp) (position w' tp) (map_of (kf_hand w') tp)"
  shows "offsets_ok w'"
  unfolding offsets_ok_def
proof
  fix t
  show "partition_ok (length (messages (kf_broker w') t)) (committed (kf_broker w') t) (position w' t) (map_of (kf_hand w') t)"
    using here rest [of t] partition_ok_grows [OF offsets_okD [OF ok, of t]] by (cases "t = tp") simp_all
qed

lemma offsets_publish:
  assumes "offsets_ok w" "committed b = committed (kf_broker w)" "\<And>tp. length (messages (kf_broker w) tp) \<le> length (messages b tp)"
  shows "offsets_ok (w\<lparr>kf_broker := b, kf_dedupe := d\<rparr>)"
  by (rule offsets_change [OF assms(1)])
    (use assms(2,3) partition_ok_grows [OF offsets_okD [OF assms(1)]] in simp_all)

lemma offsets_commit:
  assumes ok: "offsets_ok w" and m: "map_of (kf_hand w) tp = Some m"
  shows "offsets_ok (fst (kafka_commit ops dops now tp m w))"
    and "jhas (kf_hand (fst (kafka_commit ops dops now tp m w))) tp"
proof -
  note tp = offsets_okD [OF ok, of tp, unfolded m]
  show "offsets_ok (fst (kafka_commit ops dops now tp m w))"
  proof (cases "kh_acknowledged m")
    case True
    with ok show ?thesis by (simp add: kafka_commit_def)
  next
    case False
    show ?thesis
    proof (cases "ka_commitOffsets ops tp (Suc (kh_offset m)) (kf_broker w)")
      case None
      show ?thesis
        by (rule offsets_change [OF ok, of tp]) (use None False tp in \<open>simp_all add: kafka_commit_def jmap_simps partition_ok_def\<close>)
    next
      case (Some b)
      note c = commit_sets [OF Some]
      show ?thesis
        by (rule offsets_change [OF ok, of tp]) (use Some False tp c in \<open>simp_all add: kafka_commit_def jmap_simps partition_ok_def\<close>)
    qed
  qed
  show "jhas (kf_hand (fst (kafka_commit ops dops now tp m w))) tp"
    using m by (auto simp: kafka_commit_def Let_def jmap_simps split: option.splits)
qed

lemma offsets_advance:
  assumes ok: "offsets_ok w" and pos: "position w tp < length (messages (kf_broker w) tp)" "committed (kf_broker w) tp \<le> Suc (position w tp)"
  shows "offsets_ok (advance tp w)"
  by (rule offsets_change [OF ok, of tp]) (use pos in \<open>simp_all add: partition_ok_def\<close>)

lemma offsets_hand_advance:
  assumes "offsets_ok w" "jhas (kf_hand w) tp"
  shows "offsets_ok (advance tp w)"
proof -
  obtain m where "map_of (kf_hand w) tp = Some m" using assms(2) by blast
  with offsets_okD [OF assms(1), of tp] show ?thesis
    by (intro offsets_advance [OF assms(1)]) (auto simp: partition_ok_def split: if_splits)
qed

lemma offsets_republish:
  assumes ok: "offsets_ok w" and m: "map_of (kf_hand w) tp = Some m"
    and p: "kafka_publish ops dops ttl env topic payload options (kf_broker w, kf_dedupe w) = ((b, d), r)"
    and w': "w' = fst (if r then kafka_commit ops dops now tp m (w\<lparr>kf_broker := b, kf_dedupe := d\<rparr>)
                      else (w\<lparr>kf_broker := b, kf_dedupe := d\<rparr>, False))"
  shows "offsets_ok w' \<and> jhas (kf_hand w') tp"
proof -
  let ?w = "w\<lparr>kf_broker := b, kf_dedupe := d\<rparr>"
  have w1: "offsets_ok ?w" using offsets_publish [OF ok publish_grows [OF p]] .
  have "map_of (kf_hand ?w) tp = Some m" using m by simp
  from offsets_commit [OF w1 this] w1 w' m show ?thesis by (cases r) auto
qed

lemma offsets_retry:
  assumes "offsets_ok w" "map_of (kf_hand w) tp = Some m" "w' = fst (kafka_retry ops dops ttl env tp m w)"
  shows "offsets_ok w' \<and> jhas (kf_hand w') tp"
proof -
  let ?next = "next_attempt (kh_attempts m)"
  let ?options = "\<lparr>eo_idempotencyKey = map_of (kh_headers m) ''x-idempotency-key'', eo_headers = kh_headers m,
    eo_skipDedupe = True, kp_attempt = Some ?next\<rparr>"
  obtain b d r where p: "kafka_publish ops dops ttl env (fst tp) (preparePayloadForAttempt (kh_payload m) ?next) ?options
      (kf_broker w, kf_dedupe w) = ((b, d), r)" by (metis surj_pair)
  have "w' = fst (if r then kafka_commit ops dops (ke_now env) tp m (w\<lparr>kf_broker := b, kf_dedupe := d\<rparr>)
      else (w\<lparr>kf_broker := b, kf_dedupe := d\<rparr>, False))"
    using p assms(3) by (cases r) (simp_all add: kafka_retry_def)
  from offsets_republish [OF assms(1,2) p this] show ?thesis .
qed

lemma offsets_deadLetter:
  assumes "offsets_ok w" "map_of (kf_hand w) tp = Some m" "w' = fst (kafka_deadLetter ops dops ttl dsuffix env tp m reason target w)"
  shows "offsets_ok w' \<and> jhas (kf_hand w') tp"
proof -
  let ?topic = "case target of None \<Rightarrow> fst tp @ dsuffix | Some t \<Rightarrow> t"
  let ?options = "\<lparr>eo_idempotencyKey = None,
    eo_headers = jset ''x-dead-letter-reason'' (case reason of None \<Rightarrow> ''unspecified'' | Some r \<Rightarrow> r) (kh_headers m),
    eo_skipDedupe = True, kp_attempt = None\<rparr>"
  obtain b d r where p: "kafka_publish ops dops ttl env ?topic (kh_payload m) ?options (kf_broker w, kf_dedupe w) = ((b, d), r)"
    by (metis surj_pair)
  have "w' = fst (if r then kafka_commit ops dops (ke_now env) tp m (w\<lparr>kf_broker := b, kf_dedupe := d\<rparr>)
      else (w\<lparr>kf_broker := b, kf_dedupe := d\<rparr>, False))"
    using p assms(3) by (cases r) (simp_all add: kafka_deadLetter_def)
  from offsets_republish [OF assms(1,2) p this] show ?thesis .
qed

text \<open>A message that is skipped: the offset is committed and the position advances.\<close>

lemma offsets_skip:
  assumes ok: "offsets_ok w" and pos: "position w tp < length (messages (kf_broker w) tp)" "committed (kf_broker w) tp \<le> position w tp"
    and b: "b = kf_broker w \<or> ka_commitOffsets ops tp (Suc (position w tp)) (kf_broker w) = Some b"
  shows "offsets_ok (advance tp (w\<lparr>kf_broker := b, kf_dedupe := d\<rparr>))"
  using b
proof
  assume "b = kf_broker w"
  then show ?thesis
    using pos by (intro offsets_change [OF ok, of tp]) (simp_all add: partition_ok_def)
next
  assume "ka_commitOffsets ops tp (Suc (position w tp)) (kf_broker w) = Some b"
  from commit_sets [OF this] show ?thesis
    using pos by (intro offsets_change [OF ok, of tp]) (simp_all add: partition_ok_def)
qed

lemma offsets_handle:
  assumes ok: "offsets_ok w" and free: "map_of (kf_hand w) tp = None" and f: "ka_fetch ops tp (position w tp) (kf_broker w) = Some msg"
  shows "offsets_ok (kafka_handleMessage ops dops handlers now tp msg w)"
proof -
  have pos: "position w tp < length (messages (kf_broker w) tp)" "committed (kf_broker w) tp \<le> position w tp"
    using f fetch_log [of tp "position w tp"] offsets_okD [OF ok, of tp] free by (auto simp: partition_ok_def split: if_splits)
  note skip = offsets_skip [OF ok pos]
  have same: "w = w\<lparr>kf_broker := kf_broker w, kf_dedupe := kf_dedupe w\<rparr>" by simp
  have id: "offsets_ok (advance tp w)" "\<And>b. ka_commitOffsets ops tp (Suc (position w tp)) (kf_broker w) = Some b \<Longrightarrow>
      offsets_ok (advance tp (w\<lparr>kf_broker := b\<rparr>))"
    using skip [of "kf_broker w" "kf_dedupe w"] skip [of _ "kf_dedupe w"] by simp_all
  have hand: "offsets_ok (w\<lparr>kf_hand := jset tp m (kf_hand w)\<rparr>)" if "kh_offset m = position w tp" "\<not> kh_acknowledged m" for m
    using pos that by (intro offsets_change [OF ok, of tp]) (simp_all add: partition_ok_def jmap_simps)
  show ?thesis
    unfolding kafka_handleMessage_def Let_def
    using id skip hand by (auto split: option.splits)
qed

lemma offsets_step:
  assumes ok: "offsets_ok w"
  shows "offsets_ok (kafka_step ops dops cfg env e w)"
proof (cases e)
  case (KEnqueue q payload options)
  obtain b d r where p: "kafka_publish ops dops (kg_dedupeTtlMs cfg) env q payload
      (EnqueueOptions.extend options (kafka_publish_options.fields (Some (Attempt 0)))) (kf_broker w, kf_dedupe w) = ((b, d), r)"
    by (metis surj_pair)
  with offsets_publish [OF ok publish_grows [OF p]] KEnqueue show ?thesis by (simp add: kafka_enqueue_def)
next
  case (KDeliver tp)
  with ok offsets_handle [OF ok] show ?thesis by (auto split: option.splits)
next
  case (KAck tp)
  with ok offsets_commit(1) [OF ok] show ?thesis by (auto simp: kafka_in_hand_def split: option.splits)
next
  case (KRetry tp)
  with ok offsets_retry [OF ok _ refl] show ?thesis by (auto simp: kafka_in_hand_def split: option.splits)
next
  case (KDeadLetter tp reason target)
  with ok offsets_deadLetter [OF ok _ refl] show ?thesis by (auto simp: kafka_in_hand_def split: option.splits)
next
  case (KReturns tp)
  with ok offsets_hand_advance [OF ok, of tp] show ?thesis by (auto simp: kafka_in_hand_def split: option.splits)
next
  case (KHandlerFails tp)
  show ?thesis
  proof (cases "map_of (kf_hand w) tp")
    case None
    with ok KHandlerFails show ?thesis by (simp add: kafka_in_hand_def)
  next
    case (Some m)
    have "offsets_ok (advance tp (fst (kafka_retry ops dops ttl env tp m w)))" for ttl
      using offsets_retry [OF ok Some refl] by (intro offsets_hand_advance) blast+
    moreover have "offsets_ok (advance tp (fst (kafka_deadLetter ops dops ttl dsuffix env tp m reason target w)))"
      for ttl dsuffix reason target
      using offsets_deadLetter [OF ok Some refl] by (intro offsets_hand_advance) blast+
    ultimately show ?thesis using KHandlerFails Some
      by (simp add: kafka_in_hand_def kafka_handler_failed_def)
  qed
qed

lemma offsets_run: "offsets_ok w \<Longrightarrow> offsets_ok (kafka_run ops dops cfg es w)"
proof (induction es arbitrary: w)
  case (Cons x es)
  then show ?case by (cases x) (simp add: offsets_step)
qed simp

end

section \<open>A cluster\<close>

record kafka_store =
  ks_logs :: "(topic_partition, kafka_message list) jsmap"
  ks_committed :: "(topic_partition, nat) jsmap"
  ks_refused :: "string list"

abbreviation store_log :: "kafka_store \<Rightarrow> topic_partition \<Rightarrow> kafka_message list" where
  "store_log b \<equiv> jget_or [] (ks_logs b)"

abbreviation store_committed :: "kafka_store \<Rightarrow> topic_partition \<Rightarrow> nat" where
  "store_committed b \<equiv> jget_or 0 (ks_committed b)"

definition kafka_model :: "kafka_store kafka_ops" where
  "kafka_model =
     \<lparr>ka_send = (\<lambda>topic m b.
        if topic \<in> set (ks_refused b) then None
        else Some (b\<lparr>ks_logs := jset (topic, 0) (store_log b (topic, 0) @ [m]) (ks_logs b)\<rparr>)),
      ka_fetch = (\<lambda>tp n b. if n < length (store_log b tp) then Some (store_log b tp ! n) else None),
      ka_commitOffsets = (\<lambda>tp n b. Some (b\<lparr>ks_committed := jset tp n (ks_committed b)\<rparr>))\<rparr>"

interpretation kafka_store: kafka_cluster kafka_model store_log store_committed
proof unfold_locales
  fix topic m and b b' :: kafka_store
  assume "ka_send kafka_model topic m b = Some b'"
  then have "ks_committed b' = ks_committed b" "store_log b' = (store_log b)((topic, 0) := store_log b (topic, 0) @ [m])"
    by (auto simp: kafka_model_def jget_or_jset fun_eq_iff split: if_splits)
  then show "store_committed b' = store_committed b \<and> (\<exists>p. store_log b' = (store_log b)((topic, p) := store_log b (topic, p) @ [m]))"
    by auto
qed (auto simp: kafka_model_def jget_or_jset fun_eq_iff)

text \<open>
  C27.  Offsets are never committed ahead of the handling: whatever handlers, publishers and the
  cluster do, the committed offset of a partition is at most the offset of the message being
  handled, plus one only when that message has been acknowledged, and at most the length of the
  partition.  After a crash no message that no handler has seen is skipped.
\<close>

theorem kafka_commits_follow_handling:
  assumes "kafka_cluster ops messages committed" "\<And>tp. committed b tp = 0"
    and "w = kafka_run ops dops cfg es (new_kafka b d)"
  shows "committed (kf_broker w) tp \<le> min (length (messages (kf_broker w) tp)) (position w tp +
    (case map_of (kf_hand w) tp of Some m \<Rightarrow> if kh_acknowledged m then 1 else 0 | None \<Rightarrow> 0))"
proof -
  have "kafka_cluster.offsets_ok messages committed (new_kafka b d)"
    unfolding kafka_cluster.offsets_ok_def [OF assms(1)]
    by (simp add: new_kafka_def position_def jget_or_def partition_ok_def assms(2))
  then have "kafka_cluster.offsets_ok messages committed w"
    using kafka_cluster.offsets_run [OF assms(1)] assms(3) by blast
  from kafka_cluster.offsets_okD [OF assms(1) this, of tp] show ?thesis by (auto simp: partition_ok_def split: option.splits if_splits)
qed

definition demo_kafka_env :: "time \<Rightarrow> kafka_env" where
  "demo_kafka_env now = \<lparr>ke_now = now, ke_connected = True, ke_topic = True\<rparr>"

definition demo_kafka_config :: "string \<Rightarrow> kafka_config" where
  "demo_kafka_config limit =
     \<lparr>kg_dedupeTtlMs = 300000, kg_maxAttempts = Some limit, kg_deadLetterSuffix = ''.dead'', kg_handlers = [''plan.steps'']\<rparr>"

definition keyed_options :: "string \<Rightarrow> EnqueueOptions" where
  "keyed_options key = \<lparr>eo_idempotencyKey = Some key, eo_headers = [], eo_skipDedupe = False\<rparr>"

definition demo_kafka :: "string list \<Rightarrow> string \<Rightarrow> kafka_event list \<Rightarrow> (kafka_store, memory_claims) kafka" where
  "demo_kafka refused limit es =
     kafka_run kafka_model memory_dedupe (demo_kafka_config limit) (map (\<lambda>e. (demo_kafka_env 0, e)) es)
       (new_kafka \<lparr>ks_logs = [], ks_committed = [], ks_refused = refused\<rparr> [])"

definition steps_partition :: topic_partition where
  "steps_partition = (''plan.steps'', 0)"

lemma kafka_commits_follow_handling_witness:
  "store_committed (kf_broker (demo_kafka [] ''3''
     [KEnqueue ''plan.steps'' demo_payload (keyed_options ''a''), KDeliver steps_partition, KAck steps_partition])) steps_partition \<le> 1"
proof -
  let ?w = "demo_kafka [] ''3''
     [KEnqueue ''plan.steps'' demo_payload (keyed_options ''a''), KDeliver steps_partition, KAck steps_partition]"
  have "length (store_log (kf_broker ?w) steps_partition) = 1" by code_simp
  moreover have "store_committed (kf_broker ?w) steps_partition \<le> length (store_log (kf_broker ?w) steps_partition)"
    using kafka_commits_follow_handling [OF kafka_store.kafka_cluster_axioms _ refl,
        of "\<lparr>ks_logs = [], ks_committed = [], ks_refused = []\<rparr>" memory_dedupe "demo_kafka_config ''3''" _ "[]" steps_partition]
    unfolding demo_kafka_def by (simp add: jget_or_def del: kafka_run.simps)
  ultimately show ?thesis by simp
qed

text \<open>A retry releases the key although its message is still to be handled, so the same key is
  accepted again and two messages with it are in flight.\<close>

lemma kafka_retry_frees_key:
  "let w = demo_kafka [] ''3'' [KEnqueue ''plan.steps'' demo_payload (keyed_options ''a''), KDeliver steps_partition,
             KHandlerFails steps_partition, KEnqueue ''plan.steps'' demo_payload (keyed_options ''a'')]
   in map km_key (drop (position w steps_partition) (store_log (kf_broker w) steps_partition)) = [Some ''a'', Some ''a'']"
  by code_simp

text \<open>When the dead letter cannot be published the message is lost: the callback swallows the error,
  the next message is handled, and its commit covers both.\<close>

lemma kafka_loses_message:
  "let w = demo_kafka [''plan.steps.dead''] ''1''
             [KEnqueue ''plan.steps'' demo_payload (keyed_options ''a''), KEnqueue ''plan.steps'' demo_payload (keyed_options ''b''),
              KDeliver steps_partition, KHandlerFails steps_partition,
              KDeliver steps_partition, KAck steps_partition, KReturns steps_partition]
   in store_committed (kf_broker w) steps_partition = 2 \<and> length (store_log (kf_broker w) steps_partition) = 2 \<and>
      store_log (kf_broker w) (''plan.steps.dead'', 0) = []"
  by code_simp

text \<open>One failed \<^verbatim>\<open>consume\<close> makes all later ones fail, whatever the cluster answers.\<close>

lemma failed_consume_is_final:
  assumes "\<not> an_connects an" "\<not> kc_connected c" "kc_chain c"
  shows "\<not> snd (kafka_consume e an queue c) \<and>
    (\<forall>an' queue'. \<not> snd (kafka_consume e an' queue' (fst (kafka_consume e an queue c))) \<and>
       kc_subscribed (fst (kafka_consume e an' queue' (fst (kafka_consume e an queue c)))) = kc_subscribed c)"
  using assms by (simp add: kafka_consume_def ensureConnected_def Let_def)

end
