(* ===== verification/Condition_Parser.thy ===== *)
theory Condition_Parser
  imports Js_Numbers
begin

text \<open>
  The expression language of condition and loop nodes, \<^verbatim>\<open>agents/StandardPipelines.ts\<close>:
  \<^verbatim>\<open>tokenize\<close>, the recursive descent parser that evaluates while it parses, and
  \<^verbatim>\<open>evaluateCondition\<close>.  A \<^verbatim>\<open>throw\<close> is \<open>None\<close>.  The parser has fuel for its
  nesting and its loops; every nested call and every turn consumes a token, so that one unit more
  than there are tokens is enough (\<open>parse_fuel_enough\<close>).
\<close>

section \<open>Tokens\<close>

definition is_word :: "char \<Rightarrow> bool" where
  "is_word c \<longleftrightarrow>
     (let n = (of_char c :: nat) in 65 \<le> n \<and> n \<le> 90 \<or> 97 \<le> n \<and> n \<le> 122 \<or> 48 \<le> n \<and> n \<le> 57 \<or> c = CHR ''_'')"

definition at_digit :: "string \<Rightarrow> bool" where
  "at_digit s \<longleftrightarrow> s \<noteq> [] \<and> is_digit (hd s)"

definition at_boundary :: "string \<Rightarrow> bool" where
  "at_boundary s \<longleftrightarrow> s = [] \<or> \<not> is_word (hd s)"

text \<open>A number at the head of the text, and the rest.\<close>

definition read_number :: "string \<Rightarrow> (string \<times> string) option" where
  "read_number s =
     (let (sign, s) = (if hd s = CHR ''-'' then (''-'', tl s) else ('''', s));
          whole = takeWhile is_digit s;
          rest = dropWhile is_digit s
      in if rest \<noteq> [] \<and> hd rest = CHR ''.'' \<and> at_digit (tl rest)
         then let frac = takeWhile is_digit (tl rest);
                  rest' = dropWhile is_digit (tl rest)
              in if rest' \<noteq> [] \<and> hd rest' = CHR ''.'' then None
                 else Some (sign @ whole @ ''.'' @ frac, rest')
         else Some (sign @ whole, rest))"

definition operators :: "string list" where
  "operators = [''==='', ''!=='', ''>='', ''<='', ''&&'', ''||'', ''>'', ''<'', ''('', '')'']"

definition match_operator :: "string \<Rightarrow> string option" where
  "match_operator s = List.find (\<lambda>p. take (length p) s = p) operators"

text \<open>The token at the head of a text that does not begin with white space.\<close>

definition next_token :: "string \<Rightarrow> (string \<times> string) option" where
  "next_token s =
     (case match_operator s of
        Some p \<Rightarrow> Some (p, drop (length p) s)
      | None \<Rightarrow>
          if take 4 s = ''true'' \<and> at_boundary (drop 4 s) then Some (''true'', drop 4 s)
          else if take 5 s = ''false'' \<and> at_boundary (drop 5 s) then Some (''false'', drop 5 s)
          else if at_digit s \<or> hd s = CHR ''-'' \<and> at_digit (tl s) then read_number s
          else None)"

lemma read_number_shorter:
  assumes "read_number s = Some (t, r)" "at_digit s \<or> hd s = CHR ''-'' \<and> at_digit (tl s)"
  shows "length r < length s"
proof -
  have less: "length (dropWhile is_digit u) < length u" if "at_digit u" for u
    using that length_dropWhile_le [of is_digit "tl u"] by (cases u) (auto simp: at_digit_def le_imp_less_Suc)
  have le: "length (dropWhile is_digit (tl (dropWhile is_digit u))) \<le> length (dropWhile is_digit u)" for u
    using length_dropWhile_le [of is_digit "tl (dropWhile is_digit u)"] by simp
  have neg: "hd s = CHR ''-'' \<Longrightarrow> \<not> at_digit s" by (auto simp: at_digit_def is_digit_simps)
  have tl: "length (tl s) \<le> length s" by simp
  show ?thesis
    using assms less [of s] less [of "tl s"] le [of s] le [of "tl s"] neg tl
    by (auto simp: read_number_def Let_def split: if_splits)
qed

lemma next_token_shorter: "next_token s = Some (t, r) \<Longrightarrow> s \<noteq> [] \<Longrightarrow> length r < length s"
  using read_number_shorter [of s t r]
  by (auto simp: next_token_def match_operator_def operators_def split: if_splits option.splits)

function tokenize :: "string \<Rightarrow> string list option" where
  "tokenize s =
     (if s = [] then Some []
      else if is_space (hd s) then tokenize (tl s)
      else case next_token s of
             None \<Rightarrow> None
           | Some (t, r) \<Rightarrow> map_option (Cons t) (tokenize r))"
  by pat_completeness auto
termination
  by (relation "measure length") (auto simp: next_token_shorter)

declare tokenize.simps [simp del]

section \<open>The parser\<close>

datatype cond_value = CB bool | CN rat

definition cond_truthy :: "cond_value \<Rightarrow> bool" where
  "cond_truthy v = (case v of CB b \<Rightarrow> b | CN q \<Rightarrow> q \<noteq> 0)"

definition cond_number :: "cond_value \<Rightarrow> rat" where
  "cond_number v = (case v of CB b \<Rightarrow> if b then 1 else 0 | CN q \<Rightarrow> q)"

text \<open>\<^verbatim>\<open>/^-?\d+(\.\d+)?$/\<close>, and \<^verbatim>\<open>parseFloat\<close> of such a token.\<close>

definition number_token :: "string \<Rightarrow> bool" where
  "number_token t \<longleftrightarrow> (at_digit t \<or> t \<noteq> [] \<and> hd t = CHR ''-'' \<and> at_digit (tl t)) \<and> read_number t = Some (t, [])"

definition parseFloat :: "string \<Rightarrow> rat" where
  "parseFloat t = (case js_Number t of Finite q \<Rightarrow> q | _ \<Rightarrow> 0)"

definition comparisons :: "string list" where
  "comparisons = [''==='', ''!=='', ''>'', ''<'', ''>='', ''<='']"

definition compare_values :: "string \<Rightarrow> cond_value \<Rightarrow> cond_value \<Rightarrow> cond_value" where
  "compare_values opr l r =
     CB (if opr = ''==='' then l = r
         else if opr = ''!=='' then l \<noteq> r
         else if opr = ''>'' then cond_number l > cond_number r
         else if opr = ''<'' then cond_number l < cond_number r
         else if opr = ''>='' then cond_number l \<ge> cond_number r
         else cond_number l \<le> cond_number r)"

definition peek_is :: "string list \<Rightarrow> string \<Rightarrow> bool" where
  "peek_is ts t \<longleftrightarrow> ts \<noteq> [] \<and> hd ts = t"

type_synonym parse_result = "(cond_value \<times> string list) option"

text \<open>The argument \<open>rec\<close> is \<^verbatim>\<open>parseOr\<close>, which \<^verbatim>\<open>parsePrimary\<close> calls after an opening
  parenthesis; the number bounds the turns of a loop.\<close>

definition parsePrimary :: "(string list \<Rightarrow> parse_result) \<Rightarrow> string list \<Rightarrow> parse_result" where
  "parsePrimary rec ts =
     (if ts = [] then None
      else if hd ts = ''('' then
        (case rec (tl ts) of
           None \<Rightarrow> None
         | Some (v, r) \<Rightarrow> if peek_is r '')'' then Some (v, tl r) else None)
      else if hd ts = ''true'' then Some (CB True, tl ts)
      else if hd ts = ''false'' then Some (CB False, tl ts)
      else if number_token (hd ts) then Some (CN (parseFloat (hd ts)), tl ts)
      else None)"

definition parseComparison :: "(string list \<Rightarrow> parse_result) \<Rightarrow> string list \<Rightarrow> parse_result" where
  "parseComparison rec ts =
     (case parsePrimary rec ts of
        None \<Rightarrow> None
      | Some (left, r) \<Rightarrow>
          if r \<noteq> [] \<and> hd r \<in> set comparisons
          then case parsePrimary rec (tl r) of
                 None \<Rightarrow> None
               | Some (right, r') \<Rightarrow> Some (compare_values (hd r) left right, r')
          else Some (left, r))"

primrec and_loop :: "(string list \<Rightarrow> parse_result) \<Rightarrow> nat \<Rightarrow> cond_value \<Rightarrow> string list \<Rightarrow> parse_result" where
  "and_loop rec 0 left ts = None"
| "and_loop rec (Suc n) left ts =
     (if peek_is ts ''&&''
      then case parseComparison rec (tl ts) of
             None \<Rightarrow> None
           | Some (right, r) \<Rightarrow> and_loop rec n (CB (cond_truthy left \<and> cond_truthy right)) r
      else Some (left, ts))"

definition parseAnd :: "(string list \<Rightarrow> parse_result) \<Rightarrow> nat \<Rightarrow> string list \<Rightarrow> parse_result" where
  "parseAnd rec n ts = (case parseComparison rec ts of None \<Rightarrow> None | Some (left, r) \<Rightarrow> and_loop rec n left r)"

primrec or_loop :: "(string list \<Rightarrow> parse_result) \<Rightarrow> nat \<Rightarrow> nat \<Rightarrow> cond_value \<Rightarrow> string list \<Rightarrow> parse_result" where
  "or_loop rec m 0 left ts = None"
| "or_loop rec m (Suc n) left ts =
     (if peek_is ts ''||''
      then case parseAnd rec m (tl ts) of
             None \<Rightarrow> None
           | Some (right, r) \<Rightarrow> or_loop rec m n (CB (cond_truthy left \<or> cond_truthy right)) r
      else Some (left, ts))"

primrec parseOr :: "nat \<Rightarrow> string list \<Rightarrow> parse_result" where
  "parseOr 0 ts = None"
| "parseOr (Suc n) ts =
     (case parseAnd (parseOr n) n ts of None \<Rightarrow> None | Some (left, r) \<Rightarrow> or_loop (parseOr n) n n left r)"

text \<open>More nesting and more turns than there are tokens cannot occur (\<open>parse_fuel_enough\<close>).\<close>

definition parseExpression :: "string \<Rightarrow> bool option" where
  "parseExpression expr =
     (case tokenize expr of
        None \<Rightarrow> None
      | Some tokens \<Rightarrow>
          (case parseOr (Suc (length tokens)) tokens of
             Some (result, []) \<Rightarrow> Some (cond_truthy result)
           | _ \<Rightarrow> None))"

definition evaluateCondition :: "string \<Rightarrow> bool" where
  "evaluateCondition condition = (case parseExpression (trim condition) of None \<Rightarrow> False | Some b \<Rightarrow> b)"

section \<open>Enough fuel\<close>

definition shrinks :: "(string list \<Rightarrow> parse_result) \<Rightarrow> bool" where
  "shrinks f \<longleftrightarrow> (\<forall>ts v r. f ts = Some (v, r) \<longrightarrow> length r < length ts)"

lemma primary_shrinks: "shrinks f \<Longrightarrow> shrinks (parsePrimary f)"
proof -
  assume f: "shrinks f"
  show ?thesis
    unfolding shrinks_def
  proof (intro allI impI)
    fix ts v r
    assume p: "parsePrimary f ts = Some (v, r)"
    then obtain t us where ts: "ts = t # us" by (cases ts) (auto simp: parsePrimary_def)
    show "length r < length ts"
    proof (cases "t = ''(''")
      case True
      then obtain w q where "f us = Some (w, q)" "r = tl q"
        using p ts by (auto simp: parsePrimary_def split: option.splits if_splits)
      with f have "length q < length us" by (simp add: shrinks_def)
      then show ?thesis using ts \<open>r = tl q\<close> by simp
    qed (use p ts in \<open>auto simp: parsePrimary_def split: if_splits\<close>)
  qed
qed

lemma shrinksD: "shrinks f \<Longrightarrow> f ts = Some (v, r) \<Longrightarrow> length r < length ts"
  by (simp add: shrinks_def)

lemma comparison_shrinks: "shrinks f \<Longrightarrow> shrinks (parseComparison f)"
proof -
  assume f: "shrinks f"
  note p = shrinksD [OF primary_shrinks [OF f]]
  show ?thesis
    unfolding shrinks_def
  proof (intro allI impI)
    fix ts v r
    assume c: "parseComparison f ts = Some (v, r)"
    then obtain left q where q: "parsePrimary f ts = Some (left, q)" by (auto simp: parseComparison_def split: option.splits)
    show "length r < length ts"
    proof (cases "q \<noteq> [] \<and> hd q \<in> set comparisons")
      case True
      then obtain right where "parsePrimary f (tl q) = Some (right, r)"
        using c q by (auto simp: parseComparison_def split: option.splits)
      with p [OF q] p [OF this] show ?thesis by simp
    qed (use c q p [OF q] in \<open>auto simp: parseComparison_def\<close>)
  qed
qed

lemma and_loop_rest: "shrinks f \<Longrightarrow> and_loop f n l ts = Some (v, r) \<Longrightarrow> length r \<le> length ts"
proof (induction n arbitrary: l ts)
  case (Suc n)
  then show ?case
    using shrinksD [OF comparison_shrinks [OF Suc.prems(1)], of "tl ts"]
    by (fastforce split: if_splits option.splits)
qed simp

lemma and_shrinks: "shrinks f \<Longrightarrow> shrinks (parseAnd f n)"
  unfolding shrinks_def [of "parseAnd f n"]
  using shrinksD [OF comparison_shrinks, of f] and_loop_rest [of f n]
  by (fastforce simp: parseAnd_def split: option.splits)

lemma or_loop_rest: "shrinks f \<Longrightarrow> or_loop f m n l ts = Some (v, r) \<Longrightarrow> length r \<le> length ts"
proof (induction n arbitrary: l ts)
  case (Suc n)
  then show ?case
    using shrinksD [OF and_shrinks [OF Suc.prems(1)], of m "tl ts"]
    by (fastforce split: if_splits option.splits)
qed simp

lemma or_shrinks: "shrinks (parseOr n)"
proof (induction n)
  case (Suc n)
  then show ?case
    unfolding shrinks_def [of "parseOr (Suc n)"]
    using shrinksD [OF and_shrinks [OF Suc], of n] or_loop_rest [OF Suc, of n n]
    by (fastforce split: option.splits)
qed (simp add: shrinks_def)

text \<open>Two parsers that agree on shorter token lists.\<close>

definition agree :: "nat \<Rightarrow> (string list \<Rightarrow> parse_result) \<Rightarrow> (string list \<Rightarrow> parse_result) \<Rightarrow> bool" where
  "agree k f g \<longleftrightarrow> shrinks f \<and> (\<forall>ts. length ts < k \<longrightarrow> f ts = g ts)"

lemma agree_le: "agree k f g \<Longrightarrow> j \<le> k \<Longrightarrow> agree j f g"
  by (simp add: agree_def)

lemma primary_agree: "agree (length ts) f g \<Longrightarrow> parsePrimary f ts = parsePrimary g ts"
  by (cases ts) (auto simp: parsePrimary_def agree_def)

lemma comparison_agree:
  assumes "agree (length ts) f g"
  shows "parseComparison f ts = parseComparison g ts"
proof -
  have f: "shrinks f" using assms by (simp add: agree_def)
  have p: "parsePrimary f ts = parsePrimary g ts" using primary_agree [OF assms] .
  have "parsePrimary f (tl r) = parsePrimary g (tl r)" if "parsePrimary f ts = Some (v, r)" for v r
    using shrinksD [OF primary_shrinks [OF f] that] agree_le [OF assms] by (intro primary_agree) simp
  with p show ?thesis by (auto simp: parseComparison_def split: option.splits)
qed

lemma and_loop_agree:
  "agree (length ts) f g \<Longrightarrow> length ts < n \<Longrightarrow> length ts < m \<Longrightarrow> and_loop f n l ts = and_loop g m l ts"
proof (induction n arbitrary: m l ts)
  case (Suc n)
  then obtain m' where m: "m = Suc m'" by (cases m) auto
  show ?case
  proof (cases "peek_is ts ''&&''")
    case True
    then have l: "length (tl ts) < length ts" by (cases ts) (auto simp: peek_is_def)
    have f: "shrinks f" using Suc.prems(1) by (simp add: agree_def)
    have c: "parseComparison f (tl ts) = parseComparison g (tl ts)"
      using agree_le [OF Suc.prems(1)] l by (intro comparison_agree) simp
    have "and_loop f n v r = and_loop g m' v r" if "parseComparison f (tl ts) = Some (right, r)" for v right r
      using shrinksD [OF comparison_shrinks [OF f] that] l Suc.prems m agree_le [OF Suc.prems(1)]
      by (intro Suc.IH) simp_all
    with True m c show ?thesis by (auto split: option.splits)
  qed (simp add: m)
qed simp

lemma and_agree:
  assumes "agree (length ts) f g" "length ts \<le> n" "length ts \<le> m"
  shows "parseAnd f n ts = parseAnd g m ts"
proof -
  have f: "shrinks f" using assms(1) by (simp add: agree_def)
  have "and_loop f n v r = and_loop g m v r" if "parseComparison f ts = Some (w, r)" for v w r
    using shrinksD [OF comparison_shrinks [OF f] that] assms agree_le [OF assms(1)] by (intro and_loop_agree) simp_all
  with comparison_agree [OF assms(1)] show ?thesis by (auto simp: parseAnd_def split: option.splits)
qed

lemma or_loop_agree:
  "agree (length ts) f g \<Longrightarrow> length ts < n \<Longrightarrow> length ts < m \<Longrightarrow> length ts \<le> n' \<Longrightarrow> length ts \<le> m' \<Longrightarrow>
     or_loop f n' n l ts = or_loop g m' m l ts"
proof (induction n arbitrary: m l ts)
  case (Suc n)
  then obtain k where m: "m = Suc k" by (cases m) auto
  show ?case
  proof (cases "peek_is ts ''||''")
    case True
    then have l: "length (tl ts) < length ts" by (cases ts) (auto simp: peek_is_def)
    have f: "shrinks f" using Suc.prems(1) by (simp add: agree_def)
    have c: "parseAnd f n' (tl ts) = parseAnd g m' (tl ts)"
      using agree_le [OF Suc.prems(1)] l Suc.prems by (intro and_agree) simp_all
    have "or_loop f n' n v r = or_loop g m' k v r" if "parseAnd f n' (tl ts) = Some (right, r)" for v right r
      using shrinksD [OF and_shrinks [OF f] that] l Suc.prems m agree_le [OF Suc.prems(1)]
      by (intro Suc.IH) simp_all
    with True m c show ?thesis by (auto split: option.splits)
  qed (simp add: m)
qed simp

lemma parse_fuel_enough: "length ts < n \<Longrightarrow> length ts < m \<Longrightarrow> parseOr n ts = parseOr m ts"
proof (induction "length ts" arbitrary: ts n m rule: less_induct)
  case less
  obtain n' m' where n: "n = Suc n'" "m = Suc m'"
    using less.prems by (metis not_less0 not0_implies_Suc)
  have agree: "agree (length ts) (parseOr n') (parseOr m')"
    unfolding agree_def using or_shrinks less.hyps less.prems n by (meson Suc_less_eq less_trans_Suc less_SucI)
  have a: "parseAnd (parseOr n') n' ts = parseAnd (parseOr m') m' ts"
    using agree less.prems n by (intro and_agree) simp_all
  have "or_loop (parseOr n') n' n' v r = or_loop (parseOr m') m' m' v r" if "parseAnd (parseOr n') n' ts = Some (w, r)" for v w r
    using shrinksD [OF and_shrinks [OF or_shrinks] that] agree_le [OF agree] less.prems n by (intro or_loop_agree) simp_all
  with a n show ?case by (cases "parseAnd (parseOr m') m' ts") auto
qed

section \<open>The equations of the code\<close>

definition parse_or :: "string list \<Rightarrow> parse_result" where
  "parse_or ts = parseOr (Suc (length ts)) ts"

definition parse_and :: "string list \<Rightarrow> parse_result" where
  "parse_and ts = parseAnd parse_or (length ts) ts"

definition ands :: "cond_value \<Rightarrow> string list \<Rightarrow> parse_result" where
  "ands l ts = and_loop parse_or (Suc (length ts)) l ts"

definition ors :: "cond_value \<Rightarrow> string list \<Rightarrow> parse_result" where
  "ors l ts = or_loop parse_or (length ts) (Suc (length ts)) l ts"

lemma parse_or_shrinks: "shrinks parse_or"
  unfolding shrinks_def parse_or_def using shrinksD [OF or_shrinks] by blast

lemma agree_self: "agree k parse_or parse_or"
  by (simp add: agree_def parse_or_shrinks)

lemma agree_fuel: "agree n (parseOr n) parse_or"
  unfolding agree_def parse_or_def using or_shrinks parse_fuel_enough [OF _ lessI] by blast

lemma ands_step:
  "ands l ts =
     (if peek_is ts ''&&''
      then case parseComparison parse_or (tl ts) of
             None \<Rightarrow> None | Some (right, r) \<Rightarrow> ands (CB (cond_truthy l \<and> cond_truthy right)) r
      else Some (l, ts))"
proof -
  have "and_loop parse_or (length ts) v r = ands v r" if "peek_is ts ''&&''" "parseComparison parse_or (tl ts) = Some (w, r)" for v w r
    unfolding ands_def
    using that shrinksD [OF comparison_shrinks [OF parse_or_shrinks] that(2)]
    by (intro and_loop_agree [OF agree_self]) (auto simp: peek_is_def)
  then show ?thesis by (auto simp: ands_def split: option.splits)
qed

lemma parse_and_step:
  "parse_and ts = (case parseComparison parse_or ts of None \<Rightarrow> None | Some (left, r) \<Rightarrow> ands left r)"
proof -
  have "and_loop parse_or (length ts) v r = ands v r" if "parseComparison parse_or ts = Some (w, r)" for v w r
    unfolding ands_def
    using shrinksD [OF comparison_shrinks [OF parse_or_shrinks] that] by (intro and_loop_agree [OF agree_self]) auto
  then show ?thesis by (auto simp: parse_and_def parseAnd_def split: option.splits)
qed

lemma ors_step:
  "ors l ts =
     (if peek_is ts ''||''
      then case parse_and (tl ts) of
             None \<Rightarrow> None | Some (right, r) \<Rightarrow> ors (CB (cond_truthy l \<or> cond_truthy right)) r
      else Some (l, ts))"
proof -
  have "parseAnd parse_or (length ts) (tl ts) = parse_and (tl ts)"
    unfolding parse_and_def by (intro and_agree [OF agree_self]) simp_all
  moreover have "or_loop parse_or (length ts) (length ts) v r = ors v r" if "peek_is ts ''||''" "parse_and (tl ts) = Some (w, r)" for v w r
    unfolding ors_def
    using that shrinksD [OF and_shrinks [OF parse_or_shrinks] that(2) [unfolded parse_and_def]]
    by (intro or_loop_agree [OF agree_self]) (auto simp: peek_is_def)
  ultimately show ?thesis by (auto simp: ors_def split: option.splits)
qed

lemma parse_or_step:
  "parse_or ts = (case parse_and ts of None \<Rightarrow> None | Some (left, r) \<Rightarrow> ors left r)"
proof -
  let ?f = "parseOr (length ts)"
  have a: "parseAnd ?f (length ts) ts = parse_and ts"
    unfolding parse_and_def by (intro and_agree [OF agree_fuel]) simp_all
  have "or_loop ?f (length ts) (length ts) v r = ors v r" if "parse_and ts = Some (w, r)" for v w r
    unfolding ors_def
    using shrinksD [OF and_shrinks [OF parse_or_shrinks] that [unfolded parse_and_def]]
    by (intro or_loop_agree [OF agree_le [OF agree_fuel]]) auto
  with a show ?thesis by (auto simp: parse_or_def split: option.splits)
qed

section \<open>Expressions\<close>

datatype cexp = Lit string | Truth bool | Compare string cexp cexp | Conj cexp cexp | Disj cexp cexp

fun cexp_value :: "cexp \<Rightarrow> cond_value" where
  "cexp_value (Lit s) = CN (parseFloat s)"
| "cexp_value (Truth b) = CB b"
| "cexp_value (Compare opr a b) = compare_values opr (cexp_value a) (cexp_value b)"
| "cexp_value (Conj a b) = CB (cond_truthy (cexp_value a) \<and> cond_truthy (cexp_value b))"
| "cexp_value (Disj a b) = CB (cond_truthy (cexp_value a) \<or> cond_truthy (cexp_value b))"

fun cexp_ok :: "cexp \<Rightarrow> bool" where
  "cexp_ok (Lit s) = number_token s"
| "cexp_ok (Truth b) = True"
| "cexp_ok (Compare opr a b) = (opr \<in> set comparisons \<and> cexp_ok a \<and> cexp_ok b)"
| "cexp_ok (Conj a b) = (cexp_ok a \<and> cexp_ok b)"
| "cexp_ok (Disj a b) = (cexp_ok a \<and> cexp_ok b)"

definition paren :: "bool \<Rightarrow> string list \<Rightarrow> string list" where
  "paren b ts = (if b then ''('' # ts @ ['')''] else ts)"

text \<open>The tokens of an expression where the grammar expects level \<open>p\<close>: 0 for a disjunction, 1 for a
  conjunction, 2 for a comparison, 3 for a primary expression.\<close>

fun cexp_tokens :: "nat \<Rightarrow> cexp \<Rightarrow> string list" where
  "cexp_tokens p (Lit s) = [s]"
| "cexp_tokens p (Truth b) = [if b then ''true'' else ''false'']"
| "cexp_tokens p (Compare opr a b) = paren (2 < p) (cexp_tokens 3 a @ [opr] @ cexp_tokens 3 b)"
| "cexp_tokens p (Conj a b) = paren (1 < p) (cexp_tokens 1 a @ [''&&''] @ cexp_tokens 2 b)"
| "cexp_tokens p (Disj a b) = paren (0 < p) (cexp_tokens 0 a @ [''||''] @ cexp_tokens 1 b)"

definition cexp_text :: "cexp \<Rightarrow> string" where
  "cexp_text e = join_strings '' '' (cexp_tokens 0 e)"

definition no_cmp :: "string list \<Rightarrow> bool" where
  "no_cmp ts \<longleftrightarrow> ts = [] \<or> hd ts \<notin> set comparisons"

definition no_and :: "string list \<Rightarrow> bool" where
  "no_and ts \<longleftrightarrow> no_cmp ts \<and> \<not> peek_is ts ''&&''"

definition is_primary :: "string list \<Rightarrow> cond_value \<Rightarrow> bool" where
  "is_primary ts v \<longleftrightarrow> (\<forall>rest. parsePrimary parse_or (ts @ rest) = Some (v, rest))"

definition is_comparison :: "string list \<Rightarrow> cond_value \<Rightarrow> bool" where
  "is_comparison ts v \<longleftrightarrow> (\<forall>rest. no_cmp rest \<longrightarrow> parseComparison parse_or (ts @ rest) = Some (v, rest))"

definition is_conjunction :: "string list \<Rightarrow> cond_value \<Rightarrow> bool" where
  "is_conjunction ts v \<longleftrightarrow> (\<forall>rest. no_cmp rest \<longrightarrow> parse_and (ts @ rest) = ands v rest)"

definition is_disjunction :: "string list \<Rightarrow> cond_value \<Rightarrow> bool" where
  "is_disjunction ts v \<longleftrightarrow> (\<forall>rest. no_and rest \<longrightarrow> parse_or (ts @ rest) = ors v rest)"

lemma primary_comparison: "is_primary ts v \<Longrightarrow> is_comparison ts v"
  by (auto simp: is_primary_def is_comparison_def parseComparison_def no_cmp_def)

lemma comparison_conjunction: "is_comparison ts v \<Longrightarrow> is_conjunction ts v"
  by (simp add: is_comparison_def is_conjunction_def parse_and_step)

lemma conjunction_disjunction: "is_conjunction ts v \<Longrightarrow> is_disjunction ts v"
  by (simp add: is_conjunction_def is_disjunction_def parse_or_step no_and_def ands_step)

lemma no_cmp_simps [simp]:
  "no_cmp ('')'' # ts)" "no_cmp (''&&'' # ts)" "no_cmp (''||'' # ts)" "no_and ('')'' # ts)" "no_and (''||'' # ts)"
  by (simp_all add: no_and_def no_cmp_def comparisons_def peek_is_def)

lemma disjunction_paren: "is_disjunction ts v \<Longrightarrow> is_primary (''('' # ts @ ['')'']) v"
  by (simp add: is_disjunction_def is_primary_def parsePrimary_def ors_step) (simp add: peek_is_def)

lemma compare_comparison:
  "is_primary ts v \<Longrightarrow> is_primary us w \<Longrightarrow> opr \<in> set comparisons \<Longrightarrow> is_comparison (ts @ [opr] @ us) (compare_values opr v w)"
  by (simp add: is_primary_def is_comparison_def parseComparison_def)

lemma and_conjunction:
  "is_conjunction ts v \<Longrightarrow> is_comparison us w \<Longrightarrow>
     is_conjunction (ts @ [''&&''] @ us) (CB (cond_truthy v \<and> cond_truthy w))"
  unfolding is_conjunction_def is_comparison_def by (simp add: ands_step [of v]) (simp add: peek_is_def)

lemma or_disjunction:
  assumes "is_disjunction ts v" "is_conjunction us w"
  shows "is_disjunction (ts @ [''||''] @ us) (CB (cond_truthy v \<or> cond_truthy w))"
  unfolding is_disjunction_def
proof (intro allI impI)
  fix rest
  assume r: "no_and rest"
  have "parse_or ((ts @ [''||''] @ us) @ rest) = ors v (''||'' # us @ rest)"
    using assms(1) by (simp add: is_disjunction_def)
  also have "parse_and (us @ rest) = Some (w, rest)"
    using assms(2) r by (simp add: is_conjunction_def no_and_def ands_step)
  then have "ors v (''||'' # us @ rest) = ors (CB (cond_truthy v \<or> cond_truthy w)) rest"
    by (simp add: ors_step [of v] peek_is_def)
  finally show "parse_or ((ts @ [''||''] @ us) @ rest) = ors (CB (cond_truthy v \<or> cond_truthy w)) rest" .
qed

lemma cexp_parses:
  "cexp_ok e \<Longrightarrow>
     is_disjunction (cexp_tokens 0 e) (cexp_value e) \<and> is_conjunction (cexp_tokens 1 e) (cexp_value e) \<and>
     is_comparison (cexp_tokens 2 e) (cexp_value e) \<and> is_primary (cexp_tokens 3 e) (cexp_value e)"
proof (induction e)
  case (Lit s)
  then have "s \<noteq> ''(''" "s \<noteq> ''true''" "s \<noteq> ''false''"
    by (auto simp: number_token_def at_digit_def is_digit_def)
  with Lit have "is_primary [s] (CN (parseFloat s))" by (simp add: is_primary_def parsePrimary_def)
  then show ?case
    using primary_comparison comparison_conjunction conjunction_disjunction by simp
next
  case (Truth b)
  have "is_primary [if b then ''true'' else ''false''] (CB b)" by (simp add: is_primary_def parsePrimary_def)
  then show ?case
    using primary_comparison comparison_conjunction conjunction_disjunction by simp
next
  case (Compare opr a b)
  then have c: "is_comparison (cexp_tokens 3 a @ [opr] @ cexp_tokens 3 b) (cexp_value (Compare opr a b))"
    using compare_comparison by simp
  note d = conjunction_disjunction [OF comparison_conjunction [OF c]]
  show ?case using c d comparison_conjunction [OF c] disjunction_paren [OF d] by (simp add: paren_def)
next
  case (Conj a b)
  then have c: "is_conjunction (cexp_tokens 1 a @ [''&&''] @ cexp_tokens 2 b) (cexp_value (Conj a b))"
    using and_conjunction by simp
  note p = disjunction_paren [OF conjunction_disjunction [OF c]]
  show ?case using c conjunction_disjunction [OF c] p primary_comparison [OF p] by (simp add: paren_def)
next
  case (Disj a b)
  then have d: "is_disjunction (cexp_tokens 0 a @ [''||''] @ cexp_tokens 1 b) (cexp_value (Disj a b))"
    using or_disjunction by simp
  note p = disjunction_paren [OF d]
  note c = primary_comparison [OF p]
  show ?case using d p c comparison_conjunction [OF c] by (simp add: paren_def)
qed

lemma tokens_parse: "cexp_ok e \<Longrightarrow> parseOr (Suc (length (cexp_tokens 0 e))) (cexp_tokens 0 e) = Some (cexp_value e, [])"
proof -
  assume "cexp_ok e"
  then have "is_disjunction (cexp_tokens 0 e) (cexp_value e)" using cexp_parses [of e] by simp
  then have "parse_or (cexp_tokens 0 e @ []) = ors (cexp_value e) []"
    unfolding is_disjunction_def by (rule allE [of _ "[]"]) (simp add: no_and_def no_cmp_def peek_is_def)
  then show ?thesis by (simp add: parse_or_def ors_step [of _ "[]"] peek_is_def)
qed

section \<open>Printed tokens are read back\<close>

definition ends_token :: "string \<Rightarrow> bool" where
  "ends_token s \<longleftrightarrow> s = [] \<or> hd s = CHR '' ''"

lemma space_class [simp]: "\<not> is_digit CHR '' ''" "\<not> is_word CHR '' ''" "is_space CHR '' ''" "\<not> is_digit CHR ''.''"
  by (simp_all add: is_digit_def is_word_def is_space_def)

lemma ends_token_digits:
  assumes "ends_token s"
  shows "takeWhile is_digit (u @ s) = takeWhile is_digit u" "dropWhile is_digit (u @ s) = dropWhile is_digit u @ s"
  using assms by (induction u) (cases s, auto simp: ends_token_def)+

lemma read_number_eq:
  "read_number s =
     (let sign = (if hd s = CHR ''-'' then ''-'' else []); u = (if hd s = CHR ''-'' then tl s else s);
          w = takeWhile is_digit u; r = dropWhile is_digit u; f = takeWhile is_digit (tl r); q = dropWhile is_digit (tl r)
      in if r \<noteq> [] \<and> hd r = CHR ''.'' \<and> at_digit (tl r)
         then if q \<noteq> [] \<and> hd q = CHR ''.'' then None else Some (sign @ w @ ''.'' @ f, q)
         else Some (sign @ w, r))"
  by (simp add: read_number_def Let_def)

lemma number_token_read:
  assumes t: "number_token t" and s: "ends_token s"
  shows "read_number (t @ s) = Some (t, s)"
proof -
  define sign u where "sign = (if hd t = CHR ''-'' then ''-'' else [])" and "u = (if hd t = CHR ''-'' then tl t else t)"
  define w r where "w = takeWhile is_digit u" and "r = dropWhile is_digit u"
  define f q where "f = takeWhile is_digit (tl r)" and "q = dropWhile is_digit (tl r)"
  have ne: "t \<noteq> []" using t by (auto simp: number_token_def at_digit_def)
  have now: "(if r \<noteq> [] \<and> hd r = CHR ''.'' \<and> at_digit (tl r)
      then if q \<noteq> [] \<and> hd q = CHR ''.'' then None else Some (sign @ w @ ''.'' @ f, q) else Some (sign @ w, r)) = Some (t, [])"
    using t by (simp only: number_token_def read_number_eq Let_def sign_def u_def w_def r_def f_def q_def)
  have digits: "takeWhile is_digit (u @ s) = w" "dropWhile is_digit (u @ s) = r @ s"
    using ends_token_digits [OF s] by (simp_all add: w_def r_def)
  have head: "hd (t @ s) = hd t" "(if hd t = CHR ''-'' then tl (t @ s) else t @ s) = u @ s"
    using ne by (simp_all add: u_def)
  have sp: "s \<noteq> [] \<Longrightarrow> hd s \<noteq> CHR ''.''" using s by (auto simp: ends_token_def)
  show ?thesis
  proof (cases "r = []")
    case True
    then show ?thesis
      using now sp unfolding read_number_eq Let_def head digits by (cases "s = []") (simp_all add: sign_def)
  next
    case False
    then have r: "hd r = CHR ''.''" "at_digit (tl r)" "q = []" "sign @ w @ ''.'' @ f = t"
      using now by (auto split: if_splits)
    have tail: "takeWhile is_digit (tl r @ s) = f" "dropWhile is_digit (tl r @ s) = s"
      using ends_token_digits [OF s, of "tl r"] r(3) by (simp_all add: f_def q_def)
    have "tl (r @ s) = tl r @ s" "hd (r @ s) = hd r" "at_digit (tl r @ s)"
      using False r(2) by (auto simp: at_digit_def)
    then show ?thesis
      using False r sp tail unfolding read_number_eq Let_def head digits by (cases "s = []") (simp_all add: sign_def)
  qed
qed

definition token :: "string \<Rightarrow> bool" where
  "token t \<longleftrightarrow> t \<in> set operators \<or> t = ''true'' \<or> t = ''false'' \<or> number_token t"

lemma token_nonspace: "token t \<Longrightarrow> t \<noteq> [] \<and> \<not> is_space (hd t)"
  by (auto simp: token_def operators_def number_token_def at_digit_def is_space_def is_digit_def)

lemma next_token_operator:
  assumes "t \<in> set operators" "ends_token s"
  shows "next_token (t @ s) = Some (t, s)"
proof -
  have "t = ''==='' \<or> t = ''!=='' \<or> t = ''>='' \<or> t = ''<='' \<or> t = ''&&'' \<or> t = ''||'' \<or> t = ''>'' \<or> t = ''<'' \<or>
      t = ''('' \<or> t = '')''"
    using assms(1) by (simp add: operators_def)
  moreover have "s = [] \<or> (\<exists>u. s = CHR '' '' # u)" using assms(2) by (cases s) (auto simp: ends_token_def)
  ultimately have "match_operator (t @ s) = Some t" by (elim disjE exE) (simp_all add: match_operator_def operators_def)
  then show ?thesis by (simp add: next_token_def)
qed

lemma no_operator: "is_digit c \<or> c = CHR ''-'' \<or> c = CHR ''t'' \<or> c = CHR ''f'' \<Longrightarrow> match_operator (c # s) = None"
proof -
  assume "is_digit c \<or> c = CHR ''-'' \<or> c = CHR ''t'' \<or> c = CHR ''f''"
  then have "c \<notin> set ''=!><&|()''" by (elim disjE) (auto simp: is_digit_def)
  then show ?thesis by (simp add: match_operator_def operators_def)
qed

lemma next_token_read:
  assumes "token t" "ends_token s"
  shows "next_token (t @ s) = Some (t, s)"
proof -
  consider "t \<in> set operators" | "t = ''true''" | "t = ''false''" | "number_token t"
    using assms(1) by (auto simp: token_def)
  then show ?thesis
  proof cases
    case 1
    then show ?thesis using assms(2) by (rule next_token_operator)
  next
    case 2
    then show ?thesis using assms(2) by (auto simp: next_token_def no_operator at_boundary_def ends_token_def)
  next
    case 3
    then show ?thesis using assms(2) by (auto simp: next_token_def no_operator at_boundary_def ends_token_def)
  next
    case 4
    then obtain c u where t: "t = c # u" by (cases t) (auto simp: number_token_def at_digit_def)
    then have c: "is_digit c \<or> c = CHR ''-'' \<and> at_digit u" using 4 by (auto simp: number_token_def at_digit_def)
    then have "c \<noteq> CHR ''t''" "c \<noteq> CHR ''f''" by (auto simp: is_digit_def)
    moreover have "at_digit (t @ s) \<or> hd (t @ s) = CHR ''-'' \<and> at_digit (tl (t @ s))"
      using c t by (auto simp: at_digit_def hd_append)
    moreover have "match_operator (t @ s) = None" using no_operator c t by auto
    ultimately show ?thesis
      using number_token_read [OF 4 assms(2)] t by (simp add: next_token_def)
  qed
qed

lemma tokenize_read:
  assumes "token t" "ends_token s"
  shows "tokenize (t @ s) = map_option (Cons t) (tokenize s)"
  using token_nonspace [OF assms(1)] next_token_read [OF assms] by (subst tokenize.simps) (auto simp: hd_append)

lemma tokenize_tokens: "list_all token ts \<Longrightarrow> tokenize (concat (map (\<lambda>t. '' '' @ t) ts)) = Some ts"
proof (induction ts)
  case (Cons t ts)
  have "ends_token (concat (map (\<lambda>t. '' '' @ t) ts))" by (cases ts) (auto simp: ends_token_def)
  with Cons tokenize_read show ?case by (simp add: tokenize.simps [of "CHR '' '' # _"])
qed (simp add: tokenize.simps)

lemma tokenize_join: "list_all token ts \<Longrightarrow> tokenize (join_strings '' '' ts) = Some ts"
proof (cases ts)
  case (Cons t us)
  assume ok: "list_all token ts"
  have "ends_token (concat (map (\<lambda>t. '' '' @ t) us))" by (cases us) (auto simp: ends_token_def)
  from tokenize_read [OF _ this, of t] Cons ok tokenize_tokens [of us]
  have "tokenize (t @ concat (map (\<lambda>t. '' '' @ t) us)) = Some ts" by simp
  with Cons show ?thesis by (simp only: join_strings_def list.distinct if_False list.sel concat.simps)
qed (simp add: join_strings_def tokenize.simps)

lemma cexp_tokens_ok: "cexp_ok e \<Longrightarrow> list_all token (cexp_tokens p e)"
  by (induction e arbitrary: p) (auto simp: paren_def token_def operators_def comparisons_def)

lemma cexp_tokens_ne [simp]: "cexp_tokens p e \<noteq> []"
  by (cases e) (auto simp: paren_def)

lemma number_token_chars:
  assumes "number_token t" "c \<in> set t"
  shows "is_digit c \<or> c = CHR ''-'' \<or> c = CHR ''.''"
proof -
  define sign u where "sign = (if hd t = CHR ''-'' then ''-'' else [])" and "u = (if hd t = CHR ''-'' then tl t else t)"
  define w f where "w = takeWhile is_digit u" and "f = takeWhile is_digit (tl (dropWhile is_digit u))"
  have "read_number t = Some (t, [])" using assms(1) by (simp add: number_token_def)
  then have "t = sign @ w @ ''.'' @ f \<or> t = sign @ w"
    unfolding read_number_eq Let_def sign_def [symmetric] u_def [symmetric] w_def [symmetric] f_def [symmetric]
    by (auto split: if_splits)
  moreover have "set sign \<subseteq> {CHR ''-''}" by (auto simp: sign_def)
  moreover have "x \<in> set w \<union> set f \<Longrightarrow> is_digit x" for x by (auto simp: w_def f_def dest: set_takeWhileD)
  ultimately have "c \<in> {CHR ''-'', CHR ''.''} \<union> set w \<union> set f" using assms(2) by auto
  with \<open>\<And>x. x \<in> set w \<union> set f \<Longrightarrow> is_digit x\<close> show ?thesis by auto
qed

lemma token_last:
  assumes "token t"
  shows "\<not> is_space (last t)"
proof (cases "number_token t")
  case True
  then have "\<not> is_space c" if "c \<in> set t" for c
    using number_token_chars [OF True that] by (auto simp: is_digit_not_space) (simp_all add: is_space_def)
  with token_nonspace [OF assms] show ?thesis by simp
next
  case False
  with assms show ?thesis by (auto simp: token_def operators_def is_space_def)
qed

lemma trim_join:
  assumes "list_all token ts" "ts \<noteq> []"
  shows "trim (join_strings '' '' ts) = join_strings '' '' ts"
proof (rule trim_id)
  obtain t us where ts: "ts = t # us" using assms(2) by (cases ts) auto
  then have t: "t \<noteq> []" "\<not> is_space (hd t)" using token_nonspace assms(1) by auto
  then show "join_strings '' '' ts \<noteq> []" "\<not> is_space (hd (join_strings '' '' ts))"
    by (simp_all add: ts join_strings_def)
  show "\<not> is_space (last (join_strings '' '' ts))"
  proof (cases "us = []")
    case True
    with ts assms(1) token_last show ?thesis by (simp add: join_strings_def)
  next
    case False
    then have l: "token (last us)" "last us \<noteq> []" using ts assms(1) token_nonspace by (auto simp: list_all_iff)
    have "concat (map (\<lambda>x. '' '' @ x) us) = concat (map (\<lambda>x. '' '' @ x) (butlast us)) @ '' '' @ last us"
      using append_butlast_last_id [OF False] by (metis concat.simps concat_append append_Nil2 list.simps(8,9) map_append)
    then have "join_strings '' '' ts = t @ concat (map (\<lambda>x. '' '' @ x) (butlast us)) @ '' '' @ last us"
      by (simp only: ts join_strings_def list.distinct if_False list.sel concat.simps)
    with l token_last [OF l(1)] show ?thesis by simp
  qed
qed

text \<open>
  C30.  The evaluator computes the value that the operators of the language prescribe: for every
  expression, written with the parentheses its grammar needs, the result is the truth of the value
  of the expression.
\<close>

theorem condition_evaluates:
  assumes "cexp_ok e"
  shows "evaluateCondition (cexp_text e) = cond_truthy (cexp_value e)"
proof -
  have tok: "list_all token (cexp_tokens 0 e)" using cexp_tokens_ok [OF assms] .
  have "trim (cexp_text e) = cexp_text e"
    unfolding cexp_text_def using tok by (intro trim_join) simp_all
  moreover have "tokenize (cexp_text e) = Some (cexp_tokens 0 e)"
    unfolding cexp_text_def using tok by (rule tokenize_join)
  ultimately show ?thesis
    using tokens_parse [OF assms] by (simp add: evaluateCondition_def parseExpression_def)
qed

lemma condition_evaluates_witness:
  "evaluateCondition ''( 3 > 2.5 || false ) && true'' = True"
proof -
  have ok: "cexp_ok (Conj (Disj (Compare ''>'' (Lit ''3'') (Lit ''2.5'')) (Truth False)) (Truth True))" by code_simp
  show ?thesis
    using condition_evaluates [OF ok] by (simp add: cexp_text_def paren_def join_strings_def) code_simp
qed

text \<open>The documented grammar lets a comparison be compared again; the parser rejects it.\<close>

lemma chained_comparison_rejected: "parseExpression ''1 < 2 === true'' = None \<and> \<not> evaluateCondition ''1 < 2 === true''"
  by code_simp


end
