(* ===== verification/Pipeline_Nodes.thy ===== *)
theory Pipeline_Nodes
  imports Execution_Graph Condition_Parser
begin

text \<open>
  The node handlers of \<^verbatim>\<open>PipelineExecutor\<close>, \<^verbatim>\<open>agents/StandardPipelines.ts\<close>: references to the
  outputs of earlier nodes, the dispatch of tasks to tools, conditions, merges and loops.  Tools come
  from a registry outside the file; a tool is the function that answers its calls, which are
  numbered because the same arguments may be answered differently.  Outputs are JSON values, so that
  the methods JavaScript objects inherit are not reachable by a reference of the model.
\<close>

section \<open>References\<close>

definition isDangerousProperty :: "string \<Rightarrow> bool" where
  "isDangerousProperty name \<longleftrightarrow>
     name \<in> {''__proto__'', ''constructor'', ''prototype'', ''__defineGetter__'', ''__defineSetter__'',
             ''__lookupGetter__'', ''__lookupSetter__''}"

text \<open>\<^verbatim>\<open>field in value\<close> and \<^verbatim>\<open>value[field]\<close>.\<close>

definition own_property :: "json \<Rightarrow> string \<Rightarrow> json option" where
  "own_property v field =
     (case v of
        JObj ms \<Rightarrow> map_of ms field
      | JArr xs \<Rightarrow>
          if field = ''length'' then Some (JNum (int (length xs)))
          else map_of (map (\<lambda>(i, x). (show_nat i, x)) (enumerate 0 xs)) field
      | _ \<Rightarrow> None)"

fun follow :: "json \<Rightarrow> string list \<Rightarrow> json option" where
  "follow v [] = Some v"
| "follow v (field # rest) =
     (if isDangerousProperty field then None
      else case own_property v field of None \<Rightarrow> None | Some x \<Rightarrow> follow x rest)"

type_synonym outputs = "(string, json) jsmap"

definition resolveVariableReference :: "outputs \<Rightarrow> string \<Rightarrow> json option" where
  "resolveVariableReference outs path =
     (let parts = split_on CHR ''.'' path; nodeId = hd parts; fieldPath = tl parts
      in case map_of outs nodeId of
           None \<Rightarrow> None
         | Some nodeOutput \<Rightarrow> if fieldPath = [] then Some nodeOutput else follow nodeOutput fieldPath)"

definition serializeValue :: "json \<Rightarrow> string" where
  "serializeValue v =
     (case v of
        JNull \<Rightarrow> ''null''
      | JStr s \<Rightarrow> s
      | JNum i \<Rightarrow> show_int i
      | JBool b \<Rightarrow> (if b then ''true'' else ''false'')
      | _ \<Rightarrow> JSON_stringify v)"

definition reference_text :: "string \<Rightarrow> string" where
  "reference_text path = CHR ''$'' # CHR 0x7B # path @ [CHR 0x7D]"

text \<open>The replacement of one reference.\<close>

definition replace_reference :: "outputs \<Rightarrow> string \<Rightarrow> string" where
  "replace_reference outs path =
     (let parts = split_on CHR ''.'' path; nodeId = hd parts; fieldPath = tl parts
      in case map_of outs nodeId of
           None \<Rightarrow> reference_text path
         | Some nodeOutput \<Rightarrow>
             if fieldPath = [] then serializeValue nodeOutput
             else (case follow nodeOutput fieldPath of
                     None \<Rightarrow> reference_text path
                   | Some v \<Rightarrow> serializeValue v))"

text \<open>\<^verbatim>\<open>replace(/\$\{([^}]+)\}/g, f)\<close>: the text between the braces is not empty and has no closing
  brace; the replaced text is not searched again.\<close>

definition opens_reference :: "string \<Rightarrow> bool" where
  "opens_reference s \<longleftrightarrow> take 2 s = [CHR ''$'', CHR 0x7B]"

definition reference_body :: "string \<Rightarrow> string" where
  "reference_body s = takeWhile (\<lambda>c. c \<noteq> CHR 0x7D) (drop 2 s)"

definition reference_rest :: "string \<Rightarrow> string" where
  "reference_rest s = dropWhile (\<lambda>c. c \<noteq> CHR 0x7D) (drop 2 s)"

function replace_references :: "(string \<Rightarrow> string) \<Rightarrow> string \<Rightarrow> string" where
  "replace_references f s =
     (if s = [] then []
      else if opens_reference s \<and> reference_body s \<noteq> [] \<and> reference_rest s \<noteq> []
      then f (reference_body s) @ replace_references f (tl (reference_rest s))
      else hd s # replace_references f (tl s))"
  by pat_completeness auto
termination
proof (relation "measure (\<lambda>(f, s). length s)", goal_cases)
  case (2 f s)
  have "length (reference_rest s) \<le> length s"
    using length_dropWhile_le [of "\<lambda>c. c \<noteq> CHR 0x7D" "drop 2 s"] by (simp add: reference_rest_def)
  with 2 show ?case by (cases "reference_rest s") auto
qed auto

declare replace_references.simps [simp del]

definition substituteVariables :: "outputs \<Rightarrow> string \<Rightarrow> string" where
  "substituteVariables outs template = replace_references (replace_reference outs) template"

definition pure_reference :: "string \<Rightarrow> string option" where
  "pure_reference s =
     (if opens_reference s \<and> reference_body s \<noteq> [] \<and> reference_rest s = [CHR 0x7D] then Some (reference_body s) else None)"

fun resolveConfigValue :: "outputs \<Rightarrow> json \<Rightarrow> json" where
  "resolveConfigValue outs (JStr s) =
     (case pure_reference s of
        Some path \<Rightarrow> (case resolveVariableReference outs path of None \<Rightarrow> JStr s | Some v \<Rightarrow> v)
      | None \<Rightarrow> JStr (substituteVariables outs s))"
| "resolveConfigValue outs (JArr xs) = JArr (map (resolveConfigValue outs) xs)"
| "resolveConfigValue outs (JObj ms) = JObj (map (\<lambda>(k, v). (k, resolveConfigValue outs v)) ms)"
| "resolveConfigValue outs v = v"

definition resolveNodeConfig :: "outputs \<Rightarrow> NodeDefinition \<Rightarrow> NodeDefinition" where
  "resolveNodeConfig outs node =
     node\<lparr>nd_config := map (\<lambda>(k, v). (k, resolveConfigValue outs v)) (nd_config node)\<rparr>"

section \<open>Tools\<close>

datatype handler_error =
    ToolNotFound string string
  | MissingOperation string
  | ToolError string
  | MissingCondition string
  | ConditionFailedError string string
  | LoopConditionType string
  | LoopItemsType string

type_synonym config = "(string, json) jsmap"

type_synonym tool = "nat \<Rightarrow> config \<Rightarrow> string + json"

type_synonym registry = "string \<Rightarrow> tool option"

definition call_tool :: "tool \<Rightarrow> nat \<Rightarrow> config \<Rightarrow> handler_error + json" where
  "call_tool t k cfg = (case t k cfg of Inl e \<Rightarrow> Inl (ToolError e) | Inr v \<Rightarrow> Inr v)"

definition executeGenericTool :: "registry \<Rightarrow> nat \<Rightarrow> NodeDefinition \<Rightarrow> handler_error + json" where
  "executeGenericTool reg k node =
     (case map_of (nd_config node) ''operation'' of
        None \<Rightarrow> Inl (MissingOperation (nd_id node))
      | Some operation \<Rightarrow>
          if \<not> truthy operation then Inl (MissingOperation (nd_id node))
          else case (case operation of JStr s \<Rightarrow> reg s | _ \<Rightarrow> None) of
                 None \<Rightarrow> Inl (ToolNotFound (js_text operation) (nd_id node))
               | Some t \<Rightarrow> call_tool t k (nd_config node))"

definition field_as :: "string \<Rightarrow> string \<Rightarrow> config \<Rightarrow> config" where
  "field_as name source cfg = opt_field name (map_of cfg source)"

definition with_fields :: "config \<Rightarrow> config \<Rightarrow> config" where
  "with_fields first cfg = fold (\<lambda>(k, v). jset k v) cfg first"

definition executeTestTool :: "registry \<Rightarrow> nat \<Rightarrow> NodeDefinition \<Rightarrow> handler_error + json" where
  "executeTestTool reg k node =
     (case reg ''test-runner'' of
        None \<Rightarrow> Inl (ToolNotFound ''test-runner'' (nd_id node))
      | Some t \<Rightarrow>
          call_tool t k (field_as ''framework'' ''framework'' (nd_config node) @
            field_as ''pattern'' ''testPattern'' (nd_config node) @ field_as ''coverage'' ''coverage'' (nd_config node)))"

definition executeRepositoryTool :: "registry \<Rightarrow> nat \<Rightarrow> NodeDefinition \<Rightarrow> handler_error + json" where
  "executeRepositoryTool reg k node =
     (case reg ''repository'' of
        None \<Rightarrow> Inl (ToolNotFound ''repository'' (nd_id node))
      | Some t \<Rightarrow> call_tool t k (with_fields (field_as ''operation'' ''operation'' (nd_config node)) (nd_config node)))"

definition executeAnalysisTool :: "registry \<Rightarrow> nat \<Rightarrow> NodeDefinition \<Rightarrow> handler_error + json" where
  "executeAnalysisTool reg k node =
     (case reg ''ai-analyzer'' of
        None \<Rightarrow> executeGenericTool reg k node
      | Some t \<Rightarrow> call_tool t k (nd_config node))"

definition executeSearchTool :: "registry \<Rightarrow> nat \<Rightarrow> NodeDefinition \<Rightarrow> handler_error + json" where
  "executeSearchTool reg k node =
     (case reg ''semantic-search'' of
        None \<Rightarrow> Inl (ToolNotFound ''semantic-search'' (nd_id node))
      | Some t \<Rightarrow> call_tool t k (field_as ''query'' ''query'' (nd_config node) @ field_as ''topK'' ''topK'' (nd_config node)))"

definition review_tool :: "string \<Rightarrow> string option" where
  "review_tool operation =
     map_of [(''lint'', ''linter''), (''security-scan'', ''security-scanner''),
             (''performance-analysis'', ''performance-analyzer''), (''doc-check'', ''documentation-checker'')] operation"

definition executeReviewTool :: "registry \<Rightarrow> nat \<Rightarrow> string \<Rightarrow> NodeDefinition \<Rightarrow> handler_error + json" where
  "executeReviewTool reg k operation node =
     (case Option.bind (review_tool operation) reg of
        None \<Rightarrow> executeGenericTool reg k node
      | Some t \<Rightarrow> call_tool t k (with_fields (field_as ''files'' ''files'' (nd_config node)) (nd_config node)))"

definition taskHandler :: "registry \<Rightarrow> outputs \<Rightarrow> NodeDefinition \<Rightarrow> handler_error + json" where
  "taskHandler reg outs node =
     (let resolved = resolveNodeConfig outs node
      in case map_of (nd_config resolved) ''operation'' of
           Some (JStr operation) \<Rightarrow>
             if operation = ''test'' then executeTestTool reg 0 resolved
             else if operation \<in> {''git-diff'', ''git-log'', ''git-commit''} then executeRepositoryTool reg 0 resolved
             else if operation \<in> {''analyze'', ''analyze-error'', ''analyze-quality''} then executeAnalysisTool reg 0 resolved
             else if operation = ''semantic-search'' then executeSearchTool reg 0 resolved
             else if operation \<in> {''lint'', ''security-scan'', ''performance-analysis'', ''doc-check''}
             then executeReviewTool reg 0 operation resolved
             else executeGenericTool reg 0 resolved
         | _ \<Rightarrow> executeGenericTool reg 0 resolved)"

section \<open>Parallel, condition and merge nodes\<close>

definition parallelHandler :: "registry \<Rightarrow> outputs \<Rightarrow> NodeDefinition \<Rightarrow> handler_error + json" where
  "parallelHandler reg outs node =
     (let resolved = resolveNodeConfig outs node
      in case map_of (nd_config resolved) ''operation'' of
           Some operation \<Rightarrow>
             if truthy operation then executeGenericTool reg 0 resolved
             else Inr (JObj ([(''status'', JStr ''completed''), (''nodeId'', JStr (nd_id resolved))] @
               opt_field ''description'' (map_option JStr (nd_description resolved)) @
               [(''parallelBranches'', JArr (map JStr (nd_dependencies resolved)))]))
         | None \<Rightarrow>
             Inr (JObj ([(''status'', JStr ''completed''), (''nodeId'', JStr (nd_id resolved))] @
               opt_field ''description'' (map_option JStr (nd_description resolved)) @
               [(''parallelBranches'', JArr (map JStr (nd_dependencies resolved)))])))"

definition condition_holds :: "json \<Rightarrow> bool" where
  "condition_holds v =
     (case v of
        JBool b \<Rightarrow> b
      | JNum i \<Rightarrow> i \<noteq> 0
      | JStr s \<Rightarrow> evaluateCondition s
      | JArr xs \<Rightarrow> xs \<noteq> []
      | JObj ms \<Rightarrow> ms \<noteq> []
      | JNull \<Rightarrow> False)"

definition evaluated_text :: "json \<Rightarrow> string" where
  "evaluated_text v =
     (case v of
        JArr xs \<Rightarrow> ''[array length='' @ show_nat (length xs) @ '']''
      | JObj ms \<Rightarrow> ''[object keys='' @ show_nat (length ms) @ '']''
      | _ \<Rightarrow> js_text v)"

definition conditionHandler :: "outputs \<Rightarrow> NodeDefinition \<Rightarrow> handler_error + json" where
  "conditionHandler outs node =
     (case map_of (nd_config node) ''condition'' of
        None \<Rightarrow> Inl (MissingCondition (nd_id node))
      | Some JNull \<Rightarrow> Inl (MissingCondition (nd_id node))
      | Some original \<Rightarrow>
          let resolved = resolveConfigValue outs original;
              conditionForLog = (case original of JStr s \<Rightarrow> s | _ \<Rightarrow> JSON_stringify original)
          in if condition_holds resolved
             then Inr (JObj [(''status'', JStr ''passed''), (''condition'', JStr conditionForLog),
                             (''evaluatedCondition'', JStr (evaluated_text resolved)),
                             (''result'', JBool True), (''passed'', JBool True)])
             else Inl (ConditionFailedError conditionForLog (evaluated_text resolved)))"

definition findings_of :: "json \<Rightarrow> json list" where
  "findings_of v = (case v of JObj ms \<Rightarrow> (case map_of ms ''findings'' of Some (JArr xs) \<Rightarrow> xs | _ \<Rightarrow> []) | _ \<Rightarrow> [])"

fun merge_deps :: "outputs \<Rightarrow> string list \<Rightarrow> config \<times> json list \<Rightarrow> config \<times> json list" where
  "merge_deps outs [] acc = acc"
| "merge_deps outs (d # ds) (merged, findings) =
     (case map_of outs d of
        None \<Rightarrow> merge_deps outs ds (merged, findings)
      | Some out \<Rightarrow> merge_deps outs ds (jset d out merged, findings @ findings_of out))"

definition mergeHandler :: "outputs \<Rightarrow> NodeDefinition \<Rightarrow> json" where
  "mergeHandler outs node =
     (let (merged, findings) = merge_deps outs (nd_dependencies node) ([], [])
      in JObj [(''status'', JStr ''completed''), (''mergedResults'', JObj merged), (''findings'', JArr findings),
               (''mergedCount'', JNum (int (length merged)))])"

section \<open>Loops\<close>

definition coerceToInt :: "json option \<Rightarrow> int \<Rightarrow> int \<Rightarrow> int \<Rightarrow> int" where
  "coerceToInt value defaultValue lo hi =
     (case value of
        None \<Rightarrow> defaultValue
      | Some JNull \<Rightarrow> defaultValue
      | Some v \<Rightarrow>
          (case js_Number_of v of
             Finite q \<Rightarrow> if q < of_int lo \<or> q > of_int hi then defaultValue else \<lfloor>q\<rfloor>
           | _ \<Rightarrow> defaultValue))"

record loop_plan =
  lp_max :: nat
  lp_condition :: "string option"
  lp_items :: "json list option"
  lp_operation :: bool
  lp_delayMs :: int
  lp_burst :: int

definition iteration_key :: "string \<Rightarrow> nat \<Rightarrow> string" where
  "iteration_key nodeId i = ''__loop:'' @ nodeId @ '':iteration:'' @ show_nat i"

definition iteration_node :: "loop_plan \<Rightarrow> NodeDefinition \<Rightarrow> nat \<Rightarrow> NodeDefinition" where
  "iteration_node lp resolved i =
     resolved\<lparr>nd_config :=
       jset ''_totalItems'' (case lp_items lp of None \<Rightarrow> JNull | Some xs \<Rightarrow> JNum (int (length xs)))
        (jset ''_item'' (case lp_items lp of None \<Rightarrow> JNull | Some xs \<Rightarrow> xs ! i)
          (jset ''_iteration'' (JNum (int i)) (nd_config resolved)))\<rparr>"

text \<open>The state of the loop: the outputs it extends, the results, the keys to delete, and the number
  of delays.\<close>

record loop_state =
  ls_outputs :: outputs
  ls_results :: "json list"
  ls_keys :: "string list"
  ls_delays :: nat

fun loop_turns ::
  "registry \<Rightarrow> loop_plan \<Rightarrow> NodeDefinition \<Rightarrow> nat \<Rightarrow> nat \<Rightarrow> loop_state \<Rightarrow> loop_state \<times> (handler_error + nat)" where
  "loop_turns reg lp resolved 0 i ls = (ls, Inr i)"
| "loop_turns reg lp resolved (Suc left) i ls =
     (let ls = (if lp_delayMs lp > 0 \<and> i > 0 \<and> int i mod lp_burst lp = 0 then ls\<lparr>ls_delays := Suc (ls_delays ls)\<rparr> else ls) in
      if (case lp_condition lp of None \<Rightarrow> False
            | Some c \<Rightarrow> \<not> evaluateCondition (substituteVariables (ls_outputs ls) c)) then (ls, Inr i)
      else if (case lp_items lp of None \<Rightarrow> False | Some xs \<Rightarrow> i \<ge> length xs) then (ls, Inr i)
      else
        let next = (\<lambda>ls. if lp_condition lp = None \<and> lp_items lp = None then (ls, Inr (Suc i))
                         else loop_turns reg lp resolved left (Suc i) ls)
        in if lp_operation lp
           then case executeGenericTool reg i (iteration_node lp resolved i) of
                  Inl e \<Rightarrow> (ls, Inl e)
                | Inr v \<Rightarrow>
                    next (ls\<lparr>ls_outputs := jset (iteration_key (nd_id resolved) i) v (ls_outputs ls),
                             ls_results := ls_results ls @ [v],
                             ls_keys := ls_keys ls @ [iteration_key (nd_id resolved) i]\<rparr>)
           else next ls)"

definition plan_loop :: "NodeDefinition \<Rightarrow> NodeDefinition \<Rightarrow> handler_error + loop_plan" where
  "plan_loop node resolved =
     (case (case map_of (nd_config node) ''condition'' of
              None \<Rightarrow> Inr None
            | Some JNull \<Rightarrow> Inr None
            | Some (JStr c) \<Rightarrow> Inr (if c = [] then None else Some c)
            | Some _ \<Rightarrow> Inl (LoopConditionType (nd_id node))) of
        Inl e \<Rightarrow> Inl e
      | Inr c \<Rightarrow>
          (case (case map_of (nd_config resolved) ''items'' of
                   None \<Rightarrow> Inr None
                 | Some (JArr xs) \<Rightarrow> Inr (Some xs)
                 | Some _ \<Rightarrow> Inl (LoopItemsType (nd_id node))) of
             Inl e \<Rightarrow> Inl e
           | Inr items \<Rightarrow>
               Inr \<lparr>lp_max = nat (coerceToInt (map_of (nd_config resolved) ''maxIterations'') 100 1 10000),
                    lp_condition = c, lp_items = items,
                    lp_operation = (case map_of (nd_config resolved) ''operation'' of None \<Rightarrow> False | Some v \<Rightarrow> truthy v),
                    lp_delayMs = coerceToInt (map_of (nd_config resolved) ''iterationDelayMs'') 0 0 60000,
                    lp_burst = coerceToInt (map_of (nd_config resolved) ''burstLimit'') 10 1 1000\<rparr>))"

definition loop_result :: "nat \<Rightarrow> json list \<Rightarrow> json" where
  "loop_result iterations results =
     JObj [(''status'', JStr ''completed''), (''iterations'', JNum (int iterations)), (''results'', JArr results)]"

text \<open>The handler: the outputs after its \<^verbatim>\<open>finally\<close>, and its result.\<close>

definition loopHandler :: "registry \<Rightarrow> outputs \<Rightarrow> NodeDefinition \<Rightarrow> outputs \<times> (handler_error + json)" where
  "loopHandler reg outs node =
     (let resolved = resolveNodeConfig outs node
      in case plan_loop node resolved of
           Inl e \<Rightarrow> (outs, Inl e)
         | Inr lp \<Rightarrow>
             if lp_items lp = Some [] then (outs, Inr (loop_result 0 []))
             else
               let (ls, r) = loop_turns reg lp resolved (lp_max lp) 0
                     \<lparr>ls_outputs = outs, ls_results = [], ls_keys = [], ls_delays = 0\<rparr>;
                   outs' = fold jdelete (ls_keys ls) (ls_outputs ls)
               in (outs', case r of Inl e \<Rightarrow> Inl e | Inr i \<Rightarrow> Inr (loop_result i (ls_results ls))))"

text \<open>The handler of each type of node.\<close>

definition node_handler :: "registry \<Rightarrow> NodeDefinition \<Rightarrow> outputs \<Rightarrow> outputs \<times> (handler_error + json)" where
  "node_handler reg node outs =
     (case nd_type node of
        TASK \<Rightarrow> (outs, taskHandler reg outs node)
      | PARALLEL \<Rightarrow> (outs, parallelHandler reg outs node)
      | CONDITION \<Rightarrow> (outs, conditionHandler outs node)
      | MERGE \<Rightarrow> (outs, Inr (mergeHandler outs node))
      | LOOP \<Rightarrow> loopHandler reg outs node)"

end
