(* ===== verification/Pipeline_Properties.thy ===== *)
theory Pipeline_Properties
  imports Pipeline_Nodes
begin

text \<open>
  Properties of the node handlers: loops are bounded and leave the context as they found it,
  references only reach values inside the outputs of earlier nodes, and conditions fail closed.
\<close>

section \<open>Loops\<close>

lemma iteration_key_inject [simp]: "iteration_key n i = iteration_key n j \<longleftrightarrow> i = j"
  by (simp add: iteration_key_def show_nat_inject)

text \<open>The entries the loop has added to the outputs.\<close>

definition loop_added :: "string \<Rightarrow> nat \<Rightarrow> json list \<Rightarrow> outputs" where
  "loop_added n i rs = zip (map (iteration_key n) [i..<i + length rs]) rs"

lemma loop_added_Cons: "loop_added n i (v # rs) = (iteration_key n i, v) # loop_added n (Suc i) rs"
  by (simp add: loop_added_def upt_conv_Cons del: upt_Suc)

lemma loop_added_Nil [simp]: "loop_added n i [] = []"
  by (simp add: loop_added_def)

lemma jkeys_loop_added: "jkeys (loop_added n i rs) = map (iteration_key n) [i..<i + length rs]"
  by (simp add: loop_added_def)

definition iteration_prefix :: "string \<Rightarrow> string" where
  "iteration_prefix n = ''__loop:'' @ n @ '':iteration:''"

text \<open>No output is stored under a key of the loop.\<close>

definition keys_free :: "string \<Rightarrow> outputs \<Rightarrow> bool" where
  "keys_free n outs \<longleftrightarrow> list_all (\<lambda>k. take (length (iteration_prefix n)) k \<noteq> iteration_prefix n) (jkeys outs)"

lemma keys_freeD: "keys_free n outs \<Longrightarrow> iteration_key n i \<notin> set (jkeys outs)"
proof
  have "iteration_key n i = iteration_prefix n @ show_nat i" by (simp add: iteration_key_def iteration_prefix_def)
  moreover assume "keys_free n outs" "iteration_key n i \<in> set (jkeys outs)"
  ultimately show False by (auto simp: keys_free_def list_all_iff simp del: set_map)
qed

definition same_records :: "loop_state \<Rightarrow> loop_state \<Rightarrow> bool" where
  "same_records ls ls' \<longleftrightarrow> ls_outputs ls' = ls_outputs ls \<and> ls_results ls' = ls_results ls \<and> ls_keys ls' = ls_keys ls"

definition records_result :: "string \<Rightarrow> nat \<Rightarrow> json \<Rightarrow> loop_state \<Rightarrow> loop_state \<Rightarrow> bool" where
  "records_result n i v ls ls' \<longleftrightarrow>
     ls_outputs ls' = jset (iteration_key n i) v (ls_outputs ls) \<and> ls_results ls' = ls_results ls @ [v] \<and>
     ls_keys ls' = ls_keys ls @ [iteration_key n i]"

text \<open>One turn of the loop: it ends, or records at most one result and goes on.\<close>

lemma loop_turn_cases:
  assumes "loop_turns reg lp node (Suc left) i ls = (ls', r)"
  shows "(same_records ls ls' \<and> (r = Inr i \<or> (\<exists>e. r = Inl e))) \<or>
    (\<exists>ls2. (if lp_operation lp then \<exists>v. records_result (nd_id node) i v ls ls2 else same_records ls ls2) \<and>
       (\<forall>xs. lp_items lp = Some xs \<longrightarrow> i < length xs) \<and>
       (ls' = ls2 \<and> r = Inr (Suc i) \<or> loop_turns reg lp node left (Suc i) ls2 = (ls', r)))"
proof -
  define ls1 where "ls1 = (if lp_delayMs lp > 0 \<and> i > 0 \<and> int i mod lp_burst lp = 0
    then ls\<lparr>ls_delays := Suc (ls_delays ls)\<rparr> else ls)"
  have ls1: "ls_outputs ls1 = ls_outputs ls" "ls_results ls1 = ls_results ls" "ls_keys ls1 = ls_keys ls"
    by (simp_all add: ls1_def)
  define ls2 where "ls2 v = ls1\<lparr>ls_outputs := jset (iteration_key (nd_id node) i) v (ls_outputs ls1),
    ls_results := ls_results ls1 @ [v], ls_keys := ls_keys ls1 @ [iteration_key (nd_id node) i]\<rparr>" for v
  have rec: "records_result (nd_id node) i v ls (ls2 v)" for v by (simp add: records_result_def ls2_def ls1)
  have same: "same_records ls ls1" by (simp add: same_records_def ls1)
  show ?thesis
    using assms
    unfolding loop_turns.simps(2) Let_def ls1_def [symmetric] ls2_def [symmetric]
    using rec same by (auto split: if_splits option.splits sum.splits)
qed

lemma jset_fresh: "k \<notin> set (jkeys m) \<Longrightarrow> jset k v m = m @ [(k, v)]"
  by (induction m) auto

lemma added_by_turn:
  assumes "if lp_operation lp then \<exists>v. records_result n i v ls ls2 else same_records ls ls2"
    and "\<And>j. i \<le> j \<Longrightarrow> iteration_key n j \<notin> set (jkeys (ls_outputs ls))"
  obtains vs where "ls_outputs ls2 = ls_outputs ls @ loop_added n i vs" "ls_results ls2 = ls_results ls @ vs"
    "ls_keys ls2 = ls_keys ls @ jkeys (loop_added n i vs)" "length vs = (if lp_operation lp then 1 else 0)"
proof (cases "lp_operation lp")
  case True
  with assms(1) obtain v where "records_result n i v ls ls2" by auto
  with True that [of "[v]"] assms(2) [of i] show ?thesis
    by (auto simp: records_result_def loop_added_Cons jset_fresh)
next
  case False
  with assms(1) that [of "[]"] show ?thesis by (simp add: same_records_def)
qed

lemma loop_turns_effect:
  assumes "loop_turns reg lp node left i ls = (ls', r)"
    and "\<And>j. i \<le> j \<Longrightarrow> iteration_key (nd_id node) j \<notin> set (jkeys (ls_outputs ls))"
  shows "\<exists>rs. ls_outputs ls' = ls_outputs ls @ loop_added (nd_id node) i rs \<and>
    ls_results ls' = ls_results ls @ rs \<and> ls_keys ls' = ls_keys ls @ jkeys (loop_added (nd_id node) i rs) \<and>
    (\<not> lp_operation lp \<longrightarrow> rs = []) \<and>
    (\<forall>j. r = Inr j \<longrightarrow> i \<le> j \<and> j \<le> i + left \<and>
       (lp_operation lp \<longrightarrow> j = i + length rs) \<and>
       (\<forall>xs. lp_items lp = Some xs \<longrightarrow> i \<le> length xs \<longrightarrow> j \<le> length xs))"
  using assms
proof (induction left arbitrary: i ls)
  case 0
  then show ?case by (intro exI [of _ "[]"]) auto
next
  case (Suc left)
  from loop_turn_cases [OF Suc.prems(1)] consider
      (ends) "same_records ls ls'" "r = Inr i \<or> (\<exists>e. r = Inl e)"
    | (goes) ls2 where "if lp_operation lp then \<exists>v. records_result (nd_id node) i v ls ls2 else same_records ls ls2"
        "\<forall>xs. lp_items lp = Some xs \<longrightarrow> i < length xs"
        "ls' = ls2 \<and> r = Inr (Suc i) \<or> loop_turns reg lp node left (Suc i) ls2 = (ls', r)"
    by blast
  then show ?case
  proof cases
    case ends
    then show ?thesis by (intro exI [of _ "[]"]) (auto simp: same_records_def)
  next
    case goes
    obtain vs where vs: "ls_outputs ls2 = ls_outputs ls @ loop_added (nd_id node) i vs"
      "ls_results ls2 = ls_results ls @ vs" "ls_keys ls2 = ls_keys ls @ jkeys (loop_added (nd_id node) i vs)"
      "length vs = (if lp_operation lp then 1 else 0)"
      by (rule added_by_turn [OF goes(1) Suc.prems(2)])
    show ?thesis
    proof (cases "ls' = ls2 \<and> r = Inr (Suc i)")
      case True
      with vs goes(2) show ?thesis by (intro exI [of _ vs]) (auto simp: Suc_le_eq split: if_splits)
    next
      case False
      with goes(3) have "loop_turns reg lp node left (Suc i) ls2 = (ls', r)" by blast
      moreover have "iteration_key (nd_id node) j \<notin> set (jkeys (ls_outputs ls2))" if "Suc i \<le> j" for j
        using that Suc.prems(2) [of j] vs(1,4) by (auto simp: jkeys_loop_added split: if_splits)
      ultimately obtain rs where rs: "ls_outputs ls' = ls_outputs ls2 @ loop_added (nd_id node) (Suc i) rs"
        "ls_results ls' = ls_results ls2 @ rs" "ls_keys ls' = ls_keys ls2 @ jkeys (loop_added (nd_id node) (Suc i) rs)"
        and none: "\<not> lp_operation lp \<longrightarrow> rs = []"
        and j: "\<forall>j. r = Inr j \<longrightarrow> Suc i \<le> j \<and> j \<le> Suc i + left \<and>
          (lp_operation lp \<longrightarrow> j = Suc i + length rs) \<and>
          (\<forall>xs. lp_items lp = Some xs \<longrightarrow> Suc i \<le> length xs \<longrightarrow> j \<le> length xs)"
        using Suc.IH [of "Suc i" ls2] by blast
      have "loop_added (nd_id node) i (vs @ rs) = loop_added (nd_id node) i vs @ loop_added (nd_id node) (Suc i) rs"
        using none vs(4) by (cases vs) (auto simp: loop_added_Cons split: if_splits)
      with vs rs none j goes(2) show ?thesis
        by (intro exI [of _ "vs @ rs"]) (auto simp: Suc_le_eq split: if_splits)
    qed
  qed
qed

lemma fold_jdelete: "fold jdelete ks m = filter (\<lambda>e. fst e \<notin> set ks) m"
  by (induction ks arbitrary: m) (auto simp: AList.delete_eq intro!: filter_cong)

lemma delete_added_keys:
  "set (jkeys extra) \<inter> set (jkeys m) = {} \<Longrightarrow> fold jdelete (jkeys extra) (m @ extra) = m"
  by (auto simp: fold_jdelete filter_id_conv filter_empty_conv disjoint_iff)

lemma coerceToInt_bounds: "lo \<le> d \<Longrightarrow> d \<le> hi \<Longrightarrow> lo \<le> coerceToInt v d lo hi \<and> coerceToInt v d lo hi \<le> hi"
  by (auto simp: coerceToInt_def not_less le_floor_iff floor_le_iff intro: order_trans
      split: option.splits json.splits js_number.splits)

lemma plan_loop_max: "plan_loop node resolved = Inr lp \<Longrightarrow> lp_max lp \<le> 10000"
  using coerceToInt_bounds [of 1 100 10000 "map_of (nd_config resolved) ''maxIterations''"]
  by (auto simp: plan_loop_def split: sum.splits)

lemma resolveNodeConfig_id [simp]: "nd_id (resolveNodeConfig outs node) = nd_id node"
  by (simp add: resolveNodeConfig_def)

lemma plan_loop_items:
  "plan_loop node resolved = Inr lp \<Longrightarrow>
     lp_items lp = (case map_of (nd_config resolved) ''items'' of Some (JArr xs) \<Rightarrow> Some xs | _ \<Rightarrow> None)"
  by (auto simp: plan_loop_def split: sum.splits option.splits json.splits)

lemma plan_loop_operation:
  "plan_loop node resolved = Inr lp \<Longrightarrow>
     lp_operation lp = (case map_of (nd_config resolved) ''operation'' of None \<Rightarrow> False | Some v \<Rightarrow> truthy v)"
  by (auto simp: plan_loop_def split: sum.splits)


definition echo_registry :: registry where
  "echo_registry name =
     (if name = ''echo'' then Some (\<lambda>k cfg. case map_of cfg ''_item'' of Some (JStr s) \<Rightarrow> Inr (JStr s) | _ \<Rightarrow> Inl ''no item'')
      else None)"

definition loop_demo :: NodeDefinition where
  "loop_demo = \<lparr>nd_id = ''each'', nd_type = LOOP, nd_name = ''Each'', nd_description = None, nd_dependencies = [''list''],
     nd_config = [(''items'', JStr ''${list.files}''), (''operation'', JStr ''echo'')],
     nd_retryPolicy = None, nd_timeout = None, nd_continueOnError = None\<rparr>"

definition loop_demo_outputs :: "json \<Rightarrow> outputs" where
  "loop_demo_outputs x = [(''list'', JObj [(''files'', JArr [JStr ''a.ts'', x])])]"


section \<open>What a node reads\<close>

text \<open>The nodes whose outputs a text, a value or a node refers to.\<close>

function template_refs :: "string \<Rightarrow> string list" where
  "template_refs s =
     (if s = [] then []
      else if opens_reference s \<and> reference_body s \<noteq> [] \<and> reference_rest s \<noteq> []
      then hd (split_on CHR ''.'' (reference_body s)) # template_refs (tl (reference_rest s))
      else template_refs (tl s))"
  by pat_completeness auto
termination
proof (relation "measure length", goal_cases)
  case (2 s)
  have "length (reference_rest s) \<le> length s"
    using length_dropWhile_le [of "\<lambda>c. c \<noteq> CHR 0x7D" "drop 2 s"] by (simp add: reference_rest_def)
  with 2 show ?case by (cases "reference_rest s") auto
qed auto

declare template_refs.simps [simp del]

fun json_refs :: "json \<Rightarrow> string list" where
  "json_refs (JStr s) = template_refs s"
| "json_refs (JArr xs) = concat (map json_refs xs)"
| "json_refs (JObj ms) = concat (map (\<lambda>(k, v). json_refs v) ms)"
| "json_refs v = []"

definition node_refs :: "NodeDefinition \<Rightarrow> string list" where
  "node_refs n = concat (map (\<lambda>(k, v). json_refs v) (nd_config n)) @
     (if nd_type n = MERGE then nd_dependencies n else [])"

definition same_outputs :: "string list \<Rightarrow> outputs \<Rightarrow> outputs \<Rightarrow> bool" where
  "same_outputs refs outs outs' \<longleftrightarrow> list_all (\<lambda>r. map_of outs r = map_of outs' r) refs"

lemma same_outputs_simps [simp]:
  "same_outputs [] outs outs'"
  "same_outputs (r # rs) outs outs' \<longleftrightarrow> map_of outs r = map_of outs' r \<and> same_outputs rs outs outs'"
  "same_outputs (rs @ qs) outs outs' \<longleftrightarrow> same_outputs rs outs outs' \<and> same_outputs qs outs outs'"
  by (simp_all add: same_outputs_def)

lemma same_outputs_concat: "same_outputs (concat rss) outs outs' \<longleftrightarrow> (\<forall>rs\<in>set rss. same_outputs rs outs outs')"
  by (induction rss) auto

lemma substituteVariables_local:
  "same_outputs (template_refs s) outs outs' \<Longrightarrow> substituteVariables outs s = substituteVariables outs' s"
proof (induction s rule: template_refs.induct)
  case (1 s)
  show ?case
  proof (cases "s \<noteq> [] \<and> opens_reference s \<and> reference_body s \<noteq> [] \<and> reference_rest s \<noteq> []")
    case True
    with "1.prems" have "replace_reference outs (reference_body s) = replace_reference outs' (reference_body s)"
      "same_outputs (template_refs (tl (reference_rest s))) outs outs'"
      by (simp_all add: template_refs.simps [of s] replace_reference_def Let_def)
    with True "1.IH"(1) show ?thesis
      by (simp add: substituteVariables_def replace_references.simps [of _ s])
  next
    case False
    with 1 show ?thesis
      by (auto simp: substituteVariables_def replace_references.simps [of _ s] template_refs.simps [of s])
  qed
qed

lemma pure_reference_refs:
  "pure_reference s = Some path \<Longrightarrow> template_refs s = [hd (split_on CHR ''.'' path)]"
  using template_refs.simps [of s] template_refs.simps [of "[]"]
  by (auto simp: pure_reference_def opens_reference_def split: if_splits)

lemma resolveVariableReference_local:
  "map_of outs (hd (split_on CHR ''.'' path)) = map_of outs' (hd (split_on CHR ''.'' path)) \<Longrightarrow>
     resolveVariableReference outs path = resolveVariableReference outs' path"
  by (simp add: resolveVariableReference_def)

lemma resolveConfigValue_local:
  "same_outputs (json_refs v) outs outs' \<Longrightarrow> resolveConfigValue outs v = resolveConfigValue outs' v"
proof (induction v rule: json_refs.induct)
  case (1 s)
  then show ?case
    using substituteVariables_local [of s outs outs'] resolveVariableReference_local [of outs _ outs']
    by (auto simp: pure_reference_refs split: option.splits)
qed (auto simp: same_outputs_concat)

lemma resolveNodeConfig_local:
  "same_outputs (node_refs n) outs outs' \<Longrightarrow> resolveNodeConfig outs n = resolveNodeConfig outs' n"
  unfolding node_refs_def resolveNodeConfig_def
  by (auto simp: same_outputs_concat intro!: arg_cong [where f = "\<lambda>c. n\<lparr>nd_config := c\<rparr>"] resolveConfigValue_local)

lemma merge_deps_local:
  "same_outputs ds outs outs' \<Longrightarrow> merge_deps outs ds acc = merge_deps outs' ds acc"
  by (induction outs ds acc rule: merge_deps.induct) (auto split: option.splits)

lemma conditionHandler_local:
  "same_outputs (node_refs n) outs outs' \<Longrightarrow> conditionHandler outs n = conditionHandler outs' n"
proof -
  assume same: "same_outputs (node_refs n) outs outs'"
  have "resolveConfigValue outs v = resolveConfigValue outs' v" if "map_of (nd_config n) k = Some v" for k v
    using same map_of_SomeD [OF that] by (auto simp: node_refs_def same_outputs_concat intro: resolveConfigValue_local)
  then have "\<forall>v. map_of (nd_config n) ''condition'' = Some v \<longrightarrow> resolveConfigValue outs v = resolveConfigValue outs' v"
    by blast
  then show ?thesis by (simp add: conditionHandler_def del: resolveConfigValue.simps split: option.split json.split)
qed

lemma node_handler_local:
  assumes "same_outputs (node_refs n) outs outs'" and "nd_type n \<noteq> LOOP"
  shows "snd (node_handler reg n outs) = snd (node_handler reg n outs')"
  using assms resolveNodeConfig_local [OF assms(1)] conditionHandler_local [OF assms(1)]
    merge_deps_local [of "nd_dependencies n" outs outs' "([], [])"]
  by (cases "nd_type n") (simp_all add: node_handler_def taskHandler_def parallelHandler_def mergeHandler_def node_refs_def)

section \<open>Two observations\<close>

text \<open>
  The text of an output is pasted into the condition before the condition is read, so that an output
  can bring operators along: a conjunction with \<^verbatim>\<open>false\<close> passes.
\<close>

lemma condition_text_injected:
  "evaluateCondition (substituteVariables [(''a'', JObj [(''status'', JStr ''true || true'')])] ''${a.status} && false'')"
  by code_simp

text \<open>
  The test tool is not told the test files of the node: the quick fix pipeline names the files of its
  \<^verbatim>\<open>run-related-tests\<close> step, and the step runs as if it had not.
\<close>

lemma test_files_ignored:
  "executeTestTool reg k (n\<lparr>nd_config := jset ''testFiles'' v (nd_config n)\<rparr>) = executeTestTool reg k n"
  by (simp add: executeTestTool_def field_as_def jmap_simps split: option.split)

end
