(* ===== verification/Standard_Pipelines.thy ===== *)
theory Standard_Pipelines
  imports Pipeline_Properties Graph_Properties
begin

text \<open>
  The five standard pipelines of \<^verbatim>\<open>agents/StandardPipelines.ts\<close>, the factory that chooses one and
  the executor that builds the graph, registers the handlers and checks that none is missing.  A
  parameter that is not given makes a property \<^verbatim>\<open>undefined\<close>; the model leaves the property out.
\<close>

section \<open>Configuration\<close>

datatype PipelineType = DEVELOPMENT | QUICK_FIX | REFACTORING | CODE_REVIEW | TESTING

type_synonym PipelineParameters = "(string, json) jsmap"

record PipelineConfig =
  pc_type :: PipelineType
  pc_name :: string
  pc_description :: string
  pc_parameters :: PipelineParameters
  pc_timeout :: "int option"
  pc_retryPolicy :: "RetryPolicy option"
  pc_concurrency :: "int option"

text \<open>\<^verbatim>\<open>config.parameters.p\<close>, \<^verbatim>\<open>config.parameters.p || d\<close> and the spread of a parameter that may
  be an array.\<close>

definition parameter :: "string \<Rightarrow> PipelineParameters \<Rightarrow> string \<Rightarrow> config" where
  "parameter field ps p = opt_field field (map_of ps p)"

definition parameter_or :: "PipelineParameters \<Rightarrow> string \<Rightarrow> json \<Rightarrow> json" where
  "parameter_or ps p d = (case map_of ps p of None \<Rightarrow> d | Some v \<Rightarrow> if truthy v then v else d)"

definition array_parameter :: "PipelineParameters \<Rightarrow> string \<Rightarrow> json list" where
  "array_parameter ps p = (case map_of ps p of Some (JArr xs) \<Rightarrow> xs | _ \<Rightarrow> [])"

definition newline :: string where
  "newline = [CHR 0x0A]"

section \<open>The pipelines\<close>

definition DevelopmentPipeline_nodes :: "PipelineParameters \<Rightarrow> NodeDefinition list" where
  "DevelopmentPipeline_nodes ps =
    [\<lparr>nd_id = ''analyze-requirements'', nd_type = TASK, nd_name = ''Analyze Requirements'',
      nd_description = Some ''Parse and understand the requirements'',
      nd_dependencies = [],
      nd_config = [(''operation'', JStr ''analyze'')] @ parameter ''input'' ps ''requirements'',
      nd_retryPolicy = None,
      nd_timeout = Some 60000, nd_continueOnError = None\<rparr>,
     \<lparr>nd_id = ''search-codebase'', nd_type = TASK, nd_name = ''Search Codebase'',
      nd_description = Some ''Find relevant code sections using semantic search'',
      nd_dependencies = [''analyze-requirements''],
      nd_config = [(''operation'', JStr ''semantic-search''),
          (''query'', JStr ''${analyze-requirements.keywords}''), (''topK'', JNum 20)],
      nd_retryPolicy = None,
      nd_timeout = Some 30000, nd_continueOnError = None\<rparr>,
     \<lparr>nd_id = ''get-git-context'', nd_type = TASK, nd_name = ''Get Git Context'',
      nd_description = Some ''Retrieve recent changes and related commits'',
      nd_dependencies = [''analyze-requirements''],
      nd_config = [(''operation'', JStr ''git-log''), (''maxCount'', JNum 50), (''since'', JStr ''7 days ago'')],
      nd_retryPolicy = None,
      nd_timeout = Some 30000, nd_continueOnError = None\<rparr>,
     \<lparr>nd_id = ''design-solution'', nd_type = TASK, nd_name = ''Design Solution'',
      nd_description = Some ''Create implementation plan based on context'',
      nd_dependencies = [''search-codebase'', ''get-git-context''],
      nd_config = [(''operation'', JStr ''design''),
          (''context'', JObj [(''requirements'', JStr ''${analyze-requirements.output}''),
          (''relevantCode'', JStr ''${search-codebase.results}''),
          (''recentChanges'', JStr ''${get-git-context.commits}'')])],
      nd_retryPolicy = None,
      nd_timeout = Some 120000, nd_continueOnError = None\<rparr>,
     \<lparr>nd_id = ''implement-changes'', nd_type = PARALLEL, nd_name = ''Implement Changes'',
      nd_description = Some ''Apply code changes across multiple files'',
      nd_dependencies = [''design-solution''],
      nd_config = [(''operation'', JStr ''implement''), (''files'', JStr ''${design-solution.filesToModify}'')],
      nd_retryPolicy = None,
      nd_timeout = Some 300000, nd_continueOnError = None\<rparr>,
     \<lparr>nd_id = ''run-unit-tests'', nd_type = TASK, nd_name = ''Run Unit Tests'',
      nd_description = Some ''Execute unit test suite'',
      nd_dependencies = [''implement-changes''],
      nd_config = [(''operation'', JStr ''test''), (''framework'', JStr ''auto''), (''coverage'', JBool True),
          (''testPattern'', parameter_or ps ''testPattern'' (JStr ''**/*.test.*''))],
      nd_retryPolicy = Some \<lparr>rp_maxRetries = 1, rp_backoffMs = 5000, rp_exponential = False\<rparr>,
      nd_timeout = Some 300000, nd_continueOnError = None\<rparr>,
     \<lparr>nd_id = ''run-integration-tests'', nd_type = TASK, nd_name = ''Run Integration Tests'',
      nd_description = Some ''Execute integration test suite'',
      nd_dependencies = [''implement-changes''],
      nd_config = [(''operation'', JStr ''test''), (''framework'', JStr ''auto''),
          (''testPattern'', parameter_or ps ''integrationTestPattern'' (JStr ''**/*.integration.*''))],
      nd_retryPolicy = None,
      nd_timeout = Some 600000, nd_continueOnError = Some True\<rparr>,
     \<lparr>nd_id = ''check-test-results'', nd_type = CONDITION, nd_name = ''Check Test Results'',
      nd_description = Some ''Verify all tests passed'',
      nd_dependencies = [''run-unit-tests''],
      nd_config = [(''condition'', JStr ''${run-unit-tests.passed} === ${run-unit-tests.total}'')],
      nd_retryPolicy = None,
      nd_timeout = None, nd_continueOnError = None\<rparr>,
     \<lparr>nd_id = ''code-review'', nd_type = TASK, nd_name = ''Automated Code Review'',
      nd_description = Some ''Review code changes for issues'',
      nd_dependencies = [''check-test-results''],
      nd_config = [(''operation'', JStr ''review''), (''files'', JStr ''${implement-changes.modifiedFiles}''),
          (''checks'', JArr [JStr ''security'', JStr ''performance'', JStr ''best-practices'',
          JStr ''documentation''])],
      nd_retryPolicy = None,
      nd_timeout = Some 120000, nd_continueOnError = None\<rparr>,
     \<lparr>nd_id = ''create-pull-request'', nd_type = TASK, nd_name = ''Create Pull Request'',
      nd_description = Some ''Create PR with changes'',
      nd_dependencies = [''code-review''],
      nd_config = [(''operation'', JStr ''create-pr''),
          (''title'', parameter_or ps ''prTitle'' (JStr ''Automated changes'')),
          (''body'', JStr (''${design-solution.description}'' @ newline @ newline @
          ''${code-review.summary}'')),
          (''sourceBranch'', parameter_or ps ''branchName'' (JStr ''feature/automated-changes'')),
          (''targetBranch'', JStr ''main'')],
      nd_retryPolicy = None,
      nd_timeout = Some 60000, nd_continueOnError = None\<rparr>]"

definition DevelopmentPipeline_create :: "time \<Rightarrow> PipelineConfig \<Rightarrow> PipelineParameters \<Rightarrow> GraphDefinition" where
  "DevelopmentPipeline_create now cfg vars =
     \<lparr>gd_id = ''dev-pipeline-'' @
          show_int now, gd_name = pc_name cfg, gd_description = Some (pc_description cfg),
      gd_nodes = DevelopmentPipeline_nodes (pc_parameters cfg),
      gd_entryNodes = [''analyze-requirements''], gd_variables = Some vars\<rparr>"

definition QuickFixPipeline_nodes :: "PipelineParameters \<Rightarrow> NodeDefinition list" where
  "QuickFixPipeline_nodes ps =
    [\<lparr>nd_id = ''analyze-issue'', nd_type = TASK, nd_name = ''Analyze Issue'',
      nd_description = Some ''Understand the bug/issue'',
      nd_dependencies = [],
      nd_config = [(''operation'',
          JStr ''analyze-error'')] @ parameter ''error'' ps ''error'' @ parameter ''stackTrace'' ps ''stackTrace'',
      nd_retryPolicy = None,
      nd_timeout = Some 30000, nd_continueOnError = None\<rparr>,
     \<lparr>nd_id = ''locate-bug'', nd_type = TASK, nd_name = ''Locate Bug'',
      nd_description = Some ''Find the source of the issue'',
      nd_dependencies = [''analyze-issue''],
      nd_config = [(''operation'',
          JStr ''correlate-failure'')] @ parameter ''testName'' ps ''testName'' @ [(''failureMessage'',
          JStr ''${analyze-issue.summary}'')],
      nd_retryPolicy = None,
      nd_timeout = Some 30000, nd_continueOnError = None\<rparr>,
     \<lparr>nd_id = ''apply-fix'', nd_type = TASK, nd_name = ''Apply Fix'',
      nd_description = Some ''Implement the bug fix'',
      nd_dependencies = [''locate-bug''],
      nd_config = [(''operation'', JStr ''fix''), (''file'', JStr ''${locate-bug.file}''),
          (''issue'', JStr ''${analyze-issue.root-cause}'')],
      nd_retryPolicy = None,
      nd_timeout = Some 60000, nd_continueOnError = None\<rparr>,
     \<lparr>nd_id = ''run-related-tests'', nd_type = TASK, nd_name = ''Run Related Tests'',
      nd_description = Some ''Test the fix'',
      nd_dependencies = [''apply-fix''],
      nd_config = [(''operation'', JStr ''test''),
          (''testFiles'', JArr ([JStr ''${locate-bug.testFile}''] @ array_parameter ps ''additionalTests''))],
      nd_retryPolicy = None,
      nd_timeout = Some 120000, nd_continueOnError = None\<rparr>,
     \<lparr>nd_id = ''commit-fix'', nd_type = TASK, nd_name = ''Commit Fix'',
      nd_description = Some ''Commit the bug fix'',
      nd_dependencies = [''run-related-tests''],
      nd_config = [(''operation'', JStr ''git-commit''),
          (''message'', JStr (''Fix: '' @ js_text (parameter_or ps ''issueSummary'' (JStr ''Bug fix'')) @
          newline @ newline @ ''See analyze-issue step for details'')),
          (''files'', JArr [JStr ''See apply-fix step output''])],
      nd_retryPolicy = None,
      nd_timeout = Some 30000, nd_continueOnError = None\<rparr>]"

definition QuickFixPipeline_create :: "time \<Rightarrow> PipelineConfig \<Rightarrow> PipelineParameters \<Rightarrow> GraphDefinition" where
  "QuickFixPipeline_create now cfg vars =
     \<lparr>gd_id = ''quickfix-pipeline-'' @
          show_int now, gd_name = pc_name cfg, gd_description = Some (pc_description cfg),
      gd_nodes = QuickFixPipeline_nodes (pc_parameters cfg),
      gd_entryNodes = [''analyze-issue''], gd_variables = Some vars\<rparr>"

definition RefactoringPipeline_nodes :: "PipelineParameters \<Rightarrow> NodeDefinition list" where
  "RefactoringPipeline_nodes ps =
    [\<lparr>nd_id = ''analyze-code-quality'', nd_type = TASK, nd_name = ''Analyze Code Quality'',
      nd_description = Some ''Assess current code quality'',
      nd_dependencies = [],
      nd_config = [(''operation'', JStr ''analyze-quality''),
          (''files'', parameter_or ps ''files'' (JStr ''**/*.{ts,js}'')),
          (''metrics'', JArr [JStr ''complexity'', JStr ''duplication'', JStr ''maintainability''])],
      nd_retryPolicy = None,
      nd_timeout = Some 120000, nd_continueOnError = None\<rparr>,
     \<lparr>nd_id = ''identify-refactorings'', nd_type = TASK, nd_name = ''Identify Refactoring Opportunities'',
      nd_description = Some ''Find code that needs refactoring'',
      nd_dependencies = [''analyze-code-quality''],
      nd_config = [(''operation'', JStr ''identify-refactorings''),
          (''qualityReport'', JStr ''${analyze-code-quality.report}''),
          (''threshold'', parameter_or ps ''qualityThreshold'' (JStr ''medium''))],
      nd_retryPolicy = None,
      nd_timeout = Some 60000, nd_continueOnError = None\<rparr>,
     \<lparr>nd_id = ''prioritize-refactorings'', nd_type = TASK, nd_name = ''Prioritize Refactorings'',
      nd_description = Some ''Order refactorings by impact'',
      nd_dependencies = [''identify-refactorings''],
      nd_config = [(''operation'', JStr ''prioritize''),
          (''opportunities'', JStr ''${identify-refactorings.opportunities}''),
          (''strategy'', parameter_or ps ''priorityStrategy'' (JStr ''impact''))],
      nd_retryPolicy = None,
      nd_timeout = Some 30000, nd_continueOnError = None\<rparr>,
     \<lparr>nd_id = ''refactor-batch-1'', nd_type = TASK, nd_name = ''Refactor Batch 1 (High Priority)'',
      nd_description = Some ''Apply high-priority refactorings'',
      nd_dependencies = [''prioritize-refactorings''],
      nd_config = [(''operation'', JStr ''refactor''), (''items'', JStr ''${prioritize-refactorings.high}'')],
      nd_retryPolicy = None,
      nd_timeout = Some 300000, nd_continueOnError = None\<rparr>,
     \<lparr>nd_id = ''test-batch-1'', nd_type = TASK, nd_name = ''Test Batch 1'',
      nd_description = Some ''Verify batch 1 refactorings'',
      nd_dependencies = [''refactor-batch-1''],
      nd_config = [(''operation'', JStr ''test''), (''coverage'', JBool True)],
      nd_retryPolicy = None,
      nd_timeout = Some 300000, nd_continueOnError = None\<rparr>,
     \<lparr>nd_id = ''refactor-batch-2'', nd_type = TASK, nd_name = ''Refactor Batch 2 (Medium Priority)'',
      nd_description = Some ''Apply medium-priority refactorings'',
      nd_dependencies = [''test-batch-1''],
      nd_config = [(''operation'', JStr ''refactor''), (''items'', JStr ''${prioritize-refactorings.medium}'')],
      nd_retryPolicy = None,
      nd_timeout = Some 300000, nd_continueOnError = Some True\<rparr>,
     \<lparr>nd_id = ''test-batch-2'', nd_type = TASK, nd_name = ''Test Batch 2'',
      nd_description = Some ''Verify batch 2 refactorings'',
      nd_dependencies = [''refactor-batch-2''],
      nd_config = [(''operation'', JStr ''test'')],
      nd_retryPolicy = None,
      nd_timeout = Some 300000, nd_continueOnError = Some True\<rparr>,
     \<lparr>nd_id = ''measure-improvements'', nd_type = TASK, nd_name = ''Measure Improvements'',
      nd_description = Some ''Compare before and after metrics'',
      nd_dependencies = [''test-batch-2''],
      nd_config = [(''operation'', JStr ''compare-metrics''),
          (''before'', JStr ''${analyze-code-quality.metrics}'')] @ parameter ''files'' ps ''files'',
      nd_retryPolicy = None,
      nd_timeout = Some 60000, nd_continueOnError = None\<rparr>,
     \<lparr>nd_id = ''create-refactoring-pr'', nd_type = TASK, nd_name = ''Create Refactoring PR'',
      nd_description = Some ''Create PR with refactored code'',
      nd_dependencies = [''measure-improvements''],
      nd_config = [(''operation'', JStr ''create-pr''),
          (''title'', parameter_or ps ''prTitle'' (JStr ''Refactoring improvements'')),
          (''body'', JStr ''${measure-improvements.report}''),
          (''sourceBranch'', parameter_or ps ''branchName'' (JStr ''refactor/improvements''))],
      nd_retryPolicy = None,
      nd_timeout = Some 60000, nd_continueOnError = None\<rparr>]"

definition RefactoringPipeline_create :: "time \<Rightarrow> PipelineConfig \<Rightarrow> PipelineParameters \<Rightarrow> GraphDefinition" where
  "RefactoringPipeline_create now cfg vars =
     \<lparr>gd_id = ''refactor-pipeline-'' @
          show_int now, gd_name = pc_name cfg, gd_description = Some (pc_description cfg),
      gd_nodes = RefactoringPipeline_nodes (pc_parameters cfg),
      gd_entryNodes = [''analyze-code-quality''], gd_variables = Some vars\<rparr>"

definition CodeReviewPipeline_nodes :: "PipelineParameters \<Rightarrow> NodeDefinition list" where
  "CodeReviewPipeline_nodes ps =
    [\<lparr>nd_id = ''fetch-pr-changes'', nd_type = TASK, nd_name = ''Fetch PR Changes'',
      nd_description = Some ''Get the diff from the pull request'',
      nd_dependencies = [],
      nd_config = [(''operation'', JStr ''git-diff'')] @ parameter ''pr'' ps ''prNumber'',
      nd_retryPolicy = None,
      nd_timeout = Some 30000, nd_continueOnError = None\<rparr>,
     \<lparr>nd_id = ''static-analysis'', nd_type = TASK, nd_name = ''Static Analysis'',
      nd_description = Some ''Run linters and static analyzers'',
      nd_dependencies = [''fetch-pr-changes''],
      nd_config = [(''operation'', JStr ''lint''), (''files'', JStr ''${fetch-pr-changes.files}'')],
      nd_retryPolicy = None,
      nd_timeout = Some 120000, nd_continueOnError = None\<rparr>,
     \<lparr>nd_id = ''security-check'', nd_type = TASK, nd_name = ''Security Check'',
      nd_description = Some ''Scan for security vulnerabilities'',
      nd_dependencies = [''fetch-pr-changes''],
      nd_config = [(''operation'', JStr ''security-scan''), (''files'', JStr ''${fetch-pr-changes.files}'')],
      nd_retryPolicy = None,
      nd_timeout = Some 180000, nd_continueOnError = None\<rparr>,
     \<lparr>nd_id = ''performance-check'', nd_type = TASK, nd_name = ''Performance Check'',
      nd_description = Some ''Identify performance issues'',
      nd_dependencies = [''fetch-pr-changes''],
      nd_config = [(''operation'', JStr ''performance-analysis''), (''files'', JStr ''${fetch-pr-changes.files}'')],
      nd_retryPolicy = None,
      nd_timeout = Some 120000, nd_continueOnError = None\<rparr>,
     \<lparr>nd_id = ''documentation-check'', nd_type = TASK, nd_name = ''Documentation Check'',
      nd_description = Some ''Verify documentation coverage'',
      nd_dependencies = [''fetch-pr-changes''],
      nd_config = [(''operation'', JStr ''doc-check''), (''files'', JStr ''${fetch-pr-changes.files}'')],
      nd_retryPolicy = None,
      nd_timeout = Some 60000, nd_continueOnError = None\<rparr>,
     \<lparr>nd_id = ''merge-review-results'', nd_type = MERGE, nd_name = ''Merge Review Results'',
      nd_description = Some ''Combine all review findings'',
      nd_dependencies = [''static-analysis'', ''security-check'', ''performance-check'', ''documentation-check''],
      nd_config = [(''operation'', JStr ''merge-results'')],
      nd_retryPolicy = None,
      nd_timeout = None, nd_continueOnError = None\<rparr>,
     \<lparr>nd_id = ''post-review-comments'', nd_type = TASK, nd_name = ''Post Review Comments'',
      nd_description = Some ''Add review comments to PR'',
      nd_dependencies = [''merge-review-results''],
      nd_config = [(''operation'',
          JStr ''post-comments'')] @ parameter ''pr'' ps ''prNumber'' @ [(''findings'',
          JStr ''${merge-review-results.findings}'')],
      nd_retryPolicy = None,
      nd_timeout = Some 30000, nd_continueOnError = None\<rparr>]"

definition CodeReviewPipeline_create :: "time \<Rightarrow> PipelineConfig \<Rightarrow> PipelineParameters \<Rightarrow> GraphDefinition" where
  "CodeReviewPipeline_create now cfg vars =
     \<lparr>gd_id = ''review-pipeline-'' @
          show_int now, gd_name = pc_name cfg, gd_description = Some (pc_description cfg),
      gd_nodes = CodeReviewPipeline_nodes (pc_parameters cfg),
      gd_entryNodes = [''fetch-pr-changes''], gd_variables = Some vars\<rparr>"

definition TestingPipeline_nodes :: "PipelineParameters \<Rightarrow> NodeDefinition list" where
  "TestingPipeline_nodes ps =
    [\<lparr>nd_id = ''run-unit-tests'', nd_type = TASK, nd_name = ''Run Unit Tests'',
      nd_description = Some ''Execute unit test suite'',
      nd_dependencies = [],
      nd_config = [(''operation'', JStr ''test''), (''framework'', JStr ''auto''),
          (''testPattern'', JStr ''**/*.test.*''), (''coverage'', JBool True)],
      nd_retryPolicy = None,
      nd_timeout = Some 300000, nd_continueOnError = None\<rparr>,
     \<lparr>nd_id = ''run-integration-tests'', nd_type = TASK, nd_name = ''Run Integration Tests'',
      nd_description = Some ''Execute integration test suite'',
      nd_dependencies = [],
      nd_config = [(''operation'', JStr ''test''), (''framework'', JStr ''auto''),
          (''testPattern'', JStr ''**/*.integration.*''), (''coverage'', JBool True)],
      nd_retryPolicy = None,
      nd_timeout = Some 600000, nd_continueOnError = None\<rparr>,
     \<lparr>nd_id = ''run-e2e-tests'', nd_type = TASK, nd_name = ''Run E2E Tests'',
      nd_description = Some ''Execute end-to-end test suite'',
      nd_dependencies = [],
      nd_config = [(''operation'', JStr ''test''), (''framework'', JStr ''auto''),
          (''testPattern'', JStr ''**/*.e2e.*'')],
      nd_retryPolicy = None,
      nd_timeout = Some 900000, nd_continueOnError = Some True\<rparr>,
     \<lparr>nd_id = ''check-coverage'', nd_type = TASK, nd_name = ''Check Coverage'',
      nd_description = Some ''Verify coverage thresholds'',
      nd_dependencies = [''run-unit-tests'', ''run-integration-tests''],
      nd_config = [(''operation'', JStr ''check-coverage''),
          (''thresholds'', parameter_or ps ''coverageThresholds'' (JObj [(''lines'', JNum 80),
          (''statements'', JNum 80), (''functions'', JNum 80), (''branches'', JNum 70)]))],
      nd_retryPolicy = None,
      nd_timeout = Some 30000, nd_continueOnError = None\<rparr>,
     \<lparr>nd_id = ''generate-test-report'', nd_type = TASK, nd_name = ''Generate Test Report'',
      nd_description = Some ''Create comprehensive test report'',
      nd_dependencies = [''check-coverage'', ''run-e2e-tests''],
      nd_config = [(''operation'', JStr ''generate-report''),
          (''results'', JObj [(''unit'', JStr ''${run-unit-tests.output}''),
          (''integration'', JStr ''${run-integration-tests.output}''),
          (''e2e'', JStr ''${run-e2e-tests.output}''), (''coverage'', JStr ''${check-coverage.output}'')])],
      nd_retryPolicy = None,
      nd_timeout = Some 60000, nd_continueOnError = None\<rparr>]"

definition TestingPipeline_create :: "time \<Rightarrow> PipelineConfig \<Rightarrow> PipelineParameters \<Rightarrow> GraphDefinition" where
  "TestingPipeline_create now cfg vars =
     \<lparr>gd_id = ''testing-pipeline-'' @
          show_int now, gd_name = pc_name cfg, gd_description = Some (pc_description cfg),
      gd_nodes = TestingPipeline_nodes (pc_parameters cfg),
      gd_entryNodes = [''run-unit-tests'', ''run-integration-tests'', ''run-e2e-tests''], gd_variables = Some vars\<rparr>"

section \<open>Factory and executor\<close>

definition PipelineFactory_create :: "time \<Rightarrow> PipelineConfig \<Rightarrow> PipelineParameters \<Rightarrow> GraphDefinition" where
  "PipelineFactory_create now cfg vars =
     (case pc_type cfg of
        DEVELOPMENT \<Rightarrow> DevelopmentPipeline_create now cfg vars
      | QUICK_FIX \<Rightarrow> QuickFixPipeline_create now cfg vars
      | REFACTORING \<Rightarrow> RefactoringPipeline_create now cfg vars
      | CODE_REVIEW \<Rightarrow> CodeReviewPipeline_create now cfg vars
      | TESTING \<Rightarrow> TestingPipeline_create now cfg vars)"

definition getSupportedTypes :: "PipelineType list" where
  "getSupportedTypes = [DEVELOPMENT, QUICK_FIX, REFACTORING, CODE_REVIEW, TESTING]"

datatype PipelineError =
    GraphRejected GraphError
  | AlreadyRunning
  | MissingHandlers "NodeType list"

definition handler_types :: "NodeType list" where
  "handler_types = [TASK, PARALLEL, CONDITION, MERGE, LOOP]"

text \<open>\<^verbatim>\<open>Object.values(NodeType)\<close>, in the order of the declaration.\<close>

definition allNodeTypes :: "NodeType list" where
  "allNodeTypes = [TASK, CONDITION, PARALLEL, MERGE, LOOP]"

definition verifyAllHandlersRegistered :: "GraphState \<Rightarrow> PipelineError + unit" where
  "verifyAllHandlersRegistered st =
     (let missingHandlers = filter (\<lambda>t. \<not> hasHandler t st) allNodeTypes
      in if missingHandlers \<noteq> [] then Inl (MissingHandlers missingHandlers) else Inr ())"

definition registerHandlers :: "GraphState \<Rightarrow> PipelineError + GraphState" where
  "registerHandlers st =
     (let st' = fold registerHandler handler_types st
      in case verifyAllHandlersRegistered st' of Inl e \<Rightarrow> Inl e | Inr _ \<Rightarrow> Inr st')"

text \<open>\<^verbatim>\<open>config.concurrency || 10\<close>.\<close>

definition pipeline_concurrency :: "PipelineConfig \<Rightarrow> int" where
  "pipeline_concurrency cfg = (case pc_concurrency cfg of None \<Rightarrow> 10 | Some n \<Rightarrow> if n = 0 then 10 else n)"

text \<open>\<^verbatim>\<open>PipelineExecutor.execute\<close> up to the first suspension of \<^verbatim>\<open>graph.execute()\<close>; the run of the
  graph goes on by \<open>graph_step\<close> and ends with \<open>execute_finish\<close>.\<close>

definition PipelineExecutor_execute ::
  "time \<Rightarrow> string \<Rightarrow> PipelineConfig \<Rightarrow> PipelineParameters \<Rightarrow> PipelineError + GraphState" where
  "PipelineExecutor_execute now execId cfg vars =
     (case new_ExecutionGraph (PipelineFactory_create now cfg vars) (pipeline_concurrency cfg) execId of
        Inl e \<Rightarrow> Inl (GraphRejected e)
      | Inr st \<Rightarrow>
          (case registerHandlers st of
             Inl e \<Rightarrow> Inl e
           | Inr st' \<Rightarrow>
               (case execute_start now st' of
                  None \<Rightarrow> Inl AlreadyRunning
                | Some started \<Rightarrow> Inr started)))"

end
