(* ===== verification/Graph_Outputs.thy ===== *)
theory Graph_Outputs
  imports Graph_Runs
begin

text \<open>
  The outputs an execution of an \<^verbatim>\<open>ExecutionGraph\<close> collects: every completed node has one, and the
  output of a node that is done never changes.
\<close>

abbreviation gs_outputs :: "GraphState \<Rightarrow> (string, json) jsmap" where
  "gs_outputs st \<equiv> cx_outputs (gs_context st)"

definition completed_in :: "(string, NodeExecution) jsmap \<Rightarrow> string set" where
  "completed_in E = {i. stat_of E i = Some COMPLETED}"

lemma completed_start: "completed_in (gs_executions (start_node now i st)) \<subseteq> completed_in (gs_executions st)"
  by (auto simp: completed_in_def start_node_def stat_of_jmodify stat_of_def begin_execution_def split: if_splits)

lemma completed_jmodify:
  "(\<And>ex. ne_status (f ex) \<noteq> COMPLETED) \<Longrightarrow> completed_in (jmodify i f E) \<subseteq> completed_in E"
  by (auto simp: completed_in_def stat_of_jmodify stat_of_def split: if_splits)

lemma gs_context_fields [simp]:
  "gs_context (start_node now i st) = gs_context st"
  "gs_context (settle_frame f g st) = gs_context st"
  "gs_context (scheduleNode now i st) = gs_context st"
  "gs_context (settled_state i h E c st) = c"
  "gs_context (markBlockedDependents i st) = gs_context st"
  "gs_context (fold registerHandler hs st) = gs_context st"
  by (simp_all add: start_node_def settle_frame_def scheduleNode_def settled_state_def markBlockedDependents_def
      del: markBlocked_loop.simps)
    (induction hs arbitrary: st, simp_all add: registerHandler_def)

lemma gs_context_scheduleNodes [simp]: "gs_context (scheduleNodes now is st) = gs_context st"
  by (induction "is" arbitrary: st) simp_all

lemma completed_scheduleNodes:
  "completed_in (gs_executions (scheduleNodes now is st)) \<subseteq> completed_in (gs_executions st)"
proof (induction "is" arbitrary: st)
  case (Cons i "is")
  have "completed_in (gs_executions (scheduleNode now i st)) \<subseteq> completed_in (gs_executions st)"
    using completed_start [of now i st] by (simp add: scheduleNode_def)
  with Cons [of "scheduleNode now i st"] Cons [of st] show ?case by auto
qed simp

lemma completed_markBlocked_loop: "completed_in (markBlocked_loop m E visited queue) \<subseteq> completed_in E"
proof (induction m E visited queue rule: markBlocked_loop.induct)
  case (2 m E visited c queue)
  obtain E' pushed where b: "block_dependents (jget_or [] m c) E = (E', pushed)"
    by (cases "block_dependents (jget_or [] m c) E")
  then have "completed_in E' \<subseteq> completed_in E"
    using block_dependents_spec [OF b] by (auto simp: completed_in_def split: if_splits)
  with b 2 show ?case by simp (meson subset_trans)
qed simp

lemma completed_markBlocked:
  "completed_in (gs_executions (markBlockedDependents i st)) \<subseteq> completed_in (gs_executions st)"
  unfolding markBlockedDependents_def by (simp add: completed_markBlocked_loop del: markBlocked_loop.simps)

text \<open>A step adds one output, that of a node in flight which it completes, or none.\<close>

lemma graph_step_outputs:
  "graph_step st st' \<Longrightarrow>
     (\<exists>i out. InFlight i \<in># gs_frames st \<and> gs_outputs st' = jset i out (gs_outputs st) \<and>
        completed_in (gs_executions st') \<subseteq> insert i (completed_in (gs_executions st))) \<or>
     gs_outputs st' = gs_outputs st \<and> completed_in (gs_executions st') \<subseteq> completed_in (gs_executions st)"
proof (induction rule: graph_step.induct)
  case (handler_fulfils i st n now out)
  let ?E = "jmodify i (\<lambda>ex. (end_execution now ex)\<lparr>ne_status := COMPLETED, ne_output := Some out\<rparr>) (gs_executions st)"
  have "completed_in ?E \<subseteq> insert i (completed_in (gs_executions st))"
    by (auto simp: completed_in_def stat_of_jmodify split: if_splits)
  then have "completed_in (gs_executions (complete_node now i out st)) \<subseteq> insert i (completed_in (gs_executions st))"
    unfolding complete_node_eq using completed_scheduleNodes by (metis settled_state_fields(3) subset_trans)
  with handler_fulfils show ?case by (auto simp: complete_node_eq)
next
  case (handler_rejects i st now msg stack)
  have "completed_in (retried_executions now i msg stack st) \<subseteq> completed_in (gs_executions st)"
    "completed_in (failed_executions now i msg stack st) \<subseteq> completed_in (gs_executions st)"
    unfolding retried_executions_def failed_executions_def
    by (rule subset_trans [OF completed_jmodify], simp, simp add: completed_in_def stat_of_jmodify_same)+
  then show ?case
    using completed_scheduleNodes completed_markBlocked
    by (simp add: fail_node_eq Let_def) (metis settled_state_fields(3) subset_trans)
next
  case (backoff_over i st now)
  then show ?case using completed_start by (simp add: resume_backoff_def)
next
  case (slot_for_waiting i st now)
  then show ?case
    using completed_start [of now i "st\<lparr>gs_frames := gs_frames st - {#Waiting i#}\<rparr>"] by (simp add: poll_waiting_def)
next
  case (slot_for_retry i st now)
  then show ?case using completed_start by (simp add: poll_retry_def)
next
  case (slot_released i st)
  then show ?case by (simp add: release_slot_def)
qed

lemma reach_outputs:
  "graph_reach d limit hs st \<Longrightarrow> completed_in (gs_executions st) \<subseteq> dom (map_of (gs_outputs st))"
proof (induction rule: graph_reach.induct)
  case (started execId st now st')
  have "completed_in (gs_executions st) = {}"
    using started(1)
    by (auto simp: new_ExecutionGraph_def completed_in_def stat_of_def map_of_initializeExecutions
        initial_execution_def split: sum.splits if_splits)
  moreover have "gs_executions (st0\<lparr>gs_running := True\<rparr>) = gs_executions st0" for st0 :: GraphState by simp
  ultimately have "completed_in (gs_executions st') = {}"
    using started(2) completed_scheduleNodes unfolding execute_start_def
    by (metis option.distinct(1) option.inject registerHandler_fields(2) subset_empty)
  then show ?case by simp
next
  case (continued st st')
  from graph_step_outputs [OF continued.hyps(2)] show ?case
  proof (elim disjE exE conjE)
    fix i out
    assume "gs_outputs st' = jset i out (gs_outputs st)"
      and c: "completed_in (gs_executions st') \<subseteq> insert i (completed_in (gs_executions st))"
    then have "dom (map_of (gs_outputs st')) = insert i (dom (map_of (gs_outputs st)))" by (simp add: jmap_simps)
    with c continued.IH show ?thesis by blast
  qed (use continued.IH in auto)
next
  case (stop_called st)
  then show ?case by (simp add: stop_graph_def)
qed

text \<open>A step keeps the output of every node that has no call in flight.\<close>

lemma step_keeps_outputs:
  assumes "graph_step st st'" and "InFlight r \<notin># gs_frames st"
  shows "map_of (gs_outputs st') r = map_of (gs_outputs st) r"
  using graph_step_outputs [OF assms(1)] assms(2) by (auto simp: jmap_simps)

text \<open>All nodes a started node depends on, directly or not, are done.\<close>

fun ancestors :: "NodeDefinition list \<Rightarrow> nat \<Rightarrow> string list \<Rightarrow> string list" where
  "ancestors nodes 0 is = []"
| "ancestors nodes (Suc k) is =
     (let ds = remdups (concat (map (deps_of nodes) is)) in if ds = [] then [] else ds @ ancestors nodes k ds)"

lemma ancestors_sat:
  assumes "sched_inv nodes S fr" and "\<And>i. i \<in> set is \<Longrightarrow> ready nodes S i" and "r \<in> set (ancestors nodes k is)"
  shows "sat nodes S r"
  using assms(2,3)
proof (induction k arbitrary: "is")
  case (Suc k)
  let ?ds = "remdups (concat (map (deps_of nodes) is))"
  have sat: "sat nodes S e" if "e \<in> set ?ds" for e using that Suc.prems(1) by (auto simp: ready_def)
  then have "ready nodes S e" if "e \<in> set ?ds" for e
    using that sched_invD(4) [OF assms(1), of e] by (auto simp: sat_def)
  with sat Suc.IH [of ?ds] Suc.prems(2) show ?case by (auto simp: Let_def split: if_splits)
qed simp

text \<open>What a node in flight can read of a node it depends on.\<close>

lemma ancestor_outputs:
  assumes reach: "graph_reach d limit hs st" "distinct (gd_entryNodes d)"
    and i: "InFlight i \<in># gs_frames st" and r: "r \<in> set (ancestors (gd_nodes d) k [i])"
  shows "stat st r = Some COMPLETED \<and> map_of (gs_outputs st) r \<noteq> None \<or>
      stat st r = Some FAILED \<and> continues (gd_nodes d) r"
    and "InFlight r \<notin># gs_frames st"
proof -
  obtain A where inv: "graph_inv A {} st" and n: "gs_nodes st = gd_nodes d"
    by (rule reach_graph_inv [OF reach])
  note S = graph_invD(3) [OF inv]
  have "ready (gs_nodes st) (stat st) i" using live_frame_cases [OF S i] by auto
  then have sat: "sat (gs_nodes st) (stat st) r" using ancestors_sat [OF S, of "[i]" r k] r n by auto
  then show "InFlight r \<notin># gs_frames st"
    using sched_invD(2) [OF S, of r] by (auto simp: sat_def not_in_iff)
  show "stat st r = Some COMPLETED \<and> map_of (gs_outputs st) r \<noteq> None \<or>
      stat st r = Some FAILED \<and> continues (gd_nodes d) r"
    using sat n reach_outputs [OF reach(1)] by (auto simp: sat_def completed_in_def)
qed

end
