(* ===== verification/Pipeline_Runs.thy ===== *)
theory Pipeline_Runs
  imports Standard_Pipelines Graph_Outputs
begin

text \<open>
  Properties of the standard pipelines: the graph of each is accepted, and along every run a node
  only starts when the outputs it refers to are there and do not change any more.
\<close>

section \<open>The graphs are accepted\<close>

lemma development_valid:
  "validate_nodes (DevelopmentPipeline_nodes ps) [] (DevelopmentPipeline_nodes ps) = Inr ()" "detectCycles (DevelopmentPipeline_nodes ps) = Inr ()"
  by code_simp+

lemma quick_fix_valid:
  "validate_nodes (QuickFixPipeline_nodes ps) [] (QuickFixPipeline_nodes ps) = Inr ()" "detectCycles (QuickFixPipeline_nodes ps) = Inr ()"
  by code_simp+

lemma refactoring_valid:
  "validate_nodes (RefactoringPipeline_nodes ps) [] (RefactoringPipeline_nodes ps) = Inr ()" "detectCycles (RefactoringPipeline_nodes ps) = Inr ()"
  by code_simp+

lemma code_review_valid:
  "validate_nodes (CodeReviewPipeline_nodes ps) [] (CodeReviewPipeline_nodes ps) = Inr ()" "detectCycles (CodeReviewPipeline_nodes ps) = Inr ()"
  by code_simp+

lemma testing_valid:
  "validate_nodes (TestingPipeline_nodes ps) [] (TestingPipeline_nodes ps) = Inr ()" "detectCycles (TestingPipeline_nodes ps) = Inr ()"
  by code_simp+

section \<open>References of the standard pipelines\<close>

text \<open>A parameter that holds no dollar sign holds no reference.\<close>

fun plain_json :: "json \<Rightarrow> bool" where
  "plain_json (JStr s) = (CHR ''$'' \<notin> set s)"
| "plain_json (JArr xs) = list_all plain_json xs"
| "plain_json (JObj ms) = list_all (\<lambda>(k, v). plain_json v) ms"
| "plain_json v = True"

definition plain_parameters :: "PipelineParameters \<Rightarrow> bool" where
  "plain_parameters ps = list_all (\<lambda>(k, v). plain_json v) ps"

lemma template_refs_plain: "CHR ''$'' \<notin> set s \<Longrightarrow> template_refs s = []"
proof (induction s)
  case (Cons c s)
  then show ?case by (auto simp: template_refs.simps [of "c # s"] opens_reference_def)
qed (simp add: template_refs.simps)

lemma json_refs_plain: "plain_json v \<Longrightarrow> json_refs v = []"
  by (induction v rule: plain_json.induct) (auto simp: list_all_iff template_refs_plain)

lemma commas_plain: "list_all (\<lambda>s. CHR ''$'' \<notin> set s) xs \<Longrightarrow> CHR ''$'' \<notin> set (commas xs)"
  by (induction xs rule: commas.induct) auto

lemma js_text_plain: "plain_json v \<Longrightarrow> CHR ''$'' \<notin> set (js_text v)"
proof (induction v rule: js_text.induct)
  case (3 i)
  have "CHR ''$'' \<notin> set (show_nat n)" for n
    using show_nat_digits [of n] by (auto simp: list_all_iff is_digit_def)
  then show ?case by (simp add: show_int_def)
next
  case (5 xs)
  then show ?case by (auto simp: list_all_iff intro!: commas_plain)
qed (auto split: if_splits)

lemma parameter_plain: "plain_parameters ps \<Longrightarrow> map_of ps p = Some v \<Longrightarrow> plain_json v"
  by (auto simp: plain_parameters_def list_all_iff dest: map_of_SomeD)

lemma parameter_or_plain: "plain_parameters ps \<Longrightarrow> plain_json d \<Longrightarrow> plain_json (parameter_or ps p d)"
  by (auto simp: parameter_or_def parameter_plain split: option.splits)

lemma parameter_or_refs: "plain_parameters ps \<Longrightarrow> plain_json d \<Longrightarrow> json_refs (parameter_or ps p d) = []"
  by (simp add: json_refs_plain parameter_or_plain)

lemma parameter_refs: "plain_parameters ps \<Longrightarrow> map (\<lambda>(k, v). json_refs v) (parameter f ps p) = replicate (length (parameter f ps p)) []"
  by (auto simp: parameter_def opt_field_def json_refs_plain parameter_plain split: option.splits)

lemma array_parameter_refs: "plain_parameters ps \<Longrightarrow> concat (map json_refs (array_parameter ps p)) = []"
proof -
  assume "plain_parameters ps"
  then have "plain_json v" if "map_of ps p = Some v" for v using that by (rule parameter_plain)
  then have "list_all plain_json (array_parameter ps p)"
    by (cases "map_of ps p") (auto simp: array_parameter_def list_all_iff split: json.split)
  then show ?thesis by (auto simp: list_all_iff json_refs_plain)
qed

lemma template_samples:
  "template_refs ''${analyze-requirements.keywords}'' = [''analyze-requirements'']"
  "template_refs ''${analyze-requirements.output}'' = [''analyze-requirements'']"
  "template_refs ''${search-codebase.results}'' = [''search-codebase'']"
  "template_refs ''${get-git-context.commits}'' = [''get-git-context'']"
  "template_refs ''${design-solution.filesToModify}'' = [''design-solution'']"
  "template_refs ''${run-unit-tests.passed} === ${run-unit-tests.total}'' = [''run-unit-tests'', ''run-unit-tests'']"
  "template_refs ''${implement-changes.modifiedFiles}'' = [''implement-changes'']"
  "template_refs (''${design-solution.description}'' @ newline @ newline @ ''${code-review.summary}'') = [''design-solution'', ''code-review'']"
  "template_refs ''${analyze-issue.summary}'' = [''analyze-issue'']"
  "template_refs ''${locate-bug.file}'' = [''locate-bug'']"
  "template_refs ''${analyze-issue.root-cause}'' = [''analyze-issue'']"
  "template_refs ''${locate-bug.testFile}'' = [''locate-bug'']"
  "template_refs ''${analyze-code-quality.report}'' = [''analyze-code-quality'']"
  "template_refs ''${identify-refactorings.opportunities}'' = [''identify-refactorings'']"
  "template_refs ''${prioritize-refactorings.high}'' = [''prioritize-refactorings'']"
  "template_refs ''${prioritize-refactorings.medium}'' = [''prioritize-refactorings'']"
  "template_refs ''${analyze-code-quality.metrics}'' = [''analyze-code-quality'']"
  "template_refs ''${measure-improvements.report}'' = [''measure-improvements'']"
  "template_refs ''${fetch-pr-changes.files}'' = [''fetch-pr-changes'']"
  "template_refs ''${merge-review-results.findings}'' = [''merge-review-results'']"
  "template_refs ''${run-unit-tests.output}'' = [''run-unit-tests'']"
  "template_refs ''${run-integration-tests.output}'' = [''run-integration-tests'']"
  "template_refs ''${run-e2e-tests.output}'' = [''run-e2e-tests'']"
  "template_refs ''${check-coverage.output}'' = [''check-coverage'']"
  by code_simp+

lemma concat_replicate_Nil [simp]: "concat (replicate n []) = []"
  by (induction n) auto

lemmas reads_simps = node_refs_def parameter_refs parameter_or_refs array_parameter_refs template_samples
  template_samples(8) [unfolded newline_def append_Cons append_Nil] template_refs_plain js_text_plain parameter_or_plain
  newline_def

definition covered :: "NodeDefinition list \<Rightarrow> string list list \<Rightarrow> bool" where
  "covered nodes refs \<longleftrightarrow>
     list_all2 (\<lambda>n rs. list_all (\<lambda>r. r \<in> set (ancestors nodes (length nodes) [nd_id n])) rs) nodes refs"

definition development_refs :: "string list list" where
  "development_refs =
     [[], [''analyze-requirements''], [],
      [''analyze-requirements'', ''search-codebase'', ''get-git-context''], [''design-solution''], [],
      [], [''run-unit-tests'', ''run-unit-tests''], [''implement-changes''],
      [''design-solution'', ''code-review'']]"

lemma development_reads: "plain_parameters ps \<Longrightarrow> map node_refs (DevelopmentPipeline_nodes ps) = development_refs"
  by (simp add: DevelopmentPipeline_nodes_def development_refs_def reads_simps)

lemma development_covered: "covered (DevelopmentPipeline_nodes ps) development_refs"
  by code_simp

definition quick_fix_refs :: "string list list" where
  "quick_fix_refs =
     [[], [''analyze-issue''], [''locate-bug'', ''analyze-issue''], [''locate-bug''], []]"

lemma quick_fix_reads: "plain_parameters ps \<Longrightarrow> map node_refs (QuickFixPipeline_nodes ps) = quick_fix_refs"
  by (simp add: QuickFixPipeline_nodes_def quick_fix_refs_def reads_simps)

lemma quick_fix_covered: "covered (QuickFixPipeline_nodes ps) quick_fix_refs"
  by code_simp

definition refactoring_refs :: "string list list" where
  "refactoring_refs =
     [[], [''analyze-code-quality''], [''identify-refactorings''], [''prioritize-refactorings''], [],
      [''prioritize-refactorings''], [], [''analyze-code-quality''], [''measure-improvements'']]"

lemma refactoring_reads: "plain_parameters ps \<Longrightarrow> map node_refs (RefactoringPipeline_nodes ps) = refactoring_refs"
  by (simp add: RefactoringPipeline_nodes_def refactoring_refs_def reads_simps)

lemma refactoring_covered: "covered (RefactoringPipeline_nodes ps) refactoring_refs"
  by code_simp

definition code_review_refs :: "string list list" where
  "code_review_refs =
     [[], [''fetch-pr-changes''], [''fetch-pr-changes''], [''fetch-pr-changes''], [''fetch-pr-changes''],
      [''static-analysis'', ''security-check'', ''performance-check'', ''documentation-check''],
      [''merge-review-results'']]"

lemma code_review_reads: "plain_parameters ps \<Longrightarrow> map node_refs (CodeReviewPipeline_nodes ps) = code_review_refs"
  by (simp add: CodeReviewPipeline_nodes_def code_review_refs_def reads_simps)

lemma code_review_covered: "covered (CodeReviewPipeline_nodes ps) code_review_refs"
  by code_simp

definition testing_refs :: "string list list" where
  "testing_refs =
     [[], [], [], [],
      [''run-unit-tests'', ''run-integration-tests'', ''run-e2e-tests'', ''check-coverage'']]"

lemma testing_reads: "plain_parameters ps \<Longrightarrow> map node_refs (TestingPipeline_nodes ps) = testing_refs"
  by (simp add: TestingPipeline_nodes_def testing_refs_def reads_simps)

lemma testing_covered: "covered (TestingPipeline_nodes ps) testing_refs"
  by code_simp

section \<open>Every standard pipeline\<close>

lemma factory_cases:
  assumes "\<And>ps. P (DevelopmentPipeline_nodes ps) [''analyze-requirements'']"
    "\<And>ps. P (QuickFixPipeline_nodes ps) [''analyze-issue'']"
    "\<And>ps. P (RefactoringPipeline_nodes ps) [''analyze-code-quality'']"
    "\<And>ps. P (CodeReviewPipeline_nodes ps) [''fetch-pr-changes'']"
    "\<And>ps. P (TestingPipeline_nodes ps) [''run-unit-tests'', ''run-integration-tests'', ''run-e2e-tests'']"
  shows "P (gd_nodes (PipelineFactory_create now cfg vars)) (gd_entryNodes (PipelineFactory_create now cfg vars))"
  using assms
  by (cases "pc_type cfg") (simp_all add: PipelineFactory_create_def DevelopmentPipeline_create_def
      QuickFixPipeline_create_def RefactoringPipeline_create_def CodeReviewPipeline_create_def TestingPipeline_create_def)

lemma entries_ok:
  "distinct (gd_entryNodes (PipelineFactory_create now cfg vars)) \<and> gd_entryNodes (PipelineFactory_create now cfg vars) \<noteq> []"
  by (rule factory_cases) code_simp+

definition roots_listed :: "NodeDefinition list \<Rightarrow> string list \<Rightarrow> bool" where
  "roots_listed nodes entries \<longleftrightarrow> list_all (\<lambda>n. deps_of nodes (nd_id n) = [] \<longrightarrow> nd_id n \<in> set entries) nodes"

lemma factory_roots:
  "roots_listed (gd_nodes (PipelineFactory_create now cfg vars)) (gd_entryNodes (PipelineFactory_create now cfg vars))"
  by (rule factory_cases) code_simp+

definition retries_tests_only :: "NodeDefinition list \<Rightarrow> bool" where
  "retries_tests_only nodes \<longleftrightarrow> list_all (\<lambda>n. nd_retryPolicy n = None \<or> nd_id n = ''run-unit-tests'') nodes"

lemma factory_retries: "retries_tests_only (gd_nodes (PipelineFactory_create now cfg vars))"
  by (rule factory_cases) code_simp+

definition no_loops :: "NodeDefinition list \<Rightarrow> bool" where
  "no_loops nodes \<longleftrightarrow> list_all (\<lambda>n. nd_type n \<noteq> LOOP) nodes"

lemma factory_no_loops: "no_loops (gd_nodes (PipelineFactory_create now cfg vars))"
  by (rule factory_cases) code_simp+

lemma factory_validate_nodes:
  "validate_nodes (gd_nodes (PipelineFactory_create now cfg vars)) [] (gd_nodes (PipelineFactory_create now cfg vars)) = Inr ()"
  by (rule factory_cases [where P = "\<lambda>ns _. validate_nodes ns [] ns = Inr ()"])
    (rule development_valid quick_fix_valid refactoring_valid code_review_valid testing_valid)+

lemma factory_acyclic: "detectCycles (gd_nodes (PipelineFactory_create now cfg vars)) = Inr ()"
  by (rule factory_cases [where P = "\<lambda>ns _. detectCycles ns = Inr ()"])
    (rule development_valid quick_fix_valid refactoring_valid code_review_valid testing_valid)+

lemma factory_nodes: "gd_nodes (PipelineFactory_create now cfg vars) \<noteq> []"
  by (rule factory_cases) code_simp+

lemma factory_valid:
  "validateGraph (PipelineFactory_create now cfg vars) = Inr (PipelineFactory_create now cfg vars)"
  by (simp add: validateGraph_def factory_validate_nodes factory_acyclic factory_nodes entries_ok)

lemma factory_covered:
  assumes "plain_parameters (pc_parameters cfg)"
  shows "covered (gd_nodes (PipelineFactory_create now cfg vars)) (map node_refs (gd_nodes (PipelineFactory_create now cfg vars)))"
  using assms
  by (cases "pc_type cfg") (simp_all add: PipelineFactory_create_def DevelopmentPipeline_create_def
      QuickFixPipeline_create_def RefactoringPipeline_create_def CodeReviewPipeline_create_def TestingPipeline_create_def
      development_reads quick_fix_reads refactoring_reads code_review_reads testing_reads
      development_covered quick_fix_covered refactoring_covered code_review_covered testing_covered)

lemma coveredD:
  "covered nodes (map node_refs nodes) \<Longrightarrow> n \<in> set nodes \<Longrightarrow> r \<in> set (node_refs n) \<Longrightarrow>
     r \<in> set (ancestors nodes (length nodes) [nd_id n])"
  by (auto simp: covered_def list_all2_map2 list.rel_refl list_all_iff list_all2_same)

text \<open>
  \<^verbatim>\<open>PipelineExecutor.execute\<close> always starts: for every type, name, parameters and concurrency
  the factory builds a graph that \<^verbatim>\<open>ExecutionGraph\<close> accepts, every type of node has its handler, and
  the run begins.
\<close>

theorem standard_pipelines_start:
  "\<exists>st. PipelineExecutor_execute now execId cfg vars = Inr st \<and> (\<forall>t. hasHandler t st) \<and>
     graph_reach (PipelineFactory_create now cfg vars) (pipeline_concurrency cfg) handler_types st"
proof -
  let ?d = "PipelineFactory_create now cfg vars"
  obtain st where st: "new_ExecutionGraph ?d (pipeline_concurrency cfg) execId = Inr st" "\<not> gs_running st"
    by (simp add: new_ExecutionGraph_def factory_valid)
  have has: "hasHandler t (fold registerHandler handler_types st)" for t
    by (cases t) (simp_all add: handler_types_def registerHandler_def hasHandler_def)
  then have reg: "registerHandlers st = Inr (fold registerHandler handler_types st)"
    by (simp add: registerHandlers_def verifyAllHandlersRegistered_def Let_def)
  obtain st' where st': "execute_start now (fold registerHandler handler_types st) = Some st'"
    using st(2) by (simp add: execute_start_def)
  then have "hasHandler t st'" for t using has [of t] by (auto simp: execute_start_def hasHandler_def split: if_splits)
  with st st' reg graph_reach.started [OF st(1) st'] show ?thesis by (simp add: PipelineExecutor_execute_def)
qed


text \<open>
  A standard pipeline cannot hang when it may run two nodes at once: only the unit tests of the
  development pipeline are retried, so that a slot is left for the retry, and a run that is not over
  can always make a step.
\<close>

theorem standard_pipeline_progress:
  assumes "graph_reach (PipelineFactory_create now cfg vars) (pipeline_concurrency cfg) handler_types st"
    and "2 \<le> pipeline_concurrency cfg"
  shows "wait_over st \<or> (\<exists>st'. graph_step st st')"
proof -
  let ?d = "PipelineFactory_create now cfg vars"
  have ok: "nodes_ok (gd_nodes ?d)" using validateGraph_accepts [OF factory_valid] by blast
  have "roots (gd_nodes ?d) \<subseteq> set (gd_entryNodes ?d)"
    using factory_roots [of now cfg vars] by (auto simp: roots_def roots_listed_def list_all_iff)
  moreover have "{i \<in> nd_id ` set (gd_nodes ?d). has_retryPolicy (gd_nodes ?d) i} \<subseteq> {''run-unit-tests''}"
    using factory_retries [of now cfg vars] ok
    by (auto simp: retries_tests_only_def list_all_iff has_retryPolicy_def find_node_mem split: option.splits)
      (metis option.distinct(1))
  then have "card {i \<in> nd_id ` set (gd_nodes ?d). has_retryPolicy (gd_nodes ?d) i} \<le> card {''run-unit-tests''}"
    by (rule card_mono [rotated]) simp
  then have "int (card {i \<in> nd_id ` set (gd_nodes ?d). has_retryPolicy (gd_nodes ?d) i}) < pipeline_concurrency cfg"
    using assms(2) by simp
  ultimately show ?thesis
    using stuck_allDone [OF assms(1)] entries_ok [of now cfg vars] unfolding wait_over_def by blast
qed

section \<open>An example run\<close>

definition fix_config :: PipelineConfig where
  "fix_config = \<lparr>pc_type = QUICK_FIX, pc_name = ''fix'', pc_description = ''bug'', pc_parameters = [(''error'', JStr ''boom'')],
     pc_timeout = None, pc_retryPolicy = None, pc_concurrency = Some 2\<rparr>"

abbreviation fix_graph :: GraphDefinition where
  "fix_graph \<equiv> PipelineFactory_create 0 fix_config []"

definition fix_analyzed :: GraphState where
  "fix_analyzed = complete_node 5 ''analyze-issue'' (JObj [(''summary'', JStr ''off by one'')])
     (started_graph fix_graph 2 handler_types)"

definition locate_bug :: NodeDefinition where
  "locate_bug = QuickFixPipeline_nodes [(''error'', JStr ''boom'')] ! 1"

lemma fix_facts:
  "pipeline_concurrency fix_config = 2"
  "plain_parameters (pc_parameters fix_config)"
  "InFlight ''analyze-issue'' \<in># gs_frames (started_graph fix_graph 2 handler_types)"
  "map_option nd_type (find_node (gs_nodes (started_graph fix_graph 2 handler_types)) ''analyze-issue'') = Some TASK"
  "hasHandler TASK (started_graph fix_graph 2 handler_types)"
  "InFlight (nd_id locate_bug) \<in># gs_frames fix_analyzed"
  "node_refs locate_bug = [''analyze-issue'']"
  by code_simp+

lemma fix_reach: "graph_reach fix_graph (pipeline_concurrency fix_config) handler_types fix_analyzed"
  unfolding fix_analyzed_def fix_facts(1)
proof (rule graph_reach.continued [OF started_reach])
  show "\<not> isl (validateGraph fix_graph)" by (simp add: factory_valid)
qed (rule handler_fulfils_typed; rule fix_facts)

lemma locate_bug_listed: "locate_bug \<in> set (gd_nodes fix_graph)"
  by (simp add: locate_bug_def PipelineFactory_create_def fix_config_def QuickFixPipeline_create_def)
    (simp add: QuickFixPipeline_nodes_def)

lemma fix_completed: "stat fix_analyzed ''analyze-issue'' = Some COMPLETED"
  by code_simp


theorem standard_pipeline_progress_witness:
  "wait_over fix_analyzed \<or> (\<exists>st'. graph_step fix_analyzed st')"
  using standard_pipeline_progress [OF fix_reach] by (simp add: fix_facts(1))

end
