(* ===== verification/Iso_Dates.thy ===== *)
theory Iso_Dates
  imports Json_Text
begin

text \<open>
  Dates as texts: \<^verbatim>\<open>new Date(t).toISOString()\<close> and \<^verbatim>\<open>Date.parse\<close> on the texts it writes, as the
  language defines them: the proleptic Gregorian calendar, milliseconds since 1970, four digits for
  the years from 0 to 9999 and a sign with six digits for the others.  Other formats that engines
  read are not modelled; they count as texts that do not parse.
\<close>

section \<open>The calendar\<close>

definition leap_year :: "int \<Rightarrow> bool" where
  "leap_year y \<longleftrightarrow> y mod 4 = 0 \<and> y mod 100 \<noteq> 0 \<or> y mod 400 = 0"

text \<open>Days from the first day of the year 0 to the first day of the year \<open>y\<close>.\<close>

definition days_before :: "int \<Rightarrow> int" where
  "days_before y = 365 * y + (y + 3) div 4 - (y + 99) div 100 + (y + 399) div 400"

definition month_starts :: "bool \<Rightarrow> int list" where
  "month_starts leap =
     (let l = (if leap then 1 else 0)
      in [0, 31, 59 + l, 90 + l, 120 + l, 151 + l, 181 + l, 212 + l, 243 + l, 273 + l, 304 + l, 334 + l])"

definition year_of :: "int \<Rightarrow> int" where
  "year_of d =
     (let y = 400 * d div 146097
      in if d < days_before y then y - 1 else if days_before (y + 1) \<le> d then y + 1 else y)"

definition month_index :: "int \<Rightarrow> int list \<Rightarrow> nat" where
  "month_index doy starts = length (takeWhile (\<lambda>s. s \<le> doy) starts)"

definition EPOCH_DAYS :: int where
  "EPOCH_DAYS = 719528"

lemma epoch_day: "days_before 1970 = EPOCH_DAYS"
  by (simp add: days_before_def EPOCH_DAYS_def)

lemma round_up_step:
  assumes "0 < (c::int)"
  shows "(y + c) div c = (y + (c - 1)) div c + (if y mod c = 0 then 1 else 0)"
proof -
  define q r where "q = y div c" and "r = y mod c"
  have y: "y = r + c * q" and r: "0 \<le> r" "r < c" using assms by (simp_all add: q_def r_def)
  have "y + (c - 1) = (r + (c - 1)) + c * q" by (simp add: y)
  then have "(y + (c - 1)) div c = q + (r + (c - 1)) div c" using assms by (simp only: div_mult_self2)
  moreover have "(r + (c - 1)) div c = (if r = 0 then 0 else 1)"
  proof (cases "r = 0")
    case False
    have "r + (c - 1) = (r - 1) + c" by simp
    moreover have "(r - 1) div c = 0" using False r by (intro div_pos_pos_trivial) auto
    ultimately show ?thesis using False assms by (simp only: div_add_self2) simp
  qed (use assms in simp)
  moreover have "(y + c) div c = q + 1" using assms by (simp add: q_def)
  ultimately show ?thesis by (simp add: r_def)
qed

lemma round_up: "0 < c \<Longrightarrow> e = c - 1 \<Longrightarrow> (y + c) div c = (y + e) div c + (if y mod c = 0 then 1 else (0::int))"
  using round_up_step [of c y] by (simp only:)

lemma mod_mod_zero: "y mod (c * k) = 0 \<Longrightarrow> y mod c = (0::int)"
  by (metis dvd_imp_mod_0 dvd_triv_left mod_0_imp_dvd dvd_trans)

lemma regroup:
  "a' = a + i \<Longrightarrow> b' = b + j \<Longrightarrow> c' = c + k \<Longrightarrow> x + 365 + a' - b' + c' = (x + a - b + c) + 365 + i - j + (k::int)"
  by simp

lemma days_before_Suc: "days_before (y + 1) = days_before y + (if leap_year y then 366 else 365)"
proof -
  have "days_before (y + 1) = 365 * y + 365 + (y + 4) div 4 - (y + 100) div 100 + (y + 400) div 400"
    by (simp add: days_before_def)
  also have "\<dots> = days_before y + 365 + (if y mod 4 = 0 then 1 else 0) - (if y mod 100 = 0 then 1 else 0) + (if y mod 400 = 0 then 1 else 0)"
    unfolding days_before_def
    by (rule regroup) (rule round_up; simp)+
  also have "\<dots> = days_before y + (if leap_year y then 366 else 365)"
    using mod_mod_zero [of y 4 25] mod_mod_zero [of y 100 4]
    by (cases "y mod 4 = 0"; cases "y mod 100 = 0"; cases "y mod 400 = 0") (simp_all add: leap_year_def)
  finally show ?thesis .
qed

text \<open>The year is found by an estimate that is at most one off.\<close>

lemma days_before_estimate:
  "146097 * y - 400 \<le> 400 * days_before y" "400 * days_before y \<le> 146097 * y + 1200"
proof -
  have lo: "n - (c - 1) \<le> c * (n div c)" and hi: "c * (n div c) \<le> n" if "0 < c" for n c :: int
    using that mult_div_mod_eq [of c n] pos_mod_bound [OF that, of n] pos_mod_sign [OF that, of n] by linarith+
  show "146097 * y - 400 \<le> 400 * days_before y" "400 * days_before y \<le> 146097 * y + 1200"
    using lo [of 4 "y + 3"] hi [of 4 "y + 3"] lo [of 100 "y + 99"] hi [of 100 "y + 99"] lo [of 400 "y + 399"] hi [of 400 "y + 399"]
    unfolding days_before_def by simp_all
qed

lemma year_of_bounds: "days_before (year_of d) \<le> d" "d < days_before (year_of d + 1)"
proof -
  define y where "y = 400 * d div 146097"
  have y: "146097 * y \<le> 400 * d" "400 * d < 146097 * y + 146097"
    using mult_div_mod_eq [of 146097 "400 * d"] pos_mod_bound [of 146097 "400 * d"] pos_mod_sign [of 146097 "400 * d"]
    unfolding y_def by linarith+
  have "days_before (y - 1) \<le> d" using y(1) days_before_estimate(2) [of "y - 1"] by (simp add: algebra_simps)
  moreover have "d < days_before (y + 2)" using y(2) days_before_estimate(1) [of "y + 2"] by (simp add: algebra_simps)
  ultimately show "days_before (year_of d) \<le> d" "d < days_before (year_of d + 1)"
    unfolding year_of_def Let_def y_def [symmetric] by (auto simp: add.assoc)
qed

definition civil :: "int \<Rightarrow> int \<times> nat \<times> nat" where
  "civil days =
     (let d = days + EPOCH_DAYS; y = year_of d; starts = month_starts (leap_year y); doy = d - days_before y;
          m = month_index doy starts
      in (y, m, nat (doy - starts ! (m - 1)) + 1))"

definition days_of_civil :: "int \<Rightarrow> nat \<Rightarrow> nat \<Rightarrow> int" where
  "days_of_civil y m d = days_before y + month_starts (leap_year y) ! (m - 1) + int d - 1 - EPOCH_DAYS"

lemma month_index_bounds:
  assumes "0 \<le> doy" "doy < (if leap then 366 else 365)" "m = month_index doy (month_starts leap)"
  shows "1 \<le> m \<and> m \<le> 12 \<and> month_starts leap ! (m - 1) \<le> doy \<and> doy < month_starts leap ! (m - 1) + 31"
  using assms by (cases leap) (simp_all add: month_index_def month_starts_def)

lemma civil_inverse:
  assumes "civil days = (y, m, d)"
  shows "days_of_civil y m d = days" "1 \<le> m" "m \<le> 12" "1 \<le> d" "d \<le> 31" "y = year_of (days + EPOCH_DAYS)"
proof -
  let ?d = "days + EPOCH_DAYS"
  let ?doy = "?d - days_before y"
  have y: "y = year_of ?d" and m: "m = month_index ?doy (month_starts (leap_year y))"
    and d: "d = nat (?doy - month_starts (leap_year y) ! (m - 1)) + 1"
    using assms by (auto simp: civil_def Let_def)
  have "0 \<le> ?doy" "?doy < (if leap_year y then 366 else 365)"
    using year_of_bounds [of ?d] days_before_Suc [of y] y by auto
  from month_index_bounds [OF this m] d y show
    "days_of_civil y m d = days" "1 \<le> m" "m \<le> 12" "1 \<le> d" "d \<le> 31" "y = year_of ?d"
    by (auto simp: days_of_civil_def)
qed

section \<open>Texts of fixed width\<close>

primrec pad :: "nat \<Rightarrow> int \<Rightarrow> string" where
  "pad 0 n = []"
| "pad (Suc w) n = pad w (n div 10) @ [char_of (48 + n mod 10)]"

definition read_digits :: "string \<Rightarrow> int" where
  "read_digits s = foldl (\<lambda>a c. 10 * a + (of_char c - 48)) 0 s"

lemma digit_of_int:
  "is_digit (char_of (48 + (n::int) mod 10))" "(of_char (char_of (48 + n mod 10)) :: int) = 48 + n mod 10"
proof -
  have "0 \<le> n mod 10" "n mod 10 < 10" by simp_all
  then show v: "(of_char (char_of (48 + n mod 10)) :: int) = 48 + n mod 10" by simp
  have "int (of_char (char_of (48 + n mod 10))) = of_char (char_of (48 + n mod 10))" by (rule of_nat_of_char)
  with v have "int (of_char (char_of (48 + n mod 10))) = 48 + n mod 10" by simp
  moreover have "0 \<le> n mod 10" "n mod 10 < 10" by simp_all
  ultimately show "is_digit (char_of (48 + n mod 10))" unfolding is_digit_def by linarith
qed

lemma pad_props:
  "length (pad w n) = w" "list_all is_digit (pad w n)" "0 \<le> n \<Longrightarrow> n < 10 ^ w \<Longrightarrow> read_digits (pad w n) = n"
  by (induction w arbitrary: n) (auto simp: digit_of_int read_digits_def pos_imp_zdiv_nonneg_iff)

lemma pad_hd: "hd (pad (Suc w) n @ s) \<noteq> CHR ''+''" "hd (pad (Suc w) n @ s) \<noteq> CHR ''-''"
  using pad_props(1,2) [of "Suc w" n] by (cases "pad (Suc w) n"; auto simp: is_digit_def)+

text \<open>A format is a sequence of numbers of given widths and fixed characters.\<close>

fun write_format :: "(nat + char) list \<Rightarrow> int list \<Rightarrow> string" where
  "write_format (Inl w # fs) (n # ns) = pad w n @ write_format fs ns"
| "write_format (Inr c # fs) ns = c # write_format fs ns"
| "write_format _ _ = []"

fun read_format :: "(nat + char) list \<Rightarrow> string \<Rightarrow> int list option" where
  "read_format [] s = (if s = [] then Some [] else None)"
| "read_format (Inl w # fs) s =
     (if length (take w s) = w \<and> list_all is_digit (take w s)
      then map_option ((#) (read_digits (take w s))) (read_format fs (drop w s)) else None)"
| "read_format (Inr c # fs) s = (case s of [] \<Rightarrow> None | c' # r \<Rightarrow> if c' = c then read_format fs r else None)"

fun fits :: "(nat + char) list \<Rightarrow> int list \<Rightarrow> bool" where
  "fits (Inl w # fs) (n # ns) = (0 \<le> n \<and> n < 10 ^ w \<and> fits fs ns)"
| "fits (Inr c # fs) ns = fits fs ns"
| "fits [] ns = (ns = [])"
| "fits _ _ = False"

lemma read_write_format: "fits fs ns \<Longrightarrow> read_format fs (write_format fs ns) = Some ns"
  by (induction fs ns rule: fits.induct) (auto simp: pad_props)

definition date_format :: "nat \<Rightarrow> (nat + char) list" where
  "date_format yearWidth =
     [Inl yearWidth, Inr CHR ''-'', Inl 2, Inr CHR ''-'', Inl 2, Inr CHR ''T'', Inl 2, Inr CHR '':'', Inl 2, Inr CHR '':'',
      Inl 2, Inr CHR ''.'', Inl 3, Inr CHR ''Z'']"

section \<open>Writing and reading dates\<close>

definition MAX_TIME :: time where
  "MAX_TIME = 8640000000000000"

definition DAY_MS :: int where
  "DAY_MS = 86400000"

text \<open>\<^verbatim>\<open>toISOString\<close> throws on a time outside the range of dates.\<close>

definition toISOString :: "time \<Rightarrow> string option" where
  "toISOString t =
     (if \<bar>t\<bar> > MAX_TIME then None
      else
        let (y, m, d) = civil (t div DAY_MS); r = t mod DAY_MS;
            rest = [int m, int d, r div 3600000, r div 60000 mod 60, r div 1000 mod 60, r mod 1000]
        in Some (if 0 \<le> y \<and> y \<le> 9999 then write_format (date_format 4) (y # rest)
                 else (if y < 0 then CHR ''-'' else CHR ''+'') # write_format (date_format 6) (\<bar>y\<bar> # rest)))"

definition date_value :: "int \<Rightarrow> int list \<Rightarrow> time option" where
  "date_value y fs =
     (case fs of
        [m, d, h, mi, s, ms] \<Rightarrow>
          if 1 \<le> m \<and> m \<le> 12 \<and> 1 \<le> d \<and> d \<le> 31 \<and> (h < 24 \<or> h = 24 \<and> mi = 0 \<and> s = 0 \<and> ms = 0) \<and> mi < 60 \<and> s < 60
          then let t = days_of_civil y (nat m) (nat d) * DAY_MS + h * 3600000 + mi * 60000 + s * 1000 + ms
               in if \<bar>t\<bar> > MAX_TIME then None else Some t
          else None
      | _ \<Rightarrow> None)"

text \<open>\<^verbatim>\<open>Date.parse\<close>, where \<open>None\<close> is \<^verbatim>\<open>NaN\<close>.\<close>

definition Date_parse :: "string \<Rightarrow> time option" where
  "Date_parse s =
     (if s \<noteq> [] \<and> (hd s = CHR ''+'' \<or> hd s = CHR ''-'')
      then (case read_format (date_format 6) (tl s) of
              Some (y # fs) \<Rightarrow>
                if hd s = CHR ''+'' then date_value y fs
                else if y = 0 then None else date_value (- y) fs
            | _ \<Rightarrow> None)
      else (case read_format (date_format 4) s of Some (y # fs) \<Rightarrow> date_value y fs | _ \<Rightarrow> None))"

lemma date_samples:
  "toISOString 0 = Some ''1970-01-01T00:00:00.000Z''"
  "toISOString 1709251199999 = Some ''2024-02-29T23:59:59.999Z''"
  "Date_parse ''2024-02-29T23:59:59.999Z'' = Some 1709251199999"
  "toISOString (- 62198755200000) = Some ''-000001-01-01T00:00:00.000Z''"
  "Date_parse ''yesterday'' = None"
  by code_simp+

lemma clock_recombines:
  "(r::int) div 3600000 * 3600000 + r div 60000 mod 60 * 60000 + r div 1000 mod 60 * 1000 + r mod 1000 = r"
proof -
  have "r div 60000 = r div 1000 div 60" "r div 3600000 = r div 60000 div 60" by (simp_all flip: zdiv_zmult2_eq)
  then show ?thesis
    using mult_div_mod_eq [of 1000 r] mult_div_mod_eq [of 60 "r div 1000"] mult_div_mod_eq [of 60 "r div 60000"] by linarith
qed

lemma year_in_range:
  assumes "\<bar>t\<bar> \<le> MAX_TIME"
  shows "\<bar>year_of (t div DAY_MS + EPOCH_DAYS)\<bar> < 1000000"
proof -
  let ?d = "t div DAY_MS + EPOCH_DAYS"
  have "DAY_MS * (t div DAY_MS) \<le> t" "t < DAY_MS * (t div DAY_MS) + DAY_MS"
    using mult_div_mod_eq [of DAY_MS t] pos_mod_bound [of DAY_MS t] pos_mod_sign [of DAY_MS t] by (auto simp: DAY_MS_def)
  then have "\<bar>?d\<bar> \<le> 101000000" using assms by (auto simp: DAY_MS_def MAX_TIME_def EPOCH_DAYS_def)
  then show ?thesis
    using year_of_bounds [of ?d] days_before_estimate(2) [of "year_of ?d + 1"] days_before_estimate(1) [of "year_of ?d"]
    by (simp add: abs_le_iff abs_less_iff)
qed

lemma clock_bounds:
  assumes "0 \<le> (r::int)" "r < DAY_MS"
  shows "0 \<le> r div 3600000" "r div 3600000 < 24"
  using assms by (simp_all add: DAY_MS_def pos_imp_zdiv_nonneg_iff)

text \<open>
  Dates survive being written and read: \<^verbatim>\<open>Date.parse\<close> gives back the time whose text
  \<^verbatim>\<open>toISOString\<close> wrote, for every time in the range of dates; outside it nothing is written.
\<close>

theorem date_roundtrip:
  "(case toISOString t of Some s \<Rightarrow> Date_parse s = Some t | None \<Rightarrow> \<bar>t\<bar> > MAX_TIME)"
proof (cases "\<bar>t\<bar> > MAX_TIME")
  case False
  obtain y m d where c: "civil (t div DAY_MS) = (y, m, d)" by (metis prod_cases3)
  note C = civil_inverse [OF c]
  define r where "r = t mod DAY_MS"
  have r: "0 \<le> r" "r < DAY_MS" by (simp_all add: r_def DAY_MS_def)
  define rest where "rest = [int m, int d, r div 3600000, r div 60000 mod 60, r div 1000 mod 60, r mod 1000]"
  obtain h mi se ms where rest: "rest = [int m, int d, h, mi, se, ms]"
    and clock: "0 \<le> h" "h < 24" "0 \<le> mi" "mi < 60" "0 \<le> se" "se < 60" "0 \<le> ms" "ms < 1000"
      "h * 3600000 + mi * 60000 + se * 1000 + ms = r"
    by (rule that [OF rest_def clock_bounds [OF r] _ _ _ _ _ _ clock_recombines]) simp_all
  have "t div DAY_MS * DAY_MS + r = t" by (simp add: r_def)
  then have val: "date_value y rest = Some t"
    using C(1-5) clock False by (simp add: date_value_def rest add.assoc)
  have fits: "fits (date_format w) (n # rest) \<longleftrightarrow> 0 \<le> n \<and> n < 10 ^ w" for w n
    using C(3,5) clock by (auto simp: date_format_def rest)
  have big: "\<bar>y\<bar> < 10 ^ 6" using year_in_range [of t] False C(6) by simp
  have iso: "toISOString t = Some (if 0 \<le> y \<and> y \<le> 9999 then write_format (date_format 4) (y # rest)
      else (if y < 0 then CHR ''-'' else CHR ''+'') # write_format (date_format 6) (\<bar>y\<bar> # rest))"
    using False c by (simp add: toISOString_def rest_def r_def Let_def)
  show ?thesis
  proof (cases "0 \<le> y \<and> y \<le> 9999")
    case True
    then have "read_format (date_format 4) (write_format (date_format 4) (y # rest)) = Some (y # rest)"
      by (intro read_write_format) (simp add: fits)
    moreover have "hd (write_format (date_format 4) (y # rest)) \<noteq> CHR ''+''"
      "hd (write_format (date_format 4) (y # rest)) \<noteq> CHR ''-''"
      using pad_hd [of 3 y] by (auto simp: date_format_def)
    ultimately show ?thesis using True iso val by (simp add: Date_parse_def)
  next
    case other: False
    have "read_format (date_format 6) (write_format (date_format 6) (\<bar>y\<bar> # rest)) = Some (\<bar>y\<bar> # rest)"
      by (intro read_write_format) (use big in \<open>simp add: fits\<close>)
    with other iso val show ?thesis by (auto simp: Date_parse_def)
  qed
qed (simp add: toISOString_def)

end
