(* ===== verification/Sessions.thy ===== *)
theory Sessions
  imports Dedupe Js_Numbers Iso_Dates
begin

text \<open>
  Login sessions: \<^verbatim>\<open>auth/SessionStore.ts\<close> in memory, \<^verbatim>\<open>auth/RedisSessionStore.ts\<close> with its optional
  cache in each process, \<^verbatim>\<open>auth/sessionUtils.ts\<close> and the factory \<^verbatim>\<open>auth/createSessionStore.ts\<close>.  Calls on
  Redis are split where they wait for the server: the command runs at one time and the reply is
  handled at another, with anything in between.  The order of \<^verbatim>\<open>localeCompare\<close> depends on the locale of
  the process and is a parameter.
\<close>

section \<open>Records\<close>

record SessionRecord =
  sr_id :: string
  sr_subject :: string
  sr_email :: "string option"
  sr_name :: "string option"
  sr_tenantId :: "string option"
  sr_roles :: "string list"
  sr_scopes :: "string list"
  sr_issuedAt :: string
  sr_expiresAt :: string
  sr_claims :: "(string, json) jsmap"

record CreateSessionInput =
  ci_subject :: string
  ci_email :: "string option"
  ci_name :: "string option"
  ci_tenantId :: "string option"
  ci_roles :: "string list"
  ci_scopes :: "string list"
  ci_claims :: "(string, json) jsmap"

text \<open>\<^verbatim>\<open>Array.from(new Set(xs)).sort(le)\<close>: the first occurrence of each text, sorted stably.\<close>

fun insert_by :: "('a \<Rightarrow> 'a \<Rightarrow> bool) \<Rightarrow> 'a \<Rightarrow> 'a list \<Rightarrow> 'a list" where
  "insert_by le x [] = [x]"
| "insert_by le x (y # ys) = (if le x y then x # y # ys else y # insert_by le x ys)"

definition sort_by :: "('a \<Rightarrow> 'a \<Rightarrow> bool) \<Rightarrow> 'a list \<Rightarrow> 'a list" where
  "sort_by le xs = foldr (insert_by le) xs []"

definition set_of :: "'a list \<Rightarrow> 'a list" where
  "set_of xs = rev (remdups (rev xs))"

text \<open>The default order of \<^verbatim>\<open>sort\<close>: by code units.\<close>

fun text_le :: "string \<Rightarrow> string \<Rightarrow> bool" where
  "text_le [] t = True"
| "text_le (c # s) [] = False"
| "text_le (c # s) (d # t) = ((of_char c :: nat) < of_char d \<or> c = d \<and> text_le s t)"

definition normalizeRoles :: "(string \<Rightarrow> string \<Rightarrow> bool) \<Rightarrow> string list \<Rightarrow> string list" where
  "normalizeRoles le roles = sort_by le (set_of (filter (\<lambda>r. r \<noteq> []) (map trim roles)))"

section \<open>Creation\<close>

datatype session_error = InvalidDate | NoPersistence

text \<open>\<^verbatim>\<open>new Date(ms)\<close> drops the fraction of a millisecond.\<close>

definition truncate_ms :: "rat \<Rightarrow> time" where
  "truncate_ms q = (if q < 0 then \<lceil>q\<rceil> else \<lfloor>q\<rfloor>)"

definition session_record ::
  "(string \<Rightarrow> string \<Rightarrow> bool) \<Rightarrow> string \<Rightarrow> CreateSessionInput \<Rightarrow> time \<Rightarrow> rat \<Rightarrow> SessionRecord option" where
  "session_record le i input issuedAtMs expiresAtMs =
     (case (toISOString issuedAtMs, toISOString (truncate_ms expiresAtMs)) of
        (Some issued, Some expires) \<Rightarrow>
          Some \<lparr>sr_id = i, sr_subject = ci_subject input, sr_email = ci_email input, sr_name = ci_name input,
                sr_tenantId = ci_tenantId input, sr_roles = normalizeRoles le (ci_roles input),
                sr_scopes = sort_by text_le (set_of (ci_scopes input)), sr_issuedAt = issued, sr_expiresAt = expires,
                sr_claims = ci_claims input\<rparr>
      | _ \<Rightarrow> None)"

text \<open>\<^verbatim>\<open>Date.now() >= Date.parse(session.expiresAt)\<close>, which is false when the text is no date.\<close>

definition session_expired :: "time \<Rightarrow> SessionRecord \<Rightarrow> bool" where
  "session_expired now s = (case Date_parse (sr_expiresAt s) of None \<Rightarrow> False | Some e \<Rightarrow> now \<ge> e)"

section \<open>The store in memory\<close>

type_synonym memory_sessions = "(string, SessionRecord) jsmap"

definition mem_createSession ::
  "(string \<Rightarrow> string \<Rightarrow> bool) \<Rightarrow> time \<Rightarrow> string \<Rightarrow> CreateSessionInput \<Rightarrow> rat \<Rightarrow> rat option \<Rightarrow> memory_sessions
     \<Rightarrow> memory_sessions \<times> (session_error + SessionRecord)" where
  "mem_createSession le now i input ttlSeconds override st =
     (let ttlMs = max 1 ttlSeconds * 1000;
          expiresAtMs = (case override of Some e \<Rightarrow> e | None \<Rightarrow> of_int now + ttlMs)
      in case session_record le i input now expiresAtMs of
           None \<Rightarrow> (st, Inl InvalidDate)
         | Some s \<Rightarrow> (jset i s st, Inr s))"

definition mem_getSession :: "time \<Rightarrow> string \<Rightarrow> memory_sessions \<Rightarrow> memory_sessions \<times> SessionRecord option" where
  "mem_getSession now i st =
     (case map_of st i of
        None \<Rightarrow> (st, None)
      | Some s \<Rightarrow> if session_expired now s then (jdelete i st, None) else (st, Some s))"

definition mem_revokeSession :: "string \<Rightarrow> memory_sessions \<Rightarrow> memory_sessions \<times> bool" where
  "mem_revokeSession i st = (jdelete i st, jhas st i)"

definition mem_clear :: "memory_sessions \<Rightarrow> memory_sessions" where
  "mem_clear st = []"

definition mem_cleanupSessions :: "time \<Rightarrow> memory_sessions \<Rightarrow> memory_sessions" where
  "mem_cleanupSessions now st = filter (\<lambda>(i, s). \<not> session_expired now s) st"

definition mem_closeSessions :: "memory_sessions \<Rightarrow> memory_sessions" where
  "mem_closeSessions st = []"

section \<open>The stored text\<close>

definition session_json :: "SessionRecord \<Rightarrow> json" where
  "session_json s =
     JObj ([(''id'', JStr (sr_id s)), (''subject'', JStr (sr_subject s))] @
       opt_field ''email'' (map_option JStr (sr_email s)) @ opt_field ''name'' (map_option JStr (sr_name s)) @
       opt_field ''tenantId'' (map_option JStr (sr_tenantId s)) @
       [(''roles'', JArr (map JStr (sr_roles s))), (''scopes'', JArr (map JStr (sr_scopes s))),
        (''issuedAt'', JStr (sr_issuedAt s)), (''expiresAt'', JStr (sr_expiresAt s)), (''claims'', JObj (sr_claims s))])"

text \<open>The fields of \<^verbatim>\<open>SessionRecordSchema\<close>; other properties are dropped.\<close>

definition text_field :: "(string, json) jsmap \<Rightarrow> string \<Rightarrow> string option" where
  "text_field ms f = (case map_of ms f of Some (JStr s) \<Rightarrow> Some s | _ \<Rightarrow> None)"

definition optional_text :: "(string, json) jsmap \<Rightarrow> string \<Rightarrow> string option option" where
  "optional_text ms f = (case map_of ms f of None \<Rightarrow> Some None | Some (JStr s) \<Rightarrow> Some (Some s) | _ \<Rightarrow> None)"

fun texts_of :: "json list \<Rightarrow> string list option" where
  "texts_of [] = Some []"
| "texts_of (JStr s # xs) = map_option ((#) s) (texts_of xs)"
| "texts_of _ = None"

definition texts_field :: "(string, json) jsmap \<Rightarrow> string \<Rightarrow> string list option" where
  "texts_field ms f = (case map_of ms f of Some (JArr xs) \<Rightarrow> texts_of xs | _ \<Rightarrow> None)"

definition SessionRecordSchema :: "json \<Rightarrow> SessionRecord option" where
  "SessionRecordSchema j =
     (case j of
        JObj ms \<Rightarrow>
          Option.bind (text_field ms ''id'') (\<lambda>i. Option.bind (text_field ms ''subject'') (\<lambda>subject.
          Option.bind (optional_text ms ''email'') (\<lambda>email. Option.bind (optional_text ms ''name'') (\<lambda>name.
          Option.bind (optional_text ms ''tenantId'') (\<lambda>tenantId. Option.bind (texts_field ms ''roles'') (\<lambda>roles.
          Option.bind (texts_field ms ''scopes'') (\<lambda>scopes. Option.bind (text_field ms ''issuedAt'') (\<lambda>issuedAt.
          Option.bind (text_field ms ''expiresAt'') (\<lambda>expiresAt.
            case map_of ms ''claims'' of
              Some (JObj claims) \<Rightarrow>
                Some \<lparr>sr_id = i, sr_subject = subject, sr_email = email, sr_name = name, sr_tenantId = tenantId,
                      sr_roles = roles, sr_scopes = scopes, sr_issuedAt = issuedAt, sr_expiresAt = expiresAt,
                      sr_claims = claims\<rparr>
            | _ \<Rightarrow> None)))))))))
      | _ \<Rightarrow> None)"

definition read_session :: "string \<Rightarrow> SessionRecord option" where
  "read_session raw = Option.bind (JSON_parse raw) SessionRecordSchema"

lemma texts_of_map [simp]: "texts_of (map JStr xs) = Some xs"
  by (induction xs) auto

lemma schema_session_json: "SessionRecordSchema (session_json s) = Some s"
  by (simp add: SessionRecordSchema_def session_json_def opt_field_def text_field_def optional_text_def texts_field_def
      split: option.split)

definition claims_ok :: "(string, json) jsmap \<Rightarrow> bool" where
  "claims_ok claims \<longleftrightarrow> json_wf (JObj claims)"

lemma session_json_wf: "claims_ok (sr_claims s) \<Longrightarrow> json_wf (session_json s)"
  by (auto simp: session_json_def claims_ok_def opt_field_def split: option.split)

lemma read_session_text: "claims_ok (sr_claims s) \<Longrightarrow> read_session (JSON_stringify (session_json s)) = Some s"
  by (simp add: read_session_def JSON_roundtrip session_json_wf schema_session_json)

section \<open>The store on Redis\<close>

record RedisSessionStoreConfig =
  rsc_redisUrl :: string
  rsc_keyPrefix :: "string option"
  rsc_enableL1Cache :: "bool option"
  rsc_l1CacheTtlMs :: "int option"
  rsc_l1CleanupIntervalMs :: "int option"

record L1CacheEntry =
  l1_session :: SessionRecord
  l1_cachedAt :: time

record RedisSessionStore =
  rs_keyPrefix :: string
  rs_enableL1Cache :: bool
  rs_l1CacheTtlMs :: int
  rs_l1CleanupIntervalMs :: int
  rs_l1Cache :: "(string, L1CacheEntry) jsmap"
  rs_client :: bool
  rs_closed :: bool

definition new_RedisSessionStore :: "RedisSessionStoreConfig \<Rightarrow> RedisSessionStore" where
  "new_RedisSessionStore c =
     \<lparr>rs_keyPrefix = default_to (rsc_keyPrefix c) ''session'', rs_enableL1Cache = default_to (rsc_enableL1Cache c) False,
      rs_l1CacheTtlMs = max 1000 (default_to (rsc_l1CacheTtlMs c) 30000),
      rs_l1CleanupIntervalMs = max 1000 (default_to (rsc_l1CleanupIntervalMs c) 60000),
      rs_l1Cache = [], rs_client = False, rs_closed = False\<rparr>"

definition session_key :: "RedisSessionStore \<Rightarrow> string \<Rightarrow> string" where
  "session_key st i = rs_keyPrefix st @ '':'' @ i"

definition session_client :: "redis_faults \<Rightarrow> RedisSessionStore \<Rightarrow> RedisSessionStore \<times> bool" where
  "session_client f st =
     (if rs_closed st then (st, False)
      else if rs_client st then (st, True)
      else if rf_connects f then (st\<lparr>rs_client := True\<rparr>, True)
      else (st, False))"

definition isL1CacheValid :: "time \<Rightarrow> RedisSessionStore \<Rightarrow> L1CacheEntry \<Rightarrow> bool" where
  "isL1CacheValid now st e \<longleftrightarrow> \<not> now - l1_cachedAt e \<ge> rs_l1CacheTtlMs st \<and> \<not> session_expired now (l1_session e)"

definition setL1Cache :: "time \<Rightarrow> SessionRecord \<Rightarrow> RedisSessionStore \<Rightarrow> RedisSessionStore" where
  "setL1Cache now s st =
     (if rs_enableL1Cache st
      then st\<lparr>rs_l1Cache := jset (sr_id s) \<lparr>l1_session = s, l1_cachedAt = now\<rparr> (rs_l1Cache st)\<rparr> else st)"

definition getL1Cache :: "time \<Rightarrow> string \<Rightarrow> RedisSessionStore \<Rightarrow> RedisSessionStore \<times> SessionRecord option" where
  "getL1Cache now i st =
     (if \<not> rs_enableL1Cache st then (st, None)
      else case map_of (rs_l1Cache st) i of
             None \<Rightarrow> (st, None)
           | Some e \<Rightarrow>
               if isL1CacheValid now st e then (st, Some (l1_session e))
               else (st\<lparr>rs_l1Cache := jdelete i (rs_l1Cache st)\<rparr>, None))"

definition deleteL1Cache :: "string \<Rightarrow> RedisSessionStore \<Rightarrow> RedisSessionStore" where
  "deleteL1Cache i st = st\<lparr>rs_l1Cache := jdelete i (rs_l1Cache st)\<rparr>"

text \<open>The calls that wait for a reply: with the process, the time of the command, and what the reply
  will say.\<close>

datatype session_call =
    GetCall nat time string "string option option"
  | CreateCall nat time SessionRecord bool

datatype session_result =
    Waits
  | Created "session_error + SessionRecord"
  | Got "SessionRecord option"
  | RevokedIs bool
  | Finished

definition finish_create :: "time \<Rightarrow> SessionRecord \<Rightarrow> bool \<Rightarrow> RedisSessionStore \<Rightarrow> RedisSessionStore \<times> (session_error + SessionRecord)" where
  "finish_create now s redisSuccess st =
     (if redisSuccess then (setL1Cache now s st, Inr s)
      else if rs_enableL1Cache st then (setL1Cache now s st, Inr s)
      else (st, Inl NoPersistence))"

definition finish_get :: "time \<Rightarrow> string option option \<Rightarrow> RedisSessionStore \<Rightarrow> RedisSessionStore \<times> SessionRecord option" where
  "finish_get now reply st =
     (case reply of
        Some (Some raw) \<Rightarrow>
          if raw = [] then (st, None)
          else (case read_session raw of
                  None \<Rightarrow> (st, None)
                | Some s \<Rightarrow> if session_expired now s then (st, None) else (setL1Cache now s st, Some s))
      | _ \<Rightarrow> (st, None))"

record 'r session_world =
  sw_stores :: "(nat, RedisSessionStore) jsmap"
  sw_redis :: 'r
  sw_calls :: "(nat, session_call) jsmap"

definition set_store :: "nat \<Rightarrow> RedisSessionStore \<Rightarrow> 'r session_world \<Rightarrow> 'r session_world" where
  "set_store n st w = w\<lparr>sw_stores := jset n st (sw_stores w)\<rparr>"

definition redis_expiresAtMs :: "time \<Rightarrow> rat \<Rightarrow> rat option \<Rightarrow> rat" where
  "redis_expiresAtMs now ttlSeconds override =
     (let safeTtlSeconds = max 1 \<lfloor>ttlSeconds\<rfloor>
      in case override of Some e \<Rightarrow> e | None \<Rightarrow> of_int (now + safeTtlSeconds * 1000))"

definition redis_createSession ::
  "'r redis_ops \<Rightarrow> (string \<Rightarrow> string \<Rightarrow> bool) \<Rightarrow> redis_faults \<Rightarrow> time \<Rightarrow> nat \<Rightarrow> nat \<Rightarrow> string \<Rightarrow> CreateSessionInput \<Rightarrow> rat \<Rightarrow> rat option
     \<Rightarrow> RedisSessionStore \<Rightarrow> 'r session_world \<Rightarrow> 'r session_world \<times> session_result" where
  "redis_createSession ops le f now n k i input ttlSeconds override st w =
     (let expiresAtMs = redis_expiresAtMs now ttlSeconds override
      in case session_record le i input now expiresAtMs of
           None \<Rightarrow> (w, Created (Inl InvalidDate))
         | Some s \<Rightarrow>
             let actualTtlSeconds = max 1 \<lceil>(expiresAtMs - of_int now) / 1000\<rceil>;
                 (st, connected) = session_client f st
             in if \<not> connected
                then let (st, res) = finish_create now s False st in (set_store n st w, Created res)
                else
                  let (r, reply) = send (rf_net f)
                        (\<lambda>r. (ro_set ops now (session_key st i) (JSON_stringify (session_json s)) (Some actualTtlSeconds) r, ()))
                        (sw_redis w)
                  in (set_store n st (w\<lparr>sw_redis := r, sw_calls := jset k (CreateCall n now s (reply \<noteq> None)) (sw_calls w)\<rparr>), Waits))"

definition redis_getSession ::
  "'r redis_ops \<Rightarrow> redis_faults \<Rightarrow> time \<Rightarrow> nat \<Rightarrow> nat \<Rightarrow> string \<Rightarrow> RedisSessionStore \<Rightarrow> 'r session_world
     \<Rightarrow> 'r session_world \<times> session_result" where
  "redis_getSession ops f now n k i st w =
     (let (st, cached) = getL1Cache now i st
      in case cached of
           Some s \<Rightarrow> (set_store n st w, Got (Some s))
         | None \<Rightarrow>
             let (st, connected) = session_client f st
             in if \<not> connected then (set_store n st w, Got None)
                else
                  let (r, reply) = send (rf_net f) (\<lambda>r. (r, ro_get ops now (session_key st i) r)) (sw_redis w)
                  in (set_store n st (w\<lparr>sw_redis := r, sw_calls := jset k (GetCall n now i reply) (sw_calls w)\<rparr>), Waits))"

text \<open>\<^verbatim>\<open>DEL\<close> answers whether the key was there.\<close>

definition redis_revokeSession ::
  "'r redis_ops \<Rightarrow> redis_faults \<Rightarrow> time \<Rightarrow> nat \<Rightarrow> string \<Rightarrow> RedisSessionStore \<Rightarrow> 'r session_world
     \<Rightarrow> 'r session_world \<times> session_result" where
  "redis_revokeSession ops f now n i st w =
     (let (st, connected) = session_client f (deleteL1Cache i st)
      in if \<not> connected then (set_store n st w, RevokedIs False)
         else
           let (r, reply) = send (rf_net f) (\<lambda>r. (ro_del ops now (session_key st i) r, ro_get ops now (session_key st i) r \<noteq> None)) (sw_redis w)
           in (set_store n st (w\<lparr>sw_redis := r\<rparr>), RevokedIs (reply = Some True)))"

text \<open>\<^verbatim>\<open>clear\<close>; \<open>batches\<close> is what the \<^verbatim>\<open>SCAN\<close> commands answer.\<close>

definition redis_clearSessions ::
  "'r redis_ops \<Rightarrow> redis_faults \<Rightarrow> time \<Rightarrow> nat \<Rightarrow> string list list \<Rightarrow> RedisSessionStore \<Rightarrow> 'r session_world
     \<Rightarrow> 'r session_world \<times> session_result" where
  "redis_clearSessions ops f now n batches st w =
     (let (st, connected) = session_client f (st\<lparr>rs_l1Cache := []\<rparr>)
      in if \<not> connected then (set_store n st w, Finished)
         else (set_store n st (w\<lparr>sw_redis := fold (\<lambda>key. fst \<circ> send (rf_net f) (\<lambda>r. (ro_del ops now key r, ()))) (concat batches) (sw_redis w)\<rparr>), Finished))"

definition redis_cleanupSessions :: "time \<Rightarrow> RedisSessionStore \<Rightarrow> RedisSessionStore" where
  "redis_cleanupSessions now st = st\<lparr>rs_l1Cache := filter (\<lambda>(i, e). isL1CacheValid now st e) (rs_l1Cache st)\<rparr>"

definition redis_closeSessions :: "RedisSessionStore \<Rightarrow> RedisSessionStore" where
  "redis_closeSessions st = st\<lparr>rs_closed := True, rs_l1Cache := [], rs_client := False\<rparr>"

definition session_reply :: "time \<Rightarrow> session_call \<Rightarrow> 'r session_world \<Rightarrow> 'r session_world \<times> session_result" where
  "session_reply now call w =
     (case call of
        GetCall n sent i reply \<Rightarrow>
          (case map_of (sw_stores w) n of
             None \<Rightarrow> (w, Finished)
           | Some st \<Rightarrow> let (st, res) = finish_get now reply st in (set_store n st w, Got res))
      | CreateCall n sent s ok \<Rightarrow>
          (case map_of (sw_stores w) n of
             None \<Rightarrow> (w, Finished)
           | Some st \<Rightarrow> let (st, res) = finish_create now s ok st in (set_store n st w, Created res)))"

datatype session_event =
    CreateSession nat nat string CreateSessionInput rat "rat option" redis_faults
  | GetSession nat nat string redis_faults
  | SessionReply nat
  | RevokeSession nat string redis_faults
  | ClearSessions nat "string list list" redis_faults
  | CleanupSessions nat
  | CloseStore nat

text \<open>The calls of all processes on one server; a call is named once.\<close>

fun session_step ::
  "'r redis_ops \<Rightarrow> (string \<Rightarrow> string \<Rightarrow> bool) \<Rightarrow> time \<times> session_event \<Rightarrow> 'r session_world \<Rightarrow> 'r session_world \<times> session_result" where
  "session_step ops le (now, CreateSession n k i input ttl override f) w =
     (case map_of (sw_stores w) n of
        Some st \<Rightarrow> if jhas (sw_calls w) k then (w, Finished) else redis_createSession ops le f now n k i input ttl override st w
      | None \<Rightarrow> (w, Finished))"
| "session_step ops le (now, GetSession n k i f) w =
     (case map_of (sw_stores w) n of
        Some st \<Rightarrow> if jhas (sw_calls w) k then (w, Finished) else redis_getSession ops f now n k i st w
      | None \<Rightarrow> (w, Finished))"
| "session_step ops le (now, SessionReply k) w =
     (case map_of (sw_calls w) k of
        Some call \<Rightarrow> session_reply now call (w\<lparr>sw_calls := jdelete k (sw_calls w)\<rparr>)
      | None \<Rightarrow> (w, Finished))"
| "session_step ops le (now, RevokeSession n i f) w =
     (case map_of (sw_stores w) n of Some st \<Rightarrow> redis_revokeSession ops f now n i st w | None \<Rightarrow> (w, Finished))"
| "session_step ops le (now, ClearSessions n batches f) w =
     (case map_of (sw_stores w) n of Some st \<Rightarrow> redis_clearSessions ops f now n batches st w | None \<Rightarrow> (w, Finished))"
| "session_step ops le (now, CleanupSessions n) w =
     (case map_of (sw_stores w) n of Some st \<Rightarrow> (set_store n (redis_cleanupSessions now st) w, Finished) | None \<Rightarrow> (w, Finished))"
| "session_step ops le (now, CloseStore n) w =
     (case map_of (sw_stores w) n of Some st \<Rightarrow> (set_store n (redis_closeSessions st) w, Finished) | None \<Rightarrow> (w, Finished))"

fun session_run ::
  "'r redis_ops \<Rightarrow> (string \<Rightarrow> string \<Rightarrow> bool) \<Rightarrow> (time \<times> session_event) list \<Rightarrow> 'r session_world \<Rightarrow> 'r session_world" where
  "session_run ops le [] w = w"
| "session_run ops le (e # es) w = session_run ops le es (fst (session_step ops le e w))"

section \<open>The factory\<close>

datatype SessionStoreProvider = MemorySessions | RedisSessions

record SessionStoreRedisConfig =
  ssr_url :: "string option"
  ssr_keyPrefix :: "string option"
  ssr_enableL1Cache :: "bool option"
  ssr_l1CacheTtlSeconds :: "int option"

datatype session_choice = MemoryStore memory_sessions | RedisStore string RedisSessionStore

definition createSessionStore :: "SessionStoreProvider option \<Rightarrow> SessionStoreRedisConfig option \<Rightarrow> session_choice" where
  "createSessionStore provider redis =
     (if default_to provider MemorySessions = RedisSessions
      then case Option.bind redis (\<lambda>c. non_empty (ssr_url c)) of
             None \<Rightarrow> MemoryStore []
           | Some url \<Rightarrow>
               RedisStore url (new_RedisSessionStore
                 \<lparr>rsc_redisUrl = url, rsc_keyPrefix = Option.bind redis ssr_keyPrefix,
                  rsc_enableL1Cache = Option.bind redis ssr_enableL1Cache,
                  rsc_l1CacheTtlMs = (case Option.bind redis ssr_l1CacheTtlSeconds of
                    None \<Rightarrow> None | Some s \<Rightarrow> if s = 0 then None else Some (s * 1000)),
                  rsc_l1CleanupIntervalMs = None\<rparr>)
      else MemoryStore [])"

end
