(* ===== verification/Session_Properties.thy ===== *)
theory Session_Properties
  imports Sessions
begin

text \<open>
  Properties of the session stores: only sessions that were created and have not expired are
  returned, and a revoked session is refused everywhere after the lifetime of the caches.
\<close>

section \<open>Facts about a world that every step keeps\<close>

fun call_sent :: "session_call \<Rightarrow> time" where
  "call_sent (GetCall n sent i reply) = sent"
| "call_sent (CreateCall n sent s ok) = sent"

text \<open>All stores have the prefix \<open>p\<close> and caches that live at most \<open>T\<close> milliseconds; cache entries,
  waiting calls and stored texts have given properties.\<close>

definition store_ok :: "string \<Rightarrow> int \<Rightarrow> (string \<Rightarrow> L1CacheEntry \<Rightarrow> bool) \<Rightarrow> time \<Rightarrow> RedisSessionStore \<Rightarrow> bool" where
  "store_ok p T Qe now st \<longleftrightarrow> rs_keyPrefix st = p \<and> rs_l1CacheTtlMs st \<le> T \<and>
     (\<forall>(i, e)\<in>set (rs_l1Cache st). Qe i e \<and> l1_cachedAt e \<le> now)"

lemma store_ok_later: "store_ok p T Qe now st \<Longrightarrow> now \<le> now' \<Longrightarrow> store_ok p T Qe now' st"
  by (fastforce simp: store_ok_def)

lemma store_ok_client: "session_client f st = (st', c) \<Longrightarrow> store_ok p T Qe now st' = store_ok p T Qe now st"
  by (auto simp: session_client_def store_ok_def split: if_splits)

lemma store_ok_setL1:
  "store_ok p T Qe now st \<Longrightarrow> Qe (sr_id s) \<lparr>l1_session = s, l1_cachedAt = now\<rparr> \<Longrightarrow> store_ok p T Qe now (setL1Cache now s st)"
  by (auto simp: store_ok_def setL1Cache_def dest!: set_jset)

lemma store_ok_getL1: "store_ok p T Qe now st \<Longrightarrow> getL1Cache now' i st = (st', r) \<Longrightarrow> store_ok p T Qe now st'"
  by (auto simp: store_ok_def getL1Cache_def split: if_splits option.splits dest!: set_jdelete)

lemma store_ok_deleteL1: "store_ok p T Qe now st \<Longrightarrow> store_ok p T Qe now (deleteL1Cache i st)"
  by (auto simp: store_ok_def deleteL1Cache_def dest!: set_jdelete)

lemma store_ok_empty: "store_ok p T Qe now st \<Longrightarrow> rs_l1Cache st' = [] \<Longrightarrow> rs_keyPrefix st' = rs_keyPrefix st \<Longrightarrow>
    rs_l1CacheTtlMs st' = rs_l1CacheTtlMs st \<Longrightarrow> store_ok p T Qe now st'"
  by (auto simp: store_ok_def)

lemma store_ok_finish_create:
  "store_ok p T Qe now st \<Longrightarrow> Qe (sr_id s) \<lparr>l1_session = s, l1_cachedAt = now\<rparr> \<Longrightarrow> finish_create now s b st = (st', r) \<Longrightarrow>
     store_ok p T Qe now st'"
  by (auto simp: finish_create_def store_ok_setL1 split: if_splits)

lemma store_ok_finish_get:
  "store_ok p T Qe now st \<Longrightarrow> (\<And>raw s. reply = Some (Some raw) \<Longrightarrow> read_session raw = Some s \<Longrightarrow> Qe (sr_id s) \<lparr>l1_session = s, l1_cachedAt = now\<rparr>) \<Longrightarrow>
     finish_get now reply st = (st', r) \<Longrightarrow> store_ok p T Qe now st'"
  by (auto simp: finish_get_def store_ok_setL1 split: if_splits option.splits)

definition stores_ok :: "string \<Rightarrow> int \<Rightarrow> (string \<Rightarrow> L1CacheEntry \<Rightarrow> bool) \<Rightarrow> time \<Rightarrow> (nat, RedisSessionStore) jsmap \<Rightarrow> bool" where
  "stores_ok p T Qe now m \<longleftrightarrow> (\<forall>n st. map_of m n = Some st \<longrightarrow> store_ok p T Qe now st)"

definition calls_ok :: "(session_call \<Rightarrow> bool) \<Rightarrow> time \<Rightarrow> (nat, session_call) jsmap \<Rightarrow> bool" where
  "calls_ok Qc now m \<longleftrightarrow> (\<forall>k c. map_of m k = Some c \<longrightarrow> Qc c \<and> call_sent c \<le> now)"

lemma stores_okD: "stores_ok p T Qe now m \<Longrightarrow> map_of m n = Some st \<Longrightarrow> store_ok p T Qe now st"
  by (simp add: stores_ok_def)

lemma stores_ok_set [simp]: "stores_ok p T Qe now m \<Longrightarrow> store_ok p T Qe now st \<Longrightarrow> stores_ok p T Qe now (jset n st m)"
  by (auto simp: stores_ok_def jmap_simps)

lemma calls_ok_set [simp]: "calls_ok Qc now m \<Longrightarrow> Qc c \<Longrightarrow> call_sent c \<le> now \<Longrightarrow> calls_ok Qc now (jset k c m)"
  by (auto simp: calls_ok_def jmap_simps)

lemma calls_ok_delete [simp]: "calls_ok Qc now m \<Longrightarrow> calls_ok Qc now (jdelete k m)"
  by (auto simp: calls_ok_def jmap_simps)

lemma set_store_fields [simp]:
  "sw_stores (set_store n st w) = jset n st (sw_stores w)"
  "sw_redis (set_store n st w) = sw_redis w" "sw_calls (set_store n st w) = sw_calls w"
  by (simp_all add: set_store_def)

context redis_server
begin

definition texts_ok :: "string \<Rightarrow> (string \<Rightarrow> string \<Rightarrow> bool) \<Rightarrow> time \<Rightarrow> 'r \<Rightarrow> bool" where
  "texts_ok p Qs now r \<longleftrightarrow> (\<forall>t i raw. now \<le> t \<longrightarrow> live r t (p @ '':'' @ i) = Some raw \<longrightarrow> Qs i raw)"

lemma texts_ok_del: "texts_ok p Qs now r \<Longrightarrow> texts_ok p Qs now (fst (send net (\<lambda>r. (ro_del ops now k r, g r)) r))"
  by (cases net) (auto simp: send_def texts_ok_def del_live split: if_splits)

lemma texts_ok_dels:
  "texts_ok p Qs now r \<Longrightarrow> texts_ok p Qs now (fold (\<lambda>key. fst \<circ> send net (\<lambda>r. (ro_del ops now key r, ()))) ks r)"
  by (induction ks arbitrary: r) (simp_all add: texts_ok_del)

lemma texts_ok_set:
  "texts_ok p Qs now r \<Longrightarrow> Qs i raw \<Longrightarrow>
     texts_ok p Qs now (fst (send net (\<lambda>r. (ro_set ops now (p @ '':'' @ i) raw ex r, ())) r))"
  by (cases net) (auto simp: send_def texts_ok_def set_live split: if_splits option.splits)

definition tracked where
  "tracked p T Qe Qc Qs now w \<longleftrightarrow> stores_ok p T Qe now (sw_stores w) \<and> calls_ok Qc now (sw_calls w) \<and> texts_ok p Qs now (sw_redis w)"

lemma tracked_later: "tracked p T Qe Qc Qs now w \<Longrightarrow> now \<le> now' \<Longrightarrow> tracked p T Qe Qc Qs now' w"
  unfolding tracked_def stores_ok_def calls_ok_def texts_ok_def using store_ok_later by (meson order_trans)

lemma create_tracked:
  assumes w: "tracked p T Qe Qc Qs now w" and st: "map_of (sw_stores w) n = Some st"
    and s: "\<And>s. session_record le i input now (redis_expiresAtMs now ttl override) = Some s \<Longrightarrow>
      Qe (sr_id s) \<lparr>l1_session = s, l1_cachedAt = now\<rparr> \<and> (\<forall>b. Qc (CreateCall n now s b)) \<and> Qs i (JSON_stringify (session_json s))"
  shows "tracked p T Qe Qc Qs now (fst (redis_createSession ops le f now n k i input ttl override st w))"
proof -
  define x where "x = redis_expiresAtMs now ttl override"
  define secs where "secs = max 1 \<lceil>(x - of_int now) / 1000\<rceil>"
  have ok: "store_ok p T Qe now st" using w st by (auto simp: tracked_def stores_okD)
  show ?thesis
  proof (cases "session_record le i input now x")
    case None
    with w show ?thesis by (simp add: redis_createSession_def Let_def x_def [symmetric])
  next
    case (Some s)
    obtain st' c where cl: "session_client f st = (st', c)" by (metis surj_pair)
    then have ok': "store_ok p T Qe now st'" using ok store_ok_client by blast
    note S = s [OF Some [unfolded x_def]]
    show ?thesis
    proof (cases c)
      case False
      obtain st'' r where fin: "finish_create now s False st' = (st'', r)" by (metis surj_pair)
      have "store_ok p T Qe now st''" by (rule store_ok_finish_create [OF ok' _ fin]) (use S in simp)
      with False fin cl Some w show ?thesis
        by (simp add: redis_createSession_def Let_def x_def [symmetric] tracked_def)
    next
      case True
      have p: "rs_keyPrefix st' = p" using ok' by (simp add: store_ok_def)
      obtain r reply where snd: "send (rf_net f) (\<lambda>r. (ro_set ops now (p @ '':'' @ i) (JSON_stringify (session_json s)) (Some secs) r, ())) (sw_redis w) = (r, reply)"
        by (metis surj_pair)
      have "texts_ok p Qs now r"
        using texts_ok_set [of p Qs now "sw_redis w" i "JSON_stringify (session_json s)" "rf_net f" "Some secs"] w S snd
        by (simp add: tracked_def)
      then show ?thesis
        using True cl Some w ok' snd S
        by (simp add: redis_createSession_def Let_def x_def [symmetric] secs_def [symmetric] tracked_def session_key_def p)
    qed
  qed
qed

lemma get_tracked:
  assumes w: "tracked p T Qe Qc Qs now w" and st: "map_of (sw_stores w) n = Some st"
    and c: "\<And>reply. (\<And>raw. reply = Some (Some raw) \<Longrightarrow> Qs i raw) \<Longrightarrow> Qc (GetCall n now i reply)"
  shows "tracked p T Qe Qc Qs now (fst (redis_getSession ops f now n k i st w))"
proof -
  obtain st1 cached where l1: "getL1Cache now i st = (st1, cached)" by (metis surj_pair)
  obtain st2 cn where cl: "session_client f st1 = (st2, cn)" by (metis surj_pair)
  have ok1: "store_ok p T Qe now st1" using w st l1 store_ok_getL1 by (metis tracked_def stores_okD)
  then have ok2: "store_ok p T Qe now st2" using cl store_ok_client by blast
  then have p: "rs_keyPrefix st2 = p" by (simp add: store_ok_def)
  obtain r reply where snd: "send (rf_net f) (\<lambda>r. (r, ro_get ops now (p @ '':'' @ i) r)) (sw_redis w) = (r, reply)"
    by (metis surj_pair)
  have r: "r = sw_redis w" and "\<And>raw. reply = Some (Some raw) \<Longrightarrow> live (sw_redis w) now (p @ '':'' @ i) = Some raw"
    using snd by (auto simp: send_def get_live split: delivery.splits)
  then have "Qc (GetCall n now i reply)" using w by (intro c) (auto simp: tracked_def texts_ok_def)
  with ok1 ok2 w l1 cl snd r show ?thesis
    by (cases cached; cases cn) (simp_all add: redis_getSession_def session_key_def p tracked_def)
qed

lemma reply_tracked:
  assumes w: "tracked p T Qe Qc Qs now w"
    and get: "\<And>n sent i raw s. call = GetCall n sent i (Some (Some raw)) \<Longrightarrow> read_session raw = Some s \<Longrightarrow>
      Qe (sr_id s) \<lparr>l1_session = s, l1_cachedAt = now\<rparr>"
    and create: "\<And>n sent s b. call = CreateCall n sent s b \<Longrightarrow> Qe (sr_id s) \<lparr>l1_session = s, l1_cachedAt = now\<rparr>"
  shows "tracked p T Qe Qc Qs now (fst (session_reply now call w))"
proof (cases call)
  case (GetCall n sent i reply)
  show ?thesis
  proof (cases "map_of (sw_stores w) n")
    case (Some st)
    obtain st' r where fin: "finish_get now reply st = (st', r)" by (metis surj_pair)
    have "store_ok p T Qe now st'"
      by (rule store_ok_finish_get [OF _ _ fin]) (use w Some GetCall get in \<open>auto simp: tracked_def stores_okD\<close>)
    with GetCall Some fin w show ?thesis by (simp add: session_reply_def tracked_def)
  qed (use GetCall w in \<open>simp add: session_reply_def\<close>)
next
  case (CreateCall n sent s b)
  show ?thesis
  proof (cases "map_of (sw_stores w) n")
    case (Some st)
    obtain st' r where fin: "finish_create now s b st = (st', r)" by (metis surj_pair)
    have "store_ok p T Qe now st'"
      by (rule store_ok_finish_create [OF _ _ fin]) (use w Some CreateCall create in \<open>auto simp: tracked_def stores_okD\<close>)
    with CreateCall Some fin w show ?thesis by (simp add: session_reply_def tracked_def)
  qed (use CreateCall w in \<open>simp add: session_reply_def\<close>)
qed

lemma revoke_tracked:
  assumes w: "tracked p T Qe Qc Qs now w" and st: "map_of (sw_stores w) n = Some st"
  shows "tracked p T Qe Qc Qs now (fst (redis_revokeSession ops f now n i st w))"
proof -
  obtain st' cn where cl: "session_client f (deleteL1Cache i st) = (st', cn)" by (metis surj_pair)
  have ok: "store_ok p T Qe now st'"
    using w st store_ok_deleteL1 store_ok_client [OF cl] by (metis tracked_def stores_okD)
  obtain r reply where snd: "send (rf_net f) (\<lambda>r. (ro_del ops now (session_key st' i) r, ro_get ops now (session_key st' i) r \<noteq> None)) (sw_redis w) = (r, reply)"
    by (metis surj_pair)
  have "texts_ok p Qs now r"
    using texts_ok_del [of p Qs now "sw_redis w" "rf_net f" "session_key st' i" "\<lambda>r. ro_get ops now (session_key st' i) r \<noteq> None"] w snd
    by (simp add: tracked_def)
  with ok w cl snd show ?thesis by (cases cn) (simp_all add: redis_revokeSession_def tracked_def)
qed

lemma clear_tracked:
  assumes w: "tracked p T Qe Qc Qs now w" and st: "map_of (sw_stores w) n = Some st"
  shows "tracked p T Qe Qc Qs now (fst (redis_clearSessions ops f now n batches st w))"
proof -
  obtain st' cn where cl: "session_client f (st\<lparr>rs_l1Cache := []\<rparr>) = (st', cn)" by (metis surj_pair)
  have "store_ok p T Qe now st" using w st stores_okD by (metis tracked_def)
  then have "store_ok p T Qe now (st\<lparr>rs_l1Cache := []\<rparr>)" by (rule store_ok_empty) simp_all
  then have "store_ok p T Qe now st'" using store_ok_client [OF cl] by blast
  moreover have "texts_ok p Qs now (fold (\<lambda>key. fst \<circ> send (rf_net f) (\<lambda>r. (ro_del ops now key r, ()))) (concat batches) (sw_redis w))"
    using w by (intro texts_ok_dels) (simp add: tracked_def)
  ultimately show ?thesis using w cl unfolding redis_clearSessions_def tracked_def by (cases cn) simp_all
qed

text \<open>A step keeps the facts, provided that the new sessions, calls and cache entries have them.\<close>

lemma step_tracked:
  assumes w: "tracked p T Qe Qc Qs now w"
    and get: "\<And>k n sent i raw s. ev = SessionReply k \<Longrightarrow> map_of (sw_calls w) k = Some (GetCall n sent i (Some (Some raw))) \<Longrightarrow>
      read_session raw = Some s \<Longrightarrow> Qe (sr_id s) \<lparr>l1_session = s, l1_cachedAt = now\<rparr>"
    and reply: "\<And>k n sent s b. ev = SessionReply k \<Longrightarrow> map_of (sw_calls w) k = Some (CreateCall n sent s b) \<Longrightarrow>
      Qe (sr_id s) \<lparr>l1_session = s, l1_cachedAt = now\<rparr>"
    and call: "\<And>n i reply. (\<And>raw. reply = Some (Some raw) \<Longrightarrow> Qs i raw) \<Longrightarrow> Qc (GetCall n now i reply)"
    and create: "\<And>n k i input ttl override f s. ev = CreateSession n k i input ttl override f \<Longrightarrow>
      session_record le i input now (redis_expiresAtMs now ttl override) = Some s \<Longrightarrow>
      Qe (sr_id s) \<lparr>l1_session = s, l1_cachedAt = now\<rparr> \<and> (\<forall>b. Qc (CreateCall n now s b)) \<and> Qs i (JSON_stringify (session_json s))"
  shows "tracked p T Qe Qc Qs now (fst (session_step ops le (now, ev) w))"
proof (cases ev)
  case (CreateSession n k i input ttl override f)
  with w create [OF CreateSession] show ?thesis by (auto simp: create_tracked split: option.split)
next
  case (GetSession n k i f)
  with w call show ?thesis by (auto simp: get_tracked split: option.split)
next
  case (SessionReply k)
  have "tracked p T Qe Qc Qs now (w\<lparr>sw_calls := jdelete k (sw_calls w)\<rparr>)" using w by (simp add: tracked_def)
  with SessionReply w get reply show ?thesis by (auto intro!: reply_tracked split: option.split)
next
  case (RevokeSession n i f)
  with w show ?thesis by (auto simp: revoke_tracked split: option.split)
next
  case (ClearSessions n batches f)
  with w show ?thesis by (auto simp: clear_tracked split: option.split)
next
  case (CleanupSessions n)
  have "store_ok p T Qe now (redis_cleanupSessions now st)" if "store_ok p T Qe now st" for st
    using that by (auto simp: store_ok_def redis_cleanupSessions_def)
  with CleanupSessions w show ?thesis by (auto simp: tracked_def stores_okD split: option.split)
next
  case (CloseStore n)
  have "store_ok p T Qe now (redis_closeSessions st)" if "store_ok p T Qe now st" for st
    by (rule store_ok_empty [OF that]) (simp_all add: redis_closeSessions_def)
  with CloseStore w show ?thesis by (auto simp: tracked_def stores_okD split: option.split)
qed

end

section \<open>What a call returns\<close>

lemma got_cases:
  assumes "session_step ops le (now, ev) w = (w', Got (Some s))"
  obtains (cache) n k i f st e where "ev = GetSession n k i f" "map_of (sw_stores w) n = Some st" "(i, e) \<in> set (rs_l1Cache st)"
      "s = l1_session e" "now - l1_cachedAt e < rs_l1CacheTtlMs st" "\<not> session_expired now s"
    | (server) k n sent i raw where "ev = SessionReply k" "map_of (sw_calls w) k = Some (GetCall n sent i (Some (Some raw)))"
      "read_session raw = Some s" "\<not> session_expired now s"
proof (cases ev)
  case (GetSession n k i f)
  then obtain st where st: "map_of (sw_stores w) n = Some st" and r: "redis_getSession ops f now n k i st w = (w', Got (Some s))"
    using assms by (auto split: option.splits if_splits)
  then have "snd (getL1Cache now i st) = Some s"
    by (auto simp: redis_getSession_def Let_def split: prod.splits option.splits if_splits)
  then obtain e where "map_of (rs_l1Cache st) i = Some e" "isL1CacheValid now st e" "s = l1_session e"
    by (auto simp: getL1Cache_def split: if_splits option.splits)
  with st GetSession cache show ?thesis by (auto simp: isL1CacheValid_def dest: map_of_SomeD)
next
  case (SessionReply k)
  then obtain call where c: "map_of (sw_calls w) k = Some call"
    and r: "session_reply now call (w\<lparr>sw_calls := jdelete k (sw_calls w)\<rparr>) = (w', Got (Some s))"
    using assms by (auto split: option.splits)
  then obtain n sent i reply st st' where "call = GetCall n sent i reply" "finish_get now reply st = (st', Some s)"
    by (auto simp: session_reply_def split: session_call.splits option.splits prod.splits)
  with SessionReply c server show ?thesis by (auto simp: finish_get_def split: option.splits if_splits)
qed (use assms in \<open>auto simp: redis_createSession_def redis_revokeSession_def redis_clearSessions_def Let_def
    split: option.splits if_splits prod.splits\<close>)

fun requested :: "session_event \<Rightarrow> 'r session_world \<Rightarrow> string option" where
  "requested (GetSession n k i f) w = Some i"
| "requested (SessionReply k) w = (case map_of (sw_calls w) k of Some (GetCall n sent i reply) \<Rightarrow> Some i | _ \<Rightarrow> None)"
| "requested _ w = None"

definition session_created :: "(string \<Rightarrow> string \<Rightarrow> bool) \<Rightarrow> (time \<times> session_event) list \<Rightarrow> SessionRecord \<Rightarrow> bool" where
  "session_created le es s \<longleftrightarrow> (\<exists>now n k i input ttl override f. (now, CreateSession n k i input ttl override f) \<in> set es \<and>
     session_record le i input now (redis_expiresAtMs now ttl override) = Some s)"

text \<open>The same with the time until which the session is valid.\<close>

definition session_valid :: "(string \<Rightarrow> string \<Rightarrow> bool) \<Rightarrow> (time \<times> session_event) list \<Rightarrow> time \<Rightarrow> SessionRecord \<Rightarrow> bool" where
  "session_valid le es now s \<longleftrightarrow> (\<exists>created n k input ttl override f.
     (created, CreateSession n k (sr_id s) input ttl override f) \<in> set es \<and>
     session_record le (sr_id s) input created (redis_expiresAtMs created ttl override) = Some s \<and>
     now < truncate_ms (redis_expiresAtMs created ttl override))"

lemma session_record_expiry:
  "session_record le i input created x = Some s \<Longrightarrow> sr_id s = i \<and> (session_expired now s \<longleftrightarrow> truncate_ms x \<le> now)"
  using date_roundtrip [of "truncate_ms x"] by (auto simp: session_record_def session_expired_def split: option.splits)

lemma created_valid: "session_created le es s \<Longrightarrow> \<not> session_expired now s \<Longrightarrow> session_valid le es now s"
  unfolding session_created_def session_valid_def using session_record_expiry by (metis not_le)

lemma session_created_Cons: "session_created le es s \<Longrightarrow> session_created le (x # es) s"
  unfolding session_created_def by (meson list.set_intros(2))

fun event_claims_ok :: "session_event \<Rightarrow> bool" where
  "event_claims_ok (CreateSession n k i input ttl override f) = claims_ok (ci_claims input)"
| "event_claims_ok _ = True"

text \<open>Processes that have just started, with the same prefix and caches of at most \<open>T\<close> milliseconds.\<close>

definition fresh_stores :: "string \<Rightarrow> int \<Rightarrow> (nat, RedisSessionStore) jsmap \<Rightarrow> bool" where
  "fresh_stores p T m \<longleftrightarrow> list_all (\<lambda>(n, st). rs_keyPrefix st = p \<and> rs_l1CacheTtlMs st \<le> T \<and> rs_l1Cache st = []) m"

definition is_created :: "SessionRecord set \<Rightarrow> string \<Rightarrow> string \<Rightarrow> bool" where
  "is_created C i raw \<longleftrightarrow> (\<exists>s\<in>C. sr_id s = i \<and> read_session raw = Some s)"

fun call_created :: "SessionRecord set \<Rightarrow> session_call \<Rightarrow> bool" where
  "call_created C (GetCall n sent i reply) = (\<forall>raw. reply = Some (Some raw) \<longrightarrow> is_created C i raw)"
| "call_created C (CreateCall n sent s b) = (s \<in> C)"

definition entry_created :: "SessionRecord set \<Rightarrow> string \<Rightarrow> L1CacheEntry \<Rightarrow> bool" where
  "entry_created C i e \<longleftrightarrow> sr_id (l1_session e) = i \<and> l1_session e \<in> C"

text \<open>After its revocation at time \<open>t\<close> a session survives only in caches that were filled by replies
  to commands from before.\<close>

definition text_other :: "string \<Rightarrow> string \<Rightarrow> string \<Rightarrow> bool" where
  "text_other i j raw \<longleftrightarrow> (\<forall>s. read_session raw = Some s \<longrightarrow> sr_id s \<noteq> i)"

fun call_before :: "string \<Rightarrow> time \<Rightarrow> session_call \<Rightarrow> bool" where
  "call_before i t (GetCall n sent j reply) = (\<forall>raw. reply = Some (Some raw) \<longrightarrow> \<not> text_other i j raw \<longrightarrow> sent \<le> t)"
| "call_before i t (CreateCall n sent s b) = (sr_id s = i \<longrightarrow> sent \<le> t)"

definition entry_before :: "string \<Rightarrow> time \<Rightarrow> string \<Rightarrow> L1CacheEntry \<Rightarrow> bool" where
  "entry_before i t j e \<longleftrightarrow> (sr_id (l1_session e) = i \<longrightarrow> l1_cachedAt e \<le> t)"

lemma call_before_sent: "call_sent c \<le> t \<Longrightarrow> call_before i t c"
  by (cases c) auto

text \<open>Replies arrive within \<open>D\<close> milliseconds.\<close>

fun prompt_event :: "int \<Rightarrow> time \<times> session_event \<Rightarrow> 'r session_world \<Rightarrow> bool" where
  "prompt_event D (now, SessionReply k) w = (case map_of (sw_calls w) k of Some c \<Rightarrow> now \<le> call_sent c + D | None \<Rightarrow> True)"
| "prompt_event D _ w = True"

fun prompt :: "int \<Rightarrow> 'r redis_ops \<Rightarrow> (string \<Rightarrow> string \<Rightarrow> bool) \<Rightarrow> (time \<times> session_event) list \<Rightarrow> 'r session_world \<Rightarrow> bool" where
  "prompt D ops le [] w = True"
| "prompt D ops le (e # es) w = (prompt_event D e w \<and> prompt D ops le es (fst (session_step ops le e w)))"

fun creates :: "string \<Rightarrow> session_event \<Rightarrow> bool" where
  "creates i (CreateSession n k j input ttl override f) = (j = i)"
| "creates i _ = False"

context redis_server
begin

abbreviation genuine :: "string \<Rightarrow> int \<Rightarrow> SessionRecord set \<Rightarrow> time \<Rightarrow> 'r session_world \<Rightarrow> bool" where
  "genuine p T C \<equiv> tracked p T (entry_created C) (call_created C) (is_created C)"

lemma run_genuine:
  assumes "genuine p T C t0 w" "timed t0 es" "list_all (\<lambda>(t, e). event_claims_ok e) es" "Collect (session_created le es) \<subseteq> C"
  shows "genuine p T C (last_time t0 es) (session_run ops le es w)"
  using assms
proof (induction es arbitrary: t0 w)
  case (Cons x es)
  obtain now ev where x: "x = (now, ev)" by fastforce
  have w: "genuine p T C now w" using Cons.prems(1,2) x by (auto intro: tracked_later)
  have "genuine p T C now (fst (session_step ops le (now, ev) w))"
  proof (rule step_tracked [OF w])
    fix k n sent i raw s
    assume "map_of (sw_calls w) k = Some (GetCall n sent i (Some (Some raw)))" "read_session raw = Some s"
    then show "entry_created C (sr_id s) \<lparr>l1_session = s, l1_cachedAt = now\<rparr>"
      using w by (fastforce simp: tracked_def calls_ok_def entry_created_def is_created_def)
  next
    fix k n sent s b
    assume "map_of (sw_calls w) k = Some (CreateCall n sent s b)"
    then show "entry_created C (sr_id s) \<lparr>l1_session = s, l1_cachedAt = now\<rparr>"
      using w by (fastforce simp: tracked_def calls_ok_def entry_created_def)
  next
    fix n k i input ttl override f s
    assume ev: "ev = CreateSession n k i input ttl override f"
      and s: "session_record le i input now (redis_expiresAtMs now ttl override) = Some s"
    then have C: "s \<in> C" using Cons.prems(4) x by (fastforce simp: session_created_def)
    have "sr_id s = i" "sr_claims s = ci_claims input" using s by (auto simp: session_record_def split: option.splits)
    with C ev Cons.prems(3) x show "entry_created C (sr_id s) \<lparr>l1_session = s, l1_cachedAt = now\<rparr> \<and>
        (\<forall>b. call_created C (CreateCall n now s b)) \<and> is_created C i (JSON_stringify (session_json s))"
      by (auto simp: entry_created_def is_created_def read_session_text)
  qed auto
  moreover have "Collect (session_created le es) \<subseteq> C" using Cons.prems(4) session_created_Cons by blast
  ultimately have "genuine p T C (last_time now es) (session_run ops le es (fst (session_step ops le (now, ev) w)))"
    using Cons.prems(2,3) x by (intro Cons.IH) auto
  then show ?case by (cases es) (simp_all add: x last_time_def)
qed (simp add: last_time_def)

lemma fresh_genuine:
  "fresh_stores p T (sw_stores w) \<Longrightarrow> sw_calls w = [] \<Longrightarrow> (\<And>t i. live (sw_redis w) t (p @ '':'' @ i) = None) \<Longrightarrow> genuine p T C t0 w"
  by (auto simp: tracked_def stores_ok_def store_ok_def calls_ok_def texts_ok_def fresh_stores_def list_all_iff dest!: map_of_SomeD)

lemma genuine_result:
  assumes "genuine p T C now w" "session_step ops le (now, ev) w = (w', Got (Some s))"
  shows "requested ev w = Some (sr_id s) \<and> s \<in> C \<and> \<not> session_expired now s"
  using assms(2)
proof (cases rule: got_cases)
  case (cache n k i f st e)
  with assms(1) have "entry_created C i e" by (fastforce simp: tracked_def stores_ok_def store_ok_def)
  with cache show ?thesis by (simp add: entry_created_def)
next
  case (server k n sent i raw)
  with assms(1) have "call_created C (GetCall n sent i (Some (Some raw)))" by (fastforce simp: tracked_def calls_ok_def)
  with server show ?thesis by (auto simp: is_created_def)
qed

lemma session_timed_last: "timed t0 (es @ [(now, ev)]) \<Longrightarrow> timed t0 es \<and> last_time t0 es \<le> now"
  by (induction es arbitrary: t0) (auto simp: last_time_def)

abbreviation gone :: "string \<Rightarrow> time \<Rightarrow> int \<Rightarrow> string \<Rightarrow> int \<Rightarrow> time \<Rightarrow> 'r session_world \<Rightarrow> bool" where
  "gone i t D p T \<equiv> tracked p T (entry_before i (t + D)) (call_before i t) (text_other i)"

lemma revoke_gone:
  assumes w: "genuine p T C t w" and D: "0 \<le> D"
    and step: "session_step ops le (t, RevokeSession n i f) w = (w', RevokedIs True)"
  shows "gone i t D p T t w'"
proof -
  obtain st where st: "map_of (sw_stores w) n = Some st" using step by (auto split: option.splits)
  have g: "genuine p T C t w'" using revoke_tracked [OF w st, of f i] step st by simp
  obtain st' c where cl: "session_client f (deleteL1Cache i st) = (st', c)" by (metis surj_pair)
  have "store_ok p T (entry_created C) t st'"
    using w st store_ok_deleteL1 store_ok_client [OF cl] by (metis tracked_def stores_okD)
  then have p: "rs_keyPrefix st' = p" by (simp add: store_ok_def)
  have "rf_net f = Delivered" "sw_redis w' = ro_del ops t (p @ '':'' @ i) (sw_redis w)"
    using step st cl p
    by (auto simp: redis_revokeSession_def send_def session_key_def split: if_splits delivery.splits)
  then have none: "live (sw_redis w') u (p @ '':'' @ i) = None" if "t \<le> u" for u using that by (simp add: del_live)
  have "text_other i j raw" if "t \<le> u" "live (sw_redis w') u (p @ '':'' @ j) = Some raw" for u j raw
    using g none [OF that(1)] that by (fastforce simp: tracked_def texts_ok_def is_created_def text_other_def)
  moreover have "calls_ok (call_before i t) t (sw_calls w')"
    using g by (simp add: tracked_def calls_ok_def call_before_sent)
  ultimately show ?thesis
    using g D by (fastforce simp: tracked_def texts_ok_def stores_ok_def store_ok_def entry_before_def)
qed

lemma step_gone:
  assumes w: "gone i t D p T now w" and ev: "\<not> creates i ev" "prompt_event D (now, ev) w" "event_claims_ok ev"
  shows "gone i t D p T now (fst (session_step ops le (now, ev) w))"
proof (rule step_tracked [OF w])
  have late: "now \<le> t + D" if "ev = SessionReply k" "map_of (sw_calls w) k = Some c" "call_sent c \<le> t" for k c
    using that ev(2) by simp
  note calls = w [unfolded tracked_def calls_ok_def, THEN conjunct2, THEN conjunct1, rule_format]
  fix k n sent j raw s
  assume "ev = SessionReply k" "map_of (sw_calls w) k = Some (GetCall n sent j (Some (Some raw)))" "read_session raw = Some s"
  then show "entry_before i (t + D) (sr_id s) \<lparr>l1_session = s, l1_cachedAt = now\<rparr>"
    using late calls by (fastforce simp: entry_before_def text_other_def)
next
  have late: "now \<le> t + D" if "ev = SessionReply k" "map_of (sw_calls w) k = Some c" "call_sent c \<le> t" for k c
    using that ev(2) by simp
  note calls = w [unfolded tracked_def calls_ok_def, THEN conjunct2, THEN conjunct1, rule_format]
  fix k n sent s b
  assume "ev = SessionReply k" "map_of (sw_calls w) k = Some (CreateCall n sent s b)"
  then show "entry_before i (t + D) (sr_id s) \<lparr>l1_session = s, l1_cachedAt = now\<rparr>"
    using late calls by (fastforce simp: entry_before_def)
next
  fix n k j input ttl override f s
  assume "ev = CreateSession n k j input ttl override f"
    and s: "session_record le j input now (redis_expiresAtMs now ttl override) = Some s"
  with ev(1,3) have "sr_id s \<noteq> i" "claims_ok (sr_claims s)" by (auto simp: session_record_def split: option.splits)
  moreover from this have "text_other i j (JSON_stringify (session_json s))" by (simp add: text_other_def read_session_text)
  ultimately show "entry_before i (t + D) (sr_id s) \<lparr>l1_session = s, l1_cachedAt = now\<rparr> \<and>
      (\<forall>b. call_before i t (CreateCall n now s b)) \<and> text_other i j (JSON_stringify (session_json s))"
    by (simp add: entry_before_def)
qed (auto simp: text_other_def)

lemma run_gone:
  assumes "gone i t D p T t0 w" "timed t0 es" "list_all (\<lambda>(u, e). event_claims_ok e \<and> \<not> creates i e) es" "prompt D ops le es w"
  shows "gone i t D p T (last_time t0 es) (session_run ops le es w)"
  using assms
proof (induction es arbitrary: t0 w)
  case (Cons x es)
  obtain now ev where x: "x = (now, ev)" by fastforce
  have "gone i t D p T now w" using Cons.prems(1,2) x by (auto intro: tracked_later)
  then have "gone i t D p T now (fst (session_step ops le (now, ev) w))"
    using Cons.prems(3,4) x by (intro step_gone) auto
  then have "gone i t D p T (last_time now es) (session_run ops le es (fst (session_step ops le (now, ev) w)))"
    using Cons.prems(2-4) x by (intro Cons.IH) auto
  then show ?case by (cases es) (simp_all add: x last_time_def)
qed (simp add: last_time_def)

lemma gone_result:
  assumes w: "gone i t D p T now w" and step: "session_step ops le (now, ev) w = (w', Got (Some s))"
    and ev: "prompt_event D (now, ev) w" and late: "t + D + T \<le> now" "0 < T"
  shows "sr_id s \<noteq> i"
  using step
proof (cases rule: got_cases)
  case (cache n k j f st e)
  with w have "entry_before i (t + D) j e" "rs_l1CacheTtlMs st \<le> T"
    by (fastforce simp: tracked_def stores_ok_def store_ok_def)+
  with cache late show ?thesis by (auto simp: entry_before_def)
next
  case (server k n sent j raw)
  with w have "call_before i t (GetCall n sent j (Some (Some raw)))" by (fastforce simp: tracked_def calls_ok_def)
  with server ev late show ?thesis by (auto simp: text_other_def)
qed

end

text \<open>
  C33.  \<^verbatim>\<open>getSession\<close> of the Redis store returns only sessions that a process created under the requested
  identifier and that have not expired: for any number of processes with or without caches, any
  interleaving of commands and replies, lost requests and replies, lost connections and restarts of
  caches.
\<close>

theorem sessions_genuine:
  assumes "redis_server ops live" and "fresh_stores p T (sw_stores w)" "sw_calls w = []" "\<And>t i. live (sw_redis w) t (p @ '':'' @ i) = None"
    and "timed t0 (es @ [(now, ev)])" "list_all (\<lambda>(t, e). event_claims_ok e) es"
    and "session_step ops le (now, ev) (session_run ops le es w) = (w', Got (Some s))"
  shows "requested ev (session_run ops le es w) = Some (sr_id s) \<and> session_valid le es now s"
proof -
  have t: "timed t0 es" "last_time t0 es \<le> now" using redis_server.session_timed_last [OF assms(1,5)] by auto
  have "redis_server.tracked live p T (entry_created (Collect (session_created le es))) (call_created (Collect (session_created le es)))
      (is_created (Collect (session_created le es))) (last_time t0 es) (session_run ops le es w)"
    by (rule redis_server.run_genuine [OF assms(1) redis_server.fresh_genuine [OF assms(1-4)] t(1) assms(6)]) simp
  from redis_server.genuine_result [OF assms(1) redis_server.tracked_later [OF assms(1) this t(2)] assms(7)]
  show ?thesis by (simp add: created_valid)
qed

text \<open>
  C34.  A revoked session is refused everywhere: when \<^verbatim>\<open>revokeSession\<close> answered true, every reply arrives
  within \<open>D\<close> milliseconds and no session is created under the same identifier again, no process returns
  the session once \<open>D\<close> milliseconds and the lifetime of the caches have passed.  Until then a process may
  still return it from its cache.
\<close>

theorem revoked_session_refused:
  assumes server: "redis_server ops live"
    and start: "fresh_stores p T (sw_stores w)" "sw_calls w = []" "\<And>t i. live (sw_redis w) t (p @ '':'' @ i) = None"
    and before: "timed t0 (es @ [(t, RevokeSession n i f)])" "list_all (\<lambda>(u, e). event_claims_ok e) es"
    and revoked: "session_step ops le (t, RevokeSession n i f) (session_run ops le es w) = (w1, RevokedIs True)"
    and after: "timed t (es' @ [(now, ev)])" "list_all (\<lambda>(u, e). event_claims_ok e \<and> \<not> creates i e) es'"
      "prompt D ops le (es' @ [(now, ev)]) w1"
    and result: "session_step ops le (now, ev) (session_run ops le es' w1) = (w2, Got (Some s))"
    and late: "0 \<le> D" "0 < T" "t + D + T \<le> now"
  shows "sr_id s \<noteq> i"
proof -
  let ?C = "Collect (session_created le es)"
  have t1: "timed t0 es" "last_time t0 es \<le> t" using redis_server.session_timed_last [OF server before(1)] by auto
  have t2: "timed t es'" "last_time t es' \<le> now" using redis_server.session_timed_last [OF server after(1)] by auto
  have prompt: "prompt D ops le (xs @ [x]) v \<longleftrightarrow> prompt D ops le xs v \<and> prompt_event D x (session_run ops le xs v)" for xs x v
    by (induction xs arbitrary: v) simp_all
  have "redis_server.tracked live p T (entry_created ?C) (call_created ?C) (is_created ?C) (last_time t0 es) (session_run ops le es w)"
    by (rule redis_server.run_genuine [OF server redis_server.fresh_genuine [OF server start] t1(1) before(2)]) simp
  from redis_server.revoke_gone [OF server redis_server.tracked_later [OF server this t1(2)] late(1) revoked]
  have "redis_server.tracked live p T (entry_before i (t + D)) (call_before i t) (text_other i) t w1" .
  from redis_server.tracked_later [OF server redis_server.run_gone [OF server this t2(1) after(2)] t2(2)] after(3)
  have "redis_server.tracked live p T (entry_before i (t + D)) (call_before i t) (text_other i) now (session_run ops le es' w1)"
    by (simp add: prompt)
  from redis_server.gone_result [OF server this result _ late(3,2)] after(3) show ?thesis by (simp add: prompt)
qed

section \<open>An example\<close>

definition demo_input :: CreateSessionInput where
  "demo_input = \<lparr>ci_subject = ''u1'', ci_email = None, ci_name = None, ci_tenantId = None,
     ci_roles = ['' dev '', ''admin'', ''dev''], ci_scopes = [], ci_claims = []\<rparr>"

definition demo_sessions :: "redis_store session_world" where
  "demo_sessions =
     (let st = new_RedisSessionStore \<lparr>rsc_redisUrl = ''redis://r'', rsc_keyPrefix = None, rsc_enableL1Cache = Some True,
            rsc_l1CacheTtlMs = Some 1000, rsc_l1CleanupIntervalMs = None\<rparr>
      in \<lparr>sw_stores = [(0, st), (1, st)], sw_redis = [], sw_calls = []\<rparr>)"

definition demo_before :: "(time \<times> session_event) list" where
  "demo_before = [(0, CreateSession 1 0 ''a'' demo_input 3600 None reachable_redis), (5, SessionReply 0)]"

definition demo_revoked :: "redis_store session_world" where
  "demo_revoked = fst (session_step redis_model text_le (20, RevokeSession 0 ''a'' reachable_redis) (session_run redis_model text_le demo_before demo_sessions))"

definition demo_after :: "(time \<times> session_event) list" where
  "demo_after = [(1095, CreateSession 0 1 ''b'' demo_input 3600 None reachable_redis), (1100, SessionReply 1)]"

definition session_b :: SessionRecord where
  "session_b = the (session_record text_le ''b'' demo_input 1095 (redis_expiresAtMs 1095 3600 None))"

lemma demo_session_facts:
  "fresh_stores ''session'' 1000 (sw_stores demo_sessions)" "sw_calls demo_sessions = []" "sw_redis demo_sessions = []"
  "timed 0 (demo_before @ [(20, RevokeSession 0 ''a'' reachable_redis)])" "list_all (\<lambda>(u, e). event_claims_ok e) demo_before"
  "snd (session_step redis_model text_le (20, RevokeSession 0 ''a'' reachable_redis) (session_run redis_model text_le demo_before demo_sessions)) = RevokedIs True"
  "timed 20 (demo_after @ [(1110, GetSession 0 2 ''b'' reachable_redis)])" "list_all (\<lambda>(u, e). event_claims_ok e \<and> \<not> creates ''a'' e) demo_after"
  "prompt 50 redis_model text_le (demo_after @ [(1110, GetSession 0 2 ''b'' reachable_redis)]) demo_revoked"
  "snd (session_step redis_model text_le (1110, GetSession 0 2 ''b'' reachable_redis) (session_run redis_model text_le demo_after demo_revoked)) = Got (Some session_b)"
  by code_simp+

theorem revoked_session_refused_witness: "sr_id session_b \<noteq> ''a''"
proof (rule revoked_session_refused [OF redis.redis_server_axioms demo_session_facts(1,2) _ demo_session_facts(4,5) _ demo_session_facts(7-9)])
  show "session_step redis_model text_le (20, RevokeSession 0 ''a'' reachable_redis) (session_run redis_model text_le demo_before demo_sessions) =
      (demo_revoked, RevokedIs True)"
    using demo_session_facts(6) by (simp add: demo_revoked_def prod_eq_iff del: session_step.simps)
  show "session_step redis_model text_le (1110, GetSession 0 2 ''b'' reachable_redis) (session_run redis_model text_le demo_after demo_revoked) =
      (fst (session_step redis_model text_le (1110, GetSession 0 2 ''b'' reachable_redis) (session_run redis_model text_le demo_after demo_revoked)), Got (Some session_b))"
    using demo_session_facts(10) by (simp add: prod_eq_iff del: session_step.simps)
qed (simp_all add: demo_session_facts(3) live_value_def)

definition demo_all :: "(time \<times> session_event) list" where
  "demo_all = demo_before @ (20, RevokeSession 0 ''a'' reachable_redis) # demo_after"

lemma demo_all_facts:
  "timed 0 (demo_all @ [(1110, GetSession 0 2 ''b'' reachable_redis)])" "list_all (\<lambda>(u, e). event_claims_ok e) demo_all"
  "snd (session_step redis_model text_le (1110, GetSession 0 2 ''b'' reachable_redis) (session_run redis_model text_le demo_all demo_sessions)) = Got (Some session_b)"
  by code_simp+

theorem sessions_genuine_witness: "session_valid text_le demo_all 1110 session_b"
proof -
  have "session_step redis_model text_le (1110, GetSession 0 2 ''b'' reachable_redis) (session_run redis_model text_le demo_all demo_sessions) =
      (fst (session_step redis_model text_le (1110, GetSession 0 2 ''b'' reachable_redis) (session_run redis_model text_le demo_all demo_sessions)), Got (Some session_b))"
    using demo_all_facts(3) by (simp add: prod_eq_iff del: session_step.simps)
  from sessions_genuine [OF redis.redis_server_axioms demo_session_facts(1,2) _ demo_all_facts(1,2) this]
  show ?thesis by (simp add: demo_session_facts(3) live_value_def)
qed

text \<open>Within the lifetime of its cache another process still returns the revoked session.\<close>

lemma revoked_session_cached:
  "snd (session_step redis_model text_le (30, GetSession 1 3 ''a'' reachable_redis) demo_revoked) =
     Got (session_record text_le ''a'' demo_input 0 (redis_expiresAtMs 0 3600 None))"
  by code_simp

text \<open>A stored session whose expiry is no date passes the schema and never expires.\<close>

lemma undated_session_never_expires: "Date_parse (sr_expiresAt s) = None \<Longrightarrow> \<not> session_expired now s"
  by (simp add: session_expired_def)

end
