(* ===== verification/Request_Coalescer.thy ===== *)
theory Request_Coalescer
  imports Prelude
begin

text \<open>
  \<^verbatim>\<open>optimization/RequestCoalescer.ts\<close>: identical requests in flight share one execution.  The hash of a
  request is taken as given.  An execution is named by a number; its callers wait for its promise.
  A function that throws before its first suspension has run its \<^verbatim>\<open>finally\<close> before the entry is
  stored.
\<close>

record CoalescerOptions =
  co_windowMs :: int
  co_maxCoalesced :: int

definition coalescer_options :: "int option \<Rightarrow> int option \<Rightarrow> CoalescerOptions" where
  "coalescer_options windowMs maxCoalesced =
     \<lparr>co_windowMs = (case windowMs of None \<Rightarrow> 100 | Some n \<Rightarrow> n), co_maxCoalesced = (case maxCoalesced of None \<Rightarrow> 10 | Some n \<Rightarrow> n)\<rparr>"

record CoalescedRequest =
  cq_promise :: nat
  cq_requestCount :: int
  cq_startTime :: time

text \<open>The object, the executions that have not settled, and for the record every execution with its
  hash and start, every caller with the promise it was given, and every settled execution.\<close>

record 'v RequestCoalescer =
  rq_inflight :: "(string, CoalescedRequest) jsmap"
  rq_totalRequests :: int
  rq_coalescedRequests :: int
  rq_uniqueRequests :: int
  rq_running :: "nat list"
  rq_started :: "(nat \<times> string \<times> time) list"
  rq_callers :: "(string \<times> time \<times> nat) list"
  rq_settled :: "(nat \<times> 'v) list"

definition new_coalescer :: "'v RequestCoalescer" where
  "new_coalescer = \<lparr>rq_inflight = [], rq_totalRequests = 0, rq_coalescedRequests = 0, rq_uniqueRequests = 0,
     rq_running = [], rq_started = [], rq_callers = [], rq_settled = []\<rparr>"

definition shouldCoalesce :: "CoalescerOptions \<Rightarrow> time \<Rightarrow> CoalescedRequest \<Rightarrow> bool" where
  "shouldCoalesce opts now existing \<longleftrightarrow>
     \<not> now - cq_startTime existing > co_windowMs opts \<and> \<not> cq_requestCount existing \<ge> co_maxCoalesced opts"

text \<open>A new execution; \<open>failed\<close> is the error of a function that throws at once.\<close>

definition coalescer_start :: "time \<Rightarrow> string \<Rightarrow> 'v option \<Rightarrow> 'v RequestCoalescer \<Rightarrow> 'v RequestCoalescer" where
  "coalescer_start now hash failed c =
     (let p = length (rq_started c);
          c = c\<lparr>rq_uniqueRequests := rq_uniqueRequests c + 1, rq_started := rq_started c @ [(p, hash, now)],
                rq_callers := rq_callers c @ [(hash, now, p)]\<rparr>;
          c = (case failed of
                 Some e \<Rightarrow> c\<lparr>rq_inflight := jdelete hash (rq_inflight c), rq_settled := rq_settled c @ [(p, e)]\<rparr>
               | None \<Rightarrow> c\<lparr>rq_running := rq_running c @ [p]\<rparr>)
      in c\<lparr>rq_inflight := jset hash \<lparr>cq_promise = p, cq_requestCount = 1, cq_startTime = now\<rparr> (rq_inflight c)\<rparr>)"

definition coalescer_execute :: "CoalescerOptions \<Rightarrow> time \<Rightarrow> string \<Rightarrow> 'v option \<Rightarrow> 'v RequestCoalescer \<Rightarrow> 'v RequestCoalescer" where
  "coalescer_execute opts now hash failed c =
     (let c = c\<lparr>rq_totalRequests := rq_totalRequests c + 1\<rparr>
      in case map_of (rq_inflight c) hash of
           Some existing \<Rightarrow>
             if shouldCoalesce opts now existing
             then c\<lparr>rq_inflight := jset hash (existing\<lparr>cq_requestCount := cq_requestCount existing + 1\<rparr>) (rq_inflight c),
                    rq_coalescedRequests := rq_coalescedRequests c + 1,
                    rq_callers := rq_callers c @ [(hash, now, cq_promise existing)]\<rparr>
             else coalescer_start now hash failed c
         | None \<Rightarrow> coalescer_start now hash failed c)"

text \<open>The end of \<^verbatim>\<open>executeWithCleanup\<close>, with the result or the error of the function.\<close>

definition hash_of :: "'v RequestCoalescer \<Rightarrow> nat \<Rightarrow> string" where
  "hash_of c p = fst (snd (rq_started c ! p))"

definition coalescer_settle :: "nat \<Rightarrow> 'v \<Rightarrow> 'v RequestCoalescer \<Rightarrow> 'v RequestCoalescer" where
  "coalescer_settle p v c =
     (if p \<in> set (rq_running c)
      then c\<lparr>rq_running := remove1 p (rq_running c), rq_settled := rq_settled c @ [(p, v)],
             rq_inflight := jdelete (hash_of c p) (rq_inflight c)\<rparr>
      else c)"

definition coalescer_clear :: "'v RequestCoalescer \<Rightarrow> 'v RequestCoalescer" where
  "coalescer_clear c = c\<lparr>rq_inflight := []\<rparr>"

datatype 'v coalescer_event = CoalesceExecute time string "'v option" | CoalesceSettle nat 'v | CoalesceClear

fun coalescer_step :: "CoalescerOptions \<Rightarrow> 'v coalescer_event \<Rightarrow> 'v RequestCoalescer \<Rightarrow> 'v RequestCoalescer" where
  "coalescer_step opts (CoalesceExecute now hash failed) c = coalescer_execute opts now hash failed c"
| "coalescer_step opts (CoalesceSettle p v) c = coalescer_settle p v c"
| "coalescer_step opts CoalesceClear c = coalescer_clear c"

definition coalescer_run :: "CoalescerOptions \<Rightarrow> 'v coalescer_event list \<Rightarrow> 'v RequestCoalescer" where
  "coalescer_run opts es = fold (coalescer_step opts) es new_coalescer"

text \<open>The global instances by provider, and the totals over them.  An instance keeps the options of the
  call that created it.\<close>

type_synonym 'v coalescers = "(string, CoalescerOptions \<times> 'v RequestCoalescer) jsmap"

definition getRequestCoalescer :: "string \<Rightarrow> CoalescerOptions \<Rightarrow> 'v coalescers \<Rightarrow> (CoalescerOptions \<times> 'v RequestCoalescer) \<times> 'v coalescers" where
  "getRequestCoalescer provider opts cs =
     (case map_of cs provider of
        Some c \<Rightarrow> (c, cs)
      | None \<Rightarrow> ((opts, new_coalescer), jset provider (opts, new_coalescer) cs))"

definition coalesceRequest :: "time \<Rightarrow> string \<Rightarrow> string \<Rightarrow> 'v option \<Rightarrow> 'v coalescers \<Rightarrow> 'v coalescers" where
  "coalesceRequest now provider hash failed cs =
     (let ((opts, c), cs) = getRequestCoalescer provider (coalescer_options None None) cs
      in jset provider (opts, coalescer_execute opts now hash failed c) cs)"

record CoalescingTotals =
  ct_totalRequests :: int
  ct_uniqueRequests :: int
  ct_coalescedRequests :: int

definition getCoalescingStats :: "'v coalescers \<Rightarrow> CoalescingTotals" where
  "getCoalescingStats cs =
     foldl (\<lambda>t (opts, c). \<lparr>ct_totalRequests = ct_totalRequests t + rq_totalRequests c,
         ct_uniqueRequests = ct_uniqueRequests t + rq_uniqueRequests c,
         ct_coalescedRequests = ct_coalescedRequests t + rq_coalescedRequests c\<rparr>)
       \<lparr>ct_totalRequests = 0, ct_uniqueRequests = 0, ct_coalescedRequests = 0\<rparr> (jvalues cs)"

section \<open>Who shares an execution\<close>

definition callers_of :: "'v RequestCoalescer \<Rightarrow> nat \<Rightarrow> (string \<times> time \<times> nat) list" where
  "callers_of c p = filter (\<lambda>(h, t, q). q = p) (rq_callers c)"

text \<open>Executions are numbered, each one is running or settled once, entries and callers belong to
  executions of their hash, and the counters count.\<close>

definition runs_ok :: "'v RequestCoalescer \<Rightarrow> bool" where
  "runs_ok c \<longleftrightarrow> distinct (map fst (rq_settled c) @ rq_running c) \<and>
     set (map fst (rq_settled c) @ rq_running c) = {..<length (rq_started c)}"

definition callers_ok :: "CoalescerOptions \<Rightarrow> 'v RequestCoalescer \<Rightarrow> bool" where
  "callers_ok opts c \<longleftrightarrow>
     (\<forall>p. int (length (callers_of c p)) \<le> max 1 (co_maxCoalesced opts)) \<and>
     (\<forall>(h, t, p)\<in>set (rq_callers c). p < length (rq_started c) \<and>
        (\<exists>s. rq_started c ! p = (p, h, s) \<and> (t = s \<or> t - s \<le> co_windowMs opts)))"

definition entries_ok :: "'v RequestCoalescer \<Rightarrow> bool" where
  "entries_ok c \<longleftrightarrow> (\<forall>h r. map_of (rq_inflight c) h = Some r \<longrightarrow> cq_promise r < length (rq_started c) \<and>
     rq_started c ! cq_promise r = (cq_promise r, h, cq_startTime r) \<and>
     int (length (callers_of c (cq_promise r))) = cq_requestCount r)"

definition counters_ok :: "'v RequestCoalescer \<Rightarrow> bool" where
  "counters_ok c \<longleftrightarrow> rq_totalRequests c = int (length (rq_callers c)) \<and> rq_uniqueRequests c = int (length (rq_started c)) \<and>
     rq_totalRequests c = rq_uniqueRequests c + rq_coalescedRequests c"

definition coalescer_inv :: "CoalescerOptions \<Rightarrow> 'v RequestCoalescer \<Rightarrow> bool" where
  "coalescer_inv opts c \<longleftrightarrow> runs_ok c \<and> callers_ok opts c \<and> entries_ok c \<and> counters_ok c"

lemma callers_of_new: "callers_ok opts c \<Longrightarrow> callers_of c (length (rq_started c)) = []"
  by (fastforce simp: callers_ok_def callers_of_def filter_empty_conv)

lemma share_inv:
  assumes inv: "coalescer_inv opts c" and e: "map_of (rq_inflight c) hash = Some existing" "shouldCoalesce opts now existing"
  shows "coalescer_inv opts (coalescer_execute opts now hash failed c)"
proof -
  let ?p = "cq_promise existing"
  have E: "?p < length (rq_started c)" "rq_started c ! ?p = (?p, hash, cq_startTime existing)"
    "int (length (callers_of c ?p)) = cq_requestCount existing"
    using inv e(1) by (auto simp: coalescer_inv_def entries_ok_def)
  have "callers_ok opts (coalescer_execute opts now hash failed c)"
    using inv E e by (auto simp: coalescer_inv_def callers_ok_def callers_of_def coalescer_execute_def shouldCoalesce_def Let_def)
  moreover have "entries_ok (coalescer_execute opts now hash failed c)"
    unfolding entries_ok_def
  proof (intro allI impI)
    fix h r assume r: "map_of (rq_inflight (coalescer_execute opts now hash failed c)) h = Some r"
    show "cq_promise r < length (rq_started (coalescer_execute opts now hash failed c)) \<and>
      rq_started (coalescer_execute opts now hash failed c) ! cq_promise r = (cq_promise r, h, cq_startTime r) \<and>
      int (length (callers_of (coalescer_execute opts now hash failed c) (cq_promise r))) = cq_requestCount r"
    proof (cases "h = hash")
      case True
      with r e have "r = existing\<lparr>cq_requestCount := cq_requestCount existing + 1\<rparr>"
        by (simp add: coalescer_execute_def Let_def jmap_simps)
      with True E e show ?thesis by (simp add: callers_of_def coalescer_execute_def Let_def)
    next
      case False
      with r e have r': "map_of (rq_inflight c) h = Some r" by (auto simp: coalescer_execute_def Let_def jmap_simps)
      with inv have R: "cq_promise r < length (rq_started c)" "rq_started c ! cq_promise r = (cq_promise r, h, cq_startTime r)"
        "int (length (callers_of c (cq_promise r))) = cq_requestCount r"
        by (auto simp: coalescer_inv_def entries_ok_def)
      have "cq_promise r \<noteq> ?p" using R(2) E(2) False by (metis prod.inject)
      with R e show ?thesis by (simp add: callers_of_def coalescer_execute_def Let_def)
    qed
  qed
  ultimately show ?thesis
    using inv e by (auto simp: coalescer_inv_def runs_ok_def counters_ok_def coalescer_execute_def Let_def)
qed

lemma start_inv:
  assumes inv: "coalescer_inv opts c"
  shows "coalescer_inv opts (coalescer_start now hash failed (c\<lparr>rq_totalRequests := rq_totalRequests c + 1\<rparr>))"
proof -
  let ?c = "coalescer_start now hash failed (c\<lparr>rq_totalRequests := rq_totalRequests c + 1\<rparr>)"
  let ?n = "length (rq_started c)"
  have callers: "rq_callers ?c = rq_callers c @ [(hash, now, ?n)]" and started: "rq_started ?c = rq_started c @ [(?n, hash, now)]"
    by (simp_all add: coalescer_start_def Let_def split: option.split)
  have none: "callers_of c ?n = []" using inv callers_of_new by (auto simp: coalescer_inv_def)
  have of: "callers_of ?c p = (if p = ?n then [(hash, now, ?n)] else callers_of c p)" for p
    using none by (auto simp: callers_of_def callers)
  have "callers_ok opts ?c"
    unfolding callers_ok_def of using inv by (fastforce simp: coalescer_inv_def callers_ok_def callers started nth_append)
  moreover have "runs_ok ?c"
    using inv by (auto simp: coalescer_inv_def runs_ok_def coalescer_start_def Let_def split: option.split)
  moreover have "entries_ok ?c"
  proof -
    have "map_of (rq_inflight ?c) h = Some r \<Longrightarrow> h \<noteq> hash \<Longrightarrow> map_of (rq_inflight c) h = Some r" for h r
      by (auto simp: coalescer_start_def Let_def jmap_simps split: option.splits if_splits)
    moreover have "map_of (rq_inflight ?c) hash = Some \<lparr>cq_promise = ?n, cq_requestCount = 1, cq_startTime = now\<rparr>"
      by (auto simp: coalescer_start_def Let_def jmap_simps split: option.splits)
    ultimately show ?thesis
      unfolding entries_ok_def of started using inv
      by (intro allI impI; rename_tac h r; case_tac "h = hash") (fastforce simp: coalescer_inv_def entries_ok_def nth_append)+
  qed
  moreover have "counters_ok ?c"
    using inv by (auto simp: coalescer_inv_def counters_ok_def callers started coalescer_start_def Let_def split: option.split)
  ultimately show ?thesis by (simp add: coalescer_inv_def)
qed

lemma settle_inv: "coalescer_inv opts c \<Longrightarrow> coalescer_inv opts (coalescer_settle p v c)"
  by (auto simp: coalescer_inv_def runs_ok_def callers_ok_def entries_ok_def counters_ok_def callers_of_def coalescer_settle_def
      jmap_simps distinct_remove1 split: if_splits)

lemma coalescer_step_inv: "coalescer_inv opts c \<Longrightarrow> coalescer_inv opts (coalescer_step opts e c)"
proof (cases e)
  case (CoalesceExecute now hash failed)
  assume inv: "coalescer_inv opts c"
  show ?thesis
  proof (cases "\<exists>r. map_of (rq_inflight c) hash = Some r \<and> shouldCoalesce opts now r")
    case True
    with CoalesceExecute share_inv [OF inv] show ?thesis by auto
  next
    case False
    with CoalesceExecute start_inv [OF inv, of now hash failed] show ?thesis
      by (auto simp: coalescer_execute_def Let_def split: option.split)
  qed
next
  case (CoalesceSettle p v)
  assume "coalescer_inv opts c"
  with CoalesceSettle show ?thesis by (simp add: settle_inv)
next
  case CoalesceClear
  assume "coalescer_inv opts c"
  with CoalesceClear show ?thesis
    by (simp add: coalescer_clear_def coalescer_inv_def runs_ok_def callers_ok_def entries_ok_def counters_ok_def callers_of_def)
qed

lemma new_coalescer_inv: "coalescer_inv opts new_coalescer"
  by (simp add: new_coalescer_def coalescer_inv_def runs_ok_def callers_ok_def entries_ok_def counters_ok_def callers_of_def)

lemma coalescer_run_inv: "coalescer_inv opts (coalescer_run opts es)"
  unfolding coalescer_run_def
  by (rule fold_invariant [where Q = "\<lambda>_. True"]) (simp_all add: new_coalescer_inv coalescer_step_inv)

text \<open>Every instance keeps the invariant, and providers do not share executions.\<close>

definition coalescers_inv :: "'v coalescers \<Rightarrow> bool" where
  "coalescers_inv cs \<longleftrightarrow> (\<forall>(opts, c)\<in>set (jvalues cs). coalescer_inv opts c)"

lemma coalescers_inv_jset:
  "coalescers_inv cs \<Longrightarrow> coalescer_inv opts c \<Longrightarrow> coalescers_inv (jset provider (opts, c) cs)"
  unfolding coalescers_inv_def by (blast dest: jvalues_jset)

lemma coalesceRequest_inv:
  assumes "coalescers_inv cs"
  shows "coalescers_inv (coalesceRequest now provider hash failed cs)"
    and "q \<noteq> provider \<Longrightarrow> map_of (coalesceRequest now provider hash failed cs) q = map_of cs q"
proof -
  obtain opts c cs' where g: "getRequestCoalescer provider (coalescer_options None None) cs = ((opts, c), cs')"
    by (metis prod.exhaust)
  have "coalescer_inv opts c \<and> coalescers_inv cs'"
  proof (cases "map_of cs provider")
    case None
    with g assms show ?thesis by (auto simp: getRequestCoalescer_def new_coalescer_inv coalescers_inv_jset)
  next
    case (Some x)
    with g assms jvaluesI [OF Some] show ?thesis by (auto simp: getRequestCoalescer_def coalescers_inv_def)
  qed
  then have old: "coalescer_inv opts c" and cs': "coalescers_inv cs'" by auto
  have "coalescer_inv opts (coalescer_execute opts now hash failed c)"
    using coalescer_step_inv [OF old, of "CoalesceExecute now hash failed"] by simp
  with cs' show "coalescers_inv (coalesceRequest now provider hash failed cs)"
    by (simp add: coalesceRequest_def g coalescers_inv_jset)
  show "map_of (coalesceRequest now provider hash failed cs) q = map_of cs q" if "q \<noteq> provider"
    using g that by (auto simp: coalesceRequest_def getRequestCoalescer_def jmap_simps split: option.splits)
qed

lemma coalescing_totals_add_up:
  assumes "coalescers_inv cs"
  shows "ct_totalRequests (getCoalescingStats cs) =
    ct_uniqueRequests (getCoalescingStats cs) + ct_coalescedRequests (getCoalescingStats cs)"
proof -
  have "ct_totalRequests t = ct_uniqueRequests t + ct_coalescedRequests t \<Longrightarrow>
      (\<forall>(opts, c)\<in>set xs. coalescer_inv opts c) \<Longrightarrow>
      (let t' = foldl (\<lambda>t (opts, c). \<lparr>ct_totalRequests = ct_totalRequests t + rq_totalRequests c,
         ct_uniqueRequests = ct_uniqueRequests t + rq_uniqueRequests c,
         ct_coalescedRequests = ct_coalescedRequests t + rq_coalescedRequests c\<rparr>) t xs
       in ct_totalRequests t' = ct_uniqueRequests t' + ct_coalescedRequests t')"
    for t and xs :: "(CoalescerOptions \<times> 'a RequestCoalescer) list"
    by (induction xs arbitrary: t) (auto simp: Let_def coalescer_inv_def counters_ok_def)
  from this [of _ "jvalues cs"] show ?thesis
    using assms by (auto simp: getCoalescingStats_def coalescers_inv_def Let_def)
qed

text \<open>
  C35.  Sharing is sound.  Whatever the order of requests, results and failures: a caller waits for
  an execution of a request with its own hash, the one it started itself or one started at most
  \<^verbatim>\<open>windowMs\<close> before; no execution has more than \<^verbatim>\<open>maxCoalesced\<close> callers; every execution settles
  at most once; and the counters of the statistics add up.
\<close>

theorem coalescing_sound:
  assumes "c = coalescer_run opts es"
  shows "((h, t, p) \<in> set (rq_callers c) \<longrightarrow> (\<exists>s. rq_started c ! p = (p, h, s) \<and> (t = s \<or> t - s \<le> co_windowMs opts))) \<and>
    int (length (callers_of c p)) \<le> max 1 (co_maxCoalesced opts) \<and> distinct (map fst (rq_settled c)) \<and>
    rq_totalRequests c = rq_uniqueRequests c + rq_coalescedRequests c"
  using coalescer_run_inv [of opts es] assms
  by (auto simp: coalescer_inv_def runs_ok_def callers_ok_def counters_ok_def)

definition demo_requests :: "string coalescer_event list" where
  "demo_requests = [CoalesceExecute 0 ''h'' None, CoalesceExecute 50 ''h'' None, CoalesceExecute 120 ''h'' None, CoalesceSettle 0 ''r'']"

theorem coalescing_sound_witness:
  "rq_started (coalescer_run (coalescer_options None None) demo_requests) ! 0 = (0, ''h'', 0) \<and>
   int (length (callers_of (coalescer_run (coalescer_options None None) demo_requests) 0)) \<le> 10"
proof -
  have "(''h'', 50, 0) \<in> set (rq_callers (coalescer_run (coalescer_options None None) demo_requests))"
    "snd (snd (rq_started (coalescer_run (coalescer_options None None) demo_requests) ! 0)) = 0"
    "max 1 (co_maxCoalesced (coalescer_options None None)) = 10" by code_simp+
  then show ?thesis
    using coalescing_sound [OF refl, of "''h''" 50 0 "coalescer_options None None" demo_requests] by auto
qed

text \<open>
  When the window of an execution has passed and a second one has replaced its entry, the end of the
  first removes the entry of the second, and the next identical request is not shared although an
  execution that is younger than the window is in flight.
\<close>

lemma foreign_entry_removed:
  "rq_running (coalescer_run (coalescer_options None None) (demo_requests @ [CoalesceExecute 125 ''h'' None])) = [1, 2]"
  by code_simp

text \<open>A request that fails at once leaves its entry behind: later callers within the window get its error.\<close>

lemma failed_entry_stays:
  "rq_callers (coalescer_run (coalescer_options None None) [CoalesceExecute 0 ''h'' (Some ''error''), CoalesceExecute 90 ''h'' None]) =
     [(''h'', 0, 0), (''h'', 90, 0)]"
  by code_simp

end
