(* ===== verification/Smart_Batcher.thy ===== *)
theory Smart_Batcher
  imports Prelude "HOL-Library.Multiset"
begin

text \<open>
  \<^verbatim>\<open>optimization/SmartBatcher.ts\<close>: requests are collected and handed to a processor together.  The code
  after the \<^verbatim>\<open>await\<close> of the processor is the separate operation \<open>batch_finished\<close>.  A processor
  that throws at once is one whose answer follows at once.  The averages that only the statistics show are left out.
\<close>

section \<open>Products of doubles\<close>

text \<open>The double nearest to a product of an integer and a double \<open>m / 2 ^ 53\<close>, and its floor: the exact
  product is rounded to 53 significant bits, ties to the even neighbour.\<close>

function excess_bits :: "int \<Rightarrow> nat" where
  "excess_bits n = (if n < 2 ^ 53 then 0 else Suc (excess_bits (n div 2)))"
  by auto
termination by (relation "measure nat") auto

declare excess_bits.simps [simp del]

definition round_even :: "int \<Rightarrow> int \<Rightarrow> int" where
  "round_even n d =
     (let q = n div d; r = n mod d
      in if 2 * r < d \<or> 2 * r = d \<and> even q then q else q + 1)"

definition double_product :: "int \<Rightarrow> int \<Rightarrow> int" where
  "double_product m n = (let p = n * m; d = 2 ^ excess_bits p in round_even p d * d)"

definition floor_product :: "int \<Rightarrow> int \<Rightarrow> int" where
  "floor_product m n = (if 0 \<le> n then double_product m n else - double_product m (- n)) div 2 ^ 53"

text \<open>The doubles written 0.7 and 0.4.\<close>

definition double_07 :: int where "double_07 = 6305039478318694"

definition double_04 :: int where "double_04 = 3602879701896397"

lemma excess_bits_le: "n < 2 ^ (53 + k) \<Longrightarrow> excess_bits n \<le> k"
proof (induction k arbitrary: n)
  case 0
  then show ?case by (simp add: excess_bits.simps)
next
  case (Suc k)
  then have "n < 2 * 2 ^ (53 + k)" by (simp only: add_Suc_right power_Suc)
  then have "n div 2 < 2 ^ (53 + k)" by linarith
  with Suc.IH show ?case by (subst excess_bits.simps) simp
qed

lemma round_even_bounds:
  assumes "0 < d"
  shows "0 \<le> n \<Longrightarrow> 0 \<le> round_even n d" and "n \<le> k * d \<Longrightarrow> round_even n d \<le> k"
proof -
  show "0 \<le> n \<Longrightarrow> 0 \<le> round_even n d"
    using assms by (auto simp: round_even_def Let_def pos_imp_zdiv_nonneg_iff add_nonneg_nonneg)
  assume le: "n \<le> k * d"
  show "round_even n d \<le> k"
  proof (cases "n = k * d")
    case True
    with assms show ?thesis by (simp add: round_even_def)
  next
    case False
    with le assms have "n div d * d < k * d"
      using pos_mod_sign [OF assms, of n] div_mult_mod_eq [of n d] by linarith
    with assms have "n div d < k" by (simp add: mult_less_cancel_right)
    then show ?thesis by (simp add: round_even_def Let_def)
  qed
qed

lemma double_product_bounds:
  assumes "0 \<le> m" "m \<le> 2 ^ 53" "0 \<le> n"
  shows "0 \<le> double_product m n" and "n < 2 ^ 53 \<Longrightarrow> double_product m n \<le> n * 2 ^ 53"
proof -
  let ?p = "n * m" and ?d = "2 ^ excess_bits (n * m) :: int"
  show "0 \<le> double_product m n"
    using assms round_even_bounds(1) [of ?d ?p] by (simp add: double_product_def Let_def)
  assume n: "n < 2 ^ 53"
  have le: "?p \<le> n * 2 ^ 53" using assms by (intro mult_left_mono)
  moreover have "n * 2 ^ 53 < 2 ^ (53 + 53)" using n by simp
  ultimately have s: "excess_bits ?p \<le> 53" by (intro excess_bits_le) (rule le_less_trans)
  have d: "n * 2 ^ 53 = n * 2 ^ (53 - excess_bits ?p) * ?d"
    using s by (simp add: mult.assoc flip: power_add)
  have "round_even ?p ?d \<le> n * 2 ^ (53 - excess_bits ?p)"
    using le unfolding d by (intro round_even_bounds(2)) simp_all
  then show "double_product m n \<le> n * 2 ^ 53"
    unfolding d by (simp add: double_product_def Let_def mult_right_mono)
qed

lemma floor_product_le:
  assumes "0 \<le> m" "m \<le> 2 ^ 53" "n < 2 ^ 53"
  shows "floor_product m n \<le> max 0 n"
proof (cases "0 \<le> n")
  case True
  have "double_product m n div 2 ^ 53 \<le> (n * 2 ^ 53) div 2 ^ 53"
    using True assms double_product_bounds(2) [of m n] by (intro zdiv_mono1) simp_all
  with True show ?thesis by (simp add: floor_product_def)
next
  case False
  have "- double_product m (- n) div 2 ^ 53 \<le> 0 div 2 ^ 53"
    using False assms double_product_bounds(1) [of m "- n"] by (intro zdiv_mono1) simp_all
  with False show ?thesis by (simp add: floor_product_def)
qed

section \<open>The batcher\<close>

record BatcherOptions =
  bo_maxBatchSize :: int
  bo_maxWaitMs :: int
  bo_minBatchSize :: int
  bo_adaptiveSizing :: bool

definition batcher_options :: "int option \<Rightarrow> int option \<Rightarrow> int option \<Rightarrow> bool option \<Rightarrow> BatcherOptions" where
  "batcher_options maxBatchSize maxWaitMs minBatchSize adaptiveSizing =
     \<lparr>bo_maxBatchSize = (case maxBatchSize of None \<Rightarrow> 10 | Some n \<Rightarrow> n),
      bo_maxWaitMs = (case maxWaitMs of None \<Rightarrow> 50 | Some n \<Rightarrow> n),
      bo_minBatchSize = (case minBatchSize of None \<Rightarrow> 2 | Some n \<Rightarrow> n),
      bo_adaptiveSizing = (case adaptiveSizing of None \<Rightarrow> True | Some b \<Rightarrow> b)\<rparr>"

text \<open>An item is named by a number, which stands for its promise.\<close>

record 'a SmartBatchItem =
  bi_id :: nat
  bi_input :: 'a
  bi_timestamp :: time

text \<open>\<open>sb_recent\<close> is five times \<^verbatim>\<open>avgRequestsPerSecond\<close>: the number of requests of five seconds.  The last
  fields are the batches the processor is working on, the answers it has given, and the settled
  promises.\<close>

record ('a, 'r) SmartBatcher =
  sb_options :: BatcherOptions
  sb_pendingBatch :: "'a SmartBatchItem list"
  sb_batchTimer :: "time option"
  sb_recent :: nat
  sb_requestTimestamps :: "time list"
  sb_totalBatches :: nat
  sb_totalItems :: nat
  sb_added :: nat
  sb_running :: "'a SmartBatchItem list list"
  sb_calls :: "('a list \<times> (string + 'r list)) list"
  sb_settled :: "(nat \<times> 'a \<times> (string + 'r)) list"

definition new_SmartBatcher :: "BatcherOptions \<Rightarrow> ('a, 'r) SmartBatcher" where
  "new_SmartBatcher opts = \<lparr>sb_options = opts, sb_pendingBatch = [], sb_batchTimer = None, sb_recent = 0,
     sb_requestTimestamps = [], sb_totalBatches = 0, sb_totalItems = 0, sb_added = 0, sb_running = [], sb_calls = [],
     sb_settled = []\<rparr>"

text \<open>The rate is compared as the number of requests of five seconds with 500 and 250.\<close>

definition getCurrentMaxBatchSize :: "BatcherOptions \<Rightarrow> nat \<Rightarrow> int" where
  "getCurrentMaxBatchSize opts recent =
     (if \<not> bo_adaptiveSizing opts then bo_maxBatchSize opts
      else if recent > 500 then bo_maxBatchSize opts
      else if recent > 250 then max 5 (floor_product double_07 (bo_maxBatchSize opts))
      else max (bo_minBatchSize opts) (floor_product double_04 (bo_maxBatchSize opts)))"

definition shouldExecuteImmediately :: "('a, 'r) SmartBatcher \<Rightarrow> bool" where
  "shouldExecuteImmediately sb \<longleftrightarrow>
     int (length (sb_pendingBatch sb)) \<ge> getCurrentMaxBatchSize (sb_options sb) (sb_recent sb)"

definition calculateWaitTime :: "BatcherOptions \<Rightarrow> nat \<Rightarrow> int" where
  "calculateWaitTime opts recent =
     (if \<not> bo_adaptiveSizing opts then bo_maxWaitMs opts
      else if recent > 500 then min 10 (bo_maxWaitMs opts)
      else if recent > 250 then min 25 (bo_maxWaitMs opts)
      else bo_maxWaitMs opts)"

definition recordRequest :: "time \<Rightarrow> ('a, 'r) SmartBatcher \<Rightarrow> ('a, 'r) SmartBatcher" where
  "recordRequest now sb = sb\<lparr>sb_requestTimestamps := filter (\<lambda>ts. ts > now - 10000) (sb_requestTimestamps sb @ [now])\<rparr>"

definition updateLoadPattern :: "time \<Rightarrow> ('a, 'r) SmartBatcher \<Rightarrow> ('a, 'r) SmartBatcher" where
  "updateLoadPattern now sb = sb\<lparr>sb_recent := length (filter (\<lambda>ts. ts > now - 5000) (sb_requestTimestamps sb))\<rparr>"

text \<open>\<^verbatim>\<open>executeBatch\<close> up to the call of the processor.\<close>

definition executeBatch :: "('a, 'r) SmartBatcher \<Rightarrow> ('a, 'r) SmartBatcher" where
  "executeBatch sb =
     (let batch = sb_pendingBatch sb;
          sb = sb\<lparr>sb_batchTimer := None, sb_pendingBatch := []\<rparr>
      in if batch = [] then sb else sb\<lparr>sb_running := sb_running sb @ [batch]\<rparr>)"

text \<open>A timer set for less than a millisecond, or for more than its 31 bits, fires after one.\<close>

definition timer_delay :: "int \<Rightarrow> int" where
  "timer_delay ms = (if ms < 1 \<or> ms > 2147483647 then 1 else ms)"

definition batcher_add :: "time \<Rightarrow> 'a \<Rightarrow> ('a, 'r) SmartBatcher \<Rightarrow> ('a, 'r) SmartBatcher" where
  "batcher_add now x sb =
     (let item = \<lparr>bi_id = sb_added sb, bi_input = x, bi_timestamp = now\<rparr>;
          sb = recordRequest now (sb\<lparr>sb_pendingBatch := sb_pendingBatch sb @ [item], sb_added := sb_added sb + 1\<rparr>)
      in if shouldExecuteImmediately sb then executeBatch sb
         else if sb_batchTimer sb = None
         then sb\<lparr>sb_batchTimer := Some (now + timer_delay (calculateWaitTime (sb_options sb) (sb_recent sb)))\<rparr>
         else sb)"

text \<open>The rest of \<^verbatim>\<open>executeBatch\<close> for the \<open>i\<close>-th running batch, with the outputs or the error of the
  processor.\<close>

definition reject_all :: "string \<Rightarrow> 'a SmartBatchItem list \<Rightarrow> (nat \<times> 'a \<times> (string + 'r)) list" where
  "reject_all e batch = map (\<lambda>item. (bi_id item, bi_input item, Inl e)) batch"

definition batch_finished :: "nat \<Rightarrow> string + 'r list \<Rightarrow> ('a, 'r) SmartBatcher \<Rightarrow> ('a, 'r) SmartBatcher" where
  "batch_finished i res sb =
     (if i < length (sb_running sb) then
        let batch = sb_running sb ! i;
            inputs = map bi_input batch;
            sb = sb\<lparr>sb_running := take i (sb_running sb) @ drop (Suc i) (sb_running sb), sb_calls := sb_calls sb @ [(inputs, res)]\<rparr>
        in case res of
             Inl e \<Rightarrow> sb\<lparr>sb_settled := sb_settled sb @ reject_all e batch\<rparr>
           | Inr outputs \<Rightarrow>
               if length outputs \<noteq> length inputs
               then sb\<lparr>sb_settled := sb_settled sb @ reject_all (''Batch processor returned '' @ show_nat (length outputs) @
                      '' outputs for '' @ show_nat (length inputs) @ '' inputs'') batch\<rparr>
               else sb\<lparr>sb_settled := sb_settled sb @ map2 (\<lambda>item out. (bi_id item, bi_input item, Inr out)) batch outputs,
                       sb_totalBatches := sb_totalBatches sb + 1, sb_totalItems := sb_totalItems sb + length batch\<rparr>
      else sb)"

definition batcher_flush :: "('a, 'r) SmartBatcher \<Rightarrow> ('a, 'r) SmartBatcher" where
  "batcher_flush sb = (if sb_pendingBatch sb \<noteq> [] then executeBatch sb else sb)"

definition batcher_clear :: "('a, 'r) SmartBatcher \<Rightarrow> ('a, 'r) SmartBatcher" where
  "batcher_clear sb = sb\<lparr>sb_batchTimer := None, sb_pendingBatch := [],
     sb_settled := sb_settled sb @ reject_all ''Batcher cleared'' (sb_pendingBatch sb)\<rparr>"

text \<open>What can happen.  The timer fires when it is due, or later.\<close>

datatype ('a, 'r) batcher_event =
    BatchAdd time 'a | BatchTimer time | BatchLoad time | BatchFinished nat "string + 'r list" | BatchFlush | BatchClear

fun batcher_step :: "('a, 'r) batcher_event \<Rightarrow> ('a, 'r) SmartBatcher \<Rightarrow> ('a, 'r) SmartBatcher" where
  "batcher_step (BatchAdd now x) sb = batcher_add now x sb"
| "batcher_step (BatchTimer now) sb =
     (case sb_batchTimer sb of None \<Rightarrow> sb | Some due \<Rightarrow> if due \<le> now then executeBatch sb else sb)"
| "batcher_step (BatchLoad now) sb = updateLoadPattern now sb"
| "batcher_step (BatchFinished i res) sb = batch_finished i res sb"
| "batcher_step BatchFlush sb = batcher_flush sb"
| "batcher_step BatchClear sb = batcher_clear sb"

definition batcher_run :: "BatcherOptions \<Rightarrow> ('a, 'r) batcher_event list \<Rightarrow> ('a, 'r) SmartBatcher" where
  "batcher_run opts es = fold batcher_step es (new_SmartBatcher opts)"

section \<open>Every item is answered once\<close>

definition item_ids :: "('a, 'r) SmartBatcher \<Rightarrow> nat list" where
  "item_ids sb = map bi_id (sb_pendingBatch sb) @ map bi_id (concat (sb_running sb)) @ map fst (sb_settled sb)"

definition items_ok :: "('a, 'r) SmartBatcher \<Rightarrow> bool" where
  "items_ok sb \<longleftrightarrow> mset (item_ids sb) = mset [0..<sb_added sb]"

definition batch_cap :: "BatcherOptions \<Rightarrow> int" where
  "batch_cap opts = max 5 (max (bo_minBatchSize opts) (bo_maxBatchSize opts))"

definition sizes_ok :: "('a, 'r) SmartBatcher \<Rightarrow> bool" where
  "sizes_ok sb \<longleftrightarrow> int (length (sb_pendingBatch sb)) < batch_cap (sb_options sb) \<and>
     (\<forall>b\<in>set (sb_running sb). int (length b) \<le> batch_cap (sb_options sb))"

definition timer_ok :: "('a, 'r) SmartBatcher \<Rightarrow> bool" where
  "timer_ok sb \<longleftrightarrow> (case sb_batchTimer sb of
      None \<Rightarrow> sb_pendingBatch sb = []
    | Some due \<Rightarrow> sb_pendingBatch sb \<noteq> [] \<and> due \<le> bi_timestamp (hd (sb_pendingBatch sb)) + max 1 (bo_maxWaitMs (sb_options sb)))"

text \<open>An output an item gets is one the processor gave for the input of that item, at its position.\<close>

definition answer_of_call :: "'a \<Rightarrow> 'r \<Rightarrow> 'a list \<times> (string + 'r list) \<Rightarrow> bool" where
  "answer_of_call x v call \<longleftrightarrow> (\<exists>outs k. snd call = Inr outs \<and> length outs = length (fst call) \<and> k < length outs \<and>
     fst call ! k = x \<and> outs ! k = v)"

definition answers_ok :: "('a, 'r) SmartBatcher \<Rightarrow> bool" where
  "answers_ok sb \<longleftrightarrow> (\<forall>i x v. (i, x, Inr v) \<in> set (sb_settled sb) \<longrightarrow> list_ex (answer_of_call x v) (sb_calls sb))"

definition batcher_inv :: "('a, 'r) SmartBatcher \<Rightarrow> bool" where
  "batcher_inv sb \<longleftrightarrow> items_ok sb \<and> sizes_ok sb \<and> timer_ok sb \<and> answers_ok sb"

lemma current_le_cap:
  assumes "bo_maxBatchSize opts < 2 ^ 53"
  shows "getCurrentMaxBatchSize opts n \<le> batch_cap opts"
proof -
  have "floor_product double_07 (bo_maxBatchSize opts) \<le> max 0 (bo_maxBatchSize opts)"
    "floor_product double_04 (bo_maxBatchSize opts) \<le> max 0 (bo_maxBatchSize opts)"
    using assms by (auto intro!: floor_product_le simp: double_07_def double_04_def)
  then show ?thesis by (auto simp: getCurrentMaxBatchSize_def batch_cap_def)
qed

lemma wait_le: "timer_delay (calculateWaitTime opts n) \<le> max 1 (bo_maxWaitMs opts)"
  by (auto simp: timer_delay_def calculateWaitTime_def)

lemma cap_pos: "5 \<le> batch_cap opts"
  by (simp add: batch_cap_def)

lemma executeBatch_inv:
  assumes "items_ok sb" "answers_ok sb" "int (length (sb_pendingBatch sb)) \<le> batch_cap (sb_options sb)"
    "\<forall>b\<in>set (sb_running sb). int (length b) \<le> batch_cap (sb_options sb)"
  shows "batcher_inv (executeBatch sb)"
  using assms cap_pos [of "sb_options sb"]
  by (cases "sb_pendingBatch sb = []") (simp_all add: batcher_inv_def executeBatch_def Let_def items_ok_def item_ids_def
      sizes_ok_def timer_ok_def answers_ok_def ac_simps)

lemma executeBatch_inv': "batcher_inv sb \<Longrightarrow> batcher_inv (executeBatch sb)"
  by (rule executeBatch_inv) (auto simp: batcher_inv_def sizes_ok_def)

lemma batcher_add_inv:
  assumes inv: "batcher_inv sb" and small: "bo_maxBatchSize (sb_options sb) < 2 ^ 53"
  shows "batcher_inv (batcher_add now x sb)"
proof -
  let ?item = "\<lparr>bi_id = sb_added sb, bi_input = x, bi_timestamp = now\<rparr>"
  let ?sb = "recordRequest now (sb\<lparr>sb_pendingBatch := sb_pendingBatch sb @ [?item], sb_added := sb_added sb + 1\<rparr>)"
  have items: "items_ok ?sb" and answers: "answers_ok ?sb"
    using inv by (simp_all add: batcher_inv_def items_ok_def item_ids_def answers_ok_def recordRequest_def)
  have running: "\<forall>b\<in>set (sb_running ?sb). int (length b) \<le> batch_cap (sb_options ?sb)"
    and len: "int (length (sb_pendingBatch ?sb)) \<le> batch_cap (sb_options ?sb)"
    using inv by (auto simp: batcher_inv_def sizes_ok_def recordRequest_def)
  show ?thesis
  proof (cases "shouldExecuteImmediately ?sb")
    case True
    then show ?thesis
      using executeBatch_inv [OF items answers len running] by (simp add: batcher_add_def Let_def)
  next
    case False
    then have "int (length (sb_pendingBatch ?sb)) < batch_cap (sb_options ?sb)"
      using current_le_cap [OF small, of "sb_recent sb"] by (auto simp: shouldExecuteImmediately_def recordRequest_def)
    moreover have "timer_ok (batcher_add now x sb)"
      using False inv wait_le [of "sb_options sb" "sb_recent sb"]
      by (auto simp: batcher_add_def Let_def timer_ok_def batcher_inv_def recordRequest_def hd_append split: option.splits)
    ultimately show ?thesis
      using False items answers running
      by (auto simp: batcher_add_def Let_def batcher_inv_def items_ok_def item_ids_def answers_ok_def sizes_ok_def)
  qed
qed

lemma map2_answers: "length outs = length batch \<Longrightarrow> map fst (map2 (\<lambda>item out. (bi_id item, bi_input item, Inr out)) batch outs) = map bi_id batch"
  by (induction batch outs rule: list_induct2') auto

lemma finished_items:
  assumes i: "i < length (sb_running sb)" and inv: "items_ok sb"
    and eq: "map fst new = map bi_id (sb_running sb ! i)"
  shows "items_ok (sb\<lparr>sb_running := take i (sb_running sb) @ drop (Suc i) (sb_running sb), sb_calls := calls,
    sb_settled := sb_settled sb @ new, sb_totalBatches := tb, sb_totalItems := ti\<rparr>)"
proof -
  have "mset (map fst new) = mset (map bi_id (sb_running sb ! i))" by (simp only: eq)
  moreover have "concat (sb_running sb) = concat (take i (sb_running sb) @ sb_running sb ! i # drop (Suc i) (sb_running sb))"
    using id_take_nth_drop [OF i] by simp
  ultimately show ?thesis using inv by (simp add: items_ok_def item_ids_def ac_simps)
qed

lemma batch_finished_inv:
  assumes inv: "batcher_inv sb"
  shows "batcher_inv (batch_finished i res sb)"
proof (cases "i < length (sb_running sb)")
  case i: True
  let ?batch = "sb_running sb ! i"
  let ?sb = "batch_finished i res sb"
  obtain new tb ti where f: "?sb = sb\<lparr>sb_running := take i (sb_running sb) @ drop (Suc i) (sb_running sb),
      sb_calls := sb_calls sb @ [(map bi_input ?batch, res)], sb_settled := sb_settled sb @ new,
      sb_totalBatches := tb, sb_totalItems := ti\<rparr>"
    and new: "map fst new = map bi_id ?batch"
    and ans: "\<And>j x v. (j, x, Inr v) \<in> set new \<Longrightarrow> answer_of_call x v (map bi_input ?batch, res)"
  proof (cases res)
    case (Inl e)
    with i show ?thesis
      by (intro that [where new = "reject_all e ?batch" and tb = "sb_totalBatches sb" and ti = "sb_totalItems sb"])
        (auto simp: batch_finished_def Let_def reject_all_def)
  next
    case (Inr outs)
    show ?thesis
    proof (cases "length outs = length ?batch")
      case True
      have "answer_of_call x v (map bi_input ?batch, res)"
        if "(j, x, Inr v) \<in> set (map2 (\<lambda>item out. (bi_id item, bi_input item, Inr out)) ?batch outs)" for j x v
        using that True Inr by (force simp: answer_of_call_def set_zip)
      note answer = this
      with i Inr True show ?thesis
        by (intro that [where new = "map2 (\<lambda>item out. (bi_id item, bi_input item, Inr out)) ?batch outs"
              and tb = "sb_totalBatches sb + 1" and ti = "sb_totalItems sb + length ?batch"])
          (simp add: batch_finished_def Let_def, simp add: map2_answers del: map_map, rule answer)
    next
      case False
      with i Inr show ?thesis
        by (intro that [where new = "reject_all (''Batch processor returned '' @ show_nat (length outs) @
                      '' outputs for '' @ show_nat (length ?batch) @ '' inputs'') ?batch"
              and tb = "sb_totalBatches sb" and ti = "sb_totalItems sb"])
          (auto simp: batch_finished_def Let_def reject_all_def)
    qed
  qed
  have "items_ok ?sb" unfolding f using i new inv by (intro finished_items) (auto simp: batcher_inv_def)
  moreover have "answers_ok ?sb" unfolding f answers_ok_def
    using inv ans by (fastforce simp: batcher_inv_def answers_ok_def)
  moreover have "sizes_ok ?sb" "timer_ok ?sb"
    unfolding f using inv
    by (auto simp: batcher_inv_def sizes_ok_def timer_ok_def dest: in_set_takeD in_set_dropD split: option.splits)
  ultimately show ?thesis by (simp add: batcher_inv_def)
qed (use inv in \<open>simp add: batch_finished_def\<close>)

lemma batcher_step_inv:
  assumes inv: "batcher_inv sb" and small: "bo_maxBatchSize (sb_options sb) < 2 ^ 53"
  shows "batcher_inv (batcher_step e sb)"
proof (cases e)
  case (BatchAdd now x)
  with assms show ?thesis by (simp add: batcher_add_inv)
next
  case (BatchTimer now)
  with inv show ?thesis by (simp add: executeBatch_inv' split: option.split)
next
  case (BatchLoad now)
  with inv show ?thesis
    by (simp add: updateLoadPattern_def batcher_inv_def items_ok_def item_ids_def sizes_ok_def timer_ok_def answers_ok_def
        split: option.splits)
next
  case (BatchFinished i res)
  with inv show ?thesis by (simp add: batch_finished_inv)
next
  case BatchFlush
  with inv show ?thesis by (simp add: batcher_flush_def executeBatch_inv')
next
  case BatchClear
  with inv cap_pos [of "sb_options sb"] show ?thesis
    by (auto simp: batcher_clear_def batcher_inv_def items_ok_def item_ids_def sizes_ok_def timer_ok_def answers_ok_def
        reject_all_def comp_def ac_simps)
qed

lemma batcher_step_options [simp]: "sb_options (batcher_step e sb) = sb_options sb"
  by (cases e) (auto simp: batcher_add_def executeBatch_def recordRequest_def updateLoadPattern_def batch_finished_def
      batcher_flush_def batcher_clear_def Let_def split: option.split sum.split)

lemma batcher_run_inv:
  assumes "bo_maxBatchSize opts < 2 ^ 53"
  shows "batcher_inv (batcher_run opts es)" and "sb_options (batcher_run opts es) = opts"
proof -
  have start: "batcher_inv (new_SmartBatcher opts :: ('a, 'r) SmartBatcher)"
    by (simp add: new_SmartBatcher_def batcher_inv_def items_ok_def item_ids_def sizes_ok_def timer_ok_def answers_ok_def
        batch_cap_def)
  have "batcher_inv (batcher_run opts es) \<and> sb_options (batcher_run opts es) = opts"
    unfolding batcher_run_def
    by (rule fold_invariant [where Q = "\<lambda>_. True"])
      (use assms in \<open>auto simp: start batcher_step_inv\<close>, simp add: new_SmartBatcher_def)
  then show "batcher_inv (batcher_run opts es)" "sb_options (batcher_run opts es) = opts" by auto
qed

text \<open>
  C36.  Batching loses nothing.  Whatever the order of additions, timers, load measurements, answers of the
  processor, flushes and clearings: every added item waits, is being processed, or has been settled, and
  exactly one of the three once; an item that is fulfilled gets the output the processor gave at the
  position of its input; a batch has at most as many items as the largest of 5 and the two configured sizes;
  and while items wait a timer is set that is due at most \<^verbatim>\<open>maxWaitMs\<close> (or a millisecond) after the oldest of them was
  added and then takes all of them.
\<close>

theorem batches_settle_items_once:
  assumes "bo_maxBatchSize opts < 2 ^ 53" and "sb = batcher_run opts es"
  shows "mset (map bi_id (sb_pendingBatch sb) @ map bi_id (concat (sb_running sb)) @ map fst (sb_settled sb)) =
      mset [0..<sb_added sb] \<and>
    ((i, x, Inr v) \<in> set (sb_settled sb) \<longrightarrow> list_ex (answer_of_call x v) (sb_calls sb)) \<and>
    (\<forall>b\<in>set (sb_running sb). int (length b) \<le> batch_cap opts) \<and>
    (sb_pendingBatch sb \<noteq> [] \<longrightarrow> (\<exists>due. sb_batchTimer sb = Some due \<and>
       due \<le> bi_timestamp (hd (sb_pendingBatch sb)) + max 1 (bo_maxWaitMs opts) \<and>
       sb_running (batcher_step (BatchTimer due) sb) = sb_running sb @ [sb_pendingBatch sb]))"
proof -
  have inv: "batcher_inv sb" and opts: "sb_options sb = opts"
    using batcher_run_inv [OF assms(1), of es] assms(2) by auto
  have "\<exists>due. sb_batchTimer sb = Some due \<and> due \<le> bi_timestamp (hd (sb_pendingBatch sb)) + max 1 (bo_maxWaitMs opts) \<and>
       sb_running (batcher_step (BatchTimer due) sb) = sb_running sb @ [sb_pendingBatch sb]" if "sb_pendingBatch sb \<noteq> []"
    using inv that opts by (auto simp: batcher_inv_def timer_ok_def executeBatch_def Let_def split: option.splits)
  with inv opts show ?thesis
    by (auto simp: batcher_inv_def items_ok_def item_ids_def answers_ok_def sizes_ok_def)
qed

definition demo_batch :: "(string, int) batcher_event list" where
  "demo_batch = [BatchAdd 0 ''a'', BatchAdd 10 ''b'', BatchAdd 20 ''c'', BatchAdd 25 ''d'', BatchFinished 0 (Inr [1, 2, 3, 4]), BatchAdd 30 ''e'']"

theorem batches_settle_items_once_witness:
  "list_ex (answer_of_call ''b'' 2) (sb_calls (batcher_run (batcher_options None None None None) demo_batch)) \<and>
   (\<exists>due. sb_batchTimer (batcher_run (batcher_options None None None None) demo_batch) = Some due \<and> due \<le> 80)"
proof -
  let ?sb = "batcher_run (batcher_options None None None None) demo_batch"
  have "(1, ''b'', Inr 2) \<in> set (sb_settled ?sb)" "map bi_timestamp (sb_pendingBatch ?sb) = [30]"
    "bo_maxBatchSize (batcher_options None None None None) < 2 ^ 53"
    "max 1 (bo_maxWaitMs (batcher_options None None None None)) = 50" by code_simp+
  then show ?thesis
    using batches_settle_items_once [OF _ refl, of "batcher_options None None None None" demo_batch 1 "''b''" 2] by auto
qed

text \<open>The product with the double 0.7 may fall below the exact product, and so does the size.\<close>

lemma double_product_falls_short: "floor_product double_07 90 = 62"
  by code_simp

text \<open>Under medium load the size is at least 5 whatever \<^verbatim>\<open>maxBatchSize\<close> is: with a maximum of 3, four items wait for a fifth.\<close>

lemma max_batch_size_exceeded:
  "getCurrentMaxBatchSize (batcher_options (Some 3) None None None) 300 = 5"
  "getCurrentMaxBatchSize (batcher_options (Some 3) None (Some 8) None) 0 = 8"
  by code_simp+

end
