(* ===== verification/Egress_Guard.thy ===== *)
theory Egress_Guard
  imports Json_Text "HOL-Library.Sublist"
begin

text \<open>
  \<^verbatim>\<open>network/EgressGuard.ts\<close>: which targets the orchestrator may contact.  The \<^verbatim>\<open>URL\<close> constructor is an argument, a
  function to the properties of the parsed URL the code reads; what is relied on of it is the locale
  \<open>url_constructor\<close>.  Sets of candidates are lists of which only the members matter.
\<close>

record URL =
  url_protocol :: string
  url_hostname :: string
  url_port :: string

definition with_port :: "string \<Rightarrow> string \<Rightarrow> string" where
  "with_port h p = h @ CHR '':'' # p"

text \<open>The \<^verbatim>\<open>host\<close> of a URL is its host name with the port, if there is one.\<close>

definition url_host :: "URL \<Rightarrow> string" where
  "url_host u = (if url_port u = [] then url_hostname u else with_port (url_hostname u) (url_port u))"

record NormalizedTarget =
  nt_hostname :: "string option"
  nt_port :: "string option"
  nt_candidates :: "string list"

record AllowEntry =
  ae_hostname :: "string option"
  ae_candidates :: "string list"
  ae_suffix :: "string option"
  ae_suffixPort :: "string option"

datatype NetworkEgressMode = Enforce | ReportOnly | AllowAll

record NetworkEgressConfig =
  ne_mode :: NetworkEgressMode
  ne_allow :: "string list"

definition DEFAULT_PORTS :: "(string \<times> string) list" where
  "DEFAULT_PORTS = [(''http:'', ''80''), (''https:'', ''443''), (''ws:'', ''80''), (''wss:'', ''443'')]"

definition parse_with_host :: "(string \<Rightarrow> URL option) \<Rightarrow> string \<Rightarrow> URL option" where
  "parse_with_host URL_of s = (case URL_of s of Some u \<Rightarrow> if url_hostname u \<noteq> [] then Some u else None | None \<Rightarrow> None)"

definition tryParseUrl :: "(string \<Rightarrow> URL option) \<Rightarrow> string \<Rightarrow> URL option" where
  "tryParseUrl URL_of s =
     (case parse_with_host URL_of s of
        Some u \<Rightarrow> Some u
      | None \<Rightarrow> parse_with_host URL_of (''https://'' @ s))"

text \<open>The regular expressions and text functions of \<^verbatim>\<open>detectExplicitPort\<close>.\<close>

definition scheme_char :: "char \<Rightarrow> bool" where
  "scheme_char c \<longleftrightarrow> (of_char c :: nat) \<in> {97..122} \<or> is_digit c \<or> c \<in> set ''+.-''"

definition strip_scheme :: "string \<Rightarrow> string" where
  "strip_scheme s =
     (let rest = dropWhile scheme_char s
      in if takeWhile scheme_char s \<noteq> [] \<and> prefix ''://'' rest then drop 3 rest else s)"

definition all_digits :: "string \<Rightarrow> bool" where
  "all_digits s \<longleftrightarrow> s \<noteq> [] \<and> list_all is_digit s"

definition lastIndexOf :: "string \<Rightarrow> string \<Rightarrow> nat option" where
  "lastIndexOf t s = List.find (\<lambda>i. prefix t (drop i s)) (rev [0..<Suc (length s)])"

definition first_segment :: "string \<Rightarrow> string" where
  "first_segment s = takeWhile (\<lambda>c. c \<noteq> CHR ''/'') s"

definition bracket_port :: "string \<Rightarrow> string option" where
  "bracket_port host =
     (if prefix ''['' host \<and> CHR '']'' \<in> set host then
        let remainder = tl (dropWhile (\<lambda>c. c \<noteq> CHR '']'') host)
        in if prefix '':'' remainder \<and> all_digits (tl remainder) then Some (tl remainder) else None
      else None)"

definition colon_port :: "string \<Rightarrow> string option" where
  "colon_port host =
     (case lastIndexOf '':'' host of
        None \<Rightarrow> None
      | Some i \<Rightarrow> if i > 0 \<and> all_digits (drop (i + 1) host) then Some (drop (i + 1) host) else None)"

definition detectExplicitPort :: "string \<Rightarrow> string option" where
  "detectExplicitPort s =
     (let host = first_segment (strip_scheme (lower_case (trim s)))
      in if host = [] then None
         else case bracket_port host of Some p \<Rightarrow> Some p | None \<Rightarrow> colon_port host)"

definition without_port :: "string \<Rightarrow> string \<Rightarrow> string" where
  "without_port s port = (case lastIndexOf (CHR '':'' # port) s of Some i \<Rightarrow> take i s | None \<Rightarrow> s)"

definition url_port_or :: "URL \<Rightarrow> string option \<Rightarrow> string option" where
  "url_port_or u other = (if url_port u \<noteq> [] then Some (url_port u) else other)"

definition or_else :: "'a option \<Rightarrow> 'a option \<Rightarrow> 'a option" where
  "or_else a b = (case a of Some x \<Rightarrow> Some x | None \<Rightarrow> b)"

definition buildTargetCandidates :: "(string \<Rightarrow> URL option) \<Rightarrow> string \<Rightarrow> NormalizedTarget" where
  "buildTargetCandidates URL_of target =
     (let trimmed = trim target;
          normalized = lower_case trimmed;
          candidates = (if normalized \<noteq> [] then [normalized] else [])
      in case tryParseUrl URL_of trimmed of
           Some u \<Rightarrow>
             let hostname = lower_case (url_hostname u);
                 port = url_port_or u (or_else (detectExplicitPort trimmed) (map_of DEFAULT_PORTS (url_protocol u)))
             in \<lparr>nt_hostname = Some hostname, nt_port = port,
                 nt_candidates = candidates @ [hostname, lower_case (url_host u)] @
                   (case port of Some p \<Rightarrow> [with_port hostname p] | None \<Rightarrow> [])\<rparr>
         | None \<Rightarrow>
             let hostCandidate = first_segment normalized
             in if hostCandidate \<noteq> [] then
                  (case detectExplicitPort hostCandidate of
                     Some p \<Rightarrow>
                       let withoutPort = without_port hostCandidate p
                       in \<lparr>nt_hostname = Some withoutPort, nt_port = Some p,
                           nt_candidates = candidates @ [hostCandidate, with_port withoutPort p] @
                             (if withoutPort \<noteq> [] then [withoutPort] else [])\<rparr>
                   | None \<Rightarrow> \<lparr>nt_hostname = Some hostCandidate, nt_port = None, nt_candidates = candidates @ [hostCandidate]\<rparr>)
                else \<lparr>nt_hostname = None, nt_port = None, nt_candidates = candidates\<rparr>)"

definition tryParseAllowEntry :: "(string \<Rightarrow> URL option) \<Rightarrow> string \<Rightarrow> AllowEntry" where
  "tryParseAllowEntry URL_of entry =
     (let normalized = lower_case (trim entry);
          candidates = (if normalized \<noteq> [] then [normalized] else [])
      in if normalized = ''*'' then \<lparr>ae_hostname = Some ''*'', ae_candidates = candidates, ae_suffix = None, ae_suffixPort = None\<rparr>
         else if prefix ''*'' normalized then
           let suffix = tl normalized
           in (case detectExplicitPort suffix of
                 Some p \<Rightarrow> \<lparr>ae_hostname = None, ae_candidates = candidates, ae_suffix = Some (without_port suffix p), ae_suffixPort = Some p\<rparr>
               | None \<Rightarrow> \<lparr>ae_hostname = None, ae_candidates = candidates, ae_suffix = Some suffix, ae_suffixPort = None\<rparr>)
         else case tryParseUrl URL_of normalized of
           Some u \<Rightarrow>
             let hostname = lower_case (url_hostname u);
                 parsedHost = lower_case (url_host u)
             in \<lparr>ae_hostname = Some hostname,
                 ae_candidates = candidates @
                   (case url_port_or u (detectExplicitPort normalized) of
                      Some p \<Rightarrow> with_port hostname p # (if CHR '':'' \<in> set parsedHost then [parsedHost] else [])
                    | None \<Rightarrow> hostname # (if parsedHost \<noteq> hostname then [parsedHost] else [])),
                 ae_suffix = None, ae_suffixPort = None\<rparr>
         | None \<Rightarrow>
             let hostCandidate = first_segment normalized
             in if hostCandidate \<noteq> [] then
                  (case detectExplicitPort hostCandidate of
                     Some p \<Rightarrow>
                       let withoutPort = without_port hostCandidate p
                       in \<lparr>ae_hostname = Some withoutPort, ae_candidates = candidates @ [hostCandidate, with_port withoutPort p],
                           ae_suffix = None, ae_suffixPort = None\<rparr>
                   | None \<Rightarrow> \<lparr>ae_hostname = Some hostCandidate, ae_candidates = candidates @ [hostCandidate],
                              ae_suffix = None, ae_suffixPort = None\<rparr>)
                else \<lparr>ae_hostname = Some hostCandidate, ae_candidates = candidates, ae_suffix = None, ae_suffixPort = None\<rparr>)"

definition suffix_matches :: "NormalizedTarget \<Rightarrow> AllowEntry \<Rightarrow> bool" where
  "suffix_matches target entry =
     (case (ae_suffix entry, nt_hostname target) of
        (Some s, Some host) \<Rightarrow>
          s \<noteq> [] \<and> suffix s host \<and>
          (case ae_suffixPort entry of
             None \<Rightarrow> True
           | Some p \<Rightarrow> nt_port target = Some p \<or> host \<noteq> [] \<and> with_port host p \<in> set (nt_candidates target))
      | _ \<Rightarrow> False)"

fun isAllowedTarget :: "(string \<Rightarrow> URL option) \<Rightarrow> NormalizedTarget \<Rightarrow> string list \<Rightarrow> bool" where
  "isAllowedTarget URL_of target [] = False"
| "isAllowedTarget URL_of target (entry # allow) =
     (let parsedEntry = tryParseAllowEntry URL_of entry
      in if list_ex (\<lambda>candidate. candidate \<in> set (nt_candidates target)) (ae_candidates parsedEntry) then True
         else if ae_hostname parsedEntry = Some ''*'' then True
         else if suffix_matches target parsedEntry then True
         else isAllowedTarget URL_of target allow)"

datatype egress_error = TargetMissing | EgressBlocked string

definition ensureEgressAllowed :: "(string \<Rightarrow> URL option) \<Rightarrow> NetworkEgressConfig \<Rightarrow> string \<Rightarrow> egress_error + unit" where
  "ensureEgressAllowed URL_of config target =
     (if target = [] \<or> trim target = [] then Inl TargetMissing
      else if ne_mode config = AllowAll then Inr ()
      else if isAllowedTarget URL_of (buildTargetCandidates URL_of target) (ne_allow config) then Inr ()
      else if ne_mode config = ReportOnly then Inr ()
      else Inl (EgressBlocked target))"

section \<open>What a list admits\<close>

text \<open>What the URL standard says of host names and ports: a port is a text of digits or empty, and a colon occurs
  in a host name only within the brackets of an address.\<close>

locale url_constructor =
  fixes URL_of :: "string \<Rightarrow> URL option"
  assumes port_digits: "URL_of s = Some u \<Longrightarrow> list_all is_digit (url_port u)"
    and hostname_colon: "URL_of s = Some u \<Longrightarrow> CHR '':'' \<in> set (url_hostname u) \<Longrightarrow> last (url_hostname u) = CHR '']''"

text \<open>A target with host name \<open>h\<close> and port \<open>port\<close> and the text \<open>t\<close> is named by an entry: the entry stands for all
  hosts, it is a wildcard of which \<open>h\<close> has the suffix, it is a URL or a host with that name, or its text
  has been given as target.  A port in the entry is the port of the target, except for addresses in brackets.\<close>

definition names_wildcard :: "AllowEntry \<Rightarrow> string \<Rightarrow> string \<Rightarrow> string option \<Rightarrow> bool" where
  "names_wildcard A t h port \<longleftrightarrow> ae_hostname A = Some ''*'' \<or>
     (\<exists>s. ae_suffix A = Some s \<and> s \<noteq> [] \<and> suffix s h \<and>
       (case ae_suffixPort A of None \<Rightarrow> True | Some p \<Rightarrow> port = Some p \<or> t = with_port h p))"

definition names_host :: "(string \<Rightarrow> URL option) \<Rightarrow> string \<Rightarrow> string \<Rightarrow> string option \<Rightarrow> bool" where
  "names_host URL_of n h port \<longleftrightarrow>
     (\<exists>x\<in>{n, first_segment n, trim (first_segment n)}. x = h \<or> (\<exists>p. port = Some p \<and> x = with_port h p)) \<or>
     (\<exists>u. tryParseUrl URL_of n = Some u \<and> lower_case (url_hostname u) = h \<and>
       (let ep = url_port_or u (detectExplicitPort n) in ep = None \<or> ep = port \<or> CHR '':'' \<in> set h))"

lemma trim_head: "trim s = c # cs \<Longrightarrow> \<not> is_space c"
proof
  let ?d = "dropWhile is_space s"
  assume t: "trim s = c # cs" and c: "is_space c"
  have "?d = trim s @ rev (takeWhile is_space (rev ?d))"
    unfolding trim_def by (simp flip: rev_append)
  then have "?d = c # cs @ rev (takeWhile is_space (rev ?d))" by (simp add: t)
  then have "hd ?d = c" "?d \<noteq> []" by (metis list.sel(1), metis list.distinct(1))
  then show False using c hd_dropWhile [of is_space s] by simp
qed

lemma lower_char_simps [simp]:
  "lower_char c = CHR '':'' \<longleftrightarrow> c = CHR '':''" "CHR '':'' = lower_char c \<longleftrightarrow> c = CHR '':''" "lower_char CHR '']'' = CHR '']''" "is_digit c \<Longrightarrow> lower_char c = c"
proof -
  have "False" if "65 \<le> (of_char c :: nat)" "of_char c \<le> (90 :: nat)" "char_of (of_char c + 32 :: nat) = CHR '':''"
  proof -
    have "(of_char (char_of (of_char c + 32 :: nat) :: char) :: nat) = 58" by (simp add: that(3))
    with that(1,2) show False by simp
  qed
  then show colon: "lower_char c = CHR '':'' \<longleftrightarrow> c = CHR '':''"
    by (auto simp: lower_char_def Let_def)
  then show "CHR '':'' = lower_char c \<longleftrightarrow> c = CHR '':''" by auto
  show "lower_char CHR '']'' = CHR '']''" by (simp add: lower_char_def)
  show "is_digit c \<Longrightarrow> lower_char c = c" by (auto simp: lower_char_def is_digit_def Let_def)
qed

lemma lower_digits: "list_all is_digit p \<Longrightarrow> lower_case p = p"
  by (induction p) auto

lemma no_colon_digits: "list_all is_digit p \<Longrightarrow> CHR '':'' \<notin> set p"
  by (induction p) (auto simp: is_digit_def)

lemma with_port_inject:
  assumes "list_all is_digit p" "list_all is_digit q"
  shows "with_port h p = with_port g q \<longleftrightarrow> h = g \<and> p = q"
proof -
  have "with_port h p = with_port g q \<longleftrightarrow> rev p @ CHR '':'' # rev h = rev q @ CHR '':'' # rev g"
    by (metis append.assoc append_Cons append_Nil rev.simps(2) rev_append rev_rev_ident with_port_def)
  then show ?thesis using assms colon_split [of "rev p" "rev q" "rev h" "rev g"] by (auto simp: no_colon_digits)
qed

lemma explicit_port_digits: "detectExplicitPort s = Some p \<Longrightarrow> all_digits p"
  by (auto simp: detectExplicitPort_def bracket_port_def colon_port_def Let_def split: if_splits option.splits)

lemma nth_rev_upt: "k < n \<Longrightarrow> rev [0..<n] ! k = n - Suc k"
  by (simp add: rev_nth)

lemma lastIndexOf_prefix: "lastIndexOf t s = Some i \<Longrightarrow> prefix t (drop i s)"
  unfolding lastIndexOf_def find_Some_iff by auto

lemma lastIndexOf_eq:
  assumes "prefix t (drop i s)" "i \<le> length s" "\<And>j. i < j \<Longrightarrow> j \<le> length s \<Longrightarrow> \<not> prefix t (drop j s)"
  shows "lastIndexOf t s = Some i"
  unfolding lastIndexOf_def find_Some_iff
proof (intro exI conjI allI impI)
  show "length s - i < length (rev [0..<Suc (length s)])" by simp
  show "i = rev [0..<Suc (length s)] ! (length s - i)" "prefix t (drop (rev [0..<Suc (length s)] ! (length s - i)) s)"
    using assms(1,2) by (simp_all add: nth_rev_upt del: upt_Suc)
  fix j assume "j < length s - i"
  then show "\<not> prefix t (drop (rev [0..<Suc (length s)] ! j) s)"
    using assms(3) [of "length s - j"] by (simp add: nth_rev_upt del: upt_Suc)
qed

lemma without_port_eq:
  assumes "CHR '':'' \<notin> set p" "CHR '':'' \<notin> set post"
  shows "without_port (g @ CHR '':'' # p @ post) p = g"
proof -
  have "lastIndexOf (CHR '':'' # p) (g @ CHR '':'' # p @ post) = Some (length g)"
  proof (rule lastIndexOf_eq)
    fix j assume "length g < j" "j \<le> length (g @ CHR '':'' # p @ post)"
    then have "set (drop j (g @ CHR '':'' # p @ post)) \<subseteq> set (p @ post)"
      by (cases "j - length g") (auto dest: in_set_dropD)
    with assms have "CHR '':'' \<notin> set (drop j (g @ CHR '':'' # p @ post))" by auto
    then show "\<not> prefix (CHR '':'' # p) (drop j (g @ CHR '':'' # p @ post))"
      by (metis list.set_intros(1) set_mono_prefix subsetD)
  qed simp_all
  then show ?thesis by (simp add: without_port_def)
qed

text \<open>A port that is detected in a text without slashes is at its end.\<close>

lemma strip_scheme_id: "CHR ''/'' \<notin> set s \<Longrightarrow> strip_scheme s = s"
  by (auto simp: strip_scheme_def Let_def prefix_def dest!: arg_cong [of "dropWhile scheme_char s" _ set] dest: set_dropWhileD)

lemma first_segment_id: "CHR ''/'' \<notin> set s \<Longrightarrow> first_segment s = s"
  by (auto simp: first_segment_def takeWhile_eq_all_conv)

lemma colon_port_at_end: "colon_port b = Some p \<Longrightarrow> \<exists>g. b = with_port g p"
proof -
  assume "colon_port b = Some p"
  then obtain i where "prefix '':'' (drop i b)" "p = drop (i + 1) b"
    by (auto simp: colon_port_def split: option.splits if_splits dest: lastIndexOf_prefix)
  then have "drop i b = CHR '':'' # p" by (cases "drop i b") (auto simp: drop_Suc simp flip: tl_drop)
  then have "b = with_port (take i b) p" by (metis append_take_drop_id with_port_def)
  then show ?thesis by blast
qed

lemma bracket_port_at_end: "bracket_port b = Some p \<Longrightarrow> \<exists>g. b = with_port g p"
proof -
  let ?rest = "dropWhile (\<lambda>c. c \<noteq> CHR '']'') b"
  assume b: "bracket_port b = Some p"
  then have "tl ?rest = CHR '':'' # p" "?rest \<noteq> []"
    by (auto simp: bracket_port_def Let_def prefix_def dropWhile_eq_Nil_conv split: if_splits)
  then have "?rest = [hd ?rest] @ CHR '':'' # p" by (cases ?rest) auto
  then have "b = with_port (takeWhile (\<lambda>c. c \<noteq> CHR '']'') b @ [hd ?rest]) p"
    unfolding with_port_def by (metis append.assoc takeWhile_dropWhile_id)
  then show ?thesis by blast
qed

lemma with_port_without:
  assumes port: "detectExplicitPort s = Some p" and s: "CHR ''/'' \<notin> set s" "lower_case s = s" "dropWhile is_space s = s"
  shows "with_port (without_port s p) p = trim s"
proof -
  obtain post where post: "s = trim s @ post" "list_all is_space post"
    using s(3) by (auto simp: trim_def intro!: that [of "rev (takeWhile is_space (rev s))"]
        simp flip: rev_append simp: list_all_iff dest: set_takeWhileD)
  have sub: "set (trim s) \<subseteq> set s" using post(1) by (metis Un_upper1 set_append)
  have low: "lower_case (trim s) = trim s"
    using s(2) post(1) by (metis append_eq_append_conv length_map map_append)
  have seg: "first_segment (strip_scheme (trim s)) = trim s"
    using sub s(1) by (metis first_segment_id strip_scheme_id subsetD)
  have p: "all_digits p" by (rule explicit_port_digits [OF port])
  obtain g where g: "trim s = with_port g p"
    using port by (auto simp: detectExplicitPort_def low seg Let_def split: if_splits option.splits
        dest!: colon_port_at_end bracket_port_at_end)
  have "CHR '':'' \<notin> set post" using post(2) by (auto simp: list_all_iff is_space_def)
  then have "without_port (g @ CHR '':'' # p @ post) p = g"
    using p no_colon_digits by (intro without_port_eq) (auto simp: all_digits_def)
  moreover have "g @ CHR '':'' # p @ post = s" using g post(1) by (simp add: with_port_def)
  ultimately show ?thesis using g by simp
qed

definition host_ok :: "string \<Rightarrow> bool" where
  "host_ok h \<longleftrightarrow> (CHR '':'' \<in> set h \<longrightarrow> last h = CHR '']'')"

lemma host_no_port: "host_ok h \<Longrightarrow> all_digits p \<Longrightarrow> h \<noteq> with_port g p"
proof
  assume "host_ok h" "all_digits p" "h = with_port g p"
  then have "last p = CHR '']''" "p \<noteq> []" by (auto simp: host_ok_def with_port_def all_digits_def)
  then have "CHR '']'' \<in> set p" using last_in_set by metis
  with \<open>all_digits p\<close> have "is_digit CHR '']''" by (auto simp: all_digits_def list_all_iff)
  then show False by (simp add: is_digit_def)
qed

lemma host_ok_lower: "host_ok h \<Longrightarrow> host_ok (lower_case h)"
  by (cases "h = []") (auto simp: host_ok_def last_map)

lemma default_port_digits: "map_of DEFAULT_PORTS s = Some p \<Longrightarrow> all_digits p"
  by (auto simp: DEFAULT_PORTS_def all_digits_def is_digit_def split: if_splits)

lemma lower_char_idem [simp]: "lower_char (lower_char c) = lower_char c"
  by (auto simp: lower_char_def Let_def)

lemma is_space_lower [simp]: "is_space (lower_char c) = is_space c"
  by (auto simp: lower_char_def is_space_def Let_def)

lemma first_segment_lower:
  "CHR ''/'' \<notin> set (first_segment s)" "lower_case (first_segment (lower_case s)) = first_segment (lower_case s)"
  "dropWhile is_space (first_segment (lower_case (trim s))) = first_segment (lower_case (trim s))"
proof -
  show "CHR ''/'' \<notin> set (first_segment s)" by (auto simp: first_segment_def dest: set_takeWhileD)
  show "lower_case (first_segment (lower_case s)) = first_segment (lower_case s)"
    unfolding first_segment_def by (induction s) auto
  show "dropWhile is_space (first_segment (lower_case (trim s))) = first_segment (lower_case (trim s))"
  proof (cases "trim s")
    case (Cons c cs)
    then have "\<not> is_space c" by (rule trim_head)
    with Cons show ?thesis by (simp add: first_segment_def)
  qed (simp add: first_segment_def)
qed

context url_constructor
begin

lemma parsed_host_ok:
  assumes "tryParseUrl URL_of s = Some u"
  shows "host_ok (lower_case (url_hostname u))" and "list_all is_digit (url_port u)"
proof -
  obtain s' where "URL_of s' = Some u"
    using assms by (auto simp: tryParseUrl_def parse_with_host_def split: option.splits if_splits)
  then have "host_ok (url_hostname u)" and "list_all is_digit (url_port u)"
    using port_digits hostname_colon by (auto simp: host_ok_def)
  then show "host_ok (lower_case (url_hostname u))" "list_all is_digit (url_port u)"
    by (simp_all add: host_ok_lower)
qed

lemma parsed_host:
  assumes "tryParseUrl URL_of s = Some u"
  shows "lower_case (url_host u) =
    (if url_port u = [] then lower_case (url_hostname u) else with_port (lower_case (url_hostname u)) (url_port u))"
  using parsed_host_ok(2) [OF assms] lower_digits [of "url_port u"]
  by (simp add: url_host_def with_port_def lower_char_def)

lemma url_port_or_digits:
  assumes "tryParseUrl URL_of s = Some u" "url_port_or u other = Some p" "\<And>q. other = Some q \<Longrightarrow> all_digits q"
  shows "all_digits p"
  using parsed_host_ok(2) [OF assms(1)] assms(2,3) by (auto simp: url_port_or_def all_digits_def split: if_splits)

lemma target_candidate:
  assumes u: "tryParseUrl URL_of (trim target) = Some u" and T: "T \<in> set (nt_candidates (buildTargetCandidates URL_of target))"
  shows "T = lower_case (trim target) \<or> T = lower_case (url_hostname u) \<or>
    (\<exists>p. nt_port (buildTargetCandidates URL_of target) = Some p \<and> T = with_port (lower_case (url_hostname u)) p)"
  using T u parsed_host [OF u]
  by (cases "nt_port (buildTargetCandidates URL_of target)")
    (auto simp: buildTargetCandidates_def Let_def url_port_or_def split: if_splits)

lemma target_port_digits:
  assumes u: "tryParseUrl URL_of (trim target) = Some u" and p: "nt_port (buildTargetCandidates URL_of target) = Some p"
  shows "all_digits p"
proof (rule url_port_or_digits [OF u])
  show "url_port_or u (or_else (detectExplicitPort (trim target)) (map_of DEFAULT_PORTS (url_protocol u))) = Some p"
    using p u by (simp add: buildTargetCandidates_def Let_def)
qed (auto simp: or_else_def explicit_port_digits default_port_digits split: option.splits)

lemma entry_candidate_parsed:
  assumes u: "tryParseUrl URL_of n = Some u" and ep: "ep = url_port_or u (detectExplicitPort n)"
    and E: "E \<in> set (case ep of
        Some p \<Rightarrow> with_port (lower_case (url_hostname u)) p # (if CHR '':'' \<in> set (lower_case (url_host u)) then [lower_case (url_host u)] else [])
      | None \<Rightarrow> lower_case (url_hostname u) # (if lower_case (url_host u) \<noteq> lower_case (url_hostname u) then [lower_case (url_host u)] else []))"
  shows "(\<exists>p. ep = Some p \<and> all_digits p \<and> E = with_port (lower_case (url_hostname u)) p) \<or>
    E = lower_case (url_hostname u) \<and> (ep = None \<or> CHR '':'' \<in> set E)"
proof (cases ep)
  case None
  then have "url_port u = []" using ep by (auto simp: url_port_or_def split: if_splits)
  with None E show ?thesis by (simp add: parsed_host [OF u])
next
  case (Some p)
  then have "all_digits p" using url_port_or_digits [OF u, of "detectExplicitPort n" p] ep explicit_port_digits by auto
  with Some E ep show ?thesis by (auto simp: parsed_host [OF u] url_port_or_def split: if_splits)
qed

text \<open>An entry candidate that is a target candidate names the target.\<close>

lemma common_candidate:
  assumes u: "tryParseUrl URL_of (trim target) = Some u"
    and T: "E \<in> set (nt_candidates (buildTargetCandidates URL_of target))"
    and E: "E \<in> set (ae_candidates (tryParseAllowEntry URL_of e))"
  defines "h \<equiv> lower_case (url_hostname u)" and "port \<equiv> nt_port (buildTargetCandidates URL_of target)"
  shows "names_host URL_of (lower_case (trim e)) h port \<or> E = lower_case (trim target)"
proof -
  let ?n = "lower_case (trim e)"
  have T': "E = lower_case (trim target) \<or> E = h \<or> (\<exists>p. port = Some p \<and> all_digits p \<and> E = with_port h p)"
    using target_candidate [OF u T] target_port_digits [OF u] by (auto simp: h_def port_def)
  have entry_text: "with_port (without_port (first_segment ?n) p) p = trim (first_segment ?n)"
    if "detectExplicitPort (first_segment ?n) = Some p" for p
    using that by (rule with_port_without) (simp_all add: first_segment_lower)
  have ok: "host_ok h" using parsed_host_ok(1) [OF u] by (simp add: h_def)
  consider "E \<in> {?n, first_segment ?n, trim (first_segment ?n)}"
    | u' where "tryParseUrl URL_of ?n = Some u'" "E \<in> set (case url_port_or u' (detectExplicitPort ?n) of
        Some p \<Rightarrow> with_port (lower_case (url_hostname u')) p # (if CHR '':'' \<in> set (lower_case (url_host u')) then [lower_case (url_host u')] else [])
      | None \<Rightarrow> lower_case (url_hostname u') # (if lower_case (url_host u') \<noteq> lower_case (url_hostname u') then [lower_case (url_host u')] else []))"
    using E entry_text by (auto simp: tryParseAllowEntry_def Let_def split: if_splits option.splits)
  then show ?thesis
  proof cases
    case 1
    with T' show ?thesis by (auto simp: names_host_def)
  next
    case (2 u')
    let ?h = "lower_case (url_hostname u')"
    have "?h = h \<and> (url_port_or u' (detectExplicitPort ?n) = None \<or> url_port_or u' (detectExplicitPort ?n) = port \<or>
        CHR '':'' \<in> set h) \<or> E = lower_case (trim target)"
      using entry_candidate_parsed [OF 2(1) refl 2(2)] T' host_no_port [OF ok] host_no_port [OF parsed_host_ok(1) [OF 2(1)]]
      by (auto simp: all_digits_def with_port_inject)
    with 2(1) show ?thesis by (auto simp: names_host_def Let_def)
  qed
qed

lemma allowed_target:
  assumes u: "tryParseUrl URL_of (trim target) = Some u"
    and allowed: "isAllowedTarget URL_of (buildTargetCandidates URL_of target) allow"
  defines "h \<equiv> lower_case (url_hostname u)" and "port \<equiv> nt_port (buildTargetCandidates URL_of target)"
    and "t \<equiv> lower_case (trim target)"
  shows "\<exists>e\<in>set allow. names_wildcard (tryParseAllowEntry URL_of e) t h port \<or>
    names_host URL_of (lower_case (trim e)) h port \<or> t \<in> set (ae_candidates (tryParseAllowEntry URL_of e))"
  using allowed
proof (induction allow)
  case (Cons e allow)
  let ?A = "tryParseAllowEntry URL_of e" and ?T = "buildTargetCandidates URL_of target"
  have host: "nt_hostname ?T = Some h" using u by (simp add: buildTargetCandidates_def Let_def h_def)
  consider E where "E \<in> set (ae_candidates ?A)" "E \<in> set (nt_candidates ?T)" | "ae_hostname ?A = Some ''*''"
    | "suffix_matches ?T ?A" | "isAllowedTarget URL_of ?T allow"
    using Cons.prems by (auto simp: Let_def list_ex_iff split: if_splits)
  then show ?case
  proof cases
    case (1 E)
    with common_candidate [OF u 1(2,1)] show ?thesis by (auto simp: h_def port_def t_def)
  next
    case 2
    then show ?thesis by (auto simp: names_wildcard_def)
  next
    case 3
    have "t = with_port h p \<or> port = Some p" if "with_port h p \<in> set (nt_candidates ?T)" "ae_suffixPort ?A = Some p" for p
    proof -
      have p: "all_digits p"
        using that(2) by (auto simp: tryParseAllowEntry_def Let_def explicit_port_digits split: if_splits option.splits)
      from target_candidate [OF u that(1)] target_port_digits [OF u] p show ?thesis
        using host_no_port [OF parsed_host_ok(1) [OF u] p, of h]
        by (auto simp: h_def port_def t_def all_digits_def with_port_inject)
    qed
    with 3 have "names_wildcard ?A t h port"
      by (auto simp: suffix_matches_def names_wildcard_def host port_def [symmetric] split: option.splits)
    then show ?thesis by auto
  next
    case 4
    with Cons.IH show ?thesis by auto
  qed
qed simp

end


text \<open>Conversely, a URL whose host name an entry without wildcard and port has is let through.\<close>

lemma allowed_by_entry:
  assumes "e \<in> set allow" "E \<in> set (ae_candidates (tryParseAllowEntry URL_of e))" "E \<in> set (nt_candidates target)"
  shows "isAllowedTarget URL_of target allow"
  using assms by (induction allow) (auto simp: Let_def list_ex_iff)

lemma listed_host_allowed:
  assumes "e \<in> set (ne_allow config)" and n: "n = lower_case (trim e)" "\<not> prefix ''*'' n"
    and u': "tryParseUrl URL_of n = Some u'" "url_port_or u' (detectExplicitPort n) = None"
    and u: "tryParseUrl URL_of (trim target) = Some u" "lower_case (url_hostname u) = lower_case (url_hostname u')"
    and "trim target \<noteq> []"
  shows "ensureEgressAllowed URL_of config target = Inr ()"
proof -
  have "lower_case (url_hostname u) \<in> set (ae_candidates (tryParseAllowEntry URL_of e))"
    using n u' u(2) by (auto simp: tryParseAllowEntry_def Let_def)
  moreover have "lower_case (url_hostname u) \<in> set (nt_candidates (buildTargetCandidates URL_of target))"
    using u(1) by (simp add: buildTargetCandidates_def Let_def)
  ultimately have "isAllowedTarget URL_of (buildTargetCandidates URL_of target) (ne_allow config)"
    using allowed_by_entry assms(1) by blast
  moreover have "target \<noteq> []" using \<open>trim target \<noteq> []\<close> by (auto simp: trim_def)
  ultimately show ?thesis using \<open>trim target \<noteq> []\<close> by (simp add: ensureEgressAllowed_def)
qed

section \<open>Plain URLs\<close>

text \<open>The constructor on URLs with a scheme and a plain authority: a name of letters, digits and the
  characters \<^verbatim>\<open>.-*\<close>, or an address in brackets, and possibly a port.  The port that the scheme implies is dropped.
  Other texts are rejected.\<close>

definition host_char :: "char \<Rightarrow> bool" where
  "host_char c \<longleftrightarrow> (of_char c :: nat) \<in> {97..122} \<or> is_digit c \<or> c \<in> set ''.-*''"

definition split_authority :: "string \<Rightarrow> (string \<times> string) option" where
  "split_authority a =
     (if prefix ''['' a then
        let inner = takeWhile (\<lambda>c. c \<noteq> CHR '']'') a; rest = dropWhile (\<lambda>c. c \<noteq> CHR '']'') a
        in if rest = [] then None else Some (inner @ '']'', tl rest)
      else let name = takeWhile host_char a
           in if name = [] then None else Some (name, dropWhile host_char a))"

definition plain_url :: "string \<Rightarrow> URL option" where
  "plain_url s =
     (let l = lower_case s; scheme = takeWhile scheme_char l; rest = dropWhile scheme_char l
      in if scheme = [] \<or> \<not> prefix ''://'' rest then None
         else case split_authority (takeWhile (\<lambda>c. c \<notin> set ''/?#'') (drop 3 rest)) of
           None \<Rightarrow> None
         | Some (host, p) \<Rightarrow>
             if p = [] \<or> p = '':'' then Some \<lparr>url_protocol = scheme @ '':'', url_hostname = host, url_port = []\<rparr>
             else if prefix '':'' p \<and> list_all is_digit (tl p)
             then Some \<lparr>url_protocol = scheme @ '':'', url_hostname = host,
                        url_port = (if map_of DEFAULT_PORTS (scheme @ '':'') = Some (tl p) then [] else tl p)\<rparr>
             else None)"

lemma split_authority_host: "split_authority a = Some (h, p) \<Longrightarrow> CHR '':'' \<in> set h \<Longrightarrow> last h = CHR '']''"
  by (auto simp: split_authority_def Let_def host_char_def is_digit_def split: if_splits dest: set_takeWhileD)

interpretation plain: url_constructor plain_url
proof
  fix s u assume s: "plain_url s = Some u"
  show "list_all is_digit (url_port u)"
    using s by (auto simp: plain_url_def Let_def split: if_splits option.splits)
  obtain a p where "split_authority a = Some (url_hostname u, p)"
    using s by (auto simp: plain_url_def Let_def split: if_splits option.splits)
  then show "CHR '':'' \<in> set (url_hostname u) \<Longrightarrow> last (url_hostname u) = CHR '']''"
    by (rule split_authority_host)
qed

definition demo_egress :: NetworkEgressConfig where
  "demo_egress = \<lparr>ne_mode = Enforce, ne_allow = [''localhost'', ''*.example.com:8443'']\<rparr>"

definition demo_target :: string where
  "demo_target = ''https://a.example.com:8443/v1''"


text \<open>The tests of the guard: a wildcard, a host that is not listed, a port that does not match, report mode.\<close>

lemma egress_samples:
  "ensureEgressAllowed plain_url \<lparr>ne_mode = Enforce, ne_allow = [''*.io'']\<rparr> ''https://a.io/v1'' = Inr ()"
  "ensureEgressAllowed plain_url \<lparr>ne_mode = Enforce, ne_allow = [''localhost'']\<rparr> ''https://b.io'' =
     Inl (EgressBlocked ''https://b.io'')"
  "ensureEgressAllowed plain_url \<lparr>ne_mode = Enforce, ne_allow = [''a.io:8443'']\<rparr> ''https://a.io'' =
     Inl (EgressBlocked ''https://a.io'')"
  "ensureEgressAllowed plain_url \<lparr>ne_mode = ReportOnly, ne_allow = []\<rparr> ''https://b.io'' = Inr ()"
  by code_simp+

text \<open>The port is searched in the text up to the first slash, so a query or a fragment supplies it: the
  connection goes to port 443.\<close>

lemma egress_port_from_query:
  "ensureEgressAllowed plain_url \<lparr>ne_mode = Enforce, ne_allow = [''a.io:8443'']\<rparr> ''https://a.io?x=:8443'' = Inr ()"
  "map_option url_port (tryParseUrl plain_url ''https://a.io?x=:8443'') = Some []"
  by code_simp+

text \<open>An address in brackets contains colons, so an entry with the port its scheme implies admits every port.\<close>

lemma egress_address_port_ignored:
  "ensureEgressAllowed plain_url \<lparr>ne_mode = Enforce, ne_allow = [''[::1]:443'']\<rparr> ''http://[::1]:8080/'' = Inr ()"
  "ensureEgressAllowed plain_url \<lparr>ne_mode = Enforce, ne_allow = [''[::1]:444'']\<rparr> ''http://[::1]:8080/'' =
     Inl (EgressBlocked ''http://[::1]:8080/'')"
  by code_simp+

end
