(* ===== verification/Tools.thy ===== *)
theory Tools
  imports Json_Text "HOL-Library.Sublist"
begin

text \<open>
  \<^verbatim>\<open>tools/McpTool.ts\<close> and \<^verbatim>\<open>tools/ToolRegistry.ts\<close>: tools, their execution with validation and approval, and the
  registry with its statistics.  Tools, registry entries and statistics are objects that are shared by
  reference, so each kind has a store and a reference is a position in it.  An execution is suspended at the request for
  approval and at the implementation of the tool, and a reload at the clean-up of the old tool; what follows are
  operations of their own.
\<close>

section \<open>Tools\<close>

datatype ToolCapability =
    READ_FILES | WRITE_FILES | EXECUTE_COMMANDS | NETWORK_ACCESS | DATABASE_ACCESS | BROWSER_AUTOMATION
  | GIT_OPERATIONS | SYSTEM_MODIFICATION | CREDENTIAL_ACCESS | LONG_RUNNING | SCREENSHOT | ISOLATED_EXECUTION

datatype SandboxType = CONTAINER | WASM

record SandboxCapabilities =
  sc_filesystem :: bool
  sc_network :: bool
  sc_heavyCompute :: bool
  sc_externalBinaries :: bool
  sc_maxMemory :: "int option"
  sc_maxExecutionTime :: "int option"

definition selectSandboxType :: "SandboxCapabilities \<Rightarrow> SandboxType" where
  "selectSandboxType c =
     (if sc_filesystem c \<or> sc_network c \<or> sc_externalBinaries c \<or> sc_heavyCompute c \<or>
        (case sc_maxMemory c of None \<Rightarrow> False | Some m \<Rightarrow> m \<noteq> 0 \<and> m > 1024 * 1024 * 1024)
      then CONTAINER else WASM)"

record ToolSchema =
  ts_type :: string
  ts_properties :: "(string \<times> json) list"
  ts_required :: "string list option"

record ToolMetadata =
  tm_id :: string
  tm_name :: string
  tm_description :: string
  tm_version :: string
  tm_capabilities :: "ToolCapability list"
  tm_inputSchema :: ToolSchema
  tm_outputSchema :: "ToolSchema option"
  tm_requiresApproval :: bool
  tm_sandboxType :: SandboxType
  tm_sandboxCapabilities :: SandboxCapabilities
  tm_tags :: "string list option"

definition createToolMetadata ::
  "string \<Rightarrow> string \<Rightarrow> string \<Rightarrow> string option \<Rightarrow> ToolCapability list \<Rightarrow> ToolSchema \<Rightarrow> ToolSchema option \<Rightarrow> bool option \<Rightarrow>
   SandboxType option \<Rightarrow> string list option \<Rightarrow> ToolMetadata" where
  "createToolMetadata i name description version capabilities inputSchema outputSchema requiresApproval sandboxType tags =
     \<lparr>tm_id = i, tm_name = name, tm_description = description,
      tm_version = (case version of None \<Rightarrow> ''1.0.0'' | Some v \<Rightarrow> if v = [] then ''1.0.0'' else v),
      tm_capabilities = capabilities, tm_inputSchema = inputSchema, tm_outputSchema = outputSchema,
      tm_requiresApproval = (requiresApproval = Some True),
      tm_sandboxType = (case sandboxType of None \<Rightarrow> WASM | Some s \<Rightarrow> s),
      tm_sandboxCapabilities = \<lparr>sc_filesystem = False, sc_network = False, sc_heavyCompute = False, sc_externalBinaries = False,
        sc_maxMemory = Some (512 * 1024 * 1024), sc_maxExecutionTime = Some 60000\<rparr>,
      tm_tags = tags\<rparr>"

type_synonym tool_input = "(string \<times> json) list"

definition field_missing :: "tool_input \<Rightarrow> string \<Rightarrow> bool" where
  "field_missing inp f = (case map_of inp f of None \<Rightarrow> True | Some v \<Rightarrow> \<not> truthy v)"

definition validateInput :: "ToolMetadata \<Rightarrow> tool_input \<Rightarrow> string + unit" where
  "validateInput m inp =
     (case ts_required (tm_inputSchema m) of
        None \<Rightarrow> Inr ()
      | Some fs \<Rightarrow> (case List.find (field_missing inp) fs of
           None \<Rightarrow> Inr ()
         | Some f \<Rightarrow> Inl (''Missing required field: '' @ f)))"

definition hasCapability :: "ToolMetadata \<Rightarrow> ToolCapability \<Rightarrow> bool" where
  "hasCapability m c \<longleftrightarrow> c \<in> set (tm_capabilities m)"

record ToolResult =
  tr_success :: bool
  tr_data :: "json option"
  tr_error :: "string option"
  tr_duration :: int

datatype exec_phase = AwaitApproval | ToolRunning | ToolFinished ToolResult

text \<open>An execution; the last two fields record the answer to the request for approval and whether the
  implementation was called.\<close>

record ToolExecution =
  te_tool :: nat
  te_input :: tool_input
  te_callback :: bool
  te_startTime :: time
  te_phase :: exec_phase
  te_approved :: "bool option"
  te_ran :: bool

section \<open>The registry\<close>

record ToolStats =
  st_executions :: int
  st_failures :: int
  st_totalDuration :: int
  st_lastExecuted :: "time option"

record ToolEntry =
  en_tool :: nat
  en_enabled :: bool
  en_registeredAt :: time
  en_stats :: nat

text \<open>The tools in existence, who listens to them and for which identifier, the map of the registry and the objects
  it refers to, executions, and the reloads that wait for a clean-up.\<close>

record tool_world =
  tw_meta :: "ToolMetadata list"
  tw_listeners :: "(nat \<times> string) list"
  tw_tools :: "(string, nat) jsmap"
  tw_entries :: "ToolEntry list"
  tw_stats :: "ToolStats list"
  tw_execs :: "ToolExecution list"
  tw_reloads :: "(nat, string \<times> nat \<times> nat) jsmap"

definition new_tool_world :: "ToolMetadata list \<Rightarrow> tool_world" where
  "new_tool_world ms = \<lparr>tw_meta = ms, tw_listeners = [], tw_tools = [], tw_entries = [], tw_stats = [], tw_execs = [], tw_reloads = []\<rparr>"

definition register_tool :: "time \<Rightarrow> nat \<Rightarrow> bool option \<Rightarrow> bool option \<Rightarrow> tool_world \<Rightarrow> string + tool_world" where
  "register_tool now t allowOverwrite enabled w =
     (let i = tm_id (tw_meta w ! t)
      in if map_of (tw_tools w) i \<noteq> None \<and> allowOverwrite \<noteq> Some True
         then Inl (''Tool with id '' @ [CHR 0x27] @ i @ [CHR 0x27] @ '' already registered'')
         else Inr (w\<lparr>tw_stats := tw_stats w @ [\<lparr>st_executions = 0, st_failures = 0, st_totalDuration = 0, st_lastExecuted = None\<rparr>],
                tw_entries := tw_entries w @ [\<lparr>en_tool = t, en_enabled = (enabled \<noteq> Some False), en_registeredAt = now,
                  en_stats = length (tw_stats w)\<rparr>],
                tw_tools := jset i (length (tw_entries w)) (tw_tools w),
                tw_listeners := tw_listeners w @ [(t, i)]\<rparr>))"

definition unregister_tool :: "string \<Rightarrow> tool_world \<Rightarrow> tool_world \<times> bool" where
  "unregister_tool i w =
     (case map_of (tw_tools w) i of
        None \<Rightarrow> (w, False)
      | Some e \<Rightarrow> (w\<lparr>tw_tools := jdelete i (tw_tools w)\<rparr>, True))"

definition tool_get :: "string \<Rightarrow> tool_world \<Rightarrow> nat option" where
  "tool_get i w =
     (case map_of (tw_tools w) i of
        None \<Rightarrow> None
      | Some e \<Rightarrow> if en_enabled (tw_entries w ! e) then Some (en_tool (tw_entries w ! e)) else None)"

definition tool_getMetadata :: "string \<Rightarrow> tool_world \<Rightarrow> ToolMetadata option" where
  "tool_getMetadata i w = map_option ((!) (tw_meta w)) (tool_get i w)"

definition entries_of :: "tool_world \<Rightarrow> ToolEntry list" where
  "entries_of w = map ((!) (tw_entries w)) (jvalues (tw_tools w))"

definition list_tools :: "bool \<Rightarrow> tool_world \<Rightarrow> ToolMetadata list" where
  "list_tools enabledOnly w =
     map (\<lambda>e. tw_meta w ! en_tool e) (filter (\<lambda>e. \<not> enabledOnly \<or> en_enabled e) (entries_of w))"

definition findByCapability :: "ToolCapability \<Rightarrow> tool_world \<Rightarrow> ToolMetadata list" where
  "findByCapability c w = filter (\<lambda>m. hasCapability m c) (list_tools True w)"

definition findByTag :: "string \<Rightarrow> tool_world \<Rightarrow> ToolMetadata list" where
  "findByTag tag w = filter (\<lambda>m. case tm_tags m of None \<Rightarrow> False | Some ts \<Rightarrow> tag \<in> set ts) (list_tools True w)"

definition search_tools :: "string \<Rightarrow> tool_world \<Rightarrow> ToolMetadata list" where
  "search_tools q w =
     (let lowerQuery = lower_case q
      in filter (\<lambda>m. sublist lowerQuery (lower_case (tm_name m)) \<or> sublist lowerQuery (lower_case (tm_description m))) (list_tools True w))"

definition set_enabled :: "bool \<Rightarrow> string \<Rightarrow> tool_world \<Rightarrow> tool_world \<times> bool" where
  "set_enabled b i w =
     (case map_of (tw_tools w) i of
        None \<Rightarrow> (w, False)
      | Some e \<Rightarrow> (w\<lparr>tw_entries := (tw_entries w)[e := (tw_entries w ! e)\<lparr>en_enabled := b\<rparr>]\<rparr>, True))"

definition tool_isEnabled :: "string \<Rightarrow> tool_world \<Rightarrow> bool" where
  "tool_isEnabled i w = (case map_of (tw_tools w) i of None \<Rightarrow> False | Some e \<Rightarrow> en_enabled (tw_entries w ! e))"

definition getToolStats :: "string \<Rightarrow> tool_world \<Rightarrow> ToolStats option" where
  "getToolStats i w = map_option (\<lambda>e. tw_stats w ! en_stats (tw_entries w ! e)) (map_of (tw_tools w) i)"

definition recordExecution :: "time \<Rightarrow> string \<Rightarrow> int \<Rightarrow> bool \<Rightarrow> tool_world \<Rightarrow> tool_world" where
  "recordExecution now i duration success w =
     (case map_of (tw_tools w) i of
        None \<Rightarrow> w
      | Some e \<Rightarrow>
          let r = en_stats (tw_entries w ! e); s = tw_stats w ! r
          in w\<lparr>tw_stats := (tw_stats w)[r := s\<lparr>st_executions := st_executions s + 1, st_totalDuration := st_totalDuration s + duration,
                 st_lastExecuted := Some now, st_failures := (if success then st_failures s else st_failures s + 1)\<rparr>]\<rparr>)"

record RegistryStats =
  gs_totalTools :: int
  gs_enabledTools :: int
  gs_disabledTools :: int
  gs_totalExecutions :: int
  gs_totalFailures :: int

definition getRegistryStats :: "tool_world \<Rightarrow> RegistryStats" where
  "getRegistryStats w =
     (let enabled = int (length (filter en_enabled (entries_of w)))
      in \<lparr>gs_totalTools = int (length (tw_tools w)), gs_enabledTools = enabled,
          gs_disabledTools = int (length (tw_tools w)) - enabled,
          gs_totalExecutions = (\<Sum>e\<leftarrow>entries_of w. st_executions (tw_stats w ! en_stats e)),
          gs_totalFailures = (\<Sum>e\<leftarrow>entries_of w. st_failures (tw_stats w ! en_stats e))\<rparr>)"

definition clear_tools :: "tool_world \<Rightarrow> tool_world" where
  "clear_tools w = fold (\<lambda>i w. fst (unregister_tool i w)) (jkeys (tw_tools w)) w"

definition reload_begin :: "nat \<Rightarrow> string \<Rightarrow> nat \<Rightarrow> tool_world \<Rightarrow> tool_world" where
  "reload_begin c i newTool w =
     (case map_of (tw_tools w) i of
        None \<Rightarrow> w
      | Some old \<Rightarrow> w\<lparr>tw_reloads := jset c (i, old, newTool) (tw_reloads w)\<rparr>)"

definition reload_finish :: "time \<Rightarrow> nat \<Rightarrow> tool_world \<Rightarrow> tool_world" where
  "reload_finish now c w =
     (case map_of (tw_reloads w) c of
        None \<Rightarrow> w
      | Some (i, old, newTool) \<Rightarrow>
          w\<lparr>tw_reloads := jdelete c (tw_reloads w),
            tw_entries := tw_entries w @ [\<lparr>en_tool = newTool, en_enabled = en_enabled (tw_entries w ! old), en_registeredAt = now,
              en_stats = en_stats (tw_entries w ! old)\<rparr>],
            tw_tools := jset i (length (tw_entries w)) (tw_tools w),
            tw_listeners := tw_listeners w @ [(newTool, i)]\<rparr>)"

definition metadata_errors :: "ToolMetadata \<Rightarrow> string list" where
  "metadata_errors m =
     (if tm_id m = [] then [''Missing tool ID''] else []) @ (if tm_name m = [] then [''Missing tool name''] else []) @
     (if tm_capabilities m = [] then [''No capabilities defined''] else [])"

definition validate_tools :: "tool_world \<Rightarrow> (string, string list) jsmap" where
  "validate_tools w =
     filter (\<lambda>(i, es). es \<noteq> []) (map (\<lambda>(i, e). (i, metadata_errors (tw_meta w ! en_tool (tw_entries w ! e)))) (tw_tools w))"

section \<open>Execution\<close>

text \<open>The end of an execution calls every listener of its tool, in the order of subscription.\<close>

definition finish_execution :: "time \<Rightarrow> nat \<Rightarrow> string + json \<Rightarrow> tool_world \<Rightarrow> tool_world" where
  "finish_execution now x res w =
     (let ex = tw_execs w ! x;
          duration = now - te_startTime ex;
          result = (case res of
             Inl e \<Rightarrow> \<lparr>tr_success = False, tr_data = None, tr_error = Some e, tr_duration = duration\<rparr>
           | Inr d \<Rightarrow> \<lparr>tr_success = True, tr_data = Some d, tr_error = None, tr_duration = duration\<rparr>);
          ids = map snd (filter (\<lambda>(t, i). t = te_tool ex) (tw_listeners w));
          w = w\<lparr>tw_execs := (tw_execs w)[x := ex\<lparr>te_phase := ToolFinished result\<rparr>]\<rparr>
      in fold (\<lambda>i. recordExecution now i (if isl res then 0 else duration) (\<not> isl res)) ids w)"

definition call_implementation :: "nat \<Rightarrow> tool_world \<Rightarrow> tool_world" where
  "call_implementation x w = w\<lparr>tw_execs := (tw_execs w)[x := (tw_execs w ! x)\<lparr>te_phase := ToolRunning, te_ran := True\<rparr>]\<rparr>"

definition execute_tool :: "time \<Rightarrow> nat \<Rightarrow> tool_input \<Rightarrow> bool \<Rightarrow> tool_world \<Rightarrow> tool_world" where
  "execute_tool now t inp callback w =
     (let m = tw_meta w ! t; x = length (tw_execs w);
          w = w\<lparr>tw_execs := tw_execs w @ [\<lparr>te_tool = t, te_input = inp, te_callback = callback, te_startTime = now,
            te_phase = AwaitApproval, te_approved = None, te_ran = False\<rparr>]\<rparr>
      in case validateInput m inp of
           Inl e \<Rightarrow> finish_execution now x (Inl e) w
         | Inr _ \<Rightarrow> if tm_requiresApproval m \<and> callback then w else call_implementation x w)"

text \<open>The answer of \<^verbatim>\<open>requestApproval\<close>, or its error, and the answer of \<^verbatim>\<open>executeImpl\<close>.\<close>

definition approval_answered :: "time \<Rightarrow> nat \<Rightarrow> string + bool \<Rightarrow> tool_world \<Rightarrow> tool_world" where
  "approval_answered now x ans w =
     (if x < length (tw_execs w) \<and> te_phase (tw_execs w ! x) = AwaitApproval then
        (case ans of
           Inl e \<Rightarrow> finish_execution now x (Inl e) w
         | Inr approved \<Rightarrow>
             let w = w\<lparr>tw_execs := (tw_execs w)[x := (tw_execs w ! x)\<lparr>te_approved := Some approved\<rparr>]\<rparr>
             in if \<not> approved then finish_execution now x (Inl ''Tool execution denied by user'') w else call_implementation x w)
      else w)"

definition implementation_done :: "time \<Rightarrow> nat \<Rightarrow> string + json \<Rightarrow> tool_world \<Rightarrow> tool_world" where
  "implementation_done now x res w =
     (if x < length (tw_execs w) \<and> te_phase (tw_execs w ! x) = ToolRunning then finish_execution now x res w else w)"

datatype tool_event =
    RegisterTool time nat "bool option" "bool option" | UnregisterTool string | EnableTool bool string | ClearTools
  | ReloadBegin nat string nat | ReloadFinish time nat | ExecuteTool time nat tool_input bool
  | ApprovalAnswered time nat "string + bool" | ImplementationDone time nat "string + json"

fun tool_step :: "tool_event \<Rightarrow> tool_world \<Rightarrow> tool_world" where
  "tool_step (RegisterTool now t ow en) w = (case register_tool now t ow en w of Inl e \<Rightarrow> w | Inr w' \<Rightarrow> w')"
| "tool_step (UnregisterTool i) w = fst (unregister_tool i w)"
| "tool_step (EnableTool b i) w = fst (set_enabled b i w)"
| "tool_step ClearTools w = clear_tools w"
| "tool_step (ReloadBegin c i t) w = reload_begin c i t w"
| "tool_step (ReloadFinish now c) w = reload_finish now c w"
| "tool_step (ExecuteTool now t inp callback) w = execute_tool now t inp callback w"
| "tool_step (ApprovalAnswered now x ans) w = approval_answered now x ans w"
| "tool_step (ImplementationDone now x res) w = implementation_done now x res w"

definition tool_run :: "ToolMetadata list \<Rightarrow> tool_event list \<Rightarrow> tool_world" where
  "tool_run ms es = fold tool_step es (new_tool_world ms)"

section \<open>Validation and approval\<close>

definition exec_ok :: "ToolMetadata list \<Rightarrow> ToolExecution \<Rightarrow> bool" where
  "exec_ok ms ex \<longleftrightarrow>
     (te_ran ex \<longrightarrow> validateInput (ms ! te_tool ex) (te_input ex) = Inr () \<and>
        (tm_requiresApproval (ms ! te_tool ex) \<and> te_callback ex \<longrightarrow> te_approved ex = Some True)) \<and>
     (case te_phase ex of
        AwaitApproval \<Rightarrow> validateInput (ms ! te_tool ex) (te_input ex) = Inr () \<and> \<not> te_ran ex
      | ToolRunning \<Rightarrow> te_ran ex
      | ToolFinished r \<Rightarrow> tr_success r \<longrightarrow> te_ran ex)"

definition execs_ok :: "tool_world \<Rightarrow> bool" where
  "execs_ok w \<longleftrightarrow> (\<forall>ex\<in>set (tw_execs w). exec_ok (tw_meta w) ex)"

definition stats_ok :: "tool_world \<Rightarrow> bool" where
  "stats_ok w \<longleftrightarrow> (\<forall>s\<in>set (tw_stats w). 0 \<le> st_failures s \<and> st_failures s \<le> st_executions s)"

definition refs_ok :: "tool_world \<Rightarrow> bool" where
  "refs_ok w \<longleftrightarrow> (\<forall>e\<in>set (tw_entries w). en_stats e < length (tw_stats w)) \<and>
     (\<forall>(i, e)\<in>set (tw_tools w). e < length (tw_entries w)) \<and>
     (\<forall>(c, i, old, t)\<in>set (tw_reloads w). old < length (tw_entries w))"

definition tools_inv :: "tool_world \<Rightarrow> bool" where
  "tools_inv w \<longleftrightarrow> execs_ok w \<and> stats_ok w \<and> refs_ok w"

lemma recordExecution_fields [simp]:
  "tw_meta (recordExecution now i d b w) = tw_meta w" "tw_execs (recordExecution now i d b w) = tw_execs w"
  "tw_entries (recordExecution now i d b w) = tw_entries w" "tw_tools (recordExecution now i d b w) = tw_tools w"
  "tw_reloads (recordExecution now i d b w) = tw_reloads w" "tw_listeners (recordExecution now i d b w) = tw_listeners w"
  "length (tw_stats (recordExecution now i d b w)) = length (tw_stats w)"
  by (simp_all add: recordExecution_def Let_def split: option.split)

lemma recordExecution_stats_ok: "stats_ok w \<Longrightarrow> stats_ok (recordExecution now i d b w)"
proof (cases "map_of (tw_tools w) i")
  case (Some e)
  let ?r = "en_stats (tw_entries w ! e)"
  assume ok: "stats_ok w"
  show ?thesis
  proof (cases "?r < length (tw_stats w)")
    case True
    then have "0 \<le> st_failures (tw_stats w ! ?r)" "st_failures (tw_stats w ! ?r) \<le> st_executions (tw_stats w ! ?r)"
      using ok by (auto simp: stats_ok_def)
    with ok Some show ?thesis
      by (auto simp: recordExecution_def Let_def stats_ok_def dest!: set_update_subset_insert [THEN subsetD])
  next
    case False
    with ok Some show ?thesis by (simp add: recordExecution_def Let_def stats_ok_def list_update_beyond)
  qed
qed (simp add: recordExecution_def)

lemma recordExecution_inv: "tools_inv w \<Longrightarrow> tools_inv (recordExecution now i d b w)"
  by (simp add: tools_inv_def execs_ok_def refs_ok_def recordExecution_stats_ok)

lemma record_all_inv: "tools_inv w \<Longrightarrow> tools_inv (fold (\<lambda>i. recordExecution now i d b) ids w)"
  by (induction ids arbitrary: w) (simp_all add: recordExecution_inv)

text \<open>Replacing an execution by one that is in order keeps the invariant.\<close>

lemma update_exec_inv:
  "tools_inv w \<Longrightarrow> exec_ok (tw_meta w) ex \<Longrightarrow> tools_inv (w\<lparr>tw_execs := (tw_execs w)[x := ex]\<rparr>)"
  by (auto simp: tools_inv_def execs_ok_def stats_ok_def refs_ok_def dest!: set_update_subset_insert [THEN subsetD])

lemma exec_okD: "tools_inv w \<Longrightarrow> x < length (tw_execs w) \<Longrightarrow> exec_ok (tw_meta w) (tw_execs w ! x)"
  by (simp add: tools_inv_def execs_ok_def)

lemma finish_execution_inv:
  assumes "tools_inv w" "x < length (tw_execs w)" "isl res \<or> te_ran (tw_execs w ! x)"
  shows "tools_inv (finish_execution now x res w)"
  unfolding finish_execution_def Let_def
  using assms exec_okD [OF assms(1,2)]
  by (intro record_all_inv update_exec_inv) (auto simp: exec_ok_def split: sum.split)

lemma call_implementation_inv:
  assumes "tools_inv w" "x < length (tw_execs w)" "te_phase (tw_execs w ! x) = AwaitApproval"
    "tm_requiresApproval (tw_meta w ! te_tool (tw_execs w ! x)) \<and> te_callback (tw_execs w ! x) \<longrightarrow> te_approved (tw_execs w ! x) = Some True"
  shows "tools_inv (call_implementation x w)"
  unfolding call_implementation_def
  using assms exec_okD [OF assms(1,2)] by (intro update_exec_inv) (auto simp: exec_ok_def)

lemma execute_tool_inv:
  assumes inv: "tools_inv w"
  shows "tools_inv (execute_tool now t inp callback w)"
proof -
  let ?ex = "\<lparr>te_tool = t, te_input = inp, te_callback = callback, te_startTime = now, te_phase = AwaitApproval,
    te_approved = None, te_ran = False\<rparr>"
  let ?w = "w\<lparr>tw_execs := tw_execs w @ [?ex]\<rparr>"
  show ?thesis
  proof (cases "validateInput (tw_meta w ! t) inp")
    case (Inl e)
    have "execute_tool now t inp callback w = finish_execution now (length (tw_execs w)) (Inl e) ?w"
      using Inl by (simp add: execute_tool_def Let_def)
    moreover have "tools_inv (finish_execution now (length (tw_execs w)) (Inl e) ?w)"
      unfolding finish_execution_def Let_def
      using inv by (intro record_all_inv) (auto simp: tools_inv_def execs_ok_def stats_ok_def refs_ok_def exec_ok_def list_update_append)
    ultimately show ?thesis by simp
  next
    case (Inr u)
    have w: "tools_inv ?w"
      using inv Inr by (auto simp: tools_inv_def execs_ok_def stats_ok_def refs_ok_def exec_ok_def)
    show ?thesis
    proof (cases "tm_requiresApproval (tw_meta w ! t) \<and> callback")
      case True
      with w Inr show ?thesis by (simp add: execute_tool_def Let_def)
    next
      case False
      with Inr call_implementation_inv [OF w, of "length (tw_execs w)"] show ?thesis by (auto simp: execute_tool_def Let_def)
    qed
  qed
qed

lemma approval_answered_inv:
  assumes inv: "tools_inv w"
  shows "tools_inv (approval_answered now x ans w)"
proof (cases "x < length (tw_execs w) \<and> te_phase (tw_execs w ! x) = AwaitApproval")
  case x: True
  show ?thesis
  proof (cases ans)
    case (Inl e)
    with x inv show ?thesis by (simp add: approval_answered_def finish_execution_inv)
  next
    case (Inr approved)
    let ?w = "w\<lparr>tw_execs := (tw_execs w)[x := (tw_execs w ! x)\<lparr>te_approved := Some approved\<rparr>]\<rparr>"
    have w: "tools_inv ?w"
      using x exec_okD [OF inv, of x] by (intro update_exec_inv [OF inv]) (auto simp: exec_ok_def)
    with x Inr show ?thesis
      using finish_execution_inv [OF w, of x "Inl ''Tool execution denied by user''" now] call_implementation_inv [OF w, of x]
      by (cases approved) (simp_all add: approval_answered_def Let_def)
  qed
qed (use inv in \<open>auto simp: approval_answered_def\<close>)

lemma implementation_done_inv: "tools_inv w \<Longrightarrow> tools_inv (implementation_done now x res w)"
  using exec_okD [of w x] by (auto simp: implementation_done_def exec_ok_def intro!: finish_execution_inv)

text \<open>The operations of the registry do not touch executions.\<close>

lemma register_tool_inv: "tools_inv w \<Longrightarrow> register_tool now t ow en w = Inr w' \<Longrightarrow> tools_inv w'"
  by (fastforce simp: register_tool_def Let_def tools_inv_def execs_ok_def stats_ok_def refs_ok_def split: if_splits dest!: set_jset)

lemma unregister_tool_inv: "tools_inv w \<Longrightarrow> tools_inv (fst (unregister_tool i w))"
  by (auto simp: unregister_tool_def tools_inv_def execs_ok_def stats_ok_def refs_ok_def split: option.split dest!: set_jdelete)

lemma set_enabled_inv: "tools_inv w \<Longrightarrow> tools_inv (fst (set_enabled b i w))"
proof (cases "map_of (tw_tools w) i")
  case (Some e)
  assume inv: "tools_inv w"
  then have "e < length (tw_entries w)" using Some by (auto simp: tools_inv_def refs_ok_def dest!: map_of_SomeD)
  then have "en_stats (tw_entries w ! e) < length (tw_stats w)" using inv by (auto simp: tools_inv_def refs_ok_def)
  with inv Some show ?thesis
    by (auto simp: set_enabled_def tools_inv_def execs_ok_def stats_ok_def refs_ok_def dest!: set_update_subset_insert [THEN subsetD])
qed (simp add: set_enabled_def)

lemma clear_tools_inv: "tools_inv w \<Longrightarrow> tools_inv (clear_tools w)"
  unfolding clear_tools_def by (rule fold_invariant [where Q = "\<lambda>_. True"]) (simp_all add: unregister_tool_inv)

lemma reload_begin_inv: "tools_inv w \<Longrightarrow> tools_inv (reload_begin c i t w)"
  by (fastforce simp: reload_begin_def tools_inv_def execs_ok_def stats_ok_def refs_ok_def split: option.split
      dest!: set_jset dest: map_of_SomeD)

lemma reload_finish_inv: "tools_inv w \<Longrightarrow> tools_inv (reload_finish now c w)"
proof (cases "map_of (tw_reloads w) c")
  case (Some r)
  obtain i old t where r: "r = (i, old, t)" by (cases r)
  assume inv: "tools_inv w"
  then have "old < length (tw_entries w)" using Some r by (auto simp: tools_inv_def refs_ok_def dest!: map_of_SomeD)
  then have "en_stats (tw_entries w ! old) < length (tw_stats w)" using inv by (auto simp: tools_inv_def refs_ok_def)
  with inv Some r show ?thesis
    by (fastforce simp: reload_finish_def tools_inv_def execs_ok_def stats_ok_def refs_ok_def dest!: set_jset set_jdelete)
qed (simp add: reload_finish_def)

lemma tool_step_inv: "tools_inv w \<Longrightarrow> tools_inv (tool_step e w)"
  by (cases e) (simp_all add: register_tool_inv unregister_tool_inv set_enabled_inv clear_tools_inv reload_begin_inv
      reload_finish_inv execute_tool_inv approval_answered_inv implementation_done_inv split: sum.split)

lemma tool_run_inv: "tools_inv (tool_run ms es)"
  unfolding tool_run_def
  by (rule fold_invariant [where Q = "\<lambda>_. True"])
    (simp_all add: tool_step_inv, simp add: new_tool_world_def tools_inv_def execs_ok_def stats_ok_def refs_ok_def)

lemma recorded_fields [simp]:
  "tw_meta (fold (\<lambda>i. recordExecution now i d b) ids w) = tw_meta w"
  by (induction ids arbitrary: w) simp_all

lemma tool_step_meta [simp]: "tw_meta (tool_step e w) = tw_meta w"
proof (cases e)
  case ClearTools
  have "tw_meta (fold (\<lambda>i w. fst (unregister_tool i w)) is v) = tw_meta v" for "is" v
    by (induction "is" arbitrary: v) (simp_all add: unregister_tool_def split: option.split)
  with ClearTools show ?thesis by (simp add: clear_tools_def)
qed (auto simp: register_tool_def unregister_tool_def set_enabled_def reload_begin_def reload_finish_def execute_tool_def
    approval_answered_def implementation_done_def finish_execution_def call_implementation_def Let_def
    split: option.split sum.split)

lemma tool_run_meta: "tw_meta (tool_run ms es) = ms"
proof -
  have "tw_meta (fold tool_step es w) = tw_meta w" for w
    by (induction es arbitrary: w) simp_all
  then show ?thesis by (simp add: tool_run_def new_tool_world_def)
qed

text \<open>
  C39.  No tool runs unchecked.  However registration, reloads, executions, approvals and results interleave: the
  implementation of a tool has been called for an execution only if all required fields of its input have a truthy value, and, when
  the tool requires approval and the context can ask for it, only after the answer was yes; an execution reports
  success only if its implementation was called; and the statistics of the registry never count more failures than executions.
\<close>

theorem tools_run_checked:
  assumes "w = tool_run ms es" and "ex \<in> set (tw_execs w)" and "m = ms ! te_tool ex"
  shows "(te_ran ex \<longrightarrow> (\<forall>fs. ts_required (tm_inputSchema m) = Some fs \<longrightarrow> (\<forall>f\<in>set fs. \<exists>v. map_of (te_input ex) f = Some v \<and> truthy v)) \<and>
      (tm_requiresApproval m \<and> te_callback ex \<longrightarrow> te_approved ex = Some True)) \<and>
    (\<forall>r. te_phase ex = ToolFinished r \<and> tr_success r \<longrightarrow> te_ran ex) \<and>
    gs_totalFailures (getRegistryStats w) \<le> gs_totalExecutions (getRegistryStats w)"
proof -
  have inv: "tools_inv w" and meta: "tw_meta w = ms" using tool_run_inv tool_run_meta assms(1) by auto
  then have ex: "exec_ok ms ex" using assms(2) by (auto simp: tools_inv_def execs_ok_def)
  have fields: "\<exists>v. map_of (te_input ex) f = Some v \<and> truthy v"
    if "validateInput m (te_input ex) = Inr ()" "ts_required (tm_inputSchema m) = Some fs" "f \<in> set fs" for fs f
    using that by (auto simp: validateInput_def find_None_iff field_missing_def split: option.splits)
  have "st_failures (tw_stats w ! en_stats e) \<le> st_executions (tw_stats w ! en_stats e)" if "e \<in> set (entries_of w)" for e
    using inv that by (fastforce simp: tools_inv_def stats_ok_def refs_ok_def entries_of_def)
  then have "gs_totalFailures (getRegistryStats w) \<le> gs_totalExecutions (getRegistryStats w)"
    by (auto simp: getRegistryStats_def Let_def intro: sum_list_mono)
  with ex fields show ?thesis by (auto simp: exec_ok_def assms(3) split: exec_phase.splits)
qed

definition demo_tool :: ToolMetadata where
  "demo_tool = createToolMetadata ''db'' ''Database'' ''runs queries'' None [DATABASE_ACCESS]
     \<lparr>ts_type = ''object'', ts_properties = [], ts_required = Some [''query'']\<rparr> None (Some True) None None"

definition demo_tool_events :: "tool_event list" where
  "demo_tool_events = [RegisterTool 0 0 None None, ExecuteTool 1 0 [(''query'', JStr ''select'')] True, ApprovalAnswered 5 0 (Inr True),
     ImplementationDone 9 0 (Inr (JNum 3))]"

theorem tools_run_checked_witness:
  "map te_approved (tw_execs (tool_run [demo_tool] demo_tool_events)) = [Some True] \<and>
   gs_totalFailures (getRegistryStats (tool_run [demo_tool] demo_tool_events)) \<le> 1"
proof -
  let ?ex = "\<lparr>te_tool = 0, te_input = [(''query'', JStr ''select'')], te_callback = True, te_startTime = 1,
      te_phase = ToolFinished \<lparr>tr_success = True, tr_data = Some (JNum 3), tr_error = None, tr_duration = 8\<rparr>, te_approved = Some True, te_ran = True\<rparr>"
  have x: "tw_execs (tool_run [demo_tool] demo_tool_events) = [?ex]"
    and n: "gs_totalExecutions (getRegistryStats (tool_run [demo_tool] demo_tool_events)) = 1" by code_simp+
  show ?thesis
    using tools_run_checked [of _ "[demo_tool]" demo_tool_events ?ex demo_tool, OF refl] x n by auto
qed

text \<open>A tool that requires approval runs without it when the context has no way to ask.\<close>

lemma approval_skipped_without_callback:
  "map te_ran (tw_execs (tool_run [demo_tool] [ExecuteTool 1 0 [(''query'', JStr ''select'')] False])) = [True]"
  by code_simp

text \<open>A required field with the value false, zero or the empty text counts as missing.\<close>

lemma falsy_field_missing: "validateInput demo_tool [(''query'', JStr [])] = Inl ''Missing required field: query''"
  by code_simp

text \<open>A tool that is registered again listens twice, and its executions are counted twice.\<close>

lemma reregistered_counted_twice:
  "map_option st_executions (getToolStats ''db'' (tool_run [demo_tool] [RegisterTool 0 0 None None, RegisterTool 1 0 (Some True) None,
      ExecuteTool 1 0 [(''query'', JStr ''select'')] False, ImplementationDone 9 0 (Inr JNull)])) = Some 2"
  by code_simp

text \<open>A reload that waits for the clean-up brings a tool back that has been unregistered meanwhile.\<close>

lemma reload_revives_tool:
  "tool_get ''db'' (tool_run [demo_tool, demo_tool] [RegisterTool 0 0 None None, ReloadBegin 0 ''db'' 1, UnregisterTool ''db'', ReloadFinish 5 0]) = Some 1"
  by code_simp

end
