(* ===== verification/File_System_Tool.thy ===== *)
theory File_System_Tool
  imports Tools Posix_Paths File_Locks
begin

text \<open>
  \<^verbatim>\<open>tools/core/FileSystemTool.ts\<close>: reading, writing and deleting files of the project under a lock.  An
  execution is a small state machine: at every \<^verbatim>\<open>await\<close> it is suspended in a phase and resumed by an answer
  of the lock manager (\<open>File_Locks\<close>), the file system or the reviewer, so that anything can happen in between.  The
  functions \<open>exists\<close> and \<open>realpath\<close> are the file system at the moment the path is checked.  Spans, audit
  records, the logs and the metadata of results are not modelled, nor is the parsing of the limits from the environment.
\<close>

section \<open>Paths\<close>

definition abs_path :: "string list \<Rightarrow> string" where
  "abs_path ss = ''/'' @ join_strings ''/'' ss"

definition posix_resolve :: "string \<Rightarrow> string \<Rightarrow> string" where
  "posix_resolve cwd p = abs_path (path_segments cwd p)"

definition escapes :: "string \<Rightarrow> bool" where
  "escapes relative \<longleftrightarrow> prefix ''..'' relative \<or> prefix ''/'' relative"

text \<open>\<^verbatim>\<open>realpathNearestAncestor\<close> walks up the segments of an absolute path.\<close>

function nearest_existing :: "(string \<Rightarrow> bool) \<Rightarrow> string list \<Rightarrow> string list" where
  "nearest_existing exists ss =
     (if exists (abs_path ss) \<or> ss = [] then ss else nearest_existing exists (butlast ss))"
  by auto
termination by (relation "measure (\<lambda>(_, ss). length ss)") auto

declare nearest_existing.simps [simp del]

definition realpathNearestAncestor :: "(string \<Rightarrow> bool) \<Rightarrow> (string \<Rightarrow> string option) \<Rightarrow> string \<Rightarrow> string" where
  "realpathNearestAncestor exists realpath target =
     (let current = abs_path (nearest_existing exists (path_segments ''/'' target))
      in case realpath current of Some r \<Rightarrow> r | None \<Rightarrow> current)"

definition resolvePath :: "(string \<Rightarrow> bool) \<Rightarrow> (string \<Rightarrow> string option) \<Rightarrow> string \<Rightarrow> string \<Rightarrow> string + string" where
  "resolvePath exists realpath base target =
     (let resolved = posix_resolve base target
      in if escapes (posix_relative base base resolved) then Inl (''Path '' @ target @ '' escapes project root'')
         else if escapes (posix_relative base base (realpathNearestAncestor exists realpath resolved))
         then Inl (''Path '' @ target @ '' escapes project root'')
         else Inr resolved)"

section \<open>The tool\<close>

record FileSystemToolConfig =
  fc_realProjectRoot :: string
  fc_criticalPatterns :: "(string \<Rightarrow> bool) list"
  fc_limiter :: PerSessionRateLimiter

definition default_criticalPatterns :: "(string \<Rightarrow> bool) list" where
  "default_criticalPatterns =
     [\<lambda>p. suffix ''package-lock.json'' (lower_case p), \<lambda>p. suffix ''yarn.lock'' (lower_case p), \<lambda>p. sublist ''.env'' (lower_case p)]"

definition isCritical :: "FileSystemToolConfig \<Rightarrow> string \<Rightarrow> bool" where
  "isCritical cfg target = list_ex (\<lambda>pattern. pattern target) (fc_criticalPatterns cfg)"

datatype fs_action = FsReadFile | FsWriteFile | FsDeleteFile

definition action_name :: "fs_action \<Rightarrow> string" where
  "action_name a = (case a of FsReadFile \<Rightarrow> ''read'' | FsWriteFile \<Rightarrow> ''write'' | FsDeleteFile \<Rightarrow> ''delete'')"

record FileSystemToolInput =
  fi_path :: string
  fi_action :: fs_action
  fi_content :: "string option"
  fi_requiresReview :: bool
  fi_sessionId :: "string option"
  fi_agentId :: "string option"

definition fs_metadata :: ToolMetadata where
  "fs_metadata = \<lparr>tm_id = ''filesystem'', tm_name = ''File System Tool'',
     tm_description = ''Read and write files inside the project workspace'', tm_version = ''0.1.0'',
     tm_capabilities = [READ_FILES, WRITE_FILES],
     tm_inputSchema = \<lparr>ts_type = ''object'', ts_properties = [], ts_required = Some [''path'', ''action'']\<rparr>,
     tm_outputSchema = None, tm_requiresApproval = False, tm_sandboxType = CONTAINER,
     tm_sandboxCapabilities = \<lparr>sc_filesystem = True, sc_network = False, sc_heavyCompute = False, sc_externalBinaries = False,
       sc_maxMemory = None, sc_maxExecutionTime = None\<rparr>,
     tm_tags = Some [''filesystem'']\<rparr>"

text \<open>What an execution does to the outside, and where it is suspended.\<close>

datatype fs_effect = FsLocked | FsUnlocked | FsRead string | FsWrite string string | FsDelete string | FsEdited string string | FsReviewed bool

datatype fs_phase =
    FsAwaitLock | FsReading | FsReadingBefore | FsAwaitReview | FsDeleting | FsMakingDir | FsWriting
  | FsReleasing ToolResult | FsReleasingError string | FsDone ToolResult | FsThrown string

record FsExecution =
  fx_path :: string
  fx_input :: FileSystemToolInput
  fx_callback :: bool
  fx_started :: time
  fx_phase :: fs_phase
  fx_effects :: "fs_effect list"

definition fs_result :: "time \<Rightarrow> FsExecution \<Rightarrow> string + json \<Rightarrow> ToolResult" where
  "fs_result now x r = (case r of
      Inl e \<Rightarrow> \<lparr>tr_success = False, tr_data = None, tr_error = Some e, tr_duration = now - fx_started x\<rparr>
    | Inr d \<Rightarrow> \<lparr>tr_success = True, tr_data = Some d, tr_error = None, tr_duration = now - fx_started x\<rparr>)"

definition do_effect :: "fs_effect \<Rightarrow> fs_phase \<Rightarrow> FsExecution \<Rightarrow> FsExecution" where
  "do_effect e ph x = x\<lparr>fx_phase := ph, fx_effects := fx_effects x @ [e]\<rparr>"

text \<open>Every way out with a lock releases it, and a failure to release is ignored.  The result is made before the
  release, or, after a failed read or a refused review, behind it.\<close>

definition release_with :: "ToolResult \<Rightarrow> FsExecution \<Rightarrow> FsExecution" where
  "release_with r x = do_effect FsUnlocked (FsReleasing r) x"

text \<open>The first part of \<^verbatim>\<open>execute\<close>: validation, which throws outside of the \<^verbatim>\<open>try\<close>, the path, and the limit on
  operations.\<close>

definition fs_start ::
  "FileSystemToolConfig \<Rightarrow> (string \<Rightarrow> bool) \<Rightarrow> (string \<Rightarrow> string option) \<Rightarrow> time \<Rightarrow> string \<Rightarrow> bool \<Rightarrow> FileSystemToolInput \<Rightarrow> rate_store \<Rightarrow>
   rate_store \<times> FsExecution" where
  "fs_start cfg exists realpath now requestId callback inp hits =
     (let x = \<lparr>fx_path = [], fx_input = inp, fx_callback = callback, fx_started = now, fx_phase = FsAwaitLock, fx_effects = []\<rparr>
      in case validateInput fs_metadata [(''path'', JStr (fi_path inp)), (''action'', JStr (action_name (fi_action inp)))] of
           Inl e \<Rightarrow> (hits, x\<lparr>fx_phase := FsThrown e\<rparr>)
         | Inr _ \<Rightarrow> (case resolvePath exists realpath (fc_realProjectRoot cfg) (fi_path inp) of
              Inl e \<Rightarrow> (hits, x\<lparr>fx_phase := FsDone (fs_result now x (Inl e))\<rparr>)
            | Inr resolved \<Rightarrow>
                let sessionId = (case fi_sessionId inp of Some s \<Rightarrow> s | None \<Rightarrow> requestId);
                    (hits', r) = session_check (fc_limiter cfg) now sessionId hits
                in if \<not> rr_allowed r
                   then (hits', x\<lparr>fx_phase := FsDone (fs_result now x
                          (Inl ''Rate limit exceeded: Filesystem operation rate limit exceeded''))\<rparr>)
                   else (hits', x\<lparr>fx_path := resolved\<rparr>)))"

definition lock_error_text :: "FileLockError \<Rightarrow> string" where
  "lock_error_text e = (case fe_code e of
      FileBusy \<Rightarrow> ''File busy: '' @ fe_message e
    | FileRateLimited \<Rightarrow> ''Rate limit exceeded: '' @ fe_message e
    | FileUnavailable \<Rightarrow> ''File lock manager unavailable: '' @ fe_message e @
        ''. This is likely an infrastructure issue (e.g., Redis is down). Please try again later or contact support.'')"

definition begin_change :: "FsExecution \<Rightarrow> FsExecution" where
  "begin_change x =
     (if fi_action (fx_input x) = FsDeleteFile then do_effect (FsDelete (fx_path x)) FsDeleting x
      else x\<lparr>fx_phase := FsMakingDir\<rparr>)"

definition not_approved :: "FsExecution \<Rightarrow> FsExecution" where
  "not_approved x = do_effect FsUnlocked (FsReleasingError ''Change requires approval and was not approved'') x"

text \<open>The answers.  The content of a written file is the given one, or empty.\<close>

datatype fs_event =
    FsLockAnswer "FileLockError + unit" | FsReadAnswer "string + string" | FsReviewAnswer "string + bool"
  | FsChangeAnswer "string + unit" | FsReleaseAnswer "string + unit"

definition path_result :: "FsExecution \<Rightarrow> string \<Rightarrow> string \<Rightarrow> json" where
  "path_result x k v = JObj [(''path'', JStr (fx_path x)), (k, JStr v)]"

definition written_content :: "FsExecution \<Rightarrow> string" where
  "written_content x = (case fi_content (fx_input x) of None \<Rightarrow> [] | Some c \<Rightarrow> c)"

definition lock_granted :: "FileSystemToolConfig \<Rightarrow> FsExecution \<Rightarrow> FsExecution" where
  "lock_granted cfg x =
     (let x = x\<lparr>fx_effects := fx_effects x @ [FsLocked]\<rparr>
      in if fi_action (fx_input x) = FsReadFile then do_effect (FsRead (fx_path x)) FsReading x
         else if fi_requiresReview (fx_input x) \<or> isCritical cfg (fx_path x)
         then do_effect (FsRead (fx_path x)) FsReadingBefore x
         else begin_change x)"

definition fs_resume :: "FileSystemToolConfig \<Rightarrow> time \<Rightarrow> fs_event \<Rightarrow> FsExecution \<Rightarrow> FsExecution" where
  "fs_resume cfg now ev x = (case (fx_phase x, ev) of
      (FsAwaitLock, FsLockAnswer (Inl e)) \<Rightarrow> x\<lparr>fx_phase := FsDone (fs_result now x (Inl (lock_error_text e)))\<rparr>
    | (FsAwaitLock, FsLockAnswer (Inr _)) \<Rightarrow> lock_granted cfg x
    | (FsReading, FsReadAnswer (Inl e)) \<Rightarrow> do_effect FsUnlocked (FsReleasingError e) x
    | (FsReading, FsReadAnswer (Inr content)) \<Rightarrow> release_with (fs_result now x (Inr (path_result x ''content'' content))) x
    | (FsReadingBefore, FsReadAnswer _) \<Rightarrow> if fx_callback x then x\<lparr>fx_phase := FsAwaitReview\<rparr> else not_approved x
    | (FsAwaitReview, FsReviewAnswer (Inl e)) \<Rightarrow> release_with (fs_result now x (Inl e)) x
    | (FsAwaitReview, FsReviewAnswer (Inr approved)) \<Rightarrow>
        (let x = x\<lparr>fx_effects := fx_effects x @ [FsReviewed approved]\<rparr>
         in if approved then begin_change x else not_approved x)
    | (FsDeleting, FsChangeAnswer (Inl e)) \<Rightarrow> release_with (fs_result now x (Inl e)) x
    | (FsDeleting, FsChangeAnswer (Inr _)) \<Rightarrow>
        release_with (fs_result now x (Inr (path_result x ''action'' (action_name (fi_action (fx_input x)))))) x
    | (FsMakingDir, FsChangeAnswer (Inl e)) \<Rightarrow> release_with (fs_result now x (Inl e)) x
    | (FsMakingDir, FsChangeAnswer (Inr _)) \<Rightarrow>
        do_effect (FsWrite (fx_path x) (written_content x)) FsWriting
          (x\<lparr>fx_effects := fx_effects x @ [FsEdited (fx_path x) (written_content x)]\<rparr>)
    | (FsWriting, FsChangeAnswer (Inl e)) \<Rightarrow> release_with (fs_result now x (Inl e)) x
    | (FsWriting, FsChangeAnswer (Inr _)) \<Rightarrow>
        release_with (fs_result now x (Inr (path_result x ''action'' (action_name (fi_action (fx_input x)))))) x
    | (FsReleasing r, FsReleaseAnswer _) \<Rightarrow> x\<lparr>fx_phase := FsDone r\<rparr>
    | (FsReleasingError e, FsReleaseAnswer _) \<Rightarrow> x\<lparr>fx_phase := FsDone (fs_result now x (Inl e))\<rparr>
    | _ \<Rightarrow> x)"

definition fs_run :: "FileSystemToolConfig \<Rightarrow> (time \<times> fs_event) list \<Rightarrow> FsExecution \<Rightarrow> FsExecution" where
  "fs_run cfg evs x = fold (\<lambda>(now, ev). fs_resume cfg now ev) evs x"

section \<open>Confinement\<close>

definition inside :: "string \<Rightarrow> string \<Rightarrow> bool" where
  "inside base p \<longleftrightarrow> prefix (path_segments base base) (path_segments base p)"

text \<open>A relative path that leads upwards begins with two dots.\<close>

lemma not_inside_escapes:
  assumes "\<not> inside base p"
  shows "escapes (posix_relative base base p)"
proof -
  define sa sb where "sa = path_segments base base" and "sb = path_segments base p"
  define n where "n = length (longest_common_prefix sa sb)"
  have "n < length sa"
  proof (rule ccontr)
    assume "\<not> n < length sa"
    obtain zs where zs: "sa = longest_common_prefix sa sb @ zs"
      using longest_common_prefix_prefix1 [of sa sb] by (auto simp: prefix_def)
    then have "length sa = n + length zs" by (metis length_append n_def)
    with \<open>\<not> n < length sa\<close> zs have "longest_common_prefix sa sb = sa" by simp
    then show False using assms longest_common_prefix_prefix2 [of sa sb] by (simp add: inside_def sa_def sb_def)
  qed
  then obtain k where "length sa - n = Suc k" by (cases "length sa - n") auto
  then have "posix_relative base base p = join_strings ''/'' (''..'' # replicate k ''..'' @ drop n sb)"
    by (simp add: posix_relative_def Let_def sa_def sb_def n_def)
  then show ?thesis by (cases "replicate k ''..'' @ drop n sb") (simp_all add: escapes_def)
qed

lemma resolvePath_inside:
  assumes "resolvePath exists realpath base target = Inr p"
  shows "p = posix_resolve base target" "inside base p" "inside base (realpathNearestAncestor exists realpath p)"
  using assms not_inside_escapes by (auto simp: resolvePath_def Let_def split: if_splits)

section \<open>What an execution does\<close>

definition needs_review :: "FileSystemToolConfig \<Rightarrow> FsExecution \<Rightarrow> bool" where
  "needs_review cfg x \<longleftrightarrow> fi_requiresReview (fx_input x) \<or> isCritical cfg (fx_path x)"

definition change_prefix :: "FileSystemToolConfig \<Rightarrow> FsExecution \<Rightarrow> fs_effect list" where
  "change_prefix cfg x = (if needs_review cfg x then [FsLocked, FsRead (fx_path x), FsReviewed True] else [FsLocked])"

definition fs_traces :: "FileSystemToolConfig \<Rightarrow> FsExecution \<Rightarrow> fs_effect list set" where
  "fs_traces cfg x =
     {[FsLocked, FsRead (fx_path x)], change_prefix cfg x, change_prefix cfg x @ [FsDelete (fx_path x)],
      change_prefix cfg x @ [FsEdited (fx_path x) (written_content x), FsWrite (fx_path x) (written_content x)]} \<union>
     {[FsLocked, FsRead (fx_path x), FsReviewed False]}"

definition fs_inv :: "FileSystemToolConfig \<Rightarrow> FsExecution \<Rightarrow> bool" where
  "fs_inv cfg x \<longleftrightarrow> (case fx_phase x of
      FsAwaitLock \<Rightarrow> fx_effects x = []
    | FsReading \<Rightarrow> fx_effects x = [FsLocked, FsRead (fx_path x)]
    | FsReadingBefore \<Rightarrow> fx_effects x = [FsLocked, FsRead (fx_path x)] \<and> needs_review cfg x
    | FsAwaitReview \<Rightarrow> fx_effects x = [FsLocked, FsRead (fx_path x)] \<and> needs_review cfg x
    | FsDeleting \<Rightarrow> fx_effects x = change_prefix cfg x @ [FsDelete (fx_path x)]
    | FsMakingDir \<Rightarrow> fx_effects x = change_prefix cfg x
    | FsWriting \<Rightarrow> fx_effects x = change_prefix cfg x @ [FsEdited (fx_path x) (written_content x), FsWrite (fx_path x) (written_content x)]
    | FsReleasing _ \<Rightarrow> \<exists>es\<in>fs_traces cfg x. fx_effects x = es @ [FsUnlocked]
    | FsReleasingError _ \<Rightarrow> \<exists>es\<in>fs_traces cfg x. fx_effects x = es @ [FsUnlocked]
    | FsDone _ \<Rightarrow> fx_effects x = [] \<or> (\<exists>es\<in>fs_traces cfg x. fx_effects x = es @ [FsUnlocked])
    | FsThrown _ \<Rightarrow> fx_effects x = [])"

lemmas fs_ops = do_effect_def release_with_def not_approved_def begin_change_def lock_granted_def

lemma fs_resume_input: "fx_path (fs_resume cfg now ev x) = fx_path x" "fx_input (fs_resume cfg now ev x) = fx_input x"
  by (auto simp: fs_resume_def fs_ops Let_def split: fs_phase.split fs_event.split sum.split)

lemma fs_resume_inv: "fs_inv cfg x \<Longrightarrow> fs_inv cfg (fs_resume cfg now ev x)"
  by (cases "fx_phase x"; cases ev)
    (auto simp: fs_inv_def fs_resume_def fs_ops Let_def fs_traces_def change_prefix_def needs_review_def written_content_def
      split: sum.split fs_phase.split)

lemma fs_start_inv: "fs_start cfg exists realpath now requestId callback inp hits = (hits', x) \<Longrightarrow> fs_inv cfg x"
  by (auto simp: fs_start_def fs_inv_def Let_def split: sum.splits if_splits prod.splits)

lemma fs_run_inv: "fs_inv cfg x \<Longrightarrow> fs_inv cfg (fs_run cfg evs x) \<and> fx_path (fs_run cfg evs x) = fx_path x \<and> fx_input (fs_run cfg evs x) = fx_input x"
  unfolding fs_run_def
  by (induction evs arbitrary: x) (auto simp: fs_resume_inv fs_resume_input)

lemma fs_start_cases:
  assumes "fs_start cfg exists realpath now requestId callback inp hits = (hits', x)"
  shows "fx_input x = inp \<and> fx_effects x = [] \<and>
    (fx_phase x = FsAwaitLock \<and> resolvePath exists realpath (fc_realProjectRoot cfg) (fi_path inp) = Inr (fx_path x) \<or>
     (\<exists>r. fx_phase x = FsDone r) \<or> (\<exists>e. fx_phase x = FsThrown e))"
  using assms by (auto simp: fs_start_def Let_def split: sum.splits if_splits prod.splits)

lemma fs_run_ended: "(\<exists>r. fx_phase x = FsDone r) \<or> (\<exists>e. fx_phase x = FsThrown e) \<Longrightarrow> fs_run cfg evs x = x"
  unfolding fs_run_def by (induction evs) (auto simp: fs_resume_def)

definition fs_change :: "fs_effect \<Rightarrow> bool" where
  "fs_change e \<longleftrightarrow> (case e of FsWrite _ _ \<Rightarrow> True | FsDelete _ \<Rightarrow> True | _ \<Rightarrow> False)"

definition touches :: "fs_effect \<Rightarrow> string option" where
  "touches e = (case e of FsRead p \<Rightarrow> Some p | FsWrite p _ \<Rightarrow> Some p | FsDelete p \<Rightarrow> Some p | FsEdited p _ \<Rightarrow> Some p | _ \<Rightarrow> None)"

text \<open>Every trace of the invariant touches one path, changes it after lock and review and before the release.\<close>

definition guarded :: "bool \<Rightarrow> fs_effect list \<Rightarrow> bool" where
  "guarded review es \<longleftrightarrow> (\<forall>k<length es. fs_change (es ! k) \<longrightarrow>
     FsLocked \<in> set (take k es) \<and> FsUnlocked \<notin> set (take k es) \<and> (review \<longrightarrow> FsReviewed True \<in> set (take k es)))"

lemma guarded_simps [simp]:
  "guarded review []"
  "guarded review (es @ [e]) \<longleftrightarrow> guarded review es \<and>
     (fs_change e \<longrightarrow> FsLocked \<in> set es \<and> FsUnlocked \<notin> set es \<and> (review \<longrightarrow> FsReviewed True \<in> set es))"
  by (auto simp: guarded_def less_Suc_eq nth_append)

lemma guarded_short: "guarded review [e] \<longleftrightarrow> \<not> fs_change e"
  "guarded review [e, e'] \<longleftrightarrow> \<not> fs_change e \<and> (fs_change e' \<longrightarrow> e = FsLocked \<and> \<not> review)"
  "guarded review [e, e', e''] \<longleftrightarrow> guarded review [e, e'] \<and> (fs_change e'' \<longrightarrow> FsLocked \<in> {e, e'} \<and> FsUnlocked \<notin> {e, e'} \<and> (review \<longrightarrow> FsReviewed True \<in> {e, e'}))"
  using guarded_simps(2) [of review "[]" e] guarded_simps(2) [of review "[e]" e'] guarded_simps(2) [of review "[e, e']" e'']
  by (auto simp: fs_change_def split: fs_effect.splits)

lemma change_prefix_guarded: "guarded (needs_review cfg x) (change_prefix cfg x)"
  by (auto simp: change_prefix_def guarded_short fs_change_def)

lemma traces_guarded:
  assumes "es \<in> fs_traces cfg x"
  shows "guarded (needs_review cfg x) es" "count_list es FsLocked = 1" "FsUnlocked \<notin> set es"
    "e \<in> set es \<Longrightarrow> touches e = Some p \<Longrightarrow> p = fx_path x"
proof -
  have two: "xs @ [a, b] = (xs @ [a]) @ [b]" for xs :: "fs_effect list" and a b by simp
  show "guarded (needs_review cfg x) es"
    using assms change_prefix_guarded [of cfg x]
    by (auto simp: fs_traces_def guarded_short fs_change_def two simp del: append_assoc) (auto simp: change_prefix_def split: if_splits)
  show "count_list es FsLocked = 1" "FsUnlocked \<notin> set es"
    using assms by (auto simp: fs_traces_def change_prefix_def split: if_splits)
  show "e \<in> set es \<Longrightarrow> touches e = Some p \<Longrightarrow> p = fx_path x"
    using assms by (auto simp: fs_traces_def change_prefix_def touches_def split: if_splits)
qed

lemma inv_trace:
  assumes "fs_inv cfg x"
  shows "fx_effects x = [] \<or> (\<exists>es\<in>fs_traces cfg x. fx_effects x = es \<or> fx_effects x = es @ [FsUnlocked])"
    and "fx_phase x = FsDone r \<Longrightarrow> fx_effects x = [] \<or> (\<exists>es\<in>fs_traces cfg x. fx_effects x = es @ [FsUnlocked])"
  using assms by (auto simp: fs_inv_def fs_traces_def split: fs_phase.splits)


definition demo_fs_config :: FileSystemToolConfig where
  "demo_fs_config = \<lparr>fc_realProjectRoot = ''/p'', fc_criticalPatterns = default_criticalPatterns,
     fc_limiter = \<lparr>pl_limit = 120, pl_windowMs = 60000, pl_prefix = ''fs''\<rparr>\<rparr>"

definition demo_fs_input :: FileSystemToolInput where
  "demo_fs_input = \<lparr>fi_path = ''a/../.env'', fi_action = FsWriteFile, fi_content = Some ''k=v'', fi_requiresReview = False,
     fi_sessionId = None, fi_agentId = None\<rparr>"

definition demo_fs_start :: "rate_store \<times> FsExecution" where
  "demo_fs_start = fs_start demo_fs_config (\<lambda>p. p = ''/p'') Some 0 ''r1'' True demo_fs_input []"

definition demo_fs_answers :: "(time \<times> fs_event) list" where
  "demo_fs_answers = [(1, FsLockAnswer (Inr ())), (2, FsReadAnswer (Inl ''ENOENT'')), (3, FsReviewAnswer (Inr True)),
     (4, FsChangeAnswer (Inr ())), (5, FsChangeAnswer (Inr ())), (6, FsReleaseAnswer (Inr ()))]"


text \<open>Names that begin with two dots are taken for a way out of the project.\<close>

lemma dotted_name_refused:
  "resolvePath (\<lambda>p. p = ''/p'') Some ''/p'' ''..notes'' = Inl ''Path ..notes escapes project root''"
  by code_simp

text \<open>Without a way to ask, a critical file is not changed.\<close>

lemma critical_refused_without_reviewer:
  "fx_phase (fs_run demo_fs_config [(1, FsLockAnswer (Inr ())), (2, FsReadAnswer (Inl ''ENOENT'')), (3, FsReleaseAnswer (Inr ()))]
     (snd (fs_start demo_fs_config (\<lambda>p. p = ''/p'') Some 0 ''r1'' False demo_fs_input []))) =
   FsDone \<lparr>tr_success = False, tr_data = None, tr_error = Some ''Change requires approval and was not approved'', tr_duration = 3\<rparr>"
  by code_simp

end
