(* ===== verification/Terminal_Manager.thy ===== *)
theory Terminal_Manager
  imports Json_Text "HOL-Library.Multiset"
begin

text \<open>
  \<^verbatim>\<open>sandbox/TerminalManager.ts\<close>: shells shared by the web sockets of a session.  Sockets and shells are named
  by numbers; the ready states of the sockets are part of the state, and sockets change them at any time.  What
  is sent, written and closed goes to a log.  The choice of the shell in the constructor is not modelled.
\<close>

datatype readyState = CONNECTING | OPEN | CLOSING | CLOSED

datatype terminal_status = TConnected | TDisconnected

datatype TerminalBroadcast =
    BStatus terminal_status nat
  | BOutput string
  | BExit int "int option"

datatype TerminalMessage = MInput string | MResize int int

record TerminalSession =
  ts_pty :: nat
  ts_clients :: "nat list"

datatype terminal_effect =
    TSent nat TerminalBroadcast | TClosed nat int | TSpawned nat | TKilled nat | TWritten nat string | TResized nat int int

record TerminalManager =
  tt_sessions :: "(string, TerminalSession) jsmap"
  tt_creatingSessions :: "string list"
  tt_pendingClients :: "(string, nat list) jsmap"
  tt_maxPendingClients :: nat
  tt_states :: "nat \<Rightarrow> readyState"
  tt_handlers :: "(nat \<times> string) list"
  tt_ptys :: nat
  tt_log :: "terminal_effect list"

definition DEFAULT_MAX_PENDING_CLIENTS :: nat where
  "DEFAULT_MAX_PENDING_CLIENTS = 32"

definition new_TerminalManager :: "nat option \<Rightarrow> (nat \<Rightarrow> readyState) \<Rightarrow> TerminalManager" where
  "new_TerminalManager maxPending states = \<lparr>tt_sessions = [], tt_creatingSessions = [], tt_pendingClients = [],
     tt_maxPendingClients = (case maxPending of None \<Rightarrow> DEFAULT_MAX_PENDING_CLIENTS | Some n \<Rightarrow> n),
     tt_states = states, tt_handlers = [], tt_ptys = 0, tt_log = []\<rparr>"

definition gone :: "TerminalManager \<Rightarrow> nat \<Rightarrow> bool" where
  "gone m s \<longleftrightarrow> tt_states m s = CLOSING \<or> tt_states m s = CLOSED"

text \<open>\<^verbatim>\<open>socket.close\<close>; errors it throws are logged only.\<close>

definition close_socket :: "int \<Rightarrow> nat \<Rightarrow> TerminalManager \<Rightarrow> TerminalManager" where
  "close_socket code s m = m\<lparr>tt_log := tt_log m @ [TClosed s code],
     tt_states := (if tt_states m s = CLOSED then tt_states m else (tt_states m)(s := CLOSING))\<rparr>"

text \<open>\<^verbatim>\<open>destroySession\<close>: the listeners of the shell are disposed, so that it is not heard any more.\<close>

definition destroySession :: "bool \<Rightarrow> string \<Rightarrow> TerminalManager \<Rightarrow> TerminalManager" where
  "destroySession closeClients sid m =
     (case map_of (tt_sessions m) sid of
        None \<Rightarrow> m
      | Some session \<Rightarrow>
          let m = m\<lparr>tt_sessions := jdelete sid (tt_sessions m), tt_log := tt_log m @ [TKilled (ts_pty session)]\<rparr>
          in if closeClients
             then fold (\<lambda>s m. if tt_states m s = OPEN \<or> tt_states m s = CONNECTING then close_socket 1011 s m else m) (ts_clients session) m
             else m)"

text \<open>\<^verbatim>\<open>safeSend\<close>; \<open>sends s\<close> says whether \<^verbatim>\<open>socket.send\<close> succeeds.\<close>

definition safeSend :: "(nat \<Rightarrow> bool) \<Rightarrow> TerminalBroadcast \<Rightarrow> nat \<Rightarrow> TerminalManager \<Rightarrow> TerminalManager \<times> bool" where
  "safeSend sends payload s m =
     (if tt_states m s \<noteq> OPEN then (m, False)
      else if sends s then (m\<lparr>tt_log := tt_log m @ [TSent s payload]\<rparr>, True) else (m, False))"

definition remove_client :: "string \<Rightarrow> nat \<Rightarrow> TerminalManager \<Rightarrow> TerminalManager" where
  "remove_client sid s m = m\<lparr>tt_sessions := jmodify sid (\<lambda>session. session\<lparr>ts_clients := removeAll s (ts_clients session)\<rparr>) (tt_sessions m)\<rparr>"

text \<open>Delivery to a snapshot of the clients; the result tells whether a client was removed.\<close>

fun deliver :: "(nat \<Rightarrow> bool) \<Rightarrow> string \<Rightarrow> TerminalBroadcast \<Rightarrow> nat list \<Rightarrow> TerminalManager \<Rightarrow> TerminalManager \<times> bool" where
  "deliver sends sid payload [] m = (m, False)"
| "deliver sends sid payload (s # ss) m =
     (let (m, delivered) = safeSend sends payload s m
      in if delivered then deliver sends sid payload ss m
         else let (m, _) = deliver sends sid payload ss (close_socket 1011 s (remove_client sid s m)) in (m, True))"

definition clients_of :: "string \<Rightarrow> TerminalManager \<Rightarrow> nat list" where
  "clients_of sid m = (case map_of (tt_sessions m) sid of None \<Rightarrow> [] | Some session \<Rightarrow> ts_clients session)"

definition prune :: "string \<Rightarrow> TerminalManager \<Rightarrow> TerminalManager" where
  "prune sid m = fold (\<lambda>s m. if gone m s then remove_client sid s m else m) (clients_of sid m) m"

definition broadcastWithCleanup :: "(nat \<Rightarrow> bool) \<Rightarrow> string \<Rightarrow> TerminalBroadcast \<Rightarrow> TerminalManager \<Rightarrow> TerminalManager" where
  "broadcastWithCleanup sends sid payload m =
     fold (\<lambda>s m. if gone m s then remove_client sid s m
                 else let (m, delivered) = safeSend sends payload s m
                      in if delivered then m else close_socket 1011 s (remove_client sid s m))
       (clients_of sid m) m"

definition safeBroadcast :: "(nat \<Rightarrow> bool) \<Rightarrow> string \<Rightarrow> TerminalBroadcast \<Rightarrow> TerminalManager \<Rightarrow> TerminalManager" where
  "safeBroadcast sends sid payload m =
     (if map_of (tt_sessions m) sid = None then m
      else let pruned = prune sid m;
               prunedBeforeSend = (clients_of sid pruned \<noteq> clients_of sid m);
               normalized = (case payload of BStatus st _ \<Rightarrow> BStatus st (length (clients_of sid pruned)) | _ \<Rightarrow> payload);
               (m1, removedDuringSend) = deliver sends sid normalized (clients_of sid pruned) pruned;
               n = length (clients_of sid m1);
               m2 = (case payload of
                  BStatus st _ \<Rightarrow> if removedDuringSend \<and> n > 0 then broadcastWithCleanup sends sid (BStatus st n) m1 else m1
                | _ \<Rightarrow> if (removedDuringSend \<or> prunedBeforeSend) \<and> n > 0
                       then broadcastWithCleanup sends sid (BStatus TDisconnected n) m1 else m1)
           in if clients_of sid m2 = [] then destroySession False sid m2 else m2)"

definition attachClient :: "(nat \<Rightarrow> bool) \<Rightarrow> string \<Rightarrow> nat \<Rightarrow> TerminalManager \<Rightarrow> TerminalManager" where
  "attachClient sends sid s m =
     (if gone m s then m
      else let m = m\<lparr>tt_sessions := jmodify sid (\<lambda>session. session\<lparr>ts_clients := List.insert s (ts_clients session)\<rparr>) (tt_sessions m)\<rparr>;
               m = safeBroadcast sends sid (BStatus TConnected (length (clients_of sid m))) m
           in m\<lparr>tt_handlers := tt_handlers m @ [(s, sid)]\<rparr>)"

definition createSession :: "string \<Rightarrow> TerminalManager \<Rightarrow> TerminalManager" where
  "createSession sid m = m\<lparr>tt_sessions := jset sid \<lparr>ts_pty = tt_ptys m, ts_clients = []\<rparr> (tt_sessions m),
     tt_ptys := tt_ptys m + 1, tt_log := tt_log m @ [TSpawned (tt_ptys m)]\<rparr>"

datatype attach_result = Attached | Pending | AttachFailed

text \<open>\<^verbatim>\<open>attach\<close>; \<open>spawns\<close> says whether the shell can be started.\<close>

definition terminal_attach :: "(nat \<Rightarrow> bool) \<Rightarrow> bool \<Rightarrow> string \<Rightarrow> nat \<Rightarrow> TerminalManager \<Rightarrow> TerminalManager \<times> attach_result" where
  "terminal_attach sends spawns sid s m =
     (if gone m s then (close_socket 1011 s m, AttachFailed)
      else if sid \<in> set (tt_creatingSessions m) then
        let waiting = jget_or [] (tt_pendingClients m) sid
        in if length waiting \<ge> tt_maxPendingClients m then (close_socket 1013 s m, AttachFailed)
           else (m\<lparr>tt_pendingClients := jset sid (List.insert s waiting) (tt_pendingClients m)\<rparr>, Pending)
      else
        let existed = (map_of (tt_sessions m) sid \<noteq> None);
            m = (if existed then m else if spawns then createSession sid m else close_socket 1011 s m);
            waiting = jget_or [] (tt_pendingClients m) sid
        in if \<not> existed \<and> \<not> spawns
           then (fold (close_socket 1011) waiting (m\<lparr>tt_pendingClients := jdelete sid (tt_pendingClients m)\<rparr>), AttachFailed)
           else let m = attachClient sends sid s m
                in (fold (attachClient sends sid) waiting (m\<lparr>tt_pendingClients := jdelete sid (tt_pendingClients m)\<rparr>), Attached))"

definition terminal_detach :: "(nat \<Rightarrow> bool) \<Rightarrow> string \<Rightarrow> nat \<Rightarrow> TerminalManager \<Rightarrow> TerminalManager" where
  "terminal_detach sends sid s m =
     (if map_of (tt_sessions m) sid = None then m
      else let m = remove_client sid s m;
               m = safeBroadcast sends sid (BStatus TDisconnected (length (clients_of sid m))) m
           in if clients_of sid m = [] then destroySession False sid m else m)"

definition terminal_shutdown :: "TerminalManager \<Rightarrow> TerminalManager" where
  "terminal_shutdown m =
     (let m = fold (\<lambda>(sid, waiting) m. fold (close_socket 1011) waiting m) (tt_pendingClients m) m;
          m = m\<lparr>tt_pendingClients := []\<rparr>
      in fold (destroySession True) (jkeys (tt_sessions m)) m)"

section \<open>Messages of clients\<close>

definition MAX_MESSAGE_LENGTH :: nat where
  "MAX_MESSAGE_LENGTH = 16384"

definition terminalMessageSchema :: "json \<Rightarrow> TerminalMessage option" where
  "terminalMessageSchema j =
     (case jfield j ''type'' of
        Some (JStr t) \<Rightarrow>
          if t = ''input'' then
            (case jfield j ''data'' of Some (JStr d) \<Rightarrow> if length d \<le> 8192 then Some (MInput d) else None | _ \<Rightarrow> None)
          else if t = ''resize'' then
            (case (jfield j ''cols'', jfield j ''rows'') of
               (Some (JNum c), Some (JNum r)) \<Rightarrow>
                 if 1 \<le> c \<and> c \<le> 500 \<and> 1 \<le> r \<and> r \<le> 200 then Some (MResize c r) else None
             | _ \<Rightarrow> None)
          else None
      | _ \<Rightarrow> None)"

datatype parse_failure = Unsupported | TooLarge | Invalid

text \<open>A message is a text, or \<open>None\<close> for a value of an unsupported type.\<close>

definition parseClientMessage :: "string option \<Rightarrow> parse_failure + TerminalMessage" where
  "parseClientMessage raw =
     (case raw of
        None \<Rightarrow> Inl Unsupported
      | Some message \<Rightarrow>
          if message = [] then Inl Unsupported
          else if length message > MAX_MESSAGE_LENGTH then Inl TooLarge
          else (case JSON_parse message of
                  None \<Rightarrow> Inl Invalid
                | Some j \<Rightarrow> (case terminalMessageSchema j of None \<Rightarrow> Inl Invalid | Some v \<Rightarrow> Inr v)))"

definition handleClientMessage :: "string \<Rightarrow> nat \<Rightarrow> string option \<Rightarrow> TerminalManager \<Rightarrow> TerminalManager" where
  "handleClientMessage sid s raw m =
     (case map_of (tt_sessions m) sid of
        None \<Rightarrow> m
      | Some session \<Rightarrow>
          (case parseClientMessage raw of
             Inl reason \<Rightarrow> close_socket (if reason = TooLarge then 1009 else 1008) s m
           | Inr (MInput d) \<Rightarrow> m\<lparr>tt_log := tt_log m @ [TWritten (ts_pty session) d]\<rparr>
           | Inr (MResize c r) \<Rightarrow> m\<lparr>tt_log := tt_log m @ [TResized (ts_pty session) c r]\<rparr>))"

section \<open>Runs\<close>

text \<open>Sockets change their state by themselves, send messages and close; shells give output and end.  A
  handler of a socket runs as often as it was registered.\<close>

datatype terminal_event =
    TAttach "nat \<Rightarrow> bool" bool string nat | TDetach "nat \<Rightarrow> bool" string nat | TShutdown
  | TState nat readyState | TMessage nat string "string option"
  | TOutput "nat \<Rightarrow> bool" string string | TExit "nat \<Rightarrow> bool" string int "int option"

fun terminal_step :: "terminal_event \<Rightarrow> TerminalManager \<Rightarrow> TerminalManager" where
  "terminal_step (TAttach sends spawns sid s) m = fst (terminal_attach sends spawns sid s m)"
| "terminal_step (TDetach sends sid s) m = terminal_detach sends sid s m"
| "terminal_step TShutdown m = terminal_shutdown m"
| "terminal_step (TState s st) m = m\<lparr>tt_states := (tt_states m)(s := st)\<rparr>"
| "terminal_step (TMessage s sid raw) m = (if (s, sid) \<in> set (tt_handlers m) then handleClientMessage sid s raw m else m)"
| "terminal_step (TOutput sends sid d) m = safeBroadcast sends sid (BOutput d) m"
| "terminal_step (TExit sends sid code sig) m = destroySession True sid (safeBroadcast sends sid (BExit code sig) m)"

definition terminal_run :: "nat option \<Rightarrow> (nat \<Rightarrow> readyState) \<Rightarrow> terminal_event list \<Rightarrow> TerminalManager" where
  "terminal_run maxPending states es = fold terminal_step es (new_TerminalManager maxPending states)"

section \<open>No shell without a client\<close>

definition spawned :: "terminal_effect list \<Rightarrow> nat list" where
  "spawned l = concat (map (\<lambda>e. case e of TSpawned p \<Rightarrow> [p] | _ \<Rightarrow> []) l)"

definition killed :: "terminal_effect list \<Rightarrow> nat list" where
  "killed l = concat (map (\<lambda>e. case e of TKilled p \<Rightarrow> [p] | _ \<Rightarrow> []) l)"

definition input_ok :: "terminal_effect \<Rightarrow> bool" where
  "input_ok e = (case e of
      TWritten _ d \<Rightarrow> length d \<le> 8192
    | TResized _ c r \<Rightarrow> 1 \<le> c \<and> c \<le> 500 \<and> 1 \<le> r \<and> r \<le> 200
    | _ \<Rightarrow> True)"

lemma log_simps [simp]:
  "spawned [] = []" "spawned (l @ l') = spawned l @ spawned l'" "spawned [TSpawned p] = [p]" "spawned [TKilled p] = []"
  "spawned [TSent s b] = []" "spawned [TClosed s i] = []" "spawned [TWritten p d] = []" "spawned [TResized p c r] = []"
  "killed [] = []" "killed (l @ l') = killed l @ killed l'" "killed [TSpawned p] = []" "killed [TKilled p] = [p]"
  "killed [TSent s b] = []" "killed [TClosed s i] = []" "killed [TWritten p d] = []" "killed [TResized p c r] = []"
  by (simp_all add: spawned_def killed_def)

text \<open>The invariant, in which the sessions of \<open>X\<close> may be without clients for a moment.\<close>

definition sessions_ok :: "string set \<Rightarrow> (string \<Rightarrow> TerminalSession option) \<Rightarrow> bool" where
  "sessions_ok X f \<longleftrightarrow> (\<forall>sid session. f sid = Some session \<longrightarrow>
     distinct (ts_clients session) \<and> (sid \<notin> X \<longrightarrow> ts_clients session \<noteq> []))"

definition terminal_inv :: "string set \<Rightarrow> TerminalManager \<Rightarrow> bool" where
  "terminal_inv X m \<longleftrightarrow> tt_creatingSessions m = [] \<and> tt_pendingClients m = [] \<and> jwf (tt_sessions m) \<and>
     sessions_ok X (map_of (tt_sessions m)) \<and>
     spawned (tt_log m) = [0..<tt_ptys m] \<and>
     mset [0..<tt_ptys m] = mset (killed (tt_log m)) + mset (map ts_pty (jvalues (tt_sessions m))) \<and>
     list_all input_ok (tt_log m)"

lemma map_of_all_None:
  assumes "\<And>k. map_of al k = None"
  shows "al = []"
proof (cases al)
  case (Cons a as)
  with assms [of "fst a"] show ?thesis by (cases a) simp
qed simp

lemma sessions_ok_remove:
  "sessions_ok X f \<Longrightarrow> sid \<in> X \<Longrightarrow> sessions_ok X (f(sid := map_option (\<lambda>session. session\<lparr>ts_clients := removeAll s (ts_clients session)\<rparr>) (f sid)))"
  by (auto simp: sessions_ok_def distinct_removeAll)

lemma sessions_ok_delete: "sessions_ok (insert sid X) f \<Longrightarrow> sessions_ok X (f(sid := None))"
  by (auto simp: sessions_ok_def)

lemma sessions_ok_insert:
  "sessions_ok (insert sid X) f \<Longrightarrow> f sid = None \<or> (\<exists>session. f sid = Some session \<and> ts_clients session \<noteq> []) \<Longrightarrow> sessions_ok X f"
  by (fastforce simp: sessions_ok_def)

lemma map_jset_same: "map_of al k = Some v \<Longrightarrow> g v' = g v \<Longrightarrow> map g (jvalues (jset k v' al)) = map g (jvalues al)"
  by (induction al) (auto split: if_splits)

lemma map_jmodify_same: "(\<And>v. g (f v) = g v) \<Longrightarrow> map g (jvalues (jmodify k f al)) = map g (jvalues al)"
  by (auto simp: jmodify_def map_jset_same simp del: map_map split: option.split)

lemma mset_jdelete:
  "jwf al \<Longrightarrow> map_of al k = Some v \<Longrightarrow> add_mset (g v) (mset (map g (jvalues (jdelete k al)))) = mset (map g (jvalues al))"
proof (induction al)
  case (Cons a al)
  show ?case
  proof (cases "fst a = k")
    case True
    have "jdelete k al = al" using Cons.prems(1) True by (auto simp: AList.delete_eq filter_id_conv image_iff)
    moreover have "snd a = v" using Cons.prems(2) True by (cases a) simp
    ultimately show ?thesis using True by (cases a) simp
  next
    case False
    with Cons show ?thesis by (cases a) auto
  qed
qed simp

lemma close_socket_sessions [simp]: "tt_sessions (close_socket code s m) = tt_sessions m"
  by (simp add: close_socket_def)

lemma close_socket_inv: "terminal_inv X m \<Longrightarrow> terminal_inv X (close_socket code s m)"
  by (simp add: terminal_inv_def close_socket_def input_ok_def)

lemma remove_client_inv: "terminal_inv X m \<Longrightarrow> sid \<in> X \<Longrightarrow> terminal_inv X (remove_client sid s m)"
  by (simp add: terminal_inv_def remove_client_def map_of_jmodify map_jmodify_same sessions_ok_remove del: map_map)

lemma safeSend_inv: "terminal_inv X m \<Longrightarrow> safeSend sends payload s m = (m', b) \<Longrightarrow> terminal_inv X m'"
  by (auto simp: terminal_inv_def safeSend_def input_ok_def split: if_splits)

lemma deliver_inv: "deliver sends sid payload ss m = (m', b) \<Longrightarrow> terminal_inv X m \<Longrightarrow> sid \<in> X \<Longrightarrow> terminal_inv X m'"
proof (induction ss arbitrary: m b)
  case (Cons s ss)
  obtain m1 d where d: "safeSend sends payload s m = (m1, d)" by fastforce
  have m1: "terminal_inv X m1" using safeSend_inv [OF Cons.prems(2) d] .
  show ?case
  proof (cases d)
    case True
    with d Cons.prems(1) have "deliver sends sid payload ss m1 = (m', b)" by simp
    then show ?thesis using m1 Cons.prems(3) by (rule Cons.IH)
  next
    case False
    with d Cons.prems(1) obtain b' where "deliver sends sid payload ss (close_socket 1011 s (remove_client sid s m1)) = (m', b')"
      by (auto split: prod.splits)
    moreover have "terminal_inv X (close_socket 1011 s (remove_client sid s m1))"
      using m1 Cons.prems(3) by (simp add: close_socket_inv remove_client_inv)
    ultimately show ?thesis using Cons.IH Cons.prems(3) by blast
  qed
qed simp

lemma prune_inv: "terminal_inv X m \<Longrightarrow> sid \<in> X \<Longrightarrow> terminal_inv X (prune sid m)"
  unfolding prune_def by (rule fold_invariant [where Q = "\<lambda>_. True"]) (simp_all add: remove_client_inv)

lemma cleanup_inv: "terminal_inv X m \<Longrightarrow> sid \<in> X \<Longrightarrow> terminal_inv X (broadcastWithCleanup sends sid payload m)"
  unfolding broadcastWithCleanup_def
  by (rule fold_invariant [where Q = "\<lambda>_. True"]) (auto simp: remove_client_inv close_socket_inv safeSend_inv split: prod.splits)

lemma destroySession_inv:
  assumes "terminal_inv (insert sid X) m"
  shows "terminal_inv X (destroySession b sid m)" and "map_of (tt_sessions (destroySession b sid m)) sid = None"
proof -
  have close: "terminal_inv X (fold (\<lambda>s m. if tt_states m s = OPEN \<or> tt_states m s = CONNECTING then close_socket 1011 s m else m) ss m') \<and>
      map_of (tt_sessions (fold (\<lambda>s m. if tt_states m s = OPEN \<or> tt_states m s = CONNECTING then close_socket 1011 s m else m) ss m')) sid = None"
    if "terminal_inv X m' \<and> map_of (tt_sessions m') sid = None" for m' ss
    by (rule fold_invariant [where Q = "\<lambda>_. True" and P = "\<lambda>m. terminal_inv X m \<and> map_of (tt_sessions m) sid = None"])
      (use that in \<open>simp_all add: close_socket_inv\<close>)
  have "terminal_inv X (destroySession b sid m) \<and> map_of (tt_sessions (destroySession b sid m)) sid = None"
  proof (cases "map_of (tt_sessions m) sid")
    case None
    with assms show ?thesis by (simp add: destroySession_def terminal_inv_def sessions_ok_insert [of sid X])
  next
    case (Some session)
    let ?m = "m\<lparr>tt_sessions := jdelete sid (tt_sessions m), tt_log := tt_log m @ [TKilled (ts_pty session)]\<rparr>"
    have "jwf (tt_sessions m)" using assms by (simp add: terminal_inv_def)
    note balance = mset_jdelete [OF this Some, of ts_pty]
    have "terminal_inv X ?m \<and> map_of (tt_sessions ?m) sid = None"
      using assms balance by (simp add: terminal_inv_def map_of_jdelete input_ok_def sessions_ok_delete del: map_map)
    with Some close show ?thesis by (simp add: destroySession_def Let_def)
  qed
  then show "terminal_inv X (destroySession b sid m)" "map_of (tt_sessions (destroySession b sid m)) sid = None" by auto
qed

lemma destroySession_keeps: "map_of (tt_sessions m) k = None \<Longrightarrow> map_of (tt_sessions (destroySession b sid m)) k = None"
proof -
  assume k: "map_of (tt_sessions m) k = None"
  have "tt_sessions (fold (\<lambda>s m. if tt_states m s = OPEN \<or> tt_states m s = CONNECTING then close_socket 1011 s m else m) ss m') = tt_sessions m'"
    for ss m' by (induction ss arbitrary: m') auto
  with k show ?thesis by (auto simp: destroySession_def Let_def map_of_jdelete split: option.split)
qed

lemma inv_nonempty: "terminal_inv (insert sid X) m \<Longrightarrow> clients_of sid m \<noteq> [] \<Longrightarrow> terminal_inv X m"
  using sessions_ok_insert [of sid X "map_of (tt_sessions m)"] by (auto simp: terminal_inv_def clients_of_def split: option.splits)

lemma inv_absent: "terminal_inv (insert sid X) m \<Longrightarrow> map_of (tt_sessions m) sid = None \<Longrightarrow> terminal_inv X m"
  using sessions_ok_insert [of sid X "map_of (tt_sessions m)"] by (simp add: terminal_inv_def)

lemma inv_weaken: "terminal_inv X m \<Longrightarrow> terminal_inv (insert sid X) m"
  by (simp add: terminal_inv_def sessions_ok_def)

text \<open>A broadcast drops dead clients and ends a session that has none left.\<close>

lemma safeBroadcast_inv:
  assumes inv: "terminal_inv {sid} m"
  shows "terminal_inv {} (safeBroadcast sends sid payload m)"
proof (cases "map_of (tt_sessions m) sid = None")
  case True
  then show ?thesis using inv by (simp add: safeBroadcast_def inv_absent)
next
  case False
  define pruned where "pruned = prune sid m"
  define normalized where "normalized = (case payload of BStatus st _ \<Rightarrow> BStatus st (length (clients_of sid pruned)) | _ \<Rightarrow> payload)"
  obtain m1 r where d: "deliver sends sid normalized (clients_of sid pruned) pruned = (m1, r)" by fastforce
  have p: "terminal_inv {sid} pruned" using prune_inv [OF inv] by (simp add: pruned_def)
  have m1: "terminal_inv {sid} m1" by (rule deliver_inv [OF d p]) simp
  have m2: "terminal_inv {sid} (if b then broadcastWithCleanup sends sid q m1 else m1)" for b q
    using m1 by (simp add: cleanup_inv)
  have "terminal_inv {} (if clients_of sid m2 = [] then destroySession False sid m2 else m2)" if "terminal_inv {sid} m2" for m2
    using that destroySession_inv(1) [of sid "{}"] inv_nonempty [of sid "{}"] by auto
  note fin = this
  define m2 where "m2 = (case payload of
      BStatus st _ \<Rightarrow> if r \<and> length (clients_of sid m1) > 0 then broadcastWithCleanup sends sid (BStatus st (length (clients_of sid m1))) m1 else m1
    | _ \<Rightarrow> if (r \<or> clients_of sid pruned \<noteq> clients_of sid m) \<and> length (clients_of sid m1) > 0
           then broadcastWithCleanup sends sid (BStatus TDisconnected (length (clients_of sid m1))) m1 else m1)"
  have "terminal_inv {sid} m2" unfolding m2_def by (cases payload) (simp_all only: TerminalBroadcast.case m2)
  then have "terminal_inv {} (if clients_of sid m2 = [] then destroySession False sid m2 else m2)" by (rule fin)
  moreover have "safeBroadcast sends sid payload m = (if clients_of sid m2 = [] then destroySession False sid m2 else m2)"
    by (simp only: safeBroadcast_def Let_def False if_False pruned_def [symmetric] normalized_def [symmetric] d prod.case m2_def)
  ultimately show ?thesis by simp
qed

lemma attachClient_inv:
  assumes inv: "terminal_inv {sid} m" and "\<not> gone m s"
  shows "terminal_inv {} (attachClient sends sid s m)"
proof -
  let ?m = "m\<lparr>tt_sessions := jmodify sid (\<lambda>session. session\<lparr>ts_clients := List.insert s (ts_clients session)\<rparr>) (tt_sessions m)\<rparr>"
  have "sessions_ok {sid} (map_of (tt_sessions ?m))"
    using inv by (auto simp: terminal_inv_def sessions_ok_def map_of_jmodify)
  then have "terminal_inv {sid} ?m"
    using inv by (simp add: terminal_inv_def map_jmodify_same del: map_map)
  from safeBroadcast_inv [OF this] show ?thesis
    using assms(2) by (simp add: attachClient_def Let_def terminal_inv_def)
qed

lemma terminal_attach_inv:
  assumes inv: "terminal_inv {} m"
  shows "terminal_inv {} (fst (terminal_attach sends spawns sid s m))" and "snd (terminal_attach sends spawns sid s m) \<noteq> Pending"
proof -
  have idle: "tt_creatingSessions m = []" "tt_pendingClients m = []" using inv by (simp_all add: terminal_inv_def)
  have none: "tt_pendingClients (attachClient sends sid s m') = []" if "terminal_inv {sid} m'" "\<not> gone m' s" for m'
    using attachClient_inv [OF that] by (simp add: terminal_inv_def)
  have created: "terminal_inv {sid} (createSession sid m)" if "map_of (tt_sessions m) sid = None"
  proof -
    have "jset sid \<lparr>ts_pty = tt_ptys m, ts_clients = []\<rparr> (tt_sessions m) = tt_sessions m @ [(sid, \<lparr>ts_pty = tt_ptys m, ts_clients = []\<rparr>)]"
      using that by (intro jset_new) (simp add: map_of_eq_None_iff)
    with that inv show ?thesis
      by (auto simp: terminal_inv_def createSession_def sessions_ok_def map_of_jset input_ok_def map_of_eq_None_iff simp del: map_map
          split: if_splits)
  qed
  have "terminal_inv {} (fst (terminal_attach sends spawns sid s m)) \<and> snd (terminal_attach sends spawns sid s m) \<noteq> Pending"
  proof (cases "gone m s")
    case True
    with inv show ?thesis by (simp add: terminal_attach_def close_socket_inv)
  next
    case False
    consider (existed) "map_of (tt_sessions m) sid \<noteq> None" | (new) "map_of (tt_sessions m) sid = None" "spawns"
      | (failed) "map_of (tt_sessions m) sid = None" "\<not> spawns" by blast
    then show ?thesis
    proof cases
      case existed
      have m: "terminal_inv {sid} m" using inv by (rule inv_weaken)
      then show ?thesis
        using existed False idle attachClient_inv [OF m False] none [OF m False]
        by (auto simp: terminal_attach_def Let_def jget_or_def terminal_inv_def)
    next
      case new
      have g: "\<not> gone (createSession sid m) s" using False by (simp add: gone_def createSession_def)
      note m = created [OF new(1)]
      have p: "tt_pendingClients (createSession sid m) = []" using idle by (simp add: createSession_def)
      show ?thesis
        using new False idle p attachClient_inv [OF m g] none [OF m g]
        by (auto simp: terminal_attach_def Let_def jget_or_def terminal_inv_def)
    next
      case failed
      have "terminal_inv {} (close_socket 1011 s m)" using inv by (rule close_socket_inv)
      then show ?thesis
        using failed False idle by (auto simp: terminal_attach_def Let_def jget_or_def terminal_inv_def)
    qed
  qed
  then show "terminal_inv {} (fst (terminal_attach sends spawns sid s m))" "snd (terminal_attach sends spawns sid s m) \<noteq> Pending"
    by auto
qed

lemma terminal_detach_inv: "terminal_inv {} m \<Longrightarrow> terminal_inv {} (terminal_detach sends sid s m)"
proof -
  assume inv: "terminal_inv {} m"
  have "terminal_inv {sid} (remove_client sid s m)" using inv_weaken [OF inv] by (rule remove_client_inv) simp
  note m = safeBroadcast_inv [OF this]
  show ?thesis
    using inv m [of sends] destroySession_inv(1) [OF inv_weaken [OF m]] by (simp add: terminal_detach_def Let_def)
qed

lemma terminal_shutdown_inv:
  assumes inv: "terminal_inv {} m"
  shows "terminal_inv {} (terminal_shutdown m)" and "tt_sessions (terminal_shutdown m) = []"
proof -
  have inv': "terminal_inv {} (fold (destroySession b) ss m')" if "terminal_inv {} m'" for b ss m'
    by (rule fold_invariant [where Q = "\<lambda>_. True"]) (use that in \<open>simp_all add: destroySession_inv(1) inv_weaken\<close>)
  have gone: "map_of (tt_sessions (fold (destroySession b) ss m')) k = None"
    if "terminal_inv {} m'" "map_of (tt_sessions m') k = None \<or> k \<in> set ss" for b ss m' k
    using that
  proof (induction ss arbitrary: m')
    case (Cons a ss)
    have d: "terminal_inv {} (destroySession b a m')" "map_of (tt_sessions (destroySession b a m')) a = None"
      using destroySession_inv [OF inv_weaken [OF Cons.prems(1)]] by auto
    have "map_of (tt_sessions (destroySession b a m')) k = None" if "map_of (tt_sessions m') k = None"
      using that destroySession_keeps by blast
    with Cons d show ?case by auto
  qed simp
  have p: "tt_pendingClients m = []" using inv by (simp add: terminal_inv_def)
  then have same: "m\<lparr>tt_pendingClients := []\<rparr> = m" by (cases m) simp
  have eq: "terminal_shutdown m = fold (destroySession True) (jkeys (tt_sessions m)) m"
    by (simp only: terminal_shutdown_def Let_def p same fold_Nil id_apply)
  show "terminal_inv {} (terminal_shutdown m)" unfolding eq by (rule inv' [OF inv])
  have "map_of (tt_sessions (terminal_shutdown m)) k = None" for k
    unfolding eq by (rule gone [OF inv]) (auto simp: map_of_eq_None_iff)
  then show "tt_sessions (terminal_shutdown m) = []" by (rule map_of_all_None)
qed

lemma parse_checked: "parseClientMessage raw = Inr v \<Longrightarrow>
    (case v of MInput d \<Rightarrow> length d \<le> 8192 | MResize c r \<Rightarrow> 1 \<le> c \<and> c \<le> 500 \<and> 1 \<le> r \<and> r \<le> 200)"
  by (auto simp: parseClientMessage_def terminalMessageSchema_def split: option.splits if_splits json.splits)

lemma handleClientMessage_inv: "terminal_inv {} m \<Longrightarrow> terminal_inv {} (handleClientMessage sid s raw m)"
proof -
  assume inv: "terminal_inv {} m"
  have "terminal_inv {} (m\<lparr>tt_log := tt_log m @ [e]\<rparr>)" if "input_ok e" "spawned [e] = []" "killed [e] = []" for e
    using inv that by (simp add: terminal_inv_def)
  with inv show ?thesis
    using parse_checked [of raw]
    by (auto simp: handleClientMessage_def close_socket_inv input_ok_def split: option.split sum.split TerminalMessage.split)
qed

lemma terminal_step_inv: "terminal_inv {} m \<Longrightarrow> terminal_inv {} (terminal_step e m)"
proof (cases e)
  case (TState s st)
  assume "terminal_inv {} m"
  with TState show ?thesis by (simp add: terminal_inv_def)
next
  case (TExit sends sid code sig)
  assume "terminal_inv {} m"
  with TExit show ?thesis by (simp add: destroySession_inv(1) inv_weaken safeBroadcast_inv)
qed (simp_all add: terminal_attach_inv terminal_detach_inv terminal_shutdown_inv handleClientMessage_inv safeBroadcast_inv inv_weaken)

lemma terminal_run_inv: "terminal_inv {} (terminal_run maxPending states es)"
  unfolding terminal_run_def
  by (rule fold_invariant [where Q = "\<lambda>_. True"])
    (simp_all add: terminal_step_inv, simp add: new_TerminalManager_def terminal_inv_def sessions_ok_def)

text \<open>
  C40.  A shell runs exactly as long as it has clients.  However clients come, go and fail, and shells write and end: the
  shells that were started and not killed are those of the sessions, each session has its own and at least one client, no shell
  is killed twice; what is written to a shell has at most 8192 characters and its size stays in bounds; and after
  a shutdown no shell runs.
\<close>

theorem shells_have_clients:
  assumes "m = terminal_run maxPending states es"
  shows "mset (spawned (tt_log m)) = mset (killed (tt_log m)) + mset (map ts_pty (jvalues (tt_sessions m))) \<and>
    distinct (spawned (tt_log m)) \<and>
    (map_of (tt_sessions m) sid = Some session \<longrightarrow> ts_clients session \<noteq> []) \<and>
    list_all input_ok (tt_log m) \<and>
    mset (spawned (tt_log (terminal_shutdown m))) = mset (killed (tt_log (terminal_shutdown m)))"
proof -
  have inv: "terminal_inv {} m" using terminal_run_inv assms by simp
  then have "map_of (tt_sessions m) sid = Some session \<longrightarrow> ts_clients session \<noteq> []"
    unfolding terminal_inv_def sessions_ok_def by blast
  moreover have "mset (spawned (tt_log m)) = mset (killed (tt_log m)) + mset (map ts_pty (jvalues (tt_sessions m)))"
    "distinct (spawned (tt_log m))" "list_all input_ok (tt_log m)"
    using inv by (simp_all add: terminal_inv_def del: mset_upt)
  moreover have "mset (spawned (tt_log (terminal_shutdown m))) = mset (killed (tt_log (terminal_shutdown m)))"
    using terminal_shutdown_inv [OF inv] by (simp add: terminal_inv_def del: mset_upt)
  ultimately show ?thesis by simp
qed

definition demo_terminal :: "terminal_event list" where
  "demo_terminal = [TAttach (\<lambda>_. True) True ''s'' 1, TAttach (\<lambda>_. True) True ''s'' 2,
     TMessage 1 ''s'' (Some (JSON_stringify (JObj [(''type'', JStr ''input''), (''data'', JStr ''ls'')]))), TDetach (\<lambda>_. True) ''s'' 1]"

theorem shells_have_clients_witness:
  "map (\<lambda>(k, s). (k, ts_clients s)) (tt_sessions (terminal_run None (\<lambda>_. OPEN) demo_terminal)) = [(''s'', [2])] \<and>
   mset (spawned (tt_log (terminal_run None (\<lambda>_. OPEN) demo_terminal))) = {#0#} \<and>
   distinct (spawned (tt_log (terminal_run None (\<lambda>_. OPEN) demo_terminal)))"
proof -
  let ?m = "terminal_run None (\<lambda>_. OPEN) demo_terminal"
  have run: "tt_sessions ?m = [(''s'', \<lparr>ts_pty = 0, ts_clients = [2]\<rparr>)]" "killed (tt_log ?m) = []" by code_simp+
  then show ?thesis
    using shells_have_clients [OF refl, of None "\<lambda>_. OPEN" demo_terminal "''s''" "\<lparr>ts_pty = 0, ts_clients = [2]\<rparr>"] by simp
qed

text \<open>Clients never wait for a session that is being created: creation is not interrupted, so the list of
  waiting clients and its limit are never used.\<close>

lemma attach_never_pending: "snd (terminal_attach sends spawns sid s (terminal_run maxPending states es)) \<noteq> Pending"
  by (rule terminal_attach_inv(2) [OF terminal_run_inv])

text \<open>A client that was dropped after a failed delivery is still listened to until its socket has closed.\<close>

definition demo_dropped :: "terminal_event list" where
  "demo_dropped = [TAttach (\<lambda>_. True) True ''s'' 1, TAttach (\<lambda>_. True) True ''s'' 2, TOutput (\<lambda>s. s = 2) ''s'' ''out'',
    TMessage 1 ''s'' (Some (JSON_stringify (JObj [(''type'', JStr ''input''), (''data'', JStr ''x'')])))]"

lemma dropped_client_writes:
  "tt_sessions (terminal_run None (\<lambda>_. OPEN) demo_dropped) = [(''s'', \<lparr>ts_pty = 0, ts_clients = [2]\<rparr>)]"
  "TWritten 0 ''x'' \<in> set (dropWhile (\<lambda>e. e \<noteq> TClosed 1 1011) (tt_log (terminal_run None (\<lambda>_. OPEN) demo_dropped)))"
  by code_simp+

end
